(* ===== verification/Prelude.thy ===== *)
theory Prelude
  imports Main "HOL-Library.Word" "HOL-Library.AList" "HOL-Library.Sublist"
    "HOL-Library.List_Lexorder" "HOL-Library.Char_ord"
begin

text \<open>
  Shared vocabulary of the development: the Go types the components use (bytes, byte strings,
  instants and durations of package \<^verbatim>\<open>time\<close>), the string helpers of packages \<^verbatim>\<open>strings\<close> and
  \<^verbatim>\<open>strconv\<close> that the sources call, the unpadded URL-safe base64 encoding,
  and the generic facts on lists and association lists that the
  component theories share. A Go \<^verbatim>\<open>string\<close> is a sequence of bytes and is modelled by the HOL type
  \<^typ>\<open>string\<close>, whose characters are bytes; a Go \<^verbatim>\<open>[]byte\<close> is a list of 8-bit words.
\<close>

section \<open>Types\<close>

type_synonym byte = "8 word"
type_synonym bytes = "8 word list"

text \<open>An instant is a number of nanoseconds since the Unix epoch, a duration a number of nanoseconds.\<close>

type_synonym gotime = int
type_synonym duration = int

text \<open>
  A driver fault schedule: \<open>f i\<close> says that the \<open>i\<close>-th database statement of a call returns a
  driver error. It stands for everything the database can do wrong, so a theorem over all fault
  schedules covers every such behaviour.
\<close>

type_synonym faults = "nat \<Rightarrow> bool"

definition no_faults :: faults where
  "no_faults = (\<lambda>_. False)"

lemma no_faults_simp [simp]: "\<not> no_faults i"
  by (simp add: no_faults_def)

named_theorems store_simps \<open>definitions of the relay database operations\<close>
named_theorems wf_intros \<open>preservation of the representation invariants\<close>


section \<open>Package time\<close>

definition nsec :: "int \<Rightarrow> duration" where
  "nsec s = s * 1000000000"

definition minute :: duration where
  "minute = 60000000000"

definition max_duration :: duration where
  "max_duration = 9223372036854775807"

definition min_duration :: duration where
  "min_duration = - 9223372036854775808"

text \<open>The zero \<^verbatim>\<open>time.Time\<close> is January 1 of year 1, UTC.\<close>

definition zero_time :: gotime where
  "zero_time = - 62135596800000000000"

definition is_zero :: "gotime \<Rightarrow> bool" where
  "is_zero t \<longleftrightarrow> t = zero_time"

text \<open>\<^verbatim>\<open>Time.Sub\<close> saturates at the range of a 64-bit duration.\<close>

definition time_sub :: "gotime \<Rightarrow> gotime \<Rightarrow> duration" where
  "time_sub t u = max min_duration (min max_duration (t - u))"

text \<open>\<^verbatim>\<open>Time.Unix\<close>: whole seconds, rounded towards minus infinity.\<close>

definition unix :: "gotime \<Rightarrow> int" where
  "unix t = t div 1000000000"

lemma time_sub_ge_iff:
  assumes "min_duration < d" and "d \<le> max_duration"
  shows "d \<le> time_sub t u \<longleftrightarrow> d \<le> t - u"
  using assms by (auto simp: time_sub_def min_def max_def)

lemma time_sub_gt_iff:
  assumes "min_duration \<le> d" and "d < max_duration"
  shows "d < time_sub t u \<longleftrightarrow> d < t - u"
  using assms by (auto simp: time_sub_def min_def max_def)

lemma unix_mono: "t \<le> u \<Longrightarrow> unix t \<le> unix u"
  unfolding unix_def by (rule zdiv_mono1) auto


section \<open>Packages strings and strconv\<close>

definition has_prefix :: "string \<Rightarrow> string \<Rightarrow> bool" where
  "has_prefix s p \<longleftrightarrow> take (length p) s = p"

definition trim_prefix :: "string \<Rightarrow> string \<Rightarrow> string" where
  "trim_prefix s p = (if has_prefix s p then drop (length p) s else s)"

text \<open>The UTF-8 encodings of the code points that \<^verbatim>\<open>unicode.IsSpace\<close> accepts.\<close>

definition go_spaces :: "string list" where
  "go_spaces =
     map (\<lambda>n. [char_of n]) [9, 10, 11, 12, 13, 32 :: nat]
     @ map (map char_of) [[0xC2, 0x85 :: nat], [0xC2, 0xA0], [0xE1, 0x9A, 0x80]]
     @ map (\<lambda>n. map char_of [0xE2, 0x80, n]) [0x80 ..< 0x8B :: nat]
     @ map (map char_of) [[0xE2, 0x80, 0xA8 :: nat], [0xE2, 0x80, 0xA9], [0xE2, 0x80, 0xAF],
                          [0xE2, 0x81, 0x9F], [0xE3, 0x80, 0x80]]"

fun trim_left_fuel :: "nat \<Rightarrow> string list \<Rightarrow> string \<Rightarrow> string" where
  "trim_left_fuel 0 sp s = s"
| "trim_left_fuel (Suc n) sp s =
     (case find (\<lambda>p. has_prefix s p) sp of
        None \<Rightarrow> s
      | Some p \<Rightarrow> trim_left_fuel n sp (drop (length p) s))"

text \<open>Every stripped code point is at least one byte long, so \<open>length s\<close> rounds are enough.\<close>

definition trim_space :: "string \<Rightarrow> string" where
  "trim_space s =
     (let l = trim_left_fuel (length s) go_spaces s
      in rev (trim_left_fuel (length l) (map rev go_spaces) (rev l)))"

text \<open>\<^verbatim>\<open>strings.Join\<close>.\<close>

fun join_strings :: "string \<Rightarrow> string list \<Rightarrow> string" where
  "join_strings sep [] = []"
| "join_strings sep [x] = x"
| "join_strings sep (x # xs) = x @ sep @ join_strings sep xs"

text \<open>\<^verbatim>\<open>strings.FieldsFunc\<close> with the separator \<^verbatim>\<open>/\<close>: the non-empty segments of a path.\<close>

fun fields_slash :: "string \<Rightarrow> string \<Rightarrow> string list" where
  "fields_slash cur [] = (if cur = [] then [] else [rev cur])"
| "fields_slash cur (c # cs) =
     (if c = CHR ''/'' then (if cur = [] then fields_slash [] cs else rev cur # fields_slash [] cs)
      else fields_slash (c # cur) cs)"

definition path_fields :: "string \<Rightarrow> string list" where
  "path_fields p = fields_slash [] p"

definition is_digit :: "char \<Rightarrow> bool" where
  "is_digit c \<longleftrightarrow> (48 :: nat) \<le> of_char c \<and> of_char c \<le> (57 :: nat)"

definition digits_value :: "string \<Rightarrow> nat" where
  "digits_value s = foldl (\<lambda>n c. 10 * n + (of_char c - 48)) 0 s"

text \<open>
  \<^verbatim>\<open>v, _ := strconv.ParseUint(s, 10, 64)\<close>: a syntax error gives 0, a range error the largest
  value. \<^verbatim>\<open>v, _ := strconv.Atoi(s)\<close> likewise, with a sign.
\<close>

definition parse_uint64 :: "string \<Rightarrow> nat" where
  "parse_uint64 s =
     (if s = [] \<or> \<not> list_all is_digit s then 0 else min (digits_value s) (2 ^ 64 - 1))"

definition atoi :: "string \<Rightarrow> int" where
  "atoi s =
     (let neg = has_prefix s ''-'';
          t = (if neg \<or> has_prefix s ''+'' then drop 1 s else s)
      in if t = [] \<or> \<not> list_all is_digit t then 0
         else if neg then max (- int (digits_value t)) (- (2 ^ 63))
         else min (int (digits_value t)) (2 ^ 63 - 1))"

lemma parse_uint64_bound: "parse_uint64 s < 2 ^ 64"
  by (simp add: parse_uint64_def min_def)

lemma fields_slash_nonempty: "[] \<notin> set (fields_slash cur s)"
  by (induction cur s rule: fields_slash.induct) auto

lemma fields_slash_no_slash:
  "CHR ''/'' \<notin> set cur \<Longrightarrow> p \<in> set (fields_slash cur s) \<Longrightarrow> CHR ''/'' \<notin> set p"
  by (induction cur s rule: fields_slash.induct) (auto split: if_splits)


text \<open>Decimal notation, as \<^verbatim>\<open>strconv.FormatUint\<close> and \<^verbatim>\<open>FormatInt\<close> write it.\<close>

fun show_nat :: "nat \<Rightarrow> string" where
  "show_nat n = (if n < 10 then [char_of (48 + n)] else show_nat (n div 10) @ [char_of (48 + n mod 10)])"

declare show_nat.simps [simp del]

definition show_int :: "int \<Rightarrow> string" where
  "show_int i = (if i < 0 then ''-'' @ show_nat (nat (- i)) else show_nat (nat i))"


section \<open>Base64 (RawURLEncoding)\<close>

definition b64url_alphabet :: string where
  "b64url_alphabet =
     ''ABCDEFGHIJKLMNOPQRSTUVWXYZabcdefghijklmnopqrstuvwxyz0123456789-_''"

definition b64url_char :: "nat \<Rightarrow> char" where
  "b64url_char n = b64url_alphabet ! (n mod 64)"

fun b64url_encode :: "bytes \<Rightarrow> string" where
  "b64url_encode [] = []"
| "b64url_encode [a] =
     (let n = unat a * 16 in [b64url_char (n div 64), b64url_char n])"
| "b64url_encode [a, b] =
     (let n = (unat a * 256 + unat b) * 4
      in [b64url_char (n div 4096), b64url_char (n div 64), b64url_char n])"
| "b64url_encode (a # b # c # rest) =
     (let n = (unat a * 256 + unat b) * 256 + unat c
      in b64url_char (n div 262144) # b64url_char (n div 4096) # b64url_char (n div 64)
         # b64url_char n # b64url_encode rest)"

lemma b64url_char_in: "b64url_char n \<in> set b64url_alphabet"
proof -
  have "n mod 64 < length b64url_alphabet"
    by (simp add: b64url_alphabet_def)
  then show ?thesis
    unfolding b64url_char_def by (rule nth_mem)
qed

lemma set_b64url_encode: "set (b64url_encode bs) \<subseteq> set b64url_alphabet"
  by (induction bs rule: b64url_encode.induct) (auto simp: Let_def b64url_char_in)

lemma length_b64url_encode: "length (b64url_encode bs) = (4 * length bs + 2) div 3"
  by (induction bs rule: b64url_encode.induct) (auto simp: Let_def)

definition bytes_of :: "string \<Rightarrow> bytes" where
  "bytes_of s = map of_char s"


lemma of_char_byte_inj: "(of_char x :: 8 word) = of_char y \<longleftrightarrow> x = y"
proof
  assume "of_char x = (of_char y :: 8 word)"
  then have "of_nat (of_char x) = (of_nat (of_char y) :: 8 word)" by (simp add: of_nat_of_char)
  moreover have "unat (of_nat (of_char z) :: 8 word) = of_char z" for z
    using nat_of_char_less_256[of z] by (simp add: unat_of_nat)
  ultimately have "(of_char x :: nat) = of_char y" by metis
  then show "x = y" by simp
qed simp


section \<open>Association lists and lists\<close>

text \<open>A Go map whose size or iteration matters is an association list with distinct keys.\<close>

lemma length_alist_update:
  "length (AList.update k v al) = (if k \<in> fst ` set al then length al else Suc (length al))"
  by (induction al) auto

lemma length_alist_delete_le: "length (AList.delete k al) \<le> length al"
  by (simp add: AList.delete_eq)

lemma distinct_map_fst_filter: "distinct (map fst al) \<Longrightarrow> distinct (map fst (filter P al))"
  by (rule distinct_map_filter)

lemma map_of_filter_Some:
  assumes "distinct (map fst al)"
  shows "map_of (filter P al) k = Some v \<longleftrightarrow> map_of al k = Some v \<and> P (k, v)"
  using assms by (auto simp: distinct_map_filter)

lemma sum_list_filter_le:
  fixes f :: "'a \<Rightarrow> int"
  assumes "\<And>x. x \<in> set xs \<Longrightarrow> 0 \<le> f x"
  shows "sum_list (map f (filter P xs)) \<le> sum_list (map f xs)"
  using assms by (induction xs) (auto simp: add_increasing)

lemma sum_list_map_nonneg:
  fixes f :: "'a \<Rightarrow> int"
  assumes "\<And>x. x \<in> set xs \<Longrightarrow> 0 \<le> f x"
  shows "0 \<le> sum_list (map f xs)"
  using assms by (induction xs) auto

lemma find_Some_iff_mem: "find P xs = Some x \<Longrightarrow> x \<in> set xs \<and> P x"
  by (auto simp: find_Some_iff)

lemma find_None_iff_all: "find P xs = None \<longleftrightarrow> (\<forall>x \<in> set xs. \<not> P x)"
  by (auto simp: find_None_iff)

lemma find_map_keep:
  assumes "\<And>x. P (g x) = P x"
  shows "find P (map g xs) = map_option g (find P xs)"
  using assms by (induction xs) auto

lemma find_append_case:
  "find P (xs @ ys) = (case find P xs of None \<Rightarrow> find P ys | Some x \<Rightarrow> Some x)"
  by (induction xs) auto

end
