(* ===== verification/Rate_Limiter.thy ===== *)
theory Rate_Limiter
  imports Prelude
begin

text \<open>
  The fixed-window request limiter of the relay server (\<^verbatim>\<open>relay-server/internal/relay/limiter.go\<close>):
  per-key buckets with a window start and a count, a bounded number of buckets, a lazy cleanup of
  stale buckets, and three counters. The theory shows that the limiter keeps its representation
  invariant (never more than \<open>maxBuckets\<close> buckets, no count above the limit) and that in any
  stretch of time shorter than the interval a key is granted at most twice the limit, exactly the
  limit when the key has no bucket from an earlier window.
\<close>

section \<open>State and operations\<close>

record rateBucket =
  rb_window :: gotime
  rb_count :: int

record RateLimiter =
  rl_limit :: int
  rl_interval :: duration
  rl_bucketTTL :: duration
  rl_maxBuckets :: int
  rl_lastCleanup :: gotime
  rl_buckets :: "(string \<times> rateBucket) list"
  rl_rateDenied :: "64 word"
  rl_capacityDenied :: "64 word"
  rl_cleaned :: "64 word"

definition NewBoundedRateLimiter :: "int \<Rightarrow> duration \<Rightarrow> int \<Rightarrow> duration \<Rightarrow> RateLimiter" where
  "NewBoundedRateLimiter limit interval maxBuckets bucketTTL =
     \<lparr>rl_limit = limit,
      rl_interval = interval,
      rl_bucketTTL = (if bucketTTL < interval then 2 * interval else bucketTTL),
      rl_maxBuckets = (if maxBuckets \<le> 0 then 4096 else maxBuckets),
      rl_lastCleanup = zero_time, rl_buckets = [],
      rl_rateDenied = 0, rl_capacityDenied = 0, rl_cleaned = 0\<rparr>"

definition NewRateLimiter :: "int \<Rightarrow> duration \<Rightarrow> RateLimiter" where
  "NewRateLimiter limit interval = NewBoundedRateLimiter limit interval 4096 (2 * interval)"

definition cleanupLocked :: "gotime \<Rightarrow> RateLimiter \<Rightarrow> RateLimiter" where
  "cleanupLocked now l =
     (let stale = (\<lambda>(k, b). rl_bucketTTL l \<le> time_sub now (rb_window b))
      in l\<lparr>rl_buckets := filter (\<lambda>kb. \<not> stale kb) (rl_buckets l),
           rl_cleaned := rl_cleaned l + of_nat (length (filter stale (rl_buckets l))),
           rl_lastCleanup := now\<rparr>)"

text \<open>
  The part of \<^verbatim>\<open>Allow\<close> after the lazy cleanup: look the bucket up (a missing key reads as the zero
  bucket), start a new window when the old one is over, charge it.
\<close>

definition current_bucket :: "string \<Rightarrow> gotime \<Rightarrow> RateLimiter \<Rightarrow> rateBucket" where
  "current_bucket key now l =
     (let found = (case map_of (rl_buckets l) key of
                     None \<Rightarrow> \<lparr>rb_window = zero_time, rb_count = 0\<rparr>
                   | Some b \<Rightarrow> b)
      in if is_zero (rb_window found) \<or> rl_interval l \<le> time_sub now (rb_window found)
         then \<lparr>rb_window = now, rb_count = 0\<rparr> else found)"

definition charge :: "string \<Rightarrow> gotime \<Rightarrow> RateLimiter \<Rightarrow> bool \<times> RateLimiter" where
  "charge key now l =
     (if map_of (rl_buckets l) key = None \<and> rl_maxBuckets l \<le> int (length (rl_buckets l))
      then (False, l\<lparr>rl_capacityDenied := rl_capacityDenied l + 1\<rparr>)
      else
        let bucket = current_bucket key now l
        in if rl_limit l \<le> rb_count bucket
           then (False, l\<lparr>rl_buckets := AList.update key bucket (rl_buckets l),
                          rl_rateDenied := rl_rateDenied l + 1\<rparr>)
           else (True, l\<lparr>rl_buckets :=
                   AList.update key (bucket\<lparr>rb_count := rb_count bucket + 1\<rparr>) (rl_buckets l)\<rparr>))"

definition allow_live :: "RateLimiter \<Rightarrow> string \<Rightarrow> gotime \<Rightarrow> bool \<times> RateLimiter" where
  "allow_live l key now =
     (if rl_limit l \<le> 0 then (True, l)
      else charge key now
             (if is_zero (rl_lastCleanup l) \<or> rl_interval l \<le> time_sub now (rl_lastCleanup l)
              then cleanupLocked now l else l))"

text \<open>The method on a pointer: a nil limiter allows everything.\<close>

definition Allow :: "RateLimiter option \<Rightarrow> string \<Rightarrow> gotime \<Rightarrow> bool \<times> RateLimiter option" where
  "Allow l key now =
     (case l of None \<Rightarrow> (True, None)
      | Some x \<Rightarrow> (let (ok, x') = allow_live x key now in (ok, Some x')))"

record RateLimiterStats =
  st_Buckets :: int
  st_RateDenied :: "64 word"
  st_CapacityDenied :: "64 word"
  st_Cleaned :: "64 word"

definition Stats :: "RateLimiter option \<Rightarrow> RateLimiterStats" where
  "Stats l =
     (case l of
        None \<Rightarrow> \<lparr>st_Buckets = 0, st_RateDenied = 0, st_CapacityDenied = 0, st_Cleaned = 0\<rparr>
      | Some x \<Rightarrow> \<lparr>st_Buckets = int (length (rl_buckets x)), st_RateDenied = rl_rateDenied x,
                   st_CapacityDenied = rl_capacityDenied x, st_Cleaned = rl_cleaned x\<rparr>)"

text \<open>A sequence of calls, and how many of them granted a given key.\<close>

fun run_calls :: "RateLimiter \<Rightarrow> (string \<times> gotime) list \<Rightarrow> RateLimiter" where
  "run_calls l [] = l"
| "run_calls l ((k, t) # cs) = run_calls (snd (allow_live l k t)) cs"

fun granted :: "string \<Rightarrow> RateLimiter \<Rightarrow> (string \<times> gotime) list \<Rightarrow> int" where
  "granted key l [] = 0"
| "granted key l ((k, t) # cs) =
     (if k = key \<and> fst (allow_live l k t) then 1 else 0) + granted key (snd (allow_live l k t)) cs"


section \<open>Representation invariant\<close>

definition wf_limiter :: "RateLimiter \<Rightarrow> bool" where
  "wf_limiter l \<longleftrightarrow>
     0 < rl_limit l \<and> 0 < rl_interval l \<and> rl_interval l \<le> max_duration
     \<and> rl_interval l \<le> rl_bucketTTL l \<and> 0 < rl_maxBuckets l
     \<and> distinct (map fst (rl_buckets l))
     \<and> int (length (rl_buckets l)) \<le> rl_maxBuckets l
     \<and> (\<forall>kb \<in> set (rl_buckets l). 0 \<le> rb_count (snd kb) \<and> rb_count (snd kb) \<le> rl_limit l)"

lemma wf_limiterD:
  assumes "wf_limiter l"
  shows "0 < rl_limit l" and "0 < rl_interval l" and "rl_interval l \<le> max_duration"
    and "rl_interval l \<le> rl_bucketTTL l" and "distinct (map fst (rl_buckets l))"
  using assms by (auto simp: wf_limiter_def)

lemma wf_limiter_count:
  assumes "wf_limiter l" and "map_of (rl_buckets l) k = Some b"
  shows "0 \<le> rb_count b" and "rb_count b \<le> rl_limit l"
proof -
  from assms(2) have "(k, b) \<in> set (rl_buckets l)"
    by (rule map_of_SomeD)
  with assms(1) show "0 \<le> rb_count b" and "rb_count b \<le> rl_limit l"
    unfolding wf_limiter_def by fastforce+
qed

lemma current_bucket_count:
  assumes "wf_limiter l"
  shows "0 \<le> rb_count (current_bucket key now l)"
    and "rb_count (current_bucket key now l) \<le> rl_limit l"
  using wf_limiterD(1)[OF assms] wf_limiter_count[OF assms, of key]
  by (cases "map_of (rl_buckets l) key"; simp add: current_bucket_def Let_def)+

lemma wf_NewRateLimiter:
  assumes "0 < limit" and "0 < interval" and "interval \<le> max_duration"
  shows "wf_limiter (NewRateLimiter limit interval)"
  using assms by (simp add: wf_limiter_def NewRateLimiter_def NewBoundedRateLimiter_def)

lemma wf_cleanupLocked: "wf_limiter l \<Longrightarrow> wf_limiter (cleanupLocked now l)"
  by (auto simp: wf_limiter_def cleanupLocked_def Let_def distinct_map_filter
           intro: order_trans[OF of_nat_mono[OF length_filter_le]])

lemma set_alist_update:
  "x \<in> set (AList.update k v al) \<Longrightarrow> x = (k, v) \<or> x \<in> set al"
  by (induction al) (auto split: if_splits)

lemma wf_update_bucket:
  assumes "wf_limiter l" and "0 \<le> rb_count b" and "rb_count b \<le> rl_limit l"
    and "map_of (rl_buckets l) key \<noteq> None \<or> int (length (rl_buckets l)) < rl_maxBuckets l"
  shows "wf_limiter (l\<lparr>rl_buckets := AList.update key b (rl_buckets l)\<rparr>)"
  using assms
  by (auto simp: wf_limiter_def length_alist_update distinct_update map_of_eq_None_iff
           dest!: set_alist_update)

lemma wf_charge: "wf_limiter l \<Longrightarrow> wf_limiter (snd (charge key now l))"
proof -
  assume wf: "wf_limiter l"
  have frame: "wf_limiter (l\<lparr>rl_capacityDenied := y\<rparr>)"
    "wf_limiter (l\<lparr>rl_buckets := bs, rl_rateDenied := x\<rparr>) = wf_limiter (l\<lparr>rl_buckets := bs\<rparr>)"
    for x y bs
    using wf by (simp_all add: wf_limiter_def)
  show ?thesis
    using current_bucket_count[OF wf, of key now]
    by (auto simp: charge_def Let_def frame intro!: wf_update_bucket[OF wf])
qed

lemma wf_allow_live: "wf_limiter l \<Longrightarrow> wf_limiter (snd (allow_live l key now))"
  by (simp add: allow_live_def wf_charge wf_cleanupLocked)

lemma charge_params [simp]:
  "rl_limit (snd (charge key now l)) = rl_limit l"
  "rl_interval (snd (charge key now l)) = rl_interval l"
  "rl_maxBuckets (snd (charge key now l)) = rl_maxBuckets l"
  by (simp_all add: charge_def Let_def)

lemma cleanupLocked_params [simp]:
  "rl_limit (cleanupLocked now l) = rl_limit l"
  "rl_interval (cleanupLocked now l) = rl_interval l"
  "rl_bucketTTL (cleanupLocked now l) = rl_bucketTTL l"
  "rl_maxBuckets (cleanupLocked now l) = rl_maxBuckets l"
  by (simp_all add: cleanupLocked_def Let_def)

lemma allow_live_params [simp]:
  "rl_limit (snd (allow_live l key now)) = rl_limit l"
  "rl_interval (snd (allow_live l key now)) = rl_interval l"
  "rl_maxBuckets (snd (allow_live l key now)) = rl_maxBuckets l"
  by (simp_all add: allow_live_def)

lemma wf_run_calls: "wf_limiter l \<Longrightarrow> wf_limiter (run_calls l cs)"
  by (induction l cs rule: run_calls.induct) (auto simp: wf_allow_live)


section \<open>How much a key is granted\<close>

text \<open>
  What a key can still be granted before \<open>t0 + interval\<close>: the rest of its window, plus a whole
  fresh window when its current one started before \<open>t0\<close>.
\<close>

definition quota :: "string \<Rightarrow> gotime \<Rightarrow> RateLimiter \<Rightarrow> int" where
  "quota key t0 l =
     (case map_of (rl_buckets l) key of
        None \<Rightarrow> rl_limit l
      | Some b \<Rightarrow> if t0 \<le> rb_window b then rl_limit l - rb_count b
                  else 2 * rl_limit l - rb_count b)"

definition in_stretch :: "gotime \<Rightarrow> RateLimiter \<Rightarrow> gotime \<Rightarrow> bool" where
  "in_stretch t0 l t \<longleftrightarrow> t0 \<le> t \<and> t < t0 + rl_interval l"

lemma quota_bounds:
  assumes "wf_limiter l"
  shows "0 \<le> quota key t0 l" and "quota key t0 l \<le> 2 * rl_limit l"
  using wf_limiterD(1)[OF assms] wf_limiter_count[OF assms, of key]
  by (cases "map_of (rl_buckets l) key"; force simp: quota_def)+

lemma interval_elapsed_iff:
  assumes "wf_limiter l"
  shows "rl_interval l \<le> time_sub now u \<longleftrightarrow> rl_interval l \<le> now - u"
  using wf_limiterD(2,3)[OF assms] by (intro time_sub_ge_iff) (auto simp: min_duration_def)

lemma ttl_elapsed_imp:
  assumes wf: "wf_limiter l" and "rl_bucketTTL l \<le> time_sub now u"
  shows "rl_interval l \<le> now - u"
proof -
  from assms(2) wf_limiterD(4)[OF wf] have "rl_interval l \<le> time_sub now u"
    by simp
  then show ?thesis
    by (simp add: interval_elapsed_iff[OF wf])
qed

lemma map_of_cleanupLocked:
  assumes wf: "wf_limiter l"
  shows "map_of (rl_buckets (cleanupLocked now l)) k =
     (case map_of (rl_buckets l) k of
        None \<Rightarrow> None
      | Some b \<Rightarrow> if rl_bucketTTL l \<le> time_sub now (rb_window b) then None else Some b)"
  using map_of_filter_Some[OF wf_limiterD(5)[OF wf],
      of "\<lambda>kb. \<not> (\<lambda>(k, b). rl_bucketTTL l \<le> time_sub now (rb_window b)) kb" k]
  by (cases "map_of (rl_buckets (cleanupLocked now l)) k")
     (auto simp: cleanupLocked_def Let_def split: option.splits)

lemma quota_cleanupLocked:
  assumes wf: "wf_limiter l" and "in_stretch t0 l now"
  shows "quota key t0 (cleanupLocked now l) \<le> quota key t0 l"
proof (cases "map_of (rl_buckets l) key")
  case None
  then show ?thesis by (simp add: quota_def map_of_cleanupLocked[OF wf])
next
  case (Some b)
  then show ?thesis
    using assms(2) wf_limiter_count[OF wf Some] ttl_elapsed_imp[OF wf, of now "rb_window b"]
    by (auto simp: quota_def map_of_cleanupLocked[OF wf] in_stretch_def)
qed

lemma quota_update:
  "quota key t0 (l\<lparr>rl_buckets := AList.update k b (rl_buckets l)\<rparr>) =
     (if k = key then if t0 \<le> rb_window b then rl_limit l - rb_count b
                      else 2 * rl_limit l - rb_count b
      else quota key t0 l)"
  by (simp add: quota_def update_conv' split: option.split)

lemma quota_frame [simp]:
  "quota key t0 (l\<lparr>rl_rateDenied := x\<rparr>) = quota key t0 l"
  "quota key t0 (l\<lparr>rl_buckets := bs, rl_rateDenied := x\<rparr>) = quota key t0 (l\<lparr>rl_buckets := bs\<rparr>)"
  "quota key t0 (l\<lparr>rl_capacityDenied := x\<rparr>) = quota key t0 l"
  by (simp_all add: quota_def split: option.split)

text \<open>Refreshing the window never gives a key more than its quota.\<close>

lemma quota_current_bucket:
  assumes wf: "wf_limiter l" and s: "in_stretch t0 l now" and z: "zero_time < t0"
  shows "(if t0 \<le> rb_window (current_bucket key now l)
          then rl_limit l - rb_count (current_bucket key now l)
          else 2 * rl_limit l - rb_count (current_bucket key now l)) \<le> quota key t0 l"
proof (cases "map_of (rl_buckets l) key")
  case None
  then show ?thesis
    using s by (simp add: quota_def current_bucket_def is_zero_def in_stretch_def)
next
  case (Some b)
  then show ?thesis
    using s z wf_limiter_count[OF wf Some] interval_elapsed_iff[OF wf, of now "rb_window b"]
    by (auto simp: quota_def current_bucket_def is_zero_def in_stretch_def)
qed

lemma quota_charge:
  assumes wf: "wf_limiter l" and s: "in_stretch t0 l now" and z: "zero_time < t0"
  shows "(if k = key \<and> fst (charge k now l) then 1 else 0) + quota key t0 (snd (charge k now l))
         \<le> quota key t0 l"
  using quota_current_bucket[OF assms, of key]
  by (simp add: charge_def Let_def quota_update split: if_splits)

lemma quota_allow_live:
  assumes wf: "wf_limiter l" and s: "in_stretch t0 l now" and z: "zero_time < t0"
  shows "(if k = key \<and> fst (allow_live l k now) then 1 else 0)
           + quota key t0 (snd (allow_live l k now)) \<le> quota key t0 l"
proof -
  have c: "in_stretch t0 (cleanupLocked now l) now"
    using s by (simp add: in_stretch_def)
  show ?thesis
    using quota_charge[OF wf s z, of k key] quota_cleanupLocked[OF wf s, of key]
      quota_charge[OF wf_cleanupLocked[OF wf] c z, of k key] wf_limiterD(1)[OF wf]
    by (cases "k = key") (auto simp: allow_live_def split: if_splits)
qed

lemma granted_le_quota:
  assumes "wf_limiter l" and "zero_time < t0"
    and "\<forall>c \<in> set cs. in_stretch t0 l (snd c)"
  shows "granted key l cs \<le> quota key t0 l"
  using assms
proof (induction cs arbitrary: l)
  case Nil
  then show ?case by (simp add: quota_bounds)
next
  case (Cons c cs)
  obtain k t where c: "c = (k, t)" by force
  let ?l' = "snd (allow_live l k t)"
  from Cons.prems c have s: "in_stretch t0 l t" by simp
  have "granted key ?l' cs \<le> quota key t0 ?l'"
    using Cons.prems by (intro Cons.IH) (auto simp: wf_allow_live in_stretch_def)
  with quota_allow_live[OF Cons.prems(1) s Cons.prems(2), of k key] show ?case
    by (simp add: c split: if_splits)
qed

text \<open>
  One key calling alone from a state that has no bucket for it: as long as quota is left, it is
  granted.
\<close>

definition window_used :: "string \<Rightarrow> gotime \<Rightarrow> int \<Rightarrow> RateLimiter \<Rightarrow> bool" where
  "window_used key t0 n l \<longleftrightarrow>
     (case map_of (rl_buckets l) key of
        None \<Rightarrow> n = 0 \<and> int (length (rl_buckets l)) < rl_maxBuckets l
      | Some b \<Rightarrow> t0 \<le> rb_window b \<and> rb_window b < t0 + rl_interval l \<and> rb_count b = n)"

lemma window_used_cleanupLocked:
  assumes wf: "wf_limiter l" and s: "in_stretch t0 l now" and u: "window_used key t0 n l"
  shows "window_used key t0 n (cleanupLocked now l)"
proof -
  have "length (rl_buckets (cleanupLocked now l)) \<le> length (rl_buckets l)"
    by (simp add: cleanupLocked_def Let_def)
  then show ?thesis
    using u s ttl_elapsed_imp[OF wf, of now]
    by (fastforce simp: window_used_def map_of_cleanupLocked[OF wf] in_stretch_def
                  split: option.splits)
qed

lemma charge_window_used:
  assumes wf: "wf_limiter l" and s: "in_stretch t0 l now" and z: "zero_time < t0"
    and u: "window_used key t0 n l"
  shows "fst (charge key now l) \<longleftrightarrow> n < rl_limit l"
    and "window_used key t0 (if n < rl_limit l then n + 1 else n) (snd (charge key now l))"
proof -
  have b: "rb_count (current_bucket key now l) = n \<and> t0 \<le> rb_window (current_bucket key now l)
      \<and> rb_window (current_bucket key now l) < t0 + rl_interval l"
    using u s z interval_elapsed_iff[OF wf, of now]
    by (auto simp: window_used_def current_bucket_def is_zero_def in_stretch_def
             split: option.splits)
  have cap: "\<not> (map_of (rl_buckets l) key = None \<and> rl_maxBuckets l \<le> int (length (rl_buckets l)))"
    using u by (auto simp: window_used_def)
  show "fst (charge key now l) \<longleftrightarrow> n < rl_limit l"
    using b cap by (auto simp: charge_def Let_def)
  show "window_used key t0 (if n < rl_limit l then n + 1 else n) (snd (charge key now l))"
    using b cap by (auto simp: charge_def Let_def window_used_def update_conv')
qed

lemma allow_live_window_used:
  assumes wf: "wf_limiter l" and s: "in_stretch t0 l now" and z: "zero_time < t0"
    and u: "window_used key t0 n l"
  shows "fst (allow_live l key now) \<longleftrightarrow> n < rl_limit l"
    and "window_used key t0 (if n < rl_limit l then n + 1 else n) (snd (allow_live l key now))"
proof -
  have s': "in_stretch t0 (cleanupLocked now l) now"
    using s by (simp add: in_stretch_def)
  note c = charge_window_used[OF wf s z u]
    charge_window_used[OF wf_cleanupLocked[OF wf] s' z window_used_cleanupLocked[OF wf s u]]
  show "fst (allow_live l key now) \<longleftrightarrow> n < rl_limit l"
    using c wf_limiterD(1)[OF wf] by (simp add: allow_live_def)
  show "window_used key t0 (if n < rl_limit l then n + 1 else n) (snd (allow_live l key now))"
    using c wf_limiterD(1)[OF wf] by (cases "n < rl_limit l") (simp_all add: allow_live_def)
qed

lemma granted_alone:
  assumes "wf_limiter l" and "zero_time < t0" and "window_used key t0 n l"
    and "0 \<le> n" and "n \<le> rl_limit l"
    and "\<forall>t \<in> set ts. in_stretch t0 l t"
  shows "granted key l (map (Pair key) ts) = min (int (length ts)) (rl_limit l - n)"
  using assms
proof (induction ts arbitrary: l n)
  case Nil
  then show ?case by simp
next
  case (Cons t ts)
  let ?l' = "snd (allow_live l key t)" and ?n' = "if n < rl_limit l then n + 1 else n"
  have s: "in_stretch t0 l t" using Cons.prems by simp
  note step = allow_live_window_used[OF Cons.prems(1) s Cons.prems(2,3)]
  have "granted key ?l' (map (Pair key) ts) = min (int (length ts)) (rl_limit ?l' - ?n')"
    using Cons.prems step(2)
    by (intro Cons.IH) (auto simp: wf_allow_live in_stretch_def)
  with step(1) Cons.prems(4,5) show ?case by auto
qed


section \<open>Properties\<close>

text \<open>
  In any stretch of time shorter than the limiter's interval a key is granted at most twice the
  limit, whatever other keys do, and at most the limit when it has no bucket at the start of the
  stretch; the limiter never holds more buckets than its capacity afterwards.
\<close>

theorem rate_limit_window:
  assumes "wf_limiter l" and "zero_time < t0"
    and "\<forall>c \<in> set cs. t0 \<le> snd c \<and> snd c < t0 + rl_interval l"
  shows "granted key l cs \<le> 2 * rl_limit l
    \<and> (map_of (rl_buckets l) key = None \<longrightarrow> granted key l cs \<le> rl_limit l)
    \<and> int (length (rl_buckets (run_calls l cs))) \<le> rl_maxBuckets (run_calls l cs)"
proof (intro conjI)
  have s: "\<forall>c \<in> set cs. in_stretch t0 l (snd c)"
    using assms(3) by (simp add: in_stretch_def)
  note q = granted_le_quota[OF assms(1,2) s, of key]
  show "granted key l cs \<le> 2 * rl_limit l"
    using q quota_bounds(2)[OF assms(1), of key t0] by linarith
  show "map_of (rl_buckets l) key = None \<longrightarrow> granted key l cs \<le> rl_limit l"
    using q by (auto simp: quota_def)
  show "int (length (rl_buckets (run_calls l cs))) \<le> rl_maxBuckets (run_calls l cs)"
    using wf_run_calls[OF assms(1), of cs] by (simp add: wf_limiter_def)
qed

theorem rate_limit_window_witness:
  "granted ''ip'' (NewRateLimiter 2 minute) [(''ip'', 5), (''ip'', 6), (''x'', 7), (''ip'', 8)] \<le> 2"
proof -
  have wf: "wf_limiter (NewRateLimiter 2 minute)"
    by (rule wf_NewRateLimiter) (simp_all add: minute_def max_duration_def)
  show ?thesis
    using rate_limit_window[OF wf, of 5 "[(''ip'', 5), (''ip'', 6), (''x'', 7), (''ip'', 8)]" "''ip''"]
    by (simp add: NewRateLimiter_def NewBoundedRateLimiter_def minute_def zero_time_def)
qed

text \<open>
  The limiter is not only an upper bound: a key that has no bucket, in a limiter with a free
  slot, and that calls at any instants within one interval, is granted exactly as many calls as it
  makes up to the limit.
\<close>

theorem rate_limit_exact:
  assumes "wf_limiter l" and "zero_time < t0"
    and "map_of (rl_buckets l) key = None"
    and "int (length (rl_buckets l)) < rl_maxBuckets l"
    and "\<forall>t \<in> set ts. t0 \<le> t \<and> t < t0 + rl_interval l"
  shows "granted key l (map (Pair key) ts) = min (int (length ts)) (rl_limit l)"
proof -
  have "window_used key t0 0 l"
    using assms(3,4) by (simp add: window_used_def)
  moreover have "\<forall>t \<in> set ts. in_stretch t0 l t"
    using assms(5) by (simp add: in_stretch_def)
  ultimately show ?thesis
    using granted_alone[OF assms(1,2)] wf_limiterD(1)[OF assms(1)] by fastforce
qed

theorem rate_limit_exact_witness:
  "granted ''ip'' (NewRateLimiter 2 minute) (map (Pair ''ip'') [5, 6, 7]) = 2"
proof -
  have wf: "wf_limiter (NewRateLimiter 2 minute)"
    by (rule wf_NewRateLimiter) (simp_all add: minute_def max_duration_def)
  show ?thesis
    using rate_limit_exact[OF wf, of 5 "''ip''" "[5, 6, 7]"]
    by (simp add: NewRateLimiter_def NewBoundedRateLimiter_def minute_def zero_time_def)
qed

end
