(* ===== verification/Cursor_Log.thy ===== *)
theory Cursor_Log
  imports Prelude
begin

text \<open>
  The contract the three mailboxes of the repository share (the relay database, the in-process relay
  hub, the mailbox service): per destination, the pending frames are kept in strictly increasing
  cursor order below a high-water mark that no operation lowers, and an operation only ever adds
  frames above the mark. The client lemmas, proved once here, are what a device relies on when it
  fetches by cursor and acknowledges: a cursor names one frame for ever, and a frame that has left
  the mailbox never comes back.
\<close>

locale cursor_log =
  fixes inv :: "'s \<Rightarrow> bool"
    and pend :: "'s \<Rightarrow> 'd \<Rightarrow> (nat \<times> 'e) list"
    and mark :: "'s \<Rightarrow> 'd \<Rightarrow> nat"
    and step :: "'s \<Rightarrow> 's \<Rightarrow> bool"
  assumes inv_step: "inv s \<Longrightarrow> step s t \<Longrightarrow> inv t"
    and pend_sorted: "inv s \<Longrightarrow> sorted_wrt (<) (map fst (pend s d))"
    and pend_below: "inv s \<Longrightarrow> x \<in> set (pend s d) \<Longrightarrow> fst x < mark s d"
    and mark_mono: "inv s \<Longrightarrow> step s t \<Longrightarrow> mark s d \<le> mark t d"
    and pend_fresh:
      "inv s \<Longrightarrow> step s t \<Longrightarrow> x \<in> set (pend t d) \<Longrightarrow> x \<in> set (pend s d) \<or> mark s d \<le> fst x"
begin

lemma steps_inv: "step\<^sup>*\<^sup>* s t \<Longrightarrow> inv s \<Longrightarrow> inv t"
  by (induction rule: rtranclp_induct) (auto intro: inv_step)

lemma steps_mark: "step\<^sup>*\<^sup>* s t \<Longrightarrow> inv s \<Longrightarrow> mark s d \<le> mark t d"
  by (induction rule: rtranclp_induct) (auto intro: order_trans mark_mono steps_inv)

lemma steps_pend_fresh:
  "step\<^sup>*\<^sup>* s t \<Longrightarrow> inv s \<Longrightarrow> x \<in> set (pend t d) \<Longrightarrow> x \<in> set (pend s d) \<or> mark s d \<le> fst x"
proof (induction rule: rtranclp_induct)
  case base
  then show ?case by simp
next
  case (step t u)
  then show ?case
    using pend_fresh[OF steps_inv[OF step(1) step.prems(1)] step(2) step.prems(2)]
      steps_mark[OF step(1) step.prems(1), of d] by auto
qed

text \<open>A frame below the mark that is not pending is gone for good.\<close>

lemma never_redelivered:
  assumes "inv s" and "step\<^sup>*\<^sup>* s t" and "fst x < mark s d" and "x \<notin> set (pend s d)"
  shows "x \<notin> set (pend t d)"
  using steps_pend_fresh[OF assms(2,1), of x d] assms(3,4) by auto

lemma cursor_functional:
  assumes "inv s" and "(c, e) \<in> set (pend s d)" and "(c, e') \<in> set (pend s d)"
  shows "e = e'"
proof -
  have "distinct (map fst (pend s d))"
    using pend_sorted[OF assms(1)] by (simp add: strict_sorted_iff)
  then show ?thesis
    using assms(2,3) by (simp add: eq_key_imp_eq_value)
qed

text \<open>Over any run, a cursor that was pending names the same frame whenever it is pending again.\<close>

lemma cursor_stable:
  assumes "inv s" and "step\<^sup>*\<^sup>* s t" and "(c, e) \<in> set (pend s d)" and "(c, e') \<in> set (pend t d)"
  shows "e = e'"
proof -
  have "(c, e') \<in> set (pend s d)"
    using steps_pend_fresh[OF assms(2,1,4)] pend_below[OF assms(1,3)] by auto
  with assms(1,3) show ?thesis by (rule cursor_functional)
qed

end

end
