(* ===== verification/Relay_Store.thy ===== *)
theory Relay_Store
  imports Cursor_Log
begin

text \<open>
  The relay server's database (\<^verbatim>\<open>relay-server/internal/relay/store.go\<close>): its five tables, and one
  definition per method of \<^verbatim>\<open>Store\<close>, statement by statement. A table is the list of its rows in
  insertion order; a \<^verbatim>\<open>SELECT\<close> with \<^verbatim>\<open>ORDER BY\<close> sorts by the key; a primary-key or uniqueness
  violation makes an \<^verbatim>\<open>INSERT\<close> fail. Every statement can also fail by the fault schedule of the call
  (\<^typ>\<open>faults\<close>), and the code's reaction (return the error, ignore it, roll the transaction back) is
  a branch of the model. SHA-256 is a parameter; random bytes are arguments, \<^const>\<open>None\<close> for a failing
  \<^verbatim>\<open>rand.Read\<close>.
\<close>

section \<open>Rows and tables\<close>

type_synonym hash = "bytes \<Rightarrow> bytes"

datatype store_error =
    ERandom
  | EDriver
  | EConstraint
  | EIdentityMismatch
  | ERouteNotFound
  | EActiveDeviceNotFound
  | EFrameExceedsCapacity
  | EInactiveDestination
  | EEvictFrame
  | EPairingClaimConflict
  | EInvalidClaimState
  | EPendingClaimNotFound
  | ENoRows

record route_row =
  rt_route_id :: string
  rt_bridge_auth_hash :: bytes
  rt_created_at :: int
  rt_revoked_at :: "int option"
  rt_last_bridge_seen_at :: "int option"

record activation_row =
  ac_install_id :: string
  ac_signing_public_key :: bytes
  ac_route_id :: string
  ac_activated_at :: int

record device_row =
  dv_route_id :: string
  dv_device_id :: string
  dv_device_auth_hash :: bytes
  dv_created_at :: int
  dv_revoked_at :: "int option"
  dv_last_seen_at :: "int option"
  dv_next_cursor :: nat

record frame_row =
  fr_route_id :: string
  fr_device_id :: string
  fr_cursor :: nat
  fr_envelope :: bytes
  fr_envelope_size :: int
  fr_inserted_at :: int
  fr_expires_at :: int
  fr_acked_at :: "int option"

record claim_row =
  cl_route_id :: string
  cl_claim_id :: string
  cl_capability_hash :: bytes
  cl_sealed_claim :: bytes
  cl_sealed_result :: "bytes option"
  cl_state :: string
  cl_expires_at :: int
  cl_consumed_at :: "int option"

record Store =
  routes :: "route_row list"
  route_activations :: "activation_row list"
  route_devices :: "device_row list"
  mailbox_frames :: "frame_row list"
  pending_pairing_claims :: "claim_row list"

definition empty_store :: Store where
  "empty_store = \<lparr>routes = [], route_activations = [], route_devices = [], mailbox_frames = [],
                  pending_pairing_claims = []\<rparr>"

definition dev_key :: "device_row \<Rightarrow> string \<times> string" where
  "dev_key d = (dv_route_id d, dv_device_id d)"

definition frame_key :: "frame_row \<Rightarrow> string \<times> string" where
  "frame_key f = (fr_route_id f, fr_device_id f)"

definition claim_key :: "claim_row \<Rightarrow> string \<times> string" where
  "claim_key c = (cl_route_id c, cl_claim_id c)"

definition active_route :: "Store \<Rightarrow> string \<Rightarrow> bool" where
  "active_route st r \<longleftrightarrow> list_ex (\<lambda>x. rt_route_id x = r \<and> rt_revoked_at x = None) (routes st)"

text \<open>The row of a device that is not revoked on a route that is not revoked (the two-table join).\<close>

definition active_device :: "Store \<Rightarrow> string \<Rightarrow> string \<Rightarrow> device_row option" where
  "active_device st r d =
     (if active_route st r
      then find (\<lambda>x. dev_key x = (r, d) \<and> dv_revoked_at x = None) (route_devices st) else None)"


section \<open>Credentials and identifiers\<close>

definition CredentialDigest :: "hash \<Rightarrow> string \<Rightarrow> bytes" where
  "CredentialDigest H credential = H (bytes_of credential)"

definition VerifyCredential :: "hash \<Rightarrow> bytes \<Rightarrow> string \<Rightarrow> bool" where
  "VerifyCredential H want credential \<longleftrightarrow> want = CredentialDigest H credential"

definition NewCredential :: "bytes option \<Rightarrow> store_error + string" where
  "NewCredential rnd = (case rnd of None \<Rightarrow> Inl ERandom | Some v \<Rightarrow> Inr (b64url_encode v))"

definition NewID :: "string \<Rightarrow> bytes option \<Rightarrow> store_error + string" where
  "NewID pfx rnd =
     (case rnd of None \<Rightarrow> Inl ERandom | Some v \<Rightarrow> Inr (pfx @ ''_'' @ b64url_encode v))"


section \<open>Routes\<close>

definition insert_route :: "string \<Rightarrow> bytes \<Rightarrow> gotime \<Rightarrow> Store \<Rightarrow> Store option" where
  "insert_route r h now st =
     (if list_ex (\<lambda>x. rt_route_id x = r) (routes st) then None
      else Some (st\<lparr>routes := routes st @
             [\<lparr>rt_route_id = r, rt_bridge_auth_hash = h, rt_created_at = unix now,
               rt_revoked_at = None, rt_last_bridge_seen_at = None\<rparr>]\<rparr>))"

definition CreateRoute ::
  "hash \<Rightarrow> bytes option \<Rightarrow> bytes option \<Rightarrow> faults \<Rightarrow> gotime \<Rightarrow> Store
     \<Rightarrow> (store_error + string \<times> string) \<times> Store" where
  "CreateRoute H rndID rndAuth f now st =
     (case NewID ''rt'' rndID of
        Inl e \<Rightarrow> (Inl e, st)
      | Inr routeID \<Rightarrow>
          (case NewCredential rndAuth of
             Inl e \<Rightarrow> (Inl e, st)
           | Inr auth \<Rightarrow>
               (if f 0 then (Inl EDriver, st)
                else case insert_route routeID (CredentialDigest H auth) now st of
                       None \<Rightarrow> (Inl EConstraint, st)
                     | Some st' \<Rightarrow> (Inr (routeID, auth), st'))))"

definition insert_activation :: "string \<Rightarrow> bytes \<Rightarrow> string \<Rightarrow> gotime \<Rightarrow> Store \<Rightarrow> Store option" where
  "insert_activation i k r now st =
     (if list_ex (\<lambda>a. ac_install_id a = i \<or> ac_signing_public_key a = k \<or> ac_route_id a = r)
           (route_activations st) then None
      else Some (st\<lparr>route_activations := route_activations st @
             [\<lparr>ac_install_id = i, ac_signing_public_key = k, ac_route_id = r,
               ac_activated_at = unix now\<rparr>]\<rparr>))"

definition set_bridge_auth :: "string \<Rightarrow> bytes \<Rightarrow> Store \<Rightarrow> Store" where
  "set_bridge_auth r h st =
     st\<lparr>routes := map (\<lambda>x. if rt_route_id x = r \<and> rt_revoked_at x = None
                           then x\<lparr>rt_bridge_auth_hash := h\<rparr> else x) (routes st)\<rparr>"

text \<open>
  A transaction works on a copy of the store; the copy is returned only after a successful commit,
  every other exit returns the store it started from.
\<close>

definition ActivateRoute ::
  "hash \<Rightarrow> bytes option \<Rightarrow> faults \<Rightarrow> string \<Rightarrow> bytes \<Rightarrow> string \<Rightarrow> gotime \<Rightarrow> Store
     \<Rightarrow> (store_error + string) \<times> Store" where
  "ActivateRoute H rndID f installID publicKey bridgeAuth now st =
     (if f 0 \<or> f 1 then (Inl EDriver, st)
      else case find (\<lambda>a. ac_install_id a = installID) (route_activations st) of
        Some a \<Rightarrow>
          (if ac_signing_public_key a \<noteq> publicKey then (Inl EIdentityMismatch, st)
           else if f 2 \<or> f 3 then (Inl EDriver, st)
           else (Inr (ac_route_id a),
                 set_bridge_auth (ac_route_id a) (CredentialDigest H bridgeAuth) st))
      | None \<Rightarrow>
          (case NewID ''rt'' rndID of
             Inl e \<Rightarrow> (Inl e, st)
           | Inr routeID \<Rightarrow>
               (if f 2 then (Inl EDriver, st)
                else case insert_route routeID (CredentialDigest H bridgeAuth) now st of
                  None \<Rightarrow> (Inl EConstraint, st)
                | Some st1 \<Rightarrow>
                    (if f 3 then (Inl EDriver, st)
                     else case insert_activation installID publicKey routeID now st1 of
                       None \<Rightarrow> (Inl EConstraint, st)
                     | Some st2 \<Rightarrow>
                         (if f 4 then (Inl EDriver, st) else (Inr routeID, st2))))))"

definition AuthenticateBridge ::
  "hash \<Rightarrow> faults \<Rightarrow> string \<Rightarrow> string \<Rightarrow> gotime \<Rightarrow> Store \<Rightarrow> bool \<times> Store" where
  "AuthenticateBridge H f routeID credential now st =
     (if f 0 then (False, st)
      else case find (\<lambda>x. rt_route_id x = routeID \<and> rt_revoked_at x = None) (routes st) of
        None \<Rightarrow> (False, st)
      | Some x \<Rightarrow>
          (if \<not> VerifyCredential H (rt_bridge_auth_hash x) credential then (False, st)
           else (True,
             if f 1 then st
             else st\<lparr>routes := map (\<lambda>y. if rt_route_id y = routeID
                    then y\<lparr>rt_last_bridge_seen_at := Some (unix now)\<rparr> else y) (routes st)\<rparr>)))"


section \<open>Devices\<close>

definition upsert_device :: "string \<Rightarrow> string \<Rightarrow> bytes \<Rightarrow> gotime \<Rightarrow> Store \<Rightarrow> Store" where
  "upsert_device r d h now st =
     (if list_ex (\<lambda>x. dev_key x = (r, d)) (route_devices st)
      then st\<lparr>route_devices := map (\<lambda>x. if dev_key x = (r, d)
             then x\<lparr>dv_device_auth_hash := h, dv_revoked_at := None, dv_created_at := unix now\<rparr>
             else x) (route_devices st)\<rparr>
      else st\<lparr>route_devices := route_devices st @
             [\<lparr>dv_route_id = r, dv_device_id = d, dv_device_auth_hash = h,
               dv_created_at = unix now, dv_revoked_at = None, dv_last_seen_at = None,
               dv_next_cursor = 1\<rparr>]\<rparr>)"

definition RegisterDevice ::
  "hash \<Rightarrow> bytes option \<Rightarrow> faults \<Rightarrow> string \<Rightarrow> string \<Rightarrow> gotime \<Rightarrow> Store
     \<Rightarrow> (store_error + string) \<times> Store" where
  "RegisterDevice H rnd f routeID deviceID now st =
     (case NewCredential rnd of
        Inl e \<Rightarrow> (Inl e, st)
      | Inr auth \<Rightarrow>
          (if f 0 then (Inl EDriver, st)
           else if \<not> active_route st routeID then (Inl ERouteNotFound, st)
           else (Inr auth, upsert_device routeID deviceID (CredentialDigest H auth) now st)))"

definition AuthenticateDevice ::
  "hash \<Rightarrow> faults \<Rightarrow> string \<Rightarrow> string \<Rightarrow> string \<Rightarrow> gotime \<Rightarrow> Store \<Rightarrow> bool \<times> Store" where
  "AuthenticateDevice H f routeID deviceID credential now st =
     (if f 0 then (False, st)
      else case active_device st routeID deviceID of
        None \<Rightarrow> (False, st)
      | Some x \<Rightarrow>
          (if \<not> VerifyCredential H (dv_device_auth_hash x) credential then (False, st)
           else (True,
             if f 1 then st
             else st\<lparr>route_devices := map (\<lambda>y. if dev_key y = (routeID, deviceID)
                    then y\<lparr>dv_last_seen_at := Some (unix now)\<rparr> else y) (route_devices st)\<rparr>)))"

definition DeviceActive :: "faults \<Rightarrow> string \<Rightarrow> string \<Rightarrow> Store \<Rightarrow> bool" where
  "DeviceActive f routeID deviceID st \<longleftrightarrow> \<not> f 0 \<and> active_device st routeID deviceID \<noteq> None"

definition RevokeDevice ::
  "faults \<Rightarrow> string \<Rightarrow> string \<Rightarrow> gotime \<Rightarrow> Store \<Rightarrow> (store_error + unit) \<times> Store" where
  "RevokeDevice f routeID deviceID now st =
     (if f 0 \<or> f 1 then (Inl EDriver, st)
      else if \<not> list_ex (\<lambda>x. dev_key x = (routeID, deviceID) \<and> dv_revoked_at x = None)
                  (route_devices st)
      then (Inl EActiveDeviceNotFound, st)
      else if f 2 \<or> f 3 then (Inl EDriver, st)
      else (Inr (),
        st\<lparr>route_devices := map (\<lambda>x. if dev_key x = (routeID, deviceID) \<and> dv_revoked_at x = None
               then x\<lparr>dv_revoked_at := Some (unix now)\<rparr> else x) (route_devices st),
           mailbox_frames := filter (\<lambda>f. frame_key f \<noteq> (routeID, deviceID))
               (mailbox_frames st)\<rparr>))"


section \<open>Mailbox\<close>

definition of_device :: "string \<Rightarrow> string \<Rightarrow> frame_row \<Rightarrow> bool" where
  "of_device r d f \<longleftrightarrow> frame_key f = (r, d)"

text \<open>\<^verbatim>\<open>DELETE \<dots> WHERE route_id = ? AND device_id = ? AND (expires_at <= ? OR acked_at IS NOT NULL)\<close>\<close>

definition drop_dead_frames :: "string \<Rightarrow> string \<Rightarrow> gotime \<Rightarrow> Store \<Rightarrow> Store" where
  "drop_dead_frames r d now st =
     st\<lparr>mailbox_frames := filter (\<lambda>f. \<not> (of_device r d f \<and>
          (fr_expires_at f \<le> unix now \<or> fr_acked_at f \<noteq> None))) (mailbox_frames st)\<rparr>"

definition unacked_frames :: "string \<Rightarrow> string \<Rightarrow> Store \<Rightarrow> frame_row list" where
  "unacked_frames r d st =
     filter (\<lambda>f. of_device r d f \<and> fr_acked_at f = None) (mailbox_frames st)"

text \<open>\<^verbatim>\<open>COALESCE(SUM(envelope_size), 0)\<close> over the unacknowledged frames\<close>

definition unacked_bytes :: "string \<Rightarrow> string \<Rightarrow> Store \<Rightarrow> int" where
  "unacked_bytes r d st = sum_list (map fr_envelope_size (unacked_frames r d st))"

text \<open>\<^verbatim>\<open>\<dots> AND acked_at IS NULL ORDER BY cursor LIMIT 1\<close>\<close>

definition oldest_unacked :: "string \<Rightarrow> string \<Rightarrow> Store \<Rightarrow> frame_row option" where
  "oldest_unacked r d st =
     (case sort_key fr_cursor (unacked_frames r d st) of [] \<Rightarrow> None | f # _ \<Rightarrow> Some f)"

definition delete_frame :: "string \<Rightarrow> string \<Rightarrow> nat \<Rightarrow> Store \<Rightarrow> Store" where
  "delete_frame r d c st =
     st\<lparr>mailbox_frames := filter (\<lambda>f. \<not> (of_device r d f \<and> fr_cursor f = c)) (mailbox_frames st)\<rparr>"

lemma oldest_unacked_mem:
  assumes "oldest_unacked r d st = Some f"
  shows "f \<in> set (unacked_frames r d st)"
proof -
  from assms obtain fs where "sort_key fr_cursor (unacked_frames r d st) = f # fs"
    by (auto simp: oldest_unacked_def split: list.splits)
  then have "f \<in> set (sort_key fr_cursor (unacked_frames r d st))" by simp
  then show ?thesis by simp
qed

lemma delete_frame_shrinks:
  assumes "f \<in> set (unacked_frames r d st)"
  shows "length (mailbox_frames (delete_frame r d (fr_cursor f) st)) < length (mailbox_frames st)"
  using assms by (auto simp: delete_frame_def unacked_frames_def intro!: length_filter_less)

text \<open>The eviction loop; its two statements per round are numbered from \<open>i\<close>.\<close>

function evict_loop ::
  "faults \<Rightarrow> nat \<Rightarrow> string \<Rightarrow> string \<Rightarrow> int \<Rightarrow> int \<Rightarrow> int \<Rightarrow> nat \<Rightarrow> Store
     \<Rightarrow> store_error + nat \<times> Store" where
  "evict_loop f i r d need maxBytes current evicted st =
     (if current + need \<le> maxBytes then Inr (evicted, st)
      else if f i then Inl EEvictFrame
      else case oldest_unacked r d st of
        None \<Rightarrow> Inl EEvictFrame
      | Some x \<Rightarrow>
          (if f (Suc i) then Inl EDriver
           else evict_loop f (i + 2) r d need maxBytes (current - fr_envelope_size x)
                  (Suc evicted) (delete_frame r d (fr_cursor x) st)))"
  by pat_completeness auto
termination
  by (relation "measure (\<lambda>(f, i, r, d, need, m, c, e, st). length (mailbox_frames st))")
     (auto intro: delete_frame_shrinks oldest_unacked_mem)

declare evict_loop.simps [simp del]

definition insert_frame ::
  "string \<Rightarrow> string \<Rightarrow> nat \<Rightarrow> bytes \<Rightarrow> gotime \<Rightarrow> duration \<Rightarrow> Store \<Rightarrow> Store option" where
  "insert_frame r d c envelope now ttl st =
     (if list_ex (\<lambda>f. of_device r d f \<and> fr_cursor f = c) (mailbox_frames st) then None
      else Some (st\<lparr>mailbox_frames := mailbox_frames st @
             [\<lparr>fr_route_id = r, fr_device_id = d, fr_cursor = c, fr_envelope = envelope,
               fr_envelope_size = int (length envelope), fr_inserted_at = unix now,
               fr_expires_at = unix (now + ttl), fr_acked_at = None\<rparr>]\<rparr>))"

definition bump_cursor :: "string \<Rightarrow> string \<Rightarrow> Store \<Rightarrow> Store" where
  "bump_cursor r d st =
     st\<lparr>route_devices := map (\<lambda>x. if dev_key x = (r, d)
          then x\<lparr>dv_next_cursor := dv_next_cursor x + 1\<rparr> else x) (route_devices st)\<rparr>"

text \<open>Statements: 0 begin, 1 read cursor, 2 delete, 3 sum, 4 insert, 5 update, 6 commit, 7.. loop.\<close>

definition AppendFrame ::
  "faults \<Rightarrow> string \<Rightarrow> string \<Rightarrow> bytes \<Rightarrow> gotime \<Rightarrow> duration \<Rightarrow> int \<Rightarrow> Store
     \<Rightarrow> (store_error + nat \<times> nat) \<times> Store" where
  "AppendFrame f routeID deviceID envelope now ttl maxBytes st =
     (if maxBytes < int (length envelope) then (Inl EFrameExceedsCapacity, st)
      else if f 0 then (Inl EDriver, st)
      else case (if f 1 then None else active_device st routeID deviceID) of
        None \<Rightarrow> (Inl EInactiveDestination, st)
      | Some x \<Rightarrow>
          (let cursor = dv_next_cursor x;
               st1 = (if f 2 then st else drop_dead_frames routeID deviceID now st)
           in if f 3 then (Inl EDriver, st)
              else case evict_loop f 7 routeID deviceID (int (length envelope)) maxBytes
                     (unacked_bytes routeID deviceID st1) 0 st1 of
                Inl e \<Rightarrow> (Inl e, st)
              | Inr (evicted, st2) \<Rightarrow>
                  (if f 4 then (Inl EDriver, st)
                   else case insert_frame routeID deviceID cursor envelope now ttl st2 of
                     None \<Rightarrow> (Inl EConstraint, st)
                   | Some st3 \<Rightarrow>
                       (if f 5 \<or> f 6 then (Inl EDriver, st)
                        else (Inr (cursor, evicted), bump_cursor routeID deviceID st3)))))"

record MailboxFrame =
  mf_Cursor :: nat
  mf_Envelope :: bytes
  mf_ExpiresAt :: int

definition fetch_limit :: "int \<Rightarrow> nat" where
  "fetch_limit limit = (if limit \<le> 0 \<or> 200 < limit then 100 else nat limit)"

definition select_frames :: "string \<Rightarrow> string \<Rightarrow> nat \<Rightarrow> int \<Rightarrow> gotime \<Rightarrow> Store \<Rightarrow> MailboxFrame list" where
  "select_frames r d after limit now st =
     map (\<lambda>f. \<lparr>mf_Cursor = fr_cursor f, mf_Envelope = fr_envelope f, mf_ExpiresAt = fr_expires_at f\<rparr>)
       (take (fetch_limit limit)
         (sort_key fr_cursor
           (filter (\<lambda>f. of_device r d f \<and> after < fr_cursor f \<and> fr_acked_at f = None
                        \<and> unix now < fr_expires_at f) (mailbox_frames st))))"

definition FetchFrames ::
  "faults \<Rightarrow> string \<Rightarrow> string \<Rightarrow> nat \<Rightarrow> int \<Rightarrow> gotime \<Rightarrow> Store
     \<Rightarrow> (store_error + MailboxFrame list) \<times> Store" where
  "FetchFrames f routeID deviceID after limit now st =
     (if f 0 then (Inl EDriver, st)
      else let st1 = st\<lparr>mailbox_frames := filter (\<lambda>x. \<not> (of_device routeID deviceID x
                          \<and> fr_expires_at x \<le> unix now)) (mailbox_frames st)\<rparr>
           in if f 1 \<or> f 2 then (Inl EDriver, st1)
              else (Inr (select_frames routeID deviceID after limit now st1), st1))"

definition AckFrames ::
  "faults \<Rightarrow> string \<Rightarrow> string \<Rightarrow> nat \<Rightarrow> gotime \<Rightarrow> Store \<Rightarrow> (store_error + unit) \<times> Store" where
  "AckFrames f routeID deviceID through now st =
     (if f 0 then (Inl EDriver, st)
      else (Inr (), st\<lparr>mailbox_frames := map (\<lambda>x.
              if of_device routeID deviceID x \<and> fr_cursor x \<le> through \<and> fr_acked_at x = None
              then x\<lparr>fr_acked_at := Some (unix now)\<rparr> else x) (mailbox_frames st)\<rparr>))"

definition ExpireFrames :: "faults \<Rightarrow> gotime \<Rightarrow> Store \<Rightarrow> (store_error + nat) \<times> Store" where
  "ExpireFrames f now st =
     (if f 0 then (Inl EDriver, st)
      else let dead = (\<lambda>x. fr_expires_at x \<le> unix now \<or> fr_acked_at x \<noteq> None)
           in (Inr (length (filter dead (mailbox_frames st))),
               st\<lparr>mailbox_frames := filter (\<lambda>x. \<not> dead x) (mailbox_frames st)\<rparr>))"

record RouteStatus =
  rs_DeviceCount :: nat
  rs_PendingFrameCount :: nat
  rs_PendingMailboxSize :: int

text \<open>
  The status query is an aggregate without \<^verbatim>\<open>GROUP BY\<close>: it returns one row even when the route does
  not exist, and the device count does not depend on the route being active.
\<close>

definition Status :: "faults \<Rightarrow> string \<Rightarrow> gotime \<Rightarrow> Store \<Rightarrow> store_error + RouteStatus" where
  "Status f routeID now st =
     (if f 0 then Inl EDriver
      else let fs = (if active_route st routeID
                     then filter (\<lambda>x. fr_route_id x = routeID \<and> fr_acked_at x = None
                                      \<and> unix now < fr_expires_at x) (mailbox_frames st) else [])
           in Inr \<lparr>rs_DeviceCount = length (filter (\<lambda>x. dv_route_id x = routeID
                      \<and> dv_revoked_at x = None) (route_devices st)),
                    rs_PendingFrameCount = length fs,
                    rs_PendingMailboxSize = sum_list (map fr_envelope_size fs)\<rparr>)"


section \<open>Pairing claims\<close>

record PairingClaim =
  pc_ClaimID :: string
  pc_SealedClaim :: bytes
  pc_SealedResult :: "bytes option"
  pc_State :: string

definition expire_claims :: "string \<Rightarrow> gotime \<Rightarrow> Store \<Rightarrow> Store" where
  "expire_claims r now st =
     st\<lparr>pending_pairing_claims := filter (\<lambda>c. \<not> (cl_route_id c = r \<and> cl_expires_at c \<le> unix now))
         (pending_pairing_claims st)\<rparr>"

definition find_claim :: "string \<Rightarrow> string \<Rightarrow> Store \<Rightarrow> claim_row option" where
  "find_claim r c st = find (\<lambda>x. claim_key x = (r, c)) (pending_pairing_claims st)"

text \<open>
  The final \<^verbatim>\<open>INSERT \<dots> SELECT \<dots> FROM routes WHERE route_id = ? AND revoked_at IS NULL\<close> inserts
  nothing when the route is unknown or revoked, and that is no error.
\<close>

definition SubmitPairingClaim ::
  "faults \<Rightarrow> string \<Rightarrow> string \<Rightarrow> bytes \<Rightarrow> bytes \<Rightarrow> gotime \<Rightarrow> duration \<Rightarrow> Store
     \<Rightarrow> (store_error + unit) \<times> Store" where
  "SubmitPairingClaim f routeID claimID capabilityHash sealedClaim now ttl st =
     (if f 0 \<or> f 1 \<or> f 2 then (Inl EDriver, st)
      else let st1 = expire_claims routeID now st
           in case find_claim routeID claimID st1 of
             Some x \<Rightarrow>
               (if cl_capability_hash x = capabilityHash \<and> cl_sealed_claim x = sealedClaim
                then if f 4 then (Inl EDriver, st) else (Inr (), st1)
                else (Inl EPairingClaimConflict, st))
           | None \<Rightarrow>
               (if f 3 \<or> f 4 then (Inl EDriver, st)
                else if \<not> active_route st1 routeID then (Inr (), st1)
                else (Inr (), st1\<lparr>pending_pairing_claims := pending_pairing_claims st1 @
                        [\<lparr>cl_route_id = routeID, cl_claim_id = claimID,
                          cl_capability_hash = capabilityHash, cl_sealed_claim = sealedClaim,
                          cl_sealed_result = None, cl_state = ''pending'',
                          cl_expires_at = unix (now + ttl), cl_consumed_at = None\<rparr>]\<rparr>)))"

definition VerifyPairingCapability ::
  "hash \<Rightarrow> faults \<Rightarrow> string \<Rightarrow> string \<Rightarrow> string \<Rightarrow> Store \<Rightarrow> bool" where
  "VerifyPairingCapability H f routeID claimID capability st =
     (if f 0 then False
      else case find (\<lambda>x. claim_key x = (routeID, claimID)
               \<and> cl_state x \<in> {''pending'', ''approved'', ''rejected'', ''consumed''})
               (pending_pairing_claims st) of
        None \<Rightarrow> False
      | Some x \<Rightarrow> VerifyCredential H (cl_capability_hash x) capability)"

definition PendingClaims ::
  "faults \<Rightarrow> string \<Rightarrow> gotime \<Rightarrow> Store \<Rightarrow> (store_error + PairingClaim list) \<times> Store" where
  "PendingClaims f routeID now st =
     (let st1 = (if f 0 then st else expire_claims routeID now st)
      in if f 1 \<or> f 2 then (Inl EDriver, st1)
         else (Inr (map (\<lambda>c. \<lparr>pc_ClaimID = cl_claim_id c, pc_SealedClaim = cl_sealed_claim c,
                              pc_SealedResult = cl_sealed_result c, pc_State = cl_state c\<rparr>)
                (sort_key cl_claim_id
                  (filter (\<lambda>c. cl_route_id c = routeID \<and> unix now < cl_expires_at c
                               \<and> cl_state c \<noteq> ''consumed'') (pending_pairing_claims st1)))), st1))"

definition CompletePairingClaim ::
  "faults \<Rightarrow> string \<Rightarrow> string \<Rightarrow> string \<Rightarrow> bytes option \<Rightarrow> gotime \<Rightarrow> Store
     \<Rightarrow> (store_error + unit) \<times> Store" where
  "CompletePairingClaim f routeID claimID newState sealedResult now st =
     (if newState \<noteq> ''approved'' \<and> newState \<noteq> ''rejected'' then (Inl EInvalidClaimState, st)
      else if f 0 then (Inl EDriver, st)
      else if \<not> list_ex (\<lambda>x. claim_key x = (routeID, claimID) \<and> cl_state x = ''pending'')
                  (pending_pairing_claims st)
      then (Inl EPendingClaimNotFound, st)
      else (Inr (), st\<lparr>pending_pairing_claims := map (\<lambda>x.
              if claim_key x = (routeID, claimID) \<and> cl_state x = ''pending''
              then x\<lparr>cl_sealed_result := sealedResult, cl_state := newState\<rparr> else x)
              (pending_pairing_claims st)\<rparr>))"

definition GetPairingResult ::
  "faults \<Rightarrow> string \<Rightarrow> string \<Rightarrow> gotime \<Rightarrow> Store \<Rightarrow> store_error + PairingClaim" where
  "GetPairingResult f routeID claimID now st =
     (if f 0 then Inl EDriver
      else case find (\<lambda>x. claim_key x = (routeID, claimID) \<and> unix now < cl_expires_at x
               \<and> cl_consumed_at x = None) (pending_pairing_claims st) of
        None \<Rightarrow> Inl ENoRows
      | Some x \<Rightarrow> Inr \<lparr>pc_ClaimID = cl_claim_id x, pc_SealedClaim = [],
                       pc_SealedResult = cl_sealed_result x, pc_State = cl_state x\<rparr>)"

definition ConsumePairingResult ::
  "faults \<Rightarrow> string \<Rightarrow> string \<Rightarrow> gotime \<Rightarrow> Store \<Rightarrow> (store_error + unit) \<times> Store" where
  "ConsumePairingResult f routeID claimID now st =
     (if f 0 then (Inl EDriver, st)
      else (Inr (), st\<lparr>pending_pairing_claims := map (\<lambda>x.
              if claim_key x = (routeID, claimID) \<and> cl_state x \<in> {''approved'', ''rejected''}
                 \<and> cl_consumed_at x = None
              then x\<lparr>cl_consumed_at := Some (unix now), cl_state := ''consumed''\<rparr> else x)
              (pending_pairing_claims st)\<rparr>))"


section \<open>The store as a transition system\<close>

inductive store_step :: "Store \<Rightarrow> Store \<Rightarrow> bool" where
  create_route: "store_step st (snd (CreateRoute H ri ra f now st))"
| activate_route: "store_step st (snd (ActivateRoute H ri f i k a now st))"
| authenticate_bridge: "store_step st (snd (AuthenticateBridge H f r cred now st))"
| register_device: "store_step st (snd (RegisterDevice H rnd f r d now st))"
| authenticate_device: "store_step st (snd (AuthenticateDevice H f r d cred now st))"
| revoke_device: "store_step st (snd (RevokeDevice f r d now st))"
| append_frame: "store_step st (snd (AppendFrame f r d e now ttl m st))"
| fetch_frames: "store_step st (snd (FetchFrames f r d after limit now st))"
| ack_frames: "store_step st (snd (AckFrames f r d through now st))"
| expire_frames: "store_step st (snd (ExpireFrames f now st))"
| submit_claim: "store_step st (snd (SubmitPairingClaim f r c cap s now ttl st))"
| pending_claims: "store_step st (snd (PendingClaims f r now st))"
| complete_claim: "store_step st (snd (CompletePairingClaim f r c ns res now st))"
| consume_result: "store_step st (snd (ConsumePairingResult f r c now st))"

end
