(* ===== verification/Store_Integrity.thy ===== *)
theory Store_Integrity
  imports Relay_Store
begin

text \<open>
  The representation invariant of the relay database, \<open>wf_store\<close>: primary keys and uniqueness,
  referential integrity, per-device frames in strictly increasing cursor order below the device's
  next cursor, sizes that match the stored envelopes, and pairing claims whose state agrees with
  their consumption stamp. Every operation keeps it under every fault schedule
  (\<open>wf_store_ops\<close>, \<open>wf_store_step\<close>). The theory also characterises the eviction loop and the
  two outcomes of \<open>AppendFrame\<close>.
\<close>

section \<open>Integrity of the tables\<close>

definition routes_ok :: "Store \<Rightarrow> bool" where
  "routes_ok st \<longleftrightarrow> distinct (map rt_route_id (routes st))"

definition activations_ok :: "Store \<Rightarrow> bool" where
  "activations_ok st \<longleftrightarrow>
     distinct (map ac_install_id (route_activations st))
     \<and> distinct (map ac_signing_public_key (route_activations st))
     \<and> distinct (map ac_route_id (route_activations st))
     \<and> ac_route_id ` set (route_activations st) \<subseteq> rt_route_id ` set (routes st)"

definition devices_ok :: "Store \<Rightarrow> bool" where
  "devices_ok st \<longleftrightarrow>
     distinct (map dev_key (route_devices st))
     \<and> dv_route_id ` set (route_devices st) \<subseteq> rt_route_id ` set (routes st)"

definition next_cursor :: "Store \<Rightarrow> string \<times> string \<Rightarrow> nat" where
  "next_cursor st k =
     (case find (\<lambda>x. dev_key x = k) (route_devices st) of None \<Rightarrow> 1 | Some x \<Rightarrow> dv_next_cursor x)"

definition frame_before :: "frame_row \<Rightarrow> frame_row \<Rightarrow> bool" where
  "frame_before a b \<longleftrightarrow> (frame_key a = frame_key b \<longrightarrow> fr_cursor a < fr_cursor b)"

definition frames_ok :: "Store \<Rightarrow> bool" where
  "frames_ok st \<longleftrightarrow>
     sorted_wrt frame_before (mailbox_frames st)
     \<and> (\<forall>x \<in> set (mailbox_frames st). fr_cursor x < next_cursor st (frame_key x)
           \<and> fr_envelope_size x = int (length (fr_envelope x)))
     \<and> frame_key ` set (mailbox_frames st) \<subseteq> dev_key ` set (route_devices st)"

definition claim_ok :: "claim_row \<Rightarrow> bool" where
  "claim_ok c \<longleftrightarrow>
     cl_state c \<in> {''pending'', ''approved'', ''rejected'', ''consumed''}
     \<and> (cl_state c = ''consumed'' \<longleftrightarrow> cl_consumed_at c \<noteq> None)"

definition claims_ok :: "Store \<Rightarrow> bool" where
  "claims_ok st \<longleftrightarrow>
     distinct (map claim_key (pending_pairing_claims st))
     \<and> (\<forall>c \<in> set (pending_pairing_claims st). claim_ok c)
     \<and> cl_route_id ` set (pending_pairing_claims st) \<subseteq> rt_route_id ` set (routes st)"

definition wf_store :: "Store \<Rightarrow> bool" where
  "wf_store st \<longleftrightarrow>
     routes_ok st \<and> activations_ok st \<and> devices_ok st \<and> frames_ok st \<and> claims_ok st"

lemma wf_empty_store: "wf_store empty_store"
  by (simp add: wf_store_def empty_store_def routes_ok_def activations_ok_def devices_ok_def
      frames_ok_def claims_ok_def)

text \<open>
  Frame rules: an update that keeps a table's keys keeps the integrity of the tables that refer to
  it, so each operation is checked against the one table it writes.
\<close>

lemmas wf_store_unfold = wf_store_def routes_ok_def activations_ok_def devices_ok_def
  frames_ok_def claims_ok_def

lemma wf_routes_grow:
  assumes "wf_store st" and "distinct (map rt_route_id rs)"
    and "rt_route_id ` set (routes st) \<subseteq> rt_route_id ` set rs"
  shows "wf_store (st\<lparr>routes := rs\<rparr>)"
  using assms by (simp add: wf_store_unfold next_cursor_def) (meson subset_trans)

lemma wf_routes_update:
  assumes "wf_store st" and "map rt_route_id rs = map rt_route_id (routes st)"
  shows "wf_store (st\<lparr>routes := rs\<rparr>)"
proof (rule wf_routes_grow[OF assms(1)])
  show "distinct (map rt_route_id rs)"
    using assms by (simp add: wf_store_def routes_ok_def)
  show "rt_route_id ` set (routes st) \<subseteq> rt_route_id ` set rs"
    using assms(2) by (metis list.set_map order_refl)
qed

lemma wf_routes_insert:
  assumes "wf_store st" and "insert_route r h now st = Some st'"
  shows "wf_store st'"
proof -
  let ?x = "\<lparr>rt_route_id = r, rt_bridge_auth_hash = h, rt_created_at = unix now,
    rt_revoked_at = None, rt_last_bridge_seen_at = None\<rparr>"
  from assms(2) have new: "r \<notin> rt_route_id ` set (routes st)"
    and st': "st' = st\<lparr>routes := routes st @ [?x]\<rparr>"
    by (auto simp: insert_route_def list_ex_iff split: if_splits)
  show ?thesis
    unfolding st' using assms(1) new
    by (intro wf_routes_grow) (auto simp: wf_store_def routes_ok_def)
qed

lemma wf_frames_filter:
  assumes "wf_store st"
  shows "wf_store (st\<lparr>mailbox_frames := filter P (mailbox_frames st)\<rparr>)"
  using assms
  by (auto simp: wf_store_unfold next_cursor_def sorted_wrt_filter)

lemma wf_claims_filter:
  assumes "wf_store st"
  shows "wf_store (st\<lparr>pending_pairing_claims := filter P (pending_pairing_claims st)\<rparr>)"
  using assms
  by (auto simp: wf_store_unfold next_cursor_def distinct_map_filter)

lemma wf_claims_map:
  assumes "wf_store st"
    and "\<And>c. claim_ok c \<Longrightarrow> claim_ok (g c)" and "\<And>c. claim_key (g c) = claim_key c"
  shows "wf_store (st\<lparr>pending_pairing_claims := map g (pending_pairing_claims st)\<rparr>)"
proof -
  have "map claim_key (map g cs) = map claim_key cs" for cs
    by (simp add: assms(3))
  moreover have "cl_route_id (g c) = cl_route_id c" for c
    using assms(3)[of c] by (simp add: claim_key_def)
  ultimately show ?thesis
    using assms(1,2)
    by (auto simp: wf_store_unfold next_cursor_def image_image simp del: map_map)
qed

lemma next_cursor_map:
  assumes "\<And>x. dev_key (g x) = dev_key x"
  shows "next_cursor (st\<lparr>route_devices := map g (route_devices st)\<rparr>) k =
     (case find (\<lambda>x. dev_key x = k) (route_devices st) of
        None \<Rightarrow> 1 | Some x \<Rightarrow> dv_next_cursor (g x))"
proof -
  have "find (\<lambda>x. dev_key x = k) (map g xs) = map_option g (find (\<lambda>x. dev_key x = k) xs)" for xs
    by (rule find_map_keep) (simp add: assms)
  then show ?thesis
    by (simp add: next_cursor_def split: option.split)
qed

lemma wf_devices_map:
  assumes "wf_store st" and "\<And>x. dev_key (g x) = dev_key x"
    and "\<And>x. dv_next_cursor x \<le> dv_next_cursor (g x)"
  shows "wf_store (st\<lparr>route_devices := map g (route_devices st)\<rparr>)"
proof -
  have le: "next_cursor st k \<le> next_cursor (st\<lparr>route_devices := map g (route_devices st)\<rparr>) k" for k
    unfolding next_cursor_map[OF assms(2)]
    by (auto simp: next_cursor_def assms(3) split: option.split)
  have r: "dv_route_id (g x) = dv_route_id x" for x
    using assms(2)[of x] by (simp add: dev_key_def)
  have keys: "dev_key \<circ> g = dev_key"
    by (rule ext) (simp add: assms(2))
  have fr: "frames_ok st \<Longrightarrow> frames_ok (st\<lparr>route_devices := map g (route_devices st)\<rparr>)"
    using less_le_trans[OF _ le] by (simp add: frames_ok_def image_image assms(2))
  show ?thesis
    using assms(1) fr
    by (simp add: wf_store_def routes_ok_def activations_ok_def devices_ok_def claims_ok_def
        keys r image_image)
qed

lemma wf_upsert_device:
  assumes "wf_store st" and "active_route st r"
  shows "wf_store (upsert_device r d h now st)"
proof (cases "list_ex (\<lambda>x. dev_key x = (r, d)) (route_devices st)")
  case True
  then show ?thesis
    by (simp add: upsert_device_def) (rule wf_devices_map[OF assms(1)]; simp add: dev_key_def)
next
  case False
  then have new: "(r, d) \<notin> dev_key ` set (route_devices st)"
    by (auto simp: list_ex_iff)
  have "r \<in> rt_route_id ` set (routes st)"
    using assms(2) by (auto simp: active_route_def list_ex_iff)
  with False new assms(1) show ?thesis
    by (auto simp: upsert_device_def wf_store_unfold next_cursor_def dev_key_def find_append_case
             split: option.splits)
qed

lemma wf_frames_map:
  assumes "wf_store st" and "\<And>x. frame_key (g x) = frame_key x"
    and "\<And>x. fr_cursor (g x) = fr_cursor x" and "\<And>x. fr_envelope (g x) = fr_envelope x"
    and "\<And>x. fr_envelope_size (g x) = fr_envelope_size x"
  shows "wf_store (st\<lparr>mailbox_frames := map g (mailbox_frames st)\<rparr>)"
proof -
  have "frame_before (g a) (g b) = frame_before a b" for a b
    by (simp add: frame_before_def assms)
  then show ?thesis
    using assms by (simp add: wf_store_unfold next_cursor_def sorted_wrt_map image_image)
qed

lemma find_device_Some:
  assumes "k \<in> dev_key ` set (route_devices st)"
  obtains y where "find (\<lambda>x. dev_key x = k) (route_devices st) = Some y" and "dev_key y = k"
proof (cases "find (\<lambda>x. dev_key x = k) (route_devices st)")
  case None
  then show ?thesis
    using assms by (auto simp: find_None_iff_all)
next
  case (Some y)
  then show ?thesis
    using that find_Some_iff_mem[OF Some] by blast
qed

text \<open>Appending the frame with the device's next cursor, then moving the cursor on.\<close>

lemma bump_cursor_as_map:
  "bump_cursor r d st = st\<lparr>route_devices := map (\<lambda>x. if dev_key x = (r, d)
      then x\<lparr>dv_next_cursor := dv_next_cursor x + 1\<rparr> else x) (route_devices st)\<rparr>"
  by (simp add: bump_cursor_def)

lemma wf_bump_cursor: "wf_store st \<Longrightarrow> wf_store (bump_cursor r d st)"
  unfolding bump_cursor_as_map by (rule wf_devices_map) (simp_all add: dev_key_def)

lemma dev_keys_bump: "dev_key ` set (route_devices (bump_cursor r d st)) = dev_key ` set (route_devices st)"
proof -
  have "dev_key ` set (map g xs) = dev_key ` set xs" if "\<And>x. dev_key (g x) = dev_key x" for g xs
    by (simp add: image_image that)
  from this[of "\<lambda>x. if dev_key x = (r, d) then x\<lparr>dv_next_cursor := dv_next_cursor x + 1\<rparr> else x"]
  show ?thesis
    unfolding bump_cursor_as_map by (simp add: dev_key_def)
qed

lemma next_cursor_bump:
  assumes "(r, d) \<in> dev_key ` set (route_devices st)"
  shows "next_cursor (bump_cursor r d st) k =
     (if k = (r, d) then Suc (next_cursor st k) else next_cursor st k)"
proof -
  obtain y where y: "find (\<lambda>x. dev_key x = (r, d)) (route_devices st) = Some y" "dev_key y = (r, d)"
    using assms by (rule find_device_Some)
  have "next_cursor (bump_cursor r d st) k =
     (case find (\<lambda>x. dev_key x = k) (route_devices st) of
        None \<Rightarrow> 1 | Some x \<Rightarrow> dv_next_cursor (if dev_key x = (r, d)
          then x\<lparr>dv_next_cursor := dv_next_cursor x + 1\<rparr> else x))"
    unfolding bump_cursor_as_map by (rule next_cursor_map) (simp add: dev_key_def)
  then show ?thesis
    using y by (auto simp: next_cursor_def split: option.splits dest: find_Some_iff_mem)
qed

lemma wf_insert_bump:
  assumes wf: "wf_store st" and c: "c = next_cursor st (r, d)"
    and dev: "(r, d) \<in> dev_key ` set (route_devices st)"
    and ins: "insert_frame r d c e now ttl st = Some st'"
  shows "wf_store (bump_cursor r d st')"
proof -
  let ?x = "\<lparr>fr_route_id = r, fr_device_id = d, fr_cursor = c, fr_envelope = e,
    fr_envelope_size = int (length e), fr_inserted_at = unix now,
    fr_expires_at = unix (now + ttl), fr_acked_at = None\<rparr>"
  let ?b = "bump_cursor r d st"
  have st': "bump_cursor r d st' = ?b\<lparr>mailbox_frames := mailbox_frames st @ [?x]\<rparr>"
    using ins by (auto simp: insert_frame_def bump_cursor_def split: if_splits)
  have fr: "frames_ok (?b\<lparr>mailbox_frames := mailbox_frames st @ [?x]\<rparr>)"
  proof -
    have b: "frames_ok ?b" and "mailbox_frames ?b = mailbox_frames st"
      using wf_bump_cursor[OF wf] by (simp_all add: wf_store_def bump_cursor_def)
    moreover have "next_cursor (?b\<lparr>mailbox_frames := fs\<rparr>) k = next_cursor ?b k" for fs k
      by (simp add: next_cursor_def)
    moreover have "next_cursor ?b (r, d) = Suc c"
      using next_cursor_bump[OF dev] c by simp
    moreover have "(r, d) \<in> dev_key ` set (route_devices ?b)"
      using dev by (simp add: dev_keys_bump)
    moreover have "\<forall>a \<in> set (mailbox_frames st). frame_before a ?x"
      using wf c by (auto simp: wf_store_def frames_ok_def frame_before_def frame_key_def)
    ultimately show ?thesis
      by (simp add: frames_ok_def sorted_wrt_append frame_key_def[of ?x])
  qed
  show ?thesis
    using wf_bump_cursor[OF wf, of r d] fr unfolding st'
    by (simp add: wf_store_def routes_ok_def activations_ok_def devices_ok_def claims_ok_def)
qed


section \<open>Eviction\<close>

lemma unacked_sorted:
  assumes "wf_store st"
  shows "sorted_wrt (<) (map fr_cursor (unacked_frames r d st))"
proof -
  have "sorted_wrt frame_before (unacked_frames r d st)"
    using assms by (simp add: wf_store_def frames_ok_def unacked_frames_def sorted_wrt_filter)
  then have "sorted_wrt (\<lambda>a b. fr_cursor a < fr_cursor b) (unacked_frames r d st)"
    by (rule sorted_wrt_mono_rel[rotated])
       (auto simp: unacked_frames_def frame_before_def of_device_def)
  then show ?thesis by (simp add: sorted_wrt_map)
qed

lemma oldest_unacked_hd:
  assumes "wf_store st"
  shows "oldest_unacked r d st =
     (case unacked_frames r d st of [] \<Rightarrow> None | f # _ \<Rightarrow> Some f)"
proof -
  have "sorted (map fr_cursor (unacked_frames r d st))"
    using unacked_sorted[OF assms] by (simp add: strict_sorted_iff)
  then show ?thesis
    by (simp add: oldest_unacked_def sort_key_id_if_sorted)
qed

lemma filter_unacked_delete:
  "unacked_frames r d (delete_frame r d c st) = filter (\<lambda>x. fr_cursor x \<noteq> c) (unacked_frames r d st)"
  by (auto simp: unacked_frames_def delete_frame_def intro: filter_cong)

lemma unacked_delete_oldest:
  assumes "wf_store st" and "unacked_frames r d st = x # xs"
  shows "unacked_frames r d (delete_frame r d (fr_cursor x) st) = xs"
proof -
  have "\<forall>y \<in> set xs. fr_cursor y \<noteq> fr_cursor x"
    using unacked_sorted[OF assms(1), of r d] assms(2) by auto
  then show ?thesis
    by (simp add: filter_unacked_delete assms(2) filter_id_conv)
qed

definition total_size :: "frame_row list \<Rightarrow> int" where
  "total_size fs = sum_list (map fr_envelope_size fs)"

lemma total_size_simps [simp]:
  "total_size [] = 0" "total_size (x # xs) = fr_envelope_size x + total_size xs"
  by (simp_all add: total_size_def)

lemma wf_delete_frame: "wf_store st \<Longrightarrow> wf_store (delete_frame r d c st)"
  unfolding delete_frame_def by (rule wf_frames_filter)

text \<open>The number of oldest frames that have to go before the new frame fits.\<close>

fun evictions :: "int \<Rightarrow> frame_row list \<Rightarrow> nat" where
  "evictions room [] = 0"
| "evictions room (x # xs) = (if total_size (x # xs) \<le> room then 0 else Suc (evictions room xs))"

lemma evictions_fit: "0 \<le> room \<Longrightarrow> total_size (drop (evictions room fs) fs) \<le> room"
  by (induction room fs rule: evictions.induct) auto

lemma evictions_least: "j < evictions room fs \<Longrightarrow> room < total_size (drop j fs)"
  by (induction room fs arbitrary: j rule: evictions.induct)
     (auto simp: drop_Cons' split: if_splits)

text \<open>
  What the loop does, whatever faults strike it: when it succeeds it has removed exactly the
  \<open>evictions\<close> oldest unacknowledged frames of the device and nothing else.
\<close>

definition only_frames_dropped :: "string \<Rightarrow> string \<Rightarrow> Store \<Rightarrow> Store \<Rightarrow> bool" where
  "only_frames_dropped r d st st' \<longleftrightarrow>
     (\<exists>P. st' = st\<lparr>mailbox_frames := filter P (mailbox_frames st)\<rparr> \<and> (\<forall>x. \<not> of_device r d x \<longrightarrow> P x))"

lemma only_frames_dropped_refl [simp]: "only_frames_dropped r d st st"
  unfolding only_frames_dropped_def by (rule exI[of _ "\<lambda>_. True"]) simp

lemma only_frames_dropped_trans:
  assumes "only_frames_dropped r d a b" and "only_frames_dropped r d b c"
  shows "only_frames_dropped r d a c"
proof -
  from assms obtain P Q where
    "b = a\<lparr>mailbox_frames := filter P (mailbox_frames a)\<rparr>" "\<forall>x. \<not> of_device r d x \<longrightarrow> P x"
    "c = b\<lparr>mailbox_frames := filter Q (mailbox_frames b)\<rparr>" "\<forall>x. \<not> of_device r d x \<longrightarrow> Q x"
    unfolding only_frames_dropped_def by blast
  then show ?thesis
    unfolding only_frames_dropped_def by (intro exI[of _ "\<lambda>x. P x \<and> Q x"]) simp
qed

lemma only_frames_dropped_delete: "only_frames_dropped r d st (delete_frame r d c st)"
  unfolding only_frames_dropped_def delete_frame_def by blast

lemma only_frames_dropped_dead: "only_frames_dropped r d st (drop_dead_frames r d now st)"
  unfolding only_frames_dropped_def drop_dead_frames_def by blast

lemma evict_loop_spec:
  assumes "wf_store st" and "evict_loop f i r d need m (unacked_bytes r d st) n st = Inr (n', st')"
  shows "n' = n + evictions (m - need) (unacked_frames r d st)
    \<and> unacked_frames r d st' = drop (evictions (m - need) (unacked_frames r d st)) (unacked_frames r d st)
    \<and> only_frames_dropped r d st st'"
  using assms
proof (induction "length (unacked_frames r d st)" arbitrary: i n st)
  case 0
  then show ?case
    by (auto simp: unacked_bytes_def oldest_unacked_hd evict_loop.simps[of f i] split: if_splits)
next
  case (Suc k)
  then obtain x xs where u: "unacked_frames r d st = x # xs" and k: "length xs = k"
    by (cases "unacked_frames r d st") auto
  let ?st1 = "delete_frame r d (fr_cursor x) st"
  have u1: "unacked_frames r d ?st1 = xs"
    by (rule unacked_delete_oldest[OF Suc.prems(1) u])
  have b: "unacked_bytes r d st = fr_envelope_size x + total_size xs"
      "unacked_bytes r d ?st1 = total_size xs"
    by (simp_all add: unacked_bytes_def u u1 total_size_def)
  show ?case
  proof (cases "unacked_bytes r d st + need \<le> m")
    case True
    then show ?thesis
      using Suc.prems(2) b u by (simp add: evict_loop.simps[of f i])
  next
    case False
    then have "evict_loop f (i + 2) r d need m (unacked_bytes r d ?st1) (Suc n) ?st1 = Inr (n', st')"
      using Suc.prems b
      by (auto simp: evict_loop.simps[of f i] oldest_unacked_hd u split: if_splits)
    from Suc.hyps(1)[OF _ wf_delete_frame[OF Suc.prems(1)] this] k u1 b False show ?thesis
      by (auto simp: u intro: only_frames_dropped_trans only_frames_dropped_delete)
  qed
qed

text \<open>Without driver faults the loop never runs out of frames when the new frame fits at all.\<close>

lemma evict_loop_total:
  assumes "wf_store st" and "need \<le> m" and "\<forall>j \<ge> i. \<not> f j"
  shows "\<exists>n' st'. evict_loop f i r d need m (unacked_bytes r d st) n st = Inr (n', st')"
  using assms
proof (induction "length (unacked_frames r d st)" arbitrary: i n st)
  case 0
  then show ?case by (auto simp: unacked_bytes_def evict_loop.simps[of f i])
next
  case (Suc k)
  then obtain x xs where u: "unacked_frames r d st = x # xs" and k: "length xs = k"
    by (cases "unacked_frames r d st") auto
  let ?st1 = "delete_frame r d (fr_cursor x) st"
  have u1: "unacked_frames r d ?st1 = xs"
    by (rule unacked_delete_oldest[OF Suc.prems(1) u])
  have b: "unacked_bytes r d ?st1 = unacked_bytes r d st - fr_envelope_size x"
    by (simp add: unacked_bytes_def u u1)
  have "\<exists>n' st'. evict_loop f (i + 2) r d need m (unacked_bytes r d ?st1) (Suc n) ?st1 = Inr (n', st')"
    by (rule Suc.hyps(1)) (use Suc.prems k u1 in \<open>simp_all add: wf_delete_frame\<close>)
  with Suc.prems b show ?case
    by (auto simp: evict_loop.simps[of f i] oldest_unacked_hd u)
qed


section \<open>Appending a frame\<close>

lemma active_device_find:
  assumes "wf_store st" and "active_device st r d = Some x"
  shows "find (\<lambda>y. dev_key y = (r, d)) (route_devices st) = Some x" and "dev_key x = (r, d)"
    and "dv_revoked_at x = None" and "active_route st r" and "x \<in> set (route_devices st)"
proof -
  from assms(2) have x: "x \<in> set (route_devices st)" "dev_key x = (r, d)" "dv_revoked_at x = None"
    "active_route st r"
    by (auto simp: active_device_def split: if_splits dest: find_Some_iff_mem)
  then obtain y where y: "find (\<lambda>y. dev_key y = (r, d)) (route_devices st) = Some y"
      "dev_key y = (r, d)"
    by (metis find_device_Some image_eqI)
  have "inj_on dev_key (set (route_devices st))"
    using assms(1) by (simp add: wf_store_def devices_ok_def distinct_map)
  then have "y = x"
    using x y find_Some_iff_mem[OF y(1)] by (metis inj_onD)
  with x y show "find (\<lambda>y. dev_key y = (r, d)) (route_devices st) = Some x" "dev_key x = (r, d)"
    "dv_revoked_at x = None" "active_route st r" "x \<in> set (route_devices st)"
    by simp_all
qed

lemma active_device_cursor:
  assumes "wf_store st" and "active_device st r d = Some x"
  shows "dv_next_cursor x = next_cursor st (r, d)"
  using active_device_find(1)[OF assms] by (simp add: next_cursor_def)

lemma AppendFrame_error:
  "AppendFrame f r d e now ttl m st = (Inl err, st') \<Longrightarrow> st' = st"
  by (auto simp: AppendFrame_def Let_def split: if_splits option.splits sum.splits prod.splits)

lemma only_frames_dropped_wf: "wf_store st \<Longrightarrow> only_frames_dropped r d st st' \<Longrightarrow> wf_store st'"
  by (auto simp: only_frames_dropped_def wf_frames_filter)

lemma only_frames_dropped_frame:
  assumes "only_frames_dropped r d st st'"
  shows "routes st' = routes st" and "route_devices st' = route_devices st"
    and "route_activations st' = route_activations st"
    and "pending_pairing_claims st' = pending_pairing_claims st"
    and "next_cursor st' = next_cursor st"
    and "filter (\<lambda>x. \<not> of_device r d x) (mailbox_frames st')
         = filter (\<lambda>x. \<not> of_device r d x) (mailbox_frames st)"
proof -
  from assms obtain P where st': "st' = st\<lparr>mailbox_frames := filter P (mailbox_frames st)\<rparr>"
    and P: "\<forall>x. \<not> of_device r d x \<longrightarrow> P x"
    unfolding only_frames_dropped_def by blast
  have "filter (\<lambda>x. P x \<and> \<not> of_device r d x) xs = filter (\<lambda>x. \<not> of_device r d x) xs" for xs
    by (rule filter_cong[OF refl]) (use P in blast)
  then show "routes st' = routes st" "route_devices st' = route_devices st"
    "route_activations st' = route_activations st"
    "pending_pairing_claims st' = pending_pairing_claims st" "next_cursor st' = next_cursor st"
    "filter (\<lambda>x. \<not> of_device r d x) (mailbox_frames st')
     = filter (\<lambda>x. \<not> of_device r d x) (mailbox_frames st)"
    by (simp_all add: st' next_cursor_def fun_eq_iff)
qed

definition new_frame :: "string \<Rightarrow> string \<Rightarrow> nat \<Rightarrow> bytes \<Rightarrow> gotime \<Rightarrow> duration \<Rightarrow> frame_row" where
  "new_frame r d c e now ttl =
     \<lparr>fr_route_id = r, fr_device_id = d, fr_cursor = c, fr_envelope = e,
      fr_envelope_size = int (length e), fr_inserted_at = unix now,
      fr_expires_at = unix (now + ttl), fr_acked_at = None\<rparr>"

lemma new_frame_sel [simp]:
  "frame_key (new_frame r d c e now ttl) = (r, d)" "fr_cursor (new_frame r d c e now ttl) = c"
  "fr_envelope (new_frame r d c e now ttl) = e"
  "fr_envelope_size (new_frame r d c e now ttl) = int (length e)"
  "fr_expires_at (new_frame r d c e now ttl) = unix (now + ttl)"
  "fr_acked_at (new_frame r d c e now ttl) = None"
  by (simp_all add: new_frame_def frame_key_def)

text \<open>The store the append works on: dead frames of the device removed, unless that delete failed.\<close>

definition swept :: "faults \<Rightarrow> string \<Rightarrow> string \<Rightarrow> gotime \<Rightarrow> Store \<Rightarrow> Store" where
  "swept f r d now st = (if f 2 then st else drop_dead_frames r d now st)"

lemma swept_dropped: "only_frames_dropped r d st (swept f r d now st)"
  by (simp add: swept_def only_frames_dropped_dead)

lemma wf_swept: "wf_store st \<Longrightarrow> wf_store (swept f r d now st)"
  by (rule only_frames_dropped_wf[OF _ swept_dropped])

lemma AppendFrame_success:
  assumes wf: "wf_store st" and ok: "AppendFrame f r d e now ttl m st = (Inr (c, n), st')"
  obtains st2 where "c = next_cursor st (r, d)" and "int (length e) \<le> m"
    and "(r, d) \<in> dev_key ` set (route_devices st)"
    and "n = evictions (m - int (length e)) (unacked_frames r d (swept f r d now st))"
    and "unacked_frames r d st2 = drop n (unacked_frames r d (swept f r d now st))"
    and "only_frames_dropped r d st st2"
    and "insert_frame r d c e now ttl st2 = Some (st2\<lparr>mailbox_frames := mailbox_frames st2 @ [new_frame r d c e now ttl]\<rparr>)"
    and "st' = bump_cursor r d (st2\<lparr>mailbox_frames := mailbox_frames st2 @ [new_frame r d c e now ttl]\<rparr>)"
proof -
  let ?s = "swept f r d now st"
  from ok obtain x st2 st3 where x: "active_device st r d = Some x" and len: "int (length e) \<le> m"
    and ev: "evict_loop f 7 r d (int (length e)) m (unacked_bytes r d ?s) 0 ?s = Inr (n, st2)"
    and ins: "insert_frame r d c e now ttl st2 = Some st3"
    and st': "st' = bump_cursor r d st3" and c: "c = dv_next_cursor x"
    unfolding AppendFrame_def
    by (auto simp: Let_def swept_def split: if_splits option.splits sum.splits prod.splits)
  have st3: "st3 = st2\<lparr>mailbox_frames := mailbox_frames st2 @ [new_frame r d c e now ttl]\<rparr>"
    using ins by (auto simp: insert_frame_def new_frame_def split: if_splits)
  note spec = evict_loop_spec[OF wf_swept[OF wf] ev]
  show ?thesis
  proof (rule that)
    show "c = next_cursor st (r, d)"
      using active_device_cursor[OF wf x] c by simp
    show "(r, d) \<in> dev_key ` set (route_devices st)"
      using active_device_find[OF wf x] by force
    show "only_frames_dropped r d st st2"
      using spec swept_dropped only_frames_dropped_trans by blast
    show "n = evictions (m - int (length e)) (unacked_frames r d (swept f r d now st))"
      using spec by simp
    show "unacked_frames r d st2 = drop n (unacked_frames r d (swept f r d now st))"
      using spec by simp
  qed (use len ins st' st3 in simp_all)
qed

lemma wf_AppendFrame: "wf_store st \<Longrightarrow> wf_store (snd (AppendFrame f r d e now ttl m st))"
proof (cases "AppendFrame f r d e now ttl m st")
  fix res st' assume wf: "wf_store st" and eq: "AppendFrame f r d e now ttl m st = (res, st')"
  show ?thesis
  proof (cases res)
    case (Inl err)
    then show ?thesis
      using AppendFrame_error[of f r d e now ttl m st err st'] wf eq by simp
  next
    case (Inr cn)
    obtain c n where "cn = (c, n)" by force
    with Inr eq have ok: "AppendFrame f r d e now ttl m st = (Inr (c, n), st')" by simp
    obtain st2 where "c = next_cursor st (r, d)" and "only_frames_dropped r d st st2"
      and "(r, d) \<in> dev_key ` set (route_devices st)"
      and "insert_frame r d c e now ttl st2 = Some (st2\<lparr>mailbox_frames := mailbox_frames st2 @ [new_frame r d c e now ttl]\<rparr>)"
      and "st' = bump_cursor r d (st2\<lparr>mailbox_frames := mailbox_frames st2 @ [new_frame r d c e now ttl]\<rparr>)"
      by (rule AppendFrame_success[OF wf ok])
    then show ?thesis
      using wf_insert_bump[of st2 c r d] only_frames_dropped_wf[OF wf]
        only_frames_dropped_frame[of r d st st2] eq by simp
  qed
qed

section \<open>Every operation keeps the tables intact\<close>

lemma wf_set_bridge_auth: "wf_store st \<Longrightarrow> wf_store (set_bridge_auth r h st)"
  unfolding set_bridge_auth_def by (rule wf_routes_update) auto

lemma wf_CreateRoute: "wf_store st \<Longrightarrow> wf_store (snd (CreateRoute H ri ra f now st))"
  by (auto simp: CreateRoute_def wf_routes_insert split: sum.splits option.splits)

lemma wf_insert_activation:
  assumes "wf_store st" and "insert_activation i k r now st = Some st'"
    and "r \<in> rt_route_id ` set (routes st)"
  shows "wf_store st'"
proof -
  let ?x = "\<lparr>ac_install_id = i, ac_signing_public_key = k, ac_route_id = r, ac_activated_at = unix now\<rparr>"
  from assms(2) have new: "\<forall>a \<in> set (route_activations st).
      ac_install_id a \<noteq> i \<and> ac_signing_public_key a \<noteq> k \<and> ac_route_id a \<noteq> r"
    and st': "st' = st\<lparr>route_activations := route_activations st @ [?x]\<rparr>"
    by (auto simp: insert_activation_def list_ex_iff split: if_splits)
  have "activations_ok st'"
    using assms(1,3) new unfolding st' by (auto simp: wf_store_def activations_ok_def)
  with assms(1) show ?thesis
    by (simp add: st' wf_store_def routes_ok_def devices_ok_def frames_ok_def claims_ok_def
        next_cursor_def)
qed

lemma insert_route_mem:
  "insert_route r h now st = Some st' \<Longrightarrow> r \<in> rt_route_id ` set (routes st')"
  by (auto simp: insert_route_def split: if_splits)

lemma wf_ActivateRoute: "wf_store st \<Longrightarrow> wf_store (snd (ActivateRoute H ri f i k a now st))"
proof -
  assume wf: "wf_store st"
  have "wf_store st2" if "insert_route r h now st = Some st1"
    and "insert_activation i k r now st1 = Some st2" for r h st1 st2
    using wf_insert_activation[OF wf_routes_insert[OF wf that(1)] that(2) insert_route_mem[OF that(1)]] .
  with wf show ?thesis
    by (auto simp: ActivateRoute_def wf_set_bridge_auth split: sum.splits option.splits)
qed

lemma wf_AuthenticateBridge: "wf_store st \<Longrightarrow> wf_store (snd (AuthenticateBridge H f r cred now st))"
  by (auto simp: AuthenticateBridge_def split: option.splits intro!: wf_routes_update)

lemma wf_RegisterDevice: "wf_store st \<Longrightarrow> wf_store (snd (RegisterDevice H rnd f r d now st))"
  by (auto simp: RegisterDevice_def wf_upsert_device split: sum.splits)

lemma wf_AuthenticateDevice: "wf_store st \<Longrightarrow> wf_store (snd (AuthenticateDevice H f r d cred now st))"
  by (auto simp: AuthenticateDevice_def dev_key_def split: option.splits intro!: wf_devices_map)

lemma wf_RevokeDevice: "wf_store st \<Longrightarrow> wf_store (snd (RevokeDevice f r d now st))"
proof -
  assume wf: "wf_store st"
  let ?g = "\<lambda>x. if dev_key x = (r, d) \<and> dv_revoked_at x = None
    then x\<lparr>dv_revoked_at := Some (unix now)\<rparr> else x"
  have "wf_store (st\<lparr>route_devices := map ?g (route_devices st)\<rparr>)"
    by (rule wf_devices_map[OF wf]) (simp_all add: dev_key_def)
  from wf_frames_filter[OF this, of "\<lambda>f. frame_key f \<noteq> (r, d)"] show ?thesis
    using wf by (simp add: RevokeDevice_def)
qed

lemma wf_FetchFrames: "wf_store st \<Longrightarrow> wf_store (snd (FetchFrames f r d after limit now st))"
  by (simp add: FetchFrames_def Let_def wf_frames_filter)

lemma wf_AckFrames: "wf_store st \<Longrightarrow> wf_store (snd (AckFrames f r d through now st))"
  by (auto simp: AckFrames_def frame_key_def intro!: wf_frames_map)

lemma wf_ExpireFrames: "wf_store st \<Longrightarrow> wf_store (snd (ExpireFrames f now st))"
  by (simp add: ExpireFrames_def Let_def wf_frames_filter)

lemma wf_expire_claims: "wf_store st \<Longrightarrow> wf_store (expire_claims r now st)"
  unfolding expire_claims_def by (rule wf_claims_filter)

lemma wf_SubmitPairingClaim: "wf_store st \<Longrightarrow> wf_store (snd (SubmitPairingClaim f r c cap s now ttl st))"
proof -
  assume wf: "wf_store st"
  let ?st1 = "expire_claims r now st"
  let ?x = "\<lparr>cl_route_id = r, cl_claim_id = c, cl_capability_hash = cap, cl_sealed_claim = s,
    cl_sealed_result = None, cl_state = ''pending'', cl_expires_at = unix (now + ttl),
    cl_consumed_at = None\<rparr>"
  have wf1: "wf_store ?st1" by (rule wf_expire_claims[OF wf])
  have "wf_store (?st1\<lparr>pending_pairing_claims := pending_pairing_claims ?st1 @ [?x]\<rparr>)"
    if "find_claim r c ?st1 = None" and "active_route ?st1 r"
    using wf1 that
    by (auto simp: wf_store_unfold next_cursor_def find_claim_def find_None_iff_all claim_key_def
        claim_ok_def active_route_def list_ex_iff)
  with wf wf1 show ?thesis
    by (auto simp: SubmitPairingClaim_def Let_def split: option.splits)
qed

lemma wf_PendingClaims: "wf_store st \<Longrightarrow> wf_store (snd (PendingClaims f r now st))"
  by (simp add: PendingClaims_def Let_def wf_expire_claims)

lemma wf_CompletePairingClaim: "wf_store st \<Longrightarrow> wf_store (snd (CompletePairingClaim f r c ns res now st))"
  by (auto simp: CompletePairingClaim_def claim_ok_def claim_key_def intro!: wf_claims_map)

lemma wf_ConsumePairingResult: "wf_store st \<Longrightarrow> wf_store (snd (ConsumePairingResult f r c now st))"
  by (auto simp: ConsumePairingResult_def claim_ok_def claim_key_def intro!: wf_claims_map)

lemmas wf_store_ops = wf_CreateRoute wf_ActivateRoute wf_AuthenticateBridge wf_RegisterDevice
  wf_AuthenticateDevice wf_RevokeDevice wf_AppendFrame wf_FetchFrames wf_AckFrames wf_ExpireFrames
  wf_SubmitPairingClaim wf_PendingClaims wf_CompletePairingClaim wf_ConsumePairingResult

lemma wf_store_step: "store_step st st' \<Longrightarrow> wf_store st \<Longrightarrow> wf_store st'"
  by (induction rule: store_step.induct) (simp_all add: wf_store_ops)

end
