(* ===== verification/Relay_Mailbox.thy ===== *)
theory Relay_Mailbox
  imports Store_Integrity
begin

text \<open>
  The mailbox the relay keeps for a device, seen through its pending frames. The database satisfies
  the \<open>cursor_log\<close> contract (the interpretation \<open>relay_log\<close>), with the pending frames of a device as
  the log and the device's next cursor as the mark; appending, fetching page by page, acknowledging
  and revoking are characterised on top of it.
\<close>

section \<open>Pending frames and the cursor log\<close>

definition store_pending :: "Store \<Rightarrow> string \<times> string \<Rightarrow> (nat \<times> bytes) list" where
  "store_pending st k =
     map (\<lambda>f. (fr_cursor f, fr_envelope f)) (unacked_frames (fst k) (snd k) st)"

lemma next_cursor_only_devices:
  "route_devices st' = route_devices st \<Longrightarrow> next_cursor st' k = next_cursor st k"
  by (simp add: next_cursor_def)

lemma next_cursor_map_mono:
  assumes "\<And>x. dev_key (g x) = dev_key x" and "\<And>x. dv_next_cursor x \<le> dv_next_cursor (g x)"
    and "route_devices st' = map g (route_devices st)"
  shows "next_cursor st k \<le> next_cursor st' k"
proof -
  have "next_cursor st' k = next_cursor (st\<lparr>route_devices := map g (route_devices st)\<rparr>) k"
    by (rule next_cursor_only_devices) (simp add: assms(3))
  then show ?thesis
    using assms(2) unfolding next_cursor_map[OF assms(1)]
    by (auto simp: next_cursor_def split: option.split)
qed

lemma next_cursor_upsert: "next_cursor (upsert_device r d h now st) k = next_cursor st k"
proof (cases "list_ex (\<lambda>x. dev_key x = (r, d)) (route_devices st)")
  case True
  let ?g = "\<lambda>x. if dev_key x = (r, d)
    then x\<lparr>dv_device_auth_hash := h, dv_revoked_at := None, dv_created_at := unix now\<rparr> else x"
  have "next_cursor (st\<lparr>route_devices := map ?g (route_devices st)\<rparr>) k = next_cursor st k"
    by (subst next_cursor_map) (auto simp: dev_key_def next_cursor_def split: option.split)
  with True show ?thesis by (simp add: upsert_device_def)
next
  case False
  then show ?thesis
    by (auto simp: upsert_device_def next_cursor_def find_append_case split: option.split)
qed

lemma next_cursor_mono:
  assumes "store_step st st'" and "wf_store st"
  shows "next_cursor st k \<le> next_cursor st' k"
  using assms
proof (induction rule: store_step.induct)
  case (create_route st H ri ra f now)
  then show ?case
    by (auto simp: CreateRoute_def insert_route_def next_cursor_def split: sum.splits option.splits)
next
  case (activate_route st H ri f i k a now)
  then show ?case
    by (auto simp: ActivateRoute_def insert_route_def insert_activation_def set_bridge_auth_def
        next_cursor_def split: sum.splits option.splits)
next
  case (authenticate_bridge st H f r cred now)
  then show ?case
    by (auto simp: AuthenticateBridge_def next_cursor_def split: option.splits)
next
  case (register_device st H rnd f r d now)
  then show ?case
    by (auto simp: RegisterDevice_def next_cursor_upsert split: sum.splits)
next
  case (authenticate_device st H f r d cred now)
  then show ?case
    by (auto simp: AuthenticateDevice_def dev_key_def split: option.splits
        intro!: next_cursor_map_mono[where g = "\<lambda>y. if dev_key y = (r, d)
          then y\<lparr>dv_last_seen_at := Some (unix now)\<rparr> else y"])
next
  case (revoke_device st f r d now)
  then show ?case
    by (auto simp: RevokeDevice_def dev_key_def
        intro!: next_cursor_map_mono[where g = "\<lambda>x. if dev_key x = (r, d) \<and> dv_revoked_at x = None
          then x\<lparr>dv_revoked_at := Some (unix now)\<rparr> else x"])
next
  case (append_frame st f r d e now ttl m)
  show ?case
  proof (cases "AppendFrame f r d e now ttl m st")
    case (Pair res st')
    show ?thesis
    proof (cases res)
      case (Inl err)
      then show ?thesis
        using Pair AppendFrame_error[of f r d e now ttl m st err st'] by simp
    next
      case (Inr cn)
      obtain c n where "cn = (c, n)" by force
      with Inr Pair have ok: "AppendFrame f r d e now ttl m st = (Inr (c, n), st')" by simp
      obtain st2 where "only_frames_dropped r d st st2"
        "(r, d) \<in> dev_key ` set (route_devices st)"
        "st' = bump_cursor r d (st2\<lparr>mailbox_frames := mailbox_frames st2 @ [new_frame r d c e now ttl]\<rparr>)"
        by (rule AppendFrame_success[OF append_frame ok])
      then show ?thesis
        using next_cursor_bump[of r d "st2\<lparr>mailbox_frames := mailbox_frames st2 @ [new_frame r d c e now ttl]\<rparr>" k]
          only_frames_dropped_frame[of r d st st2] Pair
        by (simp add: next_cursor_def)
    qed
  qed
qed (auto simp: FetchFrames_def AckFrames_def ExpireFrames_def SubmitPairingClaim_def PendingClaims_def
      CompletePairingClaim_def ConsumePairingResult_def expire_claims_def Let_def next_cursor_def
      split: option.splits)

text \<open>How each kind of write changes the pending frames of a device.\<close>

lemma unacked_only_frames:
  "mailbox_frames st' = mailbox_frames st \<Longrightarrow> unacked_frames r d st' = unacked_frames r d st"
  by (simp add: unacked_frames_def)

lemma pending_filter_subset:
  assumes "mailbox_frames st' = filter P (mailbox_frames st)"
  shows "set (store_pending st' k) \<subseteq> set (store_pending st k)"
  using assms by (auto simp: store_pending_def unacked_frames_def)

lemma unacked_frames_other:
  assumes "filter (\<lambda>x. \<not> of_device r d x) fs' = filter (\<lambda>x. \<not> of_device r d x) fs"
    and "(r', d') \<noteq> (r, d)"
  shows "filter (\<lambda>x. of_device r' d' x \<and> fr_acked_at x = None) fs'
       = filter (\<lambda>x. of_device r' d' x \<and> fr_acked_at x = None) fs"
proof -
  have sub: "filter (\<lambda>x. of_device r' d' x \<and> fr_acked_at x = None) xs
      = filter (\<lambda>x. of_device r' d' x \<and> fr_acked_at x = None)
          (filter (\<lambda>x. \<not> of_device r d x) xs)" for xs
    using assms(2) by (auto simp: of_device_def intro: filter_cong)
  show ?thesis
    using sub[of fs] sub[of fs'] assms(1) by simp
qed

lemma unacked_append_new:
  "unacked_frames r' d' (bump_cursor r d (st\<lparr>mailbox_frames := mailbox_frames st @ [new_frame r d c e now ttl]\<rparr>))
   = unacked_frames r' d' st @ (if (r', d') = (r, d) then [new_frame r d c e now ttl] else [])"
  by (auto simp: unacked_frames_def bump_cursor_def of_device_def)

lemma pending_AppendFrame:
  assumes wf: "wf_store st" and ok: "AppendFrame f r d e now ttl m st = (Inr (c, n), st')"
  shows "store_pending st' (r, d) = drop n (store_pending (swept f r d now st) (r, d)) @ [(c, e)]"
    and "k \<noteq> (r, d) \<Longrightarrow> store_pending st' k = store_pending st k"
    and "c = next_cursor st (r, d)"
    and "n = evictions (m - int (length e)) (unacked_frames r d (swept f r d now st))"
    and "unacked_bytes r d st' \<le> m"
proof -
  obtain st2 where s: "c = next_cursor st (r, d)" "int (length e) \<le> m"
    "n = evictions (m - int (length e)) (unacked_frames r d (swept f r d now st))"
    "unacked_frames r d st2 = drop n (unacked_frames r d (swept f r d now st))"
    "only_frames_dropped r d st st2"
    "st' = bump_cursor r d (st2\<lparr>mailbox_frames := mailbox_frames st2 @ [new_frame r d c e now ttl]\<rparr>)"
    by (rule AppendFrame_success[OF wf ok])
  have own: "unacked_frames r d st'
      = drop n (unacked_frames r d (swept f r d now st)) @ [new_frame r d c e now ttl]"
    unfolding s(6) unacked_append_new s(4) by simp
  have other: "unacked_frames r' d' st' = unacked_frames r' d' st2" if "(r', d') \<noteq> (r, d)" for r' d'
    unfolding s(6) unacked_append_new using that by simp
  show "store_pending st' (r, d) = drop n (store_pending (swept f r d now st) (r, d)) @ [(c, e)]"
    by (simp add: store_pending_def own drop_map)
  show "c = next_cursor st (r, d)"
    and "n = evictions (m - int (length e)) (unacked_frames r d (swept f r d now st))"
    by (fact s(1), fact s(3))
  show "k \<noteq> (r, d) \<Longrightarrow> store_pending st' k = store_pending st k"
    using unacked_frames_other[OF only_frames_dropped_frame(6)[OF s(5)], of "fst k" "snd k"]
      other[of "fst k" "snd k"]
    by (simp add: store_pending_def unacked_frames_def[of _ _ st2] unacked_frames_def[of _ _ st])
  show "unacked_bytes r d st' \<le> m"
    using evictions_fit[of "m - int (length e)" "unacked_frames r d (swept f r d now st)"] s(2,3)
    by (simp add: unacked_bytes_def own total_size_def)
qed

lemma swept_pending_subset: "set (store_pending (swept f r d now st) k) \<subseteq> set (store_pending st k)"
  by (auto simp: swept_def drop_dead_frames_def store_pending_def unacked_frames_def)

lemma unacked_AckFrames:
  "unacked_frames r' d' (snd (AckFrames f r d n now st)) =
     (if f 0 then unacked_frames r' d' st
      else filter (\<lambda>x. \<not> ((r', d') = (r, d) \<and> fr_cursor x \<le> n)) (unacked_frames r' d' st))"
proof -
  let ?g = "\<lambda>x. if of_device r d x \<and> fr_cursor x \<le> n \<and> fr_acked_at x = None
    then x\<lparr>fr_acked_at := Some (unix now)\<rparr> else x"
  have "filter (\<lambda>x. of_device r' d' x \<and> fr_acked_at x = None) (map ?g xs)
      = filter (\<lambda>x. \<not> ((r', d') = (r, d) \<and> fr_cursor x \<le> n))
          (filter (\<lambda>x. of_device r' d' x \<and> fr_acked_at x = None) xs)" for xs
    by (induction xs) (auto simp: of_device_def frame_key_def)
  then show ?thesis
    by (simp add: AckFrames_def unacked_frames_def)
qed

lemma pending_fresh_step:
  assumes "store_step st st'" and "wf_store st" and "x \<in> set (store_pending st' k)"
  shows "x \<in> set (store_pending st k) \<or> next_cursor st k \<le> fst x"
  using assms
proof (induction rule: store_step.induct)
  case (append_frame st f r d e now ttl m)
  show ?case
  proof (cases "AppendFrame f r d e now ttl m st")
    case (Pair res st')
    show ?thesis
    proof (cases res)
      case (Inl err)
      then show ?thesis
        using Pair append_frame AppendFrame_error[of f r d e now ttl m st err st'] by simp
    next
      case (Inr cn)
      obtain c n where "cn = (c, n)" by force
      with Inr Pair have ok: "AppendFrame f r d e now ttl m st = (Inr (c, n), st')" by simp
      note p = pending_AppendFrame[OF append_frame(1) ok]
      show ?thesis
        using append_frame(2) p(1,3) p(2)[of k] ok swept_pending_subset[of f r d now st "(r, d)"]
        by (cases "k = (r, d)") (auto dest: in_set_dropD)
    qed
  qed
next
  case (ack_frames st f r d through now)
  then show ?case
    by (auto simp: store_pending_def unacked_AckFrames split: if_splits)
next
  case (revoke_device st f r d now)
  then show ?case
    by (auto simp: RevokeDevice_def store_pending_def unacked_frames_def split: if_splits)
next
  case (fetch_frames st f r d after limit now)
  then show ?case
    by (auto simp: FetchFrames_def Let_def store_pending_def unacked_frames_def split: if_splits)
next
  case (expire_frames st f now)
  then show ?case
    by (auto simp: ExpireFrames_def Let_def store_pending_def unacked_frames_def split: if_splits)
qed (auto simp: CreateRoute_def ActivateRoute_def AuthenticateBridge_def RegisterDevice_def
      AuthenticateDevice_def SubmitPairingClaim_def PendingClaims_def CompletePairingClaim_def
      ConsumePairingResult_def insert_route_def insert_activation_def set_bridge_auth_def
      upsert_device_def expire_claims_def Let_def store_pending_def unacked_frames_def
      split: sum.splits option.splits if_splits)

interpretation relay_log: cursor_log wf_store store_pending next_cursor store_step
proof
  show "wf_store t" if "wf_store s" "store_step s t" for s t
    using that by (simp add: wf_store_step)
  show "sorted_wrt (<) (map fst (store_pending s d))" if "wf_store s" for s d
    using unacked_sorted[OF that, of "fst d" "snd d"] by (simp add: store_pending_def comp_def)
  show "fst x < next_cursor s d" if "wf_store s" "x \<in> set (store_pending s d)" for s x d
    using that by (auto simp: store_pending_def unacked_frames_def of_device_def wf_store_def frames_ok_def)
  show "next_cursor s d \<le> next_cursor t d" if "wf_store s" "store_step s t" for s t d
    using that by (simp add: next_cursor_mono)
  show "x \<in> set (store_pending s d) \<or> next_cursor s d \<le> fst x"
    if "wf_store s" "store_step s t" "x \<in> set (store_pending t d)" for s t x d
    using that by (simp add: pending_fresh_step)
qed


section \<open>Fetching\<close>

definition live_frames :: "string \<Rightarrow> string \<Rightarrow> nat \<Rightarrow> gotime \<Rightarrow> Store \<Rightarrow> frame_row list" where
  "live_frames r d after now st =
     filter (\<lambda>x. after < fr_cursor x \<and> unix now < fr_expires_at x) (unacked_frames r d st)"

definition wire_frame :: "frame_row \<Rightarrow> MailboxFrame" where
  "wire_frame x = \<lparr>mf_Cursor = fr_cursor x, mf_Envelope = fr_envelope x, mf_ExpiresAt = fr_expires_at x\<rparr>"

lemma fetch_limit_bounds: "0 < fetch_limit limit" "fetch_limit limit \<le> 200"
  by (auto simp: fetch_limit_def)

lemma live_frames_sorted:
  assumes "wf_store st"
  shows "sorted_wrt (<) (map fr_cursor (live_frames r d after now st))"
  using unacked_sorted[OF assms, of r d]
  by (auto simp: live_frames_def sorted_wrt_map sorted_wrt_filter)

lemma FetchFrames_ok:
  assumes wf: "wf_store st"
  shows "FetchFrames no_faults r d after limit now st =
     (Inr (map wire_frame (take (fetch_limit limit) (live_frames r d after now st))),
      st\<lparr>mailbox_frames := filter (\<lambda>x. \<not> (of_device r d x \<and> fr_expires_at x \<le> unix now))
         (mailbox_frames st)\<rparr>)" (is "_ = (_, ?st1)")
proof -
  have eq: "filter (\<lambda>f. of_device r d f \<and> after < fr_cursor f \<and> fr_acked_at f = None
      \<and> unix now < fr_expires_at f) (mailbox_frames ?st1) = live_frames r d after now st"
    by (auto simp: live_frames_def unacked_frames_def intro: filter_cong)
  have "sorted (map fr_cursor (live_frames r d after now st))"
    using live_frames_sorted[OF wf] by (simp add: strict_sorted_iff)
  then have "select_frames r d after limit now ?st1
      = map wire_frame (take (fetch_limit limit) (live_frames r d after now st))"
    unfolding select_frames_def eq by (simp add: sort_key_id_if_sorted wire_frame_def)
  then show ?thesis
    by (simp add: FetchFrames_def Let_def)
qed

lemma live_frames_after_fetch:
  "live_frames r d after' now (st\<lparr>mailbox_frames := filter (\<lambda>x. \<not> (of_device r d x \<and> fr_expires_at x \<le> unix now))
     (mailbox_frames st)\<rparr>) = live_frames r d after' now st"
  by (auto simp: live_frames_def unacked_frames_def intro: filter_cong)

text \<open>Moving the cursor to the last frame of a page leaves exactly the frames after the page.\<close>

lemma live_frames_next_page:
  assumes wf: "wf_store st" and k: "take k (live_frames r d after now st) \<noteq> []"
  shows "live_frames r d (fr_cursor (last (take k (live_frames r d after now st)))) now st
       = drop k (live_frames r d after now st)" (is "live_frames r d ?c now st = drop k ?fs")
proof -
  have s: "sorted_wrt (\<lambda>a b. fr_cursor a < fr_cursor b) ?fs"
    using live_frames_sorted[OF wf] by (simp add: sorted_wrt_map)
  have "last (take k ?fs) \<in> set ?fs"
    using k by (metis in_set_takeD last_in_set)
  then have "after < ?c" by (simp add: live_frames_def)
  then have "live_frames r d ?c now st = filter (\<lambda>x. ?c < fr_cursor x) ?fs"
    by (auto simp: live_frames_def intro: filter_cong)
  also have "\<dots> = filter (\<lambda>x. ?c < fr_cursor x) (take k ?fs) @ filter (\<lambda>x. ?c < fr_cursor x) (drop k ?fs)"
    by (metis append_take_drop_id filter_append)
  also have "filter (\<lambda>x. ?c < fr_cursor x) (take k ?fs) = []"
  proof -
    obtain ys y where ys: "take k ?fs = ys @ [y]"
      using k by (metis append_butlast_last_id)
    have "sorted_wrt (\<lambda>a b. fr_cursor a < fr_cursor b) (take k ?fs)"
      using s by (rule sorted_wrt_take)
    then show ?thesis
      by (auto simp: ys sorted_wrt_append filter_empty_conv)
  qed
  also have "filter (\<lambda>x. ?c < fr_cursor x) (drop k ?fs) = drop k ?fs"
  proof -
    have "sorted_wrt (\<lambda>a b. fr_cursor a < fr_cursor b) (take k ?fs @ drop k ?fs)"
      using s by simp
    then have "\<forall>y \<in> set (drop k ?fs). ?c < fr_cursor y"
      using last_in_set[OF k] by (simp only: sorted_wrt_append) blast
    then show ?thesis by (simp add: filter_id_conv)
  qed
  finally show ?thesis by simp
qed

text \<open>
  A client that fetches page after page, each time from the cursor of the last frame it got, until
  a page is empty.
\<close>

fun drain :: "nat \<Rightarrow> string \<Rightarrow> string \<Rightarrow> nat \<Rightarrow> int \<Rightarrow> gotime \<Rightarrow> Store \<Rightarrow> MailboxFrame list option" where
  "drain 0 r d after limit now st = None"
| "drain (Suc fuel) r d after limit now st =
     (case FetchFrames no_faults r d after limit now st of
        (Inl e, st') \<Rightarrow> None
      | (Inr fs, st') \<Rightarrow>
          (if fs = [] then Some []
           else map_option (\<lambda>rest. fs @ rest) (drain fuel r d (mf_Cursor (last fs)) limit now st')))"

lemma drain_live:
  assumes "wf_store st" and "length (live_frames r d after now st) < fuel"
  shows "drain fuel r d after limit now st = Some (map wire_frame (live_frames r d after now st))"
  using assms
proof (induction fuel arbitrary: after st)
  case 0
  then show ?case by simp
next
  case (Suc fuel)
  let ?fs = "live_frames r d after now st" and ?k = "fetch_limit limit"
  let ?st1 = "st\<lparr>mailbox_frames := filter (\<lambda>x. \<not> (of_device r d x \<and> fr_expires_at x \<le> unix now))
    (mailbox_frames st)\<rparr>"
  note fetch = FetchFrames_ok[OF Suc.prems(1), of r d after limit now]
  show ?case
  proof (cases "take ?k ?fs = []")
    case True
    then have "?fs = []"
      using fetch_limit_bounds(1)[of limit] by (cases ?fs) auto
    with fetch show ?thesis by simp
  next
    case False
    let ?c = "fr_cursor (last (take ?k ?fs))"
    have nxt: "live_frames r d ?c now ?st1 = drop ?k ?fs"
      using live_frames_next_page[OF Suc.prems(1) False] by (simp only: live_frames_after_fetch)
    have "0 < length ?fs" using False by (cases ?fs) auto
    then have "length (drop ?k ?fs) < fuel"
      using Suc.prems(2) fetch_limit_bounds(1)[of limit] unfolding length_drop by linarith
    then have "drain fuel r d ?c limit now ?st1 = Some (map wire_frame (drop ?k ?fs))"
      using Suc.IH[of ?st1 ?c] wf_frames_filter[OF Suc.prems(1)] by (simp only: nxt)
    moreover have "mf_Cursor (last (map wire_frame (take ?k ?fs))) = ?c"
      using last_map[OF False, of wire_frame] by (simp add: wire_frame_def)
    ultimately show ?thesis
      using fetch False
      by (simp del: take_eq_Nil) (metis append_take_drop_id map_append)
  qed
qed


section \<open>Properties\<close>

text \<open>
  C3. A successful append hands out the device's next cursor, puts the frame behind what survives of
  the pending frames, evicts only from the old end and only as many frames as needed, keeps the
  device's unacknowledged bytes within the capacity, and changes no other device's mailbox. This
  holds under every fault schedule under which the append succeeds.
\<close>

theorem append_frame_spec:
  assumes "wf_store st" and "AppendFrame f r d e now ttl m st = (Inr (c, n), st')"
  shows "store_pending st' (r, d) = drop n (store_pending (swept f r d now st) (r, d)) @ [(c, e)]
    \<and> c = next_cursor st (r, d)
    \<and> unacked_bytes r d st' \<le> m
    \<and> (\<forall>j < n. m < total_size (drop j (unacked_frames r d (swept f r d now st))) + int (length e))
    \<and> (\<forall>k. k \<noteq> (r, d) \<longrightarrow> store_pending st' k = store_pending st k)
    \<and> wf_store st'"
  using pending_AppendFrame[OF assms] wf_AppendFrame[OF assms(1), of f r d e now ttl m] assms(2)
    evictions_least[of _ "m - int (length e)" "unacked_frames r d (swept f r d now st)"]
  by (auto simp: less_diff_eq algebra_simps)

text \<open>
  An append that reports an error has changed nothing (the transaction is atomic), and without
  driver faults an append of a frame that fits the capacity to an active device always succeeds:
  the eviction loop terminates and never runs out of frames.
\<close>

theorem append_frame_atomic:
  assumes "wf_store st"
  shows "(\<forall>f err st'. AppendFrame f r d e now ttl m st = (Inl err, st') \<longrightarrow> st' = st)
    \<and> (DeviceActive no_faults r d st \<and> int (length e) \<le> m \<longrightarrow>
        (\<exists>c n st'. AppendFrame no_faults r d e now ttl m st = (Inr (c, n), st')))"
proof (intro conjI impI allI)
  show "st' = st" if "AppendFrame f r d e now ttl m st = (Inl err, st')" for f err st'
    using that by (rule AppendFrame_error)
next
  assume a: "DeviceActive no_faults r d st \<and> int (length e) \<le> m"
  then obtain x where x: "active_device st r d = Some x" by (auto simp: DeviceActive_def)
  let ?s = "drop_dead_frames r d now st"
  have wf: "wf_store ?s"
    using only_frames_dropped_wf[OF assms only_frames_dropped_dead] .
  obtain n st2 where ev:
      "evict_loop no_faults 7 r d (int (length e)) m (unacked_bytes r d ?s) 0 ?s = Inr (n, st2)"
    using evict_loop_total[OF wf, of "int (length e)" m 7 no_faults r d 0] a by auto
  have st2: "only_frames_dropped r d st st2"
    using evict_loop_spec[OF wf ev] only_frames_dropped_trans[OF only_frames_dropped_dead] by blast
  have "fr_cursor y < dv_next_cursor x" if "y \<in> set (mailbox_frames st2)" "of_device r d y" for y
    using only_frames_dropped_wf[OF assms st2] only_frames_dropped_frame(5)[OF st2] that
      active_device_cursor[OF assms x]
    by (auto simp: wf_store_def frames_ok_def of_device_def)
  then have "\<not> list_ex (\<lambda>f. of_device r d f \<and> fr_cursor f = dv_next_cursor x) (mailbox_frames st2)"
    by (fastforce simp: list_ex_iff)
  with a x ev show "\<exists>c n st'. AppendFrame no_faults r d e now ttl m st = (Inr (c, n), st')"
    by (simp add: AppendFrame_def insert_frame_def Let_def)
qed

text \<open>
  Once a device has acknowledged through a cursor it has been given, no run of database
  operations, with any faults and including revocation and re-registration of the device, makes a
  frame at or below that cursor pending for it again.
\<close>

theorem acked_never_redelivered:
  assumes "wf_store st" and "n < next_cursor st (r, d)"
    and "AckFrames f r d n now st = (Inr (), st1)"
    and "store_step\<^sup>*\<^sup>* st1 st2" and "(c, e) \<in> set (store_pending st2 (r, d))"
  shows "n < c"
proof (rule ccontr)
  assume "\<not> n < c"
  have st1: "st1 = snd (AckFrames f r d n now st)" and f: "\<not> f 0"
    using assms(3) by (auto simp: AckFrames_def split: if_splits)
  have wf1: "wf_store st1" unfolding st1 by (rule wf_AckFrames[OF assms(1)])
  have "next_cursor st (r, d) \<le> next_cursor st1 (r, d)"
    unfolding st1 by (rule next_cursor_mono[OF store_step.ack_frames assms(1)])
  moreover have "(c, e) \<notin> set (store_pending st1 (r, d))"
    using \<open>\<not> n < c\<close> f by (auto simp: st1 store_pending_def unacked_AckFrames)
  ultimately have "(c, e) \<notin> set (store_pending st2 (r, d))"
    using \<open>\<not> n < c\<close> assms(2) by (intro relay_log.never_redelivered[OF wf1 assms(4)]) auto
  with assms(5) show False by simp
qed

text \<open>
  Cursors are stable names: if a cursor is pending for a device now and again after any run of
  database operations, it names the same envelope; and the next cursor of a device never goes back,
  so cursors are not reused after eviction, expiry, revocation or re-registration.
\<close>

theorem cursor_names_one_frame:
  assumes "wf_store st" and "store_step\<^sup>*\<^sup>* st st2"
  shows "next_cursor st k \<le> next_cursor st2 k
    \<and> (\<forall>c e e'. (c, e) \<in> set (store_pending st k) \<longrightarrow> (c, e') \<in> set (store_pending st2 k) \<longrightarrow> e = e')"
  using relay_log.steps_mark[OF assms(2,1)] relay_log.cursor_stable[OF assms] by blast

text \<open>
  Fetching page after page, each time from the last cursor received, terminates and returns
  every live pending frame after the starting cursor exactly once, in cursor order, for every page
  size the caller asks for; every page holds at most 200 frames.
\<close>

theorem fetch_paging_complete:
  assumes "wf_store st" and "length (mailbox_frames st) < fuel"
  shows "drain fuel r d after limit now st = Some (map wire_frame (live_frames r d after now st))
    \<and> sorted_wrt (<) (map mf_Cursor (map wire_frame (live_frames r d after now st)))
    \<and> (\<forall>fs st'. FetchFrames no_faults r d after limit now st = (Inr fs, st') \<longrightarrow> length fs \<le> 200)"
proof (intro conjI)
  have "length (live_frames r d after now st) \<le> length (mailbox_frames st)"
    unfolding live_frames_def unacked_frames_def by (meson length_filter_le order_trans)
  with assms show "drain fuel r d after limit now st = Some (map wire_frame (live_frames r d after now st))"
    by (intro drain_live) simp_all
  show "sorted_wrt (<) (map mf_Cursor (map wire_frame (live_frames r d after now st)))"
    using live_frames_sorted[OF assms(1)] by (simp add: wire_frame_def comp_def)
  show "\<forall>fs st'. FetchFrames no_faults r d after limit now st = (Inr fs, st') \<longrightarrow> length fs \<le> 200"
    using fetch_limit_bounds(2)[of limit] by (auto simp: FetchFrames_ok[OF assms(1)])
qed

text \<open>
  Revoking a device is complete: afterwards no credential authenticates it, no frame can be
  appended for it, its mailbox is empty, and every other device keeps its activity status, its
  mailbox and its cursor.
\<close>

theorem revoke_device_complete:
  assumes "wf_store st" and "RevokeDevice f r d now st = (Inr (), st')"
  shows "active_device st' r d = None
    \<and> fst (AuthenticateDevice H g r d cred now' st') = False
    \<and> fst (AppendFrame g r d e now' ttl m st') \<in> {Inl EFrameExceedsCapacity, Inl EDriver, Inl EInactiveDestination}
    \<and> store_pending st' (r, d) = []
    \<and> (\<forall>r' d'. (r', d') \<noteq> (r, d) \<longrightarrow>
          active_device st' r' d' = active_device st r' d'
          \<and> store_pending st' (r', d') = store_pending st (r', d')
          \<and> next_cursor st' (r', d') = next_cursor st (r', d'))"
proof -
  let ?g = "\<lambda>x. if dev_key x = (r, d) \<and> dv_revoked_at x = None
    then x\<lparr>dv_revoked_at := Some (unix now)\<rparr> else x"
  have st': "st' = st\<lparr>route_devices := map ?g (route_devices st),
      mailbox_frames := filter (\<lambda>f. frame_key f \<noteq> (r, d)) (mailbox_frames st)\<rparr>"
    using assms(2) by (auto simp: RevokeDevice_def split: if_splits)
  have k: "dev_key (?g x) = dev_key x" for x by (simp add: dev_key_def)
  have rt: "active_route st' a = active_route st a" for a by (simp add: active_route_def st')
  have gone: "active_device st' r d = None"
    by (auto simp: active_device_def st' find_None_iff_all k)
  have other: "active_device st' a b = active_device st a b" if "(a, b) \<noteq> (r, d)" for a b
  proof -
    have "find (\<lambda>x. dev_key x = (a, b) \<and> dv_revoked_at x = None) (map ?g xs)
        = find (\<lambda>x. dev_key x = (a, b) \<and> dv_revoked_at x = None) xs" for xs
      using that by (induction xs) (auto simp: dev_key_def)
    then show ?thesis by (simp add: active_device_def rt) (simp add: st')
  qed
  have pend: "store_pending st' (a, b) = (if (a, b) = (r, d) then [] else store_pending st (a, b))" for a b
    by (auto simp: st' store_pending_def unacked_frames_def of_device_def filter_empty_conv
        intro!: arg_cong[where f = "map _"] filter_cong)
  have nc: "next_cursor st' j = next_cursor st j" for j
  proof -
    have "next_cursor st' j = next_cursor (st\<lparr>route_devices := map ?g (route_devices st)\<rparr>) j"
      by (rule next_cursor_only_devices) (simp add: st')
    also have "\<dots> = next_cursor st j"
      unfolding next_cursor_map[OF k] by (auto simp: next_cursor_def split: option.split)
    finally show ?thesis .
  qed
  show ?thesis
    using gone other pend nc by (auto simp: AuthenticateDevice_def AppendFrame_def)
qed


section \<open>Witnesses\<close>

definition demo_store :: Store where
  "demo_store = \<lparr>routes = [\<lparr>rt_route_id = ''rt_a'', rt_bridge_auth_hash = [1], rt_created_at = 0,
       rt_revoked_at = None, rt_last_bridge_seen_at = None\<rparr>],
     route_activations = [],
     route_devices = [\<lparr>dv_route_id = ''rt_a'', dv_device_id = ''phone'', dv_device_auth_hash = [2],
       dv_created_at = 0, dv_revoked_at = None, dv_last_seen_at = None, dv_next_cursor = 3\<rparr>],
     mailbox_frames = [new_frame ''rt_a'' ''phone'' 1 [7, 7, 7] 0 minute,
                       new_frame ''rt_a'' ''phone'' 2 [8, 8] 0 minute],
     pending_pairing_claims = []\<rparr>"

lemma wf_demo_store: "wf_store demo_store"
  by (simp add: demo_store_def wf_store_unfold next_cursor_def frame_before_def dev_key_def)

lemma demo_facts:
  "next_cursor demo_store (''rt_a'', ''phone'') = 3" "length (mailbox_frames demo_store) = 2"
  "active_device demo_store ''rt_a'' ''phone'' \<noteq> None"
  by (simp_all add: demo_store_def next_cursor_def dev_key_def active_device_def active_route_def)

definition demo_append :: "(store_error + nat \<times> nat) \<times> Store" where
  "demo_append = AppendFrame no_faults ''rt_a'' ''phone'' [9, 9] 1 minute 5 demo_store"

lemma demo_append_result: "fst demo_append = Inr (3, 1)"
  by (simp add: demo_append_def AppendFrame_def demo_store_def active_device_def active_route_def
      dev_key_def drop_dead_frames_def unacked_bytes_def unacked_frames_def of_device_def unix_def
      minute_def new_frame_def frame_key_def evict_loop.simps oldest_unacked_def delete_frame_def
      insert_frame_def)

theorem append_frame_spec_witness:
  "store_pending (snd demo_append) (''rt_a'', ''phone'') = [(2, [8, 8]), (3, [9, 9])]"
proof -
  have ok: "AppendFrame no_faults ''rt_a'' ''phone'' [9, 9] 1 minute 5 demo_store
      = (Inr (3, 1), snd demo_append)"
    using demo_append_result unfolding demo_append_def by (metis prod.collapse)
  have "swept no_faults ''rt_a'' ''phone'' 1 demo_store = demo_store"
    by (simp add: swept_def drop_dead_frames_def demo_store_def unix_def minute_def of_device_def)
  moreover have "store_pending demo_store (''rt_a'', ''phone'') = [(1, [7, 7, 7]), (2, [8, 8])]"
    by (simp add: store_pending_def unacked_frames_def demo_store_def of_device_def)
  ultimately show ?thesis
    using append_frame_spec[OF wf_demo_store ok] by simp
qed

theorem append_frame_atomic_witness:
  "\<exists>c n st'. AppendFrame no_faults ''rt_a'' ''phone'' [9, 9] 1 minute 5 demo_store = (Inr (c, n), st')"
  using append_frame_atomic[OF wf_demo_store, of "''rt_a''" "''phone''" "[9, 9]" 1 minute 5] demo_facts
  by (simp add: DeviceActive_def)

theorem acked_never_redelivered_witness:
  "1 < (2::nat) \<and> (2, [8, 8]) \<in> set (store_pending
     (snd (AckFrames no_faults ''rt_a'' ''phone'' 1 0 demo_store)) (''rt_a'', ''phone''))"
proof -
  let ?st1 = "snd (AckFrames no_faults ''rt_a'' ''phone'' 1 0 demo_store)"
  have mem: "(2, [8, 8]) \<in> set (store_pending ?st1 (''rt_a'', ''phone''))"
    by (simp add: store_pending_def unacked_AckFrames)
       (force simp: unacked_frames_def demo_store_def of_device_def)
  have ack: "AckFrames no_faults ''rt_a'' ''phone'' 1 0 demo_store = (Inr (), ?st1)"
    by (simp add: AckFrames_def)
  show ?thesis
    using acked_never_redelivered[OF wf_demo_store _ ack rtranclp.rtrancl_refl mem] mem
    by (simp add: demo_facts)
qed

theorem cursor_names_one_frame_witness:
  "next_cursor demo_store (''rt_a'', ''phone'') \<le> next_cursor (snd demo_append) (''rt_a'', ''phone'')"
proof -
  have "store_step demo_store (snd demo_append)"
    unfolding demo_append_def by (rule store_step.append_frame)
  then show ?thesis
    using cursor_names_one_frame[OF wf_demo_store, of "snd demo_append"] by blast
qed

theorem fetch_paging_complete_witness:
  "drain 3 ''rt_a'' ''phone'' 0 1 1 demo_store =
     Some [\<lparr>mf_Cursor = 1, mf_Envelope = [7, 7, 7], mf_ExpiresAt = 60\<rparr>,
           \<lparr>mf_Cursor = 2, mf_Envelope = [8, 8], mf_ExpiresAt = 60\<rparr>]"
proof -
  have "live_frames ''rt_a'' ''phone'' 0 1 demo_store = mailbox_frames demo_store"
    by (simp add: live_frames_def unacked_frames_def demo_store_def of_device_def unix_def minute_def)
  then show ?thesis
    using fetch_paging_complete[OF wf_demo_store, of 3 "''rt_a''" "''phone''" 0 1 1]
    by (simp add: demo_facts wire_frame_def)
       (simp add: demo_store_def wire_frame_def unix_def minute_def)
qed

theorem revoke_device_complete_witness:
  "store_pending (snd (RevokeDevice no_faults ''rt_a'' ''phone'' 1 demo_store)) (''rt_a'', ''phone'') = []"
proof -
  have "RevokeDevice no_faults ''rt_a'' ''phone'' 1 demo_store
      = (Inr (), snd (RevokeDevice no_faults ''rt_a'' ''phone'' 1 demo_store))"
    by (simp add: RevokeDevice_def demo_store_def dev_key_def)
  from revoke_device_complete[OF wf_demo_store this] show ?thesis by blast
qed

end
