(* ===== verification/Relay_Claims.thy ===== *)
theory Relay_Claims
  imports Store_Integrity
begin

text \<open>
  Pairing claims in the relay database: a device leaves a sealed claim under a capability, the bridge
  completes it as approved or rejected, the device reads the result once. The theory shows the
  life cycle of a claim under every database operation, the single delivery of its result, and what
  submitting a claim does on every branch, including a route that does not exist.
\<close>

section \<open>Looking claims up\<close>

lemma find_claim_mem:
  "find_claim r c st = Some x \<Longrightarrow> x \<in> set (pending_pairing_claims st) \<and> claim_key x = (r, c)"
  unfolding find_claim_def by (drule find_Some_iff_mem) simp

lemma find_claim_unique:
  assumes "wf_store st" and "x \<in> set (pending_pairing_claims st)" and "claim_key x = (r, c)"
  shows "find_claim r c st = Some x"
proof (cases "find_claim r c st")
  case None
  then show ?thesis
    using assms(2,3) by (auto simp: find_claim_def find_None_iff_all)
next
  case (Some y)
  have "inj_on claim_key (set (pending_pairing_claims st))"
    using assms(1) by (simp add: wf_store_def claims_ok_def distinct_map)
  with Some find_claim_mem[OF Some] assms(2,3) show ?thesis
    by (metis inj_onD)
qed

lemma find_filter_claim:
  assumes "wf_store st"
  shows "find (\<lambda>x. claim_key x = (r, c) \<and> P x) (pending_pairing_claims st) =
     (case find_claim r c st of None \<Rightarrow> None | Some x \<Rightarrow> if P x then Some x else None)"
proof (cases "find (\<lambda>x. claim_key x = (r, c) \<and> P x) (pending_pairing_claims st)")
  case None
  then show ?thesis
    by (auto simp: find_None_iff_all split: option.split dest!: find_claim_mem)
next
  case (Some y)
  then show ?thesis
    using find_claim_unique[OF assms, of y r c] find_Some_iff_mem[OF Some] by simp
qed

lemma find_claim_map:
  assumes "\<And>x. claim_key (g x) = claim_key x"
  shows "find_claim r c (st\<lparr>pending_pairing_claims := map g (pending_pairing_claims st)\<rparr>)
       = map_option g (find_claim r c st)"
proof -
  have "find (\<lambda>x. claim_key x = (r, c)) (map g xs) = map_option g (find (\<lambda>x. claim_key x = (r, c)) xs)" for xs
    by (rule find_map_keep) (simp add: assms)
  then show ?thesis by (simp add: find_claim_def)
qed

lemma find_claim_expire:
  assumes "wf_store st"
  shows "find_claim r c (expire_claims r' now st) =
     (case find_claim r c st of None \<Rightarrow> None
      | Some x \<Rightarrow> if r = r' \<and> cl_expires_at x \<le> unix now then None else Some x)"
proof (cases "find_claim r c (expire_claims r' now st)")
  case None
  then have "\<forall>x \<in> set (pending_pairing_claims (expire_claims r' now st)). claim_key x \<noteq> (r, c)"
    by (simp add: find_claim_def find_None_iff_all)
  then show ?thesis
    using find_claim_mem[of r c st] None
    by (fastforce simp: expire_claims_def claim_key_def split: option.split)
next
  case (Some y)
  then have "y \<in> set (pending_pairing_claims st)" "claim_key y = (r, c)"
    "\<not> (r = r' \<and> cl_expires_at y \<le> unix now)"
    using find_claim_mem[OF Some] by (auto simp: expire_claims_def claim_key_def)
  then show ?thesis
    using find_claim_unique[OF assms] Some by simp
qed

lemma find_claim_same: "pending_pairing_claims st' = pending_pairing_claims st
  \<Longrightarrow> find_claim r c st' = find_claim r c st"
  by (simp add: find_claim_def)

lemma claims_frame_routes:
  "pending_pairing_claims (snd (CreateRoute H ri ra f now st)) = pending_pairing_claims st"
  "pending_pairing_claims (snd (ActivateRoute H ri f i k a now st)) = pending_pairing_claims st"
  "pending_pairing_claims (snd (AuthenticateBridge H f r cred now st)) = pending_pairing_claims st"
  by (auto simp: CreateRoute_def ActivateRoute_def AuthenticateBridge_def insert_route_def
      insert_activation_def set_bridge_auth_def split: sum.splits option.splits)

lemma claims_frame_devices:
  "pending_pairing_claims (snd (RegisterDevice H rnd f r d now st)) = pending_pairing_claims st"
  "pending_pairing_claims (snd (AuthenticateDevice H f r d cred now st)) = pending_pairing_claims st"
  "pending_pairing_claims (snd (RevokeDevice f r d now st)) = pending_pairing_claims st"
  by (auto simp: RegisterDevice_def AuthenticateDevice_def RevokeDevice_def upsert_device_def
      split: sum.splits option.splits)

lemma claims_frame_mailbox:
  "pending_pairing_claims (snd (FetchFrames f r d after limit now st)) = pending_pairing_claims st"
  "pending_pairing_claims (snd (AckFrames f r d through now st)) = pending_pairing_claims st"
  "pending_pairing_claims (snd (ExpireFrames f now st)) = pending_pairing_claims st"
  by (simp_all add: FetchFrames_def AckFrames_def ExpireFrames_def Let_def)

lemmas claims_frame = claims_frame_routes claims_frame_devices claims_frame_mailbox


section \<open>Life cycle\<close>

definition claim_rank :: "claim_row \<Rightarrow> nat" where
  "claim_rank x = (if cl_state x = ''pending'' then 0 else if cl_state x = ''consumed'' then 2 else 1)"

text \<open>The same claim, advanced: what it was submitted with is fixed, a given result is fixed.\<close>

definition claim_advanced :: "claim_row \<Rightarrow> claim_row \<Rightarrow> bool" where
  "claim_advanced x y \<longleftrightarrow>
     cl_capability_hash y = cl_capability_hash x \<and> cl_sealed_claim y = cl_sealed_claim x
     \<and> cl_expires_at y = cl_expires_at x \<and> claim_rank x \<le> claim_rank y
     \<and> (0 < claim_rank x \<longrightarrow> cl_sealed_result y = cl_sealed_result x)"

text \<open>A claim submitted anew, at a time when the claim that had its name has expired.\<close>

definition claim_renewed :: "gotime \<Rightarrow> claim_row \<Rightarrow> claim_row \<Rightarrow> bool" where
  "claim_renewed now x y \<longleftrightarrow>
     cl_expires_at x \<le> unix now \<and> cl_state y = ''pending'' \<and> cl_sealed_result y = None
     \<and> cl_consumed_at y = None"

lemma claim_advanced_refl [simp]: "claim_advanced x x"
  by (simp add: claim_advanced_def)

lemma find_claim_complete:
  "find_claim r c (snd (CompletePairingClaim f r' c' ns res now st)) = Some y \<Longrightarrow>
   find_claim r c st = Some x \<Longrightarrow> claim_advanced x y"
proof -
  let ?g = "\<lambda>x. if claim_key x = (r', c') \<and> cl_state x = ''pending''
    then x\<lparr>cl_sealed_result := res, cl_state := ns\<rparr> else x"
  have "find_claim r c (st\<lparr>pending_pairing_claims := map ?g (pending_pairing_claims st)\<rparr>)
      = map_option ?g (find_claim r c st)"
    by (rule find_claim_map) (simp add: claim_key_def)
  then show "find_claim r c (snd (CompletePairingClaim f r' c' ns res now st)) = Some y \<Longrightarrow>
      find_claim r c st = Some x \<Longrightarrow> claim_advanced x y"
    by (auto simp: CompletePairingClaim_def claim_advanced_def claim_rank_def split: if_splits)
qed

lemma find_claim_consume:
  "find_claim r c (snd (ConsumePairingResult f r' c' now st)) =
     map_option (\<lambda>x. if \<not> f 0 \<and> claim_key x = (r', c') \<and> cl_state x \<in> {''approved'', ''rejected''}
                        \<and> cl_consumed_at x = None
       then x\<lparr>cl_consumed_at := Some (unix now), cl_state := ''consumed''\<rparr> else x) (find_claim r c st)"
proof -
  let ?g = "\<lambda>x. if claim_key x = (r', c') \<and> cl_state x \<in> {''approved'', ''rejected''}
      \<and> cl_consumed_at x = None
    then x\<lparr>cl_consumed_at := Some (unix now), cl_state := ''consumed''\<rparr> else x"
  have "find_claim r c (st\<lparr>pending_pairing_claims := map ?g (pending_pairing_claims st)\<rparr>)
      = map_option ?g (find_claim r c st)"
    by (rule find_claim_map) (simp add: claim_key_def)
  then show ?thesis
    by (cases "find_claim r c st") (auto simp: ConsumePairingResult_def)
qed

lemma find_claim_submit:
  assumes wf: "wf_store st" and x: "find_claim r c st = Some x"
    and y: "find_claim r c (snd (SubmitPairingClaim f r' c' cap s now ttl st)) = Some y"
  shows "y = x \<or> claim_renewed now x y"
proof -
  let ?st1 = "expire_claims r' now st"
  let ?n = "\<lparr>cl_route_id = r', cl_claim_id = c', cl_capability_hash = cap, cl_sealed_claim = s,
    cl_sealed_result = None, cl_state = ''pending'', cl_expires_at = unix (now + ttl),
    cl_consumed_at = None\<rparr>"
  have "find_claim r c (?st1\<lparr>pending_pairing_claims := pending_pairing_claims ?st1 @ [?n]\<rparr>)
      = (case find_claim r c ?st1 of None \<Rightarrow> if (r, c) = (r', c') then Some ?n else None | Some z \<Rightarrow> Some z)"
    by (auto simp: find_claim_def find_append_case claim_key_def split: option.split)
  then show ?thesis
    using x y find_claim_expire[OF wf, of r c r' now]
    by (auto simp: SubmitPairingClaim_def Let_def claim_renewed_def split: if_splits option.splits)
qed

lemma find_claim_submit_other:
  assumes wf: "wf_store st" and x: "find_claim r c st = Some x" and ne: "(r', c') \<noteq> (r, c)"
    and y: "find_claim r c (snd (SubmitPairingClaim f r' c' cap s now ttl st)) = Some y"
  shows "y = x"
proof -
  let ?st1 = "expire_claims r' now st"
  let ?n = "\<lparr>cl_route_id = r', cl_claim_id = c', cl_capability_hash = cap, cl_sealed_claim = s,
    cl_sealed_result = None, cl_state = ''pending'', cl_expires_at = unix (now + ttl),
    cl_consumed_at = None\<rparr>"
  have "find_claim r c (?st1\<lparr>pending_pairing_claims := pending_pairing_claims ?st1 @ [?n]\<rparr>)
      = find_claim r c ?st1"
    using ne by (auto simp: find_claim_def find_append_case claim_key_def split: option.split)
  then show ?thesis
    using x y find_claim_expire[OF wf, of r c r' now]
    by (auto simp: SubmitPairingClaim_def Let_def split: if_splits option.splits)
qed

section \<open>Properties\<close>

text \<open>
  Under every database operation and every fault schedule, a claim that exists before and after
  keeps the capability, the sealed claim and the expiry it was submitted with, only moves forward
  (pending, then approved or rejected, then consumed), and never has a given result replaced; the
  only exception is a claim that has expired and whose name is submitted anew.
\<close>

theorem claim_lifecycle:
  assumes "wf_store st" and "store_step st st'"
    and "find_claim r c st = Some x" and "find_claim r c st' = Some y"
  shows "claim_advanced x y
    \<or> (\<exists>f cap s now ttl. st' = snd (SubmitPairingClaim f r c cap s now ttl st) \<and> claim_renewed now x y)"
  using assms(2,1,3,4)
proof (induction rule: store_step.induct)
  case (submit_claim st f r' c' cap s now ttl)
  show ?case
  proof (cases "(r', c') = (r, c)")
    case True
    with find_claim_submit[OF submit_claim] show ?thesis
      by (metis Pair_inject claim_advanced_refl)
  next
    case False
    then show ?thesis
      using find_claim_submit_other[OF submit_claim(1,2) False submit_claim(3)] by simp
  qed
next
  case (pending_claims st f r' now)
  then show ?case
    using find_claim_expire[of st r c r' now]
    by (auto simp: PendingClaims_def Let_def split: if_splits)
next
  case (complete_claim st f r' c' ns res now)
  then show ?case
    using find_claim_complete by blast
next
  case (consume_result st f r' c' now)
  then show ?case
    by (auto simp: find_claim_consume claim_advanced_def claim_rank_def split: if_splits)
next
  case (append_frame st f r' d e now ttl m)
  then have "find_claim r c (snd (AppendFrame f r' d e now ttl m st)) = find_claim r c st"
  proof (cases "AppendFrame f r' d e now ttl m st")
    case (Pair res st')
    then show ?thesis
    proof (cases res)
      case (Inl err)
      then show ?thesis
        using Pair AppendFrame_error[of f r' d e now ttl m st err st'] by simp
    next
      case (Inr cn)
      obtain k n where "cn = (k, n)" by force
      with Inr Pair have ok: "AppendFrame f r' d e now ttl m st = (Inr (k, n), st')" by simp
      obtain st2 where "only_frames_dropped r' d st st2"
        "st' = bump_cursor r' d (st2\<lparr>mailbox_frames := mailbox_frames st2 @ [new_frame r' d k e now ttl]\<rparr>)"
        by (rule AppendFrame_success[OF append_frame(1) ok])
      then show ?thesis
        using only_frames_dropped_frame(4)[of r' d st st2] Pair
        by (simp add: find_claim_def bump_cursor_def)
    qed
  qed
  with append_frame show ?case by simp
qed (simp_all add: find_claim_same[OF claims_frame(1)] find_claim_same[OF claims_frame(2)]
      find_claim_same[OF claims_frame(3)] find_claim_same[OF claims_frame(4)]
      find_claim_same[OF claims_frame(5)] find_claim_same[OF claims_frame(6)]
      find_claim_same[OF claims_frame(7)] find_claim_same[OF claims_frame(8)]
      find_claim_same[OF claims_frame(9)])

text \<open>
  A pairing result is delivered once: a completed, unexpired and unconsumed claim is returned with
  the result the bridge gave; after consuming it every later read fails, at every time and under
  every fault schedule, and completing it again is refused.
\<close>

theorem pairing_result_once:
  assumes "wf_store st" and "find_claim r c st = Some x"
    and "cl_state x \<in> {''approved'', ''rejected''}" and "unix now < cl_expires_at x"
    and "ConsumePairingResult f r c now st = (Inr (), st')"
  shows "GetPairingResult no_faults r c now st =
      Inr \<lparr>pc_ClaimID = c, pc_SealedClaim = [], pc_SealedResult = cl_sealed_result x, pc_State = cl_state x\<rparr>
    \<and> GetPairingResult g r c now' st' \<in> {Inl EDriver, Inl ENoRows}
    \<and> fst (CompletePairingClaim g r c ns res now' st') \<noteq> Inr ()"
proof -
  have st': "st' = snd (ConsumePairingResult f r c now st)" and f: "\<not> f 0"
    using assms(5) by (auto simp: ConsumePairingResult_def split: if_splits)
  have mem: "x \<in> set (pending_pairing_claims st)" "claim_key x = (r, c)"
    using find_claim_mem[OF assms(2)] by auto
  then have nc: "cl_consumed_at x = None" and id: "cl_claim_id x = c"
    using assms(1,3) by (auto simp: wf_store_def claims_ok_def claim_ok_def claim_key_def)
  have wf': "wf_store st'" unfolding st' by (rule wf_ConsumePairingResult[OF assms(1)])
  have y: "find_claim r c st' = Some (x\<lparr>cl_consumed_at := Some (unix now), cl_state := ''consumed''\<rparr>)"
    unfolding st' find_claim_consume using assms(2,3) mem nc f by simp
  have "\<not> list_ex (\<lambda>z. claim_key z = (r, c) \<and> cl_state z = ''pending'') (pending_pairing_claims st')"
  proof
    assume "list_ex (\<lambda>z. claim_key z = (r, c) \<and> cl_state z = ''pending'') (pending_pairing_claims st')"
    then obtain z where "z \<in> set (pending_pairing_claims st')" "claim_key z = (r, c)" "cl_state z = ''pending''"
      by (auto simp: list_ex_iff)
    then show False using find_claim_unique[OF wf', of z r c] y by auto
  qed
  then show ?thesis
    using assms(2,4) nc id y find_filter_claim[OF assms(1), of r c "\<lambda>x. unix now < cl_expires_at x \<and> cl_consumed_at x = None"]
      find_filter_claim[OF wf', of r c "\<lambda>x. unix now' < cl_expires_at x \<and> cl_consumed_at x = None"]
    by (simp add: GetPairingResult_def CompletePairingClaim_def)
qed

text \<open>
  Submitting a claim: a repeated submission of the same unexpired claim succeeds and leaves it as
  it is, a different submission under the same name is refused and changes nothing, and a new claim
  on an active route is stored so that its capability verifies. On a route that does not exist or
  is revoked the submission reports success although nothing is stored.
\<close>

theorem submit_claim_outcomes:
  assumes "wf_store st"
  shows "(\<forall>x. find_claim r c st = Some x \<and> unix now < cl_expires_at x \<longrightarrow>
       (if cl_capability_hash x = CredentialDigest H cap \<and> cl_sealed_claim x = s
        then fst (SubmitPairingClaim no_faults r c (CredentialDigest H cap) s now ttl st) = Inr ()
           \<and> find_claim r c (snd (SubmitPairingClaim no_faults r c (CredentialDigest H cap) s now ttl st)) = Some x
        else SubmitPairingClaim no_faults r c (CredentialDigest H cap) s now ttl st = (Inl EPairingClaimConflict, st)))
    \<and> (find_claim r c st = None \<longrightarrow>
         fst (SubmitPairingClaim no_faults r c (CredentialDigest H cap) s now ttl st) = Inr ()
       \<and> VerifyPairingCapability H no_faults r c cap
           (snd (SubmitPairingClaim no_faults r c (CredentialDigest H cap) s now ttl st)) = active_route st r)"
proof -
  let ?st1 = "expire_claims r now st"
  let ?n = "\<lparr>cl_route_id = r, cl_claim_id = c, cl_capability_hash = CredentialDigest H cap,
    cl_sealed_claim = s, cl_sealed_result = None, cl_state = ''pending'',
    cl_expires_at = unix (now + ttl), cl_consumed_at = None\<rparr>"
  have old: "find_claim r c ?st1 = (case find_claim r c st of None \<Rightarrow> None
      | Some x \<Rightarrow> if cl_expires_at x \<le> unix now then None else Some x)"
    using find_claim_expire[OF assms, of r c r now] by (simp split: option.splits)
  have act: "active_route ?st1 r = active_route st r"
    by (simp add: active_route_def expire_claims_def)
  have ver: "VerifyPairingCapability H no_faults r c cap ?st1 = False" if "find_claim r c st = None"
  proof -
    have "\<forall>x \<in> set (pending_pairing_claims ?st1). claim_key x \<noteq> (r, c)"
      using old that by (simp add: find_claim_def[of r c ?st1] find_None_iff_all)
    then have "find (\<lambda>x. claim_key x = (r, c) \<and> cl_state x \<in> {''pending'', ''approved'', ''rejected'', ''consumed''})
        (pending_pairing_claims ?st1) = None"
      by (simp add: find_None_iff_all)
    then show ?thesis by (simp add: VerifyPairingCapability_def)
  qed
  have new: "VerifyPairingCapability H no_faults r c cap
      (?st1\<lparr>pending_pairing_claims := pending_pairing_claims ?st1 @ [?n]\<rparr>)" if "find_claim r c st = None"
  proof -
    have "\<forall>x \<in> set (pending_pairing_claims ?st1). claim_key x \<noteq> (r, c)"
      using old that by (simp add: find_claim_def[of r c ?st1] find_None_iff_all)
    then have "find (\<lambda>x. claim_key x = (r, c) \<and> cl_state x \<in> {''pending'', ''approved'', ''rejected'', ''consumed''})
        (pending_pairing_claims ?st1) = None"
      by (simp add: find_None_iff_all)
    then show ?thesis
      by (simp add: VerifyPairingCapability_def find_append_case VerifyCredential_def claim_key_def)
  qed
  show ?thesis
    using old act ver new
    by (auto simp: SubmitPairingClaim_def Let_def split: option.splits)
qed


section \<open>Witnesses\<close>

definition demo_claim :: claim_row where
  "demo_claim = \<lparr>cl_route_id = ''rt_a'', cl_claim_id = ''cl1'', cl_capability_hash = [5],
     cl_sealed_claim = [6], cl_sealed_result = Some [7], cl_state = ''approved'',
     cl_expires_at = 300, cl_consumed_at = None\<rparr>"

definition claim_store :: Store where
  "claim_store = \<lparr>routes = [\<lparr>rt_route_id = ''rt_a'', rt_bridge_auth_hash = [1], rt_created_at = 0,
       rt_revoked_at = None, rt_last_bridge_seen_at = None\<rparr>],
     route_activations = [], route_devices = [], mailbox_frames = [],
     pending_pairing_claims = [demo_claim]\<rparr>"

lemma claim_store_facts:
  "wf_store claim_store" "find_claim ''rt_a'' ''cl1'' claim_store = Some demo_claim"
  by (simp_all add: claim_store_def demo_claim_def wf_store_unfold claim_ok_def claim_key_def find_claim_def)

theorem claim_lifecycle_witness:
  "claim_advanced demo_claim (demo_claim\<lparr>cl_consumed_at := Some 0, cl_state := ''consumed''\<rparr>)"
proof -
  have "find_claim ''rt_a'' ''cl1'' (snd (ConsumePairingResult no_faults ''rt_a'' ''cl1'' 0 claim_store))
      = Some (demo_claim\<lparr>cl_consumed_at := Some 0, cl_state := ''consumed''\<rparr>)"
    by (simp add: find_claim_consume claim_store_facts) (simp add: demo_claim_def claim_key_def unix_def)
  from claim_lifecycle[OF claim_store_facts(1) store_step.consume_result claim_store_facts(2) this]
  show ?thesis by (auto simp: claim_renewed_def)
qed

theorem pairing_result_once_witness:
  "GetPairingResult no_faults ''rt_a'' ''cl1'' 5
     (snd (ConsumePairingResult no_faults ''rt_a'' ''cl1'' 0 claim_store)) \<in> {Inl EDriver, Inl ENoRows}"
proof -
  have "ConsumePairingResult no_faults ''rt_a'' ''cl1'' 0 claim_store
      = (Inr (), snd (ConsumePairingResult no_faults ''rt_a'' ''cl1'' 0 claim_store))"
    by (simp add: ConsumePairingResult_def)
  from pairing_result_once[OF claim_store_facts _ _ this, of no_faults 5 "''approved''" None]
  show ?thesis by (simp add: demo_claim_def unix_def)
qed

theorem submit_claim_outcomes_witness:
  "SubmitPairingClaim no_faults ''rt_a'' ''cl1'' [9] [6] 0 minute claim_store
     = (Inl EPairingClaimConflict, claim_store)"
  using submit_claim_outcomes[OF claim_store_facts(1), of "''rt_a''" "''cl1''" 0 "\<lambda>_. [9]" "''x''" "[6]" minute]
    claim_store_facts(2)
  by (auto simp: demo_claim_def unix_def CredentialDigest_def)

end
