(* ===== verification/Relay_Auth.thy ===== *)
theory Relay_Auth
  imports Store_Integrity
begin

text \<open>
  Credentials in the relay database: which credential authenticates a device or a bridge after the
  operations that issue or rotate it, and the binding of an installation identity to its route. The
  statements compare digests, so they hold for every digest function.
\<close>

section \<open>Devices\<close>

lemma active_device_upsert:
  assumes "wf_store st" and "active_route st r"
  shows "map_option dv_device_auth_hash (active_device (upsert_device r d h now st) r d) = Some h"
proof (cases "list_ex (\<lambda>x. dev_key x = (r, d)) (route_devices st)")
  case True
  have "map_option dv_device_auth_hash (find (\<lambda>x. dev_key x = (r, d) \<and> dv_revoked_at x = None)
      (map (\<lambda>x. if dev_key x = (r, d)
             then x\<lparr>dv_device_auth_hash := h, dv_revoked_at := None, dv_created_at := t\<rparr> else x) xs))
      = Some h" if "list_ex (\<lambda>x. dev_key x = (r, d)) xs" for xs t
    using that by (induction xs) (auto simp: dev_key_def)
  with True assms(2) show ?thesis
    by (simp add: active_device_def upsert_device_def active_route_def)
next
  case False
  then have "find (\<lambda>x. dev_key x = (r, d) \<and> dv_revoked_at x = None) (route_devices st) = None"
    by (auto simp: find_None_iff_all list_ex_iff)
  with False assms(2) show ?thesis
    by (simp add: active_device_def upsert_device_def active_route_def find_append_case dev_key_def)
qed

lemma AuthenticateDevice_iff:
  "fst (AuthenticateDevice H f r d cred now st) \<longleftrightarrow>
     \<not> f 0 \<and> map_option dv_device_auth_hash (active_device st r d) = Some (CredentialDigest H cred)"
  by (auto simp: AuthenticateDevice_def VerifyCredential_def split: option.splits)

section \<open>Bridges\<close>

definition route_hash :: "Store \<Rightarrow> string \<Rightarrow> bytes option" where
  "route_hash st r =
     map_option rt_bridge_auth_hash
       (find (\<lambda>x. rt_route_id x = r \<and> rt_revoked_at x = None) (routes st))"

lemma AuthenticateBridge_iff:
  "fst (AuthenticateBridge H f r cred now st) \<longleftrightarrow>
     \<not> f 0 \<and> route_hash st r = Some (CredentialDigest H cred)"
  by (auto simp: AuthenticateBridge_def VerifyCredential_def route_hash_def split: option.splits)

lemma route_hash_set_bridge_auth:
  "route_hash (set_bridge_auth r h st) r = (if active_route st r then Some h else None)"
proof -
  have "map_option rt_bridge_auth_hash (find (\<lambda>x. rt_route_id x = r \<and> rt_revoked_at x = None)
        (map (\<lambda>x. if rt_route_id x = r \<and> rt_revoked_at x = None then x\<lparr>rt_bridge_auth_hash := h\<rparr> else x) xs))
      = (if list_ex (\<lambda>x. rt_route_id x = r \<and> rt_revoked_at x = None) xs then Some h else None)" for xs :: "route_row list"
    by (induction xs) auto
  then show ?thesis
    by (simp add: route_hash_def set_bridge_auth_def active_route_def)
qed

lemma active_route_set_bridge_auth [simp]:
  "active_route (set_bridge_auth r h st) r' = active_route st r'"
proof -
  have "list_ex (\<lambda>x. rt_route_id x = r' \<and> rt_revoked_at x = None)
        (map (\<lambda>x. if rt_route_id x = r \<and> rt_revoked_at x = None then x\<lparr>rt_bridge_auth_hash := h\<rparr> else x) xs)
      = list_ex (\<lambda>x. rt_route_id x = r' \<and> rt_revoked_at x = None) xs" for xs :: "route_row list"
    by (induction xs) auto
  then show ?thesis by (simp add: active_route_def set_bridge_auth_def)
qed

lemma route_hash_insert:
  assumes "insert_route r h now st = Some st'"
  shows "route_hash st' r = Some h"
proof -
  have "find (\<lambda>x. rt_route_id x = r \<and> rt_revoked_at x = None) (routes st) = None"
    using assms by (auto simp: insert_route_def find_None_iff_all list_ex_iff split: if_splits)
  then show ?thesis
    using assms by (auto simp: insert_route_def route_hash_def find_append_case split: if_splits)
qed


section \<open>Properties\<close>

text \<open>
  After a device is registered, exactly the credentials whose digest is that of the returned
  credential authenticate it: a re-registration revokes the old credential and lifts a revocation.
  Without driver faults a registration on an active route always succeeds.
\<close>

theorem device_registration_rotates:
  assumes "wf_store st" and "RegisterDevice H rnd f r d now st = (Inr auth, st')"
  shows "(\<forall>cred now'. fst (AuthenticateDevice H no_faults r d cred now' st') \<longleftrightarrow>
            CredentialDigest H cred = CredentialDigest H auth)
    \<and> DeviceActive no_faults r d st' \<and> active_route st r"
proof -
  from assms(2) have r: "active_route st r"
    and st': "st' = upsert_device r d (CredentialDigest H auth) now st"
    by (auto simp: RegisterDevice_def split: sum.splits if_splits)
  note h = active_device_upsert[OF assms(1) r, of d "CredentialDigest H auth" now]
  show ?thesis
    using h r by (auto simp: AuthenticateDevice_iff st' DeviceActive_def)
qed

text \<open>
  Activation binds an installation to one route and one signing key: the first activation creates
  the route, a later one with the same key returns the same route and makes the new bridge
  credential the only one that authenticates, a different key is refused, and every refusal or
  failure leaves the database as it was.
\<close>

theorem activation_binds_identity:
  assumes "wf_store st" and "ActivateRoute H ri f i k a now st = (res, st')"
  shows "case res of
      Inl e \<Rightarrow> st' = st
    | Inr rid \<Rightarrow>
        find (\<lambda>x. ac_install_id x = i) (route_activations st') \<noteq> None
        \<and> (active_route st' rid \<longrightarrow> (\<forall>cred now'. fst (AuthenticateBridge H no_faults rid cred now' st')
              \<longleftrightarrow> CredentialDigest H cred = CredentialDigest H a))
        \<and> (\<forall>g ri' a' now' rid' st''. ActivateRoute H ri' g i k a' now' st' = (Inr rid', st'') \<longrightarrow> rid' = rid)
        \<and> (\<forall>g ri' k' a' now'. k' \<noteq> k \<longrightarrow> (\<exists>e. ActivateRoute H ri' g i k' a' now' st' = (Inl e, st')))"
proof (cases res)
  case (Inl e)
  then show ?thesis
    using assms(2) by (auto simp: ActivateRoute_def split: if_splits option.splits sum.splits)
next
  case (Inr rid)
  have bound: "\<exists>x. find (\<lambda>x. ac_install_id x = i) (route_activations st') = Some x
      \<and> ac_signing_public_key x = k \<and> ac_route_id x = rid
      \<and> (active_route st' rid \<longrightarrow> route_hash st' rid = Some (CredentialDigest H a))"
  proof (cases "find (\<lambda>x. ac_install_id x = i) (route_activations st)")
    case (Some x)
    then have st': "st' = set_bridge_auth rid (CredentialDigest H a) st"
      and x: "ac_signing_public_key x = k" "ac_route_id x = rid"
      using assms(2) Inr by (auto simp: ActivateRoute_def split: if_splits)
    have "route_activations st' = route_activations st"
      by (simp add: st' set_bridge_auth_def)
    then show ?thesis
      using Some x by (auto simp: st' route_hash_set_bridge_auth)
  next
    case None
    then obtain st1 where one: "insert_route rid (CredentialDigest H a) now st = Some st1"
      and two: "insert_activation i k rid now st1 = Some st'"
      using assms(2) Inr
      by (auto simp: ActivateRoute_def split: if_splits option.splits sum.splits)
    have "route_hash st' rid = Some (CredentialDigest H a)"
      using route_hash_insert[OF one] two
      by (auto simp: insert_activation_def route_hash_def split: if_splits)
    moreover have "route_activations st1 = route_activations st"
      using one by (auto simp: insert_route_def split: if_splits)
    ultimately show ?thesis
      using two None by (auto simp: insert_activation_def find_append_case split: if_splits)
  qed
  then obtain x where x: "find (\<lambda>x. ac_install_id x = i) (route_activations st') = Some x"
      "ac_signing_public_key x = k" "ac_route_id x = rid"
      "active_route st' rid \<longrightarrow> route_hash st' rid = Some (CredentialDigest H a)"
    by blast
  have again: "rid' = rid" if "ActivateRoute H ri' g i k a' now' st' = (Inr rid', st'')" for ri' g a' now' rid' st''
    using that x by (auto simp: ActivateRoute_def split: if_splits)
  have other: "\<exists>e. ActivateRoute H ri' g i k' a' now' st' = (Inl e, st')" if "k' \<noteq> k" for ri' g k' a' now'
    using that x by (auto simp: ActivateRoute_def)
  show ?thesis
    using x Inr again other by (auto simp: AuthenticateBridge_iff)
qed


section \<open>Witnesses\<close>

definition auth_store :: Store where
  "auth_store = empty_store\<lparr>routes := [\<lparr>rt_route_id = ''rt_a'', rt_bridge_auth_hash = [1],
     rt_created_at = 0, rt_revoked_at = None, rt_last_bridge_seen_at = None\<rparr>]\<rparr>"

lemma wf_auth_store: "wf_store auth_store"
  by (simp add: auth_store_def empty_store_def wf_store_unfold)

theorem device_registration_rotates_witness:
  "DeviceActive no_faults ''rt_a'' ''phone''
     (snd (RegisterDevice id (Some [1, 2, 3]) no_faults ''rt_a'' ''phone'' 0 auth_store))"
proof -
  have "RegisterDevice id (Some [1, 2, 3]) no_faults ''rt_a'' ''phone'' 0 auth_store =
      (Inr (b64url_encode [1, 2, 3]), snd (RegisterDevice id (Some [1, 2, 3]) no_faults ''rt_a'' ''phone'' 0 auth_store))"
    by (simp add: RegisterDevice_def NewCredential_def auth_store_def empty_store_def active_route_def)
  from device_registration_rotates[OF wf_auth_store this] show ?thesis by blast
qed

theorem activation_binds_identity_witness:
  "\<exists>e. ActivateRoute id None no_faults ''mac'' [6] ''b'' 1
         (snd (ActivateRoute id (Some [1, 2, 3]) no_faults ''mac'' [5] ''a'' 0 auth_store))
       = (Inl e, snd (ActivateRoute id (Some [1, 2, 3]) no_faults ''mac'' [5] ''a'' 0 auth_store))"
proof -
  let ?r = "ActivateRoute id (Some [1, 2, 3]) no_faults ''mac'' [5] ''a'' 0 auth_store"
  have "fst ?r = Inr (''rt_'' @ b64url_encode [1, 2, 3])"
    by (simp add: ActivateRoute_def NewID_def insert_route_def insert_activation_def auth_store_def
        empty_store_def)
  then have "?r = (Inr (''rt_'' @ b64url_encode [1, 2, 3]), snd ?r)"
    by (metis prod.collapse)
  from activation_binds_identity[OF wf_auth_store this] show ?thesis
    unfolding sum.case by force
qed

end
