(* ===== verification/Send_Queue.thy ===== *)
theory Send_Queue
  imports Prelude
begin

text \<open>
  The per-connection send queue of the relay server (\<^verbatim>\<open>socketPeer\<close> in
  \<^verbatim>\<open>relay-server/internal/relay/server.go\<close>). \<open>socketPeer\<close> and its operations are the sequential
  model; \<open>queue_step\<close> is the same code at the granularity of its atomic actions, with the producer
  (the bridge's read loop) and the consumer (the connection's writer goroutine) interleaved freely:
  the byte check, the channel send and the counter update of \<^verbatim>\<open>enqueue\<close> are three steps, and so are
  the receive and the counter update of \<^verbatim>\<open>writeLoop\<close>. The bounds hold in every interleaving, and the
  sequential operation is a run of the interleaved one.
\<close>

section \<open>The sequential model\<close>

record socketPeer =
  sp_sendCh :: "bytes list option"
  sp_done :: bool
  sp_queueBytes :: int
  sp_drops :: int
  sp_closed :: "(nat \<times> string) option"
  sp_wire :: "bytes list"

definition perDeviceSendQueueFrames :: nat where
  "perDeviceSendQueueFrames = 256"

definition perDeviceSendQueueBytes :: int where
  "perDeviceSendQueueBytes = 8388608"

definition bridge_peer :: socketPeer where
  "bridge_peer = \<lparr>sp_sendCh = None, sp_done = False, sp_queueBytes = 0, sp_drops = 0,
                  sp_closed = None, sp_wire = []\<rparr>"

definition device_peer :: socketPeer where
  "device_peer = bridge_peer\<lparr>sp_sendCh := Some []\<rparr>"

text \<open>
  \<^verbatim>\<open>write\<close>: a closed connection refuses the message, an open one accepts it unless the network fails
  (\<open>net\<close>). \<open>sp_wire\<close> records the messages the connection accepted, in order.
\<close>

definition peer_write :: "bool \<Rightarrow> bytes \<Rightarrow> socketPeer \<Rightarrow> bool \<times> socketPeer" where
  "peer_write net payload p =
     (if sp_closed p \<noteq> None \<or> \<not> net then (False, p)
      else (True, p\<lparr>sp_wire := sp_wire p @ [payload]\<rparr>))"

definition enqueue :: "bool \<Rightarrow> bytes \<Rightarrow> socketPeer \<Rightarrow> bool \<times> socketPeer" where
  "enqueue net payload p =
     (case sp_sendCh p of
        None \<Rightarrow> peer_write net payload p
      | Some q \<Rightarrow>
          (if perDeviceSendQueueBytes < sp_queueBytes p + int (length payload)
           then (False, p\<lparr>sp_drops := sp_drops p + 1\<rparr>)
           else if length q < perDeviceSendQueueFrames
           then (True, p\<lparr>sp_sendCh := Some (q @ [payload]),
                         sp_queueBytes := sp_queueBytes p + int (length payload)\<rparr>)
           else (False, p\<lparr>sp_drops := sp_drops p + 1\<rparr>)))"

text \<open>
  One round of \<^verbatim>\<open>writeLoop\<close>. The boolean says whether the goroutine goes on. With both a queued frame
  and a closed \<^verbatim>\<open>done\<close> channel the runtime may pick either; \<open>pick_done\<close> is its choice.
\<close>

definition writeLoop_round :: "bool \<Rightarrow> bool \<Rightarrow> socketPeer \<Rightarrow> bool \<times> socketPeer" where
  "writeLoop_round pick_done net p =
     (case sp_sendCh p of
        Some (payload # q) \<Rightarrow>
          (if sp_done p \<and> pick_done then (False, p)
           else peer_write net payload
                  (p\<lparr>sp_sendCh := Some q, sp_queueBytes := sp_queueBytes p - int (length payload)\<rparr>))
      | _ \<Rightarrow> (\<not> sp_done p, p))"

definition shutdownWriter :: "socketPeer \<Rightarrow> socketPeer" where
  "shutdownWriter p = p\<lparr>sp_done := True\<rparr>"

definition closePeer :: "nat \<Rightarrow> string \<Rightarrow> socketPeer \<Rightarrow> socketPeer" where
  "closePeer code reason p =
     (case sp_closed p of None \<Rightarrow> p\<lparr>sp_closed := Some (code, reason)\<rparr> | Some _ \<Rightarrow> p)"


section \<open>The interleaved model\<close>

datatype producer_pc = Idle | Checked bytes | Sent bytes

record queue =
  q_chan :: "bytes list"
  q_bytes :: int
  q_drops :: int
  q_pc :: producer_pc
  q_held :: "bytes option"
  q_accepted :: "bytes list"
  q_received :: "bytes list"

definition init_queue :: queue where
  "init_queue = \<lparr>q_chan = [], q_bytes = 0, q_drops = 0, q_pc = Idle, q_held = None,
                 q_accepted = [], q_received = []\<rparr>"

text \<open>
  \<open>q_accepted\<close> and \<open>q_received\<close> are histories: the frames the channel took, and those the writer has
  taken out and accounted for.
\<close>

inductive queue_step :: "queue \<Rightarrow> queue \<Rightarrow> bool" where
  check_ok: "q_pc s = Idle \<Longrightarrow> q_bytes s + int (length p) \<le> perDeviceSendQueueBytes \<Longrightarrow>
     queue_step s (s\<lparr>q_pc := Checked p\<rparr>)"
| check_fail: "q_pc s = Idle \<Longrightarrow> perDeviceSendQueueBytes < q_bytes s + int (length (p :: bytes)) \<Longrightarrow>
     queue_step s (s\<lparr>q_drops := q_drops s + 1\<rparr>)"
| send: "q_pc s = Checked p \<Longrightarrow> length (q_chan s) < perDeviceSendQueueFrames \<Longrightarrow>
     queue_step s (s\<lparr>q_chan := q_chan s @ [p], q_accepted := q_accepted s @ [p], q_pc := Sent p\<rparr>)"
| full: "q_pc s = Checked p \<Longrightarrow> perDeviceSendQueueFrames \<le> length (q_chan s) \<Longrightarrow>
     queue_step s (s\<lparr>q_drops := q_drops s + 1, q_pc := Idle\<rparr>)"
| count: "q_pc s = Sent p \<Longrightarrow>
     queue_step s (s\<lparr>q_bytes := q_bytes s + int (length p), q_pc := Idle\<rparr>)"
| receive: "q_held s = None \<Longrightarrow> q_chan s = p # ps \<Longrightarrow>
     queue_step s (s\<lparr>q_chan := ps, q_held := Some p\<rparr>)"
| discount: "q_held s = Some p \<Longrightarrow>
     queue_step s (s\<lparr>q_bytes := q_bytes s - int (length p), q_held := None,
                     q_received := q_received s @ [p]\<rparr>)"

inductive_cases queue_stepE: "queue_step s t"

definition sizes :: "bytes list \<Rightarrow> int" where
  "sizes ps = sum_list (map (\<lambda>p. int (length p)) ps)"

lemma sizes_simps [simp]:
  "sizes [] = 0" "sizes (p # ps) = int (length p) + sizes ps" "sizes (ps @ qs) = sizes ps + sizes qs"
  by (simp_all add: sizes_def)

lemma sizes_nonneg [simp]: "0 \<le> sizes ps"
  by (induction ps) auto

definition held_frames :: "queue \<Rightarrow> bytes list" where
  "held_frames s = (case q_held s of None \<Rightarrow> [] | Some p \<Rightarrow> [p])"

text \<open>Bytes sent into the channel and not yet counted.\<close>

definition uncounted :: "queue \<Rightarrow> int" where
  "uncounted s = (case q_pc s of Sent p \<Rightarrow> int (length p) | _ \<Rightarrow> 0)"

definition reserved :: "queue \<Rightarrow> int" where
  "reserved s = (case q_pc s of Checked p \<Rightarrow> int (length p) | _ \<Rightarrow> 0)"

definition queue_inv :: "queue \<Rightarrow> bool" where
  "queue_inv s \<longleftrightarrow>
     q_bytes s = sizes (held_frames s) + sizes (q_chan s) - uncounted s
     \<and> sizes (held_frames s) + sizes (q_chan s) + reserved s \<le> perDeviceSendQueueBytes
     \<and> length (q_chan s) \<le> perDeviceSendQueueFrames
     \<and> q_accepted s = q_received s @ held_frames s @ q_chan s"

lemma queue_inv_init: "queue_inv init_queue"
  by (simp add: queue_inv_def init_queue_def held_frames_def uncounted_def reserved_def
      perDeviceSendQueueBytes_def)

lemma queue_inv_step: "queue_step s t \<Longrightarrow> queue_inv s \<Longrightarrow> queue_inv t"
  by (induction rule: queue_step.induct)
     (auto simp: queue_inv_def held_frames_def uncounted_def reserved_def split: option.splits)

lemma queue_inv_steps: "queue_step\<^sup>*\<^sup>* s t \<Longrightarrow> queue_inv s \<Longrightarrow> queue_inv t"
  by (induction rule: rtranclp_induct) (auto intro: queue_inv_step)


section \<open>Properties\<close>

text \<open>
  In every interleaving of the producer's and the writer's atomic actions, the frames waiting for
  a device never exceed 8 MiB or 256 frames, the writer gets exactly the accepted frames in the
  order they were accepted, and whenever no operation is in the middle the byte counter is exact.
\<close>

theorem send_queue_bounded:
  assumes "queue_step\<^sup>*\<^sup>* init_queue s"
  shows "sizes (q_chan s) \<le> perDeviceSendQueueBytes
    \<and> length (q_chan s) \<le> perDeviceSendQueueFrames
    \<and> q_accepted s = q_received s @ held_frames s @ q_chan s
    \<and> (q_pc s = Idle \<and> q_held s = None \<longrightarrow> q_bytes s = sizes (q_chan s))"
proof -
  have inv: "queue_inv s"
    by (rule queue_inv_steps[OF assms queue_inv_init])
  have "0 \<le> reserved s"
    by (simp add: reserved_def split: producer_pc.split)
  then have "sizes (q_chan s) \<le> perDeviceSendQueueBytes"
    using inv sizes_nonneg[of "held_frames s"] unfolding queue_inv_def by linarith
  then show ?thesis
    using inv by (auto simp: queue_inv_def held_frames_def uncounted_def)
qed

theorem send_queue_bounded_witness:
  "sizes (q_chan (init_queue\<lparr>q_pc := Sent [1], q_chan := [[1]], q_accepted := [[1]]\<rparr>)) \<le> perDeviceSendQueueBytes"
proof -
  have "queue_step init_queue (init_queue\<lparr>q_pc := Checked [1]\<rparr>)"
    by (rule queue_step.check_ok) (simp_all add: init_queue_def perDeviceSendQueueBytes_def)
  moreover have "queue_step (init_queue\<lparr>q_pc := Checked [1]\<rparr>)
      (init_queue\<lparr>q_pc := Sent [1], q_chan := [[1]], q_accepted := [[1]]\<rparr>)"
    using queue_step.send[of "init_queue\<lparr>q_pc := Checked [1]\<rparr>" "[1]"]
    by (simp add: init_queue_def perDeviceSendQueueFrames_def)
  ultimately have "queue_step\<^sup>*\<^sup>* init_queue (init_queue\<lparr>q_pc := Sent [1], q_chan := [[1]], q_accepted := [[1]]\<rparr>)"
    by (meson converse_rtranclp_into_rtranclp rtranclp.rtrancl_refl)
  from send_queue_bounded[OF this] show ?thesis by blast
qed

text \<open>
  The sequential operations are runs of the interleaved system: \<open>queue_of\<close> reads a device peer as a
  quiescent queue.
\<close>

definition queue_of :: "bytes list \<Rightarrow> bytes list \<Rightarrow> socketPeer \<Rightarrow> queue" where
  "queue_of acc rcv p =
     \<lparr>q_chan = (case sp_sendCh p of None \<Rightarrow> [] | Some q \<Rightarrow> q), q_bytes = sp_queueBytes p,
      q_drops = sp_drops p, q_pc = Idle, q_held = None, q_accepted = acc, q_received = rcv\<rparr>"

lemma two_steps: "queue_step a b \<Longrightarrow> queue_step b c \<Longrightarrow> queue_step\<^sup>*\<^sup>* a c"
  by (meson converse_rtranclp_into_rtranclp rtranclp.rtrancl_refl)

lemma three_steps: "queue_step a b \<Longrightarrow> queue_step b c \<Longrightarrow> queue_step c d \<Longrightarrow> queue_step\<^sup>*\<^sup>* a d"
  by (meson converse_rtranclp_into_rtranclp two_steps)

text \<open>
  Refinement: on a connection with a queue, the sequential \<open>enqueue\<close> and each round of the writer
  are runs of the interleaved queue, so its bounds and its order carry over to them.
\<close>

theorem enqueue_refines_queue:
  assumes "sp_sendCh p = Some q"
  shows "queue_step\<^sup>*\<^sup>* (queue_of acc rcv p)
       (queue_of (if fst (enqueue net payload p) then acc @ [payload] else acc) rcv
          (snd (enqueue net payload p)))
    \<and> (\<forall>x q'. q = x # q' \<and> \<not> (sp_done p \<and> pick) \<longrightarrow>
        queue_step\<^sup>*\<^sup>* (queue_of acc rcv p)
          (queue_of acc (rcv @ [x]) (snd (writeLoop_round pick net p))))"
proof (intro conjI allI impI)
  let ?s = "queue_of acc rcv p"
  show "queue_step\<^sup>*\<^sup>* ?s (queue_of (if fst (enqueue net payload p) then acc @ [payload] else acc) rcv
      (snd (enqueue net payload p)))"
  proof (cases "perDeviceSendQueueBytes < sp_queueBytes p + int (length payload)")
    case True
    then have "queue_step ?s (queue_of acc rcv (snd (enqueue net payload p)))"
      using queue_step.check_fail[of ?s payload] assms
      by (simp add: queue_of_def enqueue_def)
    with True assms show ?thesis by (simp add: enqueue_def)
  next
    case False
    have c: "queue_step ?s (?s\<lparr>q_pc := Checked payload\<rparr>)"
      using False by (intro queue_step.check_ok) (simp_all add: queue_of_def)
    show ?thesis
    proof (cases "length q < perDeviceSendQueueFrames")
      case True
      let ?t = "?s\<lparr>q_pc := Sent payload, q_chan := q @ [payload], q_accepted := acc @ [payload]\<rparr>"
      have "queue_step (?s\<lparr>q_pc := Checked payload\<rparr>) ?t"
        using queue_step.send[of "?s\<lparr>q_pc := Checked payload\<rparr>" payload] True assms
        by (simp add: queue_of_def)
      moreover have "queue_step ?t (queue_of (acc @ [payload]) rcv (snd (enqueue net payload p)))"
        using queue_step.count[of ?t payload] True False assms
        by (simp add: queue_of_def enqueue_def)
      ultimately show ?thesis
        using three_steps[OF c] True False assms by (simp add: enqueue_def)
    next
      case full: False
      then have "queue_step (?s\<lparr>q_pc := Checked payload\<rparr>) (queue_of acc rcv (snd (enqueue net payload p)))"
        using queue_step.full[of "?s\<lparr>q_pc := Checked payload\<rparr>" payload] False assms
        by (simp add: queue_of_def enqueue_def)
      with c full False assms show ?thesis
        using two_steps[OF c] by (simp add: enqueue_def)
    qed
  qed
next
  fix x q' assume a: "q = x # q' \<and> \<not> (sp_done p \<and> pick)"
  let ?s = "queue_of acc rcv p"
  have "queue_step ?s (?s\<lparr>q_chan := q', q_held := Some x\<rparr>)"
    using a assms by (intro queue_step.receive) (simp_all add: queue_of_def)
  moreover have "queue_step (?s\<lparr>q_chan := q', q_held := Some x\<rparr>)
      (queue_of acc (rcv @ [x]) (snd (writeLoop_round pick net p)))"
    using queue_step.discount[of "?s\<lparr>q_chan := q', q_held := Some x\<rparr>" x] a assms
    by (auto simp: queue_of_def writeLoop_round_def peer_write_def)
  ultimately show "queue_step\<^sup>*\<^sup>* ?s (queue_of acc (rcv @ [x]) (snd (writeLoop_round pick net p)))"
    by (rule two_steps)
qed

theorem enqueue_refines_queue_witness:
  "queue_step\<^sup>*\<^sup>* (queue_of [] [] device_peer) (queue_of [[1, 2]] [] (snd (enqueue True [1, 2] device_peer)))"
proof -
  have "sp_sendCh device_peer = Some []" by (simp add: device_peer_def)
  from enqueue_refines_queue[OF this, of "[]" "[]" True "[1, 2]"] show ?thesis
    by (simp add: enqueue_def device_peer_def bridge_peer_def perDeviceSendQueueBytes_def
        perDeviceSendQueueFrames_def)
qed

end
