(* ===== verification/Relay_Server.thy ===== *)
theory Relay_Server
  imports Rate_Limiter Relay_Store Send_Queue
begin

text \<open>
  The HTTP and WebSocket front of the relay (\<^verbatim>\<open>relay-server/internal/relay/server.go\<close>): one definition
  per handler, the request router, the two frame loops, and the connection tables. The state is the
  \<^verbatim>\<open>Server\<close> struct with its store, its two limiters, its nonce cache and its connections; connections
  are kept in a table indexed by number, since the code compares them by identity. Every handler
  takes the environment of the call: the successive readings of the clock, the fault schedule of each
  store call, the random bytes, and whether the network accepts a message.
\<close>

section \<open>Library functions the server calls\<close>

record activation_input =
  ai_InstallID :: string
  ai_PublicKey :: string
  ai_BridgeAuth :: string
  ai_Timestamp :: int
  ai_Nonce :: string
  ai_Signature :: string

record claim_input =
  ci_ClaimID :: string
  ci_Capability :: string
  ci_SealedClaim :: bytes

record complete_input =
  co_State :: string
  co_SealedResult :: "bytes option"

record envelopeHeader =
  eh_RouteID :: string
  eh_SenderID :: string
  eh_DestinationID :: string
  eh_KeyEpochID :: string

record handshakeHeader =
  hh_Type :: string
  hh_DeviceID :: string

text \<open>
  The codecs, the signature check and the address parser of the standard library, as parameters. A
  body decoder gets the bytes the size limit lets through and whether it cut the body off;
  \<open>None\<close> is an error. \<open>l_ParseIP\<close> returns the canonical spelling of a valid address.
\<close>

record lib =
  l_sha256 :: hash
  l_verify :: "bytes \<Rightarrow> bytes \<Rightarrow> bytes \<Rightarrow> bool"
  l_b64std :: "string \<Rightarrow> bytes option"
  l_decActivation :: "bytes \<Rightarrow> bool \<Rightarrow> activation_input option"
  l_decDevice :: "bytes \<Rightarrow> bool \<Rightarrow> string option"
  l_decThrough :: "bytes \<Rightarrow> bool \<Rightarrow> nat option"
  l_decClaim :: "bytes \<Rightarrow> bool \<Rightarrow> claim_input option"
  l_decComplete :: "bytes \<Rightarrow> bool \<Rightarrow> complete_input option"
  l_decEnvelope :: "bytes \<Rightarrow> envelopeHeader option"
  l_decHandshake :: "bytes \<Rightarrow> handshakeHeader option"
  l_SplitHostPort :: "string \<Rightarrow> string option"
  l_ParseIP :: "string \<Rightarrow> string option"
  l_Contains :: "string \<Rightarrow> string \<Rightarrow> bool"

record env =
  e_clk :: "nat \<Rightarrow> gotime"
  e_dbf :: "nat \<Rightarrow> faults"
  e_rnd :: "nat \<Rightarrow> bytes option"
  e_net :: "nat \<Rightarrow> bool"
  e_upgrade :: bool

record request =
  rq_Method :: string
  rq_Path :: string
  rq_Authorization :: string
  rq_token :: string
  rq_after :: string
  rq_limit :: string
  rq_RemoteAddr :: string
  rq_CFConnectingIP :: string
  rq_Body :: bytes


section \<open>State\<close>

record Config =
  cf_PublicEndpoint :: string
  cf_ProvisionTokenDigest :: bytes
  cf_MailboxTTL :: duration
  cf_MaxMailboxBytes :: int
  cf_MaxFrameBytes :: int
  cf_RateLimitPerMinute :: int
  cf_ActivationRateLimitPerMinute :: int
  cf_TrustedProxyNets :: "string list"

record Server =
  sv_store :: Store
  sv_config :: Config
  sv_limiter :: RateLimiter
  sv_activationLimiter :: RateLimiter
  sv_nonces :: "(string \<times> gotime) list"
  sv_bridges :: "string \<rightharpoonup> nat"
  sv_devices :: "string \<rightharpoonup> nat"
  sv_peers :: "nat \<Rightarrow> socketPeer"

text \<open>
  The trusted networks are given parsed; an empty list of addresses means the loopback networks.
  \<open>None\<close> is the constructor's error.
\<close>

definition NewServer :: "Store \<Rightarrow> Config \<Rightarrow> Server option" where
  "NewServer store c =
     (if length (cf_ProvisionTokenDigest c) \<noteq> 32 then None
      else
        let c = (if cf_MailboxTTL c \<le> 0 then c\<lparr>cf_MailboxTTL := 1440 * minute\<rparr> else c);
            c = (if cf_MaxMailboxBytes c \<le> 0 then c\<lparr>cf_MaxMailboxBytes := 52428800\<rparr> else c);
            c = (if cf_MaxFrameBytes c \<le> 0 then c\<lparr>cf_MaxFrameBytes := 33554432\<rparr> else c);
            c = (if cf_RateLimitPerMinute c \<le> 0 then c\<lparr>cf_RateLimitPerMinute := 120\<rparr> else c);
            c = (if cf_ActivationRateLimitPerMinute c \<le> 0
                 then c\<lparr>cf_ActivationRateLimitPerMinute := 6\<rparr> else c);
            c = (if cf_TrustedProxyNets c = []
                 then c\<lparr>cf_TrustedProxyNets := [''127.0.0.0/8'', ''::1/128'']\<rparr> else c)
        in Some \<lparr>sv_store = store, sv_config = c,
                 sv_limiter = NewRateLimiter (cf_RateLimitPerMinute c) minute,
                 sv_activationLimiter = NewRateLimiter (cf_ActivationRateLimitPerMinute c) minute,
                 sv_nonces = [], sv_bridges = Map.empty, sv_devices = Map.empty,
                 sv_peers = (\<lambda>_. bridge_peer)\<rparr>)"

datatype body =
    ErrorBody string
  | HealthBody string
  | RouteBody string string string
  | ActivatedBody string string
  | DeviceBody string string
  | StatusBody RouteStatus
  | RevokedBody
  | FramesBody "MailboxFrame list"
  | AckedBody nat
  | ClaimStateBody string string
  | ClaimsBody "PairingClaim list"
  | ClaimBody PairingClaim
  | PlainBody string
  | NoBody

type_synonym response = "nat \<times> body"


section \<open>Identifiers, addresses, credentials of a request\<close>

definition valid_char :: "char \<Rightarrow> bool" where
  "valid_char c \<longleftrightarrow>
     (let n = (of_char c :: nat)
      in (97 \<le> n \<and> n \<le> 122) \<or> (65 \<le> n \<and> n \<le> 90) \<or> (48 \<le> n \<and> n \<le> 57)
         \<or> c = CHR ''_'' \<or> c = CHR ''-'' \<or> c = CHR ''.'')"

definition validID :: "string \<Rightarrow> bool" where
  "validID v \<longleftrightarrow> v \<noteq> [] \<and> length v \<le> 128 \<and> list_all valid_char v"

definition bearer :: "request \<Rightarrow> string" where
  "bearer r =
     (if has_prefix (rq_Authorization r) ''Bearer ''
      then trim_space (trim_prefix (rq_Authorization r) ''Bearer '')
      else if rq_token r \<noteq> [] then rq_token r else [])"

definition decodeJSONBody :: "(bytes \<Rightarrow> bool \<Rightarrow> 'a option) \<Rightarrow> request \<Rightarrow> 'a option" where
  "decodeJSONBody dec r = dec (take 16384 (rq_Body r)) (16384 < length (rq_Body r))"

definition ipInNetworks :: "lib \<Rightarrow> string \<Rightarrow> string list \<Rightarrow> bool" where
  "ipInNetworks L ip networks \<longleftrightarrow> list_ex (\<lambda>n. l_Contains L n ip) networks"

definition clientIP :: "lib \<Rightarrow> request \<Rightarrow> Server \<Rightarrow> string" where
  "clientIP L r sv =
     (let host = (case l_SplitHostPort L (rq_RemoteAddr r) of None \<Rightarrow> rq_RemoteAddr r | Some h \<Rightarrow> h)
      in case l_ParseIP L (trim_space host) of
           None \<Rightarrow> host
         | Some remoteIP \<Rightarrow>
             (if ipInNetworks L remoteIP (cf_TrustedProxyNets (sv_config sv))
              then let value = trim_space (takeWhile (\<lambda>c. c \<noteq> CHR '','') (rq_CFConnectingIP r))
                   in (case l_ParseIP L value of Some forwardedIP \<Rightarrow> forwardedIP | None \<Rightarrow> remoteIP)
              else remoteIP))"

definition allow_request :: "lib \<Rightarrow> env \<Rightarrow> string \<Rightarrow> request \<Rightarrow> Server \<Rightarrow> bool \<times> Server" where
  "allow_request L E operation r sv =
     (let now = e_clk E 0;
          (ok, lim) = allow_live (sv_limiter sv) (operation @ '':ip:'' @ clientIP L r sv) now;
          sv = sv\<lparr>sv_limiter := lim\<rparr>
      in if \<not> ok then (False, sv)
         else let parts = path_fields (rq_Path r)
              in if 3 \<le> length parts \<and> parts ! 0 = ''v1'' \<and> parts ! 1 = ''routes''
                 then let (ok, lim) = allow_live (sv_limiter sv) (operation @ '':route:'' @ parts ! 2) now
                      in (ok, sv\<lparr>sv_limiter := lim\<rparr>)
                 else (True, sv))"

definition authenticateBridge :: "lib \<Rightarrow> env \<Rightarrow> request \<Rightarrow> string \<Rightarrow> Server \<Rightarrow> bool \<times> Server" where
  "authenticateBridge L E r routeID sv =
     (let (ok, st) = AuthenticateBridge (l_sha256 L) (e_dbf E 0) routeID (bearer r) (e_clk E 1) (sv_store sv)
      in (ok, sv\<lparr>sv_store := st\<rparr>))"

definition authenticateDevice :: "lib \<Rightarrow> env \<Rightarrow> request \<Rightarrow> string \<Rightarrow> string \<Rightarrow> Server \<Rightarrow> bool \<times> Server" where
  "authenticateDevice L E r routeID deviceID sv =
     (let (ok, st) = AuthenticateDevice (l_sha256 L) (e_dbf E 0) routeID deviceID (bearer r) (e_clk E 1) (sv_store sv)
      in (ok, sv\<lparr>sv_store := st\<rparr>))"

text \<open>The guards almost every handler starts with.\<close>

definition guard_rate ::
  "lib \<Rightarrow> env \<Rightarrow> string \<Rightarrow> request \<Rightarrow> (Server \<Rightarrow> response \<times> Server) \<Rightarrow> Server \<Rightarrow> response \<times> Server" where
  "guard_rate L E operation r k sv =
     (let (ok, sv) = allow_request L E operation r sv
      in if ok then k sv else ((429, ErrorBody ''relay.rate_limited''), sv))"

definition guard_bridge ::
  "lib \<Rightarrow> env \<Rightarrow> string \<Rightarrow> request \<Rightarrow> string \<Rightarrow> (Server \<Rightarrow> response \<times> Server) \<Rightarrow> Server \<Rightarrow> response \<times> Server" where
  "guard_bridge L E operation r routeID k =
     guard_rate L E operation r (\<lambda>sv.
       let (ok, sv) = authenticateBridge L E r routeID sv
       in if ok then k sv else ((401, ErrorBody ''relay.auth_failed''), sv))"

definition guard_device ::
  "lib \<Rightarrow> env \<Rightarrow> string \<Rightarrow> request \<Rightarrow> string \<Rightarrow> string \<Rightarrow> (Server \<Rightarrow> response \<times> Server) \<Rightarrow> Server \<Rightarrow> response \<times> Server" where
  "guard_device L E operation r routeID deviceID k =
     guard_rate L E operation r (\<lambda>sv.
       let (ok, sv) = authenticateDevice L E r routeID deviceID sv
       in if ok then k sv else ((401, ErrorBody ''relay.auth_failed''), sv))"


section \<open>Activation\<close>

definition activationPayload :: "string \<Rightarrow> string \<Rightarrow> string \<Rightarrow> int \<Rightarrow> string \<Rightarrow> bytes" where
  "activationPayload installID publicKey bridgeAuth timestamp nonce =
     bytes_of (''cordcode-relay/activation/v1'' @ [CHR 0x0A] @ installID @ [CHR 0x0A] @ publicKey
       @ [CHR 0x0A] @ bridgeAuth @ [CHR 0x0A] @ show_int timestamp @ [CHR 0x0A] @ nonce)"

definition activationNonceTTL :: duration where
  "activationNonceTTL = 5 * minute"

definition seenRecently :: "string \<Rightarrow> gotime \<Rightarrow> duration \<Rightarrow> (string \<times> gotime) list \<Rightarrow> bool \<times> (string \<times> gotime) list" where
  "seenRecently key now ttl seen =
     (let cutoff = now - ttl;
          seen = filter (\<lambda>(k, at). \<not> at < cutoff) seen
      in if map_of seen key \<noteq> None then (True, seen) else (False, AList.update key now seen))"

definition activationNonceSeen :: "string \<Rightarrow> string \<Rightarrow> gotime \<Rightarrow> Server \<Rightarrow> bool \<times> Server" where
  "activationNonceSeen installID nonce now sv =
     (let (dup, seen) = seenRecently (installID @ '':'' @ nonce) now activationNonceTTL (sv_nonces sv)
      in (dup, sv\<lparr>sv_nonces := seen\<rparr>))"

text \<open>The freshness check of the request's timestamp: \<^verbatim>\<open>time.Since\<close> and \<^verbatim>\<open>time.Until\<close> at most five minutes.\<close>

definition timestamp_fresh :: "gotime \<Rightarrow> gotime \<Rightarrow> int \<Rightarrow> bool" where
  "timestamp_fresh now1 now2 ts \<longleftrightarrow>
     \<not> 5 * minute < time_sub now1 (nsec ts) \<and> \<not> 5 * minute < time_sub (nsec ts) now2"

definition handleActivateRoute :: "lib \<Rightarrow> env \<Rightarrow> request \<Rightarrow> Server \<Rightarrow> response \<times> Server" where
  "handleActivateRoute L E r sv =
     (let (ok, lim) = allow_live (sv_activationLimiter sv) (''activation:ip:'' @ clientIP L r sv) (e_clk E 0);
          sv = sv\<lparr>sv_activationLimiter := lim\<rparr>
      in if \<not> ok then ((429, ErrorBody ''relay.rate_limited''), sv)
         else case decodeJSONBody (l_decActivation L) r of
           None \<Rightarrow> ((400, ErrorBody ''relay.invalid_activation''), sv)
         | Some i \<Rightarrow>
           (if \<not> validID (ai_InstallID i) \<or> \<not> validID (ai_Nonce i)
               \<or> length (ai_BridgeAuth i) < 32 \<or> 128 < length (ai_BridgeAuth i)
               \<or> \<not> timestamp_fresh (e_clk E 1) (e_clk E 2) (ai_Timestamp i)
            then ((400, ErrorBody ''relay.invalid_activation''), sv)
            else
              let (ok, lim) = allow_live (sv_activationLimiter sv) (''activation:install:'' @ ai_InstallID i) (e_clk E 3);
                  sv = sv\<lparr>sv_activationLimiter := lim\<rparr>
              in if \<not> ok then ((429, ErrorBody ''relay.rate_limited''), sv)
                 else case l_b64std L (ai_PublicKey i) of
                   None \<Rightarrow> ((400, ErrorBody ''relay.invalid_activation''), sv)
                 | Some publicKey \<Rightarrow>
                   (if length publicKey \<noteq> 32
                    then ((400, ErrorBody ''relay.invalid_activation''), sv)
                    else case l_b64std L (ai_Signature i) of
                      None \<Rightarrow> ((401, ErrorBody ''relay.activation_signature_failed''), sv)
                    | Some signature \<Rightarrow>
                      (if \<not> l_verify L publicKey (activationPayload (ai_InstallID i) (ai_PublicKey i)
                             (ai_BridgeAuth i) (ai_Timestamp i) (ai_Nonce i)) signature
                       then ((401, ErrorBody ''relay.activation_signature_failed''), sv)
                       else
                         let (dup, sv) = activationNonceSeen (ai_InstallID i) (ai_Nonce i) (e_clk E 4) sv
                         in if dup then ((409, ErrorBody ''relay.activation_replayed''), sv)
                            else case ActivateRoute (l_sha256 L) (e_rnd E 0) (e_dbf E 0) (ai_InstallID i)
                                        publicKey (ai_BridgeAuth i) (e_clk E 5) (sv_store sv) of
                              (Inl e, st) \<Rightarrow> ((409, ErrorBody ''relay.activation_conflict''), sv\<lparr>sv_store := st\<rparr>)
                            | (Inr routeID, st) \<Rightarrow>
                                ((201, ActivatedBody routeID (cf_PublicEndpoint (sv_config sv))),
                                 sv\<lparr>sv_store := st\<rparr>)))))"


section \<open>Routes, devices, mailbox\<close>

definition handleRegisterRoute :: "lib \<Rightarrow> env \<Rightarrow> request \<Rightarrow> Server \<Rightarrow> response \<times> Server" where
  "handleRegisterRoute L E r = guard_rate L E ''route_register'' r (\<lambda>sv.
     if cf_ProvisionTokenDigest (sv_config sv) \<noteq> CredentialDigest (l_sha256 L) (bearer r)
     then ((401, ErrorBody ''relay.auth_failed''), sv)
     else case CreateRoute (l_sha256 L) (e_rnd E 0) (e_rnd E 1) (e_dbf E 0) (e_clk E 1) (sv_store sv) of
            (Inl e, st) \<Rightarrow> ((500, ErrorBody ''relay.register_failed''), sv\<lparr>sv_store := st\<rparr>)
          | (Inr (routeID, auth), st) \<Rightarrow>
              ((201, RouteBody routeID auth (cf_PublicEndpoint (sv_config sv))), sv\<lparr>sv_store := st\<rparr>))"

definition handleRegisterDevice :: "lib \<Rightarrow> env \<Rightarrow> request \<Rightarrow> string \<Rightarrow> Server \<Rightarrow> response \<times> Server" where
  "handleRegisterDevice L E r routeID = guard_bridge L E ''device_register'' r routeID (\<lambda>sv.
     case decodeJSONBody (l_decDevice L) r of
       None \<Rightarrow> ((400, ErrorBody ''relay.invalid_device''), sv)
     | Some deviceID \<Rightarrow>
         (if \<not> validID deviceID then ((400, ErrorBody ''relay.invalid_device''), sv)
          else case RegisterDevice (l_sha256 L) (e_rnd E 0) (e_dbf E 1) routeID deviceID (e_clk E 2) (sv_store sv) of
                 (Inl e, st) \<Rightarrow> ((400, ErrorBody ''relay.register_failed''), sv\<lparr>sv_store := st\<rparr>)
               | (Inr auth, st) \<Rightarrow> ((201, DeviceBody deviceID auth), sv\<lparr>sv_store := st\<rparr>)))"

definition handleStatus :: "lib \<Rightarrow> env \<Rightarrow> request \<Rightarrow> string \<Rightarrow> Server \<Rightarrow> response \<times> Server" where
  "handleStatus L E r routeID = guard_bridge L E ''route_status'' r routeID (\<lambda>sv.
     case Status (e_dbf E 1) routeID (e_clk E 2) (sv_store sv) of
       Inl e \<Rightarrow> ((500, ErrorBody ''relay.status_failed''), sv)
     | Inr status \<Rightarrow> ((200, StatusBody status), sv))"


section \<open>Connection tables\<close>

definition deviceKey :: "string \<Rightarrow> string \<Rightarrow> string" where
  "deviceKey routeID deviceID = routeID @ [CHR 0x00] @ deviceID"

definition close_peer :: "nat \<Rightarrow> nat \<Rightarrow> string \<Rightarrow> Server \<Rightarrow> Server" where
  "close_peer pid code reason sv =
     sv\<lparr>sv_peers := (sv_peers sv)(pid := closePeer code reason (sv_peers sv pid))\<rparr>"

definition setBridge :: "string \<Rightarrow> nat \<Rightarrow> Server \<Rightarrow> Server" where
  "setBridge routeID pid sv =
     (let old = sv_bridges sv routeID;
          sv = sv\<lparr>sv_bridges := (sv_bridges sv)(routeID \<mapsto> pid)\<rparr>
      in case old of None \<Rightarrow> sv | Some q \<Rightarrow> close_peer q 1000 ''bridge replaced'' sv)"

definition removeBridge :: "string \<Rightarrow> nat \<Rightarrow> Server \<Rightarrow> Server" where
  "removeBridge routeID pid sv =
     (if sv_bridges sv routeID = Some pid
      then sv\<lparr>sv_bridges := (sv_bridges sv)(routeID := None)\<rparr> else sv)"

definition setDevice :: "string \<Rightarrow> string \<Rightarrow> nat \<Rightarrow> Server \<Rightarrow> Server" where
  "setDevice routeID deviceID pid sv =
     (let key = deviceKey routeID deviceID;
          old = sv_devices sv key;
          sv = sv\<lparr>sv_devices := (sv_devices sv)(key \<mapsto> pid)\<rparr>
      in case old of None \<Rightarrow> sv | Some q \<Rightarrow> close_peer q 1000 ''device replaced'' sv)"

definition device_conn :: "string \<Rightarrow> string \<Rightarrow> Server \<Rightarrow> nat option" where
  "device_conn routeID deviceID sv = sv_devices sv (deviceKey routeID deviceID)"

definition removeDevice :: "string \<Rightarrow> string \<Rightarrow> nat \<Rightarrow> Server \<Rightarrow> Server" where
  "removeDevice routeID deviceID pid sv =
     (if sv_devices sv (deviceKey routeID deviceID) = Some pid
      then sv\<lparr>sv_devices := (sv_devices sv)(deviceKey routeID deviceID := None)\<rparr> else sv)"

definition disconnectDevice :: "string \<Rightarrow> string \<Rightarrow> Server \<Rightarrow> Server" where
  "disconnectDevice routeID deviceID sv =
     (case device_conn routeID deviceID sv of
        None \<Rightarrow> sv
      | Some pid \<Rightarrow> removeDevice routeID deviceID pid (close_peer pid 1008 ''device revoked'' sv))"

definition handleRevokeDevice :: "lib \<Rightarrow> env \<Rightarrow> request \<Rightarrow> string \<Rightarrow> string \<Rightarrow> Server \<Rightarrow> response \<times> Server" where
  "handleRevokeDevice L E r routeID deviceID = guard_bridge L E ''device_revoke'' r routeID (\<lambda>sv.
     case RevokeDevice (e_dbf E 1) routeID deviceID (e_clk E 2) (sv_store sv) of
       (Inl e, st) \<Rightarrow> ((404, ErrorBody ''relay.device_not_found''), sv\<lparr>sv_store := st\<rparr>)
     | (Inr _, st) \<Rightarrow> ((200, RevokedBody), disconnectDevice routeID deviceID (sv\<lparr>sv_store := st\<rparr>)))"

definition handleFetchMailbox :: "lib \<Rightarrow> env \<Rightarrow> request \<Rightarrow> string \<Rightarrow> string \<Rightarrow> Server \<Rightarrow> response \<times> Server" where
  "handleFetchMailbox L E r routeID deviceID = guard_device L E ''mailbox_fetch'' r routeID deviceID (\<lambda>sv.
     case FetchFrames (e_dbf E 1) routeID deviceID (parse_uint64 (rq_after r)) (atoi (rq_limit r))
            (e_clk E 2) (sv_store sv) of
       (Inl e, st) \<Rightarrow> ((500, ErrorBody ''relay.mailbox_failed''), sv\<lparr>sv_store := st\<rparr>)
     | (Inr frames, st) \<Rightarrow> ((200, FramesBody frames), sv\<lparr>sv_store := st\<rparr>))"

definition handleAckMailbox :: "lib \<Rightarrow> env \<Rightarrow> request \<Rightarrow> string \<Rightarrow> string \<Rightarrow> Server \<Rightarrow> response \<times> Server" where
  "handleAckMailbox L E r routeID deviceID = guard_device L E ''mailbox_ack'' r routeID deviceID (\<lambda>sv.
     case decodeJSONBody (l_decThrough L) r of
       None \<Rightarrow> ((400, ErrorBody ''relay.invalid_ack''), sv)
     | Some through \<Rightarrow>
         (if through = 0 then ((400, ErrorBody ''relay.invalid_ack''), sv)
          else case AckFrames (e_dbf E 1) routeID deviceID through (e_clk E 2) (sv_store sv) of
                 (Inl e, st) \<Rightarrow> ((500, ErrorBody ''relay.mailbox_failed''), sv\<lparr>sv_store := st\<rparr>)
               | (Inr _, st) \<Rightarrow> ((200, AckedBody through), sv\<lparr>sv_store := st\<rparr>)))"


section \<open>Pairing claims\<close>

definition handleSubmitPairingClaim :: "lib \<Rightarrow> env \<Rightarrow> request \<Rightarrow> string \<Rightarrow> Server \<Rightarrow> response \<times> Server" where
  "handleSubmitPairingClaim L E r routeID = guard_rate L E ''pairing_submit'' r (\<lambda>sv.
     case decodeJSONBody (l_decClaim L) r of
       None \<Rightarrow> ((400, ErrorBody ''relay.invalid_pairing_claim''), sv)
     | Some i \<Rightarrow>
         (if ci_ClaimID i = [] \<or> ci_Capability i = [] \<or> ci_SealedClaim i = []
          then ((400, ErrorBody ''relay.invalid_pairing_claim''), sv)
          else if \<not> validID (ci_ClaimID i)
          then ((400, ErrorBody ''relay.invalid_pairing_claim''), sv)
          else case SubmitPairingClaim (e_dbf E 0) routeID (ci_ClaimID i)
                      (CredentialDigest (l_sha256 L) (ci_Capability i)) (ci_SealedClaim i)
                      (e_clk E 1) (5 * minute) (sv_store sv) of
                 (Inl e, st) \<Rightarrow>
                   ((if e = EPairingClaimConflict then (409, ErrorBody ''relay.pairing_claim_conflict'')
                     else (500, ErrorBody ''relay.pairing_failed'')), sv\<lparr>sv_store := st\<rparr>)
               | (Inr _, st) \<Rightarrow> ((200, ClaimStateBody (ci_ClaimID i) ''pending''), sv\<lparr>sv_store := st\<rparr>)))"

definition handleListPairingClaims :: "lib \<Rightarrow> env \<Rightarrow> request \<Rightarrow> string \<Rightarrow> Server \<Rightarrow> response \<times> Server" where
  "handleListPairingClaims L E r routeID = guard_bridge L E ''pairing_list'' r routeID (\<lambda>sv.
     case PendingClaims (e_dbf E 1) routeID (e_clk E 2) (sv_store sv) of
       (Inl e, st) \<Rightarrow> ((500, ErrorBody ''relay.pairing_failed''), sv\<lparr>sv_store := st\<rparr>)
     | (Inr claims, st) \<Rightarrow> ((200, ClaimsBody claims), sv\<lparr>sv_store := st\<rparr>))"

definition handleCompletePairingClaim ::
  "lib \<Rightarrow> env \<Rightarrow> request \<Rightarrow> string \<Rightarrow> string \<Rightarrow> Server \<Rightarrow> response \<times> Server" where
  "handleCompletePairingClaim L E r routeID claimID = guard_bridge L E ''pairing_complete'' r routeID (\<lambda>sv.
     case decodeJSONBody (l_decComplete L) r of
       None \<Rightarrow> ((400, ErrorBody ''relay.invalid_pairing_complete''), sv)
     | Some i \<Rightarrow>
         (if co_State i \<noteq> ''approved'' \<and> co_State i \<noteq> ''rejected''
          then ((400, ErrorBody ''relay.invalid_pairing_complete''), sv)
          else case CompletePairingClaim (e_dbf E 1) routeID claimID (co_State i) (co_SealedResult i)
                      (e_clk E 2) (sv_store sv) of
                 (Inl e, st) \<Rightarrow> ((400, ErrorBody ''relay.pairing_not_found''), sv\<lparr>sv_store := st\<rparr>)
               | (Inr _, st) \<Rightarrow> ((200, ClaimStateBody claimID (co_State i)), sv\<lparr>sv_store := st\<rparr>)))"

text \<open>
  The result of \<^verbatim>\<open>ConsumePairingResult\<close> is ignored, as in the code: the claim is written to the
  response whether or not the row could be marked.
\<close>

definition handleGetPairingResult ::
  "lib \<Rightarrow> env \<Rightarrow> request \<Rightarrow> string \<Rightarrow> string \<Rightarrow> Server \<Rightarrow> response \<times> Server" where
  "handleGetPairingResult L E r routeID claimID = guard_rate L E ''pairing_result'' r (\<lambda>sv.
     if bearer r = [] then ((401, ErrorBody ''relay.auth_failed''), sv)
     else if \<not> VerifyPairingCapability (l_sha256 L) (e_dbf E 0) routeID claimID (bearer r) (sv_store sv)
     then ((401, ErrorBody ''relay.auth_failed''), sv)
     else case GetPairingResult (e_dbf E 1) routeID claimID (e_clk E 1) (sv_store sv) of
            Inl e \<Rightarrow> ((404, ErrorBody ''relay.pairing_not_found''), sv)
          | Inr claim \<Rightarrow>
              ((200, ClaimBody claim),
               (if pc_State claim = ''approved'' \<or> pc_State claim = ''rejected''
                then sv\<lparr>sv_store := snd (ConsumePairingResult (e_dbf E 2) routeID claimID (e_clk E 2) (sv_store sv))\<rparr>
                else sv)))"


section \<open>Frames\<close>

definition isBridgeHandshakeResponse :: "string \<Rightarrow> bool" where
  "isBridgeHandshakeResponse msgType \<longleftrightarrow>
     msgType = ''online_server_hello'' \<or> msgType = ''online_server_hello_error''"

definition enqueue_to :: "bool \<Rightarrow> nat \<Rightarrow> bytes \<Rightarrow> Server \<Rightarrow> bool \<times> Server" where
  "enqueue_to net pid payload sv =
     (let (ok, p) = enqueue net payload (sv_peers sv pid)
      in (ok, sv\<lparr>sv_peers := (sv_peers sv)(pid := p)\<rparr>))"

definition write_to :: "bool \<Rightarrow> nat \<Rightarrow> bytes \<Rightarrow> Server \<Rightarrow> bool \<times> Server" where
  "write_to net pid payload sv =
     (let (ok, p) = peer_write net payload (sv_peers sv pid)
      in (ok, sv\<lparr>sv_peers := (sv_peers sv)(pid := p)\<rparr>))"

text \<open>
  Delivery to a connected device: \<open>True\<close> when its queue took the frame; a full queue disconnects the
  device, whose connection is removed from the table and closed.
\<close>

definition deliver_online :: "bool \<Rightarrow> string \<Rightarrow> string \<Rightarrow> bytes \<Rightarrow> Server \<Rightarrow> bool \<times> Server" where
  "deliver_online net routeID deviceID payload sv =
     (case device_conn routeID deviceID sv of
        None \<Rightarrow> (False, sv)
      | Some target \<Rightarrow>
          (case enqueue_to net target payload sv of
             (True, sv) \<Rightarrow> (True, sv)
           | (False, sv) \<Rightarrow>
               (False, close_peer target 1013 ''send queue full'' (removeDevice routeID deviceID target sv))))"

definition is_handshake :: "lib \<Rightarrow> env \<Rightarrow> string \<Rightarrow> bytes \<Rightarrow> Server \<Rightarrow> string option" where
  "is_handshake L E routeID payload sv =
     (case l_decHandshake L payload of
        None \<Rightarrow> None
      | Some hs \<Rightarrow>
          (if isBridgeHandshakeResponse (hh_Type hs) \<and> validID (hh_DeviceID hs)
              \<and> DeviceActive (e_dbf E 0) routeID (hh_DeviceID hs) (sv_store sv)
           then Some (hh_DeviceID hs) else None))"

text \<open>The destination of a well-formed envelope from the bridge of \<open>routeID\<close>.\<close>

definition bridge_envelope :: "lib \<Rightarrow> env \<Rightarrow> string \<Rightarrow> bytes \<Rightarrow> Server \<Rightarrow> envelopeHeader option" where
  "bridge_envelope L E routeID payload sv =
     (case l_decEnvelope L payload of
        None \<Rightarrow> None
      | Some h \<Rightarrow>
          (if eh_RouteID h \<noteq> routeID \<or> eh_SenderID h \<noteq> ''bridge'' \<or> \<not> validID (eh_DestinationID h)
              \<or> \<not> DeviceActive (e_dbf E 1) routeID (eh_DestinationID h) (sv_store sv)
           then None else Some h))"

text \<open>The body of the loop of \<^verbatim>\<open>readBridgeFrames\<close> on one message; \<open>False\<close> leaves the loop.\<close>

definition bridge_frame :: "lib \<Rightarrow> env \<Rightarrow> string \<Rightarrow> nat \<Rightarrow> bytes \<Rightarrow> Server \<Rightarrow> bool \<times> Server" where
  "bridge_frame L E routeID pid payload sv =
     (case is_handshake L E routeID payload sv of
        Some d \<Rightarrow> (True, snd (deliver_online (e_net E 0) routeID d payload sv))
      | None \<Rightarrow>
        (case bridge_envelope L E routeID payload sv of
           None \<Rightarrow> (False, close_peer pid 1008 ''invalid relay envelope'' sv)
         | Some h \<Rightarrow>
             (let (sent, sv) = (if has_prefix (eh_KeyEpochID h) ''mailbox:'' then (False, sv)
                                else deliver_online (e_net E 0) routeID (eh_DestinationID h) payload sv)
              in if sent then (True, sv)
                 else case AppendFrame (e_dbf E 2) routeID (eh_DestinationID h) payload (e_clk E 0)
                             (cf_MailboxTTL (sv_config sv)) (cf_MaxMailboxBytes (sv_config sv)) (sv_store sv) of
                        (Inl e, st) \<Rightarrow> (False, close_peer pid 1013 ''mailbox unavailable'' (sv\<lparr>sv_store := st\<rparr>))
                      | (Inr _, st) \<Rightarrow> (True, sv\<lparr>sv_store := st\<rparr>))))"

definition write_to_bridge :: "bool \<Rightarrow> string \<Rightarrow> bytes \<Rightarrow> Server \<Rightarrow> bool \<times> Server" where
  "write_to_bridge net routeID payload sv =
     (case sv_bridges sv routeID of None \<Rightarrow> (False, sv) | Some target \<Rightarrow> write_to net target payload sv)"

text \<open>The body of the loop of \<^verbatim>\<open>readDeviceFrames\<close> on one message.\<close>

definition device_frame :: "lib \<Rightarrow> env \<Rightarrow> string \<Rightarrow> string \<Rightarrow> nat \<Rightarrow> bytes \<Rightarrow> Server \<Rightarrow> bool \<times> Server" where
  "device_frame L E routeID deviceID pid payload sv =
     (if (case l_decHandshake L payload of
            None \<Rightarrow> False
          | Some hs \<Rightarrow> hh_Type hs = ''online_client_hello'' \<and> hh_DeviceID hs = deviceID)
      then let (ok, sv) = write_to_bridge (e_net E 0) routeID payload sv
           in (True, if ok then sv else close_peer pid 1013 ''bridge offline'' sv)
      else if (case l_decEnvelope L payload of
                 None \<Rightarrow> True
               | Some h \<Rightarrow> eh_RouteID h \<noteq> routeID \<or> eh_SenderID h \<noteq> deviceID
                           \<or> eh_DestinationID h \<noteq> ''bridge'')
      then (False, close_peer pid 1008 ''invalid relay envelope'' sv)
      else let (ok, sv) = write_to_bridge (e_net E 0) routeID payload sv
           in (ok, if ok then sv else close_peer pid 1013 ''bridge offline'' sv))"

text \<open>
  \<^verbatim>\<open>ReadMessage\<close> fails on a closed connection and on a message over the read limit; otherwise it
  returns the next message. The list is what the peer sends until the connection ends, each message
  with the environment of its round.
\<close>

definition readable :: "nat \<Rightarrow> bytes \<Rightarrow> Server \<Rightarrow> bool" where
  "readable pid payload sv \<longleftrightarrow>
     sp_closed (sv_peers sv pid) = None \<and> int (length payload) \<le> cf_MaxFrameBytes (sv_config sv)"

fun readBridgeFrames :: "lib \<Rightarrow> string \<Rightarrow> nat \<Rightarrow> (env \<times> bytes) list \<Rightarrow> Server \<Rightarrow> Server" where
  "readBridgeFrames L routeID pid [] sv = sv"
| "readBridgeFrames L routeID pid ((E, payload) # ms) sv =
     (if \<not> readable pid payload sv then sv
      else case bridge_frame L E routeID pid payload sv of
             (True, sv) \<Rightarrow> readBridgeFrames L routeID pid ms sv
           | (False, sv) \<Rightarrow> sv)"

fun readDeviceFrames :: "lib \<Rightarrow> string \<Rightarrow> string \<Rightarrow> nat \<Rightarrow> (env \<times> bytes) list \<Rightarrow> Server \<Rightarrow> Server" where
  "readDeviceFrames L routeID deviceID pid [] sv = sv"
| "readDeviceFrames L routeID deviceID pid ((E, payload) # ms) sv =
     (if \<not> readable pid payload sv then sv
      else case device_frame L E routeID deviceID pid payload sv of
             (True, sv) \<Rightarrow> readDeviceFrames L routeID deviceID pid ms sv
           | (False, sv) \<Rightarrow> sv)"

text \<open>\<open>pid\<close> names the connection the upgrade creates; \<open>ms\<close> is what arrives on it.\<close>

definition handleBridgeSocket ::
  "lib \<Rightarrow> env \<Rightarrow> nat \<Rightarrow> (env \<times> bytes) list \<Rightarrow> request \<Rightarrow> string \<Rightarrow> Server \<Rightarrow> response \<times> Server" where
  "handleBridgeSocket L E pid ms r routeID = guard_bridge L E ''bridge_socket'' r routeID (\<lambda>sv.
     if \<not> e_upgrade E then ((400, NoBody), sv)
     else let sv = sv\<lparr>sv_peers := (sv_peers sv)(pid := bridge_peer)\<rparr>;
              sv = setBridge routeID pid sv;
              sv = readBridgeFrames L routeID pid ms sv
          in ((101, NoBody), removeBridge routeID pid sv))"

definition handleDeviceSocket ::
  "lib \<Rightarrow> env \<Rightarrow> nat \<Rightarrow> (env \<times> bytes) list \<Rightarrow> request \<Rightarrow> string \<Rightarrow> string \<Rightarrow> Server \<Rightarrow> response \<times> Server" where
  "handleDeviceSocket L E pid ms r routeID deviceID =
     guard_device L E ''device_socket'' r routeID deviceID (\<lambda>sv.
     if \<not> e_upgrade E then ((400, NoBody), sv)
     else let sv = sv\<lparr>sv_peers := (sv_peers sv)(pid := device_peer)\<rparr>;
              sv = setDevice routeID deviceID pid sv;
              sv = readDeviceFrames L routeID deviceID pid ms sv;
              sv = sv\<lparr>sv_peers := (sv_peers sv)(pid := shutdownWriter (sv_peers sv pid))\<rparr>
          in ((101, NoBody), removeDevice routeID deviceID pid sv))"


section \<open>Routing of requests\<close>

definition pathPrefix :: "string list \<Rightarrow> string list \<Rightarrow> bool" where
  "pathPrefix parts expected \<longleftrightarrow>
     \<not> length parts < length expected \<and> list_all (\<lambda>i. parts ! i = expected ! i) [0 ..< length expected]"

definition pathEquals :: "string list \<Rightarrow> string list \<Rightarrow> bool" where
  "pathEquals parts expected \<longleftrightarrow> length parts = length expected \<and> pathPrefix parts expected"

definition route_path :: "string list \<Rightarrow> nat \<Rightarrow> bool" where
  "route_path parts n \<longleftrightarrow> length parts = n \<and> pathPrefix parts [''v1'', ''routes'']"

definition ServeHTTP ::
  "lib \<Rightarrow> env \<Rightarrow> nat \<Rightarrow> (env \<times> bytes) list \<Rightarrow> request \<Rightarrow> Server \<Rightarrow> response \<times> Server" where
  "ServeHTTP L E pid ms r sv =
     (let parts = path_fields (rq_Path r); m = rq_Method r
      in if m = ''GET'' \<and> rq_Path r = ''/healthz'' then ((200, HealthBody ''ok''), sv)
         else if m = ''GET'' \<and> rq_Path r = ''/readyz''
         then (if e_dbf E 0 0 then ((503, ErrorBody ''relay.database_unavailable''), sv)
               else ((200, HealthBody ''ready''), sv))
         else if m = ''POST'' \<and> pathEquals parts [''v1'', ''routes'', ''register'']
         then handleRegisterRoute L E r sv
         else if m = ''POST'' \<and> pathEquals parts [''v1'', ''activations'', ''routes'']
         then handleActivateRoute L E r sv
         else if m = ''POST'' \<and> route_path parts 5 \<and> parts ! 3 = ''devices'' \<and> parts ! 4 = ''register''
         then handleRegisterDevice L E r (parts ! 2) sv
         else if m = ''GET'' \<and> route_path parts 4 \<and> parts ! 3 = ''status''
         then handleStatus L E r (parts ! 2) sv
         else if m = ''GET'' \<and> route_path parts 4 \<and> parts ! 3 = ''bridge''
         then handleBridgeSocket L E pid ms r (parts ! 2) sv
         else if route_path parts 6 \<and> parts ! 3 = ''devices'' \<and> parts ! 5 = ''revoke'' \<and> m = ''POST''
         then handleRevokeDevice L E r (parts ! 2) (parts ! 4) sv
         else if route_path parts 6 \<and> parts ! 3 = ''devices'' \<and> parts ! 5 = ''mailbox'' \<and> m = ''GET''
         then handleFetchMailbox L E r (parts ! 2) (parts ! 4) sv
         else if route_path parts 7 \<and> parts ! 3 = ''devices'' \<and> parts ! 5 = ''mailbox''
                 \<and> parts ! 6 = ''ack'' \<and> m = ''POST''
         then handleAckMailbox L E r (parts ! 2) (parts ! 4) sv
         else if route_path parts 5 \<and> parts ! 3 = ''devices'' \<and> m = ''GET''
         then handleDeviceSocket L E pid ms r (parts ! 2) (parts ! 4) sv
         else if m = ''POST'' \<and> route_path parts 4 \<and> parts ! 3 = ''pairing-claims''
         then handleSubmitPairingClaim L E r (parts ! 2) sv
         else if m = ''GET'' \<and> route_path parts 4 \<and> parts ! 3 = ''pairing-claims''
         then handleListPairingClaims L E r (parts ! 2) sv
         else if m = ''POST'' \<and> route_path parts 6 \<and> parts ! 3 = ''pairing-claims'' \<and> parts ! 5 = ''complete''
         then handleCompletePairingClaim L E r (parts ! 2) (parts ! 4) sv
         else if m = ''GET'' \<and> route_path parts 6 \<and> parts ! 3 = ''pairing-claims'' \<and> parts ! 5 = ''result''
         then handleGetPairingResult L E r (parts ! 2) (parts ! 4) sv
         else ((404, PlainBody ''404 page not found''), sv))"

fun join_slash :: "string list \<Rightarrow> string" where
  "join_slash [] = []"
| "join_slash [p] = p"
| "join_slash (p # ps) = p @ ''/'' @ join_slash ps"

definition requestAuditPath :: "string \<Rightarrow> string" where
  "requestAuditPath path =
     (let parts = path_fields path;
          parts = (if 3 \<le> length parts \<and> parts ! 0 = ''v1'' \<and> parts ! 1 = ''routes''
                   then parts[2 := '':route''] else parts);
          parts = (if 5 \<le> length parts \<and> parts ! 3 = ''devices'' \<and> parts ! 4 \<noteq> ''register''
                   then parts[4 := '':device''] else parts)
      in ''/'' @ join_slash parts)"

definition safeID :: "string \<Rightarrow> string" where
  "safeID v = (if length v \<le> 8 then v else take 8 v)"

end
