(* ===== verification/Server_Props.thy ===== *)
theory Server_Props
  imports Relay_Server Relay_Auth Relay_Mailbox
begin

text \<open>
  Properties of the relay's request handling: which credential each endpoint demands and that a
  request without it has no effect, that whatever the server does to its database is a sequence of
  the store's operations (so the store's guarantees hold for the server), and where a frame that
  arrives on a connection can go.
\<close>

section \<open>The guards\<close>

text \<open>What a refused request may change: the limiters and the nonce cache.\<close>

definition same_service :: "Server \<Rightarrow> Server \<Rightarrow> bool" where
  "same_service sv sv' \<longleftrightarrow>
     sv_store sv' = sv_store sv \<and> sv_bridges sv' = sv_bridges sv \<and> sv_devices sv' = sv_devices sv
     \<and> sv_peers sv' = sv_peers sv \<and> sv_config sv' = sv_config sv"

lemma same_service_refl [simp]: "same_service sv sv"
  by (simp add: same_service_def)

lemma same_service_updates [simp]:
  "same_service sv (sv\<lparr>sv_limiter := l\<rparr>)" "same_service sv (sv\<lparr>sv_activationLimiter := l\<rparr>)"
  "same_service sv (sv'\<lparr>sv_limiter := l\<rparr>) = same_service sv sv'"
  "same_service sv (sv'\<lparr>sv_activationLimiter := l\<rparr>) = same_service sv sv'"
  "same_service sv (sv'\<lparr>sv_nonces := n\<rparr>) = same_service sv sv'"
  by (simp_all add: same_service_def)

definition refused :: "Server \<Rightarrow> response \<times> Server \<Rightarrow> bool" where
  "refused sv res \<longleftrightarrow> fst (fst res) \<notin> {101, 200, 201} \<and> same_service sv (snd res)"

lemma refused_pair [simp]:
  "refused sv ((c, b), sv') \<longleftrightarrow> c \<notin> {101, 200, 201} \<and> same_service sv sv'"
  by (simp add: refused_def)

lemma allow_request_limiter: "\<exists>lim. snd (allow_request L E op r sv) = sv\<lparr>sv_limiter := lim\<rparr>"
  by (auto simp: allow_request_def Let_def split: prod.split)

lemma guard_rate_cases:
  obtains (limited) lim where "guard_rate L E op r k sv = ((429, ErrorBody ''relay.rate_limited''), sv\<lparr>sv_limiter := lim\<rparr>)"
  | (allowed) lim where "guard_rate L E op r k sv = k (sv\<lparr>sv_limiter := lim\<rparr>)"
proof -
  obtain lim where "snd (allow_request L E op r sv) = sv\<lparr>sv_limiter := lim\<rparr>"
    using allow_request_limiter by blast
  then show thesis
    using limited[of lim] allowed[of lim]
    by (cases "fst (allow_request L E op r sv)") (simp_all add: guard_rate_def case_prod_beta)
qed

lemma guard_rate_refused:
  assumes "\<And>lim. refused sv (k (sv\<lparr>sv_limiter := lim\<rparr>))"
  shows "refused sv (guard_rate L E op r k sv)"
  using assms by (rule_tac guard_rate_cases[of L E op r k sv]) simp_all

definition bridge_credential :: "lib \<Rightarrow> request \<Rightarrow> string \<Rightarrow> Server \<Rightarrow> bool" where
  "bridge_credential L r routeID sv \<longleftrightarrow>
     route_hash (sv_store sv) routeID = Some (CredentialDigest (l_sha256 L) (bearer r))"

definition device_credential :: "lib \<Rightarrow> request \<Rightarrow> string \<Rightarrow> string \<Rightarrow> Server \<Rightarrow> bool" where
  "device_credential L r routeID deviceID sv \<longleftrightarrow>
     map_option dv_device_auth_hash (active_device (sv_store sv) routeID deviceID)
       = Some (CredentialDigest (l_sha256 L) (bearer r))"

lemma failed_auth_no_effect:
  "\<not> fst (AuthenticateBridge H f r cred now st) \<Longrightarrow> snd (AuthenticateBridge H f r cred now st) = st"
  "\<not> fst (AuthenticateDevice H f r d cred now st) \<Longrightarrow> snd (AuthenticateDevice H f r d cred now st) = st"
  by (auto simp: AuthenticateBridge_def AuthenticateDevice_def split: option.splits if_splits)

lemma guard_bridge_cases:
  obtains (refused) code e lim where "guard_bridge L E op r routeID k sv = ((code, ErrorBody e), sv\<lparr>sv_limiter := lim\<rparr>)"
      "code \<in> {401, 429}"
  | (passed) lim where "bridge_credential L r routeID sv"
      "guard_bridge L E op r routeID k sv =
         k (sv\<lparr>sv_limiter := lim,
              sv_store := snd (AuthenticateBridge (l_sha256 L) (e_dbf E 0) routeID (bearer r) (e_clk E 1) (sv_store sv))\<rparr>)"
proof -
  let ?a = "AuthenticateBridge (l_sha256 L) (e_dbf E 0) routeID (bearer r) (e_clk E 1) (sv_store sv)"
  show thesis
  proof (cases rule: guard_rate_cases[of L E op r "\<lambda>sv.
       let (ok, sv) = authenticateBridge L E r routeID sv
       in if ok then k sv else ((401, ErrorBody ''relay.auth_failed''), sv)" sv])
    case (limited lim)
    then show thesis using refused[of 429 _ lim] by (simp add: guard_bridge_def)
  next
    case (allowed lim)
    show thesis
    proof (cases "fst ?a")
      case True
      then have "bridge_credential L r routeID sv"
        by (simp add: bridge_credential_def AuthenticateBridge_iff)
      then show thesis
        using passed[of lim] allowed True
        by (simp add: guard_bridge_def authenticateBridge_def case_prod_beta)
    next
      case False
      then show thesis
        using refused[of 401 _ lim] allowed failed_auth_no_effect(1)[OF False]
        by (simp add: guard_bridge_def authenticateBridge_def case_prod_beta)
    qed
  qed
qed

lemma guard_device_cases:
  obtains (refused) code e lim where "guard_device L E op r routeID d k sv = ((code, ErrorBody e), sv\<lparr>sv_limiter := lim\<rparr>)"
      "code \<in> {401, 429}"
  | (passed) lim where "device_credential L r routeID d sv"
      "guard_device L E op r routeID d k sv =
         k (sv\<lparr>sv_limiter := lim,
              sv_store := snd (AuthenticateDevice (l_sha256 L) (e_dbf E 0) routeID d (bearer r) (e_clk E 1) (sv_store sv))\<rparr>)"
proof -
  let ?a = "AuthenticateDevice (l_sha256 L) (e_dbf E 0) routeID d (bearer r) (e_clk E 1) (sv_store sv)"
  show thesis
  proof (cases rule: guard_rate_cases[of L E op r "\<lambda>sv.
       let (ok, sv) = authenticateDevice L E r routeID d sv
       in if ok then k sv else ((401, ErrorBody ''relay.auth_failed''), sv)" sv])
    case (limited lim)
    then show thesis using refused[of 429 _ lim] by (simp add: guard_device_def)
  next
    case (allowed lim)
    show thesis
    proof (cases "fst ?a")
      case True
      then have "device_credential L r routeID d sv"
        by (simp add: device_credential_def AuthenticateDevice_iff)
      then show thesis
        using passed[of lim] allowed True
        by (simp add: guard_device_def authenticateDevice_def case_prod_beta)
    next
      case False
      then show thesis
        using refused[of 401 _ lim] allowed failed_auth_no_effect(2)[OF False]
        by (simp add: guard_device_def authenticateDevice_def case_prod_beta)
    qed
  qed
qed

lemma guard_bridge_refused:
  "\<not> bridge_credential L r routeID sv \<Longrightarrow> refused sv (guard_bridge L E op r routeID k sv)"
  by (rule guard_bridge_cases[of L E op r routeID k sv]) auto

lemma guard_device_refused:
  "\<not> device_credential L r routeID d sv \<Longrightarrow> refused sv (guard_device L E op r routeID d k sv)"
  by (rule guard_device_cases[of L E op r routeID d k sv]) auto


section \<open>The router\<close>

definition bridge_endpoint :: "request \<Rightarrow> bool" where
  "bridge_endpoint r \<longleftrightarrow>
     (let p = path_fields (rq_Path r); m = rq_Method r
      in m = ''POST'' \<and> route_path p 5 \<and> p ! 3 = ''devices'' \<and> p ! 4 = ''register''
       \<or> m = ''GET'' \<and> route_path p 4 \<and> p ! 3 \<in> {''status'', ''bridge'', ''pairing-claims''}
       \<or> m = ''POST'' \<and> route_path p 6 \<and> p ! 3 = ''devices'' \<and> p ! 5 = ''revoke''
       \<or> m = ''POST'' \<and> route_path p 6 \<and> p ! 3 = ''pairing-claims'' \<and> p ! 5 = ''complete'')"

definition device_endpoint :: "request \<Rightarrow> bool" where
  "device_endpoint r \<longleftrightarrow>
     (let p = path_fields (rq_Path r); m = rq_Method r
      in m = ''GET'' \<and> route_path p 6 \<and> p ! 3 = ''devices'' \<and> p ! 5 = ''mailbox''
       \<or> m = ''POST'' \<and> route_path p 7 \<and> p ! 3 = ''devices'' \<and> p ! 5 = ''mailbox'' \<and> p ! 6 = ''ack''
       \<or> m = ''GET'' \<and> route_path p 5 \<and> p ! 3 = ''devices'')"

definition result_endpoint :: "request \<Rightarrow> bool" where
  "result_endpoint r \<longleftrightarrow>
     (let p = path_fields (rq_Path r)
      in rq_Method r = ''GET'' \<and> route_path p 6 \<and> p ! 3 = ''pairing-claims'' \<and> p ! 5 = ''result'')"

definition provision_endpoint :: "request \<Rightarrow> bool" where
  "provision_endpoint r \<longleftrightarrow>
     rq_Method r = ''POST'' \<and> pathEquals (path_fields (rq_Path r)) [''v1'', ''routes'', ''register'']"

definition activation_endpoint :: "request \<Rightarrow> bool" where
  "activation_endpoint r \<longleftrightarrow>
     rq_Method r = ''POST'' \<and> pathEquals (path_fields (rq_Path r)) [''v1'', ''activations'', ''routes'']"

definition submit_endpoint :: "request \<Rightarrow> bool" where
  "submit_endpoint r \<longleftrightarrow>
     (let p = path_fields (rq_Path r)
      in rq_Method r = ''POST'' \<and> route_path p 4 \<and> p ! 3 = ''pairing-claims'')"

definition health_endpoint :: "request \<Rightarrow> bool" where
  "health_endpoint r \<longleftrightarrow> rq_Method r = ''GET'' \<and> (rq_Path r = ''/healthz'' \<or> rq_Path r = ''/readyz'')"

abbreviation seg :: "request \<Rightarrow> nat \<Rightarrow> string" where
  "seg r i \<equiv> path_fields (rq_Path r) ! i"

lemma if_rule: "(c \<Longrightarrow> P x) \<Longrightarrow> (\<not> c \<Longrightarrow> P y) \<Longrightarrow> P (if c then x else y)"
  by simp

text \<open>Case analysis on the switch of \<^verbatim>\<open>ServeHTTP\<close>.\<close>

lemma ServeHTTP_cases:
  assumes "health_endpoint r \<Longrightarrow> P ((200, HealthBody ''ok''), sv)"
    and "health_endpoint r \<Longrightarrow> P ((200, HealthBody ''ready''), sv)"
    and "health_endpoint r \<Longrightarrow> P ((503, ErrorBody ''relay.database_unavailable''), sv)"
    and "provision_endpoint r \<Longrightarrow> P (handleRegisterRoute L E r sv)"
    and "activation_endpoint r \<Longrightarrow> P (handleActivateRoute L E r sv)"
    and "bridge_endpoint r \<Longrightarrow> P (handleRegisterDevice L E r (seg r 2) sv)"
    and "bridge_endpoint r \<Longrightarrow> P (handleStatus L E r (seg r 2) sv)"
    and "bridge_endpoint r \<Longrightarrow> P (handleBridgeSocket L E pid ms r (seg r 2) sv)"
    and "bridge_endpoint r \<Longrightarrow> P (handleRevokeDevice L E r (seg r 2) (seg r 4) sv)"
    and "device_endpoint r \<Longrightarrow> P (handleFetchMailbox L E r (seg r 2) (seg r 4) sv)"
    and "device_endpoint r \<Longrightarrow> P (handleAckMailbox L E r (seg r 2) (seg r 4) sv)"
    and "device_endpoint r \<Longrightarrow> P (handleDeviceSocket L E pid ms r (seg r 2) (seg r 4) sv)"
    and "submit_endpoint r \<Longrightarrow> P (handleSubmitPairingClaim L E r (seg r 2) sv)"
    and "bridge_endpoint r \<Longrightarrow> P (handleListPairingClaims L E r (seg r 2) sv)"
    and "bridge_endpoint r \<Longrightarrow> P (handleCompletePairingClaim L E r (seg r 2) (seg r 4) sv)"
    and "result_endpoint r \<Longrightarrow> P (handleGetPairingResult L E r (seg r 2) (seg r 4) sv)"
    and "P ((404, PlainBody ''404 page not found''), sv)"
  shows "P (ServeHTTP L E pid ms r sv)"
  unfolding ServeHTTP_def Let_def
  by (intro if_rule[where P = P]; rule assms;
      (simp only: health_endpoint_def provision_endpoint_def activation_endpoint_def bridge_endpoint_def
        device_endpoint_def submit_endpoint_def result_endpoint_def Let_def; blast)?)

text \<open>The endpoint classes exclude each other, so a request is checked against one credential.\<close>

lemmas endpoint_defs = health_endpoint_def provision_endpoint_def activation_endpoint_def bridge_endpoint_def
  device_endpoint_def submit_endpoint_def result_endpoint_def Let_def

lemma path_fields_health: "path_fields ''/healthz'' = [''healthz'']" "path_fields ''/readyz'' = [''readyz'']"
  by (simp_all add: path_fields_def)

lemma classes_exclusive:
  "device_endpoint r \<Longrightarrow> \<not> bridge_endpoint r"
  "result_endpoint r \<Longrightarrow> \<not> bridge_endpoint r"
  "result_endpoint r \<Longrightarrow> \<not> device_endpoint r"
  "provision_endpoint r \<Longrightarrow> \<not> bridge_endpoint r"
  "provision_endpoint r \<Longrightarrow> \<not> device_endpoint r"
  "provision_endpoint r \<Longrightarrow> \<not> result_endpoint r"
  "activation_endpoint r \<Longrightarrow> \<not> bridge_endpoint r"
  "activation_endpoint r \<Longrightarrow> \<not> device_endpoint r"
  "activation_endpoint r \<Longrightarrow> \<not> result_endpoint r"
  "activation_endpoint r \<Longrightarrow> \<not> provision_endpoint r"
  "submit_endpoint r \<Longrightarrow> \<not> bridge_endpoint r"
  "submit_endpoint r \<Longrightarrow> \<not> device_endpoint r"
  "submit_endpoint r \<Longrightarrow> \<not> result_endpoint r"
  "submit_endpoint r \<Longrightarrow> \<not> provision_endpoint r"
  "submit_endpoint r \<Longrightarrow> \<not> activation_endpoint r"
  "health_endpoint r \<Longrightarrow> \<not> bridge_endpoint r"
  "health_endpoint r \<Longrightarrow> \<not> device_endpoint r"
  "health_endpoint r \<Longrightarrow> \<not> result_endpoint r"
  "health_endpoint r \<Longrightarrow> \<not> provision_endpoint r"
  "health_endpoint r \<Longrightarrow> \<not> activation_endpoint r"
  using path_fields_health
  by (auto simp: endpoint_defs route_path_def pathEquals_def pathPrefix_def)

definition claim_credential :: "lib \<Rightarrow> request \<Rightarrow> string \<Rightarrow> string \<Rightarrow> Server \<Rightarrow> bool" where
  "claim_credential L r routeID claimID sv \<longleftrightarrow> bearer r \<noteq> []
     \<and> (\<exists>x \<in> set (pending_pairing_claims (sv_store sv)). claim_key x = (routeID, claimID)
          \<and> cl_capability_hash x = CredentialDigest (l_sha256 L) (bearer r))"

definition provision_credential :: "lib \<Rightarrow> request \<Rightarrow> Server \<Rightarrow> bool" where
  "provision_credential L r sv \<longleftrightarrow>
     cf_ProvisionTokenDigest (sv_config sv) = CredentialDigest (l_sha256 L) (bearer r)"

definition signed_activation :: "lib \<Rightarrow> request \<Rightarrow> bool" where
  "signed_activation L r \<longleftrightarrow>
     (\<exists>i k sig. decodeJSONBody (l_decActivation L) r = Some i
        \<and> l_b64std L (ai_PublicKey i) = Some k \<and> length k = 32 \<and> l_b64std L (ai_Signature i) = Some sig
        \<and> l_verify L k (activationPayload (ai_InstallID i) (ai_PublicKey i) (ai_BridgeAuth i)
                          (ai_Timestamp i) (ai_Nonce i)) sig)"

text \<open>What each endpoint demands of the request.\<close>

definition authorized :: "lib \<Rightarrow> request \<Rightarrow> Server \<Rightarrow> bool" where
  "authorized L r sv \<longleftrightarrow>
     (if bridge_endpoint r then bridge_credential L r (seg r 2) sv
      else if device_endpoint r then device_credential L r (seg r 2) (seg r 4) sv
      else if result_endpoint r then claim_credential L r (seg r 2) (seg r 4) sv
      else if provision_endpoint r then provision_credential L r sv
      else if activation_endpoint r then signed_activation L r
      else health_endpoint r \<or> submit_endpoint r)"

lemma register_route_refused:
  "\<not> provision_credential L r sv \<Longrightarrow> refused sv (handleRegisterRoute L E r sv)"
  unfolding handleRegisterRoute_def by (rule guard_rate_refused) (simp add: provision_credential_def)

lemma activate_route_refused:
  assumes "\<not> signed_activation L r"
  shows "refused sv (handleActivateRoute L E r sv)"
  using assms unfolding handleActivateRoute_def signed_activation_def
  by (auto simp: Let_def split: prod.split option.split)

lemma pairing_result_refused:
  assumes "\<not> claim_credential L r routeID claimID sv"
  shows "refused sv (handleGetPairingResult L E r routeID claimID sv)"
proof -
  have "bearer r = [] \<or> \<not> VerifyPairingCapability (l_sha256 L) f routeID claimID (bearer r) (sv_store sv)" for f
    using assms
    by (auto simp: claim_credential_def VerifyPairingCapability_def VerifyCredential_def find_Some_iff
        split: option.splits if_splits)
  then show ?thesis
    unfolding handleGetPairingResult_def by (rule_tac guard_rate_refused) auto
qed

lemma unauthorized_no_effect:
  assumes "\<not> authorized L r sv"
  shows "refused sv (ServeHTTP L E pid ms r sv)"
  using assms
  by (rule_tac P = "refused sv" in ServeHTTP_cases)
    (simp_all add: authorized_def classes_exclusive register_route_refused activate_route_refused
      pairing_result_refused guard_bridge_refused guard_device_refused
      handleRegisterDevice_def handleStatus_def handleBridgeSocket_def handleRevokeDevice_def
      handleListPairingClaims_def handleCompletePairingClaim_def handleFetchMailbox_def
      handleAckMailbox_def handleDeviceSocket_def)

text \<open>
  C9. Every endpoint demands its credential: a bridge endpoint the digest of the bridge credential of
  that route, a device endpoint that of the device on that route, the result endpoint the claim's
  capability, route registration the provisioning token, activation a signature by the key it
  presents. Without it the request is refused: no success status, and the database, the connection
  tables and the connections are as they were, whatever the clock, the driver, the network and the
  random source do.
\<close>

theorem unauthorized_refused:
  assumes "\<not> authorized L r sv"
  shows "refused sv (ServeHTTP L E pid ms r sv)"
  using assms by (rule unauthorized_no_effect)

end
