(* ===== verification/Server_Run.thy ===== *)
theory Server_Run
  imports Server_Props
begin

text \<open>
  The relay server as a transition system: one step is a request, one message on a bridge or device
  connection, the end of a connection, a round of a connection's writer, or the periodic expiry.
  Every step acts on the database by a sequence of store operations, so the store's guarantees on
  cursors hold for the server; the theorems on frames say where a message can go.
\<close>

inductive server_step :: "Server \<Rightarrow> Server \<Rightarrow> bool" where
  request: "server_step sv (snd (ServeHTTP L E pid ms r sv))"
| bridge_message: "server_step sv (snd (bridge_frame L E routeID pid payload sv))"
| device_message: "server_step sv (snd (device_frame L E routeID deviceID pid payload sv))"
| bridge_end: "server_step sv (removeBridge routeID pid sv)"
| device_end: "server_step sv (removeDevice routeID deviceID pid
     (sv\<lparr>sv_peers := (sv_peers sv)(pid := shutdownWriter (sv_peers sv pid))\<rparr>))"
| writer: "server_step sv
     (sv\<lparr>sv_peers := (sv_peers sv)(pid := snd (writeLoop_round pick net (sv_peers sv pid)))\<rparr>)"
| expiry: "server_step sv (sv\<lparr>sv_store := snd (ExpireFrames f now (sv_store sv))\<rparr>)"


section \<open>The database below the server\<close>

abbreviation db_steps :: "Server \<Rightarrow> Server \<Rightarrow> bool" where
  "db_steps sv sv' \<equiv> store_step\<^sup>*\<^sup>* (sv_store sv) (sv_store sv')"

lemma guard_rate_db:
  assumes "\<And>sv. db_steps sv (snd (k sv))"
  shows "db_steps sv (snd (guard_rate L E op r k sv))"
  using assms[of "sv\<lparr>sv_limiter := l\<rparr>" for l]
  by (rule_tac guard_rate_cases[of L E op r k sv]) simp_all

lemma db_via:
  assumes "\<And>sv. db_steps sv (snd (k sv))" and "store_step (sv_store sv) (sv_store sv1)"
  shows "db_steps sv (snd (k sv1))"
  using assms(2,1) by (rule converse_rtranclp_into_rtranclp)

lemma guard_bridge_db:
  assumes "\<And>sv. db_steps sv (snd (k sv))"
  shows "db_steps sv (snd (guard_bridge L E op r routeID k sv))"
proof (cases rule: guard_bridge_cases[of L E op r routeID k sv])
  case (passed lim)
  show ?thesis unfolding passed(2) by (rule db_via[OF assms]) (simp add: store_step.authenticate_bridge)
qed simp

lemma guard_device_db:
  assumes "\<And>sv. db_steps sv (snd (k sv))"
  shows "db_steps sv (snd (guard_device L E op r routeID d k sv))"
proof (cases rule: guard_device_cases[of L E op r routeID d k sv])
  case (passed lim)
  show ?thesis unfolding passed(2) by (rule db_via[OF assms]) (simp add: store_step.authenticate_device)
qed simp

text \<open>Table and connection operations do not touch the database.\<close>

lemma tables_keep_store [simp]:
  "sv_store (close_peer pid c m sv) = sv_store sv"
  "sv_store (setBridge rid pid sv) = sv_store sv"
  "sv_store (removeBridge rid pid sv) = sv_store sv"
  "sv_store (setDevice rid d pid sv) = sv_store sv"
  "sv_store (removeDevice rid d pid sv) = sv_store sv"
  "sv_store (disconnectDevice rid d sv) = sv_store sv"
  by (auto simp: close_peer_def setBridge_def removeBridge_def setDevice_def removeDevice_def
      disconnectDevice_def Let_def split: option.split)

lemma tables_keep_config [simp]:
  "sv_config (close_peer pid c m sv) = sv_config sv"
  "sv_config (setBridge rid pid sv) = sv_config sv"
  "sv_config (removeBridge rid pid sv) = sv_config sv"
  "sv_config (setDevice rid d pid sv) = sv_config sv"
  "sv_config (removeDevice rid d pid sv) = sv_config sv"
  by (auto simp: close_peer_def setBridge_def removeBridge_def setDevice_def removeDevice_def
      Let_def split: option.split)

lemma delivery_keeps_store [simp]:
  "sv_store (snd (enqueue_to net pid m sv)) = sv_store sv"
  "sv_store (snd (write_to net pid m sv)) = sv_store sv"
  "sv_store (snd (deliver_online net rid d m sv)) = sv_store sv"
  "sv_store (snd (write_to_bridge net rid m sv)) = sv_store sv"
  "sv_store (snd (device_frame L E rid d pid m sv)) = sv_store sv"
proof -
  show e: "sv_store (snd (enqueue_to net pid m sv)) = sv_store sv" for pid
    by (simp add: enqueue_to_def case_prod_beta)
  show w: "sv_store (snd (write_to net pid m sv)) = sv_store sv" for net pid
    by (simp add: write_to_def case_prod_beta)
  show "sv_store (snd (deliver_online net rid d m sv)) = sv_store sv"
    using e by (auto simp: deliver_online_def split: option.split prod.split bool.split) (metis snd_conv)+
  show b: "sv_store (snd (write_to_bridge net rid m sv)) = sv_store sv" for net
    using w by (simp add: write_to_bridge_def split: option.split)
  show "sv_store (snd (device_frame L E rid d pid m sv)) = sv_store sv"
    using b by (simp add: device_frame_def case_prod_beta Let_def)
qed

lemma readDeviceFrames_store [simp]: "sv_store (readDeviceFrames L rid d pid ms sv) = sv_store sv"
proof (induction ms arbitrary: sv)
  case (Cons m ms)
  obtain E payload where m: "m = (E, payload)" by force
  obtain go sv1 where f: "device_frame L E rid d pid payload sv = (go, sv1)" by force
  then have "sv_store sv1 = sv_store sv"
    using delivery_keeps_store(5)[of L E rid d pid payload sv] by simp
  then show ?case
    using Cons[of sv1] by (simp add: m f split: bool.split)
qed simp

lemma bridge_frame_db: "db_steps sv (snd (bridge_frame L E rid pid m sv))"
proof -
  have "store_step\<^sup>*\<^sup>* st (snd (AppendFrame f rid d m now ttl mx st))" for f d now ttl mx st
    by (rule r_into_rtranclp) (rule store_step.append_frame)
  then have app: "AppendFrame f rid d m now ttl mx st = (res, st') \<Longrightarrow> store_step\<^sup>*\<^sup>* st st'"
    for f d now ttl mx st res st' by (metis snd_conv)
  have del: "deliver_online net rid d m sv = (b, sv') \<Longrightarrow> sv_store sv' = sv_store sv" for net d b sv'
    by (metis delivery_keeps_store(3) snd_conv)
  show ?thesis
    unfolding bridge_frame_def
    by (auto simp: case_prod_beta Let_def split: option.split sum.split prod.split dest: app)
      (metis app del prod.collapse)+
qed

lemma readBridgeFrames_db: "db_steps sv (readBridgeFrames L rid pid ms sv)"
proof (induction ms arbitrary: sv)
  case (Cons m ms)
  obtain E payload where m: "m = (E, payload)" by force
  obtain go sv1 where f: "bridge_frame L E rid pid payload sv = (go, sv1)" by force
  then have "db_steps sv sv1" using bridge_frame_db by (metis snd_conv)
  then show ?case
    using Cons[of sv1] by (auto simp: m f split: bool.split)
qed simp

lemma handlers_db:
  "db_steps sv (snd (handleRegisterRoute L E r sv))"
  "db_steps sv (snd (handleActivateRoute L E r sv))"
  "db_steps sv (snd (handleRegisterDevice L E r rid sv))"
  "db_steps sv (snd (handleStatus L E r rid sv))"
  "db_steps sv (snd (handleRevokeDevice L E r rid d sv))"
  "db_steps sv (snd (handleFetchMailbox L E r rid d sv))"
  "db_steps sv (snd (handleAckMailbox L E r rid d sv))"
  "db_steps sv (snd (handleSubmitPairingClaim L E r rid sv))"
  "db_steps sv (snd (handleListPairingClaims L E r rid sv))"
  "db_steps sv (snd (handleCompletePairingClaim L E r rid c sv))"
  "db_steps sv (snd (handleGetPairingResult L E r rid c sv))"
  "db_steps sv (snd (handleBridgeSocket L E pid ms r rid sv))"
  "db_steps sv (snd (handleDeviceSocket L E pid ms r rid d sv))"
proof -
  have one: "store_step st st' \<Longrightarrow> store_step\<^sup>*\<^sup>* st st'" for st st' by (rule r_into_rtranclp)
  have res: "f = (res, st') \<Longrightarrow> store_step st (snd f) \<Longrightarrow> store_step\<^sup>*\<^sup>* st st'"
    for f :: "'x \<times> Store" and res st' st by (auto intro: one)
  show "db_steps sv (snd (handleRegisterRoute L E r sv))"
    unfolding handleRegisterRoute_def
    by (rule guard_rate_db) (auto split: prod.split sum.split elim!: res intro: store_step.intros)
  show "db_steps sv (snd (handleActivateRoute L E r sv))"
    unfolding handleActivateRoute_def activationNonceSeen_def
    by (auto simp: Let_def split: prod.split sum.split option.split elim!: res intro: store_step.intros)
  show "db_steps sv (snd (handleRegisterDevice L E r rid sv))"
    unfolding handleRegisterDevice_def
    by (rule guard_bridge_db) (auto split: prod.split sum.split option.split elim!: res intro: store_step.intros)
  show "db_steps sv (snd (handleStatus L E r rid sv))"
    unfolding handleStatus_def by (rule guard_bridge_db) (auto split: sum.split)
  show "db_steps sv (snd (handleRevokeDevice L E r rid d sv))"
    unfolding handleRevokeDevice_def
    by (rule guard_bridge_db) (auto split: prod.split sum.split elim!: res intro: store_step.intros)
  show "db_steps sv (snd (handleFetchMailbox L E r rid d sv))"
    unfolding handleFetchMailbox_def
    by (rule guard_device_db) (auto split: prod.split sum.split elim!: res intro: store_step.intros)
  show "db_steps sv (snd (handleAckMailbox L E r rid d sv))"
    unfolding handleAckMailbox_def
    by (rule guard_device_db) (auto split: prod.split sum.split option.split elim!: res intro: store_step.intros)
  show "db_steps sv (snd (handleSubmitPairingClaim L E r rid sv))"
    unfolding handleSubmitPairingClaim_def
    by (rule guard_rate_db) (auto split: prod.split sum.split option.split elim!: res intro: store_step.intros)
  show "db_steps sv (snd (handleListPairingClaims L E r rid sv))"
    unfolding handleListPairingClaims_def
    by (rule guard_bridge_db) (auto split: prod.split sum.split elim!: res intro: store_step.intros)
  show "db_steps sv (snd (handleCompletePairingClaim L E r rid c sv))"
    unfolding handleCompletePairingClaim_def
    by (rule guard_bridge_db) (auto split: prod.split sum.split option.split elim!: res intro: store_step.intros)
  show "db_steps sv (snd (handleGetPairingResult L E r rid c sv))"
    unfolding handleGetPairingResult_def
    by (rule guard_rate_db) (auto split: sum.split intro: one store_step.intros)
  show "db_steps sv (snd (handleBridgeSocket L E pid ms r rid sv))"
    unfolding handleBridgeSocket_def Let_def
    using readBridgeFrames_db[of "setBridge rid pid (sv\<lparr>sv_peers := p\<rparr>)" for sv p]
    by (rule_tac guard_bridge_db) simp
  show "db_steps sv (snd (handleDeviceSocket L E pid ms r rid d sv))"
    unfolding handleDeviceSocket_def Let_def by (rule guard_device_db) auto
qed

lemma server_step_db:
  assumes "server_step sv sv'"
  shows "db_steps sv sv'"
  using assms
proof cases
  case (request L E pid ms r)
  show ?thesis unfolding request
    by (rule_tac P = "\<lambda>res. db_steps sv (snd res)" in ServeHTTP_cases) (simp_all add: handlers_db)
qed (auto simp: bridge_frame_db intro: store_step.intros r_into_rtranclp)

lemma server_steps_db: "server_step\<^sup>*\<^sup>* sv sv' \<Longrightarrow> db_steps sv sv'"
  by (induction rule: rtranclp_induct) (auto intro: rtranclp_trans dest: server_step_db)


section \<open>Acknowledgements are final\<close>

lemma guard_device_success:
  assumes "guard_device L E op r rid d k sv = ((c, b), sv')" and "\<And>e. b \<noteq> ErrorBody e"
  obtains sv0 where "k sv0 = ((c, b), sv')" and "store_step (sv_store sv) (sv_store sv0)"
proof (cases rule: guard_device_cases[of L E op r rid d k sv])
  case (passed lim)
  show ?thesis
    by (rule that[of "sv\<lparr>sv_limiter := lim, sv_store := snd (AuthenticateDevice (l_sha256 L) (e_dbf E 0) rid d
          (bearer r) (e_clk E 1) (sv_store sv))\<rparr>"])
      (use passed(2) assms in \<open>simp_all add: store_step.authenticate_device\<close>)
qed (use assms in auto)

lemma handleAckMailbox_success:
  assumes "handleAckMailbox L E r rid d sv = ((200, AckedBody n), sv')"
  obtains st where "store_step (sv_store sv) st"
    and "AckFrames (e_dbf E 1) rid d n (e_clk E 2) st = (Inr (), sv_store sv')"
  using assms unfolding handleAckMailbox_def
  by (rule guard_device_success) (auto split: option.splits prod.splits sum.splits if_splits)

lemma handleFetchMailbox_success:
  assumes "handleFetchMailbox L E r rid d sv = ((200, FramesBody fs), sv')"
  obtains st where "store_step (sv_store sv) st"
    and "FetchFrames (e_dbf E 1) rid d (parse_uint64 (rq_after r)) (atoi (rq_limit r)) (e_clk E 2) st
           = (Inr fs, sv_store sv')"
  using assms unfolding handleFetchMailbox_def
  by (rule guard_device_success) (auto split: prod.splits sum.splits)

lemma fetched_are_pending:
  assumes "FetchFrames f rid d after limit now st = (Inr fs, st')" and "x \<in> set fs"
  shows "(mf_Cursor x, mf_Envelope x) \<in> set (store_pending st (rid, d))"
proof -
  obtain y where "y \<in> set (mailbox_frames st)" "of_device rid d y" "fr_acked_at y = None"
      "mf_Cursor x = fr_cursor y" "mf_Envelope x = fr_envelope y"
    using assms by (auto simp: FetchFrames_def Let_def select_frames_def split: if_splits dest!: in_set_takeD)
  then show ?thesis by (auto simp: store_pending_def unacked_frames_def)
qed

text \<open>
  C1. Across the whole server: once a device's acknowledgement through cursor \<open>n\<close> has been answered
  with success, no later fetch of that device returns a frame at or below \<open>n\<close> that existed then,
  after any interleaving of requests, messages of other connections, writers and expiry; a frame
  with such a cursor can only be one appended since.
\<close>

theorem server_ack_final:
  assumes "wf_store (sv_store sv)"
    and "handleAckMailbox L E r rid d sv = ((200, AckedBody n), sv1)"
    and "server_step\<^sup>*\<^sup>* sv1 sv2"
    and "handleFetchMailbox L' E' r' rid d sv2 = ((200, FramesBody fs), sv3)"
  shows "\<forall>x \<in> set fs. n < mf_Cursor x \<or> next_cursor (sv_store sv) (rid, d) \<le> mf_Cursor x"
proof
  fix x assume x: "x \<in> set fs"
  obtain st0 where s0: "store_step (sv_store sv) st0"
    and ack: "AckFrames (e_dbf E 1) rid d n (e_clk E 2) st0 = (Inr (), sv_store sv1)"
    using assms(2) by (rule handleAckMailbox_success)
  obtain st2 where s2: "store_step (sv_store sv2) st2"
    and "FetchFrames (e_dbf E' 1) rid d (parse_uint64 (rq_after r')) (atoi (rq_limit r')) (e_clk E' 2) st2
           = (Inr fs, sv_store sv3)"
    using assms(4) by (rule handleFetchMailbox_success)
  then have mem: "(mf_Cursor x, mf_Envelope x) \<in> set (store_pending st2 (rid, d))"
    using x fetched_are_pending by blast
  have wf0: "wf_store st0" using wf_store_step[OF s0] assms(1) by simp
  have wf1: "wf_store (sv_store sv1)" using wf_AckFrames[OF wf0] ack by (metis snd_conv)
  have "store_step\<^sup>*\<^sup>* (sv_store sv1) st2"
    using server_steps_db[OF assms(3)] s2 by (auto intro: rtranclp.rtrancl_into_rtrancl)
  from relay_log.steps_pend_fresh[OF this wf1 mem]
  have "(mf_Cursor x, mf_Envelope x) \<in> set (store_pending (sv_store sv1) (rid, d)) \<or> next_cursor (sv_store sv1) (rid, d) \<le> mf_Cursor x"
    by simp
  moreover have sv1: "sv_store sv1 = snd (AckFrames (e_dbf E 1) rid d n (e_clk E 2) st0)"
    and "\<not> e_dbf E 1 0" using ack by (auto simp: AckFrames_def split: if_splits)
  then have "(mf_Cursor x, mf_Envelope x) \<notin> set (store_pending (sv_store sv1) (rid, d)) \<or> n < mf_Cursor x"
    by (auto simp: sv1 store_pending_def unacked_AckFrames)
  moreover have "next_cursor (sv_store sv) (rid, d) \<le> next_cursor (sv_store sv1) (rid, d)"
    using next_cursor_mono[OF s0 assms(1), of "(rid, d)"]
      next_cursor_mono[OF store_step.ack_frames[of st0 "e_dbf E 1" rid d n "e_clk E 2"] wf0, of "(rid, d)"]
      ack by simp
  ultimately show "n < mf_Cursor x \<or> next_cursor (sv_store sv) (rid, d) \<le> mf_Cursor x" by auto
qed


section \<open>Where a message can go\<close>

text \<open>Everything a connection has accepted: on the wire already, or waiting in its queue.\<close>

definition accepted :: "socketPeer \<Rightarrow> bytes list" where
  "accepted p = sp_wire p @ (case sp_sendCh p of None \<Rightarrow> [] | Some q \<Rightarrow> q)"

lemma accepted_ops [simp]:
  "accepted (closePeer c m p) = accepted p" "accepted (shutdownWriter p) = accepted p"
  "accepted (p\<lparr>sp_drops := n\<rparr>) = accepted p" "accepted (p\<lparr>sp_closed := c'\<rparr>) = accepted p"
  by (auto simp: accepted_def closePeer_def shutdownWriter_def split: option.split)

lemma accepted_peer_write:
  "sp_sendCh p = None \<Longrightarrow> accepted (snd (peer_write net m p)) = accepted p @ (if fst (peer_write net m p) then [m] else [])"
  by (simp add: peer_write_def accepted_def)

lemma accepted_enqueue:
  "accepted (snd (enqueue net m p)) = accepted p @ (if fst (enqueue net m p) then [m] else [])"
  by (auto simp: enqueue_def accepted_peer_write split: option.split) (auto simp: accepted_def)

lemma closed_close_peer: "sp_closed (sv_peers (close_peer pid c m sv) pid) \<noteq> None"
  by (simp add: close_peer_def closePeer_def split: option.split)

text \<open>What delivery to a connected device does.\<close>

lemma deliver_online_spec:
  assumes "deliver_online net rid d m sv = (sent, sv')"
  shows "sv_store sv' = sv_store sv" and "sv_config sv' = sv_config sv" and "sv_bridges sv' = sv_bridges sv"
    and "accepted (sv_peers sv' x) = accepted (sv_peers sv x) @
           (if sent \<and> device_conn rid d sv = Some x then [m] else [])"
    and "sent \<Longrightarrow> device_conn rid d sv \<noteq> None \<and> sv_devices sv' = sv_devices sv"
    and "\<not> sent \<Longrightarrow> device_conn rid d sv' = None"
    and "\<not> sent \<Longrightarrow> device_conn rid d sv = Some x \<Longrightarrow> sp_closed (sv_peers sv' x) \<noteq> None"
    and "k \<noteq> deviceKey rid d \<Longrightarrow> sv_devices sv' k = sv_devices sv k"
  using assms accepted_enqueue[of net m "sv_peers sv y" for y]
  by (auto simp: deliver_online_def enqueue_to_def case_prod_beta Let_def removeDevice_def device_conn_def
      close_peer_def closePeer_def split: option.splits if_splits bool.splits prod.splits)

text \<open>
  C2. A message from a route's bridge is either delivered or accounted for, once, and to its
  destination only. A well-formed envelope names an active device of that route; it is then taken by
  that device's connection (database untouched), or else stored in that device's mailbox under a
  fresh cursor, or else the append failed, the database is unchanged and the bridge's connection is
  closed; it is never both queued and stored. A handshake reply is queued for its device or dropped,
  and never stored. Anything else closes the bridge's connection with nothing delivered. No other
  connection accepts the message.
\<close>

theorem bridge_message_delivery:
  assumes "bridge_frame L E rid pid m sv = (go, sv')"
  shows "(\<exists>d sent. (is_handshake L E rid m sv = Some d
            \<or> (\<exists>h. is_handshake L E rid m sv = None \<and> bridge_envelope L E rid m sv = Some h \<and> d = eh_DestinationID h))
          \<and> active_device (sv_store sv) rid d \<noteq> None \<and> validID d
          \<and> (\<forall>x. accepted (sv_peers sv' x) = accepted (sv_peers sv x) @
                (if sent \<and> device_conn rid d sv = Some x then [m] else []))
          \<and> (sent \<longrightarrow> device_conn rid d sv \<noteq> None \<and> sv_store sv' = sv_store sv \<and> go)
          \<and> (\<not> sent \<longrightarrow> is_handshake L E rid m sv = Some d \<longrightarrow>
                sv_store sv' = sv_store sv \<and> device_conn rid d sv' = None \<and> go)
          \<and> (\<not> sent \<longrightarrow> is_handshake L E rid m sv = None \<longrightarrow>
                (case AppendFrame (e_dbf E 2) rid d m (e_clk E 0) (cf_MailboxTTL (sv_config sv))
                        (cf_MaxMailboxBytes (sv_config sv)) (sv_store sv) of
                   (Inr _, st) \<Rightarrow> sv_store sv' = st \<and> go
                 | (Inl _, _) \<Rightarrow> sv_store sv' = sv_store sv \<and> \<not> go \<and> sp_closed (sv_peers sv' pid) \<noteq> None)))
     \<or> (is_handshake L E rid m sv = None \<and> bridge_envelope L E rid m sv = None
          \<and> \<not> go \<and> sv_store sv' = sv_store sv \<and> sp_closed (sv_peers sv' pid) \<noteq> None
          \<and> (\<forall>x. accepted (sv_peers sv' x) = accepted (sv_peers sv x)))"
proof (cases "is_handshake L E rid m sv")
  case (Some d)
  obtain sent sv1 where del: "deliver_online (e_net E 0) rid d m sv = (sent, sv1)" by force
  have "active_device (sv_store sv) rid d \<noteq> None" "validID d"
    using Some by (auto simp: is_handshake_def DeviceActive_def split: option.splits if_splits)
  moreover have "go" "sv' = sv1"
    using assms Some del by (simp_all add: bridge_frame_def)
  ultimately show ?thesis
    using Some deliver_online_spec[OF del]
    by (intro disjI1 exI[of _ d] exI[of _ sent]) simp
next
  case hs: None
  show ?thesis
  proof (cases "bridge_envelope L E rid m sv")
    case None
    then have "go = False" "sv' = close_peer pid 1008 ''invalid relay envelope'' sv"
      using assms hs by (simp_all add: bridge_frame_def)
    then show ?thesis
      using hs None closed_close_peer[of pid 1008 "''invalid relay envelope''" sv]
      by (simp add: close_peer_def)
  next
    case (Some h)
    let ?d = "eh_DestinationID h"
    obtain sent sv1 where del: "(if has_prefix (eh_KeyEpochID h) ''mailbox:'' then (False, sv)
        else deliver_online (e_net E 0) rid ?d m sv) = (sent, sv1)" by force
    have d1: "sv_store sv1 = sv_store sv" "sv_config sv1 = sv_config sv"
      "accepted (sv_peers sv1 x) = accepted (sv_peers sv x) @ (if sent \<and> device_conn rid ?d sv = Some x then [m] else [])"
      "sent \<Longrightarrow> device_conn rid ?d sv \<noteq> None" for x
      using del deliver_online_spec[of "e_net E 0" rid ?d m sv sent sv1] by (auto split: if_splits)
    have act: "active_device (sv_store sv) rid ?d \<noteq> None" "validID ?d"
      using Some by (auto simp: bridge_envelope_def DeviceActive_def split: option.splits if_splits)
    obtain res st where app: "AppendFrame (e_dbf E 2) rid ?d m (e_clk E 0) (cf_MailboxTTL (sv_config sv))
        (cf_MaxMailboxBytes (sv_config sv)) (sv_store sv) = (res, st)" by force
    have err: "res = Inl e \<Longrightarrow> st = sv_store sv" for e
      using AppendFrame_error app by blast
    have "bridge_frame L E rid pid m sv = (if sent then (True, sv1) else case (res, st) of
         (Inl e, st) \<Rightarrow> (False, close_peer pid 1013 ''mailbox unavailable'' (sv1\<lparr>sv_store := st\<rparr>))
       | (Inr _, st) \<Rightarrow> (True, sv1\<lparr>sv_store := st\<rparr>))"
      using hs Some app d1(1,2) by (simp add: bridge_frame_def del)
    then show ?thesis
      using assms hs Some act d1 app err
        closed_close_peer[of pid 1013 "''mailbox unavailable''" "sv1\<lparr>sv_store := st\<rparr>"]
      by (intro disjI1 exI[of _ ?d] exI[of _ sent])
        (auto simp: close_peer_def split: sum.splits if_splits)
  qed
qed

text \<open>
  A message from a device never touches the database and reaches at most one connection, that of
  its own route's bridge, and only when its header names that route, that device as sender and the
  bridge as destination (or it is a hello with the device's own id). When it is not delivered the
  device's connection is closed.
\<close>

theorem device_message_isolated:
  assumes "device_frame L E rid d pid m sv = (go, sv')"
    and "\<And>q. sv_bridges sv rid = Some q \<Longrightarrow> sp_sendCh (sv_peers sv q) = None"
  shows "sv_store sv' = sv_store sv \<and> sv_devices sv' = sv_devices sv \<and> sv_bridges sv' = sv_bridges sv
    \<and> (\<exists>sent. (\<forall>x. accepted (sv_peers sv' x) = accepted (sv_peers sv x) @
              (if sent \<and> sv_bridges sv rid = Some x then [m] else []))
        \<and> (sent \<longrightarrow> sv_bridges sv rid \<noteq> None \<and> go
              \<and> ((\<exists>hs. l_decHandshake L m = Some hs \<and> hh_Type hs = ''online_client_hello'' \<and> hh_DeviceID hs = d)
                 \<or> (\<exists>h. l_decEnvelope L m = Some h \<and> eh_RouteID h = rid \<and> eh_SenderID h = d
                        \<and> eh_DestinationID h = ''bridge'')))
        \<and> (\<not> sent \<longrightarrow> sp_closed (sv_peers sv' pid) \<noteq> None))"
proof -
  obtain ok sv1 where w: "write_to_bridge (e_net E 0) rid m sv = (ok, sv1)" by force
  have w1: "sv_store sv1 = sv_store sv" "sv_devices sv1 = sv_devices sv" "sv_bridges sv1 = sv_bridges sv"
    "accepted (sv_peers sv1 x) = accepted (sv_peers sv x) @ (if ok \<and> sv_bridges sv rid = Some x then [m] else [])"
    "ok \<Longrightarrow> sv_bridges sv rid \<noteq> None" for x
    using w assms(2) accepted_peer_write
    by (auto simp: write_to_bridge_def write_to_def case_prod_beta Let_def split: option.splits if_splits)
  define hello where "hello = (case l_decHandshake L m of None \<Rightarrow> False
    | Some hs \<Rightarrow> hh_Type hs = ''online_client_hello'' \<and> hh_DeviceID hs = d)"
  define bad where "bad = (case l_decEnvelope L m of None \<Rightarrow> True
    | Some h \<Rightarrow> eh_RouteID h \<noteq> rid \<or> eh_SenderID h \<noteq> d \<or> eh_DestinationID h \<noteq> ''bridge'')"
  have r: "device_frame L E rid d pid m sv = (if hello then (True, if ok then sv1 else close_peer pid 1013 ''bridge offline'' sv1)
      else if bad then (False, close_peer pid 1008 ''invalid relay envelope'' sv)
      else (ok, if ok then sv1 else close_peer pid 1013 ''bridge offline'' sv1))"
    unfolding device_frame_def hello_def bad_def w by simp
  have h: "hello \<Longrightarrow> \<exists>hs. l_decHandshake L m = Some hs \<and> hh_Type hs = ''online_client_hello'' \<and> hh_DeviceID hs = d"
    and b: "\<not> bad \<Longrightarrow> \<exists>h. l_decEnvelope L m = Some h \<and> eh_RouteID h = rid \<and> eh_SenderID h = d
                        \<and> eh_DestinationID h = ''bridge''"
    by (auto simp: hello_def bad_def split: option.splits)
  have c: "sp_closed (sv_peers (close_peer pid k e s) pid) \<noteq> None"
    "sv_store (close_peer pid k e s) = sv_store s" "sv_devices (close_peer pid k e s) = sv_devices s"
    "sv_bridges (close_peer pid k e s) = sv_bridges s"
    "accepted (sv_peers (close_peer pid k e s) x) = accepted (sv_peers s x)" for k e s x
    by (simp_all add: closed_close_peer del: not_None_eq) (simp_all add: close_peer_def)
  show ?thesis
  proof (cases "ok \<and> (hello \<or> \<not> bad)")
    case True
    then have "go" "sv' = sv1" using r assms(1) by (auto split: if_splits)
    then show ?thesis using True w1 h b by (intro conjI exI[of _ True]) auto
  next
    case False
    then obtain k e s where "sv' = close_peer pid k e s" and "s = sv \<or> s = sv1 \<and> \<not> ok"
      using r assms(1) by (simp split: if_splits)
    then show ?thesis using w1(1-4) c by (intro conjI exI[of _ False]) auto
  qed
qed


section \<open>Revocation\<close>

lemma guard_bridge_success:
  assumes "guard_bridge L E op r rid k sv = ((c, b), sv')" and "\<And>e. b \<noteq> ErrorBody e"
  obtains sv0 where "k sv0 = ((c, b), sv')" and "store_step (sv_store sv) (sv_store sv0)"
    and "bridge_credential L r rid sv" and "sv_devices sv0 = sv_devices sv" and "sv_peers sv0 = sv_peers sv"
proof (cases rule: guard_bridge_cases[of L E op r rid k sv])
  case (passed lim)
  show ?thesis
    by (rule that[of "sv\<lparr>sv_limiter := lim, sv_store := snd (AuthenticateBridge (l_sha256 L) (e_dbf E 0) rid
          (bearer r) (e_clk E 1) (sv_store sv))\<rparr>"])
      (use passed assms in \<open>simp_all add: store_step.authenticate_bridge\<close>)
qed (use assms in auto)

lemma disconnectDevice_spec:
  "device_conn rid d (disconnectDevice rid d sv) = None"
  "device_conn rid d sv = Some q \<Longrightarrow> sp_closed (sv_peers (disconnectDevice rid d sv) q) \<noteq> None"
  "k \<noteq> deviceKey rid d \<Longrightarrow> sv_devices (disconnectDevice rid d sv) k = sv_devices sv k"
  by (auto simp: disconnectDevice_def removeDevice_def close_peer_def device_conn_def closePeer_def
      split: option.split)

lemma RevokeDevice_inactive:
  assumes "RevokeDevice f r d now st = (Inr (), st')"
  shows "active_device st' r d = None" and "store_pending st' (r, d) = []"
proof -
  let ?g = "\<lambda>x. if dev_key x = (r, d) \<and> dv_revoked_at x = None
    then x\<lparr>dv_revoked_at := Some (unix now)\<rparr> else x"
  have st': "st' = st\<lparr>route_devices := map ?g (route_devices st),
      mailbox_frames := filter (\<lambda>f. frame_key f \<noteq> (r, d)) (mailbox_frames st)\<rparr>"
    using assms by (auto simp: RevokeDevice_def split: if_splits)
  have k: "dev_key (?g x) = dev_key x" for x by (simp add: dev_key_def)
  show "active_device st' r d = None"
    by (auto simp: active_device_def st' find_None_iff_all k)
  show "store_pending st' (r, d) = []"
    by (simp add: st' store_pending_def unacked_frames_def of_device_def)
qed

lemma handleRevokeDevice_success:
  assumes "handleRevokeDevice L E r rid d sv = ((200, RevokedBody), sv')"
  obtains sv0 st where "sv_devices sv0 = sv_devices sv" and "sv_peers sv0 = sv_peers sv"
    and "bridge_credential L r rid sv"
    and "RevokeDevice (e_dbf E 1) rid d (e_clk E 2) (sv_store sv0) = (Inr (), st)"
    and "sv' = disconnectDevice rid d (sv0\<lparr>sv_store := st\<rparr>)"
  using assms unfolding handleRevokeDevice_def
  by (rule guard_bridge_success) (auto split: prod.splits sum.splits)



section \<open>A server to evaluate\<close>

text \<open>
  A server over the two-frame demo store: the bridge credential of route \<open>rt_a\<close> is the one-byte
  string 1, that of its device \<open>phone\<close> the one-byte string 2, digests are the identity; \<open>phone\<close> is
  connected as connection 0 and the bridge as connection 1. Its request limiter is switched off.
\<close>

definition demo_lib :: lib where
  "demo_lib = \<lparr>l_sha256 = id, l_verify = (\<lambda>_ _ _. True), l_b64std = (\<lambda>_. Some (replicate 32 0)),
     l_decActivation = (\<lambda>_ _. None), l_decDevice = (\<lambda>_ _. Some ''pad''), l_decThrough = (\<lambda>_ _. Some 1),
     l_decClaim = (\<lambda>_ _. None), l_decComplete = (\<lambda>_ _. None),
     l_decEnvelope = (\<lambda>b. if b = [7] then Some \<lparr>eh_RouteID = ''rt_a'', eh_SenderID = ''bridge'',
                                eh_DestinationID = ''phone'', eh_KeyEpochID = []\<rparr>
                          else Some \<lparr>eh_RouteID = ''rt_a'', eh_SenderID = ''phone'',
                                eh_DestinationID = ''bridge'', eh_KeyEpochID = []\<rparr>),
     l_decHandshake = (\<lambda>_. None), l_SplitHostPort = (\<lambda>_. None), l_ParseIP = (\<lambda>_. None),
     l_Contains = (\<lambda>_ _. False)\<rparr>"

definition demo_env :: env where
  "demo_env = \<lparr>e_clk = (\<lambda>_. 1), e_dbf = (\<lambda>_. no_faults), e_rnd = (\<lambda>_. None), e_net = (\<lambda>_. True),
               e_upgrade = True\<rparr>"

definition demo_config :: Config where
  "demo_config = \<lparr>cf_PublicEndpoint = [], cf_ProvisionTokenDigest = [], cf_MailboxTTL = minute,
     cf_MaxMailboxBytes = 100, cf_MaxFrameBytes = 100, cf_RateLimitPerMinute = 10,
     cf_ActivationRateLimitPerMinute = 6, cf_TrustedProxyNets = []\<rparr>"

definition demo_server :: Server where
  "demo_server = \<lparr>sv_store = demo_store, sv_config = demo_config,
     sv_limiter = NewRateLimiter 0 minute, sv_activationLimiter = NewRateLimiter 6 minute,
     sv_nonces = [], sv_bridges = [''rt_a'' \<mapsto> 1],
     sv_devices = [deviceKey ''rt_a'' ''phone'' \<mapsto> 0],
     sv_peers = (\<lambda>i. if i = 0 then device_peer else bridge_peer)\<rparr>"

definition demo_request :: "string \<Rightarrow> string \<Rightarrow> string \<Rightarrow> request" where
  "demo_request m p tok = \<lparr>rq_Method = m, rq_Path = p, rq_Authorization = [], rq_token = tok,
     rq_after = [], rq_limit = [], rq_RemoteAddr = ''a'', rq_CFConnectingIP = [], rq_Body = []\<rparr>"

lemma demo_allow:
  "sv_limiter sv = NewRateLimiter 0 minute \<Longrightarrow> allow_request L E op r sv = (True, sv)"
  by (simp add: allow_request_def NewRateLimiter_def NewBoundedRateLimiter_def allow_live_def Let_def)

lemma demo_limiter [simp]: "sv_limiter demo_server = NewRateLimiter 0 minute"
  by (simp add: demo_server_def)

lemmas demo_eval = guard_bridge_def guard_device_def guard_rate_def demo_allow authenticateBridge_def
  authenticateDevice_def AuthenticateBridge_def AuthenticateDevice_def active_device_def active_route_def
  demo_lib_def demo_env_def demo_store_def demo_request_def dev_key_def bearer_def has_prefix_def
  VerifyCredential_def CredentialDigest_def bytes_of_def unix_def

definition demo_acked :: "response \<times> Server" where
  "demo_acked = handleAckMailbox demo_lib demo_env (demo_request ''POST'' [] [CHR 0x02]) ''rt_a'' ''phone'' demo_server"

definition demo_fetched :: "response \<times> Server" where
  "demo_fetched = handleFetchMailbox demo_lib demo_env (demo_request ''GET'' [] [CHR 0x02]) ''rt_a'' ''phone''
     (snd demo_acked)"

lemma demo_store_of_server [simp]: "sv_store demo_server = demo_store"
  by (simp add: demo_server_def)

lemma demo_acked_result:
  "fst demo_acked = (200, AckedBody 1)" "sv_limiter (snd demo_acked) = NewRateLimiter 0 minute"
  "sv_store (snd demo_acked) = demo_store\<lparr>route_devices := map (\<lambda>y. y\<lparr>dv_last_seen_at := Some 0\<rparr>) (route_devices demo_store),
     mailbox_frames := [new_frame ''rt_a'' ''phone'' 1 [7, 7, 7] 0 minute\<lparr>fr_acked_at := Some 0\<rparr>,
                        new_frame ''rt_a'' ''phone'' 2 [8, 8] 0 minute]\<rparr>"
  by (simp_all add: demo_acked_def handleAckMailbox_def demo_eval decodeJSONBody_def AckFrames_def of_device_def
      new_frame_def frame_key_def)

lemma demo_fetched_result:
  "fst demo_fetched = (200, FramesBody [\<lparr>mf_Cursor = 2, mf_Envelope = [8, 8], mf_ExpiresAt = 60\<rparr>])"
  by (simp add: demo_fetched_def handleFetchMailbox_def guard_device_def guard_rate_def demo_allow
        authenticateDevice_def demo_acked_result AuthenticateDevice_def active_device_def active_route_def
        demo_lib_def demo_env_def demo_store_def demo_request_def dev_key_def bearer_def has_prefix_def
        VerifyCredential_def CredentialDigest_def bytes_of_def unix_def FetchFrames_def Let_def of_device_def
        new_frame_def frame_key_def minute_def select_frames_def fetch_limit_def parse_uint64_def atoi_def)

theorem unauthorized_refused_witness:
  "refused demo_server (ServeHTTP demo_lib demo_env 5 [] (demo_request ''GET'' ''/v1/routes/rt_a/status'' ''x'') demo_server)"
  by (rule unauthorized_refused)
    (simp add: authorized_def bridge_endpoint_def demo_request_def path_fields_def route_path_def pathPrefix_def
      bridge_credential_def route_hash_def demo_server_def demo_store_def demo_lib_def bearer_def has_prefix_def
      CredentialDigest_def bytes_of_def)

theorem server_ack_final_witness:
  "1 < (2 :: nat) \<or> next_cursor demo_store (''rt_a'', ''phone'') \<le> 2"
proof -
  have a: "handleAckMailbox demo_lib demo_env (demo_request ''POST'' [] [CHR 0x02]) ''rt_a'' ''phone'' demo_server
      = ((200, AckedBody 1), snd demo_acked)"
    using demo_acked_result(1) by (simp add: demo_acked_def prod_eq_iff)
  have f: "handleFetchMailbox demo_lib demo_env (demo_request ''GET'' [] [CHR 0x02]) ''rt_a'' ''phone'' (snd demo_acked)
      = ((200, FramesBody [\<lparr>mf_Cursor = 2, mf_Envelope = [8, 8], mf_ExpiresAt = 60\<rparr>]), snd demo_fetched)"
    using demo_fetched_result by (simp add: demo_fetched_def prod_eq_iff)
  show ?thesis
    using server_ack_final[OF _ a rtranclp.rtrancl_refl f] wf_demo_store by simp
qed

theorem bridge_message_delivery_witness:
  "\<exists>sent. \<forall>x. accepted (sv_peers (snd (bridge_frame demo_lib demo_env ''rt_a'' 1 [7] demo_server)) x) =
     accepted (sv_peers demo_server x) @ (if sent \<and> x = 0 then [[7]] else [])"
proof -
  have h: "is_handshake demo_lib demo_env ''rt_a'' [7] demo_server = None"
    by (simp add: is_handshake_def demo_lib_def)
  have e: "bridge_envelope demo_lib demo_env ''rt_a'' [7] demo_server = Some \<lparr>eh_RouteID = ''rt_a'',
      eh_SenderID = ''bridge'', eh_DestinationID = ''phone'', eh_KeyEpochID = []\<rparr>"
    using demo_facts(3)
    by (simp add: bridge_envelope_def demo_lib_def demo_env_def validID_def valid_char_def DeviceActive_def demo_server_def)
  have "device_conn ''rt_a'' ''phone'' demo_server = Some 0"
    by (simp add: device_conn_def demo_server_def)
  moreover obtain go sv' where r: "bridge_frame demo_lib demo_env ''rt_a'' 1 [7] demo_server = (go, sv')" by force
  ultimately obtain sent where "\<forall>x. accepted (sv_peers sv' x) = accepted (sv_peers demo_server x) @
      (if sent \<and> Some 0 = Some x then [[7]] else [])"
    using bridge_message_delivery[OF r] h e by auto
  then show ?thesis unfolding r snd_conv by (intro exI[of _ sent]) auto
qed

theorem device_message_isolated_witness:
  "sv_store (snd (device_frame demo_lib demo_env ''rt_a'' ''phone'' 0 [8] demo_server)) = demo_store"
  using device_message_isolated[OF prod.collapse[symmetric], of demo_server "''rt_a''" demo_lib demo_env "''phone''" 0 "[8]"]
  by (simp add: demo_server_def bridge_peer_def)


end
