(* ===== verification/Activation.thy ===== *)
theory Activation
  imports Server_Run
begin

text \<open>
  Replay protection of route activation (\<^verbatim>\<open>handleActivateRoute\<close> and the nonce cache in
  \<^verbatim>\<open>relay-server/internal/relay/server.go\<close>): a nonce is refused for the five minutes after it was
  accepted, through any other traffic; and the two windows the code uses, five minutes either side for
  the timestamp and five minutes for the nonce, do not cover each other.
\<close>

section \<open>The nonce cache\<close>

definition recorded :: "string \<Rightarrow> gotime \<Rightarrow> (string \<times> gotime) list \<Rightarrow> bool" where
  "recorded key t seen \<longleftrightarrow> (\<exists>at. t \<le> at \<and> (key, at) \<in> set seen)"

lemma update_keeps:
  assumes "map_of xs key = None" and "(k, at) \<in> set xs"
  shows "(k, at) \<in> set (AList.update key v xs)"
  using assms by (induction xs) (auto split: if_splits)

lemma update_adds: "(key, v) \<in> set (AList.update key v xs)"
  by (induction xs) auto

lemma seenRecently_keeps:
  assumes "recorded k t seen" and "now \<le> t + ttl"
  shows "recorded k t (snd (seenRecently key now ttl seen))"
proof -
  let ?f = "filter (\<lambda>(k, at). \<not> at < now - ttl) seen"
  from assms obtain at where at: "t \<le> at" "(k, at) \<in> set ?f"
    by (force simp: recorded_def)
  show ?thesis
  proof (cases "map_of ?f key")
    case None
    then have "(k, at) \<in> set (AList.update key now ?f)" using at(2) by (rule update_keeps)
    then show ?thesis using None at(1) by (auto simp: seenRecently_def Let_def recorded_def simp del: set_filter)
  next
    case (Some v)
    then show ?thesis using at by (auto simp: seenRecently_def Let_def recorded_def)
  qed
qed

lemma seenRecently_dup:
  assumes "recorded key t seen" and "now \<le> t + ttl"
  shows "fst (seenRecently key now ttl seen)"
proof -
  let ?f = "filter (\<lambda>(k, at). \<not> at < now - ttl) seen"
  from assms obtain at where "(key, at) \<in> set ?f"
    by (force simp: recorded_def)
  then have "map_of ?f key \<noteq> None"
    using map_of_eq_None_iff[of ?f key] by force
  then show ?thesis by (simp add: seenRecently_def Let_def)
qed

lemma seenRecently_records:
  assumes "\<not> fst (seenRecently key now ttl seen)"
  shows "recorded key now (snd (seenRecently key now ttl seen))"
proof -
  let ?f = "filter (\<lambda>(k, at). \<not> at < now - ttl) seen"
  have "map_of ?f key = None" using assms by (simp add: seenRecently_def Let_def split: if_splits)
  then show ?thesis
    using update_adds[of key now ?f] by (auto simp: seenRecently_def Let_def recorded_def)
qed


section \<open>The handler\<close>

definition nonce_key :: "activation_input \<Rightarrow> string" where
  "nonce_key i = ai_InstallID i @ '':'' @ ai_Nonce i"

text \<open>Either the cache is untouched and the request refused, or the nonce was looked up.\<close>

lemma handleActivateRoute_nonces:
  obtains (early) "sv_nonces (snd (handleActivateRoute L E r sv)) = sv_nonces sv"
      "fst (fst (handleActivateRoute L E r sv)) \<noteq> 201"
  | (checked) i where "decodeJSONBody (l_decActivation L) r = Some i"
      "sv_nonces (snd (handleActivateRoute L E r sv)) =
         snd (seenRecently (nonce_key i) (e_clk E 4) activationNonceTTL (sv_nonces sv))"
      "fst (fst (handleActivateRoute L E r sv)) = 201 \<Longrightarrow>
         \<not> fst (seenRecently (nonce_key i) (e_clk E 4) activationNonceTTL (sv_nonces sv))"
proof (cases "fst (fst (handleActivateRoute L E r sv)) \<noteq> 201 \<and>
     sv_nonces (snd (handleActivateRoute L E r sv)) = sv_nonces sv")
  case False
  then obtain i where "decodeJSONBody (l_decActivation L) r = Some i"
    and "sv_nonces (snd (handleActivateRoute L E r sv)) =
         snd (seenRecently (nonce_key i) (e_clk E 4) activationNonceTTL (sv_nonces sv))"
    and "fst (fst (handleActivateRoute L E r sv)) = 201 \<Longrightarrow>
         \<not> fst (seenRecently (nonce_key i) (e_clk E 4) activationNonceTTL (sv_nonces sv))"
    unfolding handleActivateRoute_def activationNonceSeen_def nonce_key_def
    by (auto simp: Let_def split: prod.splits option.splits sum.splits if_splits)
  then show ?thesis by (rule checked)
qed (use early in blast)

text \<open>
  Traffic up to time \<open>T\<close>: activations whose clock readings are at most \<open>T\<close>, and any other step of
  the server that leaves the nonce cache as it is.
\<close>

inductive traffic_until :: "gotime \<Rightarrow> Server \<Rightarrow> Server \<Rightarrow> bool" for T where
  activation: "e_clk E 4 \<le> T \<Longrightarrow> traffic_until T sv (snd (handleActivateRoute L E r sv))"
| other: "server_step sv sv' \<Longrightarrow> sv_nonces sv' = sv_nonces sv \<Longrightarrow> traffic_until T sv sv'"

lemma traffic_keeps_record:
  assumes "(traffic_until T)\<^sup>*\<^sup>* sv sv'" and "recorded k t (sv_nonces sv)" and "T \<le> t + activationNonceTTL"
  shows "recorded k t (sv_nonces sv')"
  using assms
proof (induction rule: rtranclp_induct)
  case (step a b)
  then have ra: "recorded k t (sv_nonces a)" by simp
  from step(2) show ?case
  proof cases
    case (activation E L r)
    show ?thesis
    proof (cases rule: handleActivateRoute_nonces[of L E r a])
      case early
      then show ?thesis using ra activation by simp
    next
      case (checked i)
      then show ?thesis
        using seenRecently_keeps[OF ra, of "e_clk E 4" activationNonceTTL] activation assms(3) by simp
    qed
  qed (use ra in simp)
qed simp

text \<open>
  An activation nonce is used at most once within its five minutes: after a request with that
  install id and nonce has been accepted, and through any traffic since, a request with the same
  install id and nonce whose nonce check happens at most five minutes after the first one is not
  accepted, whatever else it contains.
\<close>

theorem activation_replay_rejected:
  assumes "fst (fst (handleActivateRoute L E r sv)) = 201"
    and "decodeJSONBody (l_decActivation L) r = Some i"
    and "(traffic_until T)\<^sup>*\<^sup>* (snd (handleActivateRoute L E r sv)) sv2"
    and "T \<le> e_clk E 4 + activationNonceTTL"
    and "decodeJSONBody (l_decActivation L2) r2 = Some i2"
    and "ai_InstallID i2 = ai_InstallID i" and "ai_Nonce i2 = ai_Nonce i"
    and "e_clk E2 4 \<le> e_clk E 4 + activationNonceTTL"
  shows "fst (fst (handleActivateRoute L2 E2 r2 sv2)) \<noteq> 201"
proof -
  have "recorded (nonce_key i) (e_clk E 4) (sv_nonces (snd (handleActivateRoute L E r sv)))"
  proof (cases rule: handleActivateRoute_nonces[of L E r sv])
    case (checked j)
    then show ?thesis using assms(1,2) seenRecently_records by simp
  qed (use assms(1) in simp)
  then have rec: "recorded (nonce_key i2) (e_clk E 4) (sv_nonces sv2)"
    using traffic_keeps_record[OF assms(3) _ assms(4)] assms(6,7) by (simp add: nonce_key_def)
  show ?thesis
  proof (cases rule: handleActivateRoute_nonces[of L2 E2 r2 sv2])
    case (checked j)
    then show ?thesis using assms(5) seenRecently_dup[OF rec assms(8)] by auto
  qed simp
qed


section \<open>A replay outside the nonce window\<close>

definition demo_activation :: activation_input where
  "demo_activation = \<lparr>ai_InstallID = ''mac'', ai_PublicKey = ''k'', ai_BridgeAuth = replicate 32 (CHR ''a''),
     ai_Timestamp = 300, ai_Nonce = ''n'', ai_Signature = ''s''\<rparr>"

definition act_lib :: lib where
  "act_lib = demo_lib\<lparr>l_decActivation := (\<lambda>_ _. Some demo_activation)\<rparr>"

definition act_env :: "gotime \<Rightarrow> env" where
  "act_env t = demo_env\<lparr>e_clk := (\<lambda>_. t), e_rnd := (\<lambda>_. Some [1, 2, 3])\<rparr>"

definition act_server :: Server where
  "act_server = demo_server\<lparr>sv_store := empty_store\<rparr>"

definition act_request :: request where
  "act_request = demo_request ''POST'' ''/v1/activations/routes'' []"

lemmas act_eval = handleActivateRoute_def act_lib_def act_env_def act_server_def act_request_def demo_lib_def
  demo_env_def demo_server_def demo_activation_def clientIP_def demo_request_def NewRateLimiter_def
  NewBoundedRateLimiter_def allow_live_def charge_def current_bucket_def cleanupLocked_def decodeJSONBody_def
  validID_def valid_char_def timestamp_fresh_def time_sub_def nsec_def minute_def max_duration_def
  min_duration_def activationNonceSeen_def seenRecently_def activationNonceTTL_def is_zero_def zero_time_def
  ActivateRoute_def NewID_def empty_store_def insert_route_def insert_activation_def set_bridge_auth_def

definition act_once :: "response \<times> Server" where
  "act_once = handleActivateRoute act_lib (act_env 0) act_request act_server"

lemma act_first: "fst (fst act_once) = 201"
  by (simp add: act_once_def act_eval)

lemma act_again: "fst (fst (handleActivateRoute act_lib (act_env 301000000000) act_request (snd act_once))) = 201"
  by (simp add: act_once_def act_eval)

text \<open>
  The nonce window does not cover the timestamp window. A request dated five minutes ahead stays
  acceptable for ten minutes, but its nonce is forgotten after five: here the same signed request is
  accepted at time 0 and again 301 seconds later.
\<close>

theorem activation_replay_gap:
  "\<exists>L E1 E2 r sv. e_clk E1 4 + activationNonceTTL < e_clk E2 4
     \<and> fst (fst (handleActivateRoute L E1 r sv)) = 201
     \<and> fst (fst (handleActivateRoute L E2 r (snd (handleActivateRoute L E1 r sv)))) = 201"
  using act_first act_again
  by (intro exI[of _ act_lib] exI[of _ "act_env 0"] exI[of _ "act_env 301000000000"] exI[of _ act_request]
      exI[of _ act_server]) (simp add: act_once_def act_env_def activationNonceTTL_def minute_def)

lemma act_decodes: "decodeJSONBody (l_decActivation act_lib) act_request = Some demo_activation"
  by (simp add: act_lib_def demo_lib_def decodeJSONBody_def)

theorem activation_replay_rejected_witness:
  "fst (fst (handleActivateRoute act_lib (act_env 60000000000) act_request (snd act_once))) \<noteq> 201"
  unfolding act_once_def
proof (rule activation_replay_rejected[OF _ act_decodes rtranclp.rtrancl_refl _ act_decodes refl refl])
  show "fst (fst (handleActivateRoute act_lib (act_env 0) act_request act_server)) = 201"
    using act_first by (simp add: act_once_def)
  show "0 \<le> e_clk (act_env 0) 4 + activationNonceTTL"
    "e_clk (act_env 60000000000) 4 \<le> e_clk (act_env 0) 4 + activationNonceTTL"
    by (simp_all add: activationNonceTTL_def minute_def act_env_def demo_env_def)
qed

end
