(* ===== verification/Envelope.thy ===== *)
theory Envelope
  imports Prelude
begin

text \<open>
  The encrypted envelope of the bridge (\<^verbatim>\<open>go-bridge/relay_envelope.go\<close>): the outer header and the fields
  of it that the cipher authenticates, the nonce built from a counter, the length-prefixed padding
  with the 32-bit arithmetic of the code, and sealing and opening. The cipher (ChaCha20-Poly1305 of
  \<^verbatim>\<open>golang.org/x/crypto\<close>) is a parameter; \<open>aead_ok\<close> states what its documentation promises.
\<close>

section \<open>The header\<close>

record RelayEnvelope =
  Version :: "8 word"
  RouteID :: string
  SenderID :: string
  DestinationID :: string
  ChannelGeneration :: "64 word"
  KeyEpochID :: string
  PrekeyID :: "string option"
  EpochIndex :: "64 word option"
  EpochEphemeralPublicKey :: "string option"
  PreviousEpochDigest :: "string option"
  EpochAuthTag :: "string option"
  MessageID :: string
  Counter :: "64 word"
  Ciphertext :: bytes
  CreatedAt :: string
  ExpiresAt :: string

datatype json_value = JNum nat | JStr string | JNull

definition json_str_opt :: "string option \<Rightarrow> json_value" where
  "json_str_opt x = (case x of None \<Rightarrow> JNull | Some s \<Rightarrow> JStr s)"

definition json_num_opt :: "64 word option \<Rightarrow> json_value" where
  "json_num_opt x = (case x of None \<Rightarrow> JNull | Some w \<Rightarrow> JNum (unat w))"

definition AADFields :: "RelayEnvelope \<Rightarrow> (string \<times> json_value) list" where
  "AADFields e =
     [(''version'', JNum (unat (Version e))),
      (''routeId'', JStr (RouteID e)),
      (''senderId'', JStr (SenderID e)),
      (''destinationId'', JStr (DestinationID e)),
      (''channelGeneration'', JNum (unat (ChannelGeneration e))),
      (''keyEpochId'', JStr (KeyEpochID e)),
      (''messageId'', JStr (MessageID e)),
      (''counter'', JNum (unat (Counter e))),
      (''createdAt'', JStr (CreatedAt e)),
      (''expiresAt'', JStr (ExpiresAt e)),
      (''prekeyId'', json_str_opt (PrekeyID e)),
      (''epochIndex'', json_num_opt (EpochIndex e)),
      (''epochEphemeralPublicKey'', json_str_opt (EpochEphemeralPublicKey e)),
      (''previousEpochDigest'', json_str_opt (PreviousEpochDigest e)),
      (''epochAuthTag'', json_str_opt (EpochAuthTag e))]"

text \<open>
  \<^verbatim>\<open>json.Marshal\<close> writes a map with its keys in sorted order; the encoder is a parameter that takes
  the fields in that order.
\<close>

definition EncodeAAD :: "((string \<times> json_value) list \<Rightarrow> bytes) \<Rightarrow> RelayEnvelope \<Rightarrow> bytes" where
  "EncodeAAD enc e = enc (sort_key fst (AADFields e))"


section \<open>Nonces\<close>

text \<open>\<^verbatim>\<open>binary.BigEndian\<close>.\<close>

definition put_be64 :: "64 word \<Rightarrow> bytes" where
  "put_be64 w = map (\<lambda>i. ucast (drop_bit (8 * i) w)) (rev [0..<8])"

definition put_be32 :: "32 word \<Rightarrow> bytes" where
  "put_be32 w = map (\<lambda>i. ucast (drop_bit (8 * i) w)) (rev [0..<4])"

definition get_be32 :: "bytes \<Rightarrow> 32 word" where
  "get_be32 b = of_nat (foldl (\<lambda>acc x. acc * 256 + unat x) 0 (take 4 b))"

definition CounterNonce :: "64 word \<Rightarrow> bytes" where
  "CounterNonce counter = replicate 4 0 @ put_be64 counter"


section \<open>Padding\<close>

datatype envelope_error =
    EKeyLength
  | ERandomPadding
  | EDecrypt
  | EPaddedTooShort
  | EDeclaredLength
  | EPanic

definition paddingBucketSize :: "32 word" where
  "paddingBucketSize = 256"

text \<open>
  The lengths are \<^verbatim>\<open>uint32\<close> as in the code, so a payload of 4 GiB would wrap them; the slice
  expression \<^verbatim>\<open>result[4+realLen:]\<close> panics when its bound exceeds the length of the slice. \<open>rnd\<close> is
  what \<^verbatim>\<open>rand.Read\<close> delivers for a buffer of that length. \<^verbatim>\<open>copy\<close> stops at the end of the shorter side.
\<close>

definition padded_size :: "32 word \<Rightarrow> 32 word" where
  "padded_size realLen =
     (let totalContent = 4 + realLen;
          totalContent = (if totalContent mod paddingBucketSize \<noteq> 0
                          then (totalContent div paddingBucketSize + 1) * paddingBucketSize else totalContent);
          totalContent = (if totalContent < paddingBucketSize then paddingBucketSize else totalContent)
      in if totalContent > 0xFFFFFFFF then 0xFFFFFFFF else totalContent)"

definition applyPadding :: "(nat \<Rightarrow> bytes option) \<Rightarrow> bytes \<Rightarrow> envelope_error + bytes" where
  "applyPadding rnd payload =
     (let realLen = (of_nat (length payload) :: 32 word);
          total = unat (padded_size realLen);
          body = take (total - 4) payload @ replicate (total - 4 - length payload) 0;
          from = unat (4 + realLen)
      in if total < from then Inl EPanic
         else case rnd (total - from) of
           None \<Rightarrow> Inl ERandomPadding
         | Some r \<Rightarrow> Inr (take from (put_be32 realLen @ body) @ r))"

definition removePadding :: "bytes \<Rightarrow> envelope_error + bytes" where
  "removePadding padded =
     (if length padded < 4 then Inl EPaddedTooShort
      else
        let realLen = get_be32 padded; hi = 4 + realLen
        in if hi > of_nat (length padded) then Inl EDeclaredLength
           else if unat hi < 4 \<or> length padded < unat hi then Inl EPanic
           else Inr (drop 4 (take (unat hi) padded)))"


section \<open>Sealing and opening\<close>

record aead =
  aead_Seal :: "bytes \<Rightarrow> bytes \<Rightarrow> bytes \<Rightarrow> bytes \<Rightarrow> bytes"
  aead_Open :: "bytes \<Rightarrow> bytes \<Rightarrow> bytes \<Rightarrow> bytes \<Rightarrow> bytes option"

text \<open>
  Opening inverts sealing, and a ciphertext opens only if it is what sealing gives for that key,
  nonce, associated data and plaintext.
\<close>

definition aead_ok :: "aead \<Rightarrow> bool" where
  "aead_ok A \<longleftrightarrow> (\<forall>k n a p c. aead_Open A k n a c = Some p \<longleftrightarrow> c = aead_Seal A k n a p)"

definition SealEnvelope ::
  "aead \<Rightarrow> (nat \<Rightarrow> bytes option) \<Rightarrow> bytes \<Rightarrow> 64 word \<Rightarrow> bytes \<Rightarrow> bytes \<Rightarrow> envelope_error + bytes" where
  "SealEnvelope A rnd key counter aad plaintext =
     (if length key \<noteq> 32 then Inl EKeyLength
      else case applyPadding rnd plaintext of
        Inl e \<Rightarrow> Inl e
      | Inr padded \<Rightarrow> Inr (aead_Seal A key (CounterNonce counter) aad padded))"

definition OpenEnvelope ::
  "aead \<Rightarrow> bytes \<Rightarrow> 64 word \<Rightarrow> bytes \<Rightarrow> bytes \<Rightarrow> envelope_error + bytes" where
  "OpenEnvelope A key counter aad ciphertext =
     (if length key \<noteq> 32 then Inl EKeyLength
      else case aead_Open A key (CounterNonce counter) aad ciphertext of
        None \<Rightarrow> Inl EDecrypt
      | Some padded \<Rightarrow> removePadding padded)"

definition EnvelopeDigest :: "(bytes \<Rightarrow> bytes) \<Rightarrow> bytes \<Rightarrow> bytes" where
  "EnvelopeDigest sha256 envelopeBytes = sha256 envelopeBytes"


section \<open>Lemmas\<close>

lemma length_put_be [simp]: "length (put_be32 w) = 4" "length (put_be64 v) = 8"
  by (simp_all add: put_be32_def put_be64_def)

lemma length_CounterNonce [simp]: "length (CounterNonce c) = 12"
  by (simp add: CounterNonce_def)

lemma bit_of_bytes:
  assumes "n < 8 * k"
  shows "bit (w :: 'a::len word) n \<longleftrightarrow> bit (map (\<lambda>i. ucast (drop_bit (8 * i) w) :: 8 word) [0..<k] ! (n div 8)) (n mod 8)"
proof -
  have "n div 8 < k" using assms by (simp add: less_mult_imp_div_less mult.commute)
  then show ?thesis by (simp add: bit_simps)
qed

lemma put_be64_inj: "put_be64 v = put_be64 w \<Longrightarrow> v = w"
proof -
  assume "put_be64 v = put_be64 w"
  then have "map (\<lambda>i. ucast (drop_bit (8 * i) v) :: 8 word) [0..<8] = map (\<lambda>i. ucast (drop_bit (8 * i) w)) [0..<8]"
    by (simp add: put_be64_def flip: rev_map)
  then show ?thesis
    by (intro bit_word_eqI) (use bit_of_bytes[of _ 8 v] bit_of_bytes[of _ 8 w] in auto)
qed

lemma CounterNonce_inj: "CounterNonce v = CounterNonce w \<longleftrightarrow> v = w"
  using put_be64_inj by (auto simp: CounterNonce_def)

lemma upt_4: "[0..<4] = [0, 1, 2, 3 :: nat]"
  by (simp add: upt_rec)

lemma byte_of_word: "unat (ucast (drop_bit (8 * i) (w :: 32 word)) :: 8 word) = unat w div 2 ^ (8 * i) mod 256"
  by (simp add: unsigned_ucast_eq unat_drop_bit_eq take_bit_eq_mod drop_bit_eq_div[where ?'a = nat])

lemma horner_bytes:
  fixes n :: nat
  assumes "n < 2 ^ 32"
  shows "((n div 2 ^ 24 mod 256 * 256 + n div 2 ^ 16 mod 256) * 256 + n div 2 ^ 8 mod 256) * 256 + n mod 256 = n"
proof -
  have a: "m div 256 * 256 + m mod 256 = m" for m :: nat by simp
  have d: "n div 2 ^ 16 = n div 256 div 256" "n div 2 ^ 24 = n div 256 div 256 div 256" "n div 2 ^ 8 = n div 256"
    by (simp_all add: div_mult2_eq[symmetric])
  have "n div 256 div 256 div 256 < 256" using assms by (simp add: less_mult_imp_div_less div_mult2_eq[symmetric])
  then show ?thesis unfolding d by (simp only: mod_less a)
qed

lemma get_put_be32 [simp]: "get_be32 (put_be32 w @ xs) = w"
proof -
  have "unat w < 2 ^ 32" using unsigned_less[of w] by simp
  then have "((unat w div 2 ^ 24 mod 256 * 256 + unat w div 2 ^ 16 mod 256) * 256
      + unat w div 2 ^ 8 mod 256) * 256 + unat w mod 256 = unat w"
    using horner_bytes[of "unat w"] by simp
  with byte_of_word[of 0 w] byte_of_word[of 1 w] byte_of_word[of 2 w] byte_of_word[of 3 w]
  have "foldl (\<lambda>acc x. acc * 256 + unat x) 0 (take 4 (put_be32 w @ xs)) = unat w"
    by (simp add: put_be32_def upt_4)
  then show ?thesis unfolding get_be32_def by simp
qed

lemma unat_small: "m < 4294967296 \<Longrightarrow> unat (of_nat m :: 32 word) = m"
  by (simp add: unat_of_nat)

text \<open>The length of a payload with its prefix, rounded up to whole buckets.\<close>

definition bucket :: "nat \<Rightarrow> nat" where
  "bucket n = 256 * ((n + 259) div 256)"

lemma bucket_bounds: "4 + n \<le> bucket n" "bucket n \<le> n + 259" "256 \<le> bucket n"
proof -
  have "n + 259 = 256 * ((n + 259) div 256) + (n + 259) mod 256" "(n + 259) mod 256 < 256" by simp_all
  then show "4 + n \<le> bucket n" unfolding bucket_def by linarith
  show "bucket n \<le> n + 259" unfolding bucket_def by (rule times_div_less_eq_dividend)
  have "256 div 256 \<le> (n + 259) div 256" by (rule div_le_mono) simp
  then show "256 \<le> bucket n" by (simp add: bucket_def)
qed

lemma bucket_round:
  "(4 + n) mod 256 \<noteq> 0 \<Longrightarrow> bucket n = 256 * ((4 + n) div 256 + 1)"
  "(4 + n) mod 256 = 0 \<Longrightarrow> bucket n = 4 + n"
proof -
  define q r where "q = (4 + n) div 256" and "r = (4 + n) mod 256"
  have r: "r < 256" and m: "4 + n = r + 256 * q" by (simp_all add: q_def r_def)
  have b: "bucket n = 256 * (q + (r + 255) div 256)"
  proof -
    have "n + 259 = r + 255 + 256 * q" using m by linarith
    moreover have "(r + 255 + 256 * q) div 256 = q + (r + 255) div 256" by (rule div_mult_self2) simp
    ultimately have "(n + 259) div 256 = q + (r + 255) div 256" by (simp only:)
    then show ?thesis unfolding bucket_def by (simp only:)
  qed
  show "bucket n = 256 * ((4 + n) div 256 + 1)" if "(4 + n) mod 256 \<noteq> 0"
  proof -
    have e: "r + 255 = r - 1 + 256" "r - 1 < 256" using that r unfolding r_def by linarith+
    have "(r - 1 + 256) div 256 = (r - 1) div 256 + 1" by (rule div_add_self2) simp
    then have "(r + 255) div 256 = 1" unfolding e(1) using e(2) by (simp only: div_less add_0)
    then show ?thesis using b by (simp only: q_def)
  qed
  show "bucket n = 4 + n" if "(4 + n) mod 256 = 0"
  proof -
    have "r = 0" using that by (simp add: r_def)
    then show ?thesis using b m by simp
  qed
qed

text \<open>Within 4 GiB the 32-bit size computation rounds the prefixed length up to the next bucket.\<close>

lemma padded_size_nat:
  assumes "n + 260 \<le> 4294967296"
  shows "unat (padded_size (of_nat n)) = bucket n"
proof -
  define t where "t = 4 + (of_nat n :: 32 word)"
  have t: "t = of_nat (4 + n)" by (simp add: t_def)
  have ut: "unat t = 4 + n" unfolding t by (rule unat_small) (use assms in simp)
  have u256: "unat (256 :: 32 word) = 256" by simp
  have m: "unat (t mod 256) = (4 + n) mod 256" by (simp only: unat_mod_distrib ut u256)
  have "unat (t div 256) = (4 + n) div 256" by (simp only: unat_div_distrib ut u256)
  then have d: "t div 256 = of_nat ((4 + n) div 256)" by (metis of_nat_unat ucast_id)
  define N where "N = bucket n"
  have N: "256 \<le> N" "N < 4294967296" using assms bucket_bounds[of n] unfolding N_def by linarith+
  note N1 = bucket_round(1)[of n, folded N_def] and N0 = bucket_round(2)[of n, folded N_def]
  define s where "s = (if t mod 256 \<noteq> 0 then (t div 256 + 1) * 256 else t)"
  have "s = of_nat N"
  proof (cases "(4 + n) mod 256 = 0")
    case True
    then have "unat (t mod 256) = 0" using m by (simp only:)
    then have "t mod 256 = 0" by (simp only: unat_eq_zero)
    then have "s = t" unfolding s_def by (simp only: simp_thms if_False)
    then show ?thesis unfolding t N0[OF True] .
  next
    case False
    then have "unat (t mod 256) \<noteq> 0" using m by (simp only:) simp
    then have "t mod 256 \<noteq> 0" by (simp only: unat_eq_zero) simp
    then have "s = (of_nat ((4 + n) div 256) + 1) * 256" unfolding s_def d by (simp only: simp_thms if_True)
    also have "\<dots> = of_nat (256 * ((4 + n) div 256 + 1))" by (simp only: of_nat_mult of_nat_add of_nat_1 of_nat_numeral mult.commute)
    finally show ?thesis unfolding N1[OF False] .
  qed
  then have us: "unat s = N" using unat_small[OF N(2)] by simp
  then have "\<not> s < 256" using N by (simp add: word_less_nat_alt)
  moreover have "\<not> 0xFFFFFFFF < s" using us N by (simp add: word_less_nat_alt)
  ultimately have "padded_size (of_nat n) = s"
    unfolding padded_size_def paddingBucketSize_def Let_def t_def[symmetric] s_def[symmetric]
    by (simp only: if_False)
  then show ?thesis using us N_def by simp
qed

text \<open>
  What a padded payload looks like.
\<close>

lemma applyPadding_shape:
  assumes "length p + 260 \<le> 4294967296"
  shows "applyPadding rnd p =
    (case rnd (bucket (length p) - (4 + length p)) of
       None \<Rightarrow> Inl ERandomPadding
     | Some r \<Rightarrow> Inr (put_be32 (of_nat (length p)) @ p @ r))"
proof -
  define T where "T = bucket (length p)"
  have T: "unat (padded_size (of_nat (length p))) = T" unfolding T_def using assms by (rule padded_size_nat)
  have "unat (of_nat (4 + length p) :: 32 word) = 4 + length p"
    by (rule unat_small) (use assms in linarith)
  then have F: "unat (4 + of_nat (length p) :: 32 word) = 4 + length p" by (simp only: of_nat_add of_nat_numeral)
  have le: "4 + length p \<le> T" using bucket_bounds T_def by blast
  have p: "take (T - 4) p = p" by (rule take_all) (use le in linarith)
  have tk: "take (4 + length p) (put_be32 (of_nat (length p)) @ p @ zs) = put_be32 (of_nat (length p)) @ p" for zs
    by simp
  have "\<not> T < 4 + length p" using le by linarith
  then show ?thesis
    unfolding applyPadding_def Let_def T F p T_def[symmetric] append_assoc tk by (simp split: option.split)
qed

lemma removePadding_cases:
  assumes "length x < 4294967296"
  shows "removePadding x =
    (let n = unat (get_be32 x)
     in if length x < 4 then Inl EPaddedTooShort
        else if 4294967292 \<le> n then Inl EPanic
        else if n + 4 \<le> length x then Inr (take n (drop 4 x))
        else Inl EDeclaredLength)"
proof -
  define n where "n = unat (get_be32 x)"
  have n: "n < 4294967296" using unsigned_less[of "get_be32 x"] by (simp add: n_def)
  have g: "get_be32 x = of_nat n" by (simp add: n_def)
  have len: "unat (of_nat (length x) :: 32 word) = length x" using assms by (rule unat_small)
  have hi: "unat (4 + get_be32 x) = (4 + n) mod 4294967296"
    unfolding g using unat_of_nat[of "4 + n", where ?'a = 32] by (simp only: of_nat_add of_nat_numeral) simp
  show ?thesis
  proof (cases "4294967292 \<le> n")
    case True
    have "(4 + n) mod 4294967296 = n - 4294967292"
      using True n by (subst mod_if) (simp add: le_mod_geq)
    then have h: "unat (4 + get_be32 x) < 4" using True n unfolding hi by linarith
    show ?thesis
      unfolding removePadding_def Let_def n_def[symmetric] word_less_nat_alt len using h True by simp
  next
    case False
    then have h: "unat (4 + get_be32 x) = 4 + n" unfolding hi by (intro mod_less) linarith
    show ?thesis
      unfolding removePadding_def Let_def n_def[symmetric] word_less_nat_alt len h
      using False by (simp add: drop_take add.commute)
  qed
qed

lemma padded_removes:
  assumes "length p + 260 \<le> 4294967296" and "length r = bucket (length p) - (4 + length p)"
  shows "length (put_be32 (of_nat (length p)) @ p @ r) = bucket (length p)"
    and "removePadding (put_be32 (of_nat (length p)) @ p @ r) = Inr p"
proof -
  let ?x = "put_be32 (of_nat (length p)) @ p @ r"
  show len: "length ?x = bucket (length p)"
    using assms(2) bucket_bounds(1)[of "length p"] by simp
  have small: "length ?x < 4294967296" unfolding len using bucket_bounds(2)[of "length p"] assms(1) by linarith
  have n: "unat (get_be32 ?x) = length p"
    unfolding get_put_be32 by (rule unat_small) (use assms(1) in linarith)
  have c: "\<not> length ?x < 4" "\<not> 4294967292 \<le> length p" "length p + 4 \<le> length ?x"
    unfolding len using bucket_bounds[of "length p"] assms(1) by linarith+
  have "take (length p) (drop 4 ?x) = p" by simp
  then show "removePadding ?x = Inr p"
    unfolding removePadding_cases[OF small] n Let_def using c by (simp only: if_False if_True)
qed


section \<open>Properties\<close>

text \<open>
  Padding round-trips and hides the length: for every payload shorter than 4 GiB (less a bucket),
  with a working random source, padding succeeds, the padded size is the prefixed length rounded up
  to a multiple of 256 bytes, so it depends on the payload's bucket only, and removing the padding
  gives back the payload.
\<close>

theorem padding_roundtrip:
  assumes "length p + 260 \<le> 4294967296" and "\<And>n. \<exists>b. rnd n = Some b \<and> length b = n"
  shows "\<exists>x. applyPadding rnd p = Inr x \<and> length x = 256 * ((length p + 259) div 256)
     \<and> removePadding x = Inr p"
proof -
  obtain r where r: "rnd (bucket (length p) - (4 + length p)) = Some r" "length r = bucket (length p) - (4 + length p)"
    using assms(2) by blast
  then show ?thesis
    using applyPadding_shape[OF assms(1), of rnd] padded_removes[OF assms(1) r(2)] bucket_def by simp
qed

text \<open>
  What removing the padding does on every input shorter than 4 GiB. The declared length is
  compared after a 32-bit addition, so a length field of \<open>2 ^ 32 - 4\<close> or more wraps round, passes the
  check, and the slice expression panics; every other input gives the declared bytes or an error.
\<close>

theorem remove_padding_outcomes:
  assumes "length x < 4294967296"
  shows "(length x < 4 \<longrightarrow> removePadding x = Inl EPaddedTooShort)
     \<and> (4 \<le> length x \<and> 4294967292 \<le> unat (get_be32 x) \<longrightarrow> removePadding x = Inl EPanic)
     \<and> (4 \<le> length x \<and> unat (get_be32 x) < 4294967292 \<longrightarrow>
          removePadding x = (if unat (get_be32 x) + 4 \<le> length x
             then Inr (take (unat (get_be32 x)) (drop 4 x)) else Inl EDeclaredLength))"
  unfolding removePadding_cases[OF assms] Let_def by auto

lemma AADFields_inj:
  assumes "set (AADFields e) = set (AADFields f)"
  shows "e\<lparr>Ciphertext := []\<rparr> = f\<lparr>Ciphertext := []\<rparr>"
proof -
  have d: "distinct (map fst (AADFields x))" for x by (simp add: AADFields_def word_unat_eq_iff)
  have "map_of (AADFields e) = map_of (AADFields f)"
    using assms d by (simp add: map_of_inject_set)
  then have k: "map_of (AADFields e) s = map_of (AADFields f) s" for s by simp
  have "Version e = Version f" using k[of "''version''"] by (simp add: AADFields_def word_unat_eq_iff)
  moreover have "RouteID e = RouteID f" using k[of "''routeId''"] by (simp add: AADFields_def word_unat_eq_iff)
  moreover have "SenderID e = SenderID f" using k[of "''senderId''"] by (simp add: AADFields_def word_unat_eq_iff)
  moreover have "DestinationID e = DestinationID f" using k[of "''destinationId''"] by (simp add: AADFields_def word_unat_eq_iff)
  moreover have "ChannelGeneration e = ChannelGeneration f"
    using k[of "''channelGeneration''"] by (simp add: AADFields_def word_unat_eq_iff)
  moreover have "KeyEpochID e = KeyEpochID f" using k[of "''keyEpochId''"] by (simp add: AADFields_def word_unat_eq_iff)
  moreover have "MessageID e = MessageID f" using k[of "''messageId''"] by (simp add: AADFields_def word_unat_eq_iff)
  moreover have "Counter e = Counter f" using k[of "''counter''"] by (simp add: AADFields_def word_unat_eq_iff)
  moreover have "CreatedAt e = CreatedAt f" using k[of "''createdAt''"] by (simp add: AADFields_def word_unat_eq_iff)
  moreover have "ExpiresAt e = ExpiresAt f" using k[of "''expiresAt''"] by (simp add: AADFields_def word_unat_eq_iff)
  moreover have "PrekeyID e = PrekeyID f"
    using k[of "''prekeyId''"] by (simp add: AADFields_def json_str_opt_def split: option.splits)
  moreover have "EpochIndex e = EpochIndex f"
    using k[of "''epochIndex''"] by (simp add: AADFields_def json_num_opt_def word_unat_eq_iff split: option.splits)
  moreover have "EpochEphemeralPublicKey e = EpochEphemeralPublicKey f"
    using k[of "''epochEphemeralPublicKey''"] by (simp add: AADFields_def json_str_opt_def split: option.splits)
  moreover have "PreviousEpochDigest e = PreviousEpochDigest f"
    using k[of "''previousEpochDigest''"] by (simp add: AADFields_def json_str_opt_def split: option.splits)
  moreover have "EpochAuthTag e = EpochAuthTag f"
    using k[of "''epochAuthTag''"] by (simp add: AADFields_def json_str_opt_def split: option.splits)
  ultimately show ?thesis by simp
qed

text \<open>
  The whole header is authenticated: with an injective JSON encoder, two envelopes have the same
  associated data exactly when they agree in every field but the ciphertext, so no outer field can be
  changed without the cipher noticing.
\<close>

theorem header_authenticated:
  assumes "inj enc"
  shows "EncodeAAD enc e = EncodeAAD enc f \<longleftrightarrow> e\<lparr>Ciphertext := []\<rparr> = f\<lparr>Ciphertext := []\<rparr>"
proof
  assume "EncodeAAD enc e = EncodeAAD enc f"
  then have "sort_key fst (AADFields e) = sort_key fst (AADFields f)"
    using assms by (auto simp: EncodeAAD_def dest: injD)
  then have "set (AADFields e) = set (AADFields f)" by (metis set_sort)
  then show "e\<lparr>Ciphertext := []\<rparr> = f\<lparr>Ciphertext := []\<rparr>" by (rule AADFields_inj)
next
  assume eq: "e\<lparr>Ciphertext := []\<rparr> = f\<lparr>Ciphertext := []\<rparr>"
  have "AADFields (x\<lparr>Ciphertext := []\<rparr>) = AADFields x" for x by (simp add: AADFields_def word_unat_eq_iff)
  then show "EncodeAAD enc e = EncodeAAD enc f" using eq by (metis EncodeAAD_def)
qed

text \<open>
  Sealing then opening with the same key, counter and associated data gives back the plaintext,
  and a ciphertext opens only if it is the seal, under exactly that key, nonce and associated data, of
  a padded form of what is returned.
\<close>

theorem envelope_seal_open:
  assumes "aead_ok A" and "length key = 32"
    and "length p + 260 \<le> 4294967296" and "\<And>n. \<exists>b. rnd n = Some b \<and> length b = n"
  shows "(\<exists>c. SealEnvelope A rnd key ctr aad p = Inr c \<and> OpenEnvelope A key ctr aad c = Inr p)
    \<and> (\<forall>c q. OpenEnvelope A key ctr aad c = Inr q \<longrightarrow>
          (\<exists>x. c = aead_Seal A key (CounterNonce ctr) aad x \<and> removePadding x = Inr q))"
proof -
  obtain r where r: "rnd (bucket (length p) - (4 + length p)) = Some r" "length r = bucket (length p) - (4 + length p)"
    using assms(4) by blast
  let ?x = "put_be32 (of_nat (length p)) @ p @ r"
  have pad: "applyPadding rnd p = Inr ?x" using applyPadding_shape[OF assms(3)] r(1) by simp
  note rem = padded_removes(2)[OF assms(3) r(2)]
  have op: "aead_Open A key (CounterNonce ctr) aad c = Some y \<longleftrightarrow> c = aead_Seal A key (CounterNonce ctr) aad y" for c y
    using assms(1) by (simp add: aead_ok_def)
  then have "aead_Open A key (CounterNonce ctr) aad (aead_Seal A key (CounterNonce ctr) aad ?x) = Some ?x" by blast
  then have "\<exists>c. SealEnvelope A rnd key ctr aad p = Inr c \<and> OpenEnvelope A key ctr aad c = Inr p"
    using assms(2) pad rem by (simp add: SealEnvelope_def OpenEnvelope_def)
  moreover have "OpenEnvelope A key ctr aad c = Inr q \<longrightarrow>
      (\<exists>x. c = aead_Seal A key (CounterNonce ctr) aad x \<and> removePadding x = Inr q)" for c q
    using op by (auto simp: OpenEnvelope_def split: option.splits if_splits)
  ultimately show ?thesis by blast
qed


section \<open>Witnesses\<close>

text \<open>A cipher and an encoder with the assumed laws.\<close>

definition demo_aead :: aead where
  "demo_aead = \<lparr>aead_Seal = (\<lambda>k n a p. k @ n @ a @ p),
     aead_Open = (\<lambda>k n a c. if take (length (k @ n @ a)) c = k @ n @ a then Some (drop (length (k @ n @ a)) c) else None)\<rparr>"

lemma demo_aead_ok: "aead_ok demo_aead"
  unfolding aead_ok_def
proof (intro allI)
  fix k n a p c :: bytes
  have "take m c = pre \<and> drop m c = p \<longleftrightarrow> c = pre @ p" if "m = length pre" for pre m
    using that by (metis append_eq_conv_conj)
  from this[of "length (k @ n @ a)" "k @ n @ a"]
  show "aead_Open demo_aead k n a c = Some p \<longleftrightarrow> c = aead_Seal demo_aead k n a p"
    by (auto simp: demo_aead_def simp del: length_append)
qed

definition demo_nat :: "nat \<Rightarrow> bytes" where
  "demo_nat n = replicate n 1 @ [0]"

definition demo_str :: "string \<Rightarrow> bytes" where
  "demo_str s = demo_nat (length s) @ map of_char s"

fun demo_json :: "json_value \<Rightarrow> bytes" where
  "demo_json (JNum n) = 0 # demo_nat n"
| "demo_json (JStr s) = 1 # demo_str s"
| "demo_json JNull = [2]"

fun demo_enc :: "(string \<times> json_value) list \<Rightarrow> bytes" where
  "demo_enc [] = [0]"
| "demo_enc ((k, v) # xs) = 1 # demo_str k @ demo_json v @ demo_enc xs"

lemma demo_nat_prefix: "demo_nat m @ r = demo_nat n @ r' \<Longrightarrow> m = n \<and> r = r'"
proof (induction m arbitrary: n)
  case 0
  then show ?case by (cases n) (auto simp: demo_nat_def)
next
  case (Suc m)
  then show ?case by (cases n) (auto simp: demo_nat_def)
qed

lemma demo_str_prefix: "demo_str s @ r = demo_str t @ r' \<Longrightarrow> s = t \<and> r = r'"
proof -
  assume "demo_str s @ r = demo_str t @ r'"
  then have "demo_nat (length s) @ (map of_char s @ r) = demo_nat (length t) @ (map of_char t @ r')"
    by (simp add: demo_str_def)
  from demo_nat_prefix[OF this] have "length s = length t"
    and "map (of_char :: char \<Rightarrow> 8 word) s @ r = map of_char t @ r'" by auto
  moreover have "inj (of_char :: char \<Rightarrow> 8 word)"
    by (rule injI) (simp add: of_char_byte_inj)
  ultimately show ?thesis
    by (auto simp: append_eq_append_conv inj_map_eq_map)
qed

lemma demo_json_prefix: "demo_json v @ r = demo_json w @ r' \<Longrightarrow> v = w \<and> r = r'"
  by (cases v; cases w) (auto dest: demo_nat_prefix demo_str_prefix)

lemma demo_enc_inj: "inj demo_enc"
proof (rule injI)
  show "demo_enc xs = demo_enc ys \<Longrightarrow> xs = ys" for xs ys
  proof (induction xs arbitrary: ys)
    case Nil
    then show ?case by (cases ys) auto
  next
    case (Cons x xs)
    obtain k v where x: "x = (k, v)" by force
    from Cons(2) obtain y ys' where ys: "ys = y # ys'" by (cases ys) (auto simp: x)
    obtain k' v' where y: "y = (k', v')" by force
    from Cons(2) have "demo_str k @ (demo_json v @ demo_enc xs) = demo_str k' @ (demo_json v' @ demo_enc ys')"
      by (simp add: x ys y)
    from demo_str_prefix[OF this] have "k = k'" and "demo_json v @ demo_enc xs = demo_json v' @ demo_enc ys'" by auto
    from this(1) demo_json_prefix[OF this(2)] Cons(1) show ?case by (simp add: x ys y)
  qed
qed

definition demo_header :: RelayEnvelope where
  "demo_header = \<lparr>Version = 1, RouteID = ''rt'', SenderID = ''bridge'', DestinationID = ''phone'',
     ChannelGeneration = 1, KeyEpochID = ''online:1'', PrekeyID = None, EpochIndex = None,
     EpochEphemeralPublicKey = None, PreviousEpochDigest = None, EpochAuthTag = None, MessageID = ''m'',
     Counter = 1, Ciphertext = [], CreatedAt = [], ExpiresAt = []\<rparr>"

theorem padding_roundtrip_witness:
  "\<exists>x. applyPadding (\<lambda>n. Some (replicate n 0)) [1, 2, 3] = Inr x \<and> length x = 256 \<and> removePadding x = Inr [1, 2, 3]"
  using padding_roundtrip[of "[1, 2, 3]" "\<lambda>n. Some (replicate n 0)"] by simp

theorem remove_padding_outcomes_witness: "removePadding [255, 255, 255, 255] = Inl EPanic"
  using remove_padding_outcomes[of "[255, 255, 255, 255]"] by (simp add: get_be32_def)

theorem header_authenticated_witness:
  "EncodeAAD demo_enc demo_header \<noteq> EncodeAAD demo_enc (demo_header\<lparr>Counter := 2\<rparr>)"
  using header_authenticated[OF demo_enc_inj, of demo_header "demo_header\<lparr>Counter := 2\<rparr>"]
  by (simp add: demo_header_def)

theorem envelope_seal_open_witness:
  "\<exists>c. SealEnvelope demo_aead (\<lambda>n. Some (replicate n 0)) (replicate 32 7) 1 [9] [1, 2] = Inr c
     \<and> OpenEnvelope demo_aead (replicate 32 7) 1 [9] c = Inr [1, 2]"
  using envelope_seal_open[OF demo_aead_ok, of "replicate 32 7" "[1, 2]" "\<lambda>n. Some (replicate n 0)" 1 "[9]"]
  by simp

end
