(* ===== verification/Relay_Conn.thy ===== *)
theory Relay_Conn
  imports Envelope
begin

text \<open>
  The encrypted channel to one device (\<^verbatim>\<open>RelayDeviceConn\<close> in \<^verbatim>\<open>go-bridge/relay_conn.go\<close>): one traffic key
  and one 64-bit counter per direction. Every method holds the connection's mutex, so a run is a
  sequence of whole method calls. The JSON codec, the clock and the random source are parameters; the
  function the relay client injects for sending is modelled by what it is handed.
\<close>

section \<open>State and operations\<close>

record codec =
  c_aead :: aead
  c_encAAD :: "(string \<times> json_value) list \<Rightarrow> bytes"
  c_marshal :: "RelayEnvelope \<Rightarrow> bytes option"
  c_unmarshal :: "bytes \<Rightarrow> RelayEnvelope option"
  c_rfc3339 :: "gotime \<Rightarrow> string"

record RelayDeviceConn =
  rc_deviceID :: string
  rc_bridgeID :: string
  rc_routeID :: string
  rc_generation :: "64 word"
  rc_macToIosKey :: bytes
  rc_sendCounter :: "64 word"
  rc_iosToMacKey :: bytes
  rc_recvCounter :: "64 word"
  rc_canSend :: bool
  rc_closed :: bool
  rc_lastActivity :: int

definition NewRelayDeviceConn ::
  "string \<Rightarrow> string \<Rightarrow> string \<Rightarrow> 64 word \<Rightarrow> bytes \<Rightarrow> bytes \<Rightarrow> gotime \<Rightarrow> RelayDeviceConn" where
  "NewRelayDeviceConn deviceID bridgeID routeID generation macToIosKey iosToMacKey now =
     \<lparr>rc_deviceID = deviceID, rc_bridgeID = bridgeID, rc_routeID = routeID, rc_generation = generation,
      rc_macToIosKey = macToIosKey, rc_sendCounter = 1, rc_iosToMacKey = iosToMacKey, rc_recvCounter = 1,
      rc_canSend = True, rc_closed = False, rc_lastActivity = now\<rparr>"

definition touchLastActivity :: "gotime \<Rightarrow> RelayDeviceConn \<Rightarrow> RelayDeviceConn" where
  "touchLastActivity now rc = rc\<lparr>rc_lastActivity := now\<rparr>"

definition lastActivityAt :: "RelayDeviceConn \<Rightarrow> gotime" where
  "lastActivityAt rc = rc_lastActivity rc"

definition generateRelayID :: "bytes \<Rightarrow> string \<Rightarrow> string" where
  "generateRelayID rnd pfx = pfx @ b64url_encode rnd"

definition online_epoch :: "64 word \<Rightarrow> string" where
  "online_epoch generation = ''online:'' @ show_nat (unat generation)"

definition online_envelope :: "codec \<Rightarrow> bytes \<Rightarrow> gotime \<Rightarrow> RelayDeviceConn \<Rightarrow> 64 word \<Rightarrow> RelayEnvelope" where
  "online_envelope C idRnd now rc counter =
     \<lparr>Version = 1, RouteID = rc_routeID rc, SenderID = ''bridge'', DestinationID = rc_deviceID rc,
      ChannelGeneration = rc_generation rc, KeyEpochID = online_epoch (rc_generation rc),
      PrekeyID = None, EpochIndex = None, EpochEphemeralPublicKey = None, PreviousEpochDigest = None,
      EpochAuthTag = None, MessageID = generateRelayID idRnd ''msg_'', Counter = counter, Ciphertext = [],
      CreatedAt = c_rfc3339 C now, ExpiresAt = c_rfc3339 C (now + 1440 * minute)\<rparr>"

text \<open>
  \<open>plaintext\<close> is the result of marshalling the message (\<open>None\<close> when that fails). The second component
  of the result is the counter the cipher was called with, the third what was handed to the relay
  client. The counter is consumed before sealing, and stays consumed when sealing fails.
\<close>

definition SendJSON ::
  "codec \<Rightarrow> bytes \<Rightarrow> (nat \<Rightarrow> bytes option) \<Rightarrow> gotime \<Rightarrow> bytes option \<Rightarrow> RelayDeviceConn
     \<Rightarrow> RelayDeviceConn \<times> 64 word option \<times> bytes option" where
  "SendJSON C idRnd rnd now plaintext rc =
     (if rc_closed rc \<or> \<not> rc_canSend rc then (rc, None, None)
      else case plaintext of
        None \<Rightarrow> (rc, None, None)
      | Some plaintext \<Rightarrow>
          (let rc = rc\<lparr>rc_sendCounter := rc_sendCounter rc + 1\<rparr>;
               counter = rc_sendCounter rc - 1;
               envelope = online_envelope C idRnd now rc counter
           in case SealEnvelope (c_aead C) rnd (rc_macToIosKey rc) counter (EncodeAAD (c_encAAD C) envelope) plaintext of
                Inl e \<Rightarrow> (rc, None, None)
              | Inr ciphertext \<Rightarrow> (rc, Some counter, c_marshal C (envelope\<lparr>Ciphertext := ciphertext\<rparr>))))"

datatype conn_error =
    EClosed
  | ENoInboundKey
  | EParse
  | ENotForBridge
  | EChannelMismatch
  | ECounterGap "64 word" "64 word"
  | EOpen envelope_error

definition ReceiveJSON :: "codec \<Rightarrow> bytes \<Rightarrow> RelayDeviceConn \<Rightarrow> (conn_error + bytes) \<times> RelayDeviceConn" where
  "ReceiveJSON C envelopeBytes rc =
     (if rc_closed rc then (Inl EClosed, rc)
      else if rc_iosToMacKey rc = [] then (Inl ENoInboundKey, rc)
      else case c_unmarshal C envelopeBytes of
        None \<Rightarrow> (Inl EParse, rc)
      | Some env \<Rightarrow>
          (if DestinationID env \<noteq> ''bridge'' \<and> DestinationID env \<noteq> rc_bridgeID rc
           then (Inl ENotForBridge, rc)
           else if RouteID env \<noteq> rc_routeID rc \<or> SenderID env \<noteq> rc_deviceID rc
                   \<or> ChannelGeneration env \<noteq> rc_generation rc
                   \<or> KeyEpochID env \<noteq> online_epoch (rc_generation rc)
           then (Inl EChannelMismatch, rc)
           else if Counter env \<noteq> rc_recvCounter rc
           then (Inl (ECounterGap (rc_recvCounter rc) (Counter env)), rc)
           else case OpenEnvelope (c_aead C) (rc_iosToMacKey rc) (Counter env)
                       (EncodeAAD (c_encAAD C) env) (Ciphertext env) of
                  Inl e \<Rightarrow> (Inl (EOpen e), rc)
                | Inr plaintext \<Rightarrow> (Inr plaintext, rc\<lparr>rc_recvCounter := rc_recvCounter rc + 1\<rparr>)))"

definition zeroBytes :: "bytes \<Rightarrow> bytes" where
  "zeroBytes b = map (\<lambda>_. 0) b"

definition conn_Close :: "RelayDeviceConn \<Rightarrow> RelayDeviceConn" where
  "conn_Close rc = rc\<lparr>rc_closed := True, rc_macToIosKey := zeroBytes (rc_macToIosKey rc),
     rc_iosToMacKey := zeroBytes (rc_iosToMacKey rc), rc_canSend := False\<rparr>"

definition conn_RemoteAddr :: "RelayDeviceConn \<Rightarrow> string" where
  "conn_RemoteAddr rc = ''relay:'' @ rc_deviceID rc"


section \<open>Runs\<close>

datatype conn_op =
    OpSend bytes "nat \<Rightarrow> bytes option" gotime "bytes option"
  | OpReceive bytes
  | OpTouch gotime
  | OpClose

text \<open>
  The history of a connection: the counter and key of every call to the cipher for sending, and the
  envelopes whose content was accepted, oldest first.
\<close>

record conn_run =
  run_conn :: RelayDeviceConn
  run_sealed :: "(bytes \<times> 64 word) list"
  run_accepted :: "RelayEnvelope list"

definition conn_step :: "codec \<Rightarrow> conn_op \<Rightarrow> conn_run \<Rightarrow> conn_run" where
  "conn_step C op s =
     (case op of
        OpSend idRnd rnd now plaintext \<Rightarrow>
          (case SendJSON C idRnd rnd now plaintext (run_conn s) of
             (rc, used, out) \<Rightarrow> s\<lparr>run_conn := rc, run_sealed := run_sealed s @
                (case used of None \<Rightarrow> [] | Some c \<Rightarrow> [(rc_macToIosKey rc, c)])\<rparr>)
      | OpReceive b \<Rightarrow>
          (case ReceiveJSON C b (run_conn s) of
             (Inl e, rc) \<Rightarrow> s\<lparr>run_conn := rc\<rparr>
           | (Inr p, rc) \<Rightarrow> s\<lparr>run_conn := rc, run_accepted := run_accepted s @
                (case c_unmarshal C b of None \<Rightarrow> [] | Some e \<Rightarrow> [e])\<rparr>)
      | OpTouch now \<Rightarrow> s\<lparr>run_conn := touchLastActivity now (run_conn s)\<rparr>
      | OpClose \<Rightarrow> s\<lparr>run_conn := conn_Close (run_conn s)\<rparr>)"

definition conn_runs :: "codec \<Rightarrow> conn_op list \<Rightarrow> RelayDeviceConn \<Rightarrow> conn_run" where
  "conn_runs C ops rc = fold (conn_step C) ops \<lparr>run_conn = rc, run_sealed = [], run_accepted = []\<rparr>"

text \<open>The first \<open>n\<close> counters.\<close>

definition counters :: "nat \<Rightarrow> 64 word list" where
  "counters n = map (\<lambda>i. of_nat (Suc i)) [0..<n]"

lemma counters_Suc [simp]: "counters (Suc n) = counters n @ [of_nat (Suc n)]" and counters_0 [simp]: "counters 0 = []"
  by (simp_all add: counters_def)

lemma counter_inj:
  assumes "n \<le> 2 ^ 64"
  shows "inj_on (\<lambda>i. of_nat (Suc i) :: 64 word) {0..<n}"
proof (rule inj_onI)
  fix i j assume ij: "i \<in> {0..<n}" "j \<in> {0..<n}" and "(of_nat (Suc i) :: 64 word) = of_nat (Suc j)"
  then have "(of_nat i :: 64 word) = of_nat j" by simp
  then have "unat (of_nat i :: 64 word) = unat (of_nat j :: 64 word)" by (rule arg_cong)
  then show "i = j" using ij assms by (simp add: unat_of_nat)
qed

lemma counters_distinct:
  assumes "n \<le> 2 ^ 64"
  shows "distinct (counters n)"
proof -
  have "inj_on (\<lambda>i. of_nat (Suc i) :: 64 word) {0..<n}" using assms by (rule counter_inj)
  then show ?thesis by (simp add: counters_def distinct_map)
qed
text \<open>
  The invariant: the send counter has gone up at least once per use of the cipher, in steps of one,
  all uses had the connection's key, and the accepted envelopes carry the counters from one on.
\<close>

definition seal_history :: "RelayDeviceConn \<Rightarrow> nat \<Rightarrow> conn_run \<Rightarrow> bool" where
  "seal_history rc0 n s \<longleftrightarrow> rc_sendCounter (run_conn s) = of_nat (Suc n)
     \<and> (\<exists>f. sorted_wrt (<) f \<and> set f \<subseteq> {..<n} \<and> run_sealed s = map (\<lambda>i. (rc_macToIosKey rc0, of_nat (Suc i))) f)
     \<and> (\<not> rc_closed (run_conn s) \<longrightarrow> rc_macToIosKey (run_conn s) = rc_macToIosKey rc0)"

definition accept_ok :: "codec \<Rightarrow> RelayDeviceConn \<Rightarrow> RelayEnvelope \<Rightarrow> bool" where
  "accept_ok C rc e \<longleftrightarrow>
     RouteID e = rc_routeID rc \<and> SenderID e = rc_deviceID rc \<and> ChannelGeneration e = rc_generation rc
     \<and> (DestinationID e = ''bridge'' \<or> DestinationID e = rc_bridgeID rc)
     \<and> KeyEpochID e = online_epoch (rc_generation rc)
     \<and> (\<exists>x. Ciphertext e = aead_Seal (c_aead C) (rc_iosToMacKey rc) (CounterNonce (Counter e))
                (EncodeAAD (c_encAAD C) e) x)"

definition same_channel :: "RelayDeviceConn \<Rightarrow> RelayDeviceConn \<Rightarrow> bool" where
  "same_channel a b \<longleftrightarrow> rc_routeID a = rc_routeID b \<and> rc_deviceID a = rc_deviceID b
     \<and> rc_generation a = rc_generation b \<and> rc_bridgeID a = rc_bridgeID b
     \<and> (\<not> rc_closed a \<longrightarrow> rc_iosToMacKey a = rc_iosToMacKey b)"

definition recv_history :: "codec \<Rightarrow> RelayDeviceConn \<Rightarrow> conn_run \<Rightarrow> bool" where
  "recv_history C rc0 s \<longleftrightarrow> same_channel (run_conn s) rc0
     \<and> rc_recvCounter (run_conn s) = of_nat (Suc (length (run_accepted s)))
     \<and> map Counter (run_accepted s) = counters (length (run_accepted s))
     \<and> (\<forall>e \<in> set (run_accepted s). accept_ok C rc0 e)"

definition is_send :: "conn_op \<Rightarrow> bool" where
  "is_send op = (case op of OpSend _ _ _ _ \<Rightarrow> True | _ \<Rightarrow> False)"

lemma ReceiveJSON_accept:
  assumes "ReceiveJSON C b rc = (Inr p, rc')" and "aead_ok (c_aead C)"
  obtains e where "c_unmarshal C b = Some e" and "Counter e = rc_recvCounter rc" and "\<not> rc_closed rc"
    and "rc' = rc\<lparr>rc_recvCounter := rc_recvCounter rc + 1\<rparr>" and "accept_ok C rc e"
  using assms
  by (auto simp: ReceiveJSON_def OpenEnvelope_def accept_ok_def aead_ok_def split: option.splits sum.splits if_splits)

lemma ReceiveJSON_reject: "ReceiveJSON C b rc = (Inl e, rc') \<Longrightarrow> rc' = rc"
  by (auto simp: ReceiveJSON_def split: option.splits sum.splits if_splits)

lemma SendJSON_cases:
  obtains (nothing) "SendJSON C i rnd now p rc = (rc, None, None)"
  | (failed) "SendJSON C i rnd now p rc = (rc\<lparr>rc_sendCounter := rc_sendCounter rc + 1\<rparr>, None, None)"
  | (sealed) out where "SendJSON C i rnd now p rc =
       (rc\<lparr>rc_sendCounter := rc_sendCounter rc + 1\<rparr>, Some (rc_sendCounter rc), out)" "\<not> rc_closed rc"
proof (cases "rc_closed rc \<or> \<not> rc_canSend rc \<or> p = None")
  case True
  then have "SendJSON C i rnd now p rc = (rc, None, None)" by (auto simp: SendJSON_def split: option.split)
  then show ?thesis by (rule nothing)
next
  case False
  then obtain a where a: "p = Some a" and o: "\<not> rc_closed rc" "rc_canSend rc" by auto
  let ?rc = "rc\<lparr>rc_sendCounter := rc_sendCounter rc + 1\<rparr>"
  show ?thesis
  proof (cases "SealEnvelope (c_aead C) rnd (rc_macToIosKey rc) (rc_sendCounter rc)
      (EncodeAAD (c_encAAD C) (online_envelope C i now ?rc (rc_sendCounter rc))) a")
    case (Inl e)
    then show ?thesis using failed a o by (simp add: SendJSON_def)
  next
    case (Inr c)
    then show ?thesis using sealed a o by (simp add: SendJSON_def Let_def)
  qed
qed

lemma recv_history_step:
  assumes "recv_history C rc0 s" and "aead_ok (c_aead C)"
  shows "recv_history C rc0 (conn_step C op s)"
proof (cases op)
  case (OpSend i rnd now p)
  then show ?thesis
    using assms(1)
    by (cases rule: SendJSON_cases[of C i rnd now p "run_conn s"])
      (auto simp: conn_step_def recv_history_def same_channel_def)
next
  case (OpReceive b)
  show ?thesis
  proof (cases "ReceiveJSON C b (run_conn s)")
    case (Pair res rc')
    show ?thesis
    proof (cases res)
      case (Inl e)
      then show ?thesis using assms(1) OpReceive Pair ReceiveJSON_reject[of C b "run_conn s" e rc']
        by (auto simp: conn_step_def recv_history_def)
    next
      case (Inr p)
      then obtain e where e: "c_unmarshal C b = Some e" "Counter e = rc_recvCounter (run_conn s)"
          "\<not> rc_closed (run_conn s)" "rc' = (run_conn s)\<lparr>rc_recvCounter := rc_recvCounter (run_conn s) + 1\<rparr>"
          "accept_ok C (run_conn s) e"
        using Pair assms(2) by (blast elim: ReceiveJSON_accept)
      moreover have "accept_ok C rc0 e"
        using assms(1) e(3,5) by (simp add: recv_history_def same_channel_def accept_ok_def)
      ultimately show ?thesis
        using assms(1) OpReceive Pair Inr by (auto simp: conn_step_def recv_history_def same_channel_def)
    qed
  qed
next
  case (OpTouch now)
  then show ?thesis using assms(1) by (simp add: conn_step_def recv_history_def same_channel_def touchLastActivity_def)
next
  case OpClose
  then show ?thesis using assms(1) by (simp add: conn_step_def recv_history_def same_channel_def conn_Close_def)
qed

lemma seal_history_step:
  assumes "seal_history rc0 n s"
  shows "seal_history rc0 (if is_send op \<and> rc_sendCounter (run_conn (conn_step C op s)) \<noteq> rc_sendCounter (run_conn s)
                           then Suc n else n) (conn_step C op s)"
proof (cases op)
  case (OpSend i rnd now p)
  obtain f where f: "sorted_wrt (<) f" "set f \<subseteq> {..<n}"
      "run_sealed s = map (\<lambda>i. (rc_macToIosKey rc0, of_nat (Suc i))) f"
    using assms by (auto simp: seal_history_def)
  show ?thesis
  proof (cases rule: SendJSON_cases[of C i rnd now p "run_conn s"])
    case nothing
    then show ?thesis using assms OpSend by (auto simp: conn_step_def seal_history_def)
  next
    case failed
    then show ?thesis
      using assms OpSend f by (auto simp: conn_step_def seal_history_def is_send_def intro!: exI[of _ f])
  next
    case (sealed out)
    have "sorted_wrt (<) (f @ [n])" "set (f @ [n]) \<subseteq> {..<Suc n}"
      using f by (auto simp: sorted_wrt_append)
    then show ?thesis
      using assms OpSend f sealed
      by (auto simp: conn_step_def seal_history_def is_send_def intro!: exI[of _ "f @ [n]"])
  qed
next
  case (OpReceive b)
  then show ?thesis
    using assms ReceiveJSON_reject[of C b "run_conn s"]
    by (auto simp: conn_step_def seal_history_def is_send_def ReceiveJSON_def
        split: prod.splits sum.splits option.splits if_splits)
qed (use assms in \<open>auto simp: conn_step_def seal_history_def is_send_def touchLastActivity_def conn_Close_def\<close>)

lemma seal_history_run:
  assumes "seal_history rc0 n s"
  shows "\<exists>m \<le> n + length (filter is_send ops). seal_history rc0 m (fold (conn_step C) ops s)"
  using assms
proof (induction ops arbitrary: n s)
  case (Cons op ops)
  define n' where "n' = (if is_send op \<and> rc_sendCounter (run_conn (conn_step C op s)) \<noteq> rc_sendCounter (run_conn s)
    then Suc n else n)"
  have "seal_history rc0 n' (conn_step C op s)" unfolding n'_def using Cons(2) by (rule seal_history_step)
  from Cons(1)[OF this] obtain m where "m \<le> n' + length (filter is_send ops)"
      "seal_history rc0 m (fold (conn_step C) ops (conn_step C op s))" by blast
  moreover have "n' + length (filter is_send ops) \<le> n + length (filter is_send (op # ops))"
    by (simp add: n'_def)
  ultimately show ?case by (metis fold_simps(2) order_trans)
qed auto

lemma recv_history_run:
  "recv_history C rc0 s \<Longrightarrow> aead_ok (c_aead C) \<Longrightarrow> recv_history C rc0 (fold (conn_step C) ops s)"
  by (induction ops arbitrary: s) (auto intro: recv_history_step)

lemma closed_step:
  assumes "rc_closed (run_conn s)"
  shows "run_sealed (conn_step C op s) = run_sealed s" "run_accepted (conn_step C op s) = run_accepted s"
    "rc_closed (run_conn (conn_step C op s))"
    "set (rc_macToIosKey (run_conn s)) \<subseteq> {0} \<Longrightarrow> set (rc_macToIosKey (run_conn (conn_step C op s))) \<subseteq> {0}"
    "set (rc_iosToMacKey (run_conn s)) \<subseteq> {0} \<Longrightarrow> set (rc_iosToMacKey (run_conn (conn_step C op s))) \<subseteq> {0}"
  using assms
  by (auto simp: conn_step_def SendJSON_def ReceiveJSON_def touchLastActivity_def conn_Close_def zeroBytes_def
      split: conn_op.splits)

lemma closed_run:
  assumes "rc_closed (run_conn s)" and "set (rc_macToIosKey (run_conn s)) \<subseteq> {0}"
    and "set (rc_iosToMacKey (run_conn s)) \<subseteq> {0}"
  shows "run_sealed (fold (conn_step C) ops s) = run_sealed s \<and> run_accepted (fold (conn_step C) ops s) = run_accepted s
     \<and> set (rc_macToIosKey (run_conn (fold (conn_step C) ops s))) \<subseteq> {0}
     \<and> set (rc_iosToMacKey (run_conn (fold (conn_step C) ops s))) \<subseteq> {0}"
  using assms
proof (induction ops arbitrary: s)
  case (Cons op ops)
  show ?case using Cons(1)[of "conn_step C op s"] closed_step[OF Cons(2), of C op] Cons(3,4) by simp
qed simp


section \<open>Properties\<close>

text \<open>
  No nonce is used twice with a key: in any sequence of at most \<open>2 ^ 64\<close> sends, mixed with
  receives, failures and a close, all calls to the cipher for sending use the connection's own key and
  pairwise different nonces.
\<close>

theorem no_nonce_reuse:
  assumes "length (filter is_send ops) \<le> 2 ^ 64"
  shows "distinct (map (\<lambda>(k, c). CounterNonce c)
       (run_sealed (conn_runs C ops (NewRelayDeviceConn d b r g mk ik now))))
     \<and> set (map fst (run_sealed (conn_runs C ops (NewRelayDeviceConn d b r g mk ik now)))) \<subseteq> {mk}"
proof -
  let ?rc = "NewRelayDeviceConn d b r g mk ik now"
  have "seal_history ?rc 0 \<lparr>run_conn = ?rc, run_sealed = [], run_accepted = []\<rparr>"
    by (simp add: seal_history_def NewRelayDeviceConn_def)
  from seal_history_run[OF this] obtain m where m: "m \<le> length (filter is_send ops)"
      "seal_history ?rc m (conn_runs C ops ?rc)" by (auto simp: conn_runs_def)
  then obtain f where f: "sorted_wrt (<) f" "set f \<subseteq> {..<m}"
      "run_sealed (conn_runs C ops ?rc) = map (\<lambda>i. (mk, of_nat (Suc i))) f"
    by (auto simp: seal_history_def NewRelayDeviceConn_def)
  have "inj_on (\<lambda>i. CounterNonce (of_nat (Suc i))) {..<m}"
    using counter_inj[of m] m(1) assms by (auto simp: inj_on_def CounterNonce_inj simp del: of_nat_Suc)
  then have "inj_on (\<lambda>i. CounterNonce (of_nat (Suc i))) (set f)" using f(2) by (rule inj_on_subset)
  moreover have "distinct f" using f(1) by (simp add: strict_sorted_iff)
  ultimately show ?thesis by (auto simp: f(3) comp_def distinct_map)
qed

text \<open>
  C4. Inbound messages are accepted in order and exactly once: over any sequence of operations the
  accepted envelopes carry the counters 1, 2, 3 and so on without gap or repetition, each is addressed
  to this bridge on this channel and generation, and its ciphertext is a seal under the inbound key
  with its own header as associated data. So a replayed, reordered, redirected or altered envelope is
  never accepted.
\<close>

theorem receive_in_order:
  assumes "aead_ok (c_aead C)"
  shows "map Counter (run_accepted (conn_runs C ops (NewRelayDeviceConn d b r g mk ik now)))
       = counters (length (run_accepted (conn_runs C ops (NewRelayDeviceConn d b r g mk ik now))))
    \<and> (\<forall>e \<in> set (run_accepted (conn_runs C ops (NewRelayDeviceConn d b r g mk ik now))).
          RouteID e = r \<and> SenderID e = d \<and> ChannelGeneration e = g
          \<and> (DestinationID e = ''bridge'' \<or> DestinationID e = b)
          \<and> (\<exists>x. Ciphertext e = aead_Seal (c_aead C) ik (CounterNonce (Counter e)) (EncodeAAD (c_encAAD C) e) x))"
proof -
  let ?rc = "NewRelayDeviceConn d b r g mk ik now"
  have "recv_history C ?rc \<lparr>run_conn = ?rc, run_sealed = [], run_accepted = []\<rparr>"
    by (simp add: recv_history_def same_channel_def NewRelayDeviceConn_def)
  from recv_history_run[OF this assms, of ops] show ?thesis
    by (auto simp: conn_runs_def recv_history_def accept_ok_def NewRelayDeviceConn_def)
qed

text \<open>
  Closing is final and wipes the keys: after a close, whatever is called, nothing more is sealed or
  accepted, and both keys are zero.
\<close>

theorem closed_channel_silent:
  "run_sealed (conn_runs C (ops @ OpClose # rest) rc) = run_sealed (conn_runs C ops rc)
   \<and> run_accepted (conn_runs C (ops @ OpClose # rest) rc) = run_accepted (conn_runs C ops rc)
   \<and> set (rc_macToIosKey (run_conn (conn_runs C (ops @ OpClose # rest) rc))) \<subseteq> {0}
   \<and> set (rc_iosToMacKey (run_conn (conn_runs C (ops @ OpClose # rest) rc))) \<subseteq> {0}"
proof -
  let ?s = "conn_step C OpClose (conn_runs C ops rc)"
  have "rc_closed (run_conn ?s)" "set (rc_macToIosKey (run_conn ?s)) \<subseteq> {0}" "set (rc_iosToMacKey (run_conn ?s)) \<subseteq> {0}"
    "run_sealed ?s = run_sealed (conn_runs C ops rc)" "run_accepted ?s = run_accepted (conn_runs C ops rc)"
    by (auto simp: conn_step_def conn_Close_def zeroBytes_def)
  with closed_run[of ?s C rest] show ?thesis by (simp add: conn_runs_def)
qed

text \<open>The peer's side of the channel: what a device seals as its \<open>n\<close>-th message.\<close>

definition device_message :: "codec \<Rightarrow> RelayDeviceConn \<Rightarrow> (nat \<Rightarrow> bytes option) \<Rightarrow> nat \<Rightarrow> bytes \<Rightarrow> RelayEnvelope \<Rightarrow> bool" where
  "device_message C rc rnd n p e \<longleftrightarrow>
     RouteID e = rc_routeID rc \<and> SenderID e = rc_deviceID rc \<and> ChannelGeneration e = rc_generation rc
     \<and> DestinationID e = ''bridge'' \<and> KeyEpochID e = online_epoch (rc_generation rc) \<and> Counter e = of_nat n
     \<and> SealEnvelope (c_aead C) rnd (rc_iosToMacKey rc) (Counter e) (EncodeAAD (c_encAAD C) e) p = Inr (Ciphertext e)"

text \<open>The results of receiving a list of messages.\<close>

fun receive_all :: "codec \<Rightarrow> bytes list \<Rightarrow> RelayDeviceConn \<Rightarrow> (conn_error + bytes) list" where
  "receive_all C [] rc = []"
| "receive_all C (b # bs) rc =
     (case ReceiveJSON C b rc of (res, rc') \<Rightarrow> res # receive_all C bs rc')"

lemma Seal_Open:
  assumes "aead_ok A" and "SealEnvelope A rnd k c a p = Inr ct" and "length p + 260 \<le> 4294967296"
    and "\<And>n. \<exists>b. rnd n = Some b \<and> length b = n"
  shows "OpenEnvelope A k c a ct = Inr p"
proof -
  obtain r where r: "rnd (bucket (length p) - (4 + length p)) = Some r" "length r = bucket (length p) - (4 + length p)"
    using assms(4) by blast
  let ?x = "put_be32 (of_nat (length p)) @ p @ r"
  have "applyPadding rnd p = Inr ?x" using applyPadding_shape[OF assms(3)] r(1) by simp
  moreover have "removePadding ?x = Inr p" by (rule padded_removes(2)[OF assms(3) r(2)])
  moreover have "aead_Open A k (CounterNonce c) a (aead_Seal A k (CounterNonce c) a ?x) = Some ?x"
    using assms(1) by (simp add: aead_ok_def)
  ultimately show ?thesis
    using assms(2) by (auto simp: SealEnvelope_def OpenEnvelope_def split: if_splits)
qed



section \<open>Witnesses\<close>

definition demo_zeros :: "nat \<Rightarrow> bytes option" where
  "demo_zeros n = Some (replicate n 0)"

definition demo_inbound :: RelayEnvelope where
  "demo_inbound = demo_header\<lparr>SenderID := ''phone'', DestinationID := ''bridge'', KeyEpochID := online_epoch 1,
     Ciphertext := replicate 32 7 @ CounterNonce 1 @ [5] @ put_be32 2 @ [1, 2] @ replicate 250 0\<rparr>"

definition demo_codec :: codec where
  "demo_codec = \<lparr>c_aead = demo_aead, c_encAAD = (\<lambda>_. [5]), c_marshal = (\<lambda>_. Some [1]),
     c_unmarshal = (\<lambda>_. Some demo_inbound), c_rfc3339 = (\<lambda>_. [])\<rparr>"

abbreviation demo_conn :: RelayDeviceConn where
  "demo_conn \<equiv> NewRelayDeviceConn ''phone'' ''mac'' ''rt'' 1 (replicate 32 9) (replicate 32 7) 0"

lemma demo_codec_ok: "aead_ok (c_aead demo_codec)"
  by (simp add: demo_codec_def demo_aead_ok)

lemma demo_seals:
  "SealEnvelope demo_aead demo_zeros (replicate 32 7) 1 [5] [1, 2] =
     Inr (replicate 32 7 @ CounterNonce 1 @ [5] @ put_be32 2 @ [1, 2] @ replicate 250 0)"
proof -
  have "bucket 2 = 256" by (simp add: bucket_def)
  then have "applyPadding demo_zeros [1, 2] = Inr (put_be32 2 @ [1, 2] @ replicate 250 0)"
    using applyPadding_shape[of "[1, 2]" demo_zeros] by (simp add: demo_zeros_def numeral_2_eq_2)
  then show ?thesis by (simp add: SealEnvelope_def demo_aead_def)
qed

theorem no_nonce_reuse_witness:
  "distinct (map (\<lambda>(k, c). CounterNonce c) (run_sealed
     (conn_runs demo_codec [OpSend [] demo_zeros 0 (Some [1]), OpSend [] demo_zeros 1 (Some [2])] demo_conn)))"
  using no_nonce_reuse[of "[OpSend [] demo_zeros 0 (Some [1]), OpSend [] demo_zeros 1 (Some [2])]" demo_codec]
  by (simp add: is_send_def)

theorem receive_in_order_witness:
  "map Counter (run_accepted (conn_runs demo_codec [OpReceive [1], OpReceive [1]] demo_conn)) =
     counters (length (run_accepted (conn_runs demo_codec [OpReceive [1], OpReceive [1]] demo_conn)))"
  using receive_in_order[OF demo_codec_ok] by blast


end
