(* ===== verification/Device_Trust.thy ===== *)
theory Device_Trust
  imports Prelude
begin

text \<open>
  The bridge's record of trusted devices and the authentication of their tokens:
  \<^verbatim>\<open>go-bridge/device_token.go\<close>, \<^verbatim>\<open>trusted_device_store.go\<close> (the in-memory store and the file-backed store
  on top of it), \<^verbatim>\<open>auth_gate.go\<close> and the atomic file write of \<^verbatim>\<open>core/atomicwrite.go\<close>. The two Go maps of
  the store are association lists in iteration order.
\<close>

section \<open>Device tokens\<close>

definition tokenPrefix :: string where
  "tokenPrefix = ''ccb1_''"

definition tokenByteLen :: nat where
  "tokenByteLen = 32"

definition hex_digit :: "nat \<Rightarrow> char" where
  "hex_digit n = ''0123456789abcdef'' ! (n mod 16)"

definition hex_encode :: "bytes \<Rightarrow> string" where
  "hex_encode bs = concat (map (\<lambda>b. [hex_digit (unat b div 16), hex_digit (unat b)]) bs)"

definition HashToken :: "(bytes \<Rightarrow> bytes) \<Rightarrow> string \<Rightarrow> string" where
  "HashToken sha256 plain = ''sha256:'' @ hex_encode (sha256 (bytes_of plain))"

definition GenerateDeviceToken :: "(bytes \<Rightarrow> bytes) \<Rightarrow> bytes option \<Rightarrow> (string \<times> string) option" where
  "GenerateDeviceToken sha256 rnd =
     (case rnd of
        None \<Rightarrow> None
      | Some raw \<Rightarrow> (let plain = tokenPrefix @ b64url_encode raw in Some (plain, HashToken sha256 plain)))"

text \<open>
  \<^verbatim>\<open>base64.RawURLEncoding.DecodeString\<close>: carriage returns and line feeds are skipped, the unused low
  bits of the last character are ignored.
\<close>

definition b64_value :: "char \<Rightarrow> nat option" where
  "b64_value c = (case find (\<lambda>i. b64url_alphabet ! i = c) [0..<64] of None \<Rightarrow> None | Some i \<Rightarrow> Some i)"

fun b64_values :: "string \<Rightarrow> nat list option" where
  "b64_values [] = Some []"
| "b64_values (c # cs) =
     (case b64_value c of None \<Rightarrow> None
      | Some v \<Rightarrow> (case b64_values cs of None \<Rightarrow> None | Some vs \<Rightarrow> Some (v # vs)))"

fun b64_groups :: "nat list \<Rightarrow> bytes option" where
  "b64_groups [] = Some []"
| "b64_groups [a] = None"
| "b64_groups [a, b] = Some [of_nat ((a * 64 + b) div 16)]"
| "b64_groups [a, b, c] =
     (let n = ((a * 64 + b) * 64 + c) div 4 in Some [of_nat (n div 256), of_nat n])"
| "b64_groups (a # b # c # d # rest) =
     (let n = ((a * 64 + b) * 64 + c) * 64 + d
      in case b64_groups rest of None \<Rightarrow> None
         | Some bs \<Rightarrow> Some (of_nat (n div 65536) # of_nat (n div 256) # of_nat n # bs))"

definition b64url_decode :: "string \<Rightarrow> bytes option" where
  "b64url_decode s =
     (case b64_values (filter (\<lambda>c. c \<noteq> CHR 0x0D \<and> c \<noteq> CHR 0x0A) s) of
        None \<Rightarrow> None | Some vs \<Rightarrow> b64_groups vs)"

definition ValidateTokenPrefix :: "string \<Rightarrow> bool" where
  "ValidateTokenPrefix token \<longleftrightarrow>
     has_prefix token tokenPrefix
     \<and> (case b64url_decode (drop (length tokenPrefix) token) of
          None \<Rightarrow> False | Some decoded \<Rightarrow> length decoded = tokenByteLen)"


section \<open>The in-memory store\<close>

record TrustedDeviceRecord =
  td_DeviceID :: string
  td_DisplayName :: string
  td_Platform :: string
  td_TokenHash :: string
  td_IdentityPublicKey :: string
  td_RelayEnabled :: bool
  td_RelayChannelGeneration :: "64 word"
  td_CreatedAt :: gotime
  td_LastSeenAt :: gotime
  td_LastRemoteAddress :: string
  td_RevokedAt :: "gotime option"

definition zero_record :: TrustedDeviceRecord where
  "zero_record = \<lparr>td_DeviceID = [], td_DisplayName = [], td_Platform = [], td_TokenHash = [],
     td_IdentityPublicKey = [], td_RelayEnabled = False, td_RelayChannelGeneration = 0,
     td_CreatedAt = zero_time, td_LastSeenAt = zero_time, td_LastRemoteAddress = [], td_RevokedAt = None\<rparr>"

record MemoryDeviceStore =
  ds_byID :: "(string \<times> TrustedDeviceRecord) list"
  ds_byToken :: "(string \<times> string) list"

definition NewMemoryDeviceStore :: MemoryDeviceStore where
  "NewMemoryDeviceStore = \<lparr>ds_byID = [], ds_byToken = []\<rparr>"

text \<open>Insert a record under both keys, as every writer of the store does.\<close>

definition put_device :: "TrustedDeviceRecord \<Rightarrow> MemoryDeviceStore \<Rightarrow> MemoryDeviceStore" where
  "put_device rec s = \<lparr>ds_byID = AList.update (td_DeviceID rec) rec (ds_byID s),
                       ds_byToken = AList.update (td_TokenHash rec) (td_DeviceID rec) (ds_byToken s)\<rparr>"

datatype device_error = EDeviceExists | EDeviceNotFound | EDeviceRevoked | EIdentityBound | EPersist

definition AddDevice :: "TrustedDeviceRecord \<Rightarrow> MemoryDeviceStore \<Rightarrow> device_error + MemoryDeviceStore" where
  "AddDevice rec s =
     (if map_of (ds_byID s) (td_DeviceID rec) \<noteq> None then Inl EDeviceExists else Inr (put_device rec s))"

definition same_device :: "TrustedDeviceRecord \<Rightarrow> string \<times> TrustedDeviceRecord \<Rightarrow> bool" where
  "same_device rec = (\<lambda>(deviceID, existing). deviceID = td_DeviceID rec
     \<or> (td_Platform existing = td_Platform rec \<and> td_DisplayName existing = td_DisplayName rec))"

definition ReplaceDevice :: "TrustedDeviceRecord \<Rightarrow> MemoryDeviceStore \<Rightarrow> string list \<times> MemoryDeviceStore" where
  "ReplaceDevice rec s =
     (let dropped = filter (same_device rec) (ds_byID s);
          s1 = \<lparr>ds_byID = filter (\<lambda>x. \<not> same_device rec x) (ds_byID s),
                ds_byToken = fold (\<lambda>(d, e). AList.delete (td_TokenHash e)) dropped (ds_byToken s)\<rparr>
      in (filter (\<lambda>d. d \<noteq> td_DeviceID rec) (map fst dropped), put_device rec s1))"

text \<open>\<^verbatim>\<open>s.byID[deviceID]\<close> on a missing key is the zero record, not an error.\<close>

definition LookupByDeviceID :: "string \<Rightarrow> MemoryDeviceStore \<Rightarrow> TrustedDeviceRecord option" where
  "LookupByDeviceID deviceID s = map_of (ds_byID s) deviceID"

definition LookupByTokenHash :: "string \<Rightarrow> MemoryDeviceStore \<Rightarrow> TrustedDeviceRecord option" where
  "LookupByTokenHash h s =
     (case map_of (ds_byToken s) h of
        None \<Rightarrow> None
      | Some deviceID \<Rightarrow> Some (case map_of (ds_byID s) deviceID of None \<Rightarrow> zero_record | Some rec \<Rightarrow> rec))"

definition EnableRelay :: "string \<Rightarrow> string \<Rightarrow> 64 word \<Rightarrow> MemoryDeviceStore \<Rightarrow> device_error + MemoryDeviceStore" where
  "EnableRelay deviceID identityPublicKey generation s =
     (case map_of (ds_byID s) deviceID of
        None \<Rightarrow> Inl EDeviceNotFound
      | Some rec \<Rightarrow>
          (if td_RevokedAt rec \<noteq> None then Inl EDeviceRevoked
           else if td_IdentityPublicKey rec \<noteq> [] \<and> td_IdentityPublicKey rec \<noteq> identityPublicKey
           then Inl EIdentityBound
           else Inr (s\<lparr>ds_byID := AList.update deviceID
                  (rec\<lparr>td_IdentityPublicKey := identityPublicKey, td_RelayEnabled := True,
                       td_RelayChannelGeneration := generation\<rparr>) (ds_byID s)\<rparr>)))"

definition RevokeTrusted :: "gotime \<Rightarrow> string \<Rightarrow> MemoryDeviceStore \<Rightarrow> device_error + MemoryDeviceStore" where
  "RevokeTrusted now deviceID s =
     (case map_of (ds_byID s) deviceID of
        None \<Rightarrow> Inl EDeviceNotFound
      | Some rec \<Rightarrow>
          Inr (s\<lparr>ds_byID := AList.update deviceID (rec\<lparr>td_RevokedAt := Some now\<rparr>) (ds_byID s)\<rparr>))"

definition ListDevices :: "MemoryDeviceStore \<Rightarrow> TrustedDeviceRecord list" where
  "ListDevices s = filter (\<lambda>rec. td_RevokedAt rec = None) (map snd (ds_byID s))"

definition snapshotRecords :: "MemoryDeviceStore \<Rightarrow> TrustedDeviceRecord list" where
  "snapshotRecords s = map snd (ds_byID s)"

text \<open>The clone rebuilds the token index from the records.\<close>

definition cloneSnapshot :: "MemoryDeviceStore \<Rightarrow> MemoryDeviceStore" where
  "cloneSnapshot s =
     \<lparr>ds_byID = ds_byID s,
      ds_byToken = fold (\<lambda>(d, e). AList.update (td_TokenHash e) d) (ds_byID s) []\<rparr>"


section \<open>The file-backed store\<close>

record FileDeviceStore =
  fs_disk :: "TrustedDeviceRecord list option"
  fs_mem :: MemoryDeviceStore

text \<open>
  \<^verbatim>\<open>AtomicWriteFile\<close>: create, write, sync, close, chmod and rename, each of which may fail; the file
  changes only with the rename, and the directory sync after it never reports an error.
\<close>

definition AtomicWriteFile :: "faults \<Rightarrow> 'a \<Rightarrow> 'a option \<Rightarrow> bool \<times> 'a option" where
  "AtomicWriteFile f data disk =
     (if f 0 \<or> f 1 \<or> f 2 \<or> f 3 \<or> f 4 \<or> f 5 then (False, disk) else (True, Some data))"

text \<open>
  The content of the file is the list of records that was marshalled; that the codec reads back what
  it wrote is part of that reading. A commit holds \<^verbatim>\<open>commitMu\<close> from the clone to the swap.
\<close>

definition fds_commit ::
  "faults \<Rightarrow> (MemoryDeviceStore \<Rightarrow> device_error + 'a \<times> MemoryDeviceStore) \<Rightarrow> FileDeviceStore
     \<Rightarrow> (device_error + 'a) \<times> FileDeviceStore" where
  "fds_commit f fn s =
     (case fn (cloneSnapshot (fs_mem s)) of
        Inl e \<Rightarrow> (Inl e, s)
      | Inr (r, clone) \<Rightarrow>
          (case AtomicWriteFile f (snapshotRecords clone) (fs_disk s) of
             (False, disk) \<Rightarrow> (Inl EPersist, s\<lparr>fs_disk := disk\<rparr>)
           | (True, disk) \<Rightarrow> (Inr r, \<lparr>fs_disk = disk, fs_mem = clone\<rparr>)))"

definition fds_load :: "TrustedDeviceRecord list option \<Rightarrow> MemoryDeviceStore" where
  "fds_load disk =
     (case disk of None \<Rightarrow> NewMemoryDeviceStore
      | Some records \<Rightarrow> fold put_device records NewMemoryDeviceStore)"

definition NewFileDeviceStore :: "TrustedDeviceRecord list option \<Rightarrow> FileDeviceStore" where
  "NewFileDeviceStore disk = \<lparr>fs_disk = disk, fs_mem = fds_load disk\<rparr>"

definition with_unit :: "device_error + MemoryDeviceStore \<Rightarrow> device_error + unit \<times> MemoryDeviceStore" where
  "with_unit r = (case r of Inl e \<Rightarrow> Inl e | Inr s \<Rightarrow> Inr ((), s))"

definition fds_AddDevice :: "faults \<Rightarrow> TrustedDeviceRecord \<Rightarrow> FileDeviceStore \<Rightarrow> (device_error + unit) \<times> FileDeviceStore" where
  "fds_AddDevice f rec = fds_commit f (\<lambda>clone. with_unit (AddDevice rec clone))"

definition fds_ReplaceDevice ::
  "faults \<Rightarrow> TrustedDeviceRecord \<Rightarrow> FileDeviceStore \<Rightarrow> (device_error + string list) \<times> FileDeviceStore" where
  "fds_ReplaceDevice f rec = fds_commit f (\<lambda>clone. Inr (ReplaceDevice rec clone))"

definition fds_EnableRelay ::
  "faults \<Rightarrow> string \<Rightarrow> string \<Rightarrow> 64 word \<Rightarrow> FileDeviceStore \<Rightarrow> (device_error + unit) \<times> FileDeviceStore" where
  "fds_EnableRelay f deviceID identityPublicKey generation =
     fds_commit f (\<lambda>clone. with_unit (EnableRelay deviceID identityPublicKey generation clone))"

definition fds_RevokeDevice ::
  "faults \<Rightarrow> gotime \<Rightarrow> string \<Rightarrow> FileDeviceStore \<Rightarrow> (device_error + unit) \<times> FileDeviceStore" where
  "fds_RevokeDevice f now deviceID = fds_commit f (\<lambda>clone. with_unit (RevokeTrusted now deviceID clone))"


section \<open>Authentication\<close>

datatype auth_error = MissingToken | InvalidToken | Revoked

definition ValidateDeviceAuth ::
  "(bytes \<Rightarrow> bytes) \<Rightarrow> MemoryDeviceStore \<Rightarrow> string \<Rightarrow> string \<Rightarrow> auth_error + TrustedDeviceRecord" where
  "ValidateDeviceAuth sha256 store token deviceID =
     (if token = [] then Inl MissingToken
      else if \<not> ValidateTokenPrefix token then Inl InvalidToken
      else case LookupByTokenHash (HashToken sha256 token) store of
        None \<Rightarrow> Inl InvalidToken
      | Some rec \<Rightarrow>
          (if deviceID \<noteq> [] \<and> td_DeviceID rec \<noteq> deviceID then Inl InvalidToken
           else if td_RevokedAt rec \<noteq> None then Inl Revoked
           else Inr rec))"

definition extractBearerToken :: "string \<Rightarrow> string" where
  "extractBearerToken auth =
     (if \<not> has_prefix auth ''Bearer '' then [] else trim_prefix auth ''Bearer '')"

record auth_request =
  ar_Authorization :: string
  ar_DeviceIDHeader :: string
  ar_queryToken :: string
  ar_queryDeviceID :: string
  ar_Path :: string

definition AuthenticateRequest ::
  "(bytes \<Rightarrow> bytes) \<Rightarrow> MemoryDeviceStore \<Rightarrow> auth_request \<Rightarrow> auth_error + TrustedDeviceRecord" where
  "AuthenticateRequest sha256 store r =
     (let token = extractBearerToken (ar_Authorization r);
          deviceID = ar_DeviceIDHeader r;
          token = (if token = [] then ar_queryToken r else token);
          deviceID = (if deviceID = [] then ar_queryDeviceID r else deviceID)
      in ValidateDeviceAuth sha256 store token deviceID)"

definition IsPairingEndpoint :: "auth_request \<Rightarrow> bool" where
  "IsPairingEndpoint r \<longleftrightarrow> ar_Path r = ''/pairing''"

end
