(* ===== verification/Device_Auth.thy ===== *)
theory Device_Auth
  imports Device_Trust
begin

text \<open>
  Properties of the trusted-device store: the two indexes describe the same devices and the file
  agrees with memory after every operation and every write failure, authentication succeeds exactly
  for unrevoked devices with a matching token, and generated tokens pass validation.
\<close>

section \<open>Tokens\<close>

lemma distinct_alphabet: "distinct b64url_alphabet"
  by code_simp

lemma length_alphabet: "length b64url_alphabet = 64"
  by (simp add: b64url_alphabet_def)

lemma b64_value_char [simp]: "b64_value (b64url_char n) = Some (n mod 64)"
proof -
  have "find (\<lambda>i. b64url_alphabet ! i = b64url_alphabet ! (n mod 64)) [0..<64] = Some (n mod 64)"
    unfolding find_Some_iff
    by (rule exI[of _ "n mod 64"]) (use distinct_alphabet length_alphabet in \<open>auto simp: nth_eq_iff_index_eq\<close>)
  then show ?thesis by (simp add: b64_value_def b64url_char_def)
qed

lemma b64_values_append:
  "b64_values (xs @ ys) = (case b64_values xs of None \<Rightarrow> None
     | Some vs \<Rightarrow> (case b64_values ys of None \<Rightarrow> None | Some ws \<Rightarrow> Some (vs @ ws)))"
  by (induction xs) (auto split: option.split)

lemma of_unat_byte: "of_nat (unat (a :: 8 word)) = a"
  by simp

lemma byte_parts:
  fixes a b c :: "8 word"
  defines "n \<equiv> (unat a * 256 + unat b) * 256 + unat c"
  shows "((n div 262144 mod 64 * 64 + n div 4096 mod 64) * 64 + n div 64 mod 64) * 64 + n mod 64 = n"
    and "n div 65536 = unat a" and "n div 256 = unat a * 256 + unat b"
proof -
  have lt: "unat a < 256" "unat b < 256" "unat c < 256" using unsigned_less[of a] unsigned_less[of b] unsigned_less[of c] by auto
  then have n: "n < 64 * 262144" unfolding n_def by simp
  have s: "m div 64 * 64 + m mod 64 = m" for m :: nat by simp
  have d: "n div 4096 = n div 64 div 64" "n div 262144 = n div 64 div 64 div 64"
    by (simp_all add: div_mult2_eq[symmetric])
  have "n div 64 div 64 div 64 < 64" using n by (simp add: less_mult_imp_div_less div_mult2_eq[symmetric])
  then show "((n div 262144 mod 64 * 64 + n div 4096 mod 64) * 64 + n div 64 mod 64) * 64 + n mod 64 = n"
    unfolding d by (simp only: mod_less s)
  show "n div 256 = unat a * 256 + unat b" unfolding n_def using lt by simp
  show "n div 65536 = unat a" unfolding n_def using lt by simp
qed

lemma two_byte_parts:
  fixes a b :: "8 word"
  defines "n \<equiv> (unat a * 256 + unat b) * 4"
  shows "((n div 4096 mod 64 * 64 + n div 64 mod 64) * 64 + n mod 64) div 4 = unat a * 256 + unat b"
proof -
  have lt: "unat a < 256" "unat b < 256" using unsigned_less[of a] unsigned_less[of b] by auto
  then have "n < 64 * 4096" unfolding n_def by simp
  then have "n div 64 div 64 < 64" by (simp add: less_mult_imp_div_less div_mult2_eq[symmetric])
  moreover have "n div 4096 = n div 64 div 64" by (simp add: div_mult2_eq[symmetric])
  moreover have "m div 64 * 64 + m mod 64 = m" for m :: nat by simp
  ultimately have "(n div 4096 mod 64 * 64 + n div 64 mod 64) * 64 + n mod 64 = n" by (simp only: mod_less)
  then have "((n div 4096 mod 64 * 64 + n div 64 mod 64) * 64 + n mod 64) div 4 = n div 4" by (simp only:)
  moreover have "n div 4 = unat a * 256 + unat b" by (simp add: n_def)
  ultimately show ?thesis by (simp only:)
qed

lemma of_nat_bytes:
  fixes a b c :: "8 word"
  shows "of_nat (unat a * 256 + unat b) = b" "of_nat ((unat a * 256 + unat b) * 256 + unat c) = c"
proof -
  have z: "(256 :: 8 word) = 0" by simp
  show "of_nat (unat a * 256 + unat b) = b" by (simp add: z)
  have "of_nat ((unat a * 256 + unat b) * 256 + unat c) = (of_nat (unat a * 256 + unat b) * 256 + of_nat (unat c) :: 8 word)"
    by (simp only: of_nat_add of_nat_mult of_nat_numeral)
  then show "of_nat ((unat a * 256 + unat b) * 256 + unat c) = c" by (simp only: z mult_zero_right add_0 of_unat_byte)
qed

lemmas enc = b64url_encode.simps Let_def b64_values.simps b64_value_char option.case option.inject ex_simps simp_thms

lemma b64_roundtrip_values: "\<exists>vs. b64_values (b64url_encode bs) = Some vs \<and> b64_groups vs = Some bs"
proof (induction bs rule: b64url_encode.induct)
  case (2 a)
  have "unat a < 256" using unsigned_less[of a] by simp
  then have "unat a * 16 div 64 < 64" by (simp add: less_mult_imp_div_less)
  moreover have "m div 64 * 64 + m mod 64 = m" for m :: nat by simp
  ultimately have "unat a * 16 div 64 mod 64 * 64 + unat a * 16 mod 64 = unat a * 16" by (simp only: mod_less)
  then have "(unat a * 16 div 64 mod 64 * 64 + unat a * 16 mod 64) div 16 = unat a" by (simp only:)
  then have "b64_groups [unat a * 16 div 64 mod 64, unat a * 16 mod 64] = Some [a]"
    by (simp only: b64_groups.simps of_unat_byte)
  then show ?case by (simp only: enc)
next
  case (3 a b)
  define n where "n = (unat a * 256 + unat b) * 4"
  have e: "((n div 4096 mod 64 * 64 + n div 64 mod 64) * 64 + n mod 64) div 4 = unat a * 256 + unat b"
    unfolding n_def by (rule two_byte_parts)
  have "unat b < 256" using unsigned_less[of b] by auto
  then have "(unat a * 256 + unat b) div 256 = unat a" by simp
  then have "b64_groups [n div 4096 mod 64, n div 64 mod 64, n mod 64] = Some [a, b]"
    unfolding b64_groups.simps Let_def e by (simp only: of_unat_byte of_nat_bytes)
  then show ?case unfolding b64url_encode.simps Let_def n_def[symmetric] by (simp only: enc)
next
  case (4 a b c rest)
  then obtain vs where "b64_values (b64url_encode rest) = Some vs" "b64_groups vs = Some rest" by blast
  moreover define n where "n = (unat a * 256 + unat b) * 256 + unat c"
  note e = byte_parts[of a b c, folded n_def]
  have "of_nat n = c" unfolding n_def by (rule of_nat_bytes)
  ultimately have "b64_groups (n div 262144 mod 64 # n div 4096 mod 64 # n div 64 mod 64 # n mod 64 # vs) = Some (a # b # c # rest)"
    unfolding b64_groups.simps Let_def e by (simp only: of_unat_byte of_nat_bytes option.case)
  moreover have "b64_values (b64url_encode (a # b # c # rest)) =
      Some (n div 262144 mod 64 # n div 4096 mod 64 # n div 64 mod 64 # n mod 64 # vs)"
    unfolding b64url_encode.simps Let_def n_def[symmetric] using \<open>b64_values (b64url_encode rest) = Some vs\<close>
    by (simp only: enc)
  ultimately show ?case by blast
qed simp

lemma encode_no_newline: "filter (\<lambda>c. c \<noteq> CHR 0x0D \<and> c \<noteq> CHR 0x0A) (b64url_encode bs) = b64url_encode bs"
proof -
  have "CHR 0x0D \<notin> set b64url_alphabet" "CHR 0x0A \<notin> set b64url_alphabet"
    by (simp_all add: b64url_alphabet_def)
  then show ?thesis using set_b64url_encode[of bs] by (auto simp: filter_id_conv)
qed

lemma b64url_roundtrip: "b64url_decode (b64url_encode bs) = Some bs"
  using b64_roundtrip_values[of bs] by (auto simp: b64url_decode_def encode_no_newline)

text \<open>
  A generated token always validates: from any 32 random bytes the token has the prefix and a
  payload that decodes to 32 bytes, and the stored hash is the hash the authentication computes.
\<close>

theorem generated_token_valid:
  assumes "length raw = tokenByteLen"
  shows "\<exists>plain. GenerateDeviceToken sha (Some raw) = Some (plain, HashToken sha plain)
     \<and> plain \<noteq> [] \<and> ValidateTokenPrefix plain"
  using assms b64url_roundtrip[of raw]
  by (simp add: GenerateDeviceToken_def Let_def ValidateTokenPrefix_def has_prefix_def tokenPrefix_def)


section \<open>The indexes\<close>

text \<open>
  Records are stored under their own device id, and the token index is exactly the inverse of the
  records' token hashes, so no two devices share a token.
\<close>

definition index_maps :: "(string \<rightharpoonup> TrustedDeviceRecord) \<Rightarrow> (string \<rightharpoonup> string) \<Rightarrow> bool" where
  "index_maps m t \<longleftrightarrow> (\<forall>d e. m d = Some e \<longrightarrow> td_DeviceID e = d)
     \<and> (\<forall>h d. t h = Some d \<longleftrightarrow> (\<exists>e. m d = Some e \<and> td_TokenHash e = h))"

definition index_ok :: "MemoryDeviceStore \<Rightarrow> bool" where
  "index_ok s \<longleftrightarrow> distinct (map fst (ds_byID s)) \<and> index_maps (map_of (ds_byID s)) (map_of (ds_byToken s))"

lemma index_maps_same:
  "index_maps m t \<Longrightarrow> m d = Some e \<Longrightarrow> td_TokenHash e' = td_TokenHash e \<Longrightarrow> td_DeviceID e' = d
     \<Longrightarrow> index_maps (m(d \<mapsto> e')) t"
  by (auto simp: index_maps_def)

lemma index_maps_put:
  "index_maps m t \<Longrightarrow> m (td_DeviceID rec) = None \<Longrightarrow> (\<And>d e. m d = Some e \<Longrightarrow> td_TokenHash e \<noteq> td_TokenHash rec)
     \<Longrightarrow> index_maps (m(td_DeviceID rec \<mapsto> rec)) (t(td_TokenHash rec \<mapsto> td_DeviceID rec))"
  unfolding index_maps_def by auto

lemma index_maps_uniq:
  "index_maps m t \<Longrightarrow> m d = Some e \<Longrightarrow> m d' = Some e' \<Longrightarrow> td_TokenHash e = td_TokenHash e' \<Longrightarrow> d = d'"
  unfolding index_maps_def by (metis option.inject)

text \<open>Dropping some records together with their tokens.\<close>

lemma index_maps_drop:
  assumes "index_maps m t" and "\<And>d e. m' d = Some e \<longleftrightarrow> m d = Some e \<and> \<not> P d e"
    and "\<And>h. t' h = (if \<exists>d e. m d = Some e \<and> P d e \<and> td_TokenHash e = h then None else t h)"
  shows "index_maps m' t'"
proof -
  have "t' h = Some d \<longleftrightarrow> (\<exists>e. m' d = Some e \<and> td_TokenHash e = h)" for h d
    using assms index_maps_uniq[OF assms(1)] unfolding index_maps_def by (auto split: if_splits) metis+
  then show ?thesis using assms(1,2) by (auto simp: index_maps_def)
qed

text \<open>A token hash no stored device of another identity has.\<close>

definition fresh_token :: "TrustedDeviceRecord \<Rightarrow> MemoryDeviceStore \<Rightarrow> bool" where
  "fresh_token rec s \<longleftrightarrow> td_TokenHash rec \<notin> td_TokenHash ` snd ` set (ds_byID s)"

lemma index_ok_new: "index_ok NewMemoryDeviceStore"
  by (simp add: index_ok_def index_maps_def NewMemoryDeviceStore_def)

lemma map_of_update [simp]: "map_of (AList.update k v xs) = (map_of xs)(k \<mapsto> v)"
  by (simp add: update_conv')

lemma index_ok_put:
  assumes "index_ok s" and "map_of (ds_byID s) (td_DeviceID rec) = None" and "fresh_token rec s"
  shows "index_ok (put_device rec s)"
proof -
  have fresh: "td_TokenHash e \<noteq> td_TokenHash rec" if "map_of (ds_byID s) d = Some e" for d e
  proof -
    have "td_TokenHash e \<in> td_TokenHash ` snd ` set (ds_byID s)" using map_of_SomeD[OF that] by force
    then show ?thesis using assms(3) unfolding fresh_token_def by metis
  qed
  have "index_maps ((map_of (ds_byID s))(td_DeviceID rec \<mapsto> rec)) ((map_of (ds_byToken s))(td_TokenHash rec \<mapsto> td_DeviceID rec))"
    using assms(1,2) by (intro index_maps_put) (auto simp only: index_ok_def dest: fresh)
  then show ?thesis
    using assms(1) by (simp add: index_ok_def put_device_def distinct_update)
qed

lemma fold_delete_tokens:
  "map_of (fold (\<lambda>(d, e). AList.delete (td_TokenHash e)) xs t) h =
     (if h \<in> td_TokenHash ` snd ` set xs then None else map_of t h)"
  by (induction xs arbitrary: t) (auto simp: delete_conv' image_iff)

definition without :: "TrustedDeviceRecord \<Rightarrow> MemoryDeviceStore \<Rightarrow> MemoryDeviceStore" where
  "without rec s = \<lparr>ds_byID = filter (\<lambda>x. \<not> same_device rec x) (ds_byID s),
     ds_byToken = fold (\<lambda>(d, e). AList.delete (td_TokenHash e)) (filter (same_device rec) (ds_byID s)) (ds_byToken s)\<rparr>"

lemma index_ok_without:
  assumes "index_ok s"
  shows "index_ok (without rec s)"
proof -
  have dist: "distinct (map fst (ds_byID s))" and ix: "index_maps (map_of (ds_byID s)) (map_of (ds_byToken s))"
    using assms by (auto simp: index_ok_def)
  have "h \<in> td_TokenHash ` snd ` set (filter (same_device rec) (ds_byID s)) \<longleftrightarrow>
      (\<exists>d e. map_of (ds_byID s) d = Some e \<and> same_device rec (d, e) \<and> td_TokenHash e = h)" for h
    using dist by force
  then have "index_maps (map_of (ds_byID (without rec s))) (map_of (ds_byToken (without rec s)))"
    by (intro index_maps_drop[OF ix, where P = "\<lambda>d e. same_device rec (d, e)"])
      (simp_all only: without_def map_of_filter_Some[OF dist] fold_delete_tokens MemoryDeviceStore.simps)
  then show ?thesis
    using dist by (simp add: index_ok_def) (simp add: without_def distinct_map_filter)
qed

lemma ReplaceDevice_eq: "snd (ReplaceDevice rec s) = put_device rec (without rec s)"
  by (simp add: ReplaceDevice_def without_def Let_def)

lemma index_ok_Replace:
  assumes "index_ok s" and "fresh_token rec s"
  shows "index_ok (snd (ReplaceDevice rec s))"
  unfolding ReplaceDevice_eq
proof (rule index_ok_put[OF index_ok_without[OF assms(1)]])
  have "distinct (map fst (ds_byID s))" using assms(1) by (simp add: index_ok_def)
  then have "map_of (ds_byID (without rec s)) (td_DeviceID rec) \<noteq> Some e" for e
    by (simp add: without_def map_of_filter_Some same_device_def)
  then show "map_of (ds_byID (without rec s)) (td_DeviceID rec) = None" by (meson not_None_eq)
  show "fresh_token rec (without rec s)" using assms(2) by (auto simp: fresh_token_def without_def)
qed

lemma index_ok_update_same:
  assumes "index_ok s" and "map_of (ds_byID s) d = Some e" and "td_TokenHash e' = td_TokenHash e" and "td_DeviceID e' = td_DeviceID e"
  shows "index_ok (s\<lparr>ds_byID := AList.update d e' (ds_byID s)\<rparr>)"
proof -
  have "td_DeviceID e = d" using assms(1,2) unfolding index_ok_def index_maps_def by blast
  then show ?thesis
    using assms index_maps_same[of "map_of (ds_byID s)" "map_of (ds_byToken s)" d e e']
    by (simp add: index_ok_def distinct_update)
qed

lemma index_ok_Revoke: "index_ok s \<Longrightarrow> RevokeTrusted now d s = Inr s' \<Longrightarrow> index_ok s'"
  by (cases "map_of (ds_byID s) d") (auto simp: RevokeTrusted_def intro!: index_ok_update_same)

lemma index_ok_EnableRelay: "index_ok s \<Longrightarrow> EnableRelay d k g s = Inr s' \<Longrightarrow> index_ok s'"
  by (cases "map_of (ds_byID s) d") (auto simp: EnableRelay_def split: if_splits intro!: index_ok_update_same)

lemma index_ok_Add: "index_ok s \<Longrightarrow> fresh_token rec s \<Longrightarrow> AddDevice rec s = Inr s' \<Longrightarrow> index_ok s'"
  by (auto simp: AddDevice_def split: if_splits intro: index_ok_put)

text \<open>The clone of a consistent store and the store read back from its records answer as it does.\<close>

definition same_answers :: "MemoryDeviceStore \<Rightarrow> MemoryDeviceStore \<Rightarrow> bool" where
  "same_answers s t \<longleftrightarrow> map_of (ds_byID s) = map_of (ds_byID t) \<and> map_of (ds_byToken s) = map_of (ds_byToken t)"

lemma index_maps_functional: "index_maps m t \<Longrightarrow> index_maps m t' \<Longrightarrow> t = t'"
proof (rule ext)
  fix h assume "index_maps m t" "index_maps m t'"
  then have "t h = Some d \<longleftrightarrow> t' h = Some d" for d by (simp add: index_maps_def)
  then show "t h = t' h" by (metis not_None_eq)
qed

lemma update_absent: "k \<notin> fst ` set xs \<Longrightarrow> AList.update k v xs = xs @ [(k, v)]"
  by (induction xs) auto

text \<open>Reading a list of records with distinct ids and distinct hashes.\<close>

lemma load_records:
  assumes "distinct (map td_DeviceID recs)" and "distinct (map td_TokenHash recs)"
  shows "index_ok (fold put_device recs NewMemoryDeviceStore)
     \<and> ds_byID (fold put_device recs NewMemoryDeviceStore) = map (\<lambda>r. (td_DeviceID r, r)) recs"
  using assms
proof (induction recs rule: rev_induct)
  case Nil
  then show ?case using index_ok_new by (simp add: NewMemoryDeviceStore_def)
next
  case (snoc r recs)
  let ?s = "fold put_device recs NewMemoryDeviceStore"
  have ih: "index_ok ?s" "ds_byID ?s = map (\<lambda>r. (td_DeviceID r, r)) recs" using snoc by simp_all
  have nid: "td_DeviceID r \<notin> fst ` set (ds_byID ?s)" unfolding ih(2) using snoc(2) by auto
  then have "map_of (ds_byID ?s) (td_DeviceID r) = None" by (simp add: map_of_eq_None_iff)
  moreover have "fresh_token r ?s" unfolding fresh_token_def ih(2) using snoc(3) by auto
  ultimately have "index_ok (put_device r ?s)" using ih(1) by (intro index_ok_put)
  moreover have "ds_byID (put_device r ?s) = ds_byID ?s @ [(td_DeviceID r, r)]"
    using nid by (simp add: put_device_def update_absent)
  ultimately show ?case using ih(2) by simp
qed

lemma index_ok_records:
  assumes "index_ok s"
  shows "distinct (map td_DeviceID (snapshotRecords s))" "distinct (map td_TokenHash (snapshotRecords s))"
    "ds_byID s = map (\<lambda>r. (td_DeviceID r, r)) (snapshotRecords s)"
proof -
  have dist: "distinct (map fst (ds_byID s))" and ix: "index_maps (map_of (ds_byID s)) (map_of (ds_byToken s))"
    using assms by (auto simp: index_ok_def)
  have key: "td_DeviceID e = d" if "(d, e) \<in> set (ds_byID s)" for d e
    using ix dist that unfolding index_maps_def by (metis map_of_is_SomeI)
  then show byid: "ds_byID s = map (\<lambda>r. (td_DeviceID r, r)) (snapshotRecords s)"
    by (auto simp: snapshotRecords_def comp_def intro!: map_idI[symmetric])
  have "map td_DeviceID (snapshotRecords s) = map fst (ds_byID s)"
    using key by (auto simp: snapshotRecords_def)
  then show "distinct (map td_DeviceID (snapshotRecords s))" using dist by simp
  have "e = e'" if "(d, e) \<in> set (ds_byID s)" "(d', e') \<in> set (ds_byID s)" "td_TokenHash e = td_TokenHash e'" for d e d' e'
  proof -
    have m: "map_of (ds_byID s) d = Some e" "map_of (ds_byID s) d' = Some e'" using that dist by simp_all
    then have "d = d'" using index_maps_uniq[OF ix m that(3)] by simp
    then show ?thesis using m by simp
  qed
  then have "inj_on td_TokenHash (set (snapshotRecords s))"
    by (auto simp: snapshotRecords_def inj_on_def)
  moreover have "distinct (snapshotRecords s)"
    using \<open>distinct (map td_DeviceID (snapshotRecords s))\<close> by (simp add: distinct_map)
  ultimately show "distinct (map td_TokenHash (snapshotRecords s))" by (simp add: distinct_map)
qed

lemma fold_put_tokens:
  "ds_byToken (fold put_device recs s) = fold (\<lambda>r. AList.update (td_TokenHash r) (td_DeviceID r)) recs (ds_byToken s)"
  by (induction recs arbitrary: s) (simp_all add: put_device_def)

lemma reload_clone:
  assumes "index_ok s"
  shows "fds_load (Some (snapshotRecords s)) = cloneSnapshot s" "index_ok (cloneSnapshot s)" "same_answers (cloneSnapshot s) s"
proof -
  note r = index_ok_records[OF assms]
  have l: "index_ok (fds_load (Some (snapshotRecords s)))" "ds_byID (fds_load (Some (snapshotRecords s))) = ds_byID s"
    using load_records[OF r(1,2)] r(3) by (simp_all add: fds_load_def)
  have "ds_byToken (fds_load (Some (snapshotRecords s))) = ds_byToken (cloneSnapshot s)"
    by (simp add: fds_load_def fold_put_tokens cloneSnapshot_def NewMemoryDeviceStore_def)
       (subst r(3), simp add: fold_map comp_def)
  then show eq: "fds_load (Some (snapshotRecords s)) = cloneSnapshot s"
    using l(2) by (simp add: cloneSnapshot_def)
  show ok: "index_ok (cloneSnapshot s)" using l(1) eq by simp
  have "ds_byID (cloneSnapshot s) = ds_byID s" by (simp add: cloneSnapshot_def)
  then show "same_answers (cloneSnapshot s) s"
    using ok assms index_maps_functional[of "map_of (ds_byID s)" "map_of (ds_byToken (cloneSnapshot s))" "map_of (ds_byToken s)"]
    by (simp add: same_answers_def index_ok_def)
qed

lemma same_answers_sym: "same_answers s t \<Longrightarrow> same_answers t s"
  by (simp add: same_answers_def)

lemma same_answers_lookup:
  assumes "same_answers s t"
  shows "LookupByTokenHash h s = LookupByTokenHash h t" "LookupByDeviceID d s = LookupByDeviceID d t"
    "ValidateDeviceAuth sha s token d = ValidateDeviceAuth sha t token d"
proof -
  have eq: "map_of (ds_byID s) = map_of (ds_byID t)" "map_of (ds_byToken s) = map_of (ds_byToken t)"
    using assms by (simp_all add: same_answers_def)
  show tok: "LookupByTokenHash h s = LookupByTokenHash h t" for h unfolding LookupByTokenHash_def eq ..
  show "LookupByDeviceID d s = LookupByDeviceID d t" unfolding LookupByDeviceID_def eq ..
  show "ValidateDeviceAuth sha s token d = ValidateDeviceAuth sha t token d" unfolding ValidateDeviceAuth_def tok ..
qed


section \<open>The file-backed store\<close>

definition fds_ok :: "FileDeviceStore \<Rightarrow> bool" where
  "fds_ok s \<longleftrightarrow> index_ok (fs_mem s) \<and> same_answers (fs_mem s) (fds_load (fs_disk s))"

lemma fds_commit_cases:
  assumes "fds_commit f fn s = (res, s')"
  obtains (failed) e where "res = Inl e" "s' = s"
  | (committed) r clone where "res = Inr r" "fn (cloneSnapshot (fs_mem s)) = Inr (r, clone)"
      "s' = \<lparr>fs_disk = Some (snapshotRecords clone), fs_mem = clone\<rparr>"
  using assms
  by (cases "fn (cloneSnapshot (fs_mem s))")
    (auto simp: fds_commit_def AtomicWriteFile_def split: prod.splits if_splits)

lemma fds_commit_error: "fds_commit f fn s = (Inl e, s') \<Longrightarrow> s' = s"
  by (erule fds_commit_cases) auto

lemma fds_commit_ok:
  assumes "fds_ok s" and "fds_commit f fn s = (res, s')"
    and "\<And>r clone. fn (cloneSnapshot (fs_mem s)) = Inr (r, clone) \<Longrightarrow> index_ok clone"
  shows "fds_ok s'"
  using assms(2)
proof (cases rule: fds_commit_cases)
  case (committed r clone)
  then have "index_ok clone" using assms(3) by blast
  then show ?thesis
    using committed(3) reload_clone[of clone] by (simp add: fds_ok_def same_answers_sym)
qed (use assms(1) in simp)

inductive fds_step :: "FileDeviceStore \<Rightarrow> FileDeviceStore \<Rightarrow> bool" where
  add: "fresh_token rec (fs_mem s) \<Longrightarrow> fds_step s (snd (fds_AddDevice f rec s))"
| replace: "fresh_token rec (fs_mem s) \<Longrightarrow> fds_step s (snd (fds_ReplaceDevice f rec s))"
| enable: "fds_step s (snd (fds_EnableRelay f d k g s))"
| revoke: "fds_step s (snd (fds_RevokeDevice f now d s))"
| restart: "fds_step s (NewFileDeviceStore (fs_disk s))"

lemma with_unit_Inr: "with_unit r = Inr (u, s) \<longleftrightarrow> r = Inr s"
  by (auto simp: with_unit_def split: sum.splits)

lemma fresh_clone: "fresh_token rec (cloneSnapshot s) = fresh_token rec s"
  by (simp add: fresh_token_def cloneSnapshot_def)

lemma load_distinct: "distinct (map fst (ds_byID (fds_load disk)))"
proof -
  have "distinct (map fst (ds_byID s)) \<Longrightarrow> distinct (map fst (ds_byID (fold put_device recs s)))" for recs s
    by (induction recs arbitrary: s) (simp_all add: put_device_def distinct_update)
  then show ?thesis by (simp add: fds_load_def NewMemoryDeviceStore_def split: option.split)
qed

lemma fds_step_ok:
  assumes "fds_step s s'" and "fds_ok s"
  shows "fds_ok s'"
  using assms(1)
proof cases
  note clone = reload_clone[of "fs_mem s"]
  have ok: "index_ok (cloneSnapshot (fs_mem s))" using assms(2) clone by (simp add: fds_ok_def)
  {
    case (add rec f)
    have "index_ok c" if "with_unit (AddDevice rec (cloneSnapshot (fs_mem s))) = Inr (r, c)" for r c
      using that ok add index_ok_Add fresh_clone by (auto simp: with_unit_Inr)
    then show ?thesis unfolding add fds_AddDevice_def using assms(2) by (rule_tac fds_commit_ok[OF _ surjective_pairing]) auto
  next
    case (replace rec f)
    have "index_ok (snd (ReplaceDevice rec (cloneSnapshot (fs_mem s))))"
      using ok replace index_ok_Replace fresh_clone by auto
    then show ?thesis unfolding replace fds_ReplaceDevice_def using assms(2)
      by (rule_tac fds_commit_ok[OF _ surjective_pairing]) auto
  next
    case (enable f d k g)
    have "index_ok c" if "with_unit (EnableRelay d k g (cloneSnapshot (fs_mem s))) = Inr (r, c)" for r c
      using that ok index_ok_EnableRelay by (auto simp: with_unit_Inr)
    then show ?thesis unfolding enable fds_EnableRelay_def using assms(2) by (rule_tac fds_commit_ok[OF _ surjective_pairing]) auto
  next
    case (revoke f now d)
    have "index_ok c" if "with_unit (RevokeTrusted now d (cloneSnapshot (fs_mem s))) = Inr (r, c)" for r c
      using that ok index_ok_Revoke by (auto simp: with_unit_Inr)
    then show ?thesis unfolding revoke fds_RevokeDevice_def using assms(2) by (rule_tac fds_commit_ok[OF _ surjective_pairing]) auto
  next
    case restart
    then show ?thesis
      using assms(2) load_distinct by (auto simp: fds_ok_def NewFileDeviceStore_def same_answers_def index_ok_def)
  }
qed

lemma fds_steps_ok: "fds_step\<^sup>*\<^sup>* s s' \<Longrightarrow> fds_ok s \<Longrightarrow> fds_ok s'"
  by (induction rule: rtranclp_induct) (auto intro: fds_step_ok)

lemma fds_ok_start:
  assumes "distinct (map td_DeviceID recs)" and "distinct (map td_TokenHash recs)"
  shows "fds_ok (NewFileDeviceStore (Some recs))"
  using load_records[OF assms] by (simp add: fds_ok_def NewFileDeviceStore_def fds_load_def same_answers_def)



section \<open>Authentication\<close>

lemma lookup_token:
  assumes "index_ok s"
  shows "LookupByTokenHash h s = Some e \<longleftrightarrow> map_of (ds_byID s) (td_DeviceID e) = Some e \<and> td_TokenHash e = h"
proof -
  have ix: "index_maps (map_of (ds_byID s)) (map_of (ds_byToken s))" using assms by (simp add: index_ok_def)
  show ?thesis
  proof
    assume "LookupByTokenHash h s = Some e"
    then obtain d where d: "map_of (ds_byToken s) h = Some d"
        "e = (case map_of (ds_byID s) d of None \<Rightarrow> zero_record | Some rec \<Rightarrow> rec)"
      by (auto simp: LookupByTokenHash_def split: option.splits)
    then obtain e' where "map_of (ds_byID s) d = Some e'" "td_TokenHash e' = h" "td_DeviceID e' = d"
      using ix unfolding index_maps_def by blast
    then show "map_of (ds_byID s) (td_DeviceID e) = Some e \<and> td_TokenHash e = h" using d by simp
  next
    assume "map_of (ds_byID s) (td_DeviceID e) = Some e \<and> td_TokenHash e = h"
    then show "LookupByTokenHash h s = Some e"
      using ix unfolding index_maps_def LookupByTokenHash_def by (metis option.case(2))
  qed
qed

lemma device_auth_iff:
  assumes "index_ok s"
  shows "ValidateDeviceAuth sha s token d = Inr e \<longleftrightarrow>
     token \<noteq> [] \<and> ValidateTokenPrefix token \<and> map_of (ds_byID s) (td_DeviceID e) = Some e
     \<and> td_TokenHash e = HashToken sha token \<and> td_RevokedAt e = None \<and> (d = [] \<or> td_DeviceID e = d)"
proof -
  have "ValidateDeviceAuth sha s token d = Inr e \<longleftrightarrow> token \<noteq> [] \<and> ValidateTokenPrefix token
      \<and> LookupByTokenHash (HashToken sha token) s = Some e \<and> td_RevokedAt e = None \<and> (d = [] \<or> td_DeviceID e = d)"
    by (auto simp: ValidateDeviceAuth_def split: option.splits if_splits)
  then show ?thesis unfolding lookup_token[OF assms] by blast
qed

text \<open>
  Authentication is exact in a consistent store: a token is accepted, with some record, exactly
  when it is well formed and that record is stored, carries the token's hash, is not revoked, and has
  the device id the request named, if it named one.
\<close>

theorem device_auth_exact:
  assumes "index_ok s"
  shows "ValidateDeviceAuth sha s token d = Inr e \<longleftrightarrow>
     token \<noteq> [] \<and> ValidateTokenPrefix token \<and> map_of (ds_byID s) (td_DeviceID e) = Some e
     \<and> td_TokenHash e = HashToken sha token \<and> td_RevokedAt e = None \<and> (d = [] \<or> td_DeviceID e = d)"
  using assms by (rule device_auth_iff)

text \<open>No unrevoked record carries the hash.\<close>

definition dead_hash :: "string \<Rightarrow> MemoryDeviceStore \<Rightarrow> bool" where
  "dead_hash h s \<longleftrightarrow> (\<forall>d e. map_of (ds_byID s) d = Some e \<longrightarrow> td_TokenHash e = h \<longrightarrow> td_RevokedAt e \<noteq> None)"

lemma dead_hash_map: "map_of (ds_byID s) = map_of (ds_byID t) \<Longrightarrow> dead_hash h s = dead_hash h t"
  by (simp only: dead_hash_def)

lemma dead_hash_ops:
  "dead_hash h s \<Longrightarrow> td_TokenHash rec \<noteq> h \<Longrightarrow> AddDevice rec s = Inr s' \<Longrightarrow> dead_hash h s'"
  "dead_hash h s \<Longrightarrow> EnableRelay d k g s = Inr s' \<Longrightarrow> dead_hash h s'"
  "dead_hash h s \<Longrightarrow> RevokeTrusted now d s = Inr s' \<Longrightarrow> dead_hash h s'"
  by (auto simp: dead_hash_def AddDevice_def put_device_def EnableRelay_def RevokeTrusted_def
      split: option.splits if_splits) (metis option.distinct(1))+

lemma dead_hash_Replace:
  assumes "dead_hash h s" and "td_TokenHash rec \<noteq> h" and "distinct (map fst (ds_byID s))"
  shows "dead_hash h (snd (ReplaceDevice rec s))"
proof -
  have "map_of (ds_byID (without rec s)) d = Some e \<Longrightarrow> map_of (ds_byID s) d = Some e" for d e
    using map_of_filter_Some[OF assms(3)] by (simp only: without_def MemoryDeviceStore.simps)
  then have "dead_hash h (without rec s)" using assms(1) unfolding dead_hash_def by metis
  then show ?thesis
    using assms(2) unfolding ReplaceDevice_eq by (auto simp: dead_hash_def put_device_def split: if_splits)
qed

text \<open>Steps of the store that do not bring the hash back.\<close>

inductive fds_step_avoiding :: "string \<Rightarrow> FileDeviceStore \<Rightarrow> FileDeviceStore \<Rightarrow> bool" for h where
  add: "fresh_token rec (fs_mem s) \<Longrightarrow> td_TokenHash rec \<noteq> h \<Longrightarrow> fds_step_avoiding h s (snd (fds_AddDevice f rec s))"
| replace: "fresh_token rec (fs_mem s) \<Longrightarrow> td_TokenHash rec \<noteq> h \<Longrightarrow>
     fds_step_avoiding h s (snd (fds_ReplaceDevice f rec s))"
| enable: "fds_step_avoiding h s (snd (fds_EnableRelay f d k g s))"
| revoke: "fds_step_avoiding h s (snd (fds_RevokeDevice f now d s))"
| restart: "fds_step_avoiding h s (NewFileDeviceStore (fs_disk s))"

lemma avoiding_step: "fds_step_avoiding h s s' \<Longrightarrow> fds_step s s'"
  by (induction rule: fds_step_avoiding.induct) (auto intro: fds_step.intros)

lemma dead_hash_commit:
  assumes "dead_hash h (fs_mem s)"
    and "\<And>r c. fn (cloneSnapshot (fs_mem s)) = Inr (r, c) \<Longrightarrow> dead_hash h c"
  shows "dead_hash h (fs_mem (snd (fds_commit f fn s)))"
proof -
  obtain res s' where c: "fds_commit f fn s = (res, s')" by force
  then show ?thesis
    by (cases rule: fds_commit_cases) (use assms c in auto)
qed

lemma dead_hash_step:
  assumes "fds_step_avoiding h s s'" and "fds_ok s" and "dead_hash h (fs_mem s)"
  shows "dead_hash h (fs_mem s')"
proof -
  have cl: "dead_hash h (cloneSnapshot (fs_mem s))"
    using assms(3) dead_hash_map[of "cloneSnapshot (fs_mem s)" "fs_mem s"] by (simp add: cloneSnapshot_def)
  have di: "distinct (map fst (ds_byID (cloneSnapshot (fs_mem s))))"
    using assms(2) by (simp add: fds_ok_def index_ok_def cloneSnapshot_def)
  show ?thesis
    using assms(1)
  proof cases
    case (add rec f)
    then show ?thesis unfolding fds_AddDevice_def
      using cl assms(3) by (auto intro!: dead_hash_commit dest: dead_hash_ops(1) simp: with_unit_Inr)
  next
    case (replace rec f)
    then show ?thesis unfolding fds_ReplaceDevice_def
      using dead_hash_Replace[OF cl replace(3) di] assms(3) by (auto intro!: dead_hash_commit)
  next
    case (enable f d k g)
    then show ?thesis unfolding fds_EnableRelay_def
      using cl assms(3) by (auto intro!: dead_hash_commit dest: dead_hash_ops(2) simp: with_unit_Inr)
  next
    case (revoke f now d)
    then show ?thesis unfolding fds_RevokeDevice_def
      using cl assms(3) by (auto intro!: dead_hash_commit dest: dead_hash_ops(3) simp: with_unit_Inr)
  next
    case restart
    then show ?thesis
      using assms(2,3) dead_hash_map[of "fds_load (fs_disk s)" "fs_mem s"]
      by (simp add: fds_ok_def same_answers_def NewFileDeviceStore_def)
  qed
qed

text \<open>
  Revocation is immediate and permanent: after a device with a given token has been revoked, that
  token is rejected, and stays rejected through any further operations and restarts, pairing the same
  device again included, as long as no new record is given the very same token hash.
\<close>

theorem revoked_token_dead:
  assumes "fds_ok s" and "map_of (ds_byID (fs_mem s)) d = Some rec"
    and "td_TokenHash rec = HashToken sha token"
    and "fds_RevokeDevice f now d s = (Inr (), s1)"
    and "(fds_step_avoiding (HashToken sha token))\<^sup>*\<^sup>* s1 s2"
  shows "\<exists>e. ValidateDeviceAuth sha (fs_mem s2) token did = Inl e"
proof -
  have ok1: "fds_ok s1" using fds_step_ok[OF fds_step.revoke[of s f now d] assms(1)] assms(4) by simp
  have ix: "index_maps (map_of (ds_byID (fs_mem s))) (map_of (ds_byToken (fs_mem s)))"
    using assms(1) by (simp add: fds_ok_def index_ok_def)
  have "dead_hash (HashToken sha token) (fs_mem s1)"
    using assms(4) unfolding fds_RevokeDevice_def
  proof (cases rule: fds_commit_cases)
    case (committed r clone)
    then have "ds_byID clone = AList.update d (rec\<lparr>td_RevokedAt := Some now\<rparr>) (ds_byID (fs_mem s))"
      using assms(2) by (auto simp: with_unit_Inr RevokeTrusted_def cloneSnapshot_def)
    moreover have "d' = d" if "map_of (ds_byID (fs_mem s)) d' = Some e" "td_TokenHash e = HashToken sha token" for d' e
      using index_maps_uniq[OF ix that(1) assms(2)] that(2) assms(3) by simp
    ultimately show ?thesis using committed(3) by (auto simp: dead_hash_def split: if_splits)
  qed simp
  with assms(5) ok1 have "dead_hash (HashToken sha token) (fs_mem s2) \<and> fds_ok s2"
    by (induction rule: rtranclp_induct) (auto intro: dead_hash_step fds_step_ok[OF avoiding_step])
  then have "ValidateDeviceAuth sha (fs_mem s2) token did \<noteq> Inr e" for e
    using device_auth_iff[of "fs_mem s2" sha token did e] by (auto simp: fds_ok_def dead_hash_def)
  then show ?thesis by (metis sum.exhaust)
qed

text \<open>
  Pairing again rotates the credential: after a device's record is replaced, its new token is the
  one that authenticates it; a token of any record of the same id, or of the same name and platform,
  no longer authenticates anything; every other device is untouched.
\<close>

theorem repairing_rotates_token:
  assumes "index_ok s" and "fresh_token rec s" and "td_RevokedAt rec = None"
  shows "LookupByTokenHash (td_TokenHash rec) (snd (ReplaceDevice rec s)) = Some rec
    \<and> (\<forall>d e. map_of (ds_byID s) d = Some e \<longrightarrow>
         (if same_device rec (d, e) then LookupByTokenHash (td_TokenHash e) (snd (ReplaceDevice rec s)) = None
          else LookupByTokenHash (td_TokenHash e) (snd (ReplaceDevice rec s)) = Some e))"
proof -
  let ?s = "snd (ReplaceDevice rec s)"
  have dist: "distinct (map fst (ds_byID s))" and ix: "index_maps (map_of (ds_byID s)) (map_of (ds_byToken s))"
    using assms(1) by (auto simp: index_ok_def)
  have ok: "index_ok ?s" using index_ok_Replace[OF assms(1,2)] .
  have m: "map_of (ds_byID ?s) d = Some e \<longleftrightarrow> (if d = td_DeviceID rec then e = rec
      else map_of (ds_byID s) d = Some e \<and> \<not> same_device rec (d, e))" for d e
    unfolding ReplaceDevice_eq put_device_def without_def MemoryDeviceStore.simps map_of_update fun_upd_apply
    using map_of_filter_Some[OF dist] by auto
  have fresh: "td_TokenHash e \<noteq> td_TokenHash rec" if "map_of (ds_byID s) d = Some e" for d e
    using assms(2) map_of_SomeD[OF that] unfolding fresh_token_def by (metis image_eqI snd_conv)
  have id: "td_DeviceID e = d" if "map_of (ds_byID s) d = Some e" for d e
    using ix that unfolding index_maps_def by blast
  have "LookupByTokenHash (td_TokenHash rec) ?s = Some rec"
    unfolding lookup_token[OF ok] m by simp
  moreover have "LookupByTokenHash (td_TokenHash e) ?s = None"
    if e: "map_of (ds_byID s) d = Some e" "same_device rec (d, e)" for d e
  proof (rule ccontr)
    assume "LookupByTokenHash (td_TokenHash e) ?s \<noteq> None"
    then obtain e' where "LookupByTokenHash (td_TokenHash e) ?s = Some e'" by auto
    then have e': "map_of (ds_byID ?s) (td_DeviceID e') = Some e'" "td_TokenHash e' = td_TokenHash e"
      unfolding lookup_token[OF ok] by auto
    then show False
      using e fresh[OF e(1)] index_maps_uniq[OF ix _ e(1) e'(2)] unfolding m by (auto split: if_splits)
  qed
  moreover have "LookupByTokenHash (td_TokenHash e) ?s = Some e"
    if e: "map_of (ds_byID s) d = Some e" "\<not> same_device rec (d, e)" for d e
  proof -
    have "d \<noteq> td_DeviceID rec" using e(2) by (auto simp: same_device_def)
    then show ?thesis unfolding lookup_token[OF ok] m id[OF e(1)] using e by simp
  qed
  ultimately show ?thesis by (simp only: if_splits) blast
qed


section \<open>Witnesses\<close>

definition demo_sha :: "bytes \<Rightarrow> bytes" where
  "demo_sha b = [1]"

definition demo_device :: TrustedDeviceRecord where
  "demo_device = zero_record\<lparr>td_DeviceID := ''phone'', td_DisplayName := ''Phone'', td_Platform := ''ios'',
     td_TokenHash := ''sha256:01''\<rparr>"

definition demo_token :: string where
  "demo_token = tokenPrefix @ b64url_encode (replicate 32 0)"

definition demo_fds :: FileDeviceStore where
  "demo_fds = NewFileDeviceStore (Some [demo_device])"

lemma demo_token_valid: "demo_token \<noteq> []" "ValidateTokenPrefix demo_token" "HashToken demo_sha demo_token = ''sha256:01''"
  using b64url_roundtrip[of "replicate 32 0"]
  by (simp_all add: demo_token_def ValidateTokenPrefix_def has_prefix_def tokenPrefix_def tokenByteLen_def
      HashToken_def demo_sha_def hex_encode_def hex_digit_def)

lemma demo_fds_ok: "fds_ok demo_fds"
  unfolding demo_fds_def by (rule fds_ok_start) simp_all

lemma demo_mem: "ds_byID (fs_mem demo_fds) = [(''phone'', demo_device)]" "ds_byToken (fs_mem demo_fds) = [(''sha256:01'', ''phone'')]"
  by (simp_all add: demo_fds_def NewFileDeviceStore_def fds_load_def put_device_def NewMemoryDeviceStore_def demo_device_def)

theorem generated_token_valid_witness:
  "\<exists>plain. GenerateDeviceToken demo_sha (Some (replicate 32 5)) = Some (plain, HashToken demo_sha plain)
     \<and> plain \<noteq> [] \<and> ValidateTokenPrefix plain"
  by (rule generated_token_valid) (simp add: tokenByteLen_def)


theorem device_auth_exact_witness: "ValidateDeviceAuth demo_sha (fs_mem demo_fds) demo_token ''phone'' = Inr demo_device"
proof -
  have "index_ok (fs_mem demo_fds)" using demo_fds_ok by (simp add: fds_ok_def)
  from device_auth_exact[OF this, of demo_sha demo_token "''phone''" demo_device] show ?thesis
    using demo_token_valid by (simp add: demo_mem) (simp add: demo_device_def zero_record_def)
qed

theorem revoked_token_dead_witness:
  "\<exists>e. ValidateDeviceAuth demo_sha (fs_mem (snd (fds_RevokeDevice no_faults 5 ''phone'' demo_fds))) demo_token [] = Inl e"
proof -
  have "fds_RevokeDevice no_faults 5 ''phone'' demo_fds = (Inr (), snd (fds_RevokeDevice no_faults 5 ''phone'' demo_fds))"
    by (simp add: fds_RevokeDevice_def fds_commit_def with_unit_def RevokeTrusted_def cloneSnapshot_def demo_mem
        AtomicWriteFile_def)
  from revoked_token_dead[OF demo_fds_ok _ _ this rtranclp.rtrancl_refl, where rec = demo_device and token = demo_token
      and sha = demo_sha and did = "[]"] show ?thesis
    by (simp add: demo_mem demo_token_valid demo_device_def)
qed

theorem repairing_rotates_token_witness:
  "LookupByTokenHash ''sha256:01'' (snd (ReplaceDevice (demo_device\<lparr>td_TokenHash := ''sha256:02''\<rparr>) (fs_mem demo_fds))) = None"
proof -
  have "index_ok (fs_mem demo_fds)" using demo_fds_ok by (simp add: fds_ok_def)
  moreover have "fresh_token (demo_device\<lparr>td_TokenHash := ''sha256:02''\<rparr>) (fs_mem demo_fds)"
    by (simp add: fresh_token_def demo_mem demo_device_def)
  moreover have "td_RevokedAt (demo_device\<lparr>td_TokenHash := ''sha256:02''\<rparr>) = None"
    by (simp add: demo_device_def zero_record_def)
  ultimately have "\<forall>d e. map_of (ds_byID (fs_mem demo_fds)) d = Some e \<longrightarrow>
      (if same_device (demo_device\<lparr>td_TokenHash := ''sha256:02''\<rparr>) (d, e)
       then LookupByTokenHash (td_TokenHash e) (snd (ReplaceDevice (demo_device\<lparr>td_TokenHash := ''sha256:02''\<rparr>) (fs_mem demo_fds))) = None
       else LookupByTokenHash (td_TokenHash e) (snd (ReplaceDevice (demo_device\<lparr>td_TokenHash := ''sha256:02''\<rparr>) (fs_mem demo_fds))) = Some e)"
    using repairing_rotates_token by blast
  from this[rule_format, of "''phone''" demo_device] show ?thesis
    by (simp add: demo_mem same_device_def) (simp add: demo_device_def)
qed

end
