(* ===== verification/Pairing.thy ===== *)
theory Pairing
  imports Device_Trust
begin

text \<open>
  Pairing on the bridge: the session and its in-memory store (\<^verbatim>\<open>go-bridge/pairing_session.go\<close>), the
  guards against guessing (\<^verbatim>\<open>pairing_hardening.go\<close>), the claim endpoint and the registry of waiting
  connections (\<^verbatim>\<open>pairing_handler.go\<close>), and the approve and reject handlers of \<^verbatim>\<open>management_api.go\<close>.
  Sessions are objects shared by pointer: the two indexes of the store map to addresses of a heap.
\<close>

section \<open>Sessions\<close>

datatype PairingState =
    PairingCreated | PairingClaimed | PairingApproved | PairingCompleted | PairingRejected | PairingExpired

record PairingSession =
  ps_ID :: string
  ps_QRPayload :: string
  ps_ManualCode :: string
  ps_State :: PairingState
  ps_BridgeID :: string
  ps_DisplayName :: string
  ps_LocalURL :: string
  ps_ClaimingDeviceID :: string
  ps_ClaimingDeviceName :: string
  ps_ClaimingPlatform :: string
  ps_CreatedAt :: gotime
  ps_ExpiresAt :: gotime
  ps_DeviceToken :: string
  ps_DeviceTokenHash :: string
  ps_DeviceID :: string
  ps_RelayClaim :: "string option"

definition pairIDPrefix :: string where
  "pairIDPrefix = ''pair_''"

text \<open>\<^verbatim>\<open>rand.Int\<close> delivers numbers below the size of the alphabet; the argument is what it delivered.\<close>

definition generateRandomString :: "nat list \<Rightarrow> string" where
  "generateRandomString ns = map (\<lambda>n. ''abcdefghijklmnopqrstuvwxyz0123456789'' ! n) ns"

definition generateManualCode :: "nat list \<Rightarrow> string" where
  "generateManualCode ns = map (\<lambda>n. ''0123456789'' ! n) ns"

fun unique_go :: "string list \<Rightarrow> string list \<Rightarrow> string list" where
  "unique_go seen [] = []"
| "unique_go seen (v # vs) =
     (let t = trim_space v
      in if t = [] then unique_go seen vs
         else if t \<in> set seen then unique_go seen vs
         else t # unique_go (t # seen) vs)"

definition uniqueNonEmptyStrings :: "string list \<Rightarrow> string list" where
  "uniqueNonEmptyStrings values = unique_go [] values"

text \<open>\<^verbatim>\<open>url.QueryEscape\<close> and \<^verbatim>\<open>url.Parse\<close> are parameters: \<open>hp\<close> gives host name and port.\<close>

definition parseHostPort :: "(string \<Rightarrow> (string \<times> string) option) \<Rightarrow> string \<Rightarrow> string \<times> string" where
  "parseHostPort hp rawURL =
     (case hp rawURL of
        None \<Rightarrow> ([], [])
      | Some (host, port) \<Rightarrow> (host, if port = [] then ''8777'' else port))"

definition NewPairingSessionWithRemoteURLs ::
  "(string \<Rightarrow> string) \<Rightarrow> (string \<Rightarrow> (string \<times> string) option) \<Rightarrow> nat list \<Rightarrow> nat list \<Rightarrow> gotime
     \<Rightarrow> string \<Rightarrow> string \<Rightarrow> string \<Rightarrow> string list \<Rightarrow> duration \<Rightarrow> PairingSession" where
  "NewPairingSessionWithRemoteURLs esc hp idRnd codeRnd now bridgeID displayName localURL remoteURLs ttl =
     (let pid = pairIDPrefix @ generateRandomString idRnd;
          manualCode = generateManualCode codeRnd;
          qr = ''cccode://pair?id='' @ pid @ ''&code='' @ manualCode;
          (host, port) = parseHostPort hp localURL;
          qr = (if localURL \<noteq> [] \<and> host \<noteq> []
                then qr @ ''&host='' @ host @ ''&port='' @ port @ ''&name='' @ esc displayName else qr);
          qr = qr @ concat (map (\<lambda>u. ''&remote='' @ esc u) (uniqueNonEmptyStrings remoteURLs))
      in \<lparr>ps_ID = pid, ps_QRPayload = qr, ps_ManualCode = manualCode, ps_State = PairingCreated,
          ps_BridgeID = bridgeID, ps_DisplayName = displayName, ps_LocalURL = localURL,
          ps_ClaimingDeviceID = [], ps_ClaimingDeviceName = [], ps_ClaimingPlatform = [],
          ps_CreatedAt = now, ps_ExpiresAt = now + ttl, ps_DeviceToken = [], ps_DeviceTokenHash = [],
          ps_DeviceID = [], ps_RelayClaim = None\<rparr>)"

definition NewPairingSession ::
  "(string \<Rightarrow> string) \<Rightarrow> (string \<Rightarrow> (string \<times> string) option) \<Rightarrow> nat list \<Rightarrow> nat list \<Rightarrow> gotime
     \<Rightarrow> string \<Rightarrow> string \<Rightarrow> string \<Rightarrow> string \<Rightarrow> duration \<Rightarrow> PairingSession" where
  "NewPairingSession esc hp idRnd codeRnd now bridgeID displayName localURL remoteURL ttl =
     NewPairingSessionWithRemoteURLs esc hp idRnd codeRnd now bridgeID displayName localURL
       (if trim_space remoteURL \<noteq> [] then [remoteURL] else []) ttl"

datatype pairing_error = PairingExpiredErr | AlreadyClaimed | InvalidState PairingState | TokenFailed

definition IsExpired :: "gotime \<Rightarrow> PairingSession \<Rightarrow> bool" where
  "IsExpired now s \<longleftrightarrow> ps_ExpiresAt s < now"

definition Claim :: "gotime \<Rightarrow> string \<Rightarrow> string \<Rightarrow> string \<Rightarrow> PairingSession \<Rightarrow> pairing_error + PairingSession" where
  "Claim now deviceID deviceName platform s =
     (if IsExpired now s then Inl PairingExpiredErr
      else if ps_State s \<noteq> PairingCreated
      then if ps_State s = PairingClaimed then Inl AlreadyClaimed else Inl (InvalidState (ps_State s))
      else Inr (s\<lparr>ps_State := PairingClaimed, ps_ClaimingDeviceID := deviceID,
                  ps_ClaimingDeviceName := deviceName, ps_ClaimingPlatform := platform\<rparr>))"

definition Approve ::
  "(bytes \<Rightarrow> bytes) \<Rightarrow> bytes option \<Rightarrow> nat list \<Rightarrow> PairingSession \<Rightarrow> pairing_error + PairingSession" where
  "Approve sha256 rnd idRnd s =
     (if ps_State s \<noteq> PairingClaimed then Inl (InvalidState (ps_State s))
      else case GenerateDeviceToken sha256 rnd of
        None \<Rightarrow> Inl TokenFailed
      | Some (plain, hash) \<Rightarrow>
          Inr (s\<lparr>ps_DeviceToken := plain, ps_DeviceTokenHash := hash,
                 ps_DeviceID := (if ps_ClaimingDeviceID s = [] then ''dev_'' @ generateRandomString idRnd
                                 else ps_ClaimingDeviceID s),
                 ps_State := PairingApproved\<rparr>))"

definition Reject :: "PairingSession \<Rightarrow> pairing_error + PairingSession" where
  "Reject s = (if ps_State s \<noteq> PairingClaimed then Inl (InvalidState (ps_State s))
               else Inr (s\<lparr>ps_State := PairingRejected\<rparr>))"

definition Complete :: "PairingSession \<Rightarrow> pairing_error + PairingSession" where
  "Complete s = (if ps_State s \<noteq> PairingApproved then Inl (InvalidState (ps_State s))
                 else Inr (s\<lparr>ps_State := PairingCompleted, ps_DeviceToken := []\<rparr>))"


section \<open>The session store\<close>

record MemoryPairingStore =
  mp_heap :: "nat \<Rightarrow> PairingSession"
  mp_byID :: "string \<rightharpoonup> nat"
  mp_byManualCode :: "string \<rightharpoonup> nat"

definition mp_Create :: "nat \<Rightarrow> MemoryPairingStore \<Rightarrow> bool \<times> MemoryPairingStore" where
  "mp_Create a st =
     (if mp_byID st (ps_ID (mp_heap st a)) \<noteq> None then (False, st)
      else (True, st\<lparr>mp_byID := (mp_byID st)(ps_ID (mp_heap st a) \<mapsto> a),
                     mp_byManualCode := (mp_byManualCode st)(ps_ManualCode (mp_heap st a) \<mapsto> a)\<rparr>))"

definition mp_Get :: "string \<Rightarrow> MemoryPairingStore \<Rightarrow> nat option" where
  "mp_Get i st = mp_byID st i"

definition mp_GetByManualCode :: "string \<Rightarrow> MemoryPairingStore \<Rightarrow> nat option" where
  "mp_GetByManualCode code st = mp_byManualCode st code"

definition mp_Update :: "nat \<Rightarrow> MemoryPairingStore \<Rightarrow> bool \<times> MemoryPairingStore" where
  "mp_Update a st =
     (if mp_byID st (ps_ID (mp_heap st a)) = None then (False, st)
      else (True, st\<lparr>mp_byID := (mp_byID st)(ps_ID (mp_heap st a) \<mapsto> a),
                     mp_byManualCode := (mp_byManualCode st)(ps_ManualCode (mp_heap st a) \<mapsto> a)\<rparr>))"

definition mp_Delete :: "string \<Rightarrow> MemoryPairingStore \<Rightarrow> MemoryPairingStore" where
  "mp_Delete i st =
     (case mp_byID st i of
        None \<Rightarrow> st
      | Some a \<Rightarrow> st\<lparr>mp_byManualCode := (mp_byManualCode st)(ps_ManualCode (mp_heap st a) := None),
                     mp_byID := (mp_byID st)(i := None)\<rparr>)"

text \<open>The order in which the map is iterated does not matter; \<open>ids\<close> is the list of its keys.\<close>

definition mp_DeleteExpired :: "gotime \<Rightarrow> string list \<Rightarrow> MemoryPairingStore \<Rightarrow> MemoryPairingStore" where
  "mp_DeleteExpired now ids st =
     fold (\<lambda>i st. case mp_byID st i of
                    None \<Rightarrow> st
                  | Some a \<Rightarrow> (if ps_ExpiresAt (mp_heap st a) < now then mp_Delete i st else st)) ids st"

definition mp_CleanupAll :: "MemoryPairingStore \<Rightarrow> MemoryPairingStore" where
  "mp_CleanupAll st = st\<lparr>mp_byID := Map.empty, mp_byManualCode := Map.empty\<rparr>"


section \<open>The guard against guessing\<close>

record slidingBucket =
  sb_window :: duration
  sb_limit :: nat
  sb_counts :: "gotime list"

record pairingAttemptGate =
  pg_sourceBuckets :: "(string \<times> slidingBucket) list"
  pg_pairFails :: "(string \<times> slidingBucket) list"
  pg_activeClaims :: int

definition sourceIPLimit :: nat where "sourceIPLimit = 10"
definition sourceIPWindow :: duration where "sourceIPWindow = minute"
definition perPairingFailLimit :: nat where "perPairingFailLimit = 5"
definition perPairingFailWindow :: duration where "perPairingFailWindow = 5 * minute"
definition globalConcurrentClaims :: int where "globalConcurrentClaims = 16"
definition maxPairingBuckets :: nat where "maxPairingBuckets = 4096"

definition newPairingAttemptGate :: pairingAttemptGate where
  "newPairingAttemptGate = \<lparr>pg_sourceBuckets = [], pg_pairFails = [], pg_activeClaims = 0\<rparr>"

definition fresh_stamps :: "gotime \<Rightarrow> slidingBucket \<Rightarrow> gotime list" where
  "fresh_stamps now b = filter (\<lambda>at. now - sb_window b < at) (sb_counts b)"

definition bucket_allow :: "gotime \<Rightarrow> slidingBucket \<Rightarrow> bool \<times> slidingBucket" where
  "bucket_allow now b =
     (let fresh = fresh_stamps now b
      in if sb_limit b \<le> length fresh then (False, b\<lparr>sb_counts := fresh\<rparr>)
         else (True, b\<lparr>sb_counts := fresh @ [now]\<rparr>))"

definition sweep :: "gotime \<Rightarrow> (string \<times> slidingBucket) list \<Rightarrow> (string \<times> slidingBucket) list" where
  "sweep now bs =
     filter (\<lambda>(k, b). sb_counts b \<noteq> []) (map (\<lambda>(k, b). (k, b\<lparr>sb_counts := fresh_stamps now b\<rparr>)) bs)"

definition sweepStale :: "gotime \<Rightarrow> pairingAttemptGate \<Rightarrow> pairingAttemptGate" where
  "sweepStale now g = g\<lparr>pg_sourceBuckets := sweep now (pg_sourceBuckets g),
                        pg_pairFails := sweep now (pg_pairFails g)\<rparr>"

definition acquire :: "gotime \<Rightarrow> string \<Rightarrow> pairingAttemptGate \<Rightarrow> bool \<times> pairingAttemptGate" where
  "acquire now ip g =
     (let g = sweepStale now g
      in case (case map_of (pg_sourceBuckets g) ip of
                 Some sb \<Rightarrow> Some sb
               | None \<Rightarrow> (if maxPairingBuckets \<le> length (pg_sourceBuckets g) then None
                          else Some \<lparr>sb_window = sourceIPWindow, sb_limit = sourceIPLimit, sb_counts = []\<rparr>)) of
           None \<Rightarrow> (False, g)
         | Some sb \<Rightarrow>
             (let (ok, sb) = bucket_allow now sb;
                  g = g\<lparr>pg_sourceBuckets := AList.update ip sb (pg_sourceBuckets g)\<rparr>
              in if \<not> ok then (False, g)
                 else if globalConcurrentClaims \<le> pg_activeClaims g then (False, g)
                 else (True, g\<lparr>pg_activeClaims := pg_activeClaims g + 1\<rparr>)))"

definition release :: "pairingAttemptGate \<Rightarrow> pairingAttemptGate" where
  "release g = g\<lparr>pg_activeClaims := (if pg_activeClaims g - 1 < 0 then 0 else pg_activeClaims g - 1)\<rparr>"

definition recordPairingFailure :: "string \<Rightarrow> gotime \<Rightarrow> pairingAttemptGate \<Rightarrow> bool \<times> pairingAttemptGate" where
  "recordPairingFailure pairingID now g =
     (let g = sweepStale now g
      in case (case map_of (pg_pairFails g) pairingID of
                 Some b \<Rightarrow> Some b
               | None \<Rightarrow> (if maxPairingBuckets \<le> length (pg_pairFails g) then None
                          else Some \<lparr>sb_window = perPairingFailWindow, sb_limit = perPairingFailLimit, sb_counts = []\<rparr>)) of
           None \<Rightarrow> (False, g)
         | Some b \<Rightarrow>
             (let b = snd (bucket_allow now b)
              in (perPairingFailLimit \<le> length (sb_counts b),
                  g\<lparr>pg_pairFails := AList.update pairingID b (pg_pairFails g)\<rparr>)))"

definition resetPairingFailures :: "string \<Rightarrow> pairingAttemptGate \<Rightarrow> pairingAttemptGate" where
  "resetPairingFailures pairingID g = g\<lparr>pg_pairFails := AList.delete pairingID (pg_pairFails g)\<rparr>"

definition pairingClientIP :: "(string \<Rightarrow> string option) \<Rightarrow> string \<Rightarrow> string" where
  "pairingClientIP split remoteAddr =
     (case split remoteAddr of
        None \<Rightarrow> remoteAddr
      | Some host \<Rightarrow> (if trim_space host \<noteq> [] then trim_space host else remoteAddr))"

text \<open>The constant-time comparison: the OR of the byte differences is zero.\<close>

unbundle bit_operations_syntax

definition hmacEqualString :: "string \<Rightarrow> string \<Rightarrow> bool" where
  "hmacEqualString a b \<longleftrightarrow> length a = length b
     \<and> fold (\<lambda>(x, y) v. v OR (of_char x XOR of_char y)) (zip a b) (0 :: 8 word) = 0"


section \<open>The claim endpoint\<close>

record pairing_claim =
  pcl_Type :: string
  pcl_PairingID :: string
  pcl_ManualCode :: string
  pcl_DeviceID :: string
  pcl_DisplayName :: string
  pcl_Platform :: string

record world =
  w_store :: MemoryPairingStore
  w_gate :: pairingAttemptGate
  w_pending :: "string \<rightharpoonup> nat"
  w_devices :: FileDeviceStore

text \<open>
  What the client is told: success, an error with a code and a message (the messages are numbered in
  the order the source gives them: 0 missing, 1 invalid or expired, 2 too many attempts), or the
  error of the claim itself.
\<close>

datatype pairing_reply =
    ReadEnded
  | BadMessage string
  | ReplyOK
  | ReplyDuplicate
  | ReplyCode string nat
  | ReplyClaimFailed pairing_error

fun read_claim :: "(bytes \<Rightarrow> pairing_claim option) \<Rightarrow> nat \<Rightarrow> (bool \<times> bytes) list \<Rightarrow> pairing_reply + pairing_claim" where
  "read_claim dec n [] = Inl ReadEnded"
| "read_claim dec n ((isText, m) # ms) =
     (if isText \<and> m = bytes_of ''ping'' \<and> n < 2 then read_claim dec (n + 1) ms
      else case dec m of
        None \<Rightarrow> Inl (BadMessage ''invalid message format'')
      | Some c \<Rightarrow>
          (if pcl_Type c \<noteq> ''pairing_claim'' then Inl (BadMessage ''expected pairing_claim message'')
           else Inr c))"

definition pending_Register :: "string \<Rightarrow> nat \<Rightarrow> world \<Rightarrow> bool \<times> world" where
  "pending_Register pid conn w =
     (if w_pending w pid \<noteq> None then (False, w)
      else (True, w\<lparr>w_pending := (w_pending w)(pid \<mapsto> conn)\<rparr>))"

definition pending_Unregister :: "string \<Rightarrow> world \<Rightarrow> world" where
  "pending_Unregister pid w = w\<lparr>w_pending := (w_pending w)(pid := None)\<rparr>"

text \<open>\<open>net\<close> says whether the connection took the push; either way it leaves the registry.\<close>

definition NotifyComplete :: "bool \<Rightarrow> string \<Rightarrow> world \<Rightarrow> bool \<times> world" where
  "NotifyComplete net pid w =
     (case w_pending w pid of
        None \<Rightarrow> (False, w)
      | Some _ \<Rightarrow> (net, w\<lparr>w_pending := (w_pending w)(pid := None)\<rparr>))"

definition set_session :: "nat \<Rightarrow> PairingSession \<Rightarrow> world \<Rightarrow> world" where
  "set_session a s w = w\<lparr>w_store := (w_store w)\<lparr>mp_heap := (mp_heap (w_store w))(a := s)\<rparr>\<rparr>"

definition with_gate :: "(pairingAttemptGate \<Rightarrow> pairingAttemptGate) \<Rightarrow> world \<Rightarrow> world" where
  "with_gate f w = w\<lparr>w_gate := f (w_gate w)\<rparr>"

text \<open>
  From the accepted claim message to the reply. Every return after the acquire gives the slot back,
  except that a connection that has registered keeps it until the wait ends (\<open>pairing_wait_end\<close>).
\<close>

definition pairing_attempt :: "gotime \<Rightarrow> nat \<Rightarrow> pairing_claim \<Rightarrow> world \<Rightarrow> pairing_reply \<times> world" where
  "pairing_attempt now conn c w =
     (case mp_Get (pcl_PairingID c) (w_store w) of
        None \<Rightarrow>
          (let (exhausted, g) = recordPairingFailure (pcl_PairingID c) now (w_gate w)
           in (ReplyCode ''pairing.invalid_code'' 1, with_gate release (w\<lparr>w_gate := g\<rparr>)))
      | Some a \<Rightarrow>
          (let s = mp_heap (w_store w) a
           in if \<not> hmacEqualString (ps_ManualCode s) (pcl_ManualCode c)
              then let (exhausted, g) = recordPairingFailure (ps_ID s) now (w_gate w); w = w\<lparr>w_gate := g\<rparr>
                   in if exhausted
                      then (ReplyCode ''pairing.invalid_code'' 2,
                            with_gate release (w\<lparr>w_store := mp_Delete (ps_ID s) (w_store w)\<rparr>))
                      else (ReplyCode ''pairing.invalid_code'' 1, with_gate release w)
              else case Claim now (pcl_DeviceID c) (pcl_DisplayName c) (pcl_Platform c) s of
                Inl e \<Rightarrow> (ReplyClaimFailed e, with_gate release w)
              | Inr s' \<Rightarrow>
                  (let w = with_gate (resetPairingFailures (ps_ID s)) (set_session a s' w)
                   in case pending_Register (ps_ID s) conn w of
                        (False, w) \<Rightarrow> (ReplyDuplicate, with_gate release w)
                      | (True, w) \<Rightarrow> (ReplyOK, w))))"

definition handlePairingWebSocket ::
  "(bytes \<Rightarrow> pairing_claim option) \<Rightarrow> (string \<Rightarrow> string option) \<Rightarrow> gotime \<Rightarrow> nat \<Rightarrow> string
     \<Rightarrow> (bool \<times> bytes) list \<Rightarrow> world \<Rightarrow> pairing_reply \<times> world" where
  "handlePairingWebSocket dec split now conn remoteAddr ms w =
     (case read_claim dec 0 ms of
        Inl reply \<Rightarrow> (reply, w)
      | Inr c \<Rightarrow>
          (if pcl_PairingID c = [] \<or> pcl_ManualCode c = [] then (ReplyCode ''pairing.invalid_code'' 0, w)
           else let (ok, g) = acquire now (pairingClientIP split remoteAddr) (w_gate w); w = w\<lparr>w_gate := g\<rparr>
                in if \<not> ok then (ReplyCode ''pairing.rate_limited'' 0, w)
                   else pairing_attempt now conn c w))"

definition pairing_wait_end :: "string \<Rightarrow> world \<Rightarrow> world" where
  "pairing_wait_end pid w = with_gate release (pending_Unregister pid w)"


section \<open>Approval\<close>

datatype mgmt_reply =
    MgmtBadRequest string
  | MgmtNotFound
  | MgmtError string
  | MgmtBadGateway
  | MgmtApproved string string
  | MgmtRejected
  | MgmtCreated PairingSession

record approve_env =
  ae_sha :: "bytes \<Rightarrow> bytes"
  ae_rnd :: "bytes option"
  ae_idRnd :: "nat list"
  ae_now :: gotime
  ae_write :: faults
  ae_relay :: bool
  ae_net :: bool

definition relayOrSessionDeviceID :: "PairingSession \<Rightarrow> string" where
  "relayOrSessionDeviceID s =
     (if ps_RelayClaim s \<noteq> None \<and> ps_ClaimingDeviceID s \<noteq> [] then ps_ClaimingDeviceID s else ps_DeviceID s)"

definition approved_record :: "gotime \<Rightarrow> PairingSession \<Rightarrow> TrustedDeviceRecord" where
  "approved_record now s =
     zero_record\<lparr>td_DeviceID := relayOrSessionDeviceID s, td_DisplayName := ps_ClaimingDeviceName s,
       td_Platform := ps_ClaimingPlatform s, td_TokenHash := ps_DeviceTokenHash s, td_CreatedAt := now,
       td_LastSeenAt := now,
       td_IdentityPublicKey := (case ps_RelayClaim s of None \<Rightarrow> [] | Some k \<Rightarrow> k),
       td_RelayEnabled := (ps_RelayClaim s \<noteq> None),
       td_RelayChannelGeneration := (if ps_RelayClaim s \<noteq> None then 1 else 0)\<rparr>"

definition complete_session :: "nat \<Rightarrow> world \<Rightarrow> world" where
  "complete_session a w =
     (let w = (case Complete (mp_heap (w_store w) a) of Inl _ \<Rightarrow> w | Inr s \<Rightarrow> set_session a s w)
      in w\<lparr>w_store := snd (mp_Update a (w_store w))\<rparr>)"

definition handlePairingApprove :: "approve_env \<Rightarrow> string \<Rightarrow> world \<Rightarrow> mgmt_reply \<times> world" where
  "handlePairingApprove E pairID w =
     (if pairID = [] then (MgmtBadRequest ''missing_param'', w)
      else case mp_Get pairID (w_store w) of
        None \<Rightarrow> (MgmtNotFound, w)
      | Some a \<Rightarrow>
          (case Approve (ae_sha E) (ae_rnd E) (ae_idRnd E) (mp_heap (w_store w) a) of
             Inl e \<Rightarrow> (MgmtBadRequest ''invalid_state'', w)
           | Inr s \<Rightarrow>
               (let w = set_session a s w; (ok, st) = mp_Update a (w_store w)
                in if \<not> ok then (MgmtError ''update_failed'', w)
                   else let w = w\<lparr>w_store := st\<rparr>
                        in case fds_ReplaceDevice (ae_write E) (approved_record (ae_now E) s) (w_devices w) of
                             (Inl e, ds) \<Rightarrow> (MgmtError ''device_persist_failed'', w\<lparr>w_devices := ds\<rparr>)
                           | (Inr replaced, ds) \<Rightarrow>
                               (let w = w\<lparr>w_devices := ds\<rparr>
                                in if ps_RelayClaim s \<noteq> None \<and> \<not> ae_relay E then (MgmtBadGateway, w)
                                   else let w = (if ps_RelayClaim s \<noteq> None then w
                                                 else snd (NotifyComplete (ae_net E) pairID w))
                                        in (MgmtApproved (relayOrSessionDeviceID s) (ps_DeviceToken s),
                                            complete_session a w)))))"

definition handlePairingReject :: "bool \<Rightarrow> string \<Rightarrow> world \<Rightarrow> mgmt_reply \<times> world" where
  "handlePairingReject relayOK pairID w =
     (if pairID = [] then (MgmtBadRequest ''missing_param'', w)
      else case mp_Get pairID (w_store w) of
        None \<Rightarrow> (MgmtNotFound, w)
      | Some a \<Rightarrow>
          (case Reject (mp_heap (w_store w) a) of
             Inl e \<Rightarrow> (MgmtBadRequest ''invalid_state'', w)
           | Inr s \<Rightarrow>
               (let w = set_session a s w; (ok, st) = mp_Update a (w_store w)
                in if \<not> ok then (MgmtError ''update_failed'', w)
                   else let w = w\<lparr>w_store := st\<rparr>
                        in if ps_RelayClaim s \<noteq> None \<and> \<not> relayOK then (MgmtBadGateway, w)
                           else (MgmtRejected, w))))"

text \<open>
  Creation: \<open>cc_relayQR\<close> is present when the relay is enabled, configured and has an identity, and is then
  the rewriting of the QR payload that \<^verbatim>\<open>addRelayFirstPairingPayload\<close> does (it may fail); \<open>a\<close> is the address
  of the newly allocated session.
\<close>

record create_cfg =
  cc_esc :: "string \<Rightarrow> string"
  cc_hostport :: "string \<Rightarrow> (string \<times> string) option"
  cc_BridgeID :: string
  cc_DisplayName :: string
  cc_LocalURL :: string
  cc_remoteURLs :: "string list"
  cc_relayQR :: "(string \<Rightarrow> string option) option"

definition create_payload :: "create_cfg \<Rightarrow> PairingSession \<Rightarrow> PairingSession option" where
  "create_payload cfg s =
     (case cc_relayQR cfg of
        None \<Rightarrow> Some s
      | Some f \<Rightarrow> map_option (\<lambda>qr. s\<lparr>ps_QRPayload := qr\<rparr>) (f (ps_QRPayload s)))"

definition handlePairingCreate ::
  "create_cfg \<Rightarrow> nat list \<Rightarrow> nat list \<Rightarrow> gotime \<Rightarrow> nat \<Rightarrow> world \<Rightarrow> mgmt_reply \<times> world" where
  "handlePairingCreate cfg idRnd codeRnd now a w =
     (let s = NewPairingSessionWithRemoteURLs (cc_esc cfg) (cc_hostport cfg) idRnd codeRnd now (cc_BridgeID cfg)
                (cc_DisplayName cfg) (cc_LocalURL cfg) (cc_remoteURLs cfg) (5 * minute)
      in case create_payload cfg s of
           None \<Rightarrow> (MgmtError ''relay_pairing_create_failed'', w)
         | Some s \<Rightarrow>
             (let w = set_session a s w; (ok, st) = mp_Create a (w_store w)
              in if \<not> ok then (MgmtError ''create_failed'', w)
                 else (MgmtCreated s, w\<lparr>w_store := st\<rparr>)))"

end
