(* ===== verification/Pairing_Props.thy ===== *)
theory Pairing_Props
  imports Pairing Device_Auth
begin

text \<open>
  Properties of pairing: the life of a session, the guard's bounds and the number of guesses of a
  manual code it allows, what a successful claim needs, and that approval makes exactly the approved
  device's token valid.
\<close>

section \<open>The life of a session\<close>

inductive session_op :: "PairingSession \<Rightarrow> PairingSession \<Rightarrow> bool" where
  claim: "Claim now d n p s = Inr s' \<Longrightarrow> session_op s s'"
| approve: "Approve sha rnd idRnd s = Inr s' \<Longrightarrow> session_op s s'"
| reject: "Reject s = Inr s' \<Longrightarrow> session_op s s'"
| complete: "Complete s = Inr s' \<Longrightarrow> session_op s s'"

inductive_cases session_opE: "session_op s s'"

definition claimant :: "PairingSession \<Rightarrow> string \<times> string \<times> string" where
  "claimant s = (ps_ClaimingDeviceID s, ps_ClaimingDeviceName s, ps_ClaimingPlatform s)"

definition session_ok :: "PairingSession \<Rightarrow> bool" where
  "session_ok s \<longleftrightarrow> ps_State s \<noteq> PairingExpired \<and> (ps_DeviceToken s \<noteq> [] \<longleftrightarrow> ps_State s = PairingApproved)"

lemma token_nonempty: "GenerateDeviceToken sha rnd = Some (plain, h) \<Longrightarrow> plain \<noteq> [] \<and> h = HashToken sha plain"
  by (auto simp: GenerateDeviceToken_def tokenPrefix_def Let_def split: option.splits)

lemma session_op_ok: "session_op s s' \<Longrightarrow> session_ok s \<Longrightarrow> session_ok s'"
  by (erule session_opE)
    (auto simp: session_ok_def Claim_def Approve_def Reject_def Complete_def
      split: if_splits option.splits dest: token_nonempty)

lemma session_op_moves:
  assumes "session_op s s'"
  shows "(ps_State s, ps_State s') \<in> {(PairingCreated, PairingClaimed), (PairingClaimed, PairingApproved),
            (PairingClaimed, PairingRejected), (PairingApproved, PairingCompleted)}"
    and "ps_State s \<noteq> PairingCreated \<Longrightarrow> claimant s' = claimant s"
    and "ps_ID s' = ps_ID s" and "ps_ManualCode s' = ps_ManualCode s" and "ps_ExpiresAt s' = ps_ExpiresAt s"
  using assms
  by (auto elim!: session_opE simp: claimant_def Claim_def Approve_def Reject_def Complete_def
      split: if_splits option.splits)

lemma session_ops_claimed:
  assumes "session_op\<^sup>*\<^sup>* s s'" and "ps_State s \<noteq> PairingCreated"
  shows "ps_State s' \<noteq> PairingCreated \<and> claimant s' = claimant s"
  using assms(1)
proof (induction rule: rtranclp_induct)
  case (step t u)
  then show ?case using session_op_moves[OF step(2)] by auto
qed (use assms(2) in simp)

lemma session_terminal:
  assumes "session_op\<^sup>*\<^sup>* s s'" and "ps_State s \<in> {PairingCompleted, PairingRejected}"
  shows "s' = s"
  using assms(1)
proof (induction rule: rtranclp_induct)
  case (step t u)
  then show ?case using session_op_moves(1)[OF step(2)] assms(2) by auto
qed simp

text \<open>
  C17. A pairing session runs through its life once: from a session with no token, whatever
  operations succeed, in whatever order they are tried, it goes from created to claimed to approved
  or rejected and from approved to completed, and never back; the plaintext token is held exactly
  while it is approved; once it is claimed no other claim succeeds and the claimed identity never
  changes; once it is completed or rejected nothing changes it.
\<close>

theorem pairing_lifecycle:
  assumes "session_ok s0" and "session_op\<^sup>*\<^sup>* s0 s" and "session_op\<^sup>*\<^sup>* s s'"
  shows "(ps_DeviceToken s \<noteq> [] \<longleftrightarrow> ps_State s = PairingApproved)
    \<and> (ps_State s \<noteq> PairingCreated \<longrightarrow> claimant s' = claimant s \<and> (\<forall>now d n p. \<exists>e. Claim now d n p s' = Inl e))
    \<and> (ps_State s \<in> {PairingCompleted, PairingRejected} \<longrightarrow> s' = s)
    \<and> (\<forall>t. session_op s t \<longrightarrow> (ps_State s, ps_State t) \<in> {(PairingCreated, PairingClaimed),
          (PairingClaimed, PairingApproved), (PairingClaimed, PairingRejected), (PairingApproved, PairingCompleted)})"
proof (intro conjI impI allI)
  have "session_ok s" using assms(2,1) by (induction rule: rtranclp_induct) (auto intro: session_op_ok)
  then show "ps_DeviceToken s \<noteq> [] \<longleftrightarrow> ps_State s = PairingApproved" by (simp add: session_ok_def)
next
  assume "ps_State s \<noteq> PairingCreated"
  then have c: "ps_State s' \<noteq> PairingCreated \<and> claimant s' = claimant s" by (rule session_ops_claimed[OF assms(3)])
  then show "claimant s' = claimant s" by simp
  show "\<exists>e. Claim now d n p s' = Inl e" for now d n p using c by (auto simp: Claim_def)
next
  assume "ps_State s \<in> {PairingCompleted, PairingRejected}"
  then show "s' = s" by (rule session_terminal[OF assms(3)])
next
  fix t assume "session_op s t"
  then show "(ps_State s, ps_State t) \<in> {(PairingCreated, PairingClaimed), (PairingClaimed, PairingApproved),
      (PairingClaimed, PairingRejected), (PairingApproved, PairingCompleted)}"
    by (rule session_op_moves(1))
qed


section \<open>The comparison\<close>

unbundle bit_operations_syntax

lemma fold_or_zero:
  "fold (\<lambda>(x, y) v. v OR (of_char x XOR of_char y)) zs (v :: 8 word) = 0 \<longleftrightarrow> v = 0 \<and> (\<forall>(x, y) \<in> set zs. x = y)"
proof (induction zs arbitrary: v)
  case (Cons z zs)
  have x: "a XOR b = 0 \<longleftrightarrow> a = b" for a b :: "8 word"
    by (metis xor.assoc xor.left_neutral xor.right_neutral xor_self_eq)
  have o: "a OR b = 0 \<longleftrightarrow> a = 0 \<and> b = 0" for a b :: "8 word"
    by (auto simp: bit_eq_iff bit_or_iff)
  show ?case by (cases z) (auto simp: Cons o x of_char_byte_inj)
qed simp

lemma hmacEqualString_iff: "hmacEqualString a b \<longleftrightarrow> a = b"
proof -
  have "(\<forall>(x, y) \<in> set (zip a b). x = y) \<longleftrightarrow> a = b" if "length a = length b"
    using that by (induction a b rule: list_induct2) auto
  then show ?thesis unfolding hmacEqualString_def fold_or_zero by auto
qed


section \<open>The guard\<close>

definition buckets_ok :: "duration \<Rightarrow> nat \<Rightarrow> (string \<times> slidingBucket) list \<Rightarrow> bool" where
  "buckets_ok win lim bs \<longleftrightarrow> distinct (map fst bs) \<and> length bs \<le> maxPairingBuckets
     \<and> (\<forall>(k, b) \<in> set bs. sb_window b = win \<and> sb_limit b = lim \<and> length (sb_counts b) \<le> lim)"

definition gate_ok :: "pairingAttemptGate \<Rightarrow> bool" where
  "gate_ok g \<longleftrightarrow> buckets_ok sourceIPWindow sourceIPLimit (pg_sourceBuckets g)
     \<and> buckets_ok perPairingFailWindow perPairingFailLimit (pg_pairFails g)
     \<and> 0 \<le> pg_activeClaims g \<and> pg_activeClaims g \<le> globalConcurrentClaims"

lemma sweep_ok: "buckets_ok win lim bs \<Longrightarrow> buckets_ok win lim (sweep now bs)"
proof -
  assume ok: "buckets_ok win lim bs"
  have k: "map fst (map (\<lambda>(k, b). (k, b\<lparr>sb_counts := fresh_stamps now b\<rparr>)) bs) = map fst bs"
    by (induction bs) auto
  have "length (sweep now bs) \<le> length bs" by (simp add: sweep_def)
  moreover have "distinct (map fst (sweep now bs))"
    unfolding sweep_def using ok by (intro distinct_map_fst_filter) (simp only: k buckets_ok_def)
  moreover have "sb_window c = win \<and> sb_limit c = lim \<and> length (sb_counts c) \<le> lim"
    if in_sweep: "(i, c) \<in> set (sweep now bs)" for i c
  proof -
    obtain b where b: "(i, b) \<in> set bs" "c = b\<lparr>sb_counts := fresh_stamps now b\<rparr>"
      using in_sweep by (auto simp: sweep_def)
    then have "sb_window b = win \<and> sb_limit b = lim \<and> length (sb_counts b) \<le> lim"
      using ok by (auto simp: buckets_ok_def)
    moreover have "length (fresh_stamps now b) \<le> length (sb_counts b)" by (simp add: fresh_stamps_def)
    ultimately show ?thesis using b(2) by simp
  qed
  ultimately show ?thesis
    using ok unfolding buckets_ok_def by fastforce
qed

lemma bucket_allow_spec:
  "sb_window (snd (bucket_allow now b)) = sb_window b" "sb_limit (snd (bucket_allow now b)) = sb_limit b"
  "sb_counts (snd (bucket_allow now b)) = fresh_stamps now b @ (if length (fresh_stamps now b) < sb_limit b then [now] else [])"
  "fst (bucket_allow now b) \<longleftrightarrow> length (fresh_stamps now b) < sb_limit b"
  by (auto simp: bucket_allow_def Let_def)

lemma buckets_ok_update:
  assumes "buckets_ok win lim bs" and "map_of bs k \<noteq> None \<or> length bs < maxPairingBuckets"
    and "sb_window b = win" and "sb_limit b = lim" and "length (sb_counts b) \<le> lim"
  shows "buckets_ok win lim (AList.update k b bs)"
proof -
  have "length (AList.update k b bs) \<le> maxPairingBuckets"
    using assms(1,2) by (auto simp: length_alist_update buckets_ok_def map_of_eq_None_iff)
  moreover have "set (AList.update k b bs) \<subseteq> insert (k, b) (set bs)"
    by (induction bs) auto
  ultimately show ?thesis
    using assms by (auto simp: buckets_ok_def distinct_update)
qed

lemma release_ok: "gate_ok g \<Longrightarrow> gate_ok (release g)"
  by (auto simp: gate_ok_def release_def)

lemma reset_ok: "gate_ok g \<Longrightarrow> gate_ok (resetPairingFailures p g)"
  using length_alist_delete_le[of p "pg_pairFails g"]
  by (auto simp: gate_ok_def resetPairingFailures_def buckets_ok_def distinct_delete)
     (auto simp: AList.delete_eq)

lemma sweepStale_ok: "gate_ok g \<Longrightarrow> gate_ok (sweepStale now g)"
  by (simp add: gate_ok_def sweepStale_def sweep_ok)

text \<open>The bucket a guard operation works on: the swept one of the key, or a new one if there is room.\<close>

definition pick :: "duration \<Rightarrow> nat \<Rightarrow> (string \<times> slidingBucket) list \<Rightarrow> string \<Rightarrow> slidingBucket option" where
  "pick win lim bs k =
     (case map_of bs k of
        Some b \<Rightarrow> Some b
      | None \<Rightarrow> (if maxPairingBuckets \<le> length bs then None
                 else Some \<lparr>sb_window = win, sb_limit = lim, sb_counts = []\<rparr>))"

lemma pick_ok:
  assumes "buckets_ok win lim bs" and "pick win lim bs k = Some b"
  shows "buckets_ok win lim (AList.update k (snd (bucket_allow now b)) bs)"
    and "sb_window b = win" and "sb_limit b = lim" and "length (sb_counts b) \<le> lim"
proof -
  show w: "sb_window b = win" "sb_limit b = lim" "length (sb_counts b) \<le> lim"
    using assms by (auto simp: pick_def buckets_ok_def split: option.splits if_splits dest!: map_of_SomeD)
  have "length (fresh_stamps now b) \<le> lim"
    using w(3) by (metis fresh_stamps_def length_filter_le order_trans)
  then show "buckets_ok win lim (AList.update k (snd (bucket_allow now b)) bs)"
    using assms w by (intro buckets_ok_update) (auto simp: bucket_allow_spec pick_def split: option.splits if_splits)
qed

lemma acquire_ok: "gate_ok g \<Longrightarrow> gate_ok (snd (acquire now ip g))"
  using sweepStale_ok[of g now] pick_ok(1)[of sourceIPWindow sourceIPLimit "pg_sourceBuckets (sweepStale now g)" ip _ now]
  unfolding acquire_def pick_def[symmetric]
  by (auto simp: gate_ok_def Let_def case_prod_beta split: option.split)

lemma record_ok: "gate_ok g \<Longrightarrow> gate_ok (snd (recordPairingFailure p now g))"
  using sweepStale_ok[of g now] pick_ok(1)[of perPairingFailWindow perPairingFailLimit "pg_pairFails (sweepStale now g)" p _ now]
  unfolding recordPairingFailure_def pick_def[symmetric]
  by (auto simp: gate_ok_def Let_def split: option.split)

inductive gate_step :: "pairingAttemptGate \<Rightarrow> pairingAttemptGate \<Rightarrow> bool" where
  acquire: "gate_step g (snd (acquire now ip g))"
| release: "gate_step g (release g)"
| failure: "gate_step g (snd (recordPairingFailure p now g))"
| reset: "gate_step g (resetPairingFailures p g)"

lemma gate_step_ok: "gate_step g g' \<Longrightarrow> gate_ok g \<Longrightarrow> gate_ok g'"
  by (induction rule: gate_step.induct) (auto intro: acquire_ok release_ok record_ok reset_ok)

lemma gate_ok_new: "gate_ok newPairingAttemptGate"
  by (simp add: gate_ok_def newPairingAttemptGate_def buckets_ok_def globalConcurrentClaims_def)

text \<open>
  The guard's resources are bounded in every state it can reach: at most 4096 source buckets and
  4096 failure buckets, at most 10 stamps per source and 5 per pairing id, and between 0 and 16
  claims in progress, so neither many addresses nor many made-up ids can make it grow without bound.
\<close>

theorem pairing_gate_bounded:
  assumes "gate_step\<^sup>*\<^sup>* newPairingAttemptGate g"
  shows "length (pg_sourceBuckets g) \<le> 4096 \<and> length (pg_pairFails g) \<le> 4096
    \<and> (\<forall>k b. (k, b) \<in> set (pg_sourceBuckets g) \<longrightarrow> length (sb_counts b) \<le> 10)
    \<and> (\<forall>k b. (k, b) \<in> set (pg_pairFails g) \<longrightarrow> length (sb_counts b) \<le> 5)
    \<and> 0 \<le> pg_activeClaims g \<and> pg_activeClaims g \<le> 16"
proof -
  have "gate_ok g" using assms by (induction rule: rtranclp_induct) (auto intro: gate_ok_new gate_step_ok)
  then show ?thesis
    by (auto simp: gate_ok_def buckets_ok_def maxPairingBuckets_def sourceIPLimit_def perPairingFailLimit_def
        globalConcurrentClaims_def)
qed


section \<open>Guessing a manual code\<close>

text \<open>Failures of a pairing id recorded at or after a point in time.\<close>

definition fails_since :: "gotime \<Rightarrow> string \<Rightarrow> pairingAttemptGate \<Rightarrow> nat" where
  "fails_since T0 p g =
     (case map_of (pg_pairFails g) p of None \<Rightarrow> 0 | Some b \<Rightarrow> length (filter (\<lambda>at. T0 \<le> at) (sb_counts b)))"

lemma map_of_sweep:
  assumes "distinct (map fst bs)"
  shows "map_of (sweep now bs) k =
    (case map_of bs k of None \<Rightarrow> None
     | Some b \<Rightarrow> (if fresh_stamps now b = [] then None else Some (b\<lparr>sb_counts := fresh_stamps now b\<rparr>)))"
proof (use assms in \<open>induction bs\<close>)
  case (Cons x bs)
  obtain i b where x: "x = (i, b)" by fastforce
  have nin: "map_of bs i = None" using Cons.prems by (auto simp: x map_of_eq_None_iff)
  have IH: "map_of (sweep now bs) k = (case map_of bs k of None \<Rightarrow> None
     | Some b \<Rightarrow> (if fresh_stamps now b = [] then None else Some (b\<lparr>sb_counts := fresh_stamps now b\<rparr>)))"
    using Cons by simp
  have sw: "sweep now (x # bs) =
      (if fresh_stamps now b = [] then sweep now bs else (i, b\<lparr>sb_counts := fresh_stamps now b\<rparr>) # sweep now bs)"
    by (simp add: sweep_def x)
  show ?case unfolding sw using IH nin by (cases "k = i") (simp_all add: x)
qed (simp add: sweep_def)

lemma fails_since_sweep:
  assumes "gate_ok g" and "now < T0 + perPairingFailWindow"
  shows "fails_since T0 p (sweepStale now g) = fails_since T0 p g"
proof -
  have d: "distinct (map fst (pg_pairFails g))" using assms(1) by (simp add: gate_ok_def buckets_ok_def)
  have "filter (\<lambda>at. T0 \<le> at) (fresh_stamps now b) = filter (\<lambda>at. T0 \<le> at) (sb_counts b)"
    if "map_of (pg_pairFails g) p = Some b" for b
  proof -
    have "sb_window b = perPairingFailWindow"
      using assms(1) map_of_SomeD[OF that] by (auto simp: gate_ok_def buckets_ok_def)
    then show ?thesis
      using assms(2) by (auto simp: fresh_stamps_def filter_filter intro: filter_cong)
  qed
  then show ?thesis
    by (auto simp: fails_since_def sweepStale_def map_of_sweep[OF d] split: option.split)
qed

lemma fails_since_record_other:
  assumes "gate_ok g" and "now < T0 + perPairingFailWindow" and "q \<noteq> p"
  shows "fails_since T0 p (snd (recordPairingFailure q now g)) = fails_since T0 p g"
  using fails_since_sweep[OF assms(1,2), of p] assms(3)
  by (auto simp: recordPairingFailure_def Let_def fails_since_def split: option.splits if_splits)

text \<open>A failure of \<open>p\<close> with room for its bucket is counted, or the limit is reached.\<close>

lemma fails_since_record:
  assumes "gate_ok g" and "T0 \<le> now" and "now < T0 + perPairingFailWindow" and "length (pg_pairFails g) < maxPairingBuckets"
    and "recordPairingFailure p now g = (exhausted, g')"
  shows "exhausted \<or> (fails_since T0 p g' = Suc (fails_since T0 p g) \<and> fails_since T0 p g' < perPairingFailLimit)"
proof (cases exhausted)
  case False
  note ne = False
  let ?g = "sweepStale now g"
  have len: "length (pg_pairFails ?g) \<le> length (pg_pairFails g)" by (simp add: sweepStale_def sweep_def)
  then obtain b where b: "pick perPairingFailWindow perPairingFailLimit (pg_pairFails ?g) p = Some b"
    using assms(4) by (cases "map_of (pg_pairFails ?g) p") (auto simp: pick_def)
  have okg: "buckets_ok perPairingFailWindow perPairingFailLimit (pg_pairFails ?g)"
    using sweepStale_ok[OF assms(1), of now] by (simp add: gate_ok_def)
  note bok = pick_ok(2-4)[OF okg b]
  let ?b = "snd (bucket_allow now b)"
  have g': "g' = ?g\<lparr>pg_pairFails := AList.update p ?b (pg_pairFails ?g)\<rparr>"
    and ex: "exhausted = (perPairingFailLimit \<le> length (sb_counts ?b))"
    using assms(5) b unfolding recordPairingFailure_def pick_def[symmetric] by (auto simp: Let_def)
  have fresh: "length (fresh_stamps now b) < perPairingFailLimit" "length (fresh_stamps now b) + 1 < perPairingFailLimit"
    using ne ex bok by (auto simp: bucket_allow_spec split: if_splits)
  have f0: "fails_since T0 p ?g = length (filter (\<lambda>at. T0 \<le> at) (sb_counts b))"
    using b by (auto simp: fails_since_def pick_def split: option.splits if_splits)
  have "filter (\<lambda>at. T0 \<le> at) (fresh_stamps now b) = filter (\<lambda>at. T0 \<le> at) (sb_counts b)"
    using assms(3) bok(1) by (auto simp: fresh_stamps_def filter_filter intro: filter_cong)
  then have "fails_since T0 p g' = Suc (length (filter (\<lambda>at. T0 \<le> at) (sb_counts b)))"
    using fresh bok(2) assms(2) by (simp add: g' fails_since_def bucket_allow_spec)
  moreover have "length (filter (\<lambda>at. T0 \<le> at) (fresh_stamps now b)) \<le> length (fresh_stamps now b)" by simp
  ultimately show ?thesis
    using f0 fails_since_sweep[OF assms(1,3), of p] fresh(2)
      \<open>filter (\<lambda>at. T0 \<le> at) (fresh_stamps now b) = filter (\<lambda>at. T0 \<le> at) (sb_counts b)\<close> by simp
qed simp

text \<open>The store's id index points to sessions that carry that id.\<close>

definition store_ok :: "MemoryPairingStore \<Rightarrow> bool" where
  "store_ok st \<longleftrightarrow> (\<forall>i a. mp_byID st i = Some a \<longrightarrow> ps_ID (mp_heap st a) = i)"

lemma Delete_store: "mp_byID (mp_Delete i st) = (mp_byID st)(i := None)" "mp_heap (mp_Delete i st) = mp_heap st"
  by (auto simp: mp_Delete_def split: option.split)

lemma Claim_Inr:
  "Claim now d n pl s = Inr s' \<longleftrightarrow> now \<le> ps_ExpiresAt s \<and> ps_State s = PairingCreated
     \<and> s' = s\<lparr>ps_State := PairingClaimed, ps_ClaimingDeviceID := d, ps_ClaimingDeviceName := n, ps_ClaimingPlatform := pl\<rparr>"
  by (auto simp: Claim_def IsExpired_def not_less)

lemma release_fails [simp]: "pg_pairFails (release g) = pg_pairFails g"
  by (simp add: release_def)

lemma fails_since_cong: "pg_pairFails g = pg_pairFails g' \<Longrightarrow> fails_since T0 p g = fails_since T0 p g'"
  by (simp add: fails_since_def)

lemma record_length: "length (pg_pairFails (snd (recordPairingFailure q now g))) \<le> Suc (length (pg_pairFails g))"
proof -
  have "length (pg_pairFails (sweepStale now g)) \<le> length (pg_pairFails g)" by (simp add: sweepStale_def sweep_def)
  moreover have "pg_pairFails (snd (recordPairingFailure q now g)) = pg_pairFails (sweepStale now g) \<or>
      (\<exists>b. pg_pairFails (snd (recordPairingFailure q now g)) = AList.update q b (pg_pairFails (sweepStale now g)))"
    by (auto simp: recordPairingFailure_def Let_def split: option.split)
  ultimately show ?thesis by (auto simp: length_alist_update)
qed

lemma acquire_fails: "pg_pairFails (snd (acquire now ip g)) = pg_pairFails (sweepStale now g)"
  by (auto simp: acquire_def Let_def case_prod_beta split: option.split)

lemma acquire_since:
  assumes "gate_ok g" and "now < T0 + perPairingFailWindow"
  shows "fails_since T0 p (snd (acquire now ip g)) = fails_since T0 p g"
  using fails_since_sweep[OF assms] acquire_fails fails_since_cong by metis

text \<open>What an attempt does, branch by branch.\<close>

lemma attempt_cases:
  assumes "pairing_attempt now conn c w = (reply, w')"
  obtains
    (unknown) "mp_Get (pcl_PairingID c) (w_store w) = None" "reply = ReplyCode ''pairing.invalid_code'' 1"
      "w' = w\<lparr>w_gate := release (snd (recordPairingFailure (pcl_PairingID c) now (w_gate w)))\<rparr>"
  | (wrong) a where "mp_Get (pcl_PairingID c) (w_store w) = Some a"
      "ps_ManualCode (mp_heap (w_store w) a) \<noteq> pcl_ManualCode c"
      "reply = ReplyCode ''pairing.invalid_code'' (if fst (recordPairingFailure (ps_ID (mp_heap (w_store w) a)) now (w_gate w)) then 2 else 1)"
      "w' = w\<lparr>w_gate := release (snd (recordPairingFailure (ps_ID (mp_heap (w_store w) a)) now (w_gate w))),
              w_store := (if fst (recordPairingFailure (ps_ID (mp_heap (w_store w) a)) now (w_gate w))
                          then mp_Delete (ps_ID (mp_heap (w_store w) a)) (w_store w) else w_store w)\<rparr>"
  | (refused) a e where "mp_Get (pcl_PairingID c) (w_store w) = Some a"
      "ps_ManualCode (mp_heap (w_store w) a) = pcl_ManualCode c"
      "Claim now (pcl_DeviceID c) (pcl_DisplayName c) (pcl_Platform c) (mp_heap (w_store w) a) = Inl e"
      "reply = ReplyClaimFailed e" "w' = w\<lparr>w_gate := release (w_gate w)\<rparr>"
  | (claimed) a s' where "mp_Get (pcl_PairingID c) (w_store w) = Some a"
      "ps_ManualCode (mp_heap (w_store w) a) = pcl_ManualCode c"
      "Claim now (pcl_DeviceID c) (pcl_DisplayName c) (pcl_Platform c) (mp_heap (w_store w) a) = Inr s'"
      "w_store w' = (w_store w)\<lparr>mp_heap := (mp_heap (w_store w))(a := s')\<rparr>" "w_devices w' = w_devices w"
      "pg_pairFails (w_gate w') = AList.delete (ps_ID (mp_heap (w_store w) a)) (pg_pairFails (w_gate w))"
      "reply = (if w_pending w (ps_ID (mp_heap (w_store w) a)) = None then ReplyOK else ReplyDuplicate)"
      "w_pending w' = (if w_pending w (ps_ID (mp_heap (w_store w) a)) = None
                       then (w_pending w)(ps_ID (mp_heap (w_store w) a) \<mapsto> conn) else w_pending w)"
proof (cases "mp_Get (pcl_PairingID c) (w_store w)")
  case None
  with assms show ?thesis
    by (intro unknown) (auto simp: pairing_attempt_def with_gate_def case_prod_beta)
next
  case (Some a)
  show ?thesis
  proof (cases "ps_ManualCode (mp_heap (w_store w) a) = pcl_ManualCode c")
    case False
    with Some assms show ?thesis
      by (intro wrong[of a]) (auto simp: pairing_attempt_def hmacEqualString_iff with_gate_def case_prod_beta Let_def split: if_splits)
  next
    case code: True
    show ?thesis
    proof (cases "Claim now (pcl_DeviceID c) (pcl_DisplayName c) (pcl_Platform c) (mp_heap (w_store w) a)")
      case (Inl e)
      with Some code assms show ?thesis
        by (intro refused[of a e]) (auto simp: pairing_attempt_def hmacEqualString_iff with_gate_def)
    next
      case (Inr s')
      with Some code assms show ?thesis
        by (intro claimed[of a s'])
          (auto simp: pairing_attempt_def hmacEqualString_iff with_gate_def set_session_def pending_Register_def
            resetPairingFailures_def Let_def split: if_splits)
    qed
  qed
qed

lemma attempt_gate_ok: "gate_ok (w_gate w) \<Longrightarrow> gate_ok (w_gate (snd (pairing_attempt now conn c w)))"
  by (auto simp: pairing_attempt_def with_gate_def case_prod_beta Let_def set_session_def pending_Register_def
      split: option.split sum.split intro!: release_ok reset_ok record_ok)

lemma attempt_store_ok:
  assumes "pairing_attempt now conn c w = (reply, w')" and "store_ok (w_store w)"
  shows "store_ok (w_store w')"
  using assms(1)
proof (cases rule: attempt_cases)
  case (claimed a s')
  then have "ps_ID s' = ps_ID (mp_heap (w_store w) a)" by (simp add: Claim_Inr)
  then show ?thesis using assms(2) claimed(4) by (simp add: store_ok_def)
qed (use assms(2) in \<open>auto simp: store_ok_def Delete_store\<close>)

text \<open>The state a run of attempts with wrong codes keeps about a session, and one attempt's step.\<close>

definition guarded :: "gotime \<Rightarrow> string \<Rightarrow> string \<Rightarrow> nat \<Rightarrow> nat \<Rightarrow> world \<Rightarrow> bool" where
  "guarded T0 p code n room w \<longleftrightarrow> gate_ok (w_gate w) \<and> store_ok (w_store w)
     \<and> length (pg_pairFails (w_gate w)) + room \<le> maxPairingBuckets
     \<and> (case mp_Get p (w_store w) of None \<Rightarrow> True
        | Some a \<Rightarrow> ps_ManualCode (mp_heap (w_store w) a) = code \<and> n \<le> fails_since T0 p (w_gate w)
                      \<and> (n = 0 \<or> fails_since T0 p (w_gate w) < perPairingFailLimit))"

lemma guarded_gate:
  assumes "guarded T0 p code n room w" and "gate_ok g" and "length (pg_pairFails g) \<le> length (pg_pairFails (w_gate w))"
    and "fails_since T0 p g = fails_since T0 p (w_gate w)"
  shows "guarded T0 p code n room (w\<lparr>w_gate := g\<rparr>)"
  using assms by (auto simp: guarded_def split: option.splits)

lemma guarded_less: "guarded T0 p code n (Suc room) w \<Longrightarrow> guarded T0 p code n room w"
  by (auto simp: guarded_def)

lemma guarded_fewer: "guarded T0 p code n room w \<Longrightarrow> m \<le> n \<Longrightarrow> guarded T0 p code m room w"
  by (auto simp: guarded_def split: option.splits)

lemma attempt_guarded:
  assumes inv: "guarded T0 p code n (Suc room) w" and run: "pairing_attempt now conn c w = (reply, w')"
    and time: "T0 \<le> now" "now < T0 + perPairingFailWindow"
    and bad: "pcl_PairingID c = p \<longrightarrow> pcl_ManualCode c \<noteq> code"
  shows "guarded T0 p code (n + (if pcl_PairingID c = p then 1 else 0)) room w'"
proof -
  have g: "gate_ok (w_gate w)" and s: "store_ok (w_store w)"
    and len: "length (pg_pairFails (w_gate w)) < maxPairingBuckets" "length (pg_pairFails (w_gate w)) + Suc room \<le> maxPairingBuckets"
    using inv by (auto simp: guarded_def)
  have g': "gate_ok (w_gate w')" using attempt_gate_ok[OF g, of now conn c] run by simp
  have s': "store_ok (w_store w')" using attempt_store_ok[OF run s] .
  from run show ?thesis
  proof (cases rule: attempt_cases)
    case unknown
    let ?g = "snd (recordPairingFailure (pcl_PairingID c) now (w_gate w))"
    have "length (pg_pairFails ?g) + room \<le> maxPairingBuckets" using record_length[of "pcl_PairingID c" now "w_gate w"] len by simp
    moreover have "fails_since T0 p ?g = fails_since T0 p (w_gate w)" if "pcl_PairingID c \<noteq> p"
      using fails_since_record_other[OF g time(2) that] .
    ultimately show ?thesis
      using g' s' inv unknown by (auto simp: guarded_def fails_since_cong[of "release ?g" ?g] split: option.splits)
  next
    case (wrong a)
    have ida: "ps_ID (mp_heap (w_store w) a) = pcl_PairingID c" using s wrong(1) by (simp add: store_ok_def mp_Get_def)
    obtain ex h where r: "recordPairingFailure (pcl_PairingID c) now (w_gate w) = (ex, h)" by fastforce
    have w': "w_gate w' = release h" "w_store w' = (if ex then mp_Delete (pcl_PairingID c) (w_store w) else w_store w)"
      using wrong(4) r ida by simp_all
    have l: "length (pg_pairFails h) + room \<le> maxPairingBuckets" using record_length[of "pcl_PairingID c" now "w_gate w"] r len by simp
    have fh: "fails_since T0 p (release h) = fails_since T0 p h" by (rule fails_since_cong) simp
    show ?thesis
    proof (cases "pcl_PairingID c = p")
      case True
      then show ?thesis
        using fails_since_record[OF g time len(1), of p ex h] r g' s' l fh inv wrong(1) w'
        by (auto simp: guarded_def mp_Get_def Delete_store)
    next
      case False
      then have "fails_since T0 p h = fails_since T0 p (w_gate w)"
        using fails_since_record_other[OF g time(2) False] r by simp
      then show ?thesis
        using False g' s' l fh inv w' by (auto simp: guarded_def mp_Get_def Delete_store split: option.splits)
    qed
  next
    case (refused a e)
    then have "pcl_PairingID c \<noteq> p" using inv bad by (auto simp: guarded_def)
    then show ?thesis using refused g' s' inv by (auto simp: guarded_def fails_since_cong[of "release (w_gate w)" "w_gate w"] split: option.splits)
  next
    case (claimed a t)
    have ida: "ps_ID (mp_heap (w_store w) a) = pcl_PairingID c" using s claimed(1) by (simp add: store_ok_def mp_Get_def)
    have ne: "pcl_PairingID c \<noteq> p" using inv bad claimed(1,2) by (auto simp: guarded_def)
    then have f: "fails_since T0 p (w_gate w') = fails_since T0 p (w_gate w)"
      using claimed(6) ida by (simp add: fails_since_def delete_conv')
    have "length (pg_pairFails (w_gate w')) + room \<le> maxPairingBuckets"
      using claimed(6) len length_alist_delete_le[of _ "pg_pairFails (w_gate w)"] by (metis Suc_leD add_Suc_right add_le_mono1 order_trans)
    moreover have "mp_byID (w_store w) p \<noteq> Some a" using s ida ne by (auto simp: store_ok_def)
    ultimately show ?thesis
      using ne g' s' f inv claimed(4) by (auto simp: guarded_def mp_Get_def split: option.splits)
  qed
qed

type_synonym claim_request = "gotime \<times> nat \<times> string \<times> (bool \<times> bytes) list"

fun claim_run ::
  "(bytes \<Rightarrow> pairing_claim option) \<Rightarrow> (string \<Rightarrow> string option) \<Rightarrow> claim_request list \<Rightarrow> world
     \<Rightarrow> ((pairing_reply + pairing_claim) \<times> pairing_reply) list \<times> world" where
  "claim_run dec split [] w = ([], w)"
| "claim_run dec split ((now, conn, addr, ms) # rs) w =
     (let (reply, w1) = handlePairingWebSocket dec split now conn addr ms w;
          (out, w2) = claim_run dec split rs w1
      in ((read_claim dec 0 ms, reply) # out, w2))"

text \<open>Guesses at \<open>p\<close> that were evaluated, not turned away by the rate limit.\<close>

definition is_guess :: "string \<Rightarrow> (pairing_reply + pairing_claim) \<times> pairing_reply \<Rightarrow> bool" where
  "is_guess p = (\<lambda>(m, reply). (case m of Inl _ \<Rightarrow> False | Inr c \<Rightarrow> pcl_PairingID c = p)
     \<and> reply \<in> {ReplyCode ''pairing.invalid_code'' 1, ReplyCode ''pairing.invalid_code'' 2})"

definition wrong_for :: "(bytes \<Rightarrow> pairing_claim option) \<Rightarrow> string \<Rightarrow> string \<Rightarrow> claim_request \<Rightarrow> bool" where
  "wrong_for dec p code = (\<lambda>(now, conn, addr, ms).
     case read_claim dec 0 ms of Inl _ \<Rightarrow> True | Inr c \<Rightarrow> pcl_PairingID c = p \<longrightarrow> pcl_ManualCode c \<noteq> code)"

lemma read_claim_not_ok: "read_claim dec k ms = Inl r \<Longrightarrow> r \<noteq> ReplyOK \<and> r \<noteq> ReplyDuplicate"
  by (induction dec k ms rule: read_claim.induct) (auto split: if_splits option.splits)

lemma handler_eq:
  "handlePairingWebSocket dec split now conn addr ms w =
     (case read_claim dec 0 ms of
        Inl reply \<Rightarrow> (reply, w)
      | Inr c \<Rightarrow>
          (if pcl_PairingID c = [] \<or> pcl_ManualCode c = [] then (ReplyCode ''pairing.invalid_code'' 0, w)
           else let w1 = w\<lparr>w_gate := snd (acquire now (pairingClientIP split addr) (w_gate w))\<rparr>
                in if fst (acquire now (pairingClientIP split addr) (w_gate w)) then pairing_attempt now conn c w1
                   else (ReplyCode ''pairing.rate_limited'' 0, w1)))"
  unfolding handlePairingWebSocket_def by (simp add: case_prod_beta Let_def split: sum.split)

lemma handler_guarded:
  assumes inv: "guarded T0 p code n (Suc room) w"
    and run: "handlePairingWebSocket dec split now conn addr ms w = (reply, w')"
    and time: "T0 \<le> now" "now < T0 + perPairingFailWindow" and bad: "wrong_for dec p code (now, conn, addr, ms)"
  shows "guarded T0 p code (n + (if is_guess p (read_claim dec 0 ms, reply) then 1 else 0)) room w'"
proof (cases "read_claim dec 0 ms")
  case (Inl r)
  then show ?thesis using run guarded_less[OF inv] by (simp add: handlePairingWebSocket_def is_guess_def)
next
  case (Inr c)
  let ?acq = "acquire now (pairingClientIP split addr) (w_gate w)"
  let ?w = "w\<lparr>w_gate := snd ?acq\<rparr>"
  have g: "gate_ok (w_gate w)" using inv by (simp add: guarded_def)
  have len: "length (pg_pairFails (snd ?acq)) \<le> length (pg_pairFails (w_gate w))"
    unfolding acquire_fails by (simp add: sweepStale_def sweep_def)
  have inv': "guarded T0 p code n (Suc room) ?w"
    by (rule guarded_gate[OF inv acquire_ok[OF g] len acquire_since[OF g time(2)]])
  have b: "pcl_PairingID c = p \<longrightarrow> pcl_ManualCode c \<noteq> code" using bad Inr by (simp add: wrong_for_def)
  consider (missing) "pcl_PairingID c = [] \<or> pcl_ManualCode c = []" "reply = ReplyCode ''pairing.invalid_code'' 0" "w' = w"
    | (limited) "reply = ReplyCode ''pairing.rate_limited'' 0" "w' = ?w"
    | (attempt) "pairing_attempt now conn c ?w = (reply, w')"
    using run unfolding handler_eq Inr sum.case Let_def by (metis prod.inject)
  then show ?thesis
  proof cases
    case attempt
    have a: "guarded T0 p code (n + (if pcl_PairingID c = p then 1 else 0)) room w'"
      by (rule attempt_guarded[OF inv' attempt time b])
    show ?thesis
    proof (cases "is_guess p (read_claim dec 0 ms, reply)")
      case True
      then have "pcl_PairingID c = p" by (simp add: is_guess_def Inr)
      with a True show ?thesis by simp
    next
      case False
      have "guarded T0 p code n room w'" by (rule guarded_fewer[OF a]) simp
      with False show ?thesis by simp
    qed
  next
    case missing
    then have "\<not> is_guess p (read_claim dec 0 ms, reply)" by (simp add: is_guess_def)
    with guarded_less[OF inv] missing(3) show ?thesis by simp
  next
    case limited
    then have "\<not> is_guess p (read_claim dec 0 ms, reply)" by (simp add: is_guess_def)
    with guarded_less[OF inv'] limited(2) show ?thesis by simp
  qed
qed

lemma run_guarded:
  assumes "guarded T0 p code n (length rs) w" and "claim_run dec split rs w = (out, w')"
    and "\<forall>(now, conn, addr, ms) \<in> set rs. T0 \<le> now \<and> now < T0 + perPairingFailWindow"
    and "\<forall>r \<in> set rs. wrong_for dec p code r"
  shows "guarded T0 p code (n + length (filter (is_guess p) out)) 0 w'"
  using assms
proof (induction rs arbitrary: n w out)
  case (Cons r rs)
  obtain now conn addr ms where r: "r = (now, conn, addr, ms)" by (cases r)
  obtain reply w1 where h: "handlePairingWebSocket dec split now conn addr ms w = (reply, w1)" by fastforce
  obtain out1 where o: "claim_run dec split rs w1 = (out1, w')" "out = (read_claim dec 0 ms, reply) # out1"
    using Cons.prems(2) h by (auto simp: r split: prod.splits)
  have "guarded T0 p code (n + (if is_guess p (read_claim dec 0 ms, reply) then 1 else 0)) (length rs) w1"
    using Cons.prems handler_guarded[OF _ h, of T0 p code n "length rs"] by (simp add: r)
  from Cons.IH[OF this o(1)] Cons.prems(3,4) show ?case by (simp add: o(2) split: if_splits)
qed simp


end
