(* ===== verification/Pairing_Approval.thy ===== *)
theory Pairing_Approval
  imports Pairing_Props
begin

text \<open>
  What pairing gives and what it needs: a claim succeeds exactly with the right code on a fresh
  session, approval makes exactly the approved device's token valid, and nothing else of the pairing
  endpoints touches the trusted devices. The last section holds the concrete runs.
\<close>

section \<open>Claims\<close>

definition claimable ::
  "(bytes \<Rightarrow> pairing_claim option) \<Rightarrow> (string \<Rightarrow> string option) \<Rightarrow> gotime \<Rightarrow> string \<Rightarrow> (bool \<times> bytes) list \<Rightarrow> world
     \<Rightarrow> pairing_claim \<Rightarrow> nat \<Rightarrow> bool" where
  "claimable dec split now addr ms w c a \<longleftrightarrow>
     read_claim dec 0 ms = Inr c \<and> pcl_PairingID c \<noteq> [] \<and> pcl_ManualCode c \<noteq> []
     \<and> fst (acquire now (pairingClientIP split addr) (w_gate w))
     \<and> mp_Get (pcl_PairingID c) (w_store w) = Some a
     \<and> ps_ManualCode (mp_heap (w_store w) a) = pcl_ManualCode c
     \<and> ps_State (mp_heap (w_store w) a) = PairingCreated \<and> now \<le> ps_ExpiresAt (mp_heap (w_store w) a)
     \<and> w_pending w (pcl_PairingID c) = None"

definition claimed_by :: "pairing_claim \<Rightarrow> PairingSession \<Rightarrow> PairingSession" where
  "claimed_by c s = s\<lparr>ps_State := PairingClaimed, ps_ClaimingDeviceID := pcl_DeviceID c,
     ps_ClaimingDeviceName := pcl_DisplayName c, ps_ClaimingPlatform := pcl_Platform c\<rparr>"

lemma attempt_ok_iff:
  assumes "pairing_attempt now conn c w = (reply, w')" and "store_ok (w_store w)"
  shows "reply = ReplyOK \<longleftrightarrow> (\<exists>a. mp_Get (pcl_PairingID c) (w_store w) = Some a
     \<and> ps_ManualCode (mp_heap (w_store w) a) = pcl_ManualCode c
     \<and> ps_State (mp_heap (w_store w) a) = PairingCreated \<and> now \<le> ps_ExpiresAt (mp_heap (w_store w) a)
     \<and> w_pending w (pcl_PairingID c) = None)"
  using assms(1)
proof (cases rule: attempt_cases)
  case (refused a e)
  then have "\<not> (now \<le> ps_ExpiresAt (mp_heap (w_store w) a) \<and> ps_State (mp_heap (w_store w) a) = PairingCreated)"
    by (auto simp: Claim_def IsExpired_def split: if_splits)
  then show ?thesis using refused by auto
next
  case (claimed a s')
  have "ps_ID (mp_heap (w_store w) a) = pcl_PairingID c"
    using assms(2) claimed(1) by (simp add: store_ok_def mp_Get_def)
  then show ?thesis using claimed by (auto simp: Claim_Inr)
qed auto

lemma attempt_effect:
  assumes "pairing_attempt now conn c w = (reply, w')"
  shows "w_devices w' = w_devices w"
    and "reply \<noteq> ReplyOK \<Longrightarrow> w_pending w' = w_pending w"
    and "reply \<noteq> ReplyOK \<Longrightarrow> reply \<noteq> ReplyDuplicate \<Longrightarrow> mp_heap (w_store w') = mp_heap (w_store w)"
    and "reply = ReplyOK \<Longrightarrow> store_ok (w_store w) \<Longrightarrow>
      (\<exists>a. mp_Get (pcl_PairingID c) (w_store w) = Some a
         \<and> w_store w' = (w_store w)\<lparr>mp_heap := (mp_heap (w_store w))(a := claimed_by c (mp_heap (w_store w) a))\<rparr>)
      \<and> w_pending w' = (w_pending w)(pcl_PairingID c \<mapsto> conn)"
  by (use assms in \<open>cases rule: attempt_cases; auto simp: Delete_store Claim_Inr claimed_by_def store_ok_def mp_Get_def split: if_splits\<close>)+

lemma acquire_world [simp]:
  "w_store (w\<lparr>w_gate := g\<rparr>) = w_store w" "w_pending (w\<lparr>w_gate := g\<rparr>) = w_pending w" "w_devices (w\<lparr>w_gate := g\<rparr>) = w_devices w"
  by simp_all

text \<open>
  A pairing claim succeeds exactly when it should: the message is a claim with both factors, the
  guard lets it pass, the pairing id names a session that has not expired and nobody has claimed, the
  manual code is that session's, and no other connection is waiting on it. It then claims that
  session for the device of the message and registers the connection. An answer other than success
  leaves every waiting connection, and unless another connection was already waiting every session,
  as it was; and no claim ever touches the trusted devices.
\<close>

theorem pairing_claim_exact:
  assumes "store_ok (w_store w)" and "handlePairingWebSocket dec split now conn addr ms w = (reply, w')"
  shows "(reply = ReplyOK \<longleftrightarrow> (\<exists>c a. claimable dec split now addr ms w c a))
    \<and> (reply = ReplyOK \<longrightarrow> (\<exists>c a. claimable dec split now addr ms w c a
          \<and> w_store w' = (w_store w)\<lparr>mp_heap := (mp_heap (w_store w))(a := claimed_by c (mp_heap (w_store w) a))\<rparr>
          \<and> w_pending w' = (w_pending w)(pcl_PairingID c \<mapsto> conn)))
    \<and> (reply \<noteq> ReplyOK \<longrightarrow> w_pending w' = w_pending w)
    \<and> (reply \<notin> {ReplyOK, ReplyDuplicate} \<longrightarrow> mp_heap (w_store w') = mp_heap (w_store w))
    \<and> w_devices w' = w_devices w"
proof (cases "read_claim dec 0 ms")
  case (Inl r)
  then have "r \<noteq> ReplyOK \<and> r \<noteq> ReplyDuplicate" by (rule read_claim_not_ok)
  with Inl assms(2) show ?thesis by (simp add: handler_eq claimable_def)
next
  case (Inr c)
  let ?w = "w\<lparr>w_gate := snd (acquire now (pairingClientIP split addr) (w_gate w))\<rparr>"
  show ?thesis
  proof (cases "pcl_PairingID c = [] \<or> pcl_ManualCode c = [] \<or> \<not> fst (acquire now (pairingClientIP split addr) (w_gate w))")
    case True
    with Inr assms(2) have "reply \<noteq> ReplyOK \<and> reply \<noteq> ReplyDuplicate \<and> (\<exists>g. w' = w\<lparr>w_gate := g\<rparr>)"
      unfolding handler_eq by (auto simp: Let_def split: if_splits intro: exI[of _ "w_gate w"])
    then show ?thesis using True Inr by (auto simp: claimable_def)
  next
    case False
    with Inr assms(2) have a: "pairing_attempt now conn c ?w = (reply, w')" by (auto simp: handler_eq Let_def split: if_splits)
    have so: "store_ok (w_store ?w)" using assms(1) by simp
    have cl: "claimable dec split now addr ms w c' x \<longleftrightarrow> c' = c \<and> mp_Get (pcl_PairingID c) (w_store w) = Some x
       \<and> ps_ManualCode (mp_heap (w_store w) x) = pcl_ManualCode c
       \<and> ps_State (mp_heap (w_store w) x) = PairingCreated \<and> now \<le> ps_ExpiresAt (mp_heap (w_store w) x)
       \<and> w_pending w (pcl_PairingID c) = None" for c' x
      using False Inr by (auto simp: claimable_def)
    have iff: "reply = ReplyOK \<longleftrightarrow> (\<exists>c a. claimable dec split now addr ms w c a)"
      unfolding attempt_ok_iff[OF a so] cl by simp
    note eff = attempt_effect[OF a, unfolded acquire_world]
    show ?thesis
    proof (intro conjI impI)
      assume ok: "reply = ReplyOK"
      then obtain x where "claimable dec split now addr ms w c x" using iff cl by auto
      moreover from this eff(4)[OF ok] assms(1) have
        "w_store w' = (w_store w)\<lparr>mp_heap := (mp_heap (w_store w))(x := claimed_by c (mp_heap (w_store w) x))\<rparr>"
        "w_pending w' = (w_pending w)(pcl_PairingID c \<mapsto> conn)" by (auto simp: cl)
      ultimately show "\<exists>c a. claimable dec split now addr ms w c a
          \<and> w_store w' = (w_store w)\<lparr>mp_heap := (mp_heap (w_store w))(a := claimed_by c (mp_heap (w_store w) a))\<rparr>
          \<and> w_pending w' = (w_pending w)(pcl_PairingID c \<mapsto> conn)" by blast
    qed (use iff eff in auto)
  qed
qed


section \<open>What a client can tell\<close>

text \<open>
  A wrong code for an existing session and a claim of an unknown id are answered alike, except
  when the failure is the one that exhausts the session: then the answer to the wrong code says so.
  The answers therefore tell a session that exists from one that does not exactly at the fifth failure.
\<close>

theorem exhaustion_reveals_session:
  assumes "mp_Get (pcl_PairingID c) (w_store w) = Some a" and "ps_ID (mp_heap (w_store w) a) = pcl_PairingID c"
    and "ps_ManualCode (mp_heap (w_store w) a) \<noteq> pcl_ManualCode c"
    and "mp_Get (pcl_PairingID c) (w_store v) = None" and "w_gate v = w_gate w"
  shows "fst (pairing_attempt now conn c w) = fst (pairing_attempt now conn c v)
    \<longleftrightarrow> \<not> fst (recordPairingFailure (pcl_PairingID c) now (w_gate w))"
  using assms by (simp add: pairing_attempt_def hmacEqualString_iff case_prod_beta Let_def)


section \<open>Approval\<close>

lemma replaced_authenticates:
  assumes "fds_ok s" and "fresh_token rec (fs_mem s)" and "td_RevokedAt rec = None"
    and "fds_ReplaceDevice f rec s = (Inr r, s')"
    and "token \<noteq> []" and "ValidateTokenPrefix token" and "td_TokenHash rec = HashToken sha token"
  shows "ValidateDeviceAuth sha (fs_mem s') token (td_DeviceID rec) = Inr rec \<and> fds_ok s'"
proof -
  have ok': "fds_ok s'" using fds_step_ok[OF fds_step.replace[OF assms(2), of f] assms(1)] assms(4) by simp
  from assms(4)[unfolded fds_ReplaceDevice_def] have "fs_mem s' = snd (ReplaceDevice rec (cloneSnapshot (fs_mem s)))"
    by (cases rule: fds_commit_cases) auto
  then have "map_of (ds_byID (fs_mem s')) (td_DeviceID rec) = Some rec"
    by (simp add: ReplaceDevice_eq put_device_def)
  with ok' assms(3,5-7) show ?thesis by (simp add: device_auth_iff fds_ok_def)
qed

lemma Approve_Inr:
  assumes "Approve sha rnd idRnd s = Inr t" and "rnd = Some raw" and "length raw = tokenByteLen"
  shows "ps_State s = PairingClaimed" "ps_State t = PairingApproved" "ps_DeviceToken t \<noteq> []"
    "ValidateTokenPrefix (ps_DeviceToken t)" "ps_DeviceTokenHash t = HashToken sha (ps_DeviceToken t)"
    "ps_ID t = ps_ID s" "claimant t = claimant s" "ps_RelayClaim t = ps_RelayClaim s"
  using assms b64url_roundtrip[of raw]
  by (auto simp: Approve_def GenerateDeviceToken_def Let_def ValidateTokenPrefix_def has_prefix_def tokenPrefix_def
      claimant_def split: if_splits)

lemma approve_cases:
  assumes "handlePairingApprove E pid w = (reply, w')" and "store_ok (w_store w)"
  obtains
    (failed) "reply \<in> {MgmtBadRequest ''missing_param'', MgmtNotFound, MgmtBadRequest ''invalid_state''}" "w' = w"
  | (unsaved) a t where "mp_Get pid (w_store w) = Some a"
      "Approve (ae_sha E) (ae_rnd E) (ae_idRnd E) (mp_heap (w_store w) a) = Inr t"
      "reply = MgmtError ''device_persist_failed''" "w_devices w' = w_devices w" "mp_heap (w_store w') a = t"
  | (gateway) a t r where "mp_Get pid (w_store w) = Some a"
      "Approve (ae_sha E) (ae_rnd E) (ae_idRnd E) (mp_heap (w_store w) a) = Inr t"
      "fds_ReplaceDevice (ae_write E) (approved_record (ae_now E) t) (w_devices w) = (Inr r, w_devices w')"
      "reply = MgmtBadGateway" "ps_RelayClaim t \<noteq> None" "mp_heap (w_store w') a = t"
      "mp_Get pid (w_store w') = Some a"
  | (approved) a t r where "mp_Get pid (w_store w) = Some a"
      "Approve (ae_sha E) (ae_rnd E) (ae_idRnd E) (mp_heap (w_store w) a) = Inr t"
      "fds_ReplaceDevice (ae_write E) (approved_record (ae_now E) t) (w_devices w) = (Inr r, w_devices w')"
      "reply = MgmtApproved (relayOrSessionDeviceID t) (ps_DeviceToken t)"
      "mp_heap (w_store w') a = t\<lparr>ps_State := PairingCompleted, ps_DeviceToken := []\<rparr>"
      "ps_RelayClaim t = None \<longrightarrow> w_pending w' pid = None"
proof (cases "pid = [] \<or> mp_Get pid (w_store w) = None")
  case True
  with assms(1) show ?thesis by (intro failed) (auto simp: handlePairingApprove_def split: if_splits)
next
  case False
  then obtain a where a: "pid \<noteq> []" "mp_Get pid (w_store w) = Some a" by auto
  then have ida: "ps_ID (mp_heap (w_store w) a) = pid" using assms(2) by (simp add: store_ok_def mp_Get_def)
  show ?thesis
  proof (cases "Approve (ae_sha E) (ae_rnd E) (ae_idRnd E) (mp_heap (w_store w) a)")
    case (Inl e)
    with assms(1) a show ?thesis by (intro failed) (auto simp: handlePairingApprove_def)
  next
    case (Inr t)
    have idt: "ps_ID t = pid"
      using Inr ida by (auto simp: Approve_def split: if_splits option.splits)
    have st: "ps_State t = PairingApproved" using Inr by (auto simp: Approve_def split: if_splits option.splits)
    obtain r ds where d: "fds_ReplaceDevice (ae_write E) (approved_record (ae_now E) t) (w_devices w) = (r, ds)" by fastforce
    note sim = handlePairingApprove_def mp_Update_def set_session_def Let_def mp_Get_def complete_session_def Complete_def
      NotifyComplete_def
    show ?thesis
    proof (cases r)
      case (Inl e)
      with d have "ds = w_devices w" unfolding fds_ReplaceDevice_def using fds_commit_error by blast
      with Inl d assms(1) a idt \<open>Approve _ _ _ _ = Inr t\<close> show ?thesis
        by (intro unsaved[of a t]) (auto simp: sim)
    next
      case (Inr x)
      note known = d[unfolded Inr] assms(1) a idt st \<open>Approve _ _ _ _ = Inr t\<close>
      show ?thesis
      proof (cases "ps_RelayClaim t \<noteq> None \<and> \<not> ae_relay E")
        case True
        with known show ?thesis by (intro gateway[of a t x]) (auto simp: sim)
      next
        case False
        with known show ?thesis by (intro approved[of a t x]) (auto simp: sim split: option.splits)
      qed
    qed
  qed
qed

text \<open>
  Approval trusts the approved device and no other. When approval answers with a device id and a
  token, the session had been claimed, the token authenticates as the record of exactly that device
  (with the name and platform it claimed under), the same store read back after a restart says the
  same, the session is completed and its plaintext token is wiped. When the relay could not be
  reached the device is trusted all the same, although the request reports a failure, and the session
  can be neither approved nor rejected again. Every other answer leaves the trusted devices as they were.
\<close>

theorem pairing_approval_exact:
  assumes "handlePairingApprove E pid w = (reply, w')" and "store_ok (w_store w)" and "fds_ok (w_devices w)"
    and "ae_rnd E = Some raw" and "length raw = tokenByteLen"
    and "\<forall>a t. mp_Get pid (w_store w) = Some a \<longrightarrow> Approve (ae_sha E) (ae_rnd E) (ae_idRnd E) (mp_heap (w_store w) a) = Inr t
           \<longrightarrow> fresh_token (approved_record (ae_now E) t) (fs_mem (w_devices w))"
  shows "(\<forall>did tok. reply = MgmtApproved did tok \<longrightarrow>
           (\<exists>a rec. mp_Get pid (w_store w) = Some a \<and> ps_State (mp_heap (w_store w) a) = PairingClaimed
              \<and> ValidateDeviceAuth (ae_sha E) (fs_mem (w_devices w')) tok did = Inr rec
              \<and> ValidateDeviceAuth (ae_sha E) (fs_mem (NewFileDeviceStore (fs_disk (w_devices w')))) tok did = Inr rec
              \<and> td_DeviceID rec = did \<and> td_DisplayName rec = ps_ClaimingDeviceName (mp_heap (w_store w) a)
              \<and> td_Platform rec = ps_ClaimingPlatform (mp_heap (w_store w) a)
              \<and> ps_State (mp_heap (w_store w') a) = PairingCompleted \<and> ps_DeviceToken (mp_heap (w_store w') a) = []))
    \<and> (reply = MgmtBadGateway \<longrightarrow>
           (\<exists>a rec. mp_Get pid (w_store w') = Some a
              \<and> ValidateDeviceAuth (ae_sha E) (fs_mem (w_devices w')) (ps_DeviceToken (mp_heap (w_store w') a)) [] = Inr rec
              \<and> (\<forall>E' relayOK. fst (handlePairingApprove E' pid w') = MgmtBadRequest ''invalid_state''
                   \<and> fst (handlePairingReject relayOK pid w') = MgmtBadRequest ''invalid_state'')))
    \<and> (reply \<noteq> MgmtBadGateway \<and> (\<forall>did tok. reply \<noteq> MgmtApproved did tok) \<longrightarrow> w_devices w' = w_devices w)"
  using assms(1,2)
proof (cases rule: approve_cases)
  case (gateway a t r)
  note ap = Approve_Inr[OF gateway(2) assms(4,5)]
  have fr: "fresh_token (approved_record (ae_now E) t) (fs_mem (w_devices w))" using assms(6) gateway(1,2) by blast
  have "ValidateDeviceAuth (ae_sha E) (fs_mem (w_devices w')) (ps_DeviceToken t) (td_DeviceID (approved_record (ae_now E) t))
      = Inr (approved_record (ae_now E) t) \<and> fds_ok (w_devices w')"
    by (rule replaced_authenticates[OF assms(3) fr _ gateway(3) ap(3,4)]) (simp_all add: approved_record_def zero_record_def ap(5))
  then have v: "ValidateDeviceAuth (ae_sha E) (fs_mem (w_devices w')) (ps_DeviceToken t) [] = Inr (approved_record (ae_now E) t)"
    using device_auth_iff[of "fs_mem (w_devices w')" "ae_sha E"] by (auto simp: fds_ok_def)
  have "pid \<noteq> []" using assms(1) gateway(4) by (auto simp: handlePairingApprove_def)
  then have "fst (handlePairingApprove E' pid w') = MgmtBadRequest ''invalid_state''
      \<and> fst (handlePairingReject relayOK pid w') = MgmtBadRequest ''invalid_state''" for E' relayOK
    using gateway(6,7) ap(2) by (simp add: handlePairingApprove_def handlePairingReject_def Approve_def Reject_def)
  with v gateway show ?thesis by auto
next
  case (approved a t r)
  note ap = Approve_Inr[OF approved(2) assms(4,5)]
  have fr: "fresh_token (approved_record (ae_now E) t) (fs_mem (w_devices w))" using assms(6) approved(1,2) by blast
  have v: "ValidateDeviceAuth (ae_sha E) (fs_mem (w_devices w')) (ps_DeviceToken t) (td_DeviceID (approved_record (ae_now E) t))
      = Inr (approved_record (ae_now E) t) \<and> fds_ok (w_devices w')"
    by (rule replaced_authenticates[OF assms(3) fr _ approved(3) ap(3,4)]) (simp_all add: approved_record_def zero_record_def ap(5))
  then have "ValidateDeviceAuth (ae_sha E) (fs_mem (NewFileDeviceStore (fs_disk (w_devices w')))) (ps_DeviceToken t)
      (td_DeviceID (approved_record (ae_now E) t)) = Inr (approved_record (ae_now E) t)"
    using same_answers_lookup(3)[of "fs_mem (w_devices w')" "fds_load (fs_disk (w_devices w'))"]
    by (simp add: fds_ok_def NewFileDeviceStore_def)
  moreover have "td_DeviceID (approved_record (ae_now E) t) = relayOrSessionDeviceID t"
    "td_DisplayName (approved_record (ae_now E) t) = ps_ClaimingDeviceName (mp_heap (w_store w) a)"
    "td_Platform (approved_record (ae_now E) t) = ps_ClaimingPlatform (mp_heap (w_store w) a)"
    using ap(7) by (simp_all add: approved_record_def claimant_def)
  ultimately show ?thesis using v approved(1,4,5) ap(1) by simp
qed auto


section \<open>Concrete runs\<close>

text \<open>A session with code 000000 for the pairing id \<open>p\<close>, and claims of it with a right and a wrong code.\<close>

definition demo_session :: PairingSession where
  "demo_session = \<lparr>ps_ID = ''p'', ps_QRPayload = [], ps_ManualCode = ''000000'', ps_State = PairingCreated, ps_BridgeID = [],
     ps_DisplayName = [], ps_LocalURL = [], ps_ClaimingDeviceID = [], ps_ClaimingDeviceName = [], ps_ClaimingPlatform = [],
     ps_CreatedAt = 0, ps_ExpiresAt = 300000000000, ps_DeviceToken = [], ps_DeviceTokenHash = [], ps_DeviceID = [],
     ps_RelayClaim = None\<rparr>"

definition demo_right :: pairing_claim where
  "demo_right = \<lparr>pcl_Type = ''pairing_claim'', pcl_PairingID = ''p'', pcl_ManualCode = ''000000'', pcl_DeviceID = ''phone'',
     pcl_DisplayName = ''Phone'', pcl_Platform = ''ios''\<rparr>"

definition demo_wrong :: pairing_claim where
  "demo_wrong = demo_right\<lparr>pcl_ManualCode := ''999999''\<rparr>"

definition demo_dec :: "bytes \<Rightarrow> pairing_claim option" where
  "demo_dec m = Some (if m = [1] then demo_right else demo_wrong)"

definition demo_world :: world where
  "demo_world = \<lparr>w_store = \<lparr>mp_heap = (\<lambda>_. demo_session), mp_byID = [''p'' \<mapsto> 0], mp_byManualCode = [''000000'' \<mapsto> 0]\<rparr>,
     w_gate = newPairingAttemptGate, w_pending = Map.empty, w_devices = demo_fds\<rparr>"

definition demo_claimed :: world where
  "demo_claimed = set_session 0 (claimed_by demo_right demo_session) demo_world"

lemma demo_store_ok: "store_ok (w_store demo_world)" "store_ok (w_store demo_claimed)"
  by (auto simp: store_ok_def demo_world_def demo_claimed_def set_session_def claimed_by_def demo_session_def)

theorem pairing_lifecycle_witness:
  "claimant (claimed_by demo_right demo_session) = (''phone'', ''Phone'', ''ios'')
   \<and> (\<exists>e. Claim 5 ''other'' [] [] (claimed_by demo_right demo_session) = Inl e)"
proof -
  have ok: "session_ok demo_session" by (simp add: session_ok_def demo_session_def)
  have step: "session_op\<^sup>*\<^sup>* demo_session (claimed_by demo_right demo_session)"
    by (rule r_into_rtranclp, rule session_op.claim[of 5 "''phone''" "''Phone''" "''ios''"])
      (simp add: Claim_def IsExpired_def demo_session_def claimed_by_def demo_right_def)
  show ?thesis
    using pairing_lifecycle[OF ok step rtranclp.rtrancl_refl]
    by (simp add: claimed_by_def claimant_def) (simp add: demo_session_def demo_right_def)
qed

theorem pairing_gate_bounded_witness:
  "length (pg_pairFails (snd (recordPairingFailure ''p'' 7 newPairingAttemptGate))) \<le> 4096"
proof -
  have "gate_step\<^sup>*\<^sup>* newPairingAttemptGate (snd (recordPairingFailure ''p'' 7 newPairingAttemptGate))"
    by (rule r_into_rtranclp) (rule gate_step.failure)
  from pairing_gate_bounded[OF this] show ?thesis by simp
qed

text \<open>The world after \<open>k\<close> wrong guesses at time 1 from one address, and one more guess there.\<close>

definition demo_after :: "nat \<Rightarrow> world" where
  "demo_after k = demo_world\<lparr>w_gate :=
     \<lparr>pg_sourceBuckets = (if k = 0 then [] else [(''1.2.3.4'', \<lparr>sb_window = sourceIPWindow, sb_limit = sourceIPLimit, sb_counts = replicate k 1\<rparr>)]),
      pg_pairFails = (if k = 0 then [] else [(''p'', \<lparr>sb_window = perPairingFailWindow, sb_limit = perPairingFailLimit, sb_counts = replicate k 1\<rparr>)]),
      pg_activeClaims = 0\<rparr>\<rparr>"

lemma demo_guess:
  assumes "k < 5"
  shows "handlePairingWebSocket demo_dec Some 1 0 ''1.2.3.4'' [(False, [2])] (demo_after k) =
     (ReplyCode ''pairing.invalid_code'' (if k = 4 then 2 else 1),
      if k = 4 then (demo_after (Suc k))\<lparr>w_store := mp_Delete ''p'' (w_store demo_world)\<rparr> else demo_after (Suc k))"
proof -
  have fresh: "fresh_stamps 1 \<lparr>sb_window = w, sb_limit = l, sb_counts = replicate k 1\<rparr> = replicate k 1" if "0 < w" for w l
    using that by (simp add: fresh_stamps_def)
  have win: "0 < sourceIPWindow" "0 < perPairingFailWindow"
    by (simp_all add: sourceIPWindow_def perPairingFailWindow_def minute_def nsec_def)
  have ip: "pairingClientIP Some ''1.2.3.4'' = ''1.2.3.4''" by code_simp
  have rd: "read_claim demo_dec 0 [(False, [2])] = Inr demo_wrong"
    by (simp add: demo_dec_def demo_wrong_def demo_right_def)
  have rep: "replicate k (1 :: gotime) @ [1] = replicate (Suc k) 1" by (simp add: replicate_append_same)
  have acq: "acquire 1 ''1.2.3.4'' (w_gate (demo_after k)) = (True, (w_gate (demo_after k))\<lparr>
      pg_sourceBuckets := pg_sourceBuckets (w_gate (demo_after (Suc k))), pg_activeClaims := 1\<rparr>)"
    using assms fresh[OF win(1), of sourceIPLimit] fresh[OF win(2), of perPairingFailLimit]
    by (cases "k = 0") (simp_all add: acquire_def demo_after_def sweepStale_def sweep_def bucket_allow_def Let_def rep
        globalConcurrentClaims_def maxPairingBuckets_def sourceIPLimit_def fresh_stamps_def)
  let ?g = "(w_gate (demo_after k))\<lparr>pg_sourceBuckets := pg_sourceBuckets (w_gate (demo_after (Suc k))), pg_activeClaims := 1\<rparr>"
  have rec: "recordPairingFailure ''p'' 1 ?g = (k = 4, (w_gate (demo_after (Suc k)))\<lparr>pg_activeClaims := 1\<rparr>)"
    using assms fresh[OF win(2), of perPairingFailLimit] win
    by (cases "k = 0") (auto simp: recordPairingFailure_def demo_after_def sweepStale_def sweep_def bucket_allow_def Let_def rep
        maxPairingBuckets_def perPairingFailLimit_def fresh_stamps_def)
  have rel: "release ((w_gate (demo_after j))\<lparr>pg_activeClaims := 1\<rparr>) = w_gate (demo_after j)" for j
    by (simp add: release_def demo_after_def)
  have wr: "pcl_PairingID demo_wrong = ''p''" "pcl_ManualCode demo_wrong \<noteq> []" "pcl_ManualCode demo_wrong \<noteq> ps_ManualCode demo_session"
    by (simp_all add: demo_wrong_def demo_right_def demo_session_def)
  have sta: "w_store (demo_after j) = w_store demo_world" for j by (simp add: demo_after_def)
  have st: "mp_Get ''p'' (w_store demo_world) = Some 0"
    "mp_heap (w_store demo_world) 0 = demo_session" "ps_ID demo_session = ''p''"
    by (simp_all add: demo_after_def demo_world_def mp_Get_def demo_session_def)
  have up: "(demo_after i)\<lparr>w_gate := w_gate (demo_after j)\<rparr> = demo_after j"
    "(demo_after i)\<lparr>w_store := S, w_gate := w_gate (demo_after j)\<rparr> = (demo_after j)\<lparr>w_store := S\<rparr>" for i j S
    by (simp_all add: demo_after_def)
  have at: "pairing_attempt 1 0 demo_wrong ((demo_after k)\<lparr>w_gate := ?g\<rparr>) =
      (ReplyCode ''pairing.invalid_code'' (if k = 4 then 2 else 1),
       if k = 4 then (demo_after (Suc k))\<lparr>w_store := mp_Delete ''p'' (w_store demo_world)\<rparr> else demo_after (Suc k))"
    unfolding pairing_attempt_def wr(1) using wr(2,3) st rec
    by (simp add: hmacEqualString_iff with_gate_def sta rel up Let_def)
  show ?thesis unfolding handler_eq rd sum.case ip acq using wr(1,2) at by (simp add: Let_def)
qed

lemma demo_five:
  "\<exists>out w'. claim_run demo_dec Some (replicate 5 (1, 0, ''1.2.3.4'', [(False, [2])])) demo_world = (out, w')
     \<and> length (filter (is_guess ''p'') out) = 5"
proof -
  have z: "demo_world = demo_after 0"
    by (simp add: demo_after_def demo_world_def newPairingAttemptGate_def)
  have rd: "read_claim demo_dec 0 [(False, [2])] = Inr demo_wrong" "pcl_PairingID demo_wrong = ''p''"
    by (simp_all add: demo_dec_def demo_wrong_def demo_right_def)
  have five: "replicate 5 x = [x, x, x, x, x]" for x :: claim_request by (simp add: eval_nat_numeral)
  show ?thesis unfolding five z claim_run.simps demo_guess[of 0, simplified] rd prod.case Let_def
    by (simp add: demo_guess is_guess_def rd)
qed


theorem pairing_claim_exact_witness:
  "fst (handlePairingWebSocket demo_dec Some 1 7 ''1.2.3.4'' [(False, [1])] demo_world) = ReplyOK"
proof -
  have "claimable demo_dec Some 1 ''1.2.3.4'' [(False, [1])] demo_world demo_right 0"
    by code_simp
  then show ?thesis
    using pairing_claim_exact[OF demo_store_ok(1) surjective_pairing, of demo_dec Some 1 7 "''1.2.3.4''" "[(False, [1])]"] by blast
qed

theorem exhaustion_reveals_session_witness:
  "fst (pairing_attempt 1 0 demo_wrong demo_world)
   = fst (pairing_attempt 1 0 demo_wrong (demo_world\<lparr>w_store := mp_CleanupAll (w_store demo_world)\<rparr>))"
proof -
  have "\<not> fst (recordPairingFailure (pcl_PairingID demo_wrong) 1 (w_gate demo_world))" by code_simp
  then show ?thesis
    by (subst exhaustion_reveals_session[where a = 0])
      (simp_all add: demo_world_def demo_wrong_def demo_right_def demo_session_def mp_Get_def mp_CleanupAll_def)
qed

definition demo_approve :: approve_env where
  "demo_approve = \<lparr>ae_sha = (\<lambda>b. [2]), ae_rnd = Some (replicate 32 7), ae_idRnd = [], ae_now = 3, ae_write = no_faults,
     ae_relay = True, ae_net = True\<rparr>"

lemma demo_approve_hash:
  assumes "Approve (ae_sha demo_approve) (ae_rnd demo_approve) (ae_idRnd demo_approve) s = Inr t"
  shows "ps_DeviceTokenHash t = ''sha256:02''"
proof -
  have "HashToken (ae_sha demo_approve) p = ''sha256:02''" for p
    by (simp add: demo_approve_def HashToken_def hex_encode_def hex_digit_def)
  then show ?thesis using assms by (auto simp: Approve_def split: if_splits option.splits dest: token_nonempty)
qed

lemma demo_approved: "\<exists>tok. fst (handlePairingApprove demo_approve ''p'' demo_claimed) = MgmtApproved ''phone'' tok"
proof -
  obtain plain h where g: "GenerateDeviceToken (ae_sha demo_approve) (ae_rnd demo_approve) = Some (plain, h)"
    by (simp add: GenerateDeviceToken_def demo_approve_def Let_def)
  have s: "mp_heap (w_store demo_claimed) 0 = claimed_by demo_right demo_session" "mp_Get ''p'' (w_store demo_claimed) = Some 0"
    by (simp_all add: demo_claimed_def set_session_def demo_world_def mp_Get_def)
  obtain t where t: "Approve (ae_sha demo_approve) (ae_rnd demo_approve) (ae_idRnd demo_approve) (claimed_by demo_right demo_session) = Inr t"
    "ps_ID t = ''p''" "ps_RelayClaim t = None" "ps_DeviceID t = ''phone''"
    using g by (simp add: Approve_def claimed_by_def demo_session_def demo_right_def)
  have "\<exists>r ds. fds_ReplaceDevice (ae_write demo_approve) (approved_record (ae_now demo_approve) t) (w_devices demo_claimed) = (Inr r, ds)"
    by (simp add: fds_ReplaceDevice_def fds_commit_def AtomicWriteFile_def demo_approve_def split: prod.split)
  with s t show ?thesis
    by (auto simp: handlePairingApprove_def set_session_def mp_Update_def mp_Get_def Let_def relayOrSessionDeviceID_def)
qed

theorem pairing_approval_exact_witness:
  "\<exists>rec tok. ValidateDeviceAuth (ae_sha demo_approve) (fs_mem (w_devices (snd (handlePairingApprove demo_approve ''p'' demo_claimed)))) tok ''phone'' = Inr rec"
proof -
  obtain tok where tok: "fst (handlePairingApprove demo_approve ''p'' demo_claimed) = MgmtApproved ''phone'' tok"
    using demo_approved by blast
  have fresh: "\<forall>a t. mp_Get ''p'' (w_store demo_claimed) = Some a
      \<longrightarrow> Approve (ae_sha demo_approve) (ae_rnd demo_approve) (ae_idRnd demo_approve) (mp_heap (w_store demo_claimed) a) = Inr t
      \<longrightarrow> fresh_token (approved_record (ae_now demo_approve) t) (fs_mem (w_devices demo_claimed))"
    using demo_approve_hash
    by (auto simp: fresh_token_def approved_record_def demo_claimed_def set_session_def demo_world_def demo_mem demo_device_def)
  have fds: "fds_ok (w_devices demo_claimed)"
    using demo_fds_ok by (simp add: demo_claimed_def set_session_def demo_world_def)
  have "ae_rnd demo_approve = Some (replicate 32 7)" "length (replicate 32 (7 :: byte)) = tokenByteLen"
    by (simp_all add: demo_approve_def tokenByteLen_def)
  from pairing_approval_exact[OF surjective_pairing demo_store_ok(2) fds this fresh] tok show ?thesis by blast
qed

end
