(* ===== verification/Mailbox_Frames.thy ===== *)
theory Mailbox_Frames
  imports Cursor_Log
begin

text \<open>
  What the two in-process mailboxes of the bridge share (\<^verbatim>\<open>relay_hub.go\<close> and \<^verbatim>\<open>relay_mailbox.go\<close>): the
  frame as a record, which the mailbox service extends with epoch data, and the two loops over a
  device's frames, acknowledgement and eviction, which the two files spell alike. Cursors are
  \<^verbatim>\<open>uint64\<close>, sizes and byte counts integers.
\<close>

section \<open>Frames\<close>

record mailboxFrame =
  mx_cursor :: "64 word"
  mx_envelope :: bytes
  mx_expiresAt :: gotime
  mx_acked :: bool
  mx_insertedAt :: gotime
  mx_size :: int

definition frame_pending :: "'a mailboxFrame_scheme list \<Rightarrow> 'a mailboxFrame_scheme list" where
  "frame_pending fs = filter (\<lambda>f. \<not> mx_acked f) fs"

definition pending_size :: "'a mailboxFrame_scheme list \<Rightarrow> int" where
  "pending_size fs = sum_list (map mx_size (frame_pending fs))"

text \<open>The acknowledgement loop: the frames after it and the bytes it freed.\<close>

definition ack_through :: "64 word \<Rightarrow> 'a mailboxFrame_scheme list \<Rightarrow> int \<times> 'a mailboxFrame_scheme list" where
  "ack_through cursor fs =
     (sum_list (map (\<lambda>f. if mx_cursor f \<le> cursor \<and> \<not> mx_acked f then mx_size f else 0) fs),
      map (\<lambda>f. if mx_cursor f \<le> cursor \<and> \<not> mx_acked f then f\<lparr>mx_acked := True\<rparr> else f) fs)"

text \<open>The eviction loop: it marks frames from the old end until it has freed enough.\<close>

fun evict_oldest :: "int \<Rightarrow> int \<Rightarrow> 'a mailboxFrame_scheme list \<Rightarrow> int \<times> 'a mailboxFrame_scheme list" where
  "evict_oldest needed evicted [] = (evicted, [])"
| "evict_oldest needed evicted (f # fs) =
     (if mx_acked f then let (e, gs) = evict_oldest needed evicted fs in (e, f # gs)
      else let evicted = evicted + mx_size f; f = f\<lparr>mx_acked := True\<rparr>
           in if needed \<le> evicted then (evicted, f # fs)
              else let (e, gs) = evict_oldest needed evicted fs in (e, f # gs))"


section \<open>Lemmas\<close>

lemma frame_pending_simps [simp]:
  "frame_pending [] = []" "frame_pending (f # fs) = (if mx_acked f then frame_pending fs else f # frame_pending fs)"
  "frame_pending (fs @ gs) = frame_pending fs @ frame_pending gs"
  by (simp_all add: frame_pending_def)

lemma pending_size_simps [simp]:
  "pending_size [] = 0" "pending_size (f # fs) = (if mx_acked f then 0 else mx_size f) + pending_size fs"
  "pending_size (fs @ gs) = pending_size fs + pending_size gs"
  by (simp_all add: pending_size_def)

lemma frame_pending_set: "set (frame_pending fs) = {f \<in> set fs. \<not> mx_acked f}"
  by (auto simp: frame_pending_def)

lemma ack_through_spec:
  "frame_pending (snd (ack_through c fs)) = filter (\<lambda>f. c < mx_cursor f) (frame_pending fs)"
  "pending_size (snd (ack_through c fs)) = pending_size fs - fst (ack_through c fs)"
  "map mx_cursor (snd (ack_through c fs)) = map mx_cursor fs"
  "length (snd (ack_through c fs)) = length fs"
  by (induction fs) (auto simp: ack_through_def not_le)

lemma ack_through_set:
  "g \<in> set (snd (ack_through c fs)) \<Longrightarrow> \<exists>f \<in> set fs. g = f \<or> g = f\<lparr>mx_acked := True\<rparr>"
  by (auto simp: ack_through_def)

lemma pending_size_nonneg: "\<forall>f \<in> set fs. 0 \<le> mx_size f \<Longrightarrow> 0 \<le> pending_size fs"
  by (induction fs) auto

text \<open>Eviction drops the shortest run of oldest pending frames that frees enough, or all of them.\<close>

lemma evict_oldest_spec:
  assumes "evict_oldest needed evicted fs = (e, gs)"
  shows "map mx_cursor gs = map mx_cursor fs \<and> pending_size gs = pending_size fs - (e - evicted)
    \<and> (\<exists>k. frame_pending gs = drop k (frame_pending fs)
          \<and> e - evicted = sum_list (map mx_size (take k (frame_pending fs))) \<and> k \<le> length (frame_pending fs) \<and> (frame_pending fs \<noteq> [] \<longrightarrow> 0 < k)
          \<and> (k < length (frame_pending fs) \<longrightarrow> needed \<le> e)
          \<and> (\<forall>j < k. 0 < j \<longrightarrow> evicted + sum_list (map mx_size (take j (frame_pending fs))) < needed))
    \<and> (\<forall>g \<in> set gs. \<exists>f \<in> set fs. g = f \<or> g = f\<lparr>mx_acked := True\<rparr>)"
  using assms
proof (induction needed evicted fs arbitrary: e gs rule: evict_oldest.induct)
  case (1 needed evicted)
  then show ?case by simp
next
  case (2 needed evicted f fs)
  show ?case
  proof (cases "mx_acked f")
    case True
    then obtain hs where "evict_oldest needed evicted fs = (e, hs)" "gs = f # hs"
      using 2(3) by (auto split: prod.splits)
    with 2(1)[OF True] True show ?thesis by auto
  next
    case a: False
    show ?thesis
    proof (cases "needed \<le> evicted + mx_size f")
      case True
      with a 2(3) have "e = evicted + mx_size f" "gs = f\<lparr>mx_acked := True\<rparr> # fs" by (auto simp: Let_def)
      with a True show ?thesis by (auto intro!: exI[of _ "Suc 0"])
    next
      case False
      obtain hs where h: "evict_oldest needed (evicted + mx_size f) fs = (e, hs)" "gs = f\<lparr>mx_acked := True\<rparr> # hs"
        using 2(3) a False by (auto simp: Let_def split: prod.splits)
      from 2(2)[OF a refl refl False h(1)] obtain k where k: "frame_pending hs = drop k (frame_pending fs)"
        "e - (evicted + mx_size f) = sum_list (map mx_size (take k (frame_pending fs)))" "k \<le> length (frame_pending fs)"
        "k < length (frame_pending fs) \<longrightarrow> needed \<le> e"
        "\<forall>j < k. 0 < j \<longrightarrow> evicted + mx_size f + sum_list (map mx_size (take j (frame_pending fs))) < needed"
        and r: "map mx_cursor hs = map mx_cursor fs" "pending_size hs = pending_size fs - (e - (evicted + mx_size f))"
        "\<forall>g \<in> set hs. \<exists>f \<in> set fs. g = f \<or> g = f\<lparr>mx_acked := True\<rparr>" by blast
      have "\<forall>j < Suc k. 0 < j \<longrightarrow> evicted + sum_list (map mx_size (take j (frame_pending (f # fs)))) < needed"
      proof (intro allI impI)
        fix j assume j: "j < Suc k" "0 < j"
        then obtain i where i: "j = Suc i" "i < k" by (cases j) auto
        show "evicted + sum_list (map mx_size (take j (frame_pending (f # fs)))) < needed"
          using k(5) i a False by (cases "i = 0") (auto simp: algebra_simps)
      qed
      moreover have "frame_pending gs = drop (Suc k) (frame_pending (f # fs))"
        "e - evicted = sum_list (map mx_size (take (Suc k) (frame_pending (f # fs))))"
        "Suc k \<le> length (frame_pending (f # fs))" "Suc k < length (frame_pending (f # fs)) \<longrightarrow> needed \<le> e"
        using a h(2) k(1-4) by auto
      ultimately show ?thesis using a h(2) r by (auto intro!: exI[of _ "Suc k"])
    qed
  qed
qed

lemma evict_oldest_fits:
  assumes "evict_oldest needed 0 fs = (e, gs)" and "\<forall>f \<in> set fs. 0 \<le> mx_size f"
    and "pending_size fs \<le> cap"
  shows "pending_size gs + needed \<le> cap \<or> frame_pending gs = []"
proof -
  from evict_oldest_spec[OF assms(1)] obtain k where k: "frame_pending gs = drop k (frame_pending fs)"
    "k < length (frame_pending fs) \<longrightarrow> needed \<le> e" "pending_size gs = pending_size fs - e" by auto
  show ?thesis
  proof (cases "k < length (frame_pending fs)")
    case True
    with k assms(3) show ?thesis by simp
  qed (use k in simp)
qed

lemma unat_succ: "w + 1 \<noteq> (0 :: 'a::len word) \<Longrightarrow> unat (w + 1) = Suc (unat w)"
  by (metis add.commute unatSuc)

lemma unat_less_succ: "w + 1 \<noteq> (0 :: 'a::len word) \<Longrightarrow> c \<le> w \<Longrightarrow> unat c < unat (w + 1)"
  using unat_succ[of w] by (simp add: word_le_nat_alt)


section \<open>The invariant of a device's frames\<close>

definition frames_inv :: "64 word \<Rightarrow> int \<Rightarrow> 'a mailboxFrame_scheme list \<Rightarrow> bool" where
  "frames_inv seq b fs \<longleftrightarrow> sorted_wrt (<) (map mx_cursor fs)
     \<and> (\<forall>f \<in> set fs. mx_cursor f \<le> seq \<and> mx_size f = int (length (mx_envelope f))) \<and> b = pending_size fs"

lemma frames_inv_Nil [simp]: "frames_inv seq b [] \<longleftrightarrow> b = 0"
  by (auto simp: frames_inv_def)

lemma frames_inv_nonneg: "frames_inv seq b fs \<Longrightarrow> 0 \<le> b"
  by (auto simp: frames_inv_def intro!: pending_size_nonneg)

lemma frames_inv_later: "frames_inv seq b fs \<Longrightarrow> seq + 1 \<noteq> 0 \<Longrightarrow> frames_inv (seq + 1) b fs"
  by (auto simp: frames_inv_def word_le_nat_alt unat_succ intro: le_SucI)

lemma frames_inv_ack:
  assumes "frames_inv seq b fs"
  shows "frames_inv seq (b - fst (ack_through c fs)) (snd (ack_through c fs))" and "0 \<le> fst (ack_through c fs)"
proof -
  have "mx_cursor g \<le> seq \<and> mx_size g = int (length (mx_envelope g))" if "g \<in> set (snd (ack_through c fs))" for g
    using ack_through_set[OF that] assms by (auto simp: frames_inv_def)
  then show "frames_inv seq (b - fst (ack_through c fs)) (snd (ack_through c fs))"
    using assms by (simp add: frames_inv_def ack_through_spec)
  show "0 \<le> fst (ack_through c fs)"
    using assms by (auto simp: ack_through_def frames_inv_def intro!: sum_list_nonneg)
qed

lemma frames_inv_evict:
  assumes "frames_inv seq b fs" and "evict_oldest n 0 fs = (e, gs)"
  shows "frames_inv seq (b - e) gs" and "0 \<le> e"
proof -
  note sp = evict_oldest_spec[OF assms(2)]
  have "mx_cursor g \<le> seq \<and> mx_size g = int (length (mx_envelope g))" if "g \<in> set gs" for g
  proof -
    from sp that obtain f where "f \<in> set fs" "g = f \<or> g = f\<lparr>mx_acked := True\<rparr>" by blast
    then show ?thesis using assms(1) by (auto simp: frames_inv_def)
  qed
  then show "frames_inv seq (b - e) gs"
    using assms(1) sp by (auto simp: frames_inv_def)
  from sp obtain k where "e = sum_list (map mx_size (take k (frame_pending fs)))" by auto
  moreover have "0 \<le> mx_size f" if "f \<in> set (take k (frame_pending fs))" for f
    using assms(1) in_set_takeD[OF that] by (auto simp: frames_inv_def frame_pending_set)
  ultimately show "0 \<le> e" by (auto intro!: sum_list_nonneg)
qed

lemma frames_inv_evict_fits:
  assumes "frames_inv seq b fs" and "evict_oldest n 0 fs = (e, gs)" and "b \<le> cap"
  shows "b - e + n \<le> cap \<or> frame_pending gs = []"
  using evict_oldest_fits[OF assms(2), of cap] frames_inv_evict(1)[OF assms(1,2)] assms(1,3)
  by (auto simp: frames_inv_def)

lemma frames_inv_append:
  assumes "frames_inv seq b fs" and "seq + 1 \<noteq> 0" and "mx_cursor f = seq + 1" and "mx_size f = int (length (mx_envelope f))"
    and "\<not> mx_acked f"
  shows "frames_inv (seq + 1) (b + mx_size f) (fs @ [f])"
proof -
  have "mx_cursor g < seq + 1" if "g \<in> set fs" for g
    using assms(1,2) that by (auto simp: frames_inv_def word_less_nat_alt word_le_nat_alt unat_succ)
  then show ?thesis
    using frames_inv_later[OF assms(1,2)] assms(3-5) by (auto simp: frames_inv_def sorted_wrt_append)
qed

lemma frames_inv_sorted:
  "frames_inv seq b fs \<Longrightarrow> sorted_wrt (<) (map (\<lambda>f. unat (mx_cursor f)) (frame_pending fs))"
  by (auto simp: frames_inv_def frame_pending_def sorted_wrt_map sorted_wrt_filter word_less_nat_alt)

end
