(* ===== verification/Relay_Hub.thy ===== *)
theory Relay_Hub
  imports Mailbox_Frames Relay_Conn
begin

text \<open>
  The in-process relay hub of the bridge (\<^verbatim>\<open>go-bridge/relay_hub.go\<close>): routes with their devices,
  credentials, connections and per-device mailboxes, and forwarding in both directions. A connection
  is its socket number and its closed flag; what has been written to each socket is part of the
  state. Writing and the envelope decoder are parameters. Forwarding to an offline device takes the
  lock twice, so the second half (\<open>enqueueMailbox\<close>) is also a step of its own.
\<close>

section \<open>State\<close>

record relayWSConn =
  wc_ws :: nat
  wc_closed :: bool

record relayDevice =
  hd_deviceID :: string
  hd_deviceAuth :: string
  hd_conn :: "relayWSConn option"
  hd_revoked :: bool
  hd_revokedAt :: gotime

record relayRoute =
  hr_routeID :: string
  hr_bridgeAuth :: string
  hr_online :: bool
  hr_bridgeConn :: "relayWSConn option"
  hr_devices :: "string \<rightharpoonup> relayDevice"
  hr_mailbox :: "string \<rightharpoonup> mailboxFrame list"
  hr_seq :: "64 word"
  hr_bytes :: "string \<rightharpoonup> int"

record RelayHub =
  hb_routes :: "string \<rightharpoonup> relayRoute"
  hb_sent :: "nat \<Rightarrow> bytes list"

datatype hub_error = HRouteNotFound | HDeviceNotFound | HDeviceRevoked | HAuthFailed | HInvalidEnvelope | HBridgeOffline | HWrite

definition NewRelayHub :: RelayHub where
  "NewRelayHub = \<lparr>hb_routes = Map.empty, hb_sent = (\<lambda>_. [])\<rparr>"

definition set_route :: "string \<Rightarrow> relayRoute \<Rightarrow> RelayHub \<Rightarrow> RelayHub" where
  "set_route r rt h = h\<lparr>hb_routes := (hb_routes h)(r \<mapsto> rt)\<rparr>"

definition set_device :: "string \<Rightarrow> relayDevice \<Rightarrow> relayRoute \<Rightarrow> relayRoute" where
  "set_device d dev rt = rt\<lparr>hr_devices := (hr_devices rt)(d \<mapsto> dev)\<rparr>"

text \<open>Reading a missing key of the two maps gives the empty list and zero.\<close>

definition route_frames :: "relayRoute \<Rightarrow> string \<Rightarrow> mailboxFrame list" where
  "route_frames rt d = (case hr_mailbox rt d of None \<Rightarrow> [] | Some fs \<Rightarrow> fs)"

definition route_bytes :: "relayRoute \<Rightarrow> string \<Rightarrow> int" where
  "route_bytes rt d = (case hr_bytes rt d of None \<Rightarrow> 0 | Some b \<Rightarrow> b)"


section \<open>Credentials\<close>

definition generateRelayCredential :: "bytes \<Rightarrow> string" where
  "generateRelayCredential rnd = b64url_encode rnd"

definition hashCredential :: "(bytes \<Rightarrow> bytes) \<Rightarrow> string \<Rightarrow> string" where
  "hashCredential sha256 cred = b64url_encode (sha256 (bytes_of cred))"

definition verifyCredential :: "(bytes \<Rightarrow> bytes) \<Rightarrow> string \<Rightarrow> string \<Rightarrow> bool" where
  "verifyCredential sha256 hashed plain \<longleftrightarrow> hashed = hashCredential sha256 plain"

definition hub_RegisterRoute :: "(bytes \<Rightarrow> bytes) \<Rightarrow> bytes \<Rightarrow> bytes \<Rightarrow> RelayHub \<Rightarrow> (string \<times> string) \<times> RelayHub" where
  "hub_RegisterRoute sha256 idRnd credRnd h =
     (let routeID = generateRelayID idRnd ''rt_''; bridgeAuth = generateRelayCredential credRnd
      in ((routeID, bridgeAuth),
          set_route routeID \<lparr>hr_routeID = routeID, hr_bridgeAuth = hashCredential sha256 bridgeAuth, hr_online = False,
            hr_bridgeConn = None, hr_devices = Map.empty, hr_mailbox = Map.empty, hr_seq = 0, hr_bytes = Map.empty\<rparr> h))"

definition hub_RegisterDevice ::
  "(bytes \<Rightarrow> bytes) \<Rightarrow> bytes \<Rightarrow> string \<Rightarrow> string \<Rightarrow> RelayHub \<Rightarrow> (hub_error + string) \<times> RelayHub" where
  "hub_RegisterDevice sha256 credRnd routeID deviceID h =
     (case hb_routes h routeID of
        None \<Rightarrow> (Inl HRouteNotFound, h)
      | Some route \<Rightarrow>
          (let deviceAuth = generateRelayCredential credRnd;
               dev = \<lparr>hd_deviceID = deviceID, hd_deviceAuth = hashCredential sha256 deviceAuth, hd_conn = None,
                      hd_revoked = False, hd_revokedAt = zero_time\<rparr>
           in (Inr deviceAuth, set_route routeID (set_device deviceID dev route) h)))"

definition AuthorizeBridge :: "(bytes \<Rightarrow> bytes) \<Rightarrow> string \<Rightarrow> string \<Rightarrow> RelayHub \<Rightarrow> bool" where
  "AuthorizeBridge sha256 routeID auth h \<longleftrightarrow>
     (case hb_routes h routeID of None \<Rightarrow> False | Some route \<Rightarrow> verifyCredential sha256 (hr_bridgeAuth route) auth)"

definition AuthorizeDevice :: "(bytes \<Rightarrow> bytes) \<Rightarrow> string \<Rightarrow> string \<Rightarrow> string \<Rightarrow> RelayHub \<Rightarrow> bool" where
  "AuthorizeDevice sha256 routeID deviceID auth h \<longleftrightarrow>
     (case hb_routes h routeID of
        None \<Rightarrow> False
      | Some route \<Rightarrow>
          (case hr_devices route deviceID of
             None \<Rightarrow> False
           | Some device \<Rightarrow> \<not> hd_revoked device \<and> verifyCredential sha256 (hd_deviceAuth device) auth))"


section \<open>Connections\<close>

definition ConnectBridge :: "(bytes \<Rightarrow> bytes) \<Rightarrow> string \<Rightarrow> string \<Rightarrow> nat \<Rightarrow> RelayHub \<Rightarrow> (hub_error + unit) \<times> RelayHub" where
  "ConnectBridge sha256 routeID auth ws h =
     (case hb_routes h routeID of
        None \<Rightarrow> (Inl HRouteNotFound, h)
      | Some route \<Rightarrow>
          (if \<not> verifyCredential sha256 (hr_bridgeAuth route) auth then (Inl HAuthFailed, h)
           else (Inr (), set_route routeID
                   (route\<lparr>hr_bridgeConn := Some \<lparr>wc_ws = ws, wc_closed = False\<rparr>, hr_online := True\<rparr>) h)))"

definition ConnectDevice ::
  "(bytes \<Rightarrow> bytes) \<Rightarrow> string \<Rightarrow> string \<Rightarrow> string \<Rightarrow> nat \<Rightarrow> RelayHub \<Rightarrow> (hub_error + unit) \<times> RelayHub" where
  "ConnectDevice sha256 routeID deviceID deviceAuth ws h =
     (case hb_routes h routeID of
        None \<Rightarrow> (Inl HRouteNotFound, h)
      | Some route \<Rightarrow>
          (case hr_devices route deviceID of
             None \<Rightarrow> (Inl HDeviceNotFound, h)
           | Some device \<Rightarrow>
               (if hd_revoked device then (Inl HDeviceRevoked, h)
                else if \<not> verifyCredential sha256 (hd_deviceAuth device) deviceAuth then (Inl HAuthFailed, h)
                else (Inr (), set_route routeID
                        (set_device deviceID (device\<lparr>hd_conn := Some \<lparr>wc_ws = ws, wc_closed = False\<rparr>\<rparr>) route) h))))"

definition DisconnectBridge :: "string \<Rightarrow> nat \<Rightarrow> RelayHub \<Rightarrow> RelayHub" where
  "DisconnectBridge routeID ws h =
     (case hb_routes h routeID of
        None \<Rightarrow> h
      | Some route \<Rightarrow>
          (case hr_bridgeConn route of
             None \<Rightarrow> h
           | Some c \<Rightarrow> (if wc_ws c \<noteq> ws then h
                        else set_route routeID (route\<lparr>hr_bridgeConn := None, hr_online := False\<rparr>) h)))"

definition hub_DisconnectDevice :: "string \<Rightarrow> string \<Rightarrow> nat \<Rightarrow> RelayHub \<Rightarrow> RelayHub" where
  "hub_DisconnectDevice routeID deviceID ws h =
     (case hb_routes h routeID of
        None \<Rightarrow> h
      | Some route \<Rightarrow>
          (case hr_devices route deviceID of
             None \<Rightarrow> h
           | Some device \<Rightarrow>
               (case hd_conn device of
                  None \<Rightarrow> h
                | Some c \<Rightarrow> (if wc_ws c \<noteq> ws then h
                             else set_route routeID (set_device deviceID (device\<lparr>hd_conn := None\<rparr>) route) h))))"


section \<open>Mailbox\<close>

definition hub_maxMailboxBytes :: int where
  "hub_maxMailboxBytes = 50 * 1024 * 1024"

definition hub_evict :: "string \<Rightarrow> int \<Rightarrow> relayRoute \<Rightarrow> relayRoute" where
  "hub_evict deviceID neededBytes route =
     (let (evictedBytes, fs) = evict_oldest neededBytes 0 (route_frames route deviceID)
      in route\<lparr>hr_mailbox := (case hr_mailbox route deviceID of None \<Rightarrow> hr_mailbox route
                               | Some _ \<Rightarrow> (hr_mailbox route)(deviceID \<mapsto> fs)),
               hr_bytes := (hr_bytes route)(deviceID \<mapsto> route_bytes route deviceID - evictedBytes)\<rparr>)"

definition hub_frame :: "64 word \<Rightarrow> bytes \<Rightarrow> gotime \<Rightarrow> gotime \<Rightarrow> mailboxFrame" where
  "hub_frame cursor envelope now1 now2 =
     \<lparr>mx_cursor = cursor, mx_envelope = envelope, mx_expiresAt = now1 + 1440 * minute, mx_acked = False,
      mx_insertedAt = now2, mx_size = int (length envelope)\<rparr>"

text \<open>Unlike the mailbox service, the hub does not look at the capacity again after evicting.\<close>

definition enqueueMailbox :: "gotime \<Rightarrow> gotime \<Rightarrow> string \<Rightarrow> string \<Rightarrow> bytes \<Rightarrow> RelayHub \<Rightarrow> (hub_error + unit) \<times> RelayHub" where
  "enqueueMailbox now1 now2 routeID deviceID envelope h =
     (case hb_routes h routeID of
        None \<Rightarrow> (Inl HRouteNotFound, h)
      | Some route \<Rightarrow>
          (let size = int (length envelope);
               route = (if hub_maxMailboxBytes < route_bytes route deviceID + size
                        then hub_evict deviceID size route else route);
               seq = hr_seq route + 1;
               route = route\<lparr>hr_seq := seq,
                 hr_mailbox := (hr_mailbox route)(deviceID \<mapsto> route_frames route deviceID @ [hub_frame seq envelope now1 now2]),
                 hr_bytes := (hr_bytes route)(deviceID \<mapsto> route_bytes route deviceID + size)\<rparr>
           in (Inr (), set_route routeID route h)))"

definition hub_write :: "bool \<Rightarrow> nat \<Rightarrow> bytes \<Rightarrow> RelayHub \<Rightarrow> (hub_error + unit) \<times> RelayHub" where
  "hub_write net ws msg h =
     (if net then (Inr (), h\<lparr>hb_sent := (hb_sent h)(ws := hb_sent h ws @ [msg])\<rparr>) else (Inl HWrite, h))"

definition ForwardFromBridge ::
  "(bytes \<Rightarrow> RelayEnvelope option) \<Rightarrow> bool \<Rightarrow> gotime \<Rightarrow> gotime \<Rightarrow> string \<Rightarrow> bytes \<Rightarrow> RelayHub \<Rightarrow> (hub_error + unit) \<times> RelayHub" where
  "ForwardFromBridge dec net now1 now2 routeID envelope h =
     (case hb_routes h routeID of
        None \<Rightarrow> (Inl HRouteNotFound, h)
      | Some route \<Rightarrow>
          (case dec envelope of
             None \<Rightarrow> (Inl HInvalidEnvelope, h)
           | Some env \<Rightarrow>
               (case hr_devices route (DestinationID env) of
                  None \<Rightarrow> (Inl HDeviceNotFound, h)
                | Some device \<Rightarrow>
                    (if hd_revoked device then (Inl HDeviceRevoked, h)
                     else case hd_conn device of
                       Some c \<Rightarrow> (if \<not> wc_closed c then hub_write net (wc_ws c) envelope h
                                  else enqueueMailbox now1 now2 routeID (DestinationID env) envelope h)
                     | None \<Rightarrow> enqueueMailbox now1 now2 routeID (DestinationID env) envelope h))))"

definition ForwardFromDevice :: "bool \<Rightarrow> string \<Rightarrow> string \<Rightarrow> bytes \<Rightarrow> RelayHub \<Rightarrow> (hub_error + unit) \<times> RelayHub" where
  "ForwardFromDevice net routeID deviceID envelope h =
     (case hb_routes h routeID of
        None \<Rightarrow> (Inl HRouteNotFound, h)
      | Some route \<Rightarrow>
          (case hr_devices route deviceID of
             None \<Rightarrow> (Inl HDeviceNotFound, h)
           | Some device \<Rightarrow>
               (if hd_revoked device then (Inl HDeviceRevoked, h)
                else case hr_bridgeConn route of
                  None \<Rightarrow> (Inl HBridgeOffline, h)
                | Some c \<Rightarrow> (if wc_closed c then (Inl HBridgeOffline, h) else hub_write net (wc_ws c) envelope h))))"

definition FetchMailbox :: "string \<Rightarrow> string \<Rightarrow> 64 word \<Rightarrow> RelayHub \<Rightarrow> hub_error + bytes list" where
  "FetchMailbox routeID deviceID afterCursor h =
     (case hb_routes h routeID of
        None \<Rightarrow> Inl HRouteNotFound
      | Some route \<Rightarrow>
          Inr (map mx_envelope (filter (\<lambda>f. afterCursor < mx_cursor f \<and> \<not> mx_acked f) (route_frames route deviceID))))"

text \<open>Acknowledging writes the byte counter even for a device without a mailbox.\<close>

definition AckMailbox :: "string \<Rightarrow> string \<Rightarrow> 64 word \<Rightarrow> RelayHub \<Rightarrow> (hub_error + unit) \<times> RelayHub" where
  "AckMailbox routeID deviceID cursor h =
     (case hb_routes h routeID of
        None \<Rightarrow> (Inl HRouteNotFound, h)
      | Some route \<Rightarrow>
          (let (ackedBytes, fs) = ack_through cursor (route_frames route deviceID)
           in (Inr (), set_route routeID (route\<lparr>
                 hr_mailbox := (case hr_mailbox route deviceID of None \<Rightarrow> hr_mailbox route
                                | Some _ \<Rightarrow> (hr_mailbox route)(deviceID \<mapsto> fs)),
                 hr_bytes := (hr_bytes route)(deviceID \<mapsto> route_bytes route deviceID - ackedBytes)\<rparr>) h)))"

definition hub_RevokeDevice :: "gotime \<Rightarrow> string \<Rightarrow> string \<Rightarrow> RelayHub \<Rightarrow> (hub_error + unit) \<times> RelayHub" where
  "hub_RevokeDevice now routeID deviceID h =
     (case hb_routes h routeID of
        None \<Rightarrow> (Inl HRouteNotFound, h)
      | Some route \<Rightarrow>
          (case hr_devices route deviceID of
             None \<Rightarrow> (Inl HDeviceNotFound, h)
           | Some device \<Rightarrow>
               (let device = device\<lparr>hd_revoked := True, hd_revokedAt := now,
                               hd_conn := map_option (\<lambda>c. c\<lparr>wc_closed := True\<rparr>) (hd_conn device)\<rparr>
                in (Inr (), set_route routeID ((set_device deviceID device route)\<lparr>
                      hr_mailbox := (hr_mailbox route)(deviceID := None),
                      hr_bytes := (hr_bytes route)(deviceID := None)\<rparr>) h))))"

text \<open>The status sums over a map whose keys are given.\<close>

definition hub_RouteStatus :: "string list \<Rightarrow> string list \<Rightarrow> string \<Rightarrow> RelayHub \<Rightarrow> (bool \<times> nat \<times> nat) option" where
  "hub_RouteStatus deviceIDs mailboxIDs routeID h =
     (case hb_routes h routeID of
        None \<Rightarrow> None
      | Some route \<Rightarrow> Some (hr_online route, length deviceIDs,
                            sum_list (map (\<lambda>d. length (route_frames route d)) mailboxIDs)))"

text \<open>Redelivery after a connect works on a copy of the frames; it stops at the first failing write.\<close>

fun send_frames :: "(nat \<Rightarrow> bool) \<Rightarrow> nat \<Rightarrow> nat \<Rightarrow> mailboxFrame list \<Rightarrow> RelayHub \<Rightarrow> RelayHub" where
  "send_frames net i ws [] h = h"
| "send_frames net i ws (f # fs) h =
     (if mx_acked f then send_frames net i ws fs h
      else case hub_write (net i) ws (mx_envelope f) h of
             (Inl _, h) \<Rightarrow> h
           | (Inr _, h) \<Rightarrow> send_frames net (Suc i) ws fs h)"

definition deliverPendingMailbox :: "(nat \<Rightarrow> bool) \<Rightarrow> string \<Rightarrow> string \<Rightarrow> RelayHub \<Rightarrow> RelayHub" where
  "deliverPendingMailbox net routeID deviceID h =
     (case hb_routes h routeID of
        None \<Rightarrow> h
      | Some route \<Rightarrow>
          (case hr_devices route deviceID of
             None \<Rightarrow> h
           | Some device \<Rightarrow>
               (case hd_conn device of
                  None \<Rightarrow> h
                | Some c \<Rightarrow> (if wc_closed c then h
                             else send_frames net 0 (wc_ws c) (route_frames route deviceID) h))))"


section \<open>The hub as a transition system\<close>

inductive hub_step :: "RelayHub \<Rightarrow> RelayHub \<Rightarrow> bool" where
  register_route: "hb_routes h (generateRelayID idRnd ''rt_'') = None \<Longrightarrow> hub_step h (snd (hub_RegisterRoute sha idRnd credRnd h))"
| register_device: "hub_step h (snd (hub_RegisterDevice sha credRnd r d h))"
| connect_bridge: "hub_step h (snd (ConnectBridge sha r auth ws h))"
| connect_device: "hub_step h (snd (ConnectDevice sha r d auth ws h))"
| disconnect_bridge: "hub_step h (DisconnectBridge r ws h)"
| disconnect_device: "hub_step h (hub_DisconnectDevice r d ws h)"
| forward_bridge: "(\<And>rt. hb_routes h r = Some rt \<Longrightarrow> hr_seq rt + 1 \<noteq> 0) \<Longrightarrow>
    hub_step h (snd (ForwardFromBridge dec net now1 now2 r e h))"
| enqueue: "(\<And>rt. hb_routes h r = Some rt \<Longrightarrow> hr_seq rt + 1 \<noteq> 0) \<Longrightarrow> hub_step h (snd (enqueueMailbox now1 now2 r d e h))"
| forward_device: "hub_step h (snd (ForwardFromDevice net r d e h))"
| ack: "hub_step h (snd (AckMailbox r d c h))"
| revoke: "hub_step h (snd (hub_RevokeDevice now r d h))"
| deliver: "hub_step h (deliverPendingMailbox nets r d h)"

text \<open>
  What the mailboxes see of a step: all but four steps leave every route's frames, bytes and counter
  alone; the others are a new route, an enqueue, an acknowledgement and a revocation.
\<close>

definition same_mail :: "relayRoute \<Rightarrow> relayRoute \<Rightarrow> bool" where
  "same_mail a b \<longleftrightarrow> hr_mailbox a = hr_mailbox b \<and> hr_bytes a = hr_bytes b \<and> hr_seq a = hr_seq b"

definition mail_kept :: "RelayHub \<Rightarrow> RelayHub \<Rightarrow> bool" where
  "mail_kept h h' \<longleftrightarrow> (\<forall>r. rel_option same_mail (hb_routes h r) (hb_routes h' r))"

lemma same_mail_refl [simp]: "same_mail a a"
  by (simp add: same_mail_def)

lemma mail_kept_refl [simp]: "mail_kept h h"
  by (simp add: mail_kept_def option.rel_refl)

lemma mail_kept_write [simp]: "mail_kept h (snd (hub_write net ws m h))"
  by (simp add: hub_write_def mail_kept_def option.rel_refl)

lemma mail_kept_routes: "hb_routes h = hb_routes h' \<Longrightarrow> mail_kept h h'"
  by (simp add: mail_kept_def option.rel_refl)

lemma send_frames_routes: "hb_routes (send_frames net i ws fs h) = hb_routes h"
  by (induction net i ws fs h rule: send_frames.induct) (auto simp: hub_write_def)

lemma mail_kept_set_route: "hb_routes h r = Some a \<Longrightarrow> same_mail a b \<Longrightarrow> mail_kept h (set_route r b h)"
  by (simp add: mail_kept_def set_route_def option.rel_refl)

lemma step_mail:
  assumes "hub_step h h'"
  obtains (kept) "mail_kept h h'"
  | (route) sha i c where "hb_routes h (generateRelayID i ''rt_'') = None" "h' = snd (hub_RegisterRoute sha i c h)"
  | (enqueued) n1 n2 r d e rt where "hb_routes h r = Some rt" "hr_seq rt + 1 \<noteq> 0" "h' = snd (enqueueMailbox n1 n2 r d e h)"
  | (acked) r d c where "h' = snd (AckMailbox r d c h)"
  | (revoked) now r d where "h' = snd (hub_RevokeDevice now r d h)"
  using assms
proof cases
  case (register_device sha credRnd r d)
  then show ?thesis
    by (intro kept) (auto simp: hub_RegisterDevice_def Let_def same_mail_def set_device_def split: option.split intro!: mail_kept_set_route)
next
  case (connect_bridge sha r auth ws)
  then show ?thesis
    by (intro kept) (auto simp: ConnectBridge_def same_mail_def split: option.split intro!: mail_kept_set_route)
next
  case (connect_device sha r d auth ws)
  then show ?thesis
    by (intro kept) (auto simp: ConnectDevice_def same_mail_def set_device_def split: option.split intro!: mail_kept_set_route)
next
  case (disconnect_bridge r ws)
  then show ?thesis
    by (intro kept) (auto simp: DisconnectBridge_def same_mail_def split: option.split intro!: mail_kept_set_route)
next
  case (disconnect_device r d ws)
  then show ?thesis
    by (intro kept) (auto simp: hub_DisconnectDevice_def same_mail_def set_device_def split: option.split intro!: mail_kept_set_route)
next
  case (forward_bridge r dec net now1 now2 e)
  then show ?thesis
    by (auto simp: ForwardFromBridge_def split: option.splits if_splits intro: kept enqueued)
next
  case (enqueue r now1 now2 d e)
  then show ?thesis
    by (cases "hb_routes h r") (auto simp: enqueueMailbox_def intro: kept enqueued)
next
  case (forward_device net r d e)
  then show ?thesis
    by (intro kept) (auto simp: ForwardFromDevice_def split: option.split)
next
  case (deliver nets r d)
  then show ?thesis
    by (intro kept) (auto simp: deliverPendingMailbox_def send_frames_routes split: option.split intro!: mail_kept_routes)
qed (auto intro: route acked revoked)

end
