(* ===== verification/Hub_Props.thy ===== *)
theory Hub_Props
  imports Relay_Hub
begin

text \<open>
  Properties of the relay hub: it is a cursor log per route and device, its mailboxes are within the
  budget, forwarding reaches the addressed device only, and revocation is complete.
\<close>

section \<open>The invariant\<close>

definition route_ok :: "relayRoute \<Rightarrow> bool" where
  "route_ok rt \<longleftrightarrow> (\<forall>d. frames_inv (hr_seq rt) (route_bytes rt d) (route_frames rt d)
     \<and> (route_bytes rt d \<le> hub_maxMailboxBytes \<or> length (frame_pending (route_frames rt d)) = 1))"

definition hub_ok :: "RelayHub \<Rightarrow> bool" where
  "hub_ok h \<longleftrightarrow> (\<forall>r rt. hb_routes h r = Some rt \<longrightarrow> route_ok rt)"

definition hub_pend :: "RelayHub \<Rightarrow> string \<times> string \<Rightarrow> (nat \<times> bytes) list" where
  "hub_pend h = (\<lambda>(r, d). case hb_routes h r of None \<Rightarrow> []
     | Some rt \<Rightarrow> map (\<lambda>f. (unat (mx_cursor f), mx_envelope f)) (frame_pending (route_frames rt d)))"

definition hub_mark :: "RelayHub \<Rightarrow> string \<times> string \<Rightarrow> nat" where
  "hub_mark h = (\<lambda>(r, d). case hb_routes h r of None \<Rightarrow> 0 | Some rt \<Rightarrow> Suc (unat (hr_seq rt)))"

lemma hub_ok_new: "hub_ok NewRelayHub"
  by (simp add: hub_ok_def NewRelayHub_def)

lemma same_mail_simps:
  assumes "same_mail a b"
  shows "route_frames a = route_frames b" "route_bytes a = route_bytes b" "hr_seq a = hr_seq b"
  using assms by (auto simp: same_mail_def route_frames_def route_bytes_def)

lemma mail_kept_views:
  assumes "mail_kept h h'"
  shows "hub_pend h' = hub_pend h" "hub_mark h' = hub_mark h" "hub_ok h \<Longrightarrow> hub_ok h'"
proof -
  have rel: "rel_option same_mail (hb_routes h r) (hb_routes h' r)" for r using assms by (simp add: mail_kept_def)
  show "hub_pend h' = hub_pend h"
  proof (rule ext, clarify)
    fix r d show "hub_pend h' (r, d) = hub_pend h (r, d)"
      using rel[of r] by (cases "hb_routes h r"; cases "hb_routes h' r") (auto simp: hub_pend_def same_mail_simps)
  qed
  show "hub_mark h' = hub_mark h"
  proof (rule ext, clarify)
    fix r d show "hub_mark h' (r, d) = hub_mark h (r, d)"
      using rel[of r] by (cases "hb_routes h r"; cases "hb_routes h' r") (auto simp: hub_mark_def same_mail_simps)
  qed
  assume ok: "hub_ok h"
  show "hub_ok h'" unfolding hub_ok_def
  proof (intro allI impI)
    fix r rt assume "hb_routes h' r = Some rt"
    with rel[of r] obtain rt0 where "hb_routes h r = Some rt0" "same_mail rt0 rt" by (cases "hb_routes h r") auto
    with ok have "route_ok rt0" by (simp add: hub_ok_def)
    then show "route_ok rt" using same_mail_simps[OF \<open>same_mail rt0 rt\<close>] by (simp add: route_ok_def)
  qed
qed

text \<open>The route after an enqueue, an acknowledgement, a revocation.\<close>

definition evicted_route :: "string \<Rightarrow> bytes \<Rightarrow> relayRoute \<Rightarrow> relayRoute" where
  "evicted_route d e rt = (if hub_maxMailboxBytes < route_bytes rt d + int (length e) then hub_evict d (int (length e)) rt else rt)"

lemma hub_evict_views:
  "route_frames (hub_evict d n rt) = (route_frames rt)(d := snd (evict_oldest n 0 (route_frames rt d)))"
  "route_bytes (hub_evict d n rt) = (route_bytes rt)(d := route_bytes rt d - fst (evict_oldest n 0 (route_frames rt d)))"
  "hr_seq (hub_evict d n rt) = hr_seq rt"
  by (auto simp: hub_evict_def route_frames_def route_bytes_def case_prod_beta split: option.split)

lemma enqueue_views:
  assumes "hb_routes h r = Some rt"
  obtains rt' where "enqueueMailbox n1 n2 r d e h = (Inr (), set_route r rt' h)"
    "route_frames rt' = (route_frames rt)(d := route_frames (evicted_route d e rt) d @ [hub_frame (hr_seq rt + 1) e n1 n2])"
    "route_bytes rt' = (route_bytes rt)(d := route_bytes (evicted_route d e rt) d + int (length e))"
    "hr_seq rt' = hr_seq rt + 1" "hr_devices rt' = hr_devices rt"
proof
  let ?e = "evicted_route d e rt"
  let ?rt = "?e\<lparr>hr_seq := hr_seq ?e + 1, hr_mailbox := (hr_mailbox ?e)(d \<mapsto> route_frames ?e d @ [hub_frame (hr_seq ?e + 1) e n1 n2]),
      hr_bytes := (hr_bytes ?e)(d \<mapsto> route_bytes ?e d + int (length e))\<rparr>"
  show "enqueueMailbox n1 n2 r d e h = (Inr (), set_route r ?rt h)"
    using assms by (simp add: enqueueMailbox_def Let_def evicted_route_def)
  have seq: "hr_seq ?e = hr_seq rt" by (simp add: evicted_route_def hub_evict_views)
  have other: "d' \<noteq> d \<Longrightarrow> route_frames ?e d' = route_frames rt d'" "d' \<noteq> d \<Longrightarrow> route_bytes ?e d' = route_bytes rt d'" for d'
    by (simp_all add: evicted_route_def hub_evict_views)
  show "route_frames ?rt = (route_frames rt)(d := route_frames ?e d @ [hub_frame (hr_seq rt + 1) e n1 n2])"
    using other(1) by (auto simp: route_frames_def seq)
  show "route_bytes ?rt = (route_bytes rt)(d := route_bytes ?e d + int (length e))"
    using other(2) by (auto simp: route_bytes_def)
  show "hr_seq ?rt = hr_seq rt + 1" by (simp add: seq)
  show "hr_devices ?rt = hr_devices rt" by (simp add: evicted_route_def hub_evict_def case_prod_beta)
qed

lemma evicted_ok:
  assumes "route_ok rt"
  shows "frames_inv (hr_seq rt) (route_bytes (evicted_route d e rt) d) (route_frames (evicted_route d e rt) d)"
    and "route_bytes (evicted_route d e rt) d + int (length e) \<le> hub_maxMailboxBytes \<or> frame_pending (route_frames (evicted_route d e rt) d) = []"
    and "set (frame_pending (route_frames (evicted_route d e rt) d)) \<subseteq> set (frame_pending (route_frames rt d))"
proof -
  obtain x gs where x: "evict_oldest (int (length e)) 0 (route_frames rt d) = (x, gs)" by fastforce
  have inv: "frames_inv (hr_seq rt) (route_bytes rt d) (route_frames rt d)"
    and cap: "route_bytes rt d \<le> hub_maxMailboxBytes \<or> length (frame_pending (route_frames rt d)) = 1"
    using assms by (auto simp: route_ok_def)
  show "frames_inv (hr_seq rt) (route_bytes (evicted_route d e rt) d) (route_frames (evicted_route d e rt) d)"
    using inv frames_inv_evict(1)[OF inv x] by (simp add: evicted_route_def hub_evict_views x)
  from evict_oldest_spec[OF x] obtain k where k: "frame_pending gs = drop k (frame_pending (route_frames rt d))"
    "k < length (frame_pending (route_frames rt d)) \<longrightarrow> int (length e) \<le> x" "k \<le> length (frame_pending (route_frames rt d))"
    "x = sum_list (map mx_size (take k (frame_pending (route_frames rt d))))" "frame_pending (route_frames rt d) \<noteq> [] \<longrightarrow> 0 < k" by auto
  show "set (frame_pending (route_frames (evicted_route d e rt) d)) \<subseteq> set (frame_pending (route_frames rt d))"
    using k(1) set_drop_subset by (auto simp: evicted_route_def hub_evict_views x dest: in_set_dropD)
  have "route_bytes rt d - x + int (length e) \<le> hub_maxMailboxBytes \<or> frame_pending gs = []"
  proof (cases "route_bytes rt d \<le> hub_maxMailboxBytes")
    case True
    then show ?thesis using frames_inv_evict_fits[OF inv x True] by simp
  next
    case False
    with cap have one: "length (frame_pending (route_frames rt d)) = 1" by simp
    with k(1,3,5) have "k = 1" by (cases "frame_pending (route_frames rt d)") auto
    with k(1) one show ?thesis by simp
  qed
  then show "route_bytes (evicted_route d e rt) d + int (length e) \<le> hub_maxMailboxBytes \<or> frame_pending (route_frames (evicted_route d e rt) d) = []"
    by (auto simp: evicted_route_def hub_evict_views x)
qed

lemma hub_frame_fields:
  "mx_cursor (hub_frame c e n1 n2) = c" "mx_envelope (hub_frame c e n1 n2) = e" "\<not> mx_acked (hub_frame c e n1 n2)"
  "mx_size (hub_frame c e n1 n2) = int (length e)"
  by (simp_all add: hub_frame_def)

lemma enqueue_ok:
  assumes "hb_routes h r = Some rt" and "hr_seq rt + 1 \<noteq> 0" and "hub_ok h"
  shows "hub_ok (snd (enqueueMailbox n1 n2 r d e h))"
    and "x \<in> set (hub_pend (snd (enqueueMailbox n1 n2 r d e h)) rd) \<Longrightarrow> x \<in> set (hub_pend h rd) \<or> hub_mark h rd \<le> fst x"
    and "hub_mark h rd \<le> hub_mark (snd (enqueueMailbox n1 n2 r d e h)) rd"
proof -
  obtain rt' where rt': "enqueueMailbox n1 n2 r d e h = (Inr (), set_route r rt' h)"
    "route_frames rt' = (route_frames rt)(d := route_frames (evicted_route d e rt) d @ [hub_frame (hr_seq rt + 1) e n1 n2])"
    "route_bytes rt' = (route_bytes rt)(d := route_bytes (evicted_route d e rt) d + int (length e))"
    "hr_seq rt' = hr_seq rt + 1" using assms(1) by (rule enqueue_views)
  have ok: "route_ok rt" using assms(1,3) by (simp add: hub_ok_def)
  note ev = evicted_ok[OF ok, of d e]
  have "frames_inv (hr_seq rt + 1) (route_bytes rt' d') (route_frames rt' d')
      \<and> (route_bytes rt' d' \<le> hub_maxMailboxBytes \<or> length (frame_pending (route_frames rt' d')) = 1)" for d'
  proof (cases "d' = d")
    case True
    have "frames_inv (hr_seq rt + 1) (route_bytes (evicted_route d e rt) d + mx_size (hub_frame (hr_seq rt + 1) e n1 n2))
        (route_frames (evicted_route d e rt) d @ [hub_frame (hr_seq rt + 1) e n1 n2])"
      by (rule frames_inv_append[OF ev(1) assms(2)]) (simp_all add: hub_frame_fields)
    then show ?thesis using True ev(2) by (auto simp: rt'(2,3) hub_frame_fields)
  next
    case False
    then show ?thesis using ok frames_inv_later[OF _ assms(2)] by (auto simp: rt'(2,3) route_ok_def)
  qed
  then have "route_ok rt'" by (simp add: route_ok_def rt'(4))
  then show "hub_ok (snd (enqueueMailbox n1 n2 r d e h))"
    using assms(3) by (simp add: rt'(1) hub_ok_def set_route_def)
  show "hub_mark h rd \<le> hub_mark (snd (enqueueMailbox n1 n2 r d e h)) rd"
    using assms(1,2) by (cases rd) (auto simp: rt'(1) hub_mark_def set_route_def rt'(4) unat_succ split: option.split)
  assume x: "x \<in> set (hub_pend (snd (enqueueMailbox n1 n2 r d e h)) rd)"
  obtain r' d' where rd: "rd = (r', d')" by (cases rd)
  show "x \<in> set (hub_pend h rd) \<or> hub_mark h rd \<le> fst x"
  proof (cases "r' = r \<and> d' = d")
    case True
    then show ?thesis
      using x ev(3) assms(1,2) by (auto simp: rd rt'(1) hub_pend_def hub_mark_def set_route_def rt'(2) hub_frame_fields unat_succ)
  next
    case False
    then have "hub_pend (snd (enqueueMailbox n1 n2 r d e h)) rd = hub_pend h rd"
      using assms(1) by (auto simp: rd rt'(1) hub_pend_def set_route_def rt'(2))
    then show ?thesis using x by simp
  qed
qed

lemma ack_views:
  assumes "hb_routes h r = Some rt"
  obtains rt' where "AckMailbox r d c h = (Inr (), set_route r rt' h)"
    "route_frames rt' = (route_frames rt)(d := snd (ack_through c (route_frames rt d)))"
    "route_bytes rt' = (route_bytes rt)(d := route_bytes rt d - fst (ack_through c (route_frames rt d)))"
    "hr_seq rt' = hr_seq rt"
proof
  let ?rt = "rt\<lparr>hr_mailbox := (case hr_mailbox rt d of None \<Rightarrow> hr_mailbox rt
      | Some _ \<Rightarrow> (hr_mailbox rt)(d \<mapsto> snd (ack_through c (route_frames rt d)))),
      hr_bytes := (hr_bytes rt)(d \<mapsto> route_bytes rt d - fst (ack_through c (route_frames rt d)))\<rparr>"
  show "AckMailbox r d c h = (Inr (), set_route r ?rt h)" using assms by (simp add: AckMailbox_def case_prod_beta)
  show "route_frames ?rt = (route_frames rt)(d := snd (ack_through c (route_frames rt d)))"
    by (auto simp: route_frames_def ack_through_def split: option.split)
  show "route_bytes ?rt = (route_bytes rt)(d := route_bytes rt d - fst (ack_through c (route_frames rt d)))"
    by (auto simp: route_bytes_def)
qed simp

lemma ack_pend_subset:
  "set (hub_pend (snd (AckMailbox r d c h)) rd) \<subseteq> set (hub_pend h rd)"
  "hub_mark (snd (AckMailbox r d c h)) rd = hub_mark h rd"
  "hub_ok h \<Longrightarrow> hub_ok (snd (AckMailbox r d c h))"
proof -
  obtain r' d' where rd: "rd = (r', d')" by (cases rd)
  have all: "set (hub_pend (snd (AckMailbox r d c h)) rd) \<subseteq> set (hub_pend h rd)
    \<and> hub_mark (snd (AckMailbox r d c h)) rd = hub_mark h rd \<and> (hub_ok h \<longrightarrow> hub_ok (snd (AckMailbox r d c h)))"
  proof (cases "hb_routes h r")
    case None
    then show ?thesis by (simp add: AckMailbox_def)
  next
    case (Some rt)
    then obtain rt' where rt': "AckMailbox r d c h = (Inr (), set_route r rt' h)"
      "route_frames rt' = (route_frames rt)(d := snd (ack_through c (route_frames rt d)))"
      "route_bytes rt' = (route_bytes rt)(d := route_bytes rt d - fst (ack_through c (route_frames rt d)))"
      "hr_seq rt' = hr_seq rt" by (rule ack_views)
    have "route_ok rt'" if "hub_ok h"
    proof -
      have ok: "route_ok rt" using that Some by (simp add: hub_ok_def)
      have inv: "frames_inv (hr_seq rt) (route_bytes rt d) (route_frames rt d)" using ok by (simp add: route_ok_def)
      have "length (filter (\<lambda>f. c < mx_cursor f) (frame_pending (route_frames rt d))) = 1"
        if "length (frame_pending (route_frames rt d)) = 1" "filter (\<lambda>f. c < mx_cursor f) (frame_pending (route_frames rt d)) \<noteq> []"
        using that by (cases "frame_pending (route_frames rt d)") (auto split: if_splits)
      moreover have "pending_size (snd (ack_through c (route_frames rt d))) = 0" if "filter (\<lambda>f. c < mx_cursor f) (frame_pending (route_frames rt d)) = []"
        using that by (simp add: pending_size_def ack_through_spec(1))
      ultimately have "route_bytes rt d - fst (ack_through c (route_frames rt d)) \<le> hub_maxMailboxBytes
          \<or> length (frame_pending (snd (ack_through c (route_frames rt d)))) = 1"
        using ok frames_inv_ack[OF inv, of c] unfolding route_ok_def
        by (cases "filter (\<lambda>f. c < mx_cursor f) (frame_pending (route_frames rt d)) = []")
          (auto simp: ack_through_spec(1) frames_inv_def hub_maxMailboxBytes_def dest!: spec[of _ d])
      then show ?thesis
        using ok frames_inv_ack(1)[OF inv, of c] by (simp add: route_ok_def rt'(2-4))
    qed
    then have "hub_ok h \<longrightarrow> hub_ok (snd (AckMailbox r d c h))" by (auto simp: rt'(1) hub_ok_def set_route_def)
    moreover have "set (hub_pend (snd (AckMailbox r d c h)) rd) \<subseteq> set (hub_pend h rd)"
      using Some by (auto simp: rd rt'(1) hub_pend_def set_route_def rt'(2) ack_through_spec(1) split: option.splits if_splits)
    moreover have "hub_mark (snd (AckMailbox r d c h)) rd = hub_mark h rd"
      using Some by (simp add: rd rt'(1) hub_mark_def set_route_def rt'(4))
    ultimately show ?thesis by blast
  qed
  then show "set (hub_pend (snd (AckMailbox r d c h)) rd) \<subseteq> set (hub_pend h rd)"
    "hub_mark (snd (AckMailbox r d c h)) rd = hub_mark h rd" "hub_ok h \<Longrightarrow> hub_ok (snd (AckMailbox r d c h))" by simp_all
qed

lemma revoke_views:
  "hub_RevokeDevice now r d h = (res, h') \<Longrightarrow>
     (res = Inr () \<and> (\<exists>rt rt'. hb_routes h r = Some rt \<and> h' = set_route r rt' h \<and> route_frames rt' = (route_frames rt)(d := [])
        \<and> route_bytes rt' = (route_bytes rt)(d := 0) \<and> hr_seq rt' = hr_seq rt)) \<or> h' = h"
  by (auto simp: hub_RevokeDevice_def Let_def route_frames_def route_bytes_def set_device_def fun_eq_iff split: option.splits)

lemma hub_step_laws:
  assumes "hub_step h h'" and "hub_ok h"
  shows "hub_ok h' \<and> hub_mark h rd \<le> hub_mark h' rd
    \<and> (\<forall>x \<in> set (hub_pend h' rd). x \<in> set (hub_pend h rd) \<or> hub_mark h rd \<le> fst x)"
  using assms(1)
proof (cases rule: step_mail)
  case kept
  then show ?thesis using mail_kept_views[OF kept] assms(2) by simp
next
  case (route sha i c)
  then show ?thesis
    using assms(2) by (cases rd) (auto simp: hub_RegisterRoute_def Let_def set_route_def hub_ok_def hub_mark_def hub_pend_def
        route_ok_def route_frames_def route_bytes_def hub_maxMailboxBytes_def split: option.splits)
next
  case (enqueued n1 n2 r d e rt)
  then show ?thesis using enqueue_ok[OF enqueued(1,2) assms(2)] by blast
next
  case (acked r d c)
  then show ?thesis using ack_pend_subset(1,2)[where r = r and d = d and c = c and h = h and rd = rd] ack_pend_subset(3)[OF assms(2), of r d c] by auto
next
  case (revoked now r d)
  obtain res where "hub_RevokeDevice now r d h = (res, h')" using revoked by (metis surjective_pairing)
  from revoke_views[OF this] consider "h' = h"
    | rt rt' where "hb_routes h r = Some rt" "h' = set_route r rt' h" "route_frames rt' = (route_frames rt)(d := [])"
        "route_bytes rt' = (route_bytes rt)(d := 0)" "hr_seq rt' = hr_seq rt" by blast
  then show ?thesis
  proof cases
    case 1
    then show ?thesis using assms(2) by simp
  next
    case 2
    have "route_ok rt'" using assms(2) 2 by (auto simp: hub_ok_def route_ok_def hub_maxMailboxBytes_def)
    then have "hub_ok h'" using assms(2) 2(2) by (auto simp: hub_ok_def set_route_def)
    moreover have "hub_mark h rd \<le> hub_mark h' rd" using 2 by (cases rd) (auto simp: hub_mark_def set_route_def split: option.split)
    moreover have "set (hub_pend h' rd) \<subseteq> set (hub_pend h rd)"
      using 2 by (cases rd) (auto simp: hub_pend_def set_route_def split: option.splits if_splits)
    ultimately show ?thesis by blast
  qed
qed

interpretation hub: cursor_log hub_ok hub_pend hub_mark hub_step
proof unfold_locales
  show "hub_ok s \<Longrightarrow> hub_step s t \<Longrightarrow> hub_ok t" for s t using hub_step_laws by blast
  show "hub_ok s \<Longrightarrow> hub_step s t \<Longrightarrow> hub_mark s d \<le> hub_mark t d" for s t d using hub_step_laws by blast
  show "hub_ok s \<Longrightarrow> hub_step s t \<Longrightarrow> x \<in> set (hub_pend t d) \<Longrightarrow> x \<in> set (hub_pend s d) \<or> hub_mark s d \<le> fst x" for s t x d
    using hub_step_laws by blast
next
  fix s rd assume ok: "hub_ok s"
  then show "sorted_wrt (<) (map fst (hub_pend s rd))"
  proof (cases rd)
    case (Pair r d)
    have "sorted_wrt (<) (map (\<lambda>f. unat (mx_cursor f)) (frame_pending (route_frames rt d)))" if "hb_routes s r = Some rt" for rt
      using ok that frames_inv_sorted unfolding hub_ok_def route_ok_def by blast
    then show ?thesis using Pair by (simp add: hub_pend_def comp_def split: option.split)
  qed
  fix x assume "x \<in> set (hub_pend s rd)"
  with ok show "fst x < hub_mark s rd"
    by (cases rd; cases "hb_routes s (fst rd)")
      (auto simp: hub_pend_def hub_mark_def hub_ok_def route_ok_def frames_inv_def frame_pending_set word_le_nat_alt less_Suc_eq_le)
qed

lemma Fetch_hub_pend:
  assumes "FetchMailbox r d after h = Inr es"
  shows "es = map snd (filter (\<lambda>(n, e). unat after < n) (hub_pend h (r, d)))"
proof (cases "hb_routes h r")
  case (Some rt)
  have "map mx_envelope (filter (\<lambda>f. after < mx_cursor f \<and> \<not> mx_acked f) fs)
      = map snd (filter (\<lambda>(n, e). unat after < n) (map (\<lambda>f. (unat (mx_cursor f), mx_envelope f)) (frame_pending fs)))"
    for fs :: "mailboxFrame list" by (induction fs) (auto simp: word_less_nat_alt)
  then show ?thesis using assms Some by (simp add: FetchMailbox_def hub_pend_def)
qed (use assms in \<open>simp add: FetchMailbox_def\<close>)

text \<open>
  The hub's mailboxes, in every state it can reach: the pending frames of a device are in
  strictly increasing cursor order and the byte counter is their exact size, within 50 MiB unless a
  single frame is larger than that; a fetch returns exactly the pending frames above the given
  cursor. Once a device has acknowledged through a cursor given out before, no pending frame at or
  below it ever comes back, through any forwarding, connecting, revoking and registering again.
\<close>

theorem hub_mailbox_invariant:
  assumes "hub_step\<^sup>*\<^sup>* NewRelayHub h" and "hb_routes h r = Some rt" and "c \<le> hr_seq rt"
    and "hub_step\<^sup>*\<^sup>* (snd (AckMailbox r d c h)) h'"
  shows "sorted_wrt (<) (map fst (hub_pend h (r, d)))
    \<and> route_bytes rt d = sum_list (map (\<lambda>(n, e). int (length e)) (hub_pend h (r, d)))
    \<and> (route_bytes rt d \<le> 50 * 1024 * 1024 \<or> length (hub_pend h (r, d)) = 1)
    \<and> FetchMailbox r d after h = Inr (map snd (filter (\<lambda>(n, e). unat after < n) (hub_pend h (r, d))))
    \<and> (\<forall>(n, e) \<in> set (hub_pend h' (r, d)). unat c < n)"
proof -
  have ok: "hub_ok h" by (rule hub.steps_inv[OF assms(1) hub_ok_new])
  have rok: "route_ok rt" using ok assms(2) by (simp add: hub_ok_def)
  have pend: "hub_pend h (r, d) = map (\<lambda>f. (unat (mx_cursor f), mx_envelope f)) (frame_pending (route_frames rt d))"
    using assms(2) by (simp add: hub_pend_def)
  have inv: "frames_inv (hr_seq rt) (route_bytes rt d) (route_frames rt d)" using rok by (simp add: route_ok_def)
  have "map mx_size (frame_pending (route_frames rt d)) = map (\<lambda>(n, e). int (length e)) (hub_pend h (r, d))"
    using inv by (auto simp: pend frames_inv_def frame_pending_set)
  then have b: "route_bytes rt d = sum_list (map (\<lambda>(n, e). int (length e)) (hub_pend h (r, d)))"
    using inv unfolding frames_inv_def pending_size_def by metis
  have cap: "route_bytes rt d \<le> 50 * 1024 * 1024 \<or> length (hub_pend h (r, d)) = 1"
    using rok by (simp add: route_ok_def pend hub_maxMailboxBytes_def)
  obtain es where "FetchMailbox r d after h = Inr es" using assms(2) by (simp add: FetchMailbox_def)
  then have f: "FetchMailbox r d after h = Inr (map snd (filter (\<lambda>(n, e). unat after < n) (hub_pend h (r, d))))"
    using Fetch_hub_pend by blast
  let ?h = "snd (AckMailbox r d c h)"
  have gone: "(n, e) \<notin> set (hub_pend ?h (r, d))" if "n \<le> unat c" for n e
  proof -
    obtain rt' where "AckMailbox r d c h = (Inr (), set_route r rt' h)"
      "route_frames rt' = (route_frames rt)(d := snd (ack_through c (route_frames rt d)))" using assms(2) by (rule ack_views)
    then show ?thesis using that by (auto simp: hub_pend_def set_route_def ack_through_spec(1) word_less_nat_alt)
  qed
  have "unat c < n" if "(n, e) \<in> set (hub_pend h' (r, d))" for n e
  proof (rule ccontr)
    assume "\<not> unat c < n"
    moreover from this have "n < hub_mark ?h (r, d)"
      using assms(2,3) by (simp add: ack_pend_subset(2)) (simp add: hub_mark_def word_le_nat_alt)
    ultimately show False
      using hub.never_redelivered[OF ack_pend_subset(3)[OF ok] assms(4), of "(n, e)" "(r, d)"] gone that by simp
  qed
  then show ?thesis using hub.pend_sorted[OF ok] b cap f by blast
qed


section \<open>Forwarding and revocation\<close>

text \<open>
  Forwarding from the bridge reaches the addressed device of that route or nobody. It succeeds
  only for a registered device of the route that is not revoked; then either the device is connected
  and the envelope is written, last, to its socket and nothing else changes, or it is not and the
  envelope is put last in its mailbox under the next cursor of the route, and no socket and no other
  mailbox changes. When it reports an error nothing has changed at all.
\<close>

theorem hub_forward_exact:
  assumes "\<forall>rt. hb_routes h r = Some rt \<longrightarrow> hr_seq rt + 1 \<noteq> 0"
    and "ForwardFromBridge dec net now1 now2 r e h = (res, h')"
  shows "(\<forall>err. res = Inl err \<longrightarrow> h' = h)
    \<and> (res = Inr () \<longrightarrow> (\<exists>rt env dev. hb_routes h r = Some rt \<and> dec e = Some env
          \<and> hr_devices rt (DestinationID env) = Some dev \<and> \<not> hd_revoked dev
          \<and> (if \<exists>c. hd_conn dev = Some c \<and> \<not> wc_closed c
             then h' = h\<lparr>hb_sent := (hb_sent h)(wc_ws (the (hd_conn dev)) := hb_sent h (wc_ws (the (hd_conn dev))) @ [e])\<rparr>
             else hb_sent h' = hb_sent h
               \<and> (\<exists>k. hub_pend h' (r, DestinationID env) = drop k (hub_pend h (r, DestinationID env)) @ [(Suc (unat (hr_seq rt)), e)])
               \<and> (\<forall>rd. rd \<noteq> (r, DestinationID env) \<longrightarrow> hub_pend h' rd = hub_pend h rd))))"
proof -
  have enq: "\<exists>rt. hb_routes h r = Some rt \<and> hb_sent (snd (enqueueMailbox now1 now2 r d e h)) = hb_sent h
     \<and> (\<exists>k. hub_pend (snd (enqueueMailbox now1 now2 r d e h)) (r, d) = drop k (hub_pend h (r, d)) @ [(Suc (unat (hr_seq rt)), e)])
     \<and> (\<forall>rd. rd \<noteq> (r, d) \<longrightarrow> hub_pend (snd (enqueueMailbox now1 now2 r d e h)) rd = hub_pend h rd)
     \<and> fst (enqueueMailbox now1 now2 r d e h) = Inr ()" if some: "hb_routes h r = Some rt" for d rt
  proof -
    obtain rt' where rt': "enqueueMailbox now1 now2 r d e h = (Inr (), set_route r rt' h)"
      "route_frames rt' = (route_frames rt)(d := route_frames (evicted_route d e rt) d @ [hub_frame (hr_seq rt + 1) e now1 now2])"
      using some by (rule enqueue_views)
    obtain k where "frame_pending (route_frames (evicted_route d e rt) d) = drop k (frame_pending (route_frames rt d))"
    proof (cases "hub_maxMailboxBytes < route_bytes rt d + int (length e)")
      case True
      obtain x gs where x: "evict_oldest (int (length e)) 0 (route_frames rt d) = (x, gs)" by fastforce
      from evict_oldest_spec[OF x] True that show ?thesis by (auto simp: evicted_route_def hub_evict_views x)
    next
      case False
      then show ?thesis using that[of 0] by (simp add: evicted_route_def)
    qed
    then have "hub_pend (snd (enqueueMailbox now1 now2 r d e h)) (r, d) = drop k (hub_pend h (r, d)) @ [(Suc (unat (hr_seq rt)), e)]"
      using some assms(1) by (simp add: rt' hub_pend_def set_route_def hub_frame_fields drop_map unat_succ)
    moreover have "hub_pend (snd (enqueueMailbox now1 now2 r d e h)) rd = hub_pend h rd" if "rd \<noteq> (r, d)" for rd
      using that some by (cases rd) (auto simp: rt' hub_pend_def set_route_def)
    ultimately show ?thesis using some rt'(1) by (auto simp: set_route_def)
  qed
  show ?thesis
  proof (cases "hb_routes h r")
    case None
    then show ?thesis using assms(2) by (auto simp: ForwardFromBridge_def)
  next
    case (Some rt)
    note e = enq[OF Some]
    show ?thesis
    proof (cases "dec e")
      case None
      then show ?thesis using assms(2) Some by (auto simp: ForwardFromBridge_def)
    next
      case env: (Some env)
      show ?thesis
      proof (cases "hr_devices rt (DestinationID env)")
        case None
        then show ?thesis using assms(2) Some env by (auto simp: ForwardFromBridge_def)
      next
        case dev: (Some dev)
        note known = Some env dev
        consider "hd_revoked dev" | c where "\<not> hd_revoked dev" "hd_conn dev = Some c" "\<not> wc_closed c"
          | "\<not> hd_revoked dev" "\<not> (\<exists>c. hd_conn dev = Some c \<and> \<not> wc_closed c)" by blast
        then show ?thesis
        proof cases
          case 1
          then show ?thesis using assms(2) known by (auto simp: ForwardFromBridge_def)
        next
          case 2
          then show ?thesis using assms(2) known by (auto simp: ForwardFromBridge_def hub_write_def split: if_splits)
        next
          case 3
          then have eq: "enqueueMailbox now1 now2 r (DestinationID env) e h = (res, h')"
            using assms(2) known by (simp add: ForwardFromBridge_def split: option.splits)
          have r: "res = Inr ()" "hb_sent h' = hb_sent h"
            "\<exists>k. hub_pend h' (r, DestinationID env) = drop k (hub_pend h (r, DestinationID env)) @ [(Suc (unat (hr_seq rt)), e)]"
            "\<forall>rd. rd \<noteq> (r, DestinationID env) \<longrightarrow> hub_pend h' rd = hub_pend h rd"
            using e[of "DestinationID env"] unfolding eq fst_conv snd_conv Some option.inject by blast+
          show ?thesis
            by (rule conjI, simp add: r(1), rule impI, rule exI[of _ rt], rule exI[of _ env], rule exI[of _ dev])
              (use known 3 r in \<open>simp only: if_False, blast\<close>)
        qed
      qed
    qed
  qed
qed

text \<open>
  Revoking a device on the hub is complete: afterwards no credential authorises it or connects it,
  nothing is forwarded to it or from it, its mailbox is empty and its connection is closed, until it
  is registered again; the devices, credentials and mailboxes of others are as before.
\<close>

theorem hub_revocation_complete:
  assumes "hub_RevokeDevice now r d h = (Inr (), h')"
  shows "\<not> AuthorizeDevice sha r d auth h' \<and> ConnectDevice sha r d auth ws h' = (Inl HDeviceRevoked, h')
    \<and> (dec e = Some env \<longrightarrow> DestinationID env = d \<longrightarrow> ForwardFromBridge dec net n1 n2 r e h' = (Inl HDeviceRevoked, h'))
    \<and> ForwardFromDevice net r d e h' = (Inl HDeviceRevoked, h')
    \<and> hub_pend h' (r, d) = [] \<and> deliverPendingMailbox nets r d h' = h'
    \<and> ((r', d') \<noteq> (r, d) \<longrightarrow> AuthorizeDevice sha r' d' auth' h' = AuthorizeDevice sha r' d' auth' h
          \<and> hub_pend h' (r', d') = hub_pend h (r', d'))"
proof -
  obtain rt dev where rd: "hb_routes h r = Some rt" "hr_devices rt d = Some dev"
    using assms by (auto simp: hub_RevokeDevice_def split: option.splits)
  let ?dev = "dev\<lparr>hd_revoked := True, hd_revokedAt := now, hd_conn := map_option (\<lambda>c. c\<lparr>wc_closed := True\<rparr>) (hd_conn dev)\<rparr>"
  let ?rt = "(set_device d ?dev rt)\<lparr>hr_mailbox := (hr_mailbox rt)(d := None), hr_bytes := (hr_bytes rt)(d := None)\<rparr>"
  have h': "h' = set_route r ?rt h" using assms rd by (simp add: hub_RevokeDevice_def Let_def)
  have rt': "hb_routes h' r = Some ?rt" "hr_devices ?rt d = Some ?dev" by (simp_all add: h' set_route_def set_device_def)
  have "\<not> AuthorizeDevice sha r d auth h'" using rt' by (simp add: AuthorizeDevice_def)
  moreover have "ConnectDevice sha r d auth ws h' = (Inl HDeviceRevoked, h')" using rt' by (simp add: ConnectDevice_def)
  moreover have "dec e = Some env \<longrightarrow> DestinationID env = d \<longrightarrow> ForwardFromBridge dec net n1 n2 r e h' = (Inl HDeviceRevoked, h')"
    using rt' by (simp add: ForwardFromBridge_def)
  moreover have "ForwardFromDevice net r d e h' = (Inl HDeviceRevoked, h')" using rt' by (simp add: ForwardFromDevice_def)
  moreover have "hub_pend h' (r, d) = []" using rt'(1) by (simp add: hub_pend_def route_frames_def)
  moreover have "deliverPendingMailbox nets r d h' = h'"
    using rt' by (simp add: deliverPendingMailbox_def split: option.split)
  moreover have "AuthorizeDevice sha r' d' auth' h' = AuthorizeDevice sha r' d' auth' h \<and> hub_pend h' (r', d') = hub_pend h (r', d')"
    if "(r', d') \<noteq> (r, d)"
    using that rd by (auto simp: h' AuthorizeDevice_def hub_pend_def set_route_def set_device_def route_frames_def)
  ultimately show ?thesis by blast
qed


section \<open>Concrete runs\<close>

definition demo_rid :: string where
  "demo_rid = generateRelayID (replicate 16 0) ''rt_''"

definition demo_hub :: RelayHub where
  "demo_hub = snd (hub_RegisterDevice id [] demo_rid ''d'' (snd (hub_RegisterRoute id (replicate 16 0) [] NewRelayHub)))"

definition demo_mail :: RelayHub where
  "demo_mail = snd (enqueueMailbox 0 0 demo_rid ''d'' [7] demo_hub)"

lemma demo_hub_route: "\<exists>rt dev. hb_routes demo_hub demo_rid = Some rt \<and> hr_seq rt = 0 \<and> hr_devices rt ''d'' = Some dev
    \<and> \<not> hd_revoked dev \<and> hd_conn dev = None \<and> hr_mailbox rt = Map.empty"
  by (simp add: demo_hub_def hub_RegisterDevice_def hub_RegisterRoute_def NewRelayHub_def set_route_def set_device_def
      demo_rid_def Let_def)

lemma demo_hub_reach: "hub_step\<^sup>*\<^sup>* NewRelayHub demo_hub"
proof -
  have "hub_step NewRelayHub (snd (hub_RegisterRoute id (replicate 16 0) [] NewRelayHub))"
    by (rule hub_step.register_route) (simp add: NewRelayHub_def)
  moreover have "hub_step (snd (hub_RegisterRoute id (replicate 16 0) [] NewRelayHub)) demo_hub"
    unfolding demo_hub_def by (rule hub_step.register_device)
  ultimately show ?thesis by auto
qed

lemma demo_mail_reach: "hub_step\<^sup>*\<^sup>* NewRelayHub demo_mail"
proof -
  have "hub_step demo_hub demo_mail"
    unfolding demo_mail_def by (rule hub_step.enqueue) (use demo_hub_route in auto)
  then show ?thesis using demo_hub_reach by auto
qed

lemma demo_mail_route: "\<exists>rt. hb_routes demo_mail demo_rid = Some rt \<and> hr_seq rt = 1"
  using demo_hub_route
  by (auto simp: demo_mail_def enqueueMailbox_def Let_def set_route_def route_bytes_def hub_maxMailboxBytes_def hub_evict_def
      case_prod_beta)

theorem hub_mailbox_invariant_witness: "\<exists>rt. hb_routes demo_mail demo_rid = Some rt
    \<and> route_bytes rt ''d'' = sum_list (map (\<lambda>(n, e). int (length e)) (hub_pend demo_mail (demo_rid, ''d'')))"
proof -
  obtain rt where rt: "hb_routes demo_mail demo_rid = Some rt" "hr_seq rt = 1" using demo_mail_route by blast
  have "1 \<le> hr_seq rt" by (simp add: rt(2))
  from hub_mailbox_invariant[OF demo_mail_reach rt(1) this rtranclp.rtrancl_refl] rt(1) show ?thesis by blast
qed

definition demo_env :: RelayEnvelope where
  "demo_env = online_envelope \<lparr>c_aead = \<lparr>aead_Seal = (\<lambda>k n a p. p), aead_Open = (\<lambda>k n a c. Some c)\<rparr>, c_encAAD = (\<lambda>_. []),
     c_marshal = (\<lambda>_. None), c_unmarshal = (\<lambda>_. None), c_rfc3339 = (\<lambda>_. [])\<rparr> [] 0
     (NewRelayDeviceConn ''d'' ''bridge'' demo_rid 1 [] [] 0) 1"

theorem hub_forward_exact_witness:
  "\<exists>k. hub_pend (snd (ForwardFromBridge (\<lambda>_. Some demo_env) True 0 0 demo_rid [9] demo_hub)) (demo_rid, ''d'')
     = drop k (hub_pend demo_hub (demo_rid, ''d'')) @ [(1, [9])]"
proof -
  obtain rt dev where r: "hb_routes demo_hub demo_rid = Some rt" "hr_seq rt = 0" "hr_devices rt ''d'' = Some dev"
    "\<not> hd_revoked dev" "hd_conn dev = None" using demo_hub_route by blast
  have d: "DestinationID demo_env = ''d''" by (simp add: demo_env_def online_envelope_def NewRelayDeviceConn_def)
  have "fst (ForwardFromBridge (\<lambda>_. Some demo_env) True 0 0 demo_rid [9] demo_hub) = Inr ()"
    using r d by (simp add: ForwardFromBridge_def enqueueMailbox_def Let_def)
  moreover have "\<forall>rt. hb_routes demo_hub demo_rid = Some rt \<longrightarrow> hr_seq rt + 1 \<noteq> 0" using r by simp
  ultimately show ?thesis
    using hub_forward_exact[OF _ surjective_pairing, of demo_hub demo_rid "\<lambda>_. Some demo_env" True 0 0 "[9]"] r d by simp
qed

theorem hub_revocation_complete_witness:
  "\<not> AuthorizeDevice id demo_rid ''d'' [] (snd (hub_RevokeDevice 5 demo_rid ''d'' demo_hub))"
proof -
  have "hub_RevokeDevice 5 demo_rid ''d'' demo_hub = (Inr (), snd (hub_RevokeDevice 5 demo_rid ''d'' demo_hub))"
    using demo_hub_route by (auto simp: hub_RevokeDevice_def Let_def)
  from hub_revocation_complete[OF this] show ?thesis by blast
qed

end
