(* ===== verification/Mailbox_Service.thy ===== *)
theory Mailbox_Service
  imports Mailbox_Frames
begin

text \<open>
  The mailbox service of the bridge (\<^verbatim>\<open>go-bridge/relay_mailbox.go\<close>): per device a list of frames with a
  byte budget, one global cursor counter, paged fetch, acknowledgement, expiry and clearing. It is an
  instance of the cursor log, so what that contract gives a client holds of it.
\<close>

section \<open>State and operations\<close>

record EpochMetadata =
  em_EpochIndex :: "64 word option"
  em_PrekeyID :: string
  em_KeyEpochID :: string
  em_Counter :: "64 word"

record mailboxEntry = mailboxFrame +
  me_epochIndex :: "64 word option"
  me_prekeyID :: string
  me_keyEpochID :: string
  me_counter :: "64 word"

record deviceMailbox =
  dm_routeID :: string
  dm_deviceID :: string
  dm_frames :: "mailboxEntry list"
  dm_totalBytes :: int

record MailboxService =
  ms_mailboxes :: "string \<rightharpoonup> deviceMailbox"
  ms_seq :: "64 word"

definition defaultMailboxTTL :: duration where
  "defaultMailboxTTL = 1440 * minute"

definition maxMailboxBytesPerDev :: int where
  "maxMailboxBytesPerDev = 50 * 1024 * 1024"

definition NewMailboxService :: MailboxService where
  "NewMailboxService = \<lparr>ms_mailboxes = Map.empty, ms_seq = 0\<rparr>"

definition mailboxKey :: "string \<Rightarrow> string \<Rightarrow> string" where
  "mailboxKey routeID deviceID = routeID @ '':'' @ deviceID"

definition get_mailbox :: "string \<Rightarrow> string \<Rightarrow> MailboxService \<Rightarrow> deviceMailbox" where
  "get_mailbox routeID deviceID ms =
     (case ms_mailboxes ms (mailboxKey routeID deviceID) of
        Some mb \<Rightarrow> mb
      | None \<Rightarrow> \<lparr>dm_routeID = routeID, dm_deviceID = deviceID, dm_frames = [], dm_totalBytes = 0\<rparr>)"

definition svc_evict :: "int \<Rightarrow> deviceMailbox \<Rightarrow> deviceMailbox" where
  "svc_evict neededBytes mb =
     (let (evictedBytes, fs) = evict_oldest neededBytes 0 (dm_frames mb)
      in mb\<lparr>dm_frames := fs, dm_totalBytes := dm_totalBytes mb - evictedBytes\<rparr>)"

definition new_entry :: "64 word \<Rightarrow> bytes \<Rightarrow> gotime \<Rightarrow> gotime \<Rightarrow> EpochMetadata option \<Rightarrow> mailboxEntry" where
  "new_entry cursor envelope now1 now2 epochMeta =
     \<lparr>mx_cursor = cursor, mx_envelope = envelope, mx_expiresAt = now2 + defaultMailboxTTL, mx_acked = False,
      mx_insertedAt = now1, mx_size = int (length envelope),
      me_epochIndex = (case epochMeta of None \<Rightarrow> None | Some m \<Rightarrow> em_EpochIndex m),
      me_prekeyID = (case epochMeta of None \<Rightarrow> [] | Some m \<Rightarrow> em_PrekeyID m),
      me_keyEpochID = (case epochMeta of None \<Rightarrow> [] | Some m \<Rightarrow> em_KeyEpochID m),
      me_counter = (case epochMeta of None \<Rightarrow> 0 | Some m \<Rightarrow> em_Counter m)\<rparr>"

text \<open>The mailbox is in the map before the capacity is checked, so a refused frame leaves it there.\<close>

definition Enqueue ::
  "gotime \<Rightarrow> gotime \<Rightarrow> string \<Rightarrow> string \<Rightarrow> bytes \<Rightarrow> EpochMetadata option \<Rightarrow> MailboxService \<Rightarrow> bool \<times> MailboxService" where
  "Enqueue now1 now2 routeID deviceID envelope epochMeta ms =
     (let key = mailboxKey routeID deviceID;
          mb = get_mailbox routeID deviceID ms;
          frameSize = int (length envelope);
          mb = (if maxMailboxBytesPerDev < dm_totalBytes mb + frameSize then svc_evict frameSize mb else mb)
      in if maxMailboxBytesPerDev < dm_totalBytes mb + frameSize
         then (False, ms\<lparr>ms_mailboxes := (ms_mailboxes ms)(key \<mapsto> mb)\<rparr>)
         else let seq = ms_seq ms + 1;
                  mb = mb\<lparr>dm_frames := dm_frames mb @ [new_entry seq envelope now1 now2 epochMeta],
                          dm_totalBytes := dm_totalBytes mb + frameSize\<rparr>
              in (True, ms\<lparr>ms_mailboxes := (ms_mailboxes ms)(key \<mapsto> mb), ms_seq := seq\<rparr>))"

record MailboxFetchResponse =
  fr_Frames :: "(64 word \<times> bytes) list"
  fr_HasMore :: bool
  fr_NextCursor :: "64 word"

text \<open>The loop of the fetch: the page so far, and the first frame that no longer fits on it.\<close>

fun fetch_loop :: "64 word \<Rightarrow> int \<Rightarrow> mailboxEntry list \<Rightarrow> (64 word \<times> bytes) list \<Rightarrow> MailboxFetchResponse" where
  "fetch_loop after limit [] page = \<lparr>fr_Frames = page, fr_HasMore = False, fr_NextCursor = 0\<rparr>"
| "fetch_loop after limit (f # fs) page =
     (if mx_acked f \<or> mx_cursor f \<le> after then fetch_loop after limit fs page
      else if limit \<le> int (length page)
      then \<lparr>fr_Frames = page, fr_HasMore = True, fr_NextCursor = mx_cursor f\<rparr>
      else fetch_loop after limit fs (page @ [(mx_cursor f, mx_envelope f)]))"

definition Fetch :: "string \<Rightarrow> string \<Rightarrow> 64 word \<Rightarrow> int \<Rightarrow> MailboxService \<Rightarrow> MailboxFetchResponse" where
  "Fetch routeID deviceID afterCursor limit ms =
     (case ms_mailboxes ms (mailboxKey routeID deviceID) of
        None \<Rightarrow> \<lparr>fr_Frames = [], fr_HasMore = False, fr_NextCursor = 0\<rparr>
      | Some mb \<Rightarrow> fetch_loop afterCursor (if limit \<le> 0 then 100 else limit) (dm_frames mb) [])"

definition Ack :: "string \<Rightarrow> string \<Rightarrow> 64 word \<Rightarrow> MailboxService \<Rightarrow> bool \<times> MailboxService" where
  "Ack routeID deviceID cursor ms =
     (let key = mailboxKey routeID deviceID
      in case ms_mailboxes ms key of
           None \<Rightarrow> (False, ms)
         | Some mb \<Rightarrow>
             (let (ackedBytes, fs) = ack_through cursor (dm_frames mb)
              in (True, ms\<lparr>ms_mailboxes := (ms_mailboxes ms)
                     (key \<mapsto> mb\<lparr>dm_frames := fs, dm_totalBytes := dm_totalBytes mb - ackedBytes\<rparr>)\<rparr>)))"

definition entry_expired :: "gotime \<Rightarrow> mailboxEntry \<Rightarrow> bool" where
  "entry_expired now f \<longleftrightarrow> mx_expiresAt f < now \<and> \<not> mx_acked f"

definition Expire :: "gotime \<Rightarrow> string \<Rightarrow> string \<Rightarrow> MailboxService \<Rightarrow> nat \<times> MailboxService" where
  "Expire now routeID deviceID ms =
     (let key = mailboxKey routeID deviceID
      in case ms_mailboxes ms key of
           None \<Rightarrow> (0, ms)
         | Some mb \<Rightarrow>
             (let expired = filter (entry_expired now) (dm_frames mb)
              in (length expired, ms\<lparr>ms_mailboxes := (ms_mailboxes ms)
                     (key \<mapsto> mb\<lparr>dm_frames := filter (\<lambda>f. \<not> entry_expired now f) (dm_frames mb),
                                 dm_totalBytes := dm_totalBytes mb - sum_list (map mx_size expired)\<rparr>)\<rparr>)))"

definition ClearForDevice :: "string \<Rightarrow> string \<Rightarrow> MailboxService \<Rightarrow> MailboxService" where
  "ClearForDevice routeID deviceID ms = ms\<lparr>ms_mailboxes := (ms_mailboxes ms)(mailboxKey routeID deviceID := None)\<rparr>"

definition mailbox_Stats :: "string \<Rightarrow> string \<Rightarrow> MailboxService \<Rightarrow> (nat \<times> nat \<times> int) option" where
  "mailbox_Stats routeID deviceID ms =
     (case ms_mailboxes ms (mailboxKey routeID deviceID) of
        None \<Rightarrow> None
      | Some mb \<Rightarrow> Some (length (dm_frames mb), length (filter (\<lambda>f. \<not> mx_acked f) (dm_frames mb)), dm_totalBytes mb))"

definition IsDurableMilestone :: "string \<Rightarrow> bool" where
  "IsDurableMilestone eventType \<longleftrightarrow>
     eventType \<in> {''turn_completed'', ''turn_error'', ''todos_updated'', ''session_running_signal'',
                  ''delivery_reconcile_required''}"

record DeliveryReconcileRequired =
  dr_Type :: string
  dr_DeviceID :: string
  dr_Reason :: string

definition NewDeliveryReconcileRequired :: "string \<Rightarrow> string \<Rightarrow> DeliveryReconcileRequired" where
  "NewDeliveryReconcileRequired deviceID reason =
     \<lparr>dr_Type = ''delivery_reconcile_required'', dr_DeviceID = deviceID, dr_Reason = reason\<rparr>"


section \<open>The invariant\<close>

definition mailbox_ok :: "64 word \<Rightarrow> deviceMailbox \<Rightarrow> bool" where
  "mailbox_ok seq mb \<longleftrightarrow> frames_inv seq (dm_totalBytes mb) (dm_frames mb) \<and> dm_totalBytes mb \<le> maxMailboxBytesPerDev"

definition service_ok :: "MailboxService \<Rightarrow> bool" where
  "service_ok ms \<longleftrightarrow> (\<forall>k mb. ms_mailboxes ms k = Some mb \<longrightarrow> mailbox_ok (ms_seq ms) mb)"

text \<open>The steps of the service; the global counter is a \<^verbatim>\<open>uint64\<close> that does not run over.\<close>

inductive service_step :: "MailboxService \<Rightarrow> MailboxService \<Rightarrow> bool" where
  enqueue: "ms_seq ms + 1 \<noteq> 0 \<Longrightarrow> service_step ms (snd (Enqueue now1 now2 r d e m ms))"
| ack: "service_step ms (snd (Ack r d c ms))"
| expire: "service_step ms (snd (Expire now r d ms))"
| clear: "service_step ms (ClearForDevice r d ms)"

lemma service_ok_new: "service_ok NewMailboxService"
  by (simp add: service_ok_def NewMailboxService_def)

lemma get_mailbox_ok: "service_ok ms \<Longrightarrow> mailbox_ok (ms_seq ms) (get_mailbox r d ms)"
  by (simp add: service_ok_def get_mailbox_def split: option.split) (simp add: mailbox_ok_def maxMailboxBytesPerDev_def)

lemma mailbox_ok_later: "mailbox_ok seq mb \<Longrightarrow> seq + 1 \<noteq> 0 \<Longrightarrow> mailbox_ok (seq + 1) mb"
  by (simp add: mailbox_ok_def frames_inv_later)

lemma svc_evict_ok: "mailbox_ok seq mb \<Longrightarrow> mailbox_ok seq (svc_evict n mb)"
  using frames_inv_evict[of seq "dm_totalBytes mb" "dm_frames mb" n]
  by (cases "evict_oldest n 0 (dm_frames mb)") (auto simp: svc_evict_def mailbox_ok_def)

text \<open>One successful enqueue on a mailbox with room.\<close>

lemma append_entry_ok:
  assumes "mailbox_ok seq mb" and "seq + 1 \<noteq> 0" and "dm_totalBytes mb + int (length e) \<le> maxMailboxBytesPerDev"
  shows "mailbox_ok (seq + 1) (mb\<lparr>dm_frames := dm_frames mb @ [new_entry (seq + 1) e n1 n2 m],
           dm_totalBytes := dm_totalBytes mb + int (length e)\<rparr>)"
  using frames_inv_append[of seq "dm_totalBytes mb" "dm_frames mb" "new_entry (seq + 1) e n1 n2 m"] assms
  by (simp add: mailbox_ok_def new_entry_def)

definition room_made :: "int \<Rightarrow> deviceMailbox \<Rightarrow> deviceMailbox" where
  "room_made n mb = (if maxMailboxBytesPerDev < dm_totalBytes mb + n then svc_evict n mb else mb)"

lemma Enqueue_eq:
  "Enqueue n1 n2 r d e m ms =
     (let mb = room_made (int (length e)) (get_mailbox r d ms)
      in if maxMailboxBytesPerDev < dm_totalBytes mb + int (length e)
         then (False, ms\<lparr>ms_mailboxes := (ms_mailboxes ms)(mailboxKey r d \<mapsto> mb)\<rparr>)
         else (True, ms\<lparr>ms_mailboxes := (ms_mailboxes ms)(mailboxKey r d \<mapsto>
                 mb\<lparr>dm_frames := dm_frames mb @ [new_entry (ms_seq ms + 1) e n1 n2 m],
                    dm_totalBytes := dm_totalBytes mb + int (length e)\<rparr>), ms_seq := ms_seq ms + 1\<rparr>))"
  by (simp add: Enqueue_def room_made_def Let_def)

lemma room_made_ok: "mailbox_ok seq mb \<Longrightarrow> mailbox_ok seq (room_made n mb)"
  by (simp add: room_made_def svc_evict_ok)

text \<open>Making room for a frame that fits the budget at all always succeeds.\<close>

lemma room_made_fits:
  assumes "mailbox_ok seq mb" and "n \<le> maxMailboxBytesPerDev"
  shows "dm_totalBytes (room_made n mb) + n \<le> maxMailboxBytesPerDev"
proof (cases "maxMailboxBytesPerDev < dm_totalBytes mb + n")
  case True
  obtain e gs where e: "evict_oldest n 0 (dm_frames mb) = (e, gs)" by fastforce
  have "dm_totalBytes mb - e + n \<le> maxMailboxBytesPerDev \<or> frame_pending gs = []"
    using frames_inv_evict_fits[OF _ e, of seq "dm_totalBytes mb" maxMailboxBytesPerDev] assms(1) unfolding mailbox_ok_def by blast
  moreover have "dm_totalBytes mb - e = pending_size gs"
    using frames_inv_evict(1)[OF _ e, of seq "dm_totalBytes mb"] assms(1) unfolding mailbox_ok_def frames_inv_def by blast
  moreover have "dm_totalBytes (room_made n mb) = dm_totalBytes mb - e"
    using True by (simp add: room_made_def svc_evict_def e)
  moreover have "frame_pending gs = [] \<Longrightarrow> pending_size gs = 0" by (simp add: pending_size_def)
  ultimately show ?thesis using assms(2) by linarith
qed (simp add: room_made_def)

lemma service_step_ok:
  assumes "service_step ms ms'" and "service_ok ms"
  shows "service_ok ms'"
  using assms(1)
proof cases
  case (enqueue now1 now2 r d e m)
  let ?mb = "room_made (int (length e)) (get_mailbox r d ms)"
  have ok: "mailbox_ok (ms_seq ms) ?mb" using assms(2) by (simp add: get_mailbox_ok room_made_ok)
  show ?thesis
  proof (cases "maxMailboxBytesPerDev < dm_totalBytes ?mb + int (length e)")
    case True
    then show ?thesis using enqueue ok assms(2) by (simp add: Enqueue_eq Let_def service_ok_def)
  next
    case False
    then have "mailbox_ok (ms_seq ms + 1) (?mb\<lparr>dm_frames := dm_frames ?mb @ [new_entry (ms_seq ms + 1) e now1 now2 m],
        dm_totalBytes := dm_totalBytes ?mb + int (length e)\<rparr>)"
      using append_entry_ok[OF ok enqueue(2)] by simp
    then show ?thesis
      using enqueue False assms(2) mailbox_ok_later[OF _ enqueue(2)] by (auto simp: Enqueue_eq Let_def service_ok_def)
  qed
next
  case (ack r d c)
  show ?thesis
  proof (cases "ms_mailboxes ms (mailboxKey r d)")
    case (Some mb)
    then have ok: "mailbox_ok (ms_seq ms) mb" using assms(2) by (simp add: service_ok_def)
    then have "mailbox_ok (ms_seq ms) (mb\<lparr>dm_frames := snd (ack_through c (dm_frames mb)),
        dm_totalBytes := dm_totalBytes mb - fst (ack_through c (dm_frames mb))\<rparr>)"
      using frames_inv_ack[of "ms_seq ms" "dm_totalBytes mb" "dm_frames mb" c] by (simp add: mailbox_ok_def)
    then show ?thesis using ack Some assms(2) by (auto simp: Ack_def Let_def case_prod_beta service_ok_def)
  qed (use ack assms(2) in \<open>simp add: Ack_def\<close>)
next
  case (expire now r d)
  show ?thesis
  proof (cases "ms_mailboxes ms (mailboxKey r d)")
    case (Some mb)
    then have ok: "mailbox_ok (ms_seq ms) mb" using assms(2) by (simp add: service_ok_def)
    have split: "pending_size (filter (\<lambda>f. \<not> entry_expired now f) fs) = pending_size fs - sum_list (map mx_size (filter (entry_expired now) fs))" for fs
      by (induction fs) (auto simp: entry_expired_def)
    have "0 \<le> sum_list (map mx_size (filter (entry_expired now) (dm_frames mb)))"
      using ok by (auto simp: mailbox_ok_def frames_inv_def intro!: sum_list_nonneg)
    then have "mailbox_ok (ms_seq ms) (mb\<lparr>dm_frames := filter (\<lambda>f. \<not> entry_expired now f) (dm_frames mb),
        dm_totalBytes := dm_totalBytes mb - sum_list (map mx_size (filter (entry_expired now) (dm_frames mb)))\<rparr>)"
      using ok split[of "dm_frames mb"] by (simp add: mailbox_ok_def frames_inv_def sorted_wrt_map sorted_wrt_filter)
    then show ?thesis using expire Some assms(2) by (auto simp: Expire_def Let_def service_ok_def)
  qed (use expire assms(2) in \<open>simp add: Expire_def\<close>)
qed (use assms(2) in \<open>auto simp: ClearForDevice_def service_ok_def\<close>)


section \<open>The service is a cursor log\<close>

definition svc_pend :: "MailboxService \<Rightarrow> string \<Rightarrow> (nat \<times> bytes) list" where
  "svc_pend ms k =
     (case ms_mailboxes ms k of None \<Rightarrow> []
      | Some mb \<Rightarrow> map (\<lambda>f. (unat (mx_cursor f), mx_envelope f)) (frame_pending (dm_frames mb)))"

definition svc_mark :: "MailboxService \<Rightarrow> string \<Rightarrow> nat" where
  "svc_mark ms k = Suc (unat (ms_seq ms))"

lemma svc_evict_pending: "set (frame_pending (dm_frames (room_made n mb))) \<subseteq> set (frame_pending (dm_frames mb))"
proof -
  obtain e gs where e: "evict_oldest n 0 (dm_frames mb) = (e, gs)" by fastforce
  then show ?thesis
    using evict_oldest_spec[OF e] set_drop_subset by (auto simp: room_made_def svc_evict_def dest: in_set_dropD)
qed

lemma get_mailbox_pend:
  "map (\<lambda>f. (unat (mx_cursor f), mx_envelope f)) (frame_pending (dm_frames (get_mailbox r d ms))) = svc_pend ms (mailboxKey r d)"
  by (simp add: get_mailbox_def svc_pend_def split: option.split)

lemma service_step_pend:
  assumes "service_step ms ms'" and "x \<in> set (svc_pend ms' k)"
  shows "x \<in> set (svc_pend ms k) \<or> svc_mark ms k \<le> fst x"
  using assms(1)
proof cases
  case (enqueue now1 now2 r d e m)
  let ?mb = "room_made (int (length e)) (get_mailbox r d ms)"
  have sub: "(\<lambda>f. (unat (mx_cursor f), mx_envelope f)) ` set (frame_pending (dm_frames ?mb)) \<subseteq> set (svc_pend ms (mailboxKey r d))"
    unfolding get_mailbox_pend[symmetric] set_map by (rule image_mono) (rule svc_evict_pending)
  show ?thesis
    using assms(2) enqueue sub
    by (auto simp: Enqueue_eq Let_def svc_pend_def svc_mark_def new_entry_def unat_succ split: if_splits option.splits)
next
  case (ack r d c)
  with assms(2) show ?thesis
    by (auto simp: Ack_def Let_def case_prod_beta svc_pend_def ack_through_spec(1) split: option.splits if_splits)
next
  case (expire now r d)
  with assms(2) show ?thesis
    by (auto simp: Expire_def Let_def svc_pend_def frame_pending_set split: option.splits if_splits)
next
  case (clear r d)
  with assms(2) show ?thesis by (auto simp: ClearForDevice_def svc_pend_def split: option.splits if_splits)
qed

lemma service_step_seq: "service_step ms ms' \<Longrightarrow> unat (ms_seq ms) \<le> unat (ms_seq ms')"
  by (induction rule: service_step.induct)
    (auto simp: Enqueue_eq Let_def Ack_def Expire_def ClearForDevice_def unat_succ case_prod_beta split: option.split)

interpretation svc: cursor_log service_ok svc_pend svc_mark service_step
proof unfold_locales
  show "service_ok s \<Longrightarrow> service_step s t \<Longrightarrow> service_ok t" for s t by (rule service_step_ok)
next
  fix s k assume "service_ok s"
  then show "sorted_wrt (<) (map fst (svc_pend s k))"
    by (cases "ms_mailboxes s k")
      (auto simp: svc_pend_def service_ok_def mailbox_ok_def comp_def dest!: spec dest: frames_inv_sorted)
next
  fix s x k assume "service_ok s" "x \<in> set (svc_pend s k)"
  then show "fst x < svc_mark s k"
    by (cases "ms_mailboxes s k")
      (auto simp: svc_pend_def svc_mark_def service_ok_def mailbox_ok_def frames_inv_def frame_pending_set word_le_nat_alt less_Suc_eq_le)
next
  show "service_step s t \<Longrightarrow> svc_mark s d \<le> svc_mark t d" for s t d
    using service_step_seq by (simp add: svc_mark_def)
  show "service_step s t \<Longrightarrow> x \<in> set (svc_pend t d) \<Longrightarrow> x \<in> set (svc_pend s d) \<or> svc_mark s d \<le> fst x" for s t x d
    by (rule service_step_pend)
qed


section \<open>Fetching\<close>

definition fetchable :: "64 word \<Rightarrow> mailboxEntry list \<Rightarrow> (64 word \<times> bytes) list" where
  "fetchable after fs = map (\<lambda>f. (mx_cursor f, mx_envelope f)) (filter (\<lambda>f. \<not> (mx_acked f \<or> mx_cursor f \<le> after)) fs)"

lemma fetch_loop_spec:
  assumes "int (length page) \<le> limit"
  shows "fetch_loop after limit fs page =
    (let rest = fetchable after fs; n = nat limit - length page
     in \<lparr>fr_Frames = page @ take n rest, fr_HasMore = (n < length rest),
         fr_NextCursor = (if n < length rest then fst (rest ! n) else 0)\<rparr>)"
  using assms
proof (induction fs arbitrary: page)
  case Nil
  then show ?case by (simp add: fetchable_def)
next
  case (Cons f fs)
  show ?case
  proof (cases "mx_acked f \<or> mx_cursor f \<le> after")
    case True
    with Cons show ?thesis by (auto simp: fetchable_def)
  next
    case False
    then have fe: "fetchable after (f # fs) = (mx_cursor f, mx_envelope f) # fetchable after fs" by (simp add: fetchable_def)
    show ?thesis
    proof (cases "limit \<le> int (length page)")
      case True
      with Cons.prems have "nat limit = length page" by simp
      with False True show ?thesis by (simp add: fe)
    next
      case room: False
      then have n: "nat limit - length page = Suc (nat limit - Suc (length page))" by linarith
      have "int (length (page @ [(mx_cursor f, mx_envelope f)])) \<le> limit" using room by simp
      from Cons.IH[OF this] False room show ?thesis by (simp add: fe n Let_def)
    qed
  qed
qed

lemma fetchable_sub: "set (fetchable after (dm_frames mb)) \<subseteq> (\<lambda>f. (mx_cursor f, mx_envelope f)) ` set (frame_pending (dm_frames mb))"
  by (auto simp: fetchable_def frame_pending_set)

lemma Fetch_pend:
  assumes "(c, e) \<in> set (fr_Frames (Fetch r d after limit ms))"
  shows "(unat c, e) \<in> set (svc_pend ms (mailboxKey r d)) \<and> after < c"
proof (cases "ms_mailboxes ms (mailboxKey r d)")
  case None
  then show ?thesis using assms by (simp add: Fetch_def)
next
  case (Some mb)
  have "int (length []) \<le> (if limit \<le> 0 then 100 else limit)" by simp
  from fetch_loop_spec[OF this, of after "dm_frames mb"] have "(c, e) \<in> set (fetchable after (dm_frames mb))"
    using assms Some by (auto simp: Fetch_def Let_def dest: in_set_takeD split: if_splits)
  then show ?thesis using Some by (auto simp: svc_pend_def fetchable_def frame_pending_set not_le)
qed

text \<open>
  The mailbox service never hands out a frame twice after it was acknowledged: once a device has
  acknowledged through a cursor the service has given out, then through any further enqueues,
  acknowledgements, expiries and clearings no page of a fetch holds a frame at or below that cursor,
  and a cursor handed out twice names the same envelope.
\<close>

theorem service_ack_final:
  assumes "service_step\<^sup>*\<^sup>* NewMailboxService s" and "Ack r d c s = (True, s1)" and "c \<le> ms_seq s"
    and "service_step\<^sup>*\<^sup>* s1 s2"
  shows "(\<forall>(cur, e) \<in> set (fr_Frames (Fetch r d after limit s2)). c < cur)
    \<and> (\<forall>cur e e'. (cur, e) \<in> set (fr_Frames (Fetch r d after limit s)) \<longrightarrow>
         (cur, e') \<in> set (fr_Frames (Fetch r d after' limit' s2)) \<longrightarrow> e' = e)"
proof -
  have ok: "service_ok s" by (rule svc.steps_inv[OF assms(1) service_ok_new])
  have st: "service_step s s1" using service_step.ack[of s r d c] assms(2) by simp
  have ok1: "service_ok s1" by (rule service_step_ok[OF st ok])
  have run: "service_step\<^sup>*\<^sup>* s s2" using st assms(4) by (rule converse_rtranclp_into_rtranclp)
  have p1: "(n, e) \<notin> set (svc_pend s1 (mailboxKey r d))" if "n \<le> unat c" for n e
    using assms(2) that by (auto simp: Ack_def Let_def case_prod_beta svc_pend_def ack_through_spec(1) word_less_nat_alt
        split: option.splits)
  have m1: "svc_mark s1 k = svc_mark s k" for k
    using assms(2) by (auto simp: svc_mark_def Ack_def Let_def case_prod_beta split: option.splits)
  have "c < cur" if "(cur, e) \<in> set (fr_Frames (Fetch r d after limit s2))" for cur e
  proof (rule ccontr)
    assume "\<not> c < cur"
    then have le: "unat cur \<le> unat c" by (simp add: word_le_nat_alt not_less)
    then have "unat cur < svc_mark s1 (mailboxKey r d)"
      using assms(3) m1 by (simp add: svc_mark_def word_le_nat_alt)
    then have "(unat cur, e) \<notin> set (svc_pend s2 (mailboxKey r d))"
      using svc.never_redelivered[OF ok1 assms(4)] p1[OF le] by simp
    then show False using Fetch_pend[OF that] by simp
  qed
  moreover have "e' = e" if "(cur, e) \<in> set (fr_Frames (Fetch r d after limit s))"
    "(cur, e') \<in> set (fr_Frames (Fetch r d after' limit' s2))" for cur e e'
    using svc.cursor_stable[OF ok run] Fetch_pend[OF that(1)] Fetch_pend[OF that(2)] by blast
  ultimately show ?thesis by blast
qed

text \<open>
  A page holds the first pending frames after the given cursor, as many as the limit allows, in
  cursor order; it says that there is more exactly when there is, and the cursor it then gives is that
  of the first frame left out. That frame is lost to a client that continues from it: a fetch after
  the given cursor never returns it, so a client has to continue from the last cursor it received.
\<close>

theorem fetch_page_outcome:
  assumes "ms_mailboxes ms (mailboxKey r d) = Some mb" and "n = nat (if limit \<le> 0 then 100 else limit)"
    and "page = Fetch r d after limit ms" and "rest = fetchable after (dm_frames mb)"
  shows "fr_Frames page = take n rest \<and> (fr_HasMore page \<longleftrightarrow> n < length rest)
    \<and> (fr_HasMore page \<longrightarrow> fr_NextCursor page = fst (rest ! n) \<and> rest ! n \<notin> set (fr_Frames (Fetch r d (fr_NextCursor page) limit' ms)))"
proof -
  have "int (length []) \<le> (if limit \<le> 0 then 100 else limit)" by simp
  from fetch_loop_spec[OF this, of after "dm_frames mb"]
  have p: "page = \<lparr>fr_Frames = take n rest, fr_HasMore = (n < length rest), fr_NextCursor = (if n < length rest then fst (rest ! n) else 0)\<rparr>"
    using assms(1) by (simp add: assms(2-4) Fetch_def Let_def)
  have "rest ! n \<notin> set (fr_Frames (Fetch r d (fst (rest ! n)) limit' ms))"
    using Fetch_pend[of "fst (rest ! n)" "snd (rest ! n)" r d "fst (rest ! n)" limit' ms] by auto
  then show ?thesis using p by simp
qed


section \<open>Enqueueing\<close>

lemma room_made_pending:
  "\<exists>k. frame_pending (dm_frames (room_made n mb)) = drop k (frame_pending (dm_frames mb))
     \<and> (dm_totalBytes mb + n \<le> maxMailboxBytesPerDev \<longrightarrow> k = 0)
     \<and> (\<forall>j < k. 0 < j \<longrightarrow> sum_list (map mx_size (take j (frame_pending (dm_frames mb)))) < n)"
proof (cases "maxMailboxBytesPerDev < dm_totalBytes mb + n")
  case True
  obtain e gs where e: "evict_oldest n 0 (dm_frames mb) = (e, gs)" by fastforce
  with evict_oldest_spec[OF e] True show ?thesis by (auto simp: room_made_def svc_evict_def)
next
  case False
  then show ?thesis by (auto simp: room_made_def intro!: exI[of _ 0])
qed

text \<open>
  Enqueueing succeeds exactly when the frame fits the 50 MiB budget of a device at all. Then the
  frame comes last, under the next cursor; what is evicted is a run of the oldest pending frames, none
  when there was room and no longer than needed to free the size of the new frame; the bytes kept for
  the device are exactly those of its pending frames and within the budget; and no other mailbox
  changes. A frame that does not fit is refused, but not before every pending frame of the device has
  been thrown away.
\<close>

theorem enqueue_outcome:
  assumes "service_step\<^sup>*\<^sup>* NewMailboxService s" and "Enqueue now1 now2 r d e m s = (ok, s')"
    and "ms_seq s + 1 \<noteq> 0"
  shows "(ok \<longleftrightarrow> int (length e) \<le> 50 * 1024 * 1024)
    \<and> (ok \<longrightarrow> (\<exists>k. svc_pend s' (mailboxKey r d) = drop k (svc_pend s (mailboxKey r d)) @ [(Suc (unat (ms_seq s)), e)]
          \<and> (sum_list (map (\<lambda>(c, x). int (length x)) (svc_pend s (mailboxKey r d))) + int (length e) \<le> 50 * 1024 * 1024 \<longrightarrow> k = 0)
          \<and> (\<forall>j < k. 0 < j \<longrightarrow> sum_list (map (\<lambda>(c, x). int (length x)) (take j (svc_pend s (mailboxKey r d)))) < int (length e)))
          \<and> sum_list (map (\<lambda>(c, x). int (length x)) (svc_pend s' (mailboxKey r d))) \<le> 50 * 1024 * 1024)
    \<and> (\<not> ok \<longrightarrow> svc_pend s' (mailboxKey r d) = [])
    \<and> (\<forall>k. k \<noteq> mailboxKey r d \<longrightarrow> svc_pend s' k = svc_pend s k)"
proof -
  let ?k = "mailboxKey r d" and ?g = "get_mailbox r d s"
  let ?mb = "room_made (int (length e)) ?g"
  let ?p = "\<lambda>f :: mailboxEntry. (unat (mx_cursor f), mx_envelope f)"
  have sok: "service_ok s" by (rule svc.steps_inv[OF assms(1) service_ok_new])
  have gok: "mailbox_ok (ms_seq s) ?g" using sok by (rule get_mailbox_ok)
  have rok: "mailbox_ok (ms_seq s) ?mb" using gok by (rule room_made_ok)
  have pend: "svc_pend s ?k = map ?p (frame_pending (dm_frames ?g))" by (simp add: get_mailbox_pend)
  have bytes: "map (\<lambda>(c, x). int (length x)) (map ?p fs) = map mx_size fs" if "set fs \<subseteq> set (dm_frames mb)" "mailbox_ok q mb" for fs mb q
    using that by (auto simp: mailbox_ok_def frames_inv_def)
  have sub: "set (take j (frame_pending (dm_frames mb))) \<subseteq> set (dm_frames mb)" for j mb
    by (auto simp: frame_pending_set dest: in_set_takeD)
  have all: "set (frame_pending fs) \<subseteq> set fs" for fs :: "mailboxEntry list" by (auto simp: frame_pending_set)
  have tot: "dm_totalBytes ?g = sum_list (map (\<lambda>(c, x). int (length x)) (svc_pend s ?k))"
    unfolding pend bytes[OF all gok] using gok by (simp add: mailbox_ok_def frames_inv_def pending_size_def)
  have pre: "sum_list (map (\<lambda>(c, x). int (length x)) (take j (svc_pend s ?k))) = sum_list (map mx_size (take j (frame_pending (dm_frames ?g))))" for j
    unfolding pend take_map bytes[OF sub gok] ..
  obtain k where k: "frame_pending (dm_frames ?mb) = drop k (frame_pending (dm_frames ?g))"
    "dm_totalBytes ?g + int (length e) \<le> maxMailboxBytesPerDev \<longrightarrow> k = 0"
    "\<forall>j < k. 0 < j \<longrightarrow> sum_list (map mx_size (take j (frame_pending (dm_frames ?g)))) < int (length e)"
    using room_made_pending by blast
  have other: "\<forall>k'. k' \<noteq> ?k \<longrightarrow> svc_pend s' k' = svc_pend s k'"
    using assms(2) by (auto simp: Enqueue_eq Let_def svc_pend_def split: if_splits)
  show ?thesis
  proof (cases "int (length e) \<le> maxMailboxBytesPerDev")
    case True
    have fits: "dm_totalBytes ?mb + int (length e) \<le> maxMailboxBytesPerDev" by (rule room_made_fits[OF gok True])
    let ?new = "?mb\<lparr>dm_frames := dm_frames ?mb @ [new_entry (ms_seq s + 1) e now1 now2 m], dm_totalBytes := dm_totalBytes ?mb + int (length e)\<rparr>"
    have res: "ok" "s' = s\<lparr>ms_mailboxes := (ms_mailboxes s)(?k \<mapsto> ?new), ms_seq := ms_seq s + 1\<rparr>"
      using assms(2) fits by (auto simp: Enqueue_eq Let_def)
    have new: "svc_pend s' ?k = drop k (svc_pend s ?k) @ [(Suc (unat (ms_seq s)), e)]"
      unfolding pend using assms(3) by (simp add: res(2) svc_pend_def k(1) drop_map new_entry_def unat_succ)
    have nok: "mailbox_ok (ms_seq s + 1) ?new" by (rule append_entry_ok[OF rok assms(3) fits])
    have p': "svc_pend s' ?k = map ?p (frame_pending (dm_frames ?new))" by (simp add: res(2) svc_pend_def)
    have "sum_list (map (\<lambda>(c, x). int (length x)) (svc_pend s' ?k)) = dm_totalBytes ?new"
      unfolding p' bytes[OF all nok] using nok unfolding mailbox_ok_def frames_inv_def pending_size_def by metis
    then have le: "sum_list (map (\<lambda>(c, x). int (length x)) (svc_pend s' ?k)) \<le> 50 * 1024 * 1024"
      using nok by (simp add: mailbox_ok_def maxMailboxBytesPerDev_def)
    have ex: "\<exists>k. svc_pend s' ?k = drop k (svc_pend s ?k) @ [(Suc (unat (ms_seq s)), e)]
        \<and> (sum_list (map (\<lambda>(c, x). int (length x)) (svc_pend s ?k)) + int (length e) \<le> 50 * 1024 * 1024 \<longrightarrow> k = 0)
        \<and> (\<forall>j < k. 0 < j \<longrightarrow> sum_list (map (\<lambda>(c, x). int (length x)) (take j (svc_pend s ?k))) < int (length e))"
      using new k(2,3) unfolding tot[symmetric] pre maxMailboxBytesPerDev_def by blast
    from True have "int (length e) \<le> 50 * 1024 * 1024" by (simp add: maxMailboxBytesPerDev_def)
    with res(1) ex le other show ?thesis by blast
  next
    case False
    have "0 \<le> dm_totalBytes ?mb" using rok frames_inv_nonneg by (auto simp: mailbox_ok_def)
    with False have over: "maxMailboxBytesPerDev < dm_totalBytes ?mb + int (length e)" by simp
    have "0 \<le> dm_totalBytes ?g" using gok frames_inv_nonneg by (auto simp: mailbox_ok_def)
    with False have ev: "?mb = svc_evict (int (length e)) ?g" by (simp add: room_made_def)
    obtain x gs where x: "evict_oldest (int (length e)) 0 (dm_frames ?g) = (x, gs)" by fastforce
    have "frame_pending gs = []"
      using frames_inv_evict_fits[OF _ x, of "ms_seq s" "dm_totalBytes ?g" maxMailboxBytesPerDev] gok False
        frames_inv_nonneg[OF frames_inv_evict(1)[OF _ x], of "ms_seq s" "dm_totalBytes ?g"]
      by (auto simp: mailbox_ok_def)
    then have "frame_pending (dm_frames ?mb) = []" unfolding ev by (simp add: svc_evict_def x)
    moreover have res: "\<not> ok" "s' = s\<lparr>ms_mailboxes := (ms_mailboxes s)(?k \<mapsto> ?mb)\<rparr>"
      using assms(2) over by (auto simp: Enqueue_eq Let_def)
    ultimately have "svc_pend s' ?k = []" by (simp add: svc_pend_def)
    moreover have "\<not> int (length e) \<le> 50 * 1024 * 1024" using False by (simp add: maxMailboxBytesPerDev_def)
    ultimately show ?thesis using res(1) other by blast
  qed
qed


section \<open>Concrete runs\<close>

definition demo_svc :: "nat \<Rightarrow> MailboxService" where
  "demo_svc n = fold (\<lambda>i ms. snd (Enqueue 0 0 ''r'' ''d'' [of_nat i] None ms)) [0..<n] NewMailboxService"

lemma demo_svc_reach: "n < 3 \<Longrightarrow> service_step\<^sup>*\<^sup>* NewMailboxService (demo_svc n)"
proof -
  have a: "service_step NewMailboxService (demo_svc 1)"
    unfolding demo_svc_def by (simp, rule service_step.enqueue) (simp add: NewMailboxService_def)
  have s1: "ms_seq (demo_svc 1) = 1"
    by (simp add: demo_svc_def Enqueue_eq Let_def NewMailboxService_def get_mailbox_def room_made_def maxMailboxBytesPerDev_def)
  have "demo_svc 2 = snd (Enqueue 0 0 ''r'' ''d'' [1] None (demo_svc 1))"
    by (simp add: demo_svc_def eval_nat_numeral)
  moreover have "service_step (demo_svc 1) (snd (Enqueue 0 0 ''r'' ''d'' [1] None (demo_svc 1)))"
    by (rule service_step.enqueue) (simp only: s1, simp)
  ultimately have b: "service_step (demo_svc 1) (demo_svc 2)" by simp
  assume "n < 3"
  then consider "n = 0" | "n = 1" | "n = 2" by linarith
  then show ?thesis
  proof cases
    case 1
    then show ?thesis by (simp add: demo_svc_def)
  next
    case 2
    then show ?thesis using a by auto
  next
    case 3
    then show ?thesis using a b by auto
  qed
qed

lemma demo_svc_2: "ms_mailboxes (demo_svc 2) (mailboxKey ''r'' ''d'') =
  Some \<lparr>dm_routeID = ''r'', dm_deviceID = ''d'', dm_frames = [new_entry 1 [0] 0 0 None, new_entry 2 [1] 0 0 None], dm_totalBytes = 2\<rparr>"
  "ms_seq (demo_svc 2) = 2"
  by (simp_all add: demo_svc_def eval_nat_numeral Enqueue_eq Let_def NewMailboxService_def get_mailbox_def room_made_def
      maxMailboxBytesPerDev_def)

theorem service_ack_final_witness: "fr_Frames (Fetch ''r'' ''d'' 0 10 (snd (Ack ''r'' ''d'' 1 (demo_svc 2)))) = [(2, [1])]
  \<and> (\<forall>e. (1, e) \<notin> set (fr_Frames (Fetch ''r'' ''d'' 0 10 (snd (Ack ''r'' ''d'' 1 (demo_svc 2))))))"
proof -
  have "Ack ''r'' ''d'' 1 (demo_svc 2) = (True, snd (Ack ''r'' ''d'' 1 (demo_svc 2)))"
    by (simp add: Ack_def demo_svc_2 ack_through_def)
  from service_ack_final[OF demo_svc_reach this _ rtranclp.rtrancl_refl, of 0 10] have
    "\<forall>(cur, e) \<in> set (fr_Frames (Fetch ''r'' ''d'' 0 10 (snd (Ack ''r'' ''d'' 1 (demo_svc 2))))). 1 < cur"
    by (simp add: demo_svc_2)
  moreover have "fr_Frames (Fetch ''r'' ''d'' 0 10 (snd (Ack ''r'' ''d'' 1 (demo_svc 2)))) = [(2, [1])]"
    by (simp add: Fetch_def Ack_def demo_svc_2 ack_through_def new_entry_def word_le_nat_alt)
  ultimately show ?thesis by auto
qed

theorem fetch_page_outcome_witness:
  "fr_NextCursor (Fetch ''r'' ''d'' 0 1 (demo_svc 2)) = 2 \<and> fr_Frames (Fetch ''r'' ''d'' 2 1 (demo_svc 2)) = []"
  using fetch_page_outcome[OF demo_svc_2(1) refl refl refl, where limit = 1 and after = 0 and limit' = 1]
  by (auto simp: fetchable_def new_entry_def) (simp add: Fetch_def demo_svc_2 new_entry_def)

theorem enqueue_outcome_witness:
  "svc_pend (snd (Enqueue 0 0 ''r'' ''d'' [7] None (demo_svc 1))) (mailboxKey ''r'' ''d'') = [(1, [0]), (2, [7])]"
proof -
  have s1: "ms_seq (demo_svc 1) = 1" and p1: "svc_pend (demo_svc 1) (mailboxKey ''r'' ''d'') = [(1, [0])]"
    by (simp_all add: demo_svc_def Enqueue_eq Let_def NewMailboxService_def get_mailbox_def room_made_def maxMailboxBytesPerDev_def
        svc_pend_def new_entry_def)
  have r: "service_step\<^sup>*\<^sup>* NewMailboxService (demo_svc 1)" by (rule demo_svc_reach) simp
  from enqueue_outcome[OF r surjective_pairing, of 0 0 "''r''" "''d''" "[7]" None, unfolded s1 p1] show ?thesis by auto
qed

end
