(* ===== verification/Observation.thy ===== *)
theory Observation
  imports Mailbox_Service
begin

text \<open>
  Who is shown what (\<^verbatim>\<open>ObservationManager\<close> in \<^verbatim>\<open>go-bridge/relay_observation.go\<close>) and the presentation state
  of sessions (\<^verbatim>\<open>go-bridge/relay_presentation.go\<close>). A device subscribes to a backend with a lease; a full
  stream whose lease has run out is downgraded to milestones, by the periodic check or by the next
  event, whichever comes first.
\<close>

section \<open>Observation scopes\<close>

record ObservationScope =
  os_BackendID :: string
  os_SessionIDs :: "string list"
  os_DeliveryMode :: string
  os_IncludeRunningSignals :: bool
  os_LeaseSeconds :: int
  os_leasedAt :: gotime

type_synonym DeviceObservation = "string \<rightharpoonup> ObservationScope"

type_synonym ObservationManager = "string \<rightharpoonup> DeviceObservation"

definition scopeFullStream :: string where "scopeFullStream = ''full_stream''"
definition scopeMilestonesOnly :: string where "scopeMilestonesOnly = ''milestones_only''"
definition defaultLeaseSeconds :: int where "defaultLeaseSeconds = 45"

definition NewObservationManager :: ObservationManager where
  "NewObservationManager = Map.empty"

definition SetScope :: "gotime \<Rightarrow> string \<Rightarrow> ObservationScope \<Rightarrow> ObservationManager \<Rightarrow> ObservationManager" where
  "SetScope now deviceID scope om =
     (let dev = (case om deviceID of None \<Rightarrow> Map.empty | Some dev \<Rightarrow> dev);
          scope = (if os_LeaseSeconds scope \<le> 0 then scope\<lparr>os_LeaseSeconds := defaultLeaseSeconds\<rparr> else scope);
          scope = scope\<lparr>os_leasedAt := now\<rparr>
      in om(deviceID \<mapsto> dev(os_BackendID scope \<mapsto> scope)))"

text \<open>
  The source compares seconds as floating-point numbers; up to leases of a hundred days that is the
  comparison of the exact durations.
\<close>

definition lease_expired :: "gotime \<Rightarrow> ObservationScope \<Rightarrow> bool" where
  "lease_expired now scope \<longleftrightarrow> nsec (os_LeaseSeconds scope) < time_sub now (os_leasedAt scope)"

definition downgrade :: "gotime \<Rightarrow> ObservationScope \<Rightarrow> ObservationScope" where
  "downgrade now scope =
     (if os_DeliveryMode scope = scopeFullStream \<and> lease_expired now scope
      then scope\<lparr>os_DeliveryMode := scopeMilestonesOnly\<rparr> else scope)"

definition ShouldSendEvent ::
  "gotime \<Rightarrow> string \<Rightarrow> string \<Rightarrow> string \<Rightarrow> string \<Rightarrow> ObservationManager \<Rightarrow> bool \<times> ObservationManager" where
  "ShouldSendEvent now deviceID backendID sessionID eventType om =
     (case om deviceID of
        None \<Rightarrow> (IsDurableMilestone eventType, om)
      | Some dev \<Rightarrow>
          (case dev backendID of
             None \<Rightarrow> (IsDurableMilestone eventType, om)
           | Some scope \<Rightarrow>
               (if os_SessionIDs scope \<noteq> [] \<and> \<not> (\<exists>sid \<in> set (os_SessionIDs scope). sid = sessionID \<or> sid = ''*'')
                then (False, om)
                else
                  let scope = downgrade now scope
                  in (if os_DeliveryMode scope = scopeFullStream then True else IsDurableMilestone eventType,
                      om(deviceID \<mapsto> dev(backendID \<mapsto> scope))))))"

definition RemoveDevice :: "string \<Rightarrow> ObservationManager \<Rightarrow> ObservationManager" where
  "RemoveDevice deviceID om = om(deviceID := None)"

definition GetScope :: "string \<Rightarrow> string \<Rightarrow> ObservationManager \<Rightarrow> ObservationScope option" where
  "GetScope deviceID backendID om = (case om deviceID of None \<Rightarrow> None | Some dev \<Rightarrow> dev backendID)"

definition checkLeases :: "gotime \<Rightarrow> ObservationManager \<Rightarrow> ObservationManager" where
  "checkLeases now om = (\<lambda>d. map_option (\<lambda>dev b. map_option (downgrade now) (dev b)) (om d))"


section \<open>The request that sets a scope\<close>

record SetObservationScopeRequest =
  rq_BackendID :: string
  rq_SessionIDs :: "string list"
  rq_DeliveryMode :: string
  rq_IncludeRunningSignals :: bool
  rq_LeaseSeconds :: int

datatype scope_request_error = EUnmarshal | EInvalidRequest

definition ParseSetObservationScopeRequest ::
  "(bytes \<Rightarrow> SetObservationScopeRequest option) \<Rightarrow> bytes \<Rightarrow> scope_request_error + SetObservationScopeRequest" where
  "ParseSetObservationScopeRequest unmarshal params =
     (case unmarshal params of
        None \<Rightarrow> Inl EUnmarshal
      | Some req \<Rightarrow>
          (if rq_BackendID req = [] then Inl EInvalidRequest
           else if rq_DeliveryMode req \<noteq> scopeFullStream \<and> rq_DeliveryMode req \<noteq> scopeMilestonesOnly then Inl EInvalidRequest
           else Inr req))"


section \<open>Presentation of sessions\<close>

record SessionPresentationState =
  sp_SessionID :: string
  sp_BackendID :: string
  sp_State :: string
  sp_LastVerifiedAt :: gotime
  sp_LastError :: string
  sp_PendingSync :: bool
  sp_PendingCompletion :: bool

type_synonym PresentationManager = "string \<rightharpoonup> SessionPresentationState"

definition NewPresentationManager :: PresentationManager where
  "NewPresentationManager = Map.empty"

definition new_presentation :: "string \<Rightarrow> string \<Rightarrow> SessionPresentationState" where
  "new_presentation sessionID backendID = \<lparr>sp_SessionID = sessionID, sp_BackendID = backendID, sp_State = [],
     sp_LastVerifiedAt = zero_time, sp_LastError = [], sp_PendingSync = False, sp_PendingCompletion = False\<rparr>"

definition GetState :: "string \<Rightarrow> PresentationManager \<Rightarrow> SessionPresentationState option" where
  "GetState sessionID pm = pm sessionID"

definition MarkSyncing :: "string \<Rightarrow> string \<Rightarrow> PresentationManager \<Rightarrow> PresentationManager" where
  "MarkSyncing sessionID backendID pm =
     (let s = (case pm sessionID of None \<Rightarrow> new_presentation sessionID backendID | Some s \<Rightarrow> s)
      in pm(sessionID \<mapsto> s\<lparr>sp_State := ''syncing'', sp_LastError := []\<rparr>))"

definition MarkComplete :: "gotime \<Rightarrow> string \<Rightarrow> PresentationManager \<Rightarrow> PresentationManager" where
  "MarkComplete now sessionID pm =
     (case pm sessionID of
        None \<Rightarrow> pm
      | Some s \<Rightarrow> pm(sessionID \<mapsto> s\<lparr>sp_State := ''complete'', sp_LastVerifiedAt := now, sp_PendingSync := False\<rparr>))"

definition MarkFailed :: "string \<Rightarrow> string \<Rightarrow> PresentationManager \<Rightarrow> PresentationManager" where
  "MarkFailed sessionID errorMsg pm =
     (case pm sessionID of None \<Rightarrow> pm | Some s \<Rightarrow> pm(sessionID \<mapsto> s\<lparr>sp_State := ''failed'', sp_LastError := errorMsg\<rparr>))"

definition MarkOffline :: "string \<Rightarrow> PresentationManager \<Rightarrow> PresentationManager" where
  "MarkOffline sessionID pm =
     (case pm sessionID of None \<Rightarrow> pm | Some s \<Rightarrow> pm(sessionID \<mapsto> s\<lparr>sp_State := ''offline''\<rparr>))"

definition MarkPendingSync :: "string \<Rightarrow> string \<Rightarrow> PresentationManager \<Rightarrow> PresentationManager" where
  "MarkPendingSync sessionID backendID pm =
     (let s = (case pm sessionID of None \<Rightarrow> new_presentation sessionID backendID | Some s \<Rightarrow> s)
      in pm(sessionID \<mapsto> s\<lparr>sp_PendingSync := True\<rparr>))"

definition MarkCompletionPending :: "string \<Rightarrow> PresentationManager \<Rightarrow> PresentationManager" where
  "MarkCompletionPending sessionID pm =
     (case pm sessionID of None \<Rightarrow> pm | Some s \<Rightarrow> pm(sessionID \<mapsto> s\<lparr>sp_PendingCompletion := True\<rparr>))"

definition ClearCompletionPending :: "string \<Rightarrow> PresentationManager \<Rightarrow> PresentationManager" where
  "ClearCompletionPending sessionID pm =
     (case pm sessionID of None \<Rightarrow> pm | Some s \<Rightarrow> pm(sessionID \<mapsto> s\<lparr>sp_PendingCompletion := False\<rparr>))"

definition IsCompletionPending :: "string \<Rightarrow> PresentationManager \<Rightarrow> bool" where
  "IsCompletionPending sessionID pm = (case pm sessionID of None \<Rightarrow> False | Some s \<Rightarrow> sp_PendingCompletion s)"

text \<open>\<open>order\<close> is the order in which the map is walked: its keys, each once.\<close>

definition GetAllPendingSync :: "string list \<Rightarrow> PresentationManager \<Rightarrow> string list" where
  "GetAllPendingSync order pm = map sp_SessionID (filter sp_PendingSync (List.map_filter pm order))"

definition RemoveSession :: "string \<Rightarrow> PresentationManager \<Rightarrow> PresentationManager" where
  "RemoveSession sessionID pm = pm(sessionID := None)"

definition ConnectionModeDisplayText :: "string \<Rightarrow> string" where
  "ConnectionModeDisplayText mode =
     (if mode = ''direct_local'' then ''Direct - Local''
      else if mode = ''direct_remote'' then ''Direct - Remote''
      else if mode = ''relay'' then ''Relay - Encrypted''
      else if mode = ''relay_syncing'' then ''Relay - Syncing''
      else if mode = ''relay_offline'' then ''Relay - Mac Offline''
      else if mode = ''disconnected'' then ''Disconnected''
      else ''Unknown'')"


section \<open>The effect of a lease\<close>

datatype observation_op =
    OSet gotime string ObservationScope
  | OEvent gotime string string string string
  | OCheck gotime
  | ORemove string

fun observation_step :: "observation_op \<Rightarrow> ObservationManager \<Rightarrow> ObservationManager" where
  "observation_step (OSet now d scope) om = SetScope now d scope om"
| "observation_step (OEvent now d b s ev) om = snd (ShouldSendEvent now d b s ev om)"
| "observation_step (OCheck now) om = checkLeases now om"
| "observation_step (ORemove d) om = RemoveDevice d om"

text \<open>The operations that leave the subscription of a device to a backend alone, up to time \<open>t\<close>.\<close>

fun leaves_scope :: "gotime \<Rightarrow> string \<Rightarrow> string \<Rightarrow> observation_op \<Rightarrow> bool" where
  "leaves_scope t d b (OSet now d' scope) \<longleftrightarrow> d' \<noteq> d \<or> os_BackendID scope \<noteq> b"
| "leaves_scope t d b (OEvent now d' b' s ev) \<longleftrightarrow> now \<le> t"
| "leaves_scope t d b (OCheck now) \<longleftrightarrow> now \<le> t"
| "leaves_scope t d b (ORemove d') \<longleftrightarrow> d' \<noteq> d"

lemma time_sub_mono: "t' \<le> t \<Longrightarrow> time_sub t' u \<le> time_sub t u"
  by (simp add: time_sub_def min_def max_def)

lemma lease_expired_mono: "lease_expired t' sc \<Longrightarrow> t' \<le> t \<Longrightarrow> lease_expired t sc"
  unfolding lease_expired_def using time_sub_mono order_less_le_trans by blast

lemma downgrade_simps [simp]:
  "os_SessionIDs (downgrade t sc) = os_SessionIDs sc" "os_LeaseSeconds (downgrade t sc) = os_LeaseSeconds sc"
  "os_leasedAt (downgrade t sc) = os_leasedAt sc" "lease_expired t' (downgrade t sc) = lease_expired t' sc"
  by (simp_all add: downgrade_def lease_expired_def)

lemma modes_differ [simp]: "scopeMilestonesOnly \<noteq> scopeFullStream"
  by (simp add: scopeMilestonesOnly_def scopeFullStream_def)

lemma downgrade_absorb: "t' \<le> t \<Longrightarrow> downgrade t (downgrade t' sc) = downgrade t sc"
  using lease_expired_mono[of t' sc t] by (auto simp: downgrade_def lease_expired_def)

text \<open>Seen from time \<open>t\<close>, it does not matter when the lease was looked at.\<close>

lemma scope_kept:
  assumes "leaves_scope t d b op" "GetScope d b om = Some sc'" "downgrade t sc' = downgrade t sc" 
  shows "\<exists>sc''. GetScope d b (observation_step op om) = Some sc'' \<and> downgrade t sc'' = downgrade t sc
           \<and> os_SessionIDs sc'' = os_SessionIDs sc'"
proof (cases op)
  case (OSet now d' scope)
  then show ?thesis using assms by (auto simp: SetScope_def GetScope_def Let_def split: option.splits)
next
  case (OEvent now d' b' s ev)
  then have "now \<le> t" using assms(1) by simp
  then show ?thesis using OEvent assms(2,3) downgrade_absorb[of now t sc']
    by (auto simp: ShouldSendEvent_def GetScope_def Let_def split: option.splits)
next
  case (OCheck now)
  then show ?thesis using assms downgrade_absorb[of now t sc']
    by (auto simp: checkLeases_def GetScope_def split: option.splits)
qed (use assms in \<open>auto simp: RemoveDevice_def GetScope_def\<close>)

lemma scope_kept_run:
  "\<forall>op \<in> set ops. leaves_scope t d b op \<Longrightarrow> GetScope d b om = Some sc' \<Longrightarrow> downgrade t sc' = downgrade t sc \<Longrightarrow>
   \<exists>sc''. GetScope d b (fold observation_step ops om) = Some sc'' \<and> downgrade t sc'' = downgrade t sc
     \<and> os_SessionIDs sc'' = os_SessionIDs sc'"
proof (induction ops arbitrary: om sc')
  case (Cons op ops)
  obtain sc2 where "GetScope d b (observation_step op om) = Some sc2" "downgrade t sc2 = downgrade t sc" "os_SessionIDs sc2 = os_SessionIDs sc'"
    using scope_kept[OF _ Cons.prems(2,3)] Cons.prems(1) by auto
  then show ?case using Cons.IH[of "observation_step op om" sc2] Cons.prems(1) by auto
qed simp

text \<open>What a subscription set at \<open>t0\<close> shows at \<open>t\<close>.\<close>

definition visible :: "ObservationScope \<Rightarrow> gotime \<Rightarrow> gotime \<Rightarrow> string \<Rightarrow> string \<Rightarrow> bool" where
  "visible sc t0 t sessionID eventType \<longleftrightarrow>
     (os_SessionIDs sc = [] \<or> sessionID \<in> set (os_SessionIDs sc) \<or> ''*'' \<in> set (os_SessionIDs sc))
     \<and> (IsDurableMilestone eventType
        \<or> os_DeliveryMode sc = scopeFullStream
          \<and> t - t0 \<le> nsec (if os_LeaseSeconds sc \<le> 0 then defaultLeaseSeconds else os_LeaseSeconds sc))"

text \<open>
  The lease alone decides. After a device has subscribed to a backend at time \<open>t0\<close>, whatever events
  pass and lease checks run, for this and other devices, until the subscription is replaced or removed,
  an event at time \<open>t\<close> is shown exactly when the session is subscribed and the event is a durable milestone, or the
  subscription is a full stream and no more than the lease (45 seconds when none was asked for) has
  passed since \<open>t0\<close>: the stateful downgrading, by whichever path comes first, computes that stateless condition.
\<close>

theorem lease_decides:
  assumes "\<forall>op \<in> set ops. leaves_scope t d (os_BackendID sc) op" "nsec (os_LeaseSeconds sc) < max_duration"
    and "om = fold observation_step ops (SetScope t0 d sc om0)"
  shows "fst (ShouldSendEvent t d (os_BackendID sc) sessionID eventType om) \<longleftrightarrow> visible sc t0 t sessionID eventType"
proof -
  define sc1 where "sc1 = (if os_LeaseSeconds sc \<le> 0 then sc\<lparr>os_LeaseSeconds := defaultLeaseSeconds\<rparr> else sc)\<lparr>os_leasedAt := t0\<rparr>"
  have "GetScope d (os_BackendID sc) (SetScope t0 d sc om0) = Some sc1"
    by (simp add: SetScope_def GetScope_def Let_def sc1_def)
  from scope_kept_run[OF assms(1) this refl] obtain sc2 where
    sc2: "GetScope d (os_BackendID sc) om = Some sc2" "downgrade t sc2 = downgrade t sc1" "os_SessionIDs sc2 = os_SessionIDs sc1"
    unfolding assms(3) by blast
  define lease where "lease = nsec (if os_LeaseSeconds sc \<le> 0 then defaultLeaseSeconds else os_LeaseSeconds sc)"
  have l: "lease < max_duration" "0 \<le> lease" using assms(2) by (auto simp: lease_def nsec_def defaultLeaseSeconds_def max_duration_def)
  have "nsec (os_LeaseSeconds sc1) = lease" "os_leasedAt sc1 = t0" by (simp_all add: sc1_def lease_def)
  then have "lease_expired t sc1 \<longleftrightarrow> lease < time_sub t t0" by (simp only: lease_expired_def)
  also have "\<dots> \<longleftrightarrow> lease < t - t0" by (rule time_sub_gt_iff) (use l in \<open>simp_all add: min_duration_def\<close>)
  finally have e: "lease_expired t sc1 \<longleftrightarrow> lease < t - t0" .
  have "os_DeliveryMode sc1 = os_DeliveryMode sc" by (simp add: sc1_def)
  then have m: "os_DeliveryMode (downgrade t sc1) = scopeFullStream \<longleftrightarrow> os_DeliveryMode sc = scopeFullStream \<and> t - t0 \<le> lease"
    by (auto simp: downgrade_def e)
  have s: "os_SessionIDs sc2 = os_SessionIDs sc" using sc2(3) by (simp add: sc1_def)
  obtain dev where dev: "om d = Some dev" "dev (os_BackendID sc) = Some sc2" using sc2(1) by (auto simp: GetScope_def split: option.splits)
  show ?thesis unfolding visible_def lease_def[symmetric]
    by (simp add: ShouldSendEvent_def dev Let_def sc2(2) s m) blast
qed

theorem lease_decides_witness:
  "\<not> fst (ShouldSendEvent (nsec 46) ''d'' ''claude'' ''s'' ''text'' (checkLeases (nsec 20) (SetScope 0 ''d''
       \<lparr>os_BackendID = ''claude'', os_SessionIDs = [''s''], os_DeliveryMode = ''full_stream'', os_IncludeRunningSignals = False,
        os_LeaseSeconds = 0, os_leasedAt = 5\<rparr> NewObservationManager)))
   \<and> fst (ShouldSendEvent (nsec 45) ''d'' ''claude'' ''s'' ''text'' (checkLeases (nsec 20) (SetScope 0 ''d''
       \<lparr>os_BackendID = ''claude'', os_SessionIDs = [''s''], os_DeliveryMode = ''full_stream'', os_IncludeRunningSignals = False,
        os_LeaseSeconds = 0, os_leasedAt = 5\<rparr> NewObservationManager)))"
  using lease_decides[of "[OCheck (nsec 20)]" "nsec 46" "''d''" "\<lparr>os_BackendID = ''claude'', os_SessionIDs = [''s''],
      os_DeliveryMode = ''full_stream'', os_IncludeRunningSignals = False, os_LeaseSeconds = 0, os_leasedAt = 5\<rparr>" _ 0 NewObservationManager "''s''" "''text''"]
    lease_decides[of "[OCheck (nsec 20)]" "nsec 45" "''d''" "\<lparr>os_BackendID = ''claude'', os_SessionIDs = [''s''],
      os_DeliveryMode = ''full_stream'', os_IncludeRunningSignals = False, os_LeaseSeconds = 0, os_leasedAt = 5\<rparr>" _ 0 NewObservationManager "''s''" "''text''"]
  by (simp add: nsec_def max_duration_def visible_def scopeFullStream_def IsDurableMilestone_def defaultLeaseSeconds_def)

end
