(* ===== verification/Base64.thy ===== *)
theory Base64
  imports Prelude
begin

text \<open>
  \<^verbatim>\<open>base64.StdEncoding\<close>: the encoder, and the decoder as the standard library has it (line breaks are
  skipped, padding is required and only allowed at the end, stray bits of the last quantum are
  ignored), with the law that decoding inverts encoding.
\<close>

definition b64std_alphabet :: string where
  "b64std_alphabet = ''ABCDEFGHIJKLMNOPQRSTUVWXYZabcdefghijklmnopqrstuvwxyz0123456789+/''"

definition b64std_char :: "nat \<Rightarrow> char" where
  "b64std_char n = b64std_alphabet ! (n mod 64)"

definition b64std_val :: "char \<Rightarrow> nat option" where
  "b64std_val c = (let i = length (takeWhile (\<lambda>x. x \<noteq> c) b64std_alphabet) in if i < 64 then Some i else None)"

fun b64std_encode :: "bytes \<Rightarrow> string" where
  "b64std_encode [] = []"
| "b64std_encode [a] =
     (let n = unat a * 16 in [b64std_char (n div 64), b64std_char n, CHR ''='', CHR ''=''])"
| "b64std_encode [a, b] =
     (let n = (unat a * 256 + unat b) * 4
      in [b64std_char (n div 4096), b64std_char (n div 64), b64std_char n, CHR ''=''])"
| "b64std_encode (a # b # c # rest) =
     (let n = (unat a * 256 + unat b) * 256 + unat c
      in b64std_char (n div 262144) # b64std_char (n div 4096) # b64std_char (n div 64)
         # b64std_char n # b64std_encode rest)"

fun b64std_quanta :: "string \<Rightarrow> bytes option" where
  "b64std_quanta [] = Some []"
| "b64std_quanta (p # q # r # s # rest) =
     (case (b64std_val p, b64std_val q) of
        (Some v1, Some v2) \<Rightarrow>
          (if r = CHR ''='' then
             (if s = CHR ''='' \<and> rest = [] then Some [of_nat ((v1 * 64 + v2) div 16)] else None)
           else case b64std_val r of
             None \<Rightarrow> None
           | Some v3 \<Rightarrow>
             (if s = CHR ''='' then
                (if rest = [] then (let n = ((v1 * 64 + v2) * 64 + v3) div 4 in Some [of_nat (n div 256), of_nat n]) else None)
              else case b64std_val s of
                None \<Rightarrow> None
              | Some v4 \<Rightarrow>
                (let n = ((v1 * 64 + v2) * 64 + v3) * 64 + v4
                 in map_option (\<lambda>bs. of_nat (n div 65536) # of_nat (n div 256) # of_nat n # bs) (b64std_quanta rest))))
      | _ \<Rightarrow> None)"
| "b64std_quanta _ = None"

definition b64std_decode :: "string \<Rightarrow> bytes option" where
  "b64std_decode s = b64std_quanta (filter (\<lambda>c. c \<noteq> CHR 0x0A \<and> c \<noteq> CHR 0x0D) s)"


section \<open>Decoding inverts encoding\<close>

lemma length_takeWhile_distinct:
  "distinct xs \<Longrightarrow> i < length xs \<Longrightarrow> length (takeWhile (\<lambda>x. x \<noteq> xs ! i) xs) = i"
proof (induction xs arbitrary: i)
  case (Cons x xs)
  then show ?case by (cases i) auto
qed simp

lemma b64std_alphabet_facts:
  "distinct b64std_alphabet" "length b64std_alphabet = 64"
  "CHR ''='' \<notin> set b64std_alphabet" "CHR 0x0A \<notin> set b64std_alphabet" "CHR 0x0D \<notin> set b64std_alphabet"
  by (simp_all add: b64std_alphabet_def)

lemma b64std_char_in: "b64std_char n \<in> set b64std_alphabet"
  unfolding b64std_char_def by (rule nth_mem) (simp add: b64std_alphabet_facts)

lemma b64std_val_char [simp]: "b64std_val (b64std_char n) = Some (n mod 64)"
  using length_takeWhile_distinct[OF b64std_alphabet_facts(1), of "n mod 64"]
  by (simp add: b64std_val_def b64std_char_def b64std_alphabet_facts(2) Let_def)

lemma b64std_char_neq [simp]: "b64std_char n \<noteq> CHR ''=''" "b64std_char n \<noteq> CHR 0x0A" "b64std_char n \<noteq> CHR 0x0D"
  using b64std_char_in[of n] b64std_alphabet_facts(3-5) by auto

lemma base64_digits2: "n < 64 * 64 \<Longrightarrow> n div 64 mod 64 * 64 + n mod 64 = (n :: nat)"
  by (simp add: less_mult_imp_div_less)

lemma base64_digits3: "n < 64 * 64 * 64 \<Longrightarrow> (n div 4096 mod 64 * 64 + n div 64 mod 64) * 64 + n mod 64 = (n :: nat)"
  using base64_digits2[of "n div 64"] by (simp add: less_mult_imp_div_less div_mult2_eq[symmetric])

lemma base64_digits4:
  "n < 64 * 64 * 64 * 64 \<Longrightarrow>
   ((n div 262144 mod 64 * 64 + n div 4096 mod 64) * 64 + n div 64 mod 64) * 64 + n mod 64 = (n :: nat)"
  using base64_digits3[of "n div 64"] by (simp add: less_mult_imp_div_less div_mult2_eq[symmetric])

lemma byte_lt: "unat (x :: 8 word) < 256"
  using unsigned_less[of x] by simp

lemma of_nat_add_256 [simp]: "(of_nat (256 * k + unat x) :: 8 word) = x" "(of_nat (k * 256 + unat x) :: 8 word) = x"
proof -
  have "(of_nat 256 :: 8 word) = 0" by simp
  then show "(of_nat (256 * k + unat x) :: 8 word) = x" "(of_nat (k * 256 + unat x) :: 8 word) = x"
    by (simp_all only: of_nat_add of_nat_mult mult_zero_left mult_zero_right add_0 of_nat_unat ucast_id)
qed

lemma b64std_quanta_chars:
  "b64std_quanta [b64std_char x, b64std_char y, CHR ''='', CHR ''=''] = Some [of_nat ((x mod 64 * 64 + y mod 64) div 16)]"
  "b64std_quanta [b64std_char x, b64std_char y, b64std_char z, CHR ''=''] =
     Some [of_nat (((x mod 64 * 64 + y mod 64) * 64 + z mod 64) div 4 div 256), of_nat (((x mod 64 * 64 + y mod 64) * 64 + z mod 64) div 4)]"
  "b64std_quanta (b64std_char x # b64std_char y # b64std_char z # b64std_char w # rest) =
     (let n = ((x mod 64 * 64 + y mod 64) * 64 + z mod 64) * 64 + w mod 64
      in map_option (\<lambda>bs. of_nat (n div 65536) # of_nat (n div 256) # of_nat n # bs) (b64std_quanta rest))"
  by (simp_all add: Let_def)

lemma b64std_quanta_encode: "b64std_quanta (b64std_encode bs) = Some bs"
proof (induction bs rule: b64std_encode.induct)
  case (2 a)
  define n where "n = unat a * 16"
  have "n < 64 * 64" using byte_lt[of a] by (simp add: n_def)
  note e = base64_digits2[OF this]
  have "n div 16 = unat a" by (simp add: n_def)
  then show ?case by (simp only: b64std_encode.simps Let_def n_def[symmetric] b64std_quanta_chars e of_nat_unat ucast_id)
next
  case (3 a b)
  define n where "n = (unat a * 256 + unat b) * 4"
  have "n < 64 * 64 * 64" using byte_lt[of a] byte_lt[of b] by (simp add: n_def)
  note e = base64_digits3[OF this]
  have "n div 4 = unat a * 256 + unat b" by (simp add: n_def)
  moreover have "(unat a * 256 + unat b) div 256 = unat a" using byte_lt[of b] by simp
  ultimately show ?case
    by (simp only: b64std_encode.simps Let_def n_def[symmetric] b64std_quanta_chars e of_nat_unat ucast_id of_nat_add_256)
next
  case (4 a b c rest)
  define n where "n = (unat a * 256 + unat b) * 256 + unat c"
  have "n < 64 * 64 * 64 * 64" using byte_lt[of a] byte_lt[of b] byte_lt[of c] by (simp add: n_def)
  note e = base64_digits4[OF this]
  have d: "n div 256 = unat a * 256 + unat b" using byte_lt[of c] by (simp add: n_def)
  have "n div 65536 = n div 256 div 256" by (simp add: div_mult2_eq[symmetric])
  also have "\<dots> = unat a" using byte_lt[of b] by (simp add: d)
  finally have "(of_nat (n div 65536) :: 8 word) = a" by simp
  moreover have "(of_nat (n div 256) :: 8 word) = b" "(of_nat n :: 8 word) = c"
    unfolding d by (simp only: of_nat_add_256) (simp only: n_def of_nat_add_256)
  ultimately show ?case
    by (simp only: b64std_encode.simps Let_def n_def[symmetric] b64std_quanta_chars e 4 option.map)
qed simp

lemma b64std_encode_no_breaks: "filter (\<lambda>c. c \<noteq> CHR 0x0A \<and> c \<noteq> CHR 0x0D) (b64std_encode bs) = b64std_encode bs"
  by (induction bs rule: b64std_encode.induct) (auto simp: Let_def)

lemma b64std_roundtrip [simp]: "b64std_decode (b64std_encode bs) = Some bs"
  by (simp add: b64std_decode_def b64std_encode_no_breaks b64std_quanta_encode)

end
