(* ===== verification/Relay_Identity.thy ===== *)
theory Relay_Identity
  imports Base64 Relay_Conn
begin

text \<open>
  The bridge's long-term key and the online handshake (\<^verbatim>\<open>go-bridge/relay_identity.go\<close>): both sides derive
  an authentication key from their long-term keys; the device's hello carries a tag under it, the
  bridge's answer too, and the traffic keys come from a fresh exchange bound to both hellos. X25519,
  HKDF, HMAC, SHA-256 and the JSON encoder are parameters.
\<close>

section \<open>Primitives\<close>

text \<open>A value given to \<^verbatim>\<open>json.Marshal\<close>; objects list their keys in the sorted order in which it writes them.\<close>

datatype header_value = HStr string | HInt int | HArr "header_value list" | HObj "(string \<times> header_value) list"

record crypto_lib =
  x_public :: "bytes \<Rightarrow> bytes"
  x_validPublic :: "bytes \<Rightarrow> bool"
  x_ecdh :: "bytes \<Rightarrow> bytes \<Rightarrow> bytes option"
  x_hkdf :: "bytes \<Rightarrow> bytes \<Rightarrow> bytes \<Rightarrow> nat \<Rightarrow> bytes option"
  x_hmac :: "bytes \<Rightarrow> bytes \<Rightarrow> bytes"
  x_sha256 :: "bytes \<Rightarrow> bytes"
  x_json :: "header_value \<Rightarrow> bytes option"

definition hkdfDerive :: "crypto_lib \<Rightarrow> bytes \<Rightarrow> bytes \<Rightarrow> bytes \<Rightarrow> nat \<Rightarrow> bytes option" where
  "hkdfDerive L secret salt info len = x_hkdf L secret salt info len"

definition hkdfExpand :: "crypto_lib \<Rightarrow> bytes \<Rightarrow> bytes \<Rightarrow> nat \<Rightarrow> bytes option" where
  "hkdfExpand L secret info len = hkdfDerive L secret [] info len"

definition hmacSHA256 :: "crypto_lib \<Rightarrow> bytes \<Rightarrow> bytes \<Rightarrow> bytes" where
  "hmacSHA256 L key data = x_hmac L key data"

text \<open>
  What the documentation of the primitives promises: the two sides of an exchange agree and a public
  key made from a private one is valid, and the key derivation delivers the requested length.
\<close>

definition exchange_ok :: "crypto_lib \<Rightarrow> bool" where
  "exchange_ok L \<longleftrightarrow> (\<forall>a b. x_ecdh L a (x_public L b) = x_ecdh L b (x_public L a)) \<and> (\<forall>a. x_validPublic L (x_public L a))"

definition hkdf_ok :: "crypto_lib \<Rightarrow> bool" where
  "hkdf_ok L \<longleftrightarrow> (\<forall>s t i n. n \<le> 8160 \<longrightarrow> (\<exists>k. x_hkdf L s t i n = Some k \<and> length k = n))"


section \<open>The long-term key\<close>

definition identityAuthLabel :: string where "identityAuthLabel = ''cordcode-relay/identity-auth/v1''"
definition onlineTrafficLabel :: string where "onlineTrafficLabel = ''cordcode-relay/online/v1''"
definition iosToMacLabel :: string where "iosToMacLabel = ''ios-to-mac''"
definition macToIosLabel :: string where "macToIosLabel = ''mac-to-ios''"
definition trafficKeyLen :: nat where "trafficKeyLen = 32"
definition relayProtocolName :: string where "relayProtocolName = ''cccode-relay''"
definition relayProtocolRev :: string where "relayProtocolRev = ''2026-05-24-r1''"

record RelayCryptoIdentity =
  ci_privateKey :: bytes
  ci_publicKey :: bytes

datatype identity_error = EGenerate | EWriteKey | EParseRemote | EIdentityECDH | EIdentityContext | EIdentityHKDF

text \<open>The content of the key file, \<open>None\<close> when it cannot be read. Every 32 bytes are an X25519 private key.\<close>

definition loadX25519PrivateKey :: "bytes option \<Rightarrow> bytes option" where
  "loadX25519PrivateKey file =
     (case file of None \<Rightarrow> None | Some content \<Rightarrow> if length content \<noteq> 32 then None else Some content)"

text \<open>\<open>rnd\<close> is the generated key, \<open>wr\<close> whether the write succeeds.\<close>

definition generateAndSaveX25519PrivateKey :: "bytes option \<Rightarrow> bool \<Rightarrow> bytes option \<Rightarrow> (identity_error + bytes) \<times> bytes option" where
  "generateAndSaveX25519PrivateKey rnd wr file =
     (case rnd of
        None \<Rightarrow> (Inl EGenerate, file)
      | Some priv \<Rightarrow> if \<not> wr then (Inl EWriteKey, file) else (Inr priv, Some priv))"

definition LoadOrCreateRelayCryptoIdentity ::
  "crypto_lib \<Rightarrow> bytes option \<Rightarrow> bool \<Rightarrow> bytes option \<Rightarrow> (identity_error + RelayCryptoIdentity) \<times> bytes option" where
  "LoadOrCreateRelayCryptoIdentity L rnd wr file =
     (let (priv, file) = (case loadX25519PrivateKey file of
            Some priv \<Rightarrow> (Inr priv, file)
          | None \<Rightarrow> generateAndSaveX25519PrivateKey rnd wr file)
      in case priv of
           Inl e \<Rightarrow> (Inl e, file)
         | Inr priv \<Rightarrow> (Inr \<lparr>ci_privateKey = priv, ci_publicKey = x_public L priv\<rparr>, file))"

definition Fingerprint :: "crypto_lib \<Rightarrow> RelayCryptoIdentity \<Rightarrow> string" where
  "Fingerprint L ci = b64url_encode (x_sha256 L (ci_publicKey ci))"

definition DeriveIdentityAuthKey ::
  "crypto_lib \<Rightarrow> bytes \<Rightarrow> string \<Rightarrow> string \<Rightarrow> RelayCryptoIdentity \<Rightarrow> identity_error + bytes" where
  "DeriveIdentityAuthKey L remoteIdentityPubKey bridgeID deviceID ci =
     (if \<not> x_validPublic L remoteIdentityPubKey then Inl EParseRemote
      else case x_ecdh L (ci_privateKey ci) remoteIdentityPubKey of
        None \<Rightarrow> Inl EIdentityECDH
      | Some shared \<Rightarrow>
          (case x_json L (HArr [HStr bridgeID, HStr deviceID]) of
             None \<Rightarrow> Inl EIdentityContext
           | Some context \<Rightarrow>
               (case hkdfExpand L shared (bytes_of identityAuthLabel @ context) 32 of
                  None \<Rightarrow> Inl EIdentityHKDF
                | Some k \<Rightarrow> Inr k)))"


section \<open>The handshake\<close>

record OnlineClientHello =
  cl_Type :: string
  cl_BridgeID :: string
  cl_DeviceID :: string
  cl_ChannelGeneration :: "64 word"
  cl_IOSEphemeralPublicKey :: string
  cl_ClientRandom :: string
  cl_AuthTag :: string

record OnlineServerHello =
  sv_Type :: string
  sv_BridgeID :: string
  sv_DeviceID :: string
  sv_ChannelGeneration :: "64 word"
  sv_ClientHelloHash :: string
  sv_MacEphemeralPublicKey :: string
  sv_ServerRandom :: string
  sv_KeyEpochID :: string
  sv_AuthTag :: string

record OnlineHandshakeState =
  hs_identityAuthKey :: bytes
  hs_ephemeralPrivate :: bytes
  hs_ephemeralPublic :: bytes
  hs_serverRandom :: bytes
  hs_clientHello :: bytes
  hs_serverHello :: bytes
  hs_iosToMacKey :: bytes
  hs_macToIosKey :: bytes
  hs_completed :: bool

datatype handshake_error =
  EHandshakeKey | EServerRandom | ECanonicalClient | EClientTag | EDecodeEphemeral | EParseEphemeral | EEphemeralECDH
  | ECanonicalServer | ETrafficRoot | EIosToMac | EMacToIos

definition NewOnlineHandshake :: "crypto_lib \<Rightarrow> bytes option \<Rightarrow> bytes option \<Rightarrow> bytes \<Rightarrow> handshake_error + OnlineHandshakeState" where
  "NewOnlineHandshake L rndKey rndRandom identityAuthKey =
     (case rndKey of
        None \<Rightarrow> Inl EHandshakeKey
      | Some priv \<Rightarrow>
          (case rndRandom of
             None \<Rightarrow> Inl EServerRandom
           | Some serverRandom \<Rightarrow>
               Inr \<lparr>hs_identityAuthKey = identityAuthKey, hs_ephemeralPrivate = priv, hs_ephemeralPublic = x_public L priv,
                    hs_serverRandom = serverRandom, hs_clientHello = [], hs_serverHello = [], hs_iosToMacKey = [],
                    hs_macToIosKey = [], hs_completed = False\<rparr>))"

definition canonicalOnlineClientHello :: "crypto_lib \<Rightarrow> OnlineClientHello \<Rightarrow> bytes option" where
  "canonicalOnlineClientHello L hello = x_json L (HObj
     [(''bridgeId'', HStr (cl_BridgeID hello)),
      (''channelGeneration'', HInt (int (unat (cl_ChannelGeneration hello)))),
      (''clientRandom'', HStr (cl_ClientRandom hello)),
      (''deviceId'', HStr (cl_DeviceID hello)),
      (''iosEphemeralPublicKey'', HStr (cl_IOSEphemeralPublicKey hello)),
      (''protocol'', HObj [(''name'', HStr relayProtocolName), (''schemaRevision'', HStr relayProtocolRev), (''version'', HInt 1)]),
      (''type'', HStr ''online_client_hello'')])"

definition canonicalOnlineServerHello :: "crypto_lib \<Rightarrow> OnlineServerHello \<Rightarrow> bytes option" where
  "canonicalOnlineServerHello L hello = x_json L (HObj
     [(''bridgeId'', HStr (sv_BridgeID hello)),
      (''channelGeneration'', HInt (int (unat (sv_ChannelGeneration hello)))),
      (''clientHelloHash'', HStr (sv_ClientHelloHash hello)),
      (''deviceId'', HStr (sv_DeviceID hello)),
      (''keyEpochId'', HStr (sv_KeyEpochID hello)),
      (''macEphemeralPublicKey'', HStr (sv_MacEphemeralPublicKey hello)),
      (''serverRandom'', HStr (sv_ServerRandom hello)),
      (''type'', HStr ''online_server_hello'')])"

text \<open>The answer before its tag.\<close>

definition server_response :: "crypto_lib \<Rightarrow> OnlineHandshakeState \<Rightarrow> OnlineClientHello \<Rightarrow> bytes \<Rightarrow> OnlineServerHello" where
  "server_response L hs hello clientHello =
     \<lparr>sv_Type = ''online_server_hello'', sv_BridgeID = cl_BridgeID hello, sv_DeviceID = cl_DeviceID hello,
      sv_ChannelGeneration = cl_ChannelGeneration hello, sv_ClientHelloHash = b64std_encode (x_sha256 L clientHello),
      sv_MacEphemeralPublicKey = b64std_encode (hs_ephemeralPublic hs), sv_ServerRandom = b64std_encode (hs_serverRandom hs),
      sv_KeyEpochID = online_epoch (cl_ChannelGeneration hello), sv_AuthTag = []\<rparr>"

text \<open>
  The tail of the function: each key is assigned as it is derived, so a failure of the second
  derivation leaves the first key set and the second empty.
\<close>

definition derive_traffic_keys ::
  "crypto_lib \<Rightarrow> bytes \<Rightarrow> bytes \<Rightarrow> bytes \<Rightarrow> OnlineServerHello \<Rightarrow> OnlineHandshakeState
     \<Rightarrow> (handshake_error + OnlineServerHello) \<times> OnlineHandshakeState" where
  "derive_traffic_keys L ephemeralShared clientHello serverHello response hs =
     (case hkdfDerive L ephemeralShared (x_sha256 L (clientHello @ serverHello)) (bytes_of onlineTrafficLabel) 32 of
        None \<Rightarrow> (Inl ETrafficRoot, hs)
      | Some trafficRoot \<Rightarrow>
          (case hkdfExpand L trafficRoot (bytes_of iosToMacLabel) trafficKeyLen of
             None \<Rightarrow> (Inl EIosToMac, hs\<lparr>hs_iosToMacKey := []\<rparr>)
           | Some k1 \<Rightarrow>
               (let hs = hs\<lparr>hs_iosToMacKey := k1\<rparr>
                in case hkdfExpand L trafficRoot (bytes_of macToIosLabel) trafficKeyLen of
                     None \<Rightarrow> (Inl EMacToIos, hs\<lparr>hs_macToIosKey := []\<rparr>)
                   | Some k2 \<Rightarrow>
                       (Inr response, hs\<lparr>hs_macToIosKey := k2, hs_clientHello := clientHello,
                                        hs_serverHello := serverHello, hs_completed := True\<rparr>))))"

definition AcceptClientHello ::
  "crypto_lib \<Rightarrow> OnlineClientHello \<Rightarrow> OnlineHandshakeState \<Rightarrow> (handshake_error + OnlineServerHello) \<times> OnlineHandshakeState" where
  "AcceptClientHello L hello hs =
     (case canonicalOnlineClientHello L hello of
        None \<Rightarrow> (Inl ECanonicalClient, hs)
      | Some clientHello \<Rightarrow>
        (if b64std_decode (cl_AuthTag hello) \<noteq> Some (hmacSHA256 L (hs_identityAuthKey hs) clientHello)
         then (Inl EClientTag, hs)
         else case b64std_decode (cl_IOSEphemeralPublicKey hello) of
           None \<Rightarrow> (Inl EDecodeEphemeral, hs)
         | Some iosEphemeralPublic \<Rightarrow>
           (if \<not> x_validPublic L iosEphemeralPublic then (Inl EParseEphemeral, hs)
            else case x_ecdh L (hs_ephemeralPrivate hs) iosEphemeralPublic of
              None \<Rightarrow> (Inl EEphemeralECDH, hs)
            | Some ephemeralShared \<Rightarrow>
              (let response = server_response L hs hello clientHello
               in case canonicalOnlineServerHello L response of
                    None \<Rightarrow> (Inl ECanonicalServer, hs)
                  | Some serverHello \<Rightarrow>
                      derive_traffic_keys L ephemeralShared clientHello serverHello
                        (response\<lparr>sv_AuthTag := b64std_encode (hmacSHA256 L (hs_identityAuthKey hs) serverHello)\<rparr>) hs))))"

text \<open>The private key object keeps its own copy; \<^verbatim>\<open>zeroBytes(priv.Bytes())\<close> clears a fresh one.\<close>

definition hs_Destroy :: "OnlineHandshakeState \<Rightarrow> OnlineHandshakeState" where
  "hs_Destroy hs = hs\<lparr>hs_iosToMacKey := zeroBytes (hs_iosToMacKey hs), hs_macToIosKey := zeroBytes (hs_macToIosKey hs),
     hs_identityAuthKey := zeroBytes (hs_identityAuthKey hs), hs_completed := False\<rparr>"


section \<open>The device's side\<close>

text \<open>
  What the device computes from its private key and the two hellos, as the protocol describes it: the
  traffic keys from the exchange with the key of the answer, bound to both hellos.
\<close>

definition client_keys :: "crypto_lib \<Rightarrow> bytes \<Rightarrow> OnlineClientHello \<Rightarrow> OnlineServerHello \<Rightarrow> (bytes \<times> bytes) option" where
  "client_keys L priv hello answer =
     (case (canonicalOnlineClientHello L hello, canonicalOnlineServerHello L answer, b64std_decode (sv_MacEphemeralPublicKey answer)) of
        (Some c, Some s, Some macPublic) \<Rightarrow>
          (case x_ecdh L priv macPublic of
             None \<Rightarrow> None
           | Some shared \<Rightarrow>
               (case hkdfDerive L shared (x_sha256 L (c @ s)) (bytes_of onlineTrafficLabel) 32 of
                  None \<Rightarrow> None
                | Some root \<Rightarrow>
                    (case (hkdfExpand L root (bytes_of iosToMacLabel) trafficKeyLen, hkdfExpand L root (bytes_of macToIosLabel) trafficKeyLen) of
                       (Some k1, Some k2) \<Rightarrow> Some (k1, k2)
                     | _ \<Rightarrow> None)))
      | _ \<Rightarrow> None)"

definition answer_genuine :: "crypto_lib \<Rightarrow> bytes \<Rightarrow> OnlineClientHello \<Rightarrow> OnlineServerHello \<Rightarrow> bool" where
  "answer_genuine L authKey hello answer \<longleftrightarrow>
     (case (canonicalOnlineClientHello L hello, canonicalOnlineServerHello L answer) of
        (Some c, Some s) \<Rightarrow> b64std_decode (sv_AuthTag answer) = Some (hmacSHA256 L authKey s)
                             \<and> b64std_decode (sv_ClientHelloHash answer) = Some (x_sha256 L c)
                             \<and> sv_ChannelGeneration answer = cl_ChannelGeneration hello
                             \<and> sv_BridgeID answer = cl_BridgeID hello \<and> sv_DeviceID answer = cl_DeviceID hello
      | _ \<Rightarrow> False)"

end
