(* ===== verification/Prekeys.thy ===== *)
theory Prekeys
  imports Relay_Identity
begin

text \<open>
  The one-time delivery prekeys and the chain of delivery epochs (\<^verbatim>\<open>go-bridge/relay_prekey.go\<close>): a
  device uploads batches of public keys; each epoch consumes one of them, derives a mailbox key from
  it and an ephemeral key, carries an authentication tag, and names the digest of the epoch before
  it; frames reserve counters within the open epoch. The cryptographic primitives and the JSON encoder
  are parameters.
\<close>

section \<open>State\<close>

record DeliveryPrekey =
  pk_PrekeyID :: string
  pk_PublicKey :: bytes
  pk_UploadedAt :: gotime
  pk_Consumed :: bool

record PrekeyUploadItem =
  pi_PrekeyID :: string
  pi_PublicKey :: string

record PrekeyUploadBatch =
  pb_BatchID :: string
  pb_DeviceID :: string
  pb_Prekeys :: "PrekeyUploadItem list"

record PrekeyUploadResponse =
  ur_AcceptedCount :: nat
  ur_TotalAvailable :: nat
  ur_DuplicateBatchID :: bool
  ur_Error :: string

record PrekeyStatusResponse =
  sr_AvailableCount :: nat
  sr_LowWatermark :: nat
  sr_TargetCount :: nat
  sr_MaxCount :: nat

record DeliveryEpoch =
  de_EpochIndex :: "64 word"
  de_PrekeyID :: string
  de_MacEphemeralPublic :: bytes
  de_MacEphemeralPrivate :: bytes
  de_MacToIosMailboxKey :: bytes
  de_EpochAuthTag :: bytes
  de_PreviousEpochDigest :: string
  de_FirstCounter :: "64 word"
  de_LastCounter :: "64 word"
  de_FrameCount :: int
  de_CreatedAt :: gotime
  de_Sealed :: bool

record DeliveryChainHead =
  ch_EpochIndex :: "64 word"
  ch_EpochDigest :: string
  ch_LastEpochFinalCounter :: "64 word"
  ch_EpochAuthTag :: string
  ch_PreviousEpochDigest :: string

text \<open>A missing key of the maps of lists is the empty list, of the index map zero.\<close>

record PrekeyStore =
  st_bridgeID :: string
  st_prekeys :: "string \<Rightarrow> DeliveryPrekey list"
  st_processedBatches :: "string \<rightharpoonup> string"
  st_epochs :: "string \<Rightarrow> DeliveryEpoch list"
  st_epochIndex :: "string \<Rightarrow> 64 word"
  st_identityAuthKey :: "(string \<Rightarrow> bytes option) option"

definition prekeyLowWatermark :: nat where "prekeyLowWatermark = 10"
definition prekeyTargetCount :: nat where "prekeyTargetCount = 32"
definition prekeyMaxCount :: nat where "prekeyMaxCount = 64"

definition NewPrekeyStore :: "string \<Rightarrow> PrekeyStore" where
  "NewPrekeyStore bridgeID = \<lparr>st_bridgeID = bridgeID, st_prekeys = (\<lambda>_. []), st_processedBatches = Map.empty,
     st_epochs = (\<lambda>_. []), st_epochIndex = (\<lambda>_. 0), st_identityAuthKey = None\<rparr>"

definition SetBridgeID :: "string \<Rightarrow> PrekeyStore \<Rightarrow> PrekeyStore" where
  "SetBridgeID bridgeID ps = ps\<lparr>st_bridgeID := bridgeID\<rparr>"

definition SetIdentityAuthKeyFactory :: "(string \<Rightarrow> bytes option) option \<Rightarrow> PrekeyStore \<Rightarrow> PrekeyStore" where
  "SetIdentityAuthKeyFactory fn ps = ps\<lparr>st_identityAuthKey := fn\<rparr>"


section \<open>Upload\<close>

definition availableCountLocked :: "string \<Rightarrow> PrekeyStore \<Rightarrow> nat" where
  "availableCountLocked deviceID ps = length (filter (\<lambda>pk. \<not> pk_Consumed pk) (st_prekeys ps deviceID))"

text \<open>The validation loop over a batch; \<open>None\<close> rejects the batch.\<close>

fun validate_items ::
  "crypto_lib \<Rightarrow> (nat \<Rightarrow> gotime) \<Rightarrow> nat \<Rightarrow> string list \<Rightarrow> PrekeyUploadItem list \<Rightarrow> DeliveryPrekey list option" where
  "validate_items L clk i existing [] = Some []"
| "validate_items L clk i existing (item # items) =
     (if pi_PrekeyID item = [] then None
      else if pi_PrekeyID item \<in> set existing then None
      else case b64std_decode (pi_PublicKey item) of
        None \<Rightarrow> None
      | Some pub \<Rightarrow>
          (if length pub \<noteq> 32 then None
           else case validate_items L clk (Suc i) (pi_PrekeyID item # existing) items of
             None \<Rightarrow> None
           | Some pks \<Rightarrow> Some (\<lparr>pk_PrekeyID = pi_PrekeyID item, pk_PublicKey = pub, pk_UploadedAt = clk i,
                               pk_Consumed = False\<rparr> # pks)))"

definition upload_error :: "string \<Rightarrow> nat \<Rightarrow> PrekeyUploadResponse" where
  "upload_error msg available = \<lparr>ur_AcceptedCount = 0, ur_TotalAvailable = available, ur_DuplicateBatchID = False, ur_Error = msg\<rparr>"

definition UploadPrekeys ::
  "crypto_lib \<Rightarrow> (nat \<Rightarrow> gotime) \<Rightarrow> PrekeyUploadBatch \<Rightarrow> PrekeyStore \<Rightarrow> PrekeyUploadResponse \<times> PrekeyStore" where
  "UploadPrekeys L clk batch ps =
     (let d = pb_DeviceID batch; current = availableCountLocked d ps; invalid = ''invalid_delivery_prekey_batch''
      in if d = [] \<or> pb_BatchID batch = [] \<or> pb_Prekeys batch = [] then (upload_error invalid current, ps)
         else case st_processedBatches ps (pb_BatchID batch) of
           Some existing \<Rightarrow>
             (if existing = d
              then (\<lparr>ur_AcceptedCount = 0, ur_TotalAvailable = current, ur_DuplicateBatchID = True, ur_Error = []\<rparr>, ps)
              else (upload_error invalid current, ps))
         | None \<Rightarrow>
             (if prekeyMaxCount < current + length (pb_Prekeys batch) then (upload_error ''prekey_limit_exceeded'' current, ps)
              else case validate_items L clk 0 (map pk_PrekeyID (st_prekeys ps d)) (pb_Prekeys batch) of
                None \<Rightarrow> (upload_error invalid current, ps)
              | Some validated \<Rightarrow>
                  (let ps = ps\<lparr>st_prekeys := (st_prekeys ps)(d := st_prekeys ps d @ validated),
                              st_processedBatches := (st_processedBatches ps)(pb_BatchID batch \<mapsto> d)\<rparr>
                   in (\<lparr>ur_AcceptedCount = length validated, ur_TotalAvailable = availableCountLocked d ps,
                        ur_DuplicateBatchID = False, ur_Error = []\<rparr>, ps))))"

definition GetPrekeyStatus :: "string \<Rightarrow> PrekeyStore \<Rightarrow> PrekeyStatusResponse" where
  "GetPrekeyStatus deviceID ps = \<lparr>sr_AvailableCount = availableCountLocked deviceID ps, sr_LowWatermark = prekeyLowWatermark,
     sr_TargetCount = prekeyTargetCount, sr_MaxCount = prekeyMaxCount\<rparr>"

definition ShouldRefill :: "string \<Rightarrow> PrekeyStore \<Rightarrow> int" where
  "ShouldRefill deviceID ps =
     (let available = int (availableCountLocked deviceID ps); needed = int prekeyTargetCount - available
      in if needed \<le> 0 then 0
         else let capacity = int prekeyMaxCount - available in if capacity < needed then capacity else needed)"


section \<open>Epochs\<close>

datatype prekey_error =
    EBridgeNotConfigured | EFactoryNotSet | EPrekeyExhausted | EEphemeral | EParsePublic | EECDH | EDerive
  | EAuthTag | ENoActiveEpoch | EEpochNotFound

definition buildMailboxContext :: "string \<Rightarrow> string \<Rightarrow> string \<Rightarrow> 64 word \<Rightarrow> bytes" where
  "buildMailboxContext bridgeID deviceID prekeyID epochIndex =
     bytes_of ([CHR ''['', CHR 0x22] @ bridgeID @ [CHR 0x22, CHR '','', CHR 0x22] @ deviceID @ [CHR 0x22, CHR '','', CHR 0x22]
       @ prekeyID @ [CHR 0x22, CHR '',''] @ show_nat (unat epochIndex) @ [CHR '']''])"

definition derive_mailbox_key :: "crypto_lib \<Rightarrow> bytes \<Rightarrow> bytes \<Rightarrow> bytes option" where
  "derive_mailbox_key L shared context =
     (case hkdfExpand L shared (bytes_of ''cordcode-relay/mailbox/v1'' @ context) 32 of
        None \<Rightarrow> None
      | Some root \<Rightarrow> hkdfExpand L root (bytes_of ''mac-to-ios'') 32)"

text \<open>The header of the tag and of the digest, with the keys in the order the encoder writes them.\<close>

definition tag_header :: "string \<Rightarrow> bytes \<Rightarrow> 64 word \<Rightarrow> string \<Rightarrow> header_value" where
  "tag_header prekeyID macEphemeralPublic epochIndex previousDigest =
     HObj [(''epochIndex'', HInt (int (unat epochIndex))),
      (''macEphemeralPublicKey'', HStr (b64std_encode macEphemeralPublic)),
      (''prekeyId'', HStr prekeyID),
      (''previousEpochDigest'', HStr previousDigest)]"

definition generateEpochAuthTag ::
  "crypto_lib \<Rightarrow> string \<Rightarrow> string \<Rightarrow> bytes \<Rightarrow> 64 word \<Rightarrow> string \<Rightarrow> PrekeyStore \<Rightarrow> bytes option" where
  "generateEpochAuthTag L deviceID prekeyID macEphemeralPublic epochIndex previousDigest ps =
     (case st_identityAuthKey ps of
        None \<Rightarrow> None
      | Some f \<Rightarrow>
          (case f deviceID of
             None \<Rightarrow> None
           | Some authKey \<Rightarrow>
               (case x_json L (tag_header prekeyID macEphemeralPublic epochIndex previousDigest) of
                  None \<Rightarrow> None
                | Some headerJSON \<Rightarrow> Some (hmacSHA256 L authKey headerJSON))))"

definition computeEpochDigest :: "crypto_lib \<Rightarrow> DeliveryEpoch \<Rightarrow> bytes" where
  "computeEpochDigest L epoch =
     (let headerJSON = (case x_json L (HObj
            [(''epochIndex'', HInt (int (unat (de_EpochIndex epoch)))),
             (''firstCounter'', HInt (int (unat (de_FirstCounter epoch)))),
             (''frameCount'', HInt (de_FrameCount epoch)),
             (''lastCounter'', HInt (int (unat (de_LastCounter epoch)))),
             (''macEphemeralPublicKey'', HStr (b64std_encode (de_MacEphemeralPublic epoch))),
             (''prekeyId'', HStr (de_PrekeyID epoch)),
             (''previousEpochDigest'', HStr (de_PreviousEpochDigest epoch))]) of None \<Rightarrow> [] | Some j \<Rightarrow> j)
      in x_sha256 L (headerJSON @ de_EpochAuthTag epoch))"

definition epoch_digest :: "crypto_lib \<Rightarrow> DeliveryEpoch \<Rightarrow> string" where
  "epoch_digest L epoch = b64std_encode (computeEpochDigest L epoch)"

text \<open>The first prekey not consumed, and the list with it marked.\<close>

fun take_prekey :: "DeliveryPrekey list \<Rightarrow> (DeliveryPrekey \<times> DeliveryPrekey list) option" where
  "take_prekey [] = None"
| "take_prekey (pk # pks) =
     (if \<not> pk_Consumed pk then Some (pk, pk\<lparr>pk_Consumed := True\<rparr> # pks)
      else case take_prekey pks of None \<Rightarrow> None | Some (x, rest) \<Rightarrow> Some (x, pk # rest))"

definition previous_digest :: "crypto_lib \<Rightarrow> DeliveryEpoch list \<Rightarrow> string" where
  "previous_digest L epochs =
     (if epochs \<noteq> [] \<and> de_Sealed (last epochs) then epoch_digest L (last epochs) else [])"

text \<open>\<open>rnd\<close> is the private key the generator delivers; everything is computed before anything is stored.\<close>

definition ConsumePrekey ::
  "crypto_lib \<Rightarrow> bytes option \<Rightarrow> gotime \<Rightarrow> string \<Rightarrow> PrekeyStore \<Rightarrow> (prekey_error + DeliveryEpoch) \<times> PrekeyStore" where
  "ConsumePrekey L rnd now deviceID ps =
     (if st_bridgeID ps = [] then (Inl EBridgeNotConfigured, ps)
      else if st_identityAuthKey ps = None then (Inl EFactoryNotSet, ps)
      else case take_prekey (st_prekeys ps deviceID) of
        None \<Rightarrow> (Inl EPrekeyExhausted, ps)
      | Some (prekey, marked) \<Rightarrow>
        (case rnd of
           None \<Rightarrow> (Inl EEphemeral, ps)
         | Some priv \<Rightarrow>
           (if \<not> x_validPublic L (pk_PublicKey prekey) then (Inl EParsePublic, ps)
            else case x_ecdh L priv (pk_PublicKey prekey) of
              None \<Rightarrow> (Inl EECDH, ps)
            | Some shared \<Rightarrow>
              (let epochIdx = st_epochIndex ps deviceID
               in case derive_mailbox_key L shared (buildMailboxContext (st_bridgeID ps) deviceID (pk_PrekeyID prekey) epochIdx) of
                    None \<Rightarrow> (Inl EDerive, ps)
                  | Some mailboxKey \<Rightarrow>
                    (let previousDigest = previous_digest L (st_epochs ps deviceID)
                     in case generateEpochAuthTag L deviceID (pk_PrekeyID prekey) (x_public L priv) epochIdx previousDigest ps of
                          None \<Rightarrow> (Inl EAuthTag, ps)
                        | Some tag \<Rightarrow>
                          (let epoch = \<lparr>de_EpochIndex = epochIdx, de_PrekeyID = pk_PrekeyID prekey,
                                 de_MacEphemeralPublic = x_public L priv, de_MacEphemeralPrivate = priv,
                                 de_MacToIosMailboxKey = mailboxKey, de_EpochAuthTag = tag,
                                 de_PreviousEpochDigest = previousDigest, de_FirstCounter = 1, de_LastCounter = 0,
                                 de_FrameCount = 0, de_CreatedAt = now, de_Sealed = False\<rparr>
                           in (Inr epoch,
                               ps\<lparr>st_prekeys := (st_prekeys ps)(deviceID := marked),
                                  st_epochs := (st_epochs ps)(deviceID := st_epochs ps deviceID @ [epoch]),
                                  st_epochIndex := (st_epochIndex ps)(deviceID := epochIdx + 1)\<rparr>)))))))"

fun seal_first :: "64 word \<Rightarrow> 64 word \<Rightarrow> int \<Rightarrow> DeliveryEpoch list \<Rightarrow> DeliveryEpoch list option" where
  "seal_first idx lastCounter frameCount [] = None"
| "seal_first idx lastCounter frameCount (ep # eps) =
     (if de_EpochIndex ep = idx \<and> \<not> de_Sealed ep
      then Some (ep\<lparr>de_Sealed := True, de_LastCounter := lastCounter, de_FrameCount := frameCount,
                    de_MacEphemeralPrivate := [], de_MacToIosMailboxKey := []\<rparr> # eps)
      else case seal_first idx lastCounter frameCount eps of None \<Rightarrow> None | Some eps' \<Rightarrow> Some (ep # eps'))"

definition SealEpoch ::
  "string \<Rightarrow> 64 word \<Rightarrow> 64 word \<Rightarrow> int \<Rightarrow> PrekeyStore \<Rightarrow> (prekey_error + unit) \<times> PrekeyStore" where
  "SealEpoch deviceID epochIndex lastCounter frameCount ps =
     (case seal_first epochIndex lastCounter frameCount (st_epochs ps deviceID) of
        None \<Rightarrow> (Inl EEpochNotFound, ps)
      | Some eps \<Rightarrow> (Inr (), ps\<lparr>st_epochs := (st_epochs ps)(deviceID := eps)\<rparr>))"

definition chain_head :: "crypto_lib \<Rightarrow> DeliveryEpoch \<Rightarrow> DeliveryChainHead" where
  "chain_head L ep = \<lparr>ch_EpochIndex = de_EpochIndex ep, ch_EpochDigest = epoch_digest L ep,
     ch_LastEpochFinalCounter = de_LastCounter ep, ch_EpochAuthTag = b64std_encode (de_EpochAuthTag ep),
     ch_PreviousEpochDigest = de_PreviousEpochDigest ep\<rparr>"

definition GetDeliveryChainHead :: "crypto_lib \<Rightarrow> string \<Rightarrow> PrekeyStore \<Rightarrow> DeliveryChainHead option" where
  "GetDeliveryChainHead L deviceID ps = map_option (chain_head L) (find de_Sealed (rev (st_epochs ps deviceID)))"

definition GetActiveEpoch :: "string \<Rightarrow> PrekeyStore \<Rightarrow> DeliveryEpoch option" where
  "GetActiveEpoch deviceID ps = find (\<lambda>ep. \<not> de_Sealed ep) (rev (st_epochs ps deviceID))"

definition is_active :: "DeliveryEpoch \<Rightarrow> bool" where
  "is_active ep \<longleftrightarrow> \<not> de_Sealed ep \<and> de_MacToIosMailboxKey ep \<noteq> []"

text \<open>The position of the active epoch: the last one that is open and has a key.\<close>

definition activeEpochLocked :: "string \<Rightarrow> PrekeyStore \<Rightarrow> nat option" where
  "activeEpochLocked deviceID ps =
     (let eps = st_epochs ps deviceID in find (\<lambda>i. is_active (eps ! i)) (rev [0..<length eps]))"

text \<open>The second critical section of the reservation.\<close>

definition reserve_active :: "string \<Rightarrow> PrekeyStore \<Rightarrow> (prekey_error + DeliveryEpoch \<times> 64 word) \<times> PrekeyStore" where
  "reserve_active deviceID ps =
     (case activeEpochLocked deviceID ps of
        None \<Rightarrow> (Inl ENoActiveEpoch, ps)
      | Some i \<Rightarrow>
          (let epoch = st_epochs ps deviceID ! i;
               counter = de_LastCounter epoch + 1;
               counter = (if counter < de_FirstCounter epoch then de_FirstCounter epoch else counter);
               epoch = epoch\<lparr>de_LastCounter := counter, de_FrameCount := de_FrameCount epoch + 1\<rparr>
           in (Inr (epoch, counter),
               ps\<lparr>st_epochs := (st_epochs ps)(deviceID := (st_epochs ps deviceID)[i := epoch])\<rparr>)))"

definition ReserveNextFrameCounter ::
  "crypto_lib \<Rightarrow> bytes option \<Rightarrow> gotime \<Rightarrow> string \<Rightarrow> PrekeyStore \<Rightarrow> (prekey_error + DeliveryEpoch \<times> 64 word) \<times> PrekeyStore" where
  "ReserveNextFrameCounter L rnd now deviceID ps =
     (case activeEpochLocked deviceID ps of
        Some _ \<Rightarrow> reserve_active deviceID ps
      | None \<Rightarrow>
          (case ConsumePrekey L rnd now deviceID ps of
             (Inl e, ps) \<Rightarrow> (Inl e, ps)
           | (Inr _, ps) \<Rightarrow> reserve_active deviceID ps))"

definition RemoveConsumedPrekeys :: "string \<Rightarrow> PrekeyStore \<Rightarrow> nat \<times> PrekeyStore" where
  "RemoveConsumedPrekeys deviceID ps =
     (length (filter pk_Consumed (st_prekeys ps deviceID)),
      ps\<lparr>st_prekeys := (st_prekeys ps)(deviceID := filter (\<lambda>pk. \<not> pk_Consumed pk) (st_prekeys ps deviceID))\<rparr>)"


section \<open>The device's side\<close>

definition DeriveMailboxKeyFromPrekey ::
  "crypto_lib \<Rightarrow> bytes \<Rightarrow> bytes \<Rightarrow> string \<Rightarrow> string \<Rightarrow> string \<Rightarrow> 64 word \<Rightarrow> prekey_error + bytes" where
  "DeriveMailboxKeyFromPrekey L prekeyPrivate macEphemeralPublic bridgeID deviceID prekeyID epochIndex =
     (if \<not> x_validPublic L macEphemeralPublic then Inl EParsePublic
      else case x_ecdh L prekeyPrivate macEphemeralPublic of
        None \<Rightarrow> Inl EECDH
      | Some shared \<Rightarrow>
          (if bridgeID = [] then Inl EBridgeNotConfigured
           else case derive_mailbox_key L shared (buildMailboxContext bridgeID deviceID prekeyID epochIndex) of
             None \<Rightarrow> Inl EDerive
           | Some k \<Rightarrow> Inr k))"

definition VerifyEpochAuthTag ::
  "crypto_lib \<Rightarrow> bytes \<Rightarrow> string \<Rightarrow> bytes \<Rightarrow> 64 word \<Rightarrow> string \<Rightarrow> bytes \<Rightarrow> bool" where
  "VerifyEpochAuthTag L identityAuthKey prekeyID macEphemeralPublic epochIndex previousEpochDigest expectedTag \<longleftrightarrow>
     (case x_json L (tag_header prekeyID macEphemeralPublic epochIndex previousEpochDigest) of
        None \<Rightarrow> False
      | Some headerJSON \<Rightarrow> hmacSHA256 L identityAuthKey headerJSON = expectedTag)"

fun VerifyDeliveryChain :: "DeliveryChainHead list \<Rightarrow> bool" where
  "VerifyDeliveryChain (prev # cur # rest) \<longleftrightarrow>
     ch_PreviousEpochDigest cur = ch_EpochDigest prev \<and> VerifyDeliveryChain (cur # rest)"
| "VerifyDeliveryChain _ \<longleftrightarrow> True"

definition EncodeUint64BE :: "64 word \<Rightarrow> bytes" where
  "EncodeUint64BE v = put_be64 v"

end
