(* ===== verification/Outbox.thy ===== *)
theory Outbox
  imports Observation Prekeys
begin

text \<open>
  The bounded buffer between the bridge and the relay (\<^verbatim>\<open>OutboxManager\<close> in \<^verbatim>\<open>go-bridge/relay_observation.go\<close>).
  Every operation holds the lock of the device's buffer from its first look at it to its end, so a run
  is a sequence of whole operations.
\<close>

section \<open>State and operations\<close>

record OutboxEntry =
  oe_Counter :: "64 word"
  oe_Envelope :: bytes
  oe_Size :: int
  oe_CreatedAt :: gotime

record DeviceOutbox =
  ob_deviceID :: string
  ob_entries :: "OutboxEntry list"
  ob_totalBytes :: int
  ob_epochIndex :: "64 word"
  ob_overflowed :: bool

record OutboxManager =
  om_outboxes :: "string \<rightharpoonup> DeviceOutbox"
  om_onOverflow :: bool

definition outboxMaxFrames :: nat where "outboxMaxFrames = 1000"
definition outboxMaxBytes :: int where "outboxMaxBytes = 16 * 1024 * 1024"

definition NewOutboxManager :: OutboxManager where
  "NewOutboxManager = \<lparr>om_outboxes = Map.empty, om_onOverflow = False\<rparr>"

definition SetOverflowCallback :: "bool \<Rightarrow> OutboxManager \<Rightarrow> OutboxManager" where
  "SetOverflowCallback fn om = om\<lparr>om_onOverflow := fn\<rparr>"

definition new_outbox :: "string \<Rightarrow> DeviceOutbox" where
  "new_outbox deviceID = \<lparr>ob_deviceID = deviceID, ob_entries = [], ob_totalBytes = 0, ob_epochIndex = 0, ob_overflowed = False\<rparr>"

definition set_outbox :: "string \<Rightarrow> DeviceOutbox \<Rightarrow> OutboxManager \<Rightarrow> OutboxManager" where
  "set_outbox deviceID ob om = om\<lparr>om_outboxes := (om_outboxes om)(deviceID \<mapsto> ob)\<rparr>"

text \<open>
  Whether the envelope was taken, the calls of the overflow callback that were started (device and
  reason), and the new state.
\<close>

definition outbox_Enqueue ::
  "gotime \<Rightarrow> string \<Rightarrow> 64 word \<Rightarrow> bytes \<Rightarrow> OutboxManager \<Rightarrow> bool \<times> (string \<times> string) list \<times> OutboxManager" where
  "outbox_Enqueue now deviceID counter envelope om =
     (let ob = (case om_outboxes om deviceID of None \<Rightarrow> new_outbox deviceID | Some ob \<Rightarrow> ob);
          om = set_outbox deviceID ob om;
          size = int (length envelope)
      in if ob_overflowed ob then (False, [], om)
         else if outboxMaxFrames \<le> length (ob_entries ob) \<or> outboxMaxBytes < ob_totalBytes ob + size
         then (False, if om_onOverflow om then [(deviceID, ''outbox_overflow'')] else [],
               set_outbox deviceID (ob\<lparr>ob_overflowed := True\<rparr>) om)
         else (True, [], set_outbox deviceID
                (ob\<lparr>ob_entries := ob_entries ob @ [\<lparr>oe_Counter = counter, oe_Envelope = envelope, oe_Size = size, oe_CreatedAt = now\<rparr>],
                    ob_totalBytes := ob_totalBytes ob + size\<rparr>) om))"

definition Drain :: "string \<Rightarrow> OutboxManager \<Rightarrow> OutboxEntry list \<times> OutboxManager" where
  "Drain deviceID om =
     (case om_outboxes om deviceID of
        None \<Rightarrow> ([], om)
      | Some ob \<Rightarrow> (ob_entries ob, set_outbox deviceID (ob\<lparr>ob_entries := [], ob_totalBytes := 0, ob_overflowed := False\<rparr>) om))"

text \<open>The sending loop: \<open>send i\<close> says whether the \<open>i\<close>-th call of the send function succeeds.\<close>

fun flush_loop :: "(nat \<Rightarrow> bool) \<Rightarrow> nat \<Rightarrow> OutboxEntry list \<Rightarrow> OutboxEntry list \<times> OutboxEntry list" where
  "flush_loop send i [] = ([], [])"
| "flush_loop send i (e # es) =
     (if send i then let (sent, rest) = flush_loop send (Suc i) es in (e # sent, rest) else ([], e # es))"

definition outbox_Flush :: "(nat \<Rightarrow> bool) \<Rightarrow> string \<Rightarrow> OutboxManager \<Rightarrow> bool \<times> OutboxEntry list \<times> OutboxManager" where
  "outbox_Flush send deviceID om =
     (case om_outboxes om deviceID of
        None \<Rightarrow> (True, [], om)
      | Some ob \<Rightarrow>
          (let (sent, rest) = flush_loop send 0 (ob_entries ob)
           in if rest \<noteq> []
              then (False, sent,
                    if sent \<noteq> []
                    then set_outbox deviceID (ob\<lparr>ob_entries := rest, ob_totalBytes := sum_list (map oe_Size rest)\<rparr>) om
                    else om)
              else (True, sent, set_outbox deviceID (ob\<lparr>ob_entries := [], ob_totalBytes := 0, ob_overflowed := False\<rparr>) om)))"

definition IsOverflowed :: "string \<Rightarrow> OutboxManager \<Rightarrow> bool" where
  "IsOverflowed deviceID om = (case om_outboxes om deviceID of None \<Rightarrow> False | Some ob \<Rightarrow> ob_overflowed ob)"

definition ResetOverflow :: "string \<Rightarrow> OutboxManager \<Rightarrow> OutboxManager" where
  "ResetOverflow deviceID om =
     (case om_outboxes om deviceID of
        None \<Rightarrow> om
      | Some ob \<Rightarrow> set_outbox deviceID (ob\<lparr>ob_overflowed := False, ob_entries := [], ob_totalBytes := 0\<rparr>) om)"

definition outbox_Stats :: "string \<Rightarrow> OutboxManager \<Rightarrow> nat \<times> int \<times> bool" where
  "outbox_Stats deviceID om =
     (case om_outboxes om deviceID of
        None \<Rightarrow> (0, 0, False) | Some ob \<Rightarrow> (length (ob_entries ob), ob_totalBytes ob, ob_overflowed ob))"


section \<open>The buffer as a bounded queue\<close>

definition outbox_entries :: "string \<Rightarrow> OutboxManager \<Rightarrow> OutboxEntry list" where
  "outbox_entries d om = (case om_outboxes om d of None \<Rightarrow> [] | Some ob \<Rightarrow> ob_entries ob)"

definition outbox_ok :: "DeviceOutbox \<Rightarrow> bool" where
  "outbox_ok ob \<longleftrightarrow> ob_totalBytes ob = sum_list (map oe_Size (ob_entries ob)) \<and> length (ob_entries ob) \<le> outboxMaxFrames
     \<and> ob_totalBytes ob \<le> outboxMaxBytes \<and> (\<forall>e \<in> set (ob_entries ob). oe_Size e = int (length (oe_Envelope e)))"

definition outboxes_ok :: "OutboxManager \<Rightarrow> bool" where
  "outboxes_ok om \<longleftrightarrow> (\<forall>d ob. om_outboxes om d = Some ob \<longrightarrow> outbox_ok ob)"

lemma set_outbox_simps [simp]:
  "om_outboxes (set_outbox d ob om) = (om_outboxes om)(d \<mapsto> ob)" "om_onOverflow (set_outbox d ob om) = om_onOverflow om"
  by (simp_all add: set_outbox_def)

lemma flush_loop_split: "flush_loop send i es = (sent, rest) \<Longrightarrow> es = sent @ rest"
  by (induction es arbitrary: i sent rest) (auto split: if_splits prod.splits)

lemma flush_loop_all: "(\<And>i. send i) \<Longrightarrow> flush_loop send i es = (es, [])"
  by (induction es arbitrary: i) auto

lemma outbox_ok_suffix:
  assumes "outbox_ok ob" "ob_entries ob = sent @ rest"
  shows "outbox_ok (ob\<lparr>ob_entries := rest, ob_totalBytes := sum_list (map oe_Size rest)\<rparr>)"
proof -
  have "\<forall>e \<in> set sent. oe_Size e = int (length (oe_Envelope e))" using assms by (simp add: outbox_ok_def)
  then have "0 \<le> sum_list (map oe_Size sent)" by (intro sum_list_map_nonneg) auto
  then show ?thesis using assms by (simp add: outbox_ok_def)
qed

lemma outbox_ok_empty: "outbox_ok (ob\<lparr>ob_entries := [], ob_totalBytes := 0, ob_overflowed := b\<rparr>)" "outbox_ok (new_outbox d)"
  "outbox_ok (ob\<lparr>ob_overflowed := b, ob_entries := [], ob_totalBytes := 0\<rparr>)"
  by (simp_all add: outbox_ok_def new_outbox_def outboxMaxFrames_def outboxMaxBytes_def)

datatype outbox_op =
    BEnqueue gotime string "64 word" bytes
  | BFlush string "nat \<Rightarrow> bool"
  | BReset string
  | BDrain string

text \<open>
  The reference: per device a list; enqueueing takes an entry or not, a flush sends a prefix and
  keeps the rest. A run records for one device what was taken and what was sent.
\<close>

record outbox_run =
  br_om :: OutboxManager
  br_taken :: "OutboxEntry list"
  br_sent :: "OutboxEntry list"

fun outbox_step :: "string \<Rightarrow> outbox_op \<Rightarrow> outbox_run \<Rightarrow> outbox_run" where
  "outbox_step d (BEnqueue now d' c env) r =
     (let (ok, _, om) = outbox_Enqueue now d' c env (br_om r)
      in r\<lparr>br_om := om, br_taken := br_taken r @ (if ok \<and> d' = d
             then [\<lparr>oe_Counter = c, oe_Envelope = env, oe_Size = int (length env), oe_CreatedAt = now\<rparr>] else [])\<rparr>)"
| "outbox_step d (BFlush d' send) r =
     (let (_, sent, om) = outbox_Flush send d' (br_om r) in r\<lparr>br_om := om, br_sent := br_sent r @ (if d' = d then sent else [])\<rparr>)"
| "outbox_step d (BReset d') r = r\<lparr>br_om := ResetOverflow d' (br_om r)\<rparr>"
| "outbox_step d (BDrain d') r =
     (let (es, om) = Drain d' (br_om r) in r\<lparr>br_om := om, br_sent := br_sent r @ (if d' = d then es else [])\<rparr>)"

definition outbox_of :: "string \<Rightarrow> OutboxManager \<Rightarrow> DeviceOutbox" where
  "outbox_of d om = (case om_outboxes om d of None \<Rightarrow> new_outbox d | Some ob \<Rightarrow> ob)"

lemma outboxes_okD: "outboxes_ok om \<Longrightarrow> outbox_ok (outbox_of d om)"
  by (simp add: outboxes_ok_def outbox_of_def outbox_ok_empty split: option.split)

lemma outboxes_ok_set: "outboxes_ok om \<Longrightarrow> outbox_ok ob \<Longrightarrow> outboxes_ok (set_outbox d ob om)"
  by (simp add: outboxes_ok_def)

lemma outbox_entries_of: "outbox_entries d om = ob_entries (outbox_of d om)"
  by (simp add: outbox_entries_def outbox_of_def new_outbox_def split: option.split)

lemma outbox_of_set [simp]: "outbox_of d (set_outbox d' ob om) = (if d = d' then ob else outbox_of d om)"
  by (simp add: outbox_of_def)

text \<open>The three outcomes of enqueueing.\<close>

lemma outbox_Enqueue_cases:
  assumes "outbox_Enqueue now d c env om = (ok, calls, om')"
  obtains (blocked) "\<not> ok" "calls = []" "ob_overflowed (outbox_of d om)" "om' = set_outbox d (outbox_of d om) om"
  | (full) "\<not> ok" "\<not> ob_overflowed (outbox_of d om)"
      "outboxMaxFrames \<le> length (ob_entries (outbox_of d om)) \<or> outboxMaxBytes < ob_totalBytes (outbox_of d om) + int (length env)"
      "calls = (if om_onOverflow om then [(d, ''outbox_overflow'')] else [])"
      "om' = set_outbox d ((outbox_of d om)\<lparr>ob_overflowed := True\<rparr>) (set_outbox d (outbox_of d om) om)"
  | (taken) "ok" "calls = []" "\<not> ob_overflowed (outbox_of d om)" "length (ob_entries (outbox_of d om)) < outboxMaxFrames"
      "ob_totalBytes (outbox_of d om) + int (length env) \<le> outboxMaxBytes"
      "om' = set_outbox d ((outbox_of d om)\<lparr>ob_entries := ob_entries (outbox_of d om) @
         [\<lparr>oe_Counter = c, oe_Envelope = env, oe_Size = int (length env), oe_CreatedAt = now\<rparr>],
         ob_totalBytes := ob_totalBytes (outbox_of d om) + int (length env)\<rparr>) (set_outbox d (outbox_of d om) om)"
  using assms unfolding outbox_Enqueue_def outbox_of_def[symmetric] Let_def
  by (simp add: not_le not_less split: if_splits)

lemma outbox_Enqueue_ok:
  assumes "outboxes_ok om" "outbox_Enqueue now d c env om = (ok, calls, om')"
  shows "outboxes_ok om'"
proof -
  note b = outboxes_okD[OF assms(1), of d]
  show ?thesis using assms(2)
  proof (cases rule: outbox_Enqueue_cases)
    case taken
    then show ?thesis using b assms(1) by (auto intro!: outboxes_ok_set simp: outbox_ok_def)
  qed (use b assms(1) in \<open>auto intro!: outboxes_ok_set simp: outbox_ok_def\<close>)
qed

text \<open>A flush sends a prefix of the buffer, in order, and keeps the rest.\<close>

lemma outbox_Flush_split:
  assumes "outbox_Flush send d om = (ok, sent, om')"
  shows "ob_entries (outbox_of d om) = sent @ ob_entries (outbox_of d om')" "ok \<longleftrightarrow> ob_entries (outbox_of d om') = []"
    "d' \<noteq> d \<Longrightarrow> outbox_of d' om' = outbox_of d' om" "outboxes_ok om \<Longrightarrow> outboxes_ok om'"
proof -
  show "ob_entries (outbox_of d om) = sent @ ob_entries (outbox_of d om')" "ok \<longleftrightarrow> ob_entries (outbox_of d om') = []"
    using assms by (auto simp: outbox_Flush_def outbox_of_def new_outbox_def Let_def dest!: flush_loop_split split: option.splits prod.splits if_splits)
  show "outbox_of d' om' = outbox_of d' om" if "d' \<noteq> d"
    using assms that by (auto simp: outbox_Flush_def Let_def split: option.splits prod.splits if_splits)
  show "outboxes_ok om'" if ok: "outboxes_ok om"
  proof (cases "om_outboxes om d")
    case (Some ob)
    then have "outbox_ok ob" using ok by (simp add: outboxes_ok_def)
    moreover obtain s r where f: "flush_loop send 0 (ob_entries ob) = (s, r)" by (meson surj_pair)
    ultimately have "outbox_ok (ob\<lparr>ob_entries := r, ob_totalBytes := sum_list (map oe_Size r)\<rparr>)"
      using outbox_ok_suffix flush_loop_split by blast
    then show ?thesis using assms Some f ok by (auto simp: outbox_Flush_def outbox_ok_empty intro!: outboxes_ok_set split: if_splits)
  qed (use assms ok in \<open>simp add: outbox_Flush_def\<close>)
qed

definition outbox_history :: "string \<Rightarrow> outbox_run \<Rightarrow> bool" where
  "outbox_history d r \<longleftrightarrow> outboxes_ok (br_om r) \<and> br_taken r = br_sent r @ ob_entries (outbox_of d (br_om r))"

lemma outbox_history_step:
  assumes h: "outbox_history d r" and "BReset d \<noteq> op"
  shows "outbox_history d (outbox_step d op r)"
proof (cases op)
  case (BEnqueue now d' c env)
  obtain ok calls om' where e: "outbox_Enqueue now d' c env (br_om r) = (ok, calls, om')" by (metis prod_cases3)
  have "outboxes_ok om'" using outbox_Enqueue_ok[OF _ e] h by (simp add: outbox_history_def)
  moreover have "ob_entries (outbox_of d om') = ob_entries (outbox_of d (br_om r)) @
      (if ok \<and> d' = d then [\<lparr>oe_Counter = c, oe_Envelope = env, oe_Size = int (length env), oe_CreatedAt = now\<rparr>] else [])"
    using e by (cases rule: outbox_Enqueue_cases) auto
  ultimately show ?thesis using h BEnqueue e by (simp add: outbox_history_def)
next
  case (BFlush d' send)
  obtain ok sent om' where f: "outbox_Flush send d' (br_om r) = (ok, sent, om')" by (metis prod_cases3)
  show ?thesis using h BFlush f outbox_Flush_split[OF f] by (cases "d = d'") (simp_all add: outbox_history_def)
next
  case (BDrain d')
  have "ob_entries (new_outbox d') = []" by (simp add: new_outbox_def)
  then show ?thesis using h BDrain
    by (auto simp: outbox_history_def Drain_def case_prod_beta Let_def outbox_of_def outbox_ok_empty intro!: outboxes_ok_set split: option.splits)
next
  case (BReset d')
  then have "d' \<noteq> d" using assms(2) by simp
  then show ?thesis using h BReset
    by (auto simp: outbox_history_def ResetOverflow_def outbox_ok_empty intro!: outboxes_ok_set split: option.splits)
qed

lemma outbox_history_run:
  "outbox_history d r \<Longrightarrow> BReset d \<notin> set ops \<Longrightarrow> outbox_history d (fold (outbox_step d) ops r)"
  by (induction ops arbitrary: r) (auto intro: outbox_history_step)

definition outbox_start :: outbox_run where
  "outbox_start = \<lparr>br_om = NewOutboxManager, br_taken = [], br_sent = []\<rparr>"

lemma outbox_history_start: "outbox_history d outbox_start"
  by (simp add: outbox_history_def outbox_start_def NewOutboxManager_def outboxes_ok_def outbox_of_def new_outbox_def)



end
