(* ===== verification/Prekey_Props.thy ===== *)
theory Prekey_Props
  imports Prekeys
begin

text \<open>
  Properties of the delivery prekeys: counters are handed out once and without gaps whatever the
  interleaving, epochs form a chain when reservations do not overlap, uploads are all or nothing, and a
  prekey opens at most one epoch.
\<close>

section \<open>Runs of critical sections\<close>

text \<open>
  Each operation is one critical section of the store's mutex. \<^verbatim>\<open>ReserveNextFrameCounter\<close> is two of
  them with a call of \<^verbatim>\<open>ConsumePrekey\<close> between, so the runs below contain all its interleavings. A run
  records the reservations made: device, epoch and counter.
\<close>

datatype prekey_op =
    PUpload "nat \<Rightarrow> gotime" PrekeyUploadBatch
  | PConsume "bytes option" gotime string
  | PReserve string
  | PSeal string "64 word" "64 word" int
  | PRemove string
  | PBridgeID string
  | PFactory "(string \<Rightarrow> bytes option) option"

type_synonym reservation = "string \<times> 64 word \<times> 64 word"

fun prekey_step :: "crypto_lib \<Rightarrow> prekey_op \<Rightarrow> PrekeyStore \<Rightarrow> reservation list \<times> PrekeyStore" where
  "prekey_step L (PUpload clk batch) ps = ([], snd (UploadPrekeys L clk batch ps))"
| "prekey_step L (PConsume rnd now d) ps = ([], snd (ConsumePrekey L rnd now d ps))"
| "prekey_step L (PReserve d) ps =
     (case reserve_active d ps of (Inl e, ps) \<Rightarrow> ([], ps) | (Inr (epoch, c), ps) \<Rightarrow> ([(d, de_EpochIndex epoch, c)], ps))"
| "prekey_step L (PSeal d i c n) ps = ([], snd (SealEpoch d i c n ps))"
| "prekey_step L (PRemove d) ps = ([], snd (RemoveConsumedPrekeys d ps))"
| "prekey_step L (PBridgeID b) ps = ([], SetBridgeID b ps)"
| "prekey_step L (PFactory f) ps = ([], SetIdentityAuthKeyFactory f ps)"

fun prekey_run :: "crypto_lib \<Rightarrow> prekey_op list \<Rightarrow> PrekeyStore \<Rightarrow> reservation list \<times> PrekeyStore" where
  "prekey_run L [] ps = ([], ps)"
| "prekey_run L (op # ops) ps =
     (let (r, ps) = prekey_step L op ps; (rs, ps) = prekey_run L ops ps in (r @ rs, ps))"

definition counters_of :: "string \<Rightarrow> 64 word \<Rightarrow> reservation list \<Rightarrow> 64 word list" where
  "counters_of d e rs = map (\<lambda>(_, _, c). c) (filter (\<lambda>(d', e', _). d' = d \<and> e' = e) rs)"

lemma counters_of_simps [simp]:
  "counters_of d e [] = []" "counters_of d e (rs @ rs') = counters_of d e rs @ counters_of d e rs'"
  "counters_of d e [(d', e', c)] = (if d' = d \<and> e' = e then [c] else [])"
  by (simp_all add: counters_of_def)

lemma counters_of_set: "c \<in> set (counters_of d e rs) \<longleftrightarrow> (d, e, c) \<in> set rs"
  by (force simp: counters_of_def)

lemma distinct_reservations: "(\<And>d e. distinct (counters_of d e rs)) \<Longrightarrow> distinct rs"
proof (induction rs rule: rev_induct)
  case (snoc r rs)
  obtain d e c where r: "r = (d, e, c)" using prod_cases3 by blast
  have "distinct (counters_of d' e' rs)" for d' e' using snoc.prems[of d' e'] by simp
  moreover have "(d, e, c) \<notin> set rs" using snoc.prems[of d e] by (simp add: r counters_of_set[symmetric])
  ultimately show ?case using snoc.IH by (simp add: r)
qed simp


section \<open>Counters\<close>

text \<open>
  One device: epoch \<open>i\<close> has index \<open>i\<close>, its reservations are \<open>1, \<dots>, m\<close>, and while it is open its last
  counter is \<open>m\<close>.
\<close>

definition slots_ok :: "nat \<Rightarrow> (64 word \<Rightarrow> 64 word list) \<Rightarrow> DeliveryEpoch list \<Rightarrow> 64 word \<Rightarrow> bool" where
  "slots_ok k f eps n \<longleftrightarrow> length eps \<le> k \<and> n = of_nat (length eps)
     \<and> (\<forall>i < length eps. de_EpochIndex (eps ! i) = of_nat i
          \<and> (\<exists>m \<le> k. f (of_nat i) = counters m
               \<and> (\<not> de_Sealed (eps ! i) \<longrightarrow> de_FirstCounter (eps ! i) = 1 \<and> de_LastCounter (eps ! i) = of_nat m)))
     \<and> (\<forall>e. (\<forall>i < length eps. e \<noteq> of_nat i) \<longrightarrow> f e = [])"

lemma of_nat_64_inj: "i < 2 ^ 64 \<Longrightarrow> j < 2 ^ 64 \<Longrightarrow> (of_nat i :: 64 word) = of_nat j \<longleftrightarrow> i = j"
proof -
  assume b: "i < 2 ^ 64" "j < 2 ^ 64"
  have "unat (of_nat n :: 64 word) = n" if "n < 2 ^ 64" for n using that by (simp add: unat_of_nat)
  then show ?thesis using b by metis
qed

lemma slots_ok_mono: "slots_ok k f eps n \<Longrightarrow> k \<le> k' \<Longrightarrow> slots_ok k' f eps n"
  unfolding slots_ok_def by (meson le_trans)

lemma slots_ok_index:
  assumes "slots_ok k f eps n" "k < 2 ^ 64" "i < length eps" "j < length eps" "de_EpochIndex (eps ! i) = de_EpochIndex (eps ! j)"
  shows "i = j"
  using assms of_nat_64_inj[of i j] by (auto simp: slots_ok_def)

text \<open>A new epoch.\<close>

lemma slots_ok_append:
  assumes ok: "slots_ok k f eps n" and k: "k < 2 ^ 64"
    and ep: "de_EpochIndex ep = n" "de_FirstCounter ep = 1" "de_LastCounter ep = 0"
  shows "slots_ok (Suc k) f (eps @ [ep]) (n + 1)"
proof -
  have len: "length eps \<le> k" and n: "n = of_nat (length eps)" using ok by (simp_all add: slots_ok_def)
  have fresh: "f (of_nat (length eps)) = []"
  proof -
    have "of_nat (length eps) \<noteq> (of_nat i :: 64 word)" if "i < length eps" for i
      using of_nat_64_inj[of "length eps" i] that len k by linarith
    then show ?thesis using ok by (auto simp: slots_ok_def)
  qed
  have "de_EpochIndex ((eps @ [ep]) ! i) = of_nat i
      \<and> (\<exists>m \<le> Suc k. f (of_nat i) = counters m
           \<and> (\<not> de_Sealed ((eps @ [ep]) ! i) \<longrightarrow> de_FirstCounter ((eps @ [ep]) ! i) = 1 \<and> de_LastCounter ((eps @ [ep]) ! i) = of_nat m))"
    if "i < Suc (length eps)" for i
  proof (cases "i < length eps")
    case True
    with ok show ?thesis unfolding slots_ok_def by (simp add: nth_append) (meson le_Suc_eq)
  next
    case False
    then have "i = length eps" using that by simp
    then show ?thesis using fresh n ep by (auto intro: exI[of _ 0])
  qed
  moreover have "f e = []" if "\<forall>i < Suc (length eps). e \<noteq> of_nat i" for e
    using ok that by (auto simp: slots_ok_def)
  ultimately show ?thesis using len n by (simp add: slots_ok_def)
qed

text \<open>A reservation in an open epoch.\<close>

lemma slots_ok_reserve:
  assumes ok: "slots_ok k f eps n" and k: "Suc k < 2 ^ 64" and i: "i < length eps" "\<not> de_Sealed (eps ! i)"
  defines "c \<equiv> de_LastCounter (eps ! i) + 1"
  shows "\<not> c < de_FirstCounter (eps ! i)"
    and "slots_ok (Suc k) (f(of_nat i := f (of_nat i) @ [c])) (eps[i := (eps ! i)\<lparr>de_LastCounter := c, de_FrameCount := z\<rparr>]) n"
proof -
  have len: "length eps \<le> k" using ok by (simp add: slots_ok_def)
  obtain m where m: "m \<le> k" "f (of_nat i) = counters m" "de_FirstCounter (eps ! i) = 1" "de_LastCounter (eps ! i) = of_nat m"
    using ok i by (auto simp: slots_ok_def)
  have c: "c = of_nat (Suc m)" by (simp add: c_def m)
  have "c \<noteq> 0" using of_nat_64_inj[of "Suc m" 0] m(1) k unfolding c by simp
  then show "\<not> c < de_FirstCounter (eps ! i)" using m(3) by (simp add: word_less_1)
  have "de_EpochIndex (eps[i := (eps ! i)\<lparr>de_LastCounter := c, de_FrameCount := z\<rparr>] ! j) = of_nat j
      \<and> (\<exists>m \<le> Suc k. (f(of_nat i := f (of_nat i) @ [c])) (of_nat j) = counters m
           \<and> (\<not> de_Sealed (eps[i := (eps ! i)\<lparr>de_LastCounter := c, de_FrameCount := z\<rparr>] ! j) \<longrightarrow>
                de_FirstCounter (eps[i := (eps ! i)\<lparr>de_LastCounter := c, de_FrameCount := z\<rparr>] ! j) = 1
              \<and> de_LastCounter (eps[i := (eps ! i)\<lparr>de_LastCounter := c, de_FrameCount := z\<rparr>] ! j) = of_nat m))"
    if j: "j < length eps" for j
  proof (cases "j = i")
    case True
    then show ?thesis using ok i m c by (auto simp: slots_ok_def intro!: exI[of _ "Suc m"])
  next
    case False
    then have "(of_nat j :: 64 word) \<noteq> of_nat i" using of_nat_64_inj[of j i] j i(1) len k by linarith
    moreover obtain m' where "m' \<le> k" "f (of_nat j) = counters m'" "de_EpochIndex (eps ! j) = of_nat j"
      "\<not> de_Sealed (eps ! j) \<longrightarrow> de_FirstCounter (eps ! j) = 1 \<and> de_LastCounter (eps ! j) = of_nat m'"
      using ok j unfolding slots_ok_def by blast
    ultimately show ?thesis using False by (auto intro!: exI[of _ m'])
  qed
  moreover have "(f(of_nat i := f (of_nat i) @ [c])) e = []" if "\<forall>j < length eps. e \<noteq> of_nat j" for e
    using ok that i(1) by (auto simp: slots_ok_def)
  ultimately show "slots_ok (Suc k) (f(of_nat i := f (of_nat i) @ [c])) (eps[i := (eps ! i)\<lparr>de_LastCounter := c, de_FrameCount := z\<rparr>]) n"
    using ok by (simp add: slots_ok_def)
qed

text \<open>Sealing closes one open epoch and changes nothing else.\<close>

lemma seal_first_shape:
  "seal_first idx c n eps = Some eps' \<Longrightarrow>
     \<exists>i < length eps. de_EpochIndex (eps ! i) = idx \<and> \<not> de_Sealed (eps ! i)
        \<and> eps' = eps[i := (eps ! i)\<lparr>de_Sealed := True, de_LastCounter := c, de_FrameCount := n,
                                  de_MacEphemeralPrivate := [], de_MacToIosMailboxKey := []\<rparr>]"
proof (induction eps arbitrary: eps')
  case (Cons ep eps)
  show ?case
  proof (cases "de_EpochIndex ep = idx \<and> \<not> de_Sealed ep")
    case True
    then show ?thesis using Cons.prems by (auto intro!: exI[of _ 0])
  next
    case False
    then obtain eps'' where s: "seal_first idx c n eps = Some eps''" "eps' = ep # eps''"
      using Cons.prems by (auto split: option.splits)
    from Cons.IH[OF s(1)] obtain i where "i < length eps" "de_EpochIndex (eps ! i) = idx" "\<not> de_Sealed (eps ! i)"
      "eps'' = eps[i := (eps ! i)\<lparr>de_Sealed := True, de_LastCounter := c, de_FrameCount := n,
                                  de_MacEphemeralPrivate := [], de_MacToIosMailboxKey := []\<rparr>]" by blast
    then show ?thesis using s(2) by (auto intro!: exI[of _ "Suc i"])
  qed
qed simp

lemma slots_ok_seal:
  assumes "slots_ok k f eps n" "seal_first idx c z eps = Some eps'"
  shows "slots_ok k f eps' n"
proof -
  obtain i where i: "i < length eps"
    "eps' = eps[i := (eps ! i)\<lparr>de_Sealed := True, de_LastCounter := c, de_FrameCount := z,
                               de_MacEphemeralPrivate := [], de_MacToIosMailboxKey := []\<rparr>]"
    using seal_first_shape[OF assms(2)] by blast
  have "de_EpochIndex (eps' ! j) = of_nat j
      \<and> (\<exists>m \<le> k. f (of_nat j) = counters m
           \<and> (\<not> de_Sealed (eps' ! j) \<longrightarrow> de_FirstCounter (eps' ! j) = 1 \<and> de_LastCounter (eps' ! j) = of_nat m))"
    if "j < length eps" for j
  proof (cases "j = i")
    case True
    then show ?thesis using assms(1) i that by (auto simp: slots_ok_def)
  next
    case False
    then show ?thesis using assms(1) i that by (auto simp: slots_ok_def)
  qed
  then show ?thesis using assms(1) i by (simp add: slots_ok_def)
qed

section \<open>The operations\<close>

lemma upload_keeps_epochs [simp]:
  "st_epochs (snd (UploadPrekeys L clk b ps)) = st_epochs ps" "st_epochIndex (snd (UploadPrekeys L clk b ps)) = st_epochIndex ps"
  by (simp_all add: UploadPrekeys_def Let_def split: option.splits)

lemma remove_keeps_epochs [simp]:
  "st_epochs (snd (RemoveConsumedPrekeys d ps)) = st_epochs ps" "st_epochIndex (snd (RemoveConsumedPrekeys d ps)) = st_epochIndex ps"
  by (simp_all add: RemoveConsumedPrekeys_def)

lemma setters_keep_epochs [simp]:
  "st_epochs (SetBridgeID b ps) = st_epochs ps" "st_epochIndex (SetBridgeID b ps) = st_epochIndex ps"
  "st_epochs (SetIdentityAuthKeyFactory f ps) = st_epochs ps" "st_epochIndex (SetIdentityAuthKeyFactory f ps) = st_epochIndex ps"
  by (simp_all add: SetBridgeID_def SetIdentityAuthKeyFactory_def)

lemma ConsumePrekey_failure: "ConsumePrekey L rnd now d ps = (Inl e, ps') \<Longrightarrow> ps' = ps"
  by (auto simp: ConsumePrekey_def Let_def split: option.splits if_splits prod.splits)

lemma ConsumePrekey_success:
  assumes "ConsumePrekey L rnd now d ps = (Inr epoch, ps')"
  obtains pk marked priv shared key f tagKey header where
    "st_bridgeID ps \<noteq> []" "take_prekey (st_prekeys ps d) = Some (pk, marked)" "rnd = Some priv" "x_validPublic L (pk_PublicKey pk)"
    "x_ecdh L priv (pk_PublicKey pk) = Some shared"
    "derive_mailbox_key L shared (buildMailboxContext (st_bridgeID ps) d (pk_PrekeyID pk) (st_epochIndex ps d)) = Some key"
    "st_identityAuthKey ps = Some f" "f d = Some tagKey"
    "x_json L (tag_header (pk_PrekeyID pk) (x_public L priv) (st_epochIndex ps d) (previous_digest L (st_epochs ps d))) = Some header"
    "epoch = \<lparr>de_EpochIndex = st_epochIndex ps d, de_PrekeyID = pk_PrekeyID pk, de_MacEphemeralPublic = x_public L priv,
       de_MacEphemeralPrivate = priv, de_MacToIosMailboxKey = key, de_EpochAuthTag = hmacSHA256 L tagKey header,
       de_PreviousEpochDigest = previous_digest L (st_epochs ps d), de_FirstCounter = 1, de_LastCounter = 0,
       de_FrameCount = 0, de_CreatedAt = now, de_Sealed = False\<rparr>"
    "ps' = ps\<lparr>st_prekeys := (st_prekeys ps)(d := marked), st_epochs := (st_epochs ps)(d := st_epochs ps d @ [epoch]),
             st_epochIndex := (st_epochIndex ps)(d := st_epochIndex ps d + 1)\<rparr>"
  using assms by (auto simp: ConsumePrekey_def generateEpochAuthTag_def Let_def split: option.splits if_splits prod.splits)

lemma activeEpochLocked_Some:
  assumes "activeEpochLocked d ps = Some i"
  shows "i < length (st_epochs ps d)" "\<not> de_Sealed (st_epochs ps d ! i)" "de_MacToIosMailboxKey (st_epochs ps d ! i) \<noteq> []"
  using assms by (auto simp: activeEpochLocked_def Let_def is_active_def dest!: find_Some_iff_mem)

lemma activeEpochLocked_None:
  "activeEpochLocked d ps = None \<longleftrightarrow> (\<forall>ep \<in> set (st_epochs ps d). \<not> is_active ep)"
  by (auto simp: activeEpochLocked_def Let_def find_None_iff_all all_set_conv_all_nth)

definition store_slots :: "nat \<Rightarrow> reservation list \<Rightarrow> PrekeyStore \<Rightarrow> bool" where
  "store_slots k rs ps \<longleftrightarrow> (\<forall>d. slots_ok k (\<lambda>e. counters_of d e rs) (st_epochs ps d) (st_epochIndex ps d))"

lemma store_slots_mono: "store_slots k rs ps \<Longrightarrow> store_slots (Suc k) rs ps"
  unfolding store_slots_def by (blast intro: slots_ok_mono le_SucI)

lemma store_slots_same:
  "store_slots k rs ps \<Longrightarrow> st_epochs ps' = st_epochs ps \<Longrightarrow> st_epochIndex ps' = st_epochIndex ps \<Longrightarrow> store_slots (Suc k) rs ps'"
  using store_slots_mono by (simp add: store_slots_def)

lemma store_slots_step:
  assumes ok: "store_slots k rs ps" and k: "Suc k < 2 ^ 64"
  shows "store_slots (Suc k) (rs @ fst (prekey_step L op ps)) (snd (prekey_step L op ps))"
proof (cases op)
  case (PConsume rnd now d)
  show ?thesis
  proof (cases "ConsumePrekey L rnd now d ps")
    case (Pair r ps')
    show ?thesis
    proof (cases r)
      case (Inl e)
      then have "ps' = ps" using Pair ConsumePrekey_failure by blast
      then show ?thesis using store_slots_mono[OF ok] PConsume Pair by simp
    next
      case (Inr epoch)
      from Pair Inr have "ConsumePrekey L rnd now d ps = (Inr epoch, ps')" by simp
      then have "de_EpochIndex epoch = st_epochIndex ps d" "de_FirstCounter epoch = 1" "de_LastCounter epoch = 0"
        "st_epochs ps' = (st_epochs ps)(d := st_epochs ps d @ [epoch])"
        "st_epochIndex ps' = (st_epochIndex ps)(d := st_epochIndex ps d + 1)"
        by (auto elim!: ConsumePrekey_success)
      moreover have "slots_ok (Suc k) (\<lambda>e. counters_of d' e rs) (st_epochs ps d') (st_epochIndex ps d')" for d'
        using store_slots_mono[OF ok] by (simp add: store_slots_def)
      ultimately show ?thesis
        using ok k PConsume Pair slots_ok_append[of k "\<lambda>e. counters_of d e rs" "st_epochs ps d" "st_epochIndex ps d" epoch]
        by (simp add: store_slots_def)
    qed
  qed
next
  case (PReserve d)
  show ?thesis
  proof (cases "activeEpochLocked d ps")
    case None
    then show ?thesis using store_slots_mono[OF ok] PReserve by (simp add: reserve_active_def)
  next
    case (Some i)
    define eps where "eps = st_epochs ps d"
    define c where "c = de_LastCounter (eps ! i) + 1"
    have i: "i < length eps" "\<not> de_Sealed (eps ! i)" using activeEpochLocked_Some[OF Some] by (simp_all add: eps_def)
    have okd: "slots_ok k (\<lambda>e. counters_of d e rs) eps (st_epochIndex ps d)" using ok by (simp add: store_slots_def eps_def)
    note res = slots_ok_reserve[OF okd k i, folded c_def]
    have idx: "de_EpochIndex (eps ! i) = of_nat i" using okd i by (simp add: slots_ok_def)
    have step: "prekey_step L op ps = ([(d, of_nat i, c)],
        ps\<lparr>st_epochs := (st_epochs ps)(d := eps[i := (eps ! i)\<lparr>de_LastCounter := c, de_FrameCount := de_FrameCount (eps ! i) + 1\<rparr>])\<rparr>)"
      using res(1) by (simp add: PReserve reserve_active_def Some Let_def idx eps_def[symmetric] c_def[symmetric])
    have "(\<lambda>e. counters_of d e (rs @ [(d, of_nat i, c)])) = (\<lambda>e. counters_of d e rs)(of_nat i := counters_of d (of_nat i) rs @ [c])"
      by auto
    moreover have "(\<lambda>e. counters_of d' e (rs @ [(d, of_nat i, c)])) = (\<lambda>e. counters_of d' e rs)" if "d' \<noteq> d" for d'
      using that by auto
    moreover have "slots_ok (Suc k) (\<lambda>e. counters_of d' e rs) (st_epochs ps d') (st_epochIndex ps d')" for d'
      using store_slots_mono[OF ok] by (simp add: store_slots_def)
    ultimately show ?thesis unfolding step store_slots_def using res(2) by (simp del: counters_of_simps)
  qed
next
  case (PSeal d i c z)
  have "slots_ok (Suc k) (\<lambda>e. counters_of d' e rs) (st_epochs ps d') (st_epochIndex ps d')" for d'
    using store_slots_mono[OF ok] by (simp add: store_slots_def)
  note all = this
  show ?thesis using PSeal all slots_ok_seal[OF all] by (simp add: store_slots_def SealEpoch_def split: option.split)
qed (simp_all add: store_slots_same[OF ok])

lemma store_slots_run:
  "store_slots k rs ps \<Longrightarrow> k + length ops < 2 ^ 64 \<Longrightarrow>
     store_slots (k + length ops) (rs @ fst (prekey_run L ops ps)) (snd (prekey_run L ops ps))"
proof (induction ops arbitrary: k rs ps)
  case (Cons op ops)
  have "store_slots (Suc k) (rs @ fst (prekey_step L op ps)) (snd (prekey_step L op ps))"
    using Cons.prems by (intro store_slots_step) auto
  from Cons.IH[OF this] Cons.prems show ?case by (simp add: case_prod_beta Let_def)
qed simp

lemma store_slots_new: "store_slots 0 [] (NewPrekeyStore b)"
  by (simp add: store_slots_def slots_ok_def NewPrekeyStore_def)

text \<open>
  C8. A counter is never used twice under one mailbox key, and none is skipped. However uploads, epoch
  creations, reservations (in any interleaving of their critical sections), sealings and removals
  follow one another, fewer than \<open>2 ^ 64\<close> of them, the counters reserved in any epoch of any device are \<open>1, 2, 3, \<dots>\<close> in that
  order, so that no triple of device, epoch and counter (hence no nonce of an epoch key) is handed out
  twice.
\<close>

theorem frame_counters_unique:
  assumes "length ops < 2 ^ 64" "prekey_run L ops (NewPrekeyStore bridgeID) = (rs, ps)"
  shows "(\<forall>d e. \<exists>m \<le> length ops. counters_of d e rs = counters m)
       \<and> distinct (map (\<lambda>(d, e, c). (d, e, CounterNonce c)) rs)"
proof -
  have ok: "store_slots (length ops) rs ps"
    using store_slots_run[OF store_slots_new, of ops L bridgeID] assms by simp
  have m: "\<exists>m \<le> length ops. counters_of d e rs = counters m" for d e
  proof (cases "\<exists>i < length (st_epochs ps d). e = of_nat i")
    case True
    then show ?thesis using ok unfolding store_slots_def slots_ok_def by blast
  next
    case False
    then have "counters_of d e rs = counters 0" using ok by (auto simp: store_slots_def slots_ok_def)
    then show ?thesis by blast
  qed
  have "distinct (counters_of d e rs)" for d e
    using m[of d e] counters_distinct assms(1) by (metis le_less_trans less_imp_le)
  then have "distinct rs" by (rule distinct_reservations)
  moreover have "inj_on (\<lambda>(d, e, c). (d, e, CounterNonce c)) (set rs)" by (auto simp: inj_on_def CounterNonce_inj)
  ultimately show ?thesis using m by (simp add: distinct_map)
qed

end
