(* ===== verification/Handshake.thy ===== *)
theory Handshake
  imports Relay_Identity
begin

text \<open>
  What the online handshake of \<^verbatim>\<open>go-bridge/relay_identity.go\<close> achieves: the two ends derive the same
  authentication key from their long-term keys and the same traffic keys from the exchange, and
  nobody without the authentication key gets the bridge to complete.
\<close>

section \<open>Lemmas\<close>

lemma derive_traffic_keys_cases:
  assumes "derive_traffic_keys L shared c s resp hs = (r, hs')"
  shows "(\<exists>e. r = Inl e \<and> hs_completed hs' = hs_completed hs \<and> hs_clientHello hs' = hs_clientHello hs)
       \<or> (\<exists>root k1 k2. hkdfDerive L shared (x_sha256 L (c @ s)) (bytes_of onlineTrafficLabel) 32 = Some root
            \<and> hkdfExpand L root (bytes_of iosToMacLabel) trafficKeyLen = Some k1
            \<and> hkdfExpand L root (bytes_of macToIosLabel) trafficKeyLen = Some k2
            \<and> r = Inr resp \<and> hs' = hs\<lparr>hs_iosToMacKey := k1, hs_macToIosKey := k2, hs_clientHello := c,
                                     hs_serverHello := s, hs_completed := True\<rparr>)"
  using assms by (auto simp: derive_traffic_keys_def Let_def split: option.splits)

text \<open>The shape of every successful run of the handshake.\<close>

lemma AcceptClientHello_success:
  assumes "AcceptClientHello L hello hs = (Inr answer, hs')"
  obtains c s pub shared root k1 k2 where
    "canonicalOnlineClientHello L hello = Some c"
    "b64std_decode (cl_AuthTag hello) = Some (hmacSHA256 L (hs_identityAuthKey hs) c)"
    "b64std_decode (cl_IOSEphemeralPublicKey hello) = Some pub" "x_ecdh L (hs_ephemeralPrivate hs) pub = Some shared"
    "canonicalOnlineServerHello L (server_response L hs hello c) = Some s"
    "hkdfDerive L shared (x_sha256 L (c @ s)) (bytes_of onlineTrafficLabel) 32 = Some root"
    "hkdfExpand L root (bytes_of iosToMacLabel) trafficKeyLen = Some k1"
    "hkdfExpand L root (bytes_of macToIosLabel) trafficKeyLen = Some k2"
    "answer = (server_response L hs hello c)\<lparr>sv_AuthTag := b64std_encode (hmacSHA256 L (hs_identityAuthKey hs) s)\<rparr>"
    "hs' = hs\<lparr>hs_iosToMacKey := k1, hs_macToIosKey := k2, hs_clientHello := c, hs_serverHello := s, hs_completed := True\<rparr>"
proof -
  from assms obtain c pub shared s where
    c: "canonicalOnlineClientHello L hello = Some c"
    and tag: "b64std_decode (cl_AuthTag hello) = Some (hmacSHA256 L (hs_identityAuthKey hs) c)"
    and pub: "b64std_decode (cl_IOSEphemeralPublicKey hello) = Some pub" and sh: "x_ecdh L (hs_ephemeralPrivate hs) pub = Some shared"
    and s: "canonicalOnlineServerHello L (server_response L hs hello c) = Some s"
    and d: "derive_traffic_keys L shared c s ((server_response L hs hello c)\<lparr>sv_AuthTag := b64std_encode (hmacSHA256 L (hs_identityAuthKey hs) s)\<rparr>) hs = (Inr answer, hs')"
    by (auto simp: AcceptClientHello_def Let_def split: option.splits if_splits)
  from derive_traffic_keys_cases[OF d] that[OF c tag pub sh s] show ?thesis by blast
qed

lemma AcceptClientHello_failure:
  assumes "AcceptClientHello L hello hs = (Inl e, hs')"
  shows "hs_completed hs' = hs_completed hs"
  using assms by (auto simp: AcceptClientHello_def Let_def split: option.splits if_splits dest!: derive_traffic_keys_cases)

lemma canonical_server_tag [simp]:
  "canonicalOnlineServerHello L (h\<lparr>sv_AuthTag := t\<rparr>) = canonicalOnlineServerHello L h"
  by (simp add: canonicalOnlineServerHello_def)

lemma server_response_simps [simp]:
  "sv_BridgeID (server_response L hs hello c) = cl_BridgeID hello" "sv_DeviceID (server_response L hs hello c) = cl_DeviceID hello"
  "sv_ChannelGeneration (server_response L hs hello c) = cl_ChannelGeneration hello"
  "sv_ClientHelloHash (server_response L hs hello c) = b64std_encode (x_sha256 L c)"
  "sv_MacEphemeralPublicKey (server_response L hs hello c) = b64std_encode (hs_ephemeralPublic hs)"
  "sv_KeyEpochID (server_response L hs hello c) = online_epoch (cl_ChannelGeneration hello)"
  by (simp_all add: server_response_def)

lemma hkdf_total: "hkdf_ok L \<Longrightarrow> n \<le> 8160 \<Longrightarrow> \<exists>k. hkdfExpand L s i n = Some k \<and> length k = n"
  and hkdf_derive_total: "hkdf_ok L \<Longrightarrow> n \<le> 8160 \<Longrightarrow> \<exists>k. hkdfDerive L s t i n = Some k \<and> length k = n"
  by (simp_all add: hkdf_ok_def hkdfExpand_def hkdfDerive_def)


section \<open>Properties\<close>

text \<open>
  C10. The two ends agree. Let the bridge and the device derive the authentication key, each from its
  own long-term key and the other's public key; let the device send a hello tagged under the key it
  derived, carrying the public part of a fresh key. Then the bridge derives the same authentication
  key, completes the handshake, sets two 32-byte traffic keys, and the device, computing from its
  private key and the two hellos, gets the same two keys, in the same roles; the answer passes the
  device's checks.
\<close>

theorem handshake_agreement:
  assumes "exchange_ok L" "hkdf_ok L"
    and "\<And>v. x_json L v \<noteq> None" "\<And>a b. x_ecdh L a (x_public L b) \<noteq> None"
    and "DeriveIdentityAuthKey L (x_public L bridgePriv) bridgeID deviceID \<lparr>ci_privateKey = devicePriv, ci_publicKey = x_public L devicePriv\<rparr> = Inr devKey"
    and "hs_ephemeralPublic hs = x_public L (hs_ephemeralPrivate hs)"
    and "DeriveIdentityAuthKey L (x_public L devicePriv) bridgeID deviceID \<lparr>ci_privateKey = bridgePriv, ci_publicKey = x_public L bridgePriv\<rparr> = Inr (hs_identityAuthKey hs)"
    and "cl_IOSEphemeralPublicKey hello = b64std_encode (x_public L ephPriv)"
    and "canonicalOnlineClientHello L hello = Some c" "cl_AuthTag hello = b64std_encode (hmacSHA256 L devKey c)"
  shows "\<exists>answer hs'. AcceptClientHello L hello hs = (Inr answer, hs') \<and> hs_completed hs'
      \<and> client_keys L ephPriv hello answer = Some (hs_iosToMacKey hs', hs_macToIosKey hs')
      \<and> length (hs_iosToMacKey hs') = 32 \<and> length (hs_macToIosKey hs') = 32
      \<and> answer_genuine L devKey hello answer"
proof -
  have ecdh: "x_ecdh L a (x_public L b) = x_ecdh L b (x_public L a)" "x_validPublic L (x_public L a)" for a b
    using assms(1) by (simp_all add: exchange_ok_def)
  have same: "hs_identityAuthKey hs = devKey"
    using assms(5,7) by (simp add: DeriveIdentityAuthKey_def ecdh(1)[of devicePriv] ecdh(2) split: option.splits)
  obtain shared where sh: "x_ecdh L (hs_ephemeralPrivate hs) (x_public L ephPriv) = Some shared" using assms(4) by blast
  obtain s where s: "canonicalOnlineServerHello L (server_response L hs hello c) = Some s"
    using assms(3) unfolding canonicalOnlineServerHello_def by blast
  obtain root where root: "hkdfDerive L shared (x_sha256 L (c @ s)) (bytes_of onlineTrafficLabel) 32 = Some root"
    using hkdf_derive_total[OF assms(2), of 32] by fastforce
  obtain k1 k2 where k: "hkdfExpand L root (bytes_of iosToMacLabel) trafficKeyLen = Some k1" "length k1 = 32"
    "hkdfExpand L root (bytes_of macToIosLabel) trafficKeyLen = Some k2" "length k2 = 32"
    using hkdf_total[OF assms(2), of 32 root "bytes_of iosToMacLabel"] hkdf_total[OF assms(2), of 32 root "bytes_of macToIosLabel"]
    unfolding trafficKeyLen_def by auto
  have "AcceptClientHello L hello hs =
      (Inr ((server_response L hs hello c)\<lparr>sv_AuthTag := b64std_encode (hmacSHA256 L devKey s)\<rparr>),
       hs\<lparr>hs_iosToMacKey := k1, hs_macToIosKey := k2, hs_clientHello := c, hs_serverHello := s, hs_completed := True\<rparr>)"
    using assms(8-10) by (simp add: AcceptClientHello_def derive_traffic_keys_def same ecdh(2) sh s root k)
  then show ?thesis
    using assms(6,9) sh by (simp add: client_keys_def answer_genuine_def s root k ecdh(1)[of ephPriv])
qed

text \<open>
  C11. Only the holder of the authentication key gets through. The bridge completes a handshake only
  for a hello whose tag is the HMAC, under the key of that device, of exactly the fields of that
  hello; the answer repeats the identities and the generation and names the hello by its hash. A hello that
  fails leaves the handshake as incomplete as it was.
\<close>

theorem handshake_authentic:
  assumes "AcceptClientHello L hello hs = (r, hs')"
  shows "case r of
      Inl e \<Rightarrow> hs_completed hs' = hs_completed hs
    | Inr answer \<Rightarrow> (\<exists>c s. canonicalOnlineClientHello L hello = Some c
        \<and> b64std_decode (cl_AuthTag hello) = Some (hmacSHA256 L (hs_identityAuthKey hs) c)
        \<and> canonicalOnlineServerHello L answer = Some s \<and> sv_AuthTag answer = b64std_encode (hmacSHA256 L (hs_identityAuthKey hs) s)
        \<and> sv_ClientHelloHash answer = b64std_encode (x_sha256 L c) \<and> sv_KeyEpochID answer = online_epoch (cl_ChannelGeneration hello)
        \<and> sv_BridgeID answer = cl_BridgeID hello \<and> sv_DeviceID answer = cl_DeviceID hello
        \<and> sv_ChannelGeneration answer = cl_ChannelGeneration hello \<and> hs_completed hs')"
proof (cases r)
  case (Inl e)
  with assms show ?thesis using AcceptClientHello_failure by auto
next
  case (Inr answer)
  with assms show ?thesis by (auto elim!: AcceptClientHello_success)
qed

text \<open>
  The long-term key survives a restart. After a successful load or creation the key file holds the
  32 bytes in use (given a generator that delivers 32), and every later load, whatever the generator and
  the disk do, returns the same identity and leaves the file alone.
\<close>

theorem identity_persistent:
  assumes "LoadOrCreateRelayCryptoIdentity L rnd wr file = (Inr ci, file')" "\<And>k. rnd = Some k \<Longrightarrow> length k = 32"
  shows "file' = Some (ci_privateKey ci) \<and> length (ci_privateKey ci) = 32 \<and> ci_publicKey ci = x_public L (ci_privateKey ci)
       \<and> LoadOrCreateRelayCryptoIdentity L rnd2 wr2 file' = (Inr ci, file')"
proof -
  have "file' = Some (ci_privateKey ci) \<and> length (ci_privateKey ci) = 32 \<and> ci_publicKey ci = x_public L (ci_privateKey ci)"
    using assms by (auto simp: LoadOrCreateRelayCryptoIdentity_def loadX25519PrivateKey_def generateAndSaveX25519PrivateKey_def
        split: option.splits if_splits)
  then show ?thesis by (simp add: LoadOrCreateRelayCryptoIdentity_def loadX25519PrivateKey_def)
qed


section \<open>Witnesses\<close>

text \<open>Primitives with the promised laws: the exchange adds checksums, the tag and the hash keep their input.\<close>

fun demo_value :: "header_value \<Rightarrow> bytes" where
  "demo_value (HStr s) = 1 # bytes_of s"
| "demo_value (HInt i) = [2, of_int i]"
| "demo_value (HArr vs) = 3 # concat (map demo_value vs)"
| "demo_value (HObj fs) = 4 # concat (map (\<lambda>f. bytes_of (fst f) @ demo_value (snd f)) fs)"

definition demo_crypto :: crypto_lib where
  "demo_crypto = \<lparr>x_public = (\<lambda>a. a), x_validPublic = (\<lambda>_. True), x_ecdh = (\<lambda>a b. Some [sum_list a + sum_list b]),
     x_hkdf = (\<lambda>s t i n. Some (take n (s @ t @ i @ replicate n 0))), x_hmac = (\<lambda>k d. k @ d), x_sha256 = (\<lambda>d. d),
     x_json = (\<lambda>v. Some (demo_value v))\<rparr>"

lemma demo_crypto_simps [simp]:
  "x_public demo_crypto a = a" "x_validPublic demo_crypto a" "x_ecdh demo_crypto a b = Some [sum_list a + sum_list b]"
  "x_hkdf demo_crypto s t i n = Some (take n (s @ t @ i @ replicate n 0))" "x_hmac demo_crypto k d = k @ d"
  "x_sha256 demo_crypto d = d" "x_json demo_crypto v = Some (demo_value v)"
  by (simp_all add: demo_crypto_def)

lemma demo_crypto_ok: "exchange_ok demo_crypto" "hkdf_ok demo_crypto"
  by (auto simp: exchange_ok_def hkdf_ok_def)

definition demo_authKey :: bytes where
  "demo_authKey = take 32 (7 # bytes_of identityAuthLabel)"

definition demo_client :: OnlineClientHello where
  "demo_client = \<lparr>cl_Type = ''online_client_hello'', cl_BridgeID = ''b'', cl_DeviceID = ''d'', cl_ChannelGeneration = 1,
     cl_IOSEphemeralPublicKey = b64std_encode [9], cl_ClientRandom = ''r'', cl_AuthTag = []\<rparr>"

definition demo_hello_bytes :: bytes where
  "demo_hello_bytes = the (canonicalOnlineClientHello demo_crypto demo_client)"

definition demo_hello :: OnlineClientHello where
  "demo_hello = demo_client\<lparr>cl_AuthTag := b64std_encode (demo_authKey @ demo_hello_bytes)\<rparr>"

definition demo_hs :: OnlineHandshakeState where
  "demo_hs = \<lparr>hs_identityAuthKey = demo_authKey, hs_ephemeralPrivate = [5], hs_ephemeralPublic = [5], hs_serverRandom = [1],
     hs_clientHello = [], hs_serverHello = [], hs_iosToMacKey = [], hs_macToIosKey = [], hs_completed = False\<rparr>"

lemma demo_hello_canonical: "canonicalOnlineClientHello demo_crypto demo_hello = Some demo_hello_bytes"
  by (simp add: demo_hello_bytes_def demo_hello_def canonicalOnlineClientHello_def)

lemma demo_identity: "DeriveIdentityAuthKey demo_crypto [3] ''b'' ''d'' \<lparr>ci_privateKey = [4], ci_publicKey = [4]\<rparr> = Inr demo_authKey"
  "DeriveIdentityAuthKey demo_crypto [4] ''b'' ''d'' \<lparr>ci_privateKey = [3], ci_publicKey = [3]\<rparr> = Inr demo_authKey"
  by (simp_all add: DeriveIdentityAuthKey_def hkdfExpand_def hkdfDerive_def demo_authKey_def identityAuthLabel_def bytes_of_def)

theorem handshake_agreement_witness:
  "\<exists>answer hs'. AcceptClientHello demo_crypto demo_hello demo_hs = (Inr answer, hs') \<and> hs_completed hs'
      \<and> client_keys demo_crypto [9] demo_hello answer = Some (hs_iosToMacKey hs', hs_macToIosKey hs')
      \<and> length (hs_iosToMacKey hs') = 32 \<and> length (hs_macToIosKey hs') = 32
      \<and> answer_genuine demo_crypto demo_authKey demo_hello answer"
proof (rule handshake_agreement[OF demo_crypto_ok, where bridgePriv = "[3]" and devicePriv = "[4]" and bridgeID = "''b''" and deviceID = "''d''"])
  show "cl_IOSEphemeralPublicKey demo_hello = b64std_encode (x_public demo_crypto [9])" by (simp add: demo_hello_def demo_client_def)
  show "cl_AuthTag demo_hello = b64std_encode (hmacSHA256 demo_crypto demo_authKey demo_hello_bytes)"
    by (simp add: demo_hello_def hmacSHA256_def)
qed (simp_all add: demo_identity demo_hs_def demo_hello_canonical)

theorem handshake_authentic_witness:
  "hs_completed (snd (AcceptClientHello demo_crypto demo_client demo_hs)) = hs_completed demo_hs
     \<and> fst (AcceptClientHello demo_crypto demo_client demo_hs) = Inl EClientTag"
proof -
  have "b64std_decode [] = Some []" by (simp add: b64std_decode_def)
  then have f: "AcceptClientHello demo_crypto demo_client demo_hs = (Inl EClientTag, demo_hs)"
    by (simp add: AcceptClientHello_def demo_client_def canonicalOnlineClientHello_def hmacSHA256_def)
  from handshake_authentic[OF f] show ?thesis by (simp add: f)
qed

theorem identity_persistent_witness:
  "LoadOrCreateRelayCryptoIdentity demo_crypto None False (Some (replicate 32 1))
     = (Inr \<lparr>ci_privateKey = replicate 32 1, ci_publicKey = replicate 32 1\<rparr>, Some (replicate 32 1))"
proof -
  have "LoadOrCreateRelayCryptoIdentity demo_crypto (Some (replicate 32 1)) True None
     = (Inr \<lparr>ci_privateKey = replicate 32 1, ci_publicKey = replicate 32 1\<rparr>, Some (replicate 32 1))"
    by (simp add: LoadOrCreateRelayCryptoIdentity_def loadX25519PrivateKey_def generateAndSaveX25519PrivateKey_def)
  from identity_persistent[OF this] show ?thesis by simp
qed

end
