(* ===== verification/Prekey_Chain.thy ===== *)
theory Prekey_Chain
  imports Prekey_Props Handshake
begin

text \<open>
  Uploads and single use of the prekeys, and the chain of delivery epochs.
\<close>

section \<open>Uploads\<close>

lemma validate_items_Some:
  assumes "validate_items L clk i old items = Some new"
  shows "map pk_PrekeyID new = map pi_PrekeyID items" "\<forall>pk \<in> set new. \<not> pk_Consumed pk \<and> length (pk_PublicKey pk) = 32 \<and> pk_PrekeyID pk \<noteq> []"
    "distinct old \<Longrightarrow> distinct (old @ map pk_PrekeyID new)" "map (\<lambda>pk. Some (pk_PublicKey pk)) new = map (\<lambda>it. b64std_decode (pi_PublicKey it)) items"
proof -
  have "map pk_PrekeyID new = map pi_PrekeyID items
      \<and> (\<forall>pk \<in> set new. \<not> pk_Consumed pk \<and> length (pk_PublicKey pk) = 32 \<and> pk_PrekeyID pk \<noteq> [])
      \<and> (distinct old \<longrightarrow> distinct (old @ map pk_PrekeyID new))
      \<and> map (\<lambda>pk. Some (pk_PublicKey pk)) new = map (\<lambda>it. b64std_decode (pi_PublicKey it)) items"
    using assms
  proof (induction L clk i old items arbitrary: new rule: validate_items.induct)
    case (2 L clk i existing item items)
    from 2(2) obtain pub pks where
      c: "pi_PrekeyID item \<noteq> []" "pi_PrekeyID item \<notin> set existing" "b64std_decode (pi_PublicKey item) = Some pub" "length pub = 32"
      "validate_items L clk (Suc i) (pi_PrekeyID item # existing) items = Some pks"
      "new = \<lparr>pk_PrekeyID = pi_PrekeyID item, pk_PublicKey = pub, pk_UploadedAt = clk i, pk_Consumed = False\<rparr> # pks"
      by (auto split: if_splits option.splits)
    note IH = 2(1)[OF c(1,2,3) _ c(5)]
    have d: "distinct (pi_PrekeyID item # existing) \<longrightarrow> distinct ((pi_PrekeyID item # existing) @ map pk_PrekeyID pks)"
      using IH c(4) by blast
    have "distinct existing \<longrightarrow> distinct (existing @ map pk_PrekeyID new)" using d c(2) unfolding c(6) by simp
    moreover have "map pk_PrekeyID new = map pi_PrekeyID (item # items)" using IH c(4,6) by simp
    ultimately show ?case using IH c by auto
  qed simp
  then show "map pk_PrekeyID new = map pi_PrekeyID items"
    "\<forall>pk \<in> set new. \<not> pk_Consumed pk \<and> length (pk_PublicKey pk) = 32 \<and> pk_PrekeyID pk \<noteq> []"
    "distinct old \<Longrightarrow> distinct (old @ map pk_PrekeyID new)"
    "map (\<lambda>pk. Some (pk_PublicKey pk)) new = map (\<lambda>it. b64std_decode (pi_PublicKey it)) items" by blast+
qed

lemma UploadPrekeys_disj:
  assumes "UploadPrekeys L clk b ps = (resp, ps')"
  shows "(ps' = ps \<and> ur_AcceptedCount resp = 0 \<and> (ur_Error resp \<noteq> [] \<or> ur_DuplicateBatchID resp))
       \<or> (\<exists>new. validate_items L clk 0 (map pk_PrekeyID (st_prekeys ps (pb_DeviceID b))) (pb_Prekeys b) = Some new
           \<and> pb_DeviceID b \<noteq> [] \<and> pb_BatchID b \<noteq> [] \<and> pb_Prekeys b \<noteq> []
           \<and> availableCountLocked (pb_DeviceID b) ps + length (pb_Prekeys b) \<le> 64
           \<and> ps' = ps\<lparr>st_prekeys := (st_prekeys ps)(pb_DeviceID b := st_prekeys ps (pb_DeviceID b) @ new),
                      st_processedBatches := (st_processedBatches ps)(pb_BatchID b \<mapsto> pb_DeviceID b)\<rparr>
           \<and> resp = \<lparr>ur_AcceptedCount = length new, ur_TotalAvailable = availableCountLocked (pb_DeviceID b) ps',
                     ur_DuplicateBatchID = False, ur_Error = []\<rparr>)"
  using assms
  by (auto simp: UploadPrekeys_def upload_error_def prekeyMaxCount_def Let_def not_less split: option.splits if_splits)

lemma UploadPrekeys_cases [consumes 2, case_names refused accepted]:
  assumes "UploadPrekeys L clk b ps = (resp, ps')" "d = pb_DeviceID b"
  obtains "ps' = ps" "ur_AcceptedCount resp = 0" "ur_Error resp \<noteq> [] \<or> ur_DuplicateBatchID resp"
  | new where "validate_items L clk 0 (map pk_PrekeyID (st_prekeys ps d)) (pb_Prekeys b) = Some new"
      "d \<noteq> []" "pb_BatchID b \<noteq> []" "pb_Prekeys b \<noteq> []" "availableCountLocked d ps + length (pb_Prekeys b) \<le> 64"
      "ps' = ps\<lparr>st_prekeys := (st_prekeys ps)(d := st_prekeys ps d @ new), st_processedBatches := (st_processedBatches ps)(pb_BatchID b \<mapsto> d)\<rparr>"
      "resp = \<lparr>ur_AcceptedCount = length new, ur_TotalAvailable = availableCountLocked d ps', ur_DuplicateBatchID = False, ur_Error = []\<rparr>"
proof -
  from UploadPrekeys_disj[OF assms(1), folded assms(2)] show thesis
  proof (elim disjE exE conjE)
    assume "ps' = ps" "ur_AcceptedCount resp = 0" "ur_Error resp \<noteq> []"
    then show thesis by (intro that(1)) simp_all
  next
    assume "ps' = ps" "ur_AcceptedCount resp = 0" "ur_DuplicateBatchID resp"
    then show thesis by (intro that(1)) simp_all
  qed (rule that(2))
qed

lemma available_after:
  "\<forall>pk \<in> set new. \<not> pk_Consumed pk \<Longrightarrow>
   availableCountLocked d (ps\<lparr>st_prekeys := (st_prekeys ps)(d := st_prekeys ps d @ new), st_processedBatches := B\<rparr>)
     = availableCountLocked d ps + length new"
  by (simp add: availableCountLocked_def)

text \<open>
  A batch is taken whole or not at all. Either the upload changes nothing and accepts nothing,
  with an error or because this device's batch was processed before, or every key of the batch is
  added, in order, decoded to 32 bytes, unconsumed, with its identifier new to the device, the answer counts them, and
  the device has at most 64 keys available. Sending the same batch again is answered as a duplicate and changes nothing.
\<close>

theorem upload_all_or_nothing:
  assumes "UploadPrekeys L clk b ps = (resp, ps')" "d = pb_DeviceID b" "distinct (map pk_PrekeyID (st_prekeys ps d))"
  shows "(ps' = ps \<and> ur_AcceptedCount resp = 0 \<and> (ur_Error resp \<noteq> [] \<or> ur_DuplicateBatchID resp))
       \<or> (\<exists>new. st_prekeys ps' = (st_prekeys ps)(d := st_prekeys ps d @ new)
           \<and> map pk_PrekeyID new = map pi_PrekeyID (pb_Prekeys b) \<and> distinct (map pk_PrekeyID (st_prekeys ps' d))
           \<and> map (\<lambda>pk. Some (pk_PublicKey pk)) new = map (\<lambda>it. b64std_decode (pi_PublicKey it)) (pb_Prekeys b)
           \<and> (\<forall>pk \<in> set new. \<not> pk_Consumed pk \<and> length (pk_PublicKey pk) = 32)
           \<and> ur_AcceptedCount resp = length (pb_Prekeys b)
           \<and> ur_TotalAvailable resp = availableCountLocked d ps + length (pb_Prekeys b) \<and> ur_TotalAvailable resp \<le> 64
           \<and> (\<forall>clk2 ps2. st_processedBatches ps2 (pb_BatchID b) = st_processedBatches ps' (pb_BatchID b) \<longrightarrow>
                ur_DuplicateBatchID (fst (UploadPrekeys L clk2 b ps2)) \<and> snd (UploadPrekeys L clk2 b ps2) = ps2))"
proof -
  show ?thesis
  using assms(1,2)
  proof (cases rule: UploadPrekeys_cases)
    case refused
    then show ?thesis by blast
  next
    case 2: (accepted new)
    note v = validate_items_Some[OF 2(1)]
    have len: "length new = length (pb_Prekeys b)" using v(1) by (metis length_map)
    have av: "availableCountLocked d ps' = availableCountLocked d ps + length new"
      unfolding 2(6) by (rule available_after) (use v(2) in blast)
    have "ur_DuplicateBatchID (fst (UploadPrekeys L clk2 b ps2)) \<and> snd (UploadPrekeys L clk2 b ps2) = ps2"
      if "st_processedBatches ps2 (pb_BatchID b) = st_processedBatches ps' (pb_BatchID b)" for clk2 ps2
      using that 2(2-4,6) assms(2) by (simp add: UploadPrekeys_def Let_def)
    then have "\<forall>clk2 ps2. st_processedBatches ps2 (pb_BatchID b) = st_processedBatches ps' (pb_BatchID b) \<longrightarrow>
        ur_DuplicateBatchID (fst (UploadPrekeys L clk2 b ps2)) \<and> snd (UploadPrekeys L clk2 b ps2) = ps2" by blast
    moreover have "distinct (map pk_PrekeyID (st_prekeys ps' d))" using v(3) assms(3) 2(6) by simp
    moreover have "st_prekeys ps' = (st_prekeys ps)(d := st_prekeys ps d @ new)" using 2(6) by simp
    moreover have "\<forall>pk \<in> set new. \<not> pk_Consumed pk \<and> length (pk_PublicKey pk) = 32" using v(2) by blast
    ultimately show ?thesis using v(1,4) 2(5,7) av len by auto
  qed
qed


section \<open>Single use\<close>

text \<open>
  One device: identifiers are distinct, the consumed keys come first, and the epochs consumed them in
  that order.
\<close>

definition used_ok :: "DeliveryPrekey list \<Rightarrow> DeliveryEpoch list \<Rightarrow> bool" where
  "used_ok pks eps \<longleftrightarrow> distinct (map pk_PrekeyID pks)
     \<and> pks = filter pk_Consumed pks @ filter (\<lambda>pk. \<not> pk_Consumed pk) pks
     \<and> map de_PrekeyID eps = map pk_PrekeyID (filter pk_Consumed pks)
     \<and> length (filter (\<lambda>pk. \<not> pk_Consumed pk) pks) \<le> 64"

lemma take_prekey_split:
  "\<forall>pk \<in> set c. pk_Consumed pk \<Longrightarrow> \<not> pk_Consumed pk \<Longrightarrow>
   take_prekey (c @ pk # u) = Some (pk, c @ pk\<lparr>pk_Consumed := True\<rparr> # u)"
  by (induction c) auto

lemma take_prekey_None: "take_prekey pks = None \<longleftrightarrow> (\<forall>pk \<in> set pks. pk_Consumed pk)"
  by (induction pks) (auto split: option.splits)

lemma take_prekey_first:
  "take_prekey pks = Some (pk, marked) \<Longrightarrow>
   \<exists>c u. pks = c @ pk # u \<and> (\<forall>x \<in> set c. pk_Consumed x) \<and> \<not> pk_Consumed pk \<and> marked = c @ pk\<lparr>pk_Consumed := True\<rparr> # u"
proof (induction pks arbitrary: marked)
  case (Cons x pks)
  show ?case
  proof (cases "pk_Consumed x")
    case True
    then obtain rest where "take_prekey pks = Some (pk, rest)" "marked = x # rest"
      using Cons.prems by (auto split: option.splits)
    with Cons.IH[OF this(1)] True show ?thesis by (metis append_Cons set_ConsD)
  next
    case False
    then have "x = pk" "marked = x\<lparr>pk_Consumed := True\<rparr> # pks" using Cons.prems by auto
    then show ?thesis using False by (intro exI[of _ "[]"] exI[of _ pks]) simp
  qed
qed simp

lemma used_ok_consume:
  assumes ok: "used_ok pks eps" and t: "take_prekey pks = Some (pk, marked)" and e: "de_PrekeyID ep = pk_PrekeyID pk"
  shows "used_ok marked (eps @ [ep])"
proof -
  obtain c u where cu: "pks = c @ pk # u" "\<forall>x \<in> set c. pk_Consumed x" "\<not> pk_Consumed pk" "marked = c @ pk\<lparr>pk_Consumed := True\<rparr> # u"
    using take_prekey_first[OF t] by blast
  have fc: "filter pk_Consumed c = c" "filter (\<lambda>x. \<not> pk_Consumed x) c = []" using cu(2) by (simp_all add: filter_id_conv filter_empty_conv)
  have "pks = c @ filter pk_Consumed u @ pk # filter (\<lambda>x. \<not> pk_Consumed x) u"
    using ok cu fc by (simp add: used_ok_def)
  then have "pk # u = filter pk_Consumed u @ pk # filter (\<lambda>x. \<not> pk_Consumed x) u" using cu(1) by simp
  then have u: "filter pk_Consumed u = []"
    using cu(3) by (cases "filter pk_Consumed u") (auto dest: filter_eq_ConsD)
  then have "filter (\<lambda>x. \<not> pk_Consumed x) u = u" by (auto simp: filter_id_conv filter_empty_conv)
  then show ?thesis using ok cu fc u e by (simp add: used_ok_def)
qed

lemma used_ok_upload:
  assumes "used_ok pks eps" "\<forall>pk \<in> set new. \<not> pk_Consumed pk" "distinct (map pk_PrekeyID pks @ map pk_PrekeyID new)"
    "length (filter (\<lambda>pk. \<not> pk_Consumed pk) pks) + length new \<le> 64"
  shows "used_ok (pks @ new) eps"
proof -
  have n: "filter pk_Consumed new = []" "filter (\<lambda>pk. \<not> pk_Consumed pk) new = new"
    using assms(2) by (simp_all add: filter_id_conv filter_empty_conv)
  have "pks @ new = filter pk_Consumed pks @ filter (\<lambda>pk. \<not> pk_Consumed pk) pks @ new"
    using assms(1) by (metis append.assoc used_ok_def)
  then show ?thesis using assms n by (simp add: used_ok_def)
qed

lemma used_ok_epochs: "map de_PrekeyID eps' = map de_PrekeyID eps \<Longrightarrow> used_ok pks eps' \<longleftrightarrow> used_ok pks eps"
  by (simp add: used_ok_def)

lemma map_list_update_same: "i < length xs \<Longrightarrow> f y = f (xs ! i) \<Longrightarrow> map f (xs[i := y]) = map f xs"
  by (metis length_map list_update_id map_update nth_map)

definition is_removal :: "prekey_op \<Rightarrow> bool" where
  "is_removal op \<longleftrightarrow> (case op of PRemove _ \<Rightarrow> True | _ \<Rightarrow> False)"

lemma setters_keep_prekeys [simp]:
  "st_prekeys (SetBridgeID b ps) = st_prekeys ps" "st_prekeys (SetIdentityAuthKeyFactory f ps) = st_prekeys ps"
  by (simp_all add: SetBridgeID_def SetIdentityAuthKeyFactory_def)

lemma used_ok_step:
  assumes ok: "\<And>d. used_ok (st_prekeys ps d) (st_epochs ps d)" and "\<not> is_removal op"
  shows "used_ok (st_prekeys (snd (prekey_step L op ps)) d) (st_epochs (snd (prekey_step L op ps)) d)"
proof (cases op)
  case (PUpload clk b)
  obtain resp ps' where u: "UploadPrekeys L clk b ps = (resp, ps')" by (meson surj_pair)
  show ?thesis
  using u refl
  proof (cases rule: UploadPrekeys_cases)
    case 2: (accepted new)
    note v = validate_items_Some[OF 2(1)]
    have len: "length new = length (pb_Prekeys b)" using v(1) by (metis length_map)
    have "distinct (map pk_PrekeyID (st_prekeys ps (pb_DeviceID b)))" using ok by (simp add: used_ok_def)
    then have "used_ok (st_prekeys ps (pb_DeviceID b) @ new) (st_epochs ps (pb_DeviceID b))"
      using v(2,3) 2(5) len by (intro used_ok_upload[OF ok]) (auto simp: availableCountLocked_def)
    then show ?thesis using ok 2 PUpload u by simp
  qed (use ok PUpload u in simp)
next
  case (PConsume rnd now d0)
  obtain r ps' where c: "ConsumePrekey L rnd now d0 ps = (r, ps')" by (meson surj_pair)
  show ?thesis
  proof (cases r)
    case (Inl e)
    then have "ps' = ps" using c ConsumePrekey_failure by blast
    then show ?thesis using ok PConsume c by simp
  next
    case (Inr epoch)
    from c[unfolded Inr] obtain pk marked where "take_prekey (st_prekeys ps d0) = Some (pk, marked)" "de_PrekeyID epoch = pk_PrekeyID pk"
      "st_prekeys ps' = (st_prekeys ps)(d0 := marked)" "st_epochs ps' = (st_epochs ps)(d0 := st_epochs ps d0 @ [epoch])"
      by (auto elim!: ConsumePrekey_success)
    then show ?thesis using ok PConsume c used_ok_consume[OF ok] by simp
  qed
next
  case (PReserve d0)
  show ?thesis
  proof (cases "activeEpochLocked d0 ps")
    case (Some i)
    define eps where "eps = st_epochs ps d0"
    have "i < length eps" using activeEpochLocked_Some[OF Some] by (simp add: eps_def)
    then have "map de_PrekeyID (eps[i := (eps ! i)\<lparr>de_LastCounter := c, de_FrameCount := z\<rparr>]) = map de_PrekeyID eps" for c z
      by (simp add: map_list_update_same)
    then have "used_ok (st_prekeys ps d0) (eps[i := (eps ! i)\<lparr>de_LastCounter := c, de_FrameCount := z\<rparr>])" for c z
      using ok[of d0] used_ok_epochs eps_def by metis
    then show ?thesis using PReserve Some ok by (simp add: reserve_active_def Let_def eps_def)
  qed (use PReserve ok in \<open>simp add: reserve_active_def\<close>)
next
  case (PSeal d0 i c z)
  show ?thesis
  proof (cases "seal_first i c z (st_epochs ps d0)")
    case (Some eps')
    then have "map de_PrekeyID eps' = map de_PrekeyID (st_epochs ps d0)"
      using seal_first_shape[OF Some] by (auto simp: map_list_update_same)
    from used_ok_epochs[OF this, of "st_prekeys ps d0"] show ?thesis using PSeal Some ok by (simp add: SealEpoch_def)
  qed (use PSeal ok in \<open>simp add: SealEpoch_def\<close>)
qed (use ok assms(2) in \<open>simp_all add: is_removal_def\<close>)

lemma used_ok_run:
  "(\<And>d. used_ok (st_prekeys ps d) (st_epochs ps d)) \<Longrightarrow> \<forall>op \<in> set ops. \<not> is_removal op \<Longrightarrow>
   used_ok (st_prekeys (snd (prekey_run L ops ps)) d) (st_epochs (snd (prekey_run L ops ps)) d)"
proof (induction ops arbitrary: ps)
  case (Cons op ops)
  have "used_ok (st_prekeys (snd (prekey_step L op ps)) d) (st_epochs (snd (prekey_step L op ps)) d)" for d
    using Cons.prems by (intro used_ok_step) auto
  from Cons.IH[OF this] Cons.prems show ?case by (simp add: case_prod_beta Let_def)
qed simp

text \<open>
  A prekey opens at most one epoch. In every run of the store's critical sections in which no
  consumed keys are removed, the epochs of a device were opened with its keys in the order of their upload, each consumed
  key exactly once and no key that is still available, and never more than 64 keys are available.
\<close>

theorem prekey_single_use:
  assumes "\<forall>op \<in> set ops. \<not> is_removal op" "prekey_run L ops (NewPrekeyStore bridgeID) = (rs, ps)"
  shows "distinct (map de_PrekeyID (st_epochs ps d))
       \<and> map de_PrekeyID (st_epochs ps d) = map pk_PrekeyID (takeWhile pk_Consumed (st_prekeys ps d))
       \<and> (\<forall>pk \<in> set (st_prekeys ps d). \<not> pk_Consumed pk \<longrightarrow> pk_PrekeyID pk \<notin> de_PrekeyID ` set (st_epochs ps d))
       \<and> availableCountLocked d ps \<le> 64"
proof -
  define pks where "pks = st_prekeys ps d"
  have "used_ok pks (st_epochs ps d)"
    using used_ok_run[of "NewPrekeyStore bridgeID" ops L d] assms by (simp add: used_ok_def NewPrekeyStore_def pks_def)
  then have u: "distinct (map pk_PrekeyID pks)" "pks = filter pk_Consumed pks @ filter (\<lambda>pk. \<not> pk_Consumed pk) pks"
    "map de_PrekeyID (st_epochs ps d) = map pk_PrekeyID (filter pk_Consumed pks)"
    "length (filter (\<lambda>pk. \<not> pk_Consumed pk) pks) \<le> 64" by (simp_all add: used_ok_def)
  have "takeWhile pk_Consumed (filter pk_Consumed pks @ filter (\<lambda>pk. \<not> pk_Consumed pk) pks) = filter pk_Consumed pks"
    by (cases "filter (\<lambda>pk. \<not> pk_Consumed pk) pks") (auto simp: takeWhile_append dest: filter_eq_ConsD)
  then have "takeWhile pk_Consumed pks = filter pk_Consumed pks" using u(2) by metis
  moreover have "distinct (map pk_PrekeyID (filter pk_Consumed pks))" using u(1) by (rule distinct_map_filter)
  moreover have "pk_PrekeyID pk \<notin> pk_PrekeyID ` set (filter pk_Consumed pks)" if "pk \<in> set pks" "\<not> pk_Consumed pk" for pk
    using u(1) that by (auto simp: distinct_map inj_on_def)
  moreover have "de_PrekeyID ` set (st_epochs ps d) = pk_PrekeyID ` set (filter pk_Consumed pks)" using u(3) by (metis set_map)
  ultimately show ?thesis using u(3,4) by (simp add: pks_def availableCountLocked_def)
qed

section \<open>The chain\<close>

text \<open>Every epoch but the last is sealed, and each names the digest of the one before.\<close>

fun chain_ok :: "crypto_lib \<Rightarrow> DeliveryEpoch list \<Rightarrow> bool" where
  "chain_ok L (a # b # eps) \<longleftrightarrow> de_Sealed a \<and> de_PreviousEpochDigest b = epoch_digest L a \<and> chain_ok L (b # eps)"
| "chain_ok L _ \<longleftrightarrow> True"

lemma chain_ok_snoc:
  "chain_ok L (eps @ [e]) \<longleftrightarrow>
     chain_ok L eps \<and> (eps \<noteq> [] \<longrightarrow> de_Sealed (last eps) \<and> de_PreviousEpochDigest e = epoch_digest L (last eps))"
  by (induction L eps rule: chain_ok.induct) auto

lemma chain_ok_open_last: "chain_ok L eps \<Longrightarrow> i < length eps \<Longrightarrow> \<not> de_Sealed (eps ! i) \<Longrightarrow> Suc i = length eps"
proof (induction L eps arbitrary: i rule: chain_ok.induct)
  case (1 L a b eps)
  then show ?case by (cases i) auto
qed auto

lemma chain_ok_update_last:
  assumes "chain_ok L eps" "i < length eps" "\<not> de_Sealed (eps ! i)" "de_PreviousEpochDigest e = de_PreviousEpochDigest (eps ! i)"
  shows "chain_ok L (eps[i := e])"
proof -
  have i: "Suc i = length eps" using chain_ok_open_last assms by blast
  then obtain fs x where fs: "eps = fs @ [x]" by (metis length_0_conv nat.distinct(1) rev_exhaust)
  then have "eps[i := e] = fs @ [e]" "eps ! i = x" using i by (simp_all add: list_update_append)
  then show ?thesis using assms(1,4) fs by (simp add: chain_ok_snoc)
qed

lemma VerifyDeliveryChain_snoc:
  "VerifyDeliveryChain (xs @ [y]) \<longleftrightarrow> VerifyDeliveryChain xs \<and> (xs \<noteq> [] \<longrightarrow> ch_PreviousEpochDigest y = ch_EpochDigest (last xs))"
  by (induction xs rule: VerifyDeliveryChain.induct) auto

lemma chain_ok_verifies:
  "chain_ok L eps \<Longrightarrow> VerifyDeliveryChain (map (chain_head L) (filter de_Sealed eps))"
proof (induction eps rule: rev_induct)
  case (snoc e eps)
  have "filter de_Sealed eps = eps"
  proof -
    have "de_Sealed y" if "y \<in> set eps" for y
    proof -
      obtain i where "i < length eps" "y = eps ! i" using \<open>y \<in> set eps\<close> by (metis in_set_conv_nth)
      then show ?thesis using chain_ok_open_last[OF snoc.prems, of i] by (auto simp: nth_append)
    qed
    then show ?thesis by (simp add: filter_id_conv)
  qed
  then show ?case using snoc by (auto simp: chain_ok_snoc VerifyDeliveryChain_snoc chain_head_def last_map)
qed simp

lemma find_rev_last: "find P (rev xs) = (if filter P xs = [] then None else Some (last (filter P xs)))"
  by (induction xs rule: rev_induct) auto

text \<open>
  Whole operations one after another: a reservation is not interrupted.
\<close>

datatype whole_op =
    WUpload "nat \<Rightarrow> gotime" PrekeyUploadBatch
  | WReserve "bytes option" gotime string
  | WSeal string "64 word" "64 word" int
  | WRemove string
  | WBridgeID string
  | WFactory "(string \<Rightarrow> bytes option) option"

fun whole_step :: "crypto_lib \<Rightarrow> whole_op \<Rightarrow> PrekeyStore \<Rightarrow> PrekeyStore" where
  "whole_step L (WUpload clk batch) ps = snd (UploadPrekeys L clk batch ps)"
| "whole_step L (WReserve rnd now d) ps = snd (ReserveNextFrameCounter L rnd now d ps)"
| "whole_step L (WSeal d i c n) ps = snd (SealEpoch d i c n ps)"
| "whole_step L (WRemove d) ps = snd (RemoveConsumedPrekeys d ps)"
| "whole_step L (WBridgeID b) ps = SetBridgeID b ps"
| "whole_step L (WFactory f) ps = SetIdentityAuthKeyFactory f ps"

definition chain_inv :: "crypto_lib \<Rightarrow> DeliveryEpoch list \<Rightarrow> bool" where
  "chain_inv L eps \<longleftrightarrow> chain_ok L eps \<and> (\<forall>ep \<in> set eps. \<not> de_Sealed ep \<longrightarrow> de_MacToIosMailboxKey ep \<noteq> [])"

lemma chain_inv_update:
  assumes "chain_inv L eps" "i < length eps" "\<not> de_Sealed (eps ! i)" "de_PreviousEpochDigest e = de_PreviousEpochDigest (eps ! i)"
    and "de_Sealed e \<or> de_MacToIosMailboxKey e \<noteq> []"
  shows "chain_inv L (eps[i := e])"
  using assms chain_ok_update_last[of L eps i e] set_update_subset_insert[of eps i e] unfolding chain_inv_def by blast

lemma hkdfExpand_length: "hkdf_ok L \<Longrightarrow> n \<le> 8160 \<Longrightarrow> hkdfExpand L s i n = Some k \<Longrightarrow> length k = n"
  unfolding hkdf_ok_def hkdfExpand_def hkdfDerive_def by (metis option.inject)

lemma derive_mailbox_key_length: "hkdf_ok L \<Longrightarrow> derive_mailbox_key L s c = Some k \<Longrightarrow> length k = 32"
  using hkdfExpand_length[of L 32] by (auto simp: derive_mailbox_key_def split: option.splits)

lemma chain_inv_consume:
  assumes "hkdf_ok L" "ConsumePrekey L rnd now d ps = (Inr epoch, ps')" "chain_inv L (st_epochs ps d)" "activeEpochLocked d ps = None"
  shows "chain_inv L (st_epochs ps d @ [epoch])"
proof -
  have sealed: "de_Sealed ep" if "ep \<in> set (st_epochs ps d)" for ep
    using assms(3,4) that by (auto simp: chain_inv_def activeEpochLocked_None is_active_def)
  have p: "de_PreviousEpochDigest epoch = previous_digest L (st_epochs ps d)" "length (de_MacToIosMailboxKey epoch) = 32"
    using assms(1,2) by (auto elim!: ConsumePrekey_success dest: derive_mailbox_key_length)
  then have "de_MacToIosMailboxKey epoch \<noteq> []" by auto
  then show ?thesis using assms(3) p(1) sealed by (auto simp: chain_inv_def chain_ok_snoc previous_digest_def)
qed

lemma chain_inv_reserve:
  assumes "chain_inv L (st_epochs ps d)"
  shows "chain_inv L (st_epochs (snd (reserve_active d ps)) d)"
proof (cases "activeEpochLocked d ps")
  case (Some i)
  note a = activeEpochLocked_Some[OF Some]
  have "chain_inv L ((st_epochs ps d)[i := (st_epochs ps d ! i)\<lparr>de_LastCounter := c, de_FrameCount := z\<rparr>])" for c z
    using assms a by (intro chain_inv_update) simp_all
  then show ?thesis by (simp add: reserve_active_def Some Let_def)
qed (use assms in \<open>simp add: reserve_active_def\<close>)

lemma reserve_other [simp]: "d' \<noteq> d \<Longrightarrow> st_epochs (snd (reserve_active d ps)) d' = st_epochs ps d'"
  by (simp add: reserve_active_def Let_def split: option.split)

lemma chain_inv_step:
  assumes L: "hkdf_ok L" and ok: "\<And>d. chain_inv L (st_epochs ps d)"
  shows "chain_inv L (st_epochs (whole_step L op ps) d)"
proof (cases op)
  case (WReserve rnd now d0)
  show ?thesis
  proof (cases "activeEpochLocked d0 ps")
    case None
    obtain r ps' where c: "ConsumePrekey L rnd now d0 ps = (r, ps')" by (meson surj_pair)
    show ?thesis
    proof (cases r)
      case (Inl e)
      then have "ps' = ps" using c ConsumePrekey_failure by blast
      then show ?thesis using WReserve None c Inl ok by (simp add: ReserveNextFrameCounter_def)
    next
      case (Inr epoch)
      note s = c[unfolded Inr]
      have "st_epochs ps' = (st_epochs ps)(d0 := st_epochs ps d0 @ [epoch])" using s by (auto elim!: ConsumePrekey_success)
      then have "chain_inv L (st_epochs ps' d)" for d using ok chain_inv_consume[OF L s ok None] by simp
      then have "chain_inv L (st_epochs (snd (reserve_active d0 ps')) d)"
        using chain_inv_reserve[of L ps' d0] by (cases "d = d0") simp_all
      then show ?thesis using WReserve None s by (simp add: ReserveNextFrameCounter_def)
    qed
  next
    case (Some i)
    then show ?thesis using WReserve ok chain_inv_reserve[of L ps d0] by (cases "d = d0") (simp_all add: ReserveNextFrameCounter_def)
  qed
next
  case (WSeal d0 idx c z)
  show ?thesis
  proof (cases "seal_first idx c z (st_epochs ps d0)")
    case (Some eps')
    then have "chain_inv L eps'"
      using seal_first_shape[OF Some] ok[of d0] by (auto intro!: chain_inv_update)
    then show ?thesis using WSeal Some ok by (simp add: SealEpoch_def)
  qed (use WSeal ok in \<open>simp add: SealEpoch_def\<close>)
qed (use ok in simp_all)

lemma chain_inv_run:
  "hkdf_ok L \<Longrightarrow> (\<And>d. chain_inv L (st_epochs ps d)) \<Longrightarrow> chain_inv L (st_epochs (fold (whole_step L) ops ps) d)"
proof (induction ops arbitrary: ps)
  case (Cons op ops)
  then show ?case using chain_inv_step[of L ps op] by simp
qed simp

text \<open>
  C20. The sealed epochs of a device form a chain the device can verify. After any sequence of uploads,
  reservations, sealings and removals, carried out one after another, the heads of the sealed epochs in order pass
  \<^verbatim>\<open>VerifyDeliveryChain\<close>, at most the last epoch is open, and \<^verbatim>\<open>GetDeliveryChainHead\<close> returns the last
  link of that chain.
\<close>

theorem delivery_chain_verifies:
  assumes "hkdf_ok L" "ps = fold (whole_step L) ops (NewPrekeyStore bridgeID)"
    and "links = map (chain_head L) (filter de_Sealed (st_epochs ps d))"
  shows "VerifyDeliveryChain links \<and> GetDeliveryChainHead L d ps = (if links = [] then None else Some (last links))
       \<and> (\<forall>i. Suc i < length (st_epochs ps d) \<longrightarrow> de_Sealed (st_epochs ps d ! i))"
proof -
  have inv: "chain_inv L (st_epochs ps d)"
    using chain_inv_run[OF assms(1), of "NewPrekeyStore bridgeID" ops d] assms(2) by (simp add: chain_inv_def NewPrekeyStore_def)
  then have "VerifyDeliveryChain links" using chain_ok_verifies by (simp add: assms(3) chain_inv_def)
  moreover have "GetDeliveryChainHead L d ps = (if links = [] then None else Some (last links))"
    by (simp add: GetDeliveryChainHead_def find_rev_last assms(3) last_map)
  moreover have "de_Sealed (st_epochs ps d ! i)" if "Suc i < length (st_epochs ps d)" for i
    using inv chain_ok_open_last[of L "st_epochs ps d" i] that by (auto simp: chain_inv_def)
  ultimately show ?thesis by blast
qed

text \<open>
  Reservations that overlap break the chain: when a second reservation looks for an open epoch before
  the first has created one, both create an epoch, the second names no predecessor, and whatever is
  sealed later the device refuses the two as consecutive links.
\<close>

theorem overlapping_reservations_break_chain:
  assumes "ConsumePrekey L rnd1 now1 d ps = (Inr e1, ps1)" "ConsumePrekey L rnd2 now2 d ps1 = (Inr e2, ps2)"
    and "\<And>b. x_sha256 L b \<noteq> []" "de_PreviousEpochDigest s2 = de_PreviousEpochDigest e2"
  shows "\<not> VerifyDeliveryChain [chain_head L s1, chain_head L s2]"
proof -
  have "de_Sealed e1 = False" "st_epochs ps1 d = st_epochs ps d @ [e1]" using assms(1) by (auto elim!: ConsumePrekey_success)
  then have "de_PreviousEpochDigest e2 = []" using assms(2) by (auto elim!: ConsumePrekey_success simp: previous_digest_def)
  moreover have "b64std_encode b \<noteq> []" if "b \<noteq> []" for b using that by (cases b rule: b64std_encode.cases) (simp_all add: Let_def)
  moreover have "computeEpochDigest L s1 \<noteq> []" using assms(3) by (simp add: computeEpochDigest_def Let_def)
  ultimately have "epoch_digest L s1 \<noteq> de_PreviousEpochDigest s2" using assms(4) by (simp add: epoch_digest_def)
  then show ?thesis by (simp add: chain_head_def)
qed


section \<open>Witnesses\<close>

definition demo_batch :: PrekeyUploadBatch where
  "demo_batch = \<lparr>pb_BatchID = ''b1'', pb_DeviceID = ''d'',
     pb_Prekeys = [\<lparr>pi_PrekeyID = ''k1'', pi_PublicKey = b64std_encode (replicate 32 1)\<rparr>,
                   \<lparr>pi_PrekeyID = ''k2'', pi_PublicKey = b64std_encode (replicate 32 2)\<rparr>]\<rparr>"

definition demo_key :: "string \<Rightarrow> byte \<Rightarrow> DeliveryPrekey" where
  "demo_key i b = \<lparr>pk_PrekeyID = i, pk_PublicKey = replicate 32 b, pk_UploadedAt = 0, pk_Consumed = False\<rparr>"

definition demo_store :: PrekeyStore where
  "demo_store = \<lparr>st_bridgeID = ''b'', st_prekeys = (\<lambda>_. [])(''d'' := [demo_key ''k1'' 1, demo_key ''k2'' 2]),
     st_processedBatches = Map.empty(''b1'' \<mapsto> ''d''), st_epochs = (\<lambda>_. []), st_epochIndex = (\<lambda>_. 0),
     st_identityAuthKey = Some (\<lambda>_. Some [7])\<rparr>"

lemma demo_upload:
  "UploadPrekeys demo_crypto (\<lambda>_. 0) demo_batch (NewPrekeyStore ''b'')
     = (\<lparr>ur_AcceptedCount = 2, ur_TotalAvailable = 2, ur_DuplicateBatchID = False, ur_Error = []\<rparr>,
        demo_store\<lparr>st_identityAuthKey := None\<rparr>)"
  by (simp add: UploadPrekeys_def demo_batch_def NewPrekeyStore_def availableCountLocked_def prekeyMaxCount_def
      demo_store_def demo_key_def Let_def)

definition demo_ops :: "prekey_op list" where
  "demo_ops = [PUpload (\<lambda>_. 0) demo_batch, PFactory (Some (\<lambda>_. Some [7]))]"

theorem upload_all_or_nothing_witness:
  "ur_DuplicateBatchID (fst (UploadPrekeys demo_crypto (\<lambda>_. 5) demo_batch demo_store))
     \<and> snd (UploadPrekeys demo_crypto (\<lambda>_. 5) demo_batch demo_store) = demo_store"
proof -
  have d: "distinct (map pk_PrekeyID (st_prekeys (NewPrekeyStore ''b'') ''d''))" "''d'' = pb_DeviceID demo_batch"
    "pb_BatchID demo_batch = ''b1''" by (simp_all add: NewPrekeyStore_def demo_batch_def)
  have "st_processedBatches demo_store ''b1'' = st_processedBatches (demo_store\<lparr>st_identityAuthKey := None\<rparr>) ''b1''" by simp
  moreover have "demo_store\<lparr>st_identityAuthKey := None\<rparr> \<noteq> NewPrekeyStore ''b''"
    by (auto simp: demo_store_def NewPrekeyStore_def dest: fun_cong[where x = "''d''"])
  ultimately show ?thesis using upload_all_or_nothing[OF demo_upload d(2,1)] by (auto simp: d(3))
qed

lemma demo_derive:
  "derive_mailbox_key demo_crypto s c = Some (take 32 (take 32 (s @ bytes_of ''cordcode-relay/mailbox/v1'' @ c @ replicate 32 0)
     @ bytes_of ''mac-to-ios'' @ replicate 32 0))"
  by (simp add: derive_mailbox_key_def hkdfExpand_def hkdfDerive_def)

definition demo_reserved :: "reservation list" where
  "demo_reserved = fst (prekey_run demo_crypto (demo_ops @ [PConsume (Some [3]) 0 ''d'', PReserve ''d'', PReserve ''d'']) (NewPrekeyStore ''b''))"

lemma demo_reserved_eq: "demo_reserved = [(''d'', 0, 1), (''d'', 0, 2)]"
  by (simp add: demo_reserved_def demo_ops_def demo_upload SetIdentityAuthKeyFactory_def demo_store_def ConsumePrekey_def
      demo_key_def Let_def demo_derive generateEpochAuthTag_def reserve_active_def activeEpochLocked_def is_active_def)

theorem frame_counters_unique_witness:
  "distinct (map (\<lambda>(d, e, c). (d, e, CounterNonce c)) demo_reserved) \<and> demo_reserved = [(''d'', 0, 1), (''d'', 0, 2)]"
proof
  have "length (demo_ops @ [PConsume (Some [3]) 0 ''d'', PReserve ''d'', PReserve ''d'']) < 2 ^ 64" by (simp add: demo_ops_def)
  from frame_counters_unique[OF this surjective_pairing, of demo_crypto "''b''"]
  show "distinct (map (\<lambda>(d, e, c). (d, e, CounterNonce c)) demo_reserved)" unfolding demo_reserved_def ..
qed (rule demo_reserved_eq)

theorem prekey_single_use_witness:
  "availableCountLocked ''d'' (snd (prekey_run demo_crypto demo_ops (NewPrekeyStore ''b''))) \<le> 64
     \<and> st_prekeys (snd (prekey_run demo_crypto demo_ops (NewPrekeyStore ''b''))) ''d'' = [demo_key ''k1'' 1, demo_key ''k2'' 2]"
  using prekey_single_use[of demo_ops demo_crypto "''b''"]
  by (simp add: demo_ops_def is_removal_def demo_upload SetIdentityAuthKeyFactory_def demo_store_def)

theorem delivery_chain_verifies_witness:
  "VerifyDeliveryChain (map (chain_head demo_crypto) (filter de_Sealed
     (st_epochs (fold (whole_step demo_crypto)
        [WUpload (\<lambda>_. 0) demo_batch, WFactory (Some (\<lambda>_. Some [7])), WReserve (Some [3]) 0 ''d'', WSeal ''d'' 0 1 1,
         WReserve (Some [4]) 0 ''d''] (NewPrekeyStore ''b'')) ''d'')))"
  using delivery_chain_verifies[OF demo_crypto_ok(2) refl refl] by blast

end
