(* ===== verification/Event_Router.thy ===== *)
theory Event_Router
  imports Outbox Prekey_Chain
begin

text \<open>
  The routing of events to devices that are not connected (\<^verbatim>\<open>go-bridge/relay_offline.go\<close>): a durable
  milestone is sealed under the mailbox key of the device's delivery epoch and queued in its outbox.
  The router composes the prekey store, the envelope, the outbox and the presentation state; the theorem is
  end to end: what is queued, the device can read.
\<close>

section \<open>State and operations\<close>

record RelayEventRouter =
  re_observation :: ObservationManager
  re_outbox :: OutboxManager
  re_prekeys :: PrekeyStore
  re_presentation :: PresentationManager
  re_routeID :: string
  re_generationForDevice :: "(string \<Rightarrow> 64 word) option"

definition NewRelayEventRouter :: "ObservationManager \<Rightarrow> OutboxManager \<Rightarrow> PrekeyStore \<Rightarrow> PresentationManager \<Rightarrow> RelayEventRouter" where
  "NewRelayEventRouter observation outbox prekeys presentation =
     \<lparr>re_observation = observation, re_outbox = outbox, re_prekeys = prekeys, re_presentation = presentation,
      re_routeID = [], re_generationForDevice = None\<rparr>"

definition SetRouteID :: "string \<Rightarrow> RelayEventRouter \<Rightarrow> RelayEventRouter" where
  "SetRouteID routeID rer = rer\<lparr>re_routeID := routeID\<rparr>"

definition SetDeviceGenerationFunc :: "(string \<Rightarrow> 64 word) option \<Rightarrow> RelayEventRouter \<Rightarrow> RelayEventRouter" where
  "SetDeviceGenerationFunc fn rer = rer\<lparr>re_generationForDevice := fn\<rparr>"

text \<open>The random sources of one delivery: the ephemeral key, the message identifier, the padding.\<close>

record delivery_rnd =
  dr_key :: "bytes option"
  dr_id :: bytes
  dr_pad :: "nat \<Rightarrow> bytes option"

definition mark_pending :: "string \<Rightarrow> string \<Rightarrow> RelayEventRouter \<Rightarrow> RelayEventRouter" where
  "mark_pending deviceID backendID rer = rer\<lparr>re_presentation := MarkPendingSync deviceID backendID (re_presentation rer)\<rparr>"

definition offline_envelope ::
  "codec \<Rightarrow> bytes \<Rightarrow> gotime \<Rightarrow> string \<Rightarrow> string \<Rightarrow> 64 word \<Rightarrow> DeliveryEpoch \<Rightarrow> 64 word \<Rightarrow> RelayEnvelope" where
  "offline_envelope C idRnd now routeID deviceID generation epoch counter =
     \<lparr>Version = 1, RouteID = routeID, SenderID = ''bridge'', DestinationID = deviceID, ChannelGeneration = generation,
      KeyEpochID = ''mailbox:'' @ show_nat (unat (de_EpochIndex epoch)), PrekeyID = Some (de_PrekeyID epoch),
      EpochIndex = Some (de_EpochIndex epoch), EpochEphemeralPublicKey = Some (b64std_encode (de_MacEphemeralPublic epoch)),
      PreviousEpochDigest = Some (de_PreviousEpochDigest epoch), EpochAuthTag = Some (b64std_encode (de_EpochAuthTag epoch)),
      MessageID = generateRelayID idRnd ''msg_'', Counter = counter, Ciphertext = [],
      CreatedAt = c_rfc3339 C now, ExpiresAt = c_rfc3339 C (now + defaultMailboxTTL)\<rparr>"

definition routeOfflineEvent ::
  "crypto_lib \<Rightarrow> codec \<Rightarrow> delivery_rnd \<Rightarrow> gotime \<Rightarrow> string \<Rightarrow> string \<Rightarrow> bytes \<Rightarrow> RelayEventRouter \<Rightarrow> RelayEventRouter" where
  "routeOfflineEvent L C rnd now deviceID backendID eventJSON rer =
     (if re_routeID rer = [] then mark_pending deviceID backendID rer
      else
        let generation = (case re_generationForDevice rer of None \<Rightarrow> 0 | Some f \<Rightarrow> f deviceID)
        in if generation = 0 then mark_pending deviceID backendID rer
           else case ReserveNextFrameCounter L (dr_key rnd) now deviceID (re_prekeys rer) of
             (Inl e, ps) \<Rightarrow> mark_pending deviceID backendID (rer\<lparr>re_prekeys := ps\<rparr>)
           | (Inr (epoch, counter), ps) \<Rightarrow>
               (let rer = rer\<lparr>re_prekeys := ps\<rparr>;
                    envelope = offline_envelope C (dr_id rnd) now (re_routeID rer) deviceID generation epoch counter
                in case SealEnvelope (c_aead C) (dr_pad rnd) (de_MacToIosMailboxKey epoch) counter
                          (EncodeAAD (c_encAAD C) envelope) eventJSON of
                     Inl e \<Rightarrow> rer
                   | Inr ciphertext \<Rightarrow>
                       (case c_marshal C (envelope\<lparr>Ciphertext := ciphertext\<rparr>) of
                          None \<Rightarrow> rer
                        | Some envelopeJSON \<Rightarrow>
                            (let (_, _, outbox) = outbox_Enqueue now deviceID counter envelopeJSON (re_outbox rer)
                             in rer\<lparr>re_outbox := outbox\<rparr>))))"

text \<open>The loop over the connected devices only consults the scopes; the caller sends.\<close>

definition consult :: "gotime \<Rightarrow> string \<Rightarrow> string \<Rightarrow> string \<Rightarrow> string list \<Rightarrow> ObservationManager \<Rightarrow> ObservationManager" where
  "consult now backendID sessionID eventName devices om =
     fold (\<lambda>d om. snd (ShouldSendEvent now d backendID sessionID eventName om)) devices om"

text \<open>\<open>eventJSON\<close> is the marshalled event, \<open>None\<close> when that fails.\<close>

definition RouteEvent ::
  "crypto_lib \<Rightarrow> codec \<Rightarrow> (nat \<Rightarrow> delivery_rnd) \<Rightarrow> gotime \<Rightarrow> string \<Rightarrow> string \<Rightarrow> string \<Rightarrow> bytes option
     \<Rightarrow> string list \<Rightarrow> string list \<Rightarrow> RelayEventRouter \<Rightarrow> RelayEventRouter" where
  "RouteEvent L C rnds now sessionID backendID eventName eventJSON connected offline rer =
     (case eventJSON of
        None \<Rightarrow> rer
      | Some eventJSON \<Rightarrow>
          (let rer = rer\<lparr>re_observation := consult now backendID sessionID eventName connected (re_observation rer)\<rparr>
           in if IsDurableMilestone eventName
              then fold (\<lambda>(i, d) rer. routeOfflineEvent L C (rnds i) now d backendID eventJSON rer) (enumerate 0 offline) rer
              else rer))"

definition ShouldSendToOnlineDevice :: "gotime \<Rightarrow> string \<Rightarrow> string \<Rightarrow> string \<Rightarrow> string \<Rightarrow> RelayEventRouter \<Rightarrow> bool \<times> RelayEventRouter" where
  "ShouldSendToOnlineDevice now deviceID backendID sessionID eventName rer =
     (let (b, om) = ShouldSendEvent now deviceID backendID sessionID eventName (re_observation rer)
      in (b, rer\<lparr>re_observation := om\<rparr>))"


section \<open>The device's side\<close>

text \<open>
  What a device does with a frame from its outbox: it reads the header, derives the epoch's key from the private
  part of the prekey the header names (\<open>dev\<close>), checks the epoch's tag under its authentication key, and opens the envelope.
\<close>

definition device_open ::
  "crypto_lib \<Rightarrow> codec \<Rightarrow> (string \<Rightarrow> bytes) \<Rightarrow> bytes \<Rightarrow> string \<Rightarrow> string \<Rightarrow> bytes \<Rightarrow> bytes option" where
  "device_open L C dev authKey bridgeID deviceID frame =
     (case c_unmarshal C frame of
        None \<Rightarrow> None
      | Some env \<Rightarrow>
          (case (PrekeyID env, EpochIndex env, EpochEphemeralPublicKey env, PreviousEpochDigest env, EpochAuthTag env) of
             (Some pid, Some idx, Some eph, Some prev, Some tag) \<Rightarrow>
               (case (b64std_decode eph, b64std_decode tag) of
                  (Some ephBytes, Some tagBytes) \<Rightarrow>
                    (if \<not> VerifyEpochAuthTag L authKey pid ephBytes idx prev tagBytes then None
                     else case DeriveMailboxKeyFromPrekey L (dev pid) ephBytes bridgeID deviceID pid idx of
                       Inl e \<Rightarrow> None
                     | Inr key \<Rightarrow>
                         (case OpenEnvelope (c_aead C) key (Counter env) (EncodeAAD (c_encAAD C) env) (Ciphertext env) of
                            Inl e \<Rightarrow> None | Inr plain \<Rightarrow> Some plain))
                | _ \<Rightarrow> None)
           | _ \<Rightarrow> None))"

definition epoch_opens :: "crypto_lib \<Rightarrow> (string \<Rightarrow> bytes) \<Rightarrow> bytes \<Rightarrow> string \<Rightarrow> string \<Rightarrow> DeliveryEpoch \<Rightarrow> bool" where
  "epoch_opens L dev authKey bridgeID d ep \<longleftrightarrow> length (de_MacToIosMailboxKey ep) = 32
     \<and> DeriveMailboxKeyFromPrekey L (dev (de_PrekeyID ep)) (de_MacEphemeralPublic ep) bridgeID d (de_PrekeyID ep) (de_EpochIndex ep)
         = Inr (de_MacToIosMailboxKey ep)
     \<and> VerifyEpochAuthTag L authKey (de_PrekeyID ep) (de_MacEphemeralPublic ep) (de_EpochIndex ep) (de_PreviousEpochDigest ep) (de_EpochAuthTag ep)"

text \<open>
  The store as an honest device knows it: the keys on file are the public parts of its own, the bridge
  uses the shared authentication key, and the device can follow every epoch in use.
\<close>

definition delivery_ok :: "crypto_lib \<Rightarrow> (string \<Rightarrow> bytes) \<Rightarrow> bytes \<Rightarrow> string \<Rightarrow> PrekeyStore \<Rightarrow> bool" where
  "delivery_ok L dev authKey d ps \<longleftrightarrow>
     (\<forall>pk \<in> set (st_prekeys ps d). pk_PublicKey pk = x_public L (dev (pk_PrekeyID pk)))
     \<and> (\<forall>f. st_identityAuthKey ps = Some f \<longrightarrow> f d = Some authKey)
     \<and> (\<forall>ep \<in> set (st_epochs ps d). is_active ep \<longrightarrow> epoch_opens L dev authKey (st_bridgeID ps) d ep)"

text \<open>\<^verbatim>\<open>rand.Read\<close> fills the buffer or fails.\<close>

definition fills :: "(nat \<Rightarrow> bytes option) \<Rightarrow> bool" where
  "fills rnd \<longleftrightarrow> (\<forall>n b. rnd n = Some b \<longrightarrow> length b = n)"

lemma sealed_opens:
  assumes "aead_ok A" "SealEnvelope A rnd k c a p = Inr ct" "length p + 260 \<le> 2 ^ 32" "fills rnd"
  shows "OpenEnvelope A k c a ct = Inr p"
proof -
  have p: "length p + 260 \<le> 4294967296" using assms(3) by simp
  let ?n = "bucket (length p) - (4 + length p)"
  obtain r where r: "rnd ?n = Some r" "length k = 32"
    using assms(2) applyPadding_shape[OF p, of rnd] by (auto simp: SealEnvelope_def split: if_splits option.splits)
  then have "length r = ?n" using assms(4) by (simp add: fills_def)
  note u = padded_removes(2)[OF p this]
  have "aead_Open A k n a (aead_Seal A k n a x) = Some x" for n x using assms(1) by (simp add: aead_ok_def)
  then show ?thesis using assms(2) applyPadding_shape[OF p, of rnd] r u by (auto simp: SealEnvelope_def OpenEnvelope_def)
qed

lemma codec_frame:
  assumes "aead_ok (c_aead C)" "\<And>e b. c_marshal C e = Some b \<Longrightarrow> c_unmarshal C b = Some e" "fills pad"
    and "epoch_opens L dev authKey bridgeID d ep" "length json + 260 \<le> 2 ^ 32"
    and "env = offline_envelope C idRnd now routeID d g ep c"
    and "SealEnvelope (c_aead C) pad (de_MacToIosMailboxKey ep) c (EncodeAAD (c_encAAD C) env) json = Inr ct"
    and "c_marshal C (env\<lparr>Ciphertext := ct\<rparr>) = Some frame"
  shows "device_open L C dev authKey bridgeID d frame = Some json"
proof -
  have "OpenEnvelope (c_aead C) (de_MacToIosMailboxKey ep) c (EncodeAAD (c_encAAD C) env) ct = Inr json"
    by (rule sealed_opens[OF assms(1,7,5,3)])
  moreover have "EncodeAAD (c_encAAD C) (env\<lparr>Ciphertext := ct\<rparr>) = EncodeAAD (c_encAAD C) env"
    by (simp add: EncodeAAD_def AADFields_def)
  moreover have "Counter env = c" by (simp add: assms(6) offline_envelope_def)
  ultimately show ?thesis
    using assms(2)[OF assms(8)] assms(4) unfolding epoch_opens_def
    by (simp add: device_open_def) (simp add: assms(6) offline_envelope_def)
qed

text \<open>Key agreement: the device derives the key of an epoch opened with its prekey and accepts its tag.\<close>

lemma consumed_epoch_opens:
  assumes "exchange_ok L" "hkdf_ok L" "ConsumePrekey L rnd now d ps = (Inr ep, ps')" "delivery_ok L dev authKey d ps"
  shows "epoch_opens L dev authKey (st_bridgeID ps) d ep"
proof -
  from assms(3) obtain pk marked priv shared key f tagKey header where
    c: "st_bridgeID ps \<noteq> []" "take_prekey (st_prekeys ps d) = Some (pk, marked)"
      "x_ecdh L priv (pk_PublicKey pk) = Some shared"
      "derive_mailbox_key L shared (buildMailboxContext (st_bridgeID ps) d (pk_PrekeyID pk) (st_epochIndex ps d)) = Some key"
      "st_identityAuthKey ps = Some f" "f d = Some tagKey"
      "x_json L (tag_header (pk_PrekeyID pk) (x_public L priv) (st_epochIndex ps d) (previous_digest L (st_epochs ps d))) = Some header"
      "de_EpochIndex ep = st_epochIndex ps d" "de_PrekeyID ep = pk_PrekeyID pk" "de_MacEphemeralPublic ep = x_public L priv"
      "de_MacToIosMailboxKey ep = key" "de_EpochAuthTag ep = hmacSHA256 L tagKey header"
      "de_PreviousEpochDigest ep = previous_digest L (st_epochs ps d)"
    by (auto elim!: ConsumePrekey_success)
  have "pk \<in> set (st_prekeys ps d)" using take_prekey_first[OF c(2)] by auto
  then have "pk_PublicKey pk = x_public L (dev (pk_PrekeyID pk))" "tagKey = authKey"
    using assms(4) c(5,6) by (auto simp: delivery_ok_def)
  moreover have "x_ecdh L (dev i) (x_public L priv) = x_ecdh L priv (x_public L (dev i))" for i
    using assms(1) by (simp add: exchange_ok_def)
  ultimately show ?thesis
    using c assms(1) derive_mailbox_key_length[OF assms(2) c(4)]
    by (simp add: epoch_opens_def DeriveMailboxKeyFromPrekey_def VerifyEpochAuthTag_def exchange_ok_def)
qed

lemma epoch_opens_counters [simp]:
  "epoch_opens L dev a b d (ep\<lparr>de_LastCounter := x, de_FrameCount := y\<rparr>) = epoch_opens L dev a b d ep"
  "is_active (ep\<lparr>de_LastCounter := x, de_FrameCount := y\<rparr>) = is_active ep"
  by (simp_all add: epoch_opens_def is_active_def)

lemma reserve_active_delivery:
  assumes "delivery_ok L dev a d ps" "reserve_active d0 ps = (r, ps')"
  shows "delivery_ok L dev a d ps' \<and> st_bridgeID ps' = st_bridgeID ps
       \<and> (\<forall>ep c. r = Inr (ep, c) \<longrightarrow> d0 = d \<longrightarrow> epoch_opens L dev a (st_bridgeID ps) d ep)"
proof (cases "activeEpochLocked d0 ps")
  case (Some i)
  note act = activeEpochLocked_Some[OF Some]
  define c where "c = (if de_LastCounter (st_epochs ps d0 ! i) + 1 < de_FirstCounter (st_epochs ps d0 ! i)
    then de_FirstCounter (st_epochs ps d0 ! i) else de_LastCounter (st_epochs ps d0 ! i) + 1)"
  define ep where "ep = (st_epochs ps d0 ! i)\<lparr>de_LastCounter := c, de_FrameCount := de_FrameCount (st_epochs ps d0 ! i) + 1\<rparr>"
  have r: "r = Inr (ep, c)" "ps' = ps\<lparr>st_epochs := (st_epochs ps)(d0 := (st_epochs ps d0)[i := ep])\<rparr>"
    using assms(2) by (auto simp: reserve_active_def Some Let_def ep_def c_def)
  have "epoch_opens L dev a (st_bridgeID ps) d ep" if "d0 = d"
    using assms(1) act that unfolding ep_def by (simp add: delivery_ok_def is_active_def)
  then show ?thesis using assms(1) r set_update_subset_insert[of "st_epochs ps d0" i ep]
    by (auto simp: delivery_ok_def)
qed (use assms in \<open>auto simp: reserve_active_def\<close>)

lemma consume_delivery:
  assumes "exchange_ok L" "hkdf_ok L" "delivery_ok L dev a d ps" "ConsumePrekey L rnd now d0 ps = (r, ps')"
  shows "delivery_ok L dev a d ps' \<and> st_bridgeID ps' = st_bridgeID ps"
proof (cases r)
  case (Inl e)
  then show ?thesis using assms(3,4) ConsumePrekey_failure by blast
next
  case (Inr ep)
  note s = assms(4)[unfolded Inr]
  from s obtain pk marked where c: "take_prekey (st_prekeys ps d0) = Some (pk, marked)"
    "ps' = ps\<lparr>st_prekeys := (st_prekeys ps)(d0 := marked), st_epochs := (st_epochs ps)(d0 := st_epochs ps d0 @ [ep]),
             st_epochIndex := (st_epochIndex ps)(d0 := st_epochIndex ps d0 + 1)\<rparr>"
    by (auto elim!: ConsumePrekey_success)
  have "pk_PublicKey x = x_public L (dev (pk_PrekeyID x))" if "x \<in> set marked" "d0 = d" for x
    using take_prekey_first[OF c(1)] that assms(3) by (auto simp: delivery_ok_def)
  moreover have "epoch_opens L dev a (st_bridgeID ps) d ep" if "d0 = d"
    using consumed_epoch_opens[OF assms(1,2) s[unfolded that] assms(3)] .
  ultimately show ?thesis using assms(3) c(2) by (auto simp: delivery_ok_def)
qed

lemma Reserve_delivery:
  assumes "exchange_ok L" "hkdf_ok L" "delivery_ok L dev a d ps" "ReserveNextFrameCounter L rnd now d0 ps = (r, ps')"
  shows "delivery_ok L dev a d ps' \<and> st_bridgeID ps' = st_bridgeID ps
       \<and> (\<forall>ep c. r = Inr (ep, c) \<longrightarrow> d0 = d \<longrightarrow> epoch_opens L dev a (st_bridgeID ps) d ep)"
proof (cases "activeEpochLocked d0 ps")
  case None
  obtain r1 ps1 where c: "ConsumePrekey L rnd now d0 ps = (r1, ps1)" by (meson surj_pair)
  note d = consume_delivery[OF assms(1-3) c]
  show ?thesis
  proof (cases r1)
    case (Inl e)
    then show ?thesis using assms(4) None c d by (auto simp: ReserveNextFrameCounter_def)
  next
    case (Inr ep)
    then have "reserve_active d0 ps1 = (r, ps')" using assms(4) None c by (simp add: ReserveNextFrameCounter_def)
    then show ?thesis using reserve_active_delivery[of L dev a d ps1 d0 r ps'] d by simp
  qed
next
  case (Some i)
  then show ?thesis using assms(4) reserve_active_delivery[OF assms(3), of d0] by (simp add: ReserveNextFrameCounter_def)
qed


section \<open>What is queued can be read\<close>

lemma Enqueue_entries:
  assumes "outbox_Enqueue now d c env om = (ok, calls, om')"
  shows "(ok \<and> outbox_entries d om' = outbox_entries d om @ [\<lparr>oe_Counter = c, oe_Envelope = env, oe_Size = int (length env), oe_CreatedAt = now\<rparr>])
       \<or> (\<not> ok \<and> outbox_entries d om' = outbox_entries d om \<and> IsOverflowed d om')"
  using assms by (cases rule: outbox_Enqueue_cases) (simp_all add: outbox_entries_of IsOverflowed_def)

lemma SealEnvelope_failure:
  assumes "SealEnvelope A pad k c a p = Inl e" "length k = 32" "length p + 260 \<le> 2 ^ 32"
  shows "\<exists>n. pad n = None"
proof -
  have p: "length p + 260 \<le> 4294967296" using assms(3) by simp
  show ?thesis using assms(1,2) applyPadding_shape[OF p, of pad] by (auto simp: SealEnvelope_def split: sum.splits option.splits)
qed

lemma mark_pending_simps [simp]:
  "re_prekeys (mark_pending d b rer) = re_prekeys rer" "re_outbox (mark_pending d b rer) = re_outbox rer"
  "\<exists>s. re_presentation (mark_pending d b rer) d = Some s \<and> sp_PendingSync s"
  by (simp_all add: mark_pending_def MarkPendingSync_def Let_def)

text \<open>Why an event was not queued.\<close>

definition not_queued ::
  "crypto_lib \<Rightarrow> codec \<Rightarrow> delivery_rnd \<Rightarrow> gotime \<Rightarrow> string \<Rightarrow> RelayEventRouter \<Rightarrow> RelayEventRouter \<Rightarrow> bool" where
  "not_queued L C rnd now d rer rer' \<longleftrightarrow>
     ((re_routeID rer = [] \<or> (\<forall>f. re_generationForDevice rer = Some f \<longrightarrow> f d = 0)
         \<or> fst (ReserveNextFrameCounter L (dr_key rnd) now d (re_prekeys rer)) \<in> range Inl)
       \<and> (\<exists>s. re_presentation rer' d = Some s \<and> sp_PendingSync s))
     \<or> (\<exists>n. dr_pad rnd n = None) \<or> (\<exists>e. c_marshal C e = None) \<or> IsOverflowed d (re_outbox rer')"

text \<open>
  C5. End to end: a device reads what is queued for it. Let the prekeys on file for a device be the public
  parts of its own keys and the epochs in use ones it can follow. Routing a milestone appends exactly one frame to its outbox,
  and that frame the device opens, with the private key the header
  names, after checking the epoch's tag, to the very bytes of the event; or it leaves the outbox as it is, because there is no
  route or generation or no epoch could be had (and then the device is marked as waiting for a synchronisation), because the
  random source or the encoder failed, or because the outbox has overflowed. In every case the state satisfies the
  assumption again, so this holds for every event after it.
\<close>

theorem offline_event_readable:
  assumes "exchange_ok L" "hkdf_ok L" "aead_ok (c_aead C)" "fills (dr_pad rnd)" "length json + 260 \<le> 2 ^ 32"
    and "\<And>e b. c_marshal C e = Some b \<Longrightarrow> c_unmarshal C b = Some e"
    and "delivery_ok L dev authKey d (re_prekeys rer)" "rer' = routeOfflineEvent L C rnd now d backendID json rer"
  shows "delivery_ok L dev authKey d (re_prekeys rer') \<and> st_bridgeID (re_prekeys rer') = st_bridgeID (re_prekeys rer)
       \<and> ((\<exists>e. outbox_entries d (re_outbox rer') = outbox_entries d (re_outbox rer) @ [e]
               \<and> device_open L C dev authKey (st_bridgeID (re_prekeys rer)) d (oe_Envelope e) = Some json)
          \<or> outbox_entries d (re_outbox rer') = outbox_entries d (re_outbox rer) \<and> not_queued L C rnd now d rer rer')"
proof (cases "re_routeID rer = [] \<or> (\<forall>f. re_generationForDevice rer = Some f \<longrightarrow> f d = 0)")
  case True
  then have "rer' = mark_pending d backendID rer" using assms(8) by (auto simp: routeOfflineEvent_def Let_def split: option.splits)
  then show ?thesis using assms(7) True by (auto simp: not_queued_def)
next
  case False
  then obtain f where f: "re_routeID rer \<noteq> []" "re_generationForDevice rer = Some f" "f d \<noteq> 0" by blast
  obtain r ps where R: "ReserveNextFrameCounter L (dr_key rnd) now d (re_prekeys rer) = (r, ps)" by (meson surj_pair)
  note D = Reserve_delivery[OF assms(1,2,7) R]
  show ?thesis
  proof (cases r)
    case (Inl e)
    then have "rer' = mark_pending d backendID (rer\<lparr>re_prekeys := ps\<rparr>)" using assms(8) f R by (simp add: routeOfflineEvent_def)
    then show ?thesis using D R Inl by (auto simp: not_queued_def)
  next
    case (Inr x)
    obtain ep c where x: "r = Inr (ep, c)" using Inr by (cases x) simp
    then have ep: "epoch_opens L dev authKey (st_bridgeID (re_prekeys rer)) d ep" using D by blast
    define env where "env = offline_envelope C (dr_id rnd) now (re_routeID rer) d (f d) ep c"
    note rer' = assms(8)[unfolded routeOfflineEvent_def, simplified f R x, simplified, folded env_def]
    show ?thesis
    proof (cases "SealEnvelope (c_aead C) (dr_pad rnd) (de_MacToIosMailboxKey ep) c (EncodeAAD (c_encAAD C) env) json")
      case (Inl e)
      then have "\<exists>n. dr_pad rnd n = None" using SealEnvelope_failure assms(5) ep by (auto simp: epoch_opens_def)
      then show ?thesis using Inl rer' D f by (simp add: not_queued_def env_def[symmetric])
    next
      case (Inr ct)
      show ?thesis
      proof (cases "c_marshal C (env\<lparr>Ciphertext := ct\<rparr>)")
        case None
        then show ?thesis using Inr rer' D f by (auto simp: not_queued_def env_def[symmetric])
      next
        case (Some frame)
        have o: "device_open L C dev authKey (st_bridgeID (re_prekeys rer)) d frame = Some json"
          using codec_frame[OF assms(3,6,4) ep assms(5) env_def Inr Some] .
        obtain ok calls om' where q: "outbox_Enqueue now d c frame (re_outbox rer) = (ok, calls, om')" by (metis prod_cases3)
        then have "rer' = rer\<lparr>re_prekeys := ps, re_outbox := om'\<rparr>" using rer' Inr Some f by (simp add: env_def[symmetric])
        then show ?thesis using Enqueue_entries[OF q] D o by (auto simp: not_queued_def)
      qed
    qed
  qed
qed


section \<open>Witness\<close>

definition demo_reserve :: "(prekey_error + DeliveryEpoch \<times> 64 word) \<times> PrekeyStore" where
  "demo_reserve = ReserveNextFrameCounter demo_crypto (Some [3]) 0 ''d'' demo_store"

definition demo_epoch :: DeliveryEpoch where
  "demo_epoch = fst (projr (fst demo_reserve))"

lemma demo_reserve_eq: "fst demo_reserve = Inr (demo_epoch, 1)" "length (de_MacToIosMailboxKey demo_epoch) = 32"
proof -
  have "\<exists>ep ps. demo_reserve = (Inr (ep, 1), ps) \<and> length (de_MacToIosMailboxKey ep) = 32"
    by (simp add: demo_reserve_def ReserveNextFrameCounter_def demo_store_def ConsumePrekey_def
        demo_key_def Let_def demo_derive generateEpochAuthTag_def reserve_active_def activeEpochLocked_def is_active_def)
  then obtain ep ps where e: "demo_reserve = (Inr (ep, 1), ps)" "length (de_MacToIosMailboxKey ep) = 32" by blast
  have "demo_epoch = ep" unfolding demo_epoch_def e(1) by simp
  then show "fst demo_reserve = Inr (demo_epoch, 1)" "length (de_MacToIosMailboxKey demo_epoch) = 32" unfolding e(1) using e(2) by simp_all
qed

lemma demo_reserve_run:
  "ReserveNextFrameCounter demo_crypto (Some [3]) 0 ''d'' demo_store = (Inr (demo_epoch, 1), snd demo_reserve)"
  using demo_reserve_eq(1) by (metis demo_reserve_def prod.collapse)

text \<open>The frame of the witness, and an encoder that is injective and gives it the empty encoding.\<close>

definition demo_frame :: RelayEnvelope where
  "demo_frame = (offline_envelope demo_codec [] 0 ''rt'' ''d'' 1 demo_epoch 1)
     \<lparr>Ciphertext := projr (SealEnvelope demo_aead demo_zeros (de_MacToIosMailboxKey demo_epoch) 1 [5] [1, 2])\<rparr>"

definition char_of_byte :: "byte \<Rightarrow> char" where
  "char_of_byte b = char_of (unat b)"

definition demo_encode :: "RelayEnvelope \<Rightarrow> bytes" where
  "demo_encode e = (if e = demo_frame then [] else 1 # demo_enc (AADFields e @ [(''ct'', JStr (map char_of_byte (Ciphertext e)))]))"

definition demo_codec2 :: codec where
  "demo_codec2 = demo_codec\<lparr>c_marshal := \<lambda>e. Some (demo_encode e),
     c_unmarshal := \<lambda>b. if b \<in> range demo_encode then Some (inv demo_encode b) else None\<rparr>"

lemma char_of_byte_inj: "char_of_byte a = char_of_byte b \<Longrightarrow> a = b"
proof -
  assume "char_of_byte a = char_of_byte b"
  then have "(of_char (char_of_byte a) :: nat) = of_char (char_of_byte b)" by simp
  then show ?thesis using byte_lt[of a] byte_lt[of b] by (simp add: char_of_byte_def word_unat_eq_iff)
qed

lemma demo_encode_inj: "inj demo_encode"
proof (rule injI)
  fix e f assume a: "demo_encode e = demo_encode f"
  show "e = f"
  proof (cases "e = demo_frame \<or> f = demo_frame")
    case True
    then show ?thesis using a by (auto simp: demo_encode_def split: if_splits)
  next
    case False
    then have "AADFields e @ [(''ct'', JStr (map char_of_byte (Ciphertext e)))] = AADFields f @ [(''ct'', JStr (map char_of_byte (Ciphertext f)))]"
      using a injD[OF demo_enc_inj] by (simp only: demo_encode_def de_Morgan_disj if_False list.inject)
    then have "AADFields e = AADFields f" "map char_of_byte (Ciphertext e) = map char_of_byte (Ciphertext f)"
      by (simp_all only: append1_eq_conv prod.inject json_value.inject)
    moreover have "inj char_of_byte" using char_of_byte_inj by (rule injI)
    ultimately have "e\<lparr>Ciphertext := []\<rparr> = f\<lparr>Ciphertext := []\<rparr>" "Ciphertext e = Ciphertext f"
      using AADFields_inj[of e f] by (simp_all only: inj_map_eq_map)
    moreover have "x = x\<lparr>Ciphertext := []\<rparr>\<lparr>Ciphertext := Ciphertext x\<rparr>" for x :: RelayEnvelope by simp
    ultimately show ?thesis by metis
  qed
qed

definition demo_router :: RelayEventRouter where
  "demo_router = \<lparr>re_observation = NewObservationManager, re_outbox = NewOutboxManager, re_prekeys = demo_store,
     re_presentation = NewPresentationManager, re_routeID = ''rt'', re_generationForDevice = Some (\<lambda>_. 1)\<rparr>"

definition demo_dev :: "string \<Rightarrow> bytes" where
  "demo_dev i = replicate 32 (if i = ''k1'' then 1 else 2)"

abbreviation demo_rnd :: delivery_rnd where
  "demo_rnd \<equiv> \<lparr>dr_key = Some [3], dr_id = [], dr_pad = demo_zeros\<rparr>"

lemma demo_seal_total: "\<exists>ct. SealEnvelope demo_aead demo_zeros (de_MacToIosMailboxKey demo_epoch) 1 [5] [1, 2] = Inr ct"
  using applyPadding_shape[of "[1, 2]" demo_zeros] by (simp add: SealEnvelope_def demo_reserve_eq(2) demo_zeros_def)

lemma demo_routed:
  "routeOfflineEvent demo_crypto demo_codec2 demo_rnd 0 ''d'' ''b'' [1, 2] demo_router
     = demo_router\<lparr>re_prekeys := snd demo_reserve, re_outbox := snd (snd (outbox_Enqueue 0 ''d'' 1 [] NewOutboxManager))\<rparr>"
proof -
  obtain ct where ct: "SealEnvelope demo_aead demo_zeros (de_MacToIosMailboxKey demo_epoch) 1 [5] [1, 2] = Inr ct"
    using demo_seal_total by blast
  have "demo_frame = (offline_envelope demo_codec [] 0 ''rt'' ''d'' 1 demo_epoch 1)\<lparr>Ciphertext := ct\<rparr>" by (simp add: demo_frame_def ct)
  then have m: "demo_encode ((offline_envelope demo_codec [] 0 ''rt'' ''d'' 1 demo_epoch 1)\<lparr>Ciphertext := ct\<rparr>) = []" by (simp add: demo_encode_def)
  have e: "offline_envelope demo_codec2 = offline_envelope demo_codec" by (intro ext) (simp add: offline_envelope_def demo_codec2_def)
  have c: "c_aead demo_codec2 = demo_aead" "EncodeAAD (c_encAAD demo_codec2) = (\<lambda>_. [5])" "c_marshal demo_codec2 = (\<lambda>e. Some (demo_encode e))"
    by (auto simp: demo_codec2_def demo_codec_def EncodeAAD_def)
  show ?thesis
    by (simp add: routeOfflineEvent_def demo_router_def demo_reserve_run e c ct m Let_def case_prod_beta)
qed

theorem offline_event_readable_witness:
  "\<exists>e. outbox_entries ''d'' (re_outbox (routeOfflineEvent demo_crypto demo_codec2 demo_rnd 0 ''d'' ''b'' [1, 2] demo_router)) = [e]
     \<and> device_open demo_crypto demo_codec2 demo_dev [7] ''b'' ''d'' (oe_Envelope e) = Some [1, 2]"
proof -
  have "delivery_ok demo_crypto demo_dev [7] ''d'' (re_prekeys demo_router)"
    by (simp add: delivery_ok_def demo_router_def demo_store_def demo_key_def demo_dev_def)
  moreover have "c_unmarshal demo_codec2 b = Some e" if "c_marshal demo_codec2 e = Some b" for e b
    using that inv_f_f[OF demo_encode_inj, of e] by (auto simp: demo_codec2_def)
  moreover have "aead_ok (c_aead demo_codec2)" "fills (dr_pad demo_rnd)"
    by (simp_all add: demo_codec2_def demo_codec_def demo_aead_ok fills_def demo_zeros_def)
  ultimately have "(\<exists>e. outbox_entries ''d'' (re_outbox (routeOfflineEvent demo_crypto demo_codec2 demo_rnd 0 ''d'' ''b'' [1, 2] demo_router))
        = outbox_entries ''d'' (re_outbox demo_router) @ [e]
        \<and> device_open demo_crypto demo_codec2 demo_dev [7] (st_bridgeID (re_prekeys demo_router)) ''d'' (oe_Envelope e) = Some [1, 2])
      \<or> not_queued demo_crypto demo_codec2 demo_rnd 0 ''d'' demo_router (routeOfflineEvent demo_crypto demo_codec2 demo_rnd 0 ''d'' ''b'' [1, 2] demo_router)"
    using offline_event_readable[OF demo_crypto_ok, of demo_codec2 demo_rnd "[1, 2]" demo_dev "[7]" "''d''" demo_router _ 0 "''b''", OF _ _ _ _ _ refl]
    by simp blast
  moreover have "\<not> not_queued demo_crypto demo_codec2 demo_rnd 0 ''d'' demo_router
      (routeOfflineEvent demo_crypto demo_codec2 demo_rnd 0 ''d'' ''b'' [1, 2] demo_router)"
    unfolding not_queued_def demo_routed
    by (auto simp: demo_router_def demo_reserve_run demo_codec2_def demo_zeros_def IsOverflowed_def
        outbox_Enqueue_def NewOutboxManager_def new_outbox_def outboxMaxFrames_def outboxMaxBytes_def Let_def)
  moreover have "outbox_entries ''d'' (re_outbox demo_router) = []" "st_bridgeID (re_prekeys demo_router) = ''b''"
    by (simp_all add: demo_router_def NewOutboxManager_def outbox_entries_def demo_store_def)
  ultimately show ?thesis by simp
qed

end
