(* ===== verification/Reconcile.thy ===== *)
theory Reconcile
  imports Prekey_Chain Mailbox_Service
begin

text \<open>
  The device's record of what it has applied (\<^verbatim>\<open>go-bridge/relay_reconcile.go\<close>) and the registry of live
  connections by device (\<^verbatim>\<open>go-bridge/device_conn_registry.go\<close>). The delivery state accepts frames by
  consecutive counters and falls back to a reconciliation with the bridge at the first gap.
\<close>

section \<open>The delivery state\<close>

record DeliveryState =
  ds_LastCommittedCursor :: "64 word"
  ds_LastCommittedEpochDigest :: string
  ds_LastCommittedCounter :: "64 word"
  ds_ReconcileState :: string
  ds_ReconcileSince :: gotime
  ds_SessionReconcileRequired :: "string \<rightharpoonup> bool"

definition reconcileStateClean :: string where "reconcileStateClean = ''clean''"
definition reconcileStateRequired :: string where "reconcileStateRequired = ''required''"
definition reconcileStateInProgress :: string where "reconcileStateInProgress = ''in_progress''"
definition reconcileStateCompleted :: string where "reconcileStateCompleted = ''completed''"

lemmas reconcile_states = reconcileStateClean_def reconcileStateRequired_def reconcileStateInProgress_def reconcileStateCompleted_def

datatype DeliveryError = ErrReconcileRequired | ErrCounterGap | ErrChainMismatch

definition NewDeliveryState :: DeliveryState where
  "NewDeliveryState = \<lparr>ds_LastCommittedCursor = 0, ds_LastCommittedEpochDigest = [], ds_LastCommittedCounter = 0,
     ds_ReconcileState = reconcileStateClean, ds_ReconcileSince = zero_time, ds_SessionReconcileRequired = Map.empty\<rparr>"

text \<open>The branch on the event type at the end of the function is empty.\<close>

definition ApplyFrame :: "gotime \<Rightarrow> 64 word \<Rightarrow> string \<Rightarrow> string \<Rightarrow> DeliveryState \<Rightarrow> DeliveryError option \<times> DeliveryState" where
  "ApplyFrame now counter epochDigest eventType ds =
     (if ds_ReconcileState ds = reconcileStateRequired then (Some ErrReconcileRequired, ds)
      else if counter \<noteq> ds_LastCommittedCounter ds + 1
      then (Some ErrCounterGap, ds\<lparr>ds_ReconcileState := reconcileStateRequired, ds_ReconcileSince := now\<rparr>)
      else (None, ds\<lparr>ds_LastCommittedCounter := counter,
              ds_LastCommittedEpochDigest := (if epochDigest \<noteq> [] then epochDigest else ds_LastCommittedEpochDigest ds)\<rparr>))"

definition ApplyReconcileSignal :: "gotime \<Rightarrow> DeliveryState \<Rightarrow> DeliveryState" where
  "ApplyReconcileSignal now ds = ds\<lparr>ds_ReconcileState := reconcileStateRequired, ds_ReconcileSince := now\<rparr>"

definition MarkSessionReconcile :: "string \<Rightarrow> DeliveryState \<Rightarrow> DeliveryState" where
  "MarkSessionReconcile sessionID ds = ds\<lparr>ds_SessionReconcileRequired := (ds_SessionReconcileRequired ds)(sessionID \<mapsto> True)\<rparr>"

definition ClearSessionReconcile :: "string \<Rightarrow> DeliveryState \<Rightarrow> DeliveryState" where
  "ClearSessionReconcile sessionID ds = ds\<lparr>ds_SessionReconcileRequired := (ds_SessionReconcileRequired ds)(sessionID := None)\<rparr>"

definition IsSessionReconcileRequired :: "string \<Rightarrow> DeliveryState \<Rightarrow> bool" where
  "IsSessionReconcileRequired sessionID ds = (case ds_SessionReconcileRequired ds sessionID of None \<Rightarrow> False | Some b \<Rightarrow> b)"

definition StartReconcile :: "DeliveryState \<Rightarrow> DeliveryState" where
  "StartReconcile ds = ds\<lparr>ds_ReconcileState := reconcileStateInProgress\<rparr>"

definition CompleteReconcile :: "DeliveryChainHead option \<Rightarrow> 64 word \<Rightarrow> DeliveryState \<Rightarrow> DeliveryState" where
  "CompleteReconcile macChainHead macLastCounter ds =
     (let ds = ds\<lparr>ds_ReconcileState := reconcileStateCompleted\<rparr>
      in case macChainHead of
           None \<Rightarrow> ds
         | Some head \<Rightarrow> ds\<lparr>ds_LastCommittedEpochDigest := ch_EpochDigest head, ds_LastCommittedCounter := macLastCounter\<rparr>)"

definition IsReconcileRequired :: "DeliveryState \<Rightarrow> bool" where
  "IsReconcileRequired ds \<longleftrightarrow> ds_ReconcileState ds = reconcileStateRequired"

definition ValidateChainHead :: "gotime \<Rightarrow> DeliveryChainHead \<Rightarrow> DeliveryState \<Rightarrow> DeliveryError option \<times> DeliveryState" where
  "ValidateChainHead now head ds =
     (if ds_LastCommittedEpochDigest ds = [] then (None, ds)
      else if ch_EpochDigest head \<noteq> ds_LastCommittedEpochDigest ds
      then (Some ErrChainMismatch, ds\<lparr>ds_ReconcileState := reconcileStateRequired, ds_ReconcileSince := now\<rparr>)
      else (None, ds))"

definition Snapshot :: "DeliveryState \<Rightarrow> DeliveryState" where
  "Snapshot ds = ds"


section \<open>Runs\<close>

datatype delivery_op =
    DApply gotime "64 word" string string
  | DSignal gotime
  | DMark string
  | DClear string
  | DStart
  | DComplete "DeliveryChainHead option" "64 word"
  | DValidate gotime DeliveryChainHead

text \<open>The counters accepted, and the counter each acceptance continued from.\<close>

fun delivery_step :: "delivery_op \<Rightarrow> DeliveryState \<Rightarrow> (64 word \<times> 64 word) list \<times> DeliveryState" where
  "delivery_step (DApply now c dig ev) ds =
     (case ApplyFrame now c dig ev ds of
        (None, ds') \<Rightarrow> ([(ds_LastCommittedCounter ds, c)], ds') | (Some e, ds') \<Rightarrow> ([], ds'))"
| "delivery_step (DSignal now) ds = ([], ApplyReconcileSignal now ds)"
| "delivery_step (DMark s) ds = ([], MarkSessionReconcile s ds)"
| "delivery_step (DClear s) ds = ([], ClearSessionReconcile s ds)"
| "delivery_step DStart ds = ([], StartReconcile ds)"
| "delivery_step (DComplete h c) ds = ([], CompleteReconcile h c ds)"
| "delivery_step (DValidate now h) ds = ([], snd (ValidateChainHead now h ds))"

fun delivery_run :: "delivery_op list \<Rightarrow> DeliveryState \<Rightarrow> (64 word \<times> 64 word) list \<times> DeliveryState" where
  "delivery_run [] ds = ([], ds)"
| "delivery_run (op # ops) ds =
     (let (a, ds) = delivery_step op ds; (as, ds) = delivery_run ops ds in (a @ as, ds))"

fun ends_reconcile :: "delivery_op \<Rightarrow> bool" where
  "ends_reconcile DStart = True"
| "ends_reconcile (DComplete h c) = True"
| "ends_reconcile _ = False"

definition frames :: "gotime \<Rightarrow> string \<Rightarrow> string \<Rightarrow> 64 word list \<Rightarrow> delivery_op list" where
  "frames now dig ev cs = map (\<lambda>c. DApply now c dig ev) cs"

lemma required_stays:
  "ds_ReconcileState ds = reconcileStateRequired \<Longrightarrow> \<not> ends_reconcile op \<Longrightarrow>
   fst (delivery_step op ds) = [] \<and> ds_ReconcileState (snd (delivery_step op ds)) = reconcileStateRequired
     \<and> ds_LastCommittedCounter (snd (delivery_step op ds)) = ds_LastCommittedCounter ds"
  by (cases op) (auto simp: ApplyFrame_def ApplyReconcileSignal_def MarkSessionReconcile_def ClearSessionReconcile_def ValidateChainHead_def)

lemma required_run:
  "ds_ReconcileState ds = reconcileStateRequired \<Longrightarrow> \<forall>op \<in> set ops. \<not> ends_reconcile op \<Longrightarrow>
   fst (delivery_run ops ds) = [] \<and> ds_ReconcileState (snd (delivery_run ops ds)) = reconcileStateRequired
     \<and> ds_LastCommittedCounter (snd (delivery_run ops ds)) = ds_LastCommittedCounter ds"
proof (induction ops arbitrary: ds)
  case (Cons op ops)
  then show ?case using required_stays[of ds op] Cons.IH[of "snd (delivery_step op ds)"] by (simp add: case_prod_beta Let_def)
qed simp

text \<open>Unless a reconciliation sets a new counter, the accepted counters are consecutive.\<close>

fun resets :: "delivery_op \<Rightarrow> bool" where
  "resets (DComplete (Some h) c) = True"
| "resets _ = False"

definition run_from :: "64 word \<Rightarrow> nat \<Rightarrow> 64 word list" where
  "run_from c j = map (\<lambda>i. c + of_nat (Suc i)) [0..<j]"

lemma run_from_append: "run_from c j @ run_from (c + of_nat j) k = run_from c (j + k)"
proof (induction k)
  case (Suc k)
  have "run_from c' (Suc n) = run_from c' n @ [c' + of_nat (Suc n)]" for c' n by (simp add: run_from_def)
  then show ?case using Suc by (simp add: algebra_simps flip: append.assoc)
qed (simp add: run_from_def)

lemma run_from_0 [simp]: "run_from c 0 = []" "run_from c (Suc 0) = [c + 1]"
  by (simp_all add: run_from_def)

lemma run_from_zero: "run_from 0 m = counters m"
  by (simp add: run_from_def counters_def)

lemma distinct_run_from: "j \<le> 2 ^ 64 \<Longrightarrow> distinct (run_from c j)"
proof -
  assume "j \<le> 2 ^ 64"
  then have "inj_on (\<lambda>i. c + of_nat (Suc i)) {0..<j}" using counter_inj[of j] by (auto simp: inj_on_def)
  then show ?thesis by (simp add: run_from_def distinct_map)
qed

lemma consecutive_step:
  assumes "\<not> resets op"
  shows "\<exists>j \<le> 1. map snd (fst (delivery_step op ds)) = run_from (ds_LastCommittedCounter ds) j
      \<and> ds_LastCommittedCounter (snd (delivery_step op ds)) = ds_LastCommittedCounter ds + of_nat j"
proof (cases op)
  case (DApply now c dig ev)
  show ?thesis
  proof (cases "ds_ReconcileState ds = reconcileStateRequired \<or> c \<noteq> ds_LastCommittedCounter ds + 1")
    case True
    then show ?thesis by (intro exI[of _ 0]) (auto simp: DApply ApplyFrame_def)
  next
    case False
    then show ?thesis by (intro exI[of _ "Suc 0"]) (simp add: DApply ApplyFrame_def)
  qed
next
  case (DComplete h c)
  then show ?thesis using assms by (cases h) (auto intro!: exI[of _ "0 :: nat"] simp: CompleteReconcile_def)
qed (auto intro!: exI[of _ "0 :: nat"] simp: ApplyReconcileSignal_def MarkSessionReconcile_def ClearSessionReconcile_def
      StartReconcile_def ValidateChainHead_def)

lemma consecutive_run:
  "\<forall>op \<in> set ops. \<not> resets op \<Longrightarrow>
   \<exists>j \<le> length ops. map snd (fst (delivery_run ops ds)) = run_from (ds_LastCommittedCounter ds) j
      \<and> ds_LastCommittedCounter (snd (delivery_run ops ds)) = ds_LastCommittedCounter ds + of_nat j"
proof (induction ops arbitrary: ds)
  case (Cons op ops)
  obtain j where j: "j \<le> 1" "map snd (fst (delivery_step op ds)) = run_from (ds_LastCommittedCounter ds) j"
    "ds_LastCommittedCounter (snd (delivery_step op ds)) = ds_LastCommittedCounter ds + of_nat j"
    using consecutive_step Cons.prems by (metis list.set_intros(1))
  obtain k where k: "k \<le> length ops"
    "map snd (fst (delivery_run ops (snd (delivery_step op ds)))) = run_from (ds_LastCommittedCounter ds + of_nat j) k"
    "ds_LastCommittedCounter (snd (delivery_run ops (snd (delivery_step op ds)))) = ds_LastCommittedCounter ds + of_nat j + of_nat k"
    using Cons.IH[of "snd (delivery_step op ds)"] Cons.prems j(3) by auto
  have "map snd (fst (delivery_run (op # ops) ds)) = run_from (ds_LastCommittedCounter ds) (j + k)"
    using j(2) k(2) by (simp add: case_prod_beta Let_def run_from_append)
  moreover have "ds_LastCommittedCounter (snd (delivery_run (op # ops) ds)) = ds_LastCommittedCounter ds + of_nat (j + k)"
    using k(3) by (simp add: case_prod_beta Let_def)
  ultimately show ?case using j(1) k(1) by (intro exI[of _ "j + k"]) simp
qed (simp add: exI[of _ "0 :: nat"])

lemma frames_accepted:
  "ds_ReconcileState ds \<noteq> reconcileStateRequired \<Longrightarrow>
   map snd (fst (delivery_run (frames now dig ev (run_from (ds_LastCommittedCounter ds) m)) ds)) = run_from (ds_LastCommittedCounter ds) m
   \<and> ds_LastCommittedCounter (snd (delivery_run (frames now dig ev (run_from (ds_LastCommittedCounter ds) m)) ds)) = ds_LastCommittedCounter ds + of_nat m
   \<and> ds_ReconcileState (snd (delivery_run (frames now dig ev (run_from (ds_LastCommittedCounter ds) m)) ds)) = ds_ReconcileState ds"
proof (induction m arbitrary: ds)
  case (Suc m)
  define c where "c = ds_LastCommittedCounter ds"
  define ds1 where "ds1 = snd (delivery_step (DApply now (c + 1) dig ev) ds)"
  have 1: "delivery_step (DApply now (c + 1) dig ev) ds = ([(c, c + 1)], ds1)" "ds_LastCommittedCounter ds1 = c + 1"
    "ds_ReconcileState ds1 = ds_ReconcileState ds"
    using Suc.prems by (simp_all add: ds1_def ApplyFrame_def c_def)
  have "run_from c (Suc m) = (c + 1) # run_from (c + 1) m" using run_from_append[of c 1 m] by simp
  then have "frames now dig ev (run_from c (Suc m)) = DApply now (c + 1) dig ev # frames now dig ev (run_from (c + 1) m)"
    by (simp add: frames_def)
  then show ?case using Suc.IH[of ds1] Suc.prems 1 \<open>run_from c (Suc m) = _\<close>
    by (simp add: c_def[symmetric] case_prod_beta Let_def)
qed (simp add: frames_def)


text \<open>
  A second delivery epoch is refused. A fresh device applies the frames of the first epoch, whose
  counters are \<open>1, \<dots>, m\<close>, without exception; the first frame of any later epoch, whose counter is again 1 (the store starts every
  epoch there), is taken for a gap, sets the state to required, and is not applied. While a reconciliation is in
  progress, on the other hand, a frame that continues the counters is applied.
\<close>

theorem next_epoch_refused:
  assumes "0 < m" "m < 2 ^ 64" "delivery_run (frames now dig ev (counters m)) NewDeliveryState = (acc, ds)"
    and "ConsumePrekey L rnd t d ps = (Inr epoch, ps')"
  shows "map snd acc = counters m
       \<and> fst (ApplyFrame now2 (de_FirstCounter epoch) dig2 ev2 ds) = Some ErrCounterGap
       \<and> IsReconcileRequired (snd (ApplyFrame now2 (de_FirstCounter epoch) dig2 ev2 ds))
       \<and> fst (ApplyFrame now2 (ds_LastCommittedCounter ds + 1) dig2 ev2 (StartReconcile (ApplyReconcileSignal now2 ds))) = None"
proof -
  have f: "ds_LastCommittedCounter NewDeliveryState = 0" "ds_ReconcileState NewDeliveryState \<noteq> reconcileStateRequired"
    by (simp_all add: NewDeliveryState_def reconcile_states)
  have a: "map snd acc = counters m" "ds_LastCommittedCounter ds = of_nat m" "ds_ReconcileState ds = reconcileStateClean"
    using frames_accepted[of NewDeliveryState now dig ev m, OF f(2)] assms(3) unfolding f(1) run_from_zero
    by (simp_all add: NewDeliveryState_def)
  have "de_FirstCounter epoch = 1" using assms(4) by (auto elim!: ConsumePrekey_success)
  moreover have "(of_nat m :: 64 word) \<noteq> 0" using of_nat_64_inj[of m 0] assms(1,2) by simp
  ultimately show ?thesis
    using a by (simp add: ApplyFrame_def IsReconcileRequired_def StartReconcile_def ApplyReconcileSignal_def reconcile_states)
qed


section \<open>The registry of connections\<close>

text \<open>A missing key is the empty list; a connection is a number, \<open>None\<close> is \<^verbatim>\<open>nil\<close>.\<close>

type_synonym DeviceConnRegistry = "string \<Rightarrow> nat list"

datatype conn_action = SentRevoked nat | Closed nat

definition registry_Register :: "string \<Rightarrow> nat option \<Rightarrow> DeviceConnRegistry \<Rightarrow> DeviceConnRegistry" where
  "registry_Register deviceID conn r =
     (case conn of
        None \<Rightarrow> r
      | Some c \<Rightarrow> if deviceID = [] then r else r(deviceID := r deviceID @ [c]))"

definition registry_Unregister :: "string \<Rightarrow> nat option \<Rightarrow> DeviceConnRegistry \<Rightarrow> DeviceConnRegistry" where
  "registry_Unregister deviceID conn r =
     (case conn of
        None \<Rightarrow> r
      | Some c \<Rightarrow> if deviceID = [] then r else r(deviceID := remove1 c (r deviceID)))"

definition registry_DisconnectDevice :: "string \<Rightarrow> DeviceConnRegistry \<Rightarrow> conn_action list \<times> DeviceConnRegistry" where
  "registry_DisconnectDevice deviceID r =
     (concat (map (\<lambda>c. [SentRevoked c, Closed c]) (r deviceID)), r(deviceID := []))"

datatype registry_op = RRegister string "nat option" | RUnregister string "nat option" | RDisconnect string

fun registry_step :: "registry_op \<Rightarrow> conn_action list \<times> DeviceConnRegistry \<Rightarrow> conn_action list \<times> DeviceConnRegistry" where
  "registry_step (RRegister d c) (acts, r) = (acts, registry_Register d c r)"
| "registry_step (RUnregister d c) (acts, r) = (acts, registry_Unregister d c r)"
| "registry_step (RDisconnect d) (acts, r) = (let (a, r) = registry_DisconnectDevice d r in (acts @ a, r))"

lemma registered_stays:
  "RUnregister d (Some c) \<notin> set ops \<Longrightarrow> RDisconnect d \<notin> set ops \<Longrightarrow> c \<in> set (snd s d) \<Longrightarrow> c \<in> set (snd (fold registry_step ops s) d)"
proof (induction ops arbitrary: s)
  case (Cons op ops)
  have "c \<in> set (snd (registry_step op s) d)"
  proof (cases op)
    case (RUnregister d' c')
    then show ?thesis using Cons.prems by (cases s; cases c') (auto simp: registry_Unregister_def in_set_remove1)
  next
    case (RDisconnect d')
    then show ?thesis using Cons.prems by (cases s) (auto simp: registry_DisconnectDevice_def)
  next
    case (RRegister d' c')
    then show ?thesis using Cons.prems by (cases s; cases c') (auto simp: registry_Register_def)
  qed
  then show ?case using Cons by simp
qed simp

text \<open>
  Revoking a device reaches every live connection. A connection that was registered for a device
  and not unregistered since is told of the revocation and then closed when the device is disconnected, whatever
  was registered and unregistered before and between; connections of other devices are not touched,
  and afterwards the device has none.
\<close>

theorem revocation_reaches_connections:
  assumes "d \<noteq> []" "RUnregister d (Some c) \<notin> set later" "RDisconnect d \<notin> set later"
    and "fold registry_step (before @ RRegister d (Some c) # later) ([], \<lambda>_. []) = (acts, r)"
    and "registry_DisconnectDevice d r = (told, r')"
  shows "(\<exists>xs ys. told = xs @ [SentRevoked c, Closed c] @ ys) \<and> r' d = [] \<and> (\<forall>d'. d' \<noteq> d \<longrightarrow> r' d' = r d')
       \<and> (\<forall>c'. Closed c' \<in> set told \<longrightarrow> c' \<in> set (r d))"
proof -
  have "c \<in> set (r d)"
  proof -
    define s where "s = fold registry_step before ([], \<lambda>_. [])"
    have "c \<in> set (snd (registry_step (RRegister d (Some c)) s) d)" using assms(1) by (cases s) (simp add: registry_Register_def)
    from registered_stays[OF assms(2,3) this] show ?thesis using assms(4) by (simp add: s_def)
  qed
  then obtain xs ys where "r d = xs @ c # ys" by (meson split_list)
  then have "told = concat (map (\<lambda>c. [SentRevoked c, Closed c]) xs) @ [SentRevoked c, Closed c] @ concat (map (\<lambda>c. [SentRevoked c, Closed c]) ys)"
    using assms(5) by (auto simp: registry_DisconnectDevice_def)
  then have "\<exists>xs ys. told = xs @ [SentRevoked c, Closed c] @ ys" by blast
  moreover have "r' = r(d := [])" "\<forall>c'. Closed c' \<in> set told \<longrightarrow> c' \<in> set (r d)"
    using assms(5) by (auto simp: registry_DisconnectDevice_def)
  ultimately show ?thesis by auto
qed


section \<open>Witnesses\<close>


theorem next_epoch_refused_witness:
  "fst (ApplyFrame 0 1 [] [] (snd (delivery_run (frames 0 [] [] (counters 3)) NewDeliveryState))) = Some ErrCounterGap"
proof -
  have "\<exists>ep ps'. ConsumePrekey demo_crypto (Some [3]) 0 ''d'' demo_store = (Inr ep, ps')"
    by (simp add: demo_store_def ConsumePrekey_def demo_key_def Let_def demo_derive generateEpochAuthTag_def)
  then obtain ep ps' where c: "ConsumePrekey demo_crypto (Some [3]) 0 ''d'' demo_store = (Inr ep, ps')" by blast
  then have "de_FirstCounter ep = 1" by (auto elim!: ConsumePrekey_success)
  then show ?thesis using next_epoch_refused[OF _ _ surjective_pairing c, of 3 0 "[]" "[]" 0 "[]" "[]"] by simp
qed

theorem revocation_reaches_connections_witness:
  "\<exists>xs ys. fst (registry_DisconnectDevice ''d'' (snd (fold registry_step
      [RRegister ''d'' (Some 1), RRegister ''d'' (Some 2), RRegister ''e'' (Some 3), RUnregister ''d'' (Some 1)] ([], \<lambda>_. []))))
     = xs @ [SentRevoked 2, Closed 2] @ ys"
  using revocation_reaches_connections[of "''d''" 2 "[RRegister ''e'' (Some 3), RUnregister ''d'' (Some 1)]" "[RRegister ''d'' (Some 1)]",
      OF _ _ _ surjective_pairing surjective_pairing]
  by simp

end
