(* ===== verification/Broadcaster.thy ===== *)
theory Broadcaster
  imports Prelude
begin

text \<open>
  Who gets which event (\<^verbatim>\<open>Broadcaster\<close> in \<^verbatim>\<open>go-bridge/types.go\<close>): the connections, the subscribers of a
  session and, per connection, the keys it subscribed to. Every method holds the broadcaster's mutex. A
  connection is a number; the outer Go maps, which \<^verbatim>\<open>Send\<close> and \<^verbatim>\<open>UnsubscribeAll\<close> walk, are association lists.
\<close>

section \<open>State and operations\<close>

record SubscriptionKey =
  sk_BackendID :: string
  sk_SessionID :: string
  sk_Directory :: string

record BroadcastEvent =
  ev_BackendID :: string
  ev_SessionID :: string
  ev_Directory :: string
  ev_Message :: string

record Broadcaster =
  bc_allConns :: "nat set"
  bc_subscribers :: "(SubscriptionKey \<times> nat set) list"
  bc_connSubs :: "(nat \<times> SubscriptionKey set) list"

definition NewBroadcaster :: Broadcaster where
  "NewBroadcaster = \<lparr>bc_allConns = {}, bc_subscribers = [], bc_connSubs = []\<rparr>"

text \<open>A missing key reads as the nil map, which is empty.\<close>

definition lookup_set :: "'k \<Rightarrow> ('k \<times> 'v set) list \<Rightarrow> 'v set" where
  "lookup_set k m = (case map_of m k of None \<Rightarrow> {} | Some vs \<Rightarrow> vs)"

definition RegisterConn :: "nat \<Rightarrow> Broadcaster \<Rightarrow> Broadcaster" where
  "RegisterConn conn b = b\<lparr>bc_allConns := insert conn (bc_allConns b)\<rparr>"

definition Subscribe :: "nat \<Rightarrow> SubscriptionKey \<Rightarrow> Broadcaster \<Rightarrow> Broadcaster" where
  "Subscribe conn key b =
     \<lparr>bc_allConns = insert conn (bc_allConns b),
      bc_subscribers = AList.update key (insert conn (lookup_set key (bc_subscribers b))) (bc_subscribers b),
      bc_connSubs = AList.update conn (insert key (lookup_set conn (bc_connSubs b))) (bc_connSubs b)\<rparr>"

definition remove_conn :: "nat \<Rightarrow> SubscriptionKey set \<Rightarrow> SubscriptionKey \<times> nat set \<Rightarrow> SubscriptionKey \<times> nat set" where
  "remove_conn conn keys x = (fst x, if fst x \<in> keys then snd x - {conn} else snd x)"

definition drop_conn :: "nat \<Rightarrow> SubscriptionKey set \<Rightarrow> (SubscriptionKey \<times> nat set) list \<Rightarrow> (SubscriptionKey \<times> nat set) list" where
  "drop_conn conn keys subs = filter (\<lambda>x. \<not> (fst x \<in> keys \<and> snd x = {})) (map (remove_conn conn keys) subs)"

definition UnsubscribeAll :: "nat \<Rightarrow> Broadcaster \<Rightarrow> Broadcaster" where
  "UnsubscribeAll conn b =
     \<lparr>bc_allConns = bc_allConns b - {conn},
      bc_subscribers = drop_conn conn (lookup_set conn (bc_connSubs b)) (bc_subscribers b),
      bc_connSubs = AList.delete conn (bc_connSubs b)\<rparr>"

text \<open>\<open>device\<close> is the device a connection was authenticated for.\<close>

definition ActiveDeviceIDs :: "(nat \<Rightarrow> string option) \<Rightarrow> Broadcaster \<Rightarrow> string set" where
  "ActiveDeviceIDs device b = the ` (device ` bc_allConns b - {None})"

definition SubscriberDeviceIDs :: "(nat \<Rightarrow> string option) \<Rightarrow> string \<Rightarrow> string \<Rightarrow> Broadcaster \<Rightarrow> string set" where
  "SubscriberDeviceIDs device backendID sessionID b =
     the ` (device ` \<Union> (set (map snd (filter (\<lambda>(k, cs). sk_BackendID k = backendID \<and> sk_SessionID k = sessionID) (bc_subscribers b)))) - {None})"

text \<open>Writing to the nil map of a connection without subscriptions panics: \<open>None\<close>.\<close>

definition Rebind :: "string \<Rightarrow> string \<Rightarrow> string \<Rightarrow> string \<Rightarrow> Broadcaster \<Rightarrow> Broadcaster option" where
  "Rebind oldID newID backendID directory b =
     (let oldKey = \<lparr>sk_BackendID = backendID, sk_SessionID = oldID, sk_Directory = directory\<rparr>;
          newKey = \<lparr>sk_BackendID = backendID, sk_SessionID = newID, sk_Directory = directory\<rparr>
      in case map_of (bc_subscribers b) oldKey of
           None \<Rightarrow> Some b
         | Some conns \<Rightarrow>
             (if \<not> conns \<subseteq> fst ` set (bc_connSubs b) then None
              else Some (b\<lparr>bc_subscribers := AList.delete oldKey (AList.update newKey conns (bc_subscribers b)),
                           bc_connSubs := map (\<lambda>(c, ks). (c, if c \<in> conns then insert newKey ks - {oldKey} else ks)) (bc_connSubs b)\<rparr>)))"

definition subscribers_where :: "(SubscriptionKey \<Rightarrow> bool) \<Rightarrow> Broadcaster \<Rightarrow> nat set" where
  "subscribers_where P b = \<Union> (set (map snd (filter (\<lambda>(k, cs). P k) (bc_subscribers b))))"

text \<open>The connections a message is sent to.\<close>

definition send_targets :: "BroadcastEvent \<Rightarrow> Broadcaster \<Rightarrow> nat set" where
  "send_targets ev b =
     (let key = \<lparr>sk_BackendID = ev_BackendID ev, sk_SessionID = ev_SessionID ev, sk_Directory = ev_Directory ev\<rparr>;
          targets = lookup_set key (bc_subscribers b);
          targets = (if ev_Directory ev \<noteq> [] then targets \<union> lookup_set (key\<lparr>sk_Directory := []\<rparr>) (bc_subscribers b) else targets);
          targets = (if ev_Directory ev = []
                     then targets \<union> subscribers_where (\<lambda>k. sk_BackendID k = ev_BackendID ev \<and> sk_SessionID k = ev_SessionID ev
                                                         \<and> sk_Directory k \<noteq> []) b
                     else targets);
          targets = (if targets = {} then subscribers_where (\<lambda>k. sk_BackendID k = ev_BackendID ev) b else targets)
      in if targets = {} then bc_allConns b else targets)"


section \<open>The two indexes\<close>

definition broadcaster_ok :: "Broadcaster \<Rightarrow> bool" where
  "broadcaster_ok b \<longleftrightarrow> distinct (map fst (bc_subscribers b)) \<and> distinct (map fst (bc_connSubs b))
     \<and> (\<forall>k. map_of (bc_subscribers b) k \<noteq> Some {})
     \<and> (\<forall>k c. c \<in> lookup_set k (bc_subscribers b) \<longrightarrow> c \<in> bc_allConns b \<and> k \<in> lookup_set c (bc_connSubs b))"

datatype broadcaster_op =
    BRegister nat
  | BSubscribe nat SubscriptionKey
  | BUnsubscribe nat
  | BRebind string string string string

fun broadcaster_step :: "broadcaster_op \<Rightarrow> Broadcaster \<Rightarrow> Broadcaster option" where
  "broadcaster_step (BRegister c) b = Some (RegisterConn c b)"
| "broadcaster_step (BSubscribe c k) b = Some (Subscribe c k b)"
| "broadcaster_step (BUnsubscribe c) b = Some (UnsubscribeAll c b)"
| "broadcaster_step (BRebind old new backend dir) b = Rebind old new backend dir b"

fun broadcaster_run :: "broadcaster_op list \<Rightarrow> Broadcaster \<Rightarrow> Broadcaster option" where
  "broadcaster_run [] b = Some b"
| "broadcaster_run (op # ops) b = (case broadcaster_step op b of None \<Rightarrow> None | Some b \<Rightarrow> broadcaster_run ops b)"

text \<open>
  The specification: the connections present, and who is subscribed to what. Rebinding moves the
  subscribers of the old key to the new one and replaces those the new key had.
\<close>

record audience =
  au_conns :: "nat set"
  au_subs :: "(nat \<times> SubscriptionKey) set"

definition session_key :: "string \<Rightarrow> string \<Rightarrow> string \<Rightarrow> SubscriptionKey" where
  "session_key backend session dir = \<lparr>sk_BackendID = backend, sk_SessionID = session, sk_Directory = dir\<rparr>"

fun audience_step :: "broadcaster_op \<Rightarrow> audience \<Rightarrow> audience" where
  "audience_step (BRegister c) a = a\<lparr>au_conns := insert c (au_conns a)\<rparr>"
| "audience_step (BSubscribe c k) a = \<lparr>au_conns = insert c (au_conns a), au_subs = insert (c, k) (au_subs a)\<rparr>"
| "audience_step (BUnsubscribe c) a = \<lparr>au_conns = au_conns a - {c}, au_subs = {(c', k) \<in> au_subs a. c' \<noteq> c}\<rparr>"
| "audience_step (BRebind old new backend dir) a =
     (let old = session_key backend old dir; new = session_key backend new dir;
          moved = {c. (c, old) \<in> au_subs a}
      in if moved = {} then a
         else a\<lparr>au_subs := {(c, k) \<in> au_subs a. k \<noteq> old \<and> k \<noteq> new} \<union> (if old = new then {} else moved \<times> {new})\<rparr>)"

definition audience_of :: "Broadcaster \<Rightarrow> audience" where
  "audience_of b = \<lparr>au_conns = bc_allConns b, au_subs = {(c, k). c \<in> lookup_set k (bc_subscribers b)}\<rparr>"

text \<open>Who an event is for, over the specification.\<close>

definition subscribed :: "(SubscriptionKey \<Rightarrow> bool) \<Rightarrow> audience \<Rightarrow> nat set" where
  "subscribed P a = {c. \<exists>k. (c, k) \<in> au_subs a \<and> P k}"

definition covers :: "BroadcastEvent \<Rightarrow> SubscriptionKey \<Rightarrow> bool" where
  "covers ev k \<longleftrightarrow> sk_BackendID k = ev_BackendID ev \<and> sk_SessionID k = ev_SessionID ev
     \<and> (ev_Directory ev = [] \<or> sk_Directory k = [] \<or> sk_Directory k = ev_Directory ev)"

definition audience_targets :: "BroadcastEvent \<Rightarrow> audience \<Rightarrow> nat set" where
  "audience_targets ev a =
     (if subscribed (covers ev) a \<noteq> {} then subscribed (covers ev) a
      else if subscribed (\<lambda>k. sk_BackendID k = ev_BackendID ev) a \<noteq> {} then subscribed (\<lambda>k. sk_BackendID k = ev_BackendID ev) a
      else au_conns a)"

lemma lookup_set_update: "lookup_set k (AList.update k' v m) = (if k = k' then v else lookup_set k m)"
  by (simp add: lookup_set_def update_conv')

lemma lookup_set_delete: "lookup_set k (AList.delete k' m) = (if k = k' then {} else lookup_set k m)"
  by (simp add: lookup_set_def delete_conv')

lemma lookup_set_map: "lookup_set k (map (\<lambda>(k, vs). (k, f k vs)) m) = (if k \<in> fst ` set m then f k (lookup_set k m) else {})"
proof (induction m)
  case (Cons x m)
  then show ?case by (cases x; cases "k = fst x") (simp_all add: lookup_set_def)
qed (simp add: lookup_set_def)

lemma lookup_set_mem: "distinct (map fst m) \<Longrightarrow> (k, vs) \<in> set m \<Longrightarrow> lookup_set k m = vs"
  by (simp add: lookup_set_def)

lemma lookup_set_in: "v \<in> lookup_set k m \<Longrightarrow> (k, lookup_set k m) \<in> set m"
  by (auto simp: lookup_set_def dest: map_of_SomeD split: option.splits)

lemma distinct_drop_conn: "distinct (map fst m) \<Longrightarrow> distinct (map fst (drop_conn c ks m))"
  unfolding drop_conn_def by (rule distinct_map_filter) (simp add: remove_conn_def comp_def)

lemma map_of_drop_conn:
  "distinct (map fst m) \<Longrightarrow> map_of (drop_conn c ks m) k =
     (case map_of m k of None \<Rightarrow> None
      | Some cs \<Rightarrow> if k \<in> ks then if cs \<subseteq> {c} then None else Some (cs - {c}) else Some cs)"
proof (induction m)
  case (Cons x m)
  obtain k' cs where x: "x = (k', cs)" by (cases x)
  have d: "drop_conn c ks (x # m) = (if k' \<in> ks \<and> cs \<subseteq> {c} then [] else [(k', if k' \<in> ks then cs - {c} else cs)]) @ drop_conn c ks m"
    by (simp add: drop_conn_def remove_conn_def x)
  show ?case
  proof (cases "k = k'")
    case True
    then have "map_of m k = None" using Cons.prems by (simp add: x map_of_eq_None_iff)
    then show ?thesis using Cons True unfolding d by (simp add: x)
  next
    case False
    then show ?thesis using Cons unfolding d by (simp add: x)
  qed
qed (simp add: drop_conn_def)

lemma lookup_drop_conn:
  "distinct (map fst m) \<Longrightarrow> lookup_set k (drop_conn c ks m) = (if k \<in> ks then lookup_set k m - {c} else lookup_set k m)"
  by (auto simp: lookup_set_def map_of_drop_conn split: option.splits if_splits)

lemma lookup_set_none: "k \<notin> fst ` set m \<Longrightarrow> lookup_set k m = {}"
  by (simp add: lookup_set_def map_of_eq_None_iff[THEN iffD2])

lemma au_subs_audience: "(c, k) \<in> au_subs (audience_of b) \<longleftrightarrow> c \<in> lookup_set k (bc_subscribers b)"
  by (simp add: audience_of_def)

lemma audience_eqI: "au_conns a = au_conns a' \<Longrightarrow> (\<And>c k. (c, k) \<in> au_subs a \<longleftrightarrow> (c, k) \<in> au_subs a') \<Longrightarrow> a = (a' :: audience)"
  by (rule audience.equality) auto

text \<open>One step of the code is one step of the specification; in particular rebinding never panics.\<close>

definition step_refines :: "broadcaster_op \<Rightarrow> Broadcaster \<Rightarrow> bool" where
  "step_refines op b \<longleftrightarrow>
     (\<exists>b'. broadcaster_step op b = Some b' \<and> broadcaster_ok b' \<and> audience_of b' = audience_step op (audience_of b))"

lemma refines_register: "broadcaster_ok b \<Longrightarrow> step_refines (BRegister c) b"
  by (simp add: step_refines_def RegisterConn_def broadcaster_ok_def audience_of_def)

lemma refines_subscribe:
  assumes "broadcaster_ok b"
  shows "step_refines (BSubscribe c k) b"
proof -
  have "broadcaster_ok (Subscribe c k b)"
    using assms by (auto simp: Subscribe_def broadcaster_ok_def lookup_set_update distinct_update update_conv' split: if_splits)
  moreover have "audience_of (Subscribe c k b) = audience_step (BSubscribe c k) (audience_of b)"
    by (rule audience_eqI) (auto simp: audience_of_def Subscribe_def lookup_set_update)
  ultimately show ?thesis by (simp add: step_refines_def)
qed

lemma refines_unsubscribe:
  assumes "broadcaster_ok b"
  shows "step_refines (BUnsubscribe c) b"
proof -
  let ?b = "UnsubscribeAll c b"
  have d: "distinct (map fst (bc_subscribers b))" using assms by (simp add: broadcaster_ok_def)
  have l: "lookup_set k (bc_subscribers ?b) = lookup_set k (bc_subscribers b) - {c}" for k
    using assms by (auto simp: UnsubscribeAll_def broadcaster_ok_def lookup_drop_conn)
  have "map_of (bc_subscribers ?b) k \<noteq> Some {}" for k
    using assms map_of_drop_conn[OF d] by (auto simp: UnsubscribeAll_def broadcaster_ok_def split: option.splits)
  then have "broadcaster_ok ?b" unfolding broadcaster_ok_def l
    using assms by (auto simp: broadcaster_ok_def UnsubscribeAll_def distinct_drop_conn distinct_delete lookup_set_delete)
  moreover have "audience_of ?b = audience_step (BUnsubscribe c) (audience_of b)"
    by (rule audience_eqI; simp add: audience_of_def l) (auto simp: UnsubscribeAll_def)
  ultimately show ?thesis by (simp add: step_refines_def)
qed

lemma refines_rebind:
  assumes "broadcaster_ok b"
  shows "step_refines (BRebind old new backend dir) b"
proof -
  let ?old = "session_key backend old dir" and ?new = "session_key backend new dir"
  note keys = session_key_def[symmetric]
  show ?thesis
  proof (cases "map_of (bc_subscribers b) ?old")
    case None
    then have "lookup_set ?old (bc_subscribers b) = {}" by (simp add: lookup_set_def)
    then show ?thesis using assms None by (simp add: step_refines_def Rebind_def keys au_subs_audience)
  next
    case (Some conns)
    have l: "lookup_set ?old (bc_subscribers b) = conns" using Some by (simp add: lookup_set_def)
    have ne: "conns \<noteq> {}" using assms Some by (auto simp: broadcaster_ok_def)
    have sub: "conns \<subseteq> fst ` set (bc_connSubs b)"
      using assms l lookup_set_none[of _ "bc_connSubs b"] by (force simp: broadcaster_ok_def)
    define b' where "b' = b\<lparr>bc_subscribers := AList.delete ?old (AList.update ?new conns (bc_subscribers b)),
        bc_connSubs := map (\<lambda>(c, ks). (c, if c \<in> conns then insert ?new ks - {?old} else ks)) (bc_connSubs b)\<rparr>"
    have r: "Rebind old new backend dir b = Some b'" using Some sub by (simp add: Rebind_def keys b'_def Let_def)
    have subs: "lookup_set k (bc_subscribers b') = (if k = ?old then {} else if k = ?new then conns else lookup_set k (bc_subscribers b))" for k
      by (simp add: b'_def lookup_set_delete lookup_set_update)
    have ks: "lookup_set c (bc_connSubs b') = (if c \<in> conns then insert ?new (lookup_set c (bc_connSubs b)) - {?old}
        else lookup_set c (bc_connSubs b))" for c
      using sub lookup_set_none[of c "bc_connSubs b"] by (auto simp: b'_def lookup_set_map)
    have fsts: "map fst (bc_connSubs b') = map fst (bc_connSubs b)" by (simp add: b'_def case_prod_beta comp_def)
    have conns': "bc_allConns b' = bc_allConns b" by (simp add: b'_def)
    have "distinct (map fst (bc_subscribers b'))" using assms by (simp add: b'_def broadcaster_ok_def distinct_delete distinct_update)
    moreover have "map_of (bc_subscribers b') k \<noteq> Some {}" for k
      using assms ne by (auto simp: b'_def delete_conv' update_conv' broadcaster_ok_def)
    ultimately have "broadcaster_ok b'" unfolding broadcaster_ok_def subs ks fsts conns'
      using assms l by (auto simp: broadcaster_ok_def)
    moreover have "audience_of b' = audience_step (BRebind old new backend dir) (audience_of b)"
      using ne l by (intro audience_eqI) (auto simp: au_subs_audience subs Let_def audience_of_def, simp_all add: b'_def)
    ultimately show ?thesis using r by (simp add: step_refines_def)
  qed
qed

lemma refines_step: "broadcaster_ok b \<Longrightarrow> step_refines op b"
  by (cases op) (simp_all add: refines_register refines_subscribe refines_unsubscribe refines_rebind)

lemma refines_run:
  "broadcaster_ok b \<Longrightarrow>
   \<exists>b'. broadcaster_run ops b = Some b' \<and> broadcaster_ok b' \<and> audience_of b' = fold audience_step ops (audience_of b)"
proof (induction ops arbitrary: b)
  case (Cons op ops)
  obtain b1 where "broadcaster_step op b = Some b1" "broadcaster_ok b1" "audience_of b1 = audience_step op (audience_of b)"
    using refines_step[OF Cons.prems, of op] by (auto simp: step_refines_def)
  then show ?case using Cons.IH[of b1] by simp
qed simp

lemma subscribers_where_audience:
  assumes "broadcaster_ok b"
  shows "subscribers_where P b = subscribed P (audience_of b)"
proof -
  have "(\<exists>cs. (k, cs) \<in> set (bc_subscribers b) \<and> c \<in> cs) \<longleftrightarrow> c \<in> lookup_set k (bc_subscribers b)" for k c
    using assms lookup_set_mem[of "bc_subscribers b" k] lookup_set_in[of c k "bc_subscribers b"] by (auto simp: broadcaster_ok_def)
  then show ?thesis by (auto simp: subscribers_where_def subscribed_def au_subs_audience) blast+
qed

lemma send_targets_audience:
  assumes "broadcaster_ok b"
  shows "send_targets ev b = audience_targets ev (audience_of b)"
proof -
  let ?key = "\<lparr>sk_BackendID = ev_BackendID ev, sk_SessionID = ev_SessionID ev, sk_Directory = ev_Directory ev\<rparr>"
  let ?whole = "\<lambda>k. sk_BackendID k = ev_BackendID ev \<and> sk_SessionID k = ev_SessionID ev \<and> sk_Directory k \<noteq> []"
  have key: "k = ?key \<longleftrightarrow> sk_BackendID k = ev_BackendID ev \<and> sk_SessionID k = ev_SessionID ev \<and> sk_Directory k = ev_Directory ev" for k
    by (cases k) auto
  have key0: "k = ?key\<lparr>sk_Directory := []\<rparr> \<longleftrightarrow> sk_BackendID k = ev_BackendID ev \<and> sk_SessionID k = ev_SessionID ev \<and> sk_Directory k = []" for k
    by (cases k) auto
  have one: "lookup_set k0 (bc_subscribers b) = subscribed (\<lambda>k. k = k0) (audience_of b)" for k0
    by (auto simp: subscribed_def au_subs_audience)
  have un: "subscribed P a \<union> subscribed Q a = subscribed (\<lambda>k. P k \<or> Q k) a" for P Q a by (auto simp: subscribed_def)
  have cover: "subscribed (covers ev) (audience_of b) =
      (if ev_Directory ev \<noteq> [] then lookup_set ?key (bc_subscribers b) \<union> lookup_set (?key\<lparr>sk_Directory := []\<rparr>) (bc_subscribers b)
       else lookup_set ?key (bc_subscribers b) \<union> subscribers_where ?whole b)"
    unfolding one subscribers_where_audience[OF assms] un unfolding key key0
    by (cases "ev_Directory ev = []") (auto intro!: arg_cong[where f = "\<lambda>P. subscribed P _"] simp: covers_def)
  show ?thesis
    unfolding audience_targets_def cover unfolding subscribers_where_audience[OF assms, symmetric]
    by (auto simp: send_targets_def Let_def audience_of_def)
qed


section \<open>Who gets an event\<close>

text \<open>
  C34. The two indexes of the broadcaster implement one subscription relation. After any sequence of registrations,
  subscriptions, departures and rebindings, starting empty, none of which panics on a nil map, the connections an
  event goes to are those the relation gives: the subscribers of the session (in its directory, without
  a directory, or in any when the event has none); if there are none, all subscribers of the backend; if
  there are none either, every connection.
\<close>

theorem broadcast_refines_audience:
  "\<exists>b. broadcaster_run ops NewBroadcaster = Some b
     \<and> (\<forall>ev. send_targets ev b = audience_targets ev (fold audience_step ops \<lparr>au_conns = {}, au_subs = {}\<rparr>))"
proof -
  have "broadcaster_ok NewBroadcaster" by (simp add: NewBroadcaster_def broadcaster_ok_def lookup_set_def)
  moreover have "audience_of NewBroadcaster = \<lparr>au_conns = {}, au_subs = {}\<rparr>" by (simp add: NewBroadcaster_def audience_of_def lookup_set_def)
  ultimately show ?thesis using refines_run[of NewBroadcaster ops] send_targets_audience by auto
qed

definition rebind_demo :: "broadcaster_op list" where
  "rebind_demo = [BSubscribe 1 (session_key ''claude'' ''s'' []), BSubscribe 2 (session_key ''claude'' ''pending-1'' []),
     BRebind ''pending-1'' ''s'' ''claude'' []]"

lemma rebind_loses_subscribers:
  "\<exists>b. broadcaster_run rebind_demo NewBroadcaster = Some b
     \<and> send_targets \<lparr>ev_BackendID = ''claude'', ev_SessionID = ''s'', ev_Directory = [], ev_Message = m\<rparr> b = {2}"
  by (simp add: rebind_demo_def NewBroadcaster_def Subscribe_def Rebind_def session_key_def lookup_set_def send_targets_def
      subscribers_where_def Let_def)

text \<open>
  No event is lost while a connection is there, and none reaches a connection that left. Whatever happened
  before, as long as some connection is registered every event has a target; and after a connection was
  unsubscribed and until it registers or subscribes again, no event goes to it, whatever the others do in
  between, rebindings of the keys it had included.
\<close>

theorem departed_connection_silent:
  assumes "broadcaster_run (before @ BUnsubscribe c # later) NewBroadcaster = Some b"
    and "\<forall>op \<in> set later. op \<noteq> BRegister c \<and> (\<forall>k. op \<noteq> BSubscribe c k)"
  shows "c \<notin> send_targets ev b \<and> (bc_allConns b \<noteq> {} \<longrightarrow> send_targets ev b \<noteq> {})"
proof -
  define a0 where "a0 = audience_step (BUnsubscribe c) (fold audience_step before \<lparr>au_conns = {}, au_subs = {}\<rparr>)"
  have ok0: "broadcaster_ok NewBroadcaster" "audience_of NewBroadcaster = \<lparr>au_conns = {}, au_subs = {}\<rparr>"
    by (simp_all add: NewBroadcaster_def broadcaster_ok_def audience_of_def lookup_set_def)
  have b: "broadcaster_ok b" "audience_of b = fold audience_step later a0"
    using refines_run[OF ok0(1), of "before @ BUnsubscribe c # later"] assms(1) ok0(2) by (auto simp: a0_def)
  have absent: "\<forall>op \<in> set ops. op \<noteq> BRegister c \<and> (\<forall>k. op \<noteq> BSubscribe c k) \<Longrightarrow> c \<notin> au_conns a \<Longrightarrow> \<forall>k. (c, k) \<notin> au_subs a
      \<Longrightarrow> c \<notin> au_conns (fold audience_step ops a) \<and> (\<forall>k. (c, k) \<notin> au_subs (fold audience_step ops a))" for ops a
  proof (induction ops arbitrary: a)
    case (Cons op ops)
    have "c \<notin> au_conns (audience_step op a) \<and> (\<forall>k. (c, k) \<notin> au_subs (audience_step op a))"
      using Cons.prems by (cases op) (auto simp: Let_def)
    then show ?case using Cons.IH[of "audience_step op a"] Cons.prems(1) by simp
  qed simp
  have "c \<notin> au_conns (audience_of b) \<and> (\<forall>k. (c, k) \<notin> au_subs (audience_of b))"
    unfolding b(2) by (rule absent) (use assms(2) in \<open>auto simp: a0_def\<close>)
  then show ?thesis unfolding send_targets_audience[OF b(1)]
    by (auto simp: audience_targets_def subscribed_def audience_of_def)
qed

theorem departed_connection_silent_witness:
  "\<exists>b. broadcaster_run [BSubscribe 1 (session_key ''x'' ''s'' []), BUnsubscribe 1, BRegister 2] NewBroadcaster = Some b
     \<and> 1 \<notin> send_targets \<lparr>ev_BackendID = ''x'', ev_SessionID = ''s'', ev_Directory = [], ev_Message = []\<rparr> b"
proof -
  obtain b where b: "broadcaster_run ([BSubscribe 1 (session_key ''x'' ''s'' [])] @ BUnsubscribe 1 # [BRegister 2]) NewBroadcaster = Some b"
    by simp
  then show ?thesis using departed_connection_silent[OF b] by auto
qed


section \<open>Notifications for devices that were asleep\<close>

record PendingNotification =
  pn_SessionID :: string
  pn_BackendID :: string
  pn_Directory :: string
  pn_Title :: string
  pn_Reason :: string
  pn_Message :: string
  pn_CompletedAt :: gotime

text \<open>A missing device reads as the empty list.\<close>

type_synonym PendingNotificationStore = "string \<Rightarrow> PendingNotification list"

definition NewPendingNotificationStore :: PendingNotificationStore where
  "NewPendingNotificationStore = (\<lambda>_. [])"

definition record_notification :: "string \<Rightarrow> PendingNotification \<Rightarrow> PendingNotificationStore \<Rightarrow> PendingNotificationStore" where
  "record_notification deviceID n items =
     (let items = items(deviceID := items deviceID @ [n])
      in if 50 < length (items deviceID) then items(deviceID := drop (length (items deviceID) - 50) (items deviceID)) else items)"

definition consume_notifications :: "string \<Rightarrow> PendingNotificationStore \<Rightarrow> PendingNotification list \<times> PendingNotificationStore" where
  "consume_notifications deviceID items = (items deviceID, items(deviceID := []))"

datatype notification_op = NRecord string PendingNotification | NConsume string

fun notification_step :: "notification_op \<Rightarrow> PendingNotificationStore \<Rightarrow> PendingNotificationStore" where
  "notification_step (NRecord d n) items = record_notification d n items"
| "notification_step (NConsume d) items = snd (consume_notifications d items)"

text \<open>What was recorded for a device since it last asked.\<close>

fun unseen :: "string \<Rightarrow> notification_op list \<Rightarrow> PendingNotification list \<Rightarrow> PendingNotification list" where
  "unseen d [] ns = ns"
| "unseen d (NRecord d' n # ops) ns = unseen d ops (if d' = d then ns @ [n] else ns)"
| "unseen d (NConsume d' # ops) ns = unseen d ops (if d' = d then [] else ns)"

definition latest :: "nat \<Rightarrow> 'a list \<Rightarrow> 'a list" where
  "latest n xs = drop (length xs - n) xs"

lemma latest_snoc: "0 < n \<Longrightarrow> latest n (latest n xs @ [x]) = latest n (xs @ [x])"
proof -
  assume n: "0 < n"
  show ?thesis
  proof (cases "length xs \<le> n")
    case False
    then have "length (latest n xs @ [x]) = Suc n" by (simp add: latest_def)
    then have "latest n (latest n xs @ [x]) = drop 1 (latest n xs @ [x])" by (simp add: latest_def)
    also have "\<dots> = drop 1 (drop (length xs - n) xs) @ [x]" using False n by (simp add: latest_def)
    also have "\<dots> = drop (Suc (length xs) - n) xs @ [x]" using False by (simp add: Suc_diff_le)
    also have "\<dots> = latest n (xs @ [x])" using False n by (simp add: latest_def)
    finally show ?thesis .
  qed (simp add: latest_def)
qed

lemma record_notification_latest: "record_notification d n items = items(d := latest 50 (items d @ [n]))"
  by (auto simp: record_notification_def latest_def Let_def)

text \<open>
  A device that comes back is told the last fifty things it missed. For any interleaving of
  notifications and requests of all devices, the answer to a request holds exactly the notifications recorded for the
  device since its previous request, in their order, of more than fifty the latest fifty.
\<close>

theorem notifications_kept:
  "fst (consume_notifications d (fold notification_step ops NewPendingNotificationStore)) = latest 50 (unseen d ops [])"
proof -
  have "items d = latest 50 ns \<Longrightarrow> fold notification_step ops items d = latest 50 (unseen d ops ns)" for items ns
  proof (induction ops arbitrary: items ns)
    case (Cons op ops)
    have 50: "latest 50 (latest 50 ns @ [n]) = latest 50 (ns @ [n])" for n by (rule latest_snoc) simp
    show ?case
    proof (cases op)
      case (NRecord d' n)
      have "notification_step op items d = latest 50 (if d' = d then ns @ [n] else ns)"
        using Cons.prems 50[of n] by (cases "d' = d") (simp_all add: NRecord record_notification_latest)
      then show ?thesis using Cons.IH[of "notification_step op items" "if d' = d then ns @ [n] else ns"]
        unfolding NRecord fold_Cons unseen.simps comp_apply by simp
    next
      case (NConsume d')
      have "notification_step op items d = latest 50 (if d' = d then [] else ns)"
        using Cons.prems by (simp add: NConsume consume_notifications_def latest_def)
      then show ?thesis using Cons.IH[of "notification_step op items" "if d' = d then [] else ns"]
        unfolding NConsume fold_Cons unseen.simps comp_apply by simp
    qed
  qed simp
  then show ?thesis by (simp add: consume_notifications_def NewPendingNotificationStore_def latest_def)
qed

end
