(* ===== verification/Device_Directory.thy ===== *)
theory Device_Directory
  imports Device_Auth
begin

text \<open>
  The interface \<^verbatim>\<open>TrustedDeviceStore\<close> of \<^verbatim>\<open>go-bridge/trusted_device_store.go\<close> as its clients use it: records
  looked up by device, and the four operations that change them. Its laws say what a lookup returns after
  each operation; the in-memory and the file-backed store both satisfy them.
\<close>

datatype directory_op =
    DirAdd TrustedDeviceRecord
  | DirReplace TrustedDeviceRecord
  | DirEnable string string "64 word"
  | DirRevoke gotime string

text \<open>When an operation may succeed, and what it does to the records then.\<close>

fun directory_guard :: "directory_op \<Rightarrow> (string \<rightharpoonup> TrustedDeviceRecord) \<Rightarrow> bool" where
  "directory_guard (DirAdd rec) m = (m (td_DeviceID rec) = None)"
| "directory_guard (DirReplace rec) m = True"
| "directory_guard (DirEnable d key gen) m =
     (\<exists>rec. m d = Some rec \<and> td_RevokedAt rec = None \<and> (td_IdentityPublicKey rec = [] \<or> td_IdentityPublicKey rec = key))"
| "directory_guard (DirRevoke now d) m = (m d \<noteq> None)"

definition same_legacy :: "TrustedDeviceRecord \<Rightarrow> TrustedDeviceRecord \<Rightarrow> bool" where
  "same_legacy rec existing \<longleftrightarrow> td_Platform existing = td_Platform rec \<and> td_DisplayName existing = td_DisplayName rec"

fun directory_effect :: "directory_op \<Rightarrow> (string \<rightharpoonup> TrustedDeviceRecord) \<Rightarrow> string \<rightharpoonup> TrustedDeviceRecord" where
  "directory_effect (DirAdd rec) m = m(td_DeviceID rec \<mapsto> rec)"
| "directory_effect (DirReplace rec) m =
     (\<lambda>d. case m d of None \<Rightarrow> None | Some e \<Rightarrow> if same_legacy rec e then None else Some e)(td_DeviceID rec \<mapsto> rec)"
| "directory_effect (DirEnable d key gen) m =
     m(d := map_option (\<lambda>rec. rec\<lparr>td_IdentityPublicKey := key, td_RelayEnabled := True, td_RelayChannelGeneration := gen\<rparr>) (m d))"
| "directory_effect (DirRevoke now d) m = m(d := map_option (\<lambda>rec. rec\<lparr>td_RevokedAt := Some now\<rparr>) (m d))"

definition usable :: "string \<Rightarrow> (string \<rightharpoonup> TrustedDeviceRecord) \<Rightarrow> bool" where
  "usable d m \<longleftrightarrow> (\<exists>rec. m d = Some rec \<and> td_RevokedAt rec = None)"

fun pairs_device :: "string \<Rightarrow> directory_op \<Rightarrow> bool" where
  "pairs_device d (DirAdd rec) = (td_DeviceID rec = d)"
| "pairs_device d (DirReplace rec) = (td_DeviceID rec = d)"
| "pairs_device d _ = False"

lemma effect_not_usable:
  "\<not> usable d m \<Longrightarrow> directory_guard op m \<Longrightarrow> \<not> pairs_device d op \<Longrightarrow> \<not> usable d (directory_effect op m)"
  by (cases op) (auto simp: usable_def split: option.splits if_splits)

locale device_directory =
  fixes lookup :: "'s \<Rightarrow> string \<Rightarrow> TrustedDeviceRecord option"
    and step :: "directory_op \<Rightarrow> 's \<Rightarrow> bool \<times> 's"
    and ok :: "'s \<Rightarrow> bool"
  assumes kept: "ok s \<Longrightarrow> ok (snd (step op s))"
    and failed: "\<not> fst (step op s) \<Longrightarrow> lookup (snd (step op s)) = lookup s"
    and done_only: "fst (step op s) \<Longrightarrow> directory_guard op (lookup s)"
    and effect: "ok s \<Longrightarrow> fst (step op s) \<Longrightarrow> lookup (snd (step op s)) = directory_effect op (lookup s)"
begin

lemma revoke_disables: "ok s \<Longrightarrow> fst (step (DirRevoke now d) s) \<Longrightarrow> \<not> usable d (lookup (snd (step (DirRevoke now d) s)))"
  by (auto simp: effect usable_def)

text \<open>A device that cannot be used stays so until it is paired again.\<close>

lemma stays_disabled:
  assumes "ok s" and "\<not> usable d (lookup s)" and "\<not> pairs_device d op"
  shows "\<not> usable d (lookup (snd (step op s)))"
  using assms by (cases "fst (step op s)") (simp_all add: failed effect effect_not_usable[OF _ done_only])

lemma usable_only_paired:
  assumes "ok s" and "\<not> usable d (lookup s)" and "\<forall>op \<in> set ops. \<not> pairs_device d op"
  shows "ok (fold (\<lambda>op s. snd (step op s)) ops s) \<and> \<not> usable d (lookup (fold (\<lambda>op s. snd (step op s)) ops s))"
  using assms by (induction ops arbitrary: s) (simp_all add: stays_disabled kept)

end


section \<open>The two stores\<close>

fun memory_step :: "directory_op \<Rightarrow> MemoryDeviceStore \<Rightarrow> bool \<times> MemoryDeviceStore" where
  "memory_step (DirAdd rec) s = (case AddDevice rec s of Inl e \<Rightarrow> (False, s) | Inr s' \<Rightarrow> (True, s'))"
| "memory_step (DirReplace rec) s = (True, snd (ReplaceDevice rec s))"
| "memory_step (DirEnable d key gen) s = (case EnableRelay d key gen s of Inl e \<Rightarrow> (False, s) | Inr s' \<Rightarrow> (True, s'))"
| "memory_step (DirRevoke now d) s = (case RevokeTrusted now d s of Inl e \<Rightarrow> (False, s) | Inr s' \<Rightarrow> (True, s'))"

fun file_step :: "faults \<Rightarrow> directory_op \<Rightarrow> FileDeviceStore \<Rightarrow> bool \<times> FileDeviceStore" where
  "file_step f (DirAdd rec) s = (let (r, s) = fds_AddDevice f rec s in (\<not> isl r, s))"
| "file_step f (DirReplace rec) s = (let (r, s) = fds_ReplaceDevice f rec s in (\<not> isl r, s))"
| "file_step f (DirEnable d key gen) s = (let (r, s) = fds_EnableRelay f d key gen s in (\<not> isl r, s))"
| "file_step f (DirRevoke now d) s = (let (r, s) = fds_RevokeDevice f now d s in (\<not> isl r, s))"

text \<open>Both keep one entry per device.\<close>

definition one_entry :: "MemoryDeviceStore \<Rightarrow> bool" where
  "one_entry s \<longleftrightarrow> distinct (map fst (ds_byID s))"

lemma put_device_byID: "ds_byID (put_device rec s) = AList.update (td_DeviceID rec) rec (ds_byID s)"
  by (simp add: put_device_def)

lemma ReplaceDevice_byID:
  "ds_byID (snd (ReplaceDevice rec s)) = AList.update (td_DeviceID rec) rec (filter (\<lambda>x. \<not> same_device rec x) (ds_byID s))"
  by (simp add: ReplaceDevice_def Let_def put_device_byID)

lemma same_device_pair: "same_device rec (d, e) \<longleftrightarrow> d = td_DeviceID rec \<or> same_legacy rec e"
  by (simp add: same_device_def same_legacy_def)

lemma map_of_filter_not_same:
  "distinct (map fst m) \<Longrightarrow> map_of (filter (\<lambda>x. \<not> same_device rec x) m) d =
     (case map_of m d of None \<Rightarrow> None | Some e \<Rightarrow> if same_device rec (d, e) then None else Some e)"
proof (induction m)
  case (Cons x m)
  obtain d' e where x: "x = (d', e)" by (cases x)
  show ?case
  proof (cases "d = d'")
    case True
    then have "map_of m d = None" using Cons.prems by (simp add: x map_of_eq_None_iff)
    then show ?thesis using Cons True by (simp add: x)
  qed (use Cons in \<open>simp add: x\<close>)
qed simp

lemma lookup_replace:
  "one_entry s \<Longrightarrow> map_of (ds_byID (snd (ReplaceDevice rec s))) = directory_effect (DirReplace rec) (map_of (ds_byID s))"
  by (rule ext) (auto simp: ReplaceDevice_byID one_entry_def map_of_filter_not_same same_device_pair split: option.split)

lemma memory_kept: "one_entry s \<Longrightarrow> one_entry (snd (memory_step op s))"
  by (cases op) (auto simp: one_entry_def AddDevice_def put_device_byID ReplaceDevice_byID EnableRelay_def RevokeTrusted_def
      distinct_update distinct_map_filter split: option.splits sum.splits if_splits)

interpretation memory_directory: device_directory "\<lambda>s d. LookupByDeviceID d s" memory_step one_entry
proof
  fix s :: MemoryDeviceStore and op
  show "one_entry s \<Longrightarrow> one_entry (snd (memory_step op s))" by (rule memory_kept)
  show "\<not> fst (memory_step op s) \<Longrightarrow> (\<lambda>d. LookupByDeviceID d (snd (memory_step op s))) = (\<lambda>d. LookupByDeviceID d s)"
    by (cases op) (auto split: sum.splits)
  show "fst (memory_step op s) \<Longrightarrow> directory_guard op (\<lambda>d. LookupByDeviceID d s)"
    by (cases op) (auto simp: AddDevice_def EnableRelay_def RevokeTrusted_def LookupByDeviceID_def split: sum.splits option.splits if_splits)
  show "one_entry s \<Longrightarrow> fst (memory_step op s) \<Longrightarrow>
      (\<lambda>d. LookupByDeviceID d (snd (memory_step op s))) = directory_effect op (\<lambda>d. LookupByDeviceID d s)"
    by (cases op) (auto simp: AddDevice_def EnableRelay_def RevokeTrusted_def LookupByDeviceID_def put_device_byID lookup_replace
        split: sum.splits option.splits if_splits)
qed

lemma LookupByDeviceID_clone [simp]: "LookupByDeviceID d (cloneSnapshot s) = LookupByDeviceID d s" "one_entry (cloneSnapshot s) = one_entry s"
  by (simp_all add: LookupByDeviceID_def cloneSnapshot_def one_entry_def)

text \<open>A step of the file store is a step of the memory store on the clone, or changes nothing but the file.\<close>

lemma file_step_cases:
  obtains (failed) "\<not> fst (file_step f op s)" and "fs_mem (snd (file_step f op s)) = fs_mem s"
  | (committed) "fst (file_step f op s)" and "fst (memory_step op (cloneSnapshot (fs_mem s)))"
      and "fs_mem (snd (file_step f op s)) = snd (memory_step op (cloneSnapshot (fs_mem s)))"
proof -
  have "(\<not> fst (file_step f op s) \<and> fs_mem (snd (file_step f op s)) = fs_mem s)
      \<or> (fst (file_step f op s) \<and> fst (memory_step op (cloneSnapshot (fs_mem s)))
          \<and> fs_mem (snd (file_step f op s)) = snd (memory_step op (cloneSnapshot (fs_mem s))))"
    by (cases op)
      (auto simp: fds_AddDevice_def fds_ReplaceDevice_def fds_EnableRelay_def fds_RevokeDevice_def fds_commit_def with_unit_def
        AtomicWriteFile_def Let_def split: sum.splits prod.splits if_splits)
  then show ?thesis using failed committed by blast
qed

interpretation file_directory: device_directory "\<lambda>s d. LookupByDeviceID d (fs_mem s)" "file_step f" "\<lambda>s. one_entry (fs_mem s)" for f
proof
  fix s :: FileDeviceStore and op
  show "one_entry (fs_mem s) \<Longrightarrow> one_entry (fs_mem (snd (file_step f op s)))"
    by (cases rule: file_step_cases[of f op s]) (simp_all add: memory_directory.kept)
  show "\<not> fst (file_step f op s) \<Longrightarrow> (\<lambda>d. LookupByDeviceID d (fs_mem (snd (file_step f op s)))) = (\<lambda>d. LookupByDeviceID d (fs_mem s))"
    by (cases rule: file_step_cases[of f op s]) simp_all
  show "fst (file_step f op s) \<Longrightarrow> directory_guard op (\<lambda>d. LookupByDeviceID d (fs_mem s))"
    by (cases rule: file_step_cases[of f op s]) (auto dest: memory_directory.done_only)
  show "one_entry (fs_mem s) \<Longrightarrow> fst (file_step f op s) \<Longrightarrow>
      (\<lambda>d. LookupByDeviceID d (fs_mem (snd (file_step f op s)))) = directory_effect op (\<lambda>d. LookupByDeviceID d (fs_mem s))"
    by (cases rule: file_step_cases[of f op s]) (simp_all add: memory_directory.effect)
qed

end
