(* ===== verification/Bridge_Client.thy ===== *)
theory Bridge_Client
  imports Reconcile Device_Directory Broadcaster
begin

text \<open>
  The bridge's end of the relay (\<^verbatim>\<open>go-bridge/relay_bridge_client.go\<close>): the table of live device connections,
  what opens one, where inbound envelopes go, the heartbeat that retires dead ones, and, with the
  trusted-device store and the connection registry, the revocation of a device
  (\<^verbatim>\<open>handleRevokeDevice\<close> of \<^verbatim>\<open>management_api.go\<close>). Connections are objects shared by the table, the registry and the
  broadcaster: they live in a heap and are named by their address.
\<close>

section \<open>State\<close>

text \<open>
  Hellos and envelopes are read by one goroutine; \<open>rb_stage\<close> is where it stands inside
  \<^verbatim>\<open>handleClientHello\<close>, which releases every lock after the lookup and again after the installation.
\<close>

datatype hello_stage =
    Reading
  | Installing OnlineClientHello RelayDeviceConn
  | Registering string nat

record RelayBridgeClient =
  rb_trusted :: "FileDeviceStore option"
  rb_identity :: "RelayCryptoIdentity option"
  rb_bridgeID :: string
  rb_routeID :: string
  rb_conn :: bool
  rb_devices :: "(string \<times> nat) list"
  rb_heap :: "nat \<Rightarrow> RelayDeviceConn option"
  rb_next :: nat
  rb_registry :: DeviceConnRegistry
  rb_broadcaster :: Broadcaster
  rb_stage :: hello_stage

text \<open>The handlers' store, identity and bridge id are set before the client runs; they are arguments here.\<close>

definition NewRelayBridgeClient ::
  "FileDeviceStore option \<Rightarrow> RelayCryptoIdentity option \<Rightarrow> string \<Rightarrow> string \<Rightarrow> RelayBridgeClient" where
  "NewRelayBridgeClient store identity bridgeID routeID =
     \<lparr>rb_trusted = store, rb_identity = identity, rb_bridgeID = bridgeID, rb_routeID = routeID, rb_conn = False,
      rb_devices = [], rb_heap = Map.empty, rb_next = 0, rb_registry = (\<lambda>_. []), rb_broadcaster = NewBroadcaster,
      rb_stage = Reading\<rparr>"

text \<open>What the client does to the outside: replies, envelopes written, messages handed to the handlers.\<close>

datatype client_event =
    HelloRefused string string
  | ServerHello OnlineServerHello
  | Opened nat OnlineClientHello
  | Dispatched nat bytes
  | Wrote nat bytes
  | ClosedSocket


section \<open>Operations on one connection\<close>

definition conn_send ::
  "codec \<Rightarrow> bytes \<Rightarrow> (nat \<Rightarrow> bytes option) \<Rightarrow> gotime \<Rightarrow> bytes option \<Rightarrow> nat \<Rightarrow> RelayBridgeClient
     \<Rightarrow> client_event list \<times> RelayBridgeClient" where
  "conn_send C idRnd rnd now plaintext i s =
     (case rb_heap s i of
        None \<Rightarrow> ([], s)
      | Some rc \<Rightarrow>
          (case SendJSON C idRnd rnd now plaintext rc of
             (rc', used, out) \<Rightarrow>
               (case out of None \<Rightarrow> [] | Some b \<Rightarrow> if rb_conn s then [Wrote i b] else [],
                s\<lparr>rb_heap := (rb_heap s)(i \<mapsto> rc')\<rparr>)))"

definition close_at :: "nat \<Rightarrow> RelayBridgeClient \<Rightarrow> RelayBridgeClient" where
  "close_at i s = s\<lparr>rb_heap := (rb_heap s)(i := map_option conn_Close (rb_heap s i))\<rparr>"

text \<open>Unsubscribe, take out of the registry, close: the three calls every removal makes.\<close>

definition retire :: "string \<Rightarrow> nat \<Rightarrow> RelayBridgeClient \<Rightarrow> RelayBridgeClient" where
  "retire deviceID i s =
     close_at i (s\<lparr>rb_broadcaster := UnsubscribeAll i (rb_broadcaster s),
                   rb_registry := registry_Unregister deviceID (Some i) (rb_registry s)\<rparr>)"

definition SendEnvelope :: "RelayBridgeClient \<Rightarrow> bool" where
  "SendEnvelope s = rb_conn s"


section \<open>The hello\<close>

text \<open>From the lookup of the device to the accepted hello; \<open>Inl\<close> is the code sent back.\<close>

definition check_hello ::
  "crypto_lib \<Rightarrow> bytes option \<Rightarrow> bytes option \<Rightarrow> OnlineClientHello \<Rightarrow> RelayBridgeClient
     \<Rightarrow> string + TrustedDeviceRecord \<times> OnlineHandshakeState \<times> OnlineServerHello" where
  "check_hello L rndKey rndRandom hello s =
     (case (rb_trusted s, rb_identity s) of
        (Some store, Some identity) \<Rightarrow>
          (case LookupByDeviceID (cl_DeviceID hello) (fs_mem store) of
             None \<Rightarrow> Inl ''auth.invalid_token''
           | Some rec \<Rightarrow>
               (if td_RevokedAt rec \<noteq> None then Inl ''auth.revoked''
                else if td_IdentityPublicKey rec = [] then Inl ''relay.identity_not_bound''
                else case b64std_decode (td_IdentityPublicKey rec) of
                  None \<Rightarrow> Inl ''relay.invalid_identity''
                | Some identityPubKey \<Rightarrow>
                    (case DeriveIdentityAuthKey L identityPubKey (rb_bridgeID s) (cl_DeviceID hello) identity of
                       Inl e \<Rightarrow> Inl ''relay.identity_failed''
                     | Inr authKey \<Rightarrow>
                         (case NewOnlineHandshake L rndKey rndRandom authKey of
                            Inl e \<Rightarrow> Inl ''relay.handshake_failed''
                          | Inr hs \<Rightarrow>
                              (case AcceptClientHello L hello hs of
                                 (Inl e, hs') \<Rightarrow> Inl ''relay.handshake_rejected''
                               | (Inr response, hs') \<Rightarrow> Inr (rec, hs', response))))))
      | _ \<Rightarrow> Inl ''relay.not_configured'')"

definition sendServerHelloError :: "string \<Rightarrow> string \<Rightarrow> RelayBridgeClient \<Rightarrow> client_event list" where
  "sendServerHelloError deviceID code s = (if rb_conn s then [HelloRefused deviceID code] else [])"

text \<open>\<open>wr\<close> says whether writing the answer succeeds.\<close>

definition begin_hello ::
  "crypto_lib \<Rightarrow> bytes option \<Rightarrow> bytes option \<Rightarrow> bool \<Rightarrow> gotime \<Rightarrow> OnlineClientHello \<Rightarrow> RelayBridgeClient
     \<Rightarrow> client_event list \<times> RelayBridgeClient" where
  "begin_hello L rndKey rndRandom wr now hello s =
     (case check_hello L rndKey rndRandom hello s of
        Inl code \<Rightarrow> (sendServerHelloError (cl_DeviceID hello) code s, s)
      | Inr (rec, hs, response) \<Rightarrow>
          (if \<not> rb_conn s \<or> \<not> wr then ([], s)
           else ([ServerHello response],
                 s\<lparr>rb_stage := Installing hello
                     (NewRelayDeviceConn (cl_DeviceID hello) (rb_bridgeID s) (rb_routeID s) (cl_ChannelGeneration hello)
                        (hs_macToIosKey hs) (hs_iosToMacKey hs) now)\<rparr>)))"

definition install_hello :: "RelayBridgeClient \<Rightarrow> client_event list \<times> RelayBridgeClient" where
  "install_hello s =
     (case rb_stage s of
        Installing hello rc \<Rightarrow>
          (let deviceID = cl_DeviceID hello; i = rb_next s;
               s = (case map_of (rb_devices s) deviceID of None \<Rightarrow> s | Some stale \<Rightarrow> retire deviceID stale s)
           in ([Opened i hello],
               s\<lparr>rb_heap := (rb_heap s)(i \<mapsto> rc), rb_next := Suc i, rb_devices := AList.update deviceID i (rb_devices s),
                 rb_stage := Registering deviceID i\<rparr>))
      | _ \<Rightarrow> ([], s))"

definition register_hello :: "RelayBridgeClient \<Rightarrow> RelayBridgeClient" where
  "register_hello s =
     (case rb_stage s of
        Registering deviceID i \<Rightarrow>
          s\<lparr>rb_broadcaster := RegisterConn i (rb_broadcaster s), rb_registry := registry_Register deviceID (Some i) (rb_registry s),
            rb_stage := Reading\<rparr>
      | _ \<Rightarrow> s)"

definition handleClientHello ::
  "crypto_lib \<Rightarrow> bytes option \<Rightarrow> bytes option \<Rightarrow> bool \<Rightarrow> gotime \<Rightarrow> OnlineClientHello \<Rightarrow> RelayBridgeClient
     \<Rightarrow> client_event list \<times> RelayBridgeClient" where
  "handleClientHello L rndKey rndRandom wr now hello s =
     (let (a, s) = begin_hello L rndKey rndRandom wr now hello s; (b, s) = install_hello s in (a @ b, register_hello s))"


section \<open>Envelopes, heartbeat, closing\<close>

definition handleInboundEnvelope :: "codec \<Rightarrow> gotime \<Rightarrow> bytes \<Rightarrow> RelayBridgeClient \<Rightarrow> client_event list \<times> RelayBridgeClient" where
  "handleInboundEnvelope C now payload s =
     (case c_unmarshal C payload of
        None \<Rightarrow> ([], s)
      | Some env \<Rightarrow>
          (case map_of (rb_devices s) (SenderID env) of
             None \<Rightarrow> ([], s)
           | Some i \<Rightarrow>
               (case rb_heap s i of
                  None \<Rightarrow> ([], s)
                | Some rc \<Rightarrow>
                    (case ReceiveJSON C payload rc of
                       (Inl e, rc') \<Rightarrow> ([], s)
                     | (Inr innerJSON, rc') \<Rightarrow>
                         ([Dispatched i innerJSON], s\<lparr>rb_heap := (rb_heap s)(i \<mapsto> touchLastActivity now rc')\<rparr>)))))"

definition pruneDeadDevice :: "nat \<Rightarrow> RelayBridgeClient \<Rightarrow> RelayBridgeClient" where
  "pruneDeadDevice i s =
     (case rb_heap s i of
        None \<Rightarrow> s
      | Some rc \<Rightarrow>
          (if map_of (rb_devices s) (rc_deviceID rc) \<noteq> Some i then s
           else retire (rc_deviceID rc) i (s\<lparr>rb_devices := AList.delete (rc_deviceID rc) (rb_devices s)\<rparr>)))"

text \<open>One turn of the loop over the snapshot; \<open>ping\<close> is the marshalled heartbeat message.\<close>

definition beat ::
  "codec \<Rightarrow> gotime \<Rightarrow> duration \<Rightarrow> bytes \<Rightarrow> (nat \<Rightarrow> bytes option) \<Rightarrow> bytes option \<Rightarrow> nat \<Rightarrow> RelayBridgeClient
     \<Rightarrow> client_event list \<times> RelayBridgeClient" where
  "beat C now deadAfter idRnd rnd ping i s =
     (case rb_heap s i of
        None \<Rightarrow> ([], s)
      | Some rc \<Rightarrow>
          (if time_sub now (lastActivityAt rc) > deadAfter then ([], pruneDeadDevice i s)
           else conn_send C idRnd rnd now ping i s))"

fun beat_all ::
  "codec \<Rightarrow> gotime \<Rightarrow> duration \<Rightarrow> (nat \<Rightarrow> bytes) \<Rightarrow> (nat \<Rightarrow> nat \<Rightarrow> bytes option) \<Rightarrow> bytes option \<Rightarrow> nat list \<Rightarrow> RelayBridgeClient
     \<Rightarrow> client_event list \<times> RelayBridgeClient" where
  "beat_all C now deadAfter idRnd rnd ping [] s = ([], s)"
| "beat_all C now deadAfter idRnd rnd ping (i # is) s =
     (let (a, s) = beat C now deadAfter (idRnd i) (rnd i) ping i s; (b, s) = beat_all C now deadAfter idRnd rnd ping is s in (a @ b, s))"

definition sendDeviceHeartbeats ::
  "codec \<Rightarrow> gotime \<Rightarrow> duration \<Rightarrow> (nat \<Rightarrow> bytes) \<Rightarrow> (nat \<Rightarrow> nat \<Rightarrow> bytes option) \<Rightarrow> bytes option \<Rightarrow> RelayBridgeClient
     \<Rightarrow> client_event list \<times> RelayBridgeClient" where
  "sendDeviceHeartbeats C now deadAfter idRnd rnd ping s =
     beat_all C now deadAfter idRnd rnd ping (map snd (rb_devices s)) s"

definition retire_all :: "RelayBridgeClient \<Rightarrow> RelayBridgeClient" where
  "retire_all s = (fold (\<lambda>(deviceID, i). retire deviceID i) (rb_devices s) s)\<lparr>rb_devices := []\<rparr>"

definition closeConn :: "RelayBridgeClient \<Rightarrow> RelayBridgeClient" where
  "closeConn s = retire_all (s\<lparr>rb_conn := False\<rparr>)"

definition client_Close :: "RelayBridgeClient \<Rightarrow> client_event list \<times> RelayBridgeClient" where
  "client_Close s = (if rb_conn s then [ClosedSocket] else [], retire_all (s\<lparr>rb_conn := False\<rparr>))"

definition Connected :: "RelayBridgeClient \<Rightarrow> bool" where "Connected s = rb_conn s"

definition ActiveDeviceCount :: "RelayBridgeClient \<Rightarrow> nat" where "ActiveDeviceCount s = length (rb_devices s)"

text \<open>\<open>dial\<close> says whether the dial succeeds.\<close>

definition Connect :: "bool \<Rightarrow> RelayBridgeClient \<Rightarrow> bool \<times> RelayBridgeClient" where
  "Connect dial s = (if \<not> dial then (False, s) else (True, s\<lparr>rb_conn := True\<rparr>))"

text \<open>One turn of \<^verbatim>\<open>Run\<close>: how long it waits before the jitter, and the next value of \<^verbatim>\<open>backoff\<close>.\<close>

definition reconnect_turn :: "bool \<Rightarrow> duration \<Rightarrow> duration \<times> duration" where
  "reconnect_turn connected backoff =
     (let backoff = (if connected then 2000000000 else backoff) in (backoff, min (2 * backoff) minute))"


section \<open>Revocation\<close>

text \<open>
  The registry names the connections, the client's heap holds the relay ones; a connection of the direct path is
  not in the heap and is left to its own close.
\<close>

fun perform ::
  "codec \<Rightarrow> (nat \<Rightarrow> bytes) \<Rightarrow> (nat \<Rightarrow> nat \<Rightarrow> bytes option) \<Rightarrow> gotime \<Rightarrow> bytes option \<Rightarrow> conn_action list \<Rightarrow> RelayBridgeClient
     \<Rightarrow> client_event list \<times> RelayBridgeClient" where
  "perform C idRnd rnd now msg [] s = ([], s)"
| "perform C idRnd rnd now msg (SentRevoked i # acts) s =
     (let (a, s) = conn_send C (idRnd i) (rnd i) now msg i s; (b, s) = perform C idRnd rnd now msg acts s in (a @ b, s))"
| "perform C idRnd rnd now msg (Closed i # acts) s = perform C idRnd rnd now msg acts (close_at i s)"

definition disconnect_device ::
  "codec \<Rightarrow> (nat \<Rightarrow> bytes) \<Rightarrow> (nat \<Rightarrow> nat \<Rightarrow> bytes option) \<Rightarrow> gotime \<Rightarrow> bytes option \<Rightarrow> string \<Rightarrow> RelayBridgeClient
     \<Rightarrow> client_event list \<times> RelayBridgeClient" where
  "disconnect_device C idRnd rnd now msg deviceID s =
     (let (acts, r) = registry_DisconnectDevice deviceID (rb_registry s)
      in perform C idRnd rnd now msg acts (s\<lparr>rb_registry := r\<rparr>))"

text \<open>An operation on the trusted-device store; \<open>fst\<close> says whether it succeeded.\<close>

definition directory_change :: "faults \<Rightarrow> directory_op \<Rightarrow> RelayBridgeClient \<Rightarrow> bool \<times> RelayBridgeClient" where
  "directory_change f op s =
     (case rb_trusted s of
        None \<Rightarrow> (False, s)
      | Some store \<Rightarrow> (let (ok, store) = file_step f op store in (ok, s\<lparr>rb_trusted := Some store\<rparr>)))"

definition handle_device_revoke ::
  "codec \<Rightarrow> faults \<Rightarrow> (nat \<Rightarrow> bytes) \<Rightarrow> (nat \<Rightarrow> nat \<Rightarrow> bytes option) \<Rightarrow> gotime \<Rightarrow> bytes option \<Rightarrow> string \<Rightarrow> RelayBridgeClient
     \<Rightarrow> nat \<times> client_event list \<times> RelayBridgeClient" where
  "handle_device_revoke C f idRnd rnd now msg deviceID s =
     (if deviceID = [] then (400, [], s)
      else case directory_change f (DirRevoke now deviceID) s of
        (False, s) \<Rightarrow> (404, [], s)
      | (True, s) \<Rightarrow> (let (evs, s) = disconnect_device C idRnd rnd now msg deviceID s in (200, evs, s)))"


section \<open>Runs\<close>

text \<open>
  The steps of the goroutines: the reading one takes the next message only when it is done with the last hello; the
  heartbeat, the handlers, the management server and the reconnection loop act at any time.
\<close>

datatype client_op =
    CHello "bytes option" "bytes option" bool gotime OnlineClientHello
  | CInstall
  | CRegister
  | CInbound gotime bytes
  | CBeat gotime duration bytes "nat \<Rightarrow> bytes option" "bytes option" nat
  | CSend bytes "nat \<Rightarrow> bytes option" gotime "bytes option" nat
  | CSubscribe nat SubscriptionKey
  | CConnect bool
  | CCloseConn
  | CClose
  | CDirectory faults directory_op
  | CDisconnect "nat \<Rightarrow> bytes" "nat \<Rightarrow> nat \<Rightarrow> bytes option" gotime "bytes option" string

fun client_step :: "crypto_lib \<Rightarrow> codec \<Rightarrow> client_op \<Rightarrow> RelayBridgeClient \<Rightarrow> client_event list \<times> RelayBridgeClient" where
  "client_step L C (CHello rndKey rndRandom wr now hello) s =
     (if rb_stage s = Reading then begin_hello L rndKey rndRandom wr now hello s else ([], s))"
| "client_step L C CInstall s = install_hello s"
| "client_step L C CRegister s = ([], register_hello s)"
| "client_step L C (CInbound now payload) s =
     (if rb_stage s = Reading then handleInboundEnvelope C now payload s else ([], s))"
| "client_step L C (CBeat now deadAfter idRnd rnd ping i) s = beat C now deadAfter idRnd rnd ping i s"
| "client_step L C (CSend idRnd rnd now msg i) s = conn_send C idRnd rnd now msg i s"
| "client_step L C (CSubscribe i key) s = ([], s\<lparr>rb_broadcaster := Subscribe i key (rb_broadcaster s)\<rparr>)"
| "client_step L C (CConnect dial) s = ([], snd (Connect dial s))"
| "client_step L C CCloseConn s = ([], closeConn s)"
| "client_step L C CClose s = client_Close s"
| "client_step L C (CDirectory f op) s = ([], snd (directory_change f op s))"
| "client_step L C (CDisconnect idRnd rnd now msg d) s = disconnect_device C idRnd rnd now msg d s"

fun client_run :: "crypto_lib \<Rightarrow> codec \<Rightarrow> client_op list \<Rightarrow> RelayBridgeClient \<Rightarrow> client_event list \<times> RelayBridgeClient" where
  "client_run L C [] s = ([], s)"
| "client_run L C (op # ops) s =
     (let (a, s) = client_step L C op s; (b, s) = client_run L C ops s in (a @ b, s))"

lemma client_run_append:
  "client_run L C (xs @ ys) s =
     (fst (client_run L C xs s) @ fst (client_run L C ys (snd (client_run L C xs s))), snd (client_run L C ys (snd (client_run L C xs s))))"
  by (induction xs arbitrary: s) (simp_all add: case_prod_beta Let_def)

lemma client_run_snoc:
  "client_run L C (xs @ [op]) s =
     (fst (client_run L C xs s) @ fst (client_step L C op (snd (client_run L C xs s))), snd (client_step L C op (snd (client_run L C xs s))))"
  by (simp add: client_run_append case_prod_beta Let_def)

end
