(* ===== verification/Client_Props.thy ===== *)
theory Client_Props
  imports Bridge_Client
begin

text \<open>
  Properties of the bridge's relay client: what its steps do to the connections other goroutines hold, where a connection that
  delivers a message comes from, and what a revocation cuts off, with the interleaving that escapes it.
\<close>

section \<open>Quiet steps\<close>

text \<open>
  What every step but the reading goroutine's does to the heap: a connection keeps its identity and its receive
  counter, it may be closed, and a closed one is not opened again; a connection leaves the registry only when it is closed.
\<close>

definition conn_le :: "RelayDeviceConn \<Rightarrow> RelayDeviceConn \<Rightarrow> bool" where
  "conn_le a b \<longleftrightarrow> rc_deviceID b = rc_deviceID a \<and> rc_generation b = rc_generation a \<and> rc_bridgeID b = rc_bridgeID a
     \<and> rc_routeID b = rc_routeID a \<and> rc_recvCounter b = rc_recvCounter a
     \<and> (\<not> rc_closed b \<longrightarrow> \<not> rc_closed a \<and> rc_iosToMacKey b = rc_iosToMacKey a)"

definition dead :: "RelayBridgeClient \<Rightarrow> nat \<Rightarrow> bool" where
  "dead s i \<longleftrightarrow> (\<forall>rc. rb_heap s i = Some rc \<longrightarrow> rc_closed rc)"

definition quiet :: "RelayBridgeClient \<Rightarrow> RelayBridgeClient \<Rightarrow> bool" where
  "quiet s s' \<longleftrightarrow> rb_next s' = rb_next s \<and> rb_bridgeID s' = rb_bridgeID s \<and> rb_routeID s' = rb_routeID s
     \<and> rb_identity s' = rb_identity s \<and> rb_stage s' = rb_stage s \<and> (\<forall>i. rel_option conn_le (rb_heap s i) (rb_heap s' i))
     \<and> (\<forall>d i. i \<in> set (rb_registry s d) \<longrightarrow> i \<in> set (rb_registry s' d) \<or> dead s' i)"

lemma conn_le_refl [simp]: "conn_le a a"
  by (simp add: conn_le_def)

lemma conn_le_trans: "conn_le a b \<Longrightarrow> conn_le b c \<Longrightarrow> conn_le a c"
  by (auto simp: conn_le_def)

lemma conn_le_send: "SendJSON C idRnd rnd now p rc = (rc', u, out) \<Longrightarrow> conn_le rc rc'"
  by (cases rule: SendJSON_cases[of C idRnd rnd now p rc]) (auto simp: conn_le_def)

lemma conn_le_close [simp]: "conn_le rc (conn_Close rc)"
  by (simp add: conn_le_def conn_Close_def)

lemma rel_option_refl: "rel_option conn_le x x"
  by (cases x) simp_all

lemma quiet_refl [simp]: "quiet s s"
  by (simp add: quiet_def rel_option_refl)

lemma rel_option_trans: "rel_option conn_le x y \<Longrightarrow> rel_option conn_le y z \<Longrightarrow> rel_option conn_le x z"
  by (cases x; cases y; cases z) (auto intro: conn_le_trans)

lemma dead_mono: "rel_option conn_le (rb_heap s i) (rb_heap s' i) \<Longrightarrow> dead s i \<Longrightarrow> dead s' i"
  by (cases "rb_heap s i"; cases "rb_heap s' i") (auto simp: dead_def conn_le_def)

lemma quiet_trans: "quiet s s1 \<Longrightarrow> quiet s1 s2 \<Longrightarrow> quiet s s2"
  unfolding quiet_def by (metis rel_option_trans dead_mono)

lemma quiet_send: "quiet s (snd (conn_send C idRnd rnd now p i s))"
  by (auto simp: quiet_def conn_send_def rel_option_refl intro: conn_le_send split: option.split prod.split)

lemma quiet_close_at: "quiet s (close_at i s)"
  by (cases "rb_heap s i") (auto simp: quiet_def close_at_def rel_option_refl)

lemma dead_close_at: "dead (close_at i s) i"
  by (auto simp: dead_def close_at_def conn_Close_def)

lemma quiet_retire: "quiet s (retire d i s)"
proof -
  have "j \<in> set (registry_Unregister d (Some i) r d')" if "j \<in> set (r d')" "j \<noteq> i" for j d' r
    using that by (auto simp: registry_Unregister_def in_set_remove1)
  moreover have "dead (retire d i s) i" unfolding retire_def by (rule dead_close_at)
  ultimately show ?thesis
    by (cases "rb_heap s i") (auto simp: quiet_def retire_def close_at_def rel_option_refl)
qed

lemma quiet_retire_fold: "quiet s (fold (\<lambda>(d, i). retire d i) ds s)"
proof (induction ds arbitrary: s)
  case (Cons x ds)
  then show ?case using quiet_trans[OF quiet_retire[of s "fst x" "snd x"] Cons.IH] by (simp add: case_prod_beta)
qed simp

lemma quiet_same_heap: "rb_next s' = rb_next s \<Longrightarrow> rb_bridgeID s' = rb_bridgeID s \<Longrightarrow> rb_routeID s' = rb_routeID s \<Longrightarrow> rb_identity s' = rb_identity s
    \<Longrightarrow> rb_stage s' = rb_stage s \<Longrightarrow> rb_heap s' = rb_heap s \<Longrightarrow> rb_registry s' = rb_registry s \<Longrightarrow> quiet s s'"
  by (simp add: quiet_def rel_option_refl)

lemma quiet_retire_all: "quiet s (retire_all s)"
  by (rule quiet_trans[OF quiet_retire_fold[of s "rb_devices s"]]) (rule quiet_same_heap; simp add: retire_all_def)

lemma quiet_prune: "quiet s (pruneDeadDevice i s)"
proof -
  have "quiet s (retire d i (s\<lparr>rb_devices := ds\<rparr>))" for d ds
    by (rule quiet_trans[OF _ quiet_retire]) (rule quiet_same_heap; simp)
  then show ?thesis by (simp add: pruneDeadDevice_def split: option.split)
qed

lemma quiet_beat: "quiet s (snd (beat C now deadAfter idRnd rnd ping i s))"
  by (simp add: beat_def quiet_prune quiet_send split: option.split)

lemma quiet_perform: "quiet s (snd (perform C idRnd rnd now msg acts s))"
proof (induction acts arbitrary: s)
  case (Cons a acts)
  then show ?case
    by (cases a) (auto simp: case_prod_beta Let_def intro: quiet_trans[OF quiet_send] quiet_trans[OF quiet_close_at])
qed simp

lemma perform_closes: "Closed i \<in> set acts \<Longrightarrow> dead (snd (perform C idRnd rnd now msg acts s)) i"
proof (induction acts arbitrary: s)
  case (Cons a acts)
  show ?case
  proof (cases "a = Closed i")
    case True
    have "rel_option conn_le (rb_heap (close_at i s) i) (rb_heap (snd (perform C idRnd rnd now msg acts (close_at i s))) i)"
      using quiet_perform[of "close_at i s"] by (simp add: quiet_def)
    from dead_mono[OF this dead_close_at] show ?thesis by (simp add: True)
  next
    case False
    then show ?thesis using Cons by (cases a) (simp_all add: case_prod_beta Let_def)
  qed
qed simp

lemma disconnect_closes: "i \<in> set (rb_registry s d) \<Longrightarrow> dead (snd (disconnect_device C idRnd rnd now msg d s)) i"
  by (simp add: disconnect_device_def registry_DisconnectDevice_def Let_def) (rule perform_closes; force)

lemma quiet_disconnect: "quiet s (snd (disconnect_device C idRnd rnd now msg d s))"
proof -
  define s1 where "s1 = s\<lparr>rb_registry := (rb_registry s)(d := [])\<rparr>"
  let ?s2 = "snd (disconnect_device C idRnd rnd now msg d s)"
  have q: "quiet s1 ?s2" by (simp add: disconnect_device_def registry_DisconnectDevice_def Let_def s1_def quiet_perform)
  have "i \<in> set (rb_registry s d') \<Longrightarrow> i \<in> set (rb_registry ?s2 d') \<or> dead ?s2 i" for i d'
    using q disconnect_closes[of i s d C idRnd rnd now msg] by (cases "d' = d") (auto simp: quiet_def s1_def)
  then show ?thesis using q by (simp add: quiet_def s1_def)
qed

lemma quiet_Connect: "quiet s (snd (Connect dial s))"
  by (rule quiet_same_heap) (simp_all add: Connect_def)

lemma quiet_close_all: "quiet s (retire_all (s\<lparr>rb_conn := False\<rparr>))"
  by (rule quiet_trans[OF _ quiet_retire_all]) (rule quiet_same_heap; simp)

lemma quiet_directory: "quiet s (snd (directory_change f op s))"
  by (rule quiet_same_heap) (simp_all add: directory_change_def Let_def case_prod_beta split: option.split)

fun reads :: "client_op \<Rightarrow> bool" where
  "reads (CHello rk rr wr now hello) = True"
| "reads CInstall = True"
| "reads CRegister = True"
| "reads (CInbound now b) = True"
| "reads _ = False"

lemma quiet_step: "\<not> reads op \<Longrightarrow> quiet s (snd (client_step L C op s))"
  by (cases op) (auto simp: quiet_beat quiet_send quiet_Connect closeConn_def client_Close_def quiet_close_all quiet_directory
      quiet_disconnect intro: quiet_same_heap)

text \<open>Nothing is written to, and nothing taken from, a closed connection.\<close>

fun live_event :: "RelayBridgeClient \<Rightarrow> client_event \<Rightarrow> bool" where
  "live_event s (Wrote i b) = (\<not> dead s i)"
| "live_event s (Dispatched i p) = (\<not> dead s i)"
| "live_event s _ = True"

fun is_dispatch :: "nat \<Rightarrow> client_event \<Rightarrow> bool" where
  "is_dispatch i (Dispatched j p) = (j = i)"
| "is_dispatch i _ = False"

lemma live_send: "\<forall>e \<in> set (fst (conn_send C idRnd rnd now p i s)). live_event s e \<and> \<not> is_dispatch j e"
proof (cases "rb_heap s i")
  case (Some rc)
  then show ?thesis
    by (cases rule: SendJSON_cases[of C idRnd rnd now p rc]) (auto simp: conn_send_def dead_def split: option.split)
qed (simp add: conn_send_def)

lemma live_later: "quiet s s' \<Longrightarrow> live_event s' e \<Longrightarrow> live_event s e"
  by (cases e) (auto simp: quiet_def intro: dead_mono)

lemma live_perform: "\<forall>e \<in> set (fst (perform C idRnd rnd now msg acts s)). live_event s e \<and> \<not> is_dispatch j e"
proof (induction acts arbitrary: s)
  case (Cons a acts)
  show ?case
  proof (cases a)
    case (SentRevoked i)
    let ?s = "snd (conn_send C (idRnd i) (rnd i) now msg i s)"
    have "\<forall>e \<in> set (fst (perform C idRnd rnd now msg acts ?s)). live_event s e \<and> \<not> is_dispatch j e"
      using Cons.IH[of ?s] live_later[OF quiet_send] by blast
    then show ?thesis using live_send[of C "idRnd i" "rnd i" now msg i s j] by (auto simp: SentRevoked case_prod_beta Let_def)
  next
    case (Closed i)
    then show ?thesis using Cons.IH[of "close_at i s"] live_later[OF quiet_close_at[of s i]] by (auto simp: case_prod_beta Let_def)
  qed
qed simp

lemma live_disconnect: "\<forall>e \<in> set (fst (disconnect_device C idRnd rnd now msg d s)). live_event s e \<and> \<not> is_dispatch j e"
proof -
  have "live_event (s\<lparr>rb_registry := r\<rparr>) e = live_event s e" for r e by (cases e) (simp_all add: dead_def)
  then show ?thesis using live_perform[of C idRnd rnd now msg _ "s\<lparr>rb_registry := _\<rparr>" j]
    by (simp add: disconnect_device_def registry_DisconnectDevice_def Let_def)
qed

lemma live_beat: "\<forall>e \<in> set (fst (beat C now deadAfter idRnd rnd ping i s)). live_event s e \<and> \<not> is_dispatch j e"
  using live_send by (auto simp: beat_def split: option.split)

lemma quiet_events: "\<not> reads op \<Longrightarrow> \<forall>e \<in> set (fst (client_step L C op s)). live_event s e \<and> \<not> is_dispatch i e"
  using live_beat live_send live_disconnect by (cases op) (auto simp: client_Close_def)

text \<open>The inbound step: either nothing happens, or one message is taken from an open connection.\<close>

lemma inbound_cases:
  obtains (ignored) "handleInboundEnvelope C now b s = ([], s)"
  | (taken) i rc p env where "rb_heap s i = Some rc" and "\<not> rc_closed rc" and "c_unmarshal C b = Some env"
      and "RouteID env = rc_routeID rc" and "SenderID env = rc_deviceID rc" and "ChannelGeneration env = rc_generation rc"
      and "Counter env = rc_recvCounter rc"
      and "OpenEnvelope (c_aead C) (rc_iosToMacKey rc) (Counter env) (EncodeAAD (c_encAAD C) env) (Ciphertext env) = Inr p"
      and "handleInboundEnvelope C now b s = ([Dispatched i p],
             s\<lparr>rb_heap := (rb_heap s)(i \<mapsto> touchLastActivity now (rc\<lparr>rc_recvCounter := rc_recvCounter rc + 1\<rparr>))\<rparr>)"
proof (cases "handleInboundEnvelope C now b s = ([], s)")
  case False
  then obtain env i rc p rc' where f: "c_unmarshal C b = Some env" "map_of (rb_devices s) (SenderID env) = Some i" "rb_heap s i = Some rc"
      "ReceiveJSON C b rc = (Inr p, rc')"
    by (auto simp: handleInboundEnvelope_def split: option.splits prod.splits sum.splits)
  then show ?thesis
    by (intro taken[of i rc env p]) (auto simp: handleInboundEnvelope_def ReceiveJSON_def split: option.splits sum.splits if_splits)
qed

lemma Dispatched_split:
  "client_run L C ops s0 = (xs @ Dispatched i p # ys, s) \<Longrightarrow>
   \<exists>ops1 now b ops2 s1 s2. ops = ops1 @ CInbound now b # ops2 \<and> client_run L C ops1 s0 = (xs, s1)
      \<and> handleInboundEnvelope C now b s1 = ([Dispatched i p], s2)"
proof (induction ops arbitrary: ys s rule: rev_induct)
  case (snoc op ops)
  obtain evs s1 where r: "client_run L C ops s0 = (evs, s1)" by fastforce
  obtain new s2 where st: "client_step L C op s1 = (new, s2)" by fastforce
  have ev: "evs @ new = xs @ Dispatched i p # ys" using snoc.prems r st by (simp add: client_run_snoc)
  show ?case
  proof (cases "length xs < length evs")
    case True
    then obtain zs where "evs = xs @ Dispatched i p # zs"
      using ev by (auto simp: append_eq_append_conv2 append_eq_Cons_conv Cons_eq_append_conv)
    then show ?thesis using snoc.IH[of zs s1] r by force
  next
    case False
    then obtain zs where zs: "xs = evs @ zs" "new = zs @ Dispatched i p # ys" using ev by (auto simp: append_eq_append_conv2 append_eq_Cons_conv)
    then have mem: "Dispatched i p \<in> set new" by simp
    then have "reads op" using quiet_events[of op L C s1 i] st by fastforce
    then obtain now b where op: "op = CInbound now b" and "rb_stage s1 = Reading"
      using mem st by (cases op) (auto simp: begin_hello_def sendServerHelloError_def install_hello_def Let_def split: if_splits sum.splits hello_stage.splits prod.splits)
    then have h: "handleInboundEnvelope C now b s1 = (new, s2)" using st by simp
    then have "new = [Dispatched i p]" using mem by (cases rule: inbound_cases[of C now b s1]) auto
    then have "zs = []" "ys = []" using zs(2) by (cases zs; simp)+
    then show ?thesis using h r op zs by (intro exI[of _ ops]) auto
  qed
qed simp


section \<open>Where a connection comes from\<close>

text \<open>A hello that passed every check on the state it met.\<close>

definition admitted ::
  "crypto_lib \<Rightarrow> codec \<Rightarrow> RelayBridgeClient \<Rightarrow> client_op list \<Rightarrow> OnlineClientHello \<Rightarrow> OnlineHandshakeState \<Rightarrow> bool" where
  "admitted L C s0 ops hello hs \<longleftrightarrow>
     (\<exists>ops1 rk rr wr now ops2 rec ans. ops = ops1 @ CHello rk rr wr now hello # ops2
        \<and> check_hello L rk rr hello (snd (client_run L C ops1 s0)) = Inr (rec, hs, ans))"

definition channel_of :: "RelayBridgeClient \<Rightarrow> OnlineClientHello \<Rightarrow> OnlineHandshakeState \<Rightarrow> RelayDeviceConn \<Rightarrow> bool" where
  "channel_of s0 hello hs rc \<longleftrightarrow> rc_deviceID rc = cl_DeviceID hello \<and> rc_generation rc = cl_ChannelGeneration hello
     \<and> rc_bridgeID rc = rb_bridgeID s0 \<and> rc_routeID rc = rb_routeID s0
     \<and> (\<not> rc_closed rc \<longrightarrow> rc_iosToMacKey rc = hs_iosToMacKey hs)"

definition dispatched_from :: "nat \<Rightarrow> client_event list \<Rightarrow> nat" where
  "dispatched_from i evs = length (filter (is_dispatch i) evs)"

definition heap_origin :: "crypto_lib \<Rightarrow> codec \<Rightarrow> RelayBridgeClient \<Rightarrow> client_op list \<Rightarrow> client_event list \<Rightarrow> RelayBridgeClient \<Rightarrow> bool" where
  "heap_origin L C s0 ops evs s \<longleftrightarrow>
     (\<forall>i rc. rb_heap s i = Some rc \<longrightarrow> (\<exists>hello hs. admitted L C s0 ops hello hs \<and> Opened i hello \<in> set evs
        \<and> channel_of s0 hello hs rc \<and> rc_recvCounter rc = of_nat (Suc (dispatched_from i evs))))"

definition stage_origin :: "crypto_lib \<Rightarrow> codec \<Rightarrow> RelayBridgeClient \<Rightarrow> client_op list \<Rightarrow> RelayBridgeClient \<Rightarrow> bool" where
  "stage_origin L C s0 ops s \<longleftrightarrow>
     (\<forall>hello rc. rb_stage s = Installing hello rc \<longrightarrow>
        (\<exists>hs. admitted L C s0 ops hello hs \<and> channel_of s0 hello hs rc \<and> rc_recvCounter rc = 1))"

definition fresh_above :: "client_event list \<Rightarrow> RelayBridgeClient \<Rightarrow> bool" where
  "fresh_above evs s \<longleftrightarrow> (\<forall>i \<ge> rb_next s. rb_heap s i = None \<and> dispatched_from i evs = 0)"

definition same_names :: "RelayBridgeClient \<Rightarrow> RelayBridgeClient \<Rightarrow> bool" where
  "same_names s0 s \<longleftrightarrow> rb_bridgeID s = rb_bridgeID s0 \<and> rb_routeID s = rb_routeID s0 \<and> rb_identity s = rb_identity s0"

lemmas origin_defs = heap_origin_def stage_origin_def fresh_above_def same_names_def

lemma admitted_snoc: "admitted L C s0 ops hello hs \<Longrightarrow> admitted L C s0 (ops @ [op]) hello hs"
  unfolding admitted_def by (metis append.assoc append_Cons)

lemma dispatched_from_append [simp]: "dispatched_from i (xs @ ys) = dispatched_from i xs + dispatched_from i ys"
  by (simp add: dispatched_from_def)

lemma dispatched_none: "\<forall>e \<in> set evs. \<not> is_dispatch i e \<Longrightarrow> dispatched_from i evs = 0"
  by (simp add: dispatched_from_def)

lemma channel_of_le: "channel_of s0 hello hs a \<Longrightarrow> conn_le a b \<Longrightarrow> channel_of s0 hello hs b"
  by (simp add: channel_of_def conn_le_def)

text \<open>A step that leaves counters alone and adds no connection keeps all of it.\<close>

lemma origin_quiet:
  assumes "heap_origin L C s0 ops evs s" "fresh_above evs s" "same_names s0 s"
    and "\<forall>i. rel_option conn_le (rb_heap s i) (rb_heap s' i)" "rb_next s' = rb_next s" "same_names s s'"
    and none: "\<And>i. \<forall>e \<in> set new. \<not> is_dispatch i e"
  shows "heap_origin L C s0 (ops @ [op]) (evs @ new) s' \<and> fresh_above (evs @ new) s' \<and> same_names s0 s'"
proof (intro conjI)
  have n: "dispatched_from i (evs @ new) = dispatched_from i evs" for i using dispatched_none[OF none] by simp
  show "heap_origin L C s0 (ops @ [op]) (evs @ new) s'" unfolding heap_origin_def n
  proof (intro allI impI)
    fix i rc' assume "rb_heap s' i = Some rc'"
    then obtain rc where rc: "rb_heap s i = Some rc" "conn_le rc rc'" using assms(4) by (metis option.rel_cases option.discI option.inject)
    then obtain hello hs where "admitted L C s0 ops hello hs" "Opened i hello \<in> set evs" "channel_of s0 hello hs rc"
        "rc_recvCounter rc = of_nat (Suc (dispatched_from i evs))" using assms(1) unfolding heap_origin_def by blast
    then show "\<exists>hello hs. admitted L C s0 (ops @ [op]) hello hs \<and> Opened i hello \<in> set (evs @ new) \<and> channel_of s0 hello hs rc'
        \<and> rc_recvCounter rc' = of_nat (Suc (dispatched_from i evs))"
      using rc(2) channel_of_le by (intro exI[of _ hello] exI[of _ hs]) (auto simp: admitted_snoc conn_le_def)
  qed
  show "fresh_above (evs @ new) s'" unfolding fresh_above_def n
    using assms(2,4,5) by (metis fresh_above_def option.rel_distinct(1) option.exhaust)
  show "same_names s0 s'" using assms(3,6) by (simp add: same_names_def)
qed

lemma stage_origin_same: "stage_origin L C s0 ops s \<Longrightarrow> rb_stage s' = rb_stage s \<Longrightarrow> stage_origin L C s0 (ops @ [op]) s'"
  unfolding stage_origin_def by (metis admitted_snoc)

lemma quiet_heap: "quiet s s' \<Longrightarrow> (\<forall>i. rel_option conn_le (rb_heap s i) (rb_heap s' i)) \<and> rb_next s' = rb_next s \<and> same_names s s' \<and> rb_stage s' = rb_stage s"
  by (simp add: quiet_def same_names_def)

definition origin :: "crypto_lib \<Rightarrow> codec \<Rightarrow> RelayBridgeClient \<Rightarrow> client_op list \<Rightarrow> client_event list \<Rightarrow> RelayBridgeClient \<Rightarrow> bool" where
  "origin L C s0 ops evs s \<longleftrightarrow> heap_origin L C s0 ops evs s \<and> fresh_above evs s \<and> same_names s0 s \<and> stage_origin L C s0 ops s"

lemma origin_step_quiet:
  assumes "origin L C s0 ops evs s" and "quiet s s'" and "\<And>i. \<forall>e \<in> set new. \<not> is_dispatch i e"
  shows "origin L C s0 (ops @ [op]) (evs @ new) s'"
  using assms(1) origin_quiet[of L C s0 ops evs s s' new op, OF _ _ _ _ _ _ assms(3)] quiet_heap[OF assms(2)]
    stage_origin_same[of L C s0 ops s s' op]
  unfolding origin_def by simp

lemma origin_begin:
  assumes "origin L C s0 ops evs s" and "s = snd (client_run L C ops s0)" and "begin_hello L rk rr wr now hello s = (new, s')"
  shows "origin L C s0 (ops @ [CHello rk rr wr now hello]) (evs @ new) s'"
proof (cases "s' = s")
  case True
  have "\<forall>e \<in> set new. \<not> is_dispatch i e" for i
    using assms(3) by (auto simp: begin_hello_def sendServerHelloError_def split: sum.splits prod.splits if_splits)
  then show ?thesis using origin_step_quiet[OF assms(1), of s'] True by simp
next
  case False
  then obtain rec hs ans where c: "check_hello L rk rr hello s = Inr (rec, hs, ans)" "new = [ServerHello ans]"
      "s' = s\<lparr>rb_stage := Installing hello (NewRelayDeviceConn (cl_DeviceID hello) (rb_bridgeID s) (rb_routeID s) (cl_ChannelGeneration hello)
                        (hs_macToIosKey hs) (hs_iosToMacKey hs) now)\<rparr>"
    using assms(3) by (auto simp: begin_hello_def split: sum.splits prod.splits if_splits)
  have "admitted L C s0 (ops @ [CHello rk rr wr now hello]) hello hs" unfolding admitted_def using c(1) assms(2) by blast
  moreover have "same_names s0 s" using assms(1) by (simp add: origin_def)
  ultimately have "stage_origin L C s0 (ops @ [CHello rk rr wr now hello]) s'"
    by (auto simp: stage_origin_def c(3) channel_of_def NewRelayDeviceConn_def same_names_def intro!: exI[of _ hs])
  moreover have "heap_origin L C s0 (ops @ [CHello rk rr wr now hello]) (evs @ new) s' \<and> fresh_above (evs @ new) s' \<and> same_names s0 s'"
    by (rule origin_quiet[of L C s0 ops evs s]) (use assms(1) in \<open>simp_all add: origin_def c rel_option_refl same_names_def\<close>)
  ultimately show ?thesis by (simp add: origin_def)
qed

lemma origin_install:
  assumes "origin L C s0 ops evs s" and "install_hello s = (new, s')"
  shows "origin L C s0 (ops @ [CInstall]) (evs @ new) s'"
proof (cases "rb_stage s")
  case (Installing hello rc)
  define s1 where "s1 = (case map_of (rb_devices s) (cl_DeviceID hello) of None \<Rightarrow> s | Some stale \<Rightarrow> retire (cl_DeviceID hello) stale s)"
  have q: "quiet s s1" by (simp add: s1_def quiet_retire split: option.split)
  then have n: "rb_next s1 = rb_next s" by (simp add: quiet_def)
  have new: "new = [Opened (rb_next s) hello]" and s': "s' = s1\<lparr>rb_heap := (rb_heap s1)(rb_next s \<mapsto> rc), rb_next := Suc (rb_next s),
      rb_devices := AList.update (cl_DeviceID hello) (rb_next s) (rb_devices s1), rb_stage := Registering (cl_DeviceID hello) (rb_next s)\<rparr>"
    using assms(2) by (simp_all add: install_hello_def Installing Let_def s1_def)
  have o1: "origin L C s0 (ops @ [CInstall]) (evs @ new) s1"
    by (rule origin_step_quiet[OF assms(1) q]) (simp add: new)
  obtain hs where hs: "admitted L C s0 ops hello hs" "channel_of s0 hello hs rc" "rc_recvCounter rc = 1"
    using assms(1) Installing by (auto simp: origin_def stage_origin_def)
  have z: "dispatched_from (rb_next s) (evs @ new) = 0" using o1 n by (simp add: origin_def fresh_above_def)
  have "heap_origin L C s0 (ops @ [CInstall]) (evs @ new) s'" unfolding heap_origin_def
  proof (intro allI impI)
    fix i rc' assume i: "rb_heap s' i = Some rc'"
    show "\<exists>hello hs. admitted L C s0 (ops @ [CInstall]) hello hs \<and> Opened i hello \<in> set (evs @ new) \<and> channel_of s0 hello hs rc'
        \<and> rc_recvCounter rc' = of_nat (Suc (dispatched_from i (evs @ new)))"
    proof (cases "i = rb_next s")
      case True
      then show ?thesis using i hs z admitted_snoc[OF hs(1)] by (intro exI[of _ hello] exI[of _ hs]) (simp add: s' new)
    next
      case False
      then have "rb_heap s1 i = Some rc'" using i by (simp add: s')
      then show ?thesis using o1 unfolding origin_def heap_origin_def by blast
    qed
  qed
  moreover have "fresh_above (evs @ new) s'" using o1 n by (auto simp: origin_def fresh_above_def s')
  ultimately show ?thesis using o1 by (simp add: origin_def s' same_names_def stage_origin_def)
qed (use assms origin_step_quiet[OF assms(1) quiet_refl, of "[]"] in \<open>simp_all add: install_hello_def\<close>)

lemma origin_register:
  assumes "origin L C s0 ops evs s"
  shows "origin L C s0 (ops @ [CRegister]) evs (register_hello s)"
proof (cases "rb_stage s")
  case (Registering d i)
  have "heap_origin L C s0 (ops @ [CRegister]) (evs @ []) (register_hello s) \<and> fresh_above (evs @ []) (register_hello s) \<and> same_names s0 (register_hello s)"
    by (rule origin_quiet[of L C s0 ops evs s]) (use assms in \<open>simp_all add: origin_def register_hello_def Registering rel_option_refl same_names_def\<close>)
  then show ?thesis by (simp add: origin_def stage_origin_def register_hello_def Registering)
qed (use origin_step_quiet[OF assms quiet_refl, of "[]"] in \<open>simp_all add: register_hello_def\<close>)

lemma origin_inbound:
  assumes "origin L C s0 ops evs s" and "handleInboundEnvelope C now b s = (new, s')"
  shows "origin L C s0 (ops @ [CInbound now b]) (evs @ new) s'"
proof (cases rule: inbound_cases[of C now b s])
  case ignored
  then show ?thesis using assms origin_step_quiet[OF assms(1) quiet_refl, of "[]"] by simp
next
  case (taken i rc p env)
  then have new: "new = [Dispatched i p]"
    and s': "s' = s\<lparr>rb_heap := (rb_heap s)(i \<mapsto> touchLastActivity now (rc\<lparr>rc_recvCounter := rc_recvCounter rc + 1\<rparr>))\<rparr>"
    using assms(2) by simp_all
  have n: "dispatched_from j (evs @ new) = dispatched_from j evs + (if j = i then 1 else 0)" for j
    by (auto simp: dispatched_from_def new)
  have "heap_origin L C s0 (ops @ [CInbound now b]) (evs @ new) s'" unfolding heap_origin_def
  proof (intro allI impI)
    fix j rc' assume j: "rb_heap s' j = Some rc'"
    then obtain rc0 where rc0: "rb_heap s j = Some rc0" by (cases "j = i") (auto simp: s' taken(1))
    then obtain hello hs where h: "admitted L C s0 ops hello hs" "Opened j hello \<in> set evs" "channel_of s0 hello hs rc0"
        "rc_recvCounter rc0 = of_nat (Suc (dispatched_from j evs))"
      using assms(1) unfolding origin_def heap_origin_def by blast
    have "channel_of s0 hello hs rc' \<and> rc_recvCounter rc' = of_nat (Suc (dispatched_from j (evs @ new)))"
      using h(3,4) rc0 j taken(1) unfolding n by (cases "j = i") (auto simp: s' channel_of_def touchLastActivity_def)
    then show "\<exists>hello hs. admitted L C s0 (ops @ [CInbound now b]) hello hs \<and> Opened j hello \<in> set (evs @ new)
        \<and> channel_of s0 hello hs rc' \<and> rc_recvCounter rc' = of_nat (Suc (dispatched_from j (evs @ new)))"
      using h(1,2) admitted_snoc[OF h(1)] by (intro exI[of _ hello] exI[of _ hs]) simp
  qed
  moreover have "fresh_above (evs @ new) s'"
    using assms(1) taken(1) unfolding origin_def fresh_above_def n by (auto simp: s')
  moreover have "stage_origin L C s0 (ops @ [CInbound now b]) s'"
    using assms(1) stage_origin_same[of L C s0 ops s s'] by (simp add: origin_def s')
  ultimately show ?thesis using assms(1) by (simp add: origin_def s' same_names_def)
qed

lemma origin_run: "origin L C s0 ops (fst (client_run L C ops s0)) (snd (client_run L C ops s0))"
  if "rb_heap s0 = Map.empty" "rb_stage s0 = Reading"
proof (induction ops rule: rev_induct)
  case Nil
  then show ?case by (simp add: origin_def origin_defs that dispatched_from_def)
next
  case (snoc op ops)
  define s where "s = snd (client_run L C ops s0)"
  define evs where "evs = fst (client_run L C ops s0)"
  have o: "origin L C s0 ops evs s" using snoc by (simp add: s_def evs_def)
  have "origin L C s0 (ops @ [op]) (evs @ fst (client_step L C op s)) (snd (client_step L C op s))"
  proof (cases "reads op")
    case False
    then show ?thesis using origin_step_quiet[OF o quiet_step] quiet_events by blast
  next
    case True
    have skip: "origin L C s0 (ops @ [op]) (evs @ []) s" by (rule origin_step_quiet[OF o quiet_refl]) simp
    show ?thesis
    proof (cases op)
      case (CHello rk rr wr now hello)
      then show ?thesis using origin_begin[OF o s_def, of rk rr wr now hello] skip
        by (cases "begin_hello L rk rr wr now hello s") simp
    next
      case CInstall
      then show ?thesis using origin_install[OF o] by (cases "install_hello s") simp
    next
      case CRegister
      then show ?thesis using origin_register[OF o] by simp
    next
      case (CInbound now b)
      then show ?thesis using origin_inbound[OF o, of now b] skip by (cases "handleInboundEnvelope C now b s") simp
    qed (use True in simp_all)
  qed
  then show ?case by (simp add: client_run_snoc s_def evs_def)
qed

lemma check_hello_success:
  assumes "check_hello L rk rr hello s = Inr (rec, hs', ans)"
  obtains store identity pub authKey hs where "rb_trusted s = Some store" and "rb_identity s = Some identity"
    and "LookupByDeviceID (cl_DeviceID hello) (fs_mem store) = Some rec" and "td_RevokedAt rec = None"
    and "b64std_decode (td_IdentityPublicKey rec) = Some pub"
    and "DeriveIdentityAuthKey L pub (rb_bridgeID s) (cl_DeviceID hello) identity = Inr authKey"
    and "hs_identityAuthKey hs = authKey" and "AcceptClientHello L hello hs = (Inr ans, hs')"
proof -
  obtain store identity pub authKey hs where f: "rb_trusted s = Some store" "rb_identity s = Some identity"
      "LookupByDeviceID (cl_DeviceID hello) (fs_mem store) = Some rec" "td_RevokedAt rec = None"
      "b64std_decode (td_IdentityPublicKey rec) = Some pub"
      "DeriveIdentityAuthKey L pub (rb_bridgeID s) (cl_DeviceID hello) identity = Inr authKey"
      "NewOnlineHandshake L rk rr authKey = Inr hs" "AcceptClientHello L hello hs = (Inr ans, hs')"
    using assms by (auto simp: check_hello_def split: option.splits sum.splits prod.splits if_splits)
  have "hs_identityAuthKey hs = authKey" using f(7) by (auto simp: NewOnlineHandshake_def split: option.splits)
  with f that show ?thesis by blast
qed


section \<open>Only trusted devices are heard\<close>

text \<open>
  A message reaches the handlers of the bridge only over a channel that a trusted device opened. Whatever hellos,
  envelopes, heartbeats, reconnections, revocations and store changes happen in whatever order, a message handed over from a
  connection goes back to an earlier hello that met a record of its device, unrevoked at that time, and carried the tag
  under the key that only this device's registered identity and the bridge's own can derive. The message was sealed by
  that device under the key of that very handshake, for that channel generation, and it is the one whose counter follows the
  messages taken from the connection before.
\<close>

theorem dispatch_authenticated:
  assumes "client_run L C ops (NewRelayBridgeClient store identity bridgeID routeID) = (xs @ Dispatched i p # ys, s)"
  shows "\<exists>hello ops1 rk rr wr now ops2 st rec ident pub authKey hs c ans hs' env.
      Opened i hello \<in> set xs \<and> ops = ops1 @ CHello rk rr wr now hello # ops2
      \<and> rb_trusted (snd (client_run L C ops1 (NewRelayBridgeClient store identity bridgeID routeID))) = Some st
      \<and> LookupByDeviceID (cl_DeviceID hello) (fs_mem st) = Some rec \<and> td_RevokedAt rec = None
      \<and> identity = Some ident \<and> b64std_decode (td_IdentityPublicKey rec) = Some pub
      \<and> DeriveIdentityAuthKey L pub bridgeID (cl_DeviceID hello) ident = Inr authKey
      \<and> canonicalOnlineClientHello L hello = Some c \<and> b64std_decode (cl_AuthTag hello) = Some (hmacSHA256 L authKey c)
      \<and> hs_identityAuthKey hs = authKey \<and> AcceptClientHello L hello hs = (Inr ans, hs')
      \<and> RouteID env = routeID \<and> SenderID env = cl_DeviceID hello \<and> ChannelGeneration env = cl_ChannelGeneration hello
      \<and> Counter env = of_nat (Suc (dispatched_from i xs))
      \<and> OpenEnvelope (c_aead C) (hs_iosToMacKey hs') (Counter env) (EncodeAAD (c_encAAD C) env) (Ciphertext env) = Inr p"
proof -
  let ?s0 = "NewRelayBridgeClient store identity bridgeID routeID"
  have s0: "rb_heap ?s0 = Map.empty" "rb_stage ?s0 = Reading" "rb_bridgeID ?s0 = bridgeID" "rb_routeID ?s0 = routeID" "rb_identity ?s0 = identity"
    by (simp_all add: NewRelayBridgeClient_def)
  obtain opsA now b opsB s1 s2 where A: "ops = opsA @ CInbound now b # opsB" "client_run L C opsA ?s0 = (xs, s1)"
      "handleInboundEnvelope C now b s1 = ([Dispatched i p], s2)"
    using Dispatched_split[OF assms] by blast
  have o: "origin L C ?s0 opsA xs s1" using origin_run[OF s0(1,2), of L C opsA] A(2) by simp
  obtain rc env where rc: "rb_heap s1 i = Some rc" "\<not> rc_closed rc" "RouteID env = rc_routeID rc" "SenderID env = rc_deviceID rc"
      "ChannelGeneration env = rc_generation rc" "Counter env = rc_recvCounter rc"
      "OpenEnvelope (c_aead C) (rc_iosToMacKey rc) (Counter env) (EncodeAAD (c_encAAD C) env) (Ciphertext env) = Inr p"
    using A(3) by (cases rule: inbound_cases[of C now b s1]) auto
  obtain hello hs' where h: "admitted L C ?s0 opsA hello hs'" "Opened i hello \<in> set xs" "channel_of ?s0 hello hs' rc"
      "rc_recvCounter rc = of_nat (Suc (dispatched_from i xs))"
    using o rc(1) unfolding origin_def heap_origin_def by blast
  obtain ops1 rk rr wr now' ops2 rec ans where ad: "opsA = ops1 @ CHello rk rr wr now' hello # ops2"
      "check_hello L rk rr hello (snd (client_run L C ops1 ?s0)) = Inr (rec, hs', ans)"
    using h(1) unfolding admitted_def by blast
  have "same_names ?s0 (snd (client_run L C ops1 ?s0))" using origin_run[OF s0(1,2), of L C ops1] by (simp add: origin_def)
  then have names: "rb_bridgeID (snd (client_run L C ops1 ?s0)) = bridgeID" "rb_identity (snd (client_run L C ops1 ?s0)) = identity"
    using s0(3,5) by (simp_all add: same_names_def)
  obtain st ident pub authKey hs where k: "rb_trusted (snd (client_run L C ops1 ?s0)) = Some st" "identity = Some ident"
      "LookupByDeviceID (cl_DeviceID hello) (fs_mem st) = Some rec" "td_RevokedAt rec = None" "b64std_decode (td_IdentityPublicKey rec) = Some pub"
      "DeriveIdentityAuthKey L pub bridgeID (cl_DeviceID hello) ident = Inr authKey"
      "hs_identityAuthKey hs = authKey" "AcceptClientHello L hello hs = (Inr ans, hs')"
    using check_hello_success[OF ad(2)] unfolding names by metis
  obtain c where c: "canonicalOnlineClientHello L hello = Some c" "b64std_decode (cl_AuthTag hello) = Some (hmacSHA256 L authKey c)"
    using AcceptClientHello_success[OF k(8)] k(7) by metis
  have "ops = ops1 @ CHello rk rr wr now' hello # (ops2 @ CInbound now b # opsB)" using A(1) ad(1) by simp
  moreover have "RouteID env = routeID" "SenderID env = cl_DeviceID hello" "ChannelGeneration env = cl_ChannelGeneration hello"
      "Counter env = of_nat (Suc (dispatched_from i xs))" "rc_iosToMacKey rc = hs_iosToMacKey hs'"
    using rc(2-6) h(3,4) s0(4) by (simp_all add: channel_of_def)
  ultimately show ?thesis using h(2) k c rc(7) by metis
qed


section \<open>Revocation reaches the relay\<close>

lemma trusted_kept [simp]:
  "rb_trusted (close_at i s) = rb_trusted s" "rb_trusted (retire d i s) = rb_trusted s"
  "rb_trusted (snd (conn_send C idRnd rnd now p i s)) = rb_trusted s" "rb_trusted (pruneDeadDevice i s) = rb_trusted s"
  "rb_trusted (snd (begin_hello L rk rr wr now hello s)) = rb_trusted s" "rb_trusted (snd (install_hello s)) = rb_trusted s"
  "rb_trusted (register_hello s) = rb_trusted s" "rb_trusted (snd (handleInboundEnvelope C now b s)) = rb_trusted s"
  "rb_trusted (snd (Connect dial s)) = rb_trusted s"
  by (simp_all add: close_at_def retire_def conn_send_def pruneDeadDevice_def begin_hello_def install_hello_def register_hello_def Let_def
      handleInboundEnvelope_def Connect_def split: option.split prod.split sum.split hello_stage.split)

lemma trusted_beat [simp]: "rb_trusted (snd (beat C now deadAfter idRnd rnd ping i s)) = rb_trusted s"
  by (simp add: beat_def split: option.split)

lemma trusted_fold [simp]: "rb_trusted (fold (\<lambda>(d, i). retire d i) ds s) = rb_trusted s"
  by (induction ds arbitrary: s) (simp_all add: case_prod_beta)

lemma trusted_perform [simp]: "rb_trusted (snd (perform C idRnd rnd now msg acts s)) = rb_trusted s"
proof (induction acts arbitrary: s)
  case (Cons a acts)
  then show ?case by (cases a) (simp_all add: case_prod_beta Let_def)
qed simp

lemma trusted_step: "(\<forall>f dop. op \<noteq> CDirectory f dop) \<Longrightarrow> rb_trusted (snd (client_step L C op s)) = rb_trusted s"
  by (cases op) (simp_all add: closeConn_def client_Close_def retire_all_def disconnect_device_def case_prod_beta Let_def)

text \<open>
  For a device \<open>d\<close>: addresses are fresh, the connection being installed is the hello's, every open connection of \<open>d\<close> is in the
  registry or about to be, and the store has one record per device.
\<close>

definition table_inv :: "string \<Rightarrow> RelayBridgeClient \<Rightarrow> bool" where
  "table_inv d s \<longleftrightarrow> (\<forall>i \<ge> rb_next s. rb_heap s i = None)
     \<and> (\<forall>hello rc. rb_stage s = Installing hello rc \<longrightarrow> rc_deviceID rc = cl_DeviceID hello)
     \<and> (\<forall>i rc. rb_heap s i = Some rc \<and> rc_deviceID rc = d \<and> \<not> rc_closed rc \<longrightarrow> i \<in> set (rb_registry s d) \<or> rb_stage s = Registering d i)
     \<and> (\<forall>store. rb_trusted s = Some store \<longrightarrow> one_entry (fs_mem store))"

fun stage_free :: "string \<Rightarrow> hello_stage \<Rightarrow> bool" where
  "stage_free d Reading = True"
| "stage_free d (Installing hello rc) = (cl_DeviceID hello \<noteq> d)"
| "stage_free d (Registering e i) = (e \<noteq> d)"

text \<open>No hello of \<open>d\<close> is under way and none will pass.\<close>

definition barred :: "string \<Rightarrow> RelayBridgeClient \<Rightarrow> bool" where
  "barred d s \<longleftrightarrow> table_inv d s \<and> stage_free d (rb_stage s)
     \<and> (\<forall>store. rb_trusted s = Some store \<longrightarrow> \<not> usable d (\<lambda>d. LookupByDeviceID d (fs_mem store)))"

definition none_open :: "string \<Rightarrow> RelayBridgeClient \<Rightarrow> bool" where
  "none_open d s \<longleftrightarrow> (\<forall>i rc. rb_heap s i = Some rc \<and> rc_deviceID rc = d \<longrightarrow> rc_closed rc)"

definition heap_grows :: "RelayBridgeClient \<Rightarrow> RelayBridgeClient \<Rightarrow> bool" where
  "heap_grows s s' \<longleftrightarrow> (\<forall>i rc. rb_heap s i = Some rc \<longrightarrow> (\<exists>rc'. rb_heap s' i = Some rc' \<and> rc_deviceID rc' = rc_deviceID rc))"

lemma quiet_conn: "quiet s s' \<Longrightarrow> rb_heap s' i = Some rc' \<Longrightarrow> \<exists>rc. rb_heap s i = Some rc \<and> conn_le rc rc'"
  unfolding quiet_def by (metis option.rel_cases option.discI option.inject)

lemma quiet_grows:
  assumes "quiet s s'"
  shows "heap_grows s s'"
  unfolding heap_grows_def
proof (intro allI impI)
  fix i rc assume rc: "rb_heap s i = Some rc"
  have "rel_option conn_le (rb_heap s i) (rb_heap s' i)" using assms by (simp add: quiet_def)
  then show "\<exists>rc'. rb_heap s' i = Some rc' \<and> rc_deviceID rc' = rc_deviceID rc"
    unfolding rc by (cases "rb_heap s' i") (auto simp: conn_le_def)
qed

lemma quiet_none_open:
  assumes "quiet s s'" and "none_open d s"
  shows "none_open d s'"
  unfolding none_open_def
proof (intro allI impI)
  fix i rc' assume rc': "rb_heap s' i = Some rc' \<and> rc_deviceID rc' = d"
  then obtain rc where "rb_heap s i = Some rc" "conn_le rc rc'" using quiet_conn[OF assms(1)] by blast
  then show "rc_closed rc'" using assms(2) rc' by (auto simp: none_open_def conn_le_def)
qed

lemma quiet_fresh:
  assumes "quiet s s'" and "\<forall>i \<ge> rb_next s. rb_heap s i = None" and "rb_next s' \<le> i"
  shows "rb_heap s' i = None"
proof (cases "rb_heap s' i")
  case (Some rc')
  from quiet_conn[OF assms(1) this] show ?thesis using assms by (auto simp: quiet_def)
qed

lemma quiet_table:
  assumes "quiet s s'" and "table_inv d s" and "\<And>store. rb_trusted s' = Some store \<Longrightarrow> one_entry (fs_mem store)"
  shows "table_inv d s'"
proof -
  have "i \<in> set (rb_registry s' d) \<or> rb_stage s' = Registering d i"
    if "rb_heap s' i = Some rc'" "rc_deviceID rc' = d" "\<not> rc_closed rc'" for i rc'
  proof -
    from quiet_conn[OF assms(1) that(1)] obtain rc where "rb_heap s i = Some rc" "conn_le rc rc'" by blast
    then have "i \<in> set (rb_registry s d) \<or> rb_stage s = Registering d i" using assms(2) that by (simp add: table_inv_def conn_le_def)
    moreover have "\<not> dead s' i" using that by (simp add: dead_def)
    ultimately show ?thesis using assms(1) by (auto simp: quiet_def)
  qed
  moreover have "\<forall>i \<ge> rb_next s'. rb_heap s' i = None" using quiet_fresh[OF assms(1)] assms(2) by (simp add: table_inv_def)
  moreover have "rb_stage s' = rb_stage s" using assms(1) by (simp add: quiet_def)
  ultimately show ?thesis using assms(2,3) by (simp add: table_inv_def)
qed

lemma directory_trusted:
  assumes "rb_trusted (snd (directory_change f op s)) = Some store"
  obtains store0 where "rb_trusted s = Some store0" and "store = snd (file_step f op store0)"
  using assms by (auto simp: directory_change_def Let_def case_prod_beta split: option.splits)

lemma table_directory: "table_inv d s \<Longrightarrow> table_inv d (snd (directory_change f op s))"
  by (rule quiet_table[OF quiet_directory], assumption)
    (auto elim!: directory_trusted intro: file_directory.kept simp: table_inv_def)

text \<open>The four steps of the reading goroutine.\<close>

lemma begin_hello_cases:
  obtains (same) "snd (begin_hello L rk rr wr now hello s) = s"
  | (started) rc rec hs ans where "snd (begin_hello L rk rr wr now hello s) = s\<lparr>rb_stage := Installing hello rc\<rparr>"
      and "rc_deviceID rc = cl_DeviceID hello" and "check_hello L rk rr hello s = Inr (rec, hs, ans)"
proof (cases "snd (begin_hello L rk rr wr now hello s) = s")
  case False
  then show ?thesis using started
    by (auto simp: begin_hello_def NewRelayDeviceConn_def split: sum.splits prod.splits if_splits)
qed

lemma inbound_heap:
  obtains (same) "snd (handleInboundEnvelope C now b s) = s"
  | (taken) i rc rc' where "rb_heap s i = Some rc" and "rc_deviceID rc' = rc_deviceID rc" and "rc_closed rc' = rc_closed rc"
      and "snd (handleInboundEnvelope C now b s) = s\<lparr>rb_heap := (rb_heap s)(i \<mapsto> rc')\<rparr>"
proof (cases rule: inbound_cases[of C now b s])
  case (taken i rc p env)
  then show ?thesis using that(2)[of i rc "touchLastActivity now (rc\<lparr>rc_recvCounter := rc_recvCounter rc + 1\<rparr>)"]
    by (simp add: touchLastActivity_def)
qed (use that(1) in simp)

lemma install_cases:
  obtains (same) "snd (install_hello s) = s"
  | (opened) hello rc s1 where "rb_stage s = Installing hello rc" and "quiet s s1" and "rb_trusted s1 = rb_trusted s"
      and "rb_heap (snd (install_hello s)) = (rb_heap s1)(rb_next s \<mapsto> rc)" and "rb_next (snd (install_hello s)) = Suc (rb_next s)"
      and "rb_registry (snd (install_hello s)) = rb_registry s1" and "rb_stage (snd (install_hello s)) = Registering (cl_DeviceID hello) (rb_next s)"
proof (cases "rb_stage s")
  case (Installing hello rc)
  then show ?thesis
    by (intro opened[of hello rc "case map_of (rb_devices s) (cl_DeviceID hello) of None \<Rightarrow> s | Some stale \<Rightarrow> retire (cl_DeviceID hello) stale s"])
      (simp_all add: install_hello_def Let_def quiet_retire split: option.split)
qed (use same in \<open>simp_all add: install_hello_def\<close>)

lemma table_install:
  assumes "table_inv d s"
  shows "table_inv d (snd (install_hello s))"
proof (cases rule: install_cases[of s])
  case (opened hello rc s1)
  let ?s = "snd (install_hello s)"
  have t: "table_inv d s1" using quiet_table[OF opened(2) assms] assms opened(3) by (simp add: table_inv_def)
  have n: "rb_next s1 = rb_next s" "rb_stage s1 = Installing hello rc" using opened(1,2) by (simp_all add: quiet_def)
  have dev: "rc_deviceID rc = cl_DeviceID hello" using assms opened(1) by (simp add: table_inv_def)
  have "i \<in> set (rb_registry ?s d) \<or> rb_stage ?s = Registering d i" if "rb_heap ?s i = Some rc'" "rc_deviceID rc' = d" "\<not> rc_closed rc'" for i rc'
    using that t n dev by (cases "i = rb_next s") (auto simp: opened table_inv_def)
  then show ?thesis using t n by (auto simp: table_inv_def opened)
qed (use assms in simp)

lemma table_register: "d \<noteq> [] \<Longrightarrow> table_inv d s \<Longrightarrow> table_inv d (register_hello s)"
  by (cases "rb_stage s") (auto simp: table_inv_def register_hello_def registry_Register_def)

lemma table_begin:
  assumes "table_inv d s" "rb_stage s = Reading"
  shows "table_inv d (snd (begin_hello L rk rr wr now hello s))"
  by (cases rule: begin_hello_cases[of L rk rr wr now hello s]) (use assms in \<open>auto simp: table_inv_def\<close>)

lemma table_inbound:
  assumes "table_inv d s"
  shows "table_inv d (snd (handleInboundEnvelope C now b s))"
  by (cases rule: inbound_heap[of C now b s]) (use assms in \<open>auto simp: table_inv_def split: if_splits\<close>)

lemma table_step: "d \<noteq> [] \<Longrightarrow> table_inv d s \<Longrightarrow> table_inv d (snd (client_step L C op s))"
proof (cases "reads op \<or> (\<exists>f dop. op = CDirectory f dop)")
  case False
  assume a: "d \<noteq> []" "table_inv d s"
  have "rb_trusted (snd (client_step L C op s)) = rb_trusted s" using False by (intro trusted_step) auto
  then show ?thesis using quiet_table[OF quiet_step[of op s L C] a(2)] False a(2) by (auto simp: table_inv_def)
qed (cases op; simp add: table_directory table_begin table_inbound table_install table_register)

lemma table_run: "d \<noteq> [] \<Longrightarrow> table_inv d s \<Longrightarrow> table_inv d (snd (client_run L C ops s))"
  by (induction ops arbitrary: s) (simp_all add: table_step case_prod_beta Let_def)

text \<open>From the revocation on.\<close>

lemma check_hello_unusable:
  assumes "\<forall>store. rb_trusted s = Some store \<longrightarrow> \<not> usable (cl_DeviceID hello) (\<lambda>d. LookupByDeviceID d (fs_mem store))"
  shows "check_hello L rk rr hello s \<noteq> Inr (rec, hs, ans)"
proof
  assume "check_hello L rk rr hello s = Inr (rec, hs, ans)"
  then show False using assms by (auto elim!: check_hello_success simp: usable_def)
qed

definition pairs_again :: "string \<Rightarrow> client_op \<Rightarrow> bool" where
  "pairs_again d op \<longleftrightarrow> (case op of CDirectory f dop \<Rightarrow> pairs_device d dop | _ \<Rightarrow> False)"

lemma barred_directory:
  assumes "barred d s" and "\<not> pairs_device d dop"
  shows "barred d (snd (directory_change f dop s))"
proof -
  have "rb_stage (snd (directory_change f dop s)) = rb_stage s" using quiet_directory by (simp add: quiet_def)
  moreover have "\<not> usable d (\<lambda>d. LookupByDeviceID d (fs_mem store))" if "rb_trusted (snd (directory_change f dop s)) = Some store" for store
  proof -
    from directory_trusted[OF that] obtain store0 where "rb_trusted s = Some store0" "store = snd (file_step f dop store0)" .
    then show ?thesis using assms file_directory.stays_disabled[of store0 d dop f] by (simp add: barred_def table_inv_def)
  qed
  ultimately show ?thesis using assms(1) table_directory by (simp add: barred_def)
qed

lemma barred_begin:
  assumes "barred d s" and "rb_stage s = Reading"
  shows "barred d (snd (begin_hello L rk rr wr now hello s))"
proof (cases rule: begin_hello_cases[of L rk rr wr now hello s])
  case (started rc rec hs ans)
  then have "cl_DeviceID hello \<noteq> d" using check_hello_unusable[of s hello L rk rr] assms(1) by (auto simp: barred_def)
  then show ?thesis using assms table_begin[of d s L rk rr wr now hello] by (simp add: barred_def started)
qed (use assms in simp)

lemma barred_step:
  assumes "d \<noteq> []" and "barred d s" and "\<not> pairs_again d op"
  shows "barred d (snd (client_step L C op s))"
proof (cases op)
  case (CHello rk rr wr now hello)
  then show ?thesis using assms(2) barred_begin by simp
next
  case CInstall
  have "stage_free d (rb_stage (snd (install_hello s)))"
    by (cases rule: install_cases[of s]) (use assms(2) in \<open>auto simp: barred_def\<close>)
  then show ?thesis using assms(2) table_install[of d s] by (simp add: CInstall barred_def)
next
  case CRegister
  have "stage_free d (rb_stage (register_hello s))" using assms(2) by (cases "rb_stage s") (simp_all add: register_hello_def barred_def)
  then show ?thesis using assms(1,2) table_register[of d s] by (simp add: CRegister barred_def)
next
  case (CInbound now b)
  have "rb_stage (snd (handleInboundEnvelope C now b s)) = rb_stage s" by (cases rule: inbound_heap[of C now b s]) simp_all
  then show ?thesis using assms(2) table_inbound[of d s] by (simp add: CInbound barred_def)
next
  case (CDirectory f dop)
  then show ?thesis using barred_directory assms by (simp add: pairs_again_def)
qed (use assms quiet_step[of op s L C] trusted_step[of op L C s] table_step[of d s L C op] in \<open>auto simp: barred_def quiet_def\<close>)

lemma none_open_step:
  assumes "d \<noteq> []" and "barred d s" and "none_open d s"
  shows "none_open d (snd (client_step L C op s))"
proof (cases "reads op")
  case False
  then show ?thesis using quiet_none_open[OF quiet_step assms(3)] by blast
next
  case True
  then show ?thesis
  proof (cases op)
    case (CHello rk rr wr now hello)
    then show ?thesis using assms(3) by (cases rule: begin_hello_cases[of L rk rr wr now hello s]) (auto simp: none_open_def)
  next
    case CInstall
    show ?thesis
    proof (cases rule: install_cases[of s])
      case (opened hello rc s1)
      have "rc_deviceID rc \<noteq> d" using assms(2) opened(1) by (simp add: barred_def table_inv_def)
      then show ?thesis using quiet_none_open[OF opened(2) assms(3)] by (auto simp: CInstall none_open_def opened)
    qed (use assms(3) CInstall in simp)
  next
    case CRegister
    then show ?thesis using assms(3) by (cases "rb_stage s") (simp_all add: none_open_def register_hello_def)
  next
    case (CInbound now b)
    then show ?thesis using assms(3) by (cases rule: inbound_heap[of C now b s]) (auto simp: none_open_def)
  qed simp_all
qed

lemma grows_step:
  assumes "\<forall>i \<ge> rb_next s. rb_heap s i = None"
  shows "heap_grows s (snd (client_step L C op s))"
proof (cases "reads op")
  case False
  then show ?thesis by (intro quiet_grows quiet_step)
next
  case True
  then show ?thesis
  proof (cases op)
    case (CHello rk rr wr now hello)
    then show ?thesis by (cases rule: begin_hello_cases[of L rk rr wr now hello s]) (auto simp: heap_grows_def)
  next
    case CInstall
    show ?thesis
    proof (cases rule: install_cases[of s])
      case (opened hello rc s1)
      then show ?thesis using quiet_grows[OF opened(2)] assms by (auto simp: CInstall heap_grows_def)
    qed (use CInstall in \<open>simp add: heap_grows_def\<close>)
  next
    case CRegister
    then show ?thesis by (cases "rb_stage s") (simp_all add: heap_grows_def register_hello_def)
  next
    case (CInbound now b)
    then show ?thesis by (cases rule: inbound_heap[of C now b s]) (auto simp: heap_grows_def)
  qed simp_all
qed

lemma live_step: "\<forall>e \<in> set (fst (client_step L C op s)). live_event s e"
proof (cases "reads op")
  case False
  then show ?thesis using quiet_events by blast
next
  case True
  have "\<forall>e \<in> set (fst (handleInboundEnvelope C now b s)). live_event s e" for now b
    by (cases rule: inbound_cases[of C now b s]) (simp_all add: dead_def)
  then show ?thesis using True
    by (cases op) (auto simp: begin_hello_def sendServerHelloError_def install_hello_def Let_def split: sum.splits prod.splits hello_stage.splits if_splits)
qed

lemma silent_run:
  assumes "d \<noteq> []" and "barred d s" and "none_open d s" and "\<forall>op \<in> set ops. \<not> pairs_again d op"
    and "client_run L C ops s = (evs, s')"
  shows "heap_grows s s' \<and> barred d s' \<and> none_open d s'
    \<and> (\<forall>i rc. rb_heap s' i = Some rc \<and> rc_deviceID rc = d \<longrightarrow> (\<forall>p. Dispatched i p \<notin> set evs \<and> Wrote i p \<notin> set evs))"
  using assms(2-5)
proof (induction ops arbitrary: s evs)
  case Nil
  then show ?case by (auto simp: heap_grows_def)
next
  case (Cons op ops)
  obtain new s1 evs' where st: "client_step L C op s = (new, s1)" "client_run L C ops s1 = (evs', s')" "evs = new @ evs'"
    using Cons.prems(4) by (auto simp: case_prod_beta Let_def prod_eq_iff)
  have s1: "barred d s1" "none_open d s1" "heap_grows s s1"
    using barred_step[OF assms(1) Cons.prems(1), of op L C] none_open_step[OF assms(1) Cons.prems(1,2), of L C op] grows_step[of s L C op]
      Cons.prems(1,3) st(1) by (simp_all add: barred_def table_inv_def)
  note ih = Cons.IH[OF s1(1,2) _ st(2)]
  have g: "heap_grows s s'" using ih s1(3) Cons.prems(3) unfolding heap_grows_def by (metis list.set_intros(2))
  have "Dispatched i p \<notin> set new \<and> Wrote i p \<notin> set new" if "rb_heap s' i = Some rc" "rc_deviceID rc = d" for i rc p
  proof -
    have "dead s i" unfolding dead_def
    proof (intro allI impI)
      fix rc0 assume "rb_heap s i = Some rc0"
      then show "rc_closed rc0" using g that Cons.prems(2) unfolding heap_grows_def none_open_def by (metis option.inject)
    qed
    then show ?thesis using live_step[of L C op s] st(1) by fastforce
  qed
  then show ?case using ih g st(3) Cons.prems(3) by auto
qed

lemma barred_run:
  "d \<noteq> [] \<Longrightarrow> barred d s \<Longrightarrow> \<forall>op \<in> set ops. \<not> pairs_again d op \<Longrightarrow> barred d (snd (client_run L C ops s))"
  by (induction ops arbitrary: s) (simp_all add: barred_step case_prod_beta Let_def)

text \<open>
  C22. Revoking a device cuts it off. Once the store has recorded the revocation while no hello of the device is under way, and
  the registry has then been told to disconnect it, every connection of the device is closed, and stays so: in
  all that follows, hellos, envelopes, heartbeats, replies and reconnections of any device, no message of the device reaches the handlers
  and nothing is written to it, until the device is paired again. What happens between the two calls does not matter.
\<close>

theorem revoked_device_cut_off:
  assumes "d \<noteq> []" and "one_entry (fs_mem store)"
    and "client_run L C before (NewRelayBridgeClient (Some store) identity bridgeID routeID) = (evs0, s)" and "stage_free d (rb_stage s)"
    and "directory_change f (DirRevoke now d) s = (True, s1)" and "client_run L C between s1 = (evs1, s2)"
    and "disconnect_device C idRnd rnd t msg d s2 = (evs2, s3)" and "client_run L C later s3 = (evs3, s4)"
    and "\<forall>op \<in> set (between @ later). \<not> pairs_again d op"
  shows "\<forall>i rc. rb_heap s4 i = Some rc \<and> rc_deviceID rc = d \<longrightarrow>
           rc_closed rc \<and> (\<forall>b. Dispatched i b \<notin> set evs3 \<and> Wrote i b \<notin> set evs3)"
proof -
  have "table_inv d (NewRelayBridgeClient (Some store) identity bridgeID routeID)"
    using assms(2) by (simp add: table_inv_def NewRelayBridgeClient_def)
  from table_run[OF assms(1) this, of L C before] have t: "table_inv d s" using assms(3) by simp
  have "barred d s1"
  proof -
    have "\<not> usable d (\<lambda>d. LookupByDeviceID d (fs_mem st))" if st: "rb_trusted s1 = Some st" for st
    proof -
      have "rb_trusted (snd (directory_change f (DirRevoke now d) s)) = Some st" using st assms(5) by simp
      from directory_trusted[OF this] obtain st0 where st0: "rb_trusted s = Some st0" "st = snd (file_step f (DirRevoke now d) st0)" .
      then have "fst (file_step f (DirRevoke now d) st0)" using assms(5) by (simp add: directory_change_def Let_def case_prod_beta)
      then show ?thesis using file_directory.revoke_disables[of st0 f now d] t st0 by (simp add: table_inv_def)
    qed
    moreover have "table_inv d s1" "rb_stage s1 = rb_stage s"
      using table_directory[OF t, of f "DirRevoke now d"] quiet_directory[of s f "DirRevoke now d"] assms(5) by (simp_all add: quiet_def)
    ultimately show ?thesis using assms(4) by (simp add: barred_def)
  qed
  then have b2: "barred d s2" using barred_run[OF assms(1), of s1 between L C] assms(6,9) by simp
  have q: "quiet s2 s3" using quiet_disconnect[of s2 C idRnd rnd t msg d] assms(7) by simp
  have "rb_trusted s3 = rb_trusted s2"
    using trusted_step[of "CDisconnect idRnd rnd t msg d" L C s2] assms(7) by simp
  then have b3: "barred d s3" using barred_step[OF assms(1) b2, of "CDisconnect idRnd rnd t msg d" L C] assms(7) by (simp add: pairs_again_def)
  have "none_open d s3" unfolding none_open_def
  proof (intro allI impI)
    fix i rc assume i: "rb_heap s3 i = Some rc \<and> rc_deviceID rc = d"
    then obtain rc0 where rc0: "rb_heap s2 i = Some rc0" "conn_le rc0 rc" using quiet_conn[OF q] by blast
    show "rc_closed rc"
    proof (cases "rc_closed rc0")
      case True
      then show ?thesis using rc0(2) by (auto simp: conn_le_def)
    next
      case False
      then have "i \<in> set (rb_registry s2 d) \<or> rb_stage s2 = Registering d i" using b2 rc0 i by (simp add: barred_def table_inv_def conn_le_def)
      then have "i \<in> set (rb_registry s2 d)" using b2 by (auto simp: barred_def)
      then show ?thesis using disconnect_closes[of i s2 d C idRnd rnd t msg] assms(7) i by (simp add: dead_def)
    qed
  qed
  from silent_run[OF assms(1) b3 this _ assms(8)] have "none_open d s4
      \<and> (\<forall>i rc. rb_heap s4 i = Some rc \<and> rc_deviceID rc = d \<longrightarrow> (\<forall>p. Dispatched i p \<notin> set evs3 \<and> Wrote i p \<notin> set evs3))"
    using assms(9) by simp
  then show ?thesis unfolding none_open_def by blast
qed

lemma revoke_succeeds:
  assumes "rb_trusted s = Some store" and "LookupByDeviceID d (fs_mem store) \<noteq> None"
  shows "fst (directory_change no_faults (DirRevoke now d) s)"
  using assms by (auto simp: directory_change_def fds_RevokeDevice_def fds_commit_def with_unit_def RevokeTrusted_def AtomicWriteFile_def Let_def
      LookupByDeviceID_def cloneSnapshot_def split: option.splits)

text \<open>
  C23. The revocation can be lost to a hello under way. If the device's hello passed the lookup before the store recorded the
  revocation and the registry was emptied before the connection was installed, then the device is revoked and its new
  connection is nevertheless open, with its keys, and in the table of live devices and in the registry.
\<close>

theorem revocation_race:
  assumes "rb_stage s = Reading" and "rb_conn s" and "d = cl_DeviceID hello" and "d \<noteq> []"
    and "check_hello L rk rr hello s = Inr (rec, hs, ans)" and "rb_trusted s = Some store" and "one_entry (fs_mem store)"
    and "client_run L C [CHello rk rr True now hello, CDirectory no_faults (DirRevoke t d), CDisconnect idRnd rnd t msg d, CInstall, CRegister] s = (evs, s')"
  shows "\<exists>i rc store'. rb_trusted s' = Some store' \<and> \<not> usable d (\<lambda>d. LookupByDeviceID d (fs_mem store'))
     \<and> map_of (rb_devices s') d = Some i \<and> i \<in> set (rb_registry s' d) \<and> rb_heap s' i = Some rc \<and> rc_deviceID rc = d \<and> \<not> rc_closed rc
     \<and> rc_recvCounter rc = 1 \<and> rc_iosToMacKey rc = hs_iosToMacKey hs"
proof -
  define rc where "rc = NewRelayDeviceConn d (rb_bridgeID s) (rb_routeID s) (cl_ChannelGeneration hello) (hs_macToIosKey hs) (hs_iosToMacKey hs) now"
  define s1 where "s1 = s\<lparr>rb_stage := Installing hello rc\<rparr>"
  define s2 where "s2 = snd (directory_change no_faults (DirRevoke t d) s1)"
  define s3 where "s3 = snd (disconnect_device C idRnd rnd t msg d s2)"
  define s4 where "s4 = snd (install_hello s3)"
  have "snd (begin_hello L rk rr True now hello s) = s1" using assms(2,3,5) by (simp add: begin_hello_def s1_def rc_def)
  then have s': "s' = register_hello s4" using assms(1,8) by (auto simp: s2_def s3_def s4_def case_prod_beta Let_def)
  have stage: "rb_stage s3 = Installing hello rc"
    using quiet_disconnect[of s2 C idRnd rnd t msg d] quiet_directory[of s1 no_faults "DirRevoke t d"] by (simp add: quiet_def s1_def s2_def s3_def)
  have known: "LookupByDeviceID d (fs_mem store) \<noteq> None" using check_hello_success[OF assms(5)] assms(3,6) by force
  have ok: "fst (file_step no_faults (DirRevoke t d) store)"
    using revoke_succeeds[of s store d t] known assms(6) by (simp add: directory_change_def Let_def case_prod_beta)
  have "rb_trusted s2 = Some (snd (file_step no_faults (DirRevoke t d) store))"
    using assms(6) by (simp add: s2_def s1_def directory_change_def Let_def case_prod_beta)
  moreover have "rb_trusted s' = rb_trusted s2"
    using trusted_step[of "CDisconnect idRnd rnd t msg d" L C s2] by (simp add: s' s4_def s3_def)
  ultimately have "rb_trusted s' = Some (snd (file_step no_faults (DirRevoke t d) store))" by simp
  moreover have "\<not> usable d (\<lambda>e. LookupByDeviceID e (fs_mem (snd (file_step no_faults (DirRevoke t d) store))))"
    using file_directory.revoke_disables[of store no_faults t d] ok assms(7) by simp
  moreover have s4: "rb_heap s4 (rb_next s3) = Some rc" "rb_stage s4 = Registering d (rb_next s3)" "map_of (rb_devices s4) d = Some (rb_next s3)"
    using stage assms(3) by (simp_all add: s4_def install_hello_def Let_def)
  then have "map_of (rb_devices s') d = Some (rb_next s3)" "rb_next s3 \<in> set (rb_registry s' d)" "rb_heap s' (rb_next s3) = Some rc"
    using assms(4) by (simp_all add: s' register_hello_def registry_Register_def)
  ultimately show ?thesis
    by (intro exI[of _ "rb_next s3"] exI[of _ rc] exI[of _ "snd (file_step no_faults (DirRevoke t d) store)"]) (simp add: rc_def NewRelayDeviceConn_def)
qed

text \<open>
  A hello is accepted whatever its channel generation. If a device has a live channel and a hello of the same device arrives that
  passes the checks, for the same or an older generation, as a recorded hello sent again does, then the live channel is closed and replaced
  by a new one that starts over at counter one.
\<close>

theorem old_hello_replaces_channel:
  assumes "rb_stage s = Reading" and "rb_conn s" and "map_of (rb_devices s) (cl_DeviceID hello) = Some i" and "rb_heap s i = Some rc" and "i < rb_next s"
    and "cl_ChannelGeneration hello \<le> rc_generation rc" and "check_hello L rk rr hello s = Inr (rec, hs, ans)"
    and "handleClientHello L rk rr True now hello s = (evs, s')"
  shows "\<exists>rc'. rb_heap s' i = Some (conn_Close rc) \<and> map_of (rb_devices s') (cl_DeviceID hello) = Some (rb_next s)
     \<and> rb_heap s' (rb_next s) = Some rc' \<and> rc_generation rc' = cl_ChannelGeneration hello \<and> rc_recvCounter rc' = 1 \<and> rc_sendCounter rc' = 1"
proof -
  define rc' where "rc' = NewRelayDeviceConn (cl_DeviceID hello) (rb_bridgeID s) (rb_routeID s) (cl_ChannelGeneration hello)
     (hs_macToIosKey hs) (hs_iosToMacKey hs) now"
  have "begin_hello L rk rr True now hello s = ([ServerHello ans], s\<lparr>rb_stage := Installing hello rc'\<rparr>)"
    using assms(2,7) by (simp add: begin_hello_def rc'_def)
  then have "s' = register_hello (snd (install_hello (s\<lparr>rb_stage := Installing hello rc'\<rparr>)))"
    using assms(8) by (simp add: handleClientHello_def case_prod_beta Let_def)
  moreover have "rc_generation rc' = cl_ChannelGeneration hello" "rc_recvCounter rc' = 1" "rc_sendCounter rc' = 1"
    by (simp_all add: rc'_def NewRelayDeviceConn_def)
  ultimately show ?thesis using assms(3-5)
    by (auto simp: install_hello_def Let_def register_hello_def retire_def close_at_def)
qed


section \<open>Witnesses\<close>

definition demo_trusted :: TrustedDeviceRecord where
  "demo_trusted = zero_record\<lparr>td_DeviceID := ''d'', td_IdentityPublicKey := b64std_encode [3]\<rparr>"

definition demo_trust :: FileDeviceStore where
  "demo_trust = \<lparr>fs_disk = None, fs_mem = put_device demo_trusted NewMemoryDeviceStore\<rparr>"

definition demo_bridge :: RelayBridgeClient where
  "demo_bridge = NewRelayBridgeClient (Some demo_trust) (Some \<lparr>ci_privateKey = [4], ci_publicKey = [4]\<rparr>) ''b'' ''rt''"

lemma demo_lookup: "LookupByDeviceID ''d'' (fs_mem demo_trust) = Some demo_trusted" "one_entry (fs_mem demo_trust)"
  by (simp_all add: demo_trust_def put_device_def NewMemoryDeviceStore_def LookupByDeviceID_def one_entry_def demo_trusted_def zero_record_def)

lemma demo_hello_fields:
  "cl_DeviceID demo_hello = ''d''" "cl_ChannelGeneration demo_hello = 1"
  "b64std_decode (cl_AuthTag demo_hello) = Some (demo_authKey @ demo_hello_bytes)" "b64std_decode (cl_IOSEphemeralPublicKey demo_hello) = Some [9]"
  using b64std_roundtrip[of "[9]"] by (simp_all add: demo_hello_def demo_client_def b64std_roundtrip)

lemma demo_accepts: "\<exists>ans hs'. AcceptClientHello demo_crypto demo_hello demo_hs = (Inr ans, hs') \<and> length (hs_iosToMacKey hs') = 32"
  by (simp add: AcceptClientHello_def demo_hello_canonical demo_hello_fields hmacSHA256_def Let_def
      canonicalOnlineServerHello_def derive_traffic_keys_def hkdfDerive_def hkdfExpand_def trafficKeyLen_def)
    (simp add: demo_hs_def)

lemma demo_check:
  assumes "rb_trusted s = Some demo_trust" "rb_identity s = Some \<lparr>ci_privateKey = [4], ci_publicKey = [4]\<rparr>" "rb_bridgeID s = ''b''"
  shows "\<exists>rec hs ans. check_hello demo_crypto (Some [5]) (Some [1]) demo_hello s = Inr (rec, hs, ans) \<and> length (hs_iosToMacKey hs) = 32"
proof -
  have "NewOnlineHandshake demo_crypto (Some [5]) (Some [1]) demo_authKey = Inr demo_hs" by (simp add: NewOnlineHandshake_def demo_hs_def)
  moreover have "td_RevokedAt demo_trusted = None" "td_IdentityPublicKey demo_trusted \<noteq> []"
    "b64std_decode (td_IdentityPublicKey demo_trusted) = Some [3]"
    using b64std_roundtrip[of "[3]"] by (simp_all add: demo_trusted_def zero_record_def)
  moreover obtain ans hs' where "AcceptClientHello demo_crypto demo_hello demo_hs = (Inr ans, hs')" "length (hs_iosToMacKey hs') = 32"
    using demo_accepts by blast
  ultimately show ?thesis using assms demo_lookup demo_identity(1) by (simp add: check_hello_def demo_hello_fields)
qed

definition demo_frames :: "bytes \<Rightarrow> codec" where
  "demo_frames c = demo_codec\<lparr>c_unmarshal := (\<lambda>_. Some (demo_inbound\<lparr>RouteID := ''rt'', SenderID := ''d'', ChannelGeneration := 1, Ciphertext := c\<rparr>))\<rparr>"

definition demo_opening :: "client_op list" where
  "demo_opening = [CConnect True, CHello (Some [5]) (Some [1]) True 0 demo_hello, CInstall, CRegister]"

lemma demo_opened:
  obtains hs :: OnlineHandshakeState and ans and s :: RelayBridgeClient where "\<And>C. client_run demo_crypto C demo_opening demo_bridge = ([ServerHello ans, Opened 0 demo_hello], s)"
    and "rb_devices s = [(''d'', 0)]" "rb_stage s = Reading" "rb_next s = 1" "rb_conn s" "length (hs_iosToMacKey hs) = 32"
    and "rb_trusted s = Some demo_trust" "rb_identity s = Some \<lparr>ci_privateKey = [4], ci_publicKey = [4]\<rparr>" "rb_bridgeID s = ''b''"
    and "rb_heap s 0 = Some (NewRelayDeviceConn ''d'' ''b'' ''rt'' 1 (hs_macToIosKey hs) (hs_iosToMacKey hs) 0)"
proof -
  obtain rec hs ans where h: "check_hello demo_crypto (Some [5]) (Some [1]) demo_hello (demo_bridge\<lparr>rb_conn := True\<rparr>) = Inr (rec, hs, ans)"
      "length (hs_iosToMacKey hs) = 32"
    using demo_check[of "demo_bridge\<lparr>rb_conn := True\<rparr>"] by (auto simp: demo_bridge_def NewRelayBridgeClient_def)
  have b: "rb_stage demo_bridge = Reading" "rb_devices demo_bridge = []" "rb_next demo_bridge = 0" "rb_bridgeID demo_bridge = ''b''" "rb_routeID demo_bridge = ''rt''"
    "rb_trusted demo_bridge = Some demo_trust" "rb_identity demo_bridge = Some \<lparr>ci_privateKey = [4], ci_publicKey = [4]\<rparr>"
    by (simp_all add: demo_bridge_def NewRelayBridgeClient_def)
  show ?thesis
    by (rule that[of ans _ hs])
      (simp add: b h demo_opening_def Connect_def begin_hello_def install_hello_def register_hello_def Let_def demo_hello_fields,
       simp_all add: b h)
qed

lemma demo_sealed:
  assumes "length k = 32"
  shows "\<exists>c. OpenEnvelope demo_aead k 1 [5] c = Inr [1, 2]"
proof -
  have "bucket 2 = 256" by (simp add: bucket_def)
  then have "applyPadding demo_zeros [1, 2] = Inr (put_be32 2 @ [1, 2] @ replicate 250 0)"
    using applyPadding_shape[of "[1, 2]" demo_zeros] by (simp add: demo_zeros_def numeral_2_eq_2)
  then have "\<exists>c. SealEnvelope demo_aead demo_zeros k 1 [5] [1, 2] = Inr c" using assms by (simp add: SealEnvelope_def)
  then show ?thesis using Seal_Open[OF demo_aead_ok] by (fastforce simp: demo_zeros_def)
qed

theorem dispatch_authenticated_witness:
  "\<exists>C s xs. client_run demo_crypto C (demo_opening @ [CInbound 0 []]) demo_bridge = (xs @ Dispatched 0 [1, 2] # [], s)
     \<and> (\<exists>hello authKey c. Opened 0 hello \<in> set xs
          \<and> canonicalOnlineClientHello demo_crypto hello = Some c \<and> b64std_decode (cl_AuthTag hello) = Some (hmacSHA256 demo_crypto authKey c))"
proof -
  obtain hs :: OnlineHandshakeState and ans and s :: RelayBridgeClient where r: "\<And>C. client_run demo_crypto C demo_opening demo_bridge = ([ServerHello ans, Opened 0 demo_hello], s)"
      "rb_devices s = [(''d'', 0)]" "rb_stage s = Reading" "rb_next s = 1" "rb_conn s" "length (hs_iosToMacKey hs) = 32"
      "rb_trusted s = Some demo_trust" "rb_identity s = Some \<lparr>ci_privateKey = [4], ci_publicKey = [4]\<rparr>" "rb_bridgeID s = ''b''"
      "rb_heap s 0 = Some (NewRelayDeviceConn ''d'' ''b'' ''rt'' 1 (hs_macToIosKey hs) (hs_iosToMacKey hs) 0)"
    by (rule demo_opened) (rule that, assumption+)
  obtain c where c: "OpenEnvelope demo_aead (hs_iosToMacKey hs) 1 [5] c = Inr [1, 2]" using demo_sealed[OF r(6)] by blast
  have "hs_iosToMacKey hs \<noteq> []" using r(6) by auto
  then have "fst (handleInboundEnvelope (demo_frames c) 0 [] s) = [Dispatched 0 [1, 2]]"
    using c r(2,10) by (simp add: handleInboundEnvelope_def ReceiveJSON_def demo_frames_def demo_codec_def demo_inbound_def demo_header_def
        NewRelayDeviceConn_def EncodeAAD_def)
  then have run: "client_run demo_crypto (demo_frames c) (demo_opening @ [CInbound 0 []]) demo_bridge
      = ([ServerHello ans, Opened 0 demo_hello] @ Dispatched 0 [1, 2] # [], snd (handleInboundEnvelope (demo_frames c) 0 [] s))"
    using r(1,3) by (simp add: client_run_snoc)
  from dispatch_authenticated[OF run[unfolded demo_bridge_def]]
  have "\<exists>hello authKey c. Opened 0 hello \<in> set [ServerHello ans, Opened 0 demo_hello]
          \<and> canonicalOnlineClientHello demo_crypto hello = Some c \<and> b64std_decode (cl_AuthTag hello) = Some (hmacSHA256 demo_crypto authKey c)"
    by (elim exE conjE) (intro exI conjI, assumption+)
  with run show ?thesis by blast
qed

theorem revoked_device_cut_off_witness:
  "\<exists>(s4 :: RelayBridgeClient) evs3. (\<exists>rc. rb_heap s4 0 = Some rc \<and> rc_deviceID rc = ''d'') \<and> (\<forall>i rc. rb_heap s4 i = Some rc \<and> rc_deviceID rc = ''d'' \<longrightarrow>
       rc_closed rc \<and> (\<forall>b. Dispatched i b \<notin> set evs3 \<and> Wrote i b \<notin> set evs3))"
proof -
  obtain hs :: OnlineHandshakeState and ans and s :: RelayBridgeClient where r: "\<And>C. client_run demo_crypto C demo_opening demo_bridge = ([ServerHello ans, Opened 0 demo_hello], s)"
      "rb_devices s = [(''d'', 0)]" "rb_stage s = Reading" "rb_next s = 1" "rb_conn s" "length (hs_iosToMacKey hs) = 32"
      "rb_trusted s = Some demo_trust" "rb_identity s = Some \<lparr>ci_privateKey = [4], ci_publicKey = [4]\<rparr>" "rb_bridgeID s = ''b''"
      "rb_heap s 0 = Some (NewRelayDeviceConn ''d'' ''b'' ''rt'' 1 (hs_macToIosKey hs) (hs_iosToMacKey hs) 0)"
    by (rule demo_opened) (rule that, assumption+)
  obtain s1 where s1: "directory_change no_faults (DirRevoke 0 ''d'') s = (True, s1)"
    using revoke_succeeds[OF r(7), of "''d''" 0] demo_lookup(1) by (cases "directory_change no_faults (DirRevoke 0 ''d'') s") auto
  obtain evs2 s3 where s3: "disconnect_device demo_codec (\<lambda>_. []) (\<lambda>_. demo_zeros) 0 (Some []) ''d'' s1 = (evs2, s3)" by fastforce
  obtain evs3 s4 where s4: "client_run demo_crypto demo_codec [CConnect True] s3 = (evs3, s4)" by fastforce
  have q1: "quiet s s1" using quiet_directory[of s no_faults "DirRevoke 0 ''d''"] s1 by simp
  have q2: "quiet s1 s3" using quiet_disconnect[of s1 demo_codec "\<lambda>_. []" "\<lambda>_. demo_zeros" 0 "Some []" "''d''"] s3 by simp
  have "s4 = snd (Connect True s3)" using s4 by simp
  then have q3: "quiet s3 s4" by (simp add: quiet_Connect)
  have "heap_grows s s4" by (rule quiet_grows[OF quiet_trans[OF quiet_trans[OF q1 q2] q3]])
  then have "\<exists>rc. rb_heap s4 0 = Some rc \<and> rc_deviceID rc = ''d''" using r(10) by (force simp: heap_grows_def NewRelayDeviceConn_def)
  moreover have "\<forall>i rc. rb_heap s4 i = Some rc \<and> rc_deviceID rc = ''d'' \<longrightarrow> rc_closed rc \<and> (\<forall>b. Dispatched i b \<notin> set evs3 \<and> Wrote i b \<notin> set evs3)"
    by (rule revoked_device_cut_off[OF _ demo_lookup(2) r(1)[unfolded demo_bridge_def] _ s1 _ s3 s4, of "[]" "[]"])
      (simp_all add: r(3) pairs_again_def)
  ultimately show ?thesis by blast
qed

lemma demo_ready: "rb_stage demo_bridge = Reading" "rb_trusted demo_bridge = Some demo_trust"
  "rb_identity demo_bridge = Some \<lparr>ci_privateKey = [4], ci_publicKey = [4]\<rparr>" "rb_bridgeID demo_bridge = ''b''"
  by (simp_all add: demo_bridge_def NewRelayBridgeClient_def)

theorem revocation_race_witness:
  "\<exists>evs s' i rc store'. client_run demo_crypto demo_codec [CHello (Some [5]) (Some [1]) True 0 demo_hello, CDirectory no_faults (DirRevoke 0 ''d''),
       CDisconnect (\<lambda>_. []) (\<lambda>_. demo_zeros) 0 (Some []) ''d'', CInstall, CRegister] (demo_bridge\<lparr>rb_conn := True\<rparr>) = (evs, s')
     \<and> rb_trusted s' = Some store' \<and> \<not> usable ''d'' (\<lambda>d. LookupByDeviceID d (fs_mem store')) \<and> rb_heap s' i = Some rc \<and> rc_deviceID rc = ''d'' \<and> \<not> rc_closed rc"
proof -
  obtain rec hs ans where h: "check_hello demo_crypto (Some [5]) (Some [1]) demo_hello (demo_bridge\<lparr>rb_conn := True\<rparr>) = Inr (rec, hs, ans)"
    using demo_check[of "demo_bridge\<lparr>rb_conn := True\<rparr>"] demo_ready by auto
  obtain evs s' where run: "client_run demo_crypto demo_codec [CHello (Some [5]) (Some [1]) True 0 demo_hello, CDirectory no_faults (DirRevoke 0 ''d''),
       CDisconnect (\<lambda>_. []) (\<lambda>_. demo_zeros) 0 (Some []) ''d'', CInstall, CRegister] (demo_bridge\<lparr>rb_conn := True\<rparr>) = (evs, s')"
    by fastforce
  have "\<exists>i rc store'. rb_trusted s' = Some store' \<and> \<not> usable ''d'' (\<lambda>d. LookupByDeviceID d (fs_mem store'))
     \<and> map_of (rb_devices s') ''d'' = Some i \<and> i \<in> set (rb_registry s' ''d'') \<and> rb_heap s' i = Some rc \<and> rc_deviceID rc = ''d'' \<and> \<not> rc_closed rc
     \<and> rc_recvCounter rc = 1 \<and> rc_iosToMacKey rc = hs_iosToMacKey hs"
    by (rule revocation_race[OF _ _ demo_hello_fields(1)[symmetric] _ h _ demo_lookup(2) run]) (simp_all add: demo_ready)
  then show ?thesis using run by blast
qed

theorem old_hello_replaces_channel_witness:
  "\<exists>(s :: RelayBridgeClient) s' rc'. snd (handleClientHello demo_crypto (Some [5]) (Some [1]) True 0 demo_hello s) = s' \<and> rb_devices s = [(''d'', 0)]
     \<and> map_of (rb_devices s') ''d'' = Some 1 \<and> rb_heap s' 1 = Some rc' \<and> rc_recvCounter rc' = 1"
proof -
  obtain hs :: OnlineHandshakeState and ans and s :: RelayBridgeClient where r: "\<And>C. client_run demo_crypto C demo_opening demo_bridge = ([ServerHello ans, Opened 0 demo_hello], s)"
      "rb_devices s = [(''d'', 0)]" "rb_stage s = Reading" "rb_next s = 1" "rb_conn s" "length (hs_iosToMacKey hs) = 32"
      "rb_trusted s = Some demo_trust" "rb_identity s = Some \<lparr>ci_privateKey = [4], ci_publicKey = [4]\<rparr>" "rb_bridgeID s = ''b''"
      "rb_heap s 0 = Some (NewRelayDeviceConn ''d'' ''b'' ''rt'' 1 (hs_macToIosKey hs) (hs_iosToMacKey hs) 0)"
    by (rule demo_opened) (rule that, assumption+)
  obtain rec hs' ans' where h: "check_hello demo_crypto (Some [5]) (Some [1]) demo_hello s = Inr (rec, hs', ans')"
    using demo_check[OF r(7,8,9)] by blast
  have "map_of (rb_devices s) (cl_DeviceID demo_hello) = Some 0" by (simp add: r(2) demo_hello_fields)
  from old_hello_replaces_channel[OF r(3,5) this r(10) _ _ h surjective_pairing, of 0] show ?thesis
    using r(2,4) by (simp add: demo_hello_fields NewRelayDeviceConn_def) metis
qed

end
