(* ===== verification/Hpke.thy ===== *)
theory Hpke
  imports Handshake
begin

unbundle bit_operations_syntax

text \<open>
  Hybrid public-key encryption for pairing (\<^verbatim>\<open>go-bridge/relay_hpke.go\<close>): the file's own key schedule over HMAC, its nonce
  sequence and sealing context, the calls of the HPKE library, and the pairing claim sealed with them. The library, HMAC, the AEAD, the JSON
  codec and the clock are parameters.
\<close>

section \<open>HKDF and the labelled functions\<close>

definition hpkeModeBase :: "8 word" where "hpkeModeBase = 0"
definition hpkeKEMX25519 :: "16 word" where "hpkeKEMX25519 = 0x0020"
definition hpkeKDFSHA256 :: "16 word" where "hpkeKDFSHA256 = 0x0001"
definition hpkeAEADChaCha :: "16 word" where "hpkeAEADChaCha = 0x0003"
definition hpkeLabelHPKE :: bytes where "hpkeLabelHPKE = bytes_of ''HPKE-v1''"
definition hpkeLabelExporter :: bytes where "hpkeLabelExporter = bytes_of ''HPKE-v1/exporter''"
definition kemNsecret :: nat where "kemNsecret = 32"
definition pairingContextLabel :: string where "pairingContextLabel = ''cordcode-relay/pairing/v1''"
definition pairingClaimTTL :: duration where "pairingClaimTTL = 5 * minute"

definition appendUint16 :: "bytes \<Rightarrow> 16 word \<Rightarrow> bytes" where
  "appendUint16 b v = b @ [ucast (drop_bit 8 v), ucast v]"

definition buildSuiteID :: bytes where
  "buildSuiteID = appendUint16 (appendUint16 (appendUint16 (bytes_of ''HPKE'') hpkeKEMX25519) hpkeKDFSHA256) hpkeAEADChaCha"

text \<open>A nil salt is 32 zero bytes.\<close>

definition hkdfExtractHPKE :: "crypto_lib \<Rightarrow> bytes option \<Rightarrow> bytes \<Rightarrow> bytes" where
  "hkdfExtractHPKE L salt ikm = x_hmac L (case salt of None \<Rightarrow> replicate 32 0 | Some s \<Rightarrow> s) ikm"

text \<open>The loop of the expansion: \<open>m\<close> turns are left, the next is number \<open>i\<close>.\<close>

fun hkdf_blocks :: "crypto_lib \<Rightarrow> bytes \<Rightarrow> bytes \<Rightarrow> nat \<Rightarrow> nat \<Rightarrow> bytes \<Rightarrow> bytes \<Rightarrow> bytes" where
  "hkdf_blocks L prk info 0 i prev result = result"
| "hkdf_blocks L prk info (Suc m) i prev result =
     (let prev = x_hmac L prk (prev @ info @ [of_nat i]) in hkdf_blocks L prk info m (Suc i) prev (result @ prev))"

definition hkdfExpandHPKE :: "crypto_lib \<Rightarrow> bytes \<Rightarrow> bytes \<Rightarrow> nat \<Rightarrow> bytes option" where
  "hkdfExpandHPKE L prk info len =
     (let hashLen = 32; n = (len + hashLen - 1) div hashLen
      in if 255 * hashLen < len then None else Some (take len (hkdf_blocks L prk info n 1 [] [])))"

definition labeledExtract :: "crypto_lib \<Rightarrow> bytes option \<Rightarrow> bytes \<Rightarrow> bytes \<Rightarrow> bytes" where
  "labeledExtract L salt label ikm = hkdfExtractHPKE L salt (hpkeLabelHPKE @ buildSuiteID @ label @ ikm)"

definition expand_input :: "bytes \<Rightarrow> bytes \<Rightarrow> bytes \<Rightarrow> nat \<Rightarrow> bytes" where
  "expand_input suiteID label info len = appendUint16 (hpkeLabelHPKE @ suiteID @ label) (of_nat len) @ info"

definition labeledExpand :: "crypto_lib \<Rightarrow> bytes \<Rightarrow> bytes \<Rightarrow> bytes \<Rightarrow> nat \<Rightarrow> bytes option" where
  "labeledExpand L prk label info len = hkdfExpandHPKE L prk (expand_input buildSuiteID label info len) len"

definition kemExtractAndExpand :: "crypto_lib \<Rightarrow> bytes \<Rightarrow> bytes \<Rightarrow> bytes option" where
  "kemExtractAndExpand L dh kemContext =
     (let kemSuiteID = appendUint16 (bytes_of ''KEM'') hpkeKEMX25519;
          eaePRK = hkdfExtractHPKE L None (hpkeLabelHPKE @ kemSuiteID @ bytes_of ''eae_prk'' @ dh)
      in hkdfExpandHPKE L eaePRK (expand_input kemSuiteID (bytes_of ''shared_secret'') kemContext kemNsecret) kemNsecret)"

text \<open>
  \<open>hc_sealer\<close> and \<open>hc_opener\<close> are the library's contexts, set by \<^verbatim>\<open>HPKESeal\<close> and \<^verbatim>\<open>HPKEOpen\<close>, which leave the other
  fields empty; \<^verbatim>\<open>hpkeKeySchedule\<close> does the opposite.
\<close>

record HPKEContext =
  hc_aeadKey :: bytes
  hc_baseNonce :: bytes
  hc_seq :: "64 word"
  hc_exporterSecret :: bytes
  hc_sealer :: "bytes option"
  hc_opener :: "bytes option"

definition empty_context :: HPKEContext where
  "empty_context = \<lparr>hc_aeadKey = [], hc_baseNonce = [], hc_seq = 0, hc_exporterSecret = [], hc_sealer = None, hc_opener = None\<rparr>"

definition hpkeKeySchedule :: "crypto_lib \<Rightarrow> bytes \<Rightarrow> bytes \<Rightarrow> HPKEContext option" where
  "hpkeKeySchedule L sharedSecret info =
     (let pskIDHash = labeledExtract L None (bytes_of ''psk_id_hash'') [];
          infoHash = labeledExtract L None (bytes_of ''info_hash'') info;
          ksc = hpkeModeBase # pskIDHash @ infoHash;
          secret = labeledExtract L (Some sharedSecret) (bytes_of ''secret'') ksc
      in case labeledExpand L secret (bytes_of ''key'') ksc 32 of
           None \<Rightarrow> None
         | Some key \<Rightarrow>
             (case labeledExpand L secret (bytes_of ''base_nonce'') ksc 12 of
                None \<Rightarrow> None
              | Some nonce \<Rightarrow>
                  (case labeledExpand L secret hpkeLabelExporter ksc 32 of
                     None \<Rightarrow> None
                   | Some exporterSecret \<Rightarrow>
                       Some (empty_context\<lparr>hc_aeadKey := key, hc_baseNonce := nonce, hc_exporterSecret := exporterSecret\<rparr>))))"


section \<open>Sealing in a context\<close>

text \<open>The exclusive or writes the last eight bytes; a base nonce of fewer panics, \<open>None\<close>.\<close>

definition hpkeComputeNonce :: "bytes \<Rightarrow> 64 word \<Rightarrow> bytes option" where
  "hpkeComputeNonce baseNonce s =
     (if length baseNonce < 8 then None
      else Some (take (length baseNonce - 8) baseNonce @ map2 (XOR) (drop (length baseNonce - 8) baseNonce) (put_be64 s)))"

datatype hpke_error = HPanic | HKeyLength | HOpenFailed

text \<open>The sequence number moves on before the AEAD is made; a 32-byte key is required, and a nonce of other than 12 bytes panics.\<close>

definition hpkeAEADSeal :: "aead \<Rightarrow> bytes \<Rightarrow> bytes \<Rightarrow> HPKEContext \<Rightarrow> (hpke_error + bytes) \<times> HPKEContext" where
  "hpkeAEADSeal A aad plaintext ctx =
     (case hpkeComputeNonce (hc_baseNonce ctx) (hc_seq ctx) of
        None \<Rightarrow> (Inl HPanic, ctx)
      | Some nonce \<Rightarrow>
          (let ctx = ctx\<lparr>hc_seq := hc_seq ctx + 1\<rparr>
           in if length (hc_aeadKey ctx) \<noteq> 32 then (Inl HKeyLength, ctx)
              else if length nonce \<noteq> 12 then (Inl HPanic, ctx)
              else (Inr (aead_Seal A (hc_aeadKey ctx) nonce aad plaintext), ctx)))"

definition hpkeAEADOpen :: "aead \<Rightarrow> bytes \<Rightarrow> bytes \<Rightarrow> HPKEContext \<Rightarrow> (hpke_error + bytes) \<times> HPKEContext" where
  "hpkeAEADOpen A aad ciphertext ctx =
     (case hpkeComputeNonce (hc_baseNonce ctx) (hc_seq ctx) of
        None \<Rightarrow> (Inl HPanic, ctx)
      | Some nonce \<Rightarrow>
          (let ctx = ctx\<lparr>hc_seq := hc_seq ctx + 1\<rparr>
           in if length (hc_aeadKey ctx) \<noteq> 32 then (Inl HKeyLength, ctx)
              else if length nonce \<noteq> 12 then (Inl HPanic, ctx)
              else (case aead_Open A (hc_aeadKey ctx) nonce aad ciphertext of
                      None \<Rightarrow> (Inl HOpenFailed, ctx) | Some p \<Rightarrow> (Inr p, ctx))))"

fun seal_all :: "aead \<Rightarrow> (bytes \<times> bytes) list \<Rightarrow> HPKEContext \<Rightarrow> (hpke_error + bytes) list \<times> HPKEContext" where
  "seal_all A [] ctx = ([], ctx)"
| "seal_all A ((aad, p) # ms) ctx =
     (let (c, ctx) = hpkeAEADSeal A aad p ctx; (cs, ctx) = seal_all A ms ctx in (c # cs, ctx))"

fun open_all :: "aead \<Rightarrow> (bytes \<times> bytes) list \<Rightarrow> HPKEContext \<Rightarrow> (hpke_error + bytes) list \<times> HPKEContext" where
  "open_all A [] ctx = ([], ctx)"
| "open_all A ((aad, c) # cs) ctx =
     (let (p, ctx) = hpkeAEADOpen A aad c ctx; (ps, ctx) = open_all A cs ctx in (p # ps, ctx))"


section \<open>The library's one-shot seal and open\<close>

text \<open>
  The operations of \<^verbatim>\<open>github.com/cloudflare/circl/hpke\<close> the code calls, for the one suite it uses; \<open>hl_setupSend\<close> gets
  the randomness of the ephemeral key.
\<close>

record hpke_lib =
  hl_public :: "bytes \<Rightarrow> bytes"
  hl_parsePublic :: "bytes \<Rightarrow> bool"
  hl_setupSend :: "bytes \<Rightarrow> bytes \<Rightarrow> bytes option \<Rightarrow> (bytes \<times> bytes) option"
  hl_seal :: "bytes \<Rightarrow> bytes \<Rightarrow> bytes \<Rightarrow> bytes option"
  hl_setupReceive :: "bytes \<Rightarrow> bytes \<Rightarrow> bytes \<Rightarrow> bytes option"
  hl_open :: "bytes \<Rightarrow> bytes \<Rightarrow> bytes \<Rightarrow> bytes option"
  hl_export :: "bytes \<Rightarrow> bytes \<Rightarrow> nat \<Rightarrow> bytes"

record HPKECiphertext =
  ct_KEMOutput :: bytes
  ct_Ciphertext :: bytes

definition HPKESeal :: "hpke_lib \<Rightarrow> bytes option \<Rightarrow> bytes \<Rightarrow> bytes \<Rightarrow> bytes \<Rightarrow> bytes \<Rightarrow> (HPKECiphertext \<times> HPKEContext) option" where
  "HPKESeal H rnd pkR info aad plaintext =
     (if \<not> hl_parsePublic H pkR then None
      else case hl_setupSend H pkR info rnd of
        None \<Rightarrow> None
      | Some (enc, sealer) \<Rightarrow>
          (case hl_seal H sealer plaintext aad of
             None \<Rightarrow> None
           | Some ciphertext \<Rightarrow>
               Some (\<lparr>ct_KEMOutput = enc, ct_Ciphertext = ciphertext\<rparr>, empty_context\<lparr>hc_sealer := Some sealer\<rparr>)))"

text \<open>Clamping of an X25519 private key, of which the length was checked.\<close>

definition normalize_private :: "bytes \<Rightarrow> bytes" where
  "normalize_private skR = (let k = skR[0 := (skR ! 0) AND 248]; k = k[31 := (k ! 31) AND 127] in k[31 := (k ! 31) OR 64])"

definition HPKEOpen :: "hpke_lib \<Rightarrow> bytes \<Rightarrow> bytes \<Rightarrow> bytes \<Rightarrow> HPKECiphertext option \<Rightarrow> (bytes \<times> HPKEContext) option" where
  "HPKEOpen H skR info aad ct =
     (case ct of
        None \<Rightarrow> None
      | Some ct \<Rightarrow>
          (if length (ct_KEMOutput ct) \<noteq> 32 \<or> length skR \<noteq> 32 then None
           else case hl_setupReceive H (normalize_private skR) info (ct_KEMOutput ct) of
             None \<Rightarrow> None
           | Some opener \<Rightarrow>
               (case hl_open H opener (ct_Ciphertext ct) aad of
                  None \<Rightarrow> None
                | Some plaintext \<Rightarrow> Some (plaintext, empty_context\<lparr>hc_opener := Some opener\<rparr>))))"

definition HPKEExportSecret :: "hpke_lib \<Rightarrow> HPKEContext option \<Rightarrow> bytes \<Rightarrow> nat \<Rightarrow> bytes option" where
  "HPKEExportSecret H ctx exporterContext len =
     (case ctx of
        None \<Rightarrow> None
      | Some ctx \<Rightarrow>
          (case hc_sealer ctx of
             Some s \<Rightarrow> Some (hl_export H s exporterContext len)
           | None \<Rightarrow> (case hc_opener ctx of Some r \<Rightarrow> Some (hl_export H r exporterContext len) | None \<Rightarrow> None)))"


section \<open>The pairing claim\<close>

record PairingQR =
  qr_Version :: "8 word"
  qr_RouteID :: string
  qr_BridgePubKey :: string
  qr_BridgeFP :: string
  qr_RelayEndpoint :: string
  qr_CreatedAt :: int

record HpkePairingClaim =
  pc_Version :: "8 word"
  pc_DeviceID :: string
  pc_DevicePubKey :: string
  pc_DeviceName :: string
  pc_Timestamp :: int
  pc_HPKE :: "HPKECiphertext option"

record PairingApprove =
  pa_Approved :: bool
  pa_DeviceID :: string
  pa_RouteID :: string
  pa_DeviceAuth :: string
  pa_Reason :: string

definition GeneratePairingQR :: "crypto_lib \<Rightarrow> gotime \<Rightarrow> string \<Rightarrow> bytes \<Rightarrow> string \<Rightarrow> PairingQR" where
  "GeneratePairingQR L now routeID bridgePubKey relayEndpoint =
     \<lparr>qr_Version = 1, qr_RouteID = routeID, qr_BridgePubKey = b64std_encode bridgePubKey,
      qr_BridgeFP = b64url_encode (x_sha256 L bridgePubKey), qr_RelayEndpoint = relayEndpoint, qr_CreatedAt = unix now\<rparr>"

text \<open>\<open>rfc\<close> formats whole seconds since 1970 in UTC.\<close>

definition pairingClaimAAD :: "(int \<Rightarrow> string) \<Rightarrow> string \<Rightarrow> int \<Rightarrow> bytes" where
  "pairingClaimAAD rfc deviceID timestamp = bytes_of (''pairing:'' @ deviceID @ '':'' @ rfc timestamp)"

definition claim_payload :: "string \<Rightarrow> string \<Rightarrow> bytes \<Rightarrow> int \<Rightarrow> header_value" where
  "claim_payload deviceID deviceName devicePubKey timestamp = HObj
     [(''deviceId'', HStr deviceID), (''deviceName'', HStr deviceName), (''devicePubKey'', HStr (b64std_encode devicePubKey)),
      (''timestamp'', HInt timestamp)]"

definition CreatePairingClaim ::
  "crypto_lib \<Rightarrow> hpke_lib \<Rightarrow> (int \<Rightarrow> string) \<Rightarrow> bytes option \<Rightarrow> gotime \<Rightarrow> string \<Rightarrow> string \<Rightarrow> bytes \<Rightarrow> bytes
     \<Rightarrow> HpkePairingClaim option" where
  "CreatePairingClaim L H rfc rnd now deviceID deviceName devicePubKey bridgePubKey =
     (let timestamp = unix now
      in case x_json L (claim_payload deviceID deviceName devicePubKey timestamp) of
           None \<Rightarrow> None
         | Some plaintext \<Rightarrow>
             (case HPKESeal H rnd bridgePubKey (bytes_of pairingContextLabel) (pairingClaimAAD rfc deviceID timestamp) plaintext of
                None \<Rightarrow> None
              | Some (ct, ctx) \<Rightarrow>
                  Some \<lparr>pc_Version = 1, pc_DeviceID = deviceID, pc_DevicePubKey = b64std_encode devicePubKey, pc_DeviceName = deviceName,
                        pc_Timestamp = timestamp, pc_HPKE = Some ct\<rparr>))"

definition refused_claim :: "string \<Rightarrow> string \<Rightarrow> PairingApprove" where
  "refused_claim deviceID reason =
     \<lparr>pa_Approved = False, pa_DeviceID = deviceID, pa_RouteID = [], pa_DeviceAuth = [], pa_Reason = reason\<rparr>"

text \<open>\<open>parse\<close> decodes a JSON object; \<open>cred\<close> is the generated credential. \<open>None\<close> is an error.\<close>

definition ProcessPairingClaim ::
  "hpke_lib \<Rightarrow> (bytes \<Rightarrow> (string \<rightharpoonup> header_value) option) \<Rightarrow> (int \<Rightarrow> string) \<Rightarrow> string \<Rightarrow> gotime \<Rightarrow> HpkePairingClaim \<Rightarrow> bytes
     \<Rightarrow> PairingApprove option" where
  "ProcessPairingClaim H parse rfc cred now claim bridgePrivKey =
     (if time_sub now (nsec (pc_Timestamp claim)) > pairingClaimTTL then Some (refused_claim (pc_DeviceID claim) ''claim expired'')
      else case HPKEOpen H bridgePrivKey (bytes_of pairingContextLabel) (pairingClaimAAD rfc (pc_DeviceID claim) (pc_Timestamp claim)) (pc_HPKE claim) of
        None \<Rightarrow> None
      | Some (plaintext, ctx) \<Rightarrow>
          (case parse plaintext of
             None \<Rightarrow> None
           | Some payload \<Rightarrow>
               (if payload ''deviceId'' \<noteq> Some (HStr (pc_DeviceID claim))
                then Some (refused_claim (pc_DeviceID claim) ''device ID mismatch in encrypted payload'')
                else if payload ''devicePubKey'' \<noteq> Some (HStr (pc_DevicePubKey claim))
                then Some (refused_claim (pc_DeviceID claim) ''device public key mismatch in encrypted payload'')
                else Some \<lparr>pa_Approved = True, pa_DeviceID = pc_DeviceID claim, pa_RouteID = [], pa_DeviceAuth = cred, pa_Reason = []\<rparr>)))"

end
