(* ===== verification/Hpke_Props.thy ===== *)
theory Hpke_Props
  imports Hpke
begin

text \<open>
  What the HPKE code guarantees: the expansion loop is HKDF-Expand of RFC 5869, the derived context has the shape its sealing needs, its
  nonces differ until the sequence number wraps, two ends of a context stay in step, and which pairing claims are approved.
\<close>

section \<open>The expansion loop and RFC 5869\<close>

text \<open>The blocks as the RFC defines them, the reference of the loop.\<close>

fun hkdf_T :: "crypto_lib \<Rightarrow> bytes \<Rightarrow> bytes \<Rightarrow> nat \<Rightarrow> bytes" where
  "hkdf_T L prk info 0 = []"
| "hkdf_T L prk info (Suc i) = x_hmac L prk (hkdf_T L prk info i @ info @ [of_nat (Suc i)])"

definition mac_ok :: "crypto_lib \<Rightarrow> bool" where
  "mac_ok L \<longleftrightarrow> (\<forall>k d. length (x_hmac L k d) = 32)"

lemma hkdf_blocks_T:
  "hkdf_blocks L prk info m (Suc j) (hkdf_T L prk info j) r = r @ concat (map (hkdf_T L prk info) [Suc j..<Suc j + m])"
proof (induction m arbitrary: j r)
  case (Suc m)
  have "hkdf_blocks L prk info (Suc m) (Suc j) (hkdf_T L prk info j) r
      = hkdf_blocks L prk info m (Suc (Suc j)) (hkdf_T L prk info (Suc j)) (r @ hkdf_T L prk info (Suc j))"
    by (simp add: Let_def)
  also have "\<dots> = r @ concat (map (hkdf_T L prk info) [Suc j..<Suc j + Suc m])"
    unfolding Suc.IH by (subst (2) upt_conv_Cons) (simp_all del: hkdf_T.simps)
  finally show ?case .
qed simp

lemma hkdf_blocks_concat:
  "hkdf_blocks L prk info n (Suc 0) [] [] = concat (map (\<lambda>i. hkdf_T L prk info (Suc i)) [0..<n])"
proof -
  have "hkdf_blocks L prk info n (Suc 0) [] [] = concat (map (hkdf_T L prk info) [Suc 0..<Suc n])"
    using hkdf_blocks_T[of L prk info n 0 "[]"] by simp
  also have "\<dots> = concat (map (\<lambda>i. hkdf_T L prk info (Suc i)) [0..<n])"
    by (simp only: flip: map_Suc_upt) (simp add: comp_def)
  finally show ?thesis .
qed

lemma length_hkdf_T: "mac_ok L \<Longrightarrow> 0 < i \<Longrightarrow> length (hkdf_T L prk info i) = 32"
  by (cases i) (simp_all add: mac_ok_def)

lemma length_concat_blocks: "(\<And>i. i < n \<Longrightarrow> length (f i) = b) \<Longrightarrow> length (concat (map f [0..<n])) = n * b"
  by (induction n) (simp_all add: algebra_simps)

lemma concat_blocks_nth:
  assumes "\<And>i. i < n \<Longrightarrow> length (f i) = b" and "k < n * b"
  shows "concat (map f [0..<n]) ! k = f (k div b) ! (k mod b)"
  using assms
proof (induction n)
  case (Suc n)
  have len: "length (concat (map f [0..<n])) = n * b"
    using Suc.prems(1) by (intro length_concat_blocks) simp
  show ?case
  proof (cases "k < n * b")
    case True then show ?thesis using Suc by (simp add: nth_append len)
  next
    case False
    then have "k div b = n" using Suc.prems(2) by (intro div_nat_eqI) (simp_all add: algebra_simps)
    then have "k mod b = k - n * b" by (metis minus_div_mult_eq_mod)
    then show ?thesis using False \<open>k div b = n\<close> by (simp add: nth_append len)
  qed
qed simp

text \<open>
  The expansion is HKDF-Expand of RFC 5869: it refuses more than 255 blocks and otherwise returns exactly the requested length, byte
  \<open>k\<close> of which is byte \<open>k mod 32\<close> of the RFC's block \<open>T(k div 32 + 1)\<close>, and no block counter wraps around its byte.
\<close>

theorem hkdf_expand_rfc5869:
  assumes "mac_ok L"
  shows "case hkdfExpandHPKE L prk info len of
           None \<Rightarrow> 8160 < len
         | Some out \<Rightarrow> len \<le> 8160 \<and> length out = len \<and>
             (\<forall>k < len. out ! k = hkdf_T L prk info (Suc (k div 32)) ! (k mod 32) \<and> unat (of_nat (Suc (k div 32)) :: 8 word) = Suc (k div 32))"
proof (cases "8160 < len")
  case True
  then show ?thesis by (simp add: hkdfExpandHPKE_def Let_def)
next
  case False
  define n where "n = (31 + len) div 32"
  define f where "f = (\<lambda>i. hkdf_T L prk info (Suc i))"
  have o: "hkdfExpandHPKE L prk info len = Some (take len (concat (map f [0..<n])))"
    using False by (simp add: hkdfExpandHPKE_def Let_def n_def f_def hkdf_blocks_concat add.commute)
  have fl: "length (f i) = 32" for i using length_hkdf_T[OF assms, of "Suc i"] by (simp add: f_def)
  have ln: "len \<le> n * 32" unfolding n_def by presburger
  have "unat (of_nat (Suc (k div 32)) :: 8 word) = Suc (k div 32)" if "k < len" for k
    using that False by (simp add: unat_of_nat take_bit_eq_mod del: of_nat_Suc)
  moreover have "take len (concat (map f [0..<n])) ! k = hkdf_T L prk info (Suc (k div 32)) ! (k mod 32)" if "k < len" for k
    using that ln concat_blocks_nth[of n f 32 k] by (simp add: fl del: hkdf_T.simps) (simp add: f_def del: hkdf_T.simps)
  ultimately show ?thesis
    using False ln by (simp add: o length_concat_blocks[of n f 32] fl del: hkdf_T.simps of_nat_Suc)
qed


section \<open>The context and its sealing\<close>

text \<open>The shape the sealing relies on: a 32-byte key, a 12-byte base nonce.\<close>

definition sealing_context :: "HPKEContext \<Rightarrow> bool" where
  "sealing_context ctx \<longleftrightarrow> length (hc_aeadKey ctx) = 32 \<and> length (hc_baseNonce ctx) = 12"

definition nonce_at :: "HPKEContext \<Rightarrow> nat \<Rightarrow> bytes" where
  "nonce_at ctx i = the (hpkeComputeNonce (hc_baseNonce ctx) (hc_seq ctx + of_nat i))"

lemma hkdfExpandHPKE_length:
  assumes "mac_ok L" and "hkdfExpandHPKE L prk info len = Some out"
  shows "length out = len"
proof -
  have "length (hkdf_blocks L prk info n (Suc 0) [] []) = n * 32" for n
    unfolding hkdf_blocks_concat by (rule length_concat_blocks) (rule length_hkdf_T[OF assms(1)], simp)
  moreover have "len \<le> (31 + len) div 32 * 32" by presburger
  ultimately show ?thesis using assms(2) by (auto simp: hkdfExpandHPKE_def Let_def split: if_splits)
qed

lemma labeledExpand_total:
  assumes "mac_ok L" and "len \<le> 8160"
  obtains out where "labeledExpand L prk label info len = Some out" "length out = len"
proof -
  obtain out where "hkdfExpandHPKE L prk (expand_input buildSuiteID label info len) len = Some out"
    using assms(2) by (simp add: hkdfExpandHPKE_def Let_def)
  then show thesis using that hkdfExpandHPKE_length[OF assms(1)] by (simp add: labeledExpand_def)
qed

lemma hpkeKeySchedule_total:
  assumes "mac_ok L"
  obtains ctx where "hpkeKeySchedule L ss info = Some ctx" "sealing_context ctx" "hc_seq ctx = 0" "length (hc_exporterSecret ctx) = 32"
proof -
  define ksc where "ksc = hpkeModeBase # labeledExtract L None (bytes_of ''psk_id_hash'') [] @ labeledExtract L None (bytes_of ''info_hash'') info"
  define sec where "sec = labeledExtract L (Some ss) (bytes_of ''secret'') ksc"
  obtain key where k: "labeledExpand L sec (bytes_of ''key'') ksc 32 = Some key" "length key = 32"
    by (rule labeledExpand_total[OF assms, of 32]) simp_all
  obtain n where n: "labeledExpand L sec (bytes_of ''base_nonce'') ksc 12 = Some n" "length n = 12"
    by (rule labeledExpand_total[OF assms, of 12]) simp_all
  obtain e where e: "labeledExpand L sec hpkeLabelExporter ksc 32 = Some e" "length e = 32"
    by (rule labeledExpand_total[OF assms, of 32]) simp_all
  show thesis
  proof (rule that)
    show "hpkeKeySchedule L ss info = Some (empty_context\<lparr>hc_aeadKey := key, hc_baseNonce := n, hc_exporterSecret := e\<rparr>)"
      using k(1) n(1) e(1) unfolding sec_def ksc_def by (simp add: hpkeKeySchedule_def Let_def)
  qed (simp_all add: sealing_context_def empty_context_def k n e)
qed

lemma hpkeComputeNonce_total:
  "length base = 12 \<Longrightarrow> hpkeComputeNonce base s = Some (take 4 base @ map2 (XOR) (drop 4 base) (put_be64 s))"
  by (simp add: hpkeComputeNonce_def)

lemma map2_xor_inj:
  assumes "map2 (XOR) (b :: 8 word list) x = map2 (XOR) b y" and "length x = length b" and "length y = length b"
  shows "x = y"
proof (rule nth_equalityI)
  fix i assume i: "i < length x"
  have "b ! i XOR x ! i = b ! i XOR y ! i"
    using arg_cong[OF assms(1), of "\<lambda>l. l ! i"] i assms(2,3) by simp
  then have "b ! i XOR (b ! i XOR x ! i) = b ! i XOR (b ! i XOR y ! i)" by simp
  then show "x ! i = y ! i" by (simp flip: xor.assoc)
qed (use assms in simp)

lemma hpkeComputeNonce_inj:
  assumes "length base = 12" and "hpkeComputeNonce base s = hpkeComputeNonce base t"
  shows "s = t"
proof -
  have "map2 (XOR) (drop 4 base) (put_be64 s) = map2 (XOR) (drop 4 base) (put_be64 t)"
    using assms(2) by (simp add: hpkeComputeNonce_total[OF assms(1)])
  then have "put_be64 s = put_be64 t" by (rule map2_xor_inj) (simp_all add: assms(1))
  then show ?thesis by (rule put_be64_inj)
qed

lemma length_nonce: "length base = 12 \<Longrightarrow> hpkeComputeNonce base s = Some n \<Longrightarrow> length n = 12"
  by (auto simp: hpkeComputeNonce_total)

lemma seal_step:
  assumes "sealing_context ctx"
  shows "hpkeAEADSeal A aad p ctx = (Inr (aead_Seal A (hc_aeadKey ctx) (nonce_at ctx 0) aad p), ctx\<lparr>hc_seq := hc_seq ctx + 1\<rparr>)"
    and "hpkeAEADOpen A aad c ctx = ((case aead_Open A (hc_aeadKey ctx) (nonce_at ctx 0) aad c of None \<Rightarrow> Inl HOpenFailed | Some p \<Rightarrow> Inr p),
           ctx\<lparr>hc_seq := hc_seq ctx + 1\<rparr>)"
  using assms by (simp_all add: sealing_context_def hpkeAEADSeal_def hpkeAEADOpen_def hpkeComputeNonce_total nonce_at_def split: option.split)

lemma nonce_at_Suc: "nonce_at (ctx\<lparr>hc_seq := hc_seq ctx + 1\<rparr>) i = nonce_at ctx (Suc i)"
  by (simp add: nonce_at_def add.assoc)

lemma sealing_context_seq [simp]: "sealing_context (ctx\<lparr>hc_seq := s\<rparr>) = sealing_context ctx"
  by (simp add: sealing_context_def)

lemma seal_all_spec:
  "sealing_context ctx \<Longrightarrow> seal_all A ms ctx =
     (map (\<lambda>i. Inr (aead_Seal A (hc_aeadKey ctx) (nonce_at ctx i) (fst (ms ! i)) (snd (ms ! i)))) [0..<length ms],
      ctx\<lparr>hc_seq := hc_seq ctx + of_nat (length ms)\<rparr>)"
proof (induction ms arbitrary: ctx)
  case (Cons m ms)
  obtain aad p where m: "m = (aad, p)" by (cases m)
  show ?case
    using Cons.IH[of "ctx\<lparr>hc_seq := hc_seq ctx + 1\<rparr>"] Cons.prems
    by (simp add: m seal_step nonce_at_Suc map_upt_Suc add.assoc del: upt_Suc)
qed simp

lemma nonces_distinct:
  assumes "sealing_context ctx" and "n \<le> 2 ^ 64"
  shows "distinct (map (nonce_at ctx) [0..<n])"
proof (simp add: distinct_map, rule inj_onI)
  fix i j assume ij: "i \<in> {0..<n}" "j \<in> {0..<n}" "nonce_at ctx i = nonce_at ctx j"
  have b: "length (hc_baseNonce ctx) = 12" using assms by (simp add: sealing_context_def)
  have "hpkeComputeNonce (hc_baseNonce ctx) (hc_seq ctx + of_nat i) = hpkeComputeNonce (hc_baseNonce ctx) (hc_seq ctx + of_nat j)"
    using ij(3) by (simp add: nonce_at_def hpkeComputeNonce_total[OF b])
  then have "(of_nat i :: 64 word) = of_nat j" using hpkeComputeNonce_inj[OF b] by fastforce
  then have "unat (of_nat i :: 64 word) = unat (of_nat j :: 64 word)" by simp
  then show "i = j" using ij assms by (simp add: unat_of_nat take_bit_eq_mod)
qed

lemma nonce_wraps: "nonce_at ctx (i + 2 ^ 64) = nonce_at ctx i"
proof -
  have "(2 ^ 64 :: 64 word) = 0" by simp
  then have "(of_nat (i + 2 ^ 64) :: 64 word) = of_nat i" by (simp only: of_nat_add of_nat_power of_nat_numeral) simp
  then show ?thesis by (simp only: nonce_at_def)
qed

text \<open>
  C33. The derived context is well-typed for its use: with an HMAC of 32 bytes the key schedule returns a context with sequence number zero,
  a 32-byte key, a 12-byte base nonce and a 32-byte exporter secret, and whatever is sealed or opened in it afterwards, no call panics or
  rejects the key, and the context keeps its key and base nonce.
\<close>

theorem key_schedule_typed:
  assumes "mac_ok L"
  shows "\<exists>ctx. hpkeKeySchedule L ss info = Some ctx \<and> sealing_context ctx \<and> hc_seq ctx = 0 \<and> length (hc_exporterSecret ctx) = 32 \<and>
           (\<forall>A ms cs. let (sealed, ctx1) = seal_all A ms ctx; (opened, ctx2) = open_all A cs ctx1
              in (\<forall>r \<in> set sealed. isl r = False) \<and> (\<forall>r \<in> set opened. r \<noteq> Inl HPanic \<and> r \<noteq> Inl HKeyLength) \<and> length sealed = length ms
                 \<and> ctx2 = ctx\<lparr>hc_seq := of_nat (length ms + length cs)\<rparr>)"
proof -
  obtain ctx where c: "hpkeKeySchedule L ss info = Some ctx" "sealing_context ctx" "hc_seq ctx = 0" "length (hc_exporterSecret ctx) = 32"
    by (rule hpkeKeySchedule_total[OF assms])
  have op: "sealing_context d \<Longrightarrow> snd (open_all A cs d) = d\<lparr>hc_seq := hc_seq d + of_nat (length cs)\<rparr> \<and>
      (\<forall>r \<in> set (fst (open_all A cs d)). r \<noteq> Inl HPanic \<and> r \<noteq> Inl HKeyLength)" for A cs d
    by (induction A cs d rule: open_all.induct) (auto simp: seal_step split: prod.splits option.splits)
  have fresh: "Inl HPanic \<notin> set (fst (open_all A cs (ctx\<lparr>hc_seq := s\<rparr>)))" "Inl HKeyLength \<notin> set (fst (open_all A cs (ctx\<lparr>hc_seq := s\<rparr>)))"
    for A cs s using op[of "ctx\<lparr>hc_seq := s\<rparr>" A cs] c(2) by auto
  show ?thesis
    using c op fresh by (intro exI[of _ ctx]) (auto simp: seal_all_spec Let_def split_beta)
qed

text \<open>
  No nonce is used twice under a key until the sequence number wraps: the ciphertexts of a run of seals from any context are the AEAD's
  under pairwise different nonces, for up to \<open>2^64\<close> messages, and the message after those reuses the first nonce, since nothing refuses it.
\<close>

theorem seal_nonces_distinct:
  assumes "sealing_context ctx" and "length ms \<le> 2 ^ 64"
  shows "\<exists>nonces. distinct nonces \<and> length nonces = length ms \<and>
           fst (seal_all A ms ctx) = map2 (\<lambda>n m. Inr (aead_Seal A (hc_aeadKey ctx) n (fst m) (snd m))) nonces ms \<and>
           (length ms = 2 ^ 64 \<longrightarrow> fst (hpkeAEADSeal A aad p (snd (seal_all A ms ctx))) = Inr (aead_Seal A (hc_aeadKey ctx) (nonces ! 0) aad p))"
proof (intro exI[of _ "map (nonce_at ctx) [0..<length ms]"] conjI impI)
  show "distinct (map (nonce_at ctx) [0..<length ms])" by (rule nonces_distinct[OF assms])
  show "fst (seal_all A ms ctx) =
      map2 (\<lambda>n m. Inr (aead_Seal A (hc_aeadKey ctx) n (fst m) (snd m))) (map (nonce_at ctx) [0..<length ms]) ms"
    by (rule nth_equalityI) (simp_all add: seal_all_spec[OF assms(1)])
next
  assume n: "length ms = 2 ^ 64"
  then have "map (nonce_at ctx) [0..<length ms] ! 0 = nonce_at ctx 0" by (subst nth_map) simp_all
  moreover have "nonce_at (ctx\<lparr>hc_seq := hc_seq ctx + of_nat (length ms)\<rparr>) 0 = nonce_at ctx (0 + 2 ^ 64)"
    unfolding n nonce_at_def by simp
  ultimately show "fst (hpkeAEADSeal A aad p (snd (seal_all A ms ctx))) =
      Inr (aead_Seal A (hc_aeadKey ctx) (map (nonce_at ctx) [0..<length ms] ! 0) aad p)"
    unfolding nonce_wraps by (simp only: seal_all_spec[OF assms(1)] snd_conv) (simp add: seal_step assms(1))
qed simp

lemma context_stays_in_step:
  assumes "aead_ok A" and "sealing_context ctx"
  shows "open_all A (map2 (\<lambda>m c. (fst m, projr c)) ms (fst (seal_all A ms ctx))) ctx = (map (\<lambda>m. Inr (snd m)) ms, snd (seal_all A ms ctx))"
  using assms(2)
proof (induction ms arbitrary: ctx)
  case (Cons m ms)
  obtain aad p where m: "m = (aad, p)" by (cases m)
  have "aead_Open A k n a (aead_Seal A k n a p) = Some p" for k n a using assms(1) by (simp add: aead_ok_def)
  then show ?case
    using Cons.IH[of "ctx\<lparr>hc_seq := hc_seq ctx + 1\<rparr>"] Cons.prems by (simp add: m seal_step split_beta)
qed simp


section \<open>Which pairing claims are approved\<close>

text \<open>
  What the documentation of the HPKE library promises: the receiver set up with the private key of the sender's recipient, clamped or
  not, opens what the sender sealed, with the associated data it was sealed with and no other; encapsulated keys have 32 bytes. And of the
  JSON codec: an object with different ASCII keys parses to an object whose ASCII string fields are the encoded ones.
\<close>

definition hpke_ok :: "hpke_lib \<Rightarrow> bool" where
  "hpke_ok H \<longleftrightarrow> (\<forall>skR info rnd enc s. length skR = 32 \<and> hl_setupSend H (hl_public H skR) info rnd = Some (enc, s) \<longrightarrow>
     length enc = 32 \<and> (\<exists>r. hl_setupReceive H (normalize_private skR) info enc = Some r \<and>
       (\<forall>p aad c aad'. hl_seal H s p aad = Some c \<longrightarrow> hl_open H r c aad' = (if aad' = aad then Some p else None))))"

definition ascii :: "string \<Rightarrow> bool" where
  "ascii s \<longleftrightarrow> (\<forall>c \<in> set s. (of_char c :: nat) < 128)"

definition object_codec_ok :: "crypto_lib \<Rightarrow> (bytes \<Rightarrow> (string \<rightharpoonup> header_value) option) \<Rightarrow> bool" where
  "object_codec_ok L parse \<longleftrightarrow> (\<forall>fs b. distinct (map fst fs) \<and> (\<forall>k \<in> set (map fst fs). ascii k) \<and> x_json L (HObj fs) = Some b \<longrightarrow>
     (\<exists>m. parse b = Some m \<and> (\<forall>k v. (k, HStr v) \<in> set fs \<and> ascii v \<longrightarrow> m k = Some (HStr v))))"

lemma b64std_char_ascii: "(of_char (b64std_char n) :: nat) < 128"
proof -
  have "\<forall>c \<in> set b64std_alphabet. (of_char c :: nat) < 128" by (simp add: b64std_alphabet_def)
  moreover have "b64std_char n \<in> set b64std_alphabet"
    unfolding b64std_char_def by (rule nth_mem) (simp add: b64std_alphabet_def)
  ultimately show ?thesis by blast
qed

lemma b64std_encode_ascii: "ascii (b64std_encode bs)"
  by (induction bs rule: b64std_encode.induct) (simp_all add: ascii_def Let_def b64std_char_ascii)

lemma CreatePairingClaim_Some:
  assumes "CreatePairingClaim L H rfc rnd created deviceID name pub bpub = Some c0"
  obtains b enc s c where "x_json L (claim_payload deviceID name pub (unix created)) = Some b"
    "hl_setupSend H bpub (bytes_of pairingContextLabel) rnd = Some (enc, s)"
    "hl_seal H s b (pairingClaimAAD rfc deviceID (unix created)) = Some c"
    "c0 = \<lparr>pc_Version = 1, pc_DeviceID = deviceID, pc_DevicePubKey = b64std_encode pub, pc_DeviceName = name,
        pc_Timestamp = unix created, pc_HPKE = Some \<lparr>ct_KEMOutput = enc, ct_Ciphertext = c\<rparr>\<rparr>"
  using assms by (auto simp: CreatePairingClaim_def HPKESeal_def Let_def split: option.splits if_splits prod.splits)

lemma bytes_of_inj: "bytes_of s = bytes_of t \<longleftrightarrow> s = t"
  by (simp add: bytes_of_def inj_map_eq_map inj_def of_char_byte_inj)

lemma pairingClaimAAD_inj: "inj rfc \<Longrightarrow> pairingClaimAAD rfc d t = pairingClaimAAD rfc d u \<longleftrightarrow> t = u"
  by (auto simp: pairingClaimAAD_def bytes_of_inj inj_eq)

lemma claim_payload_parsed:
  assumes "object_codec_ok L parse" and "ascii d" and "x_json L (claim_payload d name pub t) = Some b"
  obtains m where "parse b = Some m" "m ''deviceId'' = Some (HStr d)" "m ''devicePubKey'' = Some (HStr (b64std_encode pub))"
proof -
  define fs where "fs = [(''deviceId'', HStr d), (''deviceName'', HStr name), (''devicePubKey'', HStr (b64std_encode pub)), (''timestamp'', HInt t)]"
  have "distinct (map fst fs)" "\<forall>k \<in> set (map fst fs). ascii k" "x_json L (HObj fs) = Some b"
    using assms(3) by (simp_all add: fs_def claim_payload_def ascii_def)
  then obtain m where m: "parse b = Some m" "\<And>k v. (k, HStr v) \<in> set fs \<Longrightarrow> ascii v \<Longrightarrow> m k = Some (HStr v)"
    using assms(1) unfolding object_codec_ok_def by blast
  have "(''deviceId'', HStr d) \<in> set fs" "(''devicePubKey'', HStr (b64std_encode pub)) \<in> set fs" by (simp_all add: fs_def)
  with m show thesis using that assms(2) b64std_encode_ascii by blast
qed

lemma claim_approval:
  assumes "hpke_ok H" and "object_codec_ok L parse" and "inj rfc" and "length priv = 32" and "ascii deviceID"
    and "CreatePairingClaim L H rfc rnd created deviceID name pub (hl_public H priv) = Some c0"
    and "pc_HPKE claim = pc_HPKE c0"
  shows "(\<exists>a. ProcessPairingClaim H parse rfc cred now claim priv = Some a \<and> pa_Approved a) \<longleftrightarrow>
           pc_DeviceID claim = deviceID \<and> pc_DevicePubKey claim = b64std_encode pub \<and> pc_Timestamp claim = unix created \<and>
           time_sub now (nsec (unix created)) \<le> pairingClaimTTL"
proof -
  obtain b enc s c where c0: "x_json L (claim_payload deviceID name pub (unix created)) = Some b"
      "hl_setupSend H (hl_public H priv) (bytes_of pairingContextLabel) rnd = Some (enc, s)"
      "hl_seal H s b (pairingClaimAAD rfc deviceID (unix created)) = Some c"
      "pc_HPKE c0 = Some \<lparr>ct_KEMOutput = enc, ct_Ciphertext = c\<rparr>"
    by (rule CreatePairingClaim_Some[OF assms(6)]) simp
  obtain r where r: "length enc = 32" "hl_setupReceive H (normalize_private priv) (bytes_of pairingContextLabel) enc = Some r"
      "\<And>aad. hl_open H r c aad = (if aad = pairingClaimAAD rfc deviceID (unix created) then Some b else None)"
  proof -
    have "length enc = 32 \<and> (\<exists>r. hl_setupReceive H (normalize_private priv) (bytes_of pairingContextLabel) enc = Some r \<and>
        (\<forall>p aad c aad'. hl_seal H s p aad = Some c \<longrightarrow> hl_open H r c aad' = (if aad' = aad then Some p else None)))"
      using assms(1,4) c0(2) unfolding hpke_ok_def by blast
    then show thesis using that c0(3) by blast
  qed
  obtain m where m: "parse b = Some m" "m ''deviceId'' = Some (HStr deviceID)" "m ''devicePubKey'' = Some (HStr (b64std_encode pub))"
    by (rule claim_payload_parsed[OF assms(2,5) c0(1)])
  show ?thesis
    unfolding ProcessPairingClaim_def HPKEOpen_def assms(7) c0(4)
    by (auto simp: r m assms(4) refused_claim_def pairingClaimAAD_inj[OF assms(3)] split: if_splits)
qed

text \<open>
  C28. Which claims the bridge approves: of all claims that carry the ciphertext of a claim created for its key, exactly those approved that
  name the sealed device identifier, public key and timestamp, within five minutes of it (or at any time before it). The name shown to the
  user is not among them: any device name passes with the same ciphertext.
\<close>

theorem claim_approved_iff:
  assumes "hpke_ok H" and "object_codec_ok L parse" and "inj rfc" and "length priv = 32" and "ascii deviceID"
    and "CreatePairingClaim L H rfc rnd created deviceID name pub (hl_public H priv) = Some c0"
    and "pc_HPKE claim = pc_HPKE c0"
  shows "(\<exists>a. ProcessPairingClaim H parse rfc cred now claim priv = Some a \<and> pa_Approved a) \<longleftrightarrow>
           pc_DeviceID claim = deviceID \<and> pc_DevicePubKey claim = b64std_encode pub \<and> pc_Timestamp claim = unix created \<and>
           time_sub now (nsec (unix created)) \<le> pairingClaimTTL"
  by (rule claim_approval[OF assms])


section \<open>Witnesses\<close>

definition demo_mac :: crypto_lib where
  "demo_mac = demo_crypto\<lparr>x_hmac := \<lambda>k d. replicate 32 (of_nat (length k + length d))\<rparr>"

lemma demo_mac_ok: "mac_ok demo_mac"
  by (simp add: mac_ok_def demo_mac_def)

definition demo_context :: HPKEContext where
  "demo_context = empty_context\<lparr>hc_aeadKey := replicate 32 1, hc_baseNonce := replicate 12 2\<rparr>"

lemma demo_context_ok: "sealing_context demo_context"
  by (simp add: sealing_context_def demo_context_def)

theorem hkdf_expand_rfc5869_witness:
  "hkdfExpandHPKE demo_mac [1] [2] 8161 = None \<and>
   (\<exists>out. hkdfExpandHPKE demo_mac [1] [2] 40 = Some out \<and> length out = 40 \<and> out ! 33 = hkdf_T demo_mac [1] [2] 2 ! 1)"
proof -
  note R = hkdf_expand_rfc5869[OF demo_mac_ok, where prk = "[1]" and info = "[2]"]
  have none: "hkdfExpandHPKE demo_mac [1] [2] 8161 = None"
  proof (cases "hkdfExpandHPKE demo_mac [1] [2] 8161")
    case (Some out) show ?thesis using R[of 8161] unfolding Some option.case by (elim conjE) simp
  qed
  show ?thesis
  proof (cases "hkdfExpandHPKE demo_mac [1] [2] 40")
    case None show ?thesis using R[of 40] unfolding None option.case by simp
  next
    case (Some out)
    note R40 = R[of 40, unfolded Some option.case]
    have "length out = 40" using R40 by (elim conjE)
    moreover have "out ! 33 = hkdf_T demo_mac [1] [2] (Suc (33 div 32)) ! (33 mod 32)"
      by (rule R40[THEN conjunct2, THEN conjunct2, THEN spec, of 33, THEN mp, THEN conjunct1]) simp
    moreover have "Suc (33 div 32) = 2" "(33 mod 32 :: nat) = 1" by simp_all
    ultimately show ?thesis using none Some by metis
  qed
qed

theorem key_schedule_typed_witness:
  "\<exists>ctx. hpkeKeySchedule demo_mac [1] [2] = Some ctx \<and> sealing_context ctx"
  using key_schedule_typed[OF demo_mac_ok, of "[1]" "[2]"] by blast

theorem seal_nonces_distinct_witness:
  "\<exists>nonces. distinct nonces \<and> length nonces = 2 \<and>
     fst (seal_all demo_aead [([], [1]), ([], [1])] demo_context) = [Inr (aead_Seal demo_aead (replicate 32 1) (nonces ! 0) [] [1]),
       Inr (aead_Seal demo_aead (replicate 32 1) (nonces ! 1) [] [1])]"
proof -
  let ?ms = "[([], [1]), ([], [1])] :: (bytes \<times> bytes) list"
  have "length ?ms \<le> 2 ^ 64" by simp
  from seal_nonces_distinct[OF demo_context_ok this, where A = demo_aead and aad = "[]" and p = "[]"]
  obtain ns where ns: "distinct ns" "length ns = length ?ms"
      "fst (seal_all demo_aead ?ms demo_context) = map2 (\<lambda>n m. Inr (aead_Seal demo_aead (hc_aeadKey demo_context) n (fst m) (snd m))) ns ?ms"
    by (elim exE conjE) (rule that, assumption+)
  from ns(2) have "length ns = Suc (Suc 0)" by simp
  then obtain x y where xy: "ns = [x, y]" by (auto simp: length_Suc_conv)
  have k: "hc_aeadKey demo_context = replicate 32 1" by (simp add: demo_context_def)
  have "fst (seal_all demo_aead ?ms demo_context) =
      [Inr (aead_Seal demo_aead (replicate 32 1) (ns ! 0) [] [1]), Inr (aead_Seal demo_aead (replicate 32 1) (ns ! 1) [] [1])]"
    unfolding ns(3) k xy by simp
  then show ?thesis using ns(1) \<open>length ns = Suc (Suc 0)\<close> by (intro exI[of _ ns] conjI) simp_all
qed

text \<open>A library with the assumed laws: it sends the associated data beside the text; and a codec of the string fields.\<close>

definition demo_hpke :: hpke_lib where
  "demo_hpke = \<lparr>hl_public = normalize_private, hl_parsePublic = (\<lambda>_. True), hl_setupSend = (\<lambda>k i rnd. Some (replicate 32 0, k)),
     hl_seal = (\<lambda>s p a. Some (demo_nat (length a) @ a @ p)), hl_setupReceive = (\<lambda>k i e. Some k),
     hl_open = (\<lambda>r c a. let n = length (demo_nat (length a)); m = n + length a
        in if take m c = demo_nat (length a) @ a then Some (drop m c) else None), hl_export = (\<lambda>_ _ _. [])\<rparr>"

lemma demo_nat_append_inj: "demo_nat m @ x = demo_nat n @ y \<Longrightarrow> m = n \<and> x = y"
proof (induction m arbitrary: n)
  case 0 then show ?case by (cases n) (auto simp: demo_nat_def)
next
  case (Suc m) then show ?case by (cases n) (auto simp: demo_nat_def)
qed

lemma demo_hpke_ok: "hpke_ok demo_hpke"
proof -
  have "take (length (demo_nat (length a')) + length a') (demo_nat (length a) @ a @ p) = demo_nat (length a') @ a' \<longleftrightarrow> a' = a" for a a' p :: bytes
  proof
    assume "take (length (demo_nat (length a')) + length a') (demo_nat (length a) @ a @ p) = demo_nat (length a') @ a'"
    then have "demo_nat (length a) @ a @ p = demo_nat (length a') @ a' @ drop (length (demo_nat (length a')) + length a') (demo_nat (length a) @ a @ p)"
      by (metis append.assoc append_take_drop_id)
    then have "length a = length a' \<and> a @ p = a' @ drop (length (demo_nat (length a')) + length a') (demo_nat (length a) @ a @ p)"
      by (rule demo_nat_append_inj)
    then show "a' = a" by (metis append_eq_append_conv)
  qed simp
  then show ?thesis by (auto simp: hpke_ok_def demo_hpke_def Let_def)
qed

definition demo_take :: "bytes \<Rightarrow> string \<times> bytes" where
  "demo_take b = (let n = length (takeWhile (\<lambda>x. x = 1) b) in (map (\<lambda>w. char_of (unat w)) (take n (drop (Suc n) b)), drop (Suc (n + n)) b))"

fun demo_fields :: "nat \<Rightarrow> bytes \<Rightarrow> (string \<times> header_value) list" where
  "demo_fields 0 b = []"
| "demo_fields (Suc n) b =
     (if b = [] then [] else let (k, b) = demo_take b; (v, b) = demo_take b in (k, HStr v) # demo_fields n b)"

definition demo_object :: "(string \<times> header_value) list \<Rightarrow> bytes" where
  "demo_object fs = concat (map (\<lambda>f. case snd f of HStr v \<Rightarrow> demo_str (fst f) @ demo_str v | _ \<Rightarrow> []) fs)"

definition demo_codec_object :: crypto_lib where
  "demo_codec_object = demo_crypto\<lparr>x_json := \<lambda>v. case v of HObj fs \<Rightarrow> Some (demo_object fs) | _ \<Rightarrow> None\<rparr>"

definition demo_parse :: "bytes \<Rightarrow> (string \<rightharpoonup> header_value) option" where
  "demo_parse b = Some (map_of (demo_fields (length b) b))"

lemma demo_take_str [simp]: "demo_take (demo_str s @ b) = (s, b)"
proof -
  have "takeWhile (\<lambda>x. x = 1) (replicate n 1 @ 0 # x) = replicate n (1 :: 8 word)" for n x
    by (induction n) simp_all
  moreover have "char_of (unat (of_char c :: 8 word)) = c" for c
  proof -
    have "unat (of_nat (of_char c) :: 8 word) = of_char c" using nat_of_char_less_256[of c] by (simp add: unat_of_nat)
    then show ?thesis by (simp add: of_nat_of_char)
  qed
  ultimately show ?thesis by (simp add: demo_take_def demo_str_def demo_nat_def Let_def comp_def)
qed

lemma demo_str_not_Nil [simp]: "demo_str s \<noteq> []"
  by (simp add: demo_str_def demo_nat_def)

lemma demo_fields_object:
  "length (demo_object fs) \<le> n \<Longrightarrow> demo_fields n (demo_object fs) = filter (\<lambda>f. case snd f of HStr v \<Rightarrow> True | _ \<Rightarrow> False) fs"
proof (induction fs arbitrary: n)
  case Nil then show ?case by (cases n) (simp_all add: demo_object_def)
next
  case (Cons f fs)
  obtain k v where f: "f = (k, v)" by (cases f)
  show ?case
  proof (cases v)
    case (HStr s)
    have o: "demo_object (f # fs) = demo_str k @ demo_str s @ demo_object fs" by (simp add: demo_object_def f HStr)
    obtain a x where k: "demo_str k = a # x" by (metis demo_str_not_Nil list.exhaust)
    obtain n' where n: "n = Suc n'" "length (demo_object fs) \<le> n'"
      using Cons.prems unfolding o by (cases n) (auto simp: k)
    show ?thesis unfolding o using Cons.IH[OF n(2)] by (simp add: n f HStr)
  qed (use Cons in \<open>simp_all add: demo_object_def f\<close>)
qed

lemma demo_object_ok: "object_codec_ok demo_codec_object demo_parse"
proof -
  have "map_of (filter (\<lambda>f. case snd f of HStr v \<Rightarrow> True | _ \<Rightarrow> False) fs) k = Some (HStr v)"
    if "distinct (map fst fs)" "(k, HStr v) \<in> set fs" for fs :: "(string \<times> header_value) list" and k v
    using that by (intro map_of_is_SomeI) (auto simp: distinct_map_filter)
  then show ?thesis
    by (auto simp: object_codec_ok_def demo_codec_object_def demo_parse_def demo_fields_object)
qed

definition demo_rfc :: "int \<Rightarrow> string" where
  "demo_rfc t = replicate (nat (2 * t)) CHR ''a'' @ replicate (nat (- 2 * t + 1)) CHR ''b''"

lemma demo_rfc_inj: "inj demo_rfc"
proof (rule injI)
  fix t u assume "demo_rfc t = demo_rfc u"
  then have "length (filter ((=) CHR ''a'') (demo_rfc t)) = length (filter ((=) CHR ''a'') (demo_rfc u))"
    and "length (filter ((=) CHR ''b'') (demo_rfc t)) = length (filter ((=) CHR ''b'') (demo_rfc u))" by simp_all
  then show "t = u" by (simp add: demo_rfc_def filter_replicate split: if_splits)
qed

definition demo_hpke_claim :: HpkePairingClaim where
  "demo_hpke_claim = the (CreatePairingClaim demo_codec_object demo_hpke demo_rfc None (nsec 7) ''d'' ''n'' [1] (hl_public demo_hpke (replicate 32 9)))"

theorem claim_approved_iff_witness:
  "(\<exists>a. ProcessPairingClaim demo_hpke demo_parse demo_rfc ''c'' (nsec 60) (demo_hpke_claim\<lparr>pc_DeviceName := ''other''\<rparr>) (replicate 32 9) = Some a \<and> pa_Approved a) \<and>
   \<not> (\<exists>a. ProcessPairingClaim demo_hpke demo_parse demo_rfc ''c'' (nsec 60) (demo_hpke_claim\<lparr>pc_DeviceID := ''e''\<rparr>) (replicate 32 9) = Some a \<and> pa_Approved a)"
proof -
  have c: "CreatePairingClaim demo_codec_object demo_hpke demo_rfc None (nsec 7) ''d'' ''n'' [1] (hl_public demo_hpke (replicate 32 9)) = Some demo_hpke_claim"
    and f: "pc_DeviceID demo_hpke_claim = ''d''" "pc_DevicePubKey demo_hpke_claim = b64std_encode [1]" "pc_Timestamp demo_hpke_claim = unix (nsec 7)"
    by (simp_all add: demo_hpke_claim_def CreatePairingClaim_def HPKESeal_def demo_hpke_def demo_codec_object_def claim_payload_def Let_def)
  have a: "ascii ''d''" by (simp add: ascii_def)
  have t: "time_sub (nsec 60) (nsec (unix (nsec 7))) \<le> pairingClaimTTL"
    by (simp add: time_sub_def nsec_def unix_def pairingClaimTTL_def minute_def max_duration_def min_duration_def)
  note R = claim_approved_iff[OF demo_hpke_ok demo_object_ok demo_rfc_inj _ a c]
  show ?thesis using R[of "demo_hpke_claim\<lparr>pc_DeviceName := ''other''\<rparr>"] R[of "demo_hpke_claim\<lparr>pc_DeviceID := ''e''\<rparr>"] f t by simp
qed

end
