(* ===== verification/Transcript_Scan.thy ===== *)
theory Transcript_Scan
  imports Prelude
begin

text \<open>
  The lines of a transcript file (\<^verbatim>\<open>transcriptindex/record.go\<close>): a scan that hands each non-empty line with its byte offsets to a callback.
  The lemmas give the records as a list, place each of them in the file, and say how the records of a file arise from those of its parts.
\<close>

section \<open>The scan\<close>

record Record =
  rec_Start :: int
  rec_End :: int
  rec_Bytes :: bytes

text \<open>\<^verbatim>\<open>ReadString\<close>: up to and with the next newline, or the rest of the input, which then has ended.\<close>

definition read_string :: "bytes \<Rightarrow> bytes \<times> bytes \<times> bool" where
  "read_string bs =
     (let l = takeWhile (\<lambda>b. b \<noteq> 10) bs
      in if length l < length bs then (l @ [10], drop (Suc (length l)) bs, False) else (bs, [], True))"

definition strip_last :: "byte \<Rightarrow> bytes \<Rightarrow> bytes" where
  "strip_last c bs = (if bs \<noteq> [] \<and> last bs = c then butlast bs else bs)"

definition line_body :: "bytes \<Rightarrow> bytes" where
  "line_body line = strip_last 13 (strip_last 10 line)"

text \<open>\<open>failed\<close> says that reading ends with an error other than the end of the file; the callback's error ends the scan.\<close>

datatype 'e scan_error = ReadFailed | CallbackFailed 'e

lemma read_string_shorter: "read_string bs = (line, rest, False) \<Longrightarrow> length rest < length bs"
  by (auto simp: read_string_def Let_def split: if_splits)

function scan_loop :: "(Record \<Rightarrow> 's \<Rightarrow> 'e + 's) \<Rightarrow> bool \<Rightarrow> int \<Rightarrow> bytes \<Rightarrow> 's \<Rightarrow> 'e scan_error + 's" where
  "scan_loop fn failed offset bs s =
     (let (line, rest, ended) = read_string bs;
          body = line_body line;
          next_offset = offset + int (length line)
      in case (if body \<noteq> [] then fn \<lparr>rec_Start = offset, rec_End = next_offset, rec_Bytes = body\<rparr> s else Inr s) of
           Inl e \<Rightarrow> Inl (CallbackFailed e)
         | Inr s \<Rightarrow> if ended then (if failed then Inl ReadFailed else Inr s) else scan_loop fn failed next_offset rest s)"
  by pat_completeness auto

termination
  by (relation "measure (\<lambda>(fn, failed, offset, bs, s). length bs)") (auto dest: read_string_shorter[OF sym])

declare scan_loop.simps [simp del]

definition scanTranscript :: "(Record \<Rightarrow> 's \<Rightarrow> 'e + 's) \<Rightarrow> bool \<Rightarrow> bytes \<Rightarrow> 's \<Rightarrow> 'e scan_error + 's" where
  "scanTranscript fn failed bs s = scan_loop fn failed 0 bs s"


section \<open>The records as a list\<close>

function records_from :: "int \<Rightarrow> bytes \<Rightarrow> Record list" where
  "records_from offset bs =
     (let (line, rest, ended) = read_string bs;
          body = line_body line;
          next_offset = offset + int (length line);
          here = (if body \<noteq> [] then [\<lparr>rec_Start = offset, rec_End = next_offset, rec_Bytes = body\<rparr>] else [])
      in here @ (if ended then [] else records_from next_offset rest))"
  by pat_completeness auto

termination
  by (relation "measure (\<lambda>(offset, bs). length bs)") (auto dest: read_string_shorter[OF sym])

declare records_from.simps [simp del]

definition records_of :: "bytes \<Rightarrow> Record list" where
  "records_of bs = records_from 0 bs"

fun fold_result :: "('a \<Rightarrow> 's \<Rightarrow> 'e + 's) \<Rightarrow> 'a list \<Rightarrow> 's \<Rightarrow> 'e + 's" where
  "fold_result fn [] s = Inr s"
| "fold_result fn (x # xs) s = (case fn x s of Inl e \<Rightarrow> Inl e | Inr s \<Rightarrow> fold_result fn xs s)"

lemma scan_loop_fold:
  "scan_loop fn failed offset bs s =
     (case fold_result fn (records_from offset bs) s of
        Inl e \<Rightarrow> Inl (CallbackFailed e) | Inr s \<Rightarrow> if failed then Inl ReadFailed else Inr s)"
proof (induction fn failed offset bs s rule: scan_loop.induct)
  case (1 fn failed offset bs s)
  obtain line rest ended where r: "read_string bs = (line, rest, ended)" by (cases "read_string bs")
  show ?case
    using 1[OF r[symmetric] refl refl refl]
    by (subst scan_loop.simps, subst records_from.simps) (auto simp: r Let_def split: sum.splits)
qed

lemma fold_result_total: "(\<And>x s. fn x s = Inr (g x s)) \<Longrightarrow> fold_result fn xs s = Inr (fold g xs s)"
  by (induction xs arbitrary: s) simp_all

lemma scanTranscript_total:
  "(\<And>x s. fn x s = Inr (g x s)) \<Longrightarrow> scanTranscript fn failed bs s = (if failed then Inl ReadFailed else Inr (fold g (records_of bs) s))"
  by (simp add: scanTranscript_def scan_loop_fold records_of_def fold_result_total)

lemma read_string_line: "10 \<notin> set l \<Longrightarrow> read_string (l @ 10 # rest) = (l @ [10], rest, False)"
proof -
  assume "10 \<notin> set l"
  then have "takeWhile (\<lambda>b. b \<noteq> 10) (l @ 10 # rest) = l" by (induction l) auto
  then show ?thesis by (simp add: read_string_def)
qed

lemma read_string_end: "10 \<notin> set bs \<Longrightarrow> read_string bs = (bs, [], True)"
proof -
  assume "10 \<notin> set bs"
  then have "takeWhile (\<lambda>b. b \<noteq> 10) bs = bs" by (induction bs) auto
  then show ?thesis unfolding read_string_def by (simp only: Let_def less_irrefl if_False)
qed

lemma bytes_line_cases:
  obtains (Line) l rest where "bs = l @ 10 # rest" "(10 :: byte) \<notin> set l" | (Last) "10 \<notin> set bs"
  by (metis split_list_first)

text \<open>The records of a file whose first part ends with a newline, and of a file read from an offset.\<close>

lemma records_from_shift:
  "records_from (d + offset) bs = map (\<lambda>r. r\<lparr>rec_Start := d + rec_Start r, rec_End := d + rec_End r\<rparr>) (records_from offset bs)"
proof (induction offset bs rule: records_from.induct)
  case (1 offset bs)
  obtain line rest ended where r: "read_string bs = (line, rest, ended)" by (cases "read_string bs")
  show ?case
    using 1[OF r[symmetric] refl refl refl refl]
    by (subst (1 2) records_from.simps) (simp add: r Let_def add.assoc)
qed

lemma records_from_line:
  "10 \<notin> set l \<Longrightarrow> records_from offset (l @ 10 # rest) =
     (let body = strip_last 13 l; stop = offset + int (length l) + 1
      in (if body \<noteq> [] then [\<lparr>rec_Start = offset, rec_End = stop, rec_Bytes = body\<rparr>] else []) @ records_from stop rest)"
  by (subst records_from.simps) (simp add: read_string_line Let_def line_body_def strip_last_def[of 10] algebra_simps)

lemma records_from_last:
  "10 \<notin> set bs \<Longrightarrow> records_from offset bs =
     (let body = strip_last 13 bs in if body \<noteq> [] then [\<lparr>rec_Start = offset, rec_End = offset + int (length bs), rec_Bytes = body\<rparr>] else [])"
proof -
  assume n: "10 \<notin> set bs"
  then have "strip_last 10 bs = bs" by (metis last_in_set strip_last_def)
  then show ?thesis using n by (subst records_from.simps) (simp add: read_string_end Let_def line_body_def)
qed

lemma records_from_Nil [simp]: "records_from offset [] = []"
  by (simp add: records_from_last strip_last_def)

text \<open>A part that ends with a newline contributes its own records; what follows is scanned from its end.\<close>

lemma records_from_append:
  "records_from offset (pre @ 10 # post) = records_from offset (pre @ [10]) @ records_from (offset + int (length pre) + 1) post"
proof (induction "length pre" arbitrary: offset pre rule: less_induct)
  case less
  show ?case
  proof (cases pre rule: bytes_line_cases)
    case (Line l rest)
    have "records_from o' (rest @ 10 # post) = records_from o' (rest @ [10]) @ records_from (o' + int (length rest) + 1) post" for o'
      by (rule less) (simp add: Line)
    then show ?thesis
      using Line(2) by (simp add: Line(1) records_from_line[OF Line(2)] Let_def algebra_simps)
  next
    case Last
    then show ?thesis by (simp add: records_from_line Let_def)
  qed
qed

text \<open>Every record lies in the file, after the one before it, and is its line without the terminator.\<close>

definition record_at :: "bytes \<Rightarrow> int \<Rightarrow> Record \<Rightarrow> bool" where
  "record_at bs offset r \<longleftrightarrow> offset \<le> rec_Start r \<and> rec_Start r < rec_End r \<and> rec_End r \<le> offset + int (length bs) \<and>
     (let line = take (nat (rec_End r - rec_Start r)) (drop (nat (rec_Start r - offset)) bs)
      in rec_Bytes r = line_body line \<and> rec_Bytes r \<noteq> [] \<and> 10 \<notin> set (butlast line))"

lemma record_at_later:
  assumes "record_at rest (offset + int (length l)) r"
  shows "record_at (l @ rest) offset r"
proof -
  have "nat (rec_Start r - offset) = length l + nat (rec_Start r - (offset + int (length l)))"
    using assms unfolding record_at_def by linarith
  then show ?thesis using assms by (auto simp: record_at_def Let_def)
qed

lemma strip_last_NilD: "strip_last c bs \<noteq> [] \<Longrightarrow> bs \<noteq> []"
  by (auto simp: strip_last_def)

lemma records_from_at:
  "(\<forall>r \<in> set (records_from offset bs). record_at bs offset r) \<and>
   sorted_wrt (\<lambda>r r'. rec_End r \<le> rec_Start r') (records_from offset bs)"
proof (induction "length bs" arbitrary: offset bs rule: less_induct)
  case less
  show ?case
  proof (cases bs rule: bytes_line_cases)
    case (Line l rest)
    define stop where "stop = offset + int (length l) + 1"
    have IH: "\<forall>r \<in> set (records_from stop rest). record_at rest stop r"
      "sorted_wrt (\<lambda>r r'. rec_End r \<le> rec_Start r') (records_from stop rest)"
      using less[of rest stop] by (auto simp: Line)
    have later: "record_at bs offset r" if "r \<in> set (records_from stop rest)" for r
      using record_at_later[of rest offset "l @ [10]" r] IH(1) that by (simp add: Line(1) stop_def algebra_simps)
    have first: "record_at bs offset \<lparr>rec_Start = offset, rec_End = stop, rec_Bytes = strip_last 13 l\<rparr>" if "strip_last 13 l \<noteq> []"
      using that Line(2) by (simp add: record_at_def stop_def Line(1) line_body_def strip_last_def[of 10] butlast_append nat_add_distrib)
    show ?thesis
      using later first IH by (auto simp: Line(1) records_from_line[OF Line(2)] Let_def record_at_def simp flip: stop_def)
  next
    case Last
    have "strip_last 10 bs = bs" using Last by (metis last_in_set strip_last_def)
    then show ?thesis
      using Last in_set_butlastD[of 10 bs]
      by (auto simp: records_from_last Let_def record_at_def line_body_def dest: strip_last_NilD)
  qed
qed

end
