(* ===== verification/Transcript_Spans.thy ===== *)
theory Transcript_Spans
  imports Transcript_Scan
begin

text \<open>
  Where the messages of a transcript lie (\<^verbatim>\<open>transcriptindex/types.go\<close>, \<^verbatim>\<open>extractor.go\<close>): one extractor per backend consumes the
  records of the file and yields the byte span, number and open tool calls of each message. What \<^verbatim>\<open>encoding/json\<close> makes of a line is a
  parameter. The locale \<open>span_extractor\<close> is the contract of the interface \<^verbatim>\<open>SpanExtractor\<close>; both extractors fulfil it.
\<close>

section \<open>Spans and decoded lines\<close>

datatype Backend = BackendCodex | BackendClaude | BackendOther string

record LogicalMessageSpan =
  ms_Ordinal :: int
  ms_StableID :: string
  ms_ReplayStart :: int
  ms_EndOffset :: int
  ms_OpenToolUses :: int

record codexResponseItem =
  ci_Role :: string
  ci_Type :: string
  ci_Name :: string
  ci_Text :: string
  ci_Summary :: "string list"
  ci_Content :: "(string \<times> string) list"

record claudeContentBlock =
  cb_Type :: string
  cb_ID :: string
  cb_ToolUseID :: string

datatype json_any = JAString string | JAObject "(string \<times> json_any) list" | JAOther

record json_lib =
  j_codexEnvelope :: "bytes \<Rightarrow> (string \<times> bytes) option"
  j_codexItem :: "bytes \<Rightarrow> codexResponseItem option"
  j_object :: "bytes \<Rightarrow> (string \<times> json_any) list option"
  j_claudeEnvelope :: "bytes \<Rightarrow> (string \<times> bytes) option"
  j_claudeMessage :: "bytes \<Rightarrow> (string \<times> bytes) option"
  j_isString :: "bytes \<Rightarrow> bool"
  j_blocks :: "bytes \<Rightarrow> claudeContentBlock list option"

text \<open>The later of two end offsets; a bounded decrement.\<close>

definition extend_to :: "int \<Rightarrow> LogicalMessageSpan \<Rightarrow> LogicalMessageSpan" where
  "extend_to e s = (if e > ms_EndOffset s then s\<lparr>ms_EndOffset := e\<rparr> else s)"

definition close_one :: "LogicalMessageSpan \<Rightarrow> LogicalMessageSpan" where
  "close_one s = (if ms_OpenToolUses s > 0 then s\<lparr>ms_OpenToolUses := ms_OpenToolUses s - 1\<rparr> else s)"

definition open_one :: "LogicalMessageSpan \<Rightarrow> LogicalMessageSpan" where
  "open_one s = s\<lparr>ms_OpenToolUses := ms_OpenToolUses s + 1\<rparr>"

definition span_of_record :: "int \<Rightarrow> string \<Rightarrow> Record \<Rightarrow> LogicalMessageSpan" where
  "span_of_record ord sid rec =
     \<lparr>ms_Ordinal = ord, ms_StableID = sid, ms_ReplayStart = rec_Start rec, ms_EndOffset = rec_End rec, ms_OpenToolUses = 0\<rparr>"


section \<open>The Codex extractor\<close>

record codexSpanExtractor =
  cx_spans :: "LogicalMessageSpan list"
  cx_current :: "LogicalMessageSpan option"
  cx_ordinal :: int

definition new_codex :: codexSpanExtractor where
  "new_codex = \<lparr>cx_spans = [], cx_current = None, cx_ordinal = 0\<rparr>"

definition ensureCurrent :: "Record \<Rightarrow> codexSpanExtractor \<Rightarrow> codexSpanExtractor" where
  "ensureCurrent rec x =
     (case cx_current x of
        None \<Rightarrow> x\<lparr>cx_current := Some (span_of_record (cx_ordinal x) [] rec), cx_ordinal := cx_ordinal x + 1\<rparr>
      | Some c \<Rightarrow> x\<lparr>cx_current := Some (extend_to (rec_End rec) c)\<rparr>)"

definition flush_current :: "codexSpanExtractor \<Rightarrow> codexSpanExtractor" where
  "flush_current x = (case cx_current x of None \<Rightarrow> x | Some c \<Rightarrow> x\<lparr>cx_spans := cx_spans x @ [c], cx_current := None\<rparr>)"

definition emitUser :: "Record \<Rightarrow> codexSpanExtractor \<Rightarrow> codexSpanExtractor" where
  "emitUser rec x = (let x = flush_current x
     in x\<lparr>cx_spans := cx_spans x @ [span_of_record (cx_ordinal x) [] rec], cx_ordinal := cx_ordinal x + 1\<rparr>)"

definition closeTool :: "Record \<Rightarrow> codexSpanExtractor \<Rightarrow> codexSpanExtractor" where
  "closeTool rec x = x\<lparr>cx_current := map_option (\<lambda>c. close_one (extend_to (rec_End rec) c)) (cx_current x)\<rparr>"

definition openTool :: "Record \<Rightarrow> codexSpanExtractor \<Rightarrow> codexSpanExtractor" where
  "openTool rec x = (let x = ensureCurrent rec x in x\<lparr>cx_current := map_option open_one (cx_current x)\<rparr>)"

definition codexIsUserPrompt :: "string \<Rightarrow> bool" where
  "codexIsUserPrompt text =
     (let t = trim_space text
      in t \<noteq> [] \<and> \<not> has_prefix t ''<'' \<and> \<not> (has_prefix t ''# AGENTS.md'' \<or> has_prefix t ''#AGENTS.md''))"

definition codexEventIsPatchApplyEnd :: "json_lib \<Rightarrow> bytes \<Rightarrow> bool" where
  "codexEventIsPatchApplyEnd J payload =
     (case j_object J payload of
        None \<Rightarrow> False
      | Some envelope \<Rightarrow>
          (let p = (case map_of envelope ''payload'' of Some (JAObject nested) \<Rightarrow> nested | _ \<Rightarrow> envelope)
           in case map_of p ''type'' of Some (JAString s) \<Rightarrow> trim_space s = ''patch_apply_end'' | _ \<Rightarrow> False))"

definition is_prompt_block :: "string \<times> string \<Rightarrow> bool" where
  "is_prompt_block c \<longleftrightarrow> fst c = ''input_text'' \<and> snd c \<noteq> [] \<and> codexIsUserPrompt (snd c)"

definition codex_item :: "codexResponseItem \<Rightarrow> Record \<Rightarrow> codexSpanExtractor \<Rightarrow> codexSpanExtractor" where
  "codex_item item rec x =
     (if ci_Role item = ''user'' \<and> ci_Content item \<noteq> [] then
        fold (\<lambda>c. if is_prompt_block c then emitUser rec else id) (ci_Content item) x
      else if ci_Role item = ''assistant'' \<and> (ci_Type item = [] \<or> ci_Type item = ''message'') then
        (if \<exists>c \<in> set (ci_Content item). fst c = ''output_text'' \<and> snd c \<noteq> [] then ensureCurrent rec x else x)
      else if ci_Type item = ''reasoning'' then
        (let text = (if ci_Text item = [] \<and> ci_Summary item \<noteq> [] then join_strings [CHR 0x0A] (ci_Summary item) else ci_Text item)
         in if text \<noteq> [] then ensureCurrent rec x else x)
      else if ci_Type item = ''function_call'' \<and> ci_Name item = ''update_plan'' then x
      else if ci_Type item = ''function_call'' then openTool rec x
      else if ci_Type item = ''command_execution'' then openTool rec x
      else if ci_Type item = ''function_call_output'' then closeTool rec x
      else if ci_Type item = ''custom_tool_call'' \<and> ci_Name item = ''apply_patch'' then openTool rec x
      else if ci_Type item = ''custom_tool_call_output'' then closeTool rec x
      else x)"

definition codex_Process :: "json_lib \<Rightarrow> Record \<Rightarrow> codexSpanExtractor \<Rightarrow> codexSpanExtractor" where
  "codex_Process J rec x =
     (case j_codexEnvelope J (rec_Bytes rec) of
        None \<Rightarrow> x
      | Some (typ, payload) \<Rightarrow>
          (if typ = ''event_msg'' then (if codexEventIsPatchApplyEnd J payload then closeTool rec x else x)
           else if typ \<noteq> ''response_item'' then x
           else (case j_codexItem J payload of None \<Rightarrow> x | Some item \<Rightarrow> codex_item item rec x)))"

definition codex_Finish :: "codexSpanExtractor \<Rightarrow> codexSpanExtractor" where
  "codex_Finish x = flush_current x"


section \<open>The Claude extractor\<close>

text \<open>A span pointer is a position in \<open>cl_spans\<close>, so what is reached through \<open>cl_byAssistant\<close> is the span in the list.\<close>

record claudeSpanExtractor =
  cl_spans :: "LogicalMessageSpan list"
  cl_byAssistant :: "string \<rightharpoonup> nat"
  cl_toolOwner :: "string \<rightharpoonup> string"
  cl_pending :: "string \<rightharpoonup> int"
  cl_ordinal :: int

definition new_claude :: claudeSpanExtractor where
  "new_claude = \<lparr>cl_spans = [], cl_byAssistant = Map.empty, cl_toolOwner = Map.empty, cl_pending = Map.empty, cl_ordinal = 0\<rparr>"

definition spanKeyForAssistant :: "string \<Rightarrow> int \<Rightarrow> string" where
  "spanKeyForAssistant msgID start = (if msgID = [] then ''assistant@'' @ show_int start else msgID)"

definition on_span :: "nat \<Rightarrow> (LogicalMessageSpan \<Rightarrow> LogicalMessageSpan) \<Rightarrow> claudeSpanExtractor \<Rightarrow> claudeSpanExtractor" where
  "on_span i f x = x\<lparr>cl_spans := (cl_spans x)[i := f (cl_spans x ! i)]\<rparr>"

definition assistantSpan :: "string \<Rightarrow> Record \<Rightarrow> claudeSpanExtractor \<Rightarrow> nat \<times> claudeSpanExtractor" where
  "assistantSpan msgID rec x =
     (let key = spanKeyForAssistant msgID (rec_Start rec)
      in case cl_byAssistant x key of
           Some i \<Rightarrow> (i, on_span i (extend_to (rec_End rec)) x)
         | None \<Rightarrow> (length (cl_spans x),
             x\<lparr>cl_ordinal := cl_ordinal x + 1, cl_byAssistant := (cl_byAssistant x)(key \<mapsto> length (cl_spans x)),
               cl_spans := cl_spans x @ [span_of_record (cl_ordinal x) msgID rec]\<rparr>))"

definition assistant_block :: "string \<Rightarrow> Record \<Rightarrow> nat \<Rightarrow> claudeContentBlock \<Rightarrow> claudeSpanExtractor \<Rightarrow> claudeSpanExtractor" where
  "assistant_block msgID rec i b x =
     (if cb_Type b \<noteq> ''tool_use'' then x
      else let id = trim_space (cb_ID b); x = on_span i open_one x
        in if id = [] then x
           else let x = x\<lparr>cl_toolOwner := (cl_toolOwner x)(id \<mapsto> spanKeyForAssistant msgID (rec_Start rec))\<rparr>
             in case cl_pending x id of
                  None \<Rightarrow> x
                | Some e \<Rightarrow> on_span i (\<lambda>s. close_one (extend_to e s)) (x\<lparr>cl_pending := (cl_pending x)(id := None)\<rparr>))"

definition user_block :: "Record \<Rightarrow> claudeContentBlock \<Rightarrow> claudeSpanExtractor \<Rightarrow> claudeSpanExtractor" where
  "user_block rec b x =
     (if cb_Type b \<noteq> ''tool_result'' then x
      else let id = trim_space (cb_ToolUseID b)
        in if id = [] then x
           else case cl_toolOwner x id of
             Some ownerKey \<Rightarrow>
               (case cl_byAssistant x ownerKey of
                  Some i \<Rightarrow> on_span i (\<lambda>s. close_one (extend_to (rec_End rec) s)) x | None \<Rightarrow> x)
           | None \<Rightarrow> x\<lparr>cl_pending := (cl_pending x)(id \<mapsto> rec_End rec)\<rparr>)"

definition decodeClaudeContentBlocks :: "json_lib \<Rightarrow> bytes \<Rightarrow> claudeContentBlock list" where
  "decodeClaudeContentBlocks J raw =
     (if raw = [] \<or> raw = bytes_of ''null'' then []
      else if j_isString J raw then [\<lparr>cb_Type = ''text'', cb_ID = [], cb_ToolUseID = []\<rparr>]
      else case j_blocks J raw of None \<Rightarrow> [] | Some bs \<Rightarrow> bs)"

definition claude_Process :: "json_lib \<Rightarrow> Record \<Rightarrow> claudeSpanExtractor \<Rightarrow> claudeSpanExtractor" where
  "claude_Process J rec x =
     (case j_claudeEnvelope J (rec_Bytes rec) of
        None \<Rightarrow> x
      | Some (typ, message) \<Rightarrow>
          (if typ \<noteq> ''user'' \<and> typ \<noteq> ''assistant'' then x
           else if message = [] \<or> message = bytes_of ''null'' then x
           else case j_claudeMessage J message of
             None \<Rightarrow> x
           | Some (msg_id, content) \<Rightarrow>
               (let blocks = decodeClaudeContentBlocks J content
                in if typ = ''assistant'' then
                     (let msgID = trim_space msg_id; (i, x) = assistantSpan msgID rec x
                      in fold (assistant_block msgID rec i) blocks x)
                   else let x = fold (user_block rec) blocks x
                     in if \<exists>b \<in> set blocks. cb_Type b = ''text''
                        then x\<lparr>cl_spans := cl_spans x @ [span_of_record (cl_ordinal x) [] rec], cl_ordinal := cl_ordinal x + 1\<rparr>
                        else x)))"

text \<open>\<^verbatim>\<open>Spans\<close> after \<^verbatim>\<open>Finish\<close>, for the extractor \<^verbatim>\<open>newExtractor\<close> makes; an unknown backend has none.\<close>

definition extract_spans :: "json_lib \<Rightarrow> Backend \<Rightarrow> Record list \<Rightarrow> LogicalMessageSpan list option" where
  "extract_spans J backend recs =
     (case backend of
        BackendCodex \<Rightarrow> Some (cx_spans (codex_Finish (fold (codex_Process J) recs new_codex)))
      | BackendClaude \<Rightarrow> Some (cl_spans (fold (claude_Process J) recs new_claude))
      | BackendOther _ \<Rightarrow> None)"


section \<open>Well-formed span lists\<close>

text \<open>
  Messages are numbered from zero in the order of their starts; starts reach to \<open>l\<close> and ends to \<open>b\<close> at most.
\<close>

definition spans_ok :: "int \<Rightarrow> int \<Rightarrow> LogicalMessageSpan list \<Rightarrow> bool" where
  "spans_ok l b ss \<longleftrightarrow> map ms_Ordinal ss = map int [0..<length ss] \<and> sorted (map ms_ReplayStart ss) \<and>
     (\<forall>s \<in> set ss. 0 \<le> ms_ReplayStart s \<and> ms_ReplayStart s \<le> l \<and> ms_ReplayStart s < ms_EndOffset s \<and> ms_EndOffset s \<le> b \<and> 0 \<le> ms_OpenToolUses s)"

lemma spans_ok_Nil [simp]: "spans_ok l b []"
  by (simp add: spans_ok_def)

lemma spans_ok_mono: "spans_ok l b ss \<Longrightarrow> l \<le> l' \<Longrightarrow> b \<le> b' \<Longrightarrow> spans_ok l' b' ss"
  by (fastforce simp: spans_ok_def)

lemma spans_ok_append:
  assumes "spans_ok l b ss" and "0 \<le> rec_Start rec" "l \<le> rec_Start rec" "b \<le> rec_End rec" "rec_Start rec < rec_End rec"
    and "n = int (length ss)"
  shows "spans_ok (rec_Start rec) (rec_End rec) (ss @ [span_of_record n sid rec])"
  using assms by (fastforce simp: spans_ok_def span_of_record_def sorted_append)

text \<open>An update that keeps number and start, and moves the end no further than \<open>b\<close>.\<close>

definition keeps_span :: "int \<Rightarrow> (LogicalMessageSpan \<Rightarrow> LogicalMessageSpan) \<Rightarrow> bool" where
  "keeps_span b f \<longleftrightarrow> (\<forall>s. ms_Ordinal (f s) = ms_Ordinal s \<and> ms_StableID (f s) = ms_StableID s \<and> ms_ReplayStart (f s) = ms_ReplayStart s \<and>
     ms_EndOffset s \<le> ms_EndOffset (f s) \<and> (ms_EndOffset s \<le> b \<longrightarrow> ms_EndOffset (f s) \<le> b) \<and> (0 \<le> ms_OpenToolUses s \<longrightarrow> 0 \<le> ms_OpenToolUses (f s)))"

named_theorems span_updates \<open>updates of a span that keep its number and start\<close>

lemma keeps_span_intros [span_updates]:
  "e \<le> b \<Longrightarrow> keeps_span b (extend_to e)" "keeps_span b close_one" "keeps_span b open_one"
  by (auto simp: keeps_span_def extend_to_def close_one_def open_one_def)

lemma keeps_span_close [span_updates]: "e \<le> b \<Longrightarrow> keeps_span b (\<lambda>s. close_one (extend_to e s))"
  by (auto simp: keeps_span_def extend_to_def close_one_def)

lemma spans_ok_update:
  assumes "spans_ok l b ss" and "i < length ss" and "keeps_span b f"
  shows "spans_ok l b (ss[i := f (ss ! i)])"
proof -
  have "ms_Ordinal (f (ss ! i)) = ms_Ordinal (ss ! i)" "ms_ReplayStart (f (ss ! i)) = ms_ReplayStart (ss ! i)"
    using assms(3) by (simp_all add: keeps_span_def)
  moreover from this have "map ms_Ordinal (ss[i := f (ss ! i)]) = map ms_Ordinal ss" "map ms_ReplayStart (ss[i := f (ss ! i)]) = map ms_ReplayStart ss"
    using assms(2) by (simp_all add: map_update list_update_same_conv)
  moreover have "ss ! i \<in> set ss" using assms(2) by simp
  then have "0 \<le> ms_ReplayStart (f (ss ! i)) \<and> ms_ReplayStart (f (ss ! i)) \<le> l \<and> ms_ReplayStart (f (ss ! i)) < ms_EndOffset (f (ss ! i)) \<and>
      ms_EndOffset (f (ss ! i)) \<le> b \<and> 0 \<le> ms_OpenToolUses (f (ss ! i))"
    using assms(1,3) unfolding spans_ok_def keeps_span_def by (metis order.strict_trans2)
  ultimately show ?thesis
    using assms(1) set_update_subset_insert[of ss i "f (ss ! i)"] unfolding spans_ok_def by auto
qed


section \<open>The contract of an extractor\<close>

locale span_extractor =
  fixes process :: "Record \<Rightarrow> 'x \<Rightarrow> 'x"
    and start :: 'x
    and result :: "'x \<Rightarrow> LogicalMessageSpan list"
    and inv :: "int \<Rightarrow> 'x \<Rightarrow> bool"
  assumes inv_start: "inv 0 start"
    and inv_mono: "inv b x \<Longrightarrow> b \<le> b' \<Longrightarrow> inv b' x"
    and inv_process: "inv b x \<Longrightarrow> 0 \<le> b \<Longrightarrow> b \<le> rec_Start r \<Longrightarrow> rec_Start r < rec_End r \<Longrightarrow> inv (rec_End r) (process r x)"
    and inv_result: "inv b x \<Longrightarrow> spans_ok b b (result x)"
begin

lemma inv_fold:
  assumes "inv b x" "0 \<le> b" "sorted_wrt (\<lambda>r r'. rec_End r \<le> rec_Start r') rs"
    and "\<And>r. r \<in> set rs \<Longrightarrow> b \<le> rec_Start r \<and> rec_Start r < rec_End r \<and> rec_End r \<le> m" and "b \<le> m"
  shows "inv m (fold process rs x)"
  using assms
proof (induction rs arbitrary: b x)
  case Nil then show ?case by (auto intro: inv_mono)
next
  case (Cons r rs)
  have "inv (rec_End r) (process r x)" using Cons.prems by (intro inv_process[of b]) auto
  moreover have "0 \<le> rec_End r" using Cons.prems(2) Cons.prems(4)[of r] by auto
  ultimately show ?case using Cons.prems by (simp, intro Cons.IH[of "rec_End r"]) auto
qed

lemma extraction_ok: "spans_ok (int (length bs)) (int (length bs)) (result (fold process (records_of bs) start))"
proof (rule inv_result, rule inv_fold[OF inv_start])
  show "sorted_wrt (\<lambda>r r'. rec_End r \<le> rec_Start r') (records_of bs)"
    using records_from_at by (simp add: records_of_def)
  show "0 \<le> rec_Start r \<and> rec_Start r < rec_End r \<and> rec_End r \<le> int (length bs)" if "r \<in> set (records_of bs)" for r
    using records_from_at[of 0 bs] that by (auto simp: records_of_def record_at_def)
qed simp_all

end


section \<open>Both extractors fulfil it\<close>

definition codex_all :: "codexSpanExtractor \<Rightarrow> LogicalMessageSpan list" where
  "codex_all x = cx_spans x @ (case cx_current x of None \<Rightarrow> [] | Some c \<Rightarrow> [c])"

definition codex_inv2 :: "int \<Rightarrow> int \<Rightarrow> codexSpanExtractor \<Rightarrow> bool" where
  "codex_inv2 l b x \<longleftrightarrow> spans_ok l b (codex_all x) \<and> cx_ordinal x = int (length (codex_all x))"

definition codex_inv :: "int \<Rightarrow> codexSpanExtractor \<Rightarrow> bool" where
  "codex_inv b x \<longleftrightarrow> codex_inv2 b b x"

text \<open>While a record is processed: starts reach to its start, ends to its end.\<close>

definition codex_at :: "Record \<Rightarrow> codexSpanExtractor \<Rightarrow> bool" where
  "codex_at r x \<longleftrightarrow> codex_inv2 (rec_Start r) (rec_End r) x \<and> 0 \<le> rec_Start r \<and> rec_Start r < rec_End r"

lemma flush_current_all [simp]:
  "codex_all (flush_current x) = codex_all x" "cx_ordinal (flush_current x) = cx_ordinal x" "cx_current (flush_current x) = None"
  "cx_spans (flush_current x) = codex_all x"
  by (simp_all add: flush_current_def codex_all_def split: option.splits)

lemma spans_ok_update_last:
  assumes "spans_ok l b (ss @ [s])" and "keeps_span b f"
  shows "spans_ok l b (ss @ [f s])"
  using spans_ok_update[OF assms(1) _ assms(2), of "length ss"] by simp

lemma codex_current_update:
  assumes "codex_inv2 l b x" and "keeps_span b f"
  shows "codex_inv2 l b (x\<lparr>cx_current := map_option f (cx_current x)\<rparr>)"
  using assms spans_ok_update_last[OF _ assms(2)] by (auto simp: codex_inv2_def codex_all_def split: option.splits)

lemma codex_at_steps:
  assumes "codex_at r x"
  shows "codex_at r (ensureCurrent r x)" "codex_at r (emitUser r x)" "codex_at r (closeTool r x)" "codex_at r (openTool r x)"
proof -
  show e: "codex_at r (ensureCurrent r x)"
  proof (cases "cx_current x")
    case None
    then show ?thesis
      using assms spans_ok_append[of "rec_Start r" "rec_End r" "cx_spans x" r "cx_ordinal x" "[]"]
      by (auto simp: ensureCurrent_def codex_at_def codex_inv2_def codex_all_def)
  next
    case (Some c)
    then show ?thesis
      using assms codex_current_update[of "rec_Start r" "rec_End r" x "extend_to (rec_End r)"]
      by (auto simp: codex_at_def ensureCurrent_def span_updates)
  qed
  show "codex_at r (emitUser r x)"
    using assms spans_ok_append[of "rec_Start r" "rec_End r" "codex_all x" r "cx_ordinal x" "[]"]
    by (auto simp: emitUser_def Let_def codex_at_def codex_inv2_def) (simp_all add: codex_all_def)
  show "codex_at r (closeTool r x)"
    using assms by (auto simp: codex_at_def closeTool_def intro!: codex_current_update span_updates)
  show "codex_at r (openTool r x)"
    using e by (auto simp: codex_at_def openTool_def Let_def intro!: codex_current_update span_updates)
qed

lemma fold_keeps: "P x \<Longrightarrow> (\<And>a x. a \<in> set as \<Longrightarrow> P x \<Longrightarrow> P (f a x)) \<Longrightarrow> P (fold f as x)"
  by (induction as arbitrary: x) auto

lemma codex_at_item: "codex_at r x \<Longrightarrow> codex_at r (codex_item item r x)"
proof -
  assume x: "codex_at r x"
  have f: "codex_at r (fold (\<lambda>c. if is_prompt_block c then emitUser r else id) cs x)" for cs
    using x codex_at_steps(2)[of r] by (intro fold_keeps[where P = "codex_at r"]) auto
  have P_if: "codex_at r a \<Longrightarrow> codex_at r b \<Longrightarrow> codex_at r (if c then a else b)" for a b c by simp
  show ?thesis
    unfolding codex_item_def Let_def by (intro P_if) (fact codex_at_steps[OF x] x f)+
qed

interpretation codex: span_extractor "codex_Process J" new_codex "\<lambda>x. cx_spans (codex_Finish x)" codex_inv for J
proof
  show "codex_inv 0 new_codex" by (simp add: codex_inv_def codex_inv2_def codex_all_def new_codex_def)
  show "codex_inv b x \<Longrightarrow> b \<le> b' \<Longrightarrow> codex_inv b' x" for b b' x
    by (auto simp: codex_inv_def codex_inv2_def intro: spans_ok_mono)
  show "codex_inv b x \<Longrightarrow> spans_ok b b (cx_spans (codex_Finish x))" for b x
    by (simp add: codex_inv_def codex_inv2_def codex_Finish_def)
  fix b :: int and x and r :: Record assume "codex_inv b x" "0 \<le> b" "b \<le> rec_Start r" "rec_Start r < rec_End r"
  then have "codex_at r x" by (auto simp: codex_at_def codex_inv_def codex_inv2_def intro: spans_ok_mono)
  then have "codex_at r (codex_Process J r x)"
    by (simp add: codex_Process_def codex_at_steps codex_at_item split: option.split prod.split)
  then show "codex_inv (rec_End r) (codex_Process J r x)"
    by (auto simp: codex_at_def codex_inv_def codex_inv2_def intro: spans_ok_mono)
qed

definition claude_inv2 :: "int \<Rightarrow> int \<Rightarrow> claudeSpanExtractor \<Rightarrow> bool" where
  "claude_inv2 l b x \<longleftrightarrow> spans_ok l b (cl_spans x) \<and> cl_ordinal x = int (length (cl_spans x)) \<and>
     (\<forall>k i. cl_byAssistant x k = Some i \<longrightarrow> i < length (cl_spans x)) \<and> (\<forall>k e. cl_pending x k = Some e \<longrightarrow> e \<le> b)"

definition claude_inv :: "int \<Rightarrow> claudeSpanExtractor \<Rightarrow> bool" where
  "claude_inv b x \<longleftrightarrow> claude_inv2 b b x"

definition claude_at :: "Record \<Rightarrow> claudeSpanExtractor \<Rightarrow> bool" where
  "claude_at r x \<longleftrightarrow> claude_inv2 (rec_Start r) (rec_End r) x \<and> 0 \<le> rec_Start r \<and> rec_Start r < rec_End r"

lemma on_span_sel [simp]:
  "cl_byAssistant (on_span i f x) = cl_byAssistant x" "cl_pending (on_span i f x) = cl_pending x"
  "cl_toolOwner (on_span i f x) = cl_toolOwner x" "length (cl_spans (on_span i f x)) = length (cl_spans x)"
  by (simp_all add: on_span_def)

lemma claude_on_span:
  assumes "claude_inv2 l b x" and "i < length (cl_spans x)" and "keeps_span b f"
  shows "claude_inv2 l b (on_span i f x)"
  using assms spans_ok_update[OF _ assms(2,3)] by (auto simp: claude_inv2_def on_span_def)

lemma claude_inv2_maps:
  assumes "claude_inv2 l b x"
  shows "claude_inv2 l b (x\<lparr>cl_toolOwner := t\<rparr>)" "claude_inv2 l b (x\<lparr>cl_pending := (cl_pending x)(k := None)\<rparr>)"
    and "(\<And>k e. p k = Some e \<Longrightarrow> e \<le> b) \<Longrightarrow> claude_inv2 l b (x\<lparr>cl_toolOwner := t, cl_pending := p\<rparr>)"
    and "e \<le> b \<Longrightarrow> claude_inv2 l b (x\<lparr>cl_pending := (cl_pending x)(k \<mapsto> e)\<rparr>)"
  using assms by (auto simp: claude_inv2_def)

lemma claude_index: "claude_inv2 l b x \<Longrightarrow> cl_byAssistant x k = Some i \<Longrightarrow> i < length (cl_spans x)"
  by (simp add: claude_inv2_def)

lemma claude_pending: "claude_inv2 l b x \<Longrightarrow> cl_pending x k = Some e \<Longrightarrow> e \<le> b"
  by (simp add: claude_inv2_def)

lemma claude_append:
  assumes "claude_at r x"
  shows "claude_at r (x\<lparr>cl_spans := cl_spans x @ [span_of_record (cl_ordinal x) sid r], cl_ordinal := cl_ordinal x + 1\<rparr>)"
  using assms spans_ok_append[of "rec_Start r" "rec_End r" "cl_spans x" r "cl_ordinal x" sid]
  by (auto simp: claude_at_def claude_inv2_def intro: less_SucI)

lemma claude_at_assistantSpan:
  assumes "claude_at r x" and "assistantSpan msgID r x = (i, x')"
  shows "claude_at r x' \<and> i < length (cl_spans x')"
proof (cases "cl_byAssistant x (spanKeyForAssistant msgID (rec_Start r))")
  case (Some j)
  then show ?thesis
    using assms claude_on_span[of "rec_Start r" "rec_End r" x j "extend_to (rec_End r)"] claude_index[OF _ Some]
    by (auto simp: claude_at_def assistantSpan_def Let_def span_updates)
next
  case None
  then show ?thesis
    using assms claude_append[of r x msgID]
    by (auto simp: claude_at_def assistantSpan_def Let_def claude_inv2_def split: if_splits intro: less_SucI)
qed

lemma claude_at_assistant_block:
  assumes "claude_at r x \<and> i < length (cl_spans x)"
  shows "claude_at r (assistant_block msgID r i b x) \<and> i < length (cl_spans (assistant_block msgID r i b x))"
  using assms
  by (auto simp: claude_at_def assistant_block_def Let_def split: option.splits intro!: claude_on_span claude_inv2_maps span_updates intro: claude_pending split: if_splits)

lemma claude_at_user_block: "claude_at r x \<Longrightarrow> claude_at r (user_block r b x)"
  by (auto simp: claude_at_def user_block_def Let_def split: option.splits intro!: claude_on_span claude_inv2_maps span_updates intro: claude_index)

interpretation claude: span_extractor "claude_Process J" new_claude cl_spans claude_inv for J
proof
  show "claude_inv 0 new_claude" by (simp add: claude_inv_def claude_inv2_def new_claude_def)
  show "claude_inv b x \<Longrightarrow> b \<le> b' \<Longrightarrow> claude_inv b' x" for b b' x
    by (fastforce simp: claude_inv_def claude_inv2_def intro: spans_ok_mono)
  show "claude_inv b x \<Longrightarrow> spans_ok b b (cl_spans x)" for b x
    by (simp add: claude_inv_def claude_inv2_def)
  fix b :: int and x and r :: Record assume "claude_inv b x" "0 \<le> b" "b \<le> rec_Start r" "rec_Start r < rec_End r"
  then have at: "claude_at r x" by (fastforce simp: claude_at_def claude_inv_def claude_inv2_def intro: spans_ok_mono)
  have user: "claude_at r (fold (user_block r) bs x)" for bs
    by (rule fold_keeps[where P = "claude_at r"]) (use at in \<open>simp_all add: claude_at_user_block\<close>)
  have assistant: "claude_at r (fold (assistant_block m r i) bs x')" if "assistantSpan m r x = (i, x')" for m i x' bs
    using fold_keeps[where P = "\<lambda>x. claude_at r x \<and> i < length (cl_spans x)" and f = "assistant_block m r i" and x = x' and as = bs]
      claude_at_assistantSpan[OF at that] claude_at_assistant_block by blast
  have "claude_at r (claude_Process J r x)"
    unfolding claude_Process_def Let_def using at user claude_append[OF user] assistant by (simp split: option.split prod.split)
  then show "claude_inv (rec_End r) (claude_Process J r x)"
    by (fastforce simp: claude_at_def claude_inv_def claude_inv2_def intro: spans_ok_mono)
qed

lemmas extraction_ok = codex.extraction_ok claude.extraction_ok

end
