(* ===== verification/Transcript_Index.thy ===== *)
theory Transcript_Index
  imports Transcript_Spans Device_Auth
begin

text \<open>
  The page index of a transcript (\<^verbatim>\<open>transcriptindex/index.go\<close>, \<^verbatim>\<open>anchor.go\<close>, \<^verbatim>\<open>lineage.go\<close>, \<^verbatim>\<open>persist.go\<close>,
  \<^verbatim>\<open>cursor.go\<close>): building it from a whole file, refreshing it from an appended tail, its chain of generations, the choice of a page,
  the byte range a page is rebuilt from, and the cursors a client pages with. The hash, the JSON codec, generation identifiers and what the
  file system delivers are parameters.
\<close>

section \<open>The index\<close>

definition IndexVersion :: int where "IndexVersion = 1"
definition maxLineageDepth :: nat where "maxLineageDepth = 64"
definition defaultAnchorAlgo :: string where "defaultAnchorAlgo = ''sha256-128''"
definition defaultAnchorWindow :: int where "defaultAnchorWindow = 4096"

definition extractorRevision :: "Backend \<Rightarrow> string" where
  "extractorRevision backend = (case backend of BackendCodex \<Rightarrow> ''codex-v2'' | BackendClaude \<Rightarrow> ''claude-v1'' | BackendOther _ \<Rightarrow> [])"

record Fingerprint =
  fp_SizeBytes :: int
  fp_ModTimeUnixNano :: int

record ByteRange =
  br_Start :: int
  br_End :: int

record AnchorDesc =
  an_Algo :: string
  an_Window :: int

record PrefixGenerationRecord =
  pg_ID :: string
  pg_ParentID :: string
  pg_IndexedThrough :: int
  pg_AnchorHex :: string

record PageIndex =
  ix_Version :: int
  ix_Backend :: Backend
  ix_ExtractorRevision :: string
  ix_FilePath :: string
  ix_Fingerprint :: Fingerprint
  ix_Anchor :: AnchorDesc
  ix_ParseOffset :: int
  ix_PrefixGeneration :: string
  ix_GenerationLineage :: "PrefixGenerationRecord list"
  ix_Spans :: "LogicalMessageSpan list"
  ix_FileDevice :: "64 word"
  ix_FileInode :: "64 word"

definition currentGeneration :: "PageIndex \<Rightarrow> PrefixGenerationRecord option" where
  "currentGeneration idx = (if ix_GenerationLineage idx = [] then None else Some (last (ix_GenerationLineage idx)))"

definition spanAtOffset :: "PageIndex \<Rightarrow> int \<Rightarrow> LogicalMessageSpan option" where
  "spanAtOffset idx off = find (\<lambda>s. ms_ReplayStart s = off) (ix_Spans idx)"

text \<open>An opened file: what \<^verbatim>\<open>Stat\<close> reports, the bytes it reads, and whether reading fails.\<close>

record file_view =
  fv_Size :: int
  fv_ModTime :: int
  fv_Device :: "64 word"
  fv_Inode :: "64 word"
  fv_Data :: bytes
  fv_Failed :: bool

definition fileFingerprint :: "file_view \<Rightarrow> Fingerprint" where
  "fileFingerprint f = \<lparr>fp_SizeBytes = fv_Size f, fp_ModTimeUnixNano = fv_ModTime f\<rparr>"

datatype index_error = IndexNil | IndexIO | UnknownBackend | ReplayerFailed | NoReplayer | NotABoundary | ReplayMismatch


section \<open>Anchors and generations\<close>

definition anchorFor :: "(bytes \<Rightarrow> bytes) \<Rightarrow> file_view \<Rightarrow> int \<Rightarrow> int \<Rightarrow> string option" where
  "anchorFor sha f indexedThrough window =
     (let window = (if window \<le> 0 then defaultAnchorWindow else window);
          start = (if indexedThrough - window < 0 then 0 else indexedThrough - window);
          hashed = indexedThrough - start
      in if hashed \<le> 0 then Some []
         else if fv_Failed f then None
         else Some (hex_encode (take 16 (sha (take (nat hashed) (drop (nat start) (fv_Data f)))))))"

definition finalizeNewLineage ::
  "(bytes \<Rightarrow> bytes) \<Rightarrow> string \<Rightarrow> file_view \<Rightarrow> int \<Rightarrow> (string \<times> AnchorDesc \<times> PrefixGenerationRecord list) option" where
  "finalizeNewLineage sha gid f parseOffset =
     (case anchorFor sha f parseOffset defaultAnchorWindow of
        None \<Rightarrow> None
      | Some digest \<Rightarrow> Some (gid, \<lparr>an_Algo = defaultAnchorAlgo, an_Window = defaultAnchorWindow\<rparr>,
          [\<lparr>pg_ID = gid, pg_ParentID = [], pg_IndexedThrough = parseOffset, pg_AnchorHex = digest\<rparr>]))"

definition foldLineage :: "PrefixGenerationRecord list \<Rightarrow> PrefixGenerationRecord list" where
  "foldLineage lineage =
     (if length lineage \<le> maxLineageDepth then lineage
      else let keep = maxLineageDepth - 1;
               newest = drop (length lineage - keep) lineage;
               root = (lineage ! (length lineage - keep - 1))\<lparr>pg_ParentID := []\<rparr>;
               newest = newest[0 := (newest ! 0)\<lparr>pg_ParentID := pg_ID root\<rparr>]
        in root # newest)"

definition appendChildGeneration ::
  "(bytes \<Rightarrow> bytes) \<Rightarrow> string \<Rightarrow> file_view \<Rightarrow> PageIndex \<Rightarrow> int \<Rightarrow> (string \<times> AnchorDesc \<times> PrefixGenerationRecord list) option" where
  "appendChildGeneration sha gid f parent indexedThrough =
     (let window = (if an_Window (ix_Anchor parent) \<le> 0 then defaultAnchorWindow else an_Window (ix_Anchor parent))
      in case anchorFor sha f indexedThrough window of
           None \<Rightarrow> None
         | Some digest \<Rightarrow>
             (let algo = (if an_Algo (ix_Anchor parent) = [] then defaultAnchorAlgo else an_Algo (ix_Anchor parent))
              in Some (gid, \<lparr>an_Algo = algo, an_Window = window\<rparr>,
                   foldLineage (ix_GenerationLineage parent @
                     [\<lparr>pg_ID = gid, pg_ParentID = ix_PrefixGeneration parent, pg_IndexedThrough = indexedThrough, pg_AnchorHex = digest\<rparr>]))))"

definition validateLineage :: "PrefixGenerationRecord list \<Rightarrow> bool" where
  "validateLineage lineage \<longleftrightarrow>
     lineage \<noteq> [] \<and> [] \<notin> set (map pg_ID lineage) \<and> distinct (map pg_ID lineage) \<and> pg_ParentID (hd lineage) = [] \<and>
     (\<forall>g \<in> set (tl lineage). pg_ParentID g \<noteq> [] \<and> pg_ParentID g \<in> set (map pg_ID lineage))"

definition sameIdentity :: "PageIndex \<Rightarrow> file_view \<Rightarrow> bool" where
  "sameIdentity idx f \<longleftrightarrow>
     (if ix_FileDevice idx = 0 \<and> ix_FileInode idx = 0 then True else fv_Device f = ix_FileDevice idx \<and> fv_Inode f = ix_FileInode idx)"

definition verifyAnchorAt :: "(bytes \<Rightarrow> bytes) \<Rightarrow> file_view \<Rightarrow> PageIndex \<Rightarrow> bool option" where
  "verifyAnchorAt sha f idx =
     (case currentGeneration idx of
        None \<Rightarrow> Some False
      | Some cur \<Rightarrow>
          (let window = (if an_Window (ix_Anchor idx) \<le> 0 then defaultAnchorWindow else an_Window (ix_Anchor idx))
           in map_option (\<lambda>digest. digest = pg_AnchorHex cur) (anchorFor sha f (ix_ParseOffset idx) window)))"


section \<open>Building\<close>

text \<open>The spans of the records a reader delivers: the callback never fails, so only reading can.\<close>

definition scan_spans :: "json_lib \<Rightarrow> Backend \<Rightarrow> bool \<Rightarrow> bytes \<Rightarrow> (index_error + LogicalMessageSpan list)" where
  "scan_spans J backend failed bs =
     (case backend of
        BackendCodex \<Rightarrow> (case scanTranscript (\<lambda>r x. Inr (codex_Process J r x) :: unit + _) failed bs new_codex of
            Inl _ \<Rightarrow> Inl IndexIO | Inr x \<Rightarrow> Inr (cx_spans (codex_Finish x)))
      | BackendClaude \<Rightarrow> (case scanTranscript (\<lambda>r x. Inr (claude_Process J r x) :: unit + _) failed bs new_claude of
            Inl _ \<Rightarrow> Inl IndexIO | Inr x \<Rightarrow> Inr (cl_spans x))
      | BackendOther _ \<Rightarrow> Inl UnknownBackend)"

definition Build :: "json_lib \<Rightarrow> (bytes \<Rightarrow> bytes) \<Rightarrow> string \<Rightarrow> file_view option \<Rightarrow> Backend \<Rightarrow> string \<Rightarrow> (index_error + PageIndex)" where
  "Build J sha gid file backend path =
     (case file of
        None \<Rightarrow> Inl IndexIO
      | Some f \<Rightarrow>
          (case scan_spans J backend (fv_Failed f) (fv_Data f) of
             Inl e \<Rightarrow> Inl e
           | Inr spans \<Rightarrow>
               (case finalizeNewLineage sha gid f (fv_Size f) of
                  None \<Rightarrow> Inl IndexIO
                | Some (gen, anchor, lineage) \<Rightarrow>
                    Inr \<lparr>ix_Version = IndexVersion, ix_Backend = backend, ix_ExtractorRevision = extractorRevision backend, ix_FilePath = path,
                         ix_Fingerprint = fileFingerprint f, ix_Anchor = anchor, ix_ParseOffset = fv_Size f, ix_PrefixGeneration = gen,
                         ix_GenerationLineage = lineage, ix_Spans = spans, ix_FileDevice = fv_Device f, ix_FileInode = fv_Inode f\<rparr>)))"


section \<open>Refreshing\<close>

definition replay_step :: "LogicalMessageSpan \<Rightarrow> int \<times> bool \<Rightarrow> int \<times> bool" where
  "replay_step s p = (if ms_ReplayStart s < fst p \<and> ms_EndOffset s > fst p then (ms_ReplayStart s, True) else p)"

definition replay_pass :: "LogicalMessageSpan list \<Rightarrow> int \<Rightarrow> int \<times> bool" where
  "replay_pass spans lo = fold replay_step spans (lo, False)"

lemma replay_step_cases:
  obtains (Moved) "ms_ReplayStart s < fst p" "ms_EndOffset s > fst p" "replay_step s p = (ms_ReplayStart s, True)"
  | (Same) "\<not> (ms_ReplayStart s < fst p \<and> ms_EndOffset s > fst p)" "replay_step s p = p"
  by (cases "ms_ReplayStart s < fst p \<and> ms_EndOffset s > fst p") (auto simp: replay_step_def)

lemma fold_replay_moved:
  "fst (fold replay_step ss (y, True)) \<le> y \<and> fst (fold replay_step ss (y, True)) \<in> insert y (ms_ReplayStart ` set ss) \<and>
   snd (fold replay_step ss (y, True))"
proof (induction ss arbitrary: y)
  case (Cons s ss)
  show ?case
  proof (cases rule: replay_step_cases[where s = s and p = "(y, True)"])
    case Moved then show ?thesis using Cons.IH[of "ms_ReplayStart s"] by auto
  next
    case Same then show ?thesis using Cons.IH[of y] by auto
  qed
qed simp

lemma replay_pass_result:
  "(if snd (replay_pass spans lo)
    then fst (replay_pass spans lo) < lo \<and> fst (replay_pass spans lo) \<in> ms_ReplayStart ` set spans
    else fst (replay_pass spans lo) = lo \<and> (\<forall>s \<in> set spans. \<not> (ms_ReplayStart s < lo \<and> ms_EndOffset s > lo)))"
  unfolding replay_pass_def
proof (induction spans)
  case (Cons s spans)
  show ?case
  proof (cases rule: replay_step_cases[where s = s and p = "(lo, False)"])
    case Moved then show ?thesis using fold_replay_moved[of spans "ms_ReplayStart s"] by auto
  next
    case Same then show ?thesis using Cons by (auto split: if_splits)
  qed
qed simp

lemma filter_less_length:
  assumes "x \<in> set xs" and "P x" "\<not> Q x" and "\<And>y. Q y \<Longrightarrow> P y"
  shows "length (filter Q xs) < length (filter P xs)"
proof -
  have "filter Q (filter P xs) = filter Q xs" using assms(4) by (induction xs) auto
  moreover have "length (filter Q (filter P xs)) < length (filter P xs)"
    using assms(1-3) by (intro length_filter_less[of x]) simp_all
  ultimately show ?thesis by simp
qed

function replay_fix :: "LogicalMessageSpan list \<Rightarrow> int \<Rightarrow> int" where
  "replay_fix spans lo = (let (lo', moved) = replay_pass spans lo in if moved then replay_fix spans lo' else lo')"
  by pat_completeness auto

text \<open>Each turn moves the boundary to the start of a span that lay before it.\<close>

termination
proof (relation "measure (\<lambda>(spans, lo). length (filter (\<lambda>s. ms_ReplayStart s < lo) spans))")
  fix spans lo z lo' moved
  assume "z = replay_pass spans lo" "(lo', moved) = z" "moved"
  then have "lo' < lo \<and> lo' \<in> ms_ReplayStart ` set spans" using replay_pass_result[of spans lo] by (auto simp: prod_eq_iff)
  then obtain s where "s \<in> set spans" "lo' = ms_ReplayStart s" "lo' < lo" by auto
  then show "((spans, lo'), spans, lo) \<in> measure (\<lambda>(spans, lo). length (filter (\<lambda>s. ms_ReplayStart s < lo) spans))"
    using filter_less_length[of s spans "\<lambda>s. ms_ReplayStart s < lo" "\<lambda>s. ms_ReplayStart s < lo'"] by simp
qed simp

declare replay_fix.simps [simp del]

definition refreshReplayStart :: "LogicalMessageSpan list \<Rightarrow> int" where
  "refreshReplayStart spans =
     (if spans = [] then 0
      else replay_fix spans
        (fold (\<lambda>s lo. if ms_OpenToolUses s > 0 \<and> ms_ReplayStart s < lo then ms_ReplayStart s else lo) (rev spans)
          (ms_ReplayStart (last spans))))"

definition keepSpansBefore :: "LogicalMessageSpan list \<Rightarrow> int \<Rightarrow> LogicalMessageSpan list" where
  "keepSpansBefore spans replayFrom = takeWhile (\<lambda>s. ms_ReplayStart s < replayFrom) spans"

definition renumber :: "int \<Rightarrow> LogicalMessageSpan list \<Rightarrow> LogicalMessageSpan list" where
  "renumber nextOrd ss = map (\<lambda>(i, s). s\<lparr>ms_Ordinal := nextOrd + int i\<rparr>) (enumerate 0 ss)"

text \<open>
  The scan of the tail starts its offsets at zero, whatever position the file was sought to. \<open>file\<close> is what this call opens,
  \<open>again\<close> what \<^verbatim>\<open>Build\<close> opens when it falls back to that.
\<close>

definition Refresh ::
  "json_lib \<Rightarrow> (bytes \<Rightarrow> bytes) \<Rightarrow> string \<Rightarrow> file_view option \<Rightarrow> file_view option \<Rightarrow> PageIndex option \<Rightarrow> (index_error + PageIndex)" where
  "Refresh J sha gid file again index =
     (case index of
        None \<Rightarrow> Inl IndexNil
      | Some idx \<Rightarrow>
          (let rebuild = Build J sha gid again (ix_Backend idx) (ix_FilePath idx)
           in if ix_ExtractorRevision idx \<noteq> extractorRevision (ix_Backend idx) then rebuild
              else case file of
                None \<Rightarrow> Inl IndexIO
              | Some f \<Rightarrow>
                  (if \<not> sameIdentity idx f then rebuild
                   else if fv_Size f < ix_ParseOffset idx then rebuild
                   else if fv_Size f = ix_ParseOffset idx \<and> fileFingerprint f = ix_Fingerprint idx then Inr idx
                   else case verifyAnchorAt sha f idx of
                     None \<Rightarrow> Inl IndexIO
                   | Some False \<Rightarrow> rebuild
                   | Some True \<Rightarrow>
                       (let replayFrom = refreshReplayStart (ix_Spans idx);
                            kept = keepSpansBefore (ix_Spans idx) replayFrom
                        in if replayFrom < 0 then Inl IndexIO
                           else case scan_spans J (ix_Backend idx) (fv_Failed f) (drop (nat replayFrom) (fv_Data f)) of
                             Inl e \<Rightarrow> Inl e
                           | Inr rebuilt \<Rightarrow>
                               (let nextOrd = (if kept = [] then 0 else ms_Ordinal (last kept) + 1);
                                    rebuilt = renumber nextOrd rebuilt
                                in case appendChildGeneration sha gid f idx (fv_Size f) of
                                     None \<Rightarrow> Inl IndexIO
                                   | Some (gen, anchor, lineage) \<Rightarrow>
                                       Inr (idx\<lparr>ix_Fingerprint := fileFingerprint f, ix_ParseOffset := fv_Size f, ix_FileDevice := fv_Device f,
                                            ix_FileInode := fv_Inode f, ix_Spans := kept @ rebuilt, ix_PrefixGeneration := gen,
                                            ix_Anchor := anchor, ix_GenerationLineage := lineage\<rparr>))))))"


section \<open>Choosing a page\<close>

definition LastN :: "LogicalMessageSpan list \<Rightarrow> int \<Rightarrow> LogicalMessageSpan list" where
  "LastN spans n =
     (if n \<le> 0 \<or> spans = [] then []
      else let n = (if n > int (length spans) then length spans else nat n) in drop (length spans - n) spans)"

text \<open>\<^verbatim>\<open>sort.Search\<close>: binary search for the first index at which the predicate holds.\<close>

function sort_Search :: "(nat \<Rightarrow> bool) \<Rightarrow> nat \<Rightarrow> nat \<Rightarrow> nat" where
  "sort_Search f i j =
     (if i < j then let h = (i + j) div 2 in if \<not> f h then sort_Search f (h + 1) j else sort_Search f i h else i)"
  by pat_completeness auto

termination
  by (relation "measure (\<lambda>(f, i, j). j - i)") auto

declare sort_Search.simps [simp del]

definition PageBefore :: "LogicalMessageSpan list \<Rightarrow> int \<Rightarrow> int \<Rightarrow> LogicalMessageSpan list" where
  "PageBefore spans beforeOrdinal count =
     (if count \<le> 0 \<or> spans = [] then []
      else let stop = sort_Search (\<lambda>i. ms_Ordinal (spans ! i) \<ge> beforeOrdinal) 0 (length spans);
               start = (if int stop - count < 0 then 0 else stop - nat count)
        in if start \<ge> stop then [] else take (stop - start) (drop start spans))"


section \<open>The byte range of a page\<close>

definition union_step :: "LogicalMessageSpan \<Rightarrow> (int \<times> int) \<times> bool \<Rightarrow> (int \<times> int) \<times> bool" where
  "union_step s p = (case p of ((lo, hi), moved) \<Rightarrow>
     (if ms_EndOffset s \<le> lo \<or> ms_ReplayStart s \<ge> hi then p
      else let (lo, moved) = (if ms_ReplayStart s < lo then (ms_ReplayStart s, True) else (lo, moved));
               (hi, moved) = (if ms_EndOffset s > hi then (ms_EndOffset s, True) else (hi, moved))
        in ((lo, hi), moved)))"

definition union_pass :: "LogicalMessageSpan list \<Rightarrow> int \<times> int \<Rightarrow> (int \<times> int) \<times> bool" where
  "union_pass spans r = fold union_step spans (r, False)"

text \<open>What a pass may do to the range: nothing when every overlapping span is inside, else widen it to ends of spans.\<close>

definition widens :: "LogicalMessageSpan set \<Rightarrow> int \<times> int \<Rightarrow> int \<times> int \<Rightarrow> bool" where
  "widens S r r' \<longleftrightarrow> fst r' \<le> fst r \<and> snd r \<le> snd r' \<and> fst r' \<in> insert (fst r) (ms_ReplayStart ` S) \<and> snd r' \<in> insert (snd r) (ms_EndOffset ` S)"

definition closed_range :: "LogicalMessageSpan set \<Rightarrow> int \<times> int \<Rightarrow> bool" where
  "closed_range S r \<longleftrightarrow> (\<forall>s \<in> S. ms_EndOffset s \<le> fst r \<or> ms_ReplayStart s \<ge> snd r \<or> (fst r \<le> ms_ReplayStart s \<and> ms_EndOffset s \<le> snd r))"

lemma union_step_cases:
  obtains (Inside) "ms_EndOffset s \<le> fst r \<or> ms_ReplayStart s \<ge> snd r \<or> (fst r \<le> ms_ReplayStart s \<and> ms_EndOffset s \<le> snd r)"
      "union_step s (r, m) = (r, m)"
  | (Moved) r' where "widens {s} r r'" "r' \<noteq> r" "union_step s (r, m) = (r', True)"
  by (cases r; cases "ms_EndOffset s \<le> fst r \<or> ms_ReplayStart s \<ge> snd r"; cases "ms_ReplayStart s < fst r"; cases "ms_EndOffset s > snd r")
     (auto simp: union_step_def Let_def widens_def)

lemma widens_trans: "widens S r r' \<Longrightarrow> widens S' r' r'' \<Longrightarrow> widens (S \<union> S') r r''"
  by (auto simp: widens_def)

lemma widens_refl: "widens S r r"
  by (simp add: widens_def)

lemma fold_union_widens: "\<exists>r' m'. fold union_step ss (r, m) = (r', m') \<and> widens (set ss) r r' \<and> (m \<longrightarrow> m')"
proof (induction ss arbitrary: r m)
  case (Cons s ss)
  show ?case
  proof (cases rule: union_step_cases[where s = s and r = r and m = m])
    case Inside
    obtain r' m' where "fold union_step ss (r, m) = (r', m')" "widens (set ss) r r'" "m \<longrightarrow> m'" using Cons.IH[of r m] by blast
    then show ?thesis using Inside widens_trans[OF widens_refl[of "{s}"], of "set ss" r r'] by auto
  next
    case (Moved r1)
    obtain r' m' where "fold union_step ss (r1, True) = (r', m')" "widens (set ss) r1 r'" m' using Cons.IH[of r1 True] by blast
    then show ?thesis using Moved widens_trans[of "{s}" r r1 "set ss" r'] by auto
  qed
qed (simp add: widens_refl)

lemma widens_eq: "widens S r r' \<Longrightarrow> widens S' r' r \<Longrightarrow> r' = r"
  by (auto simp: widens_def prod_eq_iff)

lemma union_pass_result:
  assumes "union_pass spans r = (r', moved)"
  shows "widens (set spans) r r' \<and> (if moved then r' \<noteq> r else r' = r \<and> closed_range (set spans) r)"
proof -
  have "case fold union_step ss (r, False) of (r', moved) \<Rightarrow> (if moved then r' \<noteq> r else r' = r \<and> closed_range (set ss) r)" for ss
  proof (induction ss)
    case (Cons s ss)
    show ?case
    proof (cases rule: union_step_cases[where s = s and r = r and m = False])
      case Inside then show ?thesis using Cons by (auto simp: closed_range_def split: prod.splits if_splits)
    next
      case (Moved r1)
      obtain r2 m2 where "fold union_step ss (r1, True) = (r2, m2)" "widens (set ss) r1 r2" m2 using fold_union_widens[of ss r1 True] by auto
      moreover from this have "r2 \<noteq> r" using Moved(1,2) by (auto simp: widens_def prod_eq_iff)
      ultimately show ?thesis by (simp add: Moved)
    qed
  qed (simp add: closed_range_def)
  from this[of spans] show ?thesis using assms fold_union_widens[of spans r False] by (auto simp: union_pass_def)
qed

function union_fix :: "LogicalMessageSpan list \<Rightarrow> int \<times> int \<Rightarrow> int \<times> int" where
  "union_fix spans r = (let (r', moved) = union_pass spans r in if moved then union_fix spans r' else r')"
  by pat_completeness auto

text \<open>Each turn that moves takes in the start or the end of a span that lay outside.\<close>

termination
proof (relation "measure (\<lambda>(spans, r). length (filter (\<lambda>s. ms_ReplayStart s < fst r) spans) + length (filter (\<lambda>s. ms_EndOffset s > snd r) spans))")
  fix spans r z r' moved
  assume "z = union_pass spans r" "(r', moved) = z" "moved"
  then have w: "widens (set spans) r r'" "r' \<noteq> r" using union_pass_result[of spans r r' moved] by auto
  have lo: "length (filter (\<lambda>s. ms_ReplayStart s < fst r') spans) \<le> length (filter (\<lambda>s. ms_ReplayStart s < fst r) spans)"
    and hi: "length (filter (\<lambda>s. ms_EndOffset s > snd r') spans) \<le> length (filter (\<lambda>s. ms_EndOffset s > snd r) spans)"
    using w(1) by (auto simp: widens_def length_filter_conv_card intro!: card_mono)
  from w consider s where "s \<in> set spans" "fst r' = ms_ReplayStart s" "fst r' < fst r"
    | s where "s \<in> set spans" "snd r' = ms_EndOffset s" "snd r < snd r'"
    by (auto simp: widens_def prod_eq_iff)
  then show "((spans, r'), spans, r) \<in> measure (\<lambda>(spans, r). length (filter (\<lambda>s. ms_ReplayStart s < fst r) spans) + length (filter (\<lambda>s. ms_EndOffset s > snd r) spans))"
  proof cases
    case (1 s)
    then show ?thesis using hi filter_less_length[of s spans "\<lambda>s. ms_ReplayStart s < fst r" "\<lambda>s. ms_ReplayStart s < fst r'"] by simp
  next
    case (2 s)
    then show ?thesis using lo filter_less_length[of s spans "\<lambda>s. ms_EndOffset s > snd r" "\<lambda>s. ms_EndOffset s > snd r'"] by simp
  qed
qed simp

declare union_fix.simps [simp del]

definition spanByteUnion :: "LogicalMessageSpan list \<Rightarrow> LogicalMessageSpan list \<Rightarrow> ByteRange" where
  "spanByteUnion allSpans page =
     (if page = [] then \<lparr>br_Start = 0, br_End = 0\<rparr>
      else let (lo, hi) = fold (\<lambda>s (lo, hi). (if ms_ReplayStart s < lo then ms_ReplayStart s else lo, if ms_EndOffset s > hi then ms_EndOffset s else hi))
                 (tl page) (ms_ReplayStart (hd page), ms_EndOffset (hd page));
               (lo, hi) = union_fix allSpans (lo, hi)
        in \<lparr>br_Start = lo, br_End = hi\<rparr>)"

definition ByteUnionFor :: "PageIndex \<Rightarrow> LogicalMessageSpan list \<Rightarrow> ByteRange" where
  "ByteUnionFor idx page = spanByteUnion (ix_Spans idx) page"

text \<open>\<open>replayer\<close> is the content builder of a backend: it reads the range of the file and yields the messages it finds there.\<close>

definition Replay ::
  "PageIndex \<Rightarrow> LogicalMessageSpan list \<Rightarrow> (string \<Rightarrow> ByteRange \<Rightarrow> 'e list option) option \<Rightarrow> (index_error + 'e list)" where
  "Replay idx page replayer =
     (case replayer of
        None \<Rightarrow> Inl NoReplayer
      | Some rp \<Rightarrow>
          (if page = [] then Inr []
           else case rp (ix_FilePath idx) (ByteUnionFor idx page) of
             None \<Rightarrow> Inl ReplayerFailed
           | Some entries \<Rightarrow>
               (case spanAtOffset idx (br_Start (ByteUnionFor idx page)) of
                  None \<Rightarrow> Inl NotABoundary
                | Some first \<Rightarrow>
                    (let want = ms_Ordinal ` set page;
                         out = map snd (filter (\<lambda>(i, e). ms_Ordinal first + int i \<in> want) (enumerate 0 entries))
                     in if length out \<noteq> length page then Inl ReplayMismatch else Inr out))))"


section \<open>Cursors and the stored index\<close>

definition cursorVersion :: int where "cursorVersion = 1"

record MessageCursor =
  mc_Version :: int
  mc_SessionID :: string
  mc_Ordinal :: int
  mc_Generation :: string

datatype cursor_error = NoSession | CursorEncoding | MalformedCursor | CursorVersion | CursorSession

definition EncodeMessageCursor :: "(MessageCursor \<Rightarrow> bytes option) \<Rightarrow> MessageCursor \<Rightarrow> (cursor_error + string)" where
  "EncodeMessageCursor enc c =
     (if mc_SessionID c = [] then Inl NoSession
      else case enc (c\<lparr>mc_Version := cursorVersion\<rparr>) of None \<Rightarrow> Inl CursorEncoding | Some data \<Rightarrow> Inr (b64url_encode data))"

definition DecodeMessageCursor :: "(bytes \<Rightarrow> MessageCursor option) \<Rightarrow> string \<Rightarrow> string \<Rightarrow> (cursor_error + MessageCursor)" where
  "DecodeMessageCursor dec s sessionID =
     (case b64url_decode s of
        None \<Rightarrow> Inl MalformedCursor
      | Some data \<Rightarrow>
          (case dec data of
             None \<Rightarrow> Inl MalformedCursor
           | Some c \<Rightarrow>
               (if mc_Version c \<noteq> cursorVersion then Inl CursorVersion
                else if sessionID \<noteq> [] \<and> mc_SessionID c \<noteq> sessionID then Inl CursorSession
                else Inr c)))"

definition IsCursorStale :: "PageIndex option \<Rightarrow> MessageCursor \<Rightarrow> bool" where
  "IsCursorStale idx c = (case idx of None \<Rightarrow> True | Some idx \<Rightarrow> mc_Generation c \<notin> set (map pg_ID (ix_GenerationLineage idx)))"

text \<open>\<^verbatim>\<open>Load\<close> on what reading the index file gives: \<open>None\<close> is a read error, \<open>Some None\<close> no such file.\<close>

definition LoadIndex :: "(bytes \<Rightarrow> PageIndex option) \<Rightarrow> bytes option option \<Rightarrow> Backend \<Rightarrow> (index_error + PageIndex option)" where
  "LoadIndex dec disk backend =
     (case disk of
        None \<Rightarrow> Inl IndexIO
      | Some None \<Rightarrow> Inr None
      | Some (Some data) \<Rightarrow>
          (case dec data of
             None \<Rightarrow> Inr None
           | Some idx \<Rightarrow>
               (if ix_Version idx \<noteq> IndexVersion \<or> ix_Backend idx \<noteq> backend \<or> ix_ExtractorRevision idx \<noteq> extractorRevision backend then Inr None
                else if \<not> validateLineage (ix_GenerationLineage idx) then Inr None
                else Inr (Some idx))))"

end
