(* ===== verification/Index_Props.thy ===== *)
theory Index_Props
  imports Transcript_Index
begin

text \<open>
  What the page index guarantees: the loops that widen a range end with the least one closed under overlap, a page is the messages before
  its cursor, the replay of a page yields the contents of exactly its messages, the chain of generations stays bounded and well-formed, and
  how the spans of a refreshed index relate to those of a freshly built one.
\<close>

section \<open>The range of a page\<close>

lemma union_fix_spec:
  "widens (set spans) r (union_fix spans r) \<and> closed_range (set spans) (union_fix spans r)"
proof (induction spans r rule: union_fix.induct)
  case (1 spans r)
  obtain r' moved where p: "union_pass spans r = (r', moved)" by (cases "union_pass spans r")
  note res = union_pass_result[OF p]
  show ?case
  proof (cases moved)
    case True
    have "widens (set spans) r' (union_fix spans r')" "closed_range (set spans) (union_fix spans r')"
      using 1[OF p[symmetric] refl True] by simp_all
    then show ?thesis
      using res widens_trans[of "set spans" r r' "set spans"] by (subst (1 2) union_fix.simps) (simp add: p True)
  next
    case False then show ?thesis using res by (subst (1 2) union_fix.simps) (simp add: p widens_refl)
  qed
qed

definition within :: "int \<times> int \<Rightarrow> int \<times> int \<Rightarrow> bool" where
  "within r q \<longleftrightarrow> fst q \<le> fst r \<and> snd r \<le> snd q"

lemma union_step_within:
  assumes "closed_range S q" and "s \<in> S" and "within r q"
  shows "within (fst (union_step s (r, m))) q"
  using assms by (cases r; cases q) (auto simp: closed_range_def within_def union_step_def Let_def)

lemma fold_union_within: "set ss \<subseteq> S \<Longrightarrow> closed_range S q \<Longrightarrow> within (fst p) q \<Longrightarrow> within (fst (fold union_step ss p)) q"
proof (induction ss arbitrary: p)
  case (Cons s ss)
  then show ?case using union_step_within[of S q s "fst p" "snd p"] by simp
qed simp

lemma union_pass_within: "closed_range (set spans) q \<Longrightarrow> within r q \<Longrightarrow> within (fst (union_pass spans r)) q"
  unfolding union_pass_def by (rule fold_union_within[OF order_refl]) simp_all

lemma union_fix_least: "closed_range (set spans) q \<Longrightarrow> within r q \<Longrightarrow> within (union_fix spans r) q"
proof (induction spans r rule: union_fix.induct)
  case (1 spans r)
  obtain r' moved where p: "union_pass spans r = (r', moved)" by (cases "union_pass spans r")
  have w: "within r' q" using union_pass_within[OF 1(2,3)] by (simp add: p)
  show ?case
    using 1(1)[OF p[symmetric] refl _ 1(2) w] w by (subst union_fix.simps) (simp add: p)
qed

text \<open>The bounds of the page itself.\<close>

definition page_bounds :: "LogicalMessageSpan list \<Rightarrow> int \<times> int" where
  "page_bounds page = fold (\<lambda>s (lo, hi). (if ms_ReplayStart s < lo then ms_ReplayStart s else lo, if ms_EndOffset s > hi then ms_EndOffset s else hi))
     (tl page) (ms_ReplayStart (hd page), ms_EndOffset (hd page))"

lemma fold_min_max:
  fixes f g :: "'a \<Rightarrow> int"
  shows "fold (\<lambda>s (lo, hi). (min (f s) lo, max (g s) hi)) ss (lo, hi) = (Min (insert lo (f ` set ss)), Max (insert hi (g ` set ss)))"
proof (induction ss arbitrary: lo hi)
  case (Cons s ss)
  have "Min (insert (min x y) A) = Min (insert y (insert x A))" "Max (insert (max x y) A) = Max (insert y (insert x A))"
    if "finite A" for x y :: int and A
    using that by (cases "A = {}"; simp add: min.assoc min.left_commute min.commute max.assoc max.left_commute max.commute)+
  then show ?case by (simp only: fold_simps comp_apply prod.case Cons.IH) simp
qed simp

lemma page_bounds_min_max:
  "page_bounds page = fold (\<lambda>s (lo, hi). (min (ms_ReplayStart s) lo, max (ms_EndOffset s) hi)) (tl page) (ms_ReplayStart (hd page), ms_EndOffset (hd page))"
proof -
  have "(\<lambda>(s :: LogicalMessageSpan) (lo, hi). (if ms_ReplayStart s < lo then ms_ReplayStart s else lo, if ms_EndOffset s > hi then ms_EndOffset s else hi))
      = (\<lambda>s (lo, hi). (min (ms_ReplayStart s) lo, max (ms_EndOffset s) hi))"
    by (auto simp: fun_eq_iff min_def max_def)
  then show ?thesis unfolding page_bounds_def by simp
qed

lemma page_bounds_eq: "page \<noteq> [] \<Longrightarrow> page_bounds page = (Min (ms_ReplayStart ` set page), Max (ms_EndOffset ` set page))"
  unfolding page_bounds_min_max fold_min_max by (cases page) simp_all

lemma spanByteUnion_eq:
  "page \<noteq> [] \<Longrightarrow> spanByteUnion spans page = \<lparr>br_Start = fst (union_fix spans (page_bounds page)), br_End = snd (union_fix spans (page_bounds page))\<rparr>"
  by (simp add: spanByteUnion_def page_bounds_def[symmetric] split_beta)

lemma byte_union_spec:
  assumes "page \<noteq> []" and "set page \<subseteq> set spans"
  shows "let lo = br_Start (spanByteUnion spans page); hi = br_End (spanByteUnion spans page)
         in (\<forall>s \<in> set page. lo \<le> ms_ReplayStart s \<and> ms_EndOffset s \<le> hi)
            \<and> (\<forall>s \<in> set spans. ms_EndOffset s \<le> lo \<or> hi \<le> ms_ReplayStart s \<or> (lo \<le> ms_ReplayStart s \<and> ms_EndOffset s \<le> hi))
            \<and> (\<exists>s \<in> set spans. ms_ReplayStart s = lo) \<and> (\<exists>s \<in> set spans. ms_EndOffset s = hi)
            \<and> (\<forall>lo' hi'. closed_range (set spans) (lo', hi') \<and> (\<forall>s \<in> set page. lo' \<le> ms_ReplayStart s \<and> ms_EndOffset s \<le> hi') \<longrightarrow> lo' \<le> lo \<and> hi \<le> hi')"
proof -
  define r where "r = union_fix spans (page_bounds page)"
  have b: "page_bounds page = (Min (ms_ReplayStart ` set page), Max (ms_EndOffset ` set page))" by (rule page_bounds_eq[OF assms(1)])
  have w: "widens (set spans) (page_bounds page) r" and c: "closed_range (set spans) r" using union_fix_spec by (simp_all add: r_def)
  have lo: "fst (page_bounds page) \<in> ms_ReplayStart ` set page" and hi: "snd (page_bounds page) \<in> ms_EndOffset ` set page"
    unfolding b fst_conv snd_conv using assms(1) by (intro Min_in Max_in; simp)+
  have inside: "fst (page_bounds page) \<le> ms_ReplayStart s \<and> ms_EndOffset s \<le> snd (page_bounds page)" if "s \<in> set page" for s
    unfolding b using that by simp
  have "\<forall>s \<in> set page. fst r \<le> ms_ReplayStart s \<and> ms_EndOffset s \<le> snd r"
    using w inside unfolding widens_def by fastforce
  moreover have "fst r \<in> ms_ReplayStart ` set spans" "snd r \<in> ms_EndOffset ` set spans"
    using w lo hi assms(2) unfolding widens_def by auto
  moreover have "lo' \<le> fst r \<and> snd r \<le> hi'"
    if "closed_range (set spans) (lo', hi')" "\<forall>s \<in> set page. lo' \<le> ms_ReplayStart s \<and> ms_EndOffset s \<le> hi'" for lo' hi'
  proof -
    have "within (page_bounds page) (lo', hi')" using that(2) lo hi by (auto simp: within_def)
    then show ?thesis using union_fix_least[OF that(1)] by (auto simp: within_def r_def)
  qed
  ultimately show ?thesis
    using c unfolding spanByteUnion_eq[OF assms(1)] r_def[symmetric] closed_range_def Let_def by (auto simp: image_iff)
qed

text \<open>
  C26. The byte range of a page: the loop that widens it ends, with a range that contains every message of the page, that every message of
  the transcript lies inside of or outside of, that starts where a message starts, and that is contained in every other such range.
\<close>

theorem byte_union_least:
  assumes "page \<noteq> []" and "set page \<subseteq> set spans"
  shows "let lo = br_Start (spanByteUnion spans page); hi = br_End (spanByteUnion spans page)
         in (\<forall>s \<in> set page. lo \<le> ms_ReplayStart s \<and> ms_EndOffset s \<le> hi)
            \<and> (\<forall>s \<in> set spans. ms_EndOffset s \<le> lo \<or> hi \<le> ms_ReplayStart s \<or> (lo \<le> ms_ReplayStart s \<and> ms_EndOffset s \<le> hi))
            \<and> (\<exists>s \<in> set spans. ms_ReplayStart s = lo) \<and> (\<exists>s \<in> set spans. ms_EndOffset s = hi)
            \<and> (\<forall>lo' hi'. closed_range (set spans) (lo', hi') \<and> (\<forall>s \<in> set page. lo' \<le> ms_ReplayStart s \<and> ms_EndOffset s \<le> hi') \<longrightarrow> lo' \<le> lo \<and> hi \<le> hi')"
  by (rule byte_union_spec[OF assms])


section \<open>Choosing a page\<close>

lemma sort_Search_spec:
  assumes "i \<le> j" and "\<And>h k. h \<le> k \<Longrightarrow> k < j \<Longrightarrow> f h \<Longrightarrow> f k"
  shows "i \<le> sort_Search f i j \<and> sort_Search f i j \<le> j \<and> (\<forall>k. i \<le> k \<longrightarrow> k < sort_Search f i j \<longrightarrow> \<not> f k) \<and>
         (\<forall>k. sort_Search f i j \<le> k \<longrightarrow> k < j \<longrightarrow> f k)"
  using assms
proof (induction f i j rule: sort_Search.induct)
  case (1 f i j)
  define h where "h = (i + j) div 2"
  show ?case
  proof (cases "i < j")
    case True
    then have h: "i \<le> h" "h < j" by (auto simp: h_def)
    show ?thesis
    proof (cases "f h")
      case False
      define S where "S = sort_Search f (h + 1) j"
      have e: "sort_Search f i j = S" using True False by (subst sort_Search.simps) (simp add: Let_def S_def flip: h_def)
      have IH: "h + 1 \<le> S" "S \<le> j" "\<And>k. h + 1 \<le> k \<Longrightarrow> k < S \<Longrightarrow> \<not> f k" "\<And>k. S \<le> k \<Longrightarrow> k < j \<Longrightarrow> f k"
        using 1(1)[OF True h_def False _ 1(4)] h unfolding S_def by simp_all
      have "\<not> f k" if "i \<le> k" "k < S" for k
        using IH(3)[of k] that False 1(4)[of k h] h by (cases "k \<le> h") auto
      then show ?thesis unfolding e using IH h by auto
    next
      case f: True
      define S where "S = sort_Search f i h"
      have e: "sort_Search f i j = S" using True f by (subst sort_Search.simps) (simp add: Let_def S_def flip: h_def)
      have mono: "f b" if "a \<le> b" "b < h" "f a" for a b using 1(4)[of a b] that h by simp
      have IH: "i \<le> S" "S \<le> h" "\<And>k. i \<le> k \<Longrightarrow> k < S \<Longrightarrow> \<not> f k" "\<And>k. S \<le> k \<Longrightarrow> k < h \<Longrightarrow> f k"
        using 1(2)[OF True h_def _ h(1) mono] f unfolding S_def by simp_all
      have "f k" if "S \<le> k" "k < j" for k
        using IH(4)[of k] that f 1(4)[of h k] by (cases "k < h") auto
      then show ?thesis unfolding e using IH h by auto
    qed
  next
    case False
    then have "sort_Search f i j = i" by (subst sort_Search.simps) simp
    then show ?thesis using 1(3) False by simp
  qed
qed

lemma ordinal_nth: "spans_ok l b ss \<Longrightarrow> i < length ss \<Longrightarrow> ms_Ordinal (ss ! i) = int i"
proof -
  assume "spans_ok l b ss" and i: "i < length ss"
  then have "map ms_Ordinal ss ! i = map int [0..<length ss] ! i" by (simp add: spans_ok_def)
  then show ?thesis using i by simp
qed

lemma search_ordinal:
  assumes "spans_ok l b ss"
  shows "sort_Search (\<lambda>i. ms_Ordinal (ss ! i) \<ge> o') 0 (length ss) = min (length ss) (nat o')"
proof -
  let ?f = "\<lambda>i. ms_Ordinal (ss ! i) \<ge> o'"
  define k where "k = sort_Search ?f 0 (length ss)"
  have f: "?f i \<longleftrightarrow> o' \<le> int i" if "i < length ss" for i using ordinal_nth[OF assms that] by simp
  have "0 \<le> k \<and> k \<le> length ss \<and> (\<forall>h. 0 \<le> h \<longrightarrow> h < k \<longrightarrow> \<not> ?f h) \<and> (\<forall>h. k \<le> h \<longrightarrow> h < length ss \<longrightarrow> ?f h)"
    unfolding k_def
  proof (rule sort_Search_spec)
    fix h i assume "h \<le> i" "i < length ss" "?f h"
    then show "?f i" using f[of h] f[of i] by simp
  qed simp
  then have spec: "k \<le> length ss" "\<And>h. h < k \<Longrightarrow> \<not> ?f h" "\<And>h. k \<le> h \<Longrightarrow> h < length ss \<Longrightarrow> ?f h" by blast+
  have "k = min (length ss) (nat o')"
  proof (rule antisym)
    show "k \<le> min (length ss) (nat o')"
    proof (rule ccontr)
      assume "\<not> ?thesis"
      then have "nat o' < k" using spec(1) by auto
      then have "\<not> ?f (nat o')" "nat o' < length ss" using spec(1,2) by auto
      then show False using f[of "nat o'"] by (simp split: if_splits)
    qed
    show "min (length ss) (nat o') \<le> k"
    proof (rule ccontr)
      assume "\<not> ?thesis"
      then have "k < length ss" "k < nat o'" by auto
      then show False using spec(3)[of k] f[of k] by simp
    qed
  qed
  then show ?thesis by (simp add: k_def)
qed

definition page_of :: "int \<Rightarrow> int \<Rightarrow> LogicalMessageSpan list \<Rightarrow> LogicalMessageSpan list" where
  "page_of before count ss = (let k = min (length ss) (nat before) in drop (k - nat count) (take k ss))"

lemma page_before_spec:
  assumes "spans_ok l b ss"
  shows "PageBefore ss before count = page_of before count ss \<and>
         PageBefore ss before count = (let below = filter (\<lambda>s. ms_Ordinal s < before) ss in drop (length below - nat count) below)"
proof -
  define k where "k = min (length ss) (nat before)"
  have s: "sort_Search (\<lambda>i. before \<le> ms_Ordinal (ss ! i)) 0 (length ss) = k" unfolding k_def by (rule search_ordinal[OF assms])
  have "PageBefore ss before count = drop (k - nat count) (take k ss)"
  proof (cases "count \<le> 0 \<or> ss = []")
    case False
    then have "(if int k - count < 0 then 0 else k - nat count) = k - nat count" by auto
    then show ?thesis using False by (auto simp: PageBefore_def s Let_def drop_take)
  qed (auto simp: PageBefore_def k_def)
  moreover have "filter (\<lambda>s. ms_Ordinal s < before) ss = take k ss"
  proof -
    have t: "\<forall>x \<in> set (take k ss). ms_Ordinal x < before"
    proof
      fix x assume "x \<in> set (take k ss)"
      then obtain i where "i < k" "i < length ss" "x = ss ! i" by (auto simp: in_set_conv_nth k_def)
      then show "ms_Ordinal x < before" using ordinal_nth[OF assms, of i] by (simp add: k_def)
    qed
    have d: "\<forall>x \<in> set (drop k ss). \<not> ms_Ordinal x < before"
    proof
      fix x assume "x \<in> set (drop k ss)"
      then obtain i where "i < length (drop k ss)" "x = drop k ss ! i" by (auto simp: in_set_conv_nth)
      then have "k + i < length ss" "x = ss ! (k + i)" by simp_all
      then show "\<not> ms_Ordinal x < before" using ordinal_nth[OF assms, of "k + i"] by (auto simp: k_def min_def split: if_splits)
    qed
    have "filter (\<lambda>s. ms_Ordinal s < before) (take k ss @ drop k ss) = take k ss"
      using t d by (simp only: filter_append filter_True filter_False append_Nil2)
    then show ?thesis by simp
  qed
  ultimately show ?thesis by (simp add: page_of_def Let_def flip: k_def) (simp add: k_def)
qed

text \<open>
  A page before a cursor is exactly the messages numbered below the cursor, the latest \<open>count\<close> of them, in order: the binary search and
  the slice bounds agree with the plain description for every cursor, also a negative one or one past the end.
\<close>

theorem page_before_exact:
  assumes "spans_ok l b ss"
  shows "PageBefore ss before count = page_of before count ss \<and>
         PageBefore ss before count = (let below = filter (\<lambda>s. ms_Ordinal s < before) ss in drop (length below - nat count) below)"
  by (rule page_before_spec[OF assms])

lemmas PageBefore_page_of = page_before_spec[THEN conjunct1]

lemma LastN_page_of: "LastN ss n = page_of (int (length ss)) n ss"
  by (auto simp: LastN_def page_of_def Let_def)


section \<open>Replaying a page\<close>

text \<open>
  The contract of a content builder, as the comment of \<^verbatim>\<open>ContentReplayer\<close> states it: on a range from the start of one message to the
  end of one, which cuts none, it yields the contents of the messages that lie in it, in file order.
\<close>

definition replayer_ok :: "PageIndex \<Rightarrow> (LogicalMessageSpan \<Rightarrow> 'e) \<Rightarrow> (string \<Rightarrow> ByteRange \<Rightarrow> 'e list option) \<Rightarrow> bool" where
  "replayer_ok idx content rp \<longleftrightarrow> (\<forall>r.
     closed_range (set (ix_Spans idx)) (br_Start r, br_End r) \<and> (\<exists>s \<in> set (ix_Spans idx). ms_ReplayStart s = br_Start r) \<and>
     (\<exists>s \<in> set (ix_Spans idx). ms_EndOffset s = br_End r) \<longrightarrow>
     rp (ix_FilePath idx) r = Some (map content (filter (\<lambda>s. br_Start r \<le> ms_ReplayStart s \<and> ms_EndOffset s \<le> br_End r) (ix_Spans idx))))"

text \<open>Sorted starts make the messages inside a closed range an interval of the list.\<close>

lemma sorted_starts_nth: "spans_ok l b ss \<Longrightarrow> i \<le> j \<Longrightarrow> j < length ss \<Longrightarrow> ms_ReplayStart (ss ! i) \<le> ms_ReplayStart (ss ! j)"
  using sorted_nth_mono[of "map ms_ReplayStart ss" i j] by (simp add: spans_ok_def)

lemma filter_interval:
  assumes "\<And>i. i < length xs \<Longrightarrow> P (xs ! i) \<longleftrightarrow> a \<le> i \<and> i < c" and "a \<le> c" "c \<le> length xs"
  shows "filter P xs = drop a (take c xs)"
proof -
  have x: "xs = take a xs @ drop a (take c xs) @ drop c xs"
    using assms(2) by (metis append.assoc append_take_drop_id min.absorb1 take_take)
  have "\<forall>x \<in> set (take a xs). \<not> P x" "\<forall>x \<in> set (drop a (take c xs)). P x" "\<forall>x \<in> set (drop c xs). \<not> P x"
    using assms by (fastforce simp: in_set_conv_nth)+
  then have "filter P (take a xs @ drop a (take c xs) @ drop c xs) = drop a (take c xs)"
    by (simp only: filter_append filter_True filter_False append_Nil append_Nil2)
  then show ?thesis using x by metis
qed

lemma closed_interval:
  assumes "spans_ok l b ss" and "closed_range (set ss) (lo, hi)" and "i < length ss" "ms_ReplayStart (ss ! i) = lo"
    "\<And>j. j < i \<Longrightarrow> ms_ReplayStart (ss ! j) \<noteq> lo" "lo < hi"
  obtains c where "i \<le> c" "c \<le> length ss"
    "\<And>j. j < length ss \<Longrightarrow> (lo \<le> ms_ReplayStart (ss ! j) \<and> ms_EndOffset (ss ! j) \<le> hi) \<longleftrightarrow> i \<le> j \<and> j < c"
proof -
  define c where "c = length (takeWhile (\<lambda>s. ms_ReplayStart s < hi) ss)"
  have c: "j < c \<longleftrightarrow> ms_ReplayStart (ss ! j) < hi" if j: "j < length ss" for j
  proof
    assume "j < c" then show "ms_ReplayStart (ss ! j) < hi"
      unfolding c_def using set_takeWhileD[OF nth_mem, of j] by (metis takeWhile_nth)
  next
    assume less: "ms_ReplayStart (ss ! j) < hi"
    show "j < c"
    proof (rule ccontr)
      assume n: "\<not> j < c"
      then have "c < length ss" using j by simp
      then have "\<not> ms_ReplayStart (ss ! c) < hi" unfolding c_def by (rule nth_length_takeWhile)
      then show False using sorted_starts_nth[OF assms(1), of c j] n j less by simp
    qed
  qed
  have ends: "ms_ReplayStart (ss ! j) < ms_EndOffset (ss ! j)" if "j < length ss" for j
    using assms(1) nth_mem[OF that] by (auto simp: spans_ok_def)
  show thesis
  proof (rule that[of c])
    show "i \<le> c" using c[OF assms(3)] assms(4,6) by simp
    show "c \<le> length ss" by (simp add: c_def length_takeWhile_le)
    fix j assume j: "j < length ss"
    have "lo \<le> ms_ReplayStart (ss ! j) \<longleftrightarrow> i \<le> j"
    proof
      assume "lo \<le> ms_ReplayStart (ss ! j)"
      then show "i \<le> j" using assms(3-5) sorted_starts_nth[OF assms(1), of j i] by (metis le_less_linear nat_less_le order_antisym)
    qed (use sorted_starts_nth[OF assms(1) _ j] assms(4) in auto)
    moreover have "ms_EndOffset (ss ! j) \<le> hi \<longleftrightarrow> ms_ReplayStart (ss ! j) < hi" if "lo \<le> ms_ReplayStart (ss ! j)"
      using assms(2) nth_mem[OF j] that ends[OF j] unfolding closed_range_def by fastforce
    ultimately show "(lo \<le> ms_ReplayStart (ss ! j) \<and> ms_EndOffset (ss ! j) \<le> hi) \<longleftrightarrow> i \<le> j \<and> j < c"
      using c[OF j] by blast
  qed
qed

lemma find_first:
  assumes "i < length xs" and "P (xs ! i)"
  obtains j where "j < length xs" "find P xs = Some (xs ! j)" "P (xs ! j)" "\<And>k. k < j \<Longrightarrow> \<not> P (xs ! k)"
proof -
  define j where "j = (LEAST j. P (xs ! j))"
  have j: "P (xs ! j)" unfolding j_def by (rule LeastI) (rule assms(2))
  have least: "\<not> P (xs ! k)" if "k < j" for k using that unfolding j_def by (rule not_less_Least)
  have len: "j < length xs" using Least_le[of "\<lambda>j. P (xs ! j)" i, OF assms(2)] assms(1) unfolding j_def by simp
  have "find P xs = Some (xs ! j)"
    unfolding find_Some_iff by (intro exI[of _ j] conjI allI impI refl len j least)
  then show thesis using that[OF len _ j least] by blast
qed

lemma filter_enumerate_interval:
  assumes "i \<le> a" "a \<le> c" "c \<le> i + length es"
  shows "map snd (filter (\<lambda>(j, e). int i + int j \<in> int ` {a..<c}) (enumerate 0 es)) = drop (a - i) (take (c - i) es)"
proof -
  have "filter (\<lambda>(j, e). int i + int j \<in> int ` {a..<c}) (enumerate 0 es) = drop (a - i) (take (c - i) (enumerate 0 es))"
  proof (rule filter_interval)
    fix k assume k: "k < length (enumerate 0 es)"
    have "int i + int k \<in> int ` {a..<c} \<longleftrightarrow> a \<le> i + k \<and> i + k < c" by (auto simp: image_iff intro!: bexI[of _ "i + k"])
    then show "(case enumerate 0 es ! k of (j, e) \<Rightarrow> int i + int j \<in> int ` {a..<c}) \<longleftrightarrow> a - i \<le> k \<and> k < c - i"
      using k assms by (auto simp: nth_enumerate_eq)
  qed (use assms in auto)
  then show ?thesis by (simp add: drop_map[symmetric] take_map[symmetric])
qed

lemma replay_interval:
  assumes ok: "spans_ok l b (ix_Spans idx)" and rp: "replayer_ok idx content rp" and "a < c" "c \<le> length (ix_Spans idx)"
  shows "Replay idx (drop a (take c (ix_Spans idx))) (Some rp) = Inr (map content (drop a (take c (ix_Spans idx))))"
proof -
  define ss where "ss = ix_Spans idx"
  define page where "page = drop a (take c ss)"
  define lo where "lo = br_Start (spanByteUnion ss page)"
  define hi where "hi = br_End (spanByteUnion ss page)"
  have page: "page \<noteq> []" "set page \<subseteq> set ss" "length page = c - a"
    using assms(3,4) by (auto simp: page_def ss_def dest: in_set_dropD in_set_takeD)
  have nth: "page ! k = ss ! (a + k)" "ss ! (a + k) \<in> set page" if "k < c - a" for k
  proof -
    show "page ! k = ss ! (a + k)" using that assms(4) by (simp add: page_def ss_def)
    then show "ss ! (a + k) \<in> set page" using that page(3) by (metis nth_mem)
  qed
  have u: "\<forall>s \<in> set page. lo \<le> ms_ReplayStart s \<and> ms_EndOffset s \<le> hi" "closed_range (set ss) (lo, hi)" "\<exists>s \<in> set ss. ms_ReplayStart s = lo" "\<exists>s \<in> set ss. ms_EndOffset s = hi"
    using byte_union_spec[OF page(1,2)] unfolding Let_def lo_def[symmetric] hi_def[symmetric] closed_range_def by auto
  obtain i0 where "i0 < length ss" "ms_ReplayStart (ss ! i0) = lo" using u(3) by (auto simp: in_set_conv_nth)
  then obtain i where i: "i < length ss" "find (\<lambda>s. ms_ReplayStart s = lo) ss = Some (ss ! i)" "ms_ReplayStart (ss ! i) = lo"
      "\<And>k. k < i \<Longrightarrow> ms_ReplayStart (ss ! k) \<noteq> lo"
    by (rule find_first[where P = "\<lambda>s. ms_ReplayStart s = lo"]) (rule that, assumption+)
  have a: "ss ! a \<in> set page" "a < length ss" using nth(2)[of 0] assms(3,4) by (simp_all add: ss_def)
  then have "ms_ReplayStart (ss ! a) < ms_EndOffset (ss ! a)" using ok page(2) by (auto simp: spans_ok_def ss_def)
  then have "lo < hi" using u(1) a(1) by force
  from closed_interval[OF ok[folded ss_def] u(2) i(1,3,4) this]
  obtain d where d: "i \<le> d" "d \<le> length ss"
      "\<And>j. j < length ss \<Longrightarrow> (lo \<le> ms_ReplayStart (ss ! j) \<and> ms_EndOffset (ss ! j) \<le> hi) \<longleftrightarrow> i \<le> j \<and> j < d" by blast
  have inside: "i \<le> a + k \<and> a + k < d" if "k < c - a" for k
  proof -
    have "a + k < length ss" using that assms(4) by (simp add: ss_def)
    then show ?thesis using d(3)[of "a + k"] u(1) nth(2)[OF that] by blast
  qed
  have ia: "i \<le> a" using inside[of 0] assms(3) by simp
  have "a + (c - a - 1) = c - 1" "c - a - 1 < c - a" using assms(3) by linarith+
  then have cd: "c \<le> d" using inside[of "c - a - 1"] by linarith
  have entries: "rp (ix_FilePath idx) (ByteUnionFor idx page) = Some (map content (drop i (take d ss)))"
  proof -
    have "rp (ix_FilePath idx) (ByteUnionFor idx page) = Some (map content (filter (\<lambda>s. lo \<le> ms_ReplayStart s \<and> ms_EndOffset s \<le> hi) ss))"
      using rp[unfolded replayer_ok_def, rule_format, of "ByteUnionFor idx page"] u(2-4)
      by (simp add: ByteUnionFor_def flip: ss_def lo_def hi_def)
    then show ?thesis using d(3) filter_interval[of ss "\<lambda>s. lo \<le> ms_ReplayStart s \<and> ms_EndOffset s \<le> hi" i d] d(1,2) by simp
  qed
  have start: "spanAtOffset idx (br_Start (ByteUnionFor idx page)) = Some (ss ! i)"
    using i(2) by (simp add: spanAtOffset_def ByteUnionFor_def lo_def flip: ss_def)
  have ord: "ms_Ordinal (ss ! k) = int k" if "k < length ss" for k using ordinal_nth[OF ok] that by (simp add: ss_def)
  have "ms_Ordinal ` set page = int ` {a..<c}"
  proof -
    have "ms_Ordinal s \<in> int ` {a..<c}" if "s \<in> set page" for s
    proof -
      from that obtain k where "k < length page" "s = page ! k" by (auto simp: in_set_conv_nth)
      then have "k < c - a" "s = ss ! (a + k)" using nth(1)[of k] page(3) by simp_all
      moreover from this have "a + k \<in> {a..<c}" "a + k < length ss" using assms(4) by (auto simp: ss_def)
      ultimately show ?thesis using ord[of "a + k"] by (metis image_eqI)
    qed
    moreover have "int k \<in> ms_Ordinal ` set page" if "a \<le> k" "k < c" for k
    proof -
      have "ss ! k \<in> set page" using nth(2)[of "k - a"] that by simp
      moreover have "int k = ms_Ordinal (ss ! k)" using ord[of k] that assms(4) by (simp add: ss_def)
      ultimately show ?thesis by (rule image_eqI[rotated])
    qed
    ultimately show ?thesis by (intro equalityI subsetI; clarsimp)
  qed
  then have out: "map snd (filter (\<lambda>(j, e). ms_Ordinal (ss ! i) + int j \<in> ms_Ordinal ` set page) (enumerate 0 (map content (drop i (take d ss)))))
      = map content page"
  proof -
    have "drop (a - i) (take (c - i) (drop i (take d ss))) = page"
      using ia cd assms(3) by (simp add: page_def take_drop min_absorb1)
    then have "drop (a - i) (take (c - i) (map content (drop i (take d ss)))) = map content page"
      by (simp only: drop_map take_map)
    moreover have "a \<le> c" "c \<le> i + length (map content (drop i (take d ss)))" using assms(3) cd d(1,2) by simp_all
    ultimately show ?thesis
      using filter_enumerate_interval[OF ia, of c "map content (drop i (take d ss))"] unfolding \<open>ms_Ordinal ` set page = int ` {a..<c}\<close> ord[OF i(1)] by simp
  qed
  show ?thesis
    unfolding ss_def[symmetric] page_def[symmetric] Replay_def Let_def option.case entries start
    using page(1) by (simp add: out)
qed

lemma replay_page_of:
  assumes "spans_ok l b (ix_Spans idx)" and "replayer_ok idx content rp"
  shows "Replay idx (page_of before count (ix_Spans idx)) (Some rp) = Inr (map content (page_of before count (ix_Spans idx)))"
proof (cases "page_of before count (ix_Spans idx) = []")
  case True then show ?thesis by (simp add: Replay_def)
next
  case False
  define k where "k = min (length (ix_Spans idx)) (nat before)"
  have "k - nat count < k" using False by (auto simp: page_of_def Let_def not_less simp flip: k_def)
  moreover have "k \<le> length (ix_Spans idx)" by (simp add: k_def)
  ultimately show ?thesis unfolding page_of_def Let_def k_def[symmetric] by (rule replay_interval[OF assms])
qed

text \<open>
  The replay of a page yields the contents of exactly the page's messages, in order: whatever neighbouring messages the widened byte range
  takes in, numbering from the message at its start picks the right ones, and the replay never fails.
\<close>

theorem replay_exact:
  assumes "spans_ok l b (ix_Spans idx)" and "replayer_ok idx content rp"
  shows "Replay idx (PageBefore (ix_Spans idx) before count) (Some rp) = Inr (map content (PageBefore (ix_Spans idx) before count)) \<and>
         Replay idx (LastN (ix_Spans idx) count) (Some rp) = Inr (map content (LastN (ix_Spans idx) count))"
  by (simp add: PageBefore_page_of[OF assms(1)] LastN_page_of replay_page_of[OF assms])


section \<open>Witnesses\<close>

text \<open>The second message lies inside the first, as when a late tool result extends it.\<close>

definition demo_span :: "int \<Rightarrow> int \<Rightarrow> int \<Rightarrow> LogicalMessageSpan" where
  "demo_span n start stop = \<lparr>ms_Ordinal = n, ms_StableID = [], ms_ReplayStart = start, ms_EndOffset = stop, ms_OpenToolUses = 0\<rparr>"

definition demo_spans_list :: "LogicalMessageSpan list" where
  "demo_spans_list = [demo_span 0 0 40, demo_span 1 10 20, demo_span 2 40 50]"

lemma demo_spans_ok: "spans_ok 40 50 demo_spans_list"
  by (simp add: spans_ok_def demo_spans_list_def demo_span_def upt_rec)

definition demo_index :: PageIndex where
  "demo_index = \<lparr>ix_Version = 1, ix_Backend = BackendClaude, ix_ExtractorRevision = [], ix_FilePath = [], ix_Fingerprint = \<lparr>fp_SizeBytes = 50, fp_ModTimeUnixNano = 0\<rparr>,
     ix_Anchor = \<lparr>an_Algo = [], an_Window = 0\<rparr>, ix_ParseOffset = 50, ix_PrefixGeneration = [], ix_GenerationLineage = [], ix_Spans = demo_spans_list,
     ix_FileDevice = 0, ix_FileInode = 0\<rparr>"

definition demo_replayer :: "string \<Rightarrow> ByteRange \<Rightarrow> int list option" where
  "demo_replayer path r = Some (map ms_Ordinal (filter (\<lambda>s. br_Start r \<le> ms_ReplayStart s \<and> ms_EndOffset s \<le> br_End r) demo_spans_list))"

lemma demo_replayer_ok: "replayer_ok demo_index ms_Ordinal demo_replayer"
  by (simp add: replayer_ok_def demo_replayer_def demo_index_def)

theorem byte_union_least_witness:
  "br_Start (spanByteUnion demo_spans_list [demo_span 1 10 20]) = 0 \<and> br_End (spanByteUnion demo_spans_list [demo_span 1 10 20]) = 40"
proof -
  have s: "set [demo_span 1 10 20] \<subseteq> set demo_spans_list" by (simp add: demo_spans_list_def)
  have c: "closed_range (set demo_spans_list) (0, 40)" by (simp add: closed_range_def demo_spans_list_def demo_span_def)
  define lo where "lo = br_Start (spanByteUnion demo_spans_list [demo_span 1 10 20])"
  define hi where "hi = br_End (spanByteUnion demo_spans_list [demo_span 1 10 20])"
  have n: "[demo_span 1 10 20] \<noteq> []" by simp
  note R = byte_union_least[OF n s, unfolded Let_def, folded lo_def hi_def]
  have "lo \<le> 10 \<and> 20 \<le> hi" using R by (simp add: demo_span_def)
  moreover have "demo_span 0 0 40 \<in> set demo_spans_list" by (simp add: demo_spans_list_def)
  then have "40 \<le> lo \<or> hi \<le> 0 \<or> (lo \<le> 0 \<and> 40 \<le> hi)" using R by (auto simp: demo_span_def)
  moreover have "0 \<le> lo \<and> hi \<le> 40" using R[THEN conjunct2, THEN conjunct2, THEN conjunct2, THEN conjunct2, rule_format, of 0 40] c by (simp add: demo_span_def)
  ultimately show ?thesis by (simp add: lo_def[symmetric] hi_def[symmetric])
qed

theorem page_before_exact_witness:
  "PageBefore demo_spans_list 2 1 = [demo_span 1 10 20] \<and> PageBefore demo_spans_list (-3) 5 = [] \<and> PageBefore demo_spans_list 99 2 = [demo_span 1 10 20, demo_span 2 40 50]"
  using page_before_exact[OF demo_spans_ok, of 2 1] page_before_exact[OF demo_spans_ok, of "-3" 5] page_before_exact[OF demo_spans_ok, of 99 2]
  by (simp add: page_of_def demo_spans_list_def)

theorem replay_exact_witness: "Replay demo_index (PageBefore (ix_Spans demo_index) 2 1) (Some demo_replayer) = Inr [1]"
proof -
  have "PageBefore (ix_Spans demo_index) 2 1 = [demo_span 1 10 20]"
    using page_before_spec[OF demo_spans_ok, of 2 1] by (simp add: demo_index_def page_of_def demo_spans_list_def)
  moreover have "spans_ok 40 50 (ix_Spans demo_index)" using demo_spans_ok by (simp add: demo_index_def)
  ultimately show ?thesis
    using replay_exact[OF _ demo_replayer_ok, of 40 50 2 1] by (simp add: demo_span_def)
qed

end
