(* ===== verification/Refresh_Props.thy ===== *)
theory Refresh_Props
  imports Index_Props
begin

text \<open>
  What a refresh does to an index: which generations, and so which cursors, survive it, and where its spans lie compared with those of a
  freshly built index.
\<close>

section \<open>Generations\<close>

text \<open>A chain of at most 64 generations, each the child of the one before it, the newest being the index's own.\<close>

definition lineage_ok :: "PageIndex \<Rightarrow> bool" where
  "lineage_ok idx \<longleftrightarrow>
     (let l = ix_GenerationLineage idx
      in validateLineage l \<and> length l \<le> 64 \<and> (\<forall>i. Suc i < length l \<longrightarrow> pg_ParentID (l ! Suc i) = pg_ID (l ! i)) \<and>
         ix_PrefixGeneration idx = pg_ID (last l))"

definition ancestry_ok :: "PrefixGenerationRecord list \<Rightarrow> bool" where
  "ancestry_ok l \<longleftrightarrow> l \<noteq> [] \<and> [] \<notin> set (map pg_ID l) \<and> distinct (map pg_ID l) \<and> pg_ParentID (l ! 0) = [] \<and>
     (\<forall>i. Suc i < length l \<longrightarrow> pg_ParentID (l ! Suc i) = pg_ID (l ! i))"

lemma ancestry_ok_iff: "ancestry_ok l \<longleftrightarrow> validateLineage l \<and> (\<forall>i. Suc i < length l \<longrightarrow> pg_ParentID (l ! Suc i) = pg_ID (l ! i))"
proof -
  have "pg_ParentID g \<noteq> [] \<and> pg_ParentID g \<in> set (map pg_ID l)"
    if c: "[] \<notin> set (map pg_ID l)" "\<forall>i. Suc i < length l \<longrightarrow> pg_ParentID (l ! Suc i) = pg_ID (l ! i)" and g: "g \<in> set (tl l)" for g
  proof -
    obtain i where i: "i < length (tl l)" "g = tl l ! i" using g by (auto simp: in_set_conv_nth)
    then have s: "Suc i < length l" "g = l ! Suc i" by (simp_all add: nth_tl)
    then have "pg_ParentID g = pg_ID (l ! i)" using c(2) by simp
    moreover have "pg_ID (l ! i) \<in> set (map pg_ID l)" using s(1) by simp
    ultimately show ?thesis using c(1) by metis
  qed
  then show ?thesis by (auto simp: ancestry_ok_def validateLineage_def hd_conv_nth)
qed

lemma lineage_ok_iff: "lineage_ok idx \<longleftrightarrow> ancestry_ok (ix_GenerationLineage idx) \<and> length (ix_GenerationLineage idx) \<le> 64 \<and>
    ix_PrefixGeneration idx = pg_ID (last (ix_GenerationLineage idx))"
  by (auto simp: lineage_ok_def ancestry_ok_iff Let_def)

lemma ancestry_ok_snoc:
  assumes "ancestry_ok l" and "pg_ID g \<noteq> []" "pg_ID g \<notin> set (map pg_ID l)" "pg_ParentID g = pg_ID (last l)"
  shows "ancestry_ok (l @ [g])"
proof -
  have "pg_ParentID ((l @ [g]) ! Suc i) = pg_ID ((l @ [g]) ! i)" if "Suc i < length (l @ [g])" for i
  proof (cases "Suc i = length l")
    case True
    then have "last l = l ! i" using assms(1) by (metis ancestry_ok_def diff_Suc_1 last_conv_nth)
    then show ?thesis using assms(4) True by (simp add: nth_append)
  next
    case False then show ?thesis using assms(1) that by (simp add: nth_append ancestry_ok_def)
  qed
  then show ?thesis using assms unfolding ancestry_ok_def by (auto simp: nth_append)
qed

lemma foldLineage_nth:
  assumes "64 < length l"
  shows "length (foldLineage l) = 64"
    and "i < 64 \<Longrightarrow> pg_ID (foldLineage l ! i) = pg_ID (l ! (length l - 64 + i))"
    and "pg_ParentID (foldLineage l ! 0) = []"
    and "Suc i < 64 \<Longrightarrow> pg_ParentID (foldLineage l ! Suc i) = (if i = 0 then pg_ID (l ! (length l - 64)) else pg_ParentID (l ! (length l - 64 + Suc i)))"
proof -
  have f: "foldLineage l = (l ! (length l - 64))\<lparr>pg_ParentID := []\<rparr> #
      (drop (length l - 63) l)[0 := (drop (length l - 63) l ! 0)\<lparr>pg_ParentID := pg_ID (l ! (length l - 64))\<rparr>]"
    using assms by (simp add: foldLineage_def maxLineageDepth_def Let_def)
  have e: "length l - 63 = Suc (length l - 64)" using assms by simp
  show "length (foldLineage l) = 64" "pg_ParentID (foldLineage l ! 0) = []" using assms by (simp_all add: f)
  show "i < 64 \<Longrightarrow> pg_ID (foldLineage l ! i) = pg_ID (l ! (length l - 64 + i))"
    using assms by (cases i) (simp_all add: f e nth_list_update)
  show "Suc i < 64 \<Longrightarrow> pg_ParentID (foldLineage l ! Suc i) = (if i = 0 then pg_ID (l ! (length l - 64)) else pg_ParentID (l ! (length l - 64 + Suc i)))"
    using assms by (simp add: f e nth_list_update)
qed

lemma foldLineage_chain:
  assumes "ancestry_ok l"
  shows "ancestry_ok (foldLineage l)" "length (foldLineage l) \<le> 64" "map pg_ID (foldLineage l) = drop (length l - 64) (map pg_ID l)"
proof -
  have all: "ancestry_ok (foldLineage l) \<and> length (foldLineage l) \<le> 64 \<and> map pg_ID (foldLineage l) = drop (length l - 64) (map pg_ID l)"
  proof (cases "64 < length l")
    case False
    then show ?thesis using assms by (simp add: foldLineage_def maxLineageDepth_def)
  next
    case True
    note F = foldLineage_nth[OF True]
    have ids: "map pg_ID (foldLineage l) = drop (length l - 64) (map pg_ID l)"
      using True by (intro nth_equalityI) (simp_all add: F)
    have par: "pg_ParentID (foldLineage l ! Suc i) = pg_ID (foldLineage l ! i)" if "Suc i < 64" for i
      using that True F(2)[of i] F(4)[OF that] assms by (auto simp: ancestry_ok_def)
    have "set (map pg_ID (foldLineage l)) \<subseteq> set (map pg_ID l)" "distinct (map pg_ID (foldLineage l))"
      using assms by (auto simp: ids ancestry_ok_def dest: in_set_dropD)
    then have "ancestry_ok (foldLineage l)" using assms par F(1,3) unfolding ancestry_ok_def by auto
    then show ?thesis using ids F(1) by simp
  qed
  then show "ancestry_ok (foldLineage l)" "length (foldLineage l) \<le> 64" "map pg_ID (foldLineage l) = drop (length l - 64) (map pg_ID l)" by simp_all
qed

lemma Build_lineage:
  assumes "Build J sha gid file backend path = Inr idx" and "gid \<noteq> []"
  shows "lineage_ok idx" "map pg_ID (ix_GenerationLineage idx) = [gid]"
  using assms by (auto simp: Build_def finalizeNewLineage_def lineage_ok_def validateLineage_def split: option.splits sum.splits)

lemma appendChildGeneration_chain:
  assumes "lineage_ok idx" and "gid \<noteq> []" "gid \<notin> set (map pg_ID (ix_GenerationLineage idx))"
    and "appendChildGeneration sha gid f idx n = Some (gen, anchor, lineage)"
  shows "ancestry_ok lineage" "length lineage \<le> 64" "gen = gid" "pg_ID (last lineage) = gid"
    "map pg_ID lineage = drop (length (ix_GenerationLineage idx) - 63) (map pg_ID (ix_GenerationLineage idx)) @ [gid]"
proof -
  define w where "w = (if an_Window (ix_Anchor idx) \<le> 0 then defaultAnchorWindow else an_Window (ix_Anchor idx))"
  obtain digest where "anchorFor sha f n w = Some digest"
    using assms(4) by (cases "anchorFor sha f n w") (simp_all add: appendChildGeneration_def w_def[symmetric])
  then have digest: "lineage = foldLineage (ix_GenerationLineage idx @
      [\<lparr>pg_ID = gid, pg_ParentID = ix_PrefixGeneration idx, pg_IndexedThrough = n, pg_AnchorHex = digest\<rparr>])" "gen = gid"
    using assms(4) by (auto simp: appendChildGeneration_def w_def[symmetric])
  define g where "g = \<lparr>pg_ID = gid, pg_ParentID = ix_PrefixGeneration idx, pg_IndexedThrough = n, pg_AnchorHex = digest\<rparr>"
  have g: "lineage = foldLineage (ix_GenerationLineage idx @ [g])" "pg_ID g = gid" "pg_ParentID g = ix_PrefixGeneration idx" "gen = gid"
    using digest by (simp_all add: g_def)
  have c: "ancestry_ok (ix_GenerationLineage idx @ [g])"
    using assms g by (intro ancestry_ok_snoc) (simp_all add: lineage_ok_iff)
  show "ancestry_ok lineage" "length lineage \<le> 64" "gen = gid" using foldLineage_chain[OF c] g by simp_all
  show ids: "map pg_ID lineage = drop (length (ix_GenerationLineage idx) - 63) (map pg_ID (ix_GenerationLineage idx)) @ [gid]"
    using foldLineage_chain(3)[OF c] assms(1) g by (simp add: lineage_ok_iff)
  have "lineage \<noteq> []" using \<open>ancestry_ok lineage\<close> by (simp add: ancestry_ok_def)
  then show "pg_ID (last lineage) = gid" using arg_cong[OF ids, of last] by (simp add: last_map)
qed

lemma Refresh_cases:
  assumes "Refresh J sha gid file again (Some idx) = Inr idx'"
  obtains (Same) "idx' = idx"
  | (Rebuilt) "Build J sha gid again (ix_Backend idx) (ix_FilePath idx) = Inr idx'"
  | (Appended) f rebuilt gen anchor lineage where "file = Some f" "verifyAnchorAt sha f idx = Some True" "0 \<le> refreshReplayStart (ix_Spans idx)"
      "scan_spans J (ix_Backend idx) (fv_Failed f) (drop (nat (refreshReplayStart (ix_Spans idx))) (fv_Data f)) = Inr rebuilt"
      "appendChildGeneration sha gid f idx (fv_Size f) = Some (gen, anchor, lineage)"
      "idx' = idx\<lparr>ix_Fingerprint := fileFingerprint f, ix_ParseOffset := fv_Size f, ix_FileDevice := fv_Device f, ix_FileInode := fv_Inode f,
         ix_Spans := keepSpansBefore (ix_Spans idx) (refreshReplayStart (ix_Spans idx)) @
           renumber (if keepSpansBefore (ix_Spans idx) (refreshReplayStart (ix_Spans idx)) = [] then 0
             else ms_Ordinal (last (keepSpansBefore (ix_Spans idx) (refreshReplayStart (ix_Spans idx)))) + 1) rebuilt,
         ix_PrefixGeneration := gen, ix_Anchor := anchor, ix_GenerationLineage := lineage\<rparr>"
proof -
  define rebuild where "rebuild = Build J sha gid again (ix_Backend idx) (ix_FilePath idx)"
  show thesis
  proof (cases "ix_ExtractorRevision idx \<noteq> extractorRevision (ix_Backend idx)")
    case True then show ?thesis using assms Rebuilt by (simp add: Refresh_def Let_def)
  next
    case rev: False
    show ?thesis
    proof (cases "file")
      case None then show ?thesis using assms rev by (simp add: Refresh_def)
    next
      case (Some f)
      note R = assms[unfolded Refresh_def option.case Let_def Some, folded rebuild_def]
      show ?thesis
      proof (cases "\<not> sameIdentity idx f \<or> fv_Size f < ix_ParseOffset idx")
        case True
        then have "rebuild = Inr idx'" using R rev by (cases "sameIdentity idx f") simp_all
        then show ?thesis using Rebuilt by (simp add: rebuild_def)
      next
        case old: False
        show ?thesis
        proof (cases "fv_Size f = ix_ParseOffset idx \<and> fileFingerprint f = ix_Fingerprint idx")
          case True then show ?thesis using R rev old Same by simp
        next
          case grew: False
          then have nogrow: "(fv_Size f = ix_ParseOffset idx \<and> fileFingerprint f = ix_Fingerprint idx) = False" by (rule iffD2[OF eq_False])
          show ?thesis
          proof (cases "verifyAnchorAt sha f idx = Some True")
            case False
            then have "rebuild = Inr idx'" using R[unfolded nogrow] rev old by (auto split: option.splits bool.splits)
            then show ?thesis using Rebuilt by (simp add: rebuild_def)
          next
            case True
            define k where "k = refreshReplayStart (ix_Spans idx)"
            have k: "0 \<le> k" using R[unfolded nogrow] rev old True by (cases "k < 0") (simp_all flip: k_def)
            obtain rebuilt where rebuilt: "scan_spans J (ix_Backend idx) (fv_Failed f) (drop (nat k) (fv_Data f)) = Inr rebuilt"
              using R[unfolded nogrow] rev old True k by (cases "scan_spans J (ix_Backend idx) (fv_Failed f) (drop (nat k) (fv_Data f))") (simp_all flip: k_def)
            obtain gen anchor lineage where g: "appendChildGeneration sha gid f idx (fv_Size f) = Some (gen, anchor, lineage)"
              using R[unfolded nogrow] rev old True k rebuilt by (cases "appendChildGeneration sha gid f idx (fv_Size f)") (auto simp flip: k_def)
            show ?thesis
              using Appended[OF Some True k[unfolded k_def] rebuilt[unfolded k_def] g] R[unfolded nogrow] rev old True k rebuilt g by (auto simp flip: k_def)
          qed
        qed
      qed
    qed
  qed
qed

lemma Refresh_lineage:
  assumes "lineage_ok idx" and "gid \<noteq> []" "gid \<notin> set (map pg_ID (ix_GenerationLineage idx))"
    and "Refresh J sha gid file again (Some idx) = Inr idx'"
  shows "lineage_ok idx' \<and> (idx' = idx \<or> map pg_ID (ix_GenerationLineage idx') = [gid] \<or>
     map pg_ID (ix_GenerationLineage idx') = drop (length (ix_GenerationLineage idx) - 63) (map pg_ID (ix_GenerationLineage idx)) @ [gid])"
  using assms(4)
proof (cases rule: Refresh_cases)
  case Same then show ?thesis using assms(1) by simp
next
  case Rebuilt then show ?thesis using Build_lineage[OF Rebuilt assms(2)] by simp
next
  case (Appended f rebuilt gen anchor lineage)
  then show ?thesis using appendChildGeneration_chain[OF assms(1-3) Appended(5)] by (simp add: lineage_ok_iff)
qed

text \<open>
  C24. Which cursors survive a refresh: the chain of generations stays a chain of at most 64 linked generations with different names, and a
  refresh leaves it alone, or replaces it by one new generation (every older cursor is stale), or adds one, in which case the only cursors
  that become stale are those of the oldest generation of a full chain.
\<close>

theorem refresh_cursors:
  assumes "lineage_ok idx" and "gid \<noteq> []" "gid \<notin> set (map pg_ID (ix_GenerationLineage idx))"
    and "Refresh J sha gid file again (Some idx) = Inr idx'"
  shows "lineage_ok idx' \<and>
     (idx' = idx \<or>
      (\<forall>c. IsCursorStale (Some idx') c \<longleftrightarrow> mc_Generation c \<noteq> gid) \<or>
      (\<forall>c. mc_Generation c \<noteq> gid \<longrightarrow> (IsCursorStale (Some idx') c \<longleftrightarrow> IsCursorStale (Some idx) c \<or>
         (length (ix_GenerationLineage idx) = 64 \<and> mc_Generation c = pg_ID (hd (ix_GenerationLineage idx))))))"
proof -
  let ?ids = "map pg_ID (ix_GenerationLineage idx)"
  have len: "length ?ids \<le> 64" and d: "distinct ?ids" and ne: "?ids \<noteq> []"
    using assms(1) by (simp_all add: lineage_ok_iff ancestry_ok_def)
  have keep: "x \<in> set (drop (length ?ids - 63) ?ids) \<longleftrightarrow> x \<in> set ?ids \<and> \<not> (length ?ids = 64 \<and> x = hd ?ids)" for x
  proof (cases "length ?ids = 64")
    case True
    obtain y ys where y: "?ids = y # ys" using ne by (cases ?ids) auto
    then have "drop (length ?ids - 63) ?ids = ys" using True by simp
    then show ?thesis using d y True by auto
  next
    case False then show ?thesis using len by simp
  qed
  have hd: "hd ?ids = pg_ID (hd (ix_GenerationLineage idx))" using ne by (simp add: hd_map)
  show ?thesis
    using Refresh_lineage[OF assms]
  proof (elim conjE disjE)
    assume "lineage_ok idx'" "map pg_ID (ix_GenerationLineage idx') = drop (length (ix_GenerationLineage idx) - 63) ?ids @ [gid]"
    then show ?thesis using keep hd by (auto simp: IsCursorStale_def)
  qed (auto simp: IsCursorStale_def)
qed

end
