(* ===== verification/Codex_Refresh.thy ===== *)
theory Codex_Refresh
  imports Refresh_Props
begin

text \<open>
  The refreshed index of a Codex transcript compared with the index of the whole file: same messages, same numbers, but every re-read
  message at offsets counted from the point the file was sought to.
\<close>

section \<open>Where a record starts\<close>

lemma records_from_split:
  "pre = [] \<or> last pre = 10 \<Longrightarrow> records_from offset (pre @ post) = records_from offset pre @ records_from (offset + int (length pre)) post"
proof (cases "pre = []")
  case False
  assume "pre = [] \<or> last pre = 10"
  then have p: "pre = butlast pre @ [10]" using False by (metis append_butlast_last_id)
  have "records_from offset (butlast pre @ 10 # post) = records_from offset (butlast pre @ [10]) @ records_from (offset + int (length (butlast pre)) + 1) post"
    by (rule records_from_append)
  moreover have "int (length (butlast pre)) + 1 = int (length pre)" using False by (cases pre) simp_all
  moreover have "butlast pre @ 10 # post = pre @ post" using p by (metis append.assoc append_Cons append_Nil)
  ultimately show ?thesis using p by (simp add: add.assoc)
qed simp

lemma record_start_split:
  "r \<in> set (records_from offset bs) \<Longrightarrow> \<exists>pre post. bs = pre @ post \<and> rec_Start r = offset + int (length pre) \<and> (pre = [] \<or> last pre = 10)"
proof (induction "length bs" arbitrary: offset bs rule: less_induct)
  case less
  show ?case
  proof (cases bs rule: bytes_line_cases)
    case (Line l rest)
    show ?thesis
    proof (cases "r \<in> set (records_from (offset + int (length l) + 1) rest)")
      case True
      obtain pre post where "rest = pre @ post" "rec_Start r = offset + int (length l) + 1 + int (length pre)" "pre = [] \<or> last pre = 10"
        using less.hyps[OF _ True] by (auto simp: Line(1))
      then show ?thesis using Line(1) by (intro exI[of _ "l @ 10 # pre"] exI[of _ post]) auto
    next
      case False
      then have "rec_Start r = offset" using less.prems by (auto simp: Line(1) records_from_line[OF Line(2)] Let_def split: if_splits)
      then show ?thesis by (intro exI[of _ "[]"] exI[of _ bs]) simp
    qed
  next
    case Last
    then have "rec_Start r = offset" using less.prems by (auto simp: records_from_last Let_def split: if_splits)
    then show ?thesis by (intro exI[of _ "[]"] exI[of _ bs]) simp
  qed
qed

definition shift_record :: "int \<Rightarrow> Record \<Rightarrow> Record" where
  "shift_record d r = r\<lparr>rec_Start := d + rec_Start r, rec_End := d + rec_End r\<rparr>"

lemma shift_record_sel [simp]:
  "rec_Start (shift_record d r) = d + rec_Start r" "rec_End (shift_record d r) = d + rec_End r" "rec_Bytes (shift_record d r) = rec_Bytes r"
  by (simp_all add: shift_record_def)

lemma records_from_shift_0: "records_from d bs = map (shift_record d) (records_from 0 bs)"
  using records_from_shift[of d 0 bs] by (simp add: shift_record_def[abs_def])


section \<open>What a record does to the extractor\<close>

text \<open>A record's effect is one of five, chosen by its bytes alone.\<close>

datatype codex_action = ANone | AEnsure | AOpen | AClose | AUser nat

fun codex_act :: "codex_action \<Rightarrow> Record \<Rightarrow> codexSpanExtractor \<Rightarrow> codexSpanExtractor" where
  "codex_act ANone r x = x"
| "codex_act AEnsure r x = ensureCurrent r x"
| "codex_act AOpen r x = openTool r x"
| "codex_act AClose r x = closeTool r x"
| "codex_act (AUser n) r x = (emitUser r ^^ n) x"

lemma fold_emitUser: "fold (\<lambda>c. if P c then emitUser r else id) cs x = (emitUser r ^^ length (filter P cs)) x"
  by (induction cs arbitrary: x) (simp_all add: funpow_swap1)

lemma codex_item_act: "\<exists>a. \<forall>r x. codex_item item r x = codex_act a r x"
proof -
  have If: "\<exists>a. \<forall>r x. F r x = codex_act a r x \<Longrightarrow> \<exists>a. \<forall>r x. G r x = codex_act a r x \<Longrightarrow> \<exists>a. \<forall>r x. (if c then F r x else G r x) = codex_act a r x"
    for F G c by (cases c) simp_all
  have acts: "\<exists>a. \<forall>r x. x = codex_act a r x" "\<exists>a. \<forall>r x. ensureCurrent r x = codex_act a r x" "\<exists>a. \<forall>r x. openTool r x = codex_act a r x"
    "\<exists>a. \<forall>r x. closeTool r x = codex_act a r x"
    "\<exists>a. \<forall>r x. fold (\<lambda>c. if is_prompt_block c then emitUser r else id) cs x = codex_act a r x" for cs
    by (rule exI[of _ ANone], simp, rule exI[of _ AEnsure], simp, rule exI[of _ AOpen], simp, rule exI[of _ AClose], simp,
        rule exI[of _ "AUser (length (filter is_prompt_block cs))"], simp add: fold_emitUser)
  show ?thesis
    unfolding codex_item_def Let_def by (intro If) (rule acts)+
qed

lemma codex_Process_act: "\<exists>a. \<forall>r x. rec_Bytes r = bs \<longrightarrow> codex_Process J r x = codex_act a r x"
proof (cases "j_codexEnvelope J bs")
  case None then show ?thesis by (intro exI[of _ ANone]) (simp add: codex_Process_def)
next
  case (Some p)
  obtain ty payload where p: "p = (ty, payload)" by (cases p)
  consider "ty = ''event_msg''" "codexEventIsPatchApplyEnd J payload" | "ty = ''event_msg''" "\<not> codexEventIsPatchApplyEnd J payload"
    | "ty \<noteq> ''event_msg''" "ty \<noteq> ''response_item''" | "ty = ''response_item''" by blast
  then show ?thesis
  proof cases
    case 1 then show ?thesis using Some p by (intro exI[of _ AClose]) (simp add: codex_Process_def)
  next
    case 2 then show ?thesis using Some p by (intro exI[of _ ANone]) (simp add: codex_Process_def)
  next
    case 3 then show ?thesis using Some p by (intro exI[of _ ANone]) (simp add: codex_Process_def)
  next
    case 4
    show ?thesis
    proof (cases "j_codexItem J payload")
      case None then show ?thesis using Some p 4 by (intro exI[of _ ANone]) (simp add: codex_Process_def)
    next
      case item: (Some item)
      obtain a where "\<forall>r x. codex_item item r x = codex_act a r x" using codex_item_act[of item] by blast
      then show ?thesis using Some p 4 item by (intro exI[of _ a]) (simp add: codex_Process_def)
    qed
  qed
qed

definition action_of :: "json_lib \<Rightarrow> bytes \<Rightarrow> codex_action" where
  "action_of J bs = (SOME a. \<forall>r x. rec_Bytes r = bs \<longrightarrow> codex_Process J r x = codex_act a r x)"

lemma codex_Process_action: "codex_Process J r x = codex_act (action_of J (rec_Bytes r)) r x"
  unfolding action_of_def using someI_ex[OF codex_Process_act[of "rec_Bytes r" J]] by blast

text \<open>An action adds no start but the record's, and loses no message.\<close>

lemma emitUser_all: "codex_all (emitUser r x) = codex_all x @ [span_of_record (cx_ordinal x) [] r]" "cx_current (emitUser r x) = None"
  by (simp_all add: emitUser_def Let_def codex_all_def[of "_\<lparr>cx_spans := _, cx_ordinal := _\<rparr>"])

lemma funpow_emitUser_all:
  "length (codex_all ((emitUser r ^^ n) x)) = length (codex_all x) + n"
  "ms_ReplayStart ` set (codex_all ((emitUser r ^^ n) x)) = (if n = 0 then {} else {rec_Start r}) \<union> ms_ReplayStart ` set (codex_all x)"
  by (induction n) (auto simp: emitUser_all span_of_record_def)

lemma extend_close_open_sel [simp]:
  "ms_ReplayStart (extend_to e s) = ms_ReplayStart s" "ms_ReplayStart (close_one s) = ms_ReplayStart s" "ms_ReplayStart (open_one s) = ms_ReplayStart s"
  by (simp_all add: extend_to_def close_one_def open_one_def)

lemma codex_act_all:
  "length (codex_all x) \<le> length (codex_all (codex_act a r x)) \<and>
   ms_ReplayStart ` set (codex_all (codex_act a r x)) \<subseteq> insert (rec_Start r) (ms_ReplayStart ` set (codex_all x))"
proof (cases a)
  case (AUser n) then show ?thesis using funpow_emitUser_all[of n r x] by (auto split: if_splits)
qed (auto simp: codex_all_def ensureCurrent_def openTool_def closeTool_def Let_def span_of_record_def split: option.splits)

lemma fold_codex_all:
  "length (codex_all x) \<le> length (codex_all (fold (codex_Process J) rs x))"
  "ms_ReplayStart ` set (codex_all (fold (codex_Process J) rs x)) \<subseteq> rec_Start ` set rs \<union> ms_ReplayStart ` set (codex_all x)"
proof (induction rs arbitrary: x)
  case (Cons r rs)
  have a: "length (codex_all y) \<le> length (codex_all (codex_Process J r y))"
    "ms_ReplayStart ` set (codex_all (codex_Process J r y)) \<subseteq> insert (rec_Start r) (ms_ReplayStart ` set (codex_all y))" for y
    using codex_act_all[of y "action_of J (rec_Bytes r)" r] by (simp_all add: codex_Process_action)
  { case 1 show ?case using order_trans[OF a(1) Cons(1)] by simp }
  { case 2 show ?case using a(2)[of x] Cons(2)[of "codex_Process J r x"] by (simp only: fold_simps list.set image_insert) blast }
qed simp_all


section \<open>Two runs, side by side\<close>

text \<open>\<open>x\<close> has finished the messages \<open>ks\<close> and has done since what \<open>y\<close> has done, \<open>d\<close> bytes further on.\<close>

definition moved_by :: "int \<Rightarrow> LogicalMessageSpan \<Rightarrow> LogicalMessageSpan" where
  "moved_by d s = s\<lparr>ms_ReplayStart := d + ms_ReplayStart s, ms_EndOffset := d + ms_EndOffset s\<rparr>"

definition later :: "LogicalMessageSpan list \<Rightarrow> int \<Rightarrow> LogicalMessageSpan \<Rightarrow> LogicalMessageSpan" where
  "later ks d s = (moved_by d s)\<lparr>ms_Ordinal := int (length ks) + ms_Ordinal s\<rparr>"

definition runs_after :: "LogicalMessageSpan list \<Rightarrow> int \<Rightarrow> codexSpanExtractor \<Rightarrow> codexSpanExtractor \<Rightarrow> bool" where
  "runs_after ks d x y \<longleftrightarrow> cx_spans x = ks @ map (later ks d) (cx_spans y) \<and> cx_current x = map_option (later ks d) (cx_current y) \<and>
     cx_ordinal x = int (length ks) + cx_ordinal y"

lemma later_updates:
  "extend_to (d + e) (later ks d s) = later ks d (extend_to e s)" "close_one (later ks d s) = later ks d (close_one s)"
  "open_one (later ks d s) = later ks d (open_one s)"
  "span_of_record (int (length ks) + n) sid (shift_record d r) = later ks d (span_of_record n sid r)"
  by (simp_all add: extend_to_def close_one_def open_one_def later_def moved_by_def span_of_record_def)

lemma runs_after_all: "runs_after ks d x y \<Longrightarrow> codex_all x = ks @ map (later ks d) (codex_all y)"
  by (simp add: runs_after_def codex_all_def split: option.splits)

lemma runs_after_steps:
  assumes "runs_after ks d x y"
  shows "runs_after ks d (ensureCurrent (shift_record d r) x) (ensureCurrent r y)"
    and "runs_after ks d (emitUser (shift_record d r) x) (emitUser r y)"
    and "runs_after ks d (closeTool (shift_record d r) x) (closeTool r y)"
proof -
  show "runs_after ks d (ensureCurrent (shift_record d r) x) (ensureCurrent r y)"
    using assms by (auto simp: runs_after_def ensureCurrent_def later_updates split: option.splits)
  show "runs_after ks d (emitUser (shift_record d r) x) (emitUser r y)"
    using assms runs_after_all[OF assms] by (simp add: runs_after_def emitUser_def Let_def later_updates)
  show "runs_after ks d (closeTool (shift_record d r) x) (closeTool r y)"
    using assms by (auto simp: runs_after_def closeTool_def later_updates option.map_comp comp_def)
qed

lemma runs_after_openTool: "runs_after ks d x y \<Longrightarrow> runs_after ks d (openTool (shift_record d r) x) (openTool r y)"
  using runs_after_steps(1)[of ks d x y r] by (auto simp: runs_after_def openTool_def Let_def later_updates option.map_comp comp_def)

lemma runs_after_act: "runs_after ks d x y \<Longrightarrow> runs_after ks d (codex_act a (shift_record d r) x) (codex_act a r y)"
proof (cases a)
  case (AUser n)
  assume "runs_after ks d x y"
  then have "runs_after ks d ((emitUser (shift_record d r) ^^ n) x) ((emitUser r ^^ n) y)"
    by (induction n) (simp_all add: runs_after_steps(2))
  then show ?thesis by (simp add: AUser)
qed (simp_all add: runs_after_steps runs_after_openTool)

lemma runs_after_fold: "runs_after ks d x y \<Longrightarrow> runs_after ks d (fold (codex_Process J) (map (shift_record d) rs) x) (fold (codex_Process J) rs y)"
proof (induction rs arbitrary: x y)
  case (Cons r rs)
  have "runs_after ks d (codex_Process J (shift_record d r) x) (codex_Process J r y)"
    using runs_after_act[OF Cons.prems, of "action_of J (rec_Bytes r)" r] by (simp add: codex_Process_action)
  then show ?case using Cons.IH by simp
qed simp

text \<open>A record that opens a message starts the second run from scratch.\<close>

lemma runs_after_open:
  assumes "rec_Start (shift_record d r) \<in> ms_ReplayStart ` set (codex_all (codex_act a (shift_record d r) x))"
    and "rec_Start (shift_record d r) \<notin> ms_ReplayStart ` set (codex_all x)" and "cx_ordinal x = int (length (codex_all x))"
  shows "runs_after (codex_all x) d (codex_act a (shift_record d r) x) (codex_act a r new_codex)"
proof -
  have fresh: "runs_after (codex_all x) d (ensureCurrent (shift_record d r) x) (ensureCurrent r new_codex)" if "cx_current x = None"
    using that assms(3) later_updates(4)[of "codex_all x" 0 "[]" d r] by (simp add: runs_after_def ensureCurrent_def new_codex_def) (simp add: codex_all_def)
  have same: "ms_ReplayStart ` set (codex_all (x\<lparr>cx_current := map_option f (cx_current x)\<rparr>)) = ms_ReplayStart ` set (codex_all x)"
    if "\<And>s. ms_ReplayStart (f s) = ms_ReplayStart s" for f using that by (cases "cx_current x") (simp_all add: codex_all_def)
  have cur: "cx_current x = None" if "rec_Start (shift_record d r) \<in> ms_ReplayStart ` set (codex_all (ensureCurrent (shift_record d r) x))"
  proof (rule ccontr)
    assume "cx_current x \<noteq> None"
    then have "ensureCurrent (shift_record d r) x = x\<lparr>cx_current := map_option (extend_to (rec_End (shift_record d r))) (cx_current x)\<rparr>"
      by (auto simp: ensureCurrent_def)
    then show False using that assms(2) same[of "extend_to (rec_End (shift_record d r))"] by simp
  qed
  have opened: "ms_ReplayStart ` set (codex_all (openTool r' x)) = ms_ReplayStart ` set (codex_all (ensureCurrent r' x))" for r'
    by (cases "cx_current (ensureCurrent r' x)") (simp_all add: openTool_def Let_def codex_all_def)
  show ?thesis
  proof (cases a)
    case ANone then show ?thesis using assms(1,2) by simp
  next
    case AEnsure then show ?thesis using assms(1) cur fresh by simp
  next
    case AOpen
    then have "cx_current x = None" using assms(1) cur opened by simp
    then show ?thesis using fresh AOpen
      by (auto simp: runs_after_def openTool_def Let_def later_updates option.map_comp comp_def)
  next
    case AClose
    then show ?thesis using assms(1,2) same[of "\<lambda>c. close_one (extend_to (d + rec_End r) c)"] by (simp add: closeTool_def)
  next
    case (AUser n)
    then obtain m where n: "n = Suc m" using assms(1,2) by (cases n) simp_all
    have "runs_after (codex_all x) d (emitUser (shift_record d r) x) (emitUser r new_codex)"
      using assms(3) later_updates(4)[of "codex_all x" 0 "[]" d r]
      by (simp add: runs_after_def emitUser_def Let_def new_codex_def) (simp add: flush_current_def codex_all_def)
    then have "runs_after (codex_all x) d (codex_act (AUser m) (shift_record d r) (emitUser (shift_record d r) x)) (codex_act (AUser m) r (emitUser r new_codex))"
      by (rule runs_after_act)
    then show ?thesis by (simp add: AUser n funpow_swap1)
  qed
qed


section \<open>The refreshed spans\<close>

lemma fold_min_in:
  "fold (\<lambda>s lo. if ms_OpenToolUses s > 0 \<and> ms_ReplayStart s < lo then ms_ReplayStart s else lo) ss lo \<in> insert lo (ms_ReplayStart ` set ss)"
proof (induction ss arbitrary: lo)
  case (Cons s ss) then show ?case using Cons.IH[of "ms_ReplayStart s"] Cons.IH[of lo] by auto
qed simp

lemma replay_fix_in: "replay_fix spans lo \<in> insert lo (ms_ReplayStart ` set spans)"
proof (induction spans lo rule: replay_fix.induct)
  case (1 spans lo)
  obtain lo' moved where p: "replay_pass spans lo = (lo', moved)" by (cases "replay_pass spans lo")
  have "lo' \<in> insert lo (ms_ReplayStart ` set spans)" using replay_pass_result[of spans lo] by (auto simp: p split: if_splits)
  then show ?case using 1[OF p[symmetric] refl] by (subst replay_fix.simps) (auto simp: p)
qed

lemma refreshReplayStart_in: "ss \<noteq> [] \<Longrightarrow> refreshReplayStart ss \<in> ms_ReplayStart ` set ss"
proof -
  assume ne: "ss \<noteq> []"
  let ?lo = "fold (\<lambda>s lo. if ms_OpenToolUses s > 0 \<and> ms_ReplayStart s < lo then ms_ReplayStart s else lo) (rev ss) (ms_ReplayStart (last ss))"
  have "?lo \<in> ms_ReplayStart ` set ss" using fold_min_in[of "rev ss" "ms_ReplayStart (last ss)"] ne by auto
  then show ?thesis using replay_fix_in[of ss ?lo] ne by (auto simp: refreshReplayStart_def)
qed

abbreviation codex_run :: "json_lib \<Rightarrow> Record list \<Rightarrow> codexSpanExtractor \<Rightarrow> codexSpanExtractor" where
  "codex_run J \<equiv> fold (codex_Process J)"

lemma run_inv:
  "codex_inv (int (length bs)) (codex_run J (records_of bs) new_codex)"
  "spans_ok (int (length bs)) (int (length bs)) (codex_all (codex_run J (records_of bs) new_codex))"
proof -
  have at: "\<forall>r \<in> set (records_of bs). record_at bs 0 r" "sorted_wrt (\<lambda>r r'. rec_End r \<le> rec_Start r') (records_of bs)"
    using records_from_at[of 0 bs] by (simp_all add: records_of_def)
  show "codex_inv (int (length bs)) (codex_run J (records_of bs) new_codex)"
    by (rule codex.inv_fold[OF codex.inv_start]) (use at in \<open>auto simp: record_at_def\<close>)
  then show "spans_ok (int (length bs)) (int (length bs)) (codex_all (codex_run J (records_of bs) new_codex))"
    by (simp add: codex_inv_def codex_inv2_def)
qed

text \<open>
  At the start of a message the file splits in two: the messages that start before it are those of the first part, and the others are those
  of the second part read by itself, moved by the length of the first.
\<close>

lemma records_of_append: "pre = [] \<or> last pre = 10 \<Longrightarrow> records_of (pre @ post) = records_of pre @ map (shift_record (int (length pre))) (records_of post)"
  using records_from_split[of pre 0 post] records_from_shift_0[of "int (length pre)" post] by (simp add: records_of_def)

lemma records_of_at:
  "r \<in> set (records_of bs) \<Longrightarrow> 0 \<le> rec_Start r \<and> rec_Start r < rec_End r \<and> rec_End r \<le> int (length bs)"
  "sorted_wrt (\<lambda>r r'. rec_End r \<le> rec_Start r') (records_of bs)"
  using records_from_at[of 0 bs] by (auto simp: records_of_def record_at_def)

lemma codex_all_new [simp]: "codex_all new_codex = []"
  by (simp add: codex_all_def new_codex_def)

lemma run_splits_at_message:
  assumes nl: "bs = [] \<or> last bs = 10" and k: "k \<in> ms_ReplayStart ` set (codex_all (codex_run J (records_of bs) new_codex))"
  obtains pre post where "bs = pre @ post" "k = int (length pre)" "pre = [] \<or> last pre = 10"
    "\<And>more. runs_after (codex_all (codex_run J (records_of pre) new_codex)) k (codex_run J (records_of (bs @ more)) new_codex) (codex_run J (records_of (post @ more)) new_codex)"
    "\<And>more. codex_all (codex_run J (records_of (post @ more)) new_codex) \<noteq> []"
proof -
  have "k \<in> rec_Start ` set (records_of bs)" using k fold_codex_all(2)[of J "records_of bs" new_codex] by auto
  then obtain r where r: "r \<in> set (records_of bs)" "rec_Start r = k" by auto
  then obtain pre post where split: "bs = pre @ post" "k = int (length pre)" "pre = [] \<or> last pre = 10"
    using record_start_split[of r 0 bs] by (auto simp: records_of_def)
  define x0 where "x0 = codex_run J (records_of pre) new_codex"
  have bs: "records_of bs = records_of pre @ map (shift_record k) (records_of post)"
    using records_of_append[OF split(3)] split(1,2) by simp
  have rpost: "r \<in> set (map (shift_record k) (records_of post))"
    using r records_of_at(1)[of r pre] split(2) unfolding bs by auto
  then obtain r1 rs where post: "records_of post = r1 # rs" by (cases "records_of post") auto
  have later: "k < rec_Start r'" if "r' \<in> set (map (shift_record k) rs)" for r'
    using that records_of_at(1)[of r1 post] records_of_at(2)[of post] by (auto simp: post)
  have "r = shift_record k r1"
    using rpost later[of r] r(2) by (auto simp: post)
  then have r1: "rec_Start (shift_record k r1) = k" using r(2) by simp
  have starts0: "k \<notin> ms_ReplayStart ` set (codex_all x0)"
  proof
    assume "k \<in> ms_ReplayStart ` set (codex_all x0)"
    then have "k \<in> rec_Start ` set (records_of pre)" using fold_codex_all(2)[of J "records_of pre" new_codex] by (auto simp: x0_def)
    then show False using records_of_at(1)[of _ pre] split(2) by fastforce
  qed
  have "k \<in> ms_ReplayStart ` set (codex_all (codex_run J (map (shift_record k) rs) (codex_Process J (shift_record k r1) x0)))"
    using k by (simp add: bs post x0_def)
  then have k1: "k \<in> ms_ReplayStart ` set (codex_all (codex_Process J (shift_record k r1) x0))"
    using fold_codex_all(2)[of J "map (shift_record k) rs" "codex_Process J (shift_record k r1) x0"] later by force
  have "cx_ordinal x0 = int (length (codex_all x0))"
    using run_inv(1)[of pre J] by (simp add: x0_def codex_inv_def codex_inv2_def)
  then have opened: "runs_after (codex_all x0) k (codex_Process J (shift_record k r1) x0) (codex_Process J r1 new_codex)"
    using runs_after_open[of k r1 "action_of J (rec_Bytes r1)" x0] k1 starts0 r1 by (simp add: codex_Process_action)
  have one: "codex_all (codex_Process J r1 new_codex) \<noteq> []"
    using runs_after_all[OF opened] k1 starts0 by auto
  have "post \<noteq> []" using post by (auto simp: records_of_def)
  then have nl': "post = [] \<or> last post = 10" using nl split(1) by auto
  have more: "records_of (post @ m) = r1 # rs @ map (shift_record (int (length post))) (records_of m)" for m
    using records_of_append[OF nl'] by (simp add: post)
  have "runs_after (codex_all x0) k (codex_run J (records_of (bs @ m)) new_codex) (codex_run J (records_of (post @ m)) new_codex)" for m
    using runs_after_fold[OF opened, of J "rs @ map (shift_record (int (length post))) (records_of m)"] records_of_append[OF split(3), of "post @ m"] split(1,2)
    by (simp add: more x0_def)
  moreover have "codex_all (codex_run J (records_of (post @ m)) new_codex) \<noteq> []" for m
    using fold_codex_all(1)[of "codex_Process J r1 new_codex" J "rs @ map (shift_record (int (length post))) (records_of m)"] one
    by (auto simp: more)
  ultimately show thesis using that[OF split] by (simp add: x0_def)
qed

lemma scan_spans_codex: "scan_spans J BackendCodex failed bs = (if failed then Inl IndexIO else Inr (codex_all (codex_run J (records_of bs) new_codex)))"
  by (simp add: scan_spans_def scanTranscript_total codex_Finish_def)

lemma Build_codex:
  assumes "Build J sha gid (Some f) BackendCodex path = Inr idx"
  shows "\<not> fv_Failed f" "ix_Spans idx = codex_all (codex_run J (records_of (fv_Data f)) new_codex)" "ix_ParseOffset idx = fv_Size f"
    "ix_Backend idx = BackendCodex" "ix_ExtractorRevision idx = extractorRevision BackendCodex" "ix_FileDevice idx = fv_Device f" "ix_FileInode idx = fv_Inode f"
    "\<exists>digest. anchorFor sha f (fv_Size f) defaultAnchorWindow = Some digest \<and> ix_Anchor idx = \<lparr>an_Algo = defaultAnchorAlgo, an_Window = defaultAnchorWindow\<rparr> \<and>
       ix_GenerationLineage idx = [\<lparr>pg_ID = gid, pg_ParentID = [], pg_IndexedThrough = fv_Size f, pg_AnchorHex = digest\<rparr>]"
  using assms by (auto simp: Build_def scan_spans_codex finalizeNewLineage_def split: option.splits if_splits)

lemma anchorFor_prefix:
  assumes "fv_Data f' = fv_Data f @ tail" "n = int (length (fv_Data f))" "anchorFor sha f n w = Some digest" "\<not> fv_Failed f'"
  shows "anchorFor sha f' n w = Some digest"
proof -
  have "take (nat (n - a)) (drop (nat a) (fv_Data f')) = take (nat (n - a)) (drop (nat a) (fv_Data f))" if "0 \<le> a" "a \<le> n" for a
    using that assms(1,2) by simp
  then show ?thesis using assms(3,4) by (auto simp: anchorFor_def Let_def split: if_splits)
qed

lemma keepSpansBefore_append:
  "(\<And>s. s \<in> set ks \<Longrightarrow> ms_ReplayStart s < k) \<Longrightarrow> (\<And>s. s \<in> set ss \<Longrightarrow> k \<le> ms_ReplayStart s) \<Longrightarrow> keepSpansBefore (ks @ ss) k = ks"
proof -
  assume ks: "\<And>s. s \<in> set ks \<Longrightarrow> ms_ReplayStart s < k" and ss: "\<And>s. s \<in> set ss \<Longrightarrow> k \<le> ms_ReplayStart s"
  have "takeWhile (\<lambda>s. ms_ReplayStart s < k) ss = []" using ss[of "hd ss"] by (cases ss) simp_all
  then show ?thesis using ks by (simp add: keepSpansBefore_def takeWhile_append2)
qed

lemma spans_ok_ordinals: "spans_ok l b ss \<Longrightarrow> renumber n ss = map (\<lambda>s. s\<lparr>ms_Ordinal := n + ms_Ordinal s\<rparr>) ss"
  by (rule nth_equalityI) (simp_all add: renumber_def nth_enumerate_eq ordinal_nth)

text \<open>What a refresh that finds a grown file computes, when the index was built from the file as it was.\<close>

lemma refresh_appended:
  assumes "Build J sha g1 (Some f) BackendCodex path = Inr idx" and "\<not> fv_Failed f'"
    and "fv_Data f' = fv_Data f @ tail" "tail \<noteq> []" "fv_Size f = int (length (fv_Data f))" "fv_Size f' = int (length (fv_Data f'))"
    and "fv_Device f' = fv_Device f" "fv_Inode f' = fv_Inode f" and k: "k = refreshReplayStart (ix_Spans idx)" "0 \<le> k"
  obtains idx' where "Refresh J sha g3 (Some f') again (Some idx) = Inr idx'"
    "ix_Spans idx' = keepSpansBefore (ix_Spans idx) k @
       renumber (if keepSpansBefore (ix_Spans idx) k = [] then 0 else ms_Ordinal (last (keepSpansBefore (ix_Spans idx) k)) + 1)
         (codex_all (codex_run J (records_of (drop (nat k) (fv_Data f'))) new_codex))"
proof -
  note B = Build_codex[OF assms(1)]
  obtain digest where d: "anchorFor sha f (fv_Size f) defaultAnchorWindow = Some digest"
      "ix_Anchor idx = \<lparr>an_Algo = defaultAnchorAlgo, an_Window = defaultAnchorWindow\<rparr>"
      "ix_GenerationLineage idx = [\<lparr>pg_ID = g1, pg_ParentID = [], pg_IndexedThrough = fv_Size f, pg_AnchorHex = digest\<rparr>]"
    using B(8) by blast
  have w: "\<not> defaultAnchorWindow \<le> 0" by (simp add: defaultAnchorWindow_def)
  have v: "verifyAnchorAt sha f' idx = Some True"
    using anchorFor_prefix[OF assms(3,5) d(1)[unfolded] assms(2)] d w by (simp add: verifyAnchorAt_def currentGeneration_def B(3) Let_def)
  have "anchorFor sha f' (fv_Size f') defaultAnchorWindow \<noteq> None" using assms(2) by (simp add: anchorFor_def Let_def)
  then obtain digest' where "anchorFor sha f' (fv_Size f') defaultAnchorWindow = Some digest'" by blast
  then have "appendChildGeneration sha g3 f' idx (fv_Size f') \<noteq> None" using d(2) w by (simp add: appendChildGeneration_def Let_def)
  then obtain gen anchor lineage where g: "appendChildGeneration sha g3 f' idx (fv_Size f') = Some (gen, anchor, lineage)"
    by (metis not_None_eq prod_cases3)
  have size: "fv_Size f < fv_Size f'" using assms(3-6) by simp
  have "sameIdentity idx f'" using assms(7,8) B(6,7) by (simp add: sameIdentity_def)
  then show thesis
    using that size v g assms(2) k(2) B(3-5)
    by (simp add: Refresh_def Let_def scan_spans_codex flip: k(1))
qed

text \<open>
  Refreshing the index of a Codex transcript that has grown by whole lines gives the messages of the whole file with the right numbers,
  but places every message it reads again at offsets counted from the point where the re-reading began: the refreshed index equals the index
  built afresh only when that point is the start of the file.
\<close>

theorem codex_refresh_offsets:
  assumes "Build J sha g1 (Some f) BackendCodex path = Inr idx" and "Build J sha g2 (Some f') BackendCodex path = Inr full"
    and "fv_Data f' = fv_Data f @ tail" "tail \<noteq> []" "fv_Data f = [] \<or> last (fv_Data f) = 10"
    and "fv_Size f = int (length (fv_Data f))" "fv_Size f' = int (length (fv_Data f'))" "fv_Device f' = fv_Device f" "fv_Inode f' = fv_Inode f"
  shows "\<exists>idx'. Refresh J sha g3 (Some f') again (Some idx) = Inr idx' \<and>
     (let k = refreshReplayStart (ix_Spans idx); kept = keepSpansBefore (ix_Spans idx) k
      in (\<exists>reread. ix_Spans idx' = kept @ reread \<and> ix_Spans full = kept @ map (moved_by k) reread) \<and> (ix_Spans idx' = ix_Spans full \<longleftrightarrow> k = 0))"
proof -
  note B = Build_codex[OF assms(1)] and B' = Build_codex[OF assms(2)]
  define ss where "ss = ix_Spans idx"
  define k where "k = refreshReplayStart ss"
  show ?thesis
  proof (cases "ss = []")
    case True
    then have k: "k = 0" by (simp add: k_def refreshReplayStart_def)
    obtain idx' where i: "Refresh J sha g3 (Some f') again (Some idx) = Inr idx'"
        "ix_Spans idx' = renumber 0 (codex_all (codex_run J (records_of (fv_Data f')) new_codex))"
      using refresh_appended[OF assms(1) B'(1) assms(3,4,6-9), of k] True k by (auto simp: k_def ss_def keepSpansBefore_def)
    have "ix_Spans idx' = ix_Spans full" using i(2) spans_ok_ordinals[OF run_inv(2), of 0] by (simp add: B'(2))
    moreover have "moved_by 0 = id" by (simp add: fun_eq_iff moved_by_def)
    ultimately show ?thesis using i True k by (auto simp: ss_def k_def keepSpansBefore_def)
  next
    case False
    have ss: "ss = codex_all (codex_run J (records_of (fv_Data f)) new_codex)" using B(2) by (simp add: ss_def)
    have "k \<in> ms_ReplayStart ` set (codex_all (codex_run J (records_of (fv_Data f)) new_codex))"
      using refreshReplayStart_in[OF False] by (simp add: k_def flip: ss)
    from run_splits_at_message[OF assms(5) this]
    obtain pre post where split: "fv_Data f = pre @ post" "k = int (length pre)"
      and runs: "\<And>more. runs_after (codex_all (codex_run J (records_of pre) new_codex)) k (codex_run J (records_of (fv_Data f @ more)) new_codex) (codex_run J (records_of (post @ more)) new_codex)"
      and ne: "\<And>more. codex_all (codex_run J (records_of (post @ more)) new_codex) \<noteq> []" by metis
    define ks where "ks = codex_all (codex_run J (records_of pre) new_codex)"
    define ys where "ys = codex_all (codex_run J (records_of (post @ tail)) new_codex)"
    have okks: "spans_ok k k ks" using run_inv(2)[of pre J] by (simp add: ks_def split(2))
    have okys: "spans_ok (int (length (post @ tail))) (int (length (post @ tail))) ys" unfolding ys_def by (rule run_inv(2))
    have ss': "ss = ks @ map (later ks k) (codex_all (codex_run J (records_of post) new_codex))"
      using runs_after_all[OF runs[of "[]"]] by (simp add: ss ks_def)
    have kept: "keepSpansBefore ss k = ks"
      unfolding ss'
    proof (rule keepSpansBefore_append)
      show "ms_ReplayStart s < k" if "s \<in> set ks" for s using okks that by (fastforce simp: spans_ok_def)
      show "k \<le> ms_ReplayStart s" if "s \<in> set (map (later ks k) (codex_all (codex_run J (records_of post) new_codex)))" for s
        using run_inv(2)[of post J] that by (auto simp: spans_ok_def later_def moved_by_def)
    qed
    have full: "ix_Spans full = ks @ map (later ks k) ys"
      using runs_after_all[OF runs[of tail]] by (simp add: B'(2) assms(3) ks_def ys_def)
    have k0: "0 \<le> k" by (simp add: split(2))
    have next_ord: "(if ks = [] then 0 else ms_Ordinal (last ks) + 1) = int (length ks)"
    proof (cases ks rule: rev_cases)
      case (snoc xs y) then show ?thesis using ordinal_nth[OF okks, of "length xs"] by simp
    qed simp
    have "drop (nat k) (fv_Data f') = post @ tail" using split assms(3) by simp
    moreover obtain idx' where i0: "Refresh J sha g3 (Some f') again (Some idx) = Inr idx'"
        "ix_Spans idx' = keepSpansBefore ss k @ renumber (if keepSpansBefore ss k = [] then 0 else ms_Ordinal (last (keepSpansBefore ss k)) + 1)
           (codex_all (codex_run J (records_of (drop (nat k) (fv_Data f'))) new_codex))"
      by (rule refresh_appended[OF assms(1) B'(1) assms(3,4,6-9) k_def[unfolded ss_def] k0]) (rule that, assumption, simp add: ss_def)
    ultimately have i: "Refresh J sha g3 (Some f') again (Some idx) = Inr idx'" "ix_Spans idx' = ks @ renumber (int (length ks)) ys"
      by (simp_all only: kept next_ord ys_def)
    define reread where "reread = renumber (int (length ks)) ys"
    have re: "map (moved_by k) reread = map (later ks k) ys"
      by (simp add: reread_def spans_ok_ordinals[OF okys] later_def moved_by_def)
    have "map (moved_by k) reread = reread \<longleftrightarrow> k = 0"
    proof
      assume m: "map (moved_by k) reread = reread"
      have "reread \<noteq> []" using ne[of tail] by (simp add: reread_def spans_ok_ordinals[OF okys]) (simp add: ys_def)
      then show "k = 0" using arg_cong[OF m, of "\<lambda>l. ms_ReplayStart (hd l)"] by (simp add: hd_map moved_by_def)
    next
      assume "k = 0" then show "map (moved_by k) reread = reread" by (simp add: moved_by_def map_idI)
    qed
    moreover have "ix_Spans idx' = ix_Spans full \<longleftrightarrow> map (moved_by k) reread = reread" using full i(2) re by (auto simp: reread_def)
    ultimately show ?thesis
      using i full re kept unfolding ss_def[symmetric] k_def[symmetric] Let_def reread_def by auto
  qed
qed


section \<open>Witnesses\<close>

text \<open>Every line is a prompt of the user.\<close>

definition demo_json_lib :: json_lib where
  "demo_json_lib = \<lparr>j_codexEnvelope = (\<lambda>bs. Some (''response_item'', bs)),
     j_codexItem = (\<lambda>bs. Some \<lparr>ci_Role = ''user'', ci_Type = [], ci_Name = [], ci_Text = [], ci_Summary = [], ci_Content = [(''input_text'', ''hi'')]\<rparr>),
     j_object = (\<lambda>_. None), j_claudeEnvelope = (\<lambda>_. None), j_claudeMessage = (\<lambda>_. None), j_isString = (\<lambda>_. False), j_blocks = (\<lambda>_. None)\<rparr>"

definition demo_file :: "bytes \<Rightarrow> file_view" where
  "demo_file bs = \<lparr>fv_Size = int (length bs), fv_ModTime = 0, fv_Device = 1, fv_Inode = 2, fv_Data = bs, fv_Failed = False\<rparr>"

lemma demo_Process [simp]: "codex_Process demo_json_lib r x = emitUser r x"
proof -
  have "is_prompt_block (''input_text'', ''hi'')" by code_simp
  then show ?thesis by (simp add: codex_Process_def demo_json_lib_def codex_item_def)
qed

lemma demo_Build:
  obtains idx where "Build demo_json_lib sha gid (Some (demo_file bs)) BackendCodex path = Inr idx"
proof -
  have "anchorFor sha (demo_file bs) n w \<noteq> None" for n w by (simp add: anchorFor_def Let_def demo_file_def)
  then obtain digest where "anchorFor sha (demo_file bs) (fv_Size (demo_file bs)) defaultAnchorWindow = Some digest" by blast
  moreover have "\<not> fv_Failed (demo_file bs)" by (simp add: demo_file_def)
  ultimately show thesis using that by (simp add: Build_def scan_spans_codex finalizeNewLineage_def)
qed

lemma demo_spans:
  "codex_all (codex_run demo_json_lib (records_of [97, 10, 98, 10]) new_codex) =
     [span_of_record 0 [] \<lparr>rec_Start = 0, rec_End = 2, rec_Bytes = [97]\<rparr>, span_of_record 1 [] \<lparr>rec_Start = 2, rec_End = 4, rec_Bytes = [98]\<rparr>]"
proof -
  have "records_of ([97] @ 10 # ([98] @ 10 # [])) = [\<lparr>rec_Start = 0, rec_End = 2, rec_Bytes = [97]\<rparr>, \<lparr>rec_Start = 2, rec_End = 4, rec_Bytes = [98]\<rparr>]"
    unfolding records_of_def by (subst records_from_line, simp, subst records_from_line, simp, simp add: Let_def strip_last_def)
  then show ?thesis by (simp add: emitUser_all(1)) (simp add: emitUser_def flush_current_def new_codex_def)
qed

theorem codex_refresh_offsets_witness:
  "\<exists>idx full idx'. Build demo_json_lib id ''g'' (Some (demo_file [97, 10, 98, 10])) BackendCodex ''p'' = Inr idx \<and>
     Build demo_json_lib id ''h'' (Some (demo_file [97, 10, 98, 10, 99, 10])) BackendCodex ''p'' = Inr full \<and>
     Refresh demo_json_lib id ''i'' (Some (demo_file [97, 10, 98, 10, 99, 10])) None (Some idx) = Inr idx' \<and> ix_Spans idx' \<noteq> ix_Spans full"
proof -
  obtain idx where idx: "Build demo_json_lib id ''g'' (Some (demo_file [97, 10, 98, 10])) BackendCodex ''p'' = Inr idx" by (rule demo_Build)
  obtain full where full: "Build demo_json_lib id ''h'' (Some (demo_file [97, 10, 98, 10, 99, 10])) BackendCodex ''p'' = Inr full" by (rule demo_Build)
  have "ix_Spans idx = codex_all (codex_run demo_json_lib (records_of [97, 10, 98, 10]) new_codex)"
    using Build_codex(2)[OF idx] by (simp add: demo_file_def)
  then have k: "refreshReplayStart (ix_Spans idx) = 2"
    by (simp add: demo_spans refreshReplayStart_def span_of_record_def replay_fix.simps replay_pass_def replay_step_def)
  show ?thesis
    using codex_refresh_offsets[OF idx full, of "[99, 10]" "''i''" None] idx full by (auto simp: demo_file_def k Let_def)
qed

theorem refresh_cursors_witness:
  "\<exists>idx idx'. Refresh demo_json_lib id ''i'' (Some (demo_file [97, 10, 98, 10, 99, 10])) None (Some idx) = Inr idx' \<and> lineage_ok idx' \<and>
     ix_GenerationLineage idx \<noteq> []"
proof -
  obtain idx where idx: "Build demo_json_lib id ''g'' (Some (demo_file [97, 10, 98, 10])) BackendCodex ''p'' = Inr idx" by (rule demo_Build)
  have ids: "map pg_ID (ix_GenerationLineage idx) = [''g'']" "lineage_ok idx" using Build_lineage[OF idx] by simp_all
  have "ix_Spans idx = codex_all (codex_run demo_json_lib (records_of [97, 10, 98, 10]) new_codex)"
    using Build_codex(2)[OF idx] by (simp add: demo_file_def)
  then have k: "2 = refreshReplayStart (ix_Spans idx)"
    by (simp add: demo_spans refreshReplayStart_def span_of_record_def replay_fix.simps replay_pass_def replay_step_def)
  obtain idx' where "Refresh demo_json_lib id ''i'' (Some (demo_file [97, 10, 98, 10, 99, 10])) None (Some idx) = Inr idx'"
    by (rule refresh_appended[OF idx _ _ _ _ _ _ _ k, of "demo_file [97, 10, 98, 10, 99, 10]" "[99, 10]"]) (simp_all add: demo_file_def)
  moreover from refresh_cursors[OF ids(2) _ _ this] have "lineage_ok idx'" using ids(1) by simp
  ultimately show ?thesis using ids(1) by (intro exI[of _ idx] exI[of _ idx']) auto
qed

end
