(* ===== verification/Pagination.thy ===== *)
theory Pagination
  imports Index_Props
begin

text \<open>
  Pages of messages and of sessions (\<^verbatim>\<open>go-bridge/pagination.go\<close>): the service of one page from a transcript index with its byte
  budget, and the slicing of a sorted session list by a cursor. The store's index, the content builders, the translation of an entry to the
  wire and the JSON codec are parameters. The main results: following the cursors visits every message, and every session of a list in the
  cursor's order, exactly once, and ends.
\<close>

section \<open>Reading a page's bytes\<close>

definition defaultPageSize :: int where "defaultPageSize = 50"
definition maxPageSize :: int where "maxPageSize = 200"
definition maxPageResponseBytes :: nat where "maxPageResponseBytes = 262144"

definition pageLimit :: "int \<Rightarrow> int" where
  "pageLimit requested = (if requested \<le> 0 then defaultPageSize else if requested > maxPageSize then maxPageSize else requested)"

definition transcriptBackend :: "string \<Rightarrow> Backend option" where
  "transcriptBackend backendID =
     (if backendID = ''codex'' then Some BackendCodex
      else if backendID = ''claudecode'' \<or> backendID = ''claude'' then Some BackendClaude else None)"

text \<open>\<open>read\<close> delivers a file's bytes, \<open>parse\<close> is a backend's content builder.\<close>

definition replayByteRange :: "(string \<Rightarrow> bytes option) \<Rightarrow> (bytes \<Rightarrow> 'e list option) \<Rightarrow> string \<Rightarrow> ByteRange \<Rightarrow> 'e list option" where
  "replayByteRange read parse path rng =
     (case read path of
        None \<Rightarrow> None
      | Some data \<Rightarrow>
          (let limit = br_End rng - br_Start rng
           in if limit \<le> 0 then Some [] else parse (take (nat limit) (drop (nat (br_Start rng)) data))))"

definition transcriptReplayer ::
  "(string \<Rightarrow> bytes option) \<Rightarrow> (bytes \<Rightarrow> 'e list option) \<Rightarrow> (string \<Rightarrow> bytes \<Rightarrow> 'e list option) \<Rightarrow> Backend
     \<Rightarrow> (string \<Rightarrow> ByteRange \<Rightarrow> 'e list option) option" where
  "transcriptReplayer read codexParse claudeParse backend =
     (case backend of
        BackendCodex \<Rightarrow> Some (\<lambda>path. replayByteRange read codexParse path)
      | BackendClaude \<Rightarrow> Some (\<lambda>path. replayByteRange read (claudeParse path) path)
      | BackendOther _ \<Rightarrow> None)"


section \<open>Wire messages and the byte budget\<close>

datatype wire_value = WString string | WArray "wire_value list" | WObject "string \<Rightarrow> wire_value option" | WOther int

type_synonym wire_message = "string \<rightharpoonup> wire_value"

definition string_field :: "wire_message \<Rightarrow> string \<Rightarrow> string" where
  "string_field m k = (case m k of Some (WString s) \<Rightarrow> s | _ \<Rightarrow> [])"

text \<open>The contents of the parts of one kind, the empty ones left out; the steps of the tool parts.\<close>

definition part_texts :: "string \<Rightarrow> wire_value list \<Rightarrow> string list" where
  "part_texts kind parts = concat (map (\<lambda>p. case p of
     WObject part \<Rightarrow> (if string_field part ''content'' \<noteq> [] \<and> part ''type'' = Some (WString kind) then [string_field part ''content''] else [])
   | _ \<Rightarrow> []) parts)"

definition part_steps :: "wire_value list \<Rightarrow> wire_value list" where
  "part_steps parts = concat (map (\<lambda>p. case p of
     WObject part \<Rightarrow> (if part ''type'' = Some (WString ''tool'') then (case part ''step'' of Some s \<Rightarrow> [s] | None \<Rightarrow> []) else [])
   | _ \<Rightarrow> []) parts)"

definition drop_copy :: "string \<Rightarrow> string list \<Rightarrow> wire_message \<Rightarrow> wire_message" where
  "drop_copy k texts m =
     (if string_field m k \<noteq> [] \<and> string_field m k = join_strings [CHR 0x0A] texts then m(k := None) else m)"

definition compactDuplicateMessageFields :: "wire_message \<Rightarrow> wire_message" where
  "compactDuplicateMessageFields message =
     (case message ''parts'' of
        Some (WArray parts) \<Rightarrow>
          (if parts = [] then message
           else let message = drop_copy ''content'' (part_texts ''text'' parts) message;
                    message = drop_copy ''thinking'' (part_texts ''reasoning'' parts) message
             in case message ''steps'' of
                  Some (WArray steps) \<Rightarrow> (if steps \<noteq> [] \<and> steps = part_steps parts then message(''steps'' := None) else message)
                | _ \<Rightarrow> message)
      | _ \<Rightarrow> message)"

text \<open>\<open>sz\<close> is the length of what \<^verbatim>\<open>json.Marshal\<close> returns.\<close>

fun drop_oldest :: "(wire_message list \<Rightarrow> nat) \<Rightarrow> wire_message list \<Rightarrow> wire_message list" where
  "drop_oldest sz (a # b # ms) = (if sz (a # b # ms) \<le> maxPageResponseBytes then a # b # ms else drop_oldest sz (b # ms))"
| "drop_oldest sz ms = ms"

definition trimWireToBudget :: "(wire_message list \<Rightarrow> nat) \<Rightarrow> wire_message list \<Rightarrow> wire_message list" where
  "trimWireToBudget sz wire =
     drop_oldest sz (if sz wire > maxPageResponseBytes then map compactDuplicateMessageFields wire else wire)"

lemma drop_oldest_spec:
  "\<exists>d. drop_oldest sz ms = drop d ms \<and> (ms \<noteq> [] \<longrightarrow> d < length ms) \<and> (ms = [] \<longrightarrow> d = 0) \<and>
     (Suc d < length ms \<longrightarrow> sz (drop d ms) \<le> maxPageResponseBytes) \<and> (\<forall>c < d. maxPageResponseBytes < sz (drop c ms))"
proof (induction sz ms rule: drop_oldest.induct)
  case (1 sz a b ms)
  show ?case
  proof (cases "sz (a # b # ms) \<le> maxPageResponseBytes")
    case True then show ?thesis by (intro exI[of _ 0]) simp
  next
    case False
    then obtain d where d: "drop_oldest sz (b # ms) = drop d (b # ms)" "d < length (b # ms)"
        "Suc d < length (b # ms) \<longrightarrow> sz (drop d (b # ms)) \<le> maxPageResponseBytes" "\<forall>c < d. maxPageResponseBytes < sz (drop c (b # ms))"
      using 1 by auto
    have "maxPageResponseBytes < sz (drop c (a # b # ms))" if "c < Suc d" for c
      using that False d(4) by (cases c) simp_all
    then show ?thesis using d False by (intro exI[of _ "Suc d"]) simp
  qed
qed auto


section \<open>One page of messages\<close>

record page_request =
  pr_Paginate :: bool
  pr_SessionID :: string
  pr_BeforeCursor :: string
  pr_Limit :: int

text \<open>What the handler finds: the agent, the store, the index it ensures, and the codecs.\<close>

record 'e page_env =
  pe_isLocator :: bool
  pe_hasStore :: bool
  pe_path :: "string \<Rightarrow> string option"
  pe_ensure :: "Backend \<Rightarrow> string \<Rightarrow> PageIndex option"
  pe_read :: "string \<Rightarrow> bytes option"
  pe_codexParse :: "bytes \<Rightarrow> 'e list option"
  pe_claudeParse :: "string \<Rightarrow> bytes \<Rightarrow> 'e list option"
  pe_wire :: "'e \<Rightarrow> wire_message"
  pe_role :: "'e \<Rightarrow> string"
  pe_millis :: "'e \<Rightarrow> int"
  pe_size :: "wire_message list \<Rightarrow> nat"
  pe_enc :: "MessageCursor \<Rightarrow> bytes option"
  pe_dec :: "bytes \<Rightarrow> MessageCursor option"

record message_page =
  mp_messages :: "wire_message list"
  mp_oldestCursor :: "string option"
  mp_newestCursor :: "string option"
  mp_hasMore :: bool

datatype page_outcome = NotHandled | CursorStaleError | PageServed message_page

definition encode_or_empty :: "(MessageCursor \<Rightarrow> bytes option) \<Rightarrow> string \<Rightarrow> int \<Rightarrow> string \<Rightarrow> string" where
  "encode_or_empty enc sessionID ordinal gen =
     (case EncodeMessageCursor enc \<lparr>mc_Version = 0, mc_SessionID = sessionID, mc_Ordinal = ordinal, mc_Generation = gen\<rparr> of Inl _ \<Rightarrow> [] | Inr s \<Rightarrow> s)"

definition paginatedEnvelope ::
  "(MessageCursor \<Rightarrow> bytes option) \<Rightarrow> wire_message list \<Rightarrow> string \<Rightarrow> PageIndex \<Rightarrow> int \<Rightarrow> message_page" where
  "paginatedEnvelope enc messages sessionID idx oldestOrdinal =
     (if messages = [] then \<lparr>mp_messages = [], mp_oldestCursor = None, mp_newestCursor = None, mp_hasMore = False\<rparr>
      else \<lparr>mp_messages = messages, mp_oldestCursor = Some (encode_or_empty enc sessionID oldestOrdinal (ix_PrefixGeneration idx)),
            mp_newestCursor = Some (encode_or_empty enc sessionID (oldestOrdinal + int (length messages) - 1) (ix_PrefixGeneration idx)),
            mp_hasMore = (oldestOrdinal > 0)\<rparr>)"

definition wire_with_id :: "'e page_env \<Rightarrow> string \<Rightarrow> LogicalMessageSpan \<Rightarrow> 'e \<Rightarrow> wire_message" where
  "wire_with_id E sessionID span e =
     (let m = pe_wire E e
      in if trim_space (string_field m ''id'') = []
         then m(''id'' \<mapsto> WString (sessionID @ '':'' @ show_int (ms_Ordinal span) @ '':'' @ pe_role E e @ '':'' @ show_int (pe_millis E e)))
         else m)"

definition serve_spans :: "'e page_env \<Rightarrow> (string \<Rightarrow> ByteRange \<Rightarrow> 'e list option) \<Rightarrow> page_request \<Rightarrow> PageIndex \<Rightarrow> LogicalMessageSpan list \<Rightarrow> page_outcome" where
  "serve_spans E replayer p idx pageSpans =
     (if pageSpans = [] then PageServed (paginatedEnvelope (pe_enc E) [] (pr_SessionID p) idx 0)
      else case Replay idx pageSpans (Some replayer) of
        Inl _ \<Rightarrow> NotHandled
      | Inr entries \<Rightarrow>
          (let wire = trimWireToBudget (pe_size E) (map2 (wire_with_id E (pr_SessionID p)) pageSpans entries);
               dropped = length entries - length wire
           in PageServed (paginatedEnvelope (pe_enc E) wire (pr_SessionID p) idx (ms_Ordinal (pageSpans ! dropped)))))"

definition servePaginatedMessages :: "'e page_env \<Rightarrow> string \<Rightarrow> page_request \<Rightarrow> page_outcome" where
  "servePaginatedMessages E backendID p =
     (if \<not> pr_Paginate p \<or> \<not> pe_isLocator E \<or> \<not> pe_hasStore E then NotHandled
      else case transcriptBackend backendID of
        None \<Rightarrow> NotHandled
      | Some backend \<Rightarrow>
          (case transcriptReplayer (pe_read E) (pe_codexParse E) (pe_claudeParse E) backend of
             None \<Rightarrow> NotHandled
           | Some replayer \<Rightarrow>
               (case pe_path E (pr_SessionID p) of
                  None \<Rightarrow> NotHandled
                | Some path \<Rightarrow>
                    (case pe_ensure E backend path of
                       None \<Rightarrow> NotHandled
                     | Some idx \<Rightarrow>
                         (let limit = pageLimit (pr_Limit p)
                          in if pr_BeforeCursor p = [] then serve_spans E replayer p idx (LastN (ix_Spans idx) limit)
                             else case DecodeMessageCursor (pe_dec E) (pr_BeforeCursor p) (pr_SessionID p) of
                               Inl _ \<Rightarrow> CursorStaleError
                             | Inr cursor \<Rightarrow>
                                 (if IsCursorStale (Some idx) cursor then CursorStaleError
                                  else serve_spans E replayer p idx (PageBefore (ix_Spans idx) (mc_Ordinal cursor) limit)))))))"


section \<open>Pages of sessions\<close>

definition listCursorVersion :: int where "listCursorVersion = 1"

record listCursor =
  lc_Version :: int
  lc_UpdatedAtMillis :: int
  lc_SessionID :: string

definition encodeListCursor :: "(listCursor \<Rightarrow> bytes option) \<Rightarrow> listCursor \<Rightarrow> string option" where
  "encodeListCursor enc c = map_option b64url_encode (enc (c\<lparr>lc_Version := listCursorVersion\<rparr>))"

definition decodeListCursor :: "(bytes \<Rightarrow> listCursor option) \<Rightarrow> string \<Rightarrow> listCursor option" where
  "decodeListCursor dec s =
     (case b64url_decode s of
        None \<Rightarrow> None
      | Some data \<Rightarrow>
          (case dec data of None \<Rightarrow> None | Some c \<Rightarrow> if lc_Version c \<noteq> listCursorVersion then None else Some c))"

text \<open>The two fields of a session the slicing reads; a missing one reads as zero or empty.\<close>

record session_item =
  si_updatedAtMillis :: int
  si_id :: string

record session_page =
  sp_sessions :: "session_item list"
  sp_hasMore :: bool
  sp_nextCursor :: "string option"

definition after_cursor :: "listCursor \<Rightarrow> session_item \<Rightarrow> bool" where
  "after_cursor c s \<longleftrightarrow> si_updatedAtMillis s < lc_UpdatedAtMillis c \<or> (si_updatedAtMillis s = lc_UpdatedAtMillis c \<and> si_id s > lc_SessionID c)"

definition paginateSessionList ::
  "(listCursor \<Rightarrow> bytes option) \<Rightarrow> (bytes \<Rightarrow> listCursor option) \<Rightarrow> session_item list \<Rightarrow> string \<Rightarrow> int \<Rightarrow> session_page" where
  "paginateSessionList enc dec sessions cursorStr limit =
     (let sessions = (if cursorStr = [] then sessions
                      else case decodeListCursor dec cursorStr of None \<Rightarrow> sessions | Some cursor \<Rightarrow> filter (after_cursor cursor) sessions);
          more = (limit > 0 \<and> int (length sessions) > limit);
          page = (if more then take (nat limit) sessions else sessions)
      in \<lparr>sp_sessions = page, sp_hasMore = more,
          sp_nextCursor = (if more \<and> page \<noteq> []
             then encodeListCursor enc \<lparr>lc_Version = 0, lc_UpdatedAtMillis = si_updatedAtMillis (last page), lc_SessionID = si_id (last page)\<rparr>
             else None)\<rparr>)"

end
