(* ===== verification/Pagination_Props.thy ===== *)
theory Pagination_Props
  imports Pagination
begin

text \<open>
  Paging to the end: a client that follows the cursors of the message pages gets every message of the session once and stops, the budget
  notwithstanding; and one that follows the cursors of a session list in the cursor's order gets the list.
\<close>

section \<open>Following the message cursors\<close>

fun walk_messages :: "'e page_env \<Rightarrow> string \<Rightarrow> page_request \<Rightarrow> nat \<Rightarrow> string \<Rightarrow> wire_message list option" where
  "walk_messages E b p 0 cur = None"
| "walk_messages E b p (Suc fuel) cur =
     (case servePaginatedMessages E b (p\<lparr>pr_BeforeCursor := cur\<rparr>) of
        PageServed r \<Rightarrow>
          (if mp_hasMore r
           then map_option (\<lambda>older. older @ mp_messages r) (walk_messages E b p fuel (case mp_oldestCursor r of Some c \<Rightarrow> c | None \<Rightarrow> []))
           else Some (mp_messages r))
      | _ \<Rightarrow> None)"

text \<open>What the codec of cursors promises: what was encoded is decoded, and nothing encodes to the empty string.\<close>

definition cursor_codec_ok :: "('c \<Rightarrow> bytes option) \<Rightarrow> (bytes \<Rightarrow> 'c option) \<Rightarrow> bool" where
  "cursor_codec_ok enc dec \<longleftrightarrow> (\<forall>c. \<exists>data. enc c = Some data \<and> data \<noteq> [] \<and> dec data = Some c)"

text \<open>The index exists, is well-formed, and its own generation is in its chain; the content builder keeps its contract.\<close>

definition pages_ready :: "'e page_env \<Rightarrow> string \<Rightarrow> page_request \<Rightarrow> PageIndex \<Rightarrow> (LogicalMessageSpan \<Rightarrow> 'e) \<Rightarrow> bool" where
  "pages_ready E b p idx content \<longleftrightarrow>
     pr_Paginate p \<and> pe_isLocator E \<and> pe_hasStore E \<and> pr_SessionID p \<noteq> [] \<and> cursor_codec_ok (pe_enc E) (pe_dec E) \<and>
     ix_PrefixGeneration idx \<in> set (map pg_ID (ix_GenerationLineage idx)) \<and>
     (\<exists>l e. spans_ok l e (ix_Spans idx)) \<and>
     (\<exists>backend path rp. transcriptBackend b = Some backend \<and> pe_path E (pr_SessionID p) = Some path \<and> pe_ensure E backend path = Some idx \<and>
        transcriptReplayer (pe_read E) (pe_codexParse E) (pe_claudeParse E) backend = Some rp \<and> replayer_ok idx content rp)"

text \<open>A message on the wire is its entry with an identifier, or that without the copies its parts hold.\<close>

definition sent_as :: "'e page_env \<Rightarrow> string \<Rightarrow> (LogicalMessageSpan \<Rightarrow> 'e) \<Rightarrow> wire_message \<Rightarrow> LogicalMessageSpan \<Rightarrow> bool" where
  "sent_as E sid content m s \<longleftrightarrow> m = wire_with_id E sid s (content s) \<or> m = compactDuplicateMessageFields (wire_with_id E sid s (content s))"

lemma trim_suffix:
  assumes "wire \<noteq> []"
  obtains d where "d < length wire" "trimWireToBudget sz wire = drop d wire \<or> trimWireToBudget sz wire = map compactDuplicateMessageFields (drop d wire)"
    "Suc d < length wire \<longrightarrow> sz (trimWireToBudget sz wire) \<le> maxPageResponseBytes"
proof -
  define w where "w = (if sz wire > maxPageResponseBytes then map compactDuplicateMessageFields wire else wire)"
  obtain d where "drop_oldest sz w = drop d w" "w \<noteq> [] \<longrightarrow> d < length w" "Suc d < length w \<longrightarrow> sz (drop d w) \<le> maxPageResponseBytes"
    using drop_oldest_spec[of sz w] by blast
  then show thesis using that[of d] assms by (simp add: trimWireToBudget_def w_def drop_map split: if_splits)
qed

lemma sent_as_map2:
  "length es = length ss \<Longrightarrow> es = map content ss \<Longrightarrow> list_all2 (sent_as E sid content) (map2 (wire_with_id E sid) ss es) ss"
  by (simp add: list_all2_conv_all_nth sent_as_def)

lemma list_all2_compact:
  "list_all2 (sent_as E sid content) ws ss \<Longrightarrow> (\<forall>i < length ss. ws ! i = wire_with_id E sid (ss ! i) (content (ss ! i))) \<Longrightarrow>
   list_all2 (sent_as E sid content) (map compactDuplicateMessageFields ws) ss"
  by (simp add: list_all2_conv_all_nth sent_as_def)

text \<open>One page before message \<open>k\<close>: the messages \<open>a \<le> i < k\<close>, of which the budget keeps those from some \<open>j < k\<close> on.\<close>

lemma serve_page:
  assumes ok: "spans_ok l e (ix_Spans idx)" and rp: "replayer_ok idx content rp" and k: "0 < k" "k \<le> length (ix_Spans idx)" and c: "0 < count"
  obtains j ms where "j < k" "serve_spans E rp p idx (page_of (int k) count (ix_Spans idx)) = PageServed (paginatedEnvelope (pe_enc E) ms (pr_SessionID p) idx (int j))"
    "ms \<noteq> []" "list_all2 (sent_as E (pr_SessionID p) content) ms (drop j (take k (ix_Spans idx)))"
proof -
  define ss where "ss = ix_Spans idx"
  define a where "a = k - nat count"
  define page where "page = drop a (take k ss)"
  define w where "w = map2 (wire_with_id E (pr_SessionID p)) page (map content page)"
  have a: "a < k" using k c by (simp add: a_def)
  have po: "page_of (int k) count ss = page" using k by (simp add: page_of_def page_def a_def ss_def Let_def)
  have len: "length page = k - a" "length w = k - a" using k a by (simp_all add: page_def ss_def w_def)
  have ne: "page \<noteq> []" "w \<noteq> []" using len a by auto
  obtain d where d: "d < length w" "trimWireToBudget (pe_size E) w = drop d w \<or> trimWireToBudget (pe_size E) w = map compactDuplicateMessageFields (drop d w)"
    by (rule trim_suffix[OF ne(2)])
  define ms where "ms = trimWireToBudget (pe_size E) w"
  have lms: "length ms = k - a - d" using d(2) len by (auto simp: ms_def)
  have ne2: "ms \<noteq> []" using lms d(1) len by auto
  have ord: "ms_Ordinal (page ! d) = int (a + d)"
    using d(1) len k a ordinal_nth[OF ok, of "a + d"] by (simp add: page_def ss_def)
  have all: "list_all2 (sent_as E (pr_SessionID p) content) (drop d w) (drop d page)"
    unfolding w_def by (rule list_all2_dropI) (rule sent_as_map2, simp_all)
  have "list_all2 (sent_as E (pr_SessionID p) content) ms (drop d page)"
    using d(2) all list_all2_compact[OF all] by (auto simp: ms_def w_def)
  moreover have "drop d page = drop (a + d) (take k ss)" by (simp add: page_def add.commute)
  moreover have "serve_spans E rp p idx page = PageServed (paginatedEnvelope (pe_enc E) ms (pr_SessionID p) idx (int (a + d)))"
    using ne(1) replay_page_of[OF ok rp, of "int k" count] len lms d(1) ord
    by (simp add: serve_spans_def po[unfolded ss_def] Let_def ms_def[symmetric] w_def[symmetric])
  ultimately show thesis
    using that[of "a + d" ms] d(1) len lms ne2 by (simp add: po[unfolded ss_def] ss_def)
qed

lemma codec_encode:
  assumes "cursor_codec_ok enc dec" and "sid \<noteq> []"
  shows "encode_or_empty enc sid n gen \<noteq> []"
    and "DecodeMessageCursor dec (encode_or_empty enc sid n gen) sid = Inr \<lparr>mc_Version = cursorVersion, mc_SessionID = sid, mc_Ordinal = n, mc_Generation = gen\<rparr>"
proof -
  let ?c = "\<lparr>mc_Version = cursorVersion, mc_SessionID = sid, mc_Ordinal = n, mc_Generation = gen\<rparr>"
  obtain data where d: "enc ?c = Some data" "data \<noteq> []" "dec data = Some ?c" using assms(1) unfolding cursor_codec_ok_def by blast
  have e: "encode_or_empty enc sid n gen = b64url_encode data"
    using assms(2) d(1) by (simp add: encode_or_empty_def EncodeMessageCursor_def)
  have "length (b64url_encode data) \<noteq> 0" using d(2) by (cases data) (simp_all add: length_b64url_encode)
  then show "encode_or_empty enc sid n gen \<noteq> []" by (simp add: e)
  show "DecodeMessageCursor dec (encode_or_empty enc sid n gen) sid = Inr ?c"
    by (simp add: e DecodeMessageCursor_def b64url_roundtrip d(3))
qed

lemma pageLimit_pos: "0 < pageLimit n"
  by (simp add: pageLimit_def defaultPageSize_def maxPageSize_def)

lemma walk_before:
  assumes ready: "pages_ready E b p idx content" and "k \<le> length (ix_Spans idx)" "0 < k" "k \<le> fuel"
    and cur: "cur = encode_or_empty (pe_enc E) (pr_SessionID p) (int k) (ix_PrefixGeneration idx) \<or> (cur = [] \<and> k = length (ix_Spans idx))"
  shows "\<exists>ms. walk_messages E b p fuel cur = Some ms \<and> list_all2 (sent_as E (pr_SessionID p) content) ms (take k (ix_Spans idx))"
  using assms(2-5)
proof (induction k arbitrary: fuel cur rule: less_induct)
  case (less k)
  let ?sid = "pr_SessionID p"
  obtain l e backend path rp where R: "pr_Paginate p" "pe_isLocator E" "pe_hasStore E" "?sid \<noteq> []" "cursor_codec_ok (pe_enc E) (pe_dec E)"
      "ix_PrefixGeneration idx \<in> set (map pg_ID (ix_GenerationLineage idx))" "spans_ok l e (ix_Spans idx)" "transcriptBackend b = Some backend"
      "pe_path E ?sid = Some path" "pe_ensure E backend path = Some idx"
      "transcriptReplayer (pe_read E) (pe_codexParse E) (pe_claudeParse E) backend = Some rp" "replayer_ok idx content rp"
    using ready unfolding pages_ready_def by blast
  obtain f where f: "fuel = Suc f" using less.prems by (cases fuel) auto
  obtain j ms where page: "j < k"
      "serve_spans E rp (p\<lparr>pr_BeforeCursor := cur\<rparr>) idx (page_of (int k) (pageLimit (pr_Limit p)) (ix_Spans idx)) =
         PageServed (paginatedEnvelope (pe_enc E) ms (pr_SessionID (p\<lparr>pr_BeforeCursor := cur\<rparr>)) idx (int j))"
      "ms \<noteq> []" "list_all2 (sent_as E (pr_SessionID (p\<lparr>pr_BeforeCursor := cur\<rparr>)) content) ms (drop j (take k (ix_Spans idx)))"
    by (rule serve_page[OF R(7,12) less.prems(2,1) pageLimit_pos])
  have serve: "servePaginatedMessages E b (p\<lparr>pr_BeforeCursor := cur\<rparr>) = PageServed (paginatedEnvelope (pe_enc E) ms ?sid idx (int j))"
  proof (cases "cur = []")
    case True
    then have "k = length (ix_Spans idx)" using less.prems(4) codec_encode(1)[OF R(5,4)] by metis
    then show ?thesis using R page(2) True by (simp add: servePaginatedMessages_def Let_def LastN_page_of)
  next
    case False
    then have "cur = encode_or_empty (pe_enc E) ?sid (int k) (ix_PrefixGeneration idx)" using less.prems(4) by simp
    then show ?thesis
      using R page(2) False codec_encode(2)[OF R(5,4), of "int k" "ix_PrefixGeneration idx"]
      by (simp add: servePaginatedMessages_def Let_def IsCursorStale_def PageBefore_page_of[OF R(7)])
  qed
  have msgs: "list_all2 (sent_as E ?sid content) ms (drop j (take k (ix_Spans idx)))" using page(4) by simp
  show ?case
  proof (cases "j = 0")
    case True
    then show ?thesis using msgs page(3) by (simp add: f serve paginatedEnvelope_def)
  next
    case False
    have cursor: "encode_or_empty (pe_enc E) ?sid (int j) (ix_PrefixGeneration idx) = encode_or_empty (pe_enc E) ?sid (int j) (ix_PrefixGeneration idx) \<or> (encode_or_empty (pe_enc E) ?sid (int j) (ix_PrefixGeneration idx) = [] \<and> j = length (ix_Spans idx))"
      by simp
    have jl: "j \<le> length (ix_Spans idx)" "0 < j" "j \<le> f" using page(1) less.prems(1,3) False f by simp_all
    obtain older where o: "walk_messages E b p f (encode_or_empty (pe_enc E) ?sid (int j) (ix_PrefixGeneration idx)) = Some older"
        "list_all2 (sent_as E ?sid content) older (take j (ix_Spans idx))"
      using less.IH[OF page(1) jl cursor] by blast
    have "take j (ix_Spans idx) @ drop j (take k (ix_Spans idx)) = take k (ix_Spans idx)"
      using page(1) by (metis append_take_drop_id less_imp_le min.absorb1 take_take)
    then have "list_all2 (sent_as E ?sid content) (older @ ms) (take k (ix_Spans idx))"
      using list_all2_appendI[OF o(2) msgs] by simp
    then show ?thesis using o(1) page(3) False by (simp add: f serve paginatedEnvelope_def)
  qed
qed


text \<open>
  The byte budget: what is sent of a page is never empty when the page is not, and is the latest messages of it, all as they are or all
  without the copies; it fits the budget unless a single message is left, and the messages are cut only as far as needed.
\<close>

theorem trim_keeps_newest:
  "let sent = trimWireToBudget sz wire; cand = (if sz wire > maxPageResponseBytes then map compactDuplicateMessageFields wire else wire)
   in \<exists>d. sent = drop d cand \<and> (wire = [] \<or> d < length wire) \<and> (length sent \<le> 1 \<or> sz sent \<le> maxPageResponseBytes) \<and>
        (\<forall>c < d. maxPageResponseBytes < sz (drop c cand))"
proof -
  define cand where "cand = (if sz wire > maxPageResponseBytes then map compactDuplicateMessageFields wire else wire)"
  obtain d where d: "drop_oldest sz cand = drop d cand" "cand \<noteq> [] \<longrightarrow> d < length cand"
      "Suc d < length cand \<longrightarrow> sz (drop d cand) \<le> maxPageResponseBytes" "\<forall>c < d. maxPageResponseBytes < sz (drop c cand)"
    using drop_oldest_spec[of sz cand] by blast
  have "length cand = length wire" "cand = [] \<longleftrightarrow> wire = []" by (simp_all add: cand_def)
  then show ?thesis
    unfolding Let_def cand_def[symmetric] using d by (intro exI[of _ d]) (auto simp: trimWireToBudget_def simp flip: cand_def)
qed

theorem trim_keeps_newest_witness:
  "length (trimWireToBudget (\<lambda>ms. 200000 * length ms) [Map.empty, Map.empty, Map.empty]) = 1"
proof -
  let ?sz = "\<lambda>ms :: wire_message list. 200000 * length ms" and ?w = "[Map.empty, Map.empty, Map.empty] :: wire_message list"
  obtain d where d: "trimWireToBudget ?sz ?w = drop d (map compactDuplicateMessageFields ?w)" "d < 3"
      "length (trimWireToBudget ?sz ?w) \<le> 1 \<or> ?sz (trimWireToBudget ?sz ?w) \<le> maxPageResponseBytes"
    using trim_keeps_newest[of ?sz ?w] by (auto simp: Let_def maxPageResponseBytes_def)
  then have "length (trimWireToBudget ?sz ?w) \<le> 1" by (auto simp: maxPageResponseBytes_def)
  moreover have "length (trimWireToBudget ?sz ?w) = 3 - d" using d(1) by simp
  ultimately show ?thesis using d(2) by simp
qed


section \<open>Following the session cursors\<close>

fun walk_sessions ::
  "(listCursor \<Rightarrow> bytes option) \<Rightarrow> (bytes \<Rightarrow> listCursor option) \<Rightarrow> session_item list \<Rightarrow> int \<Rightarrow> nat \<Rightarrow> string \<Rightarrow> session_item list option" where
  "walk_sessions enc dec sessions limit 0 cur = None"
| "walk_sessions enc dec sessions limit (Suc fuel) cur =
     (let r = paginateSessionList enc dec sessions cur limit
      in if sp_hasMore r
         then map_option (\<lambda>rest. sp_sessions r @ rest) (walk_sessions enc dec sessions limit fuel (case sp_nextCursor r of Some c \<Rightarrow> c | None \<Rightarrow> []))
         else Some (sp_sessions r))"

definition listed_before :: "session_item \<Rightarrow> session_item \<Rightarrow> bool" where
  "listed_before s t \<longleftrightarrow> si_updatedAtMillis t < si_updatedAtMillis s \<or> (si_updatedAtMillis t = si_updatedAtMillis s \<and> si_id s < si_id t)"

definition cursor_of :: "session_item \<Rightarrow> listCursor" where
  "cursor_of s = \<lparr>lc_Version = 0, lc_UpdatedAtMillis = si_updatedAtMillis s, lc_SessionID = si_id s\<rparr>"

lemma list_codec:
  assumes "cursor_codec_ok enc dec"
  obtains cur where "encodeListCursor enc (cursor_of s) = Some cur" "cur \<noteq> []"
    "decodeListCursor dec cur = Some ((cursor_of s)\<lparr>lc_Version := listCursorVersion\<rparr>)"
proof -
  obtain data where d: "enc ((cursor_of s)\<lparr>lc_Version := listCursorVersion\<rparr>) = Some data" "data \<noteq> []"
      "dec data = Some ((cursor_of s)\<lparr>lc_Version := listCursorVersion\<rparr>)"
    using assms unfolding cursor_codec_ok_def by blast
  have "length (b64url_encode data) \<noteq> 0" using d(2) by (cases data) (simp_all add: length_b64url_encode)
  then show thesis using that[of "b64url_encode data"] d by (auto simp: encodeListCursor_def decodeListCursor_def b64url_roundtrip)
qed

lemma after_cursor_of: "after_cursor ((cursor_of s)\<lparr>lc_Version := v\<rparr>) = listed_before s"
  by (auto simp: fun_eq_iff after_cursor_def cursor_of_def listed_before_def)

lemma listed_before_asym: "listed_before s t \<Longrightarrow> \<not> listed_before t s"
  by (auto simp: listed_before_def)

lemma last_take: "0 < k \<Longrightarrow> k \<le> length ss \<Longrightarrow> last (take k ss) = ss ! (k - 1)"
  by (cases k) (simp_all add: take_Suc_conv_app_nth)

lemma filter_after:
  assumes "sorted_wrt listed_before ss" and "0 < k" "k \<le> length ss"
  shows "filter (listed_before (last (take k ss))) ss = drop k ss"
proof -
  have l: "last (take k ss) = ss ! (k - 1)" using assms(2,3) by (rule last_take)
  have "listed_before (ss ! (k - 1)) (ss ! i) \<longleftrightarrow> k \<le> i" if "i < length ss" for i
  proof
    assume b: "listed_before (ss ! (k - 1)) (ss ! i)"
    show "k \<le> i"
    proof (rule ccontr)
      assume "\<not> k \<le> i"
      show False
      proof (cases "i = k - 1")
        case True then show False using b by (simp add: listed_before_def)
      next
        case False
        then have "i < k - 1" "k - 1 < length ss" using \<open>\<not> k \<le> i\<close> assms(2,3) by auto
        then have "listed_before (ss ! i) (ss ! (k - 1))" by (rule sorted_wrt_nth_less[OF assms(1)])
        then show False using listed_before_asym b by blast
      qed
    qed
  next
    assume "k \<le> i"
    then have "k - 1 < i" using assms(2) by simp
    then show "listed_before (ss ! (k - 1)) (ss ! i)" using that by (rule sorted_wrt_nth_less[OF assms(1)])
  qed
  then have "filter (listed_before (ss ! (k - 1))) ss = drop k (take (length ss) ss)"
    using assms(3) by (intro filter_interval) auto
  then show ?thesis by (simp add: l)
qed

lemma walk_sessions_from:
  assumes codec: "cursor_codec_ok enc dec" and sorted: "sorted_wrt listed_before ss" and "0 < limit"
    and "k \<le> length ss" "length ss - k < fuel"
    and cur: "(k = 0 \<and> cur = []) \<or> (0 < k \<and> cur \<noteq> [] \<and> decodeListCursor dec cur = Some ((cursor_of (last (take k ss)))\<lparr>lc_Version := listCursorVersion\<rparr>))"
  shows "walk_sessions enc dec ss limit fuel cur = Some (drop k ss)"
  using assms(4-6)
proof (induction fuel arbitrary: k cur)
  case (Suc fuel)
  have rest: "(if cur = [] then ss else case decodeListCursor dec cur of None \<Rightarrow> ss | Some c \<Rightarrow> filter (after_cursor c) ss) = drop k ss"
  proof (cases "k = 0")
    case False
    then show ?thesis using Suc.prems filter_after[OF sorted, of k] by (auto simp: after_cursor_of)
  qed (use Suc.prems in auto)
  show ?case
  proof (cases "int (length (drop k ss)) > limit")
    case False
    then show ?thesis unfolding walk_sessions.simps paginateSessionList_def rest by (simp add: Let_def)
  next
    case True
    define n where "n = nat limit"
    define page where "page = take n (drop k ss)"
    have n: "0 < n" "n < length ss - k" using assms(3) True Suc.prems(1) by (auto simp: n_def)
    then have page: "page \<noteq> []" by (simp add: page_def)
    have last: "last page = last (take (k + n) ss)"
      using n last_take[of "k + n" ss] last_take[of n "drop k ss"] by (simp add: page_def)
    obtain c where c: "encodeListCursor enc (cursor_of (last page)) = Some c" "c \<noteq> []"
        "decodeListCursor dec c = Some ((cursor_of (last page))\<lparr>lc_Version := listCursorVersion\<rparr>)"
      by (rule list_codec[OF codec])
    have "walk_sessions enc dec ss limit fuel c = Some (drop (k + n) ss)"
      using c n Suc.prems(1,2) by (intro Suc.IH) (auto simp: last)
    moreover have "page @ drop (k + n) ss = drop k ss" by (metis page_def append_take_drop_id drop_drop add.commute)
    moreover have "paginateSessionList enc dec ss cur limit = \<lparr>sp_sessions = page, sp_hasMore = True, sp_nextCursor = Some c\<rparr>"
      using True assms(3) page c(1) unfolding paginateSessionList_def rest by (simp add: Let_def page_def n_def cursor_of_def)
    ultimately show ?thesis by (simp add: Let_def)
  qed
qed simp

text \<open>
  A session list that is in the cursor's order (milliseconds falling, identifiers rising, no two alike) is delivered completely: following
  the cursors from the first page yields the list itself, in at most as many requests as it has sessions, plus one.
\<close>

theorem session_paging_complete:
  assumes "cursor_codec_ok enc dec" and "sorted_wrt listed_before ss" and "0 < limit"
  shows "walk_sessions enc dec ss limit (Suc (length ss)) [] = Some ss"
  using walk_sessions_from[OF assms, of 0 "Suc (length ss)" "[]"] by simp


section \<open>Witnesses\<close>

text \<open>A codec of cursors: the version and the number as bytes after the two names.\<close>

definition demo_name :: "string \<Rightarrow> bytes" where
  "demo_name s = replicate (length s) 1 @ 0 # bytes_of s"

fun demo_unname :: "bytes \<Rightarrow> string \<times> bytes" where
  "demo_unname bs = (let n = length (takeWhile (\<lambda>b. b = 1) bs)
     in (map (\<lambda>b. char_of (unat b)) (take n (drop (Suc n) bs)), drop (Suc (n + n)) bs))"

lemma demo_unname_name [simp]: "demo_unname (demo_name s @ bs) = (s, bs)"
proof -
  have "takeWhile (\<lambda>b. b = 1) (replicate n 1 @ 0 # x) = replicate n (1 :: 8 word)" for n x by (induction n) simp_all
  moreover have "char_of (unat (of_char c :: 8 word)) = c" for c
  proof -
    have "unat (of_nat (of_char c) :: 8 word) = of_char c" using nat_of_char_less_256[of c] by (simp add: unat_of_nat)
    then show ?thesis by (simp add: of_nat_of_char)
  qed
  ultimately show ?thesis by (simp add: demo_name_def bytes_of_def Let_def comp_def)
qed

definition demo_int :: "int \<Rightarrow> string" where
  "demo_int i = replicate (nat i) CHR ''p'' @ replicate (nat (- i)) CHR ''m''"

definition demo_unint :: "string \<Rightarrow> int" where
  "demo_unint s = int (length (filter ((=) CHR ''p'') s)) - int (length (filter ((=) CHR ''m'') s))"

lemma demo_unint_int [simp]: "demo_unint (demo_int i) = i"
  by (simp add: demo_unint_def demo_int_def filter_replicate)

definition demo_cursor_enc :: "MessageCursor \<Rightarrow> bytes option" where
  "demo_cursor_enc c = Some (demo_name (demo_int (mc_Version c)) @ demo_name (mc_SessionID c) @ demo_name (demo_int (mc_Ordinal c)) @ demo_name (mc_Generation c))"

definition demo_cursor_dec :: "bytes \<Rightarrow> MessageCursor option" where
  "demo_cursor_dec bs = (let (v, bs) = demo_unname bs; (s, bs) = demo_unname bs; (n, bs) = demo_unname bs; (g, bs) = demo_unname bs
     in Some \<lparr>mc_Version = demo_unint v, mc_SessionID = s, mc_Ordinal = demo_unint n, mc_Generation = g\<rparr>)"

lemma demo_name_not_Nil [simp]: "demo_name s \<noteq> []"
  by (simp add: demo_name_def)

lemma demo_cursor_ok: "cursor_codec_ok demo_cursor_enc demo_cursor_dec"
proof -
  have "demo_unname (demo_name s) = (s, [])" for s using demo_unname_name[of s "[]"] by simp
  then show ?thesis by (auto simp: cursor_codec_ok_def demo_cursor_enc_def demo_cursor_dec_def Let_def simp del: demo_unname.simps)
qed

definition demo_list_enc :: "listCursor \<Rightarrow> bytes option" where
  "demo_list_enc c = Some (demo_name (demo_int (lc_Version c)) @ demo_name (demo_int (lc_UpdatedAtMillis c)) @ demo_name (lc_SessionID c))"

definition demo_list_dec :: "bytes \<Rightarrow> listCursor option" where
  "demo_list_dec bs = (let (v, bs) = demo_unname bs; (t, bs) = demo_unname bs; (s, bs) = demo_unname bs
     in Some \<lparr>lc_Version = demo_unint v, lc_UpdatedAtMillis = demo_unint t, lc_SessionID = s\<rparr>)"

lemma demo_list_ok: "cursor_codec_ok demo_list_enc demo_list_dec"
proof -
  have "demo_unname (demo_name s) = (s, [])" for s using demo_unname_name[of s "[]"] by simp
  then show ?thesis by (auto simp: cursor_codec_ok_def demo_list_enc_def demo_list_dec_def Let_def simp del: demo_unname.simps)
qed

text \<open>
  Entries are numbers; the builder reads the file's first byte range by its bounds, which the file holds as its bytes \<open>0, \<dots>, 49\<close>.
\<close>

definition demo_claude_parse :: "string \<Rightarrow> bytes \<Rightarrow> int list option" where
  "demo_claude_parse path bs =
     Some (map ms_Ordinal (filter (\<lambda>s. bs \<noteq> [] \<and> uint (hd bs) \<le> ms_ReplayStart s \<and> ms_EndOffset s \<le> uint (last bs) + 1) demo_spans_list))"

definition demo_page_env :: "int page_env" where
  "demo_page_env = \<lparr>pe_isLocator = True, pe_hasStore = True, pe_path = (\<lambda>_. Some []),
     pe_ensure = (\<lambda>_ _. Some (demo_index\<lparr>ix_PrefixGeneration := ''g'',
        ix_GenerationLineage := [\<lparr>pg_ID = ''g'', pg_ParentID = [], pg_IndexedThrough = 50, pg_AnchorHex = []\<rparr>]\<rparr>)),
     pe_read = (\<lambda>_. Some (map of_nat [0..<50])), pe_codexParse = (\<lambda>_. None), pe_claudeParse = demo_claude_parse,
     pe_wire = (\<lambda>n. [''n'' \<mapsto> WOther n]), pe_role = (\<lambda>_. ''user''), pe_millis = (\<lambda>n. n), pe_size = (\<lambda>ms. 200000 * length ms),
     pe_enc = demo_cursor_enc, pe_dec = demo_cursor_dec\<rparr>"

theorem session_paging_complete_witness:
  "walk_sessions demo_list_enc demo_list_dec [\<lparr>si_updatedAtMillis = 9, si_id = ''b''\<rparr>, \<lparr>si_updatedAtMillis = 5, si_id = ''a''\<rparr>] 1 3 [] =
     Some [\<lparr>si_updatedAtMillis = 9, si_id = ''b''\<rparr>, \<lparr>si_updatedAtMillis = 5, si_id = ''a''\<rparr>]"
  using session_paging_complete[OF demo_list_ok, of "[\<lparr>si_updatedAtMillis = 9, si_id = ''b''\<rparr>, \<lparr>si_updatedAtMillis = 5, si_id = ''a''\<rparr>]" 1]
  by (simp add: listed_before_def numeral_3_eq_3 del: walk_sessions.simps)

definition demo_page_request :: page_request where
  "demo_page_request = \<lparr>pr_Paginate = True, pr_SessionID = ''s'', pr_BeforeCursor = [], pr_Limit = 2\<rparr>"

definition demo_page_index :: PageIndex where
  "demo_page_index = demo_index\<lparr>ix_PrefixGeneration := ''g'',
     ix_GenerationLineage := [\<lparr>pg_ID = ''g'', pg_ParentID = [], pg_IndexedThrough = 50, pg_AnchorHex = []\<rparr>]\<rparr>"

lemma demo_pages_ready: "pages_ready demo_page_env ''claude'' demo_page_request demo_page_index ms_Ordinal"
proof -
  have "demo_claude_parse [] (map of_nat [0..<40]) = Some [0, 1]" "demo_claude_parse [] (map of_nat [0..<50]) = Some [0, 1, 2]"
    "demo_claude_parse [] (map of_nat [40..<50]) = Some [2]"
    by (simp_all add: demo_claude_parse_def demo_spans_list_def demo_span_def upt_rec)
  then have "replayer_ok demo_page_index ms_Ordinal (\<lambda>path. replayByteRange (\<lambda>_. Some (map of_nat [0..<50])) (demo_claude_parse path) path)"
    by (auto simp: replayer_ok_def demo_page_index_def demo_index_def demo_spans_list_def demo_span_def replayByteRange_def Let_def closed_range_def take_map drop_map)
  then show ?thesis
    using demo_cursor_ok demo_spans_ok
    by (auto simp: pages_ready_def demo_page_env_def demo_page_request_def transcriptBackend_def transcriptReplayer_def)
       (auto simp: demo_page_index_def demo_index_def)
qed


end
