(* ===== verification/Session_Catalog.thy ===== *)
theory Session_Catalog
  imports Pagination_Props "HOL-Library.Product_Lexorder"
begin

text \<open>
  The catalogue of Claude sessions (\<^verbatim>\<open>go-bridge/claude_session_catalog.go\<close>): it lists the transcript files of all projects, reads again
  only those whose size or modification time changed, and sorts the sessions. The file system and the reading of one transcript are
  parameters. Reading incrementally gives what reading everything gives; the order of the sorted list is not the order of the cursors that
  page through it.
\<close>

record claudeSessionKey =
  ck_ProjectKey :: string
  ck_SessionID :: string

record claudeSessionFingerprint =
  cf_ModTimeUnixNano :: int
  cf_SizeBytes :: int

record claudeSessionScanResult =
  cs_Title :: string
  cs_ModelID :: string
  cs_ProviderID :: string
  cs_ReasoningEffort :: string
  cs_CreatedAt :: gotime
  cs_UpdatedAt :: gotime

record claudeSessionIndexEntry =
  ce_Key :: claudeSessionKey
  ce_FilePath :: string
  ce_Directory :: string
  ce_Scan :: claudeSessionScanResult
  ce_MessageCount :: int
  ce_Fingerprint :: claudeSessionFingerprint

record claudeSessionSnapshot =
  sn_ByKey :: "claudeSessionKey \<rightharpoonup> claudeSessionIndexEntry"
  sn_Sorted :: "claudeSessionIndexEntry list"

text \<open>A file found under the projects directory, with the real directory of its project.\<close>

record fileCandidate =
  fc_key :: claudeSessionKey
  fc_path :: string
  fc_directory :: string
  fc_fingerprint :: claudeSessionFingerprint
  fc_modTime :: gotime

text \<open>A directory entry; \<open>None\<close> as its information is a failed \<^verbatim>\<open>Info\<close>.\<close>

record dir_entry =
  de_Name :: string
  de_IsDir :: bool
  de_Info :: "(int \<times> gotime) option"

definition has_suffix :: "string \<Rightarrow> string \<Rightarrow> bool" where
  "has_suffix s t \<longleftrightarrow> length t \<le> length s \<and> drop (length s - length t) s = t"

definition candidates_of ::
  "string \<Rightarrow> (string \<Rightarrow> dir_entry list option) \<Rightarrow> (string \<Rightarrow> string) \<Rightarrow> (string \<Rightarrow> bool) \<Rightarrow> dir_entry \<Rightarrow> fileCandidate list" where
  "candidates_of projectsDir readDir realDirectory hidden projectDir =
     (let projectKey = de_Name projectDir; projectPath = projectsDir @ ''/'' @ projectKey
      in if \<not> de_IsDir projectDir \<or> hidden projectKey then []
         else let directory = (if realDirectory projectPath = [] then projectKey else realDirectory projectPath)
           in case readDir projectPath of
                None \<Rightarrow> []
              | Some files \<Rightarrow> concat (map (\<lambda>f.
                  if de_IsDir f \<or> \<not> has_suffix (de_Name f) ''.jsonl'' then []
                  else case de_Info f of
                    None \<Rightarrow> []
                  | Some (sz, modTime) \<Rightarrow>
                      [\<lparr>fc_key = \<lparr>ck_ProjectKey = projectKey, ck_SessionID = take (length (de_Name f) - 6) (de_Name f)\<rparr>,
                        fc_path = projectPath @ ''/'' @ de_Name f, fc_directory = directory,
                        fc_fingerprint = \<lparr>cf_ModTimeUnixNano = modTime, cf_SizeBytes = sz\<rparr>, fc_modTime = modTime\<rparr>]) files))"

text \<open>The entry of a candidate: the cached one when the fingerprint has not changed, else read from the file.\<close>

definition fresh_entry :: "(string \<Rightarrow> gotime \<Rightarrow> claudeSessionScanResult) \<Rightarrow> fileCandidate \<Rightarrow> claudeSessionIndexEntry" where
  "fresh_entry parse c =
     \<lparr>ce_Key = fc_key c, ce_FilePath = fc_path c, ce_Directory = fc_directory c, ce_Scan = parse (fc_path c) (fc_modTime c),
      ce_MessageCount = 0, ce_Fingerprint = fc_fingerprint c\<rparr>"

definition entry_of ::
  "(string \<Rightarrow> gotime \<Rightarrow> claudeSessionScanResult) \<Rightarrow> claudeSessionSnapshot option \<Rightarrow> fileCandidate \<Rightarrow> claudeSessionIndexEntry" where
  "entry_of parse previous c =
     (case previous of
        None \<Rightarrow> fresh_entry parse c
      | Some p \<Rightarrow>
          (case sn_ByKey p (fc_key c) of
             Some cached \<Rightarrow> (if ce_Fingerprint cached = fc_fingerprint c then cached else fresh_entry parse c)
           | None \<Rightarrow> fresh_entry parse c))"

text \<open>Latest first, then by project, then by session.\<close>

definition entry_order :: "claudeSessionIndexEntry \<Rightarrow> int \<times> string \<times> string" where
  "entry_order e = (- cs_UpdatedAt (ce_Scan e), ck_ProjectKey (ce_Key e), ck_SessionID (ce_Key e))"

definition buildSnapshot ::
  "string \<Rightarrow> (string \<Rightarrow> dir_entry list option) \<Rightarrow> (string \<Rightarrow> string) \<Rightarrow> (string \<Rightarrow> bool)
     \<Rightarrow> (string \<Rightarrow> gotime \<Rightarrow> claudeSessionScanResult) \<Rightarrow> claudeSessionSnapshot option \<Rightarrow> claudeSessionSnapshot option" where
  "buildSnapshot projectsDir readDir realDirectory hidden parse previous =
     (if trim_space projectsDir = [] then None
      else case readDir projectsDir of
        None \<Rightarrow> None
      | Some projectDirs \<Rightarrow>
          (let candidates = concat (map (candidates_of projectsDir readDir realDirectory hidden) projectDirs);
               entries = fold (\<lambda>c. AList.update (fc_key c) (entry_of parse previous c)) candidates []
           in Some \<lparr>sn_ByKey = map_of entries, sn_Sorted = sort_key entry_order (map snd entries)\<rparr>))"

definition milli :: "gotime \<Rightarrow> int" where
  "milli t = t div 1000000"

definition claudeSessionEntryToWire :: "claudeSessionIndexEntry \<Rightarrow> session_item" where
  "claudeSessionEntryToWire e = \<lparr>si_updatedAtMillis = milli (cs_UpdatedAt (ce_Scan e)), si_id = ck_SessionID (ce_Key e)\<rparr>"

definition catalog_list :: "claudeSessionSnapshot option \<Rightarrow> string \<Rightarrow> session_item list" where
  "catalog_list snapshot projectKey =
     (case snapshot of
        None \<Rightarrow> []
      | Some sn \<Rightarrow> map claudeSessionEntryToWire (filter (\<lambda>e. projectKey = [] \<or> ck_ProjectKey (ce_Key e) = projectKey) (sn_Sorted sn)))"


section \<open>Concurrent refreshes\<close>

text \<open>
  The critical sections of \<^verbatim>\<open>refresh\<close>: a caller either takes the current snapshot, waits for the build under way, or starts one;
  the builder publishes and wakes the others.
\<close>

record claudeSessionCatalog =
  ca_snapshot :: "claudeSessionSnapshot option"
  ca_building :: "claudeSessionSnapshot option option"

datatype refresh_answer = Current "claudeSessionSnapshot option" | Wait | StartBuild

definition refresh_begin :: "claudeSessionCatalog \<Rightarrow> refresh_answer \<times> claudeSessionCatalog" where
  "refresh_begin c =
     (case ca_building c of
        Some _ \<Rightarrow> (if ca_snapshot c \<noteq> None then Current (ca_snapshot c) else Wait, c)
      | None \<Rightarrow> (StartBuild, c\<lparr>ca_building := Some (ca_snapshot c)\<rparr>))"

definition refresh_publish :: "claudeSessionSnapshot option \<Rightarrow> claudeSessionCatalog \<Rightarrow> claudeSessionCatalog" where
  "refresh_publish built c = c\<lparr>ca_snapshot := (case built of Some s \<Rightarrow> Some s | None \<Rightarrow> ca_snapshot c), ca_building := None\<rparr>"


section \<open>Reading incrementally is reading everything\<close>

text \<open>What the file system holds at one time.\<close>

record catalog_fs =
  fs_readDir :: "string \<Rightarrow> dir_entry list option"
  fs_realDirectory :: "string \<Rightarrow> string"
  fs_parse :: "string \<Rightarrow> gotime \<Rightarrow> claudeSessionScanResult"

definition build_at :: "string \<Rightarrow> (string \<Rightarrow> bool) \<Rightarrow> catalog_fs \<Rightarrow> claudeSessionSnapshot option \<Rightarrow> claudeSessionSnapshot option" where
  "build_at dir hidden fs previous = buildSnapshot dir (fs_readDir fs) (fs_realDirectory fs) hidden (fs_parse fs) previous"

definition refresh_at :: "string \<Rightarrow> (string \<Rightarrow> bool) \<Rightarrow> catalog_fs \<Rightarrow> claudeSessionCatalog \<Rightarrow> claudeSessionCatalog" where
  "refresh_at dir hidden fs c = (let c' = snd (refresh_begin c) in refresh_publish (build_at dir hidden fs (ca_snapshot c)) c')"

definition all_candidates :: "string \<Rightarrow> (string \<Rightarrow> bool) \<Rightarrow> catalog_fs \<Rightarrow> fileCandidate list" where
  "all_candidates dir hidden fs =
     (case fs_readDir fs dir of None \<Rightarrow> [] | Some ds \<Rightarrow> concat (map (candidates_of dir (fs_readDir fs) (fs_realDirectory fs) hidden) ds))"

text \<open>A file that keeps its name, size and modification time keeps what the catalogue reads from it.\<close>

definition fingerprints_tell :: "string \<Rightarrow> (string \<Rightarrow> bool) \<Rightarrow> catalog_fs list \<Rightarrow> bool" where
  "fingerprints_tell dir hidden history \<longleftrightarrow>
     (\<forall>fs \<in> set history. \<forall>fs' \<in> set history. \<forall>c \<in> set (all_candidates dir hidden fs). \<forall>c' \<in> set (all_candidates dir hidden fs').
        fc_key c = fc_key c' \<and> fc_fingerprint c = fc_fingerprint c' \<longrightarrow> fresh_entry (fs_parse fs) c = fresh_entry (fs_parse fs') c')"

text \<open>A cached entry that any earlier state could have produced is right now, where its fingerprint still holds.\<close>

definition cache_right :: "string \<Rightarrow> (string \<Rightarrow> bool) \<Rightarrow> catalog_fs list \<Rightarrow> claudeSessionSnapshot \<Rightarrow> bool" where
  "cache_right dir hidden history sn \<longleftrightarrow>
     (\<forall>k e. sn_ByKey sn k = Some e \<longrightarrow> (\<exists>fs \<in> set history. \<exists>c \<in> set (all_candidates dir hidden fs). fc_key c = k \<and> e = fresh_entry (fs_parse fs) c))"

lemma entry_of_cached:
  assumes "fingerprints_tell dir hidden history" and "cache_right dir hidden history p" and "fs \<in> set history"
    and "c \<in> set (all_candidates dir hidden fs)"
  shows "entry_of (fs_parse fs) (Some p) c = fresh_entry (fs_parse fs) c"
proof (cases "sn_ByKey p (fc_key c)")
  case (Some e)
  then obtain fs' c' where e: "fs' \<in> set history" "c' \<in> set (all_candidates dir hidden fs')" "fc_key c' = fc_key c" "e = fresh_entry (fs_parse fs') c'"
    using assms(2) unfolding cache_right_def by blast
  have "ce_Fingerprint e = fc_fingerprint c'" by (simp add: e(4) fresh_entry_def)
  then have "e = fresh_entry (fs_parse fs) c" if "ce_Fingerprint e = fc_fingerprint c"
    using assms(1,3,4) e that unfolding fingerprints_tell_def by metis
  then show ?thesis using Some by (simp add: entry_of_def)
qed (simp add: entry_of_def)

lemma fold_update_cong:
  "(\<And>c. c \<in> set cs \<Longrightarrow> f c = g c) \<Longrightarrow> fold (\<lambda>c. AList.update (k c) (f c)) cs al = fold (\<lambda>c. AList.update (k c) (g c)) cs al"
  by (induction cs arbitrary: al) simp_all

lemma fold_update_image:
  "map_of (fold (\<lambda>c. AList.update (k c) (f c)) cs al) x = Some v \<Longrightarrow> map_of al x = Some v \<or> (\<exists>c \<in> set cs. k c = x \<and> f c = v)"
proof (induction cs arbitrary: al)
  case (Cons c cs)
  then show ?case using Cons.IH[of "AList.update (k c) (f c) al"] by (auto simp: update_conv' split: if_splits)
qed simp

lemma build_at_full:
  assumes "fingerprints_tell dir hidden history" and "fs \<in> set history" and "\<And>p. previous = Some p \<Longrightarrow> cache_right dir hidden history p"
  shows "build_at dir hidden fs previous = build_at dir hidden fs None"
    and "build_at dir hidden fs previous = Some sn \<Longrightarrow> cache_right dir hidden history sn"
proof -
  have e: "entry_of (fs_parse fs) previous c = fresh_entry (fs_parse fs) c" if "c \<in> set (all_candidates dir hidden fs)" for c
    using entry_of_cached[OF assms(1) _ assms(2) that] assms(3) by (cases previous) (simp_all add: entry_of_def)
  have e0: "entry_of (fs_parse fs) None c = fresh_entry (fs_parse fs) c" for c by (simp add: entry_of_def)
  have folds: "fold (\<lambda>c. AList.update (fc_key c) (entry_of (fs_parse fs) previous c)) (all_candidates dir hidden fs) []
      = fold (\<lambda>c. AList.update (fc_key c) (fresh_entry (fs_parse fs) c)) (all_candidates dir hidden fs) []"
    by (rule fold_update_cong) (rule e)
  define snap where "snap = (\<lambda>entries :: (claudeSessionKey \<times> claudeSessionIndexEntry) list. \<lparr>sn_ByKey = map_of entries, sn_Sorted = sort_key entry_order (map snd entries)\<rparr>)"
  have shape: "build_at dir hidden fs pr = (if trim_space dir = [] \<or> fs_readDir fs dir = None then None
      else Some (snap (fold (\<lambda>c. AList.update (fc_key c) (entry_of (fs_parse fs) pr c)) (all_candidates dir hidden fs) [])))" for pr
    by (cases "fs_readDir fs dir") (simp_all add: build_at_def buildSnapshot_def all_candidates_def snap_def Let_def)
  show "build_at dir hidden fs previous = build_at dir hidden fs None"
    by (simp only: shape folds e0)
  assume "build_at dir hidden fs previous = Some sn"
  then have "sn = snap (fold (\<lambda>c. AList.update (fc_key c) (fresh_entry (fs_parse fs) c)) (all_candidates dir hidden fs) [])"
    unfolding shape folds by (simp split: if_splits)
  then have "sn_ByKey sn = map_of (fold (\<lambda>c. AList.update (fc_key c) (fresh_entry (fs_parse fs) c)) (all_candidates dir hidden fs) [])"
    by (simp add: snap_def)
  then show "cache_right dir hidden history sn"
    using assms(2) unfolding cache_right_def by (fastforce dest: fold_update_image)
qed



section \<open>The catalogue's order is not the cursor's\<close>

definition two_projects :: "string \<Rightarrow> dir_entry list option" where
  "two_projects path =
     (if path = ''/p'' then Some [\<lparr>de_Name = ''a'', de_IsDir = True, de_Info = None\<rparr>, \<lparr>de_Name = ''b'', de_IsDir = True, de_Info = None\<rparr>]
      else if path = ''/p/a'' then Some [\<lparr>de_Name = ''z.jsonl'', de_IsDir = False, de_Info = Some (1, 5000000)\<rparr>]
      else if path = ''/p/b'' then Some [\<lparr>de_Name = ''y.jsonl'', de_IsDir = False, de_Info = Some (1, 5000000)\<rparr>]
      else None)"

definition scan_by_time :: "string \<Rightarrow> gotime \<Rightarrow> claudeSessionScanResult" where
  "scan_by_time path t = \<lparr>cs_Title = [], cs_ModelID = [], cs_ProviderID = [], cs_ReasoningEffort = [], cs_CreatedAt = t, cs_UpdatedAt = t\<rparr>"

lemma two_projects_list:
  "catalog_list (buildSnapshot ''/p'' two_projects (\<lambda>_. []) (\<lambda>_. False) scan_by_time None) [] =
     [\<lparr>si_updatedAtMillis = 5, si_id = ''z''\<rparr>, \<lparr>si_updatedAtMillis = 5, si_id = ''y''\<rparr>]"
  by code_simp

text \<open>
  The catalogue sorts sessions of the same time by project and then by name, the cursor by name alone: of two sessions of the same time in
  two projects, the client that pages through the list one by one gets the first and never the second, and is told that there is no more.
\<close>

theorem catalog_paging_loses_session:
  assumes "cursor_codec_ok enc dec"
  shows "\<exists>dir readDir hidden parse. let ss = catalog_list (buildSnapshot dir readDir (\<lambda>_. []) hidden parse None) []
     in length ss = 2 \<and> walk_sessions enc dec ss 1 3 [] = Some [hd ss]"
proof -
  let ?z = "\<lparr>si_updatedAtMillis = 5, si_id = ''z''\<rparr>" and ?y = "\<lparr>si_updatedAtMillis = 5, si_id = ''y''\<rparr>"
  obtain cur where c: "encodeListCursor enc (cursor_of ?z) = Some cur" "cur \<noteq> []"
      "decodeListCursor dec cur = Some ((cursor_of ?z)\<lparr>lc_Version := listCursorVersion\<rparr>)"
    by (rule list_codec[OF assms])
  obtain z where z: "z = ?z" by blast
  have "\<not> listed_before z ?y" "\<not> listed_before z z" by (simp_all add: z listed_before_def)
  then have "walk_sessions enc dec [z, ?y] 1 3 [] = Some [z]"
    using c unfolding z[symmetric] by (simp add: numeral_3_eq_3 paginateSessionList_def Let_def cursor_of_def[symmetric] after_cursor_of)
  then have "walk_sessions enc dec [?z, ?y] 1 3 [] = Some [?z]" unfolding z .
  then show ?thesis
    by (intro exI[of _ "''/p''"] exI[of _ two_projects] exI[of _ "\<lambda>_. False"] exI[of _ scan_by_time]) (simp only: two_projects_list Let_def, simp)
qed

theorem catalog_paging_loses_session_witness:
  "\<exists>ss. length ss = 2 \<and> walk_sessions demo_list_enc demo_list_dec ss 1 3 [] = Some [hd ss]"
  using catalog_paging_loses_session[OF demo_list_ok] unfolding Let_def by blast


end
