(* ===== verification/Content_Refs.thy ===== *)
theory Content_Refs
  imports Prelude
begin

text \<open>
  Large tool outputs (\<^verbatim>\<open>go-bridge/handlers.go\<close>: \<^verbatim>\<open>makeWireToolOutput\<close>, \<^verbatim>\<open>makeWireTextOutput\<close>, \<^verbatim>\<open>storeContentRef\<close>,
  \<^verbatim>\<open>getContentRef\<close>, \<^verbatim>\<open>handleFetchContentChunk\<close>). A long text is kept in a table of two hundred entries and replaced by a
  reference; the device fetches it in pieces. A Go string is its list of bytes.
\<close>

definition inlineToolOutputLimitBytes :: nat where "inlineToolOutputLimitBytes = 50000"
definition maxContentRefEntries :: nat where "maxContentRefEntries = 200"

section \<open>The table\<close>

record content_table =
  contentRefs :: "string \<rightharpoonup> string"
  contentRefOrder :: "string list"

definition no_content :: content_table where
  "no_content = \<lparr>contentRefs = Map.empty, contentRefOrder = []\<rparr>"

record content_ref =
  cr_contentId :: string
  cr_sizeBytes :: nat
  cr_preview :: string

text \<open>The loop that drops the oldest entries.\<close>

fun drop_oldest_refs :: "(string \<rightharpoonup> string) \<Rightarrow> string list \<Rightarrow> (string \<rightharpoonup> string) \<times> string list" where
  "drop_oldest_refs refs [] = (refs, [])"
| "drop_oldest_refs refs (oldest # order) =
     (if length (oldest # order) > maxContentRefEntries then drop_oldest_refs (refs(oldest := None)) order else (refs, oldest # order))"

definition content_id :: "int \<Rightarrow> string \<Rightarrow> string \<Rightarrow> string" where
  "content_id nowNano sessionID itemID =
     (let safeSessionID = (if sessionID = [] then ''unknown-session'' else sessionID);
          safeItemID = (if itemID = [] then ''item-'' @ show_int nowNano else itemID)
      in ''content:'' @ safeSessionID @ '':'' @ safeItemID)"

definition put_ref :: "string \<Rightarrow> string \<Rightarrow> content_table \<Rightarrow> content_table" where
  "put_ref contentID txt h =
     (let (refs, order) = drop_oldest_refs ((contentRefs h)(contentID \<mapsto> txt)) (contentRefOrder h @ [contentID])
      in \<lparr>contentRefs = refs, contentRefOrder = order\<rparr>)"

definition storeContentRef :: "int \<Rightarrow> string \<Rightarrow> string \<Rightarrow> string \<Rightarrow> content_table \<Rightarrow> content_ref \<times> content_table" where
  "storeContentRef nowNano sessionID itemID txt h =
     (let contentID = content_id nowNano sessionID itemID
      in (\<lparr>cr_contentId = contentID, cr_sizeBytes = length txt, cr_preview = take 200 txt\<rparr>, put_ref contentID txt h))"

definition getContentRef :: "string \<Rightarrow> content_table \<Rightarrow> string option" where
  "getContentRef contentID h = contentRefs h contentID"

text \<open>
  A payload is a JSON object, of which only a string under \<^verbatim>\<open>text\<close> is looked at, a string, or anything else;
  \<open>stringify\<close> is \<^verbatim>\<open>stringifyToolPayload\<close>, the JSON encoder.
\<close>

datatype 'v tool_payload = PayloadMap "string option" 'v | PayloadString string | PayloadOther 'v

datatype 'v wire_output = Inline string | Referenced content_ref | Unchanged 'v

definition makeWireTextOutput :: "int \<Rightarrow> string \<Rightarrow> string \<Rightarrow> string \<Rightarrow> content_table \<Rightarrow> 'v wire_output \<times> content_table" where
  "makeWireTextOutput nowNano sessionID itemID txt h =
     (if length txt \<le> inlineToolOutputLimitBytes then (Inline txt, h)
      else let (r, h) = storeContentRef nowNano sessionID itemID txt h in (Referenced r, h))"

definition output_or_ref :: "int \<Rightarrow> string \<Rightarrow> string \<Rightarrow> ('v \<Rightarrow> string) \<Rightarrow> 'v \<Rightarrow> content_table \<Rightarrow> 'v wire_output \<times> content_table" where
  "output_or_ref nowNano sessionID itemID stringify v h =
     (if length (stringify v) > inlineToolOutputLimitBytes
      then let (r, h) = storeContentRef nowNano sessionID itemID (stringify v) h in (Referenced r, h)
      else (Unchanged v, h))"

definition makeWireToolOutput ::
  "int \<Rightarrow> string \<Rightarrow> string \<Rightarrow> ('v \<Rightarrow> string) \<Rightarrow> 'v tool_payload \<Rightarrow> content_table \<Rightarrow> 'v wire_output \<times> content_table" where
  "makeWireToolOutput nowNano sessionID itemID stringify payload h =
     (case payload of
        PayloadMap (Some txt) v \<Rightarrow> makeWireTextOutput nowNano sessionID itemID txt h
      | PayloadMap None v \<Rightarrow> output_or_ref nowNano sessionID itemID stringify v h
      | PayloadString txt \<Rightarrow> makeWireTextOutput nowNano sessionID itemID txt h
      | PayloadOther v \<Rightarrow> output_or_ref nowNano sessionID itemID stringify v h)"


section \<open>Fetching in pieces\<close>

record content_chunk =
  ch_offset :: int
  ch_data :: string
  ch_complete :: bool
  ch_nextOffset :: "int option"

datatype chunk_reply = MissingParam | ContentNotFound | Chunk content_chunk

definition chunk_limit :: "int \<Rightarrow> int" where
  "chunk_limit lim = (let lim = (if lim \<le> 0 then 32768 else lim) in if lim > 262144 then 262144 else lim)"

definition handleFetchContentChunk :: "string \<Rightarrow> int \<Rightarrow> int \<Rightarrow> content_table \<Rightarrow> chunk_reply" where
  "handleFetchContentChunk contentID offset lim h =
     (if contentID = [] then MissingParam
      else case getContentRef contentID h of
        None \<Rightarrow> ContentNotFound
      | Some content \<Rightarrow>
          (let offset = (if offset < 0 then 0 else offset);
               lim = chunk_limit lim;
               offset = (if offset > int (length content) then int (length content) else offset);
               e = (if offset + lim > int (length content) then int (length content) else offset + lim);
               chunk = take (nat (e - offset)) (drop (nat offset) content);
               nextOffset = offset + int (length chunk)
           in Chunk \<lparr>ch_offset = offset, ch_data = chunk, ch_complete = (nextOffset \<ge> int (length content)),
                     ch_nextOffset = (if nextOffset < int (length content) then Some nextOffset else None)\<rparr>))"

text \<open>
  \<^verbatim>\<open>encoding/json\<close> writes a string rune by rune and replaces every byte that does not begin a valid UTF-8 sequence by U+FFFD.
  \<open>rune_size\<close> is the length of the sequence the bytes begin with, following \<^verbatim>\<open>utf8.DecodeRuneInString\<close>.
\<close>

definition in_range :: "nat \<Rightarrow> nat \<Rightarrow> char \<Rightarrow> bool" where
  "in_range lo hi c \<longleftrightarrow> lo \<le> of_char c \<and> of_char c \<le> hi"

definition rune_size :: "string \<Rightarrow> nat option" where
  "rune_size s =
     (case s of
        [] \<Rightarrow> None
      | a # r \<Rightarrow>
          (if in_range 0 127 a then Some 1
           else if in_range 194 223 a then (case r of b # _ \<Rightarrow> if in_range 128 191 b then Some 2 else None | [] \<Rightarrow> None)
           else if in_range 224 239 a then
             (case r of b # c # _ \<Rightarrow>
                 if in_range (if of_char a = (224 :: nat) then 160 else 128) (if of_char a = (237 :: nat) then 159 else 191) b \<and> in_range 128 191 c
                 then Some 3 else None
              | _ \<Rightarrow> None)
           else if in_range 240 244 a then
             (case r of b # c # d # _ \<Rightarrow>
                 if in_range (if of_char a = (240 :: nat) then 144 else 128) (if of_char a = (244 :: nat) then 143 else 191) b \<and>
                    in_range 128 191 c \<and> in_range 128 191 d
                 then Some 4 else None
              | _ \<Rightarrow> None)
           else None))"

definition replacement :: string where
  "replacement = map char_of [239 :: nat, 191, 189]"

fun json_text_fuel :: "nat \<Rightarrow> string \<Rightarrow> string" where
  "json_text_fuel 0 s = []"
| "json_text_fuel (Suc n) s =
     (if s = [] then []
      else case rune_size s of
        Some k \<Rightarrow> take k s @ json_text_fuel n (drop k s)
      | None \<Rightarrow> replacement @ json_text_fuel n (tl s))"

text \<open>The string a JSON decoder reads back; every turn consumes a byte, so the length is enough fuel.\<close>

definition json_text :: "string \<Rightarrow> string" where
  "json_text s = json_text_fuel (length s) s"

text \<open>A device that fetches from an offset on until there is no next one, with as many requests as \<open>fuel\<close> says.\<close>

fun fetch_from :: "nat \<Rightarrow> string \<Rightarrow> int \<Rightarrow> int \<Rightarrow> content_table \<Rightarrow> string option" where
  "fetch_from 0 contentID offset lim h = None"
| "fetch_from (Suc fuel) contentID offset lim h =
     (case handleFetchContentChunk contentID offset lim h of
        Chunk c \<Rightarrow>
          (case ch_nextOffset c of
             None \<Rightarrow> Some (json_text (ch_data c))
           | Some next \<Rightarrow> map_option ((@) (json_text (ch_data c))) (fetch_from fuel contentID next lim h))
      | _ \<Rightarrow> None)"


section \<open>The device gets the text\<close>

lemma chunk_limit_pos: "0 < chunk_limit lim"
  by (simp add: chunk_limit_def)

lemma fetch_chunk:
  assumes "contentID \<noteq> []" and "getContentRef contentID h = Some txt" and "k \<le> length txt"
  shows "handleFetchContentChunk contentID (int k) lim h =
           Chunk \<lparr>ch_offset = int k, ch_data = take (nat (chunk_limit lim)) (drop k txt), ch_complete = (k + nat (chunk_limit lim) \<ge> length txt),
                  ch_nextOffset = (if k + nat (chunk_limit lim) < length txt then Some (int (k + nat (chunk_limit lim))) else None)\<rparr>"
proof -
  obtain n where n: "chunk_limit lim = int n" "0 < n" using chunk_limit_pos[of lim] by (metis pos_int_cases)
  show ?thesis
    using assms by (simp add: handleFetchContentChunk_def n(1) Let_def min_def) (auto simp: nat_diff_distrib of_nat_diff)
qed

lemma json_text_Nil [simp]: "json_text [] = []"
  by (simp add: json_text_def)

lemma json_text_ascii:
  assumes "\<forall>c \<in> set s. in_range 0 127 c"
  shows "json_text s = s"
proof -
  have "json_text_fuel (length s) s = s" using assms by (induction s) (simp_all add: rune_size_def)
  then show ?thesis by (simp add: json_text_def)
qed

lemma fetch_from_ascii:
  assumes "contentID \<noteq> []" and "getContentRef contentID h = Some txt" and "\<forall>c \<in> set txt. in_range 0 127 c"
    and "k \<le> length txt" and "length txt - k < fuel"
  shows "fetch_from fuel contentID (int k) lim h = Some (drop k txt)"
  using assms(4,5)
proof (induction fuel arbitrary: k)
  case (Suc fuel)
  define n where "n = nat (chunk_limit lim)"
  have n: "0 < n" using chunk_limit_pos[of lim] by (simp add: n_def)
  have plain: "json_text (take n (drop k txt)) = take n (drop k txt)"
    using assms(3) by (intro json_text_ascii) (auto dest!: in_set_takeD in_set_dropD)
  show ?case
  proof (cases "k + n < length txt")
    case True
    then have "fetch_from fuel contentID (int (k + n)) lim h = Some (drop (k + n) txt)"
      using Suc.prems n by (intro Suc.IH) auto
    moreover have "take n (drop k txt) @ drop (k + n) txt = drop k txt" by (metis append_take_drop_id drop_drop add.commute)
    ultimately show ?thesis
      using True fetch_chunk[OF assms(1,2) Suc.prems(1), of lim] plain by (simp add: n_def)
  next
    case False
    then show ?thesis
      using fetch_chunk[OF assms(1,2) Suc.prems(1), of lim] plain by (simp add: n_def)
  qed
qed simp

text \<open>
  C40. A device that follows the offsets gets the whole text: whatever limit it asks for, it comes to the end, and the pieces put together are the
  text, as long as the text is ASCII and the reference is still in the table.
\<close>

theorem chunked_fetch_complete:
  assumes "contentID \<noteq> []" and "getContentRef contentID h = Some txt" and "\<forall>c \<in> set txt. in_range 0 127 c"
  shows "fetch_from (Suc (length txt)) contentID 0 lim h = Some txt"
  using fetch_from_ascii[OF assms, of 0 "Suc (length txt)" lim] by simp

theorem chunked_fetch_complete_witness:
  "fetch_from (Suc (length ''abc'')) ''c'' 0 2 (put_ref ''c'' ''abc'' no_content) = Some ''abc''"
proof (rule chunked_fetch_complete)
  show "getContentRef ''c'' (put_ref ''c'' ''abc'' no_content) = Some ''abc''" by code_simp
  show "\<forall>c \<in> set ''abc''. in_range 0 127 c" by code_simp
qed simp

text \<open>A character cut in two by the end of a piece.\<close>

definition cut_text :: string where
  "cut_text = replicate 32767 (CHR ''a'') @ map char_of [195 :: nat, 169] @ replicate 20000 (CHR ''a'')"

lemma json_text_fuel_plain:
  "in_range 0 127 c \<Longrightarrow> json_text_fuel (n + m) (replicate n c @ t) = replicate n c @ json_text_fuel m t"
  by (induction n) (simp_all add: rune_size_def)

lemma json_text_plain: "in_range 0 127 c \<Longrightarrow> json_text (replicate n c @ t) = replicate n c @ json_text t"
  using json_text_fuel_plain[of c n "length t" t] by (simp add: json_text_def)

lemma rune_size_pos: "rune_size s = Some k \<Longrightarrow> 0 < k \<and> k \<le> length s"
  by (auto simp: rune_size_def split: list.splits if_splits)

lemma json_text_fuel_Nil [simp]: "json_text_fuel n [] = []"
  by (cases n) simp_all

lemma json_text_fuel_mono: "length s \<le> n \<Longrightarrow> length s \<le> m \<Longrightarrow> json_text_fuel n s = json_text_fuel m s"
proof (induction n arbitrary: m s)
  case (Suc n)
  show ?case
  proof (cases "s = []")
    case True then show ?thesis by (cases m) simp_all
  next
    case False
    then obtain m' where m: "m = Suc m'" using Suc.prems by (cases m) simp_all
    show ?thesis
    proof (cases "rune_size s")
      case None
      then show ?thesis using Suc.IH[of "tl s" m'] Suc.prems False by (simp add: m)
    next
      case (Some k)
      have "length (drop k s) \<le> n" "length (drop k s) \<le> m'" using rune_size_pos[OF Some] Suc.prems m by auto
      then show ?thesis using Suc.IH[of "drop k s" m'] Some False by (simp add: m)
    qed
  qed
qed simp

lemma json_text_unfold:
  assumes "s \<noteq> []"
  shows "json_text s = (case rune_size s of Some k \<Rightarrow> take k s @ json_text (drop k s) | None \<Rightarrow> replacement @ json_text (tl s))"
proof (cases "rune_size s")
  case None
  then show ?thesis using assms by (cases s) (simp_all add: json_text_def)
next
  case (Some k)
  have "json_text_fuel (length s - 1) (drop k s) = json_text (drop k s)"
    unfolding json_text_def using rune_size_pos[OF Some] by (intro json_text_fuel_mono) auto
  then show ?thesis using assms Some by (cases s) (simp_all add: json_text_def)
qed

lemma ascii_a [simp]: "in_range 0 127 (CHR ''a'')"
  by (simp add: in_range_def)

lemma json_text_a: "json_text (replicate n (CHR ''a'')) = replicate n (CHR ''a'')"
  by (rule json_text_ascii) simp

lemma cut_text_valid: "json_text cut_text = cut_text"
proof -
  have "rune_size (map char_of [195 :: nat, 169] @ t) = Some 2" for t by (simp add: rune_size_def in_range_def)
  then have "json_text (map char_of [195 :: nat, 169] @ replicate 20000 (CHR ''a'')) = map char_of [195 :: nat, 169] @ replicate 20000 (CHR ''a'')"
    by (subst json_text_unfold) (simp_all add: json_text_a)
  then show ?thesis by (simp only: cut_text_def json_text_plain[OF ascii_a])
qed

lemma cut_pieces:
  "json_text (take 32768 cut_text) = replicate 32767 (CHR ''a'') @ replacement"
  "json_text (drop 32768 cut_text) = replacement @ replicate 20000 (CHR ''a'')"
proof -
  have t: "take 32768 cut_text = replicate 32767 (CHR ''a'') @ [char_of (195 :: nat)]"
    and d: "drop 32768 cut_text = char_of (169 :: nat) # replicate 20000 (CHR ''a'')"
    by (simp_all add: cut_text_def)
  have "rune_size [char_of (195 :: nat)] = None" by (simp add: rune_size_def in_range_def)
  then have "json_text [char_of (195 :: nat)] = replacement" by (subst json_text_unfold) simp_all
  then show "json_text (take 32768 cut_text) = replicate 32767 (CHR ''a'') @ replacement"
    by (simp only: t json_text_plain[OF ascii_a])
  have "rune_size (char_of (169 :: nat) # r) = None" for r by (simp add: rune_size_def in_range_def)
  then show "json_text (drop 32768 cut_text) = replacement @ replicate 20000 (CHR ''a'')"
    unfolding d by (subst json_text_unfold) (simp_all add: json_text_a)
qed

text \<open>
  Pieces are cut at byte offsets, and the JSON encoder replaces the halves of a character that was cut: a device that fetches a valid UTF-8
  text with the default limit gets two replacement characters for the character at byte 32767.
\<close>

theorem chunk_cuts_character:
  assumes "sessionID \<noteq> []" "itemID \<noteq> []" "length (contentRefOrder h) < maxContentRefEntries"
  shows "\<exists>txt r h' got. json_text txt = txt \<and> makeWireTextOutput nowNano sessionID itemID txt h = (Referenced r :: 'v wire_output, h') \<and>
           fetch_from 2 (cr_contentId r) 0 0 h' = Some got \<and> got \<noteq> txt"
proof -
  let ?id = "content_id nowNano sessionID itemID" and ?h = "put_ref (content_id nowNano sessionID itemID) cut_text h"
  let ?r = "\<lparr>cr_contentId = ?id, cr_sizeBytes = length cut_text, cr_preview = take 200 cut_text\<rparr>"
  let ?got = "(replicate 32767 (CHR ''a'') @ replacement) @ replacement @ replicate 20000 (CHR ''a'')"
  have len: "length cut_text = 52769" by (simp add: cut_text_def)
  have keep: "\<not> length (contentRefOrder h @ [?id]) > maxContentRefEntries" using assms(3) by simp
  have "drop_oldest_refs m (contentRefOrder h @ [?id]) = (m, contentRefOrder h @ [?id])" for m
    using keep by (cases "contentRefOrder h @ [?id]") simp_all
  then have get: "getContentRef ?id ?h = Some cut_text" by (simp add: getContentRef_def put_ref_def)
  have id: "?id \<noteq> []" by (simp add: content_id_def Let_def)
  have "chunk_limit 0 = 32768" by (simp add: chunk_limit_def)
  then have "handleFetchContentChunk ?id 0 0 ?h = Chunk \<lparr>ch_offset = 0, ch_data = take 32768 cut_text, ch_complete = False, ch_nextOffset = Some 32768\<rparr>"
      "handleFetchContentChunk ?id 32768 0 ?h = Chunk \<lparr>ch_offset = 32768, ch_data = take 32768 (drop 32768 cut_text), ch_complete = True, ch_nextOffset = None\<rparr>"
    using fetch_chunk[OF id get, of 0 0] fetch_chunk[OF id get, of 32768 0] len by simp_all
  moreover have "take 32768 (drop 32768 cut_text) = drop 32768 cut_text" using len by simp
  ultimately have "fetch_from 2 ?id 0 0 ?h = Some ?got" using cut_pieces by (simp add: numeral_2_eq_2 del: append_assoc)
  moreover have "?got \<noteq> cut_text"
  proof
    assume "?got = cut_text"
    then have "length ?got = 52769" using len by simp
    then show False by (simp add: replacement_def)
  qed
  moreover have "makeWireTextOutput nowNano sessionID itemID cut_text h = (Referenced ?r :: 'v wire_output, ?h)"
    using len by (simp add: makeWireTextOutput_def storeContentRef_def inlineToolOutputLimitBytes_def Let_def)
  ultimately show ?thesis using cut_text_valid
    by (intro exI[of _ cut_text] exI[of _ ?r] exI[of _ ?h] exI[of _ ?got]) simp
qed

theorem chunk_cuts_character_witness:
  "\<exists>txt r h' got. json_text txt = txt \<and> makeWireTextOutput 0 ''s'' ''i'' txt no_content = (Referenced r :: nat wire_output, h') \<and>
     fetch_from 2 (cr_contentId r) 0 0 h' = Some got \<and> got \<noteq> txt"
  by (rule chunk_cuts_character) (simp_all add: no_content_def maxContentRefEntries_def)


section \<open>How long a reference lasts\<close>

lemma drop_oldest_refs_spec:
  "drop_oldest_refs refs order =
     (refs |` (- set (take (length order - maxContentRefEntries) order)), drop (length order - maxContentRefEntries) order)"
proof (induction refs order rule: drop_oldest_refs.induct)
  case (2 refs oldest order)
  show ?case
  proof (cases "length (oldest # order) > maxContentRefEntries")
    case True
    then have n: "length (oldest # order) - maxContentRefEntries = Suc (length order - maxContentRefEntries)" by simp
    have r: "(refs(oldest := None)) |` (- X) = refs |` (- insert oldest X)" for X by (auto simp: restrict_map_def fun_eq_iff)
    have "drop_oldest_refs refs (oldest # order) = drop_oldest_refs (refs(oldest := None)) order" using True by simp
    also note 2[OF True]
    also note r
    finally show ?thesis unfolding n by simp
  qed simp
qed simp

lemma put_ref_order [simp]:
  "contentRefOrder (put_ref i t h) = drop (Suc (length (contentRefOrder h)) - maxContentRefEntries) (contentRefOrder h @ [i])"
  by (simp add: put_ref_def drop_oldest_refs_spec)

lemma put_ref_refs [simp]:
  "contentRefs (put_ref i t h) = ((contentRefs h)(i \<mapsto> t)) |` (- set (take (Suc (length (contentRefOrder h)) - maxContentRefEntries) (contentRefOrder h @ [i])))"
  by (simp add: put_ref_def drop_oldest_refs_spec)

definition ref_age :: "string \<Rightarrow> string \<Rightarrow> nat \<Rightarrow> content_table \<Rightarrow> bool" where
  "ref_age contentID txt k h \<longleftrightarrow> contentRefs h contentID = Some txt \<and>
     (\<exists>pre post. contentRefOrder h = pre @ contentID # post \<and> contentID \<notin> set pre \<and> length post = k)"

lemma ref_age_put:
  assumes "ref_age contentID txt k h" and "i \<noteq> contentID" and "Suc k < maxContentRefEntries"
  shows "ref_age contentID txt (Suc k) (put_ref i t h)"
proof -
  obtain pre post where o: "contentRefOrder h = pre @ contentID # post" "contentID \<notin> set pre" "length post = k"
    and r: "contentRefs h contentID = Some txt"
    using assms(1) unfolding ref_age_def by blast
  define c where "c = Suc (length (contentRefOrder h)) - maxContentRefEntries"
  have c: "c \<le> length pre" using o assms(3) by (simp add: c_def)
  then have "take c (contentRefOrder h @ [i]) = take c pre" "drop c (contentRefOrder h @ [i]) = drop c pre @ contentID # post @ [i]"
    by (simp_all add: o(1))
  moreover have "contentID \<notin> set (take c pre)" "contentID \<notin> set (drop c pre)" using o(2) by (auto dest: in_set_takeD in_set_dropD)
  ultimately show ?thesis
    using r assms(2) o(3) unfolding ref_age_def put_ref_order put_ref_refs c_def[symmetric]
    by (intro conjI exI[of _ "drop c pre"] exI[of _ "post @ [i]"]) (simp_all add: restrict_map_def)
qed

lemma ref_age_new:
  assumes "contentID \<notin> set (contentRefOrder h)"
  shows "ref_age contentID txt 0 (put_ref contentID txt h)"
proof -
  define c where "c = Suc (length (contentRefOrder h)) - maxContentRefEntries"
  have "c \<le> length (contentRefOrder h)" by (simp add: c_def maxContentRefEntries_def)
  moreover have "contentID \<notin> set (take c (contentRefOrder h))" "contentID \<notin> set (drop c (contentRefOrder h))"
    using assms by (auto dest: in_set_takeD in_set_dropD)
  ultimately show ?thesis
    unfolding ref_age_def put_ref_order put_ref_refs c_def[symmetric]
    by (intro conjI exI[of _ "drop c (contentRefOrder h)"] exI[of _ "[]"]) (simp_all add: restrict_map_def)
qed

text \<open>
  A reference that is new to the table can be fetched while at most 199 other texts are stored after it.
\<close>

theorem content_ref_available:
  assumes "contentID \<notin> set (contentRefOrder h)" and "length later < maxContentRefEntries" and "contentID \<notin> fst ` set later"
  shows "getContentRef contentID (fold (\<lambda>(i, t). put_ref i t) later (put_ref contentID txt h)) = Some txt"
proof -
  have "ref_age contentID txt (length later) (fold (\<lambda>(i, t). put_ref i t) later (put_ref contentID txt h))"
    using assms(2,3)
  proof (induction later rule: rev_induct)
    case Nil then show ?case using ref_age_new[OF assms(1)] by simp
  next
    case (snoc x later)
    then show ?case by (auto simp: case_prod_beta intro!: ref_age_put)
  qed
  then show ?thesis by (simp add: ref_age_def getContentRef_def)
qed

theorem content_ref_available_witness:
  "getContentRef ''a'' (fold (\<lambda>(i, t). put_ref i t) [(''b'', ''y''), (''c'', ''z'')] (put_ref ''a'' ''x'' no_content)) = Some ''x''"
  by (rule content_ref_available) (simp_all add: no_content_def maxContentRefEntries_def)

text \<open>
  Storing under an identifier that is in the table already does not take its old place out of the order: once the same item has been stored
  more than two hundred times, every reference to it is dead as soon as it is handed out.
\<close>

theorem repeated_content_lost:
  "getContentRef contentID (fold (put_ref contentID) texts no_content) =
     (if texts \<noteq> [] \<and> length texts \<le> maxContentRefEntries then Some (last texts) else None)"
proof -
  define T where "T = (\<lambda>ts. fold (put_ref contentID) ts no_content)"
  have order: "contentRefOrder (T ts) = replicate (min (length ts) maxContentRefEntries) contentID" for ts
  proof (induction ts rule: rev_induct)
    case (snoc t ts)
    have "contentRefOrder (T (ts @ [t])) = drop (Suc (length (contentRefOrder (T ts))) - maxContentRefEntries) (contentRefOrder (T ts) @ [contentID])"
      by (simp add: T_def)
    also have "\<dots> = replicate (min (length (ts @ [t])) maxContentRefEntries) contentID"
      by (cases "length ts < maxContentRefEntries") (auto simp: snoc replicate_append_same simp flip: replicate_Suc)
    finally show ?case .
  qed (simp add: T_def no_content_def)
  have refs: "contentRefs (T ts) contentID = (if ts \<noteq> [] \<and> length ts \<le> maxContentRefEntries then Some (last ts) else None)" for ts
  proof (cases ts rule: rev_cases)
    case (snoc us t)
    have "replicate n contentID @ [contentID] = replicate (Suc n) contentID" for n by (simp add: replicate_append_same)
    then show ?thesis using order[of us] unfolding snoc by (simp add: T_def restrict_map_def maxContentRefEntries_def)
  qed (simp add: T_def no_content_def)
  show ?thesis using refs[of texts] by (simp add: getContentRef_def T_def)
qed

end
