(* ===== verification/Go_Paths.thy ===== *)
theory Go_Paths
  imports Prelude "HOL-Library.Sublist"
begin

text \<open>
  Package \<^verbatim>\<open>path/filepath\<close> on Unix, as far as the bridge uses it to confine files to a workspace: \<^verbatim>\<open>Clean\<close>, \<^verbatim>\<open>Join\<close>, \<^verbatim>\<open>Abs\<close>,
  \<^verbatim>\<open>Dir\<close>, \<^verbatim>\<open>Base\<close>, \<^verbatim>\<open>Ext\<close> and \<^verbatim>\<open>Rel\<close>. The components of a path are the parts between slashes; the main fact is that
  \<^verbatim>\<open>Rel\<close> leads upwards exactly when the components of the base are not a prefix of those of the target.
\<close>

definition is_abs :: "string \<Rightarrow> bool" where
  "is_abs p \<longleftrightarrow> p \<noteq> [] \<and> hd p = CHR ''/''"

text \<open>One component after another: a parent reference removes the component before it, at the root nothing.\<close>

definition clean_step :: "bool \<Rightarrow> string \<Rightarrow> string list \<Rightarrow> string list" where
  "clean_step rooted c acc =
     (if c = ''.'' then acc
      else if c = ''..'' then
        (if acc \<noteq> [] \<and> last acc \<noteq> ''..'' then butlast acc else if rooted then acc else acc @ [c])
      else acc @ [c])"

definition clean_parts :: "bool \<Rightarrow> string list \<Rightarrow> string list" where
  "clean_parts rooted cs = fold (clean_step rooted) cs []"

definition path_parts :: "string \<Rightarrow> string list" where
  "path_parts p = clean_parts (is_abs p) (path_fields p)"

definition Clean :: "string \<Rightarrow> string" where
  "Clean p =
     (if is_abs p then CHR ''/'' # join_strings ''/'' (path_parts p)
      else if path_parts p = [] then ''.'' else join_strings ''/'' (path_parts p))"

definition Join :: "string list \<Rightarrow> string" where
  "Join elems = (let elems = filter (\<lambda>e. e \<noteq> []) elems in if elems = [] then [] else Clean (join_strings ''/'' elems))"

definition Abs :: "string option \<Rightarrow> string \<Rightarrow> string option" where
  "Abs cwd p = (if is_abs p then Some (Clean p) else map_option (\<lambda>wd. Join [wd, p]) cwd)"

definition no_slash_end :: "string \<Rightarrow> string" where
  "no_slash_end p = rev (dropWhile (\<lambda>c. c = CHR ''/'') (rev p))"

definition Dir :: "string \<Rightarrow> string" where
  "Dir p = Clean (rev (dropWhile (\<lambda>c. c \<noteq> CHR ''/'') (rev p)))"

definition Base :: "string \<Rightarrow> string" where
  "Base p =
     (if p = [] then ''.''
      else let b = rev (takeWhile (\<lambda>c. c \<noteq> CHR ''/'') (rev (no_slash_end p))) in if b = [] then ''/'' else b)"

text \<open>From the last dot of the last component on.\<close>

definition Ext :: "string \<Rightarrow> string" where
  "Ext p =
     (let b = takeWhile (\<lambda>c. c \<noteq> CHR ''/'') (rev p)
      in if CHR ''.'' \<in> set b then CHR ''.'' # rev (takeWhile (\<lambda>c. c \<noteq> CHR ''.'') b) else [])"

fun strip_common :: "string list \<Rightarrow> string list \<Rightarrow> string list \<times> string list" where
  "strip_common (b # bs) (t # ts) = (if b = t then strip_common bs ts else (b # bs, t # ts))"
| "strip_common bs ts = (bs, ts)"

definition Rel :: "string \<Rightarrow> string \<Rightarrow> string option" where
  "Rel basepath targpath =
     (let b = Clean basepath; t = Clean targpath
      in if t = b then Some ''.''
         else let b = (if b = ''.'' then [] else b)
           in if is_abs b \<noteq> is_abs t then None
              else case strip_common (path_fields b) (path_fields t) of
                (br, tr) \<Rightarrow>
                  (if br \<noteq> [] \<and> tr \<noteq> [] \<and> hd br = ''..'' then None
                   else Some (join_strings ''/'' (replicate (length br) ''..'' @ tr))))"


section \<open>Components\<close>

definition plain :: "string list \<Rightarrow> bool" where
  "plain cs \<longleftrightarrow> (\<forall>c \<in> set cs. c \<noteq> [] \<and> CHR ''/'' \<notin> set c)"

lemma plain_simps [simp]:
  "plain []" "plain (c # cs) \<longleftrightarrow> c \<noteq> [] \<and> CHR ''/'' \<notin> set c \<and> plain cs" "plain (as @ bs) \<longleftrightarrow> plain as \<and> plain bs"
  by (auto simp: plain_def)

lemma plain_path_fields: "plain (path_fields p)"
  unfolding plain_def path_fields_def using fields_slash_nonempty fields_slash_no_slash by (metis empty_iff list.set(1))

lemma fields_slash_piece:
  "CHR ''/'' \<notin> set c \<Longrightarrow> fields_slash cur (c @ s) = fields_slash (rev c @ cur) s"
  by (induction c arbitrary: cur) auto

lemma fields_slash_end: "fields_slash cur [] = (if cur = [] then [] else [rev cur])"
  by simp

lemma path_fields_join: "plain cs \<Longrightarrow> path_fields (join_strings ''/'' cs) = cs"
proof (induction "''/''" cs rule: join_strings.induct)
  case (2 x)
  then show ?case using fields_slash_piece[of x "[]" "[]"] by (simp add: path_fields_def)
next
  case (3 x y xs)
  then show ?case using fields_slash_piece[of x "[]"] by (simp add: path_fields_def)
qed (simp add: path_fields_def)

lemma path_fields_rooted: "plain cs \<Longrightarrow> path_fields (CHR ''/'' # join_strings ''/'' cs) = cs"
  using path_fields_join[of cs] by (simp add: path_fields_def)

definition tidy :: "string list \<Rightarrow> bool" where
  "tidy cs \<longleftrightarrow> plain cs \<and> ''..'' \<notin> set cs \<and> ''.'' \<notin> set cs"

lemma tidy_clean_step: "tidy acc \<Longrightarrow> c \<noteq> [] \<Longrightarrow> CHR ''/'' \<notin> set c \<Longrightarrow> tidy (clean_step True c acc)"
  by (auto simp: clean_step_def tidy_def plain_def dest: in_set_butlastD)

lemma tidy_clean_parts:
  assumes "plain cs"
  shows "tidy (clean_parts True cs)"
proof -
  have "tidy (fold (clean_step True) cs acc)" if "tidy acc" for acc
    using assms that by (induction cs arbitrary: acc) (auto intro: tidy_clean_step)
  then show ?thesis by (simp add: clean_parts_def tidy_def)
qed

lemma clean_parts_tidy: "tidy cs \<Longrightarrow> clean_parts rooted cs = cs"
proof -
  have "fold (clean_step rooted) cs acc = acc @ cs" if "tidy cs" for acc
    using that by (induction cs arbitrary: acc) (auto simp: clean_step_def tidy_def)
  then show "tidy cs \<Longrightarrow> clean_parts rooted cs = cs" by (simp add: clean_parts_def)
qed

lemma tidy_path_parts: "is_abs p \<Longrightarrow> tidy (path_parts p)"
  unfolding path_parts_def using tidy_clean_parts[OF plain_path_fields] by simp

lemma is_abs_Cons [simp]: "is_abs (CHR ''/'' # s)"
  by (simp add: is_abs_def)

lemma Clean_abs: "is_abs p \<Longrightarrow> Clean p = CHR ''/'' # join_strings ''/'' (path_parts p)"
  by (simp add: Clean_def)

lemma path_fields_Clean: "is_abs p \<Longrightarrow> path_fields (Clean p) = path_parts p"
  using tidy_path_parts[of p] by (simp add: Clean_abs path_fields_rooted tidy_def)

lemma path_parts_Clean [simp]: "is_abs p \<Longrightarrow> path_parts (Clean p) = path_parts p"
  unfolding path_parts_def[of "Clean p"] path_fields_Clean using tidy_path_parts[of p] by (simp add: clean_parts_tidy)

lemma Clean_idem: "is_abs p \<Longrightarrow> Clean (Clean p) = Clean p"
  using path_parts_Clean[of p] by (simp add: Clean_abs)

lemma is_abs_Clean [simp]: "is_abs p \<Longrightarrow> is_abs (Clean p)"
  by (simp add: Clean_abs)

lemma is_abs_append: "is_abs p \<Longrightarrow> is_abs (p @ q)"
  by (cases p) (simp_all add: is_abs_def)

lemma is_abs_Join: "is_abs p \<Longrightarrow> is_abs (Join [p, q])"
  by (cases "p = []"; cases "q = []") (simp_all add: Join_def is_abs_append, simp_all add: is_abs_def)

lemma is_abs_Abs: "(\<And>wd. cwd = Some wd \<Longrightarrow> is_abs wd) \<Longrightarrow> Abs cwd p = Some a \<Longrightarrow> is_abs a"
  by (auto simp: Abs_def is_abs_Join split: if_splits)

lemma Clean_eq_iff: "is_abs p \<Longrightarrow> is_abs q \<Longrightarrow> Clean p = Clean q \<longleftrightarrow> path_parts p = path_parts q"
  by (metis Clean_abs path_parts_Clean)


section \<open>Containment\<close>

lemma strip_common_prefix: "prefix bs ts \<Longrightarrow> strip_common bs ts = ([], drop (length bs) ts)"
  by (induction bs ts rule: strip_common.induct) auto

lemma strip_common_rest: "strip_common bs ts = ([], tr) \<Longrightarrow> prefix bs ts"
  by (induction bs ts rule: strip_common.induct) (auto split: if_splits)

lemma strip_common_suffix: "strip_common bs ts = (br, tr) \<Longrightarrow> set br \<subseteq> set bs \<and> set tr \<subseteq> set ts"
  by (induction bs ts rule: strip_common.induct) (auto split: if_splits)

lemma join_up: "has_prefix (join_strings ''/'' (''..'' # cs)) ''../'' \<or> join_strings ''/'' (''..'' # cs) = ''..''"
  by (cases cs) (simp_all add: has_prefix_def)

lemma join_down:
  assumes "tidy cs"
  shows "join_strings ''/'' cs \<noteq> ''..''" "\<not> has_prefix (join_strings ''/'' cs) ''../''"
proof -
  have "path_fields ''..'' = [''..'']" by code_simp
  then show "join_strings ''/'' cs \<noteq> ''..''"
    using assms path_fields_join[of cs] by (metis list.set_intros(1) tidy_def)
  show "\<not> has_prefix (join_strings ''/'' cs) ''../''"
  proof
    assume "has_prefix (join_strings ''/'' cs) ''../''"
    then obtain r where r: "join_strings ''/'' cs = ''../'' @ r"
      unfolding has_prefix_def by (metis append_take_drop_id)
    have "path_fields (''../'' @ r) = ''..'' # path_fields r" by (simp add: path_fields_def)
    then show False using assms path_fields_join[of cs] r by (metis list.set_intros(1) tidy_def)
  qed
qed

definition pathIsWithinRoot :: "string \<Rightarrow> string \<Rightarrow> bool" where
  "pathIsWithinRoot root target =
     (case Rel root target of None \<Rightarrow> False | Some rel \<Rightarrow> rel \<noteq> ''..'' \<and> \<not> has_prefix rel ''../'')"

lemma within_root_iff:
  assumes "is_abs root" and "is_abs target"
  shows "pathIsWithinRoot root target \<longleftrightarrow> prefix (path_parts root) (path_parts target)"
proof (cases "path_parts target = path_parts root")
  case True
  then have "Clean target = Clean root" using assms by (simp add: Clean_eq_iff)
  then show ?thesis using True by (simp add: pathIsWithinRoot_def Rel_def has_prefix_def)
next
  case False
  then have ne: "Clean target \<noteq> Clean root" using assms by (simp add: Clean_eq_iff)
  obtain br tr where s: "strip_common (path_parts root) (path_parts target) = (br, tr)" by (cases "strip_common (path_parts root) (path_parts target)")
  note sub = strip_common_suffix[OF s]
  have "''..'' \<notin> set br" using sub tidy_path_parts[OF assms(1)] by (auto simp: tidy_def)
  then have hd: "\<not> (br \<noteq> [] \<and> tr \<noteq> [] \<and> hd br = ''..'')" by (metis hd_in_set)
  have "Clean root \<noteq> ''.''" using Clean_abs[OF assms(1)] by simp
  then have rel: "Rel root target = Some (join_strings ''/'' (replicate (length br) ''..'' @ tr))"
    using ne hd s assms by (simp add: Rel_def Let_def path_fields_Clean)
  show ?thesis
  proof (cases br)
    case Nil
    have "tidy tr" using sub tidy_path_parts[OF assms(2)] by (auto simp: tidy_def plain_def)
    then show ?thesis using rel Nil join_down[of tr] strip_common_rest s by (simp add: pathIsWithinRoot_def)
  next
    case (Cons b bs)
    have "\<not> prefix (path_parts root) (path_parts target)" using strip_common_prefix s Cons by fastforce
    then show ?thesis using rel Cons join_up[of "replicate (length bs) ''..'' @ tr"] by (auto simp: pathIsWithinRoot_def)
  qed
qed

end
