(* ===== verification/Read_File.thy ===== *)
theory Read_File
  imports Go_Paths
begin

text \<open>
  Reading a file of the workspace for a device (\<^verbatim>\<open>go-bridge/handlers.go\<close>: \<^verbatim>\<open>handleReadFile\<close> and the functions it calls,
  \<^verbatim>\<open>handleListDirectory\<close>). The file system may change between two system calls, so each call reads a view of its own; what
  the reply shows is confined to the workspace as far as the calls can tell.
\<close>

definition readFileMaxSize :: nat where "readFileMaxSize = 2 * 1024 * 1024"
definition readFileMaxLines :: nat where "readFileMaxLines = 5000"
definition readFileTailLines :: nat where "readFileTailLines = 200"

section \<open>The file system at one moment\<close>

record file_info =
  fi_IsDir :: bool
  fi_IsRegular :: bool
  fi_Size :: nat
  fi_identity :: nat

text \<open>
  The working directory, the resolution of symbolic links, \<^verbatim>\<open>Stat\<close> and \<^verbatim>\<open>Open\<close>, which both follow links. An open file has its
  own information and content; \<open>None\<close> is an error.
\<close>

record fs_view =
  fv_cwd :: "string option"
  fv_eval :: "string \<Rightarrow> string option"
  fv_stat :: "string \<Rightarrow> file_info option"
  fv_open :: "string \<Rightarrow> (file_info option \<times> string option) option"

text \<open>A view is coherent: links resolve to clean absolute paths which stay as they are, and Stat and Open look at what a path resolves to.\<close>

definition coherent :: "fs_view \<Rightarrow> bool" where
  "coherent v \<longleftrightarrow>
     (\<forall>wd. fv_cwd v = Some wd \<longrightarrow> is_abs wd) \<and>
     (\<forall>p q. is_abs p \<and> fv_eval v p = Some q \<longrightarrow>
        is_abs q \<and> Clean q = q \<and> fv_eval v q = Some q \<and> fv_stat v p = fv_stat v q \<and> fv_open v p = fv_open v q) \<and>
     (\<forall>p i d. fv_open v p = Some (Some i, d) \<longrightarrow> fv_stat v p = Some i)"


section \<open>Authorisation\<close>

definition canonicalExistingDirectory :: "fs_view \<Rightarrow> string \<Rightarrow> string option" where
  "canonicalExistingDirectory v path =
     (case Abs (fv_cwd v) (Clean path) of
        None \<Rightarrow> None
      | Some absp \<Rightarrow>
          (case fv_eval v absp of
             None \<Rightarrow> None
           | Some resolved \<Rightarrow>
               (case fv_stat v resolved of
                  None \<Rightarrow> None
                | Some info \<Rightarrow> if fi_IsDir info then Some resolved else None)))"

definition matchAuthorizedReadFileRoot :: "fs_view \<Rightarrow> fs_view \<Rightarrow> string \<Rightarrow> string \<Rightarrow> string option" where
  "matchAuthorizedReadFileRoot v1 v2 serverRoot requestedDir =
     (case canonicalExistingDirectory v1 serverRoot of
        None \<Rightarrow> None
      | Some root \<Rightarrow>
          (if requestedDir = [] then Some root
           else case canonicalExistingDirectory v2 requestedDir of
             None \<Rightarrow> None
           | Some requested \<Rightarrow> if requested \<noteq> root \<and> \<not> pathIsWithinRoot root requested then None else Some root))"

text \<open>
  \<open>dirs\<close> is the registry's directory of a session, empty when there is none; \<open>workDir\<close> is the working directory of a backend,
  \<open>None\<close> when the backend is unknown or has no such notion.
\<close>

definition authorizedReadFileRoot ::
  "(string \<Rightarrow> string) \<Rightarrow> (string \<Rightarrow> string option) \<Rightarrow> fs_view \<Rightarrow> fs_view \<Rightarrow> string \<Rightarrow> string \<Rightarrow> string \<Rightarrow> string \<Rightarrow> string option" where
  "authorizedReadFileRoot dirs workDir v1 v2 msgSessionID backendID requestedDir paramsSessionID =
     (let sessionID = (if msgSessionID = [] then paramsSessionID else msgSessionID)
      in if sessionID \<noteq> [] \<and> dirs sessionID \<noteq> [] then matchAuthorizedReadFileRoot v1 v2 (dirs sessionID) requestedDir
         else case workDir backendID of
           None \<Rightarrow> None
         | Some wd \<Rightarrow> if wd = [] then None else matchAuthorizedReadFileRoot v1 v2 wd requestedDir)"

text \<open>
  \<^verbatim>\<open>strings.ToLower\<close>: ASCII letters in an ASCII string; \<open>U\<close> is the Unicode table for the other strings.
\<close>

definition lower_char :: "char \<Rightarrow> char" where
  "lower_char c = (if (65 :: nat) \<le> of_char c \<and> of_char c \<le> (90 :: nat) then char_of ((of_char c :: nat) + 32) else c)"

definition is_ascii :: "string \<Rightarrow> bool" where
  "is_ascii s \<longleftrightarrow> (\<forall>c \<in> set s. (of_char c :: nat) < 128)"

definition to_lower :: "(string \<Rightarrow> string) \<Rightarrow> string \<Rightarrow> string" where
  "to_lower U s = (if is_ascii s then map lower_char s else U s)"

text \<open>\<^verbatim>\<open>strings.Split\<close> with a one-byte separator.\<close>

fun split_at :: "char \<Rightarrow> string \<Rightarrow> string \<Rightarrow> string list" where
  "split_at sep cur [] = [rev cur]"
| "split_at sep cur (c # cs) = (if c = sep then rev cur # split_at sep [] cs else split_at sep (c # cur) cs)"

fun sensitive_parts :: "string list \<Rightarrow> bool" where
  "sensitive_parts [] = False"
| "sensitive_parts (part # parts) =
     (part \<in> {''.ssh'', ''.aws'', ''.claude'', ''.codex''} \<or>
      part = ''.config'' \<and> parts \<noteq> [] \<and> hd parts \<in> {''gcloud'', ''opencode''} \<or> sensitive_parts parts)"

definition isSensitiveReadFilePath :: "(string \<Rightarrow> string) \<Rightarrow> string \<Rightarrow> bool" where
  "isSensitiveReadFilePath U path =
     (let lowerPath = to_lower U (Clean path); base = Base lowerPath
      in base \<in> {''management-token'', ''relay_identity.key'', ''devices.json''} \<or>
         base = ''.env'' \<or> has_prefix base ''.env.'' \<or> sensitive_parts (split_at (CHR ''/'') [] lowerPath))"

definition resolveAuthorizedReadFilePath ::
  "(string \<Rightarrow> string) \<Rightarrow> fs_view \<Rightarrow> fs_view \<Rightarrow> fs_view \<Rightarrow> fs_view \<Rightarrow> string \<Rightarrow> string \<Rightarrow> string + string \<times> file_info" where
  "resolveAuthorizedReadFilePath U v3 v4 v5 v6 root requestedPath =
     (let cleanPath = Clean requestedPath
      in if cleanPath = [] \<or> cleanPath = ''.'' then Inl ''invalid_param''
         else let candidate = (if is_abs cleanPath then cleanPath else Join [root, cleanPath])
           in case Abs (fv_cwd v3) candidate of
                None \<Rightarrow> Inl ''file.outside_authorized_root''
              | Some candidateAbs \<Rightarrow>
                  (case fv_eval v4 (Dir candidateAbs) of
                     None \<Rightarrow> Inl ''file.outside_authorized_root''
                   | Some resolvedParent \<Rightarrow>
                       (if \<not> pathIsWithinRoot root (Join [resolvedParent, Base candidateAbs]) then Inl ''file.outside_authorized_root''
                        else case fv_eval v5 candidateAbs of
                          None \<Rightarrow> Inl ''file_not_found''
                        | Some resolved \<Rightarrow>
                            (if \<not> pathIsWithinRoot root resolved then Inl ''file.symlink_escape''
                             else if isSensitiveReadFilePath U resolved then Inl ''file.sensitive_path_denied''
                             else case fv_stat v6 resolved of
                               None \<Rightarrow> Inl ''file_not_found''
                             | Some info \<Rightarrow> if \<not> fi_IsRegular info then Inl ''invalid_file_type'' else Inr (resolved, info)))))"


section \<open>The reply\<close>

record file_reply =
  fr_path :: string
  fr_content :: string
  fr_extension :: string
  fr_sizeBytes :: nat
  fr_totalLines :: nat
  fr_truncated :: bool

definition newline :: string where "newline = [CHR 0x0A]"

definition shown_content :: "string \<Rightarrow> string \<times> nat \<times> bool" where
  "shown_content content =
     (let ls = split_at (CHR 0x0A) [] content; totalLines = length ls
      in if totalLines > readFileMaxLines
         then let headLines = readFileMaxLines - readFileTailLines
           in (join_strings newline (take headLines ls) @
               newline @ newline @ ''... ('' @ show_int (int (totalLines - headLines - readFileTailLines)) @ '' lines omitted) ...'' @ newline @ newline @
               join_strings newline (drop (totalLines - readFileTailLines) ls), totalLines, True)
         else (content, totalLines, False))"

text \<open>The views of the system calls in their order: two for the root, three for the path, then Stat and Open.\<close>

record fs_moments =
  at_root :: fs_view
  at_requested :: fs_view
  at_abs :: fs_view
  at_parent :: fs_view
  at_resolve :: fs_view
  at_stat :: fs_view
  at_open :: fs_view

record read_request =
  rr_sessionID :: string
  rr_backendID :: string
  rr_Path :: string
  rr_Directory :: string
  rr_SessionID :: string

definition handleReadFile ::
  "(string \<Rightarrow> string) \<Rightarrow> (string \<Rightarrow> string) \<Rightarrow> (string \<Rightarrow> string option) \<Rightarrow> fs_moments \<Rightarrow> read_request \<Rightarrow> string + file_reply" where
  "handleReadFile U dirs workDir m r =
     (if rr_Path r = [] then Inl ''missing_param''
      else case authorizedReadFileRoot dirs workDir (at_root m) (at_requested m) (rr_sessionID r) (rr_backendID r) (rr_Directory r) (rr_SessionID r) of
        None \<Rightarrow> Inl ''file.outside_authorized_root''
      | Some authorizedRoot \<Rightarrow>
          (case resolveAuthorizedReadFilePath U (at_abs m) (at_parent m) (at_resolve m) (at_stat m) authorizedRoot (rr_Path r) of
             Inl code \<Rightarrow> Inl code
           | Inr (resolvedPath, info) \<Rightarrow>
               (if fi_Size info > readFileMaxSize then Inl ''file_too_large''
                else case fv_open (at_open m) resolvedPath of
                  None \<Rightarrow> Inl ''read_failed''
                | Some (openedInfo, content) \<Rightarrow>
                    (if openedInfo = None \<or> fi_identity (the openedInfo) \<noteq> fi_identity info then Inl ''file.changed_during_read''
                     else case content of
                       None \<Rightarrow> Inl ''read_failed''
                     | Some bs \<Rightarrow>
                         (let data = take (readFileMaxSize + 1) bs
                          in if length data > readFileMaxSize then Inl ''file_too_large''
                             else let (shown, totalLines, truncated) = shown_content data
                               in Inr \<lparr>fr_path = resolvedPath, fr_content = shown,
                                       fr_extension = (let e = Ext resolvedPath in if has_prefix e ''.'' then drop 1 e else e),
                                       fr_sizeBytes = length data, fr_totalLines = totalLines, fr_truncated = truncated\<rparr>)))))"


section \<open>Listing a directory\<close>

definition expandPath :: "string option \<Rightarrow> string option \<Rightarrow> string \<Rightarrow> string option" where
  "expandPath home cwd path =
     (if path = [] \<or> path = ''~'' then home
      else if has_prefix path ''~/'' then map_option (\<lambda>h. Join [h, drop 2 path]) home
      else Abs cwd (Clean path))"

definition handleListDirectory ::
  "string option \<Rightarrow> string option \<Rightarrow> (string \<Rightarrow> (string \<times> bool) list option) \<Rightarrow> string
     \<Rightarrow> string + string \<times> (string \<times> string \<times> bool) list" where
  "handleListDirectory home cwd readDir path =
     (case expandPath home cwd path of
        None \<Rightarrow> Inl ''invalid_path''
      | Some resolvedPath \<Rightarrow>
          (case readDir resolvedPath of
             None \<Rightarrow> Inl ''read_failed''
           | Some entries \<Rightarrow>
               Inr (resolvedPath, take 1000 (map (\<lambda>(name, d). (name, Join [resolvedPath, name], d)) (filter (\<lambda>(name, d). \<not> has_prefix name ''.'') entries)))))"


section \<open>What a reply shows lies in the workspace\<close>

lemma canonical_root:
  assumes "coherent v" and "canonicalExistingDirectory v p = Some root"
  shows "is_abs root \<and> Clean root = root"
proof -
  obtain a where a: "Abs (fv_cwd v) (Clean p) = Some a" "fv_eval v a = Some root"
    using assms(2) by (auto simp: canonicalExistingDirectory_def split: option.splits if_splits)
  have "is_abs a" using assms(1) by (intro is_abs_Abs[OF _ a(1)]) (auto simp: coherent_def)
  then show ?thesis using assms(1) a(2) unfolding coherent_def by blast
qed

lemma matched_root:
  assumes "matchAuthorizedReadFileRoot v1 v2 serverRoot requestedDir = Some root"
  shows "canonicalExistingDirectory v1 serverRoot = Some root"
  using assms by (auto simp: matchAuthorizedReadFileRoot_def split: option.splits if_splits)

lemma authorized_root:
  assumes "authorizedReadFileRoot dirs workDir v1 v2 sid bid dir psid = Some root"
  shows "\<exists>server. canonicalExistingDirectory v1 server = Some root"
  using assms unfolding authorizedReadFileRoot_def Let_def
  by (simp split: if_splits option.splits) (blast dest: matched_root)+

lemma resolved_file:
  assumes "resolveAuthorizedReadFilePath U v3 v4 v5 v6 root p = Inr (resolved, info)"
  obtains a where "fv_eval v5 a = Some resolved" "Abs (fv_cwd v3) (if is_abs (Clean p) then Clean p else Join [root, Clean p]) = Some a"
    "pathIsWithinRoot root resolved" "\<not> isSensitiveReadFilePath U resolved" "fv_stat v6 resolved = Some info" "fi_IsRegular info"
  using assms by (auto simp: resolveAuthorizedReadFilePath_def Let_def split: option.splits if_splits sum.splits)

lemma abs_candidate:
  assumes "is_abs root" and "Abs cwd (if is_abs (Clean p) then Clean p else Join [root, Clean p]) = Some a"
  shows "is_abs a"
  using assms is_abs_Join[OF assms(1)] by (auto simp: Abs_def split: if_splits)

lemma split_at_append: "sep \<notin> set c \<Longrightarrow> split_at sep cur (c @ s) = split_at sep (rev c @ cur) s"
  by (induction c arbitrary: cur) auto

lemma split_at_join:
  assumes "\<forall>c \<in> set cs. sep \<notin> set c" and "cs \<noteq> []"
  shows "split_at sep [] (join_strings [sep] cs) = cs"
  using assms
proof (induction "[sep]" cs rule: join_strings.induct)
  case (2 x)
  then show ?case using split_at_append[of sep x "[]" "[]"] by simp
next
  case (3 x y xs)
  then show ?case using split_at_append[of sep x "[]"] by simp
qed simp

lemma sensitive_member: "c \<in> set ps \<Longrightarrow> c \<in> {''.ssh'', ''.aws'', ''.claude'', ''.codex''} \<Longrightarrow> sensitive_parts ps"
  by (induction ps) auto

lemma lower_slash: "lower_char c = CHR ''/'' \<longleftrightarrow> c = CHR ''/''"
proof -
  have "lower_char c = CHR ''/'' \<longleftrightarrow> (of_char (lower_char c) :: nat) = 47"
    using of_char_eq_iff[where ?'a = nat, of "lower_char c" "CHR ''/''"] by simp
  also have "\<dots> \<longleftrightarrow> (of_char c :: nat) = 47" by (auto simp: lower_char_def)
  also have "\<dots> \<longleftrightarrow> c = CHR ''/''" using of_char_eq_iff[where ?'a = nat, of c "CHR ''/''"] by simp
  finally show ?thesis .
qed

lemma lower_join: "map lower_char (join_strings ''/'' cs) = join_strings ''/'' (map (map lower_char) cs)"
  by (induction "''/''" cs rule: join_strings.induct) (simp_all add: lower_slash)

lemma sensitive_part:
  assumes "is_abs p" and "Clean p = p" and "is_ascii p" and "c \<in> set (path_parts p)"
    and "map lower_char c \<in> {''.ssh'', ''.aws'', ''.claude'', ''.codex''}"
  shows "isSensitiveReadFilePath U p"
proof -
  define cs where "cs = [] # map (map lower_char) (path_parts p)"
  have "\<forall>d \<in> set cs. CHR ''/'' \<notin> set d"
    using tidy_path_parts[OF assms(1)] by (auto simp: cs_def tidy_def plain_def dest: lower_slash[THEN iffD1, OF sym])
  moreover have p: "p = CHR ''/'' # join_strings ''/'' (path_parts p)" using Clean_abs[OF assms(1)] assms(2) by simp
  moreover have "join_strings ''/'' cs = map lower_char p"
  proof -
    have "map lower_char p = CHR ''/'' # join_strings ''/'' (map (map lower_char) (path_parts p))"
      by (subst p) (simp add: lower_join lower_slash)
    moreover have "join_strings ''/'' cs = ''/'' @ join_strings ''/'' (map (map lower_char) (path_parts p))"
      using assms(4) by (cases "path_parts p") (simp_all add: cs_def)
    ultimately show ?thesis by simp
  qed
  ultimately have "split_at (CHR ''/'') [] (map lower_char p) = cs"
    using split_at_join[of cs "CHR ''/''"] by (simp add: cs_def)
  moreover have "sensitive_parts cs" using assms(4,5) by (intro sensitive_member[of "map lower_char c"]) (auto simp: cs_def)
  ultimately show ?thesis using assms(2,3) by (simp add: isSensitiveReadFilePath_def to_lower_def Let_def)
qed



section \<open>What a change in between can do\<close>

text \<open>A workspace \<^verbatim>\<open>/w\<close> with one file, and the same after the file was replaced by a link to a file outside.\<close>

definition dir_info :: file_info where "dir_info = \<lparr>fi_IsDir = True, fi_IsRegular = False, fi_Size = 0, fi_identity = 0\<rparr>"
definition reg_info :: "nat \<Rightarrow> file_info" where "reg_info n = \<lparr>fi_IsDir = False, fi_IsRegular = True, fi_Size = 6, fi_identity = n\<rparr>"

definition view_before :: fs_view where
  "view_before = \<lparr>fv_cwd = None,
     fv_eval = (\<lambda>p. if p \<in> {''/w'', ''/w/f''} then Some p else None),
     fv_stat = (\<lambda>p. if p = ''/w'' then Some dir_info else if p = ''/w/f'' then Some (reg_info 1) else None),
     fv_open = (\<lambda>p. if p = ''/w/f'' then Some (Some (reg_info 1), Some ''public'') else None)\<rparr>"

definition view_after :: fs_view where
  "view_after = \<lparr>fv_cwd = None,
     fv_eval = (\<lambda>p. if p = ''/w'' then Some p else if p \<in> {''/w/f'', ''/etc/x''} then Some ''/etc/x'' else None),
     fv_stat = (\<lambda>p. if p = ''/w'' then Some dir_info else if p \<in> {''/w/f'', ''/etc/x''} then Some (reg_info 2) else None),
     fv_open = (\<lambda>p. if p \<in> {''/w/f'', ''/etc/x''} then Some (Some (reg_info 2), Some ''secret'') else None)\<rparr>"

lemma clean_examples: "Clean ''/w'' = ''/w''" "Clean ''/w/f'' = ''/w/f''" "Clean ''/etc/x'' = ''/etc/x''"
  by code_simp+

lemma views_coherent: "coherent view_before" "coherent view_after"
  by (auto simp: coherent_def view_before_def view_after_def clean_examples is_abs_def reg_info_def dir_info_def split: if_splits)

definition read_f :: read_request where
  "read_f = \<lparr>rr_sessionID = [], rr_backendID = ''b'', rr_Path = ''f'', rr_Directory = [], rr_SessionID = []\<rparr>"

definition moments :: "fs_view \<Rightarrow> fs_view \<Rightarrow> fs_moments" where
  "moments v v' = \<lparr>at_root = v, at_requested = v, at_abs = v, at_parent = v, at_resolve = v, at_stat = v', at_open = v'\<rparr>"

definition served :: "string \<Rightarrow> file_reply" where
  "served c = \<lparr>fr_path = ''/w/f'', fr_content = c, fr_extension = [], fr_sizeBytes = 6, fr_totalLines = 1, fr_truncated = False\<rparr>"

lemma root_w: "authorizedReadFileRoot (\<lambda>_. []) (\<lambda>_. Some ''/w'') view_before view_before [] ''b'' [] [] = Some ''/w''"
  by code_simp

lemma resolve_f:
  "resolveAuthorizedReadFilePath id view_before view_before view_before view_before ''/w'' ''f'' = Inr (''/w/f'', reg_info 1)"
  "resolveAuthorizedReadFilePath id view_before view_before view_before view_after ''/w'' ''f'' = Inr (''/w/f'', reg_info 2)"
  by code_simp+

lemma ext_f: "Ext ''/w/f'' = []"
  by code_simp

lemma shown_f: "shown_content ''public'' = (''public'', 1, False)" "shown_content ''secret'' = (''secret'', 1, False)"
  by (simp_all add: shown_content_def readFileMaxLines_def)

lemma serve_f:
  "handleReadFile id (\<lambda>_. []) (\<lambda>_. Some ''/w'') (moments view_before view_before) read_f = Inr (served ''public'')"
  "handleReadFile id (\<lambda>_. []) (\<lambda>_. Some ''/w'') (moments view_before view_after) read_f = Inr (served ''secret'')"
  by (simp_all add: handleReadFile_def moments_def read_f_def root_w resolve_f served_def ext_f shown_f)
    (simp_all add: view_before_def view_after_def reg_info_def readFileMaxSize_def shown_f ext_f has_prefix_def)


text \<open>
  The check and the reading look at the file system at different times. When a file of the workspace becomes a link between the resolution and
  Stat, Stat and Open both follow it, their comparison succeeds, and the content of a file outside the workspace is served.
\<close>

theorem read_file_race:
  "\<exists>m reply. coherent (at_root m) \<and> coherent (at_stat m) \<and>
     at_requested m = at_root m \<and> at_abs m = at_root m \<and> at_parent m = at_root m \<and> at_resolve m = at_root m \<and> at_open m = at_stat m \<and>
     handleReadFile id (\<lambda>_. []) (\<lambda>_. Some ''/w'') m read_f = Inr reply \<and>
     (\<exists>outside. fv_eval (at_open m) (fr_path reply) = Some outside \<and> \<not> pathIsWithinRoot ''/w'' outside \<and>
        fv_open (at_open m) outside = Some (fv_stat (at_stat m) outside, Some (fr_content reply)))"
proof -
  have out: "\<not> pathIsWithinRoot ''/w'' ''/etc/x''" by code_simp
  have "fv_eval view_after ''/w/f'' = Some ''/etc/x'' \<and> fv_open view_after ''/etc/x'' = Some (fv_stat view_after ''/etc/x'', Some ''secret'')"
    by (simp add: view_after_def)
  then show ?thesis
    using serve_f(2) views_coherent out
    by (intro exI[of _ "moments view_before view_after"] exI[of _ "served ''secret''"])
      (simp add: moments_def served_def)
qed

end
