(* ===== verification/Session_Registry.thy ===== *)
theory Session_Registry
  imports Prelude
begin

text \<open>
  The registry of agent sessions (\<^verbatim>\<open>sessionRegistry\<close> in \<^verbatim>\<open>go-bridge/types.go\<close>) and what \<^verbatim>\<open>handlers.go\<close> does with it: sending a
  message, rebinding a pending session to its real identifier, the reaper of idle sessions, shutdown. The registry's entries are pointers,
  and after a rebind two keys hold the same one, so the entries live in a store of their own.
\<close>

datatype sessionState = Idle | Running | Closing

text \<open>An agent session is a number; a closed one is still referred to.\<close>

record trackedSession =
  ts_session :: "nat option"
  ts_backendID :: string
  ts_sessionID :: string
  ts_directory :: string
  ts_state :: sessionState
  ts_lastUsedAt :: gotime
  ts_lastEventAt :: gotime
  ts_pendingID :: string

record sessionRegistry =
  sr_sessions :: "string \<rightharpoonup> nat"
  sr_keys :: "string list"
  sr_store :: "nat \<Rightarrow> trackedSession"
  sr_next :: nat

text \<open>\<open>sr_keys\<close> lists the keys in the order in which a loop over the Go map visits them.\<close>

definition newSessionRegistry :: sessionRegistry where
  "newSessionRegistry = \<lparr>sr_sessions = Map.empty, sr_keys = [],
     sr_store = (\<lambda>_. \<lparr>ts_session = None, ts_backendID = [], ts_sessionID = [], ts_directory = [], ts_state = Idle, ts_lastUsedAt = 0, ts_lastEventAt = 0, ts_pendingID = []\<rparr>),
     sr_next = 0\<rparr>"

definition sr_get :: "string \<Rightarrow> sessionRegistry \<Rightarrow> trackedSession option" where
  "sr_get k r = map_option (sr_store r) (sr_sessions r k)"

definition bind_key :: "string \<Rightarrow> nat \<Rightarrow> sessionRegistry \<Rightarrow> sessionRegistry" where
  "bind_key k i r = r\<lparr>sr_sessions := (sr_sessions r)(k \<mapsto> i), sr_keys := (if k \<in> set (sr_keys r) then sr_keys r else sr_keys r @ [k])\<rparr>"

definition drop_key :: "string \<Rightarrow> sessionRegistry \<Rightarrow> sessionRegistry" where
  "drop_key k r = r\<lparr>sr_sessions := (sr_sessions r)(k := None), sr_keys := filter (\<lambda>x. x \<noteq> k) (sr_keys r)\<rparr>"

definition add_tracked :: "string \<Rightarrow> trackedSession \<Rightarrow> sessionRegistry \<Rightarrow> sessionRegistry" where
  "add_tracked k t r = bind_key k (sr_next r) (r\<lparr>sr_store := (sr_store r)(sr_next r := t), sr_next := Suc (sr_next r)\<rparr>)"

definition change_tracked :: "nat \<Rightarrow> (trackedSession \<Rightarrow> trackedSession) \<Rightarrow> sessionRegistry \<Rightarrow> sessionRegistry" where
  "change_tracked i f r = r\<lparr>sr_store := (sr_store r)(i := f (sr_store r i))\<rparr>"

definition fresh_tracked :: "gotime \<Rightarrow> string \<Rightarrow> sessionState \<Rightarrow> trackedSession" where
  "fresh_tracked now k st =
     \<lparr>ts_session = None, ts_backendID = [], ts_sessionID = k, ts_directory = [], ts_state = st, ts_lastUsedAt = now, ts_lastEventAt = now, ts_pendingID = []\<rparr>"

definition sr_put :: "gotime \<Rightarrow> string \<Rightarrow> string \<Rightarrow> string \<Rightarrow> nat \<Rightarrow> sessionRegistry \<Rightarrow> sessionRegistry" where
  "sr_put now k backendID directory sess r =
     add_tracked k ((fresh_tracked now k Idle)\<lparr>ts_session := Some sess, ts_backendID := backendID, ts_directory := directory\<rparr>) r"

definition putRaw :: "gotime \<Rightarrow> string \<Rightarrow> nat \<Rightarrow> sessionRegistry \<Rightarrow> sessionRegistry" where
  "putRaw now k sess r =
     (case sr_sessions r k of
        Some i \<Rightarrow> change_tracked i (\<lambda>t. t\<lparr>ts_session := Some sess\<rparr>) r
      | None \<Rightarrow> add_tracked k ((fresh_tracked now k Idle)\<lparr>ts_session := Some sess\<rparr>) r)"

definition markRunning :: "gotime \<Rightarrow> string \<Rightarrow> sessionRegistry \<Rightarrow> sessionRegistry" where
  "markRunning now k r =
     (case sr_sessions r k of
        Some i \<Rightarrow> change_tracked i (\<lambda>t. t\<lparr>ts_state := Running, ts_lastUsedAt := now\<rparr>) r
      | None \<Rightarrow> add_tracked k (fresh_tracked now k Running) r)"

definition sr_touch :: "gotime \<Rightarrow> string \<Rightarrow> sessionRegistry \<Rightarrow> sessionRegistry" where
  "sr_touch now k r =
     (case sr_sessions r k of Some i \<Rightarrow> change_tracked i (\<lambda>t. t\<lparr>ts_lastEventAt := now\<rparr>) r | None \<Rightarrow> r)"

definition markIdle :: "gotime \<Rightarrow> string \<Rightarrow> sessionRegistry \<Rightarrow> sessionRegistry" where
  "markIdle now k r =
     (case sr_sessions r k of
        Some i \<Rightarrow> change_tracked i (\<lambda>t. t\<lparr>ts_state := Idle, ts_lastEventAt := now\<rparr>) r
      | None \<Rightarrow> add_tracked k (fresh_tracked now k Idle) r)"

definition isIdle :: "string \<Rightarrow> sessionRegistry \<Rightarrow> bool" where
  "isIdle k r = (case sr_get k r of None \<Rightarrow> True | Some t \<Rightarrow> ts_state t = Idle)"

definition sr_delete :: "string \<Rightarrow> sessionRegistry \<Rightarrow> (nat option) option \<times> sessionRegistry" where
  "sr_delete k r =
     (case sr_get k r of
        None \<Rightarrow> (None, r)
      | Some t \<Rightarrow>
          (let r = (if ts_sessionID t \<noteq> [] then drop_key (ts_sessionID t) r else r);
               r = (if ts_pendingID t \<noteq> [] then drop_key (ts_pendingID t) r else r)
           in (Some (ts_session t), drop_key k r)))"

definition sr_rebind :: "string \<Rightarrow> string \<Rightarrow> sessionRegistry \<Rightarrow> sessionRegistry" where
  "sr_rebind oldID newID r =
     (case sr_sessions r oldID of
        None \<Rightarrow> r
      | Some i \<Rightarrow> bind_key newID i (change_tracked i (\<lambda>t. t\<lparr>ts_sessionID := newID, ts_pendingID := oldID\<rparr>) r))"

definition directoryForSession :: "string \<Rightarrow> sessionRegistry \<Rightarrow> string" where
  "directoryForSession k r = (case sr_get k r of None \<Rightarrow> [] | Some t \<Rightarrow> ts_directory t)"

definition sr_drain :: "sessionRegistry \<Rightarrow> nat list \<times> sessionRegistry" where
  "sr_drain r = (map the (filter (\<lambda>s. s \<noteq> None) (map (\<lambda>k. ts_session (the (sr_get k r))) (sr_keys r))), r\<lparr>sr_sessions := Map.empty, sr_keys := []\<rparr>)"

definition idleTTL :: "string \<Rightarrow> duration" where
  "idleTTL backendID = (if backendID = ''codex'' then 600000000000 else 300000000000)"


lemma mark_isIdle: "isIdle k (markIdle now k r)" and mark_running: "\<not> isIdle k (markRunning now k r)"
  by (simp_all add: isIdle_def markIdle_def markRunning_def sr_get_def change_tracked_def add_tracked_def bind_key_def fresh_tracked_def split: option.split)

lemma isIdle_touch [simp]: "isIdle k (sr_touch now l r) = isIdle k r"
  by (simp add: isIdle_def sr_touch_def sr_get_def change_tracked_def split: option.split)


section \<open>What the handlers do\<close>

definition rebindSessionIDIfResolved :: "string \<Rightarrow> string \<Rightarrow> string \<Rightarrow> sessionRegistry \<Rightarrow> string \<times> sessionRegistry" where
  "rebindSessionIDIfResolved currentID sessCurrent eventSessionID r =
     (let realID = (if trim_space eventSessionID = [] then trim_space sessCurrent else trim_space eventSessionID)
      in if realID = [] \<or> realID = currentID \<or> \<not> has_prefix currentID ''pending-'' then (currentID, r)
         else (realID, sr_rebind currentID realID r))"

text \<open>The keys the reaper picks, and the sessions it closes after deleting them one by one.\<close>

definition reapable :: "gotime \<Rightarrow> sessionRegistry \<Rightarrow> string \<Rightarrow> bool" where
  "reapable now r k =
     (case sr_get k r of
        None \<Rightarrow> False
      | Some t \<Rightarrow> ts_state t = Idle \<and> \<not> has_prefix k ''pending-'' \<and> time_sub now (ts_lastEventAt t) > idleTTL (ts_backendID t))"

fun delete_all :: "string list \<Rightarrow> sessionRegistry \<Rightarrow> nat list \<times> sessionRegistry" where
  "delete_all [] r = ([], r)"
| "delete_all (k # ks) r =
     (let (s, r) = sr_delete k r; (ss, r) = delete_all ks r
      in (case s of Some (Some x) \<Rightarrow> x # ss | _ \<Rightarrow> ss, r))"

definition cleanupIdleSessions :: "gotime \<Rightarrow> sessionRegistry \<Rightarrow> nat list \<times> sessionRegistry" where
  "cleanupIdleSessions now r = delete_all (filter (reapable now r) (sr_keys r)) r"

text \<open>
  \<^verbatim>\<open>handleSendMessage\<close> up to the first release of the lock, its second critical section with the session that was started meanwhile, and
  \<^verbatim>\<open>handleAbortGeneration\<close>.
\<close>

definition send_lookup :: "string \<Rightarrow> sessionRegistry \<Rightarrow> nat option" where
  "send_lookup k r = (case sr_get k r of None \<Rightarrow> None | Some t \<Rightarrow> ts_session t)"

definition send_install :: "gotime \<Rightarrow> string \<Rightarrow> string \<Rightarrow> string \<Rightarrow> nat \<Rightarrow> sessionRegistry \<Rightarrow> nat \<times> nat list \<times> sessionRegistry" where
  "send_install now k backendID directory started r =
     (case send_lookup k r of
        Some existing \<Rightarrow> (existing, [started], r)
      | None \<Rightarrow> (started, [], sr_put now k backendID directory started r))"

definition abort_session :: "string \<Rightarrow> sessionRegistry \<Rightarrow> nat list \<times> sessionRegistry" where
  "abort_session k r = (case sr_delete k r of (Some (Some s), r') \<Rightarrow> ([s], r') | (_, r') \<Rightarrow> ([], r'))"



section \<open>Well-formed registries\<close>

text \<open>
  The keys of an entry are its own names: its identifier and, after a rebind, the pending one; both lead back to it. No agent session is held by two entries.
\<close>

definition registry_ok :: "sessionRegistry \<Rightarrow> bool" where
  "registry_ok r \<longleftrightarrow>
     distinct (sr_keys r) \<and> set (sr_keys r) = dom (sr_sessions r) \<and>
     (\<forall>k i. sr_sessions r k = Some i \<longrightarrow> i < sr_next r \<and>
        (k = ts_sessionID (sr_store r i) \<or> k = ts_pendingID (sr_store r i) \<and> k \<noteq> []) \<and>
        sr_sessions r (ts_sessionID (sr_store r i)) = Some i \<and>
        (ts_pendingID (sr_store r i) \<noteq> [] \<longrightarrow> sr_sessions r (ts_pendingID (sr_store r i)) = Some i \<and> ts_session (sr_store r i) \<noteq> None \<and> ts_sessionID (sr_store r i) \<noteq> [])) \<and>
     (\<forall>k l i j s. sr_sessions r k = Some i \<and> sr_sessions r l = Some j \<and> ts_session (sr_store r i) = Some s \<and> ts_session (sr_store r j) = Some s
        \<longrightarrow> i = j)"

lemma registry_okD:
  assumes "registry_ok r" and "sr_sessions r k = Some i"
  shows "i < sr_next r" "k = ts_sessionID (sr_store r i) \<or> k = ts_pendingID (sr_store r i) \<and> k \<noteq> []"
    "sr_sessions r (ts_sessionID (sr_store r i)) = Some i"
    "ts_pendingID (sr_store r i) \<noteq> [] \<Longrightarrow> sr_sessions r (ts_pendingID (sr_store r i)) = Some i"
    "ts_pendingID (sr_store r i) \<noteq> [] \<Longrightarrow> ts_session (sr_store r i) \<noteq> None"
    "ts_pendingID (sr_store r i) \<noteq> [] \<Longrightarrow> ts_sessionID (sr_store r i) \<noteq> []"
  using assms unfolding registry_ok_def by blast+

lemma registry_ok_unique:
  "registry_ok r \<Longrightarrow> sr_sessions r k = Some i \<Longrightarrow> sr_sessions r l = Some j \<Longrightarrow> ts_session (sr_store r i) = Some s \<Longrightarrow>
     ts_session (sr_store r j) = Some s \<Longrightarrow> i = j"
  unfolding registry_ok_def by blast

lemma registry_ok_keys: "registry_ok r \<Longrightarrow> distinct (sr_keys r) \<and> set (sr_keys r) = dom (sr_sessions r)"
  by (simp add: registry_ok_def)

definition fresh_session :: "nat \<Rightarrow> sessionRegistry \<Rightarrow> bool" where
  "fresh_session s r \<longleftrightarrow> (\<forall>k i. sr_sessions r k = Some i \<longrightarrow> ts_session (sr_store r i) \<noteq> Some s)"

lemma registry_ok_new: "registry_ok newSessionRegistry"
  by (simp add: registry_ok_def newSessionRegistry_def)

lemma registry_ok_add:
  assumes "registry_ok r" and "send_lookup k r = None" and "ts_sessionID t = k" "ts_pendingID t = []"
    and "\<And>s. ts_session t = Some s \<Longrightarrow> fresh_session s r"
  shows "registry_ok (add_tracked k t r)"
proof -
  define r' where "r' = add_tracked k t r"
  have S: "sr_sessions r' = (sr_sessions r)(k \<mapsto> sr_next r)" and T: "sr_store r' = (sr_store r)(sr_next r := t)" and N: "sr_next r' = Suc (sr_next r)"
    by (simp_all add: r'_def add_tracked_def bind_key_def)
  have K: "distinct (sr_keys r')" "set (sr_keys r') = dom (sr_sessions r')"
    using registry_ok_keys[OF assms(1)] by (auto simp: r'_def add_tracked_def bind_key_def)
  have old: "sr_sessions r l = Some i \<and> i < sr_next r \<and> sr_store r' i = sr_store r i" if "sr_sessions r' l = Some i" "l \<noteq> k" for l i
    using that registry_okD(1)[OF assms(1)] by (auto simp: S T)
  have other: "ts_sessionID (sr_store r i) \<noteq> k \<and> (ts_pendingID (sr_store r i) \<noteq> [] \<longrightarrow> ts_pendingID (sr_store r i) \<noteq> k)"
    if "sr_sessions r l = Some i" "l \<noteq> k" for l i
  proof (cases "sr_sessions r k = Some i")
    case True
    then have none: "ts_session (sr_store r i) = None" using assms(2) by (auto simp: send_lookup_def sr_get_def)
    then have "ts_pendingID (sr_store r i) = []" using registry_okD(5)[OF assms(1) True] by blast
    then show ?thesis using registry_okD(2)[OF assms(1) True] registry_okD(2)[OF assms(1) that(1)] that(2) by auto
  next
    case False
    then show ?thesis using registry_okD(3,4)[OF assms(1) that(1)] by auto
  qed
  have "registry_ok r'"
    unfolding registry_ok_def
  proof (intro conjI allI impI K)
    fix l i assume b: "sr_sessions r' l = Some i"
    have "i < sr_next r' \<and> (l = ts_sessionID (sr_store r' i) \<or> l = ts_pendingID (sr_store r' i) \<and> l \<noteq> []) \<and>
        sr_sessions r' (ts_sessionID (sr_store r' i)) = Some i \<and>
        (ts_pendingID (sr_store r' i) \<noteq> [] \<longrightarrow> sr_sessions r' (ts_pendingID (sr_store r' i)) = Some i \<and> ts_session (sr_store r' i) \<noteq> None \<and> ts_sessionID (sr_store r' i) \<noteq> [])"
    proof (cases "l = k")
      case True
      then show ?thesis using b assms(3,4) by (simp add: S T N)
    next
      case False
      note o = old[OF b False]
      show ?thesis
        using registry_okD[OF assms(1), of l i] o other[OF _ False, of i] by (simp add: N) (simp add: S)
    qed
    then show "i < sr_next r'" "l = ts_sessionID (sr_store r' i) \<or> l = ts_pendingID (sr_store r' i) \<and> l \<noteq> []"
      "sr_sessions r' (ts_sessionID (sr_store r' i)) = Some i"
      "ts_pendingID (sr_store r' i) \<noteq> [] \<Longrightarrow> sr_sessions r' (ts_pendingID (sr_store r' i)) = Some i"
      "ts_pendingID (sr_store r' i) \<noteq> [] \<Longrightarrow> ts_session (sr_store r' i) \<noteq> None"
      "ts_pendingID (sr_store r' i) \<noteq> [] \<Longrightarrow> ts_sessionID (sr_store r' i) \<noteq> []"
      by blast+
  next
    fix l m i j s
    assume h: "sr_sessions r' l = Some i \<and> sr_sessions r' m = Some j \<and> ts_session (sr_store r' i) = Some s \<and> ts_session (sr_store r' j) = Some s"
    show "i = j"
    proof (cases "l = k"; cases "m = k")
      assume "l = k" "m = k" then show ?thesis using h by auto
    next
      assume "l = k" "m \<noteq> k"
      then have "ts_session t = Some s" "sr_sessions r m = Some j" "ts_session (sr_store r j) = Some s" using h old[of m j] by (auto simp: S T)
      then show ?thesis using assms(5) unfolding fresh_session_def by blast
    next
      assume "l \<noteq> k" "m = k"
      then have "ts_session t = Some s" "sr_sessions r l = Some i" "ts_session (sr_store r i) = Some s" using h old[of l i] by (auto simp: S T)
      then show ?thesis using assms(5) unfolding fresh_session_def by blast
    next
      assume "l \<noteq> k" "m \<noteq> k"
      then show ?thesis using h old[of l i] old[of m j] registry_ok_unique[OF assms(1)] by metis
    qed
  qed
  then show ?thesis by (simp add: r'_def)
qed

text \<open>A change of an entry that leaves its names alone.\<close>

lemma registry_ok_change:
  assumes "registry_ok r" and "sr_sessions r k = Some i"
    and "ts_sessionID (f (sr_store r i)) = ts_sessionID (sr_store r i)" "ts_pendingID (f (sr_store r i)) = ts_pendingID (sr_store r i)"
    and "ts_session (f (sr_store r i)) = ts_session (sr_store r i) \<or> (\<exists>s. ts_session (f (sr_store r i)) = Some s \<and> fresh_session s r)"
  shows "registry_ok (change_tracked i f r)"
proof -
  have "sr_sessions (change_tracked i f r) = sr_sessions r" "sr_keys (change_tracked i f r) = sr_keys r" "sr_next (change_tracked i f r) = sr_next r"
    and T: "sr_store (change_tracked i f r) = (sr_store r)(i := f (sr_store r i))"
    by (simp_all add: change_tracked_def)
  note eqs = this
  have names: "ts_sessionID (((sr_store r)(i := f (sr_store r i))) j) = ts_sessionID (sr_store r j)"
    "ts_pendingID (((sr_store r)(i := f (sr_store r i))) j) = ts_pendingID (sr_store r j)" for j using assms(3,4) by simp_all
  have some: "ts_session (((sr_store r)(i := f (sr_store r i))) j) \<noteq> None" if "ts_session (sr_store r j) \<noteq> None" for j using that assms(5) by auto
  have uniq: "j = l" if "sr_sessions r a = Some j" "sr_sessions r b = Some l" "ts_session (((sr_store r)(i := f (sr_store r i))) j) = Some s"
      "ts_session (((sr_store r)(i := f (sr_store r i))) l) = Some s" for a b j l s
  proof (cases "j = l")
    case False
    then show ?thesis using that assms(5) registry_ok_unique[OF assms(1) that(1,2), of s] unfolding fresh_session_def
      by (cases "j = i"; cases "l = i") auto
  qed
  show ?thesis
    unfolding registry_ok_def eqs names
  proof (intro conjI allI impI)
    show "distinct (sr_keys r)" "set (sr_keys r) = dom (sr_sessions r)" using registry_ok_keys[OF assms(1)] by simp_all
  next
    fix l j assume "sr_sessions r l = Some j"
    note D = registry_okD[OF assms(1) this]
    show "j < sr_next r" "l = ts_sessionID (sr_store r j) \<or> l = ts_pendingID (sr_store r j) \<and> l \<noteq> []"
      "sr_sessions r (ts_sessionID (sr_store r j)) = Some j" using D by blast+
    assume p: "ts_pendingID (sr_store r j) \<noteq> []"
    show "sr_sessions r (ts_pendingID (sr_store r j)) = Some j" by (rule D(4)[OF p])
    show "ts_session (((sr_store r)(i := f (sr_store r i))) j) \<noteq> None" by (rule some[OF D(5)[OF p]])
    show "ts_sessionID (sr_store r j) \<noteq> []" by (rule D(6)[OF p])
  next
    fix a b j l s
    assume "sr_sessions r a = Some j \<and> sr_sessions r b = Some l \<and>
       ts_session (((sr_store r)(i := f (sr_store r i))) j) = Some s \<and> ts_session (((sr_store r)(i := f (sr_store r i))) l) = Some s"
    then show "j = l" using uniq by blast
  qed
qed

lemma registry_ok_rebind:
  assumes "registry_ok r" and "sr_sessions r old = Some i" and "old \<noteq> new" "old \<noteq> []" "new \<noteq> []"
    and "sr_sessions r new \<in> {None, Some i}" and "ts_session (sr_store r i) \<noteq> None"
    and "ts_pendingID (sr_store r i) \<noteq> [] \<longrightarrow> new = ts_sessionID (sr_store r i)"
  shows "registry_ok (sr_rebind old new r)"
proof -
  define r' where "r' = sr_rebind old new r"
  have S: "sr_sessions r' = (sr_sessions r)(new \<mapsto> i)" and N: "sr_next r' = sr_next r"
    and T: "sr_store r' = (sr_store r)(i := (sr_store r i)\<lparr>ts_sessionID := new, ts_pendingID := old\<rparr>)"
    using assms(2) by (simp_all add: r'_def sr_rebind_def bind_key_def change_tracked_def)
  have K: "distinct (sr_keys r')" "set (sr_keys r') = dom (sr_sessions r')"
    using registry_ok_keys[OF assms(1)] assms(2) by (auto simp: r'_def sr_rebind_def bind_key_def change_tracked_def)
  have names: "l = old \<or> l = new" if "sr_sessions r l = Some i" for l
    using registry_okD(2)[OF assms(1) that] registry_okD(2)[OF assms(1,2)] assms(3,4,8) by auto
  have ses: "ts_session (sr_store r' j) = ts_session (sr_store r j)" for j by (simp add: T)
  have other: "sr_store r' j = sr_store r j \<and> sr_sessions r l = Some j \<and> l \<noteq> new" if "sr_sessions r' l = Some j" "j \<noteq> i" for l j
    using that by (auto simp: S T split: if_splits)
  have kept: "sr_sessions r' l = Some j" if "sr_sessions r l = Some j" for l j
    using that assms(6) by (auto simp: S)
  have was: "sr_sessions r l = Some j \<or> l = new \<and> j = i" if "sr_sessions r' l = Some j" for l j
    using that by (auto simp: S split: if_splits)
  have "registry_ok r'"
    unfolding registry_ok_def
  proof (intro conjI allI impI K)
    fix l j assume b: "sr_sessions r' l = Some j"
    have "j < sr_next r' \<and> (l = ts_sessionID (sr_store r' j) \<or> l = ts_pendingID (sr_store r' j) \<and> l \<noteq> []) \<and>
        sr_sessions r' (ts_sessionID (sr_store r' j)) = Some j \<and>
        (ts_pendingID (sr_store r' j) \<noteq> [] \<longrightarrow> sr_sessions r' (ts_pendingID (sr_store r' j)) = Some j \<and> ts_session (sr_store r' j) \<noteq> None \<and> ts_sessionID (sr_store r' j) \<noteq> [])"
    proof (cases "j = i")
      case True
      have "l = old \<or> l = new" using was[OF b] names True by blast
      then show ?thesis using True registry_okD(1)[OF assms(1,2)] assms(2,3,4,5,7) kept[OF assms(2)] by (auto simp: T N S)
    next
      case False
      note o = other[OF b False]
      show ?thesis using registry_okD[OF assms(1), of l j] o kept by (auto simp: N)
    qed
    then show "j < sr_next r'" "l = ts_sessionID (sr_store r' j) \<or> l = ts_pendingID (sr_store r' j) \<and> l \<noteq> []"
      "sr_sessions r' (ts_sessionID (sr_store r' j)) = Some j"
      "ts_pendingID (sr_store r' j) \<noteq> [] \<Longrightarrow> sr_sessions r' (ts_pendingID (sr_store r' j)) = Some j"
      "ts_pendingID (sr_store r' j) \<noteq> [] \<Longrightarrow> ts_session (sr_store r' j) \<noteq> None"
      "ts_pendingID (sr_store r' j) \<noteq> [] \<Longrightarrow> ts_sessionID (sr_store r' j) \<noteq> []"
      by blast+
  next
    fix l m j k s
    assume h: "sr_sessions r' l = Some j \<and> sr_sessions r' m = Some k \<and> ts_session (sr_store r' j) = Some s \<and> ts_session (sr_store r' k) = Some s"
    have "\<exists>l'. sr_sessions r l' = Some j" "\<exists>m'. sr_sessions r m' = Some k" using h was[of l j] was[of m k] assms(2) by auto
    then show "j = k" using h registry_ok_unique[OF assms(1)] unfolding ses by blast
  qed
  then show ?thesis by (simp add: r'_def)
qed

text \<open>Deleting an entry by any of its names removes all of them and nothing else.\<close>

lemma sr_delete_exact:
  assumes "registry_ok r" and "sr_sessions r k = Some i"
  shows "fst (sr_delete k r) = Some (ts_session (sr_store r i))"
    and "sr_sessions (snd (sr_delete k r)) = (\<lambda>l. if sr_sessions r l = Some i then None else sr_sessions r l)"
    and "sr_store (snd (sr_delete k r)) = sr_store r" "sr_next (snd (sr_delete k r)) = sr_next r"
    and "sr_keys (snd (sr_delete k r)) = filter (\<lambda>l. sr_sessions r l \<noteq> Some i) (sr_keys r)"
proof -
  note D = registry_okD[OF assms]
  define t where "t = sr_store r i"
  have get: "sr_get k r = Some t" using assms(2) by (simp add: sr_get_def t_def)
  have gone: "sr_sessions r l = Some i \<longleftrightarrow> (ts_sessionID t \<noteq> [] \<and> l = ts_sessionID t) \<or> (ts_pendingID t \<noteq> [] \<and> l = ts_pendingID t) \<or> l = k" for l
    using D(2,3,4,6) registry_okD(2)[OF assms(1), of l i] assms(2) unfolding t_def[symmetric] by auto
  show "fst (sr_delete k r) = Some (ts_session (sr_store r i))"
    by (simp add: sr_delete_def get t_def Let_def)
  show "sr_sessions (snd (sr_delete k r)) = (\<lambda>l. if sr_sessions r l = Some i then None else sr_sessions r l)"
    unfolding gone by (rule ext) (simp add: sr_delete_def get Let_def drop_key_def)
  show "sr_store (snd (sr_delete k r)) = sr_store r" "sr_next (snd (sr_delete k r)) = sr_next r"
    by (simp_all add: sr_delete_def get Let_def drop_key_def)
  show "sr_keys (snd (sr_delete k r)) = filter (\<lambda>l. sr_sessions r l \<noteq> Some i) (sr_keys r)"
    unfolding gone by (simp add: sr_delete_def get Let_def drop_key_def)
qed

lemma registry_ok_delete:
  assumes "registry_ok r"
  shows "registry_ok (snd (sr_delete k r))"
proof (cases "sr_sessions r k")
  case None
  then show ?thesis using assms by (simp add: sr_delete_def sr_get_def)
next
  case (Some i)
  note E = sr_delete_exact[OF assms Some]
  have old: "sr_sessions r l = Some j \<and> j \<noteq> i" if "(if sr_sessions r l = Some i then None else sr_sessions r l) = Some j" for l j
    using that by (auto split: if_splits)
  show ?thesis
    unfolding registry_ok_def E
  proof (intro conjI allI impI)
    show "distinct (filter (\<lambda>l. sr_sessions r l \<noteq> Some i) (sr_keys r))" using registry_ok_keys[OF assms] by simp
    show "set (filter (\<lambda>l. sr_sessions r l \<noteq> Some i) (sr_keys r)) = dom (\<lambda>l. if sr_sessions r l = Some i then None else sr_sessions r l)"
      using registry_ok_keys[OF assms] by (auto split: if_splits)
  next
    fix l j assume "(if sr_sessions r l = Some i then None else sr_sessions r l) = Some j"
    then have b: "sr_sessions r l = Some j" "j \<noteq> i" using old by blast+
    note D = registry_okD[OF assms b(1)]
    show "j < sr_next r" "l = ts_sessionID (sr_store r j) \<or> l = ts_pendingID (sr_store r j) \<and> l \<noteq> []" using D by blast+
    show "(if sr_sessions r (ts_sessionID (sr_store r j)) = Some i then None else sr_sessions r (ts_sessionID (sr_store r j))) = Some j"
      using D(3) b(2) by simp
    assume p: "ts_pendingID (sr_store r j) \<noteq> []"
    show "(if sr_sessions r (ts_pendingID (sr_store r j)) = Some i then None else sr_sessions r (ts_pendingID (sr_store r j))) = Some j"
      using D(4)[OF p] b(2) by simp
    show "ts_session (sr_store r j) \<noteq> None" by (rule D(5)[OF p])
    show "ts_sessionID (sr_store r j) \<noteq> []" by (rule D(6)[OF p])
  next
    fix l m j n s
    assume "(if sr_sessions r l = Some i then None else sr_sessions r l) = Some j \<and>
      (if sr_sessions r m = Some i then None else sr_sessions r m) = Some n \<and> ts_session (sr_store r j) = Some s \<and> ts_session (sr_store r n) = Some s"
    then show "j = n" using old registry_ok_unique[OF assms] by blast
  qed
qed

text \<open>Deleting a list of keys removes every name of the entries they lead to, and returns the sessions of these entries.\<close>

lemma delete_all_exact:
  assumes "registry_ok r"
  shows "registry_ok (snd (delete_all ks r))" "sr_store (snd (delete_all ks r)) = sr_store r"
    "sr_sessions (snd (delete_all ks r)) = (\<lambda>l. if \<exists>k \<in> set ks. sr_sessions r k = sr_sessions r l then None else sr_sessions r l)"
    "s \<in> set (fst (delete_all ks r)) \<longleftrightarrow> (\<exists>k \<in> set ks. send_lookup k r = Some s)"
proof -
  have "registry_ok (snd (delete_all ks r)) \<and> sr_store (snd (delete_all ks r)) = sr_store r \<and>
    sr_sessions (snd (delete_all ks r)) = (\<lambda>l. if \<exists>k \<in> set ks. sr_sessions r k = sr_sessions r l then None else sr_sessions r l) \<and>
    (s \<in> set (fst (delete_all ks r)) \<longleftrightarrow> (\<exists>k \<in> set ks. send_lookup k r = Some s))"
    using assms
  proof (induction ks arbitrary: r)
    case (Cons k ks)
    define r1 where "r1 = snd (sr_delete k r)"
    have ok1: "registry_ok r1" unfolding r1_def by (rule registry_ok_delete[OF Cons.prems])
    note IH = Cons.IH[OF ok1]
    have un: "snd (delete_all (k # ks) r) = snd (delete_all ks r1)"
      "set (fst (delete_all (k # ks) r)) = (case fst (sr_delete k r) of Some (Some x) \<Rightarrow> insert x (set (fst (delete_all ks r1))) | _ \<Rightarrow> set (fst (delete_all ks r1)))"
      by (simp_all add: r1_def case_prod_beta Let_def split: option.split)
    show ?case
    proof (cases "sr_sessions r k")
      case None
      then have r1: "r1 = r" "fst (sr_delete k r) = None" by (simp_all add: r1_def sr_delete_def sr_get_def)
      have "send_lookup k r = None" using None by (simp add: send_lookup_def sr_get_def)
      moreover have "(\<lambda>l. if \<exists>k' \<in> set (k # ks). sr_sessions r k' = sr_sessions r l then None else sr_sessions r l) =
          (\<lambda>l. if \<exists>k' \<in> set ks. sr_sessions r k' = sr_sessions r l then None else sr_sessions r l)"
        using None by (auto simp: fun_eq_iff)
      ultimately show ?thesis using IH unfolding un r1 by simp
    next
      case (Some i)
      note E = sr_delete_exact[OF Cons.prems Some, folded r1_def]
      have "(\<lambda>l. if \<exists>k' \<in> set ks. sr_sessions r1 k' = sr_sessions r1 l then None else sr_sessions r1 l) =
          (\<lambda>l. if \<exists>k' \<in> set (k # ks). sr_sessions r k' = sr_sessions r l then None else sr_sessions r l)"
      proof (rule ext)
        fix l
        show "(if \<exists>k' \<in> set ks. sr_sessions r1 k' = sr_sessions r1 l then None else sr_sessions r1 l) =
            (if \<exists>k' \<in> set (k # ks). sr_sessions r k' = sr_sessions r l then None else sr_sessions r l)"
        proof (cases "sr_sessions r l")
          case None then show ?thesis by (simp add: E(2))
        next
          case l: (Some j)
          show ?thesis
          proof (cases "j = i")
            case True then show ?thesis using Some l by (simp add: E(2))
          next
            case False
            then have "(if sr_sessions r k' = Some i then None else sr_sessions r k') = Some j \<longleftrightarrow> sr_sessions r k' = Some j" for k' by auto
            then show ?thesis using Some l False by (simp add: E(2))
          qed
        qed
      qed
      moreover have "s \<in> set (fst (delete_all (k # ks) r)) \<longleftrightarrow> (\<exists>k' \<in> set (k # ks). send_lookup k' r = Some s)"
      proof -
        have look: "send_lookup k' r1 = Some s \<longleftrightarrow> sr_sessions r k' \<noteq> Some i \<and> send_lookup k' r = Some s" for k'
          by (simp add: send_lookup_def sr_get_def E(2,3))
        have at_i: "send_lookup k' r = ts_session (sr_store r i)" if "sr_sessions r k' = Some i" for k'
          using that by (simp add: send_lookup_def sr_get_def)
        have "s \<in> set (fst (delete_all (k # ks) r)) \<longleftrightarrow> ts_session (sr_store r i) = Some s \<or> s \<in> set (fst (delete_all ks r1))"
          unfolding un E(1) by (cases "ts_session (sr_store r i)") auto
        also have "\<dots> \<longleftrightarrow> send_lookup k r = Some s \<or> (\<exists>k' \<in> set ks. sr_sessions r k' \<noteq> Some i \<and> send_lookup k' r = Some s)"
          using IH look at_i[OF Some] by simp
        also have "\<dots> \<longleftrightarrow> (\<exists>k' \<in> set (k # ks). send_lookup k' r = Some s)"
        proof -
          have "sr_sessions r k' \<noteq> Some i \<or> send_lookup k r = Some s" if "send_lookup k' r = Some s" for k'
            using that at_i[of k'] at_i[OF Some] by auto
          then show ?thesis by auto
        qed
        finally show ?thesis .
      qed
      ultimately show ?thesis using IH E(3) unfolding un(1) by simp
    qed
  qed simp
  then show "registry_ok (snd (delete_all ks r))" "sr_store (snd (delete_all ks r)) = sr_store r"
    "sr_sessions (snd (delete_all ks r)) = (\<lambda>l. if \<exists>k \<in> set ks. sr_sessions r k = sr_sessions r l then None else sr_sessions r l)"
    "s \<in> set (fst (delete_all ks r)) \<longleftrightarrow> (\<exists>k \<in> set ks. send_lookup k r = Some s)"
    by blast+
qed


section \<open>Runs\<close>

text \<open>
  The critical sections in any order. A new agent session is one that no entry holds; an agent keeps the identifier it has reported, and two agents do
  not report the same one.
\<close>

definition may_rebind :: "string \<Rightarrow> string \<Rightarrow> sessionRegistry \<Rightarrow> bool" where
  "may_rebind currentID realID r \<longleftrightarrow>
     (\<forall>i. sr_sessions r currentID = Some i \<longrightarrow>
        ts_session (sr_store r i) \<noteq> None \<and> sr_sessions r realID \<in> {None, Some i} \<and>
        (ts_pendingID (sr_store r i) \<noteq> [] \<longrightarrow> realID = ts_sessionID (sr_store r i)))"

inductive registry_reach :: "sessionRegistry \<Rightarrow> bool" where
  reach_new: "registry_reach newSessionRegistry"
| reach_install: "registry_reach r \<Longrightarrow> fresh_session s r \<Longrightarrow> registry_reach (snd (snd (send_install now k backendID directory s r)))"
| reach_raw: "registry_reach r \<Longrightarrow> fresh_session s r \<Longrightarrow> registry_reach (putRaw now k s r)"
| reach_running: "registry_reach r \<Longrightarrow> registry_reach (markRunning now k r)"
| reach_idle: "registry_reach r \<Longrightarrow> registry_reach (markIdle now k r)"
| reach_touch: "registry_reach r \<Longrightarrow> registry_reach (sr_touch now k r)"
| reach_rebind: "registry_reach r \<Longrightarrow> may_rebind currentID (fst (rebindSessionIDIfResolved currentID sessCurrent eventID r)) r \<Longrightarrow>
    registry_reach (snd (rebindSessionIDIfResolved currentID sessCurrent eventID r))"
| reach_abort: "registry_reach r \<Longrightarrow> registry_reach (snd (abort_session k r))"
| reach_cleanup: "registry_reach r \<Longrightarrow> registry_reach (snd (cleanupIdleSessions now r))"
| reach_drain: "registry_reach r \<Longrightarrow> registry_reach (snd (sr_drain r))"

lemma registry_ok_mark:
  assumes "registry_ok r"
  shows "registry_ok (markRunning now k r)" "registry_ok (markIdle now k r)" "registry_ok (sr_touch now k r)"
proof -
  have new: "registry_ok (add_tracked k (fresh_tracked now k st) r)" if "sr_sessions r k = None" for st
    by (rule registry_ok_add[OF assms]) (simp_all add: that send_lookup_def sr_get_def fresh_tracked_def)
  show "registry_ok (markRunning now k r)" "registry_ok (markIdle now k r)" "registry_ok (sr_touch now k r)"
    using new assms registry_ok_change[OF assms]
    by (cases "sr_sessions r k"; simp add: markRunning_def markIdle_def sr_touch_def)+
qed

lemma registry_reach_ok: "registry_reach r \<Longrightarrow> registry_ok r"
proof (induction rule: registry_reach.induct)
  case reach_new show ?case by (rule registry_ok_new)
next
  case (reach_install r s now k backendID directory)
  then show ?case
    by (cases "send_lookup k r") (auto simp: send_install_def sr_put_def fresh_tracked_def intro!: registry_ok_add)
next
  case (reach_raw r s now k)
  show ?case
  proof (cases "sr_sessions r k")
    case None
    then show ?thesis
      using reach_raw by (auto simp: putRaw_def send_lookup_def sr_get_def fresh_tracked_def intro!: registry_ok_add)
  next
    case (Some i)
    then show ?thesis using reach_raw registry_ok_change[OF reach_raw.IH Some] by (simp add: putRaw_def)
  qed
next
  case (reach_rebind r currentID sessCurrent eventID)
  define realID where "realID = (if trim_space eventID = [] then trim_space sessCurrent else trim_space eventID)"
  have un: "rebindSessionIDIfResolved currentID sessCurrent eventID r =
      (if realID = [] \<or> realID = currentID \<or> \<not> has_prefix currentID ''pending-'' then (currentID, r) else (realID, sr_rebind currentID realID r))"
    by (simp add: rebindSessionIDIfResolved_def realID_def Let_def)
  show ?case
  proof (cases "realID = [] \<or> realID = currentID \<or> \<not> has_prefix currentID ''pending-''")
    case True then show ?thesis using reach_rebind.IH by (auto simp: un)
  next
    case False
    then have ne: "currentID \<noteq> realID" "currentID \<noteq> []" "realID \<noteq> []" by (auto simp: has_prefix_def)
    have may: "may_rebind currentID realID r" using reach_rebind.hyps(2) False by (simp add: un)
    show ?thesis
    proof (cases "sr_sessions r currentID")
      case None then show ?thesis using reach_rebind.IH False by (simp add: un sr_rebind_def)
    next
      case (Some i)
      have "registry_ok (sr_rebind currentID realID r)"
        using may Some ne unfolding may_rebind_def by (intro registry_ok_rebind[OF reach_rebind.IH Some]) auto
      then show ?thesis using False by (simp add: un)
    qed
  qed
next
  case (reach_abort r k)
  have "snd (abort_session k r) = snd (sr_delete k r)" by (simp add: abort_session_def split: prod.split option.split)
  then show ?case using registry_ok_delete[OF reach_abort.IH] by simp
next
  case (reach_cleanup r now)
  then show ?case by (simp add: cleanupIdleSessions_def delete_all_exact(1))
next
  case (reach_drain r)
  then show ?case by (simp add: sr_drain_def registry_ok_def)
qed (simp_all add: registry_ok_mark)


definition one_session :: sessionRegistry where
  "one_session = snd (snd (send_install 0 ''a'' ''claude'' ''/w'' 7 newSessionRegistry))"

lemma one_session_reach: "registry_reach one_session"
  unfolding one_session_def by (rule reach_install[OF reach_new]) (simp add: fresh_session_def newSessionRegistry_def)

lemma one_session_at_a:
  "sr_get ''a'' one_session = Some ((fresh_tracked 0 ''a'' Idle)\<lparr>ts_session := Some 7, ts_backendID := ''claude'', ts_directory := ''/w''\<rparr>)"
  "sr_keys one_session = [''a'']"
  by (simp_all add: one_session_def send_install_def send_lookup_def sr_get_def newSessionRegistry_def sr_put_def add_tracked_def bind_key_def)

lemma one_session_reap: "reapable 300000000001 one_session ''a''"
  by (simp add: reapable_def one_session_at_a fresh_tracked_def has_prefix_def idleTTL_def time_sub_def min_duration_def max_duration_def)

lemma one_session_look: "send_lookup ''a'' one_session = Some 7" "cleanupIdleSessions 300000000001 one_session = ([7], drop_key ''a'' one_session)"
  using one_session_reap
  by (simp_all add: send_lookup_def one_session_at_a cleanupIdleSessions_def sr_delete_def fresh_tracked_def Let_def drop_key_def)


text \<open>
  Between looking a session up and marking it as running a message holds no lock. If the reaper runs there, the message goes to a session that
  has just been closed, and the name is marked as running without any session, which no later run of the reaper clears.
\<close>

theorem reaped_while_sending:
  assumes "registry_reach r" and "send_lookup k r = Some s" and "reapable now r k"
  shows "s \<in> set (fst (cleanupIdleSessions now r)) \<and>
    (let r' = markRunning t k (snd (cleanupIdleSessions now r))
     in send_lookup k r' = None \<and> \<not> isIdle k r' \<and> (\<forall>later. sr_get k (snd (cleanupIdleSessions later r')) = sr_get k r'))"
proof -
  note ok = registry_reach_ok[OF assms(1)]
  define ks where "ks = filter (reapable now r) (sr_keys r)"
  define r1 where "r1 = snd (cleanupIdleSessions now r)"
  have "k \<in> dom (sr_sessions r)" using assms(2) by (auto simp: send_lookup_def sr_get_def split: option.splits)
  then have k: "k \<in> set ks" using assms(3) registry_ok_keys[OF ok] by (simp add: ks_def)
  have c: "cleanupIdleSessions now r = delete_all ks r" by (simp add: cleanupIdleSessions_def ks_def)
  have gone: "sr_sessions r1 k = None" using k by (auto simp: r1_def c delete_all_exact(3)[OF ok])
  have ok1: "registry_ok r1" by (simp add: r1_def c delete_all_exact(1)[OF ok])
  define r2 where "r2 = markRunning t k r1"
  have r2: "sr_get k r2 = Some (fresh_tracked t k Running)"
    using gone by (simp add: r2_def markRunning_def sr_get_def add_tracked_def bind_key_def)
  have ok2: "registry_ok r2" unfolding r2_def by (rule registry_ok_mark(1)[OF ok1])
  have stay: "sr_get k (snd (cleanupIdleSessions later r2)) = sr_get k r2" for later
  proof -
    have "sr_sessions r2 l \<noteq> sr_sessions r2 k" if "reapable later r2 l" for l
      using that r2 by (auto simp: reapable_def sr_get_def fresh_tracked_def split: option.splits)
    then show ?thesis
      using delete_all_exact(2,3)[OF ok2, where ks = "filter (reapable later r2) (sr_keys r2)"]
      by (auto simp: cleanupIdleSessions_def sr_get_def)
  qed
  have "s \<in> set (fst (cleanupIdleSessions now r))"
    using k assms(2) by (auto simp: c delete_all_exact(4)[OF ok])
  then show ?thesis
    using r2 stay unfolding Let_def r1_def[symmetric] r2_def[symmetric] by (simp add: send_lookup_def isIdle_def fresh_tracked_def)
qed

theorem reaped_while_sending_witness:
  "send_lookup ''a'' (markRunning 0 ''a'' (snd (cleanupIdleSessions 300000000001 one_session))) = None"
proof -
  from reaped_while_sending[OF one_session_reach one_session_look(1) one_session_reap, of 0] show ?thesis by (simp add: Let_def)
qed

end
