(* ===== verification/Transcript_Store.thy ===== *)
theory Transcript_Store
  imports Prelude
begin

text \<open>
  The store of transcript indexes (\<^verbatim>\<open>transcriptindex/store.go\<close>): callers that ask for the same transcript share one task, the number of
  builds at a time is bounded by a semaphore, the bytes they read by a budget. A caller is a thread; every step is one atomic action of one
  thread, and the steps come in any order. What a build yields is an argument of its last step, as is the size Stat reports.
\<close>

definition defaultMaxConcurrentBuilds :: nat where "defaultMaxConcurrentBuilds = 2"
definition defaultMaxInFlightBytes :: int where "defaultMaxInFlightBytes = 64 * 1048576"

datatype store_error = StatFailed | ContextDone | BudgetExceeded | BuildFailed

text \<open>
  Where a caller stands in \<^verbatim>\<open>Ensure\<close> and \<^verbatim>\<open>buildWithBudgets\<close>; the number is its task, the integer the size of its file. From \<open>Building\<close> to
  \<open>Published\<close> it is the one that made the task.
\<close>

datatype 'r phase =
    Arrived
  | Building nat
  | Queued nat int
  | HasSlot nat int
  | Working nat int
  | Releasing nat "store_error + 'r"
  | Finished nat "store_error + 'r"
  | Published nat "store_error + 'r"
  | Waiting nat
  | Returned "store_error + 'r"

record 'r caller =
  ca_key :: string
  ca_phase :: "'r phase"

record 'r index_store =
  maxConcurrent :: nat
  maxInFlightBytes :: int
  inFlight :: "string \<rightharpoonup> nat"
  buildSem :: nat
  inFlightBytes :: int
  tasks :: "(store_error + 'r) option list"
  callers :: "'r caller list"

definition NewStore :: "int option \<Rightarrow> int option \<Rightarrow> 'r index_store" where
  "NewStore withConcurrent withBytes =
     \<lparr>maxConcurrent = (case withConcurrent of Some n \<Rightarrow> if n > 0 then nat n else defaultMaxConcurrentBuilds | None \<Rightarrow> defaultMaxConcurrentBuilds),
      maxInFlightBytes = (case withBytes of Some n \<Rightarrow> if n > 0 then n else defaultMaxInFlightBytes | None \<Rightarrow> defaultMaxInFlightBytes),
      inFlight = Map.empty, buildSem = 0, inFlightBytes = 0, tasks = [], callers = []\<rparr>"

definition sessionKey :: "string \<Rightarrow> string \<Rightarrow> string" where
  "sessionKey backend filePath = backend @ ''|'' @ filePath"

definition acquireBytes :: "int \<Rightarrow> 'r index_store \<Rightarrow> bool \<times> 'r index_store" where
  "acquireBytes n s =
     (if inFlightBytes s + n > maxInFlightBytes s then (False, s) else (True, s\<lparr>inFlightBytes := inFlightBytes s + n\<rparr>))"

definition releaseBytes :: "int \<Rightarrow> 'r index_store \<Rightarrow> 'r index_store" where
  "releaseBytes n s = s\<lparr>inFlightBytes := inFlightBytes s - n\<rparr>"

definition goto :: "nat \<Rightarrow> 'r phase \<Rightarrow> 'r index_store \<Rightarrow> 'r index_store" where
  "goto i p s = s\<lparr>callers := (callers s)[i := (callers s ! i)\<lparr>ca_phase := p\<rparr>]\<rparr>"

datatype 'r store_action =
    Arrive string
  | Enter nat
  | Stat nat "int option"
  | TakeSlot nat
  | TakeBytes nat
  | Finish nat "store_error + 'r"
  | FreeSlot nat
  | Publish nat
  | Forget nat
  | Wake nat
  | Cancel nat

text \<open>\<open>None\<close> is an action that is not enabled: the caller is elsewhere, the semaphore is full, the task is not done.\<close>

fun index_step :: "'r store_action \<Rightarrow> 'r index_store \<Rightarrow> 'r index_store option" where
  "index_step (Arrive key) s = Some (s\<lparr>callers := callers s @ [\<lparr>ca_key = key, ca_phase = Arrived\<rparr>]\<rparr>)"
| "index_step (Enter i) s =
     (if i < length (callers s) \<and> ca_phase (callers s ! i) = Arrived then
        (case inFlight s (ca_key (callers s ! i)) of
           Some t \<Rightarrow> Some (goto i (Waiting t) s)
         | None \<Rightarrow>
             (let t = length (tasks s)
              in Some (goto i (Building t) (s\<lparr>tasks := tasks s @ [None], inFlight := (inFlight s)(ca_key (callers s ! i) \<mapsto> t)\<rparr>))))
      else None)"
| "index_step (Stat i size_of) s =
     (if i < length (callers s) then
        (case ca_phase (callers s ! i) of
           Building t \<Rightarrow>
             (case size_of of None \<Rightarrow> Some (goto i (Finished t (Inl StatFailed)) s)
              | Some n \<Rightarrow> if n < 0 then None else Some (goto i (Queued t n) s))
         | _ \<Rightarrow> None)
      else None)"
| "index_step (TakeSlot i) s =
     (if i < length (callers s) then
        (case ca_phase (callers s ! i) of
           Queued t n \<Rightarrow> if buildSem s < maxConcurrent s then Some (goto i (HasSlot t n) (s\<lparr>buildSem := buildSem s + 1\<rparr>)) else None
         | _ \<Rightarrow> None)
      else None)"
| "index_step (TakeBytes i) s =
     (if i < length (callers s) then
        (case ca_phase (callers s ! i) of
           HasSlot t n \<Rightarrow>
             (let (ok, s) = acquireBytes n s
              in Some (if ok then goto i (Working t n) s else goto i (Releasing t (Inl BudgetExceeded)) s))
         | _ \<Rightarrow> None)
      else None)"
| "index_step (Finish i r) s =
     (if i < length (callers s) then
        (case ca_phase (callers s ! i) of Working t n \<Rightarrow> Some (goto i (Releasing t r) (releaseBytes n s)) | _ \<Rightarrow> None)
      else None)"
| "index_step (FreeSlot i) s =
     (if i < length (callers s) then
        (case ca_phase (callers s ! i) of Releasing t r \<Rightarrow> Some (goto i (Finished t r) (s\<lparr>buildSem := buildSem s - 1\<rparr>)) | _ \<Rightarrow> None)
      else None)"
| "index_step (Publish i) s =
     (if i < length (callers s) then
        (case ca_phase (callers s ! i) of Finished t r \<Rightarrow> Some (goto i (Published t r) (s\<lparr>tasks := (tasks s)[t := Some r]\<rparr>)) | _ \<Rightarrow> None)
      else None)"
| "index_step (Forget i) s =
     (if i < length (callers s) then
        (case ca_phase (callers s ! i) of
           Published t r \<Rightarrow>
             Some (goto i (Returned r)
               (if inFlight s (ca_key (callers s ! i)) = Some t then s\<lparr>inFlight := (inFlight s)(ca_key (callers s ! i) := None)\<rparr> else s))
         | _ \<Rightarrow> None)
      else None)"
| "index_step (Wake i) s =
     (if i < length (callers s) then
        (case ca_phase (callers s ! i) of
           Waiting t \<Rightarrow> (case tasks s ! t of Some r \<Rightarrow> Some (goto i (Returned r) s) | None \<Rightarrow> None)
         | _ \<Rightarrow> None)
      else None)"
| "index_step (Cancel i) s =
     (if i < length (callers s) then
        (case ca_phase (callers s ! i) of
           Waiting t \<Rightarrow> Some (goto i (Returned (Inl ContextDone)) s)
         | Queued t n \<Rightarrow> Some (goto i (Finished t (Inl ContextDone)) s)
         | _ \<Rightarrow> None)
      else None)"

fun index_run :: "'r store_action list \<Rightarrow> 'r index_store \<Rightarrow> 'r index_store option" where
  "index_run [] s = Some s"
| "index_run (a # as) s = (case index_step a s of None \<Rightarrow> None | Some s' \<Rightarrow> index_run as s')"



section \<open>Well-formed stores\<close>

fun leads :: "'r phase \<Rightarrow> nat option" where
  "leads (Building t) = Some t" | "leads (Queued t n) = Some t" | "leads (HasSlot t n) = Some t" | "leads (Working t n) = Some t"
| "leads (Releasing t r) = Some t" | "leads (Finished t r) = Some t" | "leads (Published t r) = Some t" | "leads _ = None"

fun announced :: "'r phase \<Rightarrow> (store_error + 'r) option" where
  "announced (Published t r) = Some r" | "announced _ = None"

fun slots :: "'r phase \<Rightarrow> int" where
  "slots (HasSlot t n) = 1" | "slots (Working t n) = 1" | "slots (Releasing t r) = 1" | "slots _ = 0"

fun held :: "'r phase \<Rightarrow> int" where
  "held (Working t n) = n" | "held _ = 0"

fun sized :: "'r phase \<Rightarrow> bool" where
  "sized (Queued t n) = (0 \<le> n)" | "sized (HasSlot t n) = (0 \<le> n)" | "sized (Working t n) = (0 \<le> n)" | "sized _ = True"

abbreviation phase_at :: "'r index_store \<Rightarrow> nat \<Rightarrow> 'r phase" where
  "phase_at s i \<equiv> ca_phase (callers s ! i)"

abbreviation key_at :: "'r index_store \<Rightarrow> nat \<Rightarrow> string" where
  "key_at s i \<equiv> ca_key (callers s ! i)"

definition counts_ok :: "'r index_store \<Rightarrow> bool" where
  "counts_ok s \<longleftrightarrow> 0 < maxConcurrent s \<and> 0 < maxInFlightBytes s \<and>
     int (buildSem s) = sum_list (map (slots \<circ> ca_phase) (callers s)) \<and> buildSem s \<le> maxConcurrent s \<and>
     inFlightBytes s = sum_list (map (held \<circ> ca_phase) (callers s)) \<and> inFlightBytes s \<le> maxInFlightBytes s \<and>
     (\<forall>c \<in> set (callers s). sized (ca_phase c))"

definition shared_ok :: "'r index_store \<Rightarrow> bool" where
  "shared_ok s \<longleftrightarrow>
     (\<forall>i t. i < length (callers s) \<and> leads (phase_at s i) = Some t \<longrightarrow>
        t < length (tasks s) \<and> inFlight s (key_at s i) = Some t \<and> tasks s ! t = announced (phase_at s i)) \<and>
     (\<forall>k t. inFlight s k = Some t \<longrightarrow> (\<exists>i < length (callers s). leads (phase_at s i) = Some t \<and> key_at s i = k)) \<and>
     (\<forall>i j t. i < length (callers s) \<and> j < length (callers s) \<and> leads (phase_at s i) = Some t \<and> leads (phase_at s j) = Some t \<longrightarrow> i = j) \<and>
     (\<forall>i t. i < length (callers s) \<and> phase_at s i = Waiting t \<longrightarrow>
        t < length (tasks s) \<and> (tasks s ! t = None \<longrightarrow> (\<exists>j < length (callers s). leads (phase_at s j) = Some t)))"

lemma goto_simps [simp]:
  "length (callers (goto i p s)) = length (callers s)" "maxConcurrent (goto i p s) = maxConcurrent s" "maxInFlightBytes (goto i p s) = maxInFlightBytes s"
  "inFlight (goto i p s) = inFlight s" "buildSem (goto i p s) = buildSem s" "inFlightBytes (goto i p s) = inFlightBytes s" "tasks (goto i p s) = tasks s"
  "j < length (callers s) \<Longrightarrow> phase_at (goto i p s) j = (if j = i then p else phase_at s j)"
  "j < length (callers s) \<Longrightarrow> key_at (goto i p s) j = key_at s j"
  by (simp_all add: goto_def) (cases "j = i"; simp)+

lemma sum_list_change:
  fixes f :: "'a \<Rightarrow> int"
  shows "i < length xs \<Longrightarrow> sum_list (map f (xs[i := x])) = sum_list (map f xs) - f (xs ! i) + f x"
  by (induction xs arbitrary: i) (auto split: nat.splits)

lemma sum_goto [simp]:
  fixes f :: "'r phase \<Rightarrow> int"
  assumes "i < length (callers s)"
  shows "sum_list (map (f \<circ> ca_phase) (callers (goto i p s))) = sum_list (map (f \<circ> ca_phase) (callers s)) - f (phase_at s i) + f p"
  using sum_list_change[OF assms, of "f \<circ> ca_phase" "(callers s ! i)\<lparr>ca_phase := p\<rparr>"] by (simp add: goto_def)

lemma set_goto: "c \<in> set (callers (goto i p s)) \<Longrightarrow> c \<in> set (callers s) \<or> ca_phase c = p"
  by (auto simp: goto_def dest!: set_update_subset_insert[THEN subsetD])

lemma counts_goto:
  assumes "counts_ok s" and "i < length (callers s)" and "sized p"
    and "callers s' = callers (goto i p s)" "maxConcurrent s' = maxConcurrent s" "maxInFlightBytes s' = maxInFlightBytes s"
    and "int (buildSem s') = int (buildSem s) - slots (phase_at s i) + slots p" "buildSem s' \<le> maxConcurrent s"
    and "inFlightBytes s' = inFlightBytes s - held (phase_at s i) + held p" "inFlightBytes s' \<le> maxInFlightBytes s"
  shows "counts_ok s'"
  using assms(1) set_goto[of _ i p s] assms(3) unfolding counts_ok_def assms(4-6) sum_goto[OF assms(2)]
  using assms(7-10) by auto

lemma sized_at: "counts_ok s \<Longrightarrow> i < length (callers s) \<Longrightarrow> sized (phase_at s i)"
  by (auto simp: counts_ok_def)

lemma counts_le: "counts_ok s \<Longrightarrow> buildSem s \<le> maxConcurrent s \<and> inFlightBytes s \<le> maxInFlightBytes s"
  by (simp add: counts_ok_def)

lemma slots_le: 
  assumes "counts_ok s" and "i < length (callers s)"
  shows "slots (phase_at s i) \<le> int (buildSem s)"
proof -
  have nn: "0 \<le> slots p" for p :: "'a phase" by (cases p) simp_all
  have "(slots \<circ> ca_phase) (callers s ! i) \<le> sum_list (map (slots \<circ> ca_phase) (callers s))"
    using nn assms(2) by (intro member_le_sum_list) auto
  then show ?thesis using assms(1) by (simp add: counts_ok_def)
qed

lemma callers_fields [simp]:
  "callers (goto i p (s\<lparr>buildSem := m\<rparr>)) = callers (goto i p s)" "callers (goto i p (s\<lparr>inFlightBytes := b\<rparr>)) = callers (goto i p s)"
  "callers (goto i p (s\<lparr>tasks := ts\<rparr>)) = callers (goto i p s)" "callers (goto i p (s\<lparr>inFlight := fl\<rparr>)) = callers (goto i p s)"
  by (simp_all add: goto_def)

lemma counts_step:
  assumes "counts_ok s" and "index_step a s = Some s'"
  shows "counts_ok s'"
proof -
  note le = counts_le[OF assms(1)]
  show ?thesis
  proof (cases a)
    case (Arrive key)
    then show ?thesis using assms by (auto simp: counts_ok_def)
  next
    case (Enter i)
    then show ?thesis using assms le
      by (auto split: if_splits option.splits simp: Let_def intro!: counts_goto[OF assms(1), of i])
  next
    case (Stat i sz)
    then show ?thesis using assms le
      by (auto split: if_splits option.splits phase.splits intro!: counts_goto[OF assms(1), of i])
  next
    case (TakeSlot i)
    then show ?thesis using assms le sized_at[OF assms(1), of i]
      by (auto split: if_splits phase.splits intro!: counts_goto[OF assms(1), of i])
  next
    case (TakeBytes i)
    then show ?thesis using assms le sized_at[OF assms(1), of i]
      by (auto split: if_splits phase.splits simp: acquireBytes_def intro!: counts_goto[OF assms(1), of i])
  next
    case (Finish i r)
    then show ?thesis using assms le sized_at[OF assms(1), of i]
      by (auto split: if_splits phase.splits simp: releaseBytes_def intro!: counts_goto[OF assms(1), of i])
  next
    case (FreeSlot i)
    then show ?thesis using assms le slots_le[OF assms(1), of i]
      by (auto split: if_splits phase.splits intro!: counts_goto[OF assms(1), of i])
  next
    case (Publish i)
    then show ?thesis using assms le
      by (auto split: if_splits phase.splits intro!: counts_goto[OF assms(1), of i])
  next
    case (Forget i)
    then show ?thesis using assms le
      by (auto split: if_splits phase.splits intro!: counts_goto[OF assms(1), of i])
  next
    case (Wake i)
    then show ?thesis using assms le
      by (auto split: if_splits phase.splits option.splits intro!: counts_goto[OF assms(1), of i])
  next
    case (Cancel i)
    then show ?thesis using assms le
      by (auto split: if_splits phase.splits intro!: counts_goto[OF assms(1), of i])
  qed
qed


lemma shared_okD:
  assumes "shared_ok s" and "i < length (callers s)"
  shows "leads (phase_at s i) = Some t \<Longrightarrow> t < length (tasks s) \<and> inFlight s (key_at s i) = Some t \<and> tasks s ! t = announced (phase_at s i)"
    and "j < length (callers s) \<Longrightarrow> leads (phase_at s i) = Some t \<Longrightarrow> leads (phase_at s j) = Some t \<Longrightarrow> i = j"
    and "phase_at s i = Waiting t \<Longrightarrow> t < length (tasks s) \<and> (tasks s ! t = None \<longrightarrow> (\<exists>j < length (callers s). leads (phase_at s j) = Some t))"
  using assms unfolding shared_ok_def by blast+

lemma shared_ok_leader: "shared_ok s \<Longrightarrow> inFlight s k = Some t \<Longrightarrow> \<exists>i < length (callers s). leads (phase_at s i) = Some t \<and> key_at s i = k"
  unfolding shared_ok_def by blast

lemma shared_irrelevant [simp]:
  "shared_ok (s\<lparr>buildSem := m\<rparr>) = shared_ok s" "shared_ok (s\<lparr>inFlightBytes := b\<rparr>) = shared_ok s"
  "shared_ok (goto i p (s\<lparr>buildSem := m\<rparr>)) = shared_ok (goto i p s)" "shared_ok (goto i p (s\<lparr>inFlightBytes := b\<rparr>)) = shared_ok (goto i p s)"
  by (simp_all add: shared_ok_def goto_def)

text \<open>A step of the caller that leads a task, which it goes on leading.\<close>

lemma shared_advance:
  assumes "shared_ok s" and "i < length (callers s)" and "leads p = leads (phase_at s i)" "announced p = announced (phase_at s i)" "leads p \<noteq> None"
  shows "shared_ok (goto i p s)"
proof -
  have L: "leads (phase_at (goto i p s) j) = leads (phase_at s j)" "announced (phase_at (goto i p s) j) = announced (phase_at s j)"
    if "j < length (callers s)" for j using that assms(3,4) by simp_all
  have W: "phase_at s j = Waiting t" if "j < length (callers s)" "phase_at (goto i p s) j = Waiting t" for j t
    using that assms(5) by (auto split: if_splits)
  show ?thesis
    unfolding shared_ok_def goto_simps(1,4,7)
    using assms(1) L W unfolding shared_ok_def by (intro conjI allI impI; elim conjE) (metis goto_simps(9))+
qed

text \<open>A step of a caller that leads nothing before or after.\<close>

lemma shared_follow:
  assumes "shared_ok s" and "i < length (callers s)" and "leads (phase_at s i) = None" "leads p = None"
    and "\<And>t. p = Waiting t \<Longrightarrow> inFlight s (key_at s i) = Some t"
  shows "shared_ok (goto i p s)"
proof -
  have L: "leads (phase_at (goto i p s) j) = leads (phase_at s j)" if "j < length (callers s)" for j using that assms(3,4) by simp
  have A: "announced (phase_at (goto i p s) j) = announced (phase_at s j)" if "j < length (callers s)" "leads (phase_at s j) = Some t" for j t
    using that assms(3) by auto
  have W: "t < length (tasks s) \<and> (tasks s ! t = None \<longrightarrow> (\<exists>j < length (callers s). leads (phase_at s j) = Some t))"
    if "j < length (callers s)" "phase_at (goto i p s) j = Waiting t" for j t
  proof (cases "j = i")
    case True
    then have "inFlight s (key_at s i) = Some t" using that assms(5) by simp
    then obtain l where "l < length (callers s)" "leads (phase_at s l) = Some t" using shared_ok_leader[OF assms(1)] by blast
    then show ?thesis using shared_okD(1)[OF assms(1)] by blast
  next
    case False
    then show ?thesis using that shared_okD(3)[OF assms(1), of j t] by simp
  qed
  show ?thesis
    unfolding shared_ok_def goto_simps(1,4,7)
  proof (intro conjI allI impI; (elim conjE)?)
    fix j t assume h: "j < length (callers s)" "leads (phase_at (goto i p s) j) = Some t"
    then have l: "leads (phase_at s j) = Some t" using L by simp
    show "t < length (tasks s)" "inFlight s (key_at (goto i p s) j) = Some t" "tasks s ! t = announced (phase_at (goto i p s) j)"
      using shared_okD(1)[OF assms(1) h(1) l] A[OF h(1) l] h(1) by simp_all
  next
    fix k t assume "inFlight s k = Some t"
    then show "\<exists>j < length (callers s). leads (phase_at (goto i p s) j) = Some t \<and> key_at (goto i p s) j = k"
      using shared_ok_leader[OF assms(1)] L by (metis goto_simps(9))
  next
    fix j l t assume "j < length (callers s)" "l < length (callers s)" "leads (phase_at (goto i p s) j) = Some t" "leads (phase_at (goto i p s) l) = Some t"
    then show "j = l" using shared_okD(2)[OF assms(1)] L by metis
  next
    fix j t assume h: "j < length (callers s)" "phase_at (goto i p s) j = Waiting t"
    show "t < length (tasks s)" using W[OF h] by blast
    assume "tasks s ! t = None"
    then show "\<exists>l < length (callers s). leads (phase_at (goto i p s) l) = Some t" using W[OF h] L by metis
  qed
qed


lemma goto_other [simp]:
  "j < length (callers s) \<Longrightarrow> phase_at (goto i p (s\<lparr>tasks := ts\<rparr>)) j = (if j = i then p else phase_at s j)"
  "j < length (callers s) \<Longrightarrow> phase_at (goto i p (s\<lparr>inFlight := fl\<rparr>)) j = (if j = i then p else phase_at s j)"
  "j < length (callers s) \<Longrightarrow> phase_at (goto i p (s\<lparr>tasks := ts, inFlight := fl\<rparr>)) j = (if j = i then p else phase_at s j)"
  "j < length (callers s) \<Longrightarrow> key_at (goto i p (s\<lparr>tasks := ts\<rparr>)) j = key_at s j"
  "j < length (callers s) \<Longrightarrow> key_at (goto i p (s\<lparr>inFlight := fl\<rparr>)) j = key_at s j"
  "j < length (callers s) \<Longrightarrow> key_at (goto i p (s\<lparr>tasks := ts, inFlight := fl\<rparr>)) j = key_at s j"
  by (simp_all add: goto_def) (cases "j = i"; simp)+

lemma shared_lead:
  assumes "shared_ok s" and "i < length (callers s)" and "leads (phase_at s i) = None" and "inFlight s (key_at s i) = None"
  shows "shared_ok (goto i (Building (length (tasks s))) (s\<lparr>tasks := tasks s @ [None], inFlight := (inFlight s)(key_at s i \<mapsto> length (tasks s))\<rparr>))"
proof -
  define s' where "s' = goto i (Building (length (tasks s))) (s\<lparr>tasks := tasks s @ [None], inFlight := (inFlight s)(key_at s i \<mapsto> length (tasks s))\<rparr>)"
  have n: "length (callers s') = length (callers s)" and T: "tasks s' = tasks s @ [None]" and F: "inFlight s' = (inFlight s)(key_at s i \<mapsto> length (tasks s))"
    by (simp_all add: s'_def)
  have P: "phase_at s' j = (if j = i then Building (length (tasks s)) else phase_at s j)" and K: "key_at s' j = key_at s j"
    if "j < length (callers s)" for j using that by (simp_all add: s'_def)
  have old: "t < length (tasks s)" if "j < length (callers s)" "leads (phase_at s j) = Some t" for j t using shared_okD(1)[OF assms(1) that] by blast
  have "shared_ok s'"
    unfolding shared_ok_def n
  proof (intro conjI allI impI; (elim conjE)?)
    fix j t assume h: "j < length (callers s)" "leads (phase_at s' j) = Some t"
    have "t < length (tasks s') \<and> inFlight s' (key_at s' j) = Some t \<and> tasks s' ! t = announced (phase_at s' j)"
    proof (cases "j = i")
      case True then show ?thesis using h by (auto simp: P K T F nth_append)
    next
      case False
      then have l: "leads (phase_at s j) = Some t" using h by (simp add: P)
      note D = shared_okD(1)[OF assms(1) h(1) l]
      have "key_at s j \<noteq> key_at s i" using D assms(4) by auto
      then show ?thesis using D False h(1) by (simp add: P K T F nth_append)
    qed
    then show "t < length (tasks s')" "inFlight s' (key_at s' j) = Some t" "tasks s' ! t = announced (phase_at s' j)" by simp_all
  next
    fix k t assume h: "inFlight s' k = Some t"
    show "\<exists>j < length (callers s). leads (phase_at s' j) = Some t \<and> key_at s' j = k"
    proof (cases "k = key_at s i")
      case True then show ?thesis using h assms(2) by (intro exI[of _ i]) (simp add: P K F)
    next
      case False
      then obtain j where j: "j < length (callers s)" "leads (phase_at s j) = Some t" "key_at s j = k"
        using h shared_ok_leader[OF assms(1)] by (auto simp: F)
      then have "j \<noteq> i" using False by auto
      then show ?thesis using j by (intro exI[of _ j]) (simp add: P K)
    qed
  next
    fix j l t assume h: "j < length (callers s)" "l < length (callers s)" "leads (phase_at s' j) = Some t" "leads (phase_at s' l) = Some t"
    show "j = l"
    proof (cases "j = i"; cases "l = i")
      assume "j = i" "l \<noteq> i" then show ?thesis using h old[of l t] by (simp add: P)
    next
      assume "j \<noteq> i" "l = i" then show ?thesis using h old[of j t] by (simp add: P)
    next
      assume "j \<noteq> i" "l \<noteq> i" then show ?thesis using h shared_okD(2)[OF assms(1), of j l t] by (simp add: P)
    qed simp
  next
    fix j t assume h: "j < length (callers s)" "phase_at s' j = Waiting t"
    then have "j \<noteq> i" by (auto simp: P)
    then have D: "t < length (tasks s) \<and> (tasks s ! t = None \<longrightarrow> (\<exists>l < length (callers s). leads (phase_at s l) = Some t))"
      using h shared_okD(3)[OF assms(1), of j t] by (simp add: P)
    then show "t < length (tasks s')" by (simp add: T)
    assume "tasks s' ! t = None"
    then obtain l where l: "l < length (callers s)" "leads (phase_at s l) = Some t" using D by (auto simp: T nth_append)
    then have "l \<noteq> i" using assms(3) by auto
    then show "\<exists>l < length (callers s). leads (phase_at s' l) = Some t" using l by (intro exI[of _ l]) (simp add: P)
  qed
  then show ?thesis by (simp add: s'_def)
qed

lemma shared_publish:
  assumes "shared_ok s" and "i < length (callers s)" and "phase_at s i = Finished t r"
  shows "shared_ok (goto i (Published t r) (s\<lparr>tasks := (tasks s)[t := Some r]\<rparr>))"
proof -
  define s' where "s' = goto i (Published t r) (s\<lparr>tasks := (tasks s)[t := Some r]\<rparr>)"
  have n: "length (callers s') = length (callers s)" and T: "tasks s' = (tasks s)[t := Some r]" and F: "inFlight s' = inFlight s"
    by (simp_all add: s'_def)
  have P: "phase_at s' j = (if j = i then Published t r else phase_at s j)" and K: "key_at s' j = key_at s j"
    if "j < length (callers s)" for j using that by (simp_all add: s'_def)
  have L: "leads (phase_at s' j) = leads (phase_at s j)" if "j < length (callers s)" for j using that assms(3) by (simp add: P)
  have i: "leads (phase_at s i) = Some t" using assms(3) by simp
  have "shared_ok s'"
    unfolding shared_ok_def n F
  proof (intro conjI allI impI; (elim conjE)?)
    fix j u assume h: "j < length (callers s)" "leads (phase_at s' j) = Some u"
    then have l: "leads (phase_at s j) = Some u" using L by simp
    note D = shared_okD(1)[OF assms(1) h(1) l]
    have "j \<noteq> i \<Longrightarrow> u \<noteq> t" using shared_okD(2)[OF assms(1) h(1) assms(2) l] i by auto
    moreover have "j = i \<Longrightarrow> u = t" using l i by simp
    ultimately show "u < length (tasks s')" "inFlight s (key_at s' j) = Some u" "tasks s' ! u = announced (phase_at s' j)"
      using D h(1) by (auto simp: P K T)
  next
    fix k u assume "inFlight s k = Some u"
    then show "\<exists>j < length (callers s). leads (phase_at s' j) = Some u \<and> key_at s' j = k"
      using shared_ok_leader[OF assms(1)] L K by metis
  next
    fix j l u assume "j < length (callers s)" "l < length (callers s)" "leads (phase_at s' j) = Some u" "leads (phase_at s' l) = Some u"
    then show "j = l" using shared_okD(2)[OF assms(1)] L by metis
  next
    fix j u assume h: "j < length (callers s)" "phase_at s' j = Waiting u"
    then have D: "u < length (tasks s) \<and> (tasks s ! u = None \<longrightarrow> (\<exists>l < length (callers s). leads (phase_at s l) = Some u))"
      using shared_okD(3)[OF assms(1), of j u] by (simp add: P split: if_splits)
    then show "u < length (tasks s')" by (simp add: T)
    assume "tasks s' ! u = None"
    then have "tasks s ! u = None" using D by (cases "u = t") (simp_all add: T)
    then show "\<exists>l < length (callers s). leads (phase_at s' l) = Some u" using D L by metis
  qed
  then show ?thesis by (simp add: s'_def)
qed

lemma shared_forget:
  assumes "shared_ok s" and "i < length (callers s)" and "phase_at s i = Published t r"
  shows "shared_ok (goto i (Returned r) (s\<lparr>inFlight := (inFlight s)(key_at s i := None)\<rparr>))"
proof -
  define s' where "s' = goto i (Returned r) (s\<lparr>inFlight := (inFlight s)(key_at s i := None)\<rparr>)"
  have n: "length (callers s') = length (callers s)" and T: "tasks s' = tasks s" and F: "inFlight s' = (inFlight s)(key_at s i := None)"
    by (simp_all add: s'_def)
  have P: "phase_at s' j = (if j = i then Returned r else phase_at s j)" and K: "key_at s' j = key_at s j"
    if "j < length (callers s)" for j using that by (simp_all add: s'_def)
  have i: "leads (phase_at s i) = Some t" using assms(3) by simp
  note Di = shared_okD(1)[OF assms(1,2) i]
  have leader: "j \<noteq> i \<and> leads (phase_at s j) = Some u \<and> u \<noteq> t" if "j < length (callers s)" "leads (phase_at s' j) = Some u" for j u
    using that shared_okD(2)[OF assms(1,2) that(1) i] by (auto simp: P split: if_splits)
  have "shared_ok s'"
    unfolding shared_ok_def n T
  proof (intro conjI allI impI; (elim conjE)?)
    fix j u assume h: "j < length (callers s)" "leads (phase_at s' j) = Some u"
    note l = leader[OF h]
    note D = shared_okD(1)[OF assms(1) h(1)] 
    have "key_at s j \<noteq> key_at s i" using D[of u] l Di by auto
    then show "u < length (tasks s)" "inFlight s' (key_at s' j) = Some u" "tasks s ! u = announced (phase_at s' j)"
      using D[of u] l h(1) by (simp_all add: P K F)
  next
    fix k u assume h: "inFlight s' k = Some u"
    then have k: "k \<noteq> key_at s i" "inFlight s k = Some u" by (auto simp: F split: if_splits)
    then obtain j where j: "j < length (callers s)" "leads (phase_at s j) = Some u" "key_at s j = k" using shared_ok_leader[OF assms(1)] by blast
    then have "j \<noteq> i" using k by auto
    then show "\<exists>j < length (callers s). leads (phase_at s' j) = Some u \<and> key_at s' j = k" using j by (intro exI[of _ j]) (simp add: P K)
  next
    fix j l u assume h: "j < length (callers s)" "l < length (callers s)" "leads (phase_at s' j) = Some u" "leads (phase_at s' l) = Some u"
    show "j = l" using shared_okD(2)[OF assms(1) h(1,2)] leader[OF h(1,3)] leader[OF h(2,4)] by blast
  next
    fix j u assume h: "j < length (callers s)" "phase_at s' j = Waiting u"
    then have "phase_at s j = Waiting u" by (simp add: P split: if_splits)
    note D = shared_okD(3)[OF assms(1) h(1) this]
    then show "u < length (tasks s)" by blast
    assume none: "tasks s ! u = None"
    then obtain l where l: "l < length (callers s)" "leads (phase_at s l) = Some u" using D by blast
    have "u \<noteq> t" using none Di assms(3) by auto
    then have "l \<noteq> i" using l i by auto
    then show "\<exists>l < length (callers s). leads (phase_at s' l) = Some u" using l by (intro exI[of _ l]) (simp add: P)
  qed
  then show ?thesis by (simp add: s'_def)
qed

lemma shared_step:
  assumes "shared_ok s" and "index_step a s = Some s'"
  shows "shared_ok s'"
proof (cases a)
  case (Arrive key)
  define s1 where "s1 = s\<lparr>callers := callers s @ [\<lparr>ca_key = key, ca_phase = Arrived\<rparr>]\<rparr>"
  have P: "callers s1 ! j = (if j < length (callers s) then callers s ! j else \<lparr>ca_key = key, ca_phase = Arrived\<rparr>)" if "j < length (callers s1)" for j
    using that by (auto simp: s1_def nth_append less_Suc_eq)
  have n: "j < length (callers s1) \<longleftrightarrow> j < length (callers s) \<or> j = length (callers s)" for j by (auto simp: s1_def)
  have eqs: "tasks s1 = tasks s" "inFlight s1 = inFlight s" by (simp_all add: s1_def)
  have ph: "j < length (callers s) \<and> callers s1 ! j = callers s ! j" if "j < length (callers s1)" "phase_at s1 j \<noteq> Arrived" for j
    using that P[OF that(1)] by (auto split: if_splits)
  have lead: "phase_at s1 j \<noteq> Arrived" if "leads (phase_at s1 j) = Some t" for j t using that by auto
  have low: "j < length (callers s1) \<and> callers s1 ! j = callers s ! j" if "j < length (callers s)" for j using that P[of j] n by simp
  have "shared_ok s1"
    unfolding shared_ok_def eqs
  proof (intro conjI allI impI; (elim conjE)?)
    fix j t assume h: "j < length (callers s1)" "leads (phase_at s1 j) = Some t"
    note q = ph[OF h(1) lead[OF h(2)]]
    show "t < length (tasks s)" "inFlight s (key_at s1 j) = Some t" "tasks s ! t = announced (phase_at s1 j)"
      using shared_okD(1)[OF assms(1), of j t] q h(2) by simp_all
  next
    fix k t assume "inFlight s k = Some t"
    then show "\<exists>j < length (callers s1). leads (phase_at s1 j) = Some t \<and> key_at s1 j = k"
      using shared_ok_leader[OF assms(1)] low by metis
  next
    fix j l t assume h: "j < length (callers s1)" "l < length (callers s1)" "leads (phase_at s1 j) = Some t" "leads (phase_at s1 l) = Some t"
    show "j = l"
      using shared_okD(2)[OF assms(1), of j l t] ph[OF h(1) lead[OF h(3)]] ph[OF h(2) lead[OF h(4)]] h(3,4) by simp
  next
    fix j t assume h: "j < length (callers s1)" "phase_at s1 j = Waiting t"
    then have q: "j < length (callers s)" "phase_at s j = Waiting t" using ph[OF h(1)] by simp_all
    show "t < length (tasks s)" using shared_okD(3)[OF assms(1) q] by blast
    assume "tasks s ! t = None"
    then show "\<exists>l < length (callers s1). leads (phase_at s1 l) = Some t" using shared_okD(3)[OF assms(1) q] low by metis
  qed
  then show ?thesis using assms(2) Arrive by (simp add: s1_def)
next
  case (Enter i)
  then have i: "i < length (callers s)" "phase_at s i = Arrived" using assms(2) by (auto split: if_splits)
  show ?thesis
  proof (cases "inFlight s (key_at s i)")
    case None
    then show ?thesis using assms(2) Enter i shared_lead[OF assms(1) i(1)] by (simp add: Let_def)
  next
    case (Some t)
    then show ?thesis using assms(2) Enter i shared_follow[OF assms(1) i(1), of "Waiting t"] by simp
  qed
next
  case (Stat i sz)
  then show ?thesis using assms shared_advance[OF assms(1), of i]
    by (auto split: if_splits option.splits phase.splits)
next
  case (TakeSlot i)
  then show ?thesis using assms shared_advance[OF assms(1), of i] by (auto split: if_splits phase.splits)
next
  case (TakeBytes i)
  then show ?thesis using assms shared_advance[OF assms(1), of i]
    by (auto split: if_splits phase.splits simp: acquireBytes_def)
next
  case (Finish i r)
  then show ?thesis using assms shared_advance[OF assms(1), of i] by (auto split: if_splits phase.splits simp: releaseBytes_def)
next
  case (FreeSlot i)
  then show ?thesis using assms shared_advance[OF assms(1), of i] by (auto split: if_splits phase.splits)
next
  case (Publish i)
  then show ?thesis using assms shared_publish[OF assms(1), of i] by (auto split: if_splits phase.splits)
next
  case (Forget i)
  then obtain t r where i: "i < length (callers s)" "phase_at s i = Published t r" using assms(2) by (auto split: if_splits phase.splits)
  then have "inFlight s (key_at s i) = Some t" using shared_okD(1)[OF assms(1) i(1), of t] by simp
  then show ?thesis using assms(2) Forget i shared_forget[OF assms(1) i] by simp
next
  case (Wake i)
  then obtain t r where i: "i < length (callers s)" "phase_at s i = Waiting t" "s' = goto i (Returned r) s"
    using assms(2) by (auto split: if_splits phase.splits option.splits)
  show ?thesis unfolding i(3) by (rule shared_follow[OF assms(1) i(1)]) (simp_all add: i(2))
next
  case (Cancel i)
  then consider t where "i < length (callers s)" "phase_at s i = Waiting t" "s' = goto i (Returned (Inl ContextDone)) s"
    | t n where "i < length (callers s)" "phase_at s i = Queued t n" "s' = goto i (Finished t (Inl ContextDone)) s"
    using assms(2) by (auto split: if_splits phase.splits)
  then show ?thesis
  proof cases
    case 1 show ?thesis unfolding 1(3) by (rule shared_follow[OF assms(1) 1(1)]) (simp_all add: 1(2))
  next
    case 2 show ?thesis unfolding 2(3) by (rule shared_advance[OF assms(1) 2(1)]) (simp_all add: 2(2))
  qed
qed

lemma store_run_ok:
  assumes "index_run as s = Some s'" and "counts_ok s" "shared_ok s"
  shows "counts_ok s' \<and> shared_ok s'"
  using assms
proof (induction as arbitrary: s)
  case (Cons a as)
  then show ?case by (auto split: option.splits dest: counts_step shared_step)
qed simp

lemma NewStore_ok: "counts_ok (NewStore c b)" "shared_ok (NewStore c b)"
  by (auto simp: counts_ok_def shared_ok_def NewStore_def defaultMaxConcurrentBuilds_def defaultMaxInFlightBytes_def split: option.splits)

lemmas reached_ok = store_run_ok[OF _ NewStore_ok]


section \<open>Budgets, sharing, progress\<close>

fun building :: "'r phase \<Rightarrow> bool" where
  "building (Working t n) = True" | "building _ = False"

text \<open>
  C37. However the callers interleave, no more builds run at a time than the store allows, the files they read together stay within the byte
  budget, and no transcript is built by two callers at once.
\<close>

theorem index_store_budgets:
  assumes "index_run as (NewStore withConcurrent withBytes) = Some s"
  shows "int (length (filter (\<lambda>c. building (ca_phase c)) (callers s))) \<le> int (maxConcurrent s) \<and>
    sum_list (map (held \<circ> ca_phase) (callers s)) \<le> maxInFlightBytes s \<and>
    (\<forall>i < length (callers s). \<forall>j < length (callers s).
       building (phase_at s i) \<and> building (phase_at s j) \<and> key_at s i = key_at s j \<longrightarrow> i = j)"
proof -
  note ok = reached_ok[OF assms]
  have "int (length (filter (\<lambda>c. building (ca_phase c)) cs)) \<le> sum_list (map (slots \<circ> ca_phase) cs)" for cs :: "'a caller list"
  proof (induction cs)
    case (Cons c cs)
    then show ?case by (cases "ca_phase c") simp_all
  qed simp
  note le = this[of "callers s"]
  have one: "i = j" if h: "i < length (callers s)" "j < length (callers s)" "building (phase_at s i)" "building (phase_at s j)" "key_at s i = key_at s j" for i j
  proof -
    obtain t u where "leads (phase_at s i) = Some t" "leads (phase_at s j) = Some u" using h(3,4) by (cases "phase_at s i"; cases "phase_at s j") auto
    then show ?thesis using h(1,2,5) shared_okD(1,2)[OF conjunct2[OF ok]] by (metis option.inject)
  qed
  have c: "sum_list (map (slots \<circ> ca_phase) (callers s)) \<le> int (maxConcurrent s)"
    "sum_list (map (held \<circ> ca_phase) (callers s)) \<le> maxInFlightBytes s"
    using ok by (simp_all add: counts_ok_def)
  show ?thesis
  proof (intro conjI allI impI)
    show "int (length (filter (\<lambda>c. building (ca_phase c)) (callers s))) \<le> int (maxConcurrent s)" using le c(1) by (rule order_trans)
    show "sum_list (map (held \<circ> ca_phase) (callers s)) \<le> maxInFlightBytes s" by (rule c(2))
    show "i = j" if "i < length (callers s)" "j < length (callers s)" "building (phase_at s i) \<and> building (phase_at s j) \<and> key_at s i = key_at s j" for i j
      using that one by blast
  qed
qed

fun steps_left :: "'r phase \<Rightarrow> nat" where
  "steps_left Arrived = 9" | "steps_left (Building t) = 8" | "steps_left (Queued t n) = 7" | "steps_left (HasSlot t n) = 6"
| "steps_left (Working t n) = 5" | "steps_left (Releasing t r) = 4" | "steps_left (Finished t r) = 3" | "steps_left (Published t r) = 2"
| "steps_left (Waiting t) = 1" | "steps_left (Returned r) = 0"

definition store_rank :: "'r index_store \<Rightarrow> nat" where
  "store_rank s = sum_list (map (steps_left \<circ> ca_phase) (callers s))"

lemma store_rank_goto:
  assumes "i < length (callers s)" and "steps_left p < steps_left (phase_at s i)" and "callers s' = callers (goto i p s)"
  shows "store_rank s' < store_rank s"
proof -
  have split: "callers s = take i (callers s) @ callers s ! i # drop (Suc i) (callers s)" using assms(1) by (simp add: id_take_nth_drop)
  have "store_rank s' = sum_list (map (steps_left \<circ> ca_phase) (take i (callers s))) + steps_left p + sum_list (map (steps_left \<circ> ca_phase) (drop (Suc i) (callers s)))"
    using assms(1) by (simp add: store_rank_def assms(3) goto_def upd_conv_take_nth_drop)
  also have "\<dots> < store_rank s" unfolding store_rank_def by (subst split) (simp add: assms(2))
  finally show ?thesis .
qed

definition arrives :: "'r store_action \<Rightarrow> bool" where
  "arrives a \<longleftrightarrow> (\<exists>k. a = Arrive k)"

lemma store_rank_step:
  assumes "index_step a s = Some s'" and "\<not> arrives a"
  shows "store_rank s' < store_rank s"
proof (cases a)
  case (Enter i)
  then show ?thesis using assms(1) by (auto split: if_splits option.splits simp: Let_def goto_def intro!: store_rank_goto[of i s])
qed (use assms in \<open>auto split: if_splits option.splits phase.splits simp: arrives_def acquireBytes_def releaseBytes_def goto_def intro!: store_rank_goto\<close>)

lemma store_rank_run:
  assumes "index_run as s = Some s'" and "\<forall>a \<in> set as. \<not> arrives a"
  shows "length as \<le> store_rank s"
  using assms
proof (induction as arbitrary: s)
  case (Cons a as)
  then obtain s1 where "index_step a s = Some s1" "index_run as s1 = Some s'" by (auto split: option.splits)
  then show ?case using Cons.IH[of s1] Cons.prems(2) store_rank_step[of a s s1] by simp
qed simp

definition stuck :: "'r index_store \<Rightarrow> bool" where
  "stuck s \<longleftrightarrow> (\<forall>a s'. index_step a s = Some s' \<longrightarrow> arrives a \<or> (\<exists>i. a = Cancel i))"

lemma stuck_phases:
  assumes "stuck s" and "i < length (callers s)"
  shows "phase_at s i \<in> range Returned \<or> (\<exists>t. phase_at s i = Waiting t \<and> tasks s ! t = None) \<or> (\<exists>t n. phase_at s i = Queued t n \<and> \<not> buildSem s < maxConcurrent s)"
proof (rule ccontr)
  assume n: "\<not> ?thesis"
  have no: "index_step a s = None" if "\<not> arrives a" "\<And>j. a \<noteq> Cancel j" for a
    using assms(1) that unfolding stuck_def by (cases "index_step a s") blast+
  note N = no[of "Enter i"] no[of "Stat i None"] no[of "TakeSlot i"] no[of "TakeBytes i"] no[of "Finish i (Inl BuildFailed)"] no[of "FreeSlot i"]
    no[of "Publish i"] no[of "Forget i"] no[of "Wake i"]
  show False
    using N assms(2) n by (cases "phase_at s i") (auto simp: arrives_def acquireBytes_def Let_def split: option.splits if_splits)
qed

text \<open>
  C38. The store never blocks for good: apart from new callers only finitely many steps can follow, and when nothing but cancellation is left to do, every caller has its
  answer, the semaphore is free, no bytes are held and no task is in flight.
\<close>

theorem index_store_drains:
  assumes "index_run as (NewStore withConcurrent withBytes) = Some s"
  shows "(\<forall>bs s'. index_run bs s = Some s' \<and> (\<forall>a \<in> set bs. \<not> arrives a) \<longrightarrow> length bs \<le> 9 * length (callers s)) \<and>
    (stuck s \<longrightarrow> (\<forall>i < length (callers s). phase_at s i \<in> range Returned) \<and> buildSem s = 0 \<and> inFlightBytes s = 0 \<and> inFlight s = Map.empty)"
proof -
  note ok = reached_ok[OF assms]
  have le: "steps_left p \<le> 9" for p :: "'a phase" by (cases p) simp_all
  have "sum_list (map (steps_left \<circ> ca_phase) cs) \<le> 9 * length cs" for cs :: "'a caller list"
  proof (induction cs)
    case (Cons c cs) then show ?case using le[of "ca_phase c"] by simp
  qed simp
  then have rank: "store_rank s \<le> 9 * length (callers s)" by (simp add: store_rank_def)
  have drained: "(\<forall>i < length (callers s). phase_at s i \<in> range Returned) \<and> buildSem s = 0 \<and> inFlightBytes s = 0 \<and> inFlight s = Map.empty" if "stuck s"
  proof -
    have zero: "slots (phase_at s i) = 0" "held (phase_at s i) = 0" if "i < length (callers s)" for i
      using stuck_phases[OF \<open>stuck s\<close> that] by auto
    have "map (slots \<circ> ca_phase) (callers s) = replicate (length (callers s)) 0" "map (held \<circ> ca_phase) (callers s) = replicate (length (callers s)) 0"
      by (rule nth_equalityI; simp add: zero)+
    then have "sum_list (map (slots \<circ> ca_phase) (callers s)) = 0" "sum_list (map (held \<circ> ca_phase) (callers s)) = 0"
      by (simp_all add: sum_list_replicate)
    then have sem: "buildSem s = 0" "inFlightBytes s = 0" "buildSem s < maxConcurrent s" using ok by (simp_all add: counts_ok_def)
    have noq: "leads (phase_at s i) = None" if "i < length (callers s)" for i
      using stuck_phases[OF \<open>stuck s\<close> that] sem(3) by auto
    then have fl: "inFlight s = Map.empty" using shared_ok_leader[OF conjunct2[OF ok]] by (metis not_Some_eq option.distinct(1) ext)
    have "phase_at s i \<in> range Returned" if h: "i < length (callers s)" for i
      using stuck_phases[OF \<open>stuck s\<close> h] sem(3) shared_okD(3)[OF conjunct2[OF ok] h] noq by (metis option.distinct(1))
    then show ?thesis using sem fl by blast
  qed
  show ?thesis using store_rank_run rank drained by (metis order_trans)
qed

text \<open>
  A caller that waits for another's task gets the other's error, also when that is the end of the other's own request: the first one is cancelled while it queues, and
  the second, whose request goes on, is refused too.
\<close>

theorem waiter_gets_foreign_cancellation:
  "\<exists>as s. index_run as (NewStore None None :: nat index_store) = Some s \<and> Cancel 1 \<notin> set as \<and> length (callers s) = 2 \<and>
     phase_at s 1 = Returned (Inl ContextDone)"
proof -
  let ?as = "[Arrive ''k'', Arrive ''k'', Enter 0, Enter 1, Stat 0 (Some 5), Cancel 0, Publish 0, Wake 1] :: nat store_action list"
  obtain s where s: "index_run ?as (NewStore None None) = Some s" "length (callers s) = 2" "phase_at s 1 = Returned (Inl ContextDone)"
    by (simp add: NewStore_def goto_def Let_def)
  then show ?thesis by (intro exI[of _ ?as] exI[of _ s]) simp
qed

theorem index_store_budgets_witness:
  "\<exists>s :: nat index_store. index_run [Arrive ''k'', Enter 0, Stat 0 (Some 5), TakeSlot 0, TakeBytes 0] (NewStore (Some 1) None) = Some s \<and>
     int (length (filter (\<lambda>c. building (ca_phase c)) (callers s))) \<le> 1"
proof -
  let ?as = "[Arrive ''k'', Enter 0, Stat 0 (Some 5), TakeSlot 0, TakeBytes 0] :: nat store_action list"
  obtain s where s: "index_run ?as (NewStore (Some 1) None) = Some s" "maxConcurrent s = 1"
    by (simp add: NewStore_def goto_def Let_def acquireBytes_def defaultMaxInFlightBytes_def)
  from index_store_budgets[OF s(1)] show ?thesis using s by auto
qed

theorem index_store_drains_witness:
  "\<exists>s :: nat index_store. index_run [Arrive ''k'', Enter 0, Stat 0 None, Publish 0, Forget 0] (NewStore None None) = Some s \<and> inFlight s = Map.empty"
proof -
  let ?as = "[Arrive ''k'', Enter 0, Stat 0 None, Publish 0, Forget 0] :: nat store_action list"
  obtain s where s: "index_run ?as (NewStore None None) = Some s" "callers s = [\<lparr>ca_key = ''k'', ca_phase = Returned (Inl StatFailed)\<rparr>]"
    by (simp add: NewStore_def goto_def Let_def)
  have "stuck s"
    unfolding stuck_def
  proof (intro allI impI)
    fix a s' assume "index_step a s = Some s'"
    then show "arrives a \<or> (\<exists>i. a = Cancel i)" using s(2) by (cases a) (auto simp: arrives_def split: if_splits)
  qed
  then show ?thesis using index_store_drains[OF s(1)] s(1) by blast
qed

end
