(* ===== verification/Agent_Env.thy ===== *)
theory Agent_Env
  imports Prelude
begin

text \<open>
  What an agent's process is started with (\<^verbatim>\<open>core/message.go\<close>, \<^verbatim>\<open>core/runas.go\<close>): the environment built from the bridge's own, the
  provider's and the session's, without the bridge's secrets; the command, under \<^verbatim>\<open>sudo\<close> when another user is to run it; the check
  that this user cannot become root, with its cache. An environment is the list of its entries.
\<close>

section \<open>Environments\<close>

text \<open>\<^verbatim>\<open>strings.Cut\<close> at the first equals sign.\<close>

definition cut_eq :: "string \<Rightarrow> (string \<times> string) option" where
  "cut_eq e =
     (if CHR ''='' \<in> set e then Some (takeWhile (\<lambda>c. c \<noteq> CHR ''='') e, drop 1 (dropWhile (\<lambda>c. c \<noteq> CHR ''='') e)) else None)"

definition env_keys :: "string list \<Rightarrow> string set" where
  "env_keys env = set (List.map_filter (\<lambda>e. map_option fst (cut_eq e)) env)"

definition MergeEnv :: "string list \<Rightarrow> string list \<Rightarrow> string list" where
  "MergeEnv base extra =
     filter (\<lambda>e. case cut_eq e of Some (k, _) \<Rightarrow> k \<notin> env_keys extra | None \<Rightarrow> True) base @ extra"

definition controlPlaneEnvDenyPrefixes :: "string list" where
  "controlPlaneEnvDenyPrefixes = [''CCCODE_'', ''OPENCODE_SERVER_'', ''CLAUDECODE'']"

definition controlPlaneEnvDenyExact :: "string list" where
  "controlPlaneEnvDenyExact = [''OPENCODE_SERVER_USERNAME'', ''OPENCODE_SERVER_PASSWORD'']"

definition denied_key :: "string \<Rightarrow> bool" where
  "denied_key k \<longleftrightarrow> k \<in> set controlPlaneEnvDenyExact \<or> list_ex (has_prefix k) controlPlaneEnvDenyPrefixes"

definition isControlPlaneEnv :: "string \<Rightarrow> bool" where
  "isControlPlaneEnv entry = (case cut_eq entry of None \<Rightarrow> False | Some (k, _) \<Rightarrow> denied_key k)"

definition stripControlPlaneEnv :: "string list \<Rightarrow> string list" where
  "stripControlPlaneEnv env = filter (\<lambda>e. \<not> isControlPlaneEnv e) env"

definition agentEnvRuntimeAllowlist :: "string list" where
  "agentEnvRuntimeAllowlist =
     [''PATH'', ''HOME'', ''USER'', ''LOGNAME'', ''LANG'', ''LC_ALL'', ''LC_CTYPE'', ''LC_MESSAGES'', ''TMPDIR'', ''SHELL'']"

definition FilterEnvToAllowlist :: "string list \<Rightarrow> string list \<Rightarrow> string list" where
  "FilterEnvToAllowlist env allow = filter (\<lambda>e. case cut_eq e of None \<Rightarrow> False | Some (k, _) \<Rightarrow> k \<in> set allow) env"

definition BuildAgentEnv :: "string list \<Rightarrow> string list \<Rightarrow> string list \<Rightarrow> string list" where
  "BuildAgentEnv base providerEnv sessionEnv =
     (let base = stripControlPlaneEnv base;
          providerEnv = stripControlPlaneEnv providerEnv;
          sessionEnv = stripControlPlaneEnv sessionEnv;
          merged = MergeEnv base providerEnv;
          merged = MergeEnv merged sessionEnv
      in stripControlPlaneEnv merged)"


section \<open>Another user\<close>

record spawn_options =
  RunAsUser :: string
  EnvAllowlist :: "string list"

definition DefaultEnvAllowlist :: "string list" where
  "DefaultEnvAllowlist = [''LANG'', ''LC_ALL'', ''LC_CTYPE'', ''LC_MESSAGES'', ''TERM'']"

definition IsolationMode :: "spawn_options \<Rightarrow> bool" where
  "IsolationMode opts \<longleftrightarrow> RunAsUser opts \<noteq> []"

definition mergedAllowlist :: "spawn_options \<Rightarrow> string list" where
  "mergedAllowlist opts = sort (remdups (DefaultEnvAllowlist @ filter (\<lambda>v. v \<noteq> []) (EnvAllowlist opts)))"

definition BuildSpawnCommand :: "spawn_options \<Rightarrow> string \<Rightarrow> string list \<Rightarrow> string list" where
  "BuildSpawnCommand opts name args =
     (if \<not> IsolationMode opts then name # args
      else [''sudo'', ''-n'', ''-iu'', RunAsUser opts, ''--preserve-env='' @ join_strings '','' (mergedAllowlist opts), ''--'', name] @ args)"

text \<open>The index of the equals sign is compared with zero: an entry with an empty key goes, too.\<close>

definition FilterEnvForSpawn :: "string list \<Rightarrow> spawn_options \<Rightarrow> string list" where
  "FilterEnvForSpawn env opts =
     (if \<not> IsolationMode opts then env
      else filter (\<lambda>e. case cut_eq e of None \<Rightarrow> False | Some (k, _) \<Rightarrow> k \<noteq> [] \<and> k \<in> set (mergedAllowlist opts)) env)"

text \<open>\<^verbatim>\<open>newClaudeSession\<close>: the environment of the process; \<open>environ\<close> is that of the bridge.\<close>

definition claude_env :: "string list \<Rightarrow> string list \<Rightarrow> spawn_options \<Rightarrow> string list" where
  "claude_env environ extraEnv opts =
     FilterEnvForSpawn (BuildAgentEnv (FilterEnvToAllowlist environ agentEnvRuntimeAllowlist) extraEnv []) opts"

text \<open>\<^verbatim>\<open>connectStdio\<close> of the Codex app server.\<close>

definition codex_env :: "string list \<Rightarrow> string list \<Rightarrow> string \<Rightarrow> string list" where
  "codex_env environ extraEnv codexHome =
     BuildAgentEnv (FilterEnvToAllowlist environ agentEnvRuntimeAllowlist) []
       (extraEnv @ (if codexHome \<noteq> [] then [''CODEX_HOME='' @ codexHome] else []))"

text \<open>
  What the process finds under a name: \<^verbatim>\<open>os/exec\<close> keeps the last entry of a key.
\<close>

definition getenv :: "string list \<Rightarrow> string \<rightharpoonup> string" where
  "getenv env = map_of (rev (List.map_filter cut_eq env))"


section \<open>The check of the user\<close>

definition verifyCacheTTL :: duration where
  "verifyCacheTTL = 30000000000"

type_synonym verify_cache = "string \<rightharpoonup> gotime"

definition verifyCacheHit :: "gotime \<Rightarrow> string \<Rightarrow> verify_cache \<Rightarrow> bool \<times> verify_cache" where
  "verifyCacheHit now user c =
     (case c user of None \<Rightarrow> (False, c) | Some expires \<Rightarrow> if now > expires then (False, c(user := None)) else (True, c))"

definition verifyCacheStore :: "gotime \<Rightarrow> string \<Rightarrow> verify_cache \<Rightarrow> verify_cache" where
  "verifyCacheStore now user c = c(user \<mapsto> now + verifyCacheTTL)"

definition verifyCacheEvict :: "string \<Rightarrow> verify_cache \<Rightarrow> verify_cache" where
  "verifyCacheEvict user c = c(user := None)"

text \<open>
  The call looks into the cache at \<open>now\<close>, runs the two commands, whose success is \<open>canSudo\<close> and \<open>escalates\<close>, and stores at \<open>later\<close>.
\<close>

datatype verify_error = EmptyUser | NoSudo | CanEscalate

definition VerifyRunAsUserCheap ::
  "gotime \<Rightarrow> gotime \<Rightarrow> bool \<Rightarrow> bool \<Rightarrow> string \<Rightarrow> verify_cache \<Rightarrow> verify_error option \<times> verify_cache" where
  "VerifyRunAsUserCheap now later canSudo escalates runAsUser c =
     (if runAsUser = [] then (Some EmptyUser, c)
      else let (hit, c) = verifyCacheHit now runAsUser c
        in if hit then (None, c)
           else if \<not> canSudo then (Some NoSudo, verifyCacheEvict runAsUser c)
           else if escalates then (Some CanEscalate, verifyCacheEvict runAsUser c)
           else (None, verifyCacheStore later runAsUser c))"


section \<open>The command line\<close>

text \<open>\<^verbatim>\<open>shellJoinArgs\<close> on ASCII: an argument with a blank, a quote or a backslash is put into single quotes.\<close>

definition special_char :: "char \<Rightarrow> bool" where
  "special_char c \<longleftrightarrow> c \<in> set [CHR '' '', CHR 0x09, CHR 0x0A, CHR 0x0D, CHR 0x27, CHR 0x22, CHR 0x5C]"

definition quote_char :: "char \<Rightarrow> string" where
  "quote_char c = (if c = CHR 0x27 then [CHR 0x27, CHR 0x5C, CHR 0x27, CHR 0x27] else [c])"

definition quote_arg :: "string \<Rightarrow> string" where
  "quote_arg a = (if \<not> list_ex special_char a then a else [CHR 0x27] @ concat (map quote_char a) @ [CHR 0x27])"

definition shellJoinArgs :: "string list \<Rightarrow> string" where
  "shellJoinArgs args = join_strings '' '' (map quote_arg args)"

text \<open>What \<^verbatim>\<open>newClaudeSession\<close> is called with; the system prompt is that of \<^verbatim>\<open>AgentSystemPrompt\<close>.\<close>

record claude_start =
  cs_cliBin :: string
  cs_cliExtraArgs :: "string list"
  cs_cliArgsFlag :: string
  cs_model :: string
  cs_effort :: string
  cs_sessionID :: string
  cs_mode :: string
  cs_allowedTools :: "string list"
  cs_disallowedTools :: "string list"
  cs_extraEnv :: "string list"
  cs_platformPrompt :: string
  cs_disableVerbose :: bool
  cs_spawnOpts :: spawn_options
  cs_maxContextTokens :: int

definition line_feed :: string where "line_feed = [CHR 0x0A]"

definition baseClaudeInnerArgs :: "bool \<Rightarrow> string list" where
  "baseClaudeInnerArgs disableVerbose =
     [''--output-format'', ''stream-json'', ''--input-format'', ''stream-json'', ''--permission-prompt-tool'', ''stdio'',
      ''--include-partial-messages''] @ (if disableVerbose then [] else [''--verbose''])"

definition option_args :: "bool \<Rightarrow> string \<Rightarrow> string \<Rightarrow> string list" where
  "option_args present flag v = (if present then [flag, v] else [])"

definition claude_inner_args :: "string \<Rightarrow> claude_start \<Rightarrow> string list" where
  "claude_inner_args systemPrompt s =
     baseClaudeInnerArgs (cs_disableVerbose s)
     @ option_args (cs_mode s \<noteq> [] \<and> cs_mode s \<noteq> ''default'') ''--permission-mode'' (cs_mode s)
     @ option_args (cs_sessionID s \<noteq> [] \<and> cs_sessionID s \<noteq> ''__continue__'') ''--resume'' (cs_sessionID s)
     @ option_args (cs_allowedTools s \<noteq> []) ''--allowedTools'' (join_strings '','' (cs_allowedTools s))
     @ option_args (cs_disallowedTools s \<noteq> []) ''--disallowedTools'' (join_strings '','' (cs_disallowedTools s))
     @ option_args (systemPrompt \<noteq> []) ''--append-system-prompt''
         (if cs_platformPrompt s \<noteq> [] then systemPrompt @ line_feed @ ''## Formatting'' @ line_feed @ cs_platformPrompt s @ line_feed else systemPrompt)
     @ option_args (cs_effort s \<noteq> []) ''--effort'' (cs_effort s)
     @ option_args (cs_maxContextTokens s > 0) ''--max-context-tokens'' (show_int (cs_maxContextTokens s))"

definition claude_outer_args :: "claude_start \<Rightarrow> string list" where
  "claude_outer_args s = option_args (cs_model s \<noteq> []) ''--model'' (cs_model s)"

definition claude_all_args :: "string \<Rightarrow> claude_start \<Rightarrow> string list" where
  "claude_all_args systemPrompt s =
     (if cs_cliArgsFlag s \<noteq> []
      then cs_cliExtraArgs s @ [cs_cliArgsFlag s, shellJoinArgs (claude_inner_args systemPrompt s)] @ claude_outer_args s
      else cs_cliExtraArgs s @ claude_inner_args systemPrompt s @ claude_outer_args s)"

text \<open>\<^verbatim>\<open>newClaudeSession\<close> up to the start of the process: its command and environment, or the refusal.\<close>

definition newClaudeSession ::
  "string \<Rightarrow> string list \<Rightarrow> gotime \<Rightarrow> gotime \<Rightarrow> bool \<Rightarrow> bool \<Rightarrow> claude_start \<Rightarrow> verify_cache \<Rightarrow> (verify_error + string list \<times> string list) \<times> verify_cache" where
  "newClaudeSession systemPrompt environ now later canSudo escalates s c =
     (let (refused, c) =
        (if IsolationMode (cs_spawnOpts s) then VerifyRunAsUserCheap now later canSudo escalates (RunAsUser (cs_spawnOpts s)) c else (None, c))
      in case refused of
           Some e \<Rightarrow> (Inl e, c)
         | None \<Rightarrow>
             (Inr (BuildSpawnCommand (cs_spawnOpts s) (cs_cliBin s) (claude_all_args systemPrompt s),
                   claude_env environ (cs_extraEnv s) (cs_spawnOpts s)), c))"


section \<open>The environment of an agent\<close>

lemma map_filter_filter:
  "List.map_filter f (filter P xs) = filter Q (List.map_filter f xs)" if "\<And>x y. x \<in> set xs \<Longrightarrow> f x = Some y \<Longrightarrow> Q y \<longleftrightarrow> P x"
  using that by (induction xs) (auto simp: List.map_filter_simps split: option.splits)

lemma map_of_filter_key: "map_of (filter (\<lambda>p. P (fst p)) al) k = (if P k then map_of al k else None)"
  by (induction al) auto

lemma getenv_Nil [simp]: "getenv [] k = None"
  by (simp add: getenv_def List.map_filter_simps)

lemma getenv_append: "getenv (xs @ ys) k = (case getenv ys k of None \<Rightarrow> getenv xs k | Some v \<Rightarrow> Some v)"
proof -
  have "List.map_filter cut_eq (xs @ ys) = List.map_filter cut_eq xs @ List.map_filter cut_eq ys"
    by (induction xs) (auto simp: List.map_filter_simps split: option.splits)
  then show ?thesis by (simp add: getenv_def map_of_append map_add_def split: option.splits)
qed

lemma getenv_filter:
  assumes "\<And>e v. cut_eq e = Some (k, v) \<Longrightarrow> P e \<longleftrightarrow> p k" "\<And>e j v. cut_eq e = Some (j, v) \<Longrightarrow> P e \<longleftrightarrow> p j"
  shows "getenv (filter P env) k = (if p k then getenv env k else None)"
proof -
  have "List.map_filter cut_eq (filter P env) = filter (\<lambda>q. p (fst q)) (List.map_filter cut_eq env)"
    using assms(2) by (intro map_filter_filter) auto
  then show ?thesis by (simp add: getenv_def rev_filter map_of_filter_key)
qed

lemma getenv_strip: "getenv (stripControlPlaneEnv env) k = (if denied_key k then None else getenv env k)"
  using getenv_filter[of k "\<lambda>e. \<not> isControlPlaneEnv e" "\<lambda>k. \<not> denied_key k" env]
  by (simp add: stripControlPlaneEnv_def isControlPlaneEnv_def)

lemma getenv_allow: "getenv (FilterEnvToAllowlist env allow) k = (if k \<in> set allow then getenv env k else None)"
  using getenv_filter[of k "\<lambda>e. case cut_eq e of None \<Rightarrow> False | Some (k, _) \<Rightarrow> k \<in> set allow" "\<lambda>k. k \<in> set allow" env]
  by (simp add: FilterEnvToAllowlist_def)

lemma getenv_spawn:
  "getenv (FilterEnvForSpawn env opts) k = (if IsolationMode opts \<and> k \<notin> set (mergedAllowlist opts) then None else getenv env k)"
proof -
  have e: "[] \<notin> set (mergedAllowlist opts)" by (auto simp: mergedAllowlist_def DefaultEnvAllowlist_def)
  show ?thesis
    using e getenv_filter[of k "\<lambda>e. case cut_eq e of None \<Rightarrow> False | Some (k, _) \<Rightarrow> k \<noteq> [] \<and> k \<in> set (mergedAllowlist opts)"
        "\<lambda>k. k \<noteq> [] \<and> k \<in> set (mergedAllowlist opts)" env]
    by (auto simp: FilterEnvForSpawn_def)
qed

lemma getenv_None_key: "getenv env k = None \<longleftrightarrow> k \<notin> env_keys env"
proof -
  have "env_keys env = fst ` set (List.map_filter cut_eq env)"
    by (induction env) (auto simp: env_keys_def List.map_filter_simps split: option.splits)
  then show ?thesis by (simp add: getenv_def map_of_eq_None_iff)
qed

lemma getenv_merge: "getenv (MergeEnv base extra) k = (case getenv extra k of None \<Rightarrow> getenv base k | Some v \<Rightarrow> Some v)"
proof -
  have "getenv (filter (\<lambda>e. case cut_eq e of Some (k, _) \<Rightarrow> k \<notin> env_keys extra | None \<Rightarrow> True) base) k =
    (if k \<notin> env_keys extra then getenv base k else None)"
    by (rule getenv_filter) auto
  then show ?thesis using getenv_None_key[of extra k] by (cases "getenv extra k") (simp_all add: MergeEnv_def getenv_append)
qed

lemma getenv_build:
  "getenv (BuildAgentEnv base providerEnv sessionEnv) k =
     (if denied_key k then None
      else case getenv sessionEnv k of
             Some v \<Rightarrow> Some v
           | None \<Rightarrow> (case getenv providerEnv k of Some v \<Rightarrow> Some v | None \<Rightarrow> getenv base k))"
  by (simp add: BuildAgentEnv_def Let_def getenv_strip getenv_merge split: option.splits)



section \<open>The check before a start\<close>

datatype check_event = Check gotime gotime bool bool string | ResetCache

text \<open>\<^verbatim>\<open>ResetVerifyCache\<close> empties the cache.\<close>

fun check_step :: "check_event \<Rightarrow> verify_cache \<Rightarrow> verify_cache" where
  "check_step (Check now later canSudo escalates user) c = snd (VerifyRunAsUserCheap now later canSudo escalates user c)"
| "check_step ResetCache c = Map.empty"

definition cache_after :: "check_event list \<Rightarrow> verify_cache" where
  "cache_after es = fold check_step es Map.empty"

definition passed_at :: "check_event list \<Rightarrow> string \<Rightarrow> nat \<Rightarrow> gotime \<Rightarrow> bool" where
  "passed_at es user j later \<longleftrightarrow>
     j < length es \<and> (\<exists>now. es ! j = Check now later True False user \<and> \<not> fst (verifyCacheHit now user (cache_after (take j es)))) \<and>
     ResetCache \<notin> set (drop (Suc j) es)"

lemma passed_at_snoc: "passed_at es user j later \<Longrightarrow> e \<noteq> ResetCache \<Longrightarrow> passed_at (es @ [e]) user j later"
  by (auto simp: passed_at_def nth_append)

lemma cache_entry: "cache_after es user = Some t \<Longrightarrow> \<exists>j later. passed_at es user j later \<and> t = later + verifyCacheTTL"
proof (induction es arbitrary: t rule: rev_induct)
  case Nil
  then show ?case by (simp add: cache_after_def)
next
  case (snoc e es)
  have c: "cache_after (es @ [e]) = check_step e (cache_after es)" by (simp add: cache_after_def)
  show ?case
  proof (cases e)
    case ResetCache
    then show ?thesis using snoc.prems c by simp
  next
    case (Check now later canSudo escalates u)
    show ?thesis
    proof (cases "cache_after es user = Some t")
      case True
      then show ?thesis using snoc.IH passed_at_snoc[of es user _ _ e] Check by blast
    next
      case False
      then have "u = user" "\<not> fst (verifyCacheHit now user (cache_after es))" "canSudo" "\<not> escalates" "t = later + verifyCacheTTL"
        using snoc.prems unfolding Check c[unfolded Check]
        by (auto simp: VerifyRunAsUserCheap_def verifyCacheHit_def verifyCacheStore_def verifyCacheEvict_def Let_def
            split: if_splits option.splits)
      then have "passed_at (es @ [e]) user (length es) later" using Check by (simp add: passed_at_def)
      then show ?thesis using \<open>t = _\<close> by blast
    qed
  qed
qed

text \<open>
  After any checks and resets, an agent is started as another user only if this user was found unable to escalate by a check that ran both commands:
  the present one, or one at most thirty seconds ago since which the cache was not reset.
\<close>

theorem isolated_start_checked:
  assumes "RunAsUser (cs_spawnOpts s) = user" and "user \<noteq> []"
    and "fst (newClaudeSession systemPrompt environ now later canSudo escalates s (cache_after es)) = Inr (argv, env)"
  shows "(canSudo \<and> \<not> escalates \<or> (\<exists>j checked. passed_at es user j checked \<and> now \<le> checked + verifyCacheTTL)) \<and>
    take 4 argv = [''sudo'', ''-n'', ''-iu'', user] \<and> argv ! 5 = ''--''"
proof -
  have i: "IsolationMode (cs_spawnOpts s)" using assms(1,2) by (simp add: IsolationMode_def)
  have a: "argv = BuildSpawnCommand (cs_spawnOpts s) (cs_cliBin s) (claude_all_args systemPrompt s)"
    using assms(3) by (auto simp: newClaudeSession_def case_prod_beta split: option.splits)
  have "fst (VerifyRunAsUserCheap now later canSudo escalates user (cache_after es)) = None"
    using assms i by (auto simp: newClaudeSession_def case_prod_beta split: option.splits)
  then have "canSudo \<and> \<not> escalates \<or> (\<exists>t. cache_after es user = Some t \<and> now \<le> t)"
    using assms(2) by (auto simp: VerifyRunAsUserCheap_def verifyCacheHit_def Let_def split: option.splits if_splits)
  then show ?thesis using cache_entry[of es user] i a assms(1) by (auto simp: BuildSpawnCommand_def)
qed


section \<open>Quoting\<close>

text \<open>
  A reader of command lines: blanks separate the arguments, single quotes protect everything, a backslash outside of them the next character.
\<close>

fun split_line :: "bool \<Rightarrow> string option \<Rightarrow> string \<Rightarrow> string list" where
  "split_line q cur [] = (case cur of None \<Rightarrow> [] | Some w \<Rightarrow> [rev w])"
| "split_line True cur (c # cs) =
     (if c = CHR 0x27 then split_line False cur cs else split_line True (Some (c # (case cur of None \<Rightarrow> [] | Some w \<Rightarrow> w))) cs)"
| "split_line False cur (c # cs) =
     (if c = CHR 0x27 then split_line True (Some (case cur of None \<Rightarrow> [] | Some w \<Rightarrow> w)) cs
      else if c = CHR 0x5C then
        (case cs of [] \<Rightarrow> (case cur of None \<Rightarrow> [] | Some w \<Rightarrow> [rev w])
         | d # ds \<Rightarrow> split_line False (Some (d # (case cur of None \<Rightarrow> [] | Some w \<Rightarrow> w))) ds)
      else if c \<in> {CHR '' '', CHR 0x09, CHR 0x0A, CHR 0x0D} then (case cur of None \<Rightarrow> split_line False None cs | Some w \<Rightarrow> rev w # split_line False None cs)
      else split_line False (Some (c # (case cur of None \<Rightarrow> [] | Some w \<Rightarrow> w))) cs)"

lemma split_quoted: "split_line True (Some w) (concat (map quote_char a) @ CHR 0x27 # s) = split_line False (Some (rev a @ w)) s"
  by (induction a arbitrary: w) (simp_all add: quote_char_def)

lemma split_plain: "\<not> list_ex special_char a \<Longrightarrow> split_line False (Some w) (a @ s) = split_line False (Some (rev a @ w)) s"
  by (induction a arbitrary: w) (simp_all add: special_char_def)

lemma split_arg: "a \<noteq> [] \<Longrightarrow> split_line False None (quote_arg a @ s) = split_line False (Some (rev a)) s"
proof (cases "list_ex special_char a")
  case True
  then show ?thesis using split_quoted[of "[]" a s] by (simp add: quote_arg_def)
next
  case False
  assume "a \<noteq> []"
  then obtain c b where a: "a = c # b" by (cases a) auto
  show ?thesis using False split_plain[of b "[c]" s] by (simp add: a quote_arg_def special_char_def)
qed

text \<open>
  The arguments bundled for a wrapper are those it reads back, as long as none of them is empty; an empty one is written without quotes and lost.
\<close>

theorem shell_join_reads_back:
  assumes "[] \<notin> set args"
  shows "split_line False None (shellJoinArgs args) = args \<and> split_line False None (shellJoinArgs (args @ [[]])) = args"
proof -
  have main: "split_line False None (join_strings '' '' (map quote_arg xs) @ rest) = xs"
    if "[] \<notin> set xs" "rest = [] \<or> rest = '' ''" for xs rest
    using that(1)
  proof (induction xs)
    case Nil
    then show ?case using that(2) by auto
  next
    case (Cons a xs)
    show ?case
    proof (cases xs)
      case Nil
      then show ?thesis using Cons.prems split_arg[of a rest] that(2) by auto
    next
      case (Cons b ys)
      have "a \<noteq> []" using Cons.prems by auto
      from split_arg[OF this, of "CHR '' '' # (join_strings '' '' (map quote_arg xs) @ rest)"] show ?thesis
        using Cons.IH Cons.prems Cons by simp
    qed
  qed
  have first: "split_line False None (shellJoinArgs args) = args" using main[of args "[]"] assms by (simp add: shellJoinArgs_def)
  have "join_strings '' '' (xs @ [[]]) = (if xs = [] then [] else join_strings '' '' xs @ '' '')" for xs :: "string list"
  proof (induction xs)
    case (Cons a xs)
    then show ?case by (cases xs) auto
  qed simp
  then have "split_line False None (shellJoinArgs (args @ [[]])) = args"
    using main[of args "[]"] main[of args "'' ''"] assms by (auto simp: shellJoinArgs_def quote_arg_def)
  then show ?thesis using first by blast
qed


section \<open>Concrete runs\<close>

definition as_agent :: spawn_options where
  "as_agent = \<lparr>RunAsUser = ''agent'', EnvAllowlist = [''API_KEY'']\<rparr>"


definition start_agent :: claude_start where
  "start_agent = \<lparr>cs_cliBin = ''claude'', cs_cliExtraArgs = [], cs_cliArgsFlag = [], cs_model = [], cs_effort = [], cs_sessionID = [], cs_mode = [],
     cs_allowedTools = [], cs_disallowedTools = [], cs_extraEnv = [], cs_platformPrompt = [], cs_disableVerbose = True, cs_spawnOpts = as_agent,
     cs_maxContextTokens = 0\<rparr>"

theorem isolated_start_checked_witness:
  "\<exists>argv env. fst (newClaudeSession [] [] 20 20 False True start_agent (cache_after [Check 5 6 True False ''agent''])) = Inr (argv, env) \<and>
     take 4 argv = [''sudo'', ''-n'', ''-iu'', ''agent''] \<and> argv ! 5 = ''--''"
proof -
  obtain argv env where r: "fst (newClaudeSession [] [] 20 20 False True start_agent (cache_after [Check 5 6 True False ''agent''])) = Inr (argv, env)"
    by (simp add: newClaudeSession_def start_agent_def as_agent_def IsolationMode_def cache_after_def VerifyRunAsUserCheap_def verifyCacheHit_def
        verifyCacheStore_def verifyCacheTTL_def)
  show ?thesis using isolated_start_checked[OF _ _ r, of "''agent''"] r by (simp add: start_agent_def as_agent_def)
qed

theorem shell_join_reads_back_witness: "split_line False None (shellJoinArgs [''--prompt'', ''two words'']) = [''--prompt'', ''two words'']"
  using shell_join_reads_back[of "[''--prompt'', ''two words'']"] by simp

end
