(* ===== verification/Direct_Server.thy ===== *)
theory Direct_Server
  imports Device_Directory Broadcaster Reconcile
begin

text \<open>
  The direct connections of the bridge (\<^verbatim>\<open>go-bridge/server.go\<close>, \<^verbatim>\<open>relay_connection.go\<close>): a request is authenticated, upgraded to a
  socket and entered into three tables, the active connections, the broadcaster and the registry of devices, one after the other, and then
  its cleanup is installed; whoever closes it runs the cleanup. A step is one critical section of one goroutine. A connection is its index.
\<close>

section \<open>Connections\<close>

text \<open>Where \<^verbatim>\<open>ServeHTTP\<close> stands.\<close>

datatype stage = Admitted | Upgraded | Activated | Announced | Entered | Serving | Leaving | Gone

fun stage_rank :: "stage \<Rightarrow> nat" where
  "stage_rank Admitted = 0" | "stage_rank Upgraded = 1" | "stage_rank Activated = 2" | "stage_rank Announced = 3"
| "stage_rank Entered = 4" | "stage_rank Serving = 5" | "stage_rank Leaving = 6" | "stage_rank Gone = 7"

text \<open>
  \<open>cn_cleaning\<close> counts the tables a taken cleanup still has to leave.
\<close>

record direct_conn =
  cn_device :: "string option"
  cn_stage :: stage
  cn_closed :: bool
  cn_socket :: bool
  cn_writeErrors :: nat
  cn_onCleanup :: bool
  cn_cleaning :: nat
  cn_lastPong :: gotime

record direct_server =
  dx_auth :: bool
  dx_store :: FileDeviceStore
  dx_conns :: "direct_conn list"
  dx_active :: "nat set"
  dx_broadcaster :: Broadcaster
  dx_registry :: DeviceConnRegistry

definition bridgeReadTimeout :: duration where
  "bridgeReadTimeout = 90000000000"

definition new_conn :: "string option \<Rightarrow> direct_conn" where
  "new_conn dev = \<lparr>cn_device = dev, cn_stage = Admitted, cn_closed = False, cn_socket = False, cn_writeErrors = 0, cn_onCleanup = False,
     cn_cleaning = 0, cn_lastPong = 0\<rparr>"

text \<open>Setting \<open>closed\<close> and taking the cleanup: the locked part of \<^verbatim>\<open>CloseWithControl\<close>.\<close>

definition take_cleanup :: "direct_conn \<Rightarrow> direct_conn" where
  "take_cleanup c = c\<lparr>cn_closed := True, cn_onCleanup := False, cn_cleaning := (if cn_onCleanup c then 3 else 0)\<rparr>"

definition conn_CloseWithControl :: "direct_conn \<Rightarrow> direct_conn" where
  "conn_CloseWithControl c = (if cn_closed c then c else take_cleanup c)"

text \<open>\<^verbatim>\<open>SendJSON\<close>; the fifth failure in a row closes the connection under the same lock.\<close>

definition conn_SendJSON :: "bool \<Rightarrow> direct_conn \<Rightarrow> bool \<times> direct_conn" where
  "conn_SendJSON written c =
     (if cn_closed c then (False, c)
      else if written then (True, c\<lparr>cn_writeErrors := 0\<rparr>)
      else let c = c\<lparr>cn_writeErrors := cn_writeErrors c + 1\<rparr>
        in (False, if cn_writeErrors c \<ge> 5 then (take_cleanup c)\<lparr>cn_socket := False\<rparr> else c))"


section \<open>The server\<close>

definition NewServer_direct :: "bool \<Rightarrow> FileDeviceStore \<Rightarrow> direct_server" where
  "NewServer_direct auth store =
     \<lparr>dx_auth = auth, dx_store = store, dx_conns = [], dx_active = {}, dx_broadcaster = NewBroadcaster, dx_registry = (\<lambda>_. [])\<rparr>"

definition ActiveConnectionCount :: "direct_server \<Rightarrow> nat" where
  "ActiveConnectionCount s = card (dx_active s)"

definition change_conn :: "nat \<Rightarrow> (direct_conn \<Rightarrow> direct_conn) \<Rightarrow> direct_server \<Rightarrow> direct_server" where
  "change_conn i f s = s\<lparr>dx_conns := (dx_conns s)[i := f (dx_conns s ! i)]\<rparr>"

definition enter :: "nat \<Rightarrow> stage \<Rightarrow> direct_server \<Rightarrow> direct_server" where
  "enter i st s = change_conn i (\<lambda>c. c\<lparr>cn_stage := st\<rparr>) s"

text \<open>The beginning of \<^verbatim>\<open>ServeHTTP\<close>; without the middleware everybody is let in, as no device.\<close>

definition admit :: "(bytes \<Rightarrow> bytes) \<Rightarrow> auth_request \<Rightarrow> direct_server \<Rightarrow> auth_error option \<times> direct_server" where
  "admit sha256 r s =
     (if \<not> dx_auth s then (None, s\<lparr>dx_conns := dx_conns s @ [new_conn None]\<rparr>)
      else case AuthenticateRequest sha256 (fs_mem (dx_store s)) r of
             Inl e \<Rightarrow> (Some e, s)
           | Inr rec \<Rightarrow> (None, s\<lparr>dx_conns := dx_conns s @ [new_conn (Some (td_DeviceID rec))]\<rparr>))"

text \<open>The cleanup leaves the broadcaster, the registry of devices and the active connections.\<close>

definition leave_table :: "nat \<Rightarrow> direct_server \<Rightarrow> direct_server" where
  "leave_table i s =
     (let c = dx_conns s ! i; s' = change_conn i (\<lambda>c. c\<lparr>cn_cleaning := cn_cleaning c - 1\<rparr>) s
      in if cn_cleaning c = 3 then s'\<lparr>dx_broadcaster := UnsubscribeAll i (dx_broadcaster s)\<rparr>
         else if cn_cleaning c = 2 then
           (case cn_device c of None \<Rightarrow> s' | Some d \<Rightarrow> s'\<lparr>dx_registry := registry_Unregister d (Some i) (dx_registry s)\<rparr>)
         else s'\<lparr>dx_active := dx_active s - {i}\<rparr>)"

datatype inbound = MRegister | MHello | MRequest bytes | MPing | MOther

datatype direct_op =
    XRequest auth_request
  | XUpgrade nat bool gotime
  | XAdvance nat
  | XSend nat bool
  | XClose nat
  | XShut nat
  | XLeave nat
  | XMessage nat inbound
  | XSubscribe nat SubscriptionKey
  | XReadFails nat
  | XPong nat gotime
  | XPingTick nat gotime
  | XStore faults directory_op
  | XDisconnect string

text \<open>
  The next entry of the handler: active connections, broadcaster, registry of devices, cleanup.
\<close>

definition advance :: "nat \<Rightarrow> direct_server \<Rightarrow> direct_server" where
  "advance i s =
     (let c = dx_conns s ! i
      in case cn_stage c of
           Upgraded \<Rightarrow> (enter i Activated s)\<lparr>dx_active := insert i (dx_active s)\<rparr>
         | Activated \<Rightarrow> (enter i Announced s)\<lparr>dx_broadcaster := RegisterConn i (dx_broadcaster s)\<rparr>
         | Announced \<Rightarrow>
             (case cn_device c of
                None \<Rightarrow> enter i Entered s
              | Some d \<Rightarrow> (enter i Entered s)\<lparr>dx_registry := registry_Register d (Some i) (dx_registry s)\<rparr>)
         | Entered \<Rightarrow> change_conn i (\<lambda>c. c\<lparr>cn_stage := Serving, cn_onCleanup := True\<rparr>) s
         | Leaving \<Rightarrow> change_conn i (\<lambda>c. (conn_CloseWithControl c)\<lparr>cn_stage := Gone\<rparr>) s
         | _ \<Rightarrow> s)"

definition ping_tick :: "gotime \<Rightarrow> direct_conn \<Rightarrow> direct_conn" where
  "ping_tick now c = (if \<not> cn_closed c \<and> time_sub now (cn_lastPong c) > bridgeReadTimeout then conn_CloseWithControl c else c)"

text \<open>
  One step; the output is the request handed to the handlers. A connection is known to the other goroutines once it is in a table; a step
  that is not possible changes nothing.
\<close>

fun direct_step :: "(bytes \<Rightarrow> bytes) \<Rightarrow> direct_op \<Rightarrow> direct_server \<Rightarrow> (nat \<times> bytes) list \<times> direct_server" where
  "direct_step sha256 (XRequest r) s = ([], snd (admit sha256 r s))"
| "direct_step sha256 (XUpgrade i ok now) s =
     ([], if i < length (dx_conns s) \<and> cn_stage (dx_conns s ! i) = Admitted
          then change_conn i (\<lambda>c. if ok then c\<lparr>cn_stage := Upgraded, cn_socket := True, cn_lastPong := now\<rparr> else c\<lparr>cn_stage := Gone, cn_closed := True\<rparr>) s
          else s)"
| "direct_step sha256 (XAdvance i) s = ([], if i < length (dx_conns s) then advance i s else s)"
| "direct_step sha256 (XSend i written) s =
     ([], if i < length (dx_conns s) \<and> stage_rank (cn_stage (dx_conns s ! i)) \<ge> 3 then change_conn i (\<lambda>c. snd (conn_SendJSON written c)) s else s)"
| "direct_step sha256 (XClose i) s =
     ([], if i < length (dx_conns s) \<and> stage_rank (cn_stage (dx_conns s ! i)) \<ge> 2 then change_conn i conn_CloseWithControl s else s)"
| "direct_step sha256 (XShut i) s =
     ([], if i < length (dx_conns s) \<and> cn_closed (dx_conns s ! i) then change_conn i (\<lambda>c. c\<lparr>cn_socket := False\<rparr>) s else s)"
| "direct_step sha256 (XLeave i) s =
     ([], if i < length (dx_conns s) \<and> cn_cleaning (dx_conns s ! i) > 0 \<and> \<not> cn_socket (dx_conns s ! i) then leave_table i s else s)"
| "direct_step sha256 (XMessage i m) s =
     (if i < length (dx_conns s) \<and> cn_stage (dx_conns s ! i) = Serving \<and> cn_socket (dx_conns s ! i)
      then (case m of MRequest b \<Rightarrow> [(i, b)] | _ \<Rightarrow> [], s) else ([], s))"
| "direct_step sha256 (XSubscribe i key) s =
     ([], if i < length (dx_conns s) \<and> cn_stage (dx_conns s ! i) = Serving then s\<lparr>dx_broadcaster := Subscribe i key (dx_broadcaster s)\<rparr> else s)"
| "direct_step sha256 (XReadFails i) s =
     ([], if i < length (dx_conns s) \<and> cn_stage (dx_conns s ! i) = Serving then enter i Leaving s else s)"
| "direct_step sha256 (XPong i now) s =
     ([], if i < length (dx_conns s) \<and> cn_stage (dx_conns s ! i) = Serving then change_conn i (\<lambda>c. c\<lparr>cn_lastPong := now\<rparr>) s else s)"
| "direct_step sha256 (XPingTick i now) s =
     ([], if i < length (dx_conns s) \<and> cn_stage (dx_conns s ! i) = Serving then change_conn i (ping_tick now) s else s)"
| "direct_step sha256 (XStore f op) s = ([], s\<lparr>dx_store := snd (file_step f op (dx_store s))\<rparr>)"
| "direct_step sha256 (XDisconnect d) s = ([], s\<lparr>dx_registry := snd (registry_DisconnectDevice d (dx_registry s))\<rparr>)"

fun direct_run :: "(bytes \<Rightarrow> bytes) \<Rightarrow> direct_op list \<Rightarrow> direct_server \<Rightarrow> (nat \<times> bytes) list \<times> direct_server" where
  "direct_run sha256 [] s = ([], s)"
| "direct_run sha256 (op # ops) s =
     (let (a, s) = direct_step sha256 op s; (b, s) = direct_run sha256 ops s in (a @ b, s))"

text \<open>
  \<^verbatim>\<open>DisconnectDevice\<close> and \<^verbatim>\<open>CloseAllConnections\<close> as sequences of steps: the message, then the close of each connection that was in the table.
\<close>

definition close_conn :: "nat \<Rightarrow> direct_op list" where
  "close_conn i = [XClose i, XShut i]"

definition disconnect_ops :: "(nat \<Rightarrow> bool) \<Rightarrow> string \<Rightarrow> direct_server \<Rightarrow> direct_op list" where
  "disconnect_ops written d s = XDisconnect d # concat (map (\<lambda>i. XSend i (written i) # close_conn i) (dx_registry s d))"


section \<open>The tables\<close>

text \<open>A connection is in the tables from its entry until its cleanup has come to them; \<open>k\<close> is what the cleanup's count is before.\<close>

definition kept_until :: "nat \<Rightarrow> direct_conn \<Rightarrow> bool" where
  "kept_until k c \<longleftrightarrow> stage_rank (cn_stage c) < 5 \<or> cn_onCleanup c \<or> cn_cleaning c \<ge> k"

definition conn_ok :: "direct_conn \<Rightarrow> bool" where
  "conn_ok c \<longleftrightarrow> (stage_rank (cn_stage c) < 5 \<longrightarrow> \<not> cn_onCleanup c \<and> cn_cleaning c = 0) \<and> (stage_rank (cn_stage c) < 2 \<longrightarrow> \<not> cn_closed c)
     \<and> cn_cleaning c \<le> 3 \<and> (cn_cleaning c > 0 \<longrightarrow> cn_closed c \<and> \<not> cn_onCleanup c) \<and> (stage_rank (cn_stage c) \<ge> 5 \<and> \<not> cn_closed c \<longrightarrow> cn_onCleanup c)"

definition at_conn :: "direct_server \<Rightarrow> nat \<Rightarrow> direct_conn" where
  "at_conn s i = (if i < length (dx_conns s) then dx_conns s ! i else new_conn None)"

definition in_active :: "direct_conn \<Rightarrow> bool" where
  "in_active c \<longleftrightarrow> stage_rank (cn_stage c) \<ge> 2 \<and> kept_until 1 c"

definition in_registry :: "string \<Rightarrow> direct_conn \<Rightarrow> bool" where
  "in_registry d c \<longleftrightarrow> d \<noteq> [] \<and> cn_device c = Some d \<and> stage_rank (cn_stage c) \<ge> 4 \<and> kept_until 2 c"

definition tables_ok :: "direct_server \<Rightarrow> bool" where
  "tables_ok s \<longleftrightarrow> (\<forall>i. conn_ok (at_conn s i)) \<and> dx_active s = {i. in_active (at_conn s i)}
     \<and> (\<forall>d i. i \<in> set (dx_registry s d) \<longrightarrow> in_registry d (at_conn s i)) \<and> (\<forall>d. distinct (dx_registry s d))"

lemma at_change: "i < length (dx_conns s) \<Longrightarrow> at_conn (change_conn i f s) j = (if j = i then f (at_conn s i) else at_conn s j)"
  by (auto simp: at_conn_def change_conn_def)

lemma at_conn_in: "i < length (dx_conns s) \<Longrightarrow> dx_conns s ! i = at_conn s i"
  by (simp add: at_conn_def)

lemma change_conn_fields [simp]:
  "dx_active (change_conn i f s) = dx_active s" "dx_registry (change_conn i f s) = dx_registry s" "dx_store (change_conn i f s) = dx_store s"
  "length (dx_conns (change_conn i f s)) = length (dx_conns s)" "dx_broadcaster (change_conn i f s) = dx_broadcaster s" "dx_auth (change_conn i f s) = dx_auth s"
  by (simp_all add: change_conn_def)

lemma at_conn_updates [simp]:
  "at_conn (s\<lparr>dx_active := a\<rparr>) = at_conn s" "at_conn (s\<lparr>dx_registry := r\<rparr>) = at_conn s" "at_conn (s\<lparr>dx_broadcaster := b\<rparr>) = at_conn s"
  "at_conn (s\<lparr>dx_store := t\<rparr>) = at_conn s"
  by (simp_all add: at_conn_def fun_eq_iff)

text \<open>A change of one connection that leaves its membership alone.\<close>

lemma tables_ok_change:
  assumes "tables_ok s" "i < length (dx_conns s)" "conn_ok (f (at_conn s i))" "in_active (f (at_conn s i)) \<longleftrightarrow> in_active (at_conn s i)"
    "\<And>d. in_registry d (at_conn s i) \<Longrightarrow> in_registry d (f (at_conn s i))"
  shows "tables_ok (change_conn i f s)"
  using assms unfolding tables_ok_def by (auto simp: at_change)

lemma tables_ok_active:
  assumes "tables_ok s" "i < length (dx_conns s)" "conn_ok (f (at_conn s i))" "\<And>d. in_registry d (at_conn s i) \<Longrightarrow> in_registry d (f (at_conn s i))"
  shows "tables_ok (change_conn i f s\<lparr>dx_active := (if in_active (f (at_conn s i)) then insert i (dx_active s) else dx_active s - {i})\<rparr>)"
  using assms unfolding tables_ok_def by (auto simp: at_change)

lemma stage_rank_cases: "stage_rank st < 2 \<longleftrightarrow> st = Admitted \<or> st = Upgraded"
  by (cases st) auto

lemmas conn_defs = conn_ok_def in_active_def in_registry_def kept_until_def

lemma close_keeps:
  assumes "conn_ok c" "stage_rank (cn_stage c) \<ge> 2"
  shows "conn_ok (conn_CloseWithControl c)" "in_active (conn_CloseWithControl c) \<longleftrightarrow> in_active c" "in_registry d c \<Longrightarrow> in_registry d (conn_CloseWithControl c)"
  using assms by (auto simp: conn_defs conn_CloseWithControl_def take_cleanup_def)

lemma send_keeps:
  assumes "conn_ok c" "stage_rank (cn_stage c) \<ge> 2"
  shows "conn_ok (snd (conn_SendJSON w c))" "in_active (snd (conn_SendJSON w c)) \<longleftrightarrow> in_active c"
    "in_registry d c \<Longrightarrow> in_registry d (snd (conn_SendJSON w c))"
  using assms by (auto simp: conn_defs conn_SendJSON_def take_cleanup_def Let_def)

lemma tables_ok_admit: "tables_ok s \<Longrightarrow> tables_ok (snd (admit sha256 r s))"
proof -
  have "tables_ok (s\<lparr>dx_conns := dx_conns s @ [new_conn dev]\<rparr>)" if t: "tables_ok s" for dev
  proof -
    have at: "at_conn (s\<lparr>dx_conns := dx_conns s @ [new_conn dev]\<rparr>) j = (if j = length (dx_conns s) then new_conn dev else at_conn s j)" for j
      by (auto simp: at_conn_def nth_append)
    have "at_conn s (length (dx_conns s)) = new_conn None" by (simp add: at_conn_def)
    moreover have new: "conn_ok (new_conn dev)" "\<not> in_active (new_conn e)" "\<not> in_registry d (new_conn e)" for d e by (simp_all add: conn_defs new_conn_def)
    ultimately have "length (dx_conns s) \<notin> set (dx_registry s d)" for d using t unfolding tables_ok_def by metis
    then show ?thesis using t new \<open>at_conn s _ = _\<close> unfolding tables_ok_def at by auto
  qed
  then show "tables_ok s \<Longrightarrow> ?thesis" by (auto simp: admit_def split: sum.splits)
qed

lemma registry_Register_mem: "j \<in> set (registry_Register d (Some i) r e) \<longleftrightarrow> j \<in> set (r e) \<or> (e = d \<and> j = i \<and> d \<noteq> [])"
  by (auto simp: registry_Register_def)

lemma tables_ok_advance:
  assumes t: "tables_ok s" and i: "i < length (dx_conns s)"
  shows "tables_ok (advance i s)"
proof -
  have ok: "conn_ok (at_conn s i)" and here: "dx_conns s ! i = at_conn s i" using t i by (simp_all add: tables_ok_def at_conn_in)
  show ?thesis
  proof (cases "cn_stage (at_conn s i)")
    case Upgraded
    have "tables_ok (change_conn i (\<lambda>c. c\<lparr>cn_stage := Activated\<rparr>) s\<lparr>dx_active := insert i (dx_active s)\<rparr>)"
      using tables_ok_active[OF t i, of "\<lambda>c. c\<lparr>cn_stage := Activated\<rparr>"] ok Upgraded by (auto simp: conn_defs)
    then show ?thesis using Upgraded by (simp add: advance_def here enter_def)
  next
    case Activated
    have "tables_ok (change_conn i (\<lambda>c. c\<lparr>cn_stage := Announced\<rparr>) s)"
      using ok Activated by (intro tables_ok_change[OF t i]) (auto simp: conn_defs)
    then show ?thesis using Activated by (simp add: advance_def here enter_def tables_ok_def)
  next
    case Announced
    have c: "tables_ok (change_conn i (\<lambda>c. c\<lparr>cn_stage := Entered\<rparr>) s)"
      using ok Announced by (intro tables_ok_change[OF t i]) (auto simp: conn_defs)
    show ?thesis
    proof (cases "cn_device (at_conn s i)")
      case None
      then show ?thesis using Announced c by (simp add: advance_def here enter_def)
    next
      case (Some d)
      have "i \<notin> set (dx_registry s e)" for e
      proof
        assume "i \<in> set (dx_registry s e)"
        then have "in_registry e (at_conn s i)" using t unfolding tables_ok_def by blast
        then show False using Announced by (simp add: in_registry_def)
      qed
      then have "tables_ok (change_conn i (\<lambda>c. c\<lparr>cn_stage := Entered\<rparr>) s\<lparr>dx_registry := registry_Register d (Some i) (dx_registry s)\<rparr>)"
        using c Some i unfolding tables_ok_def
        by (auto simp: registry_Register_mem at_change in_registry_def kept_until_def) (auto simp: registry_Register_def)
      then show ?thesis using Announced Some by (simp add: advance_def here enter_def)
    qed
  next
    case Entered
    have "tables_ok (change_conn i (\<lambda>c. c\<lparr>cn_stage := Serving, cn_onCleanup := True\<rparr>) s)"
      using ok Entered by (intro tables_ok_change[OF t i]) (auto simp: conn_defs)
    then show ?thesis using Entered by (simp add: advance_def here)
  next
    case Leaving
    have r: "stage_rank (cn_stage (at_conn s i)) \<ge> 2" using Leaving by simp
    have "tables_ok (change_conn i (\<lambda>c. (conn_CloseWithControl c)\<lparr>cn_stage := Gone\<rparr>) s)"
      using ok Leaving
      by (intro tables_ok_change[OF t i]; cases "cn_closed (at_conn s i)") (auto simp: conn_defs conn_CloseWithControl_def take_cleanup_def)
    then show ?thesis using Leaving by (simp add: advance_def here)
  qed (use t here in \<open>simp_all add: advance_def\<close>)
qed

lemma tables_ok_leave:
  assumes "tables_ok s" "i < length (dx_conns s)" "cn_cleaning (at_conn s i) > 0"
  shows "tables_ok (leave_table i s)"
proof -
  define f :: "direct_conn \<Rightarrow> direct_conn" where "f = (\<lambda>c. c\<lparr>cn_cleaning := cn_cleaning c - 1\<rparr>)"
  have here: "dx_conns s ! i = at_conn s i" using assms(2) by (rule at_conn_in)
  have ok: "conn_ok (at_conn s i)" using assms(1) by (simp add: tables_ok_def)
  then have k: "conn_ok (f (at_conn s i))" "cn_cleaning (at_conn s i) \<le> 3" "stage_rank (cn_stage (at_conn s i)) \<ge> 5" "\<not> cn_onCleanup (at_conn s i)"
    using assms(3) by (auto simp: conn_ok_def f_def)
  consider "cn_cleaning (at_conn s i) = 3" | "cn_cleaning (at_conn s i) = 2" | "cn_cleaning (at_conn s i) = 1" using k(2) assms(3) by linarith
  then show ?thesis
  proof cases
    case 1
    have "tables_ok (change_conn i f s)"
      using k 1 by (intro tables_ok_change[OF assms(1,2)]) (auto simp: in_active_def in_registry_def kept_until_def f_def)
    then show ?thesis using 1 by (simp add: leave_table_def here tables_ok_def Let_def f_def)
  next
    case 2
    have at: "at_conn (change_conn i f s) j = (if j = i then f (at_conn s i) else at_conn s j)" for j by (rule at_change[OF assms(2)])
    have a: "in_active (f (at_conn s i)) \<longleftrightarrow> in_active (at_conn s i)" using k 2 by (auto simp: in_active_def kept_until_def f_def)
    define r where "r = (case cn_device (at_conn s i) of None \<Rightarrow> dx_registry s | Some d \<Rightarrow> registry_Unregister d (Some i) (dx_registry s))"
    have keep: "j \<in> set (r e) \<Longrightarrow> j \<in> set (dx_registry s e)" "distinct (r e)" for j e
      using assms(1) by (auto simp: r_def registry_Unregister_def tables_ok_def dest: notin_set_remove1 split: option.splits if_splits)
    have gone: "i \<notin> set (r e)" for e
    proof
      assume "i \<in> set (r e)"
      moreover from keep(1)[OF this] have "cn_device (at_conn s i) = Some e" "e \<noteq> []" using assms(1) by (auto simp: tables_ok_def in_registry_def)
      ultimately show False
        using assms(1) keep(1)[OF \<open>i \<in> set (r e)\<close>] by (auto simp: r_def registry_Unregister_def tables_ok_def split: if_splits)
    qed
    have "tables_ok (change_conn i f s\<lparr>dx_registry := r\<rparr>)"
      using assms(1) k(1) a keep gone unfolding tables_ok_def by (auto simp: at)
    then show ?thesis using 2 by (auto simp: leave_table_def here Let_def r_def tables_ok_def f_def split: option.splits)
  next
    case 3
    have "tables_ok (change_conn i f s\<lparr>dx_active := (if in_active (f (at_conn s i)) then insert i (dx_active s) else dx_active s - {i})\<rparr>)"
      using k 3 by (intro tables_ok_active[OF assms(1,2)]) (auto simp: in_registry_def kept_until_def f_def)
    moreover have "\<not> in_active (f (at_conn s i))" using k 3 by (auto simp: in_active_def kept_until_def f_def)
    ultimately show ?thesis using 3 by (simp add: leave_table_def here Let_def f_def)
  qed
qed


lemma tables_ok_step: "tables_ok s \<Longrightarrow> tables_ok (snd (direct_step sha256 op s))"
proof -
  assume t: "tables_ok s"
  have ok: "conn_ok (at_conn s i)" for i using t by (simp add: tables_ok_def)
  have same: "tables_ok (change_conn i f s)"
    if "i < length (dx_conns s)" "\<And>c. cn_stage (f c) = cn_stage c \<and> cn_closed (f c) = cn_closed c \<and> cn_onCleanup (f c) = cn_onCleanup c
         \<and> cn_cleaning (f c) = cn_cleaning c \<and> cn_device (f c) = cn_device c" for i f
    using that ok[of i] by (intro tables_ok_change[OF t]) (simp_all add: conn_defs)
  show ?thesis
  proof (cases op)
    case (XRequest r)
    then show ?thesis using tables_ok_admit[OF t] by simp
  next
    case (XUpgrade i good now)
    show ?thesis
    proof (cases "i < length (dx_conns s) \<and> cn_stage (at_conn s i) = Admitted")
      case True
      then have "tables_ok (change_conn i (\<lambda>c. if good then c\<lparr>cn_stage := Upgraded, cn_socket := True, cn_lastPong := now\<rparr> else c\<lparr>cn_stage := Gone, cn_closed := True\<rparr>) s)"
        using ok[of i] by (intro tables_ok_change[OF t]) (auto simp: conn_defs)
      then show ?thesis using True XUpgrade by (simp add: at_conn_in)
    next
      case False
      then show ?thesis using t XUpgrade by (auto simp: at_conn_in)
    qed
  next
    case (XAdvance i)
    then show ?thesis using t tables_ok_advance[OF t] by simp
  next
    case (XSend i w)
    show ?thesis
    proof (cases "i < length (dx_conns s) \<and> stage_rank (cn_stage (at_conn s i)) \<ge> 3")
      case True
      then have "tables_ok (change_conn i (\<lambda>c. snd (conn_SendJSON w c)) s)"
        using send_keeps[OF ok[of i]] by (intro tables_ok_change[OF t]) auto
      then show ?thesis using True XSend by (simp add: at_conn_in)
    next
      case False
      then show ?thesis using t XSend by (auto simp: at_conn_in)
    qed
  next
    case (XClose i)
    show ?thesis
    proof (cases "i < length (dx_conns s) \<and> stage_rank (cn_stage (at_conn s i)) \<ge> 2")
      case True
      then have "tables_ok (change_conn i conn_CloseWithControl s)"
        using close_keeps[OF ok[of i]] by (intro tables_ok_change[OF t]) auto
      then show ?thesis using True XClose by (simp add: at_conn_in)
    next
      case False
      then show ?thesis using t XClose by (auto simp: at_conn_in)
    qed
  next
    case (XShut i)
    then show ?thesis using t same[of i "\<lambda>c. c\<lparr>cn_socket := False\<rparr>"] by simp
  next
    case (XLeave i)
    then show ?thesis using t tables_ok_leave[OF t, of i] by (auto simp: at_conn_in)
  next
    case (XMessage i m)
    then show ?thesis using t by simp
  next
    case (XSubscribe i key)
    then show ?thesis using t by (simp add: tables_ok_def)
  next
    case (XReadFails i)
    show ?thesis
    proof (cases "i < length (dx_conns s) \<and> cn_stage (at_conn s i) = Serving")
      case True
      then have "tables_ok (change_conn i (\<lambda>c. c\<lparr>cn_stage := Leaving\<rparr>) s)"
        using ok[of i] by (intro tables_ok_change[OF t]) (auto simp: conn_defs)
      then show ?thesis using True XReadFails by (simp add: at_conn_in enter_def)
    next
      case False
      then show ?thesis using t XReadFails by (auto simp: at_conn_in)
    qed
  next
    case (XPong i now)
    then show ?thesis using t same[of i "\<lambda>c. c\<lparr>cn_lastPong := now\<rparr>"] by simp
  next
    case (XPingTick i now)
    show ?thesis
    proof (cases "i < length (dx_conns s) \<and> cn_stage (at_conn s i) = Serving")
      case True
      then have "tables_ok (change_conn i (ping_tick now) s)"
        using ok[of i] close_keeps[OF ok[of i]] by (intro tables_ok_change[OF t]) (auto simp: ping_tick_def)
      then show ?thesis using True XPingTick by (simp add: at_conn_in)
    next
      case False
      then show ?thesis using t XPingTick by (auto simp: at_conn_in)
    qed
  next
    case (XStore f op)
    then show ?thesis using t by (simp add: tables_ok_def)
  next
    case (XDisconnect d)
    then show ?thesis using t by (auto simp: tables_ok_def registry_DisconnectDevice_def)
  qed
qed

lemma direct_run_append:
  "direct_run sha256 (xs @ ys) s =
     (let (a, s) = direct_run sha256 xs s; (b, s) = direct_run sha256 ys s in (a @ b, s))"
  by (induction xs arbitrary: s) (simp_all add: case_prod_beta Let_def)

lemma tables_ok_run: "tables_ok s \<Longrightarrow> tables_ok (snd (direct_run sha256 ops s))"
  by (induction ops arbitrary: s) (simp_all add: case_prod_beta Let_def tables_ok_step)

lemma tables_ok_new: "tables_ok (NewServer_direct auth store)"
  by (simp add: tables_ok_def NewServer_direct_def at_conn_def conn_defs new_conn_def)

lemmas reached_tables = tables_ok_run[OF tables_ok_new]


text \<open>
  C13. After any interleaving of handlers, closers and cleanups, a connection counts as active from its entry until its cleanup has come to the
  last table; one that was closed while it was served and whose cleanup is done is neither active nor in the registry of its device. A live one that
  is being served is active, and has its cleanup.
\<close>

theorem direct_tables_exact:
  assumes "snd (direct_run sha256 ops (NewServer_direct auth store)) = s" and "i < length (dx_conns s)" and "dx_conns s ! i = c"
  shows "(i \<in> dx_active s \<longleftrightarrow> stage_rank (cn_stage c) \<ge> 2 \<and> (stage_rank (cn_stage c) < 5 \<or> cn_onCleanup c \<or> cn_cleaning c > 0)) \<and>
    (\<forall>d. i \<in> set (dx_registry s d) \<longrightarrow> cn_device c = Some d) \<and>
    (stage_rank (cn_stage c) \<ge> 5 \<and> \<not> cn_closed c \<longrightarrow> i \<in> dx_active s \<and> cn_onCleanup c) \<and>
    (stage_rank (cn_stage c) \<ge> 5 \<and> cn_closed c \<and> \<not> cn_onCleanup c \<and> cn_cleaning c = 0 \<longrightarrow>
       i \<notin> dx_active s \<and> (\<forall>d. i \<notin> set (dx_registry s d)))"
proof -
  have t: "tables_ok s" using reached_tables[of sha256 ops auth store] assms(1) by simp
  have c: "at_conn s i = c" using assms(2,3) by (simp add: at_conn_def)
  have ok: "conn_ok c" and a: "i \<in> dx_active s \<longleftrightarrow> in_active c" and r: "i \<in> set (dx_registry s d) \<Longrightarrow> in_registry d c" for d
    using t c unfolding tables_ok_def by blast+
  show ?thesis
  proof (intro conjI allI impI)
    show "i \<in> dx_active s \<longleftrightarrow> stage_rank (cn_stage c) \<ge> 2 \<and> (stage_rank (cn_stage c) < 5 \<or> cn_onCleanup c \<or> cn_cleaning c > 0)"
      using a by (simp add: in_active_def kept_until_def Suc_le_eq)
    show "i \<in> set (dx_registry s d) \<Longrightarrow> cn_device c = Some d" for d using r by (simp add: in_registry_def)
    show "stage_rank (cn_stage c) \<ge> 5 \<and> \<not> cn_closed c \<Longrightarrow> i \<in> dx_active s" "stage_rank (cn_stage c) \<ge> 5 \<and> \<not> cn_closed c \<Longrightarrow> cn_onCleanup c"
      using a ok by (auto simp: in_active_def kept_until_def conn_ok_def)
    assume "stage_rank (cn_stage c) \<ge> 5 \<and> cn_closed c \<and> \<not> cn_onCleanup c \<and> cn_cleaning c = 0"
    then show "i \<notin> dx_active s" "i \<notin> set (dx_registry s d)" for d
      using a r[of d] by (auto simp: in_active_def in_registry_def kept_until_def)
  qed
qed


section \<open>Closed before the cleanup is there\<close>

definition leaked :: "direct_conn \<Rightarrow> bool" where
  "leaked c \<longleftrightarrow> cn_closed c \<and> stage_rank (cn_stage c) \<ge> 2 \<and> cn_cleaning c = 0 \<and> (stage_rank (cn_stage c) < 5 \<or> cn_onCleanup c)"

lemma at_append: "i < length (dx_conns s) \<Longrightarrow> at_conn (s\<lparr>dx_conns := dx_conns s @ cs\<rparr>) i = at_conn s i"
  by (simp add: at_conn_def nth_append)

lemma leaked_step:
  assumes "i < length (dx_conns s)" "leaked (at_conn s i)"
  shows "i < length (dx_conns (snd (direct_step sha256 op s))) \<and> leaked (at_conn (snd (direct_step sha256 op s)) i)"
proof -
  have there: "dx_conns s ! i = at_conn s i" using assms(1) by (rule at_conn_in)
  have keep: "i < length (dx_conns (change_conn j f s)) \<and> leaked (at_conn (change_conn j f s) i)"
    if "j < length (dx_conns s)" "leaked (at_conn s i) \<Longrightarrow> j = i \<Longrightarrow> leaked (f (at_conn s i))" for j f
    using that assms by (cases "j = i") (simp_all add: at_change)
  have closed: "conn_CloseWithControl (at_conn s i) = at_conn s i" "snd (conn_SendJSON w (at_conn s i)) = at_conn s i" for w
    using assms(2) by (simp_all add: leaked_def conn_CloseWithControl_def conn_SendJSON_def)
  show ?thesis
  proof (cases op)
    case (XRequest r)
    then show ?thesis using assms by (auto simp: admit_def at_conn_def nth_append split: sum.splits)
  next
    case (XUpgrade j good now)
    show ?thesis
    proof (cases "j < length (dx_conns s) \<and> cn_stage (at_conn s j) = Admitted")
      case True
      then have "j \<noteq> i" using assms(2) by (auto simp: leaked_def)
      then show ?thesis
        using True XUpgrade keep[of j "\<lambda>c. if good then c\<lparr>cn_stage := Upgraded, cn_socket := True, cn_lastPong := now\<rparr> else c\<lparr>cn_stage := Gone, cn_closed := True\<rparr>"]
        by (simp add: at_conn_in)
    next
      case False
      then show ?thesis using XUpgrade assms by (auto simp: at_conn_in)
    qed
  next
    case (XAdvance j)
    have "i < length (dx_conns (advance j s)) \<and> leaked (at_conn (advance j s) i)" if j: "j < length (dx_conns s)"
    proof -
      note k = keep[OF j]
      have enter: "i < length (dx_conns (enter j st s)) \<and> leaked (at_conn (enter j st s) i)" if "st \<in> {Activated, Announced, Entered}"
        "stage_rank (cn_stage (at_conn s j)) < 5" for st
        unfolding enter_def using that by (intro k) (auto simp: leaked_def)
      have serve: "cn_stage (at_conn s j) = Entered \<Longrightarrow> i < length (dx_conns (change_conn j (\<lambda>c. c\<lparr>cn_stage := Serving, cn_onCleanup := True\<rparr>) s)) \<and>
          leaked (at_conn (change_conn j (\<lambda>c. c\<lparr>cn_stage := Serving, cn_onCleanup := True\<rparr>) s) i)"
        by (rule k) (auto simp: leaked_def)
      have away: "cn_stage (at_conn s j) = Leaving \<Longrightarrow> i < length (dx_conns (change_conn j (\<lambda>c. (conn_CloseWithControl c)\<lparr>cn_stage := Gone\<rparr>) s)) \<and>
          leaked (at_conn (change_conn j (\<lambda>c. (conn_CloseWithControl c)\<lparr>cn_stage := Gone\<rparr>) s) i)"
        by (rule k) (auto simp: leaked_def closed(1))
      show ?thesis
        unfolding advance_def Let_def at_conn_in[OF j]
        using assms enter serve away by (cases "cn_stage (at_conn s j)") (simp_all split: option.split)
    qed
    then show ?thesis using XAdvance assms by auto
  next
    case (XSend j w)
    then show ?thesis using assms keep[of j "\<lambda>c. snd (conn_SendJSON w c)"] closed by auto
  next
    case (XClose j)
    then show ?thesis using assms keep[of j conn_CloseWithControl] closed by auto
  next
    case (XShut j)
    then show ?thesis using assms keep[of j "\<lambda>c. c\<lparr>cn_socket := False\<rparr>"] by (auto simp: leaked_def)
  next
    case (XLeave j)
    have "i < length (dx_conns (leave_table j s)) \<and> leaked (at_conn (leave_table j s) i)" if "j < length (dx_conns s)" "cn_cleaning (dx_conns s ! j) > 0"
    proof -
      have "j \<noteq> i" using that assms there by (auto simp: leaked_def)
      then show ?thesis using assms by (auto simp: leave_table_def Let_def change_conn_def at_conn_def split: option.splits)
    qed
    then show ?thesis using XLeave assms by auto
  next
    case (XReadFails j)
    have "i < length (dx_conns (enter j Leaving s)) \<and> leaked (at_conn (enter j Leaving s) i)" if "j < length (dx_conns s)" "cn_stage (at_conn s j) = Serving"
      unfolding enter_def using that by (intro keep) (auto simp: leaked_def)
    then show ?thesis using XReadFails assms by (auto simp: at_conn_in)
  next
    case (XPong j now)
    then show ?thesis using assms keep[of j "\<lambda>c. c\<lparr>cn_lastPong := now\<rparr>"] by (auto simp: leaked_def)
  next
    case (XPingTick j now)
    then show ?thesis using assms keep[of j "ping_tick now"] by (auto simp: ping_tick_def leaked_def)
  qed (use assms in \<open>auto simp: at_conn_def\<close>)
qed

lemma leaked_run:
  assumes "i < length (dx_conns s)" "leaked (at_conn s i)"
  shows "i < length (dx_conns (snd (direct_run sha256 ops s))) \<and> leaked (at_conn (snd (direct_run sha256 ops s)) i)"
  using assms
proof (induction ops arbitrary: s)
  case (Cons op ops)
  then show ?case using leaked_step[of i s sha256 op] by (simp add: case_prod_beta Let_def)
qed simp

text \<open>
  A connection that is closed between its entry into the first table and the installation of its cleanup, by a revocation, a shutdown or failing
  writes, stays in the table of active connections whatever happens later: the cleanup is installed on a closed connection and nobody runs it.
\<close>

theorem early_close_leaks:
  assumes "snd (direct_run sha256 before (NewServer_direct auth store)) = s" and "i < length (dx_conns s)"
    and "cn_stage (dx_conns s ! i) \<in> {Activated, Announced, Entered}" and "cn_closed (dx_conns s ! i)"
  shows "i \<in> dx_active (snd (direct_run sha256 (before @ later) (NewServer_direct auth store))) \<and>
    ActiveConnectionCount (snd (direct_run sha256 (before @ later) (NewServer_direct auth store))) \<noteq> 0"
proof -
  define t where "t = snd (direct_run sha256 later s)"
  have t: "snd (direct_run sha256 (before @ later) (NewServer_direct auth store)) = t"
    using assms(1) by (simp add: direct_run_append case_prod_beta Let_def t_def)
  have s: "tables_ok s" using reached_tables[of sha256 before auth store] assms(1) by simp
  have "conn_ok (at_conn s i)" using s by (simp add: tables_ok_def)
  moreover have "tables_ok t" using tables_ok_run[OF s] by (simp add: t_def)
  moreover from \<open>conn_ok _\<close> have "leaked (at_conn s i)" using assms(2-4) by (auto simp: leaked_def conn_ok_def at_conn_def)
  ultimately have at: "leaked (at_conn t i)" "dx_active t = {i. in_active (at_conn t i)}"
    using leaked_run[OF assms(2), of sha256 later] by (auto simp: t_def tables_ok_def)
  then have "i \<in> dx_active t" by (auto simp: leaked_def in_active_def kept_until_def)
  moreover have "finite (dx_active t)"
  proof (rule finite_subset)
    show "dx_active t \<subseteq> {..< length (dx_conns t)}"
      using at(2) by (auto simp: at_conn_def in_active_def new_conn_def split: if_splits)
  qed simp
  ultimately show ?thesis by (auto simp: t ActiveConnectionCount_def)
qed



section \<open>Whose requests are served\<close>

lemma step_conns:
  assumes "direct_step sha256 op s = (out, s')"
  shows "dx_auth s' = dx_auth s" and "i < length (dx_conns s) \<Longrightarrow> i < length (dx_conns s') \<and> cn_device (at_conn s' i) = cn_device (at_conn s i)"
    and "i < length (dx_conns s') \<Longrightarrow> i < length (dx_conns s) \<or> (i = length (dx_conns s) \<and> (\<exists>r. op = XRequest r \<and>
       (dx_auth s \<longrightarrow> (\<exists>rec. AuthenticateRequest sha256 (fs_mem (dx_store s)) r = Inr rec \<and> cn_device (at_conn s' i) = Some (td_DeviceID rec)))))"
    and "(i, b) \<in> set out \<Longrightarrow> i < length (dx_conns s)"
proof -
  have chg: "length (dx_conns (change_conn j f s)) = length (dx_conns s)" for j f by simp
  have chg_dev: "cn_device (at_conn (change_conn j f s) i) = cn_device (at_conn s i)" if "\<And>c. cn_device (f c) = cn_device c" for j f i
  proof (cases "j < length (dx_conns s)")
    case True
    then show ?thesis using that by (simp add: at_change)
  next
    case False
    then show ?thesis by (simp add: at_conn_def change_conn_def list_update_beyond not_less)
  qed
  have dev: "cn_device (conn_CloseWithControl c) = cn_device c" "cn_device (snd (conn_SendJSON w c)) = cn_device c" "cn_device (ping_tick now c) = cn_device c" for c w now
    by (simp_all add: conn_CloseWithControl_def take_cleanup_def conn_SendJSON_def ping_tick_def Let_def)
  have adv: "length (dx_conns (advance j s)) = length (dx_conns s)" "cn_device (at_conn (advance j s) i) = cn_device (at_conn s i)" "dx_auth (advance j s) = dx_auth s" for j i
    by (cases "cn_stage (dx_conns s ! j)"; simp add: advance_def enter_def chg chg_dev dev split: option.split)+
  have leave: "length (dx_conns (leave_table j s)) = length (dx_conns s)" "cn_device (at_conn (leave_table j s) i) = cn_device (at_conn s i)" "dx_auth (leave_table j s) = dx_auth s" for j i
    by (simp add: leave_table_def Let_def chg chg_dev split: option.split)+
  have all: "dx_auth s' = dx_auth s \<and> length (dx_conns s') = length (dx_conns s) \<and> (\<forall>i. cn_device (at_conn s' i) = cn_device (at_conn s i))" if "\<And>r. op \<noteq> XRequest r"
    using assms that by (cases op) (auto simp: enter_def chg chg_dev dev adv leave split: if_splits inbound.splits)
  show "dx_auth s' = dx_auth s" using all assms by (cases op) (auto simp: admit_def split: if_splits sum.splits)
  show "i < length (dx_conns s) \<Longrightarrow> i < length (dx_conns s') \<and> cn_device (at_conn s' i) = cn_device (at_conn s i)"
    using all assms by (cases op) (auto simp: admit_def at_conn_def nth_append split: if_splits sum.splits)
  show "i < length (dx_conns s') \<Longrightarrow> i < length (dx_conns s) \<or> (i = length (dx_conns s) \<and> (\<exists>r. op = XRequest r \<and>
       (dx_auth s \<longrightarrow> (\<exists>rec. AuthenticateRequest sha256 (fs_mem (dx_store s)) r = Inr rec \<and> cn_device (at_conn s' i) = Some (td_DeviceID rec)))))"
    using all assms by (cases op) (auto simp: admit_def at_conn_def nth_append new_conn_def split: if_splits sum.splits)
  show "(i, b) \<in> set out \<Longrightarrow> i < length (dx_conns s)"
    using assms by (cases op) (auto split: if_splits inbound.splits)
qed

definition state_after :: "(bytes \<Rightarrow> bytes) \<Rightarrow> direct_op list \<Rightarrow> FileDeviceStore \<Rightarrow> direct_server" where
  "state_after sha256 ops store = snd (direct_run sha256 ops (NewServer_direct True store))"

definition admitted_by :: "(bytes \<Rightarrow> bytes) \<Rightarrow> FileDeviceStore \<Rightarrow> direct_op list \<Rightarrow> nat \<Rightarrow> string \<Rightarrow> bool" where
  "admitted_by sha256 store ops i d \<longleftrightarrow>
     (\<exists>pre r post rec. ops = pre @ XRequest r # post \<and> length (dx_conns (state_after sha256 pre store)) = i \<and>
        AuthenticateRequest sha256 (fs_mem (dx_store (state_after sha256 pre store))) r = Inr rec \<and> d = td_DeviceID rec)"

lemma state_after_snoc:
  "state_after sha256 (ops @ [op]) store = snd (direct_step sha256 op (state_after sha256 ops store))"
  by (simp add: state_after_def direct_run_append case_prod_beta Let_def)

lemma admitted_by_more: "admitted_by sha256 store ops i d \<Longrightarrow> admitted_by sha256 store (ops @ [op]) i d"
  unfolding admitted_by_def by (metis append.assoc append_Cons)

lemma conns_admitted:
  "dx_auth (state_after sha256 ops store) \<and>
   (\<forall>i < length (dx_conns (state_after sha256 ops store)). \<exists>d. cn_device (at_conn (state_after sha256 ops store) i) = Some d \<and> admitted_by sha256 store ops i d)"
proof (induction ops rule: rev_induct)
  case Nil
  then show ?case by (simp add: state_after_def NewServer_direct_def)
next
  case (snoc op ops)
  define s where "s = state_after sha256 ops store"
  obtain out s' where step: "direct_step sha256 op s = (out, s')" by fastforce
  have s': "state_after sha256 (ops @ [op]) store = s'" using step by (simp add: state_after_snoc s_def)
  note f = step_conns[OF step]
  show ?case unfolding s'
  proof (intro conjI allI impI)
    show "dx_auth s'" using f(1) snoc.IH by (simp add: s_def)
    fix i assume i: "i < length (dx_conns s')"
    show "\<exists>d. cn_device (at_conn s' i) = Some d \<and> admitted_by sha256 store (ops @ [op]) i d"
    proof (cases "i < length (dx_conns s)")
      case True
      then show ?thesis using f(2)[OF True] snoc.IH admitted_by_more[of sha256 store ops i _ op] unfolding s_def by metis
    next
      case False
      obtain r rec where "op = XRequest r" "AuthenticateRequest sha256 (fs_mem (dx_store s)) r = Inr rec" "cn_device (at_conn s' i) = Some (td_DeviceID rec)"
          "i = length (dx_conns s)"
        using f(3)[OF i] False snoc.IH unfolding s_def by blast
      moreover from this have "admitted_by sha256 store (ops @ [op]) i (td_DeviceID rec)"
        unfolding admitted_by_def s_def by (intro exI[of _ ops] exI[of _ r] exI[of _ "[]"] exI[of _ rec]) simp
      ultimately show ?thesis by blast
    qed
  qed
qed

lemma served_conn: "(i, b) \<in> set (fst (direct_run sha256 ops s)) \<Longrightarrow> i < length (dx_conns (snd (direct_run sha256 ops s)))"
proof (induction ops arbitrary: s)
  case (Cons op ops)
  obtain out t where step: "direct_step sha256 op s = (out, t)" by fastforce
  have grow: "i < length (dx_conns u) \<Longrightarrow> i < length (dx_conns (snd (direct_run sha256 ops u)))" for u
  proof (induction ops arbitrary: u)
    case (Cons p ps)
    obtain o' v where "direct_step sha256 p u = (o', v)" by fastforce
    then show ?case using step_conns(2)[of sha256 p u o' v i] Cons by (simp add: case_prod_beta Let_def)
  qed simp
  show ?case
    using Cons step step_conns(4)[OF step, of i b] step_conns(2)[OF step, of i] grow[of t] by (auto simp: case_prod_beta Let_def)
qed simp

text \<open>A socket once shut stays shut.\<close>

definition dead :: "direct_conn \<Rightarrow> bool" where
  "dead c \<longleftrightarrow> \<not> cn_socket c \<and> cn_stage c \<noteq> Admitted"

lemma dead_step:
  assumes "i < length (dx_conns s)" "dead (at_conn s i)" "direct_step sha256 op s = (out, s')"
  shows "i < length (dx_conns s') \<and> dead (at_conn s' i) \<and> (\<forall>b. (i, b) \<notin> set out)"
proof -
  have keep: "i < length (dx_conns (change_conn j f s)) \<and> dead (at_conn (change_conn j f s) i)"
    if "j < length (dx_conns s)" "\<And>c. cn_stage c \<noteq> Admitted \<Longrightarrow> \<not> cn_socket c \<Longrightarrow> dead (f c)" for j f
    using that assms(1,2) by (cases "j = i") (simp_all add: at_change dead_def)
  have d: "dead (conn_CloseWithControl c)" "dead (snd (conn_SendJSON w c))" "dead (ping_tick now c)" if "cn_stage c \<noteq> Admitted" "\<not> cn_socket c" for c w now
    using that by (simp_all add: dead_def conn_CloseWithControl_def take_cleanup_def conn_SendJSON_def ping_tick_def Let_def)
  have up: "i < length (dx_conns (change_conn j (\<lambda>c. if good then c\<lparr>cn_stage := Upgraded, cn_socket := True, cn_lastPong := now\<rparr> else c\<lparr>cn_stage := Gone, cn_closed := True\<rparr>) s)) \<and>
      dead (at_conn (change_conn j (\<lambda>c. if good then c\<lparr>cn_stage := Upgraded, cn_socket := True, cn_lastPong := now\<rparr> else c\<lparr>cn_stage := Gone, cn_closed := True\<rparr>) s) i)"
    if "j < length (dx_conns s)" "cn_stage (at_conn s j) = Admitted" for j good now
    using that assms(1,2) by (cases "j = i") (auto simp: at_change dead_def)
  have adv: "i < length (dx_conns (advance j s)) \<and> dead (at_conn (advance j s) i)" if "j < length (dx_conns s)" for j
    using that assms(1,2) keep[OF that] d
    by (cases "cn_stage (at_conn s j)") (auto simp: advance_def at_conn_in[OF that] enter_def dead_def split: option.split)
  have leave: "i < length (dx_conns (leave_table j s)) \<and> dead (at_conn (leave_table j s) i)" if "j < length (dx_conns s)" for j
    using that assms(1,2) keep[OF that, of "\<lambda>c. c\<lparr>cn_cleaning := cn_cleaning c - 1\<rparr>"] by (auto simp: leave_table_def Let_def dead_def split: option.split)
  have st: "i < length (dx_conns s') \<and> dead (at_conn s' i)"
    using assms
    by (cases op) (auto simp: admit_def enter_def keep d dead_def[of "_\<lparr>cn_socket := _\<rparr>"] dead_def[of "_\<lparr>cn_stage := _\<rparr>"] dead_def[of "_\<lparr>cn_lastPong := _\<rparr>"]
        up adv leave at_conn_in at_append split: if_splits sum.splits inbound.splits)
  have "(i, b) \<notin> set out" for b
    using assms by (cases op) (auto simp: dead_def at_conn_in split: if_splits inbound.splits)
  then show ?thesis using st by blast
qed


lemma dead_run:
  "i < length (dx_conns s) \<Longrightarrow> dead (at_conn s i) \<Longrightarrow> (i, b) \<notin> set (fst (direct_run sha256 ops s)) \<and>
     i < length (dx_conns (snd (direct_run sha256 ops s))) \<and> dead (at_conn (snd (direct_run sha256 ops s)) i)"
proof (induction ops arbitrary: s)
  case (Cons op ops)
  obtain out t where "direct_step sha256 op s = (out, t)" by fastforce
  then show ?case using dead_step[of i s sha256 op out t] Cons by (simp add: case_prod_beta Let_def)
qed simp

text \<open>The steps of a disconnection move no handler.\<close>

fun closing :: "direct_op \<Rightarrow> bool" where
  "closing (XSend i w) = True" | "closing (XClose i) = True" | "closing (XShut i) = True" | "closing (XDisconnect d) = True" | "closing _ = False"

lemma closing_run:
  "list_all closing ops \<Longrightarrow> length (dx_conns (snd (direct_run sha256 ops s))) = length (dx_conns s) \<and>
     cn_stage (at_conn (snd (direct_run sha256 ops s)) i) = cn_stage (at_conn s i)"
proof (induction ops arbitrary: s)
  case (Cons op ops)
  have chg: "cn_stage (at_conn (change_conn j f s) i) = cn_stage (at_conn s i)" if "j < length (dx_conns s)" "\<And>c. cn_stage (f c) = cn_stage c" for j f
    using that by (simp add: at_change)
  have "length (dx_conns (snd (direct_step sha256 op s))) = length (dx_conns s) \<and> cn_stage (at_conn (snd (direct_step sha256 op s)) i) = cn_stage (at_conn s i)"
    using Cons.prems by (cases op)
      (simp_all add: chg conn_CloseWithControl_def conn_SendJSON_def take_cleanup_def Let_def)
  then show ?case using Cons by (simp add: case_prod_beta Let_def)
qed simp

lemma closing_disconnect: "list_all closing (disconnect_ops w d s)"
  by (auto simp: disconnect_ops_def close_conn_def list_all_iff)

lemma disconnected_dead:
  assumes "tables_ok s" "i \<in> set (dx_registry s d)"
  shows "i < length (dx_conns (snd (direct_run sha256 (disconnect_ops w d s) s)))"
    and "dead (at_conn (snd (direct_run sha256 (disconnect_ops w d s) s)) i)"
proof -
  obtain ys zs where split: "dx_registry s d = ys @ i # zs" using split_list[OF assms(2)] by blast
  define pre where "pre = XDisconnect d # concat (map (\<lambda>i. XSend i (w i) # close_conn i) ys) @ [XSend i (w i)]"
  define post where "post = concat (map (\<lambda>i. XSend i (w i) # close_conn i) zs)"
  have ops: "disconnect_ops w d s = pre @ [XClose i, XShut i] @ post" by (simp add: disconnect_ops_def split pre_def post_def close_conn_def)
  have "in_registry d (at_conn s i)" using assms by (simp add: tables_ok_def)
  then have r: "stage_rank (cn_stage (at_conn s i)) \<ge> 4" and i: "i < length (dx_conns s)"
    by (auto simp: in_registry_def at_conn_def new_conn_def split: if_splits)
  define u where "u = snd (direct_run sha256 pre s)"
  have "list_all closing pre" using closing_disconnect[of w d s] unfolding ops by simp
  from closing_run[OF this, of sha256 s i] have u: "i < length (dx_conns u)" "stage_rank (cn_stage (at_conn u i)) \<ge> 4" using i r by (simp_all add: u_def)
  define v where "v = snd (direct_run sha256 [XClose i, XShut i] u)"
  have "v = change_conn i (\<lambda>c. c\<lparr>cn_socket := False\<rparr>) (change_conn i conn_CloseWithControl u)"
    using u by (simp add: v_def at_conn_in at_change conn_CloseWithControl_def take_cleanup_def)
  then have v: "i < length (dx_conns v)" "dead (at_conn v i)"
    using u by (auto simp: at_change dead_def conn_CloseWithControl_def take_cleanup_def)
  have "snd (direct_run sha256 (disconnect_ops w d s) s) = snd (direct_run sha256 post v)"
    unfolding ops u_def v_def direct_run_append by (simp add: case_prod_beta Let_def)
  then show "i < length (dx_conns (snd (direct_run sha256 (disconnect_ops w d s) s)))" "dead (at_conn (snd (direct_run sha256 (disconnect_ops w d s) s)) i)"
    using dead_run[OF v] by simp_all
qed

text \<open>
  C12. With authentication on, a request reaches the handlers only over a connection that was let in by a token valid at that moment, as the device of that token;
  and after the disconnection of a device, no more over a connection that was in its entry of the registry.
\<close>

theorem direct_requests_authenticated:
  assumes "state_after sha256 before store = s"
    and "direct_run sha256 later (snd (direct_run sha256 (disconnect_ops w d s) s)) = (served, t)" and "(i, b) \<in> set served"
  shows "i < length (dx_conns t) \<and> i \<notin> set (dx_registry s d) \<and>
    (\<exists>dev. cn_device (dx_conns t ! i) = Some dev \<and> admitted_by sha256 store (before @ disconnect_ops w d s @ later) i dev)"
proof -
  define ops where "ops = before @ disconnect_ops w d s @ later"
  have t: "state_after sha256 ops store = t"
    using assms(1,2) by (simp add: ops_def state_after_def direct_run_append case_prod_beta Let_def)
  have i: "i < length (dx_conns t)" using served_conn[of i b sha256 later "snd (direct_run sha256 (disconnect_ops w d s) s)"] assms(2,3) by simp
  have "i \<notin> set (dx_registry s d)"
  proof
    have "tables_ok s" using reached_tables[of sha256 before True store] assms(1) by (simp add: state_after_def)
    moreover assume "i \<in> set (dx_registry s d)"
    ultimately show False using disconnected_dead[of s i d sha256 w] dead_run assms(2,3) by (metis fst_conv)
  qed
  moreover have "\<exists>dev. cn_device (dx_conns t ! i) = Some dev \<and> admitted_by sha256 store ops i dev"
    using conns_admitted[of sha256 ops store] i unfolding t by (simp add: at_conn_in)
  ultimately show ?thesis using i unfolding ops_def by blast
qed


section \<open>Concrete runs\<close>

definition phone_request :: auth_request where
  "phone_request = \<lparr>ar_Authorization = [], ar_DeviceIDHeader = [], ar_queryToken = demo_token, ar_queryDeviceID = [], ar_Path = ''/bridge''\<rparr>"

lemma phone_admitted: "AuthenticateRequest demo_sha (fs_mem demo_fds) phone_request = Inr demo_device"
  by (simp add: AuthenticateRequest_def phone_request_def extractBearerToken_def has_prefix_def ValidateDeviceAuth_def LookupByTokenHash_def demo_token_valid demo_mem)
    (simp add: demo_device_def zero_record_def demo_token_valid)

definition connect_phone :: "direct_op list" where
  "connect_phone = [XRequest phone_request, XUpgrade 0 True 5, XAdvance 0, XAdvance 0, XAdvance 0]"


lemma phone_name: "td_DeviceID demo_device = ''phone''"
  by (simp add: demo_device_def)

lemmas direct_eval = admit_def NewServer_direct_def phone_admitted phone_name change_conn_def new_conn_def advance_def enter_def registry_Register_def
  conn_CloseWithControl_def take_cleanup_def leave_table_def at_conn_def

definition phone_conn :: "stage \<Rightarrow> direct_conn" where
  "phone_conn st = \<lparr>cn_device = Some ''phone'', cn_stage = st, cn_closed = False, cn_socket = True, cn_writeErrors = 0, cn_onCleanup = (st = Serving),
     cn_cleaning = 0, cn_lastPong = 5\<rparr>"

lemma run_Cons:
  "snd (direct_run sha256 (op # ops) s) = snd (direct_run sha256 ops (snd (direct_step sha256 op s)))"
  "fst (direct_run sha256 (op # ops) s) = fst (direct_step sha256 op s) @ fst (direct_run sha256 ops (snd (direct_step sha256 op s)))"
  by (simp_all add: case_prod_beta Let_def)

lemma run_append: "snd (direct_run sha256 (xs @ ys) s) = snd (direct_run sha256 ys (snd (direct_run sha256 xs s)))"
  by (simp add: direct_run_append case_prod_beta Let_def)

lemma phone_connected:
  "snd (direct_run demo_sha connect_phone (NewServer_direct True demo_fds)) =
     \<lparr>dx_auth = True, dx_store = demo_fds, dx_conns = [phone_conn Entered], dx_active = {0}, dx_broadcaster = RegisterConn 0 NewBroadcaster,
      dx_registry = (\<lambda>_. [])(''phone'' := [0])\<rparr>"
  by (simp add: connect_phone_def run_Cons direct_eval phone_conn_def del: direct_run.simps(2))

theorem direct_tables_exact_witness:
  "0 \<notin> dx_active (snd (direct_run demo_sha (connect_phone @ [XAdvance 0, XClose 0, XShut 0, XLeave 0, XLeave 0, XLeave 0]) (NewServer_direct True demo_fds)))"
proof -
  define s where "s = snd (direct_run demo_sha (connect_phone @ [XAdvance 0, XClose 0, XShut 0, XLeave 0, XLeave 0, XLeave 0]) (NewServer_direct True demo_fds))"
  have c: "dx_conns s = [(phone_conn Serving)\<lparr>cn_closed := True, cn_socket := False, cn_onCleanup := False\<rparr>]"
    unfolding s_def run_append phone_connected by (simp add: run_Cons direct_eval phone_conn_def del: direct_run.simps(2))
  show ?thesis using direct_tables_exact[of demo_sha _ True demo_fds s 0, OF s_def[symmetric] _ refl] c by (simp add: s_def phone_conn_def)
qed

theorem early_close_leaks_witness:
  "0 \<in> dx_active (snd (direct_run demo_sha ((connect_phone @ [XClose 0, XShut 0]) @ [XAdvance 0, XReadFails 0, XAdvance 0, XLeave 0]) (NewServer_direct True demo_fds)))"
proof -
  define s where "s = snd (direct_run demo_sha (connect_phone @ [XClose 0, XShut 0]) (NewServer_direct True demo_fds))"
  have "dx_conns s = [(phone_conn Entered)\<lparr>cn_closed := True, cn_socket := False\<rparr>]"
    unfolding s_def run_append phone_connected by (simp add: run_Cons direct_eval phone_conn_def del: direct_run.simps(2))
  then show ?thesis
    using early_close_leaks[of demo_sha "connect_phone @ [XClose 0, XShut 0]" True demo_fds s 0 "[XAdvance 0, XReadFails 0, XAdvance 0, XLeave 0]", OF s_def[symmetric]]
    by (simp add: phone_conn_def)
qed

text \<open>A second connection of the phone, after its first one was cut off.\<close>

theorem direct_requests_authenticated_witness:
  "admitted_by demo_sha demo_fds
     (connect_phone @ disconnect_ops (\<lambda>_. True) ''phone'' (state_after demo_sha connect_phone demo_fds)
        @ [XRequest phone_request, XUpgrade 1 True 9, XAdvance 1, XAdvance 1, XAdvance 1, XAdvance 1, XMessage 1 (MRequest [7])]) 1 ''phone''"
proof -
  define s where "s = state_after demo_sha connect_phone demo_fds"
  define later where "later = [XRequest phone_request, XUpgrade 1 True 9, XAdvance 1, XAdvance 1, XAdvance 1, XAdvance 1, XMessage 1 (MRequest [7])]"
  define u where "u = snd (direct_run demo_sha (disconnect_ops (\<lambda>_. True) ''phone'' s) s)"
  have s: "s = \<lparr>dx_auth = True, dx_store = demo_fds, dx_conns = [phone_conn Entered], dx_active = {0}, dx_broadcaster = RegisterConn 0 NewBroadcaster,
      dx_registry = (\<lambda>_. [])(''phone'' := [0])\<rparr>"
    by (simp add: s_def state_after_def phone_connected)
  have u: "dx_auth u" "dx_store u = demo_fds" "length (dx_conns u) = 1"
    by (simp_all add: u_def s disconnect_ops_def close_conn_def phone_conn_def conn_SendJSON_def run_Cons direct_eval del: direct_run.simps(2))
  then have fst: "fst (direct_run demo_sha later u) = [(1, [7])]" and len: "length (dx_conns (snd (direct_run demo_sha later u))) = 2"
    and dev: "cn_device (dx_conns (snd (direct_run demo_sha later u)) ! 1) = Some ''phone''"
    by (simp_all add: later_def run_Cons direct_eval nth_append nth_list_update del: direct_run.simps(2))
  show ?thesis
    using direct_requests_authenticated[OF s_def[symmetric], of later "\<lambda>_. True" "''phone''" "fst (direct_run demo_sha later u)" "snd (direct_run demo_sha later u)" 1 "[7]"]
      fst dev unfolding u_def s_def later_def by simp
qed

end
