(* ===== verification/Relay_Pairing.thy ===== *)
theory Relay_Pairing
  imports Pairing_Approval Hpke_Props Hub_Props Device_Directory
begin

text \<open>
  How a device comes to the relay. \<^verbatim>\<open>go-bridge/relay_first_pairing.go\<close>: a device without a local network leaves a sealed claim at the relay, the bridge
  takes it over into the pairing session, and after the approval the result goes back sealed for the device alone.
  \<^verbatim>\<open>go-bridge/relay_upgrade.go\<close>: a device that is connected directly binds its identity key and gets a relay credential. The replies
  of the relay are arguments: \<open>None\<close> is a failed request, else the status with the decoded body.
\<close>

section \<open>Addresses\<close>

text \<open>\<^verbatim>\<open>strings.Replace\<close> of the first occurrence.\<close>

fun replace_first :: "string \<Rightarrow> string \<Rightarrow> string \<Rightarrow> string" where
  "replace_first old new [] = (if old = [] then new else [])"
| "replace_first old new (c # cs) = (if has_prefix (c # cs) old then new @ drop (length old) (c # cs) else c # replace_first old new cs)"

definition trim_right_slash :: "string \<Rightarrow> string" where
  "trim_right_slash s = rev (dropWhile (\<lambda>c. c = CHR ''/'') (rev s))"

definition http_endpoint :: "string \<Rightarrow> string" where
  "http_endpoint endpoint = replace_first ''ws://'' ''http://'' (replace_first ''wss://'' ''https://'' endpoint)"

definition relayURL :: "string \<Rightarrow> string \<Rightarrow> string" where
  "relayURL endpoint path = http_endpoint (trim_right_slash endpoint) @ path"


section \<open>The relay-first pairing\<close>

record relay_settings =
  rl_Enabled :: bool
  rl_Endpoint :: string
  rl_RouteID :: string
  rl_Credential :: string
  rl_BridgeID :: string
  rl_DisplayName :: string
  rl_LocalURLs :: "string list"
  rl_Identity :: RelayCryptoIdentity

record relayPendingClaim =
  pd_ClaimID :: string
  pd_SealedClaim :: bytes
  pd_State :: string

record RelayFirstResult =
  rf_DeviceID :: string
  rf_DeviceToken :: string
  rf_BridgeID :: string
  rf_DisplayName :: string
  rf_RelayEndpoint :: string
  rf_RouteID :: string
  rf_DeviceAuth :: string
  rf_BridgeIdentityPublicKey :: string
  rf_BridgeFingerprint :: string
  rf_ChannelGeneration :: "64 word"
  rf_LocalURLs :: "string list"

type_synonym 'a http_reply = "(nat \<times> 'a option) option"

text \<open>The requests sent; \<open>esc\<close> is \<^verbatim>\<open>url.PathEscape\<close>.\<close>

datatype relay_call =
    ListClaims string
  | RegisterDeviceCall string string
  | CompleteClaimCall string string "bytes option"

definition claims_url :: "(string \<Rightarrow> string) \<Rightarrow> relay_settings \<Rightarrow> string" where
  "claims_url esc R = relayURL (rl_Endpoint R) (''/v1/routes/'' @ esc (rl_RouteID R) @ ''/pairing-claims'')"

definition register_url :: "(string \<Rightarrow> string) \<Rightarrow> relay_settings \<Rightarrow> string" where
  "register_url esc R = relayURL (rl_Endpoint R) (''/v1/routes/'' @ esc (rl_RouteID R) @ ''/devices/register'')"

definition complete_url :: "(string \<Rightarrow> string) \<Rightarrow> relay_settings \<Rightarrow> string \<Rightarrow> string" where
  "complete_url esc R claimID = relayURL (rl_Endpoint R) (''/v1/routes/'' @ esc (rl_RouteID R) @ ''/pairing-claims/'' @ esc claimID @ ''/complete'')"

datatype sync_error = ListFailed | ClaimDecode | ClaimOpen | ClaimRefused string | ClaimState pairing_error | UpdateFailed

text \<open>
  The loop over the claims: the first pending one of this session decides. The session is changed where it stands; \<open>a\<close> is its address.
\<close>

fun take_claim ::
  "hpke_lib \<Rightarrow> (bytes \<Rightarrow> (string \<rightharpoonup> header_value) option) \<Rightarrow> (int \<Rightarrow> string) \<Rightarrow> (bytes \<Rightarrow> HpkePairingClaim option) \<Rightarrow> string \<Rightarrow> gotime
     \<Rightarrow> relay_settings \<Rightarrow> nat \<Rightarrow> relayPendingClaim list \<Rightarrow> MemoryPairingStore \<Rightarrow> sync_error option \<times> MemoryPairingStore" where
  "take_claim H parse rfc decode cred now R a [] st = (None, st)"
| "take_claim H parse rfc decode cred now R a (p # ps) st =
     (if pd_ClaimID p \<noteq> ps_ID (mp_heap st a) \<or> pd_State p \<noteq> ''pending'' then take_claim H parse rfc decode cred now R a ps st
      else case decode (pd_SealedClaim p) of
        None \<Rightarrow> (Some ClaimDecode, st)
      | Some claim \<Rightarrow>
          (case ProcessPairingClaim H parse rfc cred now claim (ci_privateKey (rl_Identity R)) of
             None \<Rightarrow> (Some ClaimOpen, st)
           | Some approved \<Rightarrow>
               (if \<not> pa_Approved approved then (Some (ClaimRefused (pa_Reason approved)), st)
                else case Claim now (pc_DeviceID claim) (pc_DeviceName claim) ''ios'' (mp_heap st a) of
                  Inl e \<Rightarrow> (Some (ClaimState e), st)
                | Inr s \<Rightarrow>
                    (let (ok, st) = mp_Update a (st\<lparr>mp_heap := (mp_heap st)(a := s\<lparr>ps_RelayClaim := Some (pc_DevicePubKey claim)\<rparr>)\<rparr>)
                     in (if ok then None else Some UpdateFailed, st)))))"

definition syncRelayPairingClaim ::
  "hpke_lib \<Rightarrow> (bytes \<Rightarrow> (string \<rightharpoonup> header_value) option) \<Rightarrow> (int \<Rightarrow> string) \<Rightarrow> (bytes \<Rightarrow> HpkePairingClaim option) \<Rightarrow> string \<Rightarrow> gotime
     \<Rightarrow> relay_settings \<Rightarrow> relayPendingClaim list http_reply \<Rightarrow> nat \<Rightarrow> MemoryPairingStore \<Rightarrow> sync_error option \<times> MemoryPairingStore" where
  "syncRelayPairingClaim H parse rfc decode cred now R listed a st =
     (if \<not> rl_Enabled R then (None, st)
      else case listed of
        None \<Rightarrow> (Some ListFailed, st)
      | Some (status, body) \<Rightarrow>
          (if status \<noteq> 200 then (Some ListFailed, st)
           else case body of None \<Rightarrow> (Some ListFailed, st) | Some claims \<Rightarrow> take_claim H parse rfc decode cred now R a claims st))"

definition registerRelayDevice :: "string http_reply \<Rightarrow> string option" where
  "registerRelayDevice reply =
     (case reply of
        None \<Rightarrow> None
      | Some (status, body) \<Rightarrow>
          (if status \<noteq> 201 then None else case body of None \<Rightarrow> None | Some deviceAuth \<Rightarrow> if deviceAuth = [] then None else Some deviceAuth))"

definition completeRelayClaim :: "unit http_reply \<Rightarrow> bool" where
  "completeRelayClaim reply = (case reply of None \<Rightarrow> False | Some (status, _) \<Rightarrow> status = 200)"

definition relay_first_result :: "crypto_lib \<Rightarrow> relay_settings \<Rightarrow> string \<Rightarrow> string \<Rightarrow> string \<Rightarrow> RelayFirstResult" where
  "relay_first_result L R deviceID deviceToken deviceAuth =
     \<lparr>rf_DeviceID = deviceID, rf_DeviceToken = deviceToken, rf_BridgeID = rl_BridgeID R, rf_DisplayName = rl_DisplayName R,
      rf_RelayEndpoint = rl_Endpoint R, rf_RouteID = rl_RouteID R, rf_DeviceAuth = deviceAuth,
      rf_BridgeIdentityPublicKey = b64std_encode (ci_publicKey (rl_Identity R)), rf_BridgeFingerprint = Fingerprint L (rl_Identity R),
      rf_ChannelGeneration = 1, rf_LocalURLs = rl_LocalURLs R\<rparr>"

text \<open>
  \<open>marshal\<close> and \<open>marshalCt\<close> encode the result and its ciphertext. The calls are those made until the end or the first failure.
\<close>

definition approveRelayPairing ::
  "crypto_lib \<Rightarrow> hpke_lib \<Rightarrow> (string \<Rightarrow> string) \<Rightarrow> (RelayFirstResult \<Rightarrow> bytes option) \<Rightarrow> (HPKECiphertext \<Rightarrow> bytes option) \<Rightarrow> bytes option
     \<Rightarrow> relay_settings \<Rightarrow> string http_reply \<Rightarrow> unit http_reply \<Rightarrow> PairingSession \<Rightarrow> string \<Rightarrow> RelayFirstResult option \<times> relay_call list" where
  "approveRelayPairing L H esc marshal marshalCt rnd R registered completed s deviceToken =
     (if \<not> rl_Enabled R then (None, [])
      else case ps_RelayClaim s of
        None \<Rightarrow> (None, [])
      | Some devicePubKey \<Rightarrow>
          (let call = RegisterDeviceCall (register_url esc R) (ps_ClaimingDeviceID s)
           in case registerRelayDevice registered of
             None \<Rightarrow> (None, [call])
           | Some deviceAuth \<Rightarrow>
               (let result = relay_first_result L R (ps_ClaimingDeviceID s) deviceToken deviceAuth
                in case marshal result of
                  None \<Rightarrow> (None, [call])
                | Some plaintext \<Rightarrow>
                    (case b64std_decode devicePubKey of
                       None \<Rightarrow> (None, [call])
                     | Some key \<Rightarrow>
                         (case HPKESeal H rnd key (bytes_of pairingContextLabel) (bytes_of (''pairing-result:'' @ ps_ClaimingDeviceID s)) plaintext of
                            None \<Rightarrow> (None, [call])
                          | Some (ct, _) \<Rightarrow>
                              (case marshalCt ct of
                                 None \<Rightarrow> (None, [call])
                               | Some sealed \<Rightarrow>
                                   (let calls = [call, CompleteClaimCall (complete_url esc R (ps_ID s)) ''approved'' (Some sealed)]
                                    in if completeRelayClaim completed then (Some result, calls) else (None, calls))))))))"

definition rejectRelayPairing :: "(string \<Rightarrow> string) \<Rightarrow> relay_settings \<Rightarrow> unit http_reply \<Rightarrow> PairingSession \<Rightarrow> bool \<times> relay_call list" where
  "rejectRelayPairing esc R completed s =
     (completeRelayClaim completed, [CompleteClaimCall (complete_url esc R (ps_ID s)) ''rejected'' None])"


section \<open>The upgrade of a direct device\<close>

record RelayUpgradeProvision =
  up_Endpoint :: string
  up_RouteID :: string
  up_DeviceAuth :: string

record RelayUpgradeResponse =
  ur_RelayEndpoint :: string
  ur_RouteID :: string
  ur_DeviceAuth :: string
  ur_BridgeIdentityPublicKey :: string
  ur_BridgeFingerprint :: string
  ur_ChannelGeneration :: "64 word"

text \<open>\<^verbatim>\<open>relayUpgradeProvisionerForHub\<close>: the in-process relay hands out the credential.\<close>

definition relayUpgradeProvisionerForHub ::
  "(bytes \<Rightarrow> bytes) \<Rightarrow> bytes \<Rightarrow> string \<Rightarrow> string \<Rightarrow> string \<Rightarrow> string \<Rightarrow> RelayHub \<Rightarrow> RelayUpgradeProvision option \<times> RelayHub" where
  "relayUpgradeProvisionerForHub sha256 credRnd endpoint routeID bridgeAuth deviceID hub =
     (if endpoint = [] \<or> routeID = [] \<or> bridgeAuth = [] then (None, hub)
      else if \<not> AuthorizeBridge sha256 routeID bridgeAuth hub then (None, hub)
      else case hub_RegisterDevice sha256 credRnd routeID deviceID hub of
        (Inl e, hub) \<Rightarrow> (None, hub)
      | (Inr deviceAuth, hub) \<Rightarrow> (Some \<lparr>up_Endpoint = endpoint, up_RouteID = routeID, up_DeviceAuth = deviceAuth\<rparr>, hub))"

text \<open>The same over HTTP; \<open>valid\<close> says whether the endpoint parses as one.\<close>

definition relayUpgradeProvisioner :: "bool \<Rightarrow> string http_reply \<Rightarrow> string \<Rightarrow> string \<Rightarrow> string \<Rightarrow> string \<Rightarrow> RelayUpgradeProvision option" where
  "relayUpgradeProvisioner valid registered endpoint routeID bridgeAuth deviceID =
     (if endpoint = [] \<or> routeID = [] \<or> bridgeAuth = [] \<or> \<not> valid then None
      else map_option (\<lambda>auth. \<lparr>up_Endpoint = endpoint, up_RouteID = routeID, up_DeviceAuth = auth\<rparr>) (registerRelayDevice registered))"

text \<open>The key a device authenticates its hello with, as \<^verbatim>\<open>ConfigureRelayUpgrade\<close> gives it to the prekey store.\<close>

definition identity_auth_key :: "crypto_lib \<Rightarrow> RelayCryptoIdentity option \<Rightarrow> string \<Rightarrow> FileDeviceStore \<Rightarrow> string \<Rightarrow> bytes option" where
  "identity_auth_key L identity bridgeID store deviceID =
     (case identity of
        None \<Rightarrow> None
      | Some ci \<Rightarrow>
          (if bridgeID = [] then None
           else case LookupByDeviceID deviceID (fs_mem store) of
             None \<Rightarrow> None
           | Some rec \<Rightarrow>
               (if td_RevokedAt rec \<noteq> None \<or> td_IdentityPublicKey rec = [] then None
                else case b64std_decode (td_IdentityPublicKey rec) of
                  None \<Rightarrow> None
                | Some publicKey \<Rightarrow> (case DeriveIdentityAuthKey L publicKey bridgeID deviceID ci of Inl e \<Rightarrow> None | Inr k \<Rightarrow> Some k))))"

datatype upgrade_reply = Refused string | UpgradedTo RelayUpgradeResponse

text \<open>
  \<^verbatim>\<open>handleRelayUpgradeRPC\<close> for its own method; it holds \<^verbatim>\<open>relayUpgradeMu\<close> throughout. \<open>device\<close> is that of the connection, \<open>params\<close> the
  decoded identity key; \<open>provision\<close> is the provisioner on its own state.
\<close>

definition handleRelayUpgradeRPC ::
  "crypto_lib \<Rightarrow> faults \<Rightarrow> RelayCryptoIdentity option \<Rightarrow> string \<Rightarrow> bool \<Rightarrow> (string \<Rightarrow> 'h \<Rightarrow> RelayUpgradeProvision option \<times> 'h) option
     \<Rightarrow> string option \<Rightarrow> string option \<Rightarrow> FileDeviceStore \<times> 'h \<Rightarrow> upgrade_reply \<times> FileDeviceStore \<times> 'h" where
  "handleRelayUpgradeRPC L f identity bridgeID enabled provision device params sh =
     (let (store, hub) = sh
      in case device of
        None \<Rightarrow> (Refused ''auth.required'', sh)
      | Some deviceID \<Rightarrow>
          (if identity = None \<or> provision = None \<or> bridgeID = [] \<or> \<not> enabled then (Refused ''relay.not_configured'', sh)
           else case params of
             None \<Rightarrow> (Refused ''invalid_params'', sh)
           | Some identityPublicKey \<Rightarrow>
               (case b64std_decode identityPublicKey of
                  None \<Rightarrow> (Refused ''relay.invalid_identity_key'', sh)
                | Some publicKey \<Rightarrow>
                    (if length publicKey \<noteq> 32 \<or> \<not> x_validPublic L publicKey \<or> isl (DeriveIdentityAuthKey L publicKey bridgeID deviceID (the identity))
                     then (Refused ''relay.invalid_identity_key'', sh)
                     else case LookupByDeviceID deviceID (fs_mem store) of
                       None \<Rightarrow> (Refused ''relay.identity_binding_failed'', sh)
                     | Some existing \<Rightarrow>
                         (if td_RevokedAt existing \<noteq> None then (Refused ''relay.identity_binding_failed'', sh)
                          else if td_IdentityPublicKey existing \<noteq> [] \<and> td_IdentityPublicKey existing \<noteq> identityPublicKey
                          then (Refused ''relay.identity_binding_failed'', sh)
                          else case the provision deviceID hub of
                            (None, hub) \<Rightarrow> (Refused ''relay.provision_failed'', store, hub)
                          | (Some p, hub) \<Rightarrow>
                              (if up_Endpoint p = [] \<or> up_RouteID p = [] \<or> up_DeviceAuth p = [] then (Refused ''relay.provision_failed'', store, hub)
                               else case file_step f (DirEnable deviceID identityPublicKey 1) store of
                                 (False, store) \<Rightarrow> (Refused ''relay.identity_binding_failed'', store, hub)
                               | (True, store) \<Rightarrow>
                                   (UpgradedTo \<lparr>ur_RelayEndpoint = up_Endpoint p, ur_RouteID = up_RouteID p, ur_DeviceAuth = up_DeviceAuth p,
                                      ur_BridgeIdentityPublicKey = b64std_encode (ci_publicKey (the identity)),
                                      ur_BridgeFingerprint = Fingerprint L (the identity), ur_ChannelGeneration = 1\<rparr>,
                                    store, hub)))))))"


section \<open>The claim and the result\<close>

lemma take_claim_ok:
  assumes "take_claim H parse rfc decode cred now R a ps st = (None, st')"
  shows "mp_heap st' a = mp_heap st a \<or>
    (\<exists>p claim approved s. p \<in> set ps \<and> pd_ClaimID p = ps_ID (mp_heap st a) \<and> decode (pd_SealedClaim p) = Some claim \<and>
       ProcessPairingClaim H parse rfc cred now claim (ci_privateKey (rl_Identity R)) = Some approved \<and> pa_Approved approved \<and>
       Claim now (pc_DeviceID claim) (pc_DeviceName claim) ''ios'' (mp_heap st a) = Inr s \<and>
       mp_heap st' a = s\<lparr>ps_RelayClaim := Some (pc_DevicePubKey claim)\<rparr>)"
  using assms
proof (induction ps)
  case (Cons p ps)
  show ?case
  proof (cases "pd_ClaimID p \<noteq> ps_ID (mp_heap st a) \<or> pd_State p \<noteq> ''pending''")
    case True
    then show ?thesis using Cons by auto
  next
    case False
    then obtain claim approved s where c: "decode (pd_SealedClaim p) = Some claim"
        "ProcessPairingClaim H parse rfc cred now claim (ci_privateKey (rl_Identity R)) = Some approved" "pa_Approved approved"
        "Claim now (pc_DeviceID claim) (pc_DeviceName claim) ''ios'' (mp_heap st a) = Inr s"
      using Cons.prems by (auto simp: Let_def case_prod_beta split: option.splits if_splits sum.splits)
    then have "mp_heap st' a = s\<lparr>ps_RelayClaim := Some (pc_DevicePubKey claim)\<rparr>"
      using False Cons.prems by (auto simp: Let_def case_prod_beta mp_Update_def split: if_splits)
    then show ?thesis using False c by auto
  qed
qed simp

lemma approve_relay_ok:
  assumes "approveRelayPairing L H esc marshal marshalCt rnd R registered completed s token = (Some result, calls)"
  obtains key64 key auth plain ct ctx sealed where "ps_RelayClaim s = Some key64" "registerRelayDevice registered = Some auth"
    "result = relay_first_result L R (ps_ClaimingDeviceID s) token auth" "marshal result = Some plain" "b64std_decode key64 = Some key"
    "HPKESeal H rnd key (bytes_of pairingContextLabel) (bytes_of (''pairing-result:'' @ ps_ClaimingDeviceID s)) plain = Some (ct, ctx)"
    "marshalCt ct = Some sealed"
    "calls = [RegisterDeviceCall (register_url esc R) (ps_ClaimingDeviceID s), CompleteClaimCall (complete_url esc R (ps_ID s)) ''approved'' (Some sealed)]"
  using assms by (auto simp: approveRelayPairing_def Let_def split: if_splits option.splits prod.splits)

lemma seal_open:
  assumes "hpke_ok H" "length priv = 32" "HPKESeal H rnd (hl_public H priv) info aad plain = Some (ct, ctx)"
  shows "map_option fst (HPKEOpen H priv info aad (Some ct)) = Some plain"
proof -
  obtain enc s c where s: "hl_setupSend H (hl_public H priv) info rnd = Some (enc, s)" "hl_seal H s plain aad = Some c"
      "ct = \<lparr>ct_KEMOutput = enc, ct_Ciphertext = c\<rparr>"
    using assms(3) by (auto simp: HPKESeal_def split: if_splits option.splits)
  have "length enc = 32 \<and> (\<exists>r. hl_setupReceive H (normalize_private priv) info enc = Some r \<and>
      (\<forall>p aad c aad'. hl_seal H s p aad = Some c \<longrightarrow> hl_open H r c aad' = (if aad' = aad then Some p else None)))"
    using assms(1,2) s(1) unfolding hpke_ok_def by blast
  then show ?thesis using s(2,3) assms(2) by (auto simp: HPKEOpen_def)
qed

text \<open>
  C29. A device seals a claim for the key of the bridge and leaves it at the relay, which may change everything around the ciphertext. If the bridge takes
  a claim over, the session is claimed for this device and its key; and when it is approved, what the bridge puts at the relay opens, with the
  device's private key, to the result with the token made for it.
\<close>

theorem relay_first_end_to_end:
  assumes lib: "hpke_ok H" "object_codec_ok L parse" "inj rfc"
    and keys: "length (ci_privateKey (rl_Identity R)) = 32" "length devPriv = 32" "ascii deviceID"
    and created: "CreatePairingClaim L H rfc rnd made deviceID name (hl_public H devPriv) (hl_public H (ci_privateKey (rl_Identity R))) = Some c0"
    and relayed: "\<forall>p \<in> set claims. \<forall>claim. pd_ClaimID p = ps_ID (mp_heap st a) \<and> decode (pd_SealedClaim p) = Some claim \<longrightarrow> pc_HPKE claim = pc_HPKE c0"
    and synced: "syncRelayPairingClaim H parse rfc decode cred now R (Some (200, Some claims)) a st = (None, st')"
      "ps_RelayClaim (mp_heap st' a) \<noteq> ps_RelayClaim (mp_heap st a)"
    and approved: "ps_ClaimingDeviceID s = ps_ClaimingDeviceID (mp_heap st' a)" "ps_RelayClaim s = ps_RelayClaim (mp_heap st' a)"
      "approveRelayPairing L H esc marshal marshalCt rnd' R registered completed s token = (Some result, calls)"
  shows "ps_State (mp_heap st' a) = PairingClaimed \<and> ps_ClaimingDeviceID (mp_heap st' a) = deviceID \<and>
    ps_RelayClaim (mp_heap st' a) = Some (b64std_encode (hl_public H devPriv)) \<and>
    rf_DeviceID result = deviceID \<and> rf_DeviceToken result = token \<and>
    (\<exists>ct sealed plain. CompleteClaimCall (complete_url esc R (ps_ID s)) ''approved'' (Some sealed) \<in> set calls \<and> marshalCt ct = Some sealed \<and>
       marshal result = Some plain \<and>
       map_option fst (HPKEOpen H devPriv (bytes_of pairingContextLabel) (bytes_of (''pairing-result:'' @ deviceID)) (Some ct)) = Some plain)"
proof -
  have enabled: "rl_Enabled R" using synced by (auto simp: syncRelayPairingClaim_def split: if_splits)
  then have "take_claim H parse rfc decode cred now R a claims st = (None, st')" using synced(1) by (simp add: syncRelayPairingClaim_def)
  from take_claim_ok[OF this] synced(2) obtain p claim appr t where t: "p \<in> set claims" "pd_ClaimID p = ps_ID (mp_heap st a)"
      "decode (pd_SealedClaim p) = Some claim"
      "ProcessPairingClaim H parse rfc cred now claim (ci_privateKey (rl_Identity R)) = Some appr" "pa_Approved appr"
      "Claim now (pc_DeviceID claim) (pc_DeviceName claim) ''ios'' (mp_heap st a) = Inr t"
      "mp_heap st' a = t\<lparr>ps_RelayClaim := Some (pc_DevicePubKey claim)\<rparr>"
    by (metis (no_types, lifting))
  have hp: "pc_HPKE claim = pc_HPKE c0" using relayed t(1-3) by blast
  from t(4,5) have "\<exists>a. ProcessPairingClaim H parse rfc cred now claim (ci_privateKey (rl_Identity R)) = Some a \<and> pa_Approved a" by blast
  then have id: "pc_DeviceID claim = deviceID" "pc_DevicePubKey claim = b64std_encode (hl_public H devPriv)"
    using claim_approval[OF lib keys(1,3) created hp] by blast+
  have ses: "ps_State (mp_heap st' a) = PairingClaimed" "ps_ClaimingDeviceID (mp_heap st' a) = deviceID"
      "ps_RelayClaim (mp_heap st' a) = Some (b64std_encode (hl_public H devPriv))"
    using t(6,7) id by (auto simp: Claim_def split: if_splits)
  obtain key64 key auth plain ct ctx sealed where a: "ps_RelayClaim s = Some key64" "result = relay_first_result L R (ps_ClaimingDeviceID s) token auth"
      "marshal result = Some plain" "b64std_decode key64 = Some key"
      "HPKESeal H rnd' key (bytes_of pairingContextLabel) (bytes_of (''pairing-result:'' @ ps_ClaimingDeviceID s)) plain = Some (ct, ctx)"
      "marshalCt ct = Some sealed"
      "calls = [RegisterDeviceCall (register_url esc R) (ps_ClaimingDeviceID s), CompleteClaimCall (complete_url esc R (ps_ID s)) ''approved'' (Some sealed)]"
    using approve_relay_ok[OF approved(3)] by metis
  have k: "key = hl_public H devPriv" "ps_ClaimingDeviceID s = deviceID" using a(1,4) ses approved(1,2) by auto
  have "map_option fst (HPKEOpen H devPriv (bytes_of pairingContextLabel) (bytes_of (''pairing-result:'' @ deviceID)) (Some ct)) = Some plain"
    by (rule seal_open[OF lib(1) keys(2)]) (use a(5) k in simp)
  then show ?thesis using ses a k by (auto simp: relay_first_result_def)
qed


section \<open>The upgrade\<close>

lemma hub_provisioned:
  assumes "relayUpgradeProvisionerForHub sha256 credRnd endpoint routeID bridgeAuth d hub = (r, hub')"
  shows "r = None \<Longrightarrow> hub' = hub"
    and "r = Some p \<Longrightarrow> up_RouteID p = routeID \<and> up_DeviceAuth p = generateRelayCredential credRnd \<and> AuthorizeDevice sha256 routeID d (up_DeviceAuth p) hub'"
    and "d' \<noteq> d \<or> r' \<noteq> routeID \<Longrightarrow> AuthorizeDevice sha256 r' d' auth hub' \<longleftrightarrow> AuthorizeDevice sha256 r' d' auth hub"
  using assms by (auto simp: relayUpgradeProvisionerForHub_def hub_RegisterDevice_def set_route_def set_device_def AuthorizeDevice_def verifyCredential_def
      Let_def split: if_splits option.splits)

definition lookups :: "FileDeviceStore \<Rightarrow> string \<Rightarrow> TrustedDeviceRecord option" where
  "lookups store = (\<lambda>d. LookupByDeviceID d (fs_mem store))"

lemma enable_lookups:
  assumes "file_step f (DirEnable d key gen) store = (ok, store')" and "one_entry (fs_mem store)"
  shows "\<not> ok \<Longrightarrow> lookups store' = lookups store"
    and "ok \<Longrightarrow> lookups store' = (lookups store)(d := map_option (\<lambda>rec. rec\<lparr>td_IdentityPublicKey := key, td_RelayEnabled := True, td_RelayChannelGeneration := gen\<rparr>) (lookups store d))"
  using file_directory.failed[of f "DirEnable d key gen" store] file_directory.effect[of store f "DirEnable d key gen"] assms
  by (simp_all add: lookups_def)

definition relay_bound :: "string \<Rightarrow> TrustedDeviceRecord \<Rightarrow> TrustedDeviceRecord" where
  "relay_bound key rec = rec\<lparr>td_IdentityPublicKey := key, td_RelayEnabled := True, td_RelayChannelGeneration := 1\<rparr>"



text \<open>
  The relay hands out the credential before the bridge stores the binding. If storing fails, the device is refused and gets none, and the one it had from
  an earlier upgrade is no longer accepted.
\<close>

theorem failed_upgrade_revokes:
  assumes "handleRelayUpgradeRPC L f identity bridgeID enabled (Some (relayUpgradeProvisionerForHub sha256 credRnd endpoint routeID bridgeAuth)) (Some d) params
       (store, hub) = (Refused ''relay.identity_binding_failed'', store', hub')"
    and "hub' \<noteq> hub" and "hashCredential sha256 old \<noteq> hashCredential sha256 (generateRelayCredential credRnd)"
  shows "\<not> AuthorizeDevice sha256 routeID d old hub'"
proof -
  obtain p where p: "relayUpgradeProvisionerForHub sha256 credRnd endpoint routeID bridgeAuth d hub = (Some p, hub')"
    using assms(1,2) unfolding handleRelayUpgradeRPC_def
    by (auto simp: Let_def simp del: file_step.simps split: if_splits option.splits prod.splits bool.splits)
  then show ?thesis
    using assms(3) by (auto simp: relayUpgradeProvisionerForHub_def hub_RegisterDevice_def set_route_def set_device_def AuthorizeDevice_def
        verifyCredential_def Let_def split: if_splits option.splits)
qed


section \<open>Concrete runs\<close>

definition relay_demo :: relay_settings where
  "relay_demo = \<lparr>rl_Enabled = True, rl_Endpoint = ''wss://r/'', rl_RouteID = ''rt'', rl_Credential = ''c'', rl_BridgeID = ''b'', rl_DisplayName = ''Mac'',
     rl_LocalURLs = [], rl_Identity = \<lparr>ci_privateKey = replicate 32 9, ci_publicKey = hl_public demo_hpke (replicate 32 9)\<rparr>\<rparr>"

definition open_session :: PairingSession where
  "open_session = \<lparr>ps_ID = ''s'', ps_QRPayload = [], ps_ManualCode = ''m'', ps_State = PairingCreated, ps_BridgeID = ''b'', ps_DisplayName = [],
     ps_LocalURL = [], ps_ClaimingDeviceID = [], ps_ClaimingDeviceName = [], ps_ClaimingPlatform = [], ps_CreatedAt = 0, ps_ExpiresAt = nsec 100,
     ps_DeviceToken = [], ps_DeviceTokenHash = [], ps_DeviceID = [], ps_RelayClaim = None\<rparr>"

definition open_store :: MemoryPairingStore where
  "open_store = \<lparr>mp_heap = (\<lambda>_. open_session), mp_byID = [''s'' \<mapsto> 0], mp_byManualCode = [''m'' \<mapsto> 0]\<rparr>"

definition first_claim :: HpkePairingClaim where
  "first_claim = the (CreatePairingClaim demo_codec_object demo_hpke demo_rfc None (nsec 7) ''d'' ''n'' (hl_public demo_hpke (replicate 32 4))
     (hl_public demo_hpke (replicate 32 9)))"

definition listed_claims :: "relayPendingClaim list" where
  "listed_claims = [\<lparr>pd_ClaimID = ''other'', pd_SealedClaim = [], pd_State = ''pending''\<rparr>, \<lparr>pd_ClaimID = ''s'', pd_SealedClaim = [1], pd_State = ''pending''\<rparr>]"

theorem relay_first_end_to_end_witness:
  "\<exists>st' result calls.
     syncRelayPairingClaim demo_hpke demo_parse demo_rfc (\<lambda>_. Some first_claim) ''x'' (nsec 60) relay_demo (Some (200, Some listed_claims)) 0 open_store = (None, st') \<and>
     approveRelayPairing demo_codec_object demo_hpke (\<lambda>x. x) (\<lambda>_. Some [7]) (\<lambda>ct. Some (ct_Ciphertext ct)) None relay_demo (Some (201, Some ''auth'')) (Some (200, None))
       (mp_heap st' 0) ''token'' = (Some result, calls) \<and>
     ps_ClaimingDeviceID (mp_heap st' 0) = ''d'' \<and> rf_DeviceToken result = ''token''"
proof -
  have created: "CreatePairingClaim demo_codec_object demo_hpke demo_rfc None (nsec 7) ''d'' ''n'' (hl_public demo_hpke (replicate 32 4))
      (hl_public demo_hpke (ci_privateKey (rl_Identity relay_demo))) = Some first_claim"
    and f: "pc_DeviceID first_claim = ''d''" "pc_DevicePubKey first_claim = b64std_encode (hl_public demo_hpke (replicate 32 4))"
      "pc_Timestamp first_claim = unix (nsec 7)" "pc_DeviceName first_claim = ''n''"
    by (simp_all add: first_claim_def relay_demo_def CreatePairingClaim_def HPKESeal_def demo_hpke_def demo_codec_object_def claim_payload_def Let_def)
  have a: "ascii ''d''" and len: "length (ci_privateKey (rl_Identity relay_demo)) = 32" by (simp_all add: ascii_def relay_demo_def)
  have t: "time_sub (nsec 60) (nsec (unix (nsec 7))) \<le> pairingClaimTTL"
    by (simp add: time_sub_def nsec_def unix_def pairingClaimTTL_def minute_def max_duration_def min_duration_def)
  obtain appr where appr: "ProcessPairingClaim demo_hpke demo_parse demo_rfc ''x'' (nsec 60) first_claim (ci_privateKey (rl_Identity relay_demo)) = Some appr" "pa_Approved appr"
    using claim_approval[OF demo_hpke_ok demo_object_ok demo_rfc_inj len a created refl, of "''x''" "nsec 60"] f t by auto
  define st' where "st' = snd (syncRelayPairingClaim demo_hpke demo_parse demo_rfc (\<lambda>_. Some first_claim) ''x'' (nsec 60) relay_demo (Some (200, Some listed_claims)) 0 open_store)"
  have en: "rl_Enabled relay_demo" by (simp add: relay_demo_def)
  have sid: "ps_ID open_session = ''s''" by (simp add: open_session_def)
  have cl: "Claim (nsec 60) ''d'' ''n'' ''ios'' open_session = Inr (open_session\<lparr>ps_State := PairingClaimed, ps_ClaimingDeviceID := ''d'',
      ps_ClaimingDeviceName := ''n'', ps_ClaimingPlatform := ''ios''\<rparr>)"
    by (simp add: Claim_def open_session_def IsExpired_def nsec_def)
  have sync: "syncRelayPairingClaim demo_hpke demo_parse demo_rfc (\<lambda>_. Some first_claim) ''x'' (nsec 60) relay_demo (Some (200, Some listed_claims)) 0 open_store = (None, st')"
    and heap: "mp_heap st' 0 = open_session\<lparr>ps_State := PairingClaimed, ps_ClaimingDeviceID := ''d'', ps_ClaimingDeviceName := ''n'', ps_ClaimingPlatform := ''ios'',
      ps_RelayClaim := Some (b64std_encode (hl_public demo_hpke (replicate 32 4)))\<rparr>"
    using appr by (simp_all add: st'_def syncRelayPairingClaim_def en listed_claims_def open_store_def cl f mp_Update_def Let_def sid)
  define out where "out = approveRelayPairing demo_codec_object demo_hpke (\<lambda>x. x) (\<lambda>_. Some [7]) (\<lambda>ct. Some (ct_Ciphertext ct)) None relay_demo
      (Some (201, Some ''auth'')) (Some (200, None)) (mp_heap st' 0) ''token''"
  have "fst out \<noteq> None"
    by (simp add: out_def approveRelayPairing_def en heap registerRelayDevice_def completeRelayClaim_def HPKESeal_def demo_hpke_def Let_def)
  then obtain result calls where out: "out = (Some result, calls)" by (cases out) auto
  have rel: "\<forall>p \<in> set listed_claims. \<forall>claim. pd_ClaimID p = ps_ID (mp_heap open_store 0) \<and> Some first_claim = Some claim \<longrightarrow> pc_HPKE claim = pc_HPKE first_claim" by simp
  have chg: "ps_RelayClaim (mp_heap st' 0) \<noteq> ps_RelayClaim (mp_heap open_store 0)" by (simp add: heap open_store_def open_session_def)
  have "length (replicate 32 4 :: bytes) = 32" by simp
  from relay_first_end_to_end[OF demo_hpke_ok demo_object_ok demo_rfc_inj len this a created rel sync chg refl refl out[unfolded out_def]]
  show ?thesis using sync out[unfolded out_def] by blast
qed

definition demo_key :: string where "demo_key = b64std_encode (replicate 32 1)"

definition demo_id :: RelayCryptoIdentity where
  "demo_id = \<lparr>ci_privateKey = replicate 32 2, ci_publicKey = replicate 32 2\<rparr>"

definition demo_route :: relayRoute where
  "demo_route = \<lparr>hr_routeID = ''rt'', hr_bridgeAuth = hashCredential (\<lambda>b. b) ''bridge'', hr_online = True, hr_bridgeConn = None,
     hr_devices = [''phone'' \<mapsto> \<lparr>hd_deviceID = ''phone'', hd_deviceAuth = hashCredential (\<lambda>b. b) ''old'', hd_conn = None, hd_revoked = False, hd_revokedAt = 0\<rparr>],
     hr_mailbox = Map.empty, hr_seq = 0, hr_bytes = Map.empty\<rparr>"

definition demo_hub :: RelayHub where
  "demo_hub = \<lparr>hb_routes = [''rt'' \<mapsto> demo_route], hb_sent = (\<lambda>_. [])\<rparr>"

definition demo_upgrade :: "faults \<Rightarrow> upgrade_reply \<times> FileDeviceStore \<times> RelayHub" where
  "demo_upgrade f = handleRelayUpgradeRPC demo_crypto f (Some demo_id) ''b'' True
     (Some (relayUpgradeProvisionerForHub (\<lambda>b. b) [1] ''wss://r'' ''rt'' ''bridge'')) (Some ''phone'') (Some demo_key) (demo_fds, demo_hub)"

lemma demo_phone: "LookupByDeviceID ''phone'' (fs_mem demo_fds) = Some demo_device" "td_RevokedAt demo_device = None" "td_IdentityPublicKey demo_device = []"
  "one_entry (fs_mem demo_fds)"
  by (simp_all add: LookupByDeviceID_def demo_mem one_entry_def) (simp_all add: demo_device_def zero_record_def)

lemma demo_keys: "b64std_decode demo_key = Some (replicate 32 1)" "\<not> isl (DeriveIdentityAuthKey demo_crypto (replicate 32 1) ''b'' ''phone'' demo_id)"
  by (simp add: demo_key_def) (simp add: DeriveIdentityAuthKey_def hkdfExpand_def hkdfDerive_def)

lemma demo_provision:
  "relayUpgradeProvisionerForHub (\<lambda>b. b) [1] ''wss://r'' ''rt'' ''bridge'' ''phone'' demo_hub =
     (Some \<lparr>up_Endpoint = ''wss://r'', up_RouteID = ''rt'', up_DeviceAuth = generateRelayCredential [1]\<rparr>,
      snd (hub_RegisterDevice (\<lambda>b. b) [1] ''rt'' ''phone'' demo_hub))"
  by (simp add: relayUpgradeProvisionerForHub_def AuthorizeBridge_def verifyCredential_def demo_hub_def demo_route_def hub_RegisterDevice_def Let_def)

lemma demo_upgrade_runs:
  "demo_upgrade f = (let (ok, store) = file_step f (DirEnable ''phone'' demo_key 1) demo_fds; hub = snd (hub_RegisterDevice (\<lambda>b. b) [1] ''rt'' ''phone'' demo_hub)
     in if ok then (UpgradedTo \<lparr>ur_RelayEndpoint = ''wss://r'', ur_RouteID = ''rt'', ur_DeviceAuth = generateRelayCredential [1],
          ur_BridgeIdentityPublicKey = b64std_encode (replicate 32 2), ur_BridgeFingerprint = Fingerprint demo_crypto demo_id, ur_ChannelGeneration = 1\<rparr>, store, hub)
        else (Refused ''relay.identity_binding_failed'', store, hub))"
proof -
  have "generateRelayCredential [1] \<noteq> []" by (simp add: generateRelayCredential_def)
  then show ?thesis
    unfolding demo_upgrade_def handleRelayUpgradeRPC_def
    by (simp add: demo_keys demo_phone demo_provision Let_def case_prod_beta del: file_step.simps split: bool.split) (simp add: demo_id_def)
qed


theorem failed_upgrade_revokes_witness:
  "AuthorizeDevice (\<lambda>b. b) ''rt'' ''phone'' ''old'' demo_hub \<and> \<not> AuthorizeDevice (\<lambda>b. b) ''rt'' ''phone'' ''old'' (snd (snd (demo_upgrade (\<lambda>_. True))))"
proof -
  have cr: "hashCredential (\<lambda>b. b) ''old'' \<noteq> hashCredential (\<lambda>b. b) (generateRelayCredential [1])"
    by (simp add: hashCredential_def generateRelayCredential_def bytes_of_def b64url_char_def b64url_alphabet_def)
  have "\<not> fst (file_step (\<lambda>_. True) (DirEnable ''phone'' demo_key 1) demo_fds)"
    by (simp add: fds_EnableRelay_def fds_commit_def with_unit_def EnableRelay_def cloneSnapshot_def demo_mem demo_phone AtomicWriteFile_def split: sum.split)
  then obtain store' where r: "demo_upgrade (\<lambda>_. True) = (Refused ''relay.identity_binding_failed'', store', snd (hub_RegisterDevice (\<lambda>b. b) [1] ''rt'' ''phone'' demo_hub))"
    unfolding demo_upgrade_runs by (cases "file_step (\<lambda>_. True) (DirEnable ''phone'' demo_key 1) demo_fds") (auto simp: Let_def)
  have old: "AuthorizeDevice (\<lambda>b. b) ''rt'' ''phone'' ''old'' demo_hub" by (simp add: AuthorizeDevice_def demo_hub_def demo_route_def verifyCredential_def)
  have new: "\<not> AuthorizeDevice (\<lambda>b. b) ''rt'' ''phone'' ''old'' (snd (hub_RegisterDevice (\<lambda>b. b) [1] ''rt'' ''phone'' demo_hub))"
    using cr by (simp add: AuthorizeDevice_def demo_hub_def demo_route_def verifyCredential_def hub_RegisterDevice_def set_route_def set_device_def Let_def)
  then have "snd (hub_RegisterDevice (\<lambda>b. b) [1] ''rt'' ''phone'' demo_hub) \<noteq> demo_hub" using old by auto
  from failed_upgrade_revokes[OF r[unfolded demo_upgrade_def] this cr] show ?thesis using old r by simp
qed

end
