(* ===== verification/Transcript_Tail.thy ===== *)
theory Transcript_Tail
  imports Session_Registry
begin

text \<open>
  Following a session the bridge did not start (\<^verbatim>\<open>claudeSessionFileRelayLoop\<close>, \<^verbatim>\<open>codexSessionFileRelayLoop\<close> and their state detection in
  \<^verbatim>\<open>go-bridge/handlers.go\<close>): the transcript file is polled, what was appended is read, and what it says about the session goes to the registry and to the
  devices. The JSON decoder is an argument.
\<close>

section \<open>Reading lines\<close>

text \<open>\<^verbatim>\<open>bufio.Scanner\<close> with a buffer of sixteen megabytes: a line that does not fit ends the scan. A carriage return at the end of a line is dropped.\<close>

definition max_line :: nat where "max_line = 16 * 1048576"

definition drop_cr :: "string \<Rightarrow> string" where
  "drop_cr l = (if l \<noteq> [] \<and> last l = CHR 0x0D then butlast l else l)"

fun scan_lines :: "string \<Rightarrow> string \<Rightarrow> string list" where
  "scan_lines cur [] = (if cur = [] \<or> length cur \<ge> max_line then [] else [drop_cr (rev cur)])"
| "scan_lines cur (c # cs) =
     (if c = CHR 0x0A then (if length cur \<ge> max_line then [] else drop_cr (rev cur) # scan_lines [] cs) else scan_lines (c # cur) cs)"


section \<open>The entries of a Claude transcript\<close>

text \<open>
  A decoded line with a message. \<open>te_blocks\<close> is the content if it is a list of blocks, of each the kind and the text; \<open>te_text\<close> if it is a string.
\<close>

record relay_entry =
  te_Type :: string
  te_IsMeta :: bool
  te_StopReason :: string
  te_blocks :: "(string \<times> string) list option"
  te_text :: "string option"

definition relay_text_blocks :: "relay_entry \<Rightarrow> (string \<times> string) list" where
  "relay_text_blocks e = (case te_text e of Some t \<Rightarrow> [(''text'', t)] | None \<Rightarrow> (case te_blocks e of None \<Rightarrow> [] | Some bs \<Rightarrow> bs))"

definition isClaudeResumeMetaRelayEntry :: "relay_entry \<Rightarrow> bool" where
  "isClaudeResumeMetaRelayEntry e \<longleftrightarrow> te_IsMeta e \<and> te_Type e = ''user'' \<and>
     list_ex (\<lambda>(k, t). k = ''text'' \<and> trim_space t = ''Continue from where you left off.'') (relay_text_blocks e)"

definition isClaudeResumeNoResponseRelayEntry :: "relay_entry \<Rightarrow> bool" where
  "isClaudeResumeNoResponseRelayEntry e \<longleftrightarrow> te_Type e = ''assistant'' \<and>
     list_ex (\<lambda>(k, t). k = ''text'' \<and> trim_space t = ''No response requested.'') (relay_text_blocks e)"

definition is_interrupt :: "relay_entry \<Rightarrow> bool" where
  "is_interrupt e \<longleftrightarrow>
     (case te_blocks e of None \<Rightarrow> False
      | Some bs \<Rightarrow> list_ex (\<lambda>(k, t). k = ''text'' \<and> has_prefix (trim_space t) ''[Request interrupted by user'') bs)"

definition is_final :: "string \<Rightarrow> bool" where
  "is_final stop \<longleftrightarrow> stop \<in> {''end_turn'', ''stop_limit'', ''stop_sequence'', ''max_tokens''}"

text \<open>What a scan remembers; \<open>sc_skip\<close> outlives the scan in the loop.\<close>

record tail_scan =
  sc_last :: string
  sc_stop :: string
  sc_interrupt :: bool
  sc_skip :: bool
  sc_new :: bool

definition start_scan :: "bool \<Rightarrow> tail_scan" where
  "start_scan skip = \<lparr>sc_last = [], sc_stop = [], sc_interrupt = False, sc_skip = skip, sc_new = False\<rparr>"

definition count_entry :: "relay_entry \<Rightarrow> tail_scan \<Rightarrow> tail_scan" where
  "count_entry e s =
     (if te_Type e = ''user'' then s\<lparr>sc_last := ''user'', sc_stop := [], sc_interrupt := is_interrupt e, sc_new := True\<rparr>
      else if te_Type e = ''assistant'' then s\<lparr>sc_last := ''assistant'', sc_stop := te_StopReason e, sc_interrupt := False, sc_new := True\<rparr>
      else s)"

definition scan_entry :: "relay_entry \<Rightarrow> tail_scan \<Rightarrow> tail_scan" where
  "scan_entry e s =
     (if isClaudeResumeMetaRelayEntry e then s\<lparr>sc_skip := True\<rparr>
      else if sc_skip s then
        (if isClaudeResumeNoResponseRelayEntry e then s\<lparr>sc_skip := False\<rparr> else count_entry e (s\<lparr>sc_skip := False\<rparr>))
      else count_entry e s)"

text \<open>\<open>parse\<close> decodes a line; \<open>None\<close> also stands for an entry without message.\<close>

definition scan_tail :: "(string \<Rightarrow> relay_entry option) \<Rightarrow> string \<Rightarrow> tail_scan \<Rightarrow> tail_scan" where
  "scan_tail parse txt s = fold scan_entry (List.map_filter parse (scan_lines [] txt)) s"

datatype tail_state = TIdle | TRunning | TUnknown

definition scanned_state :: "tail_scan \<Rightarrow> tail_state" where
  "scanned_state s =
     (if sc_interrupt s then TIdle
      else if sc_last s = ''assistant'' then (if is_final (sc_stop s) then TIdle else TRunning)
      else if sc_last s = ''user'' then TRunning else TUnknown)"

definition detectClaudeTranscriptState :: "(string \<Rightarrow> relay_entry option) \<Rightarrow> string option \<Rightarrow> tail_state" where
  "detectClaudeTranscriptState parse content =
     (case content of None \<Rightarrow> TUnknown | Some txt \<Rightarrow> scanned_state (scan_tail parse txt (start_scan False)))"


section \<open>Following a Claude transcript\<close>

text \<open>What is sent to the devices, and the notification recorded for those that are away.\<close>

datatype tail_event = StateChanged string | TurnStarted | TurnCompleted string | Recorded string

text \<open>\<open>tl_done\<close>: the loop has returned.\<close>

record claude_tail =
  tl_offset :: nat
  tl_skip :: bool
  tl_done :: bool
  tl_registry :: sessionRegistry
  tl_events :: "tail_event list"

definition tail_idle :: "gotime \<Rightarrow> string \<Rightarrow> tail_event list \<Rightarrow> claude_tail \<Rightarrow> claude_tail" where
  "tail_idle now k evs t = t\<lparr>tl_registry := markIdle now k (tl_registry t), tl_events := tl_events t @ evs\<rparr>"

definition tail_running :: "gotime \<Rightarrow> string \<Rightarrow> tail_event list \<Rightarrow> claude_tail \<Rightarrow> claude_tail" where
  "tail_running now k evs t = t\<lparr>tl_registry := markRunning now k (tl_registry t), tl_events := tl_events t @ evs\<rparr>"

text \<open>The beginning of the loop: the size, \<open>None\<close> when Stat fails, and the state of what is in the file.\<close>

definition claude_tail_start ::
  "(string \<Rightarrow> relay_entry option) \<Rightarrow> gotime \<Rightarrow> string \<Rightarrow> nat option \<Rightarrow> string option \<Rightarrow> sessionRegistry \<Rightarrow> claude_tail" where
  "claude_tail_start parse now k sz content r =
     (let t = \<lparr>tl_offset = (case sz of None \<Rightarrow> 0 | Some n \<Rightarrow> n), tl_skip = False, tl_done = False, tl_registry = r, tl_events = []\<rparr>
      in case detectClaudeTranscriptState parse content of
           TIdle \<Rightarrow> (tail_idle now k [StateChanged ''idle''] t)\<lparr>tl_done := True\<rparr>
         | TRunning \<Rightarrow> tail_running now k [StateChanged ''running''] t
         | TUnknown \<Rightarrow> t)"

text \<open>What a scan with new content does.\<close>

definition claude_tail_react :: "gotime \<Rightarrow> string \<Rightarrow> tail_scan \<Rightarrow> claude_tail \<Rightarrow> claude_tail" where
  "claude_tail_react now k s t =
     (if sc_last s = ''user'' \<and> \<not> sc_interrupt s then tail_running now k [TurnStarted] t
      else if sc_interrupt s then tail_idle now k [TurnCompleted ''user_interrupt'', StateChanged ''idle''] t
      else if sc_last s = ''assistant'' \<and> is_final (sc_stop s)
      then (tail_idle now k [TurnCompleted ''end_turn'', StateChanged ''idle''] t)\<lparr>tl_done := True\<rparr>
      else t)"

text \<open>
  One tick: the size Stat gives, then the content the file has when it is opened, each \<open>None\<close> on failure. The scan goes to the end of the file, the
  offset to the size seen before.
\<close>

definition claude_tail_tick ::
  "(string \<Rightarrow> relay_entry option) \<Rightarrow> gotime \<Rightarrow> string \<Rightarrow> nat option \<Rightarrow> string option \<Rightarrow> claude_tail \<Rightarrow> claude_tail" where
  "claude_tail_tick parse now k sz content t =
     (if tl_done t then t
      else case sz of
        None \<Rightarrow> t
      | Some n \<Rightarrow>
          (if n \<le> tl_offset t then (if n < tl_offset t then t\<lparr>tl_offset := 0\<rparr> else t)
           else case content of
             None \<Rightarrow> t
           | Some txt \<Rightarrow>
               (let s = scan_tail parse (drop (tl_offset t) txt) (start_scan (tl_skip t)); t = t\<lparr>tl_offset := n, tl_skip := sc_skip s\<rparr>
                in if sc_new s then claude_tail_react now k s t else t)))"


section \<open>Following a Codex transcript\<close>

text \<open>\<open>kind\<close> is the trimmed type of the payload of an event message, \<open>None\<close> for any other line.\<close>

definition scanCodexTranscriptTaskEvents :: "(string \<Rightarrow> string option) \<Rightarrow> string option \<Rightarrow> nat \<Rightarrow> string list" where
  "scanCodexTranscriptTaskEvents kind content offset =
     (case content of
        None \<Rightarrow> []
      | Some txt \<Rightarrow> filter (\<lambda>k. k = ''task_started'' \<or> k = ''task_complete'') (List.map_filter kind (scan_lines [] (drop offset txt))))"

definition task_state :: "string list \<Rightarrow> tail_state" where
  "task_state evs = fold (\<lambda>k s. if k = ''task_started'' then TRunning else if k = ''task_complete'' then TIdle else s) evs TUnknown"

definition detectCodexTranscriptTaskState :: "(string \<Rightarrow> string option) \<Rightarrow> string option \<Rightarrow> tail_state" where
  "detectCodexTranscriptTaskState kind content = task_state (scanCodexTranscriptTaskEvents kind content 0)"

definition codex_tail_start :: "(string \<Rightarrow> string option) \<Rightarrow> gotime \<Rightarrow> string \<Rightarrow> nat option \<Rightarrow> string option \<Rightarrow> sessionRegistry \<Rightarrow> claude_tail" where
  "codex_tail_start kind now k sz content r =
     (let t = \<lparr>tl_offset = (case sz of None \<Rightarrow> 0 | Some n \<Rightarrow> n), tl_skip = False, tl_done = False, tl_registry = r, tl_events = []\<rparr>
      in case detectCodexTranscriptTaskState kind content of
           TIdle \<Rightarrow> (tail_idle now k [TurnCompleted ''task_complete'', StateChanged ''idle''] t)\<lparr>tl_done := True\<rparr>
         | TRunning \<Rightarrow> tail_running now k [StateChanged ''running''] t
         | TUnknown \<Rightarrow> t)"

fun codex_tail_react :: "gotime \<Rightarrow> string \<Rightarrow> string list \<Rightarrow> claude_tail \<Rightarrow> claude_tail" where
  "codex_tail_react now k [] t = t"
| "codex_tail_react now k (e # es) t =
     (if e = ''task_started'' then codex_tail_react now k es (tail_running now k [TurnStarted, StateChanged ''running''] t)
      else if e = ''task_complete'' then (tail_idle now k [TurnCompleted ''task_complete'', StateChanged ''idle'', Recorded ''task_complete''] t)\<lparr>tl_done := True\<rparr>
      else codex_tail_react now k es t)"

definition codex_tail_tick ::
  "(string \<Rightarrow> string option) \<Rightarrow> gotime \<Rightarrow> string \<Rightarrow> nat option \<Rightarrow> string option \<Rightarrow> claude_tail \<Rightarrow> claude_tail" where
  "codex_tail_tick kind now k sz content t =
     (if tl_done t then t
      else case sz of
        None \<Rightarrow> t
      | Some n \<Rightarrow>
          (if n \<le> tl_offset t then (if n < tl_offset t then t\<lparr>tl_offset := 0\<rparr> else t)
           else codex_tail_react now k (scanCodexTranscriptTaskEvents kind content (tl_offset t)) (t\<lparr>tl_offset := n\<rparr>)))"


section \<open>Whole lines\<close>

definition whole :: "string \<Rightarrow> bool" where
  "whole txt \<longleftrightarrow> txt = [] \<or> last txt = CHR 0x0A"

text \<open>No line is too long for the scanner.\<close>

fun short_lines :: "nat \<Rightarrow> string \<Rightarrow> bool" where
  "short_lines n [] = (n < max_line)"
| "short_lines n (c # cs) = (if c = CHR 0x0A then n < max_line \<and> short_lines 0 cs else short_lines (Suc n) cs)"

lemma scan_lines_append:
  "short_lines (length cur) (a @ b) \<Longrightarrow> a \<noteq> [] \<Longrightarrow> last a = CHR 0x0A \<Longrightarrow> scan_lines cur (a @ b) = scan_lines cur a @ scan_lines [] b"
proof (induction a arbitrary: cur)
  case (Cons c a)
  have m: "(0 :: nat) < max_line" by (simp add: max_line_def)
  show ?case
  proof (cases "a = []")
    case True
    then show ?thesis using Cons.prems m by auto
  next
    case False
    then show ?thesis using Cons.prems Cons.IH[of "[]"] Cons.IH[of "c # cur"] by (auto split: if_splits)
  qed
qed simp

lemma map_filter_append: "List.map_filter f (xs @ ys) = List.map_filter f xs @ List.map_filter f ys"
  by (induction xs) (auto simp: List.map_filter_simps split: option.splits)

lemma scan_tail_append:
  assumes "whole a" "short_lines 0 (a @ b)"
  shows "scan_tail parse (a @ b) s = scan_tail parse b (scan_tail parse a s)"
proof (cases "a = []")
  case True
  then show ?thesis by (simp add: scan_tail_def List.map_filter_simps)
next
  case False
  then have "scan_lines [] (a @ b) = scan_lines [] a @ scan_lines [] b" using assms scan_lines_append[of "[]" a b] by (simp add: whole_def)
  then show ?thesis by (simp add: scan_tail_def map_filter_append)
qed

text \<open>A scan of the rest against a scan of everything.\<close>

definition same_scan :: "tail_scan \<Rightarrow> tail_scan \<Rightarrow> tail_scan \<Rightarrow> bool" where
  "same_scan s a b \<longleftrightarrow> sc_skip a = sc_skip b \<and> sc_last b = (if sc_new a then sc_last a else sc_last s) \<and>
     sc_stop b = (if sc_new a then sc_stop a else sc_stop s) \<and> sc_interrupt b = (if sc_new a then sc_interrupt a else sc_interrupt s)"

lemma same_scan_entry: "same_scan s a b \<Longrightarrow> same_scan s (scan_entry e a) (scan_entry e b)"
  by (auto simp: same_scan_def scan_entry_def count_entry_def)

lemma same_scan_tail: "same_scan s (scan_tail parse txt (start_scan (sc_skip s))) (scan_tail parse txt s)"
proof -
  have "same_scan s a b \<Longrightarrow> same_scan s (fold scan_entry es a) (fold scan_entry es b)" for es a b
    by (induction es arbitrary: a b) (simp_all add: same_scan_entry)
  moreover have "same_scan s (start_scan (sc_skip s)) s" by (simp add: same_scan_def start_scan_def)
  ultimately show ?thesis by (simp add: scan_tail_def)
qed

lemma same_scan_state: "same_scan s a b \<Longrightarrow> scanned_state b = (if sc_new a then scanned_state a else scanned_state s)"
  by (auto simp: same_scan_def scanned_state_def)


section \<open>What the registry says in the end\<close>

definition file_ticks :: "(string \<Rightarrow> relay_entry option) \<Rightarrow> string \<Rightarrow> (gotime \<times> string) list \<Rightarrow> claude_tail \<Rightarrow> claude_tail" where
  "file_ticks parse k cs t = fold (\<lambda>(now, c). claude_tail_tick parse now k (Some (length c)) (Some c)) cs t"

text \<open>The file grows by whole lines from one tick to the next.\<close>

fun grows :: "string \<Rightarrow> (gotime \<times> string) list \<Rightarrow> bool" where
  "grows c [] = (whole c \<and> short_lines 0 c)"
| "grows c ((now, d) # cs) = (whole c \<and> short_lines 0 c \<and> take (length c) d = c \<and> grows d cs)"

lemma grows_first: "grows c cs \<Longrightarrow> whole c \<and> short_lines 0 c"
  by (cases cs) auto

definition tail_ok :: "(string \<Rightarrow> relay_entry option) \<Rightarrow> string \<Rightarrow> string \<Rightarrow> claude_tail \<Rightarrow> bool" where
  "tail_ok parse k c t \<longleftrightarrow>
     (\<not> tl_done t \<longrightarrow> tl_offset t = length c \<and> tl_skip t = sc_skip (scan_tail parse c (start_scan False))) \<and>
     (tl_done t \<longrightarrow> isIdle k (tl_registry t)) \<and>
     (scanned_state (scan_tail parse c (start_scan False)) = TIdle \<longrightarrow> isIdle k (tl_registry t))"

lemma tail_ok_tick:
  assumes "tail_ok parse k c t" "whole c" "take (length c) d = c" "whole d" "short_lines 0 d"
  shows "tail_ok parse k d (claude_tail_tick parse now k (Some (length d)) (Some d) t)"
proof (cases "tl_done t")
  case True
  then show ?thesis using assms(1) by (simp add: tail_ok_def claude_tail_tick_def)
next
  case False
  define e where "e = drop (length c) d"
  have d: "d = c @ e" using assms(3) append_take_drop_id[of "length c" d] by (simp add: e_def)
  define s where "s = scan_tail parse c (start_scan False)"
  have off: "tl_offset t = length c" "tl_skip t = sc_skip s" and idle: "scanned_state s = TIdle \<longrightarrow> isIdle k (tl_registry t)"
    using assms(1) False by (simp_all add: tail_ok_def s_def)
  have sd: "scan_tail parse d (start_scan False) = scan_tail parse e s" using scan_tail_append[of c e] assms(2,5) by (simp add: d s_def)
  show ?thesis
  proof (cases "e = []")
    case True
    then show ?thesis using assms(1) False off by (simp add: claude_tail_tick_def d)
  next
    case nonempty: False
    define a where "a = scan_tail parse e (start_scan (sc_skip s))"
    have same: "same_scan s a (scan_tail parse e s)" by (simp add: a_def same_scan_tail)
    define t' where "t' = t\<lparr>tl_offset := length d, tl_skip := sc_skip a\<rparr>"
    have tick: "claude_tail_tick parse now k (Some (length d)) (Some d) t = (if sc_new a then claude_tail_react now k a t' else t')"
      using False off nonempty by (simp add: claude_tail_tick_def d a_def t'_def Let_def)
    have skip: "sc_skip (scan_tail parse e s) = sc_skip a" using same by (simp add: same_scan_def)
    have st: "scanned_state (scan_tail parse e s) = (if sc_new a then scanned_state a else scanned_state s)" by (rule same_scan_state[OF same])
    show ?thesis
    proof (cases "sc_new a")
      case True
      have "scanned_state a = TIdle \<longrightarrow> isIdle k (tl_registry (claude_tail_react now k a t'))"
        "tl_done (claude_tail_react now k a t') \<longrightarrow> isIdle k (tl_registry (claude_tail_react now k a t'))"
        using False by (auto simp: claude_tail_react_def scanned_state_def tail_idle_def tail_running_def mark_isIdle t'_def)
      then show ?thesis using True by (simp add: tail_ok_def tick sd skip st) (simp add: claude_tail_react_def tail_idle_def tail_running_def t'_def)
    next
      case old: False
      then show ?thesis using False idle by (simp add: tail_ok_def tick sd skip st t'_def)
    qed
  qed
qed

text \<open>
  While a transcript grows by whole lines, following it by its ends is as good as reading it from the beginning in the direction that matters: whenever the
  file as a whole says that the session is idle, the registry has it idle; and the loop stops only with the session idle.
\<close>

theorem claude_tail_settles:
  assumes "grows c0 cs" and "\<not> sc_skip (scan_tail parse c0 (start_scan False))"
    and "t = file_ticks parse k cs (claude_tail_start parse now k (Some (length c0)) (Some c0) r)"
  shows "(detectClaudeTranscriptState parse (Some (last (c0 # map snd cs))) = TIdle \<longrightarrow> isIdle k (tl_registry t)) \<and> (tl_done t \<longrightarrow> isIdle k (tl_registry t))"
proof -
  define t0 where "t0 = claude_tail_start parse now k (Some (length c0)) (Some c0) r"
  have "tail_ok parse k c0 t0"
    using assms(2) by (auto simp: tail_ok_def t0_def claude_tail_start_def detectClaudeTranscriptState_def tail_idle_def tail_running_def mark_isIdle Let_def
        split: tail_state.splits)
  then have "tail_ok parse k (last (c0 # map snd cs)) (file_ticks parse k cs t0)"
    using assms(1)
  proof (induction cs arbitrary: c0 t0)
    case (Cons x cs)
    obtain n d where x: "x = (n, d)" by (cases x)
    have g: "whole c0" "take (length c0) d = c0" "grows d cs" using Cons.prems(2) by (simp_all add: x)
    have "tail_ok parse k d (claude_tail_tick parse n k (Some (length d)) (Some d) t0)"
      using tail_ok_tick[OF Cons.prems(1) g(1,2)] grows_first[OF g(3)] by simp
    from Cons.IH[OF this g(3)] show ?case by (simp add: x file_ticks_def)
  qed (simp add: file_ticks_def)
  then show ?thesis using assms(3) by (simp add: tail_ok_def t0_def detectClaudeTranscriptState_def)
qed


section \<open>The same for Codex\<close>

definition codex_ticks :: "(string \<Rightarrow> string option) \<Rightarrow> string \<Rightarrow> (gotime \<times> string) list \<Rightarrow> claude_tail \<Rightarrow> claude_tail" where
  "codex_ticks kind k cs t = fold (\<lambda>(now, c). codex_tail_tick kind now k (Some (length c)) (Some c)) cs t"

lemma task_state_append:
  "task_state (xs @ ys) = (case task_state ys of TUnknown \<Rightarrow> task_state xs | s \<Rightarrow> s)" if "set ys \<subseteq> {''task_started'', ''task_complete''}"
  using that by (induction ys rule: rev_induct) (auto simp: task_state_def)

lemma scan_codex_append:
  assumes "whole a" "short_lines 0 (a @ b)"
  shows "scanCodexTranscriptTaskEvents kind (Some (a @ b)) 0 = scanCodexTranscriptTaskEvents kind (Some a) 0 @ scanCodexTranscriptTaskEvents kind (Some (a @ b)) (length a)"
proof (cases "a = []")
  case True
  then show ?thesis by (simp add: scanCodexTranscriptTaskEvents_def List.map_filter_simps)
next
  case False
  then have "scan_lines [] (a @ b) = scan_lines [] a @ scan_lines [] b" using assms scan_lines_append[of "[]" a b] by (simp add: whole_def)
  then show ?thesis by (simp add: scanCodexTranscriptTaskEvents_def map_filter_append)
qed

text \<open>Over the events of one tick: the loop stops at the first end of a task.\<close>

lemma codex_react:
  assumes "\<not> tl_done t" "set es \<subseteq> {''task_started'', ''task_complete''}"
  shows "tl_done (codex_tail_react now k es t) \<longleftrightarrow> ''task_complete'' \<in> set es"
    and "''task_complete'' \<in> set es \<Longrightarrow> isIdle k (tl_registry (codex_tail_react now k es t))"
    and "''task_complete'' \<notin> set es \<Longrightarrow> tl_offset (codex_tail_react now k es t) = tl_offset t \<and>
       (if es = [] then codex_tail_react now k es t = t else \<not> isIdle k (tl_registry (codex_tail_react now k es t)))"
proof -
  have "(tl_done (codex_tail_react now k es t) \<longleftrightarrow> ''task_complete'' \<in> set es) \<and>
    (''task_complete'' \<in> set es \<longrightarrow> isIdle k (tl_registry (codex_tail_react now k es t))) \<and>
    (''task_complete'' \<notin> set es \<longrightarrow> tl_offset (codex_tail_react now k es t) = tl_offset t \<and>
       (if es = [] then codex_tail_react now k es t = t else \<not> isIdle k (tl_registry (codex_tail_react now k es t))))"
    using assms
  proof (induction es arbitrary: t)
    case (Cons e es)
    have r: "\<not> tl_done (tail_running now k evs t)" "tl_offset (tail_running now k evs t) = tl_offset t" for evs using Cons.prems by (simp_all add: tail_running_def)
    show ?case
    proof (cases "e = ''task_started''")
      case True
      show ?thesis
        using Cons.IH[OF r(1), of "[TurnStarted, StateChanged ''running'']"] Cons.prems True r(2)
        by (cases es) (auto simp: tail_running_def mark_running)
    next
      case False
      then show ?thesis using Cons.prems by (auto simp: tail_idle_def mark_isIdle)
    qed
  qed simp
  then show "tl_done (codex_tail_react now k es t) \<longleftrightarrow> ''task_complete'' \<in> set es"
    "''task_complete'' \<in> set es \<Longrightarrow> isIdle k (tl_registry (codex_tail_react now k es t))"
    "''task_complete'' \<notin> set es \<Longrightarrow> tl_offset (codex_tail_react now k es t) = tl_offset t \<and>
       (if es = [] then codex_tail_react now k es t = t else \<not> isIdle k (tl_registry (codex_tail_react now k es t)))"
    by blast+
qed

definition codex_inv :: "(string \<Rightarrow> string option) \<Rightarrow> string \<Rightarrow> string \<Rightarrow> claude_tail \<Rightarrow> bool" where
  "codex_inv kind k c t \<longleftrightarrow>
     (if tl_done t then isIdle k (tl_registry t)
      else tl_offset t = length c \<and> detectCodexTranscriptTaskState kind (Some c) \<noteq> TIdle \<and>
        (detectCodexTranscriptTaskState kind (Some c) = TRunning \<longrightarrow> \<not> isIdle k (tl_registry t)))"

lemma started_only: "set es \<subseteq> {''task_started'', ''task_complete''} \<Longrightarrow> ''task_complete'' \<notin> set es \<Longrightarrow> task_state es = (if es = [] then TUnknown else TRunning)"
  by (induction es rule: rev_induct) (auto simp: task_state_def)

lemma codex_inv_tick:
  assumes "codex_inv kind k c t" "whole c" "take (length c) d = c" "short_lines 0 d"
  shows "codex_inv kind k d (codex_tail_tick kind now k (Some (length d)) (Some d) t)"
proof (cases "tl_done t")
  case True
  then show ?thesis using assms(1) by (simp add: codex_inv_def codex_tail_tick_def)
next
  case False
  define e where "e = drop (length c) d"
  have d: "d = c @ e" using assms(3) append_take_drop_id[of "length c" d] by (simp add: e_def)
  have off: "tl_offset t = length c" using assms(1) False by (simp add: codex_inv_def)
  show ?thesis
  proof (cases "e = []")
    case True
    then show ?thesis using assms(1) False off by (simp add: codex_tail_tick_def d)
  next
    case nonempty: False
    define es where "es = scanCodexTranscriptTaskEvents kind (Some d) (length c)"
    have es: "set es \<subseteq> {''task_started'', ''task_complete''}" by (auto simp: es_def scanCodexTranscriptTaskEvents_def)
    define t' where "t' = t\<lparr>tl_offset := length d\<rparr>"
    have tick: "codex_tail_tick kind now k (Some (length d)) (Some d) t = codex_tail_react now k es t'"
      using False off nonempty by (simp add: codex_tail_tick_def d es_def t'_def)
    have t': "\<not> tl_done t'" "tl_registry t' = tl_registry t" "tl_offset t' = length d" using False by (simp_all add: t'_def)
    have sc: "scanCodexTranscriptTaskEvents kind (Some d) 0 = scanCodexTranscriptTaskEvents kind (Some c) 0 @ es"
      using scan_codex_append[of c e kind] assms(2,4) unfolding es_def d by simp
    have st: "detectCodexTranscriptTaskState kind (Some d) = (case task_state es of TUnknown \<Rightarrow> detectCodexTranscriptTaskState kind (Some c) | s \<Rightarrow> s)"
      unfolding detectCodexTranscriptTaskState_def sc by (rule task_state_append[OF es])
    show ?thesis
    proof (cases "''task_complete'' \<in> set es")
      case True
      then show ?thesis using codex_react[OF t'(1) es, where now = now and k = k] by (simp add: codex_inv_def tick)
    next
      case None: False
      show ?thesis
        using codex_react[OF t'(1) es, where now = now and k = k] None started_only[OF es None] assms(1) False t'
        by (cases "es = []") (simp_all add: codex_inv_def tick st)
    qed
  qed
qed



section \<open>What it misses\<close>

text \<open>A prompt, an interruption, the first and the last answer of a turn, one character each.\<close>

definition demo_entry :: "string \<Rightarrow> relay_entry option" where
  "demo_entry l =
     (if l = ''u'' then Some \<lparr>te_Type = ''user'', te_IsMeta = False, te_StopReason = [], te_blocks = Some [(''text'', ''go on'')], te_text = None\<rparr>
      else if l = ''i'' then Some \<lparr>te_Type = ''user'', te_IsMeta = False, te_StopReason = [], te_blocks = Some [(''text'', ''[Request interrupted by user]'')], te_text = None\<rparr>
      else if l = ''t'' then Some \<lparr>te_Type = ''assistant'', te_IsMeta = False, te_StopReason = ''tool_use'', te_blocks = None, te_text = None\<rparr>
      else if l = ''ee'' then Some \<lparr>te_Type = ''assistant'', te_IsMeta = False, te_StopReason = ''end_turn'', te_blocks = None, te_text = None\<rparr>
      else None)"

definition demo_lines :: "string list \<Rightarrow> string" where
  "demo_lines ls = concat (map (\<lambda>l. l @ [CHR 0x0A]) ls)"

lemma trim_plain: "trim_space ''go on'' = ''go on''" "trim_space ''[Request interrupted by user]'' = ''[Request interrupted by user]''"
  by code_simp+

lemmas tail_eval = scan_tail_def demo_lines_def demo_entry_def List.map_filter_simps max_line_def drop_cr_def scan_entry_def count_entry_def start_scan_def
  isClaudeResumeMetaRelayEntry_def isClaudeResumeNoResponseRelayEntry_def is_interrupt_def relay_text_blocks_def trim_plain has_prefix_def scanned_state_def is_final_def

definition demo_first :: claude_tail where
  "demo_first = claude_tail_start demo_entry 1 ''s'' (Some 2) (Some (demo_lines [''u''])) newSessionRegistry"

lemma demo_first_run: "demo_first = \<lparr>tl_offset = 2, tl_skip = False, tl_done = False, tl_registry = markRunning 1 ''s'' newSessionRegistry, tl_events = [StateChanged ''running'']\<rparr>"
  by (simp add: demo_first_def claude_tail_start_def detectClaudeTranscriptState_def tail_running_def tail_eval)

text \<open>
  A prompt and the beginning of the answer that come in the same tick after an interruption are not reported: the scan ends at the answer, which starts
  nothing, and the session stays idle while the transcript says that it is running.
\<close>

theorem turn_in_one_tick_missed:
  "isIdle ''s'' (tl_registry (file_ticks demo_entry ''s'' [(2, demo_lines [''u'', ''i'']), (3, demo_lines [''u'', ''i'', ''u'', ''t''])] demo_first)) \<and>
   detectClaudeTranscriptState demo_entry (Some (demo_lines [''u'', ''i'', ''u'', ''t''])) = TRunning"
proof -
  have one: "claude_tail_tick demo_entry 2 ''s'' (Some (length (demo_lines [''u'', ''i'']))) (Some (demo_lines [''u'', ''i''])) demo_first =
      \<lparr>tl_offset = 4, tl_skip = False, tl_done = False, tl_registry = markIdle 2 ''s'' (tl_registry demo_first),
       tl_events = [StateChanged ''running'', TurnCompleted ''user_interrupt'', StateChanged ''idle'']\<rparr>"
    by (simp add: claude_tail_tick_def demo_first_run claude_tail_react_def tail_idle_def tail_eval Let_def)
  have "tl_registry (claude_tail_tick demo_entry 3 ''s'' (Some (length (demo_lines [''u'', ''i'', ''u'', ''t'']))) (Some (demo_lines [''u'', ''i'', ''u'', ''t'']))
      \<lparr>tl_offset = 4, tl_skip = False, tl_done = False, tl_registry = r, tl_events = evs\<rparr>) = r" for r evs
    by (simp add: claude_tail_tick_def claude_tail_react_def tail_eval Let_def)
  then have "tl_registry (file_ticks demo_entry ''s'' [(2, demo_lines [''u'', ''i'']), (3, demo_lines [''u'', ''i'', ''u'', ''t''])] demo_first) =
      markIdle 2 ''s'' (tl_registry demo_first)"
    by (simp add: file_ticks_def one)
  then show ?thesis by (simp add: mark_isIdle detectClaudeTranscriptState_def tail_eval)
qed

text \<open>
  The offset goes to the size of the file, not to the end of the last whole line. If a tick falls between the two halves of the line that ends a turn, neither half
  decodes, and the session stays running for ever, however often the finished file is polled.
\<close>

theorem split_line_lost:
  "let t = file_ticks demo_entry ''s'' ((2, demo_lines [''u''] @ ''e'') # replicate n (3, demo_lines [''u'', ''ee''])) demo_first
   in \<not> isIdle ''s'' (tl_registry t) \<and> \<not> tl_done t \<and> detectClaudeTranscriptState demo_entry (Some (demo_lines [''u'', ''ee''])) = TIdle"
proof -
  define c1 where "c1 = demo_lines [''u''] @ ''e''"
  define c2 where "c2 = demo_lines [''u'', ''ee'']"
  define r where "r = markRunning 1 ''s'' newSessionRegistry"
  define st where "st off = \<lparr>tl_offset = off, tl_skip = False, tl_done = False, tl_registry = r, tl_events = [StateChanged ''running'']\<rparr>" for off
  define f where "f = (\<lambda>(now, c). claude_tail_tick demo_entry now ''s'' (Some (length c)) (Some c))"
  have first: "f (2, c1) demo_first = st 3"
    by (simp add: f_def c1_def claude_tail_tick_def demo_first_run tail_eval Let_def st_def r_def)
  have second: "f (3, c2) (st 3) = st 5" by (simp add: f_def c2_def claude_tail_tick_def tail_eval Let_def st_def)
  have third: "f (3, c2) (st 5) = st 5" by (simp add: f_def c2_def claude_tail_tick_def tail_eval Let_def st_def)
  have stays: "fold f (replicate m (3, c2)) (st 5) = st 5" for m
  proof (induction m)
    case (Suc m)
    then show ?case by (simp only: replicate_Suc fold_simps third)
  qed (simp only: replicate_0 fold_simps)
  have "fold f ((2, c1) # replicate n (3, c2)) demo_first \<in> {st 3, st 5}"
  proof (cases n)
    case 0
    then show ?thesis by (simp only: replicate_0 fold_simps first insertI1)
  next
    case (Suc m)
    then have "fold f ((2, c1) # replicate n (3, c2)) demo_first = st 5" by (simp only: replicate_Suc fold_simps first second stays)
    then show ?thesis by simp
  qed
  then have "\<not> isIdle ''s'' (tl_registry (fold f ((2, c1) # replicate n (3, c2)) demo_first)) \<and> \<not> tl_done (fold f ((2, c1) # replicate n (3, c2)) demo_first)"
    by (auto simp: st_def r_def mark_running)
  moreover have "detectClaudeTranscriptState demo_entry (Some c2) = TIdle" by (simp add: c2_def detectClaudeTranscriptState_def tail_eval Let_def)
  ultimately show ?thesis by (simp only: file_ticks_def f_def c1_def c2_def Let_def simp_thms)
qed


section \<open>Concrete runs\<close>

theorem claude_tail_settles_witness:
  "isIdle ''s'' (tl_registry (file_ticks demo_entry ''s'' [(2, demo_lines [''u'', ''t'']), (3, demo_lines [''u'', ''t'', ''ee''])] demo_first))"
proof -
  have "grows (demo_lines [''u'']) [(2, demo_lines [''u'', ''t'']), (3, demo_lines [''u'', ''t'', ''ee''])]" by (simp add: whole_def demo_lines_def max_line_def)
  moreover have "\<not> sc_skip (scan_tail demo_entry (demo_lines [''u'']) (start_scan False))" by (simp add: tail_eval)
  moreover have "length (demo_lines [''u'']) = 2" by (simp add: demo_lines_def)
  moreover have "detectClaudeTranscriptState demo_entry (Some (demo_lines [''u'', ''t'', ''ee''])) = TIdle" by (simp add: detectClaudeTranscriptState_def tail_eval)
  ultimately show ?thesis
    using claude_tail_settles[of "demo_lines [''u'']" "[(2, demo_lines [''u'', ''t'']), (3, demo_lines [''u'', ''t'', ''ee''])]" demo_entry _ "''s''" 1 newSessionRegistry, OF _ _ refl]
    by (simp add: demo_first_def)
qed

definition demo_task :: "string \<Rightarrow> string option" where
  "demo_task l = (if l = ''S'' then Some ''task_started'' else if l = ''C'' then Some ''task_complete'' else None)"


end
