(* ===== verification/Event_Relay.thy ===== *)
theory Event_Relay
  imports Session_Registry Broadcaster Event_Router Device_Trust
begin

text \<open>
  From an agent to the devices: \<^verbatim>\<open>mapAgentEvent\<close> of \<^verbatim>\<open>go-bridge/events.go\<close> turns what an agent says into a message, and the loop
  \<^verbatim>\<open>relayEvents\<close> of \<^verbatim>\<open>go-bridge/handlers.go\<close> keeps the registry, sends the message to its audience, hands milestones to the router for the devices
  that are away, and ends the turn. It composes the registry, the broadcaster, the notifications and the router.
\<close>

section \<open>What agents say\<close>

datatype event_type =
    EventText | EventTextReplace | EventToolUse | EventToolResult | EventPlan | EventResult | EventError | EventPermissionRequest | EventThinking
  | EventTurnStarted | EventContextCompressing | EventContextCompressed | EventContextUsageUpdated | EventQuestionAsked | EventQuestionResolved
  | OtherEvent string

text \<open>The data of a message, as it goes to the JSON encoder; an object is the list of its members.\<close>

datatype event_data = DNull | DBool bool | DInt int | DStr string | DList "event_data list" | DObj "(string \<times> event_data) list"

record file_change =
  fc_Path :: string
  fc_Kind :: string
  fc_Diff :: string
  fc_MovePath :: string

record plan_todo =
  pt_Content :: string
  pt_Status :: string
  pt_Priority :: string

record question_option =
  qo_ID :: string
  qo_Label :: string
  qo_Description :: string

record context_usage =
  cu_UsedTokens :: int
  cu_BaselineTokens :: int
  cu_TotalTokens :: int
  cu_InputTokens :: int
  cu_CachedInputTokens :: int
  cu_OutputTokens :: int
  cu_ReasoningOutputTokens :: int
  cu_ContextWindow :: int

record agent_event =
  ag_Type :: event_type
  ag_Content :: string
  ag_ToolName :: string
  ag_ToolInput :: string
  ag_ToolInputRaw :: event_data
  ag_ToolResult :: string
  ag_ToolStatus :: string
  ag_ToolExitCode :: "int option"
  ag_ToolSuccess :: "bool option"
  ag_SessionID :: string
  ag_RequestID :: string
  ag_Plan :: "plan_todo list"
  ag_Done :: bool
  ag_Error :: "string option"
  ag_InputTokens :: int
  ag_OutputTokens :: int
  ag_ContextUsage :: "context_usage option"
  ag_FileChanges :: "file_change list"
  ag_QuestionID :: string
  ag_QuestionText :: string
  ag_QuestionOpts :: "question_option list"
  ag_Required :: bool
  ag_ThreadID :: string

definition or_default :: "string \<Rightarrow> string \<Rightarrow> string" where
  "or_default d s = (if s = [] then d else s)"

definition member_if :: "bool \<Rightarrow> string \<Rightarrow> string \<Rightarrow> (string \<times> event_data) list" where
  "member_if b k v = (if b then [(k, DStr v)] else [])"

definition fileChangesToWire :: "file_change list \<Rightarrow> event_data list" where
  "fileChangesToWire changes =
     map (\<lambda>c. DObj ([(''path'', DStr (trim_space (fc_Path c))), (''kind'', DStr (or_default ''edit'' (trim_space (fc_Kind c))))]
         @ member_if (fc_Diff c \<noteq> []) ''diff'' (fc_Diff c) @ member_if (fc_MovePath c \<noteq> []) ''movePath'' (fc_MovePath c)))
       (filter (\<lambda>c. trim_space (fc_Path c) \<noteq> []) changes)"

definition todosToWire :: "plan_todo list \<Rightarrow> event_data list" where
  "todosToWire todos =
     map (\<lambda>t. DObj [(''content'', DStr (trim_space (pt_Content t))), (''status'', DStr (or_default ''pending'' (trim_space (pt_Status t)))),
         (''priority'', DStr (or_default ''normal'' (trim_space (pt_Priority t))))])
       (filter (\<lambda>t. trim_space (pt_Content t) \<noteq> []) todos)"

definition tool_status :: "agent_event \<Rightarrow> string" where
  "tool_status ev =
     (if ag_ToolStatus ev \<noteq> [] then ag_ToolStatus ev
      else if ag_ToolSuccess ev = Some True then ''completed''
      else case ag_ToolExitCode ev of None \<Rightarrow> ''completed'' | Some n \<Rightarrow> if n \<noteq> 0 then ''failed'' else ''completed'')"

text \<open>Name, data, and whether the turn is over; no name if there is nothing to send.\<close>

definition mapAgentEvent :: "agent_event \<Rightarrow> string \<times> event_data \<times> bool" where
  "mapAgentEvent ev =
     (case ag_Type ev of
        EventText \<Rightarrow> (''text_delta'', DObj [(''delta'', DStr (ag_Content ev))], False)
      | EventTextReplace \<Rightarrow> (''message_updated'', DObj [(''content'', DStr (ag_Content ev))], False)
      | EventThinking \<Rightarrow> (''reasoning_delta'', DObj [(''delta'', DStr (ag_Content ev))], False)
      | EventToolUse \<Rightarrow>
          (''tool_started'',
           DObj ([(''toolName'', DStr (ag_ToolName ev)), (''toolInput'', DStr (ag_ToolInput ev)), (''toolInputRaw'', ag_ToolInputRaw ev)]
             @ member_if (ag_RequestID ev \<noteq> []) ''itemId'' (ag_RequestID ev)), False)
      | EventToolResult \<Rightarrow>
          (''tool_finished'',
           DObj ([(''toolName'', DStr (ag_ToolName ev)), (''toolResult'', DStr (or_default (ag_Content ev) (ag_ToolResult ev))),
               (''toolStatus'', DStr (tool_status ev)), (''toolExitCode'', (case ag_ToolExitCode ev of None \<Rightarrow> DNull | Some n \<Rightarrow> DInt n)),
               (''toolInput'', DStr (ag_ToolInput ev))]
             @ member_if (ag_RequestID ev \<noteq> []) ''itemId'' (ag_RequestID ev)
             @ (let cs = fileChangesToWire (ag_FileChanges ev) in if cs \<noteq> [] then [(''fileChanges'', DList cs)] else [])), False)
      | EventPlan \<Rightarrow> (''todos_updated'', DObj [(''todos'', DList (todosToWire (ag_Plan ev)))], False)
      | EventTurnStarted \<Rightarrow> (''turn_started'', DObj [(''turnId'', DStr [])], False)
      | EventResult \<Rightarrow>
          (if ag_Done ev
           then (''turn_completed'', DObj [(''done'', DBool True), (''text'', DStr (ag_Content ev)), (''inputTokens'', DInt (ag_InputTokens ev)),
                   (''outputTokens'', DInt (ag_OutputTokens ev))], True)
           else (''text_delta'', DObj [(''delta'', DStr (ag_Content ev))], False))
      | EventError \<Rightarrow> (''error'', DObj [(''message'', DStr (case ag_Error ev of None \<Rightarrow> ''unknown error'' | Some m \<Rightarrow> m))], True)
      | EventPermissionRequest \<Rightarrow>
          (''permission_request'', DObj [(''requestId'', DStr (ag_RequestID ev)), (''toolName'', DStr (ag_ToolName ev)),
             (''toolInput'', DStr (ag_ToolInput ev)), (''toolInputRaw'', ag_ToolInputRaw ev)], False)
      | EventContextCompressing \<Rightarrow> (''context_compressing'', DObj [(''sessionId'', DStr (ag_SessionID ev))], False)
      | EventContextCompressed \<Rightarrow> (''context_compressed'', DObj [(''sessionId'', DStr (ag_SessionID ev))], False)
      | EventContextUsageUpdated \<Rightarrow>
          (case ag_ContextUsage ev of
             None \<Rightarrow> ([], DNull, False)
           | Some u \<Rightarrow>
               (''context_usage_updated'',
                DObj [(''context'', DObj [(''usedTokens'', DInt (cu_UsedTokens u)), (''baselineTokens'', DInt (cu_BaselineTokens u)),
                   (''totalTokens'', DInt (cu_TotalTokens u)), (''inputTokens'', DInt (cu_InputTokens u)),
                   (''cachedInputTokens'', DInt (cu_CachedInputTokens u)), (''outputTokens'', DInt (cu_OutputTokens u)),
                   (''reasoningOutputTokens'', DInt (cu_ReasoningOutputTokens u)), (''contextWindow'', DInt (cu_ContextWindow u))])], False))
      | EventQuestionAsked \<Rightarrow>
          (''question_asked'',
           DObj [(''questionId'', DStr (ag_QuestionID ev)), (''questionText'', DStr (ag_QuestionText ev)),
             (''options'', DList (map (\<lambda>o'. DObj [(''id'', DStr (qo_ID o')), (''label'', DStr (qo_Label o')), (''description'', DStr (qo_Description o'))])
                (ag_QuestionOpts ev))),
             (''required'', DBool (ag_Required ev)), (''threadId'', DStr (ag_ThreadID ev)), (''sessionId'', DStr (ag_SessionID ev))], False)
      | EventQuestionResolved \<Rightarrow> (''question_resolved'', DObj [(''questionId'', DStr (ag_QuestionID ev)), (''result'', DStr (ag_Content ev))], False)
      | OtherEvent t \<Rightarrow> ([], DNull, False))"


section \<open>What the loop works on\<close>

text \<open>A message without a number has number zero, which the encoder omits.\<close>

record event_message =
  wm_SessionID :: string
  wm_BackendID :: string
  wm_Event :: string
  wm_Data :: event_data
  wm_Seq :: "64 word"

type_synonym runtime_selection = "string \<times> string \<times> string"

text \<open>
  The fields of \<^verbatim>\<open>Handlers\<close> the loop touches, shared with every other goroutine. \<open>rw_sent\<close> holds what the broadcaster sent, with the connections it
  sent it to; \<open>rw_pushed\<close> what the outbox handed to the relay; \<open>rw_sidecars\<close> what was written for \<^verbatim>\<open>writeClaudeRuntimeSidecar\<close>.
\<close>

record relay_world =
  rw_seq :: "64 word"
  rw_registry :: sessionRegistry
  rw_broadcaster :: Broadcaster
  rw_running :: "string set"
  rw_notified :: PendingNotificationStore
  rw_router :: RelayEventRouter
  rw_pendingRuntime :: "string \<rightharpoonup> runtime_selection"
  rw_sidecars :: "(string \<times> string \<times> runtime_selection) list"
  rw_sent :: "(nat set \<times> event_message) list"
  rw_pushed :: "(string \<times> OutboxEntry) list"

text \<open>
  What a step meets: the clock, the devices of the connections, the store of trusted devices and the sender to the relay, \<open>None\<close> where there is none or
  it fails, the order in which the map of connections is walked, and the sources of the router.
\<close>

record relay_env =
  ne_now :: gotime
  ne_device :: "nat \<Rightarrow> string option"
  ne_order :: "string set \<Rightarrow> string list"
  ne_devices :: "TrustedDeviceRecord list option"
  ne_sender :: "(string \<Rightarrow> nat \<Rightarrow> bool) option"
  ne_lib :: crypto_lib
  ne_codec :: codec
  ne_rnds :: "nat \<Rightarrow> delivery_rnd"
  ne_marshal :: "string \<Rightarrow> string \<Rightarrow> string \<Rightarrow> event_data \<Rightarrow> bytes option"

definition broadcast_message :: "string \<Rightarrow> event_message \<Rightarrow> relay_world \<Rightarrow> relay_world" where
  "broadcast_message dir m w =
     w\<lparr>rw_sent := rw_sent w @ [(send_targets \<lparr>ev_BackendID = wm_BackendID m, ev_SessionID = wm_SessionID m, ev_Directory = dir, ev_Message = []\<rparr> (rw_broadcaster w), m)]\<rparr>"

definition sendSessionEvent :: "string \<Rightarrow> string \<Rightarrow> string \<Rightarrow> event_data \<Rightarrow> relay_world \<Rightarrow> relay_world" where
  "sendSessionEvent sessionID backendID name data w =
     (let w = w\<lparr>rw_seq := rw_seq w + 1\<rparr>
      in broadcast_message (directoryForSession sessionID (rw_registry w))
           \<lparr>wm_SessionID = sessionID, wm_BackendID = backendID, wm_Event = name, wm_Data = data, wm_Seq = rw_seq w\<rparr> w)"

definition idle_message :: "string \<Rightarrow> string \<Rightarrow> event_message" where
  "idle_message sessionID backendID =
     \<lparr>wm_SessionID = sessionID, wm_BackendID = backendID, wm_Event = ''session_state_changed'', wm_Data = DObj [(''state'', DStr ''idle'')], wm_Seq = 0\<rparr>"

definition broadcastIdleState :: "gotime \<Rightarrow> string \<Rightarrow> string \<Rightarrow> relay_world \<Rightarrow> relay_world" where
  "broadcastIdleState now sessionID backendID w =
     (let w = broadcast_message (directoryForSession sessionID (rw_registry w)) (idle_message sessionID backendID) w
      in w\<lparr>rw_registry := markIdle now sessionID (rw_registry w)\<rparr>)"

text \<open>The devices are recorded one after the other; their lists are separate, so the order does not matter.\<close>

definition recordPendingNotification :: "relay_env \<Rightarrow> string \<Rightarrow> string \<Rightarrow> string \<Rightarrow> string \<Rightarrow> relay_world \<Rightarrow> relay_world" where
  "recordPendingNotification E sessionID backendID reason message w =
     (let n = \<lparr>pn_SessionID = sessionID, pn_BackendID = backendID, pn_Directory = directoryForSession sessionID (rw_registry w), pn_Title = [],
            pn_Reason = reason, pn_Message = message, pn_CompletedAt = ne_now E\<rparr>;
          devices = SubscriberDeviceIDs (ne_device E) backendID sessionID (rw_broadcaster w)
      in w\<lparr>rw_notified := (\<lambda>d. if d \<in> devices then record_notification d n (rw_notified w) d else rw_notified w d)\<rparr>)"


section \<open>The devices that are away\<close>

definition mailbox_devices :: "TrustedDeviceRecord list \<Rightarrow> string list" where
  "mailbox_devices devices =
     map td_DeviceID (filter (\<lambda>d. \<not> (td_RevokedAt d \<noteq> None \<or> \<not> td_RelayEnabled d \<or> td_IdentityPublicKey d = [])) devices)"

fun flush_devices :: "(string \<Rightarrow> nat \<Rightarrow> bool) \<Rightarrow> string list \<Rightarrow> relay_world \<Rightarrow> relay_world" where
  "flush_devices send [] w = w"
| "flush_devices send (d # ds) w =
     (let (_, sent, om) = outbox_Flush (send d) d (re_outbox (rw_router w))
      in flush_devices send ds (w\<lparr>rw_router := (rw_router w)\<lparr>re_outbox := om\<rparr>, rw_pushed := rw_pushed w @ map (Pair d) sent\<rparr>))"

definition routeRelayOfflineEvent :: "relay_env \<Rightarrow> string \<Rightarrow> string \<Rightarrow> string \<Rightarrow> event_data \<Rightarrow> relay_world \<Rightarrow> relay_world" where
  "routeRelayOfflineEvent E sessionID backendID name data w =
     (if \<not> IsDurableMilestone name then w
      else case (ne_devices E, ne_sender E) of
        (Some devices, Some send) \<Rightarrow>
          (let online = ActiveDeviceIDs (ne_device E) (rw_broadcaster w); away = mailbox_devices devices
           in if away = [] then w
              else flush_devices send away
                     (w\<lparr>rw_router := RouteEvent (ne_lib E) (ne_codec E) (ne_rnds E) (ne_now E) sessionID backendID name
                          (ne_marshal E sessionID backendID name data) (ne_order E online) away (rw_router w)\<rparr>))
      | _ \<Rightarrow> w)"

definition FlushRelayOutboxes :: "relay_env \<Rightarrow> relay_world \<Rightarrow> relay_world" where
  "FlushRelayOutboxes E w =
     (case (ne_devices E, ne_sender E) of (Some devices, Some send) \<Rightarrow> flush_devices send (mailbox_devices devices) w | _ \<Rightarrow> w)"


section \<open>The loop\<close>

record event_relay =
  er_original :: string
  er_sessionID :: string
  er_done :: bool
  er_world :: relay_world

text \<open>What the select statement receives; with an event comes the session identifier the agent has by then.\<close>

datatype relay_input = Delivered agent_event string | ChannelClosed | IdleTimeout

definition disablesRelayIdleTimeout :: "string \<Rightarrow> bool" where
  "disablesRelayIdleTimeout backendID \<longleftrightarrow> backendID \<in> {''claude'', ''claudecode'', ''codex''}"

definition is_claude :: "string \<Rightarrow> bool" where
  "is_claude backendID \<longleftrightarrow> backendID = ''claude'' \<or> backendID = ''claudecode''"

definition startRelayIfNotRunning :: "string \<Rightarrow> relay_world \<Rightarrow> event_relay option \<times> relay_world" where
  "startRelayIfNotRunning sessionID w =
     (if sessionID \<in> rw_running w then (None, w)
      else let w = w\<lparr>rw_running := insert sessionID (rw_running w)\<rparr>
        in (Some \<lparr>er_original = sessionID, er_sessionID = sessionID, er_done = False, er_world = w\<rparr>, w))"

text \<open>\<^verbatim>\<open>rebindSessionIDIfResolved\<close> with the broadcaster, whose write to a nil map panics (\<open>None\<close>), and the settings of Claude.\<close>

definition rebind_world :: "string \<Rightarrow> string \<Rightarrow> string \<Rightarrow> string \<Rightarrow> relay_world \<Rightarrow> (string \<times> relay_world) option" where
  "rebind_world backendID currentID sessCurrent eventSessionID w =
     (let dir = directoryForSession currentID (rw_registry w);
          (realID, r) = rebindSessionIDIfResolved currentID sessCurrent eventSessionID (rw_registry w)
      in if realID = currentID then Some (currentID, w)
         else case Rebind currentID realID backendID dir (rw_broadcaster w) of
           None \<Rightarrow> None
         | Some b \<Rightarrow>
             (let w = w\<lparr>rw_registry := r, rw_broadcaster := b\<rparr>
              in if is_claude backendID
                 then (let selection = (case rw_pendingRuntime w currentID of None \<Rightarrow> ([], [], []) | Some s \<Rightarrow> s)
                       in Some (realID, w\<lparr>rw_pendingRuntime := (rw_pendingRuntime w)(currentID := None),
                            rw_sidecars := rw_sidecars w @ (if selection = ([], [], []) then [] else [(realID, dir, selection)])\<rparr>))
                 else Some (realID, w)))"

definition sync_state :: "gotime \<Rightarrow> string \<Rightarrow> string \<Rightarrow> event_data \<Rightarrow> sessionRegistry \<Rightarrow> sessionRegistry" where
  "sync_state now k name data r =
     (let member = (case data of DObj ms \<Rightarrow> map_of ms | _ \<Rightarrow> Map.empty)
      in if name = ''turn_started'' then markRunning now k r
         else if name = ''turn_completed'' \<or> name = ''error'' then markIdle now k r
         else if name = ''session_state_changed'' then
           (if member ''state'' \<in> {Some (DStr ''running''), Some (DStr ''requiresAction'')} then markRunning now k r
            else if member ''state'' = Some (DStr ''idle'') then markIdle now k r else r)
         else if name = ''session_status_changed'' then (if member ''isIdle'' = Some (DBool True) then markIdle now k r else r)
         else r)"

definition leave_loop :: "event_relay \<Rightarrow> event_relay" where
  "leave_loop st = st\<lparr>er_done := True, er_world := (er_world st)\<lparr>rw_running := rw_running (er_world st) - {er_original st, er_sessionID st}\<rparr>\<rparr>"

definition finish_turn :: "relay_env \<Rightarrow> string \<Rightarrow> string \<Rightarrow> string \<Rightarrow> string \<Rightarrow> relay_world \<Rightarrow> relay_world" where
  "finish_turn E k backendID reason message w =
     recordPendingNotification E k backendID reason message (broadcastIdleState (ne_now E) k backendID w)"

text \<open>The channel was closed, or nothing came for too long: the turn is declared over unless it is.\<close>

definition give_up :: "relay_env \<Rightarrow> string \<Rightarrow> (string \<times> event_data) list \<Rightarrow> string \<Rightarrow> event_relay \<Rightarrow> event_relay" where
  "give_up E backendID ms reason st =
     (let k = er_sessionID st; w = er_world st
      in leave_loop
           (if isIdle k (rw_registry w) then st
            else st\<lparr>er_world := finish_turn E k backendID ''completed'' reason (sendSessionEvent k backendID ''turn_completed'' (DObj ms) w)\<rparr>))"

definition end_turn :: "relay_env \<Rightarrow> string \<Rightarrow> string \<Rightarrow> string \<Rightarrow> event_relay \<Rightarrow> event_relay" where
  "end_turn E backendID reason message st =
     (let st = st\<lparr>er_world := finish_turn E (er_sessionID st) backendID reason message (er_world st)\<rparr>
      in if is_claude backendID then st else leave_loop st)"

definition forward_message :: "relay_env \<Rightarrow> string \<Rightarrow> string \<Rightarrow> string \<Rightarrow> event_data \<Rightarrow> relay_world \<Rightarrow> relay_world" where
  "forward_message E k backendID name data w =
     (let w = w\<lparr>rw_registry := sync_state (ne_now E) k name data (rw_registry w)\<rparr>;
          w = sendSessionEvent k backendID name data w;
          w = routeRelayOfflineEvent E k backendID name data w
      in w\<lparr>rw_registry := sr_touch (ne_now E) k (rw_registry w)\<rparr>)"

definition forward_event :: "relay_env \<Rightarrow> string \<Rightarrow> agent_event \<Rightarrow> string \<Rightarrow> event_data \<Rightarrow> event_relay \<Rightarrow> event_relay" where
  "forward_event E backendID ev name data st =
     (let st = st\<lparr>er_world := forward_message E (er_sessionID st) backendID name data (er_world st)\<rparr>
      in if ag_Type ev = EventResult \<and> ag_Done ev then end_turn E backendID ''completed'' [] st
         else if ag_Type ev = EventError then end_turn E backendID ''error'' (case ag_Error ev of None \<Rightarrow> [] | Some m \<Rightarrow> m) st
         else st)"

fun relay_step :: "relay_env \<Rightarrow> string \<Rightarrow> relay_input \<Rightarrow> event_relay \<Rightarrow> event_relay option" where
  "relay_step E backendID (Delivered ev sessCurrent) st =
     (if er_done st then Some st
      else case rebind_world backendID (er_sessionID st) sessCurrent (ag_SessionID ev) (er_world st) of
        None \<Rightarrow> None
      | Some (k, w) \<Rightarrow>
          (let st = st\<lparr>er_sessionID := k, er_world := w\<rparr>; (name, data, _) = mapAgentEvent ev
           in if name = [] then Some st else Some (forward_event E backendID ev name data st)))"
| "relay_step E backendID ChannelClosed st =
     (if er_done st then Some st
      else Some (give_up E backendID [(''done'', DBool True), (''reason'', DStr ''events_channel_closed'')] ''events_channel_closed'' st))"
| "relay_step E backendID IdleTimeout st =
     (if er_done st \<or> disablesRelayIdleTimeout backendID then Some st
      else Some (give_up E backendID [(''done'', DBool True), (''text'', DStr [])] ''relay_idle_timeout'' st))"


section \<open>What each part leaves alone\<close>

lemma flush_frame [simp]:
  "rw_seq (flush_devices send ds w) = rw_seq w" "rw_registry (flush_devices send ds w) = rw_registry w"
  "rw_broadcaster (flush_devices send ds w) = rw_broadcaster w" "rw_running (flush_devices send ds w) = rw_running w"
  "rw_notified (flush_devices send ds w) = rw_notified w" "rw_sent (flush_devices send ds w) = rw_sent w"
  by (induction ds arbitrary: w) (simp_all add: case_prod_beta Let_def)

lemma offline_frame [simp]:
  "rw_seq (routeRelayOfflineEvent E k b name data w) = rw_seq w" "rw_registry (routeRelayOfflineEvent E k b name data w) = rw_registry w"
  "rw_broadcaster (routeRelayOfflineEvent E k b name data w) = rw_broadcaster w" "rw_running (routeRelayOfflineEvent E k b name data w) = rw_running w"
  "rw_sent (routeRelayOfflineEvent E k b name data w) = rw_sent w"
  by (simp_all add: routeRelayOfflineEvent_def Let_def split: option.split)

lemma send_frame [simp]:
  "rw_registry (sendSessionEvent k b name data w) = rw_registry w" "rw_broadcaster (sendSessionEvent k b name data w) = rw_broadcaster w"
  "rw_running (sendSessionEvent k b name data w) = rw_running w" "rw_router (sendSessionEvent k b name data w) = rw_router w"
  by (simp_all add: sendSessionEvent_def broadcast_message_def)

lemma finish_frame [simp]:
  "rw_registry (finish_turn E k b reason m w) = markIdle (ne_now E) k (rw_registry w)" "rw_broadcaster (finish_turn E k b reason m w) = rw_broadcaster w"
  "rw_running (finish_turn E k b reason m w) = rw_running w" "rw_router (finish_turn E k b reason m w) = rw_router w"
  by (simp_all add: finish_turn_def recordPendingNotification_def broadcastIdleState_def broadcast_message_def)

lemma leave_frame [simp]:
  "er_sessionID (leave_loop st) = er_sessionID st" "er_original (leave_loop st) = er_original st" "er_done (leave_loop st)"
  "rw_registry (er_world (leave_loop st)) = rw_registry (er_world st)" "rw_broadcaster (er_world (leave_loop st)) = rw_broadcaster (er_world st)"
  "rw_sent (er_world (leave_loop st)) = rw_sent (er_world st)" "rw_router (er_world (leave_loop st)) = rw_router (er_world st)"
  "rw_running (er_world (leave_loop st)) = rw_running (er_world st) - {er_original st, er_sessionID st}"
  by (simp_all add: leave_loop_def)

text \<open>Where a message goes.\<close>

definition message_to :: "string \<Rightarrow> string \<Rightarrow> relay_world \<Rightarrow> nat set" where
  "message_to k b w =
     send_targets \<lparr>ev_BackendID = b, ev_SessionID = k, ev_Directory = directoryForSession k (rw_registry w), ev_Message = []\<rparr> (rw_broadcaster w)"

lemma sent_event: "rw_sent (sendSessionEvent k b name data w) =
    rw_sent w @ [(message_to k b w, \<lparr>wm_SessionID = k, wm_BackendID = b, wm_Event = name, wm_Data = data, wm_Seq = rw_seq w + 1\<rparr>)]"
  by (simp add: sendSessionEvent_def broadcast_message_def message_to_def)

lemma sent_finish: "rw_sent (finish_turn E k b reason m w) = rw_sent w @ [(message_to k b w, idle_message k b)]"
  by (simp add: finish_turn_def recordPendingNotification_def broadcastIdleState_def broadcast_message_def message_to_def idle_message_def)

lemma mapped_ends:
  "ag_Type ev = EventResult \<Longrightarrow> ag_Done ev \<Longrightarrow> fst (mapAgentEvent ev) = ''turn_completed''"
  "ag_Type ev = EventError \<Longrightarrow> fst (mapAgentEvent ev) = ''error''"
  by (simp_all add: mapAgentEvent_def)

lemma mapped_milestone:
  "IsDurableMilestone (fst (mapAgentEvent ev)) \<Longrightarrow> ag_Type ev = EventPlan \<or> ag_Type ev = EventResult \<and> ag_Done ev"
  by (simp add: mapAgentEvent_def IsDurableMilestone_def Let_def split: event_type.splits option.splits if_splits)

lemma rebind_frame:
  assumes "rebind_world b k cur evID w = Some (k', w')"
  shows "rw_running w' = rw_running w" "rw_sent w' = rw_sent w" "rw_router w' = rw_router w" "rw_seq w' = rw_seq w"
  using assms by (auto simp: rebind_world_def case_prod_beta Let_def split: if_splits option.splits)


lemma relay_step_delivered:
  assumes "relay_step E b (Delivered ev cur) st = Some st'" and "\<not> er_done st"
  obtains k w s where "rebind_world b (er_sessionID st) cur (ag_SessionID ev) (er_world st) = Some (k, w)"
    and "s = st\<lparr>er_sessionID := k, er_world := w\<rparr>"
    and "st' = (if fst (mapAgentEvent ev) = [] then s else forward_event E b ev (fst (mapAgentEvent ev)) (fst (snd (mapAgentEvent ev))) s)"
proof -
  obtain k w where r: "rebind_world b (er_sessionID st) cur (ag_SessionID ev) (er_world st) = Some (k, w)"
    using assms by (cases "rebind_world b (er_sessionID st) cur (ag_SessionID ev) (er_world st)") auto
  obtain name data over where m: "mapAgentEvent ev = (name, data, over)" by (cases "mapAgentEvent ev")
  show ?thesis using assms r m by (intro that[OF r refl]) (simp add: Let_def split: if_splits)
qed

declare relay_step.simps(1) [simp del]


section \<open>The end of a turn\<close>

definition ends_turn :: "string \<Rightarrow> relay_input \<Rightarrow> bool" where
  "ends_turn backendID inp =
     (case inp of
        Delivered ev _ \<Rightarrow> ag_Type ev = EventResult \<and> ag_Done ev \<or> ag_Type ev = EventError
      | ChannelClosed \<Rightarrow> True
      | IdleTimeout \<Rightarrow> \<not> disablesRelayIdleTimeout backendID)"

definition is_delivery :: "relay_input \<Rightarrow> bool" where
  "is_delivery inp = (case inp of Delivered _ _ \<Rightarrow> True | _ \<Rightarrow> False)"

text \<open>What goes to the devices, by name.\<close>

definition sent_names :: "event_relay \<Rightarrow> event_relay \<Rightarrow> string list" where
  "sent_names st st' = map (wm_Event \<circ> snd) (drop (length (rw_sent (er_world st))) (rw_sent (er_world st')))"

lemma give_up_ends:
  assumes "st' = give_up E b ms reason st"
  shows "isIdle (er_sessionID st') (rw_registry (er_world st'))" "er_done st'"
    "rw_running (er_world st') = rw_running (er_world st) - {er_original st, er_sessionID st}" "er_sessionID st' = er_sessionID st"
    "sent_names st st' = (if isIdle (er_sessionID st) (rw_registry (er_world st)) then [] else [''turn_completed'', ''session_state_changed''])"
    "rw_router (er_world st') = rw_router (er_world st)"
  unfolding assms by (simp_all add: give_up_def Let_def mark_isIdle sent_names_def sent_finish sent_event idle_message_def)

lemma end_turn_ends:
  assumes "st' = end_turn E b reason m st"
  shows "isIdle (er_sessionID st') (rw_registry (er_world st'))" "er_done st' \<longleftrightarrow> er_done st \<or> \<not> is_claude b"
    "rw_running (er_world st') = (if is_claude b then rw_running (er_world st) else rw_running (er_world st) - {er_original st, er_sessionID st})"
    "er_sessionID st' = er_sessionID st" "er_original st' = er_original st"
    "rw_sent (er_world st') = rw_sent (er_world st) @ [(message_to (er_sessionID st) b (er_world st), idle_message (er_sessionID st) b)]"
    "rw_router (er_world st') = rw_router (er_world st)" "rw_broadcaster (er_world st') = rw_broadcaster (er_world st)"
    "rw_registry (er_world st') = markIdle (ne_now E) (er_sessionID st) (rw_registry (er_world st))"
  unfolding assms end_turn_def Let_def by (simp_all add: sent_finish mark_isIdle)

lemma forward_message_frame [simp]:
  "rw_running (forward_message E k b name data w) = rw_running w" "rw_broadcaster (forward_message E k b name data w) = rw_broadcaster w"
  by (simp_all add: forward_message_def Let_def)

lemma sent_forward: "rw_sent (forward_message E k b name data w) = rw_sent w @
    [(message_to k b (w\<lparr>rw_registry := sync_state (ne_now E) k name data (rw_registry w)\<rparr>),
      \<lparr>wm_SessionID = k, wm_BackendID = b, wm_Event = name, wm_Data = data, wm_Seq = rw_seq w + 1\<rparr>)]"
  by (simp add: forward_message_def Let_def sent_event)

lemma router_forward:
  "\<not> IsDurableMilestone name \<Longrightarrow> rw_router (forward_message E k b name data w) = rw_router w"
  by (simp add: forward_message_def Let_def routeRelayOfflineEvent_def)

lemma forward_event_router: "rw_router (er_world (forward_event E b ev name data st)) = rw_router (forward_message E (er_sessionID st) b name data (er_world st))"
  by (simp add: forward_event_def Let_def end_turn_ends(7)[OF refl])

lemma forward_ends:
  assumes "st' = forward_event E b ev name data st" and "ag_Type ev = EventResult \<and> ag_Done ev \<or> ag_Type ev = EventError"
  shows "isIdle (er_sessionID st') (rw_registry (er_world st'))" "er_done st' \<longleftrightarrow> er_done st \<or> \<not> is_claude b"
    "rw_running (er_world st') = (if is_claude b then rw_running (er_world st) else rw_running (er_world st) - {er_original st, er_sessionID st})"
    "er_sessionID st' = er_sessionID st" "sent_names st st' = [name, ''session_state_changed'']"
proof -
  define s where "s = st\<lparr>er_world := forward_message E (er_sessionID st) b name data (er_world st)\<rparr>"
  obtain reason m where e: "st' = end_turn E b reason m s"
    using assms(2) unfolding assms(1) forward_event_def Let_def s_def[symmetric] by auto
  note F = end_turn_ends[OF e]
  show "isIdle (er_sessionID st') (rw_registry (er_world st'))" by (rule F(1))
  show "er_done st' \<longleftrightarrow> er_done st \<or> \<not> is_claude b" using F(2) by (simp add: s_def)
  show "rw_running (er_world st') = (if is_claude b then rw_running (er_world st) else rw_running (er_world st) - {er_original st, er_sessionID st})"
    using F(3) by (simp add: s_def)
  show "er_sessionID st' = er_sessionID st" using F(4) by (simp add: s_def)
  show "sent_names st st' = [name, ''session_state_changed'']" using F(6) by (simp add: s_def sent_names_def sent_forward idle_message_def)
qed

text \<open>
  C7. However a turn ends, by its result, an error, the end of the channel or silence: the session is idle afterwards, the devices got the end
  of the turn and then the idle state, unless the session was idle when the channel ended, and the loop returns, having given up its
  place under both identifiers; for Claude, whose channel outlives the turn, only the end of the channel does that.
\<close>

theorem turn_end_settles:
  assumes "relay_step E backendID inp st = Some st'" and "\<not> er_done st" and "ends_turn backendID inp"
  shows "isIdle (er_sessionID st') (rw_registry (er_world st')) \<and>
    (er_done st' \<longleftrightarrow> \<not> (is_claude backendID \<and> is_delivery inp)) \<and>
    (er_done st' \<longrightarrow> rw_running (er_world st') \<inter> {er_original st, er_sessionID st'} = {}) \<and>
    (sent_names st st' \<in> {[''turn_completed'', ''session_state_changed''], [''error'', ''session_state_changed'']} \<or>
     sent_names st st' = [] \<and> \<not> is_delivery inp \<and> isIdle (er_sessionID st) (rw_registry (er_world st)))"
proof (cases inp)
  case (Delivered ev cur)
  have t: "ag_Type ev = EventResult \<and> ag_Done ev \<or> ag_Type ev = EventError" using assms(3) by (simp add: ends_turn_def Delivered)
  then have n: "fst (mapAgentEvent ev) \<in> {''turn_completed'', ''error''}" using mapped_ends by blast
  from assms(1)[unfolded Delivered] assms(2) obtain k w s where
    r: "rebind_world backendID (er_sessionID st) cur (ag_SessionID ev) (er_world st) = Some (k, w)" and s_def: "s = st\<lparr>er_sessionID := k, er_world := w\<rparr>"
    and if_st': "st' = (if fst (mapAgentEvent ev) = [] then s else forward_event E backendID ev (fst (mapAgentEvent ev)) (fst (snd (mapAgentEvent ev))) s)"
    by (rule relay_step_delivered)
  have "fst (mapAgentEvent ev) \<noteq> []" using n by auto
  then have st': "st' = forward_event E backendID ev (fst (mapAgentEvent ev)) (fst (snd (mapAgentEvent ev))) s" using if_st' by simp
  have s: "sent_names st st' = sent_names s st'" "er_original s = er_original st" "\<not> er_done s" using rebind_frame(2)[OF r] assms(2) by (simp_all add: sent_names_def s_def)
  note F = forward_ends[OF st' t]
  have "sent_names st st' \<in> {[''turn_completed'', ''session_state_changed''], [''error'', ''session_state_changed'']}" using F(5) n s(1) by auto
  moreover have "er_done st' \<longleftrightarrow> \<not> (is_claude backendID \<and> is_delivery inp)" using F(2) s(3) by (simp add: is_delivery_def Delivered)
  moreover have "er_done st' \<longrightarrow> rw_running (er_world st') \<inter> {er_original st, er_sessionID st'} = {}" using F(2,3,4) s(2,3) by (cases "is_claude backendID") auto
  ultimately show ?thesis using F(1) by blast
next
  case ChannelClosed
  have "st' = give_up E backendID [(''done'', DBool True), (''reason'', DStr ''events_channel_closed'')] ''events_channel_closed'' st"
    using assms(1,2) by (simp add: ChannelClosed)
  note F = give_up_ends[OF this]
  show ?thesis using F(1-4) by (simp add: F(5) is_delivery_def ChannelClosed)
next
  case IdleTimeout
  have "st' = give_up E backendID [(''done'', DBool True), (''text'', DStr [])] ''relay_idle_timeout'' st"
    using assms by (simp add: ends_turn_def IdleTimeout)
  note F = give_up_ends[OF this]
  show ?thesis using F(1-4) by (simp add: F(5) is_delivery_def IdleTimeout)
qed


section \<open>What reaches the devices that are away\<close>

text \<open>
  C39. Only a completed turn and a new plan are handed to the router for the devices that are away. An error, which is called otherwise in the list of
  milestones than in the messages, and a turn that ends because the channel is closed or silent, never reach them.
\<close>

theorem away_not_told:
  assumes "relay_step E backendID inp st = Some st'" and "rw_router (er_world st') \<noteq> rw_router (er_world st)"
  shows "\<exists>ev cur. inp = Delivered ev cur \<and> (ag_Type ev = EventPlan \<or> ag_Type ev = EventResult \<and> ag_Done ev)"
proof (cases inp)
  case (Delivered ev cur)
  have "\<not> er_done st" using assms by (auto simp: Delivered relay_step.simps(1))
  with assms(1)[unfolded Delivered] obtain k w s where
    r: "rebind_world backendID (er_sessionID st) cur (ag_SessionID ev) (er_world st) = Some (k, w)" and s: "s = st\<lparr>er_sessionID := k, er_world := w\<rparr>"
    and st': "st' = (if fst (mapAgentEvent ev) = [] then s else forward_event E backendID ev (fst (mapAgentEvent ev)) (fst (snd (mapAgentEvent ev))) s)"
    by (rule relay_step_delivered)
  have "rw_router (er_world st') \<noteq> rw_router (er_world s)" using assms(2) rebind_frame(3)[OF r] by (simp add: s)
  then have r: "rw_router (forward_message E (er_sessionID s) backendID (fst (mapAgentEvent ev)) (fst (snd (mapAgentEvent ev))) (er_world s)) \<noteq> rw_router (er_world s)"
    by (simp add: st' forward_event_router split: if_splits)
  have "IsDurableMilestone (fst (mapAgentEvent ev))" by (rule ccontr) (use r router_forward in blast)
  then show ?thesis using mapped_milestone Delivered by blast
next
  case ChannelClosed
  then show ?thesis using assms by (auto simp: give_up_ends(6)[OF refl] split: if_splits)
next
  case IdleTimeout
  then show ?thesis using assms by (auto simp: give_up_ends(6)[OF refl] split: if_splits)
qed

text \<open>
  A session gets its real identifier while the loop runs under the pending one. The loop goes on, but is not known under the new
  identifier: whoever asks next starts a second loop on the same channel.
\<close>

theorem second_relay_loop:
  assumes "relay_step E backendID (Delivered ev cur) st = Some st'" and "\<not> er_done st" and "er_sessionID st' \<noteq> er_sessionID st"
    and "er_sessionID st' \<notin> rw_running (er_world st)" and "\<not> ends_turn backendID (Delivered ev cur)"
  shows "\<not> er_done st' \<and> fst (startRelayIfNotRunning (er_sessionID st') (er_world st')) \<noteq> None"
proof -
  from assms(1,2) obtain k w s where
    r: "rebind_world backendID (er_sessionID st) cur (ag_SessionID ev) (er_world st) = Some (k, w)" and s: "s = st\<lparr>er_sessionID := k, er_world := w\<rparr>"
    and st': "st' = (if fst (mapAgentEvent ev) = [] then s else forward_event E backendID ev (fst (mapAgentEvent ev)) (fst (snd (mapAgentEvent ev))) s)"
    by (rule relay_step_delivered)
  have t: "\<not> (ag_Type ev = EventResult \<and> ag_Done ev)" "ag_Type ev \<noteq> EventError" using assms(5) by (auto simp: ends_turn_def)
  then have f: "forward_event E backendID ev name data s = s\<lparr>er_world := forward_message E (er_sessionID s) backendID name data (er_world s)\<rparr>" for name data
    by (auto simp: forward_event_def Let_def)
  have "er_done st' = er_done st" "er_sessionID st' = k" "rw_running (er_world st') = rw_running (er_world st)"
    using rebind_frame(1)[OF r] unfolding st' f by (simp_all add: s)
  then show ?thesis using assms(2,4) by (simp add: startRelayIfNotRunning_def Let_def)
qed


section \<open>The audience\<close>

text \<open>The loop among the other goroutines: subscriptions and departures of connections, and sessions that are marked.\<close>

datatype relay_event = Loop relay_env relay_input | Others broadcaster_op | OthersMark gotime string bool

definition mark_session :: "gotime \<Rightarrow> string \<Rightarrow> bool \<Rightarrow> sessionRegistry \<Rightarrow> sessionRegistry" where
  "mark_session now k running r = (if running then markRunning now k r else markIdle now k r)"

fun relay_run :: "string \<Rightarrow> relay_event list \<Rightarrow> event_relay \<Rightarrow> event_relay option" where
  "relay_run b [] st = Some st"
| "relay_run b (Loop E inp # evs) st = (case relay_step E b inp st of None \<Rightarrow> None | Some st \<Rightarrow> relay_run b evs st)"
| "relay_run b (Others op # evs) st =
     (case broadcaster_step op (rw_broadcaster (er_world st)) of
        None \<Rightarrow> None
      | Some bc \<Rightarrow> relay_run b evs (st\<lparr>er_world := (er_world st)\<lparr>rw_broadcaster := bc\<rparr>\<rparr>))"
| "relay_run b (OthersMark now k running # evs) st =
     relay_run b evs (st\<lparr>er_world := (er_world st)\<lparr>rw_registry := mark_session now k running (rw_registry (er_world st))\<rparr>\<rparr>)"

text \<open>What leaves the subscription of connection \<open>c\<close> alone: anything but its departure, and rebindings.\<close>

fun keeps_conn :: "nat \<Rightarrow> relay_event \<Rightarrow> bool" where
  "keeps_conn c (Others (BUnsubscribe c')) = (c' \<noteq> c)"
| "keeps_conn c (Others (BRebind _ _ _ _)) = False"
| "keeps_conn c _ = True"

text \<open>The session is in the registry under \<open>k\<close>, with its directory.\<close>

definition tracked_in :: "string \<Rightarrow> string \<Rightarrow> sessionRegistry \<Rightarrow> bool" where
  "tracked_in dir k r \<longleftrightarrow> (\<exists>i. sr_sessions r k = Some i \<and> i < sr_next r \<and> ts_directory (sr_store r i) = dir)"

lemma tracked_directory: "tracked_in dir k r \<Longrightarrow> directoryForSession k r = dir"
  by (auto simp: tracked_in_def directoryForSession_def sr_get_def)

lemma tracked_add: "tracked_in dir k r \<Longrightarrow> sr_sessions r l = None \<Longrightarrow> tracked_in dir k (add_tracked l t r)"
proof -
  assume "tracked_in dir k r" "sr_sessions r l = None"
  then obtain i where "sr_sessions r k = Some i" "i < sr_next r" "ts_directory (sr_store r i) = dir" by (auto simp: tracked_in_def)
  moreover from this have "k \<noteq> l" using \<open>sr_sessions r l = None\<close> by auto
  ultimately have "sr_sessions (add_tracked l t r) k = Some i \<and> i < sr_next (add_tracked l t r) \<and> ts_directory (sr_store (add_tracked l t r) i) = dir"
    by (simp add: add_tracked_def bind_key_def)
  then show ?thesis unfolding tracked_in_def by blast
qed

lemma tracked_change: "tracked_in dir k r \<Longrightarrow> (\<And>t. ts_directory (f t) = ts_directory t) \<Longrightarrow> tracked_in dir k (change_tracked i f r)"
  by (auto simp: tracked_in_def change_tracked_def)

lemma tracked_mark [simp]:
  assumes "tracked_in dir k r"
  shows "tracked_in dir k (markRunning now l r)" "tracked_in dir k (markIdle now l r)" "tracked_in dir k (sr_touch now l r)" "tracked_in dir k (mark_session now l b r)"
  using tracked_add[OF assms, of l] tracked_change[OF assms]
  by (cases "sr_sessions r l"; simp add: markRunning_def markIdle_def sr_touch_def mark_session_def assms)+

lemma tracked_sync: "tracked_in dir k r \<Longrightarrow> tracked_in dir k (sync_state now l name data r)"
  by (simp add: sync_state_def Let_def)

lemma tracked_rebind:
  assumes "tracked_in dir k r"
  shows "tracked_in dir new (sr_rebind k new r)"
proof -
  obtain i where "sr_sessions r k = Some i" "i < sr_next r" "ts_directory (sr_store r i) = dir" using assms by (auto simp: tracked_in_def)
  then show ?thesis by (simp add: tracked_in_def sr_rebind_def bind_key_def change_tracked_def)
qed

definition hears :: "nat \<Rightarrow> string \<Rightarrow> string \<Rightarrow> string \<Rightarrow> relay_world \<Rightarrow> bool" where
  "hears c b dir k w \<longleftrightarrow> broadcaster_ok (rw_broadcaster w) \<and> (c, session_key b k dir) \<in> au_subs (audience_of (rw_broadcaster w)) \<and> tracked_in dir k (rw_registry w)"

lemma hears_target:
  assumes "broadcaster_ok (rw_broadcaster w)" "(c, session_key b k dir) \<in> au_subs (audience_of (rw_broadcaster w))" "tracked_in dir k (rw_registry w)"
  shows "c \<in> message_to k b w"
proof -
  define ev where "ev = \<lparr>ev_BackendID = b, ev_SessionID = k, ev_Directory = directoryForSession k (rw_registry w), ev_Message = []\<rparr>"
  have "covers ev (session_key b k dir)" using tracked_directory[OF assms(3)] by (simp add: covers_def session_key_def ev_def)
  then have "c \<in> subscribed (covers ev) (audience_of (rw_broadcaster w))" using assms(2) by (auto simp: subscribed_def)
  then show ?thesis
    unfolding message_to_def ev_def[symmetric] send_targets_audience[OF assms(1)] by (auto simp: audience_targets_def)
qed

lemma hears_rebind:
  assumes "hears c b dir k w"
  obtains k' w' where "rebind_world b k cur evID w = Some (k', w')" "hears c b dir k' w'"
proof -
  obtain realID r where rb: "rebindSessionIDIfResolved k cur evID (rw_registry w) = (realID, r)" by (cases "rebindSessionIDIfResolved k cur evID (rw_registry w)")
  show ?thesis
  proof (cases "realID = k")
    case True
    then show ?thesis using rb assms by (intro that[of k w]) (simp_all add: rebind_world_def)
  next
    case False
    then have r: "r = sr_rebind k realID (rw_registry w)" using rb by (auto simp: rebindSessionIDIfResolved_def Let_def split: if_splits)
    have d: "directoryForSession k (rw_registry w) = dir" using assms tracked_directory by (simp add: hears_def)
    obtain bc where bc: "Rebind k realID b dir (rw_broadcaster w) = Some bc" "broadcaster_ok bc"
        "audience_of bc = audience_step (BRebind k realID b dir) (audience_of (rw_broadcaster w))"
      using refines_rebind[of "rw_broadcaster w" k realID b dir] assms by (auto simp: step_refines_def hears_def)
    have sub: "(c, session_key b realID dir) \<in> au_subs (audience_of bc)"
      using assms False unfolding bc(3) by (auto simp: hears_def Let_def session_key_def)
    have "\<exists>w'. rebind_world b k cur evID w = Some (realID, w') \<and> rw_broadcaster w' = bc \<and> rw_registry w' = r"
      using False rb bc(1) d by (cases "is_claude b") (simp_all add: rebind_world_def Let_def)
    then obtain w' where "rebind_world b k cur evID w = Some (realID, w')" "rw_broadcaster w' = bc" "rw_registry w' = r" by blast
    then show ?thesis using sub bc(2) tracked_rebind[of dir k "rw_registry w" realID] assms r by (intro that[of realID w']) (simp_all add: hears_def)
  qed
qed

text \<open>Everything the loop has sent since the beginning went to \<open>c\<close>.\<close>

definition all_heard :: "nat \<Rightarrow> string \<Rightarrow> nat \<Rightarrow> relay_world \<Rightarrow> bool" where
  "all_heard c b n w \<longleftrightarrow> n \<le> length (rw_sent w) \<and> list_all (\<lambda>(targets, m). c \<in> targets \<and> wm_BackendID m = b) (drop n (rw_sent w))"

lemma all_heard_snoc:
  "all_heard c b n w \<Longrightarrow> rw_sent w' = rw_sent w @ [(T, m)] \<Longrightarrow> c \<in> T \<Longrightarrow> wm_BackendID m = b \<Longrightarrow> all_heard c b n w'"
  by (simp add: all_heard_def)

lemma all_heard_same: "rw_sent w' = rw_sent w \<Longrightarrow> all_heard c b n w' = all_heard c b n w"
  by (simp add: all_heard_def)

definition relay_ok :: "nat \<Rightarrow> string \<Rightarrow> string \<Rightarrow> nat \<Rightarrow> event_relay \<Rightarrow> bool" where
  "relay_ok c b dir n st \<longleftrightarrow> hears c b dir (er_sessionID st) (er_world st) \<and> all_heard c b n (er_world st)"

lemma relay_ok_finish:
  assumes "hears c b dir k w" "all_heard c b n w"
  shows "hears c b dir k (finish_turn E k b reason m w)" "all_heard c b n (finish_turn E k b reason m w)"
proof -
  show "hears c b dir k (finish_turn E k b reason m w)" using assms(1) by (simp add: hears_def)
  show "all_heard c b n (finish_turn E k b reason m w)"
    using all_heard_snoc[OF assms(2) sent_finish] hears_target[of w c b k dir] assms(1) by (simp add: hears_def idle_message_def)
qed

lemma relay_ok_send:
  assumes "hears c b dir k w" "all_heard c b n w"
  shows "hears c b dir k (sendSessionEvent k b name data w)" "all_heard c b n (sendSessionEvent k b name data w)"
proof -
  show "hears c b dir k (sendSessionEvent k b name data w)" using assms(1) by (simp add: hears_def)
  show "all_heard c b n (sendSessionEvent k b name data w)"
    using all_heard_snoc[OF assms(2) sent_event] hears_target[of w c b k dir] assms(1) by (simp add: hears_def)
qed

lemma relay_ok_forward:
  assumes "hears c b dir k w" "all_heard c b n w"
  shows "hears c b dir k (forward_message E k b name data w)" "all_heard c b n (forward_message E k b name data w)"
proof -
  define w' where "w' = w\<lparr>rw_registry := sync_state (ne_now E) k name data (rw_registry w)\<rparr>"
  have w': "hears c b dir k w'" "all_heard c b n w'" using assms by (simp_all add: w'_def hears_def tracked_sync all_heard_def)
  note S = relay_ok_send[OF w', of name data]
  show "hears c b dir k (forward_message E k b name data w)"
    using S(1) by (simp add: forward_message_def Let_def w'_def hears_def)
  show "all_heard c b n (forward_message E k b name data w)"
    using S(2) by (simp add: forward_message_def Let_def w'_def all_heard_def)
qed

lemma relay_ok_world: "relay_ok c b dir n (leave_loop st) = relay_ok c b dir n st"
  by (simp add: relay_ok_def hears_def all_heard_def)

lemma relay_ok_end:
  assumes "relay_ok c b dir n st"
  shows "relay_ok c b dir n (end_turn E b reason m st)"
  using assms relay_ok_finish[of c b dir "er_sessionID st" "er_world st" n E reason m]
  by (simp add: end_turn_def Let_def relay_ok_world) (simp add: relay_ok_def)

lemma relay_ok_give_up:
  assumes "relay_ok c b dir n st"
  shows "relay_ok c b dir n (give_up E b ms reason st)"
proof -
  have w: "hears c b dir (er_sessionID st) (er_world st)" "all_heard c b n (er_world st)" using assms by (simp_all add: relay_ok_def)
  show ?thesis
    using assms relay_ok_finish[OF relay_ok_send[OF w]] by (simp add: give_up_def Let_def relay_ok_world) (simp add: relay_ok_def)
qed

lemma relay_ok_step:
  assumes "relay_ok c b dir n st"
  obtains st' where "relay_step E b inp st = Some st'" "relay_ok c b dir n st'"
proof (cases "er_done st")
  case True
  then show ?thesis using assms by (intro that[of st]) (cases inp; simp add: relay_step.simps(1))+
next
  case False
  show ?thesis
  proof (cases inp)
    case (Delivered ev cur)
    have w: "hears c b dir (er_sessionID st) (er_world st)" "all_heard c b n (er_world st)" using assms by (simp_all add: relay_ok_def)
    obtain k w' where r: "rebind_world b (er_sessionID st) cur (ag_SessionID ev) (er_world st) = Some (k, w')" "hears c b dir k w'"
      by (rule hears_rebind[OF w(1)])
    have h: "all_heard c b n w'" using all_heard_same[OF rebind_frame(2)[OF r(1)]] w(2) by simp
    define s where "s = st\<lparr>er_sessionID := k, er_world := w'\<rparr>"
    obtain name data over where m: "mapAgentEvent ev = (name, data, over)" by (cases "mapAgentEvent ev")
    define s' where "s' = s\<lparr>er_world := forward_message E k b name data w'\<rparr>"
    have ok: "relay_ok c b dir n s" "relay_ok c b dir n s'" using r(2) h relay_ok_forward[OF r(2) h] by (simp_all add: relay_ok_def s_def s'_def)
    have "forward_event E b ev name data s \<in> {s', end_turn E b ''completed'' [] s', end_turn E b ''error'' (case ag_Error ev of None \<Rightarrow> [] | Some m \<Rightarrow> m) s'}"
      by (simp add: forward_event_def s'_def s_def Let_def)
    then have "relay_ok c b dir n (forward_event E b ev name data s)" using ok(2) relay_ok_end[OF ok(2)] by auto
    moreover have "relay_step E b inp st = Some (if name = [] then s else forward_event E b ev name data s)"
      using False r(1) m by (simp add: Delivered relay_step.simps(1) s_def)
    ultimately show ?thesis using ok(1) by (intro that) (assumption, simp)
  next
    case ChannelClosed
    then show ?thesis using False relay_ok_give_up[OF assms] by (intro that[OF _ relay_ok_give_up[OF assms]]) simp
  next
    case IdleTimeout
    show ?thesis
    proof (cases "disablesRelayIdleTimeout b")
      case True
      then show ?thesis using assms IdleTimeout by (intro that[of st]) simp_all
    next
      case no: False
      then show ?thesis using False IdleTimeout by (intro that[OF _ relay_ok_give_up[OF assms]]) simp
    qed
  qed
qed

lemma relay_ok_others:
  assumes "relay_ok c b dir n st" and "keeps_conn c (Others op)"
  obtains bc where "broadcaster_step op (rw_broadcaster (er_world st)) = Some bc"
    "relay_ok c b dir n (st\<lparr>er_world := (er_world st)\<lparr>rw_broadcaster := bc\<rparr>\<rparr>)"
proof -
  obtain bc where bc: "broadcaster_step op (rw_broadcaster (er_world st)) = Some bc" "broadcaster_ok bc"
      "audience_of bc = audience_step op (audience_of (rw_broadcaster (er_world st)))"
    using refines_step[of "rw_broadcaster (er_world st)" op] assms(1) by (auto simp: step_refines_def relay_ok_def hears_def)
  have "(c, session_key b (er_sessionID st) dir) \<in> au_subs (audience_of bc)"
    using assms unfolding bc(3) by (cases op) (simp_all add: relay_ok_def hears_def)
  then show ?thesis using bc(1,2) assms(1) by (intro that[of bc]) (simp_all add: relay_ok_def hears_def all_heard_def)
qed

lemma relay_ok_run:
  assumes "relay_ok c b dir n st" and "list_all (keeps_conn c) evs"
  shows "\<exists>st'. relay_run b evs st = Some st' \<and> relay_ok c b dir n st'"
  using assms
proof (induction evs arbitrary: st)
  case (Cons e evs)
  show ?case
  proof (cases e)
    case (Loop E inp)
    obtain st1 where "relay_step E b inp st = Some st1" "relay_ok c b dir n st1" by (rule relay_ok_step[OF Cons.prems(1)])
    then show ?thesis using Cons.IH[of st1] Cons.prems(2) Loop by simp
  next
    case (Others op)
    have "keeps_conn c (Others op)" using Cons.prems(2) Others by simp
    then obtain bc where "broadcaster_step op (rw_broadcaster (er_world st)) = Some bc"
        "relay_ok c b dir n (st\<lparr>er_world := (er_world st)\<lparr>rw_broadcaster := bc\<rparr>\<rparr>)" by (rule relay_ok_others[OF Cons.prems(1)])
    then show ?thesis using Cons.IH Cons.prems(2) Others by simp
  next
    case (OthersMark now k running)
    have "relay_ok c b dir n (st\<lparr>er_world := (er_world st)\<lparr>rw_registry := mark_session now k running (rw_registry (er_world st))\<rparr>\<rparr>)"
      using Cons.prems(1) by (simp add: relay_ok_def hears_def all_heard_def)
    then show ?thesis using Cons.IH Cons.prems(2) OthersMark by simp
  qed
qed simp



section \<open>Concrete runs\<close>

definition demo_env :: "crypto_lib \<Rightarrow> codec \<Rightarrow> (nat \<Rightarrow> delivery_rnd) \<Rightarrow> relay_env" where
  "demo_env L C rnds =
     \<lparr>ne_now = 5, ne_device = (\<lambda>_. None), ne_order = (\<lambda>_. []),
      ne_devices = Some [zero_record\<lparr>td_DeviceID := ''phone'', td_RelayEnabled := True, td_IdentityPublicKey := ''key''\<rparr>],
      ne_sender = Some (\<lambda>_ _. True), ne_lib = L, ne_codec = C, ne_rnds = rnds, ne_marshal = (\<lambda>_ _ _ _. Some [1])\<rparr>"

definition demo_registry :: sessionRegistry where
  "demo_registry = sr_put 1 ''pending-1'' ''claude'' ''/w'' 7 newSessionRegistry"

definition demo_world :: relay_world where
  "demo_world =
     \<lparr>rw_seq = 0, rw_registry = demo_registry, rw_broadcaster = Subscribe 3 (session_key ''claude'' ''pending-1'' ''/w'') NewBroadcaster, rw_running = {},
      rw_notified = NewPendingNotificationStore, rw_router = NewRelayEventRouter NewObservationManager NewOutboxManager (NewPrekeyStore ''b'') NewPresentationManager,
      rw_pendingRuntime = Map.empty, rw_sidecars = [], rw_sent = [], rw_pushed = []\<rparr>"

definition demo_relay :: event_relay where
  "demo_relay = \<lparr>er_original = ''pending-1'', er_sessionID = ''pending-1'', er_done = False, er_world = demo_world\<lparr>rw_running := {''pending-1''}\<rparr>\<rparr>"

definition demo_event :: "event_type \<Rightarrow> string \<Rightarrow> agent_event" where
  "demo_event t sid =
     \<lparr>ag_Type = t, ag_Content = ''hi'', ag_ToolName = [], ag_ToolInput = [], ag_ToolInputRaw = DNull, ag_ToolResult = [], ag_ToolStatus = [],
      ag_ToolExitCode = None, ag_ToolSuccess = None, ag_SessionID = sid, ag_RequestID = [], ag_Plan = [], ag_Done = True, ag_Error = None, ag_InputTokens = 1,
      ag_OutputTokens = 1, ag_ContextUsage = None, ag_FileChanges = [], ag_QuestionID = [], ag_QuestionText = [], ag_QuestionOpts = [], ag_Required = False,
      ag_ThreadID = []\<rparr>"

lemma no_pending_trim: "trim_space [] = []" "trim_space ''real'' = ''real''" by code_simp+

theorem turn_end_settles_witness:
  "\<forall>L C rnds. \<exists>st'. relay_step (demo_env L C rnds) ''codex'' (Delivered (demo_event EventError []) []) demo_relay = Some st' \<and>
     isIdle (er_sessionID st') (rw_registry (er_world st')) \<and> er_done st'"
proof (intro allI)
  fix L C rnds
  obtain st' where r: "relay_step (demo_env L C rnds) ''codex'' (Delivered (demo_event EventError []) []) demo_relay = Some st'"
    by (simp add: relay_step.simps(1) demo_relay_def rebind_world_def rebindSessionIDIfResolved_def demo_event_def no_pending_trim mapAgentEvent_def Let_def)
  show "\<exists>st'. relay_step (demo_env L C rnds) ''codex'' (Delivered (demo_event EventError []) []) demo_relay = Some st' \<and>
     isIdle (er_sessionID st') (rw_registry (er_world st')) \<and> er_done st'"
    using turn_end_settles[OF r] r by (simp add: demo_relay_def ends_turn_def demo_event_def is_claude_def)
qed

lemma demo_real:
  "rebind_world ''claude'' ''pending-1'' [] ''real'' (demo_world\<lparr>rw_running := {''pending-1''}\<rparr>) \<noteq> None"
  "rebind_world ''claude'' ''pending-1'' [] ''real'' (demo_world\<lparr>rw_running := {''pending-1''}\<rparr>) = Some (k, w) \<Longrightarrow> k = ''real''"
  by (auto simp: rebind_world_def rebindSessionIDIfResolved_def no_pending_trim has_prefix_def Let_def demo_world_def Rebind_def Subscribe_def NewBroadcaster_def
      is_claude_def lookup_set_def split: option.splits if_splits)

theorem second_relay_loop_witness:
  "\<forall>L C rnds. \<exists>st'. relay_step (demo_env L C rnds) ''claude'' (Delivered (demo_event EventText ''real'') []) demo_relay = Some st' \<and>
     fst (startRelayIfNotRunning ''real'' (er_world st')) \<noteq> None"
proof (intro allI)
  fix L C rnds
  obtain k w where w: "rebind_world ''claude'' ''pending-1'' [] ''real'' (demo_world\<lparr>rw_running := {''pending-1''}\<rparr>) = Some (k, w)" using demo_real(1) by auto
  obtain st' where r: "relay_step (demo_env L C rnds) ''claude'' (Delivered (demo_event EventText ''real'') []) demo_relay = Some st'" "er_sessionID st' = ''real''"
    using w demo_real(2)[OF w] by (simp add: relay_step.simps(1) demo_relay_def demo_event_def mapAgentEvent_def Let_def forward_event_def)
  show "\<exists>st'. relay_step (demo_env L C rnds) ''claude'' (Delivered (demo_event EventText ''real'') []) demo_relay = Some st' \<and>
     fst (startRelayIfNotRunning ''real'' (er_world st')) \<noteq> None"
    using second_relay_loop[OF r(1)] r by (auto simp: demo_relay_def ends_turn_def demo_event_def)
qed


theorem away_not_told_witness:
  "\<forall>L C rnds. \<exists>ev cur st'. relay_step (demo_env L C rnds) ''codex'' (Delivered ev cur) demo_relay = Some st' \<and>
     rw_router (er_world st') \<noteq> rw_router (er_world demo_relay) \<and> (ag_Type ev = EventPlan \<or> ag_Type ev = EventResult \<and> ag_Done ev)"
proof (intro allI)
  fix L C rnds
  obtain st' where r: "relay_step (demo_env L C rnds) ''codex'' (Delivered (demo_event EventResult []) []) demo_relay = Some st'"
      "re_presentation (rw_router (er_world st')) ''phone'' \<noteq> None"
    by (simp add: relay_step.simps(1) demo_relay_def rebind_world_def rebindSessionIDIfResolved_def demo_event_def no_pending_trim mapAgentEvent_def
        forward_event_router forward_message_def routeRelayOfflineEvent_def IsDurableMilestone_def demo_env_def mailbox_devices_def zero_record_def RouteEvent_def consult_def
        routeOfflineEvent_def demo_world_def NewRelayEventRouter_def mark_pending_def MarkPendingSync_def outbox_Flush_def NewOutboxManager_def
        sendSessionEvent_def broadcast_message_def case_prod_beta Let_def)
  have "rw_router (er_world st') \<noteq> rw_router (er_world demo_relay)"
    using r(2) by (auto simp: demo_relay_def demo_world_def NewRelayEventRouter_def NewPresentationManager_def)
  with away_not_told[OF r(1)] r(1) show "\<exists>ev cur st'. relay_step (demo_env L C rnds) ''codex'' (Delivered ev cur) demo_relay = Some st' \<and>
     rw_router (er_world st') \<noteq> rw_router (er_world demo_relay) \<and> (ag_Type ev = EventPlan \<or> ag_Type ev = EventResult \<and> ag_Done ev)"
    by blast
qed

end
