(* ===== verification/Spec2Isabelle.thy ===== *)
theory Spec2Isabelle
  imports Rate_Limiter Relay_Mailbox Relay_Claims Relay_Auth Send_Queue Server_Run Activation Relay_Conn Device_Auth
    Pairing_Approval Hub_Props Mailbox_Service Event_Router Reconcile Broadcaster Device_Directory
    Client_Props Hpke_Props Codex_Refresh Session_Catalog Content_Refs Read_File Session_Registry Transcript_Store
    Agent_Env Direct_Server Relay_Pairing Transcript_Tail Event_Relay
begin

text \<open>
  A verification development for the relay and the bridge of CordCode.

  \<^bold>\<open>The program.\<close> A bridge runs beside coding agents on a desktop; phones follow and steer the agents
  through it, directly or through a relay server that must not read what it carries. The relay server
  (\<^verbatim>\<open>relay-server/internal/relay\<close>) authenticates bridges and devices, forwards envelopes between their
  sockets, keeps envelopes for devices that are away, and hands sealed pairing claims over. The bridge
  (\<^verbatim>\<open>go-bridge\<close>) pairs devices, keeps the list of trusted ones, runs an encrypted channel to each, and
  prepares encrypted frames for devices that are away, under keys derived from one-time prekeys. The
  development models these two programs' own logic: storage, protocol state, counters, keys, queues,
  limits. The configuration files, most handlers of client requests and, apart from their start, the agents' drivers talk to external
  processes and are not modelled.

  \<^bold>\<open>Shared vocabulary.\<close> \<open>Prelude\<close> has the Go types (bytes, instants and durations of package time, in
  nanoseconds), string helpers and list lemmas. \<open>Base64\<close> is the standard encoding with its decoder and
  their round trip. \<open>Cursor_Log\<close> is the contract of a mailbox as a locale: pending frames
  sorted by cursor, a high-water mark that never falls, frames only added above it; its client lemmas say that a
  cursor names one frame for ever and that a frame that left never returns. It is interpreted three
  times, on the relay's database, on the bridge's hub and on the mailbox service.

  \<^bold>\<open>The relay server.\<close>
  \<^item> \<open>Rate_Limiter\<close> models \<^verbatim>\<open>limiter.go\<close>: fixed windows per key with lazy cleanup.
  \<^item> \<open>Relay_Store\<close> models \<^verbatim>\<open>store.go\<close>: the five tables as lists of rows, every method of \<^verbatim>\<open>Store\<close> statement by
    statement. A schedule of faults (\<open>faults\<close>, one bit per statement) makes each statement fail or succeed, so
    rollback is part of every theorem. \<open>Store_Integrity\<close> shows that every method keeps keys, references and cursors.
    \<open>Relay_Mailbox\<close>, \<open>Relay_Claims\<close> and \<open>Relay_Auth\<close> hold the properties of the mailbox, of pairing claims
    and of credentials.
  \<^item> \<open>Send_Queue\<close> models \<^verbatim>\<open>socketPeer\<close>: the bounded queue between the goroutine that enqueues and the one that
    writes, as a step relation over their atomic actions; it refines a queue.
  \<^item> \<open>Relay_Server\<close> models \<^verbatim>\<open>server.go\<close>: \<open>ServeHTTP\<close> with every handler, the connection tables, and
    the bodies of the two socket loops on one message. \<open>Activation\<close> treats the replay cache, \<open>Server_Props\<close> what
    each endpoint demands, and \<open>Server_Run\<close> composes all of it into one transition system: a step is a
    request, a message, the end of a connection, a round of a writer or the periodic expiry.

  \<^bold>\<open>The bridge: devices.\<close>
  \<^item> \<open>Device_Trust\<close> models \<^verbatim>\<open>device_token.go\<close>, \<^verbatim>\<open>trusted_device_store.go\<close>, \<^verbatim>\<open>auth_gate.go\<close> and
    \<^verbatim>\<open>core/atomicwrite.go\<close>; the file-backed store commits a copy, and a write may fail at each of its
    steps. \<open>Device_Auth\<close> shows that file and memory agree after every failure and restart and which tokens
    authenticate.
  \<^item> \<open>Pairing\<close> models \<^verbatim>\<open>pairing_session.go\<close>, \<^verbatim>\<open>pairing_hardening.go\<close>, the claim endpoint of
    \<^verbatim>\<open>pairing_handler.go\<close> and the pairing handlers of \<^verbatim>\<open>management_api.go\<close>. \<open>Pairing_Props\<close> has the life of a session,
    the bounds of the guard and the number of guesses it allows; \<open>Pairing_Approval\<close> what a claim needs
    and what approval grants.
  \<^item> \<open>Reconcile\<close>, last section, models \<^verbatim>\<open>device_conn_registry.go\<close>.

  \<^item> \<open>Direct_Server\<close> models the direct connections of \<^verbatim>\<open>server.go\<close>: a step is one critical section of a handler, a closer or
    a cleanup. Who is served was authenticated; the tables hold exactly the connections that have not left; and a connection closed before
    its cleanup is installed never leaves.

  \<^bold>\<open>The bridge: the encrypted channel.\<close>
  \<^item> \<open>Envelope\<close> models \<^verbatim>\<open>relay_envelope.go\<close>: header, associated data, nonce, padding in its 32-bit arithmetic,
    seal and open. \<open>Relay_Conn\<close> models \<^verbatim>\<open>relay_conn.go\<close>: counters and keys of one channel; its
    properties are that no nonce is used twice, that messages are accepted in order and once, and that the channel
    delivers.
  \<^item> \<open>Relay_Identity\<close> models \<^verbatim>\<open>relay_identity.go\<close>: the key file, the authentication key, the handshake.
    \<open>Handshake\<close> shows that both ends derive the same keys and that only a holder of the authentication key
    completes it.
  \<^item> \<open>Bridge_Client\<close> models \<^verbatim>\<open>relay_bridge_client.go\<close> and the revocation handler of \<^verbatim>\<open>management_api.go\<close>: the
    connections of all devices over one socket, with the device store, the registry and the broadcaster. \<open>Client_Props\<close>
    shows that only messages of a completed handshake reach the handlers, that a revoked device is cut off, and the race in
    which it is not.
  \<^item> \<open>Hpke\<close> models \<^verbatim>\<open>relay_hpke.go\<close>: key schedule, sealing in a context, the pairing claim; \<open>Hpke_Props\<close> has the
    agreement with RFC 5869, the distinctness of the nonces and what an approved claim proves.
  \<^item> \<open>Relay_Pairing\<close> models \<^verbatim>\<open>relay_first_pairing.go\<close> and \<^verbatim>\<open>relay_upgrade.go\<close> over the replies of the relay: the claim a device
    leaves at the relay comes out of the session it names, the result can be opened by that device, and an upgrade binds one key for ever.
  \<^item> \<open>Broadcaster\<close> models the connection and subscription tables of \<^verbatim>\<open>types.go\<close> and refines them to sets;
    \<open>Device_Directory\<close> states the contract of a device store as a locale, interpreted on the store in memory and
    on the store in the file.
  \<^item> \<open>Relay_Hub\<close> with \<open>Hub_Props\<close> models \<^verbatim>\<open>relay_hub.go\<close>, the in-process relay, and \<open>Mailbox_Service\<close>
    models \<^verbatim>\<open>relay_mailbox.go\<close>; they share the frame lists of \<open>Mailbox_Frames\<close>.

  \<^bold>\<open>The bridge: devices that are away.\<close>
  \<^item> \<open>Prekeys\<close> models \<^verbatim>\<open>relay_prekey.go\<close>. \<open>Prekey_Props\<close> runs its critical sections in any interleaving and
    shows that counters are handed out once and without gaps; \<open>Prekey_Chain\<close> treats uploads, single use of the
    prekeys, and the chain of epochs.
  \<^item> \<open>Observation\<close> and \<open>Outbox\<close> model \<^verbatim>\<open>relay_observation.go\<close> and \<^verbatim>\<open>relay_presentation.go\<close>: the leased
    subscriptions, which compute a stateless condition, and the bounded buffer, which is a first-in first-out queue.
  \<^item> \<open>Event_Router\<close> models \<^verbatim>\<open>relay_offline.go\<close> and composes prekeys, envelope and outbox: what is queued
    for a device, the device can read.
  \<^item> \<open>Reconcile\<close> models \<^verbatim>\<open>relay_reconcile.go\<close>: frames are applied by consecutive counters, and the first gap stops
    them until a reconciliation.

  \<^bold>\<open>The bridge: histories of sessions.\<close>
  \<^item> \<open>Transcript_Scan\<close>, \<open>Transcript_Spans\<close> and \<open>Transcript_Index\<close> model \<^verbatim>\<open>transcriptindex\<close>: the line scanner, the two
    extractors that find the messages of a transcript (the laws they share are the locale \<open>span_extractor\<close>), the index
    with its lineage of generations, refreshing, byte ranges, replay and cursors. \<open>Index_Props\<close> shows that the byte range of a page
    is the least closed one and that a replay returns the messages of the page; \<open>Refresh_Props\<close> that cursors stay good
    while a transcript grows; \<open>Codex_Refresh\<close> which offsets a refreshed index holds.
  \<^item> \<open>Pagination\<close> models \<^verbatim>\<open>pagination.go\<close>. \<open>Pagination_Props\<close> follows the cursors: a client that pages back gets every
    message once and in order, and every session.
  \<^item> \<open>Session_Catalog\<close> models \<^verbatim>\<open>claude_session_catalog.go\<close>: reading only what changed equals reading everything, and the order
    of the list against the order of the cursors.
  \<^item> \<open>Transcript_Store\<close> models \<^verbatim>\<open>transcriptindex/store.go\<close>: callers of \<^verbatim>\<open>Ensure\<close> that share one task per transcript, the
    semaphore of the builds and the byte budget, as a step function over any number of callers. The budgets hold in every interleaving
    and every caller returns.

  \<^bold>\<open>The bridge: request handlers.\<close> Of \<^verbatim>\<open>handlers.go\<close> five parts have state or checks of their own.
  \<^item> \<open>Session_Registry\<close> models the registry of agent sessions in \<^verbatim>\<open>types.go\<close> with the idle reaper and the critical
    sections of sending and aborting: what the reaper closes, and what it may close while a message is on its way.
  \<^item> \<open>Go_Paths\<close> models the functions of \<^verbatim>\<open>path/filepath\<close> on Unix paths; \<open>Read_File\<close> models \<^verbatim>\<open>handleReadFile\<close> over a view of
    the file system for each system call: what is served lies in the workspace, and what a change between two calls can do.
  \<^item> \<open>Content_Refs\<close> models the table of long tool outputs and \<^verbatim>\<open>handleFetchContentChunk\<close>: fetching chunk after chunk
    gives the stored text, if it is ASCII.
  \<^item> \<open>Event_Relay\<close> models \<^verbatim>\<open>events.go\<close> and \<^verbatim>\<open>relayEvents\<close>, and composes the registry, the broadcaster, the notifications and the
    router: however a turn ends the session is idle and the devices are told; who subscribed under the pending identifier of a session gets every
    message; and what the devices that are away are not told.
  \<^item> \<open>Transcript_Tail\<close> models the two loops that follow a transcript written by somebody else: over a file that grows by whole lines they
    report what reading it from the beginning would say; with half a line they do not.

  \<^bold>\<open>The agents.\<close> \<open>Agent_Env\<close> models how their processes are started (\<^verbatim>\<open>core/message.go\<close>, \<^verbatim>\<open>core/runas.go\<close>,
  \<^verbatim>\<open>agent/claudecode/session.go\<close>, \<^verbatim>\<open>agent/codex/appserver_session.go\<close>): which variables they see, that none of the bridge's secrets is among
  them, and that another user runs them only after the check of that user.

  \<^bold>\<open>Conventions.\<close> A struct is a record with the fields of the struct under a prefix, an error is the left side of a
  sum or \<open>None\<close>, a panic is an error constructor of its own. A method that holds its mutex from beginning to end is a function on
  the state; where a method releases it, its critical sections are separate definitions and the theorems quantify over
  their interleavings (\<open>Send_Queue\<close>, \<open>Relay_Hub\<close>, \<open>Prekey_Props\<close>). Counters are 64-bit words and
  wrap; the theorems that need it assume fewer than \<open>2 ^ 64\<close> operations. The clock, the random source, network
  writes and driver faults are arguments. Go maps are functions to options, or association lists where their
  order or size matters.

  \<^bold>\<open>Parameters.\<close> The AEAD, X25519, HKDF, HMAC, SHA-256, Ed25519, the HPKE library, the JSON codec, the address parser, the file system
  and the agents' readers of transcripts are arguments. What is assumed of them is named: \<open>aead_ok\<close> (opening inverts sealing and only that), \<open>exchange_ok\<close>
  (the two sides of an exchange agree), \<open>hkdf_ok\<close> (the requested length is delivered), \<open>fills\<close> (a random source
  fills the buffer or fails); each is shown satisfiable in the witnesses.

  \<^bold>\<open>Fuel.\<close> Loops are structural recursions on the list they walk, or have a termination proof. \<open>evict_loop\<close> of
  \<open>Relay_Store\<close> terminates by the number of frames the device still has in the store, of which each turn deletes one;
  the loops that widen a byte range or move a replay start terminate by the number of spans still outside, the search of a page by its interval;
  \<open>trim_left_fuel\<close> of the prelude is given the length of the string and drops at least one character per turn.

  \<^bold>\<open>Not modelled.\<close> The rest of \<^verbatim>\<open>handlers.go\<close> and of the agents, the configuration and the proxy, which
  are input, output and dispatch; of \<^verbatim>\<open>server.go\<close> the replies to hello and register, which are built from settings; logging; the keep-alive of the relay's
  sockets. Of the HTTP calls to the relay those of \<^verbatim>\<open>relay_service.go\<close> and \<^verbatim>\<open>relay_management.go\<close>, and the links \<^verbatim>\<open>addRelayFirstPairingPayload\<close> builds.
\<close>

end
